(* ===== verification/Tablefolk_Prelude.thy ===== *)
theory Tablefolk_Prelude
  imports Main "HOL-Library.Word" "HOL-Library.AList" "HOL-Library.Multiset"
begin

text \<open>
  Shared vocabulary of the development: bytes and UTF-16 strings, the values a
  JavaScript parameter of type \<open>unknown\<close> can hold, results of operations that may throw,
  and the generic facts about lists, results and insertion-ordered maps that the
  component theories use.

  A thrown error is a value \<open>Inl e\<close>, a normal return is \<open>Inr v\<close>. A JavaScript \<open>Map\<close>
  is an association list: \<open>map_of\<close> reads it, \<open>AList.update\<close> is \<open>set\<close> (an existing key
  keeps its place, a new key goes last), \<open>AList.delete\<close> is \<open>delete\<close>, and \<open>length\<close> is
  \<open>size\<close>; the components keep its keys distinct.
\<close>

named_theorems result_simps \<open>equations that take results apart\<close>

section \<open>Bytes and strings\<close>

type_synonym byte = "8 word"
type_synonym bytes = "byte list"

text \<open>A JavaScript string is a sequence of 16-bit code units.\<close>

type_synonym ustr = "16 word list"

definition ascii :: "string \<Rightarrow> ustr" where
  "ascii s = map (\<lambda>c. word_of_nat (of_char c)) s"

lemma word16_of_char_inject:
  "(word_of_nat (of_char c) :: 16 word) = word_of_nat (of_char d) \<longleftrightarrow> c = d"
proof
  assume "(word_of_nat (of_char c) :: 16 word) = word_of_nat (of_char d)"
  then have "unat (word_of_nat (of_char c) :: 16 word) = unat (word_of_nat (of_char d) :: 16 word)"
    by simp
  moreover have "unat (word_of_nat (of_char x) :: 16 word) = of_char x" for x :: char
  proof -
    have "(of_char x :: nat) < 65536"
      using nat_of_char_less_256 [of x] by linarith
    then show ?thesis by (simp add: unat_of_nat take_bit_eq_mod del: of_nat_of_char)
  qed
  ultimately have "(of_char c :: nat) = of_char d"
    by simp
  then show "c = d" by simp
qed simp

lemma ascii_inject [simp]: "ascii s = ascii t \<longleftrightarrow> s = t"
proof (induction s arbitrary: t)
  case Nil
  then show ?case by (cases t) (simp_all add: ascii_def)
next
  case (Cons c s)
  then show ?case
    by (cases t) (simp_all add: ascii_def word16_of_char_inject)
qed

lemma length_ascii [simp]: "length (ascii s) = length s"
  by (simp add: ascii_def)

lemma ascii_eq_Nil [simp]: "ascii s = [] \<longleftrightarrow> s = []"
  by (simp add: ascii_def)

text \<open>The decimal text of a natural number, as \<open>String(n)\<close> and templates write it.\<close>

fun natText :: "nat \<Rightarrow> string" where
  "natText n = (if n < 10 then [char_of (48 + n)] else natText (n div 10) @ [char_of (48 + n mod 10)])"

declare natText.simps [simp del]

lemma natText_value: "foldl (\<lambda>a c. a * 10 + (of_char c - 48)) 0 (natText n) = n"
proof (induction n rule: natText.induct)
  case (1 n)
  have digit: "(of_char (char_of (48 + d) :: char) :: nat) = 48 + d" if "d < 10" for d :: nat
    using that by (simp add: of_char_mod_256)
  show ?case
  proof (cases "n < 10")
    case True
    then show ?thesis by (subst natText.simps) (simp add: digit)
  next
    case False
    then show ?thesis using 1 by (subst natText.simps) (simp add: digit)
  qed
qed

lemma natText_inject [simp]: "natText m = natText n \<longleftrightarrow> m = n"
  by (metis natText_value)

section \<open>Values of unknown type\<close>

text \<open>
  A JavaScript number is an integer other than negative zero, negative zero, or a number
  that is no integer (a fraction, an infinity, or not-a-number).
\<close>

datatype jsnum = JInt int | JNegZero | JNonInteger

definition MAX_SAFE_INTEGER :: int where
  "MAX_SAFE_INTEGER = 9007199254740991"

fun isSafeInteger :: "jsnum \<Rightarrow> bool" where
  "isSafeInteger (JInt i) = (- MAX_SAFE_INTEGER \<le> i \<and> i \<le> MAX_SAFE_INTEGER)"
| "isSafeInteger JNegZero = True"
| "isSafeInteger JNonInteger = False"

text \<open>The integer a safe integer stands for; negative zero compares as zero.\<close>

fun numval :: "jsnum \<Rightarrow> int" where
  "numval (JInt i) = i"
| "numval JNegZero = 0"
| "numval JNonInteger = 0"

text \<open>
  An acyclic value of type \<open>unknown\<close>. \<open>JObject\<close> is a plain object given by its enumerable
  own data properties; \<open>JOther\<close> stands for the kinds that are no objects and are not
  listed (a function, a symbol, a big integer).
\<close>

datatype jsval =
    JUndefined
  | JNull
  | JBool bool
  | JNumber jsnum
  | JString ustr
  | JBytes bytes
  | JArray "jsval list"
  | JObject "(ustr \<times> jsval) list"
  | JOther

text \<open>Reading a property of a plain object: a missing one is undefined.\<close>

definition get_prop :: "(ustr \<times> jsval) list \<Rightarrow> string \<Rightarrow> jsval" where
  "get_prop obj key = (case map_of obj (ascii key) of None \<Rightarrow> JUndefined | Some v \<Rightarrow> v)"

text \<open>
  The check \<open>Object.keys(value).sort().join(",") === "a,b,c"\<close> for keys without commas:
  the own keys, which are distinct, are exactly the listed ones.
\<close>

definition keys_are :: "(ustr \<times> 'v) list \<Rightarrow> string list \<Rightarrow> bool" where
  "keys_are obj ks \<longleftrightarrow> distinct (map fst obj) \<and> set (map fst obj) = ascii ` set ks"

section \<open>Results\<close>

definition rbind :: "'e + 'a \<Rightarrow> ('a \<Rightarrow> 'e + 'b) \<Rightarrow> 'e + 'b" where
  "rbind r f = (case r of Inl e \<Rightarrow> Inl e | Inr a \<Rightarrow> f a)"

lemma rbind_Inl [simp]: "rbind (Inl e) f = Inl e"
  by (simp add: rbind_def)

lemma rbind_Inr [simp]: "rbind (Inr a) f = f a"
  by (simp add: rbind_def)

lemma rbind_eq_Inr [result_simps]: "rbind r f = Inr b \<longleftrightarrow> (\<exists>a. r = Inr a \<and> f a = Inr b)"
  by (cases r) simp_all

lemma rbind_eq_Inl [result_simps]:
  "rbind r f = Inl e \<longleftrightarrow> r = Inl e \<or> (\<exists>a. r = Inr a \<and> f a = Inl e)"
  by (cases r) auto

text \<open>\<open>try\<close>/\<open>catch\<close> that replaces the error.\<close>

definition catch_as :: "'e + 'a \<Rightarrow> ('e \<Rightarrow> 'f) \<Rightarrow> 'f + 'a" where
  "catch_as r h = (case r of Inl e \<Rightarrow> Inl (h e) | Inr a \<Rightarrow> Inr a)"

lemma catch_as_Inl [simp]: "catch_as (Inl e) h = Inl (h e)"
  by (simp add: catch_as_def)

lemma catch_as_Inr [simp]: "catch_as (Inr a) h = Inr a"
  by (simp add: catch_as_def)

lemma catch_as_eq_Inr [simp]: "catch_as r h = Inr a \<longleftrightarrow> r = Inr a"
  by (cases r) (simp_all add: catch_as_def)

text \<open>Mapping a function that may throw over an array, left to right.\<close>

fun mapM_res :: "('a \<Rightarrow> 'e + 'b) \<Rightarrow> 'a list \<Rightarrow> 'e + 'b list" where
  "mapM_res f [] = Inr []"
| "mapM_res f (x # xs) = rbind (f x) (\<lambda>y. rbind (mapM_res f xs) (\<lambda>ys. Inr (y # ys)))"

lemma mapM_res_all_Inr:
  "(\<And>x. x \<in> set xs \<Longrightarrow> f x = Inr (g x)) \<Longrightarrow> mapM_res f xs = Inr (map g xs)"
  by (induction xs) simp_all

lemma mapM_res_Inr_iff:
  "mapM_res f xs = Inr ys \<longleftrightarrow> list_all2 (\<lambda>x y. f x = Inr y) xs ys"
proof (induction xs arbitrary: ys)
  case Nil
  then show ?case by auto
next
  case (Cons x xs)
  then show ?case
    by (cases ys) (auto simp: result_simps)
qed

lemma mapM_res_length: "mapM_res f xs = Inr ys \<Longrightarrow> length ys = length xs"
  by (auto simp: mapM_res_Inr_iff dest: list_all2_lengthD)

lemma mapM_res_mem: "mapM_res f xs = Inr ys \<Longrightarrow> y \<in> set ys \<Longrightarrow> \<exists>x \<in> set xs. f x = Inr y"
proof (induction xs arbitrary: ys)
  case (Cons x xs)
  then show ?case by (auto simp: result_simps)
qed simp

lemma mapM_res_cong [fundef_cong]:
  "xs = ys \<Longrightarrow> (\<And>x. x \<in> set ys \<Longrightarrow> f x = g x) \<Longrightarrow> mapM_res f xs = mapM_res g ys"
  by (induction ys arbitrary: xs) auto

text \<open>A loop over an array that updates a state and may throw.\<close>

fun foldM_res :: "('s \<Rightarrow> 'a \<Rightarrow> 'e + 's) \<Rightarrow> 's \<Rightarrow> 'a list \<Rightarrow> 'e + 's" where
  "foldM_res f s [] = Inr s"
| "foldM_res f s (x # xs) = rbind (f s x) (\<lambda>s'. foldM_res f s' xs)"

lemma foldM_res_append:
  "foldM_res f s (xs @ ys) = rbind (foldM_res f s xs) (\<lambda>s'. foldM_res f s' ys)"
  by (induction xs arbitrary: s) (simp_all add: rbind_def split: sum.splits)

lemma foldM_res_invariant:
  assumes "foldM_res f s xs = Inr s'" and "I s"
    and "\<And>s x t. I s \<Longrightarrow> x \<in> set xs \<Longrightarrow> f s x = Inr t \<Longrightarrow> I t"
  shows "I s'"
  using assms
proof (induction xs arbitrary: s)
  case Nil
  then show ?case by simp
next
  case (Cons x xs)
  from Cons.prems(1) obtain t where t: "f s x = Inr t" "foldM_res f t xs = Inr s'"
    by (auto simp: result_simps)
  from Cons.prems(2,3) t(1) have "I t" by auto
  from t(2) this Cons.prems(3) show ?case
    by (rule Cons.IH) auto
qed

section \<open>Insertion-ordered maps\<close>

lemma map_of_AList_update [simp]: "map_of (AList.update k v m) k' = (if k' = k then Some v else map_of m k')"
  by (simp add: update_conv')

lemma map_of_AList_delete [simp]: "map_of (AList.delete k m) k' = (if k' = k then None else map_of m k')"
  by (simp add: delete_conv')

lemma distinct_keys_update:
  "distinct (map fst m) \<Longrightarrow> distinct (map fst (AList.update k v m))"
  by (rule distinct_update)

lemma distinct_keys_delete:
  "distinct (map fst m) \<Longrightarrow> distinct (map fst (AList.delete k m))"
  by (rule distinct_delete)

lemma length_update_new: "map_of m k = None \<Longrightarrow> length (AList.update k v m) = Suc (length m)"
  by (induction m) (auto split: if_splits)

lemma length_update_old: "map_of m k \<noteq> None \<Longrightarrow> length (AList.update k v m) = length m"
  by (induction m) (auto split: if_splits)

lemma update_new: "k \<notin> fst ` set m \<Longrightarrow> AList.update k v m = m @ [(k, v)]"
  by (induction m) auto

section \<open>Lists\<close>

lemma distinct_remove1_mset: "x \<in> set xs \<Longrightarrow> mset (remove1 x xs) = mset xs - {#x#}"
  by simp

text \<open>The position of the first occurrence, as \<open>indexOf\<close> finds it.\<close>

fun index_of :: "'a list \<Rightarrow> 'a \<Rightarrow> nat option" where
  "index_of [] y = None"
| "index_of (x # xs) y = (if x = y then Some 0 else map_option Suc (index_of xs y))"

lemma index_of_None: "index_of xs y = None \<longleftrightarrow> y \<notin> set xs"
  by (induction xs) auto

lemma index_of_Some: "index_of xs y = Some i \<Longrightarrow> i < length xs \<and> xs ! i = y"
  by (induction xs arbitrary: i) (auto split: if_splits)

lemma index_of_nth: "distinct xs \<Longrightarrow> i < length xs \<Longrightarrow> index_of xs (xs ! i) = Some i"
proof (induction xs arbitrary: i)
  case Nil
  then show ?case by simp
next
  case (Cons x xs)
  then show ?case
    by (cases i) (auto simp: nth_mem)
qed

lemma map_filter_append [simp]: "List.map_filter f (xs @ ys) = List.map_filter f xs @ List.map_filter f ys"
  by (simp add: map_filter_def)

lemma map_filter_single [simp]: "List.map_filter f [x] = (case f x of None \<Rightarrow> [] | Some y \<Rightarrow> [y])"
  by (simp add: map_filter_def split: option.splits)

lemma in_map_filter: "y \<in> set (List.map_filter f xs) \<longleftrightarrow> (\<exists>x \<in> set xs. f x = Some y)"
  by (induction xs) (auto simp: map_filter_def)

end
