(* ===== verification/Sasku_Scoring.thy ===== *)
theory Sasku_Scoring
  imports Tablefolk_Prelude
begin

text \<open>
  \<^verbatim>\<open>packages/rules-sasku/src/scoring.ts\<close>: the point values of the cards, the table of
  feasible (card count, point sum) pairs, and the score of a completed hand.
  The table, filled in place by three nested loops, is proved equal to its meaning:
  an entry is set exactly when some sub-multiset of the scoring-card inventory has
  that many cards and that many points.
\<close>

section \<open>Data\<close>

datatype SaskuSuit = Clubs | Spades | Hearts | Diamonds

datatype SaskuCourt = King | Queen | Jack

type_synonym SaskuSeat = nat
type_synonym SaskuPartnership = nat

datatype SaskuContract = NamedContract SaskuSuit SaskuSeat | PassRound

datatype SaskuScoreKind =
  SimpleWin | Seajann | Jann | Karvane | Pokk | PassRoundWin | PassRoundTie

datatype SaskuHandAuditRule = BidStrength | CardOwnership | FollowSuit

text \<open>The three error classes of the package, with the source's message texts.\<close>

datatype sasku_error =
    SaskuScoringError string
  | SaskuPlayError string
  | SaskuHandError string "SaskuHandAuditRule option"

record SaskuHandTotals =
  totals_cardPoints :: "nat \<times> nat"
  totals_tricks :: "nat \<times> nat"
  totals_contract :: SaskuContract

record SaskuHandScore =
  score_kind :: SaskuScoreKind
  score_winner :: "SaskuPartnership option"
  score_gamePoints :: "nat \<times> nat"
  score_basePoints :: nat
  score_bonusPoints :: nat

definition SASKU_TOTAL_CARD_POINTS :: nat where
  "SASKU_TOTAL_CARD_POINTS = 120"

definition SASKU_TRICKS_PER_HAND :: nat where
  "SASKU_TRICKS_PER_HAND = 9"

definition SASKU_SUITS :: "SaskuSuit list" where
  "SASKU_SUITS = [Clubs, Spades, Hearts, Diamonds]"

text \<open>\<open>SASKU_CARD_POINTS\<close> in the order of its keys: ace, ten, king, queen, jack, other.\<close>

definition SASKU_CARD_POINTS :: "nat list" where
  "SASKU_CARD_POINTS = [11, 10, 4, 3, 2, 0]"

definition SASKU_COURT_ORDER :: "(SaskuSuit \<times> SaskuCourt) list" where
  "SASKU_COURT_ORDER = concat (map (\<lambda>rank. map (\<lambda>suit. (suit, rank)) SASKU_SUITS) [King, Queen, Jack])"

section \<open>The feasibility table\<close>

type_synonym ftable = "nat list list"

definition feasible_inventory :: "nat list" where
  "feasible_inventory =
     concat (map (\<lambda>p. [p, p, p, p]) (filter (\<lambda>p. p > 0) SASKU_CARD_POINTS)) @ replicate 16 0"

text \<open>
  The innermost loop, \<open>sum\<close> running downwards; the second argument of the recursion is
  \<open>sum + 1\<close>. Then the loop over \<open>count\<close>, also downwards, and the loop over the inventory.
\<close>

primrec feasible_sums :: "nat \<Rightarrow> nat \<Rightarrow> nat \<Rightarrow> ftable \<Rightarrow> ftable" where
  "feasible_sums points cnt 0 t = t"
| "feasible_sums points cnt (Suc s) t =
     feasible_sums points cnt s
       (if t ! cnt ! s = 1 then t[Suc cnt := (t ! Suc cnt)[s + points := 1]] else t)"

primrec feasible_counts :: "nat \<Rightarrow> nat \<Rightarrow> ftable \<Rightarrow> ftable" where
  "feasible_counts points 0 t = t"
| "feasible_counts points (Suc cnt) t =
     feasible_counts points cnt (feasible_sums points cnt (121 - points) t)"

definition feasible_start :: ftable where
  "feasible_start = (replicate 37 (replicate 121 0))[0 := (replicate 121 0)[0 := 1]]"

definition feasiblePoints :: ftable where
  "feasiblePoints = fold (\<lambda>points. feasible_counts points 36) feasible_inventory feasible_start"

section \<open>Scoring a hand\<close>

definition integer :: "nat \<Rightarrow> nat \<Rightarrow> string \<Rightarrow> sasku_error + nat" where
  "integer v maximum name =
     (if v > maximum then Inl (SaskuScoringError (name @ '' must be whole numbers from zero to the maximum''))
      else Inr v)"

definition pair :: "nat \<times> nat \<Rightarrow> nat \<Rightarrow> string \<Rightarrow> sasku_error + nat \<times> nat" where
  "pair v maximum name =
     rbind (integer (fst v) maximum name) (\<lambda>a.
     rbind (integer (snd v) maximum name) (\<lambda>b. Inr (a, b)))"

definition partnershipForSeat :: "nat \<Rightarrow> sasku_error + SaskuPartnership" where
  "partnershipForSeat seat = rbind (integer seat 3 ''Seat'') (\<lambda>s. Inr (s mod 2))"

definition score_result ::
    "SaskuScoreKind \<Rightarrow> SaskuPartnership option \<Rightarrow> nat \<Rightarrow> nat \<Rightarrow> SaskuHandScore" where
  "score_result kind winner basePoints bonusPoints =
     (let total = basePoints + bonusPoints
      in \<lparr>score_kind = kind, score_winner = winner,
          score_gamePoints =
            (case winner of None \<Rightarrow> (0, 0) | Some w \<Rightarrow> if w = 0 then (total, 0) else (0, total)),
          score_basePoints = basePoints, score_bonusPoints = bonusPoints\<rparr>)"

text \<open>The tail of \<open>scoreSaskuHand\<close> for a named contract, after the declaring side is known.\<close>

definition score_named ::
    "SaskuSuit \<Rightarrow> SaskuPartnership \<Rightarrow> nat \<times> nat \<Rightarrow> nat \<times> nat \<Rightarrow> SaskuHandScore" where
  "score_named suit declaringSide points tricks =
     (if fst points = snd points
      then score_result Pokk (Some (if declaringSide = 0 then 1 else 0)) 2 0
      else let winner = (if fst points > snd points then 0 else 1) in
        if (if winner = 0 then snd tricks else fst tricks) = 0
        then score_result Karvane (Some winner) 12 0
        else let base = (if winner = declaringSide then 2 else 4) + (if suit = Diamonds then 2 else 0);
                 winningPoints = (if winner = 0 then fst points else snd points);
                 bonus = (if winningPoints = 90 then 1 else if winningPoints \<ge> 91 then 2 else 0)
             in score_result
                  (if bonus = 1 then Seajann else if bonus = 2 then Jann else SimpleWin)
                  (Some winner) base bonus)"

definition score_pass_round :: "nat \<times> nat \<Rightarrow> SaskuHandScore" where
  "score_pass_round points =
     (if fst points = snd points then score_result PassRoundTie None 0 0
      else score_result PassRoundWin (Some (if fst points > snd points then 0 else 1)) 2 0)"

definition scoreSaskuHand :: "SaskuHandTotals \<Rightarrow> sasku_error + SaskuHandScore" where
  "scoreSaskuHand input =
     rbind (pair (totals_cardPoints input) SASKU_TOTAL_CARD_POINTS ''Card points'') (\<lambda>points.
     rbind (pair (totals_tricks input) SASKU_TRICKS_PER_HAND ''Tricks'') (\<lambda>tricks.
     if fst points + snd points \<noteq> SASKU_TOTAL_CARD_POINTS
     then Inl (SaskuScoringError ''Both partnerships' card points must add up to 120'')
     else if fst tricks + snd tricks \<noteq> SASKU_TRICKS_PER_HAND
     then Inl (SaskuScoringError ''Both partnerships' tricks must add up to nine'')
     else if feasiblePoints ! (fst tricks * 4) ! fst points \<noteq> 1
     then Inl (SaskuScoringError ''Those card points and trick counts are not possible with the scoring-card inventory'')
     else case totals_contract input of
       PassRound \<Rightarrow> Inr (score_pass_round points)
     | NamedContract suit declarerSeat \<Rightarrow>
         rbind (partnershipForSeat declarerSeat) (\<lambda>declaringSide.
           Inr (score_named suit declaringSide points tricks))))"

section \<open>The table means what it should\<close>

definition ftable_shape :: "ftable \<Rightarrow> bool" where
  "ftable_shape t \<longleftrightarrow> length t = 37 \<and> (\<forall>i<37. length (t ! i) = 121)"

definition feasible :: "nat multiset \<Rightarrow> nat \<Rightarrow> nat \<Rightarrow> bool" where
  "feasible stock c s \<longleftrightarrow> (\<exists>M. M \<subseteq># stock \<and> size M = c \<and> sum_mset M = s)"

lemma ftable_shape_update:
  "ftable_shape t \<Longrightarrow> ftable_shape (t[i := (t ! i)[j := v]])"
  by (cases "i < length t") (auto simp: ftable_shape_def nth_list_update)

lemma feasible_sums_shape: "ftable_shape t \<Longrightarrow> ftable_shape (feasible_sums p c n t)"
  by (induction n arbitrary: t) (auto simp: ftable_shape_update)

lemma feasible_sums_entry:
  assumes "ftable_shape t" "c < 36" "p + n \<le> 121" "c' < 37" "s' < 121"
  shows "feasible_sums p c n t ! c' ! s' =
    (if c' = Suc c \<and> p \<le> s' \<and> s' < p + n \<and> t ! c ! (s' - p) = 1 then 1 else t ! c' ! s')"
  using assms
proof (induction n arbitrary: t)
  case 0
  then show ?case by auto
next
  case (Suc n)
  define t' where "t' = (if t ! c ! n = 1 then t[Suc c := (t ! Suc c)[n + p := 1]] else t)"
  have shape: "ftable_shape t'"
    using Suc.prems(1) by (simp add: ftable_shape_update t'_def)
  have row: "t' ! c = t ! c" by (simp add: t'_def)
  have entry: "t' ! c' ! s' = (if c' = Suc c \<and> s' = n + p \<and> t ! c ! n = 1 then 1 else t ! c' ! s')"
    using Suc.prems by (auto simp: ftable_shape_def nth_list_update t'_def)
  have "feasible_sums p c (Suc n) t = feasible_sums p c n t'"
    by (simp add: t'_def)
  then have "feasible_sums p c (Suc n) t ! c' ! s' =
      (if c' = Suc c \<and> p \<le> s' \<and> s' < p + n \<and> t ! c ! (s' - p) = 1 then 1 else t' ! c' ! s')"
    using Suc.IH [OF shape Suc.prems(2)] Suc.prems(3-5) by (simp add: row)
  also have "\<dots> = (if c' = Suc c \<and> p \<le> s' \<and> s' < p + Suc n \<and> t ! c ! (s' - p) = 1 then 1 else t ! c' ! s')"
    unfolding entry by (auto simp: less_Suc_eq)
  finally show ?case .
qed

lemma feasible_counts_shape: "ftable_shape t \<Longrightarrow> ftable_shape (feasible_counts p n t)"
  by (induction n arbitrary: t) (auto simp: feasible_sums_shape)

lemma feasible_counts_entry:
  assumes "ftable_shape t" "n \<le> 36" "p \<le> 121" "c' < 37" "s' < 121"
  shows "feasible_counts p n t ! c' ! s' =
    (if 0 < c' \<and> c' \<le> n \<and> p \<le> s' \<and> t ! (c' - 1) ! (s' - p) = 1 then 1 else t ! c' ! s')"
  using assms
proof (induction n arbitrary: t)
  case 0
  then show ?case by auto
next
  case (Suc n)
  let ?t = "feasible_sums p n (121 - p) t"
  have shape: "ftable_shape ?t"
    using Suc.prems(1) by (rule feasible_sums_shape)
  have old: "?t ! c ! s = t ! c ! s" if "c < 37" "c \<noteq> Suc n" "s < 121" for c s
    using feasible_sums_entry [OF Suc.prems(1), of n p "121 - p" c s] Suc.prems that by simp
  have new: "?t ! c' ! s' = (if c' = Suc n \<and> p \<le> s' \<and> t ! n ! (s' - p) = 1 then 1 else t ! c' ! s')"
    using feasible_sums_entry [OF Suc.prems(1), of n p "121 - p" c' s'] Suc.prems by auto
  have IH: "feasible_counts p (Suc n) t ! c' ! s' =
      (if 0 < c' \<and> c' \<le> n \<and> p \<le> s' \<and> ?t ! (c' - 1) ! (s' - p) = 1 then 1 else ?t ! c' ! s')"
    using Suc.IH [OF shape] Suc.prems by simp
  show ?case
  proof (cases "c' \<le> n")
    case True
    then have "?t ! (c' - 1) ! (s' - p) = t ! (c' - 1) ! (s' - p)"
      using Suc.prems by (intro old) auto
    with True IH new show ?thesis by auto
  next
    case False
    with IH new show ?thesis by (auto simp: le_Suc_eq)
  qed
qed

lemma feasible_add_mset:
  "feasible (add_mset p stock) c s \<longleftrightarrow>
     feasible stock c s \<or> (0 < c \<and> p \<le> s \<and> feasible stock (c - 1) (s - p))"
proof
  assume "feasible (add_mset p stock) c s"
  then obtain M where M: "M \<subseteq># add_mset p stock" "size M = c" "sum_mset M = s"
    by (auto simp: feasible_def)
  show "feasible stock c s \<or> (0 < c \<and> p \<le> s \<and> feasible stock (c - 1) (s - p))"
  proof (cases "p \<in># M")
    case True
    then obtain N where N: "M = add_mset p N"
      by (metis mset_add)
    with M have "N \<subseteq># stock" "size N = c - 1" "sum_mset N = s - p" "0 < c" "p \<le> s"
      by auto
    then show ?thesis by (auto simp: feasible_def)
  next
    case False
    moreover from M(1) have "M - {#p#} \<subseteq># stock"
      by (simp add: subset_eq_diff_conv)
    ultimately have "M \<subseteq># stock"
      by (simp add: diff_single_trivial)
    with M(2,3) show ?thesis by (auto simp: feasible_def)
  qed
next
  assume "feasible stock c s \<or> (0 < c \<and> p \<le> s \<and> feasible stock (c - 1) (s - p))"
  then show "feasible (add_mset p stock) c s"
  proof
    assume "feasible stock c s"
    moreover have "stock \<subseteq># add_mset p stock" by simp
    ultimately show ?thesis
      unfolding feasible_def by (blast intro: subset_mset.order_trans)
  next
    assume r: "0 < c \<and> p \<le> s \<and> feasible stock (c - 1) (s - p)"
    then obtain N where "N \<subseteq># stock" "size N = c - 1" "sum_mset N = s - p"
      by (auto simp: feasible_def)
    with r show ?thesis
      unfolding feasible_def by (intro exI [of _ "add_mset p N"]) auto
  qed
qed

lemma feasible_fold:
  assumes "ftable_shape t" "list_all (\<lambda>p. p \<le> 121) ps"
    and "\<And>c s. c < 37 \<Longrightarrow> s < 121 \<Longrightarrow> t ! c ! s = 1 \<longleftrightarrow> feasible stock c s"
    and "c < 37" "s < 121"
  shows "fold (\<lambda>p. feasible_counts p 36) ps t ! c ! s = 1 \<longleftrightarrow> feasible (mset ps + stock) c s"
  using assms
proof (induction ps arbitrary: t stock)
  case Nil
  then show ?case by simp
next
  case (Cons p ps)
  have step: "feasible_counts p 36 t ! c ! s = 1 \<longleftrightarrow> feasible (add_mset p stock) c s"
    if "c < 37" "s < 121" for c s
    using Cons.prems that feasible_counts_entry [of t 36 p c s]
    by (auto simp: feasible_add_mset)
  have "fold (\<lambda>p. feasible_counts p 36) ps (feasible_counts p 36 t) ! c ! s = 1 \<longleftrightarrow>
      feasible (mset ps + add_mset p stock) c s"
    using Cons.prems by (intro Cons.IH step feasible_counts_shape) auto
  then show ?case by simp
qed

lemma feasible_start_shape: "ftable_shape feasible_start"
  by (auto simp: ftable_shape_def feasible_start_def nth_list_update)

lemma feasible_start_entry:
  "c < 37 \<Longrightarrow> s < 121 \<Longrightarrow> feasible_start ! c ! s = 1 \<longleftrightarrow> feasible {#} c s"
  by (auto simp: feasible_start_def feasible_def nth_list_update)

lemma feasible_inventory_unfold:
  "feasible_inventory = [11, 11, 11, 11, 10, 10, 10, 10, 4, 4, 4, 4, 3, 3, 3, 3, 2, 2, 2, 2] @ replicate 16 0"
  by (simp add: feasible_inventory_def SASKU_CARD_POINTS_def)

lemma feasiblePoints_entry:
  assumes "c < 37" "s < 121"
  shows "feasiblePoints ! c ! s = 1 \<longleftrightarrow> feasible (mset feasible_inventory) c s"
proof -
  have "list_all (\<lambda>p. p \<le> 121) feasible_inventory"
    by (simp add: feasible_inventory_unfold list_all_iff)
  from feasible_fold [OF feasible_start_shape this feasible_start_entry assms]
  show ?thesis by (simp add: feasiblePoints_def)
qed

lemma feasible_inventory_totals:
  "size (mset feasible_inventory) = 36" "sum_mset (mset feasible_inventory) = 120"
  by (simp_all add: feasible_inventory_unfold)

text \<open>The cards one partnership did not take are the cards the other took.\<close>

lemma feasible_complement:
  assumes "feasible (mset feasible_inventory) c s"
  shows "feasible (mset feasible_inventory) (36 - c) (120 - s)"
proof -
  let ?I = "mset feasible_inventory"
  from assms obtain M where M: "M \<subseteq># ?I" "size M = c" "sum_mset M = s"
    by (auto simp: feasible_def)
  then have split: "?I = M + (?I - M)" by simp
  have "size ?I = size M + size (?I - M)" by (metis split size_union)
  moreover have "sum_mset ?I = sum_mset M + sum_mset (?I - M)" by (metis split sum_mset.union)
  ultimately have "size (?I - M) = 36 - c" "sum_mset (?I - M) = 120 - s"
    using M(2,3) feasible_inventory_totals by simp_all
  then show ?thesis
    unfolding feasible_def by (intro exI [of _ "?I - M"]) simp
qed

lemma feasible_complement_iff:
  assumes "c + c' = 36" "s + s' = 120"
  shows "feasible (mset feasible_inventory) c s \<longleftrightarrow> feasible (mset feasible_inventory) c' s'"
proof -
  have "c' = 36 - c" "s' = 120 - s" "c = 36 - c'" "s = 120 - s'" using assms by simp_all
  then show ?thesis using feasible_complement by metis
qed

section \<open>Properties of scoring\<close>

lemmas scoring_defs =
  scoreSaskuHand_def pair_def integer_def partnershipForSeat_def
  SASKU_TOTAL_CARD_POINTS_def SASKU_TRICKS_PER_HAND_def

definition declarer_ok :: "SaskuContract \<Rightarrow> bool" where
  "declarer_ok k = (case k of PassRound \<Rightarrow> True | NamedContract _ d \<Rightarrow> d \<le> 3)"

lemma score_defined_iff:
  "(\<exists>sc. scoreSaskuHand h = Inr sc) \<longleftrightarrow>
     fst (totals_cardPoints h) + snd (totals_cardPoints h) = 120 \<and>
     fst (totals_tricks h) + snd (totals_tricks h) = 9 \<and>
     feasible (mset feasible_inventory) (4 * fst (totals_tricks h)) (fst (totals_cardPoints h)) \<and>
     declarer_ok (totals_contract h)"
proof (cases "fst (totals_cardPoints h) + snd (totals_cardPoints h) = 120 \<and>
              fst (totals_tricks h) + snd (totals_tricks h) = 9")
  case True
  then have "feasiblePoints ! (fst (totals_tricks h) * 4) ! fst (totals_cardPoints h) = 1 \<longleftrightarrow>
      feasible (mset feasible_inventory) (4 * fst (totals_tricks h)) (fst (totals_cardPoints h))"
    by (subst feasiblePoints_entry) (simp_all add: mult.commute)
  with True show ?thesis
    by (auto simp: scoring_defs declarer_ok_def Let_def split: SaskuContract.splits)
next
  case False
  then show ?thesis
    by (auto simp: scoring_defs)
qed

text \<open>
  A completed hand is scored, and no error is thrown, exactly when the card points of
  the two sides add up to 120, their tricks to nine, the cards of side 0 could have been
  drawn from the inventory of scoring cards, and a named contract has one of the four seats.
\<close>

theorem scoreSaskuHand_defined:
  "(\<exists>sc. scoreSaskuHand h = Inr sc) \<longleftrightarrow>
     fst (totals_cardPoints h) + snd (totals_cardPoints h) = 120 \<and>
     fst (totals_tricks h) + snd (totals_tricks h) = 9 \<and>
     feasible (mset feasible_inventory) (4 * fst (totals_tricks h)) (fst (totals_cardPoints h)) \<and>
     declarer_ok (totals_contract h)"
  by (rule score_defined_iff)

text \<open>The same hand with the two partnerships renamed: every seat moves on by one.\<close>

definition swap_contract :: "SaskuContract \<Rightarrow> SaskuContract" where
  "swap_contract k = (case k of PassRound \<Rightarrow> PassRound
     | NamedContract suit d \<Rightarrow> NamedContract suit (if d \<le> 3 then (d + 1) mod 4 else d))"

definition swap_totals :: "SaskuHandTotals \<Rightarrow> SaskuHandTotals" where
  "swap_totals h = \<lparr>totals_cardPoints = prod.swap (totals_cardPoints h),
     totals_tricks = prod.swap (totals_tricks h), totals_contract = swap_contract (totals_contract h)\<rparr>"

definition swap_score :: "SaskuHandScore \<Rightarrow> SaskuHandScore" where
  "swap_score sc = sc\<lparr>score_winner := map_option (\<lambda>w. 1 - w) (score_winner sc),
     score_gamePoints := prod.swap (score_gamePoints sc)\<rparr>"

lemma swap_score_result:
  "w \<le> 1 \<Longrightarrow> swap_score (score_result k (Some w) b n) = score_result k (Some (1 - w)) b n"
  "swap_score (score_result k None b n) = score_result k None b n"
  by (auto simp: swap_score_def score_result_def le_Suc_eq)

lemma partnership_next_seat:
  assumes "d \<le> 3"
  shows "partnershipForSeat ((d + 1) mod 4) = Inr (1 - d mod 2)"
proof -
  from assms have "d = 0 \<or> d = 1 \<or> d = 2 \<or> d = 3" by arith
  then show ?thesis by (auto simp: partnershipForSeat_def integer_def)
qed

lemma score_named_swap:
  "side \<le> 1 \<Longrightarrow> score_named suit (1 - side) (prod.swap points) (prod.swap tricks) =
     swap_score (score_named suit side points tricks)"
  by (auto simp: score_named_def swap_score_result Let_def le_Suc_eq)

lemma score_pass_round_swap: "score_pass_round (prod.swap points) = swap_score (score_pass_round points)"
  by (auto simp: score_pass_round_def swap_score_result)

text \<open>
  Scoring treats the partnerships alike. Renaming the partnerships of the totals and of
  the contract renames them in the score and changes nothing else, errors included.
\<close>

theorem scoreSaskuHand_symmetric:
  "scoreSaskuHand (swap_totals h) = map_sum id swap_score (scoreSaskuHand h)"
proof -
  obtain p0 p1 where p: "totals_cardPoints h = (p0, p1)" by fastforce
  obtain t0 t1 where t: "totals_tricks h = (t0, t1)" by fastforce
  note swaps = score_pass_round_swap [of "(p0, p1)", symmetric]
    score_named_swap [of _ _ "(p0, p1)" "(t0, t1)", symmetric]
  show ?thesis
  proof (cases "p0 + p1 = 120 \<and> t0 + t1 = 9")
    case sums: True
    then have "feasible (mset feasible_inventory) (t0 * 4) p0 \<longleftrightarrow>
        feasible (mset feasible_inventory) (t1 * 4) p1"
      by (intro feasible_complement_iff) auto
    then have f: "(feasiblePoints ! (t1 * 4) ! p1 = 1) = (feasiblePoints ! (t0 * 4) ! p0 = 1)"
      using sums feasiblePoints_entry [of "t0 * 4" p0] feasiblePoints_entry [of "t1 * 4" p1] by auto
    have pairs: "pair (p0, p1) 120 n = Inr (p0, p1)" "pair (p1, p0) 120 n = Inr (p1, p0)"
      "pair (t0, t1) 9 n = Inr (t0, t1)" "pair (t1, t0) 9 n = Inr (t1, t0)" for n
      using sums by (auto simp: pair_def integer_def)
    show ?thesis
    proof (cases "totals_contract h")
      case PassRound
      with sums f p t show ?thesis
        by (simp add: scoreSaskuHand_def pairs swap_totals_def swap_contract_def swaps
            SASKU_TOTAL_CARD_POINTS_def SASKU_TRICKS_PER_HAND_def add.commute)
    next
      case (NamedContract suit d)
      have "partnershipForSeat d = (if d \<le> 3 then Inr (d mod 2) else partnershipForSeat d)"
        by (simp add: partnershipForSeat_def integer_def)
      moreover have "\<not> d \<le> 3 \<Longrightarrow> \<exists>e. partnershipForSeat d = Inl e"
        by (simp add: partnershipForSeat_def integer_def)
      ultimately show ?thesis
        using sums f p t NamedContract partnership_next_seat [of d]
        by (auto simp: scoreSaskuHand_def pairs swap_totals_def swap_contract_def swaps
            SASKU_TOTAL_CARD_POINTS_def SASKU_TRICKS_PER_HAND_def add.commute)
    qed
  next
    case False
    with p t show ?thesis
      by (auto simp: scoreSaskuHand_def pair_def integer_def swap_totals_def
          SASKU_TOTAL_CARD_POINTS_def SASKU_TRICKS_PER_HAND_def add.commute)
  qed
qed

definition score_payout_ok :: "SaskuHandScore \<Rightarrow> bool" where
  "score_payout_ok sc \<longleftrightarrow>
     (let total = score_basePoints sc + score_bonusPoints sc in
      score_gamePoints sc =
        (case score_winner sc of None \<Rightarrow> (0, 0) | Some w \<Rightarrow> if w = 0 then (total, 0) else (0, total)) \<and>
      score_winner sc \<in> {None, Some 0, Some 1} \<and>
      (score_winner sc = None \<longleftrightarrow> score_kind sc = PassRoundTie) \<and>
      (total = 0 \<longleftrightarrow> score_kind sc = PassRoundTie) \<and>
      total \<le> 12 \<and> (total = 12 \<longleftrightarrow> score_kind sc = Karvane))"

lemma score_pass_round_payout: "score_payout_ok (score_pass_round points)"
  by (simp add: score_pass_round_def score_payout_ok_def score_result_def)

lemma score_named_payout: "score_payout_ok (score_named suit side points tricks)"
  by (simp add: score_named_def score_payout_ok_def score_result_def Let_def)

text \<open>
  A score pays one side only. The winner's game points are the base and bonus points
  together, the loser gets none, the total is at most 12, and 12 is paid exactly for a
  karvane; nobody is paid exactly for a tied pass-round.
\<close>

theorem scoreSaskuHand_game_points:
  assumes "scoreSaskuHand h = Inr sc"
  shows "score_payout_ok sc"
  using assms
  by (auto simp: scoreSaskuHand_def result_simps score_pass_round_payout score_named_payout
      split: if_splits SaskuContract.splits)

lemma feasible_by_cards:
  assumes "mset xs \<subseteq># mset feasible_inventory"
  shows "feasible (mset feasible_inventory) (length xs) (sum_list xs)"
  unfolding feasible_def using assms by (intro exI [of _ "mset xs"]) (simp add: sum_mset_sum_list)

lemma example_named_score:
  "scoreSaskuHand \<lparr>totals_cardPoints = (91, 29), totals_tricks = (6, 3),
     totals_contract = NamedContract Diamonds 2\<rparr> = Inr (score_result Jann (Some 0) 4 2)"
proof -
  let ?cards = "[11, 11, 11, 11, 10, 10, 10, 4, 4, 3, 2, 2, 2, 0, 0, 0, 0, 0, 0, 0, 0, 0, 0, 0 :: nat]"
  have "feasible (mset feasible_inventory) (length ?cards) (sum_list ?cards)"
    by (rule feasible_by_cards) (simp add: feasible_inventory_unfold numeral_eq_Suc)
  moreover have "length ?cards = 24" "sum_list ?cards = 91"
    by simp_all
  ultimately have "feasible (mset feasible_inventory) 24 91"
    by (simp only:)
  then have "feasiblePoints ! 24 ! 91 = 1"
    by (subst feasiblePoints_entry) simp_all
  then show ?thesis
    by (simp add: scoring_defs score_named_def)
qed

theorem game_points_example:
  "score_payout_ok (score_result Jann (Some 0) 4 2)"
  by (rule scoreSaskuHand_game_points [OF example_named_score])

end
