(* ===== verification/Sasku_Cards.thy ===== *)
theory Sasku_Cards
  imports Sasku_Scoring
begin

text \<open>
  \<^verbatim>\<open>packages/rules-sasku/src/cards.ts\<close>: the 36-card deck, effective suits, the cards a
  player may legally play, and who wins a trick. A card identifier is the JavaScript
  string of the source, for example \<open>ascii ''10C''\<close>.
\<close>

section \<open>The deck\<close>

datatype SaskuRank = R6 | R7 | R8 | R9 | R10 | RJ | RQ | RK | RA

type_synonym SaskuCardId = ustr

datatype SaskuEffectiveSuit = PlainSuit SaskuSuit | TrumpSuit

record SaskuCard =
  card_id :: SaskuCardId
  card_rank :: SaskuRank
  card_suit :: SaskuSuit
  card_points :: nat
  card_isCourt :: bool

record SaskuPlay =
  play_seat :: SaskuSeat
  play_card :: SaskuCardId

record SaskuTrickResult =
  trick_winner :: SaskuPlay
  trick_partnership :: SaskuPartnership
  trick_cardPoints :: nat

definition SASKU_RANKS :: "SaskuRank list" where
  "SASKU_RANKS = [R6, R7, R8, R9, R10, RJ, RQ, RK, RA]"

fun rankText :: "SaskuRank \<Rightarrow> string" where
  "rankText R6 = ''6''" | "rankText R7 = ''7''" | "rankText R8 = ''8''" | "rankText R9 = ''9''"
| "rankText R10 = ''10''" | "rankText RJ = ''J''" | "rankText RQ = ''Q''" | "rankText RK = ''K''"
| "rankText RA = ''A''"

fun suitCodes :: "SaskuSuit \<Rightarrow> char" where
  "suitCodes Clubs = CHR ''C''" | "suitCodes Spades = CHR ''S''"
| "suitCodes Hearts = CHR ''H''" | "suitCodes Diamonds = CHR ''D''"

fun rankPoints :: "SaskuRank \<Rightarrow> nat" where
  "rankPoints R10 = 10" | "rankPoints RJ = 2" | "rankPoints RQ = 3" | "rankPoints RK = 4"
| "rankPoints RA = 11" | "rankPoints _ = 0"

definition makeCard :: "SaskuSuit \<Rightarrow> SaskuRank \<Rightarrow> SaskuCard" where
  "makeCard suit rank = \<lparr>card_id = ascii (rankText rank @ [suitCodes suit]), card_rank = rank,
     card_suit = suit, card_points = rankPoints rank,
     card_isCourt = (rank = RK \<or> rank = RQ \<or> rank = RJ)\<rparr>"

definition SASKU_CARDS :: "SaskuCard list" where
  "SASKU_CARDS = concat (map (\<lambda>suit. map (makeCard suit) SASKU_RANKS) SASKU_SUITS)"

definition SASKU_DECK_SPEC :: "ustr \<times> SaskuCardId list" where
  "SASKU_DECK_SPEC = (ascii ''sasku-36/v1'', map card_id SASKU_CARDS)"

definition cardsById :: "SaskuCardId \<Rightarrow> SaskuCard option" where
  "cardsById = map_of (map (\<lambda>card. (card_id card, card)) SASKU_CARDS)"

definition plainRanks :: "SaskuRank list" where
  "plainRanks = [R6, R7, R8, R9, R10, RA]"

fun courtRanks :: "SaskuCourt \<Rightarrow> char" where
  "courtRanks King = CHR ''K''" | "courtRanks Queen = CHR ''Q''" | "courtRanks Jack = CHR ''J''"

definition courtStrength :: "SaskuCardId \<Rightarrow> nat option" where
  "courtStrength = map_of (map (\<lambda>((suit, rank), index). (ascii [courtRanks rank, suitCodes suit], 18 - index))
     (zip SASKU_COURT_ORDER [0..<12]))"

section \<open>Operations\<close>

definition parseSaskuCard :: "jsval \<Rightarrow> sasku_error + SaskuCard" where
  "parseSaskuCard v =
     (case (case v of JString s \<Rightarrow> if length s \<ge> 2 \<and> length s \<le> 3 then cardsById s else None
                    | _ \<Rightarrow> None) of
        None \<Rightarrow> Inl (SaskuPlayError ''Unknown Sasku card identifier'')
      | Some c \<Rightarrow> Inr c)"

definition requireTrump :: "SaskuSuit \<Rightarrow> sasku_error + unit" where
  "requireTrump v = (if v \<in> set SASKU_SUITS then Inr ()
     else Inl (SaskuPlayError ''A supported chosen trump suit is required''))"

definition saskuEffectiveSuit :: "SaskuCardId \<Rightarrow> SaskuSuit \<Rightarrow> sasku_error + SaskuEffectiveSuit" where
  "saskuEffectiveSuit cardId trump =
     rbind (requireTrump trump) (\<lambda>_.
     rbind (parseSaskuCard (JString cardId)) (\<lambda>card.
     Inr (if card_isCourt card \<or> card_suit card = trump then TrumpSuit else PlainSuit (card_suit card))))"

definition priority :: "SaskuCardId \<Rightarrow> SaskuEffectiveSuit \<Rightarrow> SaskuSuit \<Rightarrow> sasku_error + nat" where
  "priority cid led trump =
     rbind (parseSaskuCard (JString cid)) (\<lambda>card.
     rbind (saskuEffectiveSuit cid trump) (\<lambda>suit.
     let strength = (case courtStrength cid of Some n \<Rightarrow> n
           | None \<Rightarrow> (case index_of plainRanks (card_rank card) of Some i \<Rightarrow> i + 1 | None \<Rightarrow> 0))
     in Inr (if suit = TrumpSuit then 100 + strength else if suit = led then strength else 0)))"

primrec winner_scan ::
    "SaskuEffectiveSuit \<Rightarrow> SaskuSuit \<Rightarrow> SaskuPlay \<Rightarrow> nat \<Rightarrow> SaskuPlay list \<Rightarrow> sasku_error + SaskuPlay" where
  "winner_scan led trump winner best [] = Inr winner"
| "winner_scan led trump winner best (play # plays) =
     rbind (priority (play_card play) led trump) (\<lambda>strength.
     if strength > best then winner_scan led trump play strength plays
     else winner_scan led trump winner best plays)"

definition winnerOf :: "SaskuPlay list \<Rightarrow> SaskuSuit \<Rightarrow> sasku_error + SaskuPlay option" where
  "winnerOf plays trump =
     (case plays of [] \<Rightarrow> Inr None
      | first # rest \<Rightarrow>
          rbind (saskuEffectiveSuit (play_card first) trump) (\<lambda>led.
          rbind (priority (play_card first) led trump) (\<lambda>best.
          rbind (winner_scan led trump first best rest) (\<lambda>w. Inr (Some w)))))"

primrec normalize_plays ::
    "SaskuSeat list \<Rightarrow> SaskuCardId list \<Rightarrow> SaskuPlay list \<Rightarrow> sasku_error + SaskuPlay list" where
  "normalize_plays seats cards [] = Inr []"
| "normalize_plays seats cards (play # plays) =
     (if play_seat play > 3 then Inl (SaskuPlayError ''A play requires a seat from zero through three'')
      else rbind (parseSaskuCard (JString (play_card play))) (\<lambda>card.
        if play_seat play \<in> set seats \<or> card_id card \<in> set cards
        then Inl (SaskuPlayError ''A trick cannot repeat a seat or card'')
        else rbind (normalize_plays (play_seat play # seats) (card_id card # cards) plays) (\<lambda>rest.
          Inr (\<lparr>play_seat = play_seat play, play_card = card_id card\<rparr> # rest))))"

definition normalizeTrick :: "SaskuPlay list \<Rightarrow> sasku_error + SaskuPlay list" where
  "normalizeTrick v =
     (if length v > 4 then Inl (SaskuPlayError ''A trick contains at most four plays'')
      else normalize_plays [] [] v)"

primrec legal_hand_scan ::
    "SaskuCardId list \<Rightarrow> SaskuCardId list \<Rightarrow> sasku_error + SaskuCardId list" where
  "legal_hand_scan seen [] = Inr []"
| "legal_hand_scan seen (cid # ids) =
     rbind (parseSaskuCard (JString cid)) (\<lambda>card.
     if card_id card \<in> set seen
     then Inl (SaskuPlayError ''A hand contains duplicate or already-played cards'')
     else rbind (legal_hand_scan (card_id card # seen) ids) (\<lambda>rest. Inr (card_id card # rest)))"

text \<open>\<open>Array.filter\<close> with a predicate that may throw.\<close>

primrec filter_following ::
    "SaskuEffectiveSuit \<Rightarrow> SaskuSuit \<Rightarrow> SaskuCardId list \<Rightarrow> sasku_error + SaskuCardId list" where
  "filter_following led trump [] = Inr []"
| "filter_following led trump (c # cs) =
     rbind (saskuEffectiveSuit c trump) (\<lambda>suit.
     rbind (filter_following led trump cs) (\<lambda>rest. Inr (if suit = led then c # rest else rest)))"

definition legalSaskuCards ::
    "SaskuCardId list \<Rightarrow> SaskuPlay list \<Rightarrow> SaskuSuit \<Rightarrow> sasku_error + SaskuCardId list" where
  "legalSaskuCards hand trick trump =
     rbind (requireTrump trump) (\<lambda>_.
     rbind (normalizeTrick trick) (\<lambda>plays.
     if length plays = 4 then Inl (SaskuPlayError ''The trick is already complete'')
     else if length hand > 9 then Inl (SaskuPlayError ''A Sasku hand contains at most nine cards'')
     else rbind (legal_hand_scan (map play_card plays) hand) (\<lambda>cards.
       case plays of [] \<Rightarrow> Inr cards
       | first # _ \<Rightarrow>
           rbind (saskuEffectiveSuit (play_card first) trump) (\<lambda>led.
           rbind (filter_following led trump cards) (\<lambda>following.
           Inr (if length following = 0 then cards else following))))))"

definition winningSaskuPlay :: "SaskuPlay list \<Rightarrow> SaskuSuit \<Rightarrow> sasku_error + SaskuPlay option" where
  "winningSaskuPlay trick trump =
     rbind (requireTrump trump) (\<lambda>_.
     rbind (normalizeTrick trick) (\<lambda>plays. winnerOf plays trump))"

text \<open>
  \<open>resolveSaskuTrick\<close>; a four-play trick has a winner, so the assertion \<open>winnerOf(...)!\<close>
  reads the empty case as a type error that never happens.
\<close>

definition resolveSaskuTrick :: "SaskuPlay list \<Rightarrow> SaskuSuit \<Rightarrow> sasku_error + SaskuTrickResult" where
  "resolveSaskuTrick trick trump =
     rbind (requireTrump trump) (\<lambda>_.
     rbind (normalizeTrick trick) (\<lambda>plays.
     if length plays \<noteq> 4
     then Inl (SaskuPlayError ''A completed trick requires four distinct seats and cards'')
     else rbind (winnerOf plays trump) (\<lambda>w.
       case w of None \<Rightarrow> Inl (SaskuPlayError ''No winner'')
       | Some winner \<Rightarrow>
           rbind (partnershipForSeat (play_seat winner)) (\<lambda>partnership.
           rbind (mapM_res (\<lambda>play. parseSaskuCard (JString (play_card play))) plays) (\<lambda>cards.
           Inr \<lparr>trick_winner = winner, trick_partnership = partnership,
                trick_cardPoints = sum_list (map card_points cards)\<rparr>)))))"

section \<open>Facts about the deck\<close>

lemma rankText_inject [simp]: "rankText r = rankText r' \<longleftrightarrow> r = r'"
  by (cases r; cases r') simp_all

lemma suitCodes_inject [simp]: "suitCodes s = suitCodes s' \<longleftrightarrow> s = s'"
  by (cases s; cases s') simp_all

lemma makeCard_sel [simp]:
  "card_rank (makeCard s r) = r" "card_suit (makeCard s r) = s"
  "card_points (makeCard s r) = rankPoints r"
  "card_isCourt (makeCard s r) \<longleftrightarrow> r = RK \<or> r = RQ \<or> r = RJ"
  by (simp_all add: makeCard_def)

lemma makeCard_id_inject [simp]:
  "card_id (makeCard s r) = card_id (makeCard s' r') \<longleftrightarrow> s = s' \<and> r = r'"
  by (auto simp: makeCard_def)

lemma makeCard_inject [simp]: "makeCard s r = makeCard s' r' \<longleftrightarrow> s = s' \<and> r = r'"
  by (metis makeCard_sel(1,2))

lemma set_SASKU_RANKS [simp]: "set SASKU_RANKS = UNIV"
  by (auto simp: SASKU_RANKS_def intro: SaskuRank.exhaust)

lemma set_SASKU_SUITS [simp]: "set SASKU_SUITS = UNIV"
  by (auto simp: SASKU_SUITS_def intro: SaskuSuit.exhaust)

lemma requireTrump_ok [simp]: "requireTrump t = Inr ()"
  by (simp add: requireTrump_def)

lemma set_SASKU_CARDS: "set SASKU_CARDS = {makeCard s r |s r. True}"
  by (auto simp: SASKU_CARDS_def)

lemma distinct_card_ids: "distinct (map card_id SASKU_CARDS)"
  by (simp add: SASKU_CARDS_def SASKU_SUITS_def SASKU_RANKS_def)

lemma length_SASKU_CARDS: "length SASKU_CARDS = 36"
  by (simp add: SASKU_CARDS_def SASKU_SUITS_def SASKU_RANKS_def)

lemma cardsById_makeCard [simp]: "cardsById (card_id (makeCard s r)) = Some (makeCard s r)"
  unfolding cardsById_def
  by (rule map_of_is_SomeI)
    (use distinct_card_ids in \<open>auto simp: comp_def set_SASKU_CARDS\<close>)

lemma cardsById_Some: "cardsById x = Some c \<longleftrightarrow> (\<exists>s r. c = makeCard s r \<and> x = card_id c)"
proof
  assume "cardsById x = Some c"
  then have "(x, c) \<in> set (map (\<lambda>card. (card_id card, card)) SASKU_CARDS)"
    unfolding cardsById_def by (rule map_of_SomeD)
  then show "\<exists>s r. c = makeCard s r \<and> x = card_id c"
    by (auto simp: set_SASKU_CARDS)
qed auto

definition known_card :: "SaskuCardId \<Rightarrow> bool" where
  "known_card x \<longleftrightarrow> x \<in> set (map card_id SASKU_CARDS)"

lemma known_card_iff: "known_card x \<longleftrightarrow> (\<exists>s r. x = card_id (makeCard s r))"
  by (auto simp: known_card_def set_SASKU_CARDS)

lemma known_cardE:
  assumes "known_card x"
  obtains s r where "x = card_id (makeCard s r)"
  using assms by (auto simp: known_card_iff)

lemma known_makeCard [simp]: "known_card (card_id (makeCard s r))"
  by (auto simp: known_card_iff)

lemma length_card_id: "length (card_id (makeCard s r)) \<ge> 2 \<and> length (card_id (makeCard s r)) \<le> 3"
  by (cases r) (simp_all add: makeCard_def)

lemma parse_makeCard [simp]: "parseSaskuCard (JString (card_id (makeCard s r))) = Inr (makeCard s r)"
  using length_card_id [of s r] by (simp add: parseSaskuCard_def)

lemma parse_Inr_iff: "parseSaskuCard v = Inr c \<longleftrightarrow> (\<exists>s r. c = makeCard s r \<and> v = JString (card_id c))"
proof
  assume "parseSaskuCard v = Inr c"
  then show "\<exists>s r. c = makeCard s r \<and> v = JString (card_id c)"
    by (auto simp: parseSaskuCard_def cardsById_Some split: option.splits jsval.splits if_splits)
qed auto

lemma parse_known: "known_card x \<longleftrightarrow> (\<exists>c. parseSaskuCard (JString x) = Inr c)"
  by (auto simp: parse_Inr_iff known_card_iff)

lemma parse_id: "parseSaskuCard (JString x) = Inr c \<Longrightarrow> card_id c = x"
  by (auto simp: parse_Inr_iff)

definition effective :: "SaskuCardId \<Rightarrow> SaskuSuit \<Rightarrow> SaskuEffectiveSuit" where
  "effective x trump = (case cardsById x of None \<Rightarrow> TrumpSuit
     | Some c \<Rightarrow> if card_isCourt c \<or> card_suit c = trump then TrumpSuit else PlainSuit (card_suit c))"

lemma effective_ok: "known_card x \<Longrightarrow> saskuEffectiveSuit x trump = Inr (effective x trump)"
  by (auto simp: saskuEffectiveSuit_def effective_def elim!: known_cardE)

subsection \<open>Strength of a card\<close>

fun court_base :: "SaskuRank \<Rightarrow> nat" where
  "court_base RK = 18" | "court_base RQ = 14" | "court_base RJ = 10" | "court_base _ = 0"

fun suit_index :: "SaskuSuit \<Rightarrow> nat" where
  "suit_index Clubs = 0" | "suit_index Spades = 1" | "suit_index Hearts = 2" | "suit_index Diamonds = 3"

fun card_strength :: "SaskuSuit \<Rightarrow> SaskuRank \<Rightarrow> nat" where
  "card_strength s R6 = 1" | "card_strength s R7 = 2" | "card_strength s R8 = 3"
| "card_strength s R9 = 4" | "card_strength s R10 = 5" | "card_strength s RA = 6"
| "card_strength s r = court_base r - suit_index s"

lemma courtStrength_makeCard:
  "courtStrength (card_id (makeCard s r)) =
     (if r = RK \<or> r = RQ \<or> r = RJ then Some (card_strength s r) else None)"
  by (cases r; cases s)
    (simp_all add: courtStrength_def SASKU_COURT_ORDER_def SASKU_SUITS_def makeCard_def upt_rec)

lemma priority_makeCard:
  "priority (card_id (makeCard s r)) led trump =
     Inr (if effective (card_id (makeCard s r)) trump = TrumpSuit then 100 + card_strength s r
          else if effective (card_id (makeCard s r)) trump = led then card_strength s r else 0)"
  by (cases r) (simp_all add: priority_def effective_ok courtStrength_makeCard plainRanks_def)

lemma card_strength_bounds: "0 < card_strength s r" "card_strength s r < 100"
  by (cases r; cases s; simp)+

lemma card_strength_trump_inject:
  assumes "r \<in> {RK, RQ, RJ} \<or> s = t" "r' \<in> {RK, RQ, RJ} \<or> s' = t"
    and "card_strength s r = card_strength s' r'"
  shows "s = s' \<and> r = r'"
  using assms by (cases r; cases r'; cases s; cases s'; simp)

lemma card_strength_suit_inject:
  "r \<notin> {RK, RQ, RJ} \<Longrightarrow> r' \<notin> {RK, RQ, RJ} \<Longrightarrow> card_strength s r = card_strength s r' \<Longrightarrow> r = r'"
  by (cases r; cases r'; simp)

end
