(* ===== verification/Sasku_Trick.thy ===== *)
theory Sasku_Trick
  imports Sasku_Cards
begin

text \<open>
  Correctness of the trick rules of \<^verbatim>\<open>cards.ts\<close>: what a well-formed trick is, which cards
  are legal, and that the winning play beats every other play of the trick.
\<close>

section \<open>Well-formed tricks\<close>

definition trick_ok :: "SaskuPlay list \<Rightarrow> bool" where
  "trick_ok plays \<longleftrightarrow> length plays \<le> 4 \<and> (\<forall>p \<in> set plays. play_seat p \<le> 3 \<and> known_card (play_card p)) \<and>
     distinct (map play_seat plays) \<and> distinct (map play_card plays)"

lemma normalize_plays_Inr:
  "normalize_plays seats cards ps = Inr qs \<longleftrightarrow>
     qs = ps \<and> (\<forall>p \<in> set ps. play_seat p \<le> 3 \<and> known_card (play_card p)) \<and>
     distinct (map play_seat ps) \<and> distinct (map play_card ps) \<and>
     set (map play_seat ps) \<inter> set seats = {} \<and> set (map play_card ps) \<inter> set cards = {}"
proof (induction ps arbitrary: seats cards qs)
  case Nil
  then show ?case by auto
next
  case (Cons p ps)
  show ?case
  proof (cases "play_seat p \<le> 3 \<and> known_card (play_card p)")
    case True
    then obtain c where c: "parseSaskuCard (JString (play_card p)) = Inr c" "card_id c = play_card p"
      using parse_id parse_known by blast
    have eta: "\<lparr>play_seat = play_seat p, play_card = play_card p\<rparr> = p" by simp
    show ?thesis
      using True c Cons.IH by (auto simp: result_simps eta)
  next
    case False
    then show ?thesis
      by (auto simp: result_simps parse_known)
  qed
qed

lemma normalizeTrick_Inr: "normalizeTrick ps = Inr qs \<longleftrightarrow> qs = ps \<and> trick_ok ps"
  by (auto simp: normalizeTrick_def normalize_plays_Inr trick_ok_def)

lemma normalizeTrick_ok: "trick_ok ps \<Longrightarrow> normalizeTrick ps = Inr ps"
  by (simp add: normalizeTrick_Inr)

lemma normalizeTrick_bad: "\<not> trick_ok ps \<Longrightarrow> \<exists>e. normalizeTrick ps = Inl e"
  using normalizeTrick_Inr by (cases "normalizeTrick ps") auto

section \<open>Legal cards\<close>

lemma legal_hand_scan_Inr:
  "legal_hand_scan seen hand = Inr cards \<longleftrightarrow>
     cards = hand \<and> (\<forall>x \<in> set hand. known_card x) \<and> distinct hand \<and> set hand \<inter> set seen = {}"
proof (induction hand arbitrary: seen cards)
  case Nil
  then show ?case by auto
next
  case (Cons x hand)
  show ?case
  proof (cases "known_card x")
    case True
    then obtain c where c: "parseSaskuCard (JString x) = Inr c" "card_id c = x"
      using parse_id parse_known by blast
    then show ?thesis
      using True Cons.IH by (auto simp: result_simps)
  next
    case False
    then show ?thesis by (auto simp: result_simps parse_known)
  qed
qed

lemma filter_following_known:
  "\<forall>x \<in> set cs. known_card x \<Longrightarrow>
     filter_following led trump cs = Inr (filter (\<lambda>x. effective x trump = led) cs)"
  by (induction cs) (simp_all add: effective_ok)

definition hand_ok :: "SaskuCardId list \<Rightarrow> SaskuPlay list \<Rightarrow> bool" where
  "hand_ok hand trick \<longleftrightarrow> length hand \<le> 9 \<and> (\<forall>x \<in> set hand. known_card x) \<and> distinct hand \<and>
     set hand \<inter> set (map play_card trick) = {}"

definition follows :: "SaskuPlay list \<Rightarrow> SaskuSuit \<Rightarrow> SaskuCardId \<Rightarrow> bool" where
  "follows trick trump x \<longleftrightarrow>
     (case trick of [] \<Rightarrow> True | p # _ \<Rightarrow> effective x trump = effective (play_card p) trump)"

lemma follows_Nil [simp]: "follows [] trump x"
  by (simp add: follows_def)

lemma follows_Cons: "follows (p # ps) trump = (\<lambda>x. effective x trump = effective (play_card p) trump)"
  by (simp add: follows_def fun_eq_iff)

definition legal_cards :: "SaskuCardId list \<Rightarrow> SaskuPlay list \<Rightarrow> SaskuSuit \<Rightarrow> SaskuCardId list" where
  "legal_cards hand trick trump =
     (if \<exists>x \<in> set hand. follows trick trump x then filter (follows trick trump) hand else hand)"

lemma legalSaskuCards_ok:
  assumes "trick_ok trick" "length trick < 4" "hand_ok hand trick"
  shows "legalSaskuCards hand trick trump = Inr (legal_cards hand trick trump)"
proof -
  have scan: "legal_hand_scan (map play_card trick) hand = Inr hand"
    using assms(3) by (simp add: legal_hand_scan_Inr hand_ok_def)
  have len: "\<not> length hand > 9" using assms(3) by (simp add: hand_ok_def)
  show ?thesis
  proof (cases trick)
    case Nil
    with assms scan len show ?thesis
      by (auto simp: legalSaskuCards_def normalizeTrick_ok legal_cards_def follows_def)
  next
    case (Cons p ps)
    then have "known_card (play_card p)" using assms(1) by (simp add: trick_ok_def)
    moreover have "filter_following led trump hand = Inr (filter (\<lambda>x. effective x trump = led) hand)" for led
      using assms(3) by (simp add: filter_following_known hand_ok_def)
    ultimately show ?thesis
      using assms scan len Cons
      by (auto simp: legalSaskuCards_def normalizeTrick_ok legal_cards_def follows_Cons effective_ok
          filter_empty_conv)
  qed
qed

text \<open>
  The legal cards of a player are computed without error for every well-formed
  incomplete trick and hand, and they are right: they are cards of the hand in hand
  order, there is one whenever the hand has a card, and if some card of the hand follows
  the effective suit led then exactly the cards that follow it are legal, otherwise every
  card is.
\<close>

theorem legalSaskuCards_correct:
  assumes "trick_ok trick" "length trick < 4" "hand_ok hand trick"
  shows "\<exists>cards. legalSaskuCards hand trick trump = Inr cards \<and>
    cards = filter (\<lambda>x. x \<in> set cards) hand \<and>
    (hand \<noteq> [] \<longrightarrow> cards \<noteq> []) \<and>
    (\<forall>x \<in> set hand. x \<in> set cards \<longleftrightarrow>
       follows trick trump x \<or> \<not> (\<exists>y \<in> set hand. follows trick trump y))"
proof (intro exI conjI)
  show "legalSaskuCards hand trick trump = Inr (legal_cards hand trick trump)"
    using assms by (rule legalSaskuCards_ok)
  show "legal_cards hand trick trump = filter (\<lambda>x. x \<in> set (legal_cards hand trick trump)) hand"
    by (auto simp: legal_cards_def intro: filter_cong)
  show "hand \<noteq> [] \<longrightarrow> legal_cards hand trick trump \<noteq> []"
    by (auto simp: legal_cards_def filter_empty_conv)
  show "\<forall>x \<in> set hand. x \<in> set (legal_cards hand trick trump) \<longleftrightarrow>
       follows trick trump x \<or> \<not> (\<exists>y \<in> set hand. follows trick trump y)"
    by (auto simp: legal_cards_def)
qed

section \<open>The winner of a trick\<close>

definition prio :: "SaskuCardId \<Rightarrow> SaskuEffectiveSuit \<Rightarrow> SaskuSuit \<Rightarrow> nat" where
  "prio x led trump = (case priority x led trump of Inl _ \<Rightarrow> 0 | Inr n \<Rightarrow> n)"

lemma priority_known: "known_card x \<Longrightarrow> priority x led trump = Inr (prio x led trump)"
  by (auto simp: prio_def priority_makeCard elim!: known_cardE)

lemma effective_makeCard [simp]:
  "effective (card_id (makeCard s r)) trump =
     (if r \<in> {RK, RQ, RJ} \<or> s = trump then TrumpSuit else PlainSuit s)"
  by (simp add: effective_def)

definition strength_of :: "SaskuCardId \<Rightarrow> nat" where
  "strength_of x = (case cardsById x of None \<Rightarrow> 0 | Some c \<Rightarrow> card_strength (card_suit c) (card_rank c))"

lemma strength_of_makeCard [simp]: "strength_of (card_id (makeCard s r)) = card_strength s r"
  by (simp add: strength_of_def)

lemma strength_of_bounds: "known_card x \<Longrightarrow> 0 < strength_of x \<and> strength_of x < 100"
  using card_strength_bounds by (auto elim!: known_cardE)

lemma prio_eq:
  "known_card x \<Longrightarrow> prio x led trump =
     (if effective x trump = TrumpSuit then 100 + strength_of x
      else if effective x trump = led then strength_of x else 0)"
  by (auto simp: prio_def priority_makeCard elim!: known_cardE)

lemma prio_pos_iff:
  "known_card x \<Longrightarrow> 0 < prio x led trump \<longleftrightarrow> effective x trump = TrumpSuit \<or> effective x trump = led"
  using strength_of_bounds [of x] by (auto simp: prio_eq)

lemma strength_of_inject:
  assumes "known_card x" "known_card y" "strength_of x = strength_of y"
    and "effective x trump = effective y trump"
  shows "x = y"
proof -
  obtain s r where x: "x = card_id (makeCard s r)" using assms(1) by (rule known_cardE)
  obtain s' r' where y: "y = card_id (makeCard s' r')" using assms(2) by (rule known_cardE)
  show ?thesis
  proof (cases "effective x trump = TrumpSuit")
    case True
    then have "r \<in> {RK, RQ, RJ} \<or> s = trump" "r' \<in> {RK, RQ, RJ} \<or> s' = trump"
      using assms(4) unfolding x y by (auto split: if_splits)
    moreover have "card_strength s r = card_strength s' r'"
      using assms(3) by (simp add: x y)
    ultimately have "s = s' \<and> r = r'"
      by (intro card_strength_trump_inject)
    then show ?thesis by (simp add: x y)
  next
    case False
    then have s: "s = s'" and r: "r \<notin> {RK, RQ, RJ}" "r' \<notin> {RK, RQ, RJ}"
      using assms(4) unfolding x y by (auto split: if_splits)
    have "card_strength s r = card_strength s r'"
      using assms(3) by (simp add: x y s)
    with r have "r = r'" by (rule card_strength_suit_inject)
    then show ?thesis by (simp add: x y s)
  qed
qed

text \<open>Two different cards that count in a trick never have the same priority.\<close>

lemma prio_inject:
  assumes "known_card x" "known_card y" "prio x led trump = prio y led trump" "0 < prio x led trump"
  shows "x = y"
proof -
  have b: "0 < strength_of x \<and> strength_of x < 100" "0 < strength_of y \<and> strength_of y < 100"
    using assms(1,2) by (simp_all add: strength_of_bounds)
  have "effective x trump = effective y trump \<and> strength_of x = strength_of y"
    using assms b by (auto simp: prio_eq split: if_splits)
  then show ?thesis
    using assms(1,2) strength_of_inject by blast
qed

lemma winner_scan_max:
  assumes "\<forall>p \<in> set (w # ps). known_card (play_card p)" "best = prio (play_card w) led trump"
  shows "\<exists>v. winner_scan led trump w best ps = Inr v \<and> v \<in> set (w # ps) \<and>
    (\<forall>p \<in> set (w # ps). prio (play_card p) led trump \<le> prio (play_card v) led trump)"
  using assms
proof (induction ps arbitrary: w best)
  case Nil
  then show ?case by simp
next
  case (Cons p ps)
  let ?n = "prio (play_card p) led trump"
  let ?w = "if ?n > best then p else w"
  have eq: "winner_scan led trump w best (p # ps) =
      winner_scan led trump ?w (prio (play_card ?w) led trump) ps"
    using Cons.prems by (simp add: priority_known)
  have "\<forall>q \<in> set (?w # ps). known_card (play_card q)"
    using Cons.prems(1) by auto
  from Cons.IH [OF this refl] obtain v where v: "winner_scan led trump ?w (prio (play_card ?w) led trump) ps = Inr v"
      "v \<in> set (?w # ps)" "\<forall>q \<in> set (?w # ps). prio (play_card q) led trump \<le> prio (play_card v) led trump"
    by auto
  have "v \<in> set (w # p # ps)" using v(2) by (auto split: if_splits)
  moreover have "\<forall>q \<in> set (w # p # ps). prio (play_card q) led trump \<le> prio (play_card v) led trump"
    using v(3) Cons.prems(2) by (auto split: if_splits)
  ultimately show ?case using v(1) eq by auto
qed

lemma winnerOf_wins:
  assumes "trick_ok plays" "plays = first # rest"
  shows "\<exists>w. winnerOf plays trump = Inr (Some w) \<and> w \<in> set plays \<and>
    (\<forall>p \<in> set plays. p \<noteq> w \<longrightarrow>
       prio (play_card p) (effective (play_card first) trump) trump <
       prio (play_card w) (effective (play_card first) trump) trump)"
proof -
  let ?led = "effective (play_card first) trump"
  have known: "\<forall>p \<in> set plays. known_card (play_card p)"
    using assms(1) by (simp add: trick_ok_def)
  obtain w where w: "winner_scan ?led trump first (prio (play_card first) ?led trump) rest = Inr w"
      "w \<in> set plays" "\<forall>p \<in> set plays. prio (play_card p) ?led trump \<le> prio (play_card w) ?led trump"
    using winner_scan_max [of first rest _ ?led trump] known assms(2) by auto
  have "winnerOf plays trump = Inr (Some w)"
    using known assms(2) w(1) by (simp add: winnerOf_def effective_ok priority_known)
  moreover have "prio (play_card p) ?led trump < prio (play_card w) ?led trump"
    if p: "p \<in> set plays" "p \<noteq> w" for p
  proof (rule ccontr)
    assume "\<not> ?thesis"
    with w(3) p(1) have eq: "prio (play_card p) ?led trump = prio (play_card w) ?led trump"
      by (simp add: le_antisym)
    have "0 < prio (play_card first) ?led trump"
      using known assms(2) by (simp add: prio_pos_iff)
    also have "\<dots> \<le> prio (play_card w) ?led trump"
      using w(3) assms(2) by simp
    finally have "play_card p = play_card w"
      using known p(1) w(2) eq by (intro prio_inject [of _ _ ?led trump]) auto
    with assms(1) p w(2) show False
      by (auto simp: trick_ok_def distinct_map inj_on_def)
  qed
  ultimately show ?thesis using w(2) by blast
qed

text \<open>
  The reference order of a trick, written from the rules: a trump beats every card that is
  no trump, a card of the suit led beats every card of another plain suit, and within
  trumps and within the suit led the stronger card wins.
\<close>

definition beats :: "SaskuEffectiveSuit \<Rightarrow> SaskuSuit \<Rightarrow> SaskuCardId \<Rightarrow> SaskuCardId \<Rightarrow> bool" where
  "beats led trump x y \<longleftrightarrow>
     (if effective x trump = TrumpSuit then effective y trump \<noteq> TrumpSuit \<or> strength_of x > strength_of y
      else effective x trump = led \<and> effective y trump \<noteq> TrumpSuit \<and>
        (effective y trump \<noteq> led \<or> strength_of x > strength_of y))"

lemma prio_less_beats:
  assumes "known_card x" "known_card y" "prio y led trump < prio x led trump"
  shows "beats led trump x y"
  using assms strength_of_bounds [of x] strength_of_bounds [of y]
  by (auto simp: beats_def prio_eq split: if_splits)

lemma resolve_points:
  assumes "\<forall>p \<in> set plays. known_card (play_card p)"
  shows "mapM_res (\<lambda>play. parseSaskuCard (JString (play_card play))) plays =
    Inr (map (\<lambda>p. the (cardsById (play_card p))) plays)"
  using assms by (intro mapM_res_all_Inr) (auto elim!: known_cardE)

definition plays_points :: "SaskuPlay list \<Rightarrow> nat" where
  "plays_points plays = sum_list (map (\<lambda>p. card_points (the (cardsById (play_card p)))) plays)"

lemma resolveSaskuTrick_ok:
  assumes "trick_ok plays" "length plays = 4"
  shows "\<exists>w. resolveSaskuTrick plays trump =
      Inr \<lparr>trick_winner = w, trick_partnership = play_seat w mod 2, trick_cardPoints = plays_points plays\<rparr> \<and>
    w \<in> set plays \<and>
    (\<forall>p \<in> set plays. p \<noteq> w \<longrightarrow> beats (effective (play_card (hd plays)) trump) trump (play_card w) (play_card p))"
proof -
  obtain first rest where c: "plays = first # rest" using assms(2) by (cases plays) auto
  have known: "\<forall>p \<in> set plays. known_card (play_card p) \<and> play_seat p \<le> 3"
    using assms(1) by (simp add: trick_ok_def)
  obtain w where w: "winnerOf plays trump = Inr (Some w)" "w \<in> set plays"
      "\<forall>p \<in> set plays. p \<noteq> w \<longrightarrow>
         prio (play_card p) (effective (play_card first) trump) trump <
         prio (play_card w) (effective (play_card first) trump) trump"
    using winnerOf_wins [OF assms(1) c] by blast
  have "partnershipForSeat (play_seat w) = Inr (play_seat w mod 2)"
    using known w(2) by (simp add: partnershipForSeat_def integer_def not_less)
  then have "resolveSaskuTrick plays trump =
      Inr \<lparr>trick_winner = w, trick_partnership = play_seat w mod 2, trick_cardPoints = plays_points plays\<rparr>"
    using assms w(1) known
    by (simp add: resolveSaskuTrick_def normalizeTrick_ok resolve_points plays_points_def comp_def)
  moreover have "beats (effective (play_card (hd plays)) trump) trump (play_card w) (play_card p)"
    if "p \<in> set plays" "p \<noteq> w" for p
    using that w known c by (auto intro!: prio_less_beats)
  ultimately show ?thesis using w(2) by blast
qed

text \<open>
  A complete trick of four different seats and cards is always resolved, its winner is a
  play of the trick that beats each of the other three by the rules of trumps and the suit
  led, the winner's partnership is the parity of the seat, and the card points are those of
  the four cards.
\<close>

theorem resolveSaskuTrick_correct:
  assumes "trick_ok plays" "length plays = 4"
  shows "\<exists>r. resolveSaskuTrick plays trump = Inr r \<and> trick_winner r \<in> set plays \<and>
    (\<forall>p \<in> set plays. p = trick_winner r \<or>
       beats (effective (play_card (hd plays)) trump) trump (play_card (trick_winner r)) (play_card p)) \<and>
    trick_partnership r = play_seat (trick_winner r) mod 2 \<and>
    trick_cardPoints r = plays_points plays"
  using resolveSaskuTrick_ok [OF assms, of trump] by auto

text \<open>A trick of every kind: the suit led, a discard, a plain trump and a court card.\<close>

definition example_trick :: "SaskuPlay list" where
  "example_trick =
     [\<lparr>play_seat = 2, play_card = card_id (makeCard Hearts R10)\<rparr>,
      \<lparr>play_seat = 3, play_card = card_id (makeCard Clubs RA)\<rparr>,
      \<lparr>play_seat = 0, play_card = card_id (makeCard Spades R6)\<rparr>,
      \<lparr>play_seat = 1, play_card = card_id (makeCard Diamonds RJ)\<rparr>]"

lemma example_trick_ok: "trick_ok example_trick" "length example_trick = 4"
  by (simp_all add: example_trick_def trick_ok_def)

theorem resolveSaskuTrick_correct_example:
  "\<exists>r. resolveSaskuTrick example_trick Spades = Inr r \<and> trick_winner r \<in> set example_trick \<and>
    (\<forall>p \<in> set example_trick. p = trick_winner r \<or>
       beats (effective (play_card (hd example_trick)) Spades) Spades (play_card (trick_winner r)) (play_card p)) \<and>
    trick_partnership r = play_seat (trick_winner r) mod 2 \<and>
    trick_cardPoints r = plays_points example_trick"
  by (rule resolveSaskuTrick_correct [OF example_trick_ok])

definition example_hand :: "SaskuCardId list" where
  "example_hand = [card_id (makeCard Hearts R6), card_id (makeCard Spades RK), card_id (makeCard Hearts RA)]"

theorem legalSaskuCards_correct_example:
  "\<exists>cards. legalSaskuCards example_hand (take 2 example_trick) Spades = Inr cards \<and>
    cards = filter (\<lambda>x. x \<in> set cards) example_hand \<and> (example_hand \<noteq> [] \<longrightarrow> cards \<noteq> []) \<and>
    (\<forall>x \<in> set example_hand. x \<in> set cards \<longleftrightarrow>
       follows (take 2 example_trick) Spades x \<or>
       \<not> (\<exists>y \<in> set example_hand. follows (take 2 example_trick) Spades y))"
  by (rule legalSaskuCards_correct)
    (simp_all add: example_trick_def example_hand_def trick_ok_def hand_ok_def)

end
