(* ===== verification/Sasku_Hand.thy ===== *)
theory Sasku_Hand
  imports Sasku_Trick
begin

text \<open>
  \<^verbatim>\<open>packages/rules-sasku/src/hand.ts\<close>: the state of one hand (auction, choice of trumps,
  nine tricks), the transition \<open>nextState\<close>, the complete-information controller, the
  public controller that does not know the hands, replay, and the audit of a public
  history against a disclosed deal.
\<close>

section \<open>Data\<close>

datatype SaskuHandAction =
    ActPass (act_seat: SaskuSeat)
  | ActDiamonds (act_seat: SaskuSeat)
  | ActBid (act_seat: SaskuSeat) nat
  | ActChooseTrump (act_seat: SaskuSeat) SaskuSuit
  | ActPlay (act_seat: SaskuSeat) SaskuCardId

datatype SaskuHandPhase = Bidding | ChoosingTrump | Playing | Complete

record SaskuCompletedTrick =
  completed_result :: SaskuTrickResult
  completed_plays :: "SaskuPlay list"

record HandState =
  hs_phase :: SaskuHandPhase
  hs_dealer :: SaskuSeat
  hs_turn :: "SaskuSeat option"
  hs_highestBid :: "(SaskuSeat \<times> nat) option"
  hs_consecutivePasses :: nat
  hs_contract :: "SaskuContract option"
  hs_hands :: "SaskuCardId list list option"
  hs_handSizes :: "nat list"
  hs_trick :: "SaskuPlay list"
  hs_completedTricks :: "SaskuCompletedTrick list"
  hs_cardPoints :: "nat \<times> nat"
  hs_tricksWon :: "nat \<times> nat"
  hs_score :: "SaskuHandScore option"
  hs_history :: "SaskuHandAction list"

record SaskuHandSnapshot =
  snap_phase :: SaskuHandPhase
  snap_dealer :: SaskuSeat
  snap_turn :: "SaskuSeat option"
  snap_highestBid :: "(SaskuSeat \<times> nat) option"
  snap_consecutivePasses :: nat
  snap_contract :: "SaskuContract option"
  snap_trick :: "SaskuPlay list"
  snap_completedTricks :: "SaskuCompletedTrick list"
  snap_cardPoints :: "nat \<times> nat"
  snap_tricksWon :: "nat \<times> nat"
  snap_handSizes :: "nat list"
  snap_score :: "SaskuHandScore option"
  snap_nextDealer :: "SaskuSeat option"

datatype SaskuHandAuditResult =
    AuditValid SaskuHandSnapshot
  | AuditIncomplete SaskuHandSnapshot
  | AuditViolation SaskuSeat nat SaskuHandAuditRule

definition MAX_SASKU_HAND_ACTIONS :: nat where
  "MAX_SASKU_HAND_ACTIONS = 64"

section \<open>Helpers\<close>

abbreviation handError :: "string \<Rightarrow> sasku_error + 'a" where
  "handError msg \<equiv> Inl (SaskuHandError msg None)"

definition nextSeat :: "SaskuSeat \<Rightarrow> SaskuSeat" where
  "nextSeat v = (v + 1) mod 4"

fun trumpSuit :: "SaskuContract \<Rightarrow> SaskuSuit" where
  "trumpSuit PassRound = Diamonds"
| "trumpSuit (NamedContract suit _) = suit"

definition saskuSeat :: "jsval \<Rightarrow> sasku_error + SaskuSeat" where
  "saskuSeat v =
     (case v of JNumber n \<Rightarrow>
        if \<not> isSafeInteger n \<or> numval n < 0 \<or> numval n > 3 \<or> n = JNegZero
        then handError ''Seat must be zero through three'' else Inr (nat (numval n))
      | _ \<Rightarrow> handError ''Seat must be zero through three'')"

fun suitText :: "SaskuSuit \<Rightarrow> string" where
  "suitText Clubs = ''clubs''" | "suitText Spades = ''spades''"
| "suitText Hearts = ''hearts''" | "suitText Diamonds = ''diamonds''"

text \<open>\<open>SASKU_SUITS.includes(value)\<close>, with the suit that was found.\<close>

definition includedSuit :: "jsval \<Rightarrow> SaskuSuit option" where
  "includedSuit v = (case v of JString s \<Rightarrow> find (\<lambda>u. ascii (suitText u) = s) SASKU_SUITS | _ \<Rightarrow> None)"

definition normalizeAction :: "jsval \<Rightarrow> sasku_error + SaskuHandAction" where
  "normalizeAction action =
     (case action of
        JBytes _ \<Rightarrow> rbind (saskuSeat JUndefined) (\<lambda>_. handError ''Invalid hand action fields or values'')
      | JObject ps \<Rightarrow>
          rbind (saskuSeat (get_prop ps ''seat'')) (\<lambda>actor.
          let type = get_prop ps ''type'' in
          if type = JString (ascii ''pass'') \<and> keys_are ps [''seat'', ''type''] then Inr (ActPass actor)
          else if type = JString (ascii ''diamonds'') \<and> keys_are ps [''seat'', ''type'']
          then Inr (ActDiamonds actor)
          else case (type = JString (ascii ''bid'') \<and> keys_are ps [''seat'', ''type'', ''value''],
                     get_prop ps ''value'') of
            (True, JNumber n) \<Rightarrow>
              if isSafeInteger n \<and> numval n \<ge> 3 \<and> numval n \<le> 9 then Inr (ActBid actor (nat (numval n)))
              else handError ''Invalid hand action fields or values''
          | _ \<Rightarrow>
            case (type = JString (ascii ''choose_trump'') \<and> keys_are ps [''seat'', ''suit'', ''type''],
                  includedSuit (get_prop ps ''suit'')) of
              (True, Some suit) \<Rightarrow> Inr (ActChooseTrump actor suit)
            | _ \<Rightarrow>
              if type = JString (ascii ''play'') \<and> keys_are ps [''card'', ''seat'', ''type'']
              then (case parseSaskuCard (get_prop ps ''card'') of
                      Inr c \<Rightarrow> Inr (ActPlay actor (card_id c))
                    | Inl _ \<Rightarrow> handError ''Invalid hand action fields or values'')
              else handError ''Invalid hand action fields or values'')
      | _ \<Rightarrow> handError ''A hand action is required'')"

primrec bid_scan ::
    "SaskuCardId list \<Rightarrow> nat \<Rightarrow> (SaskuSuit \<Rightarrow> nat) \<Rightarrow> SaskuCardId list \<Rightarrow> sasku_error + nat" where
  "bid_scan seen courts suits [] = Inr (courts + Max (set (map suits SASKU_SUITS)))"
| "bid_scan seen courts suits (x # xs) =
     rbind (parseSaskuCard (JString x)) (\<lambda>c.
     if card_id c \<in> set seen then handError ''A bidding hand cannot repeat cards''
     else if card_isCourt c then bid_scan (card_id c # seen) (courts + 1) suits xs
     else bid_scan (card_id c # seen) courts (suits(card_suit c := suits (card_suit c) + 1)) xs)"

definition saskuBidStrength :: "SaskuCardId list \<Rightarrow> sasku_error + nat" where
  "saskuBidStrength hand =
     (if length hand \<noteq> 9 then handError ''Bid strength requires a complete nine-card hand''
      else bid_scan [] 0 (\<lambda>_. 0) hand)"

section \<open>Transitions\<close>

definition initialState :: "SaskuSeat \<Rightarrow> SaskuCardId list list option \<Rightarrow> HandState" where
  "initialState dealer hands =
     \<lparr>hs_phase = Bidding, hs_dealer = dealer, hs_turn = Some (nextSeat dealer), hs_highestBid = None,
      hs_consecutivePasses = 0, hs_contract = None, hs_hands = hands, hs_handSizes = [9, 9, 9, 9],
      hs_trick = [], hs_completedTricks = [], hs_cardPoints = (0, 0), hs_tricksWon = (0, 0),
      hs_score = None, hs_history = []\<rparr>"

text \<open>
  The three branches of \<open>nextState\<close>. \<open>current\<close> is the state before the action, \<open>state\<close>
  its copy with the action appended to the history.
\<close>

fun past_bid :: "SaskuSeat \<Rightarrow> SaskuHandAction \<Rightarrow> bool" where
  "past_bid seat (ActBid s _) = (s = seat)"
| "past_bid seat _ = False"

fun past_play :: "SaskuCardId \<Rightarrow> SaskuHandAction \<Rightarrow> bool" where
  "past_play x (ActPlay _ y) = (y = x)"
| "past_play x _ = False"

definition bidding_step :: "HandState \<Rightarrow> HandState \<Rightarrow> SaskuHandAction \<Rightarrow> sasku_error + HandState" where
  "bidding_step current state action =
     (case action of
        ActBid seat v \<Rightarrow>
          rbind (case hs_hands state of
                   None \<Rightarrow> Inr ()
                 | Some hands \<Rightarrow> rbind (saskuBidStrength (hands ! seat)) (\<lambda>strength.
                     if v > strength
                     then Inl (SaskuHandError ''A bid cannot exceed the player's calculated hand strength'' (Some BidStrength))
                     else Inr ())) (\<lambda>_.
          if (case hs_highestBid state of None \<Rightarrow> False | Some (_, w) \<Rightarrow> v \<le> w)
          then handError ''A bid must strictly exceed the current highest bid''
          else if list_ex (past_bid seat) (hs_history current)
          then handError ''A player's bid cannot change while bidding''
          else Inr (state\<lparr>hs_highestBid := Some (seat, v), hs_consecutivePasses := 0,
                          hs_turn := Some (nextSeat seat)\<rparr>))
      | ActDiamonds seat \<Rightarrow>
          Inr (state\<lparr>hs_contract := Some (NamedContract Diamonds seat), hs_phase := Playing,
                     hs_turn := Some seat\<rparr>)
      | ActPass seat \<Rightarrow>
          (let state = state\<lparr>hs_consecutivePasses := hs_consecutivePasses state + 1\<rparr> in
           case hs_highestBid state of
             None \<Rightarrow>
               if hs_consecutivePasses state = 4
               then Inr (state\<lparr>hs_contract := Some PassRound, hs_phase := Playing,
                               hs_turn := Some (nextSeat (hs_dealer state))\<rparr>)
               else Inr (state\<lparr>hs_turn := Some (nextSeat seat)\<rparr>)
           | Some (bidder, _) \<Rightarrow>
               if hs_consecutivePasses state = 3
               then Inr (state\<lparr>hs_phase := ChoosingTrump, hs_turn := Some bidder\<rparr>)
               else Inr (state\<lparr>hs_turn := Some (nextSeat seat)\<rparr>))
      | _ \<Rightarrow> handError ''Only bids, passes, or an on-turn diamonds call are allowed during bidding'')"

definition choosing_step :: "HandState \<Rightarrow> SaskuHandAction \<Rightarrow> sasku_error + HandState" where
  "choosing_step state action =
     (case action of
        ActChooseTrump seat suit \<Rightarrow>
          Inr (state\<lparr>hs_contract := Some (NamedContract suit seat), hs_phase := Playing, hs_turn := Some seat\<rparr>)
      | _ \<Rightarrow> handError ''The auction winner must choose the trump suit'')"

definition add_at :: "nat \<Rightarrow> nat \<Rightarrow> nat \<times> nat \<Rightarrow> nat \<times> nat" where
  "add_at i n p = (if i = 0 then (fst p + n, snd p) else (fst p, snd p + n))"

definition hidden_hand_checks :: "HandState \<Rightarrow> SaskuSuit \<Rightarrow> SaskuSeat \<Rightarrow> SaskuCardId \<Rightarrow> sasku_error + unit" where
  "hidden_hand_checks state trump seat x =
     (case hs_hands state of
        None \<Rightarrow> Inr ()
      | Some hands \<Rightarrow>
          if x \<notin> set (hands ! seat)
          then Inl (SaskuHandError ''The acting player does not hold that card'' (Some CardOwnership))
          else rbind (legalSaskuCards (hands ! seat) (hs_trick state) trump) (\<lambda>legal.
            if x \<notin> set legal
            then Inl (SaskuHandError ''The player must follow the effective led suit'' (Some FollowSuit))
            else Inr ()))"

definition finish_trick :: "HandState \<Rightarrow> SaskuContract \<Rightarrow> sasku_error + HandState" where
  "finish_trick state contract =
     rbind (resolveSaskuTrick (hs_trick state) (trumpSuit contract)) (\<lambda>result.
     let state = state\<lparr>
           hs_completedTricks := hs_completedTricks state @
             [\<lparr>completed_result = result, completed_plays = hs_trick state\<rparr>],
           hs_cardPoints := add_at (trick_partnership result) (trick_cardPoints result) (hs_cardPoints state),
           hs_tricksWon := add_at (trick_partnership result) 1 (hs_tricksWon state),
           hs_trick := []\<rparr> in
     if length (hs_completedTricks state) = 9
     then rbind (scoreSaskuHand \<lparr>totals_cardPoints = hs_cardPoints state,
                                 totals_tricks = hs_tricksWon state, totals_contract = contract\<rparr>) (\<lambda>score.
            Inr (state\<lparr>hs_score := Some score, hs_phase := Complete, hs_turn := None\<rparr>))
     else Inr (state\<lparr>hs_turn := Some (play_seat (trick_winner result))\<rparr>))"

definition playing_step :: "HandState \<Rightarrow> HandState \<Rightarrow> SaskuHandAction \<Rightarrow> sasku_error + HandState" where
  "playing_step current state action =
     (case (action, hs_contract state) of
        (ActPlay seat x, Some contract) \<Rightarrow>
          rbind (hidden_hand_checks state (trumpSuit contract) seat x) (\<lambda>_.
          if list_ex (past_play x) (hs_history current)
          then handError ''A card cannot be played more than once''
          else if hs_handSizes state ! seat = 0
          then handError ''The acting player has no cards left''
          else let state = state\<lparr>
                 hs_hands := map_option (\<lambda>hands. hands[seat := remove1 x (hands ! seat)]) (hs_hands state),
                 hs_handSizes := (hs_handSizes state)[seat := hs_handSizes state ! seat - 1],
                 hs_trick := hs_trick state @ [\<lparr>play_seat = seat, play_card = x\<rparr>]\<rparr> in
               if length (hs_trick state) = 4 then finish_trick state contract
               else Inr (state\<lparr>hs_turn := Some (nextSeat seat)\<rparr>))
      | _ \<Rightarrow> handError ''Only card plays are allowed during trick play'')"

definition applyAction :: "HandState \<Rightarrow> SaskuHandAction \<Rightarrow> sasku_error + HandState" where
  "applyAction current action =
     (if hs_phase current = Complete then handError ''The hand is complete''
      else if Some (act_seat action) \<noteq> hs_turn current then handError ''Action is not from the expected seat''
      else if length (hs_history current) \<ge> MAX_SASKU_HAND_ACTIONS then handError ''Hand action limit exceeded''
      else let state = current\<lparr>hs_history := hs_history current @ [action]\<rparr> in
        (case hs_phase state of
           Bidding \<Rightarrow> bidding_step current state action
         | ChoosingTrump \<Rightarrow> choosing_step state action
         | _ \<Rightarrow> playing_step current state action))"

definition nextState :: "HandState \<Rightarrow> jsval \<Rightarrow> sasku_error + HandState" where
  "nextState current candidate = rbind (normalizeAction candidate) (applyAction current)"

definition snapshot :: "HandState \<Rightarrow> SaskuHandSnapshot" where
  "snapshot state =
     \<lparr>snap_phase = hs_phase state, snap_dealer = hs_dealer state, snap_turn = hs_turn state,
      snap_highestBid = hs_highestBid state, snap_consecutivePasses = hs_consecutivePasses state,
      snap_contract = hs_contract state, snap_trick = hs_trick state,
      snap_completedTricks = hs_completedTricks state, snap_cardPoints = hs_cardPoints state,
      snap_tricksWon = hs_tricksWon state, snap_handSizes = hs_handSizes state, snap_score = hs_score state,
      snap_nextDealer = (if hs_phase state = Complete then Some (nextSeat (hs_dealer state)) else None)\<rparr>"

section \<open>Controllers\<close>

primrec deal_hand ::
    "SaskuCardId list \<Rightarrow> SaskuCardId list \<Rightarrow> sasku_error + SaskuCardId list \<times> SaskuCardId list" where
  "deal_hand seen [] = Inr ([], seen)"
| "deal_hand seen (x # xs) =
     rbind (parseSaskuCard (JString x)) (\<lambda>c.
     if card_id c \<in> set seen then handError ''The deal must contain each of the 36 cards exactly once''
     else rbind (deal_hand (card_id c # seen) xs) (\<lambda>(rest, seen'). Inr (card_id c # rest, seen')))"

primrec deal_hands ::
    "SaskuCardId list \<Rightarrow> SaskuCardId list list \<Rightarrow> sasku_error + SaskuCardId list list" where
  "deal_hands seen [] = Inr []"
| "deal_hands seen (hand # hands) =
     (if length hand \<noteq> 9 then handError ''Every player must start with nine cards''
      else rbind (deal_hand seen hand) (\<lambda>(h, seen').
           rbind (deal_hands seen' hands) (\<lambda>rest. Inr (h # rest))))"

definition newHandController :: "jsval \<Rightarrow> SaskuCardId list list \<Rightarrow> sasku_error + HandState" where
  "newHandController dealer hands =
     (if length hands \<noteq> 4 then handError ''A complete four-hand deal and dealer are required''
      else rbind (saskuSeat dealer) (\<lambda>d.
           rbind (deal_hands [] hands) (\<lambda>hs. Inr (initialState d (Some hs)))))"

definition newPublicHandController :: "jsval \<Rightarrow> sasku_error + HandState" where
  "newPublicHandController setup =
     (case setup of
        JObject ps \<Rightarrow>
          if length ps \<noteq> 1 \<or> map_of ps (ascii ''dealer'') = None
          then handError ''Public hand setup must contain only an explicit dealer''
          else rbind (saskuSeat (get_prop ps ''dealer'')) (\<lambda>d. Inr (initialState d None))
      | _ \<Rightarrow> handError ''Public hand setup must contain only an explicit dealer'')"

text \<open>
  \<open>apply\<close> of both controllers replaces the state by \<open>nextState\<close> and returns the snapshot;
  \<open>preview\<close> returns the snapshot and keeps the state. An error keeps the state.
\<close>

definition controller_apply :: "HandState \<Rightarrow> jsval \<Rightarrow> HandState \<times> (sasku_error + SaskuHandSnapshot)" where
  "controller_apply state action =
     (case nextState state action of Inl e \<Rightarrow> (state, Inl e) | Inr state' \<Rightarrow> (state', Inr (snapshot state')))"

definition controller_preview :: "HandState \<Rightarrow> jsval \<Rightarrow> sasku_error + SaskuHandSnapshot" where
  "controller_preview state action = rbind (nextState state action) (\<lambda>state'. Inr (snapshot state'))"

definition handFor :: "HandState \<Rightarrow> jsval \<Rightarrow> sasku_error + SaskuCardId list" where
  "handFor state player =
     rbind (saskuSeat player) (\<lambda>p. Inr (case hs_hands state of None \<Rightarrow> [] | Some hands \<Rightarrow> hands ! p))"

definition legalCardsForTurn :: "HandState \<Rightarrow> sasku_error + SaskuCardId list" where
  "legalCardsForTurn state =
     (case (hs_phase state, hs_turn state, hs_hands state, hs_contract state) of
        (Playing, Some turn, Some hands, Some contract) \<Rightarrow>
          legalSaskuCards (hands ! turn) (hs_trick state) (trumpSuit contract)
      | _ \<Rightarrow> Inr [])"

definition replaySaskuHand ::
    "jsval \<Rightarrow> SaskuCardId list list \<Rightarrow> jsval list \<Rightarrow> sasku_error + HandState" where
  "replaySaskuHand dealer hands actions =
     (if length actions > MAX_SASKU_HAND_ACTIONS then handError ''Invalid or oversized hand action history''
      else rbind (newHandController dealer hands) (\<lambda>state. foldM_res nextState state actions))"

text \<open>The object a normalized action is, and the fields of the public setup.\<close>

fun actionObject :: "SaskuHandAction \<Rightarrow> jsval" where
  "actionObject (ActPass s) = JObject [(ascii ''type'', JString (ascii ''pass'')), (ascii ''seat'', JNumber (JInt (int s)))]"
| "actionObject (ActDiamonds s) = JObject [(ascii ''type'', JString (ascii ''diamonds'')), (ascii ''seat'', JNumber (JInt (int s)))]"
| "actionObject (ActBid s v) = JObject [(ascii ''type'', JString (ascii ''bid'')), (ascii ''seat'', JNumber (JInt (int s))),
     (ascii ''value'', JNumber (JInt (int v)))]"
| "actionObject (ActChooseTrump s u) = JObject [(ascii ''type'', JString (ascii ''choose_trump'')), (ascii ''seat'', JNumber (JInt (int s))),
     (ascii ''suit'', JString (ascii (suitText u)))]"
| "actionObject (ActPlay s x) = JObject [(ascii ''type'', JString (ascii ''play'')), (ascii ''seat'', JNumber (JInt (int s))),
     (ascii ''card'', JString x)]"

text \<open>The audit loop over the public history; \<open>at\<close> counts the actions already replayed.\<close>

fun audit_scan :: "HandState \<Rightarrow> nat \<Rightarrow> SaskuHandAction list \<Rightarrow> sasku_error + SaskuHandAuditResult" where
  "audit_scan reference at [] =
     Inr (if hs_phase reference = Complete then AuditValid (snapshot reference)
          else AuditIncomplete (snapshot reference))"
| "audit_scan reference at (action # history) =
     (case nextState reference (actionObject action) of
        Inr reference' \<Rightarrow> audit_scan reference' (Suc at) history
      | Inl (SaskuHandError msg (Some rule)) \<Rightarrow> Inr (AuditViolation (act_seat action) at rule)
      | Inl cause \<Rightarrow> Inl cause)"

definition auditSaskuHand ::
    "jsval \<Rightarrow> SaskuCardId list list \<Rightarrow> jsval list \<Rightarrow> sasku_error + SaskuHandAuditResult" where
  "auditSaskuHand dealer hands actions =
     (if length actions > MAX_SASKU_HAND_ACTIONS then handError ''Invalid or oversized hand action history''
      else rbind (newHandController dealer hands) (\<lambda>reference.
           rbind (newPublicHandController
                    (JObject [(ascii ''dealer'', JNumber (JInt (int (snap_dealer (snapshot reference)))))])) (\<lambda>public.
           rbind (foldM_res nextState public actions) (\<lambda>publicHand.
           audit_scan reference 0 (hs_history publicHand)))))"

section \<open>Searches of the history\<close>

lemma past_bid_iff: "past_bid seat a \<longleftrightarrow> (\<exists>w. a = ActBid seat w)"
  by (cases a) auto

lemma past_play_iff: "past_play x a \<longleftrightarrow> (\<exists>s. a = ActPlay s x)"
  by (cases a) auto

lemma past_in_history [simp]:
  "list_ex (past_bid seat) h \<longleftrightarrow> (\<exists>past \<in> set h. \<exists>w. past = ActBid seat w)"
  "list_ex (past_play x) h \<longleftrightarrow> (\<exists>past \<in> set h. \<exists>s. past = ActPlay s x)"
  by (simp_all add: list_ex_iff past_bid_iff past_play_iff)

end
