(* ===== verification/Sasku_Hand_Inv.thy ===== *)
theory Sasku_Hand_Inv
  imports Sasku_Hand
begin

text \<open>
  The invariant of a hand and its preservation by every accepted action. From it follow
  the facts the source relies on without checking them: a full trick can be resolved, a
  player on turn holds a card, the ninth trick can be scored, and the limit of 64 actions
  is never reached.
\<close>

section \<open>What a state says about the cards\<close>

definition deck_ids :: "SaskuCardId list" where
  "deck_ids = map card_id SASKU_CARDS"

definition played_plays :: "HandState \<Rightarrow> SaskuPlay list" where
  "played_plays st = concat (map completed_plays (hs_completedTricks st)) @ hs_trick st"

definition played :: "HandState \<Rightarrow> SaskuCardId list" where
  "played st = map play_card (played_plays st)"

fun play_of :: "SaskuHandAction \<Rightarrow> SaskuCardId option" where
  "play_of (ActPlay s x) = Some x"
| "play_of _ = None"

fun bidder_of :: "SaskuHandAction \<Rightarrow> SaskuSeat option" where
  "bidder_of (ActBid s v) = Some s"
| "bidder_of _ = None"

definition won_plays :: "nat \<Rightarrow> SaskuCompletedTrick list \<Rightarrow> SaskuPlay list" where
  "won_plays i ts = concat (map completed_plays (filter (\<lambda>t. trick_partnership (completed_result t) = i) ts))"

definition won_tricks :: "nat \<Rightarrow> SaskuCompletedTrick list \<Rightarrow> nat" where
  "won_tricks i ts = length (filter (\<lambda>t. trick_partnership (completed_result t) = i) ts)"

definition completed_ok :: "SaskuCompletedTrick \<Rightarrow> bool" where
  "completed_ok t \<longleftrightarrow> length (completed_plays t) = 4 \<and> trick_partnership (completed_result t) \<le> 1 \<and>
     trick_cardPoints (completed_result t) = plays_points (completed_plays t)"

text \<open>The seats of a trick led by \<open>l\<close>, in turn order.\<close>

definition seats_from :: "SaskuSeat \<Rightarrow> nat \<Rightarrow> SaskuSeat list" where
  "seats_from l n = map (\<lambda>i. (l + i) mod 4) [0..<n]"

definition cards_inv :: "HandState \<Rightarrow> bool" where
  "cards_inv st \<longleftrightarrow> hs_dealer st < 4 \<and> length (hs_handSizes st) = 4 \<and>
     distinct (played st) \<and> (\<forall>x \<in> set (played st). known_card x) \<and>
     List.map_filter play_of (hs_history st) = played st \<and>
     (\<forall>t \<in> set (hs_completedTricks st). completed_ok t) \<and>
     hs_cardPoints st = (plays_points (won_plays 0 (hs_completedTricks st)),
                         plays_points (won_plays 1 (hs_completedTricks st))) \<and>
     hs_tricksWon st = (won_tricks 0 (hs_completedTricks st), won_tricks 1 (hs_completedTricks st))"

definition hands_inv :: "HandState \<Rightarrow> bool" where
  "hands_inv st \<longleftrightarrow> (case hs_hands st of None \<Rightarrow> True
     | Some hands \<Rightarrow> map length hands = hs_handSizes st \<and>
         mset (concat hands) + mset (played st) = mset deck_ids)"

definition before_play :: "HandState \<Rightarrow> bool" where
  "before_play st \<longleftrightarrow> hs_contract st = None \<and> hs_completedTricks st = [] \<and> hs_trick st = [] \<and>
     hs_handSizes st = [9, 9, 9, 9] \<and> hs_score st = None"

text \<open>
  The auction: the bidders so far are different seats, and the length of the history is
  bounded by the bids made and the passes since the last one.
\<close>

definition auction_inv :: "HandState \<Rightarrow> bool" where
  "auction_inv st \<longleftrightarrow>
     (let bidders = List.map_filter bidder_of (hs_history st) in
      distinct bidders \<and> set bidders \<subseteq> {0..<4} \<and>
      (\<exists>t. hs_turn st = Some t \<and> t < 4) \<and>
      (case hs_highestBid st of
         None \<Rightarrow> bidders = [] \<and> length (hs_history st) = hs_consecutivePasses st \<and> hs_consecutivePasses st \<le> 3
       | Some (b, v) \<Rightarrow> b < 4 \<and> bidders \<noteq> [] \<and> hs_consecutivePasses st \<le> 2 \<and>
           length (hs_history st) \<le> 1 + 3 * length bidders + hs_consecutivePasses st))"

definition play_inv :: "HandState \<Rightarrow> bool" where
  "play_inv st \<longleftrightarrow>
     (\<exists>k. hs_contract st = Some k \<and> declarer_ok k) \<and> hs_score st = None \<and>
     length (hs_completedTricks st) \<le> 8 \<and> length (hs_trick st) < 4 \<and>
     (\<exists>l < 4. map play_seat (hs_trick st) = seats_from l (length (hs_trick st)) \<and>
        hs_turn st = Some ((l + length (hs_trick st)) mod 4) \<and>
        (\<forall>i < 4. hs_handSizes st ! i + length (hs_completedTricks st) +
           (if i \<in> set (map play_seat (hs_trick st)) then 1 else 0) = 9)) \<and>
     length (hs_history st) \<le> 17 + length (played st)"

definition complete_inv :: "HandState \<Rightarrow> bool" where
  "complete_inv st \<longleftrightarrow> length (hs_completedTricks st) = 9 \<and> hs_trick st = [] \<and> hs_turn st = None \<and>
     (\<exists>k sc. hs_contract st = Some k \<and> hs_score st = Some sc \<and>
        scoreSaskuHand \<lparr>totals_cardPoints = hs_cardPoints st, totals_tricks = hs_tricksWon st,
                        totals_contract = k\<rparr> = Inr sc) \<and>
     length (hs_history st) \<le> 53"

definition hand_inv :: "HandState \<Rightarrow> bool" where
  "hand_inv st \<longleftrightarrow> cards_inv st \<and> hands_inv st \<and>
     (case hs_phase st of
        Bidding \<Rightarrow> before_play st \<and> auction_inv st
      | ChoosingTrump \<Rightarrow> before_play st \<and> length (hs_history st) \<le> 16 \<and>
          (\<exists>b v. hs_highestBid st = Some (b, v) \<and> b < 4 \<and> hs_turn st = Some b)
      | Playing \<Rightarrow> play_inv st
      | Complete \<Rightarrow> complete_inv st)"

section \<open>Lists of plays and seats\<close>

lemma play_of_Some: "play_of a = Some x \<longleftrightarrow> (\<exists>s. a = ActPlay s x)"
  by (cases a) auto

lemma bidder_of_Some: "bidder_of a = Some s \<longleftrightarrow> (\<exists>v. a = ActBid s v)"
  by (cases a) auto

lemma in_map_filter_play: "x \<in> set (List.map_filter play_of h) \<longleftrightarrow> (\<exists>a \<in> set h. \<exists>s. a = ActPlay s x)"
  by (simp add: in_map_filter play_of_Some)

lemma in_map_filter_bidder: "s \<in> set (List.map_filter bidder_of h) \<longleftrightarrow> (\<exists>a \<in> set h. \<exists>v. a = ActBid s v)"
  by (simp add: in_map_filter bidder_of_Some)

lemma distinct_below_4: "distinct xs \<Longrightarrow> set xs \<subseteq> {0..<4::nat} \<Longrightarrow> length xs \<le> 4"
  by (metis card_atLeastLessThan card_mono distinct_card finite_atLeastLessThan minus_nat.diff_0)

lemma length_seats_from [simp]: "length (seats_from l n) = n"
  by (simp add: seats_from_def)

lemma seats_from_Suc: "seats_from l (Suc n) = seats_from l n @ [(l + n) mod 4]"
  by (simp add: seats_from_def)

lemma seats_from_bound: "s \<in> set (seats_from l n) \<Longrightarrow> s \<le> 3"
proof -
  assume "s \<in> set (seats_from l n)"
  then obtain i where "s = (l + i) mod 4" by (auto simp: seats_from_def)
  then have "s < 4" by simp
  then show ?thesis by simp
qed

lemma add_mod_4_inject: "i < 4 \<Longrightarrow> j < 4 \<Longrightarrow> (l + i) mod 4 = (l + j) mod (4::nat) \<Longrightarrow> i = j"
  by presburger

lemma distinct_seats_from: "n \<le> 4 \<Longrightarrow> distinct (seats_from l n)"
  unfolding seats_from_def distinct_map
  by (auto simp: inj_on_def intro: add_mod_4_inject)

lemma seats_from_all:
  assumes "i < (4::nat)"
  shows "i \<in> set (seats_from l 4)"
proof -
  have "set (seats_from l 4) \<subseteq> {0..<4}" by (auto dest: seats_from_bound)
  moreover have "card (set (seats_from l 4)) = 4"
    using distinct_seats_from [of 4 l] by (simp add: distinct_card)
  ultimately have "set (seats_from l 4) = {0..<4}"
    by (intro card_subset_eq) auto
  with assms show ?thesis by simp
qed

lemma next_of_seats_fresh: "n < 4 \<Longrightarrow> (l + n) mod 4 \<notin> set (seats_from l n)"
proof
  assume n: "n < 4" and "(l + n) mod 4 \<in> set (seats_from l n)"
  then obtain i where "i < n" "(l + n) mod 4 = (l + i) mod 4" by (auto simp: seats_from_def)
  with n show False using add_mod_4_inject [of n i l] by simp
qed

lemma nextSeat_rotate: "nextSeat ((l + n) mod 4) = (l + Suc n) mod 4"
  by (simp add: nextSeat_def mod_Suc_eq)

lemma plays_points_append [simp]: "plays_points (xs @ ys) = plays_points xs + plays_points ys"
  by (simp add: plays_points_def)

lemma won_plays_snoc:
  "won_plays i (ts @ [t]) = won_plays i ts @ (if trick_partnership (completed_result t) = i then completed_plays t else [])"
  by (simp add: won_plays_def)

lemma won_tricks_snoc:
  "won_tricks i (ts @ [t]) = won_tricks i ts + (if trick_partnership (completed_result t) = i then 1 else 0)"
  by (simp add: won_tricks_def)

lemma mset_remove_from_hand:
  assumes "i < length hs" "x \<in> set (hs ! i)"
  shows "mset (concat (hs[i := remove1 x (hs ! i)])) = mset (concat hs) - {#x#}"
proof -
  have split: "hs = take i hs @ hs ! i # drop (Suc i) hs" using assms(1) by (rule id_take_nth_drop)
  have "hs[i := remove1 x (hs ! i)] = take i hs @ remove1 x (hs ! i) # drop (Suc i) hs"
    using assms(1) by (rule upd_conv_take_nth_drop)
  moreover have "mset (concat hs) = mset (concat (take i hs)) + mset (hs ! i) + mset (concat (drop (Suc i) hs))"
    by (subst split) (simp add: add.assoc)
  ultimately show ?thesis using assms(2) by (simp add: add.assoc)
qed

lemma deck_ids_facts:
  "distinct deck_ids" "length deck_ids = 36" "set deck_ids = {x. known_card x}"
  using distinct_card_ids length_SASKU_CARDS by (auto simp: deck_ids_def known_card_def)

section \<open>Points of the whole deck\<close>

lemma deck_points:
  "image_mset (\<lambda>x. card_points (the (cardsById x))) (mset deck_ids) = mset feasible_inventory"
proof -
  have "image_mset (\<lambda>x. card_points (the (cardsById x))) (mset deck_ids) = mset (map card_points SASKU_CARDS)"
  proof -
    have "map (\<lambda>x. card_points (the (cardsById x))) deck_ids = map card_points SASKU_CARDS"
      by (auto simp: deck_ids_def set_SASKU_CARDS)
    then show ?thesis by (metis mset_map)
  qed
  also have "\<dots> = mset feasible_inventory"
    by (simp add: SASKU_CARDS_def SASKU_SUITS_def SASKU_RANKS_def feasible_inventory_unfold numeral_eq_Suc)
  finally show ?thesis .
qed

lemma plays_points_mset:
  "plays_points ps = sum_mset (image_mset (\<lambda>x. card_points (the (cardsById x))) (mset (map play_card ps)))"
  by (simp add: plays_points_def multiset.map_comp comp_def flip: sum_mset_sum_list)

lemma won_plays_mset:
  assumes "\<forall>t \<in> set ts. trick_partnership (completed_result t) \<le> 1"
  shows "mset (won_plays 0 ts) + mset (won_plays 1 ts) = mset (concat (map completed_plays ts))"
  using assms
proof (induction ts)
  case Nil
  then show ?case by (simp add: won_plays_def)
next
  case (Cons t ts)
  then have "trick_partnership (completed_result t) = 0 \<or> trick_partnership (completed_result t) = 1"
    by (auto simp: le_Suc_eq)
  with Cons show ?case by (auto simp: won_plays_def)
qed

lemma won_lengths:
  assumes "\<forall>t \<in> set ts. completed_ok t"
  shows "length (won_plays i ts) = 4 * won_tricks i ts" "won_tricks 0 ts + won_tricks 1 ts = length ts"
proof -
  show "length (won_plays i ts) = 4 * won_tricks i ts"
    using assms by (induction ts) (auto simp: won_plays_def won_tricks_def completed_ok_def)
  show "won_tricks 0 ts + won_tricks 1 ts = length ts"
    using assms by (induction ts) (auto simp: won_tricks_def completed_ok_def le_Suc_eq)
qed

text \<open>Nine resolved tricks over 36 different cards always have a score.\<close>

lemma nine_tricks_score:
  assumes "\<forall>t \<in> set ts. completed_ok t" "length ts = 9" "declarer_ok k"
    and "distinct (map play_card (concat (map completed_plays ts)))"
    and "\<forall>x \<in> set (map play_card (concat (map completed_plays ts))). known_card x"
  shows "\<exists>sc. scoreSaskuHand \<lparr>totals_cardPoints = (plays_points (won_plays 0 ts), plays_points (won_plays 1 ts)),
      totals_tricks = (won_tricks 0 ts, won_tricks 1 ts), totals_contract = k\<rparr> = Inr sc"
proof -
  let ?all = "map play_card (concat (map completed_plays ts))"
  let ?pt = "\<lambda>x. card_points (the (cardsById x))"
  have parts: "mset (won_plays 0 ts) + mset (won_plays 1 ts) = mset (concat (map completed_plays ts))"
    using assms(1) by (intro won_plays_mset) (simp add: completed_ok_def)
  have len: "length ?all = 36"
    using won_lengths [OF assms(1)] assms(2) arg_cong [OF parts, of size] by simp
  have "set ?all = set deck_ids"
  proof (rule card_subset_eq)
    show "set ?all \<subseteq> set deck_ids" using assms(5) by (auto simp: deck_ids_facts)
    show "card (set ?all) = card (set deck_ids)"
      using len assms(4) deck_ids_facts by (metis distinct_card)
  qed simp
  then have all: "mset ?all = mset deck_ids"
    using assms(4) deck_ids_facts(1) by (metis set_eq_iff_mset_eq_distinct)
  have split: "mset (map play_card (won_plays 0 ts)) + mset (map play_card (won_plays 1 ts)) = mset deck_ids"
    using arg_cong [OF parts, of "image_mset play_card"] all by simp
  have points: "image_mset ?pt (mset (map play_card (won_plays 0 ts))) +
      image_mset ?pt (mset (map play_card (won_plays 1 ts))) = mset feasible_inventory"
    using arg_cong [OF split, of "image_mset ?pt"] deck_points by simp
  have "plays_points (won_plays 0 ts) + plays_points (won_plays 1 ts) = 120"
    using arg_cong [OF points, of sum_mset] by (simp add: plays_points_mset feasible_inventory_totals)
  moreover have "feasible (mset feasible_inventory) (4 * won_tricks 0 ts) (plays_points (won_plays 0 ts))"
    unfolding feasible_def
  proof (intro exI conjI)
    show "image_mset ?pt (mset (map play_card (won_plays 0 ts))) \<subseteq># mset feasible_inventory"
      by (metis points mset_subset_eq_add_left)
    show "size (image_mset ?pt (mset (map play_card (won_plays 0 ts)))) = 4 * won_tricks 0 ts"
      using won_lengths(1) [OF assms(1), of 0] by simp
  qed (simp add: plays_points_mset)
  ultimately show ?thesis
    unfolding score_defined_iff using won_lengths(2) [OF assms(1)] assms(2,3) by simp
qed

end
