(* ===== verification/Sasku_Hand_Steps.thy ===== *)
theory Sasku_Hand_Steps
  imports Sasku_Hand_Inv
begin

text \<open>
  Every accepted action keeps the invariant of a hand, and every play of an unplayed card
  that passes the hidden-hand checks is accepted.
\<close>

lemmas inv_defs = hand_inv_def cards_inv_def hands_inv_def before_play_def
lemmas played_defs = played_def played_plays_def

section \<open>The start of a hand\<close>

lemma deal_hand_Inr:
  "deal_hand seen xs = Inr (ys, seen') \<longleftrightarrow>
     ys = xs \<and> seen' = rev xs @ seen \<and> (\<forall>x \<in> set xs. known_card x) \<and> distinct xs \<and> set xs \<inter> set seen = {}"
proof (induction xs arbitrary: seen ys seen')
  case Nil
  then show ?case by auto
next
  case (Cons x xs)
  show ?case
  proof (cases "known_card x")
    case True
    then obtain c where c: "parseSaskuCard (JString x) = Inr c" "card_id c = x"
      using parse_id parse_known by blast
    then show ?thesis
      using True Cons.IH by (auto simp: result_simps)
  next
    case False
    then show ?thesis by (auto simp: result_simps parse_known)
  qed
qed

lemma deal_hands_Inr:
  "deal_hands seen hs = Inr hs' \<longleftrightarrow>
     hs' = hs \<and> (\<forall>h \<in> set hs. length h = 9) \<and> (\<forall>x \<in> set (concat hs). known_card x) \<and>
     distinct (concat hs) \<and> set (concat hs) \<inter> set seen = {}"
proof (induction hs arbitrary: seen hs')
  case Nil
  then show ?case by auto
next
  case (Cons h hs)
  show ?case
  proof (cases "length h = 9")
    case True
    then show ?thesis
      using Cons.IH by (auto simp: result_simps deal_hand_Inr)
  next
    case False
    then show ?thesis by simp
  qed
qed

text \<open>A deal hands out every card of the deck, nine to each seat.\<close>

definition deal_ok :: "SaskuCardId list list \<Rightarrow> bool" where
  "deal_ok hands \<longleftrightarrow> map length hands = [9, 9, 9, 9] \<and> mset (concat hands) = mset deck_ids"

lemma map_length_nine: "length hs = 4 \<and> (\<forall>h \<in> set hs. length h = 9) \<longleftrightarrow> map length hs = [9, 9, 9, 9]"
proof
  assume "length hs = 4 \<and> (\<forall>h \<in> set hs. length h = 9)"
  then have "map length hs = replicate 4 9" by (simp add: list_eq_iff_nth_eq)
  then show "map length hs = [9, 9, 9, 9]" by (simp add: numeral_eq_Suc)
next
  assume *: "map length hs = [9, 9, 9, 9]"
  then have "length (map length hs) = 4" by (simp only:) simp
  then have "length hs = 4" by simp
  moreover have "set (map length hs) = {9}" using * by simp
  ultimately show "length hs = 4 \<and> (\<forall>h \<in> set hs. length h = 9)" by auto
qed

lemma length_concat_nine: "map length hs = [9, 9, 9, 9] \<Longrightarrow> length (concat hs) = 36"
  by (simp add: length_concat)

lemma mset_deck_iff:
  assumes "length xs = 36"
  shows "mset xs = mset deck_ids \<longleftrightarrow> distinct xs \<and> (\<forall>x \<in> set xs. known_card x)"
proof
  assume "mset xs = mset deck_ids"
  then show "distinct xs \<and> (\<forall>x \<in> set xs. known_card x)"
    using deck_ids_facts by (metis mem_Collect_eq mset_eq_imp_distinct_iff mset_eq_setD)
next
  assume d: "distinct xs \<and> (\<forall>x \<in> set xs. known_card x)"
  have "set xs = set deck_ids"
  proof (rule card_subset_eq)
    show "set xs \<subseteq> set deck_ids" using d by (auto simp: deck_ids_facts)
    show "card (set xs) = card (set deck_ids)"
      using d assms deck_ids_facts by (metis distinct_card)
  qed simp
  with d show "mset xs = mset deck_ids"
    using deck_ids_facts(1) by (metis set_eq_iff_mset_eq_distinct)
qed

lemma saskuSeat_Inr: "saskuSeat v = Inr d \<longleftrightarrow> d < 4 \<and> v = JNumber (JInt (int d))"
proof
  assume "saskuSeat v = Inr d"
  then show "d < 4 \<and> v = JNumber (JInt (int d))"
    by (auto simp: saskuSeat_def elim!: isSafeInteger.elims split: jsval.splits if_splits)
next
  assume "d < 4 \<and> v = JNumber (JInt (int d))"
  then show "saskuSeat v = Inr d"
    by (auto simp: saskuSeat_def MAX_SAFE_INTEGER_def)
qed

lemma newHandController_Inr:
  "newHandController v hands = Inr st \<longleftrightarrow>
     (\<exists>d. d < 4 \<and> v = JNumber (JInt (int d)) \<and> deal_ok hands \<and> st = initialState d (Some hands))"
proof -
  have *: "length hands = 4 \<and> deal_hands [] hands = Inr hs \<longleftrightarrow> hs = hands \<and> deal_ok hands" for hs
  proof (cases "map length hands = [9, 9, 9, 9]")
    case True
    then show ?thesis
      using map_length_nine [of hands] mset_deck_iff [OF length_concat_nine [OF True]]
      by (auto simp: deal_hands_Inr deal_ok_def)
  next
    case False
    then show ?thesis
      using map_length_nine [of hands] by (auto simp: deal_hands_Inr deal_ok_def)
  qed
  have "newHandController v hands = Inr st \<longleftrightarrow>
      (\<exists>d hs. d < 4 \<and> v = JNumber (JInt (int d)) \<and> (length hands = 4 \<and> deal_hands [] hands = Inr hs) \<and>
         st = initialState d (Some hs))"
    by (auto simp: newHandController_def result_simps saskuSeat_Inr)
  then show ?thesis unfolding * by blast
qed

lemma initial_inv_full: "d < 4 \<Longrightarrow> deal_ok hands \<Longrightarrow> hand_inv (initialState d (Some hands))"
  by (auto simp: inv_defs initialState_def auction_inv_def played_defs deal_ok_def
      won_plays_def won_tricks_def plays_points_def map_filter_def nextSeat_def)

lemma initial_inv_public: "d < 4 \<Longrightarrow> hand_inv (initialState d None)"
  by (auto simp: inv_defs initialState_def auction_inv_def played_defs
      won_plays_def won_tricks_def plays_points_def map_filter_def nextSeat_def)

section \<open>The auction\<close>

lemma nextSeat_less [simp]: "nextSeat s < 4"
  by (simp add: nextSeat_def)

abbreviation logged :: "HandState \<Rightarrow> SaskuHandAction \<Rightarrow> HandState" where
  "logged st a \<equiv> st\<lparr>hs_history := hs_history st @ [a]\<rparr>"

lemma auction_history_bound: "auction_inv st \<Longrightarrow> length (hs_history st) \<le> 15"
proof -
  assume inv: "auction_inv st"
  let ?b = "List.map_filter bidder_of (hs_history st)"
  have "length ?b \<le> 4"
    using inv by (intro distinct_below_4) (auto simp: auction_inv_def Let_def)
  then show ?thesis
    using inv by (auto simp: auction_inv_def Let_def split: option.splits)
qed

lemma start_play:
  assumes "before_play st" "cards_inv st" "hands_inv st" "length (hs_history st) \<le> 16" "t < 4"
    and "declarer_ok k" "play_of a = None"
    and "hs_phase st' = Playing" "hs_contract st' = Some k" "hs_turn st' = Some t"
    and "hs_history st' = hs_history st @ [a]" "hs_completedTricks st' = hs_completedTricks st"
    and "hs_trick st' = hs_trick st" "hs_handSizes st' = hs_handSizes st" "hs_score st' = hs_score st"
    and "hs_hands st' = hs_hands st" "hs_dealer st' = hs_dealer st"
    and "hs_cardPoints st' = hs_cardPoints st" "hs_tricksWon st' = hs_tricksWon st"
  shows "hand_inv st'"
proof -
  have "played st' = played st" using assms by (simp add: played_defs)
  moreover have "play_inv st'"
    unfolding play_inv_def using assms
    by (auto simp: before_play_def seats_from_def nth_Cons' intro!: exI [of _ t])
  ultimately show ?thesis
    using assms by (simp add: inv_defs split: option.splits)
qed

lemma bidding_step_inv:
  assumes inv: "hand_inv st" and phase: "hs_phase st = Bidding" and turn: "hs_turn st = Some (act_seat a)"
    and step: "bidding_step st (logged st a) a = Inr st'"
  shows "hand_inv st'"
proof -
  have before: "before_play st" and auction: "auction_inv st" and cards: "cards_inv st" "hands_inv st"
    using inv phase by (simp_all add: hand_inv_def)
  have len: "length (hs_history st) \<le> 15" using auction by (rule auction_history_bound)
  have seat: "act_seat a < 4" using auction turn by (auto simp: auction_inv_def Let_def)
  have dealer: "hs_dealer st < 4" using cards by (simp add: cards_inv_def)
  let ?b = "List.map_filter bidder_of (hs_history st)"
  show ?thesis
  proof (cases a)
    case (ActBid s v)
    have fresh: "s \<notin> set ?b" and st':
      "st' = (logged st a)\<lparr>hs_highestBid := Some (s, v), hs_consecutivePasses := 0, hs_turn := Some (nextSeat s)\<rparr>"
      using step ActBid by (auto simp: bidding_step_def result_simps in_map_filter_bidder split: if_splits)
    have "auction_inv st'"
      using auction fresh seat ActBid
      by (auto simp: st' auction_inv_def Let_def split: option.splits)
    then show ?thesis
      using before cards phase ActBid by (simp add: st' inv_defs played_defs split: option.splits)
  next
    case (ActDiamonds s)
    then have st': "st' = (logged st a)\<lparr>hs_contract := Some (NamedContract Diamonds s), hs_phase := Playing, hs_turn := Some s\<rparr>"
      using step by (simp add: bidding_step_def)
    show ?thesis
      by (rule start_play [OF before cards _ seat, where k = "NamedContract Diamonds s" and a = a])
        (use ActDiamonds seat len st' in \<open>simp_all add: declarer_ok_def\<close>)
  next
    case (ActPass s)
    show ?thesis
    proof (cases "hs_highestBid st")
      case None
      show ?thesis
      proof (cases "hs_consecutivePasses st = 3")
        case True
        with None ActPass step have st': "st' = (logged st a)\<lparr>hs_consecutivePasses := 4,
            hs_contract := Some PassRound, hs_phase := Playing, hs_turn := Some (nextSeat (hs_dealer st))\<rparr>"
          by (simp add: bidding_step_def)
        show ?thesis
          by (rule start_play [OF before cards _ nextSeat_less, where k = PassRound and a = a])
            (use ActPass len st' in \<open>simp_all add: declarer_ok_def\<close>)
      next
        case False
        with None ActPass step have st': "st' = (logged st a)\<lparr>hs_consecutivePasses := hs_consecutivePasses st + 1,
            hs_turn := Some (nextSeat s)\<rparr>"
          by (simp add: bidding_step_def)
        have "auction_inv st'"
          using auction None False ActPass by (auto simp: st' auction_inv_def Let_def)
        then show ?thesis
          using before cards phase ActPass by (simp add: st' inv_defs played_defs split: option.splits)
      qed
    next
      case (Some bid)
      obtain b v where bid: "bid = (b, v)" by fastforce
      have b: "b < 4" using auction Some bid by (simp add: auction_inv_def Let_def)
      show ?thesis
      proof (cases "hs_consecutivePasses st = 2")
        case True
        with Some bid ActPass step have st': "st' = (logged st a)\<lparr>hs_consecutivePasses := 3,
            hs_phase := ChoosingTrump, hs_turn := Some b\<rparr>"
          by (simp add: bidding_step_def)
        show ?thesis
          using before cards phase ActPass Some bid b len by (simp add: st' inv_defs played_defs split: option.splits)
      next
        case False
        with Some bid ActPass step have st': "st' = (logged st a)\<lparr>hs_consecutivePasses := hs_consecutivePasses st + 1,
            hs_turn := Some (nextSeat s)\<rparr>"
          by (simp add: bidding_step_def)
        have "auction_inv st'"
          using auction Some bid False ActPass by (auto simp: st' auction_inv_def Let_def)
        then show ?thesis
          using before cards phase ActPass by (simp add: st' inv_defs played_defs split: option.splits)
      qed
    qed
  qed (use step in \<open>simp_all add: bidding_step_def\<close>)
qed

lemma choosing_step_inv:
  assumes inv: "hand_inv st" and phase: "hs_phase st = ChoosingTrump" and turn: "hs_turn st = Some (act_seat a)"
    and step: "choosing_step (logged st a) a = Inr st'"
  shows "hand_inv st'"
proof (cases a)
  case (ActChooseTrump s suit)
  have before: "before_play st" and cards: "cards_inv st" "hands_inv st" and len: "length (hs_history st) \<le> 16"
    and seat: "act_seat a < 4"
    using inv phase turn by (auto simp: hand_inv_def)
  have st': "st' = (logged st a)\<lparr>hs_contract := Some (NamedContract suit s), hs_phase := Playing, hs_turn := Some s\<rparr>"
    using step ActChooseTrump by (simp add: choosing_step_def)
  show ?thesis
    by (rule start_play [OF before cards len seat, where k = "NamedContract suit s" and a = a])
      (use ActChooseTrump seat st' in \<open>simp_all add: declarer_ok_def\<close>)
qed (use step in \<open>simp_all add: choosing_step_def\<close>)

section \<open>Playing a card\<close>

lemma hand_of_turn:
  assumes "hand_inv st" "hs_hands st = Some hands"
  shows "length hands = 4" "hs_handSizes st = map length hands"
    "mset (concat hands) + mset (played st) = mset deck_ids"
proof -
  show "hs_handSizes st = map length hands" "mset (concat hands) + mset (played st) = mset deck_ids"
    using assms by (simp_all add: hand_inv_def hands_inv_def)
  then show "length hands = 4"
    using assms(1) by (simp add: hand_inv_def cards_inv_def)
qed

text \<open>The state after the card has left the hand and joined the trick, before the trick is settled.\<close>

definition card_laid :: "HandState \<Rightarrow> SaskuSeat \<Rightarrow> SaskuCardId \<Rightarrow> HandState" where
  "card_laid st s x = (logged st (ActPlay s x))\<lparr>
     hs_hands := map_option (\<lambda>hands. hands[s := remove1 x (hands ! s)]) (hs_hands st),
     hs_handSizes := (hs_handSizes st)[s := hs_handSizes st ! s - 1],
     hs_trick := hs_trick st @ [\<lparr>play_seat = s, play_card = x\<rparr>]\<rparr>"

lemma played_card_laid: "played (card_laid st s x) = played st @ [x]"
  by (simp add: card_laid_def played_defs)

lemma cards_inv_card_laid:
  "cards_inv st \<Longrightarrow> known_card x \<Longrightarrow> x \<notin> set (played st) \<Longrightarrow> cards_inv (card_laid st s x)"
  unfolding cards_inv_def played_card_laid by (simp add: card_laid_def)

lemma hands_inv_card_laid:
  assumes inv: "hand_inv st" and s: "s < 4"
    and held: "\<And>hands. hs_hands st = Some hands \<Longrightarrow> x \<in> set (hands ! s)"
  shows "hands_inv (card_laid st s x)"
proof (cases "hs_hands st")
  case None
  then show ?thesis by (simp add: hands_inv_def card_laid_def)
next
  case (Some hands)
  note h = hand_of_turn [OF inv Some]
  have x: "x \<in> set (hands ! s)" using Some by (rule held)
  have "x \<in># mset (concat hands)" using x s h(1) by auto
  then obtain N where N: "mset (concat hands) = add_mset x N" by (metis insert_DiffM)
  have "mset (concat (hands[s := remove1 x (hands ! s)])) = mset (concat hands) - {#x#}"
    using s h(1) x by (intro mset_remove_from_hand) auto
  then have "mset (concat (hands[s := remove1 x (hands ! s)])) = N" by (simp only: N add_mset_remove_trivial)
  then have "mset (concat (hands[s := remove1 x (hands ! s)])) + mset (played (card_laid st s x)) = mset deck_ids"
    using h(3) unfolding N by (simp add: played_card_laid)
  moreover have "map length (hands[s := remove1 x (hands ! s)]) = (hs_handSizes st)[s := hs_handSizes st ! s - 1]"
    using s h(1,2) x by (simp add: map_update length_remove1)
  ultimately show ?thesis
    using Some by (simp add: hands_inv_def card_laid_def)
qed

lemma playing_step_laid:
  assumes "hs_contract st = Some k" "hidden_hand_checks (logged st (ActPlay s x)) (trumpSuit k) s x = Inr ()"
    and "x \<notin> set (List.map_filter play_of (hs_history st))" "hs_handSizes st ! s \<noteq> 0"
  shows "playing_step st (logged st (ActPlay s x)) (ActPlay s x) =
    (if length (hs_trick (card_laid st s x)) = 4 then finish_trick (card_laid st s x) k
     else Inr ((card_laid st s x)\<lparr>hs_turn := Some (nextSeat s)\<rparr>))"
  using assms unfolding playing_step_def in_map_filter_play by (auto simp: card_laid_def Let_def)

lemma cards_hands_inv_update [simp]:
  "cards_inv (st\<lparr>hs_turn := t\<rparr>) = cards_inv st" "cards_inv (st\<lparr>hs_phase := ph\<rparr>) = cards_inv st"
  "cards_inv (st\<lparr>hs_score := sc\<rparr>) = cards_inv st" "hands_inv (st\<lparr>hs_turn := t\<rparr>) = hands_inv st"
  "hands_inv (st\<lparr>hs_phase := ph\<rparr>) = hands_inv st" "hands_inv (st\<lparr>hs_score := sc\<rparr>) = hands_inv st"
  by (simp_all add: cards_inv_def hands_inv_def played_defs split: option.splits)

lemma length_completed_plays:
  "\<forall>t \<in> set ts. completed_ok t \<Longrightarrow> length (concat (map completed_plays ts)) = 4 * length ts"
  by (induction ts) (auto simp: completed_ok_def)

lemma finish_trick_inv:
  assumes laid: "cards_inv st" "hands_inv st" "hs_contract st = Some k" "declarer_ok k" "hs_score st = None"
    and trick: "length (hs_trick st) = 4" "map play_seat (hs_trick st) = seats_from l 4"
    and tricks: "length (hs_completedTricks st) \<le> 8"
    and sizes: "\<forall>i < 4. hs_handSizes st ! i + length (hs_completedTricks st) + 1 = 9"
    and len: "length (hs_history st) \<le> 17 + length (played st)" and phase: "hs_phase st = Playing"
  shows "\<exists>st'. finish_trick st k = Inr st' \<and> hand_inv st'"
proof -
  have "trick_ok (hs_trick st)"
    unfolding trick_ok_def
  proof (intro conjI ballI)
    fix p assume "p \<in> set (hs_trick st)"
    then have "play_seat p \<in> set (seats_from l 4)" "play_card p \<in> set (played st)"
      using trick(2) by (metis image_eqI set_map) (auto simp: played_defs \<open>p \<in> set (hs_trick st)\<close>)
    then show "play_seat p \<le> 3" "known_card (play_card p)"
      using laid(1) by (auto simp: cards_inv_def dest: seats_from_bound)
  qed (use laid(1) trick distinct_seats_from [of 4 l] in \<open>auto simp: cards_inv_def played_defs\<close>)
  from resolveSaskuTrick_ok [OF this trick(1), of "trumpSuit k"] obtain w where
    r: "resolveSaskuTrick (hs_trick st) (trumpSuit k) =
      Inr \<lparr>trick_winner = w, trick_partnership = play_seat w mod 2, trick_cardPoints = plays_points (hs_trick st)\<rparr>"
    and w: "w \<in> set (hs_trick st)" by blast
  define t where "t = \<lparr>completed_result = \<lparr>trick_winner = w, trick_partnership = play_seat w mod 2,
      trick_cardPoints = plays_points (hs_trick st)\<rparr>, completed_plays = hs_trick st\<rparr>"
  let ?ts = "hs_completedTricks st @ [t]"
  define s1 where "s1 = st\<lparr>hs_completedTricks := ?ts,
      hs_cardPoints := add_at (play_seat w mod 2) (plays_points (hs_trick st)) (hs_cardPoints st),
      hs_tricksWon := add_at (play_seat w mod 2) 1 (hs_tricksWon st), hs_trick := []\<rparr>"
  have played1: "played s1 = played st" by (simp add: s1_def t_def played_defs)
  have cards1: "cards_inv s1"
    unfolding cards_inv_def played1 using laid(1) trick(1)
    by (auto simp: s1_def t_def cards_inv_def completed_ok_def won_plays_snoc won_tricks_snoc add_at_def plays_points_def)
  have hands1: "hands_inv s1"
    using laid(2) played1 by (simp add: hands_inv_def s1_def split: option.splits)
  have seatw: "play_seat w < 4"
  proof -
    have "play_seat w \<in> set (seats_from l 4)" using w trick(2) by (metis image_eqI set_map)
    from seats_from_bound [OF this] show ?thesis by simp
  qed
  have fin: "finish_trick st k = (if length ?ts = 9
      then rbind (scoreSaskuHand \<lparr>totals_cardPoints = hs_cardPoints s1, totals_tricks = hs_tricksWon s1, totals_contract = k\<rparr>)
             (\<lambda>score. Inr (s1\<lparr>hs_score := Some score, hs_phase := Complete, hs_turn := None\<rparr>))
      else Inr (s1\<lparr>hs_turn := Some (play_seat w)\<rparr>))"
    using r by (simp add: finish_trick_def Let_def s1_def t_def)
  show ?thesis
  proof (cases "length ?ts = 9")
    case True
    have "distinct (map play_card (concat (map completed_plays ?ts)))"
      "\<forall>x \<in> set (map play_card (concat (map completed_plays ?ts))). known_card x"
      "\<forall>t \<in> set ?ts. completed_ok t"
      using cards1 by (simp_all add: cards_inv_def s1_def played_defs)
    from nine_tricks_score [OF this(3) True laid(4) this(1,2)] obtain sc where
      "scoreSaskuHand \<lparr>totals_cardPoints = hs_cardPoints s1, totals_tricks = hs_tricksWon s1, totals_contract = k\<rparr> = Inr sc"
      using cards1 by (auto simp: cards_inv_def s1_def)
    moreover have "length (played st) = 36"
      using cards1 True length_completed_plays [of ?ts] unfolding played1 [symmetric]
      by (simp add: cards_inv_def s1_def played_defs)
    ultimately show ?thesis
      using fin True cards1 hands1 laid(3) len by (simp add: hand_inv_def complete_inv_def s1_def)
  next
    case False
    then have "length ?ts \<le> 8" using tricks by simp
    then have "play_inv (s1\<lparr>hs_turn := Some (play_seat w)\<rparr>)"
      unfolding play_inv_def using laid(3-5) sizes len seatw
      by (auto simp: s1_def t_def seats_from_def played_defs intro!: exI [of _ "play_seat w"])
    then show ?thesis
      using fin False cards1 hands1 phase by (simp add: hand_inv_def s1_def)
  qed
qed

lemma playing_step_ok:
  assumes inv: "hand_inv st" and phase: "hs_phase st = Playing" and turn: "hs_turn st = Some s"
    and contract: "hs_contract st = Some k" and x: "known_card x" "x \<notin> set (played st)"
    and hidden: "hidden_hand_checks (logged st (ActPlay s x)) (trumpSuit k) s x = Inr ()"
  shows "\<exists>st'. playing_step st (logged st (ActPlay s x)) (ActPlay s x) = Inr st' \<and> hand_inv st'"
proof -
  have cards: "cards_inv st" and play: "play_inv st" using inv phase by (simp_all add: hand_inv_def)
  let ?n = "length (hs_trick st)"
  let ?st = "card_laid st s x"
  obtain l where l: "l < 4" "map play_seat (hs_trick st) = seats_from l ?n" "s = (l + ?n) mod 4"
    and sizes: "\<forall>i < 4. hs_handSizes st ! i + length (hs_completedTricks st) +
           (if i \<in> set (map play_seat (hs_trick st)) then 1 else 0) = 9"
    using play turn unfolding play_inv_def by (metis option.inject)
  have n: "?n < 4" and k: "declarer_ok k" and score: "hs_score st = None"
    and tricks: "length (hs_completedTricks st) \<le> 8"
    and len: "length (hs_history st) \<le> 17 + length (played st)"
    using play contract by (auto simp: play_inv_def)
  have s: "s < 4" using l(3) by simp
  have fresh: "s \<notin> set (map play_seat (hs_trick st))"
    unfolding l(2) l(3) by (rule next_of_seats_fresh) (rule n)
  have sz: "hs_handSizes st ! s + length (hs_completedTricks st) = 9"
    using sizes s fresh by (auto split: if_splits)
  have lsz: "length (hs_handSizes st) = 4" using cards by (simp add: cards_inv_def)
  have hist: "x \<notin> set (List.map_filter play_of (hs_history st))"
    using cards x(2) by (simp add: cards_inv_def)
  have held: "x \<in> set (hands ! s)" if "hs_hands st = Some hands" for hands
    using hidden that by (auto simp: hidden_hand_checks_def split: if_splits)
  have laid: "cards_inv ?st" "hands_inv ?st"
    using cards_inv_card_laid [OF cards x] hands_inv_card_laid [OF inv s held] by simp_all
  have seats: "map play_seat (hs_trick ?st) = seats_from l (Suc ?n)"
    using l(2,3) by (simp add: card_laid_def seats_from_Suc)
  have sizes': "\<forall>i < 4. hs_handSizes ?st ! i + length (hs_completedTricks ?st) +
           (if i \<in> set (map play_seat (hs_trick ?st)) then 1 else 0) = 9"
    using sizes sz lsz s fresh tricks by (auto simp: card_laid_def nth_list_update)
  have step: "playing_step st (logged st (ActPlay s x)) (ActPlay s x) =
    (if length (hs_trick ?st) = 4 then finish_trick ?st k else Inr (?st\<lparr>hs_turn := Some (nextSeat s)\<rparr>))"
    using sz tricks by (intro playing_step_laid [OF contract hidden hist]) simp
  show ?thesis
  proof (cases "?n = 3")
    case True
    have "\<exists>st'. finish_trick ?st k = Inr st' \<and> hand_inv st'"
    proof (rule finish_trick_inv [OF laid])
      show "\<forall>i < 4. hs_handSizes ?st ! i + length (hs_completedTricks ?st) + 1 = 9"
        using sizes' seats True seats_from_all [of _ l] by simp
    qed (use contract k score True seats tricks len phase in \<open>simp_all add: card_laid_def played_defs\<close>)
    then show ?thesis using step True by (simp add: card_laid_def)
  next
    case False
    have "play_inv (?st\<lparr>hs_turn := Some (nextSeat s)\<rparr>)"
      unfolding play_inv_def
    proof (intro conjI exI [of _ l])
      show "hs_turn (?st\<lparr>hs_turn := Some (nextSeat s)\<rparr>) = Some ((l + length (hs_trick (?st\<lparr>hs_turn := Some (nextSeat s)\<rparr>))) mod 4)"
        unfolding l(3) nextSeat_rotate by (simp add: card_laid_def)
    qed (use contract k score tricks n False l(1) seats sizes' len in \<open>simp_all add: card_laid_def played_defs\<close>)
    then show ?thesis
      using step False n laid phase
      by (auto simp: hand_inv_def cards_inv_def hands_inv_def card_laid_def played_defs split: option.splits)
  qed
qed

section \<open>Whole actions\<close>

definition action_ok :: "SaskuHandAction \<Rightarrow> bool" where
  "action_ok a \<longleftrightarrow> act_seat a < 4 \<and>
     (case a of ActBid _ v \<Rightarrow> 3 \<le> v \<and> v \<le> 9 | ActPlay _ x \<Rightarrow> known_card x | _ \<Rightarrow> True)"

lemma playing_step_inv:
  assumes inv: "hand_inv st" and phase: "hs_phase st = Playing" and turn: "hs_turn st = Some (act_seat a)"
    and ok: "action_ok a" and step: "playing_step st (logged st a) a = Inr st'"
  shows "hand_inv st'"
proof -
  obtain k where k: "hs_contract st = Some k" using inv phase by (auto simp: hand_inv_def play_inv_def)
  obtain s x where a: "a = ActPlay s x"
    using step k by (cases a) (simp_all add: playing_step_def)
  have hidden: "hidden_hand_checks (logged st a) (trumpSuit k) s x = Inr ()"
    and hist: "x \<notin> set (List.map_filter play_of (hs_history st))"
    using step k a by (auto simp: playing_step_def result_simps in_map_filter_play split: if_splits)
  have "x \<notin> set (played st)" using inv hist by (simp add: hand_inv_def cards_inv_def)
  moreover have "known_card x" using ok a by (simp add: action_ok_def)
  ultimately show ?thesis
    using playing_step_ok [OF inv phase _ k, of s x] hidden step turn a by auto
qed

lemma hand_inv_history: "hand_inv st \<Longrightarrow> length (hs_history st) \<le> 53"
proof -
  assume inv: "hand_inv st"
  have "length (played st) \<le> 36"
  proof -
    have "set (played st) \<subseteq> set deck_ids"
      using inv by (auto simp: hand_inv_def cards_inv_def deck_ids_facts(3))
    then have "card (set (played st)) \<le> card (set deck_ids)" by (intro card_mono) simp_all
    then show ?thesis
      using inv deck_ids_facts(1,2) by (simp add: hand_inv_def cards_inv_def distinct_card)
  qed
  then show ?thesis
    using inv auction_history_bound [of st]
    by (auto simp: hand_inv_def play_inv_def complete_inv_def split: SaskuHandPhase.splits)
qed

lemma applyAction_inv:
  assumes inv: "hand_inv st" and ok: "action_ok a" and step: "applyAction st a = Inr st'"
  shows "hand_inv st'"
proof -
  have turn: "hs_turn st = Some (act_seat a)" and phase: "hs_phase st \<noteq> Complete"
    using step by (auto simp: applyAction_def split: if_splits)
  show ?thesis
  proof (cases "hs_phase st")
    case Bidding
    then show ?thesis
      using step by (intro bidding_step_inv [OF inv _ turn]) (auto simp: applyAction_def split: if_splits)
  next
    case ChoosingTrump
    then show ?thesis
      using step by (intro choosing_step_inv [OF inv _ turn]) (auto simp: applyAction_def split: if_splits)
  next
    case Playing
    then show ?thesis
      using step by (intro playing_step_inv [OF inv _ turn ok]) (auto simp: applyAction_def split: if_splits)
  qed (use phase in simp)
qed

end
