(* ===== verification/Error_Machine.thy ===== *)
theory Error_Machine
  imports Tablefolk_Prelude
begin

text \<open>
  State machines whose transition may throw: the states they reach, and the two contracts
  the components of the program share. \<open>error_machine\<close> says that an invariant holds at the
  start and survives every accepted input; \<open>machine_refinement\<close> says that a detailed
  machine accepts an input only when the coarser machine accepts it and their states stay
  related. Each component interprets them on its own operations.
\<close>

inductive reachable :: "('s \<Rightarrow> bool) \<Rightarrow> ('s \<Rightarrow> 'a \<Rightarrow> 'e + 's) \<Rightarrow> 's \<Rightarrow> bool"
  for start :: "'s \<Rightarrow> bool" and step :: "'s \<Rightarrow> 'a \<Rightarrow> 'e + 's" where
  reachable_start: "start s \<Longrightarrow> reachable start step s"
| reachable_step: "reachable start step s \<Longrightarrow> step s a = Inr t \<Longrightarrow> reachable start step t"

inductive_cases reachable_cases: "reachable start step s"

lemma reachable_fold: "reachable start step s \<Longrightarrow> foldM_res step s xs = Inr t \<Longrightarrow> reachable start step t"
proof (induction xs arbitrary: s)
  case Nil
  then show ?case by simp
next
  case (Cons x xs)
  then obtain u where "step s x = Inr u" "foldM_res step u xs = Inr t" by (auto simp: result_simps)
  with Cons show ?case by (blast intro: reachable_step)
qed

lemma reachable_iff_fold:
  "reachable start step t \<longleftrightarrow> (\<exists>s xs. start s \<and> foldM_res step s xs = Inr t)"
proof
  assume "reachable start step t"
  then show "\<exists>s xs. start s \<and> foldM_res step s xs = Inr t"
  proof induction
    case (reachable_start s)
    then show ?case by (intro exI [of _ s] exI [of _ "[]"]) simp
  next
    case (reachable_step s a t)
    then obtain s0 xs where "start s0" "foldM_res step s0 xs = Inr s" by blast
    with reachable_step(2) have "foldM_res step s0 (xs @ [a]) = Inr t" by (simp add: foldM_res_append)
    with \<open>start s0\<close> show ?case by blast
  qed
next
  assume "\<exists>s xs. start s \<and> foldM_res step s xs = Inr t"
  then show "reachable start step t" by (blast intro: reachable_start reachable_fold)
qed

locale error_machine =
  fixes start :: "'s \<Rightarrow> bool" and step :: "'s \<Rightarrow> 'a \<Rightarrow> 'e + 's" and good :: "'s \<Rightarrow> bool"
  assumes start_good: "start s \<Longrightarrow> good s"
    and step_good: "good s \<Longrightarrow> step s a = Inr t \<Longrightarrow> good t"
begin

lemma reachable_good: "reachable start step s \<Longrightarrow> good s"
  by (induction rule: reachable.induct) (auto intro: start_good step_good)

lemma fold_good: "good s \<Longrightarrow> foldM_res step s xs = Inr t \<Longrightarrow> good t"
  by (erule foldM_res_invariant) (auto intro: step_good)

end

locale machine_refinement = error_machine start step good
  for start :: "'s \<Rightarrow> bool" and step :: "'s \<Rightarrow> 'a \<Rightarrow> 'e + 's" and good :: "'s \<Rightarrow> bool" +
  fixes abs_start :: "'t \<Rightarrow> bool" and abs_step :: "'t \<Rightarrow> 'a \<Rightarrow> 'e + 't" and view :: "'s \<Rightarrow> 't"
  assumes start_view: "start s \<Longrightarrow> abs_start (view s)"
    and step_view: "good s \<Longrightarrow> step s a = Inr t \<Longrightarrow> abs_step (view s) a = Inr (view t)"
begin

lemma fold_view: "good s \<Longrightarrow> foldM_res step s xs = Inr t \<Longrightarrow> foldM_res abs_step (view s) xs = Inr (view t)"
proof (induction xs arbitrary: s)
  case Nil
  then show ?case by simp
next
  case (Cons x xs)
  then obtain u where "step s x = Inr u" "foldM_res step u xs = Inr t" by (auto simp: result_simps)
  moreover have "abs_step (view s) x = Inr (view u)" "good u"
    using Cons.prems(1) calculation(1) by (auto intro: step_view step_good)
  ultimately show ?case using Cons.IH by simp
qed

lemma reachable_view: "reachable start step s \<Longrightarrow> reachable abs_start abs_step (view s)"
  by (induction rule: reachable.induct)
    (auto intro: reachable.intros start_view step_view reachable_good)

end

end
