(* ===== verification/Sasku_Hand_Props.thy ===== *)
theory Sasku_Hand_Props
  imports Sasku_Hand_Steps Error_Machine
begin

text \<open>
  What the two controllers of a hand guarantee: the states they reach satisfy the
  invariant, a player on turn can always act, exactly the legal cards are accepted, the
  public controller simulates the complete-information one, and the audit of a publicly
  possible history always gives a verdict.
\<close>

section \<open>Actions as objects\<close>

lemma saskuSeat_int [simp]: "s < 4 \<Longrightarrow> saskuSeat (JNumber (JInt (int s))) = Inr s"
  by (simp add: saskuSeat_Inr)

lemma includedSuit_text [simp]: "includedSuit (JString (ascii (suitText u))) = Some u"
  by (cases u) (simp_all add: includedSuit_def SASKU_SUITS_def)

lemma normalizeAction_Inr_ok: "normalizeAction v = Inr a \<Longrightarrow> action_ok a"
  by (auto simp: normalizeAction_def action_ok_def result_simps saskuSeat_Inr parse_Inr_iff Let_def
      split: jsval.splits if_splits prod.splits option.splits sum.splits bool.splits)

lemma normalizeAction_object [simp]: "action_ok a \<Longrightarrow> normalizeAction (actionObject a) = Inr a"
  by (cases a) (auto simp: normalizeAction_def action_ok_def get_prop_def keys_are_def Let_def
      MAX_SAFE_INTEGER_def insert_commute elim!: known_cardE)

declare actionObject.simps [simp del]

lemma nextState_object [simp]: "action_ok a \<Longrightarrow> nextState st (actionObject a) = applyAction st a"
  by (simp add: nextState_def)

lemma nextState_Inr: "nextState st v = Inr st' \<longleftrightarrow> (\<exists>a. normalizeAction v = Inr a \<and> applyAction st a = Inr st')"
  by (simp add: nextState_def result_simps)

lemma nextState_inv: "hand_inv st \<Longrightarrow> nextState st v = Inr st' \<Longrightarrow> hand_inv st'"
  by (auto simp: nextState_Inr intro: applyAction_inv normalizeAction_Inr_ok)

section \<open>The controllers as machines\<close>

definition full_start :: "HandState \<Rightarrow> bool" where
  "full_start st \<longleftrightarrow> (\<exists>dealer hands. newHandController dealer hands = Inr st)"

definition public_start :: "HandState \<Rightarrow> bool" where
  "public_start st \<longleftrightarrow> (\<exists>v. newPublicHandController v = Inr st)"

lemma public_start_iff: "public_start st \<longleftrightarrow> (\<exists>d < 4. st = initialState d None)"
proof
  assume "public_start st"
  then obtain v where "newPublicHandController v = Inr st" by (auto simp: public_start_def)
  then show "\<exists>d < 4. st = initialState d None"
    by (cases v) (auto simp: newPublicHandController_def result_simps saskuSeat_Inr split: if_splits)
next
  assume "\<exists>d < 4. st = initialState d None"
  then obtain d where "d < 4" "st = initialState d None" by blast
  then have "newPublicHandController (JObject [(ascii ''dealer'', JNumber (JInt (int d)))]) = Inr st"
    by (simp add: newPublicHandController_def get_prop_def)
  then show "public_start st" by (auto simp: public_start_def)
qed

lemma full_start_inv: "full_start st \<Longrightarrow> hand_inv st"
  by (auto simp: full_start_def newHandController_Inr intro: initial_inv_full)

lemma public_start_inv: "public_start st \<Longrightarrow> hand_inv st"
  by (auto simp: public_start_iff intro: initial_inv_public)

text \<open>Forgetting the hands: what the public controller keeps of a complete state.\<close>

definition erase :: "HandState \<Rightarrow> HandState" where
  "erase st = st\<lparr>hs_hands := None\<rparr>"

lemma erase_sel [simp]:
  "hs_phase (erase st) = hs_phase st" "hs_dealer (erase st) = hs_dealer st" "hs_turn (erase st) = hs_turn st"
  "hs_highestBid (erase st) = hs_highestBid st" "hs_consecutivePasses (erase st) = hs_consecutivePasses st"
  "hs_contract (erase st) = hs_contract st" "hs_hands (erase st) = None" "hs_handSizes (erase st) = hs_handSizes st"
  "hs_trick (erase st) = hs_trick st" "hs_completedTricks (erase st) = hs_completedTricks st"
  "hs_cardPoints (erase st) = hs_cardPoints st" "hs_tricksWon (erase st) = hs_tricksWon st"
  "hs_score (erase st) = hs_score st" "hs_history (erase st) = hs_history st"
  by (simp_all add: erase_def)

lemma snapshot_erase [simp]: "snapshot (erase st) = snapshot st"
  by (simp add: snapshot_def)

lemma finish_trick_erase: "finish_trick (erase st) k = rbind (finish_trick st k) (\<lambda>s. Inr (erase s))"
  by (simp add: finish_trick_def Let_def erase_def rbind_def split: sum.splits)

lemma card_laid_erase: "card_laid (erase st) s x = erase (card_laid st s x)"
  by (simp add: card_laid_def erase_def)

lemma choosing_erase:
  "choosing_step (logged st a) a = Inr st' \<Longrightarrow> choosing_step (logged (erase st) a) a = Inr (erase st')"
  by (cases a) (auto simp: choosing_step_def erase_def)


lemma bidding_erase:
  "bidding_step st (logged st a) a = Inr st' \<Longrightarrow>
     bidding_step (erase st) (logged (erase st) a) a = Inr (erase st')"
  by (cases a) (auto simp: bidding_step_def result_simps erase_def Let_def split: option.splits if_splits)

lemma playing_erase:
  assumes "playing_step st (logged st a) a = Inr st'"
  shows "playing_step (erase st) (logged (erase st) a) a = Inr (erase st')"
proof -
  obtain s x k where a: "a = ActPlay s x" and k: "hs_contract st = Some k"
    using assms by (cases a; cases "hs_contract st") (auto simp: playing_step_def)
  have ok: "hidden_hand_checks (logged st a) (trumpSuit k) s x = Inr ()"
    "x \<notin> set (List.map_filter play_of (hs_history st))" "hs_handSizes st ! s \<noteq> 0"
    using assms a k by (auto simp: playing_step_def result_simps in_map_filter_play split: if_splits)
  have full: "playing_step st (logged st a) a =
    (if length (hs_trick (card_laid st s x)) = 4 then finish_trick (card_laid st s x) k
     else Inr ((card_laid st s x)\<lparr>hs_turn := Some (nextSeat s)\<rparr>))"
    using ok k unfolding a by (intro playing_step_laid) auto
  have public: "playing_step (erase st) (logged (erase st) a) a =
    (if length (hs_trick (card_laid (erase st) s x)) = 4 then finish_trick (card_laid (erase st) s x) k
     else Inr ((card_laid (erase st) s x)\<lparr>hs_turn := Some (nextSeat s)\<rparr>))"
    using ok k unfolding a by (intro playing_step_laid) (auto simp: hidden_hand_checks_def)
  show ?thesis
    using assms unfolding full public card_laid_erase finish_trick_erase
    by (auto simp: erase_def split: if_splits)
qed

lemma applyAction_erase:
  assumes "applyAction st a = Inr st'"
  shows "applyAction (erase st) a = Inr (erase st')"
proof -
  have guards: "hs_phase st \<noteq> Complete" "Some (act_seat a) = hs_turn st" "length (hs_history st) < MAX_SASKU_HAND_ACTIONS"
    using assms by (auto simp: applyAction_def split: if_splits)
  then show ?thesis
    using assms
    by (cases "hs_phase st")
      (auto simp: applyAction_def dest: bidding_erase choosing_erase playing_erase)
qed

lemma nextState_erase: "nextState st v = Inr st' \<Longrightarrow> nextState (erase st) v = Inr (erase st')"
  by (auto simp: nextState_Inr intro: applyAction_erase)

lemma full_start_erase: "full_start st \<Longrightarrow> public_start (erase st)"
  by (auto simp: full_start_def newHandController_Inr public_start_iff initialState_def erase_def)

interpretation public_hand: error_machine public_start nextState hand_inv
  by unfold_locales (auto intro: public_start_inv nextState_inv)

interpretation full_hand: machine_refinement full_start nextState hand_inv public_start nextState erase
  by unfold_locales (auto intro: full_start_inv nextState_inv full_start_erase nextState_erase)


section \<open>Hidden-hand rules\<close>

lemma legal_for_turn:
  assumes inv: "hand_inv st" and phase: "hs_phase st = Playing" and turn: "hs_turn st = Some s"
    and hands: "hs_hands st = Some hands"
  shows "trick_ok (hs_trick st)" "length (hs_trick st) < 4" "hand_ok (hands ! s) (hs_trick st)" "hands ! s \<noteq> []"
    "s < 4" "set (hands ! s) \<inter> set (played st) = {}"
proof -
  have cards: "cards_inv st" and play: "play_inv st" using inv phase by (simp_all add: hand_inv_def)
  note h = hand_of_turn [OF inv hands]
  let ?n = "length (hs_trick st)"
  obtain l where l: "map play_seat (hs_trick st) = seats_from l ?n" "s = (l + ?n) mod 4"
    and sizes: "\<forall>i < 4. hs_handSizes st ! i + length (hs_completedTricks st) +
           (if i \<in> set (map play_seat (hs_trick st)) then 1 else 0) = 9"
    using play turn unfolding play_inv_def by (metis option.inject)
  have n: "?n < 4" and tricks: "length (hs_completedTricks st) \<le> 8" using play by (simp_all add: play_inv_def)
  show s: "s < 4" using l(2) by simp
  show "length (hs_trick st) < 4" by (rule n)
  show "trick_ok (hs_trick st)"
    unfolding trick_ok_def
  proof (intro conjI ballI)
    fix p assume p: "p \<in> set (hs_trick st)"
    then have "play_seat p \<in> set (seats_from l ?n)" by (metis l(1) image_eqI set_map)
    then show "play_seat p \<le> 3" by (rule seats_from_bound)
    show "known_card (play_card p)" using cards p by (auto simp: cards_inv_def played_defs)
  qed (use cards n l(1) distinct_seats_from [of ?n l] in \<open>auto simp: cards_inv_def played_defs\<close>)
  have d: "distinct (concat hands @ played st)" "set (concat hands @ played st) = {x. known_card x}"
  proof -
    have m: "mset (concat hands @ played st) = mset deck_ids" using h(3) by simp
    show "distinct (concat hands @ played st)" using m deck_ids_facts(1) by (metis mset_eq_imp_distinct_iff)
    show "set (concat hands @ played st) = {x. known_card x}" using m deck_ids_facts(3) by (metis mset_eq_setD)
  qed
  have mem: "hands ! s \<in> set hands" using s h(1) by simp
  then have sub: "set (hands ! s) \<subseteq> set (concat hands)" by auto
  then show disj: "set (hands ! s) \<inter> set (played st) = {}" using d(1) by auto
  have "distinct (hands ! s)" using d(1) mem by (simp add: distinct_concat_iff)
  moreover have size: "hs_handSizes st ! s = length (hands ! s)" using h(1,2) s by simp
  moreover have "hs_handSizes st ! s \<le> 9" using sizes [rule_format, OF s] by simp
  ultimately show "hand_ok (hands ! s) (hs_trick st)"
    unfolding hand_ok_def using sub d(2) disj by (auto simp: played_defs)
  have "s \<notin> set (map play_seat (hs_trick st))" unfolding l by (rule next_of_seats_fresh) (rule n)
  then have "hs_handSizes st ! s \<noteq> 0" using sizes [rule_format, OF s] tricks by auto
  then show "hands ! s \<noteq> []" using size by auto
qed

lemma bid_scan_known:
  "\<forall>x \<in> set xs. known_card x \<Longrightarrow> distinct xs \<Longrightarrow> set xs \<inter> set seen = {} \<Longrightarrow> \<exists>n. bid_scan seen c f xs = Inr n"
proof (induction xs arbitrary: seen c f)
  case Nil
  then show ?case by simp
next
  case (Cons x xs)
  obtain s r where x: "x = card_id (makeCard s r)" using Cons.prems(1) by (auto elim: known_cardE)
  have "\<exists>n. bid_scan (x # seen) c f xs = Inr n" for c f
    using Cons.prems by (intro Cons.IH) auto
  then show ?case using Cons.prems(3) by (simp add: x)
qed

lemma saskuBidStrength_dealt:
  assumes "hand_inv st" "hs_phase st = Bidding" "hs_hands st = Some hands" "s < 4"
  shows "\<exists>n. saskuBidStrength (hands ! s) = Inr n"
proof -
  note h = hand_of_turn [OF assms(1,3)]
  have len: "length (hands ! s) = 9"
    using assms h(1,2) by (auto simp: hand_inv_def before_play_def nth_Cons' dest!: arg_cong [of _ _ "\<lambda>xs. xs ! s"])
  have sub: "mset (concat hands) \<subseteq># mset deck_ids" using h(3) by (metis mset_subset_eq_add_left)
  have "set (concat hands) \<subseteq> {x. known_card x}" using sub deck_ids_facts(3) by (metis set_mset_mono set_mset_mset)
  moreover have "distinct (concat hands)"
    using h(3) deck_ids_facts(1) by (metis distinct_append mset_append mset_eq_imp_distinct_iff)
  moreover have "hands ! s \<in> set hands" using assms(4) h(1) by simp
  ultimately have "\<forall>x \<in> set (hands ! s). known_card x" "distinct (hands ! s)"
    by (auto simp: distinct_concat_iff)
  then show ?thesis using bid_scan_known [of "hands ! s" "[]"] len by (simp add: saskuBidStrength_def)
qed


text \<open>
  When the public controller accepts an action, the complete-information controller either
  accepts it with the same public state or rejects it under a hidden-hand rule.
\<close>

lemma hidden_checks_rule:
  assumes "hand_inv st" "hs_phase st = Playing" "hs_turn st = Some s"
  shows "hidden_hand_checks (logged st a) trump s x = Inr () \<or>
    (\<exists>m rule. hidden_hand_checks (logged st a) trump s x = Inl (SaskuHandError m (Some rule)))"
  using legal_for_turn [OF assms]
  by (cases "hs_hands st") (auto simp: hidden_hand_checks_def legalSaskuCards_ok)

lemma bidding_hidden:
  assumes inv: "hand_inv st" and phase: "hs_phase st = Bidding" and seat: "act_seat a < 4"
    and public: "bidding_step (erase st) (logged (erase st) a) a = Inr p"
  shows "(\<exists>st'. bidding_step st (logged st a) a = Inr st') \<or>
    (\<exists>m rule. bidding_step st (logged st a) a = Inl (SaskuHandError m (Some rule)))"
proof (cases a)
  case (ActBid s v)
  show ?thesis
  proof (cases "hs_hands st")
    case None
    then show ?thesis using public ActBid by (auto simp: bidding_step_def split: if_splits)
  next
    case (Some hands)
    then obtain n where "saskuBidStrength (hands ! s) = Inr n"
      using saskuBidStrength_dealt [OF inv phase Some, of s] seat ActBid by auto
    then show ?thesis using public ActBid Some by (auto simp: bidding_step_def split: if_splits)
  qed
qed (use public in \<open>auto simp: bidding_step_def Let_def split: option.splits\<close>)

lemma playing_hidden:
  assumes inv: "hand_inv st" and phase: "hs_phase st = Playing" and turn: "hs_turn st = Some (act_seat a)"
    and ok: "action_ok a" and public: "playing_step (erase st) (logged (erase st) a) a = Inr p"
  shows "(\<exists>st'. playing_step st (logged st a) a = Inr st') \<or>
    (\<exists>m rule. playing_step st (logged st a) a = Inl (SaskuHandError m (Some rule)))"
proof -
  obtain s x k where a: "a = ActPlay s x" and k: "hs_contract st = Some k"
    using public by (cases a; cases "hs_contract st") (auto simp: playing_step_def)
  have "x \<notin> set (played st)"
    using public a k inv unfolding hand_inv_def cards_inv_def
    by (auto simp: playing_step_def result_simps in_map_filter_play [symmetric] split: if_splits)
  then have accepted: "\<exists>st'. playing_step st (logged st a) a = Inr st' \<and> hand_inv st'"
    if "hidden_hand_checks (logged st a) (trumpSuit k) s x = Inr ()"
    using playing_step_ok [OF inv phase _ k, of s x] turn ok that unfolding a by (simp add: action_ok_def)
  show ?thesis
  proof (cases "hidden_hand_checks (logged st a) (trumpSuit k) s x = Inr ()")
    case True
    then show ?thesis using accepted by blast
  next
    case False
    then show ?thesis
      using hidden_checks_rule [OF inv phase turn, of a "trumpSuit k" x] a k by (auto simp: playing_step_def)
  qed
qed

lemma applyAction_hidden:
  assumes inv: "hand_inv st" and ok: "action_ok a" and public: "applyAction (erase st) a = Inr p"
  shows "(\<exists>st'. applyAction st a = Inr st' \<and> erase st' = p) \<or>
    (\<exists>m rule. applyAction st a = Inl (SaskuHandError m (Some rule)))"
proof -
  have guards: "hs_phase st \<noteq> Complete" "Some (act_seat a) = hs_turn st" "length (hs_history st) < MAX_SASKU_HAND_ACTIONS"
    using public by (auto simp: applyAction_def split: if_splits)
  have "(\<exists>st'. applyAction st a = Inr st') \<or> (\<exists>m rule. applyAction st a = Inl (SaskuHandError m (Some rule)))"
  proof (cases "hs_phase st")
    case Bidding
    then show ?thesis
      using guards public bidding_hidden [OF inv Bidding, of a p] ok by (simp add: applyAction_def action_ok_def)
  next
    case ChoosingTrump
    then show ?thesis using guards public by (cases a) (auto simp: applyAction_def choosing_step_def)
  next
    case Playing
    then show ?thesis
      using guards public playing_hidden [OF inv Playing _ ok, of p] by (simp add: applyAction_def)
  qed (use guards in simp)
  then show ?thesis using applyAction_erase public by fastforce
qed

end
