(* ===== verification/Sasku_Hand_Theorems.thy ===== *)
theory Sasku_Hand_Theorems
  imports Sasku_Hand_Props
begin

text \<open>
  The properties of a hand, stated for every state the controllers reach from a
  valid deal and a valid dealer.
\<close>

section \<open>Facts about single steps\<close>

lemma bidding_step_keeps:
  "bidding_step st (logged st a) a = Inr st' \<Longrightarrow>
     hs_history st' = hs_history st @ [a] \<and> hs_hands st' = hs_hands st \<and> hs_dealer st' = hs_dealer st"
  by (cases a) (auto simp: bidding_step_def result_simps Let_def split: option.splits if_splits)

lemma choosing_step_keeps:
  "choosing_step (logged st a) a = Inr st' \<Longrightarrow>
     hs_history st' = hs_history st @ [a] \<and> hs_hands st' = hs_hands st \<and> hs_dealer st' = hs_dealer st"
  by (cases a) (auto simp: choosing_step_def)

lemma finish_trick_keeps:
  "finish_trick st k = Inr st' \<Longrightarrow>
     hs_history st' = hs_history st \<and> hs_hands st' = hs_hands st \<and> hs_dealer st' = hs_dealer st"
  by (auto simp: finish_trick_def Let_def result_simps split: if_splits)

lemma playing_step_keeps:
  "playing_step st (logged st a) a = Inr st' \<Longrightarrow>
     hs_history st' = hs_history st @ [a] \<and> (hs_hands st' = None \<longleftrightarrow> hs_hands st = None) \<and> hs_dealer st' = hs_dealer st"
  by (cases a) (auto simp: playing_step_def result_simps Let_def dest!: finish_trick_keeps split: option.splits if_splits)

lemma applyAction_keeps:
  "applyAction st a = Inr st' \<Longrightarrow>
     hs_history st' = hs_history st @ [a] \<and> (hs_hands st' = None \<longleftrightarrow> hs_hands st = None) \<and> hs_dealer st' = hs_dealer st"
  by (auto simp: applyAction_def Let_def dest: bidding_step_keeps choosing_step_keeps playing_step_keeps
      split: SaskuHandPhase.splits if_splits)

lemma reachable_full_hands: "reachable full_start nextState st \<Longrightarrow> \<exists>hands. hs_hands st = Some hands"
proof (induction rule: reachable.induct)
  case (reachable_start s)
  then show ?case by (auto simp: full_start_def newHandController_Inr initialState_def)
next
  case (reachable_step s a t)
  then show ?case by (auto simp: nextState_Inr dest: applyAction_keeps)
qed

lemma fold_history:
  "foldM_res nextState st vs = Inr st' \<Longrightarrow>
     \<exists>as. mapM_res normalizeAction vs = Inr as \<and> hs_history st' = hs_history st @ as"
proof (induction vs arbitrary: st)
  case Nil
  then show ?case by simp
next
  case (Cons v vs)
  then obtain a u where a: "normalizeAction v = Inr a" "applyAction st a = Inr u" "foldM_res nextState u vs = Inr st'"
    by (auto simp: result_simps nextState_Inr)
  with Cons.IH [of u] applyAction_keeps [of st a u] show ?case by auto
qed

lemma playable_iff_known: "normalizeAction (actionObject (ActPlay s x)) = Inr a \<longleftrightarrow> a = ActPlay s x \<and> action_ok a"
proof
  assume n: "normalizeAction (actionObject (ActPlay s x)) = Inr a"
  then have "a = ActPlay s x"
    by (auto simp: normalizeAction_def actionObject.simps get_prop_def keys_are_def Let_def result_simps saskuSeat_Inr parse_Inr_iff
        split: if_splits sum.splits bool.splits)
  with n show "a = ActPlay s x \<and> action_ok a" using normalizeAction_Inr_ok by simp
qed (use normalizeAction_object in auto)

lemma normalizeAction_no_rule: "normalizeAction v \<noteq> Inl (SaskuHandError m (Some rule))"
  by (auto simp: normalizeAction_def saskuSeat_def result_simps Let_def
      split: jsval.splits if_splits prod.splits option.splits sum.splits bool.splits)

lemma applyAction_play_iff:
  assumes inv: "hand_inv st" and phase: "hs_phase st = Playing" and turn: "hs_turn st = Some s"
    and k: "hs_contract st = Some k" and hands: "hs_hands st = Some hands"
  shows "(\<exists>st'. nextState st (actionObject (ActPlay s x)) = Inr st') \<longleftrightarrow>
    x \<in> set (legal_cards (hands ! s) (hs_trick st) (trumpSuit k))"
proof -
  note l = legal_for_turn [OF inv phase turn hands]
  have sub: "x \<in> set (hands ! s) \<and> known_card x \<and> x \<notin> set (played st)"
    if "x \<in> set (legal_cards (hands ! s) (hs_trick st) (trumpSuit k))"
    using that l(3,6) by (auto simp: legal_cards_def hand_ok_def split: if_splits)
  have hist: "length (hs_history st) < MAX_SASKU_HAND_ACTIONS"
    using hand_inv_history [OF inv] by (simp add: MAX_SASKU_HAND_ACTIONS_def)
  have hidden: "hidden_hand_checks (logged st a) (trumpSuit k) s x = Inr () \<longleftrightarrow>
      x \<in> set (legal_cards (hands ! s) (hs_trick st) (trumpSuit k))" for a
    using hands sub by (auto simp: hidden_hand_checks_def legalSaskuCards_ok [OF l(1-3)])
  show ?thesis
  proof
    assume "\<exists>st'. nextState st (actionObject (ActPlay s x)) = Inr st'"
    then obtain st' where "applyAction st (ActPlay s x) = Inr st'"
      by (auto simp: nextState_Inr playable_iff_known)
    then have "hidden_hand_checks (logged st (ActPlay s x)) (trumpSuit k) s x = Inr ()"
      using phase turn k by (auto simp: applyAction_def playing_step_def Let_def result_simps split: if_splits)
    then show "x \<in> set (legal_cards (hands ! s) (hs_trick st) (trumpSuit k))" by (simp add: hidden)
  next
    assume x: "x \<in> set (legal_cards (hands ! s) (hs_trick st) (trumpSuit k))"
    then have "\<exists>st'. playing_step st (logged st (ActPlay s x)) (ActPlay s x) = Inr st'"
      using playing_step_ok [OF inv phase turn k] sub hidden by blast
    moreover have "action_ok (ActPlay s x)" using sub [OF x] l(5) by (simp add: action_ok_def)
    ultimately show "\<exists>st'. nextState st (actionObject (ActPlay s x)) = Inr st'"
      using phase turn hist by (simp add: applyAction_def)
  qed
qed


section \<open>A deal for the examples\<close>

definition example_deal :: "SaskuCardId list list" where
  "example_deal = map (\<lambda>i. take 9 (drop (9 * i) deck_ids)) [0..<4]"

lemma example_deal_ok: "deal_ok example_deal"
  by (simp add: deal_ok_def example_deal_def deck_ids_def SASKU_CARDS_def SASKU_SUITS_def SASKU_RANKS_def upt_rec numeral_eq_Suc)

abbreviation example_dealer :: jsval where
  "example_dealer \<equiv> JNumber (JInt 3)"

lemma example_start: "newHandController example_dealer example_deal = Inr (initialState 3 (Some example_deal))"
  unfolding newHandController_Inr using example_deal_ok by auto

definition four_passes :: "jsval list" where
  "four_passes = map (\<lambda>s. actionObject (ActPass s)) [0, 1, 2, 3]"

definition example_playing :: HandState where
  "example_playing = (initialState 3 (Some example_deal))\<lparr>hs_phase := Playing, hs_turn := Some 0,
     hs_consecutivePasses := 4, hs_contract := Some PassRound,
     hs_history := [ActPass 0, ActPass 1, ActPass 2, ActPass 3]\<rparr>"

lemma example_auction: "foldM_res nextState (initialState 3 (Some example_deal)) four_passes = Inr example_playing"
  by (simp add: four_passes_def initialState_def nextSeat_def action_ok_def applyAction_def bidding_step_def
      MAX_SASKU_HAND_ACTIONS_def example_playing_def)

lemma example_playing_reachable: "reachable full_start nextState example_playing"
  unfolding reachable_iff_fold full_start_def using example_start example_auction by blast

lemma example_playing_sel: "hs_phase example_playing = Playing" "hs_turn example_playing = Some 0"
  by (simp_all add: example_playing_def)

section \<open>Properties\<close>

text \<open>C2: no card is lost or duplicated. In every state the complete-information controller
  reaches, the cards in the four hands and the cards played so far are together the 36 cards
  of the deck, the public hand sizes are the sizes of the hands, and the plays in the
  history are the cards on the table in order.\<close>

theorem hand_cards_conserved:
  assumes "reachable full_start nextState st"
  shows "\<exists>hands. hs_hands st = Some hands \<and> mset (concat hands) + mset (played st) = mset deck_ids \<and>
    hs_handSizes st = map length hands \<and> List.map_filter play_of (hs_history st) = played st"
proof -
  obtain hands where hands: "hs_hands st = Some hands" using reachable_full_hands [OF assms] by blast
  have inv: "hand_inv st" using assms by (rule full_hand.reachable_good)
  then show ?thesis using hands hand_of_turn [OF inv hands] by (simp add: hand_inv_def cards_inv_def)
qed

theorem hand_cards_conserved_witness:
  "\<exists>hands. hs_hands example_playing = Some hands \<and> mset (concat hands) + mset (played example_playing) = mset deck_ids \<and>
    hs_handSizes example_playing = map length hands \<and>
    List.map_filter play_of (hs_history example_playing) = played example_playing"
  by (rule hand_cards_conserved [OF example_playing_reachable])

text \<open>C3: in the playing phase the player on turn always has a legal card, and the cards
  \<open>legalCardsForTurn\<close> returns are exactly the plays the controller accepts.\<close>

theorem legal_plays_exactly:
  assumes "reachable full_start nextState st" "hs_phase st = Playing" "hs_turn st = Some s"
  shows "\<exists>cards. legalCardsForTurn st = Inr cards \<and> cards \<noteq> [] \<and>
    (\<forall>x. (\<exists>st'. nextState st (actionObject (ActPlay s x)) = Inr st') \<longleftrightarrow> x \<in> set cards)"
proof -
  obtain hands where hands: "hs_hands st = Some hands" using reachable_full_hands [OF assms(1)] by blast
  have inv: "hand_inv st" using assms(1) by (rule full_hand.reachable_good)
  then obtain k where k: "hs_contract st = Some k" using assms(2) by (auto simp: hand_inv_def play_inv_def)
  note l = legal_for_turn [OF inv assms(2,3) hands]
  have "legalCardsForTurn st = Inr (legal_cards (hands ! s) (hs_trick st) (trumpSuit k))"
    using assms hands k legalSaskuCards_ok [OF l(1-3)] by (simp add: legalCardsForTurn_def)
  moreover have "legal_cards (hands ! s) (hs_trick st) (trumpSuit k) \<noteq> []"
    using l(4) by (auto simp: legal_cards_def filter_empty_conv)
  ultimately show ?thesis using applyAction_play_iff [OF inv assms(2,3) k hands] by auto
qed

theorem legal_plays_exactly_witness:
  "\<exists>cards. legalCardsForTurn example_playing = Inr cards \<and> cards \<noteq> [] \<and>
    (\<forall>x. (\<exists>st'. nextState example_playing (actionObject (ActPlay 0 x)) = Inr st') \<longleftrightarrow> x \<in> set cards)"
  by (rule legal_plays_exactly [OF example_playing_reachable example_playing_sel])


lemma hand_can_move:
  assumes "reachable full_start nextState st" "hs_phase st \<noteq> Complete"
  shows "\<exists>a st'. nextState st (actionObject a) = Inr st'"
proof -
  have inv: "hand_inv st" using assms(1) by (rule full_hand.reachable_good)
  have len: "length (hs_history st) \<le> 53" using inv by (rule hand_inv_history)
  show ?thesis
  proof (cases "hs_phase st")
    case Bidding
    then obtain t where t: "hs_turn st = Some t" "t < 4"
      using inv by (auto simp: hand_inv_def auction_inv_def Let_def)
    then have "\<exists>st'. nextState st (actionObject (ActPass t)) = Inr st'"
      using Bidding len by (auto simp: action_ok_def applyAction_def bidding_step_def Let_def
          MAX_SASKU_HAND_ACTIONS_def split: option.splits)
    then show ?thesis by blast
  next
    case ChoosingTrump
    then obtain t where t: "hs_turn st = Some t" "t < 4" using inv by (auto simp: hand_inv_def)
    then have "\<exists>st'. nextState st (actionObject (ActChooseTrump t Clubs)) = Inr st'"
      using ChoosingTrump len by (simp add: action_ok_def applyAction_def choosing_step_def MAX_SASKU_HAND_ACTIONS_def)
    then show ?thesis by blast
  next
    case Playing
    obtain hands where hands: "hs_hands st = Some hands" using reachable_full_hands [OF assms(1)] by blast
    obtain t k where t: "hs_turn st = Some t" and k: "hs_contract st = Some k"
      using inv Playing by (auto simp: hand_inv_def play_inv_def)
    have "legal_cards (hands ! t) (hs_trick st) (trumpSuit k) \<noteq> []"
      using legal_for_turn(4) [OF inv Playing t hands] by (auto simp: legal_cards_def filter_empty_conv)
    then show ?thesis
      using applyAction_play_iff [OF inv Playing t k hands] by (metis list.set_intros(1) neq_Nil_conv)
  qed (use assms(2) in simp)
qed

text \<open>C5: a hand cannot get stuck and cannot run on. In every state that is not complete some
  action of the seat on turn is accepted, and no accepted history has more than 53 actions, so
  the limit of 64 actions never rejects a legal one.\<close>

theorem hand_progress_and_bound:
  assumes "reachable full_start nextState st"
  shows "(hs_phase st \<noteq> Complete \<longrightarrow> (\<exists>a st'. nextState st (actionObject a) = Inr st')) \<and>
    length (hs_history st) \<le> 53 \<and> length (hs_history st) < MAX_SASKU_HAND_ACTIONS"
  using hand_can_move [OF assms] hand_inv_history [OF full_hand.reachable_good [OF assms]]
  by (simp add: MAX_SASKU_HAND_ACTIONS_def)

theorem hand_progress_and_bound_witness:
  "(\<exists>a st'. nextState example_playing (actionObject a) = Inr st') \<and>
    length (hs_history example_playing) \<le> 53 \<and> length (hs_history example_playing) < MAX_SASKU_HAND_ACTIONS"
  using hand_progress_and_bound [OF example_playing_reachable] by (simp add: example_playing_sel)

text \<open>C4: the public controller simulates the complete-information one. A history the latter
  replays is accepted by the former from the same dealer, with the same snapshot.\<close>

theorem public_simulates_full:
  assumes "replaySaskuHand dealer hands actions = Inr st"
  shows "\<exists>d public. saskuSeat dealer = Inr d \<and>
    newPublicHandController (JObject [(ascii ''dealer'', JNumber (JInt (int d)))]) = Inr public \<and>
    (\<exists>p. foldM_res nextState public actions = Inr p \<and> hs_hands p = None \<and> snapshot p = snapshot st)"
proof -
  obtain d where d: "d < 4" "dealer = JNumber (JInt (int d))" "deal_ok hands"
    and run: "foldM_res nextState (initialState d (Some hands)) actions = Inr st"
    using assms by (auto simp: replaySaskuHand_def result_simps newHandController_Inr split: if_splits)
  have "foldM_res nextState (erase (initialState d (Some hands))) actions = Inr (erase st)"
    by (rule full_hand.fold_view [OF initial_inv_full [OF d(1,3)] run])
  moreover have "newPublicHandController (JObject [(ascii ''dealer'', JNumber (JInt (int d)))]) =
      Inr (erase (initialState d (Some hands)))"
    using d(1) by (simp add: newPublicHandController_def get_prop_def erase_def initialState_def)
  ultimately show ?thesis using d(1,2) by (auto intro!: exI [of _ "erase st"])
qed

theorem public_simulates_full_witness:
  "\<exists>d public. saskuSeat example_dealer = Inr d \<and>
    newPublicHandController (JObject [(ascii ''dealer'', JNumber (JInt (int d)))]) = Inr public \<and>
    (\<exists>p. foldM_res nextState public four_passes = Inr p \<and> hs_hands p = None \<and> snapshot p = snapshot example_playing)"
proof (rule public_simulates_full)
  have "length four_passes = 4" by (simp add: four_passes_def)
  then show "replaySaskuHand example_dealer example_deal four_passes = Inr example_playing"
    by (simp add: replaySaskuHand_def example_start example_auction MAX_SASKU_HAND_ACTIONS_def)
qed

section \<open>The audit\<close>

definition audit_verdict :: "(jsval list \<Rightarrow> sasku_error + HandState) \<Rightarrow> jsval list \<Rightarrow> SaskuHandAuditResult \<Rightarrow> bool" where
  "audit_verdict replay actions r \<longleftrightarrow>
     (case r of
        AuditValid s \<Rightarrow> (\<exists>st. replay actions = Inr st \<and> hs_phase st = Complete \<and> s = snapshot st)
      | AuditIncomplete s \<Rightarrow> (\<exists>st. replay actions = Inr st \<and> hs_phase st \<noteq> Complete \<and> s = snapshot st)
      | AuditViolation seat at rule \<Rightarrow> at < length actions \<and>
          (\<exists>st a m. replay (take at actions) = Inr st \<and> normalizeAction (actions ! at) = Inr a \<and> act_seat a = seat \<and>
             nextState st (actions ! at) = Inl (SaskuHandError m (Some rule))))"

lemma audit_scan_verdict:
  assumes "hand_inv ref" "foldM_res nextState (erase ref) vs = Inr q" "mapM_res normalizeAction vs = Inr as"
  shows "\<exists>r. audit_scan ref n as = Inr r \<and>
    (case r of AuditViolation seat at rule \<Rightarrow> n \<le> at \<and> audit_verdict (foldM_res nextState ref) vs (AuditViolation seat (at - n) rule)
     | _ \<Rightarrow> audit_verdict (foldM_res nextState ref) vs r)"
  using assms
proof (induction vs arbitrary: ref n as)
  case Nil
  then show ?case by (simp add: audit_verdict_def)
next
  case (Cons v vs)
  obtain a as' where as: "as = a # as'" "normalizeAction v = Inr a" "mapM_res normalizeAction vs = Inr as'"
    using Cons.prems(3) by (auto simp: result_simps)
  have ok: "action_ok a" using as(2) by (rule normalizeAction_Inr_ok)
  obtain p where p: "applyAction (erase ref) a = Inr p" "foldM_res nextState p vs = Inr q"
    using Cons.prems(2) as(2) by (auto simp: result_simps nextState_Inr)
  from applyAction_hidden [OF Cons.prems(1) ok p(1)] show ?case
  proof (elim disjE exE conjE)
    fix ref' assume ref': "applyAction ref a = Inr ref'" "erase ref' = p"
    have "hand_inv ref'" using applyAction_inv [OF Cons.prems(1) ok ref'(1)] .
    from Cons.IH [OF this _ as(3), of "Suc n"] p(2) ref'(2) obtain r where
      r: "audit_scan ref' (Suc n) as' = Inr r"
      "case r of AuditViolation seat at rule \<Rightarrow> Suc n \<le> at \<and> audit_verdict (foldM_res nextState ref') vs (AuditViolation seat (at - Suc n) rule)
       | _ \<Rightarrow> audit_verdict (foldM_res nextState ref') vs r" by blast
    have step: "nextState ref v = Inr ref'" using as(2) ref'(1) by (simp add: nextState_def)
    have "audit_scan ref n as = Inr r" using as(1) ok ref'(1) r(1) by simp
    then show ?case
      using r(2) step
      by (cases r) (auto simp: audit_verdict_def Suc_diff_Suc nth_Cons' take_Cons' less_diff_conv)
  next
    fix m rule assume e: "applyAction ref a = Inl (SaskuHandError m (Some rule))"
    then have "audit_scan ref n as = Inr (AuditViolation (act_seat a) n rule)" using as(1) ok by simp
    then show ?case using as(2) e by (auto simp: audit_verdict_def nextState_def)
  qed
qed


text \<open>C1: the audit always reaches a verdict on a publicly possible history, and the verdict is
  right. It is valid or incomplete exactly when the whole history replays on the disclosed
  deal; a violation names the first action the deal does not allow, the seat that made it and
  the hidden-hand rule that rejects it.\<close>

theorem auditSaskuHand_verdict:
  assumes "newHandController dealer hands = Inr ref" "foldM_res nextState (erase ref) actions = Inr public"
  shows "\<exists>r. auditSaskuHand dealer hands actions = Inr r \<and> audit_verdict (foldM_res nextState ref) actions r"
proof -
  obtain d where d: "d < 4" "deal_ok hands" "ref = initialState d (Some hands)"
    using assms(1) by (auto simp: newHandController_Inr)
  have inv: "hand_inv ref" "hand_inv (erase ref)"
    using d initial_inv_full initial_inv_public [of d] by (auto simp: erase_def initialState_def)
  obtain as where as: "mapM_res normalizeAction actions = Inr as" "hs_history public = as"
    using fold_history [OF assms(2)] d(3) by (auto simp: initialState_def)
  have "length actions \<le> 53"
    using hand_inv_history [OF public_hand.fold_good [OF inv(2) assms(2)]] as mapM_res_length [OF as(1)] by simp
  moreover have "newPublicHandController (JObject [(ascii ''dealer'', JNumber (JInt (int (snap_dealer (snapshot ref)))))]) =
      Inr (erase ref)"
    using d by (simp add: newPublicHandController_def get_prop_def erase_def initialState_def snapshot_def)
  ultimately have audit: "auditSaskuHand dealer hands actions = audit_scan ref 0 as"
    using assms as(2) by (simp add: auditSaskuHand_def MAX_SASKU_HAND_ACTIONS_def)
  obtain r where r: "audit_scan ref 0 as = Inr r"
    "case r of AuditViolation seat at rule \<Rightarrow> 0 \<le> at \<and> audit_verdict (foldM_res nextState ref) actions (AuditViolation seat (at - 0) rule)
     | _ \<Rightarrow> audit_verdict (foldM_res nextState ref) actions r"
    using audit_scan_verdict [OF inv(1) assms(2) as(1), of 0] by blast
  then show ?thesis by (cases r) (simp_all add: audit)
qed

theorem auditSaskuHand_verdict_witness:
  "\<exists>r. auditSaskuHand example_dealer example_deal four_passes = Inr r \<and>
    audit_verdict (foldM_res nextState (initialState 3 (Some example_deal))) four_passes r"
  using full_hand.fold_view [OF initial_inv_full example_auction, OF _ example_deal_ok]
  by (intro auditSaskuHand_verdict [OF example_start]) auto

text \<open>What a violation means. On a reachable state an action is rejected under the bid
  rule only when the bid exceeds the strength of the bidder's dealt hand, under the ownership
  rule only when the card is not in the player's hand, and under the follow-suit rule only
  when the card does not follow the lead and another card of the hand does.\<close>

theorem hidden_rule_meaning:
  assumes "reachable full_start nextState st" "hs_hands st = Some hands"
    and "nextState st v = Inl (SaskuHandError m (Some rule))"
  shows "\<exists>a. normalizeAction v = Inr a \<and> hs_turn st = Some (act_seat a) \<and>
    (case rule of
       BidStrength \<Rightarrow> hs_phase st = Bidding \<and>
         (\<exists>bid n. a = ActBid (act_seat a) bid \<and> saskuBidStrength (hands ! act_seat a) = Inr n \<and> n < bid)
     | CardOwnership \<Rightarrow> (\<exists>x. a = ActPlay (act_seat a) x \<and> x \<notin> set (hands ! act_seat a))
     | FollowSuit \<Rightarrow> (\<exists>x k. a = ActPlay (act_seat a) x \<and> hs_contract st = Some k \<and> x \<in> set (hands ! act_seat a) \<and>
         \<not> follows (hs_trick st) (trumpSuit k) x \<and> (\<exists>y \<in> set (hands ! act_seat a). follows (hs_trick st) (trumpSuit k) y)))"
proof -
  have inv: "hand_inv st" using assms(1) by (rule full_hand.reachable_good)
  obtain a where a: "normalizeAction v = Inr a" and e: "applyAction st a = Inl (SaskuHandError m (Some rule))"
    using assms(3) normalizeAction_no_rule [of v] by (auto simp: nextState_def result_simps)
  have turn: "hs_turn st = Some (act_seat a)" using e by (auto simp: applyAction_def split: if_splits)
  have ok: "action_ok a" using a by (rule normalizeAction_Inr_ok)
  show ?thesis
  proof (cases "hs_phase st")
    case Bidding
    then have "bidding_step st (logged st a) a = Inl (SaskuHandError m (Some rule))"
      using e by (auto simp: applyAction_def split: if_splits)
    moreover obtain n where "saskuBidStrength (hands ! act_seat a) = Inr n"
      using saskuBidStrength_dealt [OF inv Bidding assms(2)] ok by (auto simp: action_ok_def)
    ultimately show ?thesis
      using a turn Bidding assms(2)
      by (cases a) (auto simp: bidding_step_def Let_def result_simps split: option.splits if_splits)
  next
    case ChoosingTrump
    then show ?thesis using e by (cases a) (auto simp: applyAction_def choosing_step_def split: if_splits)
  next
    case Playing
    then have p: "playing_step st (logged st a) a = Inl (SaskuHandError m (Some rule))"
      using e by (auto simp: applyAction_def split: if_splits)
    obtain s x k where x: "a = ActPlay s x" and k: "hs_contract st = Some k"
      using p by (cases a; cases "hs_contract st") (auto simp: playing_step_def)
    have h: "hidden_hand_checks (logged st a) (trumpSuit k) s x = Inl (SaskuHandError m (Some rule))"
    proof (rule ccontr)
      assume n: "\<not> ?thesis"
      have "hidden_hand_checks (logged st a) (trumpSuit k) s x = Inr ()"
        using hidden_checks_rule [OF inv Playing, of s a "trumpSuit k" x] turn x n p k
        by (auto simp: playing_step_def)
      moreover have "x \<notin> set (played st)"
        using legal_for_turn(6) [OF inv Playing _ assms(2), of s] turn x calculation assms(2)
        by (auto simp: hidden_hand_checks_def split: if_splits)
      ultimately show False
        using playing_step_ok [OF inv Playing _ k, of s x] p turn x ok by (auto simp: action_ok_def)
    qed
    show ?thesis
      using h a turn x k assms(2) legal_for_turn [OF inv Playing turn assms(2)]
      by (auto simp: hidden_hand_checks_def legalSaskuCards_ok legal_cards_def split: if_splits)
  qed (use e in \<open>auto simp: applyAction_def\<close>)
qed


definition foreign_card :: SaskuCardId where
  "foreign_card = card_id (makeCard Spades R6)"

lemma foreign_card_facts: "known_card foreign_card" "foreign_card \<notin> set (example_deal ! 0)"
proof -
  show "known_card foreign_card" by (simp add: foreign_card_def)
  have "set (example_deal ! 0) = card_id ` set (take 9 SASKU_CARDS)"
    by (simp add: example_deal_def deck_ids_def take_map)
  then show "foreign_card \<notin> set (example_deal ! 0)"
    by (simp add: foreign_card_def SASKU_CARDS_def SASKU_SUITS_def SASKU_RANKS_def)
qed

lemma foreign_card_rejected:
  "nextState example_playing (actionObject (ActPlay 0 foreign_card)) =
     Inl (SaskuHandError ''The acting player does not hold that card'' (Some CardOwnership))"
  using foreign_card_facts
  by (simp add: action_ok_def example_playing_def initialState_def applyAction_def playing_step_def
      hidden_hand_checks_def MAX_SASKU_HAND_ACTIONS_def)

theorem hidden_rule_meaning_example:
  "\<exists>a. normalizeAction (actionObject (ActPlay 0 foreign_card)) = Inr a \<and> hs_turn example_playing = Some (act_seat a) \<and>
    (\<exists>x. a = ActPlay (act_seat a) x \<and> x \<notin> set (example_deal ! act_seat a))"
  using hidden_rule_meaning [OF example_playing_reachable _ foreign_card_rejected, of example_deal]
  by (simp add: example_playing_def initialState_def)

text \<open>A hand that is complete has been scored, and the score is right. Nine tricks were
  won, the card points of the two partnerships are the 120 points of the deck, and the score
  is what \<open>scoreSaskuHand\<close> gives for those totals and the contract.\<close>

theorem complete_hand_scored:
  assumes "reachable public_start nextState st" "hs_phase st = Complete"
  shows "\<exists>k sc. hs_contract st = Some k \<and> hs_score st = Some sc \<and>
    fst (hs_cardPoints st) + snd (hs_cardPoints st) = 120 \<and>
    fst (hs_tricksWon st) + snd (hs_tricksWon st) = 9 \<and> length (hs_completedTricks st) = 9 \<and>
    scoreSaskuHand \<lparr>totals_cardPoints = hs_cardPoints st, totals_tricks = hs_tricksWon st, totals_contract = k\<rparr> = Inr sc"
proof -
  have "hand_inv st" using assms(1) by (rule public_hand.reachable_good)
  then obtain k sc where *: "hs_contract st = Some k" "hs_score st = Some sc" "length (hs_completedTricks st) = 9"
    "scoreSaskuHand \<lparr>totals_cardPoints = hs_cardPoints st, totals_tricks = hs_tricksWon st, totals_contract = k\<rparr> = Inr sc"
    using assms(2) by (auto simp: hand_inv_def complete_inv_def)
  then show ?thesis using score_defined_iff by (metis (no_types, lifting) SaskuHandTotals.select_convs)
qed


text \<open>Every hand in progress can be played to its end.\<close>

lemma can_complete:
  assumes "reachable full_start nextState st"
  shows "\<exists>st'. reachable full_start nextState st' \<and> hs_phase st' = Complete"
  using assms
proof (induction "53 - length (hs_history st)" arbitrary: st rule: less_induct)
  case less
  show ?case
  proof (cases "hs_phase st = Complete")
    case True
    then show ?thesis using less.prems by blast
  next
    case False
    then obtain a st' where step: "nextState st (actionObject a) = Inr st'"
      using hand_can_move [OF less.prems] by blast
    then have r: "reachable full_start nextState st'" by (rule reachable_step [OF less.prems])
    have "length (hs_history st') = Suc (length (hs_history st))"
      using step by (auto simp: nextState_Inr dest: applyAction_keeps)
    moreover have "length (hs_history st') \<le> 53" using full_hand.reachable_good [OF r] by (rule hand_inv_history)
    ultimately show ?thesis using less.hyps [OF _ r] by simp
  qed
qed

theorem complete_hand_scored_example:
  "\<exists>st. reachable public_start nextState st \<and> hs_phase st = Complete \<and>
    (\<exists>k sc. hs_contract st = Some k \<and> hs_score st = Some sc \<and>
      fst (hs_cardPoints st) + snd (hs_cardPoints st) = 120 \<and>
      fst (hs_tricksWon st) + snd (hs_tricksWon st) = 9 \<and> length (hs_completedTricks st) = 9 \<and>
      scoreSaskuHand \<lparr>totals_cardPoints = hs_cardPoints st, totals_tricks = hs_tricksWon st, totals_contract = k\<rparr> = Inr sc)"
proof -
  obtain st where "reachable full_start nextState st" "hs_phase st = Complete"
    using can_complete [OF example_playing_reachable] by blast
  then have st: "reachable public_start nextState (erase st)" "hs_phase (erase st) = Complete"
    by (auto dest: full_hand.reachable_view)
  show ?thesis using st complete_hand_scored [OF st] by blast
qed

end
