(* ===== verification/Sasku_Action.thy ===== *)
theory Sasku_Action
  imports Sasku_Hand_Theorems
begin

text \<open>
  \<^verbatim>\<open>packages/rules-sasku/src/action.ts\<close>: decoding a game action that came with a signed
  \<open>ACTION\<close> body. The seat comes from the authenticated actor and a played card from the
  verified reveal; the decoder checks that the body and the reveal fit together.
\<close>

text \<open>\<open>isPlainMap\<close>: an object whose properties are all enumerable data properties with text keys.\<close>

definition isPlainMap :: "jsval \<Rightarrow> (ustr \<times> jsval) list option" where
  "isPlainMap v = (case v of JObject ps \<Rightarrow> Some ps | _ \<Rightarrow> None)"

definition revealPosition :: "jsval list \<Rightarrow> nat option" where
  "revealPosition reveal =
     (case reveal of
        [JNumber n] \<Rightarrow> if isSafeInteger n \<and> \<not> numval n < 0 \<and> \<not> numval n > 35 \<and> n \<noteq> JNegZero
                      then Some (nat (numval n)) else None
      | _ \<Rightarrow> None)"

definition decode_play ::
    "SaskuSeat \<Rightarrow> (ustr \<times> jsval) list \<Rightarrow> jsval list \<Rightarrow> (ustr \<times> jsval) list \<Rightarrow> sasku_error + SaskuHandAction" where
  "decode_play seat data reveal revealed =
     (case revealPosition reveal of
        Some pos \<Rightarrow>
          if keys_are data [] \<and> length revealed = 1 \<and> map_of revealed (ascii (natText pos)) \<noteq> None
          then rbind (parseSaskuCard (get_prop revealed (natText pos))) (\<lambda>card. Inr (ActPlay seat (card_id card)))
          else handError ''A Sasku play requires empty data and exactly one matching revealed position from 0 through 35''
      | None \<Rightarrow> handError ''A Sasku play requires empty data and exactly one matching revealed position from 0 through 35'')"

definition decode_auction :: "SaskuSeat \<Rightarrow> jsval \<Rightarrow> (ustr \<times> jsval) list \<Rightarrow> sasku_error + SaskuHandAction" where
  "decode_auction seat kind data =
     (if kind = JString (ascii ''pass'') \<and> keys_are data [] then Inr (ActPass seat)
      else if kind = JString (ascii ''diamonds'') \<and> keys_are data [] then Inr (ActDiamonds seat)
      else case (kind = JString (ascii ''bid'') \<and> keys_are data [''value''], get_prop data ''value'') of
        (True, JNumber n) \<Rightarrow>
          if isSafeInteger n \<and> numval n \<ge> 3 \<and> numval n \<le> 9 then Inr (ActBid seat (nat (numval n)))
          else handError ''Invalid Sasku action kind or data''
      | _ \<Rightarrow>
        case (kind = JString (ascii ''choose_trump'') \<and> keys_are data [''suit''], includedSuit (get_prop data ''suit'')) of
          (True, Some suit) \<Rightarrow> Inr (ActChooseTrump seat suit)
        | _ \<Rightarrow> handError ''Invalid Sasku action kind or data'')"

definition decodeSaskuAction :: "jsval \<Rightarrow> jsval \<Rightarrow> jsval \<Rightarrow> sasku_error + SaskuHandAction" where
  "decodeSaskuAction actor input revealed =
     rbind (saskuSeat actor) (\<lambda>seat.
     case isPlainMap input of
       None \<Rightarrow> handError ''Sasku action requires kind, data, reveal, and a revealed-card map''
     | Some ps \<Rightarrow>
         (case (keys_are ps [''data'', ''kind'', ''reveal''], get_prop ps ''reveal'',
                isPlainMap (get_prop ps ''data''), isPlainMap revealed) of
            (True, JArray reveal, Some data, Some cards) \<Rightarrow>
              if get_prop ps ''kind'' = JString (ascii ''play'') then decode_play seat data reveal cards
              else if length reveal \<noteq> 0 \<or> length cards \<noteq> 0
              then handError ''Sasku auction actions cannot reveal cards''
              else decode_auction seat (get_prop ps ''kind'') data
          | _ \<Rightarrow> handError ''Sasku action requires kind, data, reveal, and a revealed-card map''))"

section \<open>Properties\<close>

text \<open>The wire form of an action: its kind, its data and the position it reveals.\<close>

fun actionKind :: "SaskuHandAction \<Rightarrow> string" where
  "actionKind (ActPass _) = ''pass''"
| "actionKind (ActDiamonds _) = ''diamonds''"
| "actionKind (ActBid _ _) = ''bid''"
| "actionKind (ActChooseTrump _ _) = ''choose_trump''"
| "actionKind (ActPlay _ _) = ''play''"

fun actionData :: "SaskuHandAction \<Rightarrow> (ustr \<times> jsval) list" where
  "actionData (ActBid _ v) = [(ascii ''value'', JNumber (JInt (int v)))]"
| "actionData (ActChooseTrump _ u) = [(ascii ''suit'', JString (ascii (suitText u)))]"
| "actionData _ = []"

definition actionInput :: "SaskuHandAction \<Rightarrow> nat list \<Rightarrow> jsval" where
  "actionInput a reveal = JObject [(ascii ''kind'', JString (ascii (actionKind a))), (ascii ''data'', JObject (actionData a)),
     (ascii ''reveal'', JArray (map (\<lambda>p. JNumber (JInt (int p))) reveal))]"

definition revealedCards :: "(nat \<times> SaskuCardId) list \<Rightarrow> jsval" where
  "revealedCards ps = JObject (map (\<lambda>(p, x). (ascii (natText p), JString x)) ps)"

lemma revealPosition_Some: "revealPosition r = Some p \<longleftrightarrow> p \<le> 35 \<and> r = [JNumber (JInt (int p))]"
proof
  assume "revealPosition r = Some p"
  then show "p \<le> 35 \<and> r = [JNumber (JInt (int p))]"
    by (auto simp: revealPosition_def elim!: isSafeInteger.elims split: list.splits jsval.splits if_splits)
next
  assume "p \<le> 35 \<and> r = [JNumber (JInt (int p))]"
  then show "revealPosition r = Some p" by (simp add: revealPosition_def MAX_SAFE_INTEGER_def)
qed

lemma decode_auction_ok:
  "decode_auction s k d = Inr a \<Longrightarrow> s < 4 \<Longrightarrow> action_ok a \<and> act_seat a = s \<and> (\<forall>x. a \<noteq> ActPlay s x)"
  by (auto simp: decode_auction_def action_ok_def split: jsval.splits if_splits prod.splits option.splits bool.splits)

lemma no_keys [simp]: "keys_are d [] \<longleftrightarrow> d = []"
  by (auto simp: keys_are_def)

lemma one_key: "keys_are d [k] \<Longrightarrow> d = [(ascii k, get_prop d k)]"
  by (cases d; cases "tl d") (auto simp: keys_are_def get_prop_def insert_eq_iff)

lemma includedSuit_Some: "includedSuit v = Some u \<longleftrightarrow> v = JString (ascii (suitText u))"
  by (cases v; cases u) (auto simp: includedSuit_def SASKU_SUITS_def split: if_splits)

lemma decode_auction_wire:
  "decode_auction s k d = Inr a \<Longrightarrow> k = JString (ascii (actionKind a)) \<and> d = actionData a"
  by (auto simp: decode_auction_def includedSuit_Some elim!: isSafeInteger.elims
      split: jsval.splits if_splits prod.splits option.splits bool.splits dest!: one_key)

lemma decode_auction_data:
  "action_ok a \<Longrightarrow> (\<And>x. a \<noteq> ActPlay (act_seat a) x) \<Longrightarrow>
     decode_auction (act_seat a) (JString (ascii (actionKind a))) (actionData a) = Inr a"
  by (cases a) (auto simp: decode_auction_def action_ok_def keys_are_def get_prop_def MAX_SAFE_INTEGER_def)

text \<open>C33: decoding a game action. A decoded action is well formed, acts for the authenticated
  seat and is the one the body states: the kind, data and reveal of the body are exactly those of the
  action's wire form. A play is the one revealed card, at the position from 0 to 35 that the body
  reveals, and any other action comes with no reveal and no revealed card.\<close>

theorem decodeSaskuAction_sound:
  assumes "decodeSaskuAction actor input (JObject cards) = Inr a"
  shows "action_ok a \<and> actor = JNumber (JInt (int (act_seat a))) \<and>
    (\<exists>ps reveal. input = JObject ps \<and> keys_are ps [''data'', ''kind'', ''reveal''] \<and>
      get_prop ps ''kind'' = JString (ascii (actionKind a)) \<and> get_prop ps ''data'' = JObject (actionData a) \<and>
      get_prop ps ''reveal'' = JArray reveal \<and>
      (case a of ActPlay s x \<Rightarrow> \<exists>pos \<le> 35. reveal = [JNumber (JInt (int pos))] \<and> cards = [(ascii (natText pos), JString x)]
       | _ \<Rightarrow> reveal = [] \<and> cards = []))"
proof -
  obtain seat ps reveal data where *: "saskuSeat actor = Inr seat" "get_prop ps ''reveal'' = JArray reveal"
    "input = JObject ps" "keys_are ps [''data'', ''kind'', ''reveal'']" "get_prop ps ''data'' = JObject data"
    and r: "(if get_prop ps ''kind'' = JString (ascii ''play'') then decode_play seat data reveal cards
       else if length reveal \<noteq> 0 \<or> length cards \<noteq> 0 then handError ''Sasku auction actions cannot reveal cards''
       else decode_auction seat (get_prop ps ''kind'') data) = Inr a"
    using assms by (auto simp: decodeSaskuAction_def isPlainMap_def result_simps
        split: option.splits jsval.splits prod.splits bool.splits if_splits)
  have seat: "seat < 4" "actor = JNumber (JInt (int seat))" using *(1) by (simp_all add: saskuSeat_Inr)
  show ?thesis
  proof (cases "get_prop ps ''kind'' = JString (ascii ''play'')")
    case True
    then obtain pos where pos: "revealPosition reveal = Some pos" "length cards = 1"
      "map_of cards (ascii (natText pos)) \<noteq> None" "data = []"
      and c: "rbind (parseSaskuCard (get_prop cards (natText pos))) (\<lambda>card. Inr (ActPlay seat (card_id card))) = Inr a"
      using r by (auto simp: decode_play_def split: option.splits if_splits)
    obtain v where cards: "cards = [(ascii (natText pos), v)]"
      using pos(2,3) by (cases cards) (auto split: if_splits)
    obtain x where x: "a = ActPlay seat x" "known_card x" "v = JString x"
      using c cards by (auto simp: result_simps parse_Inr_iff get_prop_def)
    then show ?thesis using True * seat cards pos(1,4) by (auto simp: action_ok_def revealPosition_Some)
  next
    case False
    then have d: "decode_auction seat (get_prop ps ''kind'') data = Inr a" "reveal = []" "cards = []"
      using r by (auto split: if_splits)
    then show ?thesis using decode_auction_ok [OF d(1) seat(1)] decode_auction_wire [OF d(1)] * seat(2) by (cases a) auto
  qed
qed

text \<open>Every well-formed action has a wire form that decodes to it: an auction action with an
  empty reveal, a play with the revealed card at its position.\<close>

theorem decodeSaskuAction_complete:
  assumes "action_ok a" "pos \<le> 35"
  shows "decodeSaskuAction (JNumber (JInt (int (act_seat a))))
    (actionInput a (case a of ActPlay _ _ \<Rightarrow> [pos] | _ \<Rightarrow> []))
    (revealedCards (case a of ActPlay _ x \<Rightarrow> [(pos, x)] | _ \<Rightarrow> [])) = Inr a"
proof (cases a)
  case (ActPlay s x)
  obtain u r where "x = card_id (makeCard u r)" using assms(1) ActPlay by (auto simp: action_ok_def elim: known_cardE)
  then show ?thesis
    using assms ActPlay revealPosition_Some [of "[JNumber (JInt (int pos))]" pos]
    by (simp add: decodeSaskuAction_def actionInput_def revealedCards_def isPlainMap_def keys_are_def get_prop_def
        decode_play_def action_ok_def insert_commute)
next
  case (ActBid s v)
  show ?thesis
    using decode_auction_data [OF assms(1)] assms(1) ActBid
    by (simp add: decodeSaskuAction_def actionInput_def revealedCards_def isPlainMap_def keys_are_def get_prop_def
        action_ok_def insert_commute)
qed (use decode_auction_data [OF assms(1)] assms(1) in
    \<open>simp_all add: decodeSaskuAction_def actionInput_def revealedCards_def isPlainMap_def keys_are_def get_prop_def
        action_ok_def insert_commute\<close>)

theorem decodeSaskuAction_complete_example:
  "decodeSaskuAction (JNumber (JInt 0)) (actionInput (ActPlay 0 foreign_card) [7]) (revealedCards [(7, foreign_card)]) =
     Inr (ActPlay 0 foreign_card)"
  using decodeSaskuAction_complete [of "ActPlay 0 foreign_card" 7] foreign_card_facts(1) by (simp add: action_ok_def)

theorem decodeSaskuAction_sound_witness:
  "\<exists>ps. actionInput (ActBid 2 5) [] = JObject ps \<and> get_prop ps ''kind'' = JString (ascii ''bid'') \<and>
     get_prop ps ''data'' = JObject [(ascii ''value'', JNumber (JInt 5))] \<and> get_prop ps ''reveal'' = JArray []"
proof -
  have "decodeSaskuAction (JNumber (JInt 2)) (actionInput (ActBid 2 5) []) (JObject []) = Inr (ActBid 2 5)"
    by (simp add: decodeSaskuAction_def actionInput_def isPlainMap_def keys_are_def get_prop_def decode_auction_def
        saskuSeat_def MAX_SAFE_INTEGER_def insert_commute)
  from decodeSaskuAction_sound [OF this] show ?thesis by auto
qed

end
