(* ===== verification/Encoding_Value.thy ===== *)
theory Encoding_Value
  imports Tablefolk_Prelude
begin

text \<open>
  \<^verbatim>\<open>packages/encoding\<close>: which JavaScript values may be encoded, how a decoded value becomes a
  plain value, and the canonical encoding. The byte codec itself is the package
  \<open>cbor2\<close>: its two functions are the fields of \<open>cbor_codec\<close>, and the laws the program
  relies on are stated by \<open>codec_laws\<close>. A value of type \<open>unknown\<close> is a finite tree
  here, so the check for cyclic references has no case; error messages and paths are dropped.
\<close>

section \<open>Errors and raw values\<close>

datatype CanonicalCborErrorCode = MALFORMED | NON_CANONICAL | UNSUPPORTED_VALUE

type_synonym CborValue = jsval

text \<open>What the decoder returns: maps are \<open>Map\<close> objects with keys of any kind.\<close>

datatype decoded =
    DNull
  | DBool bool
  | DNumber jsnum
  | DString ustr
  | DBytes bytes
  | DArray "decoded list"
  | DMap "(decoded \<times> decoded) list"
  | DOther

record cbor_codec =
  cbor2_encode :: "jsval \<Rightarrow> bytes option"
  cbor2_decode :: "bytes \<Rightarrow> decoded option"

definition MAX_CBOR_NESTING_DEPTH :: nat where
  "MAX_CBOR_NESTING_DEPTH = 32"

section \<open>Valid values\<close>

text \<open>The surrogate scan: a high surrogate must be followed by a low one, which is skipped.\<close>

fun wellFormedString :: "ustr \<Rightarrow> bool" where
  "wellFormedString [] = True"
| "wellFormedString (c # cs) =
     (if 0xd800 \<le> c \<and> c \<le> 0xdbff
      then (case cs of [] \<Rightarrow> False
            | next # rest \<Rightarrow> if next < 0xdc00 \<or> next > 0xdfff then False else wellFormedString rest)
      else if 0xdc00 \<le> c \<and> c \<le> 0xdfff then False
      else wellFormedString cs)"

definition assertWellFormedString :: "ustr \<Rightarrow> CanonicalCborErrorCode + unit" where
  "assertWellFormedString s = (if wellFormedString s then Inr () else Inl UNSUPPORTED_VALUE)"

definition assertDepth :: "nat \<Rightarrow> CanonicalCborErrorCode + unit" where
  "assertDepth depth = (if depth > MAX_CBOR_NESTING_DEPTH then Inl UNSUPPORTED_VALUE else Inr ())"

definition supportedNumber :: "jsnum \<Rightarrow> CanonicalCborErrorCode + unit" where
  "supportedNumber n = (if \<not> isSafeInteger n \<or> n = JNegZero then Inl UNSUPPORTED_VALUE else Inr ())"

text \<open>A loop that only checks, and throws at the first bad element.\<close>

definition checkAll :: "('a \<Rightarrow> 'e + unit) \<Rightarrow> 'a list \<Rightarrow> 'e + unit" where
  "checkAll f xs = rbind (mapM_res f xs) (\<lambda>_. Inr ())"

lemma checkAll_cong [fundef_cong]:
  "xs = ys \<Longrightarrow> (\<And>x. x \<in> set ys \<Longrightarrow> f x = g x) \<Longrightarrow> checkAll f xs = checkAll g ys"
  by (auto simp: checkAll_def cong: mapM_res_cong)

lemma checkAll_Inr [simp]: "checkAll f xs = Inr u \<longleftrightarrow> (\<forall>x \<in> set xs. f x = Inr ())"
  by (induction xs) (auto simp: checkAll_def result_simps)

fun validateValue :: "nat \<Rightarrow> jsval \<Rightarrow> CanonicalCborErrorCode + unit" where
  "validateValue depth v =
     rbind (assertDepth depth) (\<lambda>_.
     case v of
       JNull \<Rightarrow> Inr ()
     | JBool _ \<Rightarrow> Inr ()
     | JNumber n \<Rightarrow> supportedNumber n
     | JString s \<Rightarrow> assertWellFormedString s
     | JBytes _ \<Rightarrow> Inr ()
     | JArray vs \<Rightarrow> checkAll (validateValue (depth + 1)) vs
     | JObject ps \<Rightarrow> checkAll (\<lambda>p. rbind (assertWellFormedString (fst p)) (\<lambda>_. validateValue (depth + 1) (snd p))) ps
     | _ \<Rightarrow> Inl UNSUPPORTED_VALUE)"

declare validateValue.simps [simp del]

definition assertCborValue :: "jsval \<Rightarrow> CanonicalCborErrorCode + unit" where
  "assertCborValue v = validateValue 0 v"

section \<open>Decoded values\<close>

fun normalizeValue :: "nat \<Rightarrow> decoded \<Rightarrow> CanonicalCborErrorCode + CborValue" where
  "normalizeValue depth v =
     rbind (assertDepth depth) (\<lambda>_.
     case v of
       DNull \<Rightarrow> Inr JNull
     | DBool b \<Rightarrow> Inr (JBool b)
     | DNumber n \<Rightarrow> rbind (supportedNumber n) (\<lambda>_. Inr (JNumber n))
     | DString s \<Rightarrow> rbind (assertWellFormedString s) (\<lambda>_. Inr (JString s))
     | DBytes b \<Rightarrow> Inr (JBytes b)
     | DArray vs \<Rightarrow> rbind (mapM_res (normalizeValue (depth + 1)) vs) (\<lambda>ys. Inr (JArray ys))
     | DMap ps \<Rightarrow>
         rbind (mapM_res (\<lambda>p. case fst p of
                  DString key \<Rightarrow> rbind (assertWellFormedString key) (\<lambda>_.
                    rbind (normalizeValue (depth + 1) (snd p)) (\<lambda>item. Inr (key, item)))
                | _ \<Rightarrow> Inl UNSUPPORTED_VALUE) ps)
           (\<lambda>entries. Inr (JObject (fold (\<lambda>(key, item) m. AList.update key item m) entries [])))
     | _ \<Rightarrow> Inl UNSUPPORTED_VALUE)"

declare normalizeValue.simps [simp del]

definition normalizeDecodedValue :: "decoded \<Rightarrow> CanonicalCborErrorCode + CborValue" where
  "normalizeDecodedValue v = normalizeValue 0 v"

section \<open>The canonical encoding\<close>

definition encodeCanonical :: "'z cbor_codec_scheme \<Rightarrow> CborValue \<Rightarrow> CanonicalCborErrorCode + bytes" where
  "encodeCanonical cdc v =
     rbind (assertCborValue v) (\<lambda>_.
     case cbor2_encode cdc v of None \<Rightarrow> Inl MALFORMED | Some b \<Rightarrow> Inr b)"

definition decodeCanonical :: "'z cbor_codec_scheme \<Rightarrow> bytes \<Rightarrow> CanonicalCborErrorCode + CborValue" where
  "decodeCanonical cdc b =
     (if b = [] then Inl MALFORMED
      else rbind (case cbor2_decode cdc b of None \<Rightarrow> Inl MALFORMED | Some d \<Rightarrow> normalizeDecodedValue d) (\<lambda>normalized.
           rbind (encodeCanonical cdc normalized) (\<lambda>reencoded.
           if b \<noteq> reencoded then Inl NON_CANONICAL else Inr normalized)))"

text \<open>
  Two values that differ only in the order of the properties of their objects. The
  deterministic encoding does not see that order, and neither does any reader of a body.
\<close>

fun same_value :: "jsval \<Rightarrow> jsval \<Rightarrow> bool" where
  "same_value (JArray xs) w = (case w of JArray ys \<Rightarrow> list_all2 same_value xs ys | _ \<Rightarrow> False)"
| "same_value (JObject ps) w = (case w of
     JObject qs \<Rightarrow> length ps = length qs \<and> distinct (map fst ps) \<and> distinct (map fst qs) \<and>
       list_all (\<lambda>p. case map_of qs (fst p) of None \<Rightarrow> False | Some y \<Rightarrow> same_value (snd p) y) ps
   | _ \<Rightarrow> False)"
| "same_value v w = (v = w)"

text \<open>
  What the program relies on of the codec: the encoding does not depend on the order of
  properties, and whatever it encodes is a non-empty byte string that decodes to the same value.
\<close>

definition codec_laws :: "'z cbor_codec_scheme \<Rightarrow> bool" where
  "codec_laws cdc \<longleftrightarrow>
     (\<forall>v w. same_value v w \<longrightarrow> cbor2_encode cdc v = cbor2_encode cdc w) \<and>
     (\<forall>v b. assertCborValue v = Inr () \<and> cbor2_encode cdc v = Some b \<longrightarrow> b \<noteq> [] \<and>
        (\<exists>d w. cbor2_decode cdc b = Some d \<and> normalizeDecodedValue d = Inr w \<and> same_value v w))"

section \<open>Strings\<close>

text \<open>The UTF-16 code units of a Unicode code point.\<close>

definition utf16 :: "nat \<Rightarrow> ustr" where
  "utf16 n = (if n < 0x10000 then [word_of_nat n]
     else [word_of_nat (0xd800 + (n - 0x10000) div 1024), word_of_nat (0xdc00 + (n - 0x10000) mod 1024)])"

definition scalar_value :: "nat \<Rightarrow> bool" where
  "scalar_value n \<longleftrightarrow> n < 0x110000 \<and> \<not> (0xd800 \<le> n \<and> n \<le> 0xdfff)"

lemma word16_le_nat: "n < 0x10000 \<Longrightarrow> m < 0x10000 \<Longrightarrow> (word_of_nat n :: 16 word) \<le> word_of_nat m \<longleftrightarrow> n \<le> m"
  by (simp add: word_le_nat_alt unat_of_nat take_bit_eq_mod)

lemma word16_range:
  assumes "n < 0x10000"
  shows "(0xd800 :: 16 word) \<le> word_of_nat n \<longleftrightarrow> 0xd800 \<le> n" "(word_of_nat n :: 16 word) \<le> 0xdbff \<longleftrightarrow> n \<le> 0xdbff"
    "(0xdc00 :: 16 word) \<le> word_of_nat n \<longleftrightarrow> 0xdc00 \<le> n" "(word_of_nat n :: 16 word) \<le> 0xdfff \<longleftrightarrow> n \<le> 0xdfff"
  using assms by (simp_all add: word_le_nat_alt unat_of_nat take_bit_eq_mod)

lemma wellFormedString_unit:
  assumes "n < 0x10000" "\<not> (0xd800 \<le> n \<and> n \<le> 0xdfff)"
  shows "wellFormedString (word_of_nat n # s) = wellFormedString s"
  using assms by (auto simp: word16_range [OF assms(1)])

lemma wellFormedString_pair:
  assumes "0xd800 \<le> h" "h \<le> 0xdbff" "0xdc00 \<le> l" "l \<le> 0xdfff"
  shows "wellFormedString (word_of_nat h # word_of_nat l # s) = wellFormedString s"
proof -
  have "h < 0x10000" "l < 0x10000" using assms by simp_all
  then show ?thesis using assms word16_range [of h] word16_range [of l] by (simp add: not_less [symmetric])
qed

lemma wellFormedString_utf16: "scalar_value n \<Longrightarrow> wellFormedString (utf16 n @ s) = wellFormedString s"
proof (cases "n < 0x10000")
  case True
  then show "scalar_value n \<Longrightarrow> ?thesis"
    unfolding utf16_def scalar_value_def using wellFormedString_unit [of n s] by simp
next
  case False
  assume "scalar_value n"
  then have "n - 0x10000 < 0x400 * 1024" using False by (auto simp: scalar_value_def)
  then have b: "(n - 0x10000) div 1024 \<le> 0x3ff" using less_mult_imp_div_less by fastforce
  have "(n - 0x10000) mod 1024 \<le> 0x3ff" using pos_mod_bound [of 1024 "int (n - 0x10000)"] by simp
  with b False show ?thesis
    unfolding utf16_def by (simp only: if_False append_Cons append_Nil) (rule wellFormedString_pair; simp)
qed

lemma utf16_of_unit:
  assumes "\<not> (0xd800 \<le> (c :: 16 word) \<and> c \<le> 0xdfff)"
  shows "scalar_value (unat c) \<and> utf16 (unat c) = [c]"
proof -
  have "unat c < 0x10000" using unsigned_less [of c] by simp
  then show ?thesis using assms by (auto simp: scalar_value_def utf16_def word_le_nat_alt)
qed

lemma utf16_of_pair:
  assumes "0xd800 \<le> (h :: 16 word)" "h \<le> 0xdbff" "0xdc00 \<le> (l :: 16 word)" "l \<le> 0xdfff"
  shows "\<exists>n. scalar_value n \<and> utf16 n = [h, l]"
proof -
  define a b where "a = unat h - 0xd800" and "b = unat l - 0xdc00"
  have h: "unat h = 0xd800 + a" "a < 1024" and l: "unat l = 0xdc00 + b" "b < 1024"
    using assms by (auto simp: word_le_nat_alt a_def b_def)
  let ?n = "0x10000 + (a * 1024 + b)"
  have "(?n - 0x10000) div 1024 = a" "(?n - 0x10000) mod 1024 = b" using l(2) by simp_all
  then have "utf16 ?n = [word_of_nat (unat h), word_of_nat (unat l)]" unfolding utf16_def h l by simp
  moreover have "scalar_value ?n" using h(2) l(2) by (simp add: scalar_value_def)
  ultimately show ?thesis by (intro exI [of _ ?n]) simp
qed

lemma wellFormedString_decompose:
  "wellFormedString s \<Longrightarrow> \<exists>cps. list_all scalar_value cps \<and> s = concat (map utf16 cps)"
proof (induction s rule: wellFormedString.induct)
  case 1
  then show ?case by (intro exI [of _ "[]"]) simp
next
  case (2 c cs)
  show ?case
  proof (cases "0xd800 \<le> c \<and> c \<le> 0xdbff")
    case True
    then obtain l rest where cs: "cs = l # rest" "0xdc00 \<le> l" "l \<le> 0xdfff" "wellFormedString rest"
      using 2(3) by (auto simp: not_less split: list.splits if_splits)
    obtain cps where "list_all scalar_value cps" "rest = concat (map utf16 cps)"
      using 2(1) [OF True cs(1)] cs by (auto simp: not_less)
    moreover obtain n where "scalar_value n" "utf16 n = [c, l]" using utf16_of_pair [of c l] True cs by blast
    ultimately show ?thesis using cs(1) by (intro exI [of _ "n # cps"]) simp
  next
    case False
    then have low: "\<not> (0xdc00 \<le> c \<and> c \<le> 0xdfff)" and cs: "wellFormedString cs"
      using 2(3) unfolding wellFormedString.simps by (simp_all only: if_False not_False_eq_True split: if_splits)
    have u: "\<not> (0xd800 \<le> c \<and> c \<le> 0xdfff)" using low False by (auto simp: word_le_nat_alt)
    obtain cps where "list_all scalar_value cps" "cs = concat (map utf16 cps)"
      using 2(2) [OF False low cs] by blast
    then show ?thesis using utf16_of_unit [OF u] by (intro exI [of _ "unat c # cps"]) simp
  qed
qed

text \<open>The string check accepts exactly the UTF-16 encodings of sequences of Unicode scalar
  values.\<close>

theorem assertWellFormedString_exact:
  "assertWellFormedString s = Inr () \<longleftrightarrow> (\<exists>cps. list_all scalar_value cps \<and> s = concat (map utf16 cps))"
proof -
  have "list_all scalar_value cps \<Longrightarrow> wellFormedString (concat (map utf16 cps))" for cps
    by (induction cps) (simp_all add: wellFormedString_utf16)
  then show ?thesis using wellFormedString_decompose by (auto simp: assertWellFormedString_def)
qed


section \<open>Valid values\<close>

text \<open>The values that may be encoded, and how deeply they nest.\<close>

fun encodable :: "jsval \<Rightarrow> bool" where
  "encodable JNull = True"
| "encodable (JBool _) = True"
| "encodable (JNumber n) = (isSafeInteger n \<and> n \<noteq> JNegZero)"
| "encodable (JString s) = wellFormedString s"
| "encodable (JBytes _) = True"
| "encodable (JArray vs) = list_all encodable vs"
| "encodable (JObject ps) = list_all (\<lambda>p. wellFormedString (fst p) \<and> encodable (snd p)) ps"
| "encodable _ = False"

fun nesting :: "jsval \<Rightarrow> nat" where
  "nesting (JArray vs) = fold max (map (\<lambda>v. Suc (nesting v)) vs) 0"
| "nesting (JObject ps) = fold max (map (\<lambda>p. Suc (nesting (snd p))) ps) 0"
| "nesting _ = 0"

lemma fold_max_le: "fold max xs (a::nat) \<le> n \<longleftrightarrow> a \<le> n \<and> (\<forall>x \<in> set xs. x \<le> n)"
  by (induction xs arbitrary: a) auto

lemma add_fold_max_le: "d + fold max (map f xs) (0::nat) \<le> n \<longleftrightarrow> d \<le> n \<and> (\<forall>x \<in> set xs. d + f x \<le> n)"
proof (cases "d \<le> n")
  case True
  then have "d + m \<le> n \<longleftrightarrow> m \<le> n - d" for m by auto
  then show ?thesis using True by (simp add: fold_max_le)
qed auto

lemma validateValue_iff:
  "validateValue d v = Inr () \<longleftrightarrow> encodable v \<and> d + nesting v \<le> MAX_CBOR_NESTING_DEPTH"
proof (induction v arbitrary: d rule: encodable.induct)
  case (6 vs)
  have "validateValue d (JArray vs) = Inr () \<longleftrightarrow>
      d \<le> MAX_CBOR_NESTING_DEPTH \<and> (\<forall>v \<in> set vs. encodable v \<and> Suc d + nesting v \<le> MAX_CBOR_NESTING_DEPTH)"
    using 6 by (simp add: validateValue.simps [of d] assertDepth_def)
  then show ?case by (auto simp: add_fold_max_le list_all_iff)
next
  case (7 ps)
  have "validateValue d (JObject ps) = Inr () \<longleftrightarrow>
      d \<le> MAX_CBOR_NESTING_DEPTH \<and> (\<forall>p \<in> set ps. wellFormedString (fst p) \<and> encodable (snd p) \<and>
        Suc d + nesting (snd p) \<le> MAX_CBOR_NESTING_DEPTH)"
    using 7 by (auto simp: validateValue.simps [of d] assertDepth_def assertWellFormedString_def result_simps)
  then show ?case by (auto simp: add_fold_max_le list_all_iff)
qed (auto simp: validateValue.simps assertDepth_def supportedNumber_def assertWellFormedString_def)


lemma assertCborValue_iff: "assertCborValue v = Inr () \<longleftrightarrow> encodable v \<and> nesting v \<le> MAX_CBOR_NESTING_DEPTH"
  by (simp add: assertCborValue_def validateValue_iff)

lemma set_fold_update:
  "p \<in> set (fold (\<lambda>(k, v) m. AList.update k v m) es m) \<Longrightarrow> p \<in> set es \<union> set m"
proof (induction es arbitrary: m)
  case (Cons e es)
  obtain k v where e: "e = (k, v)" by fastforce
  have "set (AList.update k v m) \<subseteq> insert (k, v) (set m)" by (induction m) auto
  then show ?case using Cons e by fastforce
qed simp

text \<open>What normalization returns always passes the check of the encoder.\<close>

lemma normalizeValue_valid: "normalizeValue d x = Inr v \<Longrightarrow> validateValue d v = Inr ()"
proof (induction d x arbitrary: v rule: normalizeValue.induct)
  case (1 d x)
  have d: "assertDepth d = Inr ()" using 1(3) by (auto simp: normalizeValue.simps [of d] result_simps)
  show ?case
  proof (cases x)
    case (DArray vs)
    then obtain ys where ys: "v = JArray ys" "mapM_res (normalizeValue (d + 1)) vs = Inr ys"
      using 1(3) d by (auto simp: normalizeValue.simps [of d] result_simps)
    have "\<forall>y \<in> set ys. validateValue (d + 1) y = Inr ()"
      using mapM_res_mem [OF ys(2)] 1(1) [OF DArray] by blast
    then show ?thesis using d ys(1) by (simp add: validateValue.simps [of d])
  next
    case (DMap ps)
    let ?f = "\<lambda>p. case fst p of
                  DString key \<Rightarrow> rbind (assertWellFormedString key) (\<lambda>_.
                    rbind (normalizeValue (d + 1) (snd p)) (\<lambda>item. Inr (key, item)))
                | _ \<Rightarrow> Inl UNSUPPORTED_VALUE"
    from DMap 1(3) d obtain es where es: "mapM_res ?f ps = Inr es"
      and v: "v = JObject (fold (\<lambda>(k, v) m. AList.update k v m) es [])"
      by (auto simp: normalizeValue.simps [of d] result_simps)
    have ok: "assertWellFormedString k = Inr () \<and> validateValue (d + 1) y = Inr ()" if "(k, y) \<in> set es" for k y
    proof -
      have "\<exists>p \<in> set ps. ?f p = Inr (k, y)" by (rule mapM_res_mem [OF es that])
      then obtain p where p: "p \<in> set ps" "?f p = Inr (k, y)" by blast
      then obtain key where key: "fst p = DString key" by (cases "fst p") simp_all
      then have "assertWellFormedString k = Inr ()" "normalizeValue (d + 1) (snd p) = Inr y"
        using p(2) by (auto simp: result_simps)
      then show ?thesis using 1(2) [OF DMap p(1) key, of y] by simp
    qed
    have "assertWellFormedString (fst p) = Inr () \<and> validateValue (d + 1) (snd p) = Inr ()"
      if "p \<in> set (fold (\<lambda>(k, v) m. AList.update k v m) es [])" for p
      using set_fold_update [OF that] ok [of "fst p" "snd p"] by simp
    then show ?thesis using d v by (auto simp: validateValue.simps [of d])
  qed (use 1(3) d in \<open>auto simp: normalizeValue.simps [of d] validateValue.simps [of d] result_simps\<close>)
qed


section \<open>Values up to property order\<close>

lemma same_value_objectD:
  assumes "same_value (JObject ps) (JObject qs)"
  shows "distinct (map fst ps)" "distinct (map fst qs)" "set (map fst qs) = set (map fst ps)"
    and "map_of ps k = Some x \<Longrightarrow> \<exists>y. map_of qs k = Some y \<and> same_value x y"
proof -
  have *: "length ps = length qs" "distinct (map fst ps)" "distinct (map fst qs)"
    "\<And>p. p \<in> set ps \<Longrightarrow> case map_of qs (fst p) of None \<Rightarrow> False | Some y \<Rightarrow> same_value (snd p) y"
    using assms by (auto simp: list_all_iff)
  show "distinct (map fst ps)" "distinct (map fst qs)" using * by simp_all
  have "set (map fst ps) \<subseteq> set (map fst qs)"
  proof
    fix k assume "k \<in> set (map fst ps)"
    then obtain p where "p \<in> set ps" "k = fst p" by auto
    with *(4) [of p] have "map_of qs k \<noteq> None" by (auto split: option.splits)
    then show "k \<in> set (map fst qs)" by (simp add: map_of_eq_None_iff)
  qed
  moreover have "card (set (map fst ps)) = card (set (map fst qs))" using *(1-3) by (simp add: distinct_card del: set_map)
  ultimately show "set (map fst qs) = set (map fst ps)" using card_subset_eq finite_set by metis
  assume "map_of ps k = Some x"
  then have "(k, x) \<in> set ps" by (rule map_of_SomeD)
  then show "\<exists>y. map_of qs k = Some y \<and> same_value x y" using *(4) [of "(k, x)"] by (auto split: option.splits)
qed

lemma same_value_objectI:
  assumes "distinct (map fst ps)" "distinct (map fst qs)" "set (map fst ps) = set (map fst qs)"
    and "\<And>k x y. (k, x) \<in> set ps \<Longrightarrow> (k, y) \<in> set qs \<Longrightarrow> same_value x y"
  shows "same_value (JObject ps) (JObject qs)"
proof -
  have "length ps = length qs" using assms(1-3) by (metis distinct_card length_map)
  moreover have "case map_of qs (fst p) of None \<Rightarrow> False | Some y \<Rightarrow> same_value (snd p) y" if "p \<in> set ps" for p
  proof -
    have "fst p \<in> set (map fst qs)" using that assms(3) by (metis image_eqI set_map)
    then obtain y where "map_of qs (fst p) = Some y" by (metis map_of_eq_None_iff not_None_eq set_map)
    then show ?thesis using assms(4) [of "fst p" "snd p" y] that by (auto dest: map_of_SomeD)
  qed
  ultimately show ?thesis using assms(1,2) by (simp add: list_all_iff)
qed

lemma same_value_sym: "same_value v w \<Longrightarrow> same_value w v"
proof (induction v w rule: same_value.induct)
  case (1 xs w)
  then obtain ys where w: "w = JArray ys" "list_all2 same_value xs ys" by (auto split: jsval.splits)
  have "list_all2 same_value ys xs"
    using w(2) 1(1) [OF w(1)] by (auto simp: list_all2_conv_all_nth)
  then show ?case by (simp add: w(1))
next
  case (2 ps w)
  then obtain qs where w: "w = JObject qs" by (auto split: jsval.splits)
  note d = same_value_objectD [OF 2(2) [unfolded w]]
  have "same_value (JObject qs) (JObject ps)"
  proof (rule same_value_objectI)
    fix k x y assume xy: "(k, x) \<in> set qs" "(k, y) \<in> set ps"
    then have "map_of ps k = Some y" "map_of qs k = Some x" using d(1,2) by simp_all
    then have "same_value y x" using d(4) by fastforce
    then show "same_value x y" using 2(1) [OF w xy(2), of x] \<open>map_of qs k = Some x\<close> by simp
  qed (use d in auto)
  then show ?case by (simp add: w)
qed auto

lemma same_value_trans: "same_value u v \<Longrightarrow> same_value v w \<Longrightarrow> same_value u w"
proof (induction u v arbitrary: w rule: same_value.induct)
  case (1 xs v)
  then obtain ys where v: "v = JArray ys" "list_all2 same_value xs ys" by (auto split: jsval.splits)
  with 1(3) obtain zs where w: "w = JArray zs" "list_all2 same_value ys zs" by (auto split: jsval.splits)
  have "same_value (xs ! i) (zs ! i)" if "i < length xs" for i
    using that v(2) w(2) 1(1) [OF v(1), of "xs ! i" "ys ! i" "zs ! i"] by (auto simp: list_all2_conv_all_nth)
  then have "list_all2 same_value xs zs" using v(2) w(2) by (auto simp: list_all2_conv_all_nth)
  then show ?case by (simp add: w(1))
next
  case (2 ps v)
  then obtain qs where v: "v = JObject qs" by (auto split: jsval.splits)
  with 2(3) obtain rs where w: "w = JObject rs" by (auto split: jsval.splits)
  note d = same_value_objectD [OF 2(2) [unfolded v]] and e = same_value_objectD [OF 2(3) [unfolded v w]]
  have "same_value (JObject ps) (JObject rs)"
  proof (rule same_value_objectI)
    fix k x z assume xz: "(k, x) \<in> set ps" "(k, z) \<in> set rs"
    then have m: "map_of ps k = Some x" "map_of rs k = Some z" using d(1) e(2) by simp_all
    then obtain y where y: "map_of qs k = Some y" "same_value x y" using d(4) by blast
    then have "same_value y z" using e(4) [OF y(1)] m(2) by simp
    then show "same_value x z" using 2(1) [OF v xz(1), of y z] y by simp
  qed (use d e in auto)
  then show ?case by (simp add: w)
qed auto

section \<open>Canonical bytes\<close>

lemma decodeCanonical_Inr:
  "decodeCanonical cdc b = Inr v \<longleftrightarrow> b \<noteq> [] \<and>
     (\<exists>d. cbor2_decode cdc b = Some d \<and> normalizeDecodedValue d = Inr v) \<and> encodeCanonical cdc v = Inr b"
  by (auto simp: decodeCanonical_def result_simps split: option.splits)

lemma codec_roundtrip:
  assumes "codec_laws cdc" "encodeCanonical cdc v = Inr b"
  obtains w where "decodeCanonical cdc b = Inr w" "same_value v w"
proof -
  have v: "assertCborValue v = Inr ()" "cbor2_encode cdc v = Some b"
    using assms(2) by (auto simp: encodeCanonical_def result_simps split: option.splits)
  then obtain d w where *: "b \<noteq> []" "cbor2_decode cdc b = Some d" "normalizeDecodedValue d = Inr w" "same_value v w"
    using assms(1) unfolding codec_laws_def by blast
  have "assertCborValue w = Inr ()"
    using normalizeValue_valid [of 0 d w] *(3) by (simp add: assertCborValue_def normalizeDecodedValue_def)
  moreover have "cbor2_encode cdc w = Some b" using assms(1) *(4) v(2) unfolding codec_laws_def by metis
  ultimately show ?thesis
    using * by (intro that [of w]) (auto simp: encodeCanonical_def decodeCanonical_Inr)
qed

lemma encodeCanonical_same:
  assumes "codec_laws cdc" "same_value v w" "assertCborValue w = Inr ()" "encodeCanonical cdc v = Inr b"
  shows "encodeCanonical cdc w = Inr b"
  using assms by (auto simp: encodeCanonical_def codec_laws_def result_simps split: option.splits)

text \<open>C32: only the canonical encoding of a value decodes to it. Whatever the byte codec does, a
  byte string that decodes re-encodes to itself, its value passes the check of the encoder, and
  no other byte string decodes to that value.\<close>

theorem decodeCanonical_unique:
  assumes "decodeCanonical cdc b = Inr v"
  shows "encodeCanonical cdc v = Inr b \<and> encodable v \<and> nesting v \<le> MAX_CBOR_NESTING_DEPTH \<and>
    (\<forall>b'. decodeCanonical cdc b' = Inr v \<longleftrightarrow> b' = b)"
proof -
  have e: "encodeCanonical cdc v = Inr b" using assms by (simp add: decodeCanonical_Inr)
  moreover have "assertCborValue v = Inr ()" using e by (auto simp: encodeCanonical_def result_simps)
  ultimately show ?thesis using assms by (auto simp: assertCborValue_iff decodeCanonical_Inr)
qed

text \<open>A codec for one value, for the examples.\<close>

definition example_codec :: cbor_codec where
  "example_codec = \<lparr>cbor2_encode = (\<lambda>v. if v = JBool True then Some [0xf5] else None),
     cbor2_decode = (\<lambda>b. if b = [0xf5] then Some (DBool True) else None)\<rparr>"

lemma same_value_true: "same_value v (JBool True) \<longleftrightarrow> v = JBool True" "same_value (JBool True) v \<longleftrightarrow> v = JBool True"
  by (cases v; auto)+

lemma example_codec_laws: "codec_laws example_codec"
  unfolding codec_laws_def
proof (intro conjI allI impI)
  fix v w assume "same_value v w"
  then show "cbor2_encode example_codec v = cbor2_encode example_codec w"
    using same_value_true [of v] same_value_true [of w] by (auto simp: example_codec_def)
qed (auto simp: example_codec_def normalizeDecodedValue_def normalizeValue.simps assertDepth_def split: if_splits)

theorem decodeCanonical_unique_witness:
  "encodeCanonical example_codec (JBool True) = Inr [0xf5] \<and> encodable (JBool True) \<and>
    nesting (JBool True) \<le> MAX_CBOR_NESTING_DEPTH \<and>
    (\<forall>b'. decodeCanonical example_codec b' = Inr (JBool True) \<longleftrightarrow> b' = [0xf5])"
proof (rule decodeCanonical_unique)
  show "decodeCanonical example_codec [0xf5] = Inr (JBool True)"
    by (simp add: decodeCanonical_def encodeCanonical_def assertCborValue_def validateValue.simps example_codec_def
        normalizeDecodedValue_def normalizeValue.simps assertDepth_def)
qed

text \<open>An encoded value decodes to itself up to the order of object properties, and a decoded
  value survives further rounds unchanged.\<close>

theorem encode_decode_roundtrip:
  assumes "codec_laws cdc" "encodeCanonical cdc v = Inr b"
  shows "\<exists>w. decodeCanonical cdc b = Inr w \<and> same_value v w \<and> encodeCanonical cdc w = Inr b"
  using codec_roundtrip [OF assms] by (metis decodeCanonical_Inr)

theorem encode_decode_roundtrip_example:
  "\<exists>w. decodeCanonical example_codec [0xf5] = Inr w \<and> same_value (JBool True) w \<and>
     encodeCanonical example_codec w = Inr [0xf5]"
  by (rule encode_decode_roundtrip [OF example_codec_laws])
    (simp add: encodeCanonical_def assertCborValue_def validateValue.simps example_codec_def assertDepth_def)


section \<open>A codec for a finite table of values\<close>

text \<open>Values numbered by a list, up to property order: the examples use it as their codec.\<close>

fun raw :: "jsval \<Rightarrow> decoded" where
  "raw JNull = DNull"
| "raw (JBool b) = DBool b"
| "raw (JNumber n) = DNumber n"
| "raw (JString s) = DString s"
| "raw (JBytes b) = DBytes b"
| "raw (JArray vs) = DArray (map raw vs)"
| "raw (JObject ps) = DMap (map (\<lambda>p. (DString (fst p), raw (snd p))) ps)"
| "raw _ = DOther"

definition table_encode :: "jsval list \<Rightarrow> jsval \<Rightarrow> bytes option" where
  "table_encode vs v = map_option (\<lambda>i. replicate (Suc i) 0) (find (\<lambda>i. same_value (vs ! i) v) [0..<length vs])"

definition table_decode :: "jsval list \<Rightarrow> bytes \<Rightarrow> decoded option" where
  "table_decode vs b = (if 0 < length b \<and> length b \<le> length vs then Some (raw (vs ! (length b - 1))) else None)"

lemma table_codec_laws:
  assumes "\<forall>v \<in> set vs. normalizeDecodedValue (raw v) = Inr v"
    and "cbor2_encode cdc = table_encode vs" "cbor2_decode cdc = table_decode vs"
  shows "codec_laws cdc"
  unfolding codec_laws_def assms(2,3)
proof (intro conjI allI impI)
  fix v w assume "same_value v w"
  then have "same_value u v \<longleftrightarrow> same_value u w" for u using same_value_trans same_value_sym by blast
  then show "table_encode vs v = table_encode vs w" by (simp add: table_encode_def)
next
  fix v b assume "assertCborValue v = Inr () \<and> table_encode vs v = Some b"
  then obtain i where i: "find (\<lambda>i. same_value (vs ! i) v) [0..<length vs] = Some i" "b = replicate (Suc i) 0"
    by (auto simp: table_encode_def)
  then have "i < length vs" "same_value (vs ! i) v" by (auto simp: find_Some_iff)
  then show "b \<noteq> []" "\<exists>d w. table_decode vs b = Some d \<and> normalizeDecodedValue d = Inr w \<and> same_value v w"
    using i(2) assms(1) same_value_sym by (auto simp: table_decode_def)
qed

lemma normalize_keys_distinct: "normalizeDecodedValue d = Inr (JObject ps) \<Longrightarrow> distinct (map fst ps)"
proof -
  have "distinct (map fst (fold (\<lambda>(k, v) m. AList.update k v m) es m))" if "distinct (map fst m)"
    for es and m :: "(ustr \<times> jsval) list"
    using that by (induction es arbitrary: m) (auto intro: distinct_update)
  moreover assume "normalizeDecodedValue d = Inr (JObject ps)"
  ultimately show ?thesis
    by (auto simp: normalizeDecodedValue_def normalizeValue.simps result_simps split: decoded.splits)
qed

lemma decodeCanonical_keys_distinct: "decodeCanonical cdc b = Inr (JObject ps) \<Longrightarrow> distinct (map fst ps)"
  by (auto simp: decodeCanonical_Inr dest: normalize_keys_distinct)

end
