(* ===== verification/Crypto_Bytes.thy ===== *)
theory Crypto_Bytes
  imports Encoding_Value
begin

text \<open>
  \<^verbatim>\<open>packages/crypto\<close>: byte strings, hexadecimal text, hashing, Ed25519 and random numbers.
  The curve and hash functions come from the \<open>noble\<close> packages; they are the fields of
  \<open>prims\<close>, which extends the byte codec so that one parameter carries everything the program
  takes from outside. A byte array stays below the safe-integer length that \<open>concatBytes\<close> checks.
\<close>

section \<open>Bytes\<close>

datatype js_error = TypeError string | RangeError string

definition concatBytes :: "bytes list \<Rightarrow> bytes" where
  "concatBytes parts = concat parts"

definition asciiToBytes :: "ustr \<Rightarrow> js_error + bytes" where
  "asciiToBytes s = mapM_res (\<lambda>c. if c > 0x7f then Inl (TypeError ''ASCII input contains a non-ASCII code unit'')
     else Inr (ucast c)) s"

definition hexDigit :: "nat \<Rightarrow> char" where
  "hexDigit n = (if n < 10 then char_of (48 + n) else char_of (87 + n))"

text \<open>\<open>byte.toString(16).padStart(2, "0")\<close>\<close>

definition byteHex :: "byte \<Rightarrow> string" where
  "byteHex b = [hexDigit (unat b div 16), hexDigit (unat b mod 16)]"

definition bytesToHex :: "bytes \<Rightarrow> string" where
  "bytesToHex b = concat (map byteHex b)"

definition hexValue :: "char \<Rightarrow> nat option" where
  "hexValue c = (let n = of_char c in
     if 48 \<le> n \<and> n \<le> 57 then Some (n - 48)
     else if 97 \<le> n \<and> n \<le> 102 then Some (n - 87)
     else if 65 \<le> n \<and> n \<le> 70 then Some (n - 55) else None)"

fun hexPairs :: "string \<Rightarrow> bytes" where
  "hexPairs (a # b # s) = word_of_nat (the (hexValue a) * 16 + the (hexValue b)) # hexPairs s"
| "hexPairs _ = []"

definition hexToBytes :: "string \<Rightarrow> js_error + bytes" where
  "hexToBytes hex =
     (if length hex mod 2 \<noteq> 0 \<or> \<not> list_all (\<lambda>c. hexValue c \<noteq> None) hex
      then Inl (TypeError ''Hex input must contain an even number of hexadecimal characters'')
      else Inr (hexPairs hex))"

fun xor_difference :: "byte \<Rightarrow> bytes \<Rightarrow> bytes \<Rightarrow> byte" where
  "xor_difference difference (x # xs) (y # ys) = xor_difference (or difference (xor x y)) xs ys"
| "xor_difference difference _ _ = difference"

definition bytesEqual :: "bytes \<Rightarrow> bytes \<Rightarrow> bool" where
  "bytesEqual left right = (if length left \<noteq> length right then False else xor_difference 0 left right = 0)"

section \<open>Hashes and signatures\<close>

record prims = cbor_codec +
  noble_sha256 :: "bytes \<Rightarrow> bytes"
  noble_sha512 :: "bytes \<Rightarrow> bytes"
  noble_getPublicKey :: "bytes \<Rightarrow> bytes"
  noble_sign :: "bytes \<Rightarrow> bytes \<Rightarrow> bytes"
  noble_verify :: "bytes \<Rightarrow> bytes \<Rightarrow> bytes \<Rightarrow> bool option"
  noble_point :: "bytes \<Rightarrow> (bool \<times> bool) option"

definition sha256 :: "prims \<Rightarrow> bytes list \<Rightarrow> bytes" where
  "sha256 pr parts = noble_sha256 pr (concat parts)"

definition sha512 :: "prims \<Rightarrow> bytes list \<Rightarrow> bytes" where
  "sha512 pr parts = noble_sha512 pr (concat parts)"

definition ED25519_SECRET_KEY_LENGTH :: nat where
  "ED25519_SECRET_KEY_LENGTH = 32"
definition ED25519_PUBLIC_KEY_LENGTH :: nat where
  "ED25519_PUBLIC_KEY_LENGTH = 32"
definition ED25519_SIGNATURE_LENGTH :: nat where
  "ED25519_SIGNATURE_LENGTH = 64"

definition assertLength :: "bytes \<Rightarrow> nat \<Rightarrow> string \<Rightarrow> js_error + unit" where
  "assertLength v expected label =
     (if length v \<noteq> expected then Inl (RangeError (label @ '' must contain exactly the required bytes'')) else Inr ())"

text \<open>A point that decodes, is free of torsion and has no small order.\<close>

definition isAcceptablePublicKey :: "prims \<Rightarrow> bytes \<Rightarrow> bool" where
  "isAcceptablePublicKey pr v =
     (case noble_point pr v of None \<Rightarrow> False | Some (torsionFree, smallOrder) \<Rightarrow> torsionFree \<and> \<not> smallOrder)"

definition importEd25519SecretKey :: "bytes \<Rightarrow> js_error + bytes" where
  "importEd25519SecretKey v = rbind (assertLength v ED25519_SECRET_KEY_LENGTH ''Ed25519 secret key'') (\<lambda>_. Inr v)"

definition importEd25519PublicKey :: "prims \<Rightarrow> bytes \<Rightarrow> js_error + bytes" where
  "importEd25519PublicKey pr v =
     rbind (assertLength v ED25519_PUBLIC_KEY_LENGTH ''Ed25519 public key'') (\<lambda>_.
     if \<not> isAcceptablePublicKey pr v
     then Inl (TypeError ''Ed25519 public key is not a strict, prime-subgroup RFC 8032 point encoding'') else Inr v)"

definition deriveEd25519PublicKey :: "prims \<Rightarrow> bytes \<Rightarrow> js_error + bytes" where
  "deriveEd25519PublicKey pr sk =
     rbind (assertLength sk ED25519_SECRET_KEY_LENGTH ''Ed25519 secret key'') (\<lambda>_. Inr (noble_getPublicKey pr sk))"

definition signEd25519 :: "prims \<Rightarrow> bytes \<Rightarrow> bytes \<Rightarrow> js_error + bytes" where
  "signEd25519 pr message sk =
     rbind (assertLength sk ED25519_SECRET_KEY_LENGTH ''Ed25519 secret key'') (\<lambda>_. Inr (noble_sign pr message sk))"

definition verifyEd25519 :: "prims \<Rightarrow> bytes \<Rightarrow> bytes \<Rightarrow> bytes \<Rightarrow> bool" where
  "verifyEd25519 pr signature message publicKey =
     (if length signature \<noteq> ED25519_SIGNATURE_LENGTH \<or> length publicKey \<noteq> ED25519_PUBLIC_KEY_LENGTH \<or>
         \<not> isAcceptablePublicKey pr publicKey then False
      else case noble_verify pr signature message publicKey of None \<Rightarrow> False | Some ok \<Rightarrow> ok)"

section \<open>Random numbers\<close>

text \<open>
  A random source is a state and a function that fills a target of a given length. The
  rejection loop may run for ever, which is the value \<open>None\<close>.
\<close>

type_synonym 's source = "'s \<Rightarrow> nat \<Rightarrow> bytes \<times> 's"

definition UINT32_RANGE :: nat where
  "UINT32_RANGE = 0x100000000"

definition randomBytes :: "'s source \<Rightarrow> nat \<Rightarrow> 's \<Rightarrow> bytes \<times> 's" where
  "randomBytes fill len s = fill s len"

definition acceptanceLimit :: "nat \<Rightarrow> nat" where
  "acceptanceLimit upper = UINT32_RANGE - UINT32_RANGE mod upper"

text \<open>The little-endian number, reduced to 32 bits by the unsigned shift.\<close>

definition candidate32 :: "bytes \<Rightarrow> nat" where
  "candidate32 b = (unat (b ! 0) + unat (b ! 1) * 0x100 + unat (b ! 2) * 0x10000 + unat (b ! 3) * 0x1000000) mod 2 ^ 32"

partial_function (option) drawBelow :: "'s source \<Rightarrow> nat \<Rightarrow> 's \<Rightarrow> (nat \<times> 's) option" where
  "drawBelow fill upper s =
     (let (b, s') = randomBytes fill 4 s; candidate = candidate32 b in
      if candidate < acceptanceLimit upper then Some (candidate mod upper, s') else drawBelow fill upper s')"

definition randomUint32Below :: "'s source \<Rightarrow> nat \<Rightarrow> 's \<Rightarrow> js_error + (nat \<times> 's) option" where
  "randomUint32Below fill upper s =
     (if upper < 1 \<or> upper > UINT32_RANGE then Inl (RangeError ''Upper bound must be an integer from 1 through 2^32'')
      else Inr (drawBelow fill upper s))"

definition swap_at :: "nat \<Rightarrow> nat \<Rightarrow> 'a list \<Rightarrow> 'a list" where
  "swap_at i j xs = (xs[i := xs ! j])[j := xs ! i]"

text \<open>The shuffle loop: positions \<open>index\<close> down to 1, each swapped with a drawn lower position.\<close>

fun permute_from :: "'s source \<Rightarrow> nat \<Rightarrow> nat list \<Rightarrow> 's \<Rightarrow> js_error + (nat list \<times> 's) option" where
  "permute_from fill 0 permutation s = Inr (Some (permutation, s))"
| "permute_from fill (Suc index) permutation s =
     rbind (randomUint32Below fill (Suc index + 1) s) (\<lambda>draw.
     case draw of
       None \<Rightarrow> Inr None
     | Some (swapIndex, s') \<Rightarrow> permute_from fill index (swap_at (Suc index) swapIndex permutation) s')"

definition randomPermutation :: "'s source \<Rightarrow> nat \<Rightarrow> 's \<Rightarrow> js_error + (nat list \<times> 's) option" where
  "randomPermutation fill sz s =
     (if sz > 0xffffffff then Inl (RangeError ''Permutation size must be an integer from 0 through 2^32 - 1'')
      else permute_from fill (sz - 1) [0..<sz] s)"

section \<open>Comparison and hexadecimal text\<close>

lemma xor_difference_zero:
  "length xs = length ys \<Longrightarrow> xor_difference d xs ys = 0 \<longleftrightarrow> d = 0 \<and> xs = ys"
proof (induction d xs ys rule: xor_difference.induct)
  case (1 d x xs y ys)
  have "or d (xor x y) = 0 \<longleftrightarrow> d = 0 \<and> x = y" by (simp add: or_eq_0_iff xor_self_eq bit_eq_iff bit_or_iff bit_xor_iff) (auto simp: bit_eq_iff)
  with 1 show ?case by auto
qed auto

lemma bytesEqual_iff [simp]: "bytesEqual left right \<longleftrightarrow> left = right"
  by (auto simp: bytesEqual_def xor_difference_zero)

lemma hexValue_hexDigit [simp]: "n < 16 \<Longrightarrow> hexValue (hexDigit n) = Some n"
  by (auto simp: hexValue_def hexDigit_def Let_def)

lemma hex_halves [simp]: "unat (b :: byte) div 16 < 16" "unat b mod 16 < 16"
proof -
  have "unat b < 2 ^ LENGTH(8)" by (rule unsigned_less)
  then show "unat b div 16 < 16" by (simp add: less_mult_imp_div_less)
qed simp

lemma hexPairs_byteHex [simp]: "hexPairs (byteHex b @ s) = b # hexPairs s"
  by (simp add: byteHex_def)

lemma hexPairs_bytesToHex: "hexPairs (bytesToHex b) = b"
  by (induction b) (simp_all add: bytesToHex_def)

lemma bytesToHex_inject [simp]: "bytesToHex a = bytesToHex b \<longleftrightarrow> a = b"
  by (metis hexPairs_bytesToHex)

lemma length_bytesToHex [simp]: "length (bytesToHex b) = 2 * length b"
  by (induction b) (simp_all add: bytesToHex_def byteHex_def)

lemma bytesToHex_digits: "list_all (\<lambda>c. hexValue c \<noteq> None) (bytesToHex b)"
  by (induction b) (simp_all add: bytesToHex_def byteHex_def)

text \<open>The hexadecimal text of a byte string reads back as that byte string, and the constant-time
  comparison is equality.\<close>

theorem hex_roundtrip:
  "hexToBytes (bytesToHex b) = Inr b \<and> (bytesEqual a b \<longleftrightarrow> bytesToHex a = bytesToHex b)"
  using bytesToHex_digits [of b] by (simp add: hexToBytes_def hexPairs_bytesToHex)

section \<open>Random numbers\<close>

lemma acceptanceLimit_eq: "acceptanceLimit upper = UINT32_RANGE div upper * upper"
  unfolding acceptanceLimit_def by (metis minus_mod_eq_div_mult)

lemma card_residue_class:
  assumes "r < n"
  shows "card {c. c < k * n \<and> c mod n = r} = (k :: nat)"
proof -
  have "{c. c < k * n \<and> c mod n = r} = (\<lambda>q. q * n + r) ` {..<k}"
  proof (intro equalityI subsetI)
    fix c assume "c \<in> {c. c < k * n \<and> c mod n = r}"
    then have "c = (c div n) * n + r" "c div n < k" by (auto simp: less_mult_imp_div_less)
    then show "c \<in> (\<lambda>q. q * n + r) ` {..<k}" by blast
  next
    fix c assume "c \<in> (\<lambda>q. q * n + r) ` {..<k}"
    then obtain q where q: "c = q * n + r" "q < k" by blast
    have "q * n + r < Suc q * n" using assms by simp
    also have "\<dots> \<le> k * n" using q(2) by (intro mult_le_mono1) simp
    finally show "c \<in> {c. c < k * n \<and> c mod n = r}" using q(1) assms by simp
  qed
  moreover have "inj_on (\<lambda>q. q * n + r) {..<k}" using assms by (auto simp: inj_on_def)
  ultimately show ?thesis by (simp add: card_image)
qed

lemma drawBelow_bound:
  assumes "drawBelow fill upper s = Some r" "0 < upper"
  shows "fst r < upper"
proof -
  have "0 < upper \<longrightarrow> fst r < upper"
    using assms(1)
    by (rule drawBelow.raw_induct [where P = "\<lambda>fill upper s r. 0 < upper \<longrightarrow> fst r < upper", rotated])
      (auto simp: Let_def split: prod.splits if_splits)
  with assms(2) show ?thesis by simp
qed

definition after_draws :: "'s source \<Rightarrow> nat \<Rightarrow> 's \<Rightarrow> 's" where
  "after_draws fill n = (\<lambda>s. snd (fill s 4)) ^^ n"

lemma drawBelow_returns:
  assumes "candidate32 (fst (fill (after_draws fill n s) 4)) < acceptanceLimit upper"
  shows "\<exists>r. drawBelow fill upper s = Some r"
  using assms
proof (induction n arbitrary: s)
  case 0
  then show ?case by (subst drawBelow.simps) (auto simp: after_draws_def randomBytes_def Let_def split: prod.splits)
next
  case (Suc n)
  then have "\<exists>r. drawBelow fill upper (snd (fill s 4)) = Some r"
    by (simp add: after_draws_def funpow_Suc_right del: funpow.simps)
  then show ?case by (subst drawBelow.simps) (auto simp: randomBytes_def Let_def split: prod.splits)
qed

text \<open>A bounded random number is in range and unbiased. A drawn number is below the bound; for
  every possible result the number of accepted 32-bit candidates that give it is the same; and the
  loop returns as soon as the source produces an accepted candidate.\<close>

theorem randomUint32Below_unbiased:
  assumes "1 \<le> upper" "upper \<le> UINT32_RANGE"
  shows "randomUint32Below fill upper s = Inr (drawBelow fill upper s) \<and>
    (\<forall>x s'. drawBelow fill upper s = Some (x, s') \<longrightarrow> x < upper) \<and>
    (\<forall>r < upper. card {c. c < acceptanceLimit upper \<and> c mod upper = r} = UINT32_RANGE div upper) \<and>
    ((\<exists>n. candidate32 (fst (fill (after_draws fill n s) 4)) < acceptanceLimit upper) \<longrightarrow>
       (\<exists>x s'. drawBelow fill upper s = Some (x, s')))"
proof (intro conjI allI impI)
  show "randomUint32Below fill upper s = Inr (drawBelow fill upper s)"
    using assms by (simp add: randomUint32Below_def)
next
  fix x s' assume "drawBelow fill upper s = Some (x, s')"
  then show "x < upper" using drawBelow_bound [of fill upper s "(x, s')"] assms(1) by simp
next
  fix r assume "r < upper"
  then show "card {c. c < acceptanceLimit upper \<and> c mod upper = r} = UINT32_RANGE div upper"
    unfolding acceptanceLimit_eq by (rule card_residue_class)
next
  assume "\<exists>n. candidate32 (fst (fill (after_draws fill n s) 4)) < acceptanceLimit upper"
  then show "\<exists>x s'. drawBelow fill upper s = Some (x, s')" using drawBelow_returns by (metis surj_pair)
qed

text \<open>A source that repeats one byte, for the examples.\<close>

definition constant_source :: "byte \<Rightarrow> unit source" where
  "constant_source b s n = (replicate n b, ())"

theorem randomUint32Below_unbiased_example:
  "randomUint32Below (constant_source 5) 6 () = Inr (drawBelow (constant_source 5) 6 ()) \<and>
   (\<exists>x s'. drawBelow (constant_source 5) 6 () = Some (x, s'))"
proof -
  have "candidate32 (fst (constant_source 5 (after_draws (constant_source 5) 0 ()) 4)) < acceptanceLimit 6"
    by (simp add: candidate32_def constant_source_def acceptanceLimit_def UINT32_RANGE_def)
  then show ?thesis
    using randomUint32Below_unbiased [of 6 "constant_source 5" "()"] by (auto simp: UINT32_RANGE_def)
qed

section \<open>Permutations\<close>

lemma mset_swap_at: "i < length xs \<Longrightarrow> j < length xs \<Longrightarrow> mset (swap_at i j xs) = mset xs"
  unfolding swap_at_def by (rule mset_swap)

lemma length_swap_at [simp]: "length (swap_at i j xs) = length xs"
  by (simp add: swap_at_def)

lemma permute_from_mset:
  "permute_from fill index xs s = Inr (Some (ys, s')) \<Longrightarrow> index < length xs \<or> index = 0 \<Longrightarrow> mset ys = mset xs"
proof (induction fill index xs s rule: permute_from.induct)
  case (2 fill index xs s)
  from 2(2) obtain j s1 where d: "randomUint32Below fill (Suc index + 1) s = Inr (Some (j, s1))"
    and r: "permute_from fill index (swap_at (Suc index) j xs) s1 = Inr (Some (ys, s'))"
    by (auto simp: result_simps split: option.splits)
  have "j < Suc index + 1"
    using d drawBelow_bound [of fill "Suc index + 1" s "(j, s1)"] by (auto simp: randomUint32Below_def split: if_splits)
  with 2 d r show ?case by (auto simp: mset_swap_at)
qed auto

text \<open>The shuffle returns a permutation: each position below the size occurs exactly once.\<close>

theorem randomPermutation_permutes:
  assumes "randomPermutation fill n s = Inr (Some (ys, s'))"
  shows "mset ys = mset [0..<n] \<and> distinct ys \<and> set ys = {0..<n}"
proof -
  have m: "mset ys = mset [0..<n]"
    using assms permute_from_mset [of fill "n - 1" "[0..<n]" s ys s']
    by (cases n) (auto simp: randomPermutation_def split: if_splits)
  then show ?thesis by (metis distinct_upt mset_eq_imp_distinct_iff mset_eq_setD set_upt)
qed


lemma example_permutation: "randomPermutation (constant_source 6) 2 () = Inr (Some ([1, 0], ()))"
proof -
  have "drawBelow (constant_source 6) 2 () = Some (0, ())"
    by (subst drawBelow.simps)
      (simp add: randomBytes_def constant_source_def candidate32_def acceptanceLimit_def UINT32_RANGE_def)
  then show ?thesis
    by (simp add: randomPermutation_def randomUint32Below_def UINT32_RANGE_def swap_at_def upt_rec numeral_2_eq_2 [symmetric])
qed

theorem randomPermutation_permutes_example:
  "mset [1, 0] = mset [0..<2] \<and> distinct [1, 0::nat] \<and> set [1, 0] = {0..<2::nat}"
  by (rule randomPermutation_permutes [OF example_permutation])

end
