(* ===== verification/Protocol_Envelope.thy ===== *)
theory Protocol_Envelope
  imports Crypto_Bytes
begin

text \<open>
  \<^verbatim>\<open>packages/protocol\<close>: the schema helpers (\<open>schema.ts\<close>), the fixed-size fields (\<open>fields.ts\<close>), domain
  separation and hash inputs (\<open>domains.ts\<close>, \<open>hash-inputs.ts\<close>), and the signed envelope that every
  message travels in (\<open>envelope.ts\<close>). A field that was parsed once is a byte string of the right
  length; the defensive copies the code makes of such a field are the identity.
\<close>

section \<open>Errors\<close>

datatype EnvelopeValidationErrorCode =
  INVALID_SIGNATURE | MALFORMED_ENVELOPE | SENDER_KEY_MISMATCH | UNSUPPORTED_VERSION

datatype protocol_error =
    ProtocolSchemaError string string
  | ProtocolFieldError string string
  | EnvelopeValidationError EnvelopeValidationErrorCode string
  | CborError CanonicalCborErrorCode
  | JsError js_error

abbreviation cborTry :: "CanonicalCborErrorCode + 'a \<Rightarrow> protocol_error + 'a" where
  "cborTry r \<equiv> catch_as r CborError"

abbreviation jsTry :: "js_error + 'a \<Rightarrow> protocol_error + 'a" where
  "jsTry r \<equiv> catch_as r JsError"

section \<open>Schema helpers\<close>

definition has_exactly :: "(ustr \<times> jsval) list \<Rightarrow> string list \<Rightarrow> bool" where
  "has_exactly ps ks \<longleftrightarrow> \<not> (length ps \<noteq> length ks \<or> list_ex (\<lambda>k. map_of ps (ascii k) = None) ks)"

definition isCborMap :: "CborValue \<Rightarrow> (ustr \<times> jsval) list option" where
  "isCborMap v = (case v of JObject ps \<Rightarrow> Some ps | _ \<Rightarrow> None)"

definition expectExactMap :: "CborValue \<Rightarrow> string list \<Rightarrow> string \<Rightarrow> protocol_error + (ustr \<times> jsval) list" where
  "expectExactMap v expectedKeys path =
     (case isCborMap v of
        None \<Rightarrow> Inl (ProtocolSchemaError path ''must be a CBOR map'')
      | Some ps \<Rightarrow> if \<not> has_exactly ps expectedKeys
                   then Inl (ProtocolSchemaError path ''fields must be exactly the expected keys'') else Inr ps)"

definition expectArray :: "CborValue \<Rightarrow> string \<Rightarrow> protocol_error + jsval list" where
  "expectArray v path = (case v of JArray vs \<Rightarrow> Inr vs | _ \<Rightarrow> Inl (ProtocolSchemaError path ''must be an array''))"

definition expectByteString :: "CborValue \<Rightarrow> string \<Rightarrow> protocol_error + bytes" where
  "expectByteString v path =
     (case v of JBytes b \<Rightarrow> Inr b | _ \<Rightarrow> Inl (ProtocolSchemaError path ''must be a byte string''))"

definition expectUnsignedInteger :: "CborValue \<Rightarrow> string \<Rightarrow> int \<Rightarrow> protocol_error + nat" where
  "expectUnsignedInteger v path maximum =
     (case v of
        JNumber n \<Rightarrow> if \<not> isSafeInteger n \<or> numval n < 0 \<or> numval n > maximum
                     then Inl (ProtocolSchemaError path ''must be an unsigned integer no greater than the maximum'')
                     else Inr (nat (numval n))
      | _ \<Rightarrow> Inl (ProtocolSchemaError path ''must be an unsigned integer no greater than the maximum''))"

definition expectNonEmptyText :: "CborValue \<Rightarrow> string \<Rightarrow> protocol_error + ustr" where
  "expectNonEmptyText v path =
     (case v of
        JString s \<Rightarrow> if length s = 0 then Inl (ProtocolSchemaError path ''must be a non-empty text string'') else Inr s
      | _ \<Rightarrow> Inl (ProtocolSchemaError path ''must be a non-empty text string''))"

section \<open>Fixed-size fields\<close>

definition parseFixedBytes :: "jsval \<Rightarrow> nat \<Rightarrow> string \<Rightarrow> protocol_error + bytes" where
  "parseFixedBytes v len name =
     (case v of
        JBytes b \<Rightarrow> if length b \<noteq> len then Inl (ProtocolFieldError name ''must contain exactly the required bytes'')
                    else Inr b
      | _ \<Rightarrow> Inl (ProtocolFieldError name ''must be a Uint8Array''))"

definition parseGameId :: "jsval \<Rightarrow> protocol_error + bytes" where
  "parseGameId v = parseFixedBytes v 16 ''game_id''"
definition parseIdentityPublicKey :: "jsval \<Rightarrow> protocol_error + bytes" where
  "parseIdentityPublicKey v = parseFixedBytes v 32 ''identity_public_key''"
definition parseHash256 :: "jsval \<Rightarrow> protocol_error + bytes" where
  "parseHash256 v = parseFixedBytes v 32 ''sha256_digest''"
definition parseDtlsFingerprint :: "jsval \<Rightarrow> protocol_error + bytes" where
  "parseDtlsFingerprint v = parseFixedBytes v 32 ''dtls_sha256_fingerprint''"
definition parseRandomSecret :: "jsval \<Rightarrow> protocol_error + bytes" where
  "parseRandomSecret v = parseFixedBytes v 32 ''random_secret''"
definition parseEd25519Signature :: "jsval \<Rightarrow> protocol_error + bytes" where
  "parseEd25519Signature v = parseFixedBytes v 64 ''ed25519_signature''"

section \<open>Domains and hash inputs\<close>

datatype DomainPurpose =
  RoomD | ChannelD | MessageD | CardD | ProofOfPossessionD | DecryptionShareD | ShuffleD | BeaconD

fun DOMAIN_SEPARATORS :: "DomainPurpose \<Rightarrow> string" where
  "DOMAIN_SEPARATORS RoomD = ''p2pcards/v1/room''"
| "DOMAIN_SEPARATORS ChannelD = ''p2pcards/v1/chan''"
| "DOMAIN_SEPARATORS MessageD = ''p2pcards/v1/msg''"
| "DOMAIN_SEPARATORS CardD = ''p2pcards/v1/card''"
| "DOMAIN_SEPARATORS ProofOfPossessionD = ''p2pcards/v1/pop''"
| "DOMAIN_SEPARATORS DecryptionShareD = ''p2pcards/v1/dleq''"
| "DOMAIN_SEPARATORS ShuffleD = ''p2pcards/v1/shuffle''"
| "DOMAIN_SEPARATORS BeaconD = ''p2pcards/v1/beacon''"

text \<open>The separators are ASCII, so the conversion never throws (\<open>domainSeparator_ok\<close>).\<close>

definition domainSeparator :: "DomainPurpose \<Rightarrow> bytes" where
  "domainSeparator purpose = (case asciiToBytes (ascii (DOMAIN_SEPARATORS purpose)) of Inl _ \<Rightarrow> [] | Inr b \<Rightarrow> b)"

definition deriveSignalingRoomId :: "prims \<Rightarrow> bytes \<Rightarrow> bytes" where
  "deriveSignalingRoomId pr gameId = sha256 pr [domainSeparator RoomD, gameId]"

definition channelAuthenticationInput :: "bytes \<Rightarrow> bytes \<Rightarrow> bytes \<Rightarrow> bytes" where
  "channelAuthenticationInput gameId localFingerprint remoteFingerprint =
     concatBytes [domainSeparator ChannelD, gameId, localFingerprint, remoteFingerprint]"

definition envelopeSignatureInput :: "bytes \<Rightarrow> bytes" where
  "envelopeSignatureInput unsignedBytes = concatBytes [domainSeparator MessageD, unsignedBytes]"

definition hashEnvelope :: "prims \<Rightarrow> bytes \<Rightarrow> bytes" where
  "hashEnvelope pr canonicalBytes = sha256 pr [canonicalBytes]"

definition requireUnsignedSafeInteger :: "jsnum \<Rightarrow> string \<Rightarrow> protocol_error + unit" where
  "requireUnsignedSafeInteger n label =
     (if \<not> isSafeInteger n \<or> numval n < 0 then Inl (JsError (RangeError (label @ '' must be an unsigned safe integer'')))
      else Inr ())"

definition requireSeat :: "jsnum \<Rightarrow> protocol_error + unit" where
  "requireSeat n =
     (if n = JNonInteger \<or> numval n < 0 \<or> numval n > 7
      then Inl (JsError (RangeError ''seat must be an integer from 0 through 7'')) else Inr ())"

definition requireText :: "ustr \<Rightarrow> string \<Rightarrow> protocol_error + unit" where
  "requireText s label = (if length s = 0 then Inl (JsError (TypeError (label @ '' must be a non-empty text string''))) else Inr ())"

definition cardDerivationHash :: "prims \<Rightarrow> ustr \<Rightarrow> ustr \<Rightarrow> protocol_error + bytes" where
  "cardDerivationHash pr deckSpecId cardId =
     rbind (requireText deckSpecId ''deckSpecId'') (\<lambda>_.
     rbind (requireText cardId ''cardId'') (\<lambda>_.
     rbind (cborTry (encodeCanonical pr (JString deckSpecId))) (\<lambda>d.
     rbind (cborTry (encodeCanonical pr (JString cardId))) (\<lambda>c.
     Inr (sha512 pr [domainSeparator CardD, d, c])))))"

definition beaconCommitment :: "prims \<Rightarrow> bytes \<Rightarrow> jsnum \<Rightarrow> jsnum \<Rightarrow> bytes \<Rightarrow> protocol_error + bytes" where
  "beaconCommitment pr gameId round seat secret =
     rbind (requireUnsignedSafeInteger round ''round'') (\<lambda>_.
     rbind (requireSeat seat) (\<lambda>_.
     rbind (cborTry (encodeCanonical pr (JNumber round))) (\<lambda>r.
     rbind (cborTry (encodeCanonical pr (JNumber seat))) (\<lambda>s.
     Inr (sha256 pr [domainSeparator BeaconD, gameId, r, s, secret])))))"

definition proofChallengeInput ::
    "prims \<Rightarrow> DomainPurpose \<Rightarrow> bytes \<Rightarrow> jsnum \<Rightarrow> ustr \<Rightarrow> CborValue \<Rightarrow> protocol_error + bytes" where
  "proofChallengeInput pr purpose gameId round phase statement =
     rbind (requireUnsignedSafeInteger round ''round'') (\<lambda>_.
     rbind (requireText phase ''phase'') (\<lambda>_.
     rbind (cborTry (encodeCanonical pr (JNumber round))) (\<lambda>r.
     rbind (cborTry (encodeCanonical pr (JString phase))) (\<lambda>p.
     rbind (cborTry (encodeCanonical pr statement)) (\<lambda>s.
     Inr (concatBytes [domainSeparator purpose, gameId, r, p, s]))))))"

definition framedDomainInput :: "prims \<Rightarrow> DomainPurpose \<Rightarrow> CborValue list \<Rightarrow> protocol_error + bytes" where
  "framedDomainInput pr purpose vs =
     rbind (mapM_res (\<lambda>v. cborTry (encodeCanonical pr v)) vs) (\<lambda>parts.
     Inr (concatBytes (domainSeparator purpose # parts)))"

section \<open>Envelopes\<close>

definition ENVELOPE_VERSION :: nat where
  "ENVELOPE_VERSION = 1"

datatype EnvelopeMessageType =
  JOIN | ROSTER | READY | KEY_SHARE | RAND_COMMIT | RAND_REVEAL | SHUFFLE | SHARES | ACTION
  | AUDIT_DISCLOSE | WITNESS | SYNC_REQ | SYNC_RESP | TIMEOUT_VOTE | VIOLATION

definition ENVELOPE_MESSAGE_TYPES :: "(EnvelopeMessageType \<times> string) list" where
  "ENVELOPE_MESSAGE_TYPES =
     [(JOIN, ''JOIN''), (ROSTER, ''ROSTER''), (READY, ''READY''), (KEY_SHARE, ''KEY_SHARE''),
      (RAND_COMMIT, ''RAND_COMMIT''), (RAND_REVEAL, ''RAND_REVEAL''), (SHUFFLE, ''SHUFFLE''), (SHARES, ''SHARES''),
      (ACTION, ''ACTION''), (AUDIT_DISCLOSE, ''AUDIT_DISCLOSE''), (WITNESS, ''WITNESS''), (SYNC_REQ, ''SYNC_REQ''),
      (SYNC_RESP, ''SYNC_RESP''), (TIMEOUT_VOTE, ''TIMEOUT_VOTE''), (VIOLATION, ''VIOLATION'')]"

definition typeText :: "EnvelopeMessageType \<Rightarrow> string" where
  "typeText t = the (map_of ENVELOPE_MESSAGE_TYPES t)"

record UnsignedEnvelope =
  env_v :: nat
  env_game :: bytes
  env_from :: bytes
  env_seq :: nat
  env_prev :: bytes
  env_round :: nat
  env_phase :: ustr
  env_type :: EnvelopeMessageType
  env_body :: CborValue

record SignedEnvelope = UnsignedEnvelope +
  env_sig :: bytes

record EnvelopeArtifact =
  art_envelope :: SignedEnvelope
  art_canonicalBytes :: bytes
  art_hash :: bytes

definition UNSIGNED_KEYS :: "string list" where
  "UNSIGNED_KEYS = [''v'', ''game'', ''from'', ''seq'', ''prev'', ''round'', ''phase'', ''type'', ''body'']"

definition SIGNED_KEYS :: "string list" where
  "SIGNED_KEYS = UNSIGNED_KEYS @ [''sig'']"

abbreviation malformed :: "string \<Rightarrow> protocol_error + 'a" where
  "malformed msg \<equiv> Inl (EnvelopeValidationError MALFORMED_ENVELOPE msg)"

definition requireExactMap :: "CborValue \<Rightarrow> string list \<Rightarrow> protocol_error + (ustr \<times> jsval) list" where
  "requireExactMap v expectedKeys =
     (case isCborMap v of
        None \<Rightarrow> malformed ''Envelope must be a CBOR map''
      | Some ps \<Rightarrow> if \<not> has_exactly ps expectedKeys then malformed ''Envelope fields must be exactly the expected keys''
                   else Inr ps)"

definition requireUnsignedInteger :: "CborValue \<Rightarrow> string \<Rightarrow> protocol_error + nat" where
  "requireUnsignedInteger v name =
     (case v of
        JNumber n \<Rightarrow> if \<not> isSafeInteger n \<or> numval n < 0 then malformed (name @ '' must be an unsigned safe integer'')
                     else Inr (nat (numval n))
      | _ \<Rightarrow> malformed (name @ '' must be an unsigned safe integer''))"

definition requireNonEmptyText :: "CborValue \<Rightarrow> string \<Rightarrow> protocol_error + ustr" where
  "requireNonEmptyText v name =
     (case v of
        JString s \<Rightarrow> if length s = 0 then malformed (name @ '' must be a non-empty text string'') else Inr s
      | _ \<Rightarrow> malformed (name @ '' must be a non-empty text string''))"

definition requireMessageType :: "CborValue \<Rightarrow> protocol_error + EnvelopeMessageType" where
  "requireMessageType v =
     (case v of
        JString s \<Rightarrow> (case find (\<lambda>t. ascii (snd t) = s) ENVELOPE_MESSAGE_TYPES of
            None \<Rightarrow> malformed ''type is not a version 1 envelope message type'' | Some t \<Rightarrow> Inr (fst t))
      | _ \<Rightarrow> malformed ''type is not a version 1 envelope message type'')"

definition snapshotCborValue :: "prims \<Rightarrow> CborValue \<Rightarrow> protocol_error + CborValue" where
  "snapshotCborValue pr v = cborTry (rbind (encodeCanonical pr v) (decodeCanonical pr))"

abbreviation jnat :: "nat \<Rightarrow> jsval" where
  "jnat n \<equiv> JNumber (JInt (int n))"

definition unsigned_fields :: "'z UnsignedEnvelope_scheme \<Rightarrow> (ustr \<times> jsval) list" where
  "unsigned_fields e =
     [(ascii ''v'', jnat (env_v e)), (ascii ''game'', JBytes (env_game e)), (ascii ''from'', JBytes (env_from e)),
      (ascii ''seq'', jnat (env_seq e)), (ascii ''prev'', JBytes (env_prev e)), (ascii ''round'', jnat (env_round e)),
      (ascii ''phase'', JString (env_phase e)), (ascii ''type'', JString (ascii (typeText (env_type e)))),
      (ascii ''body'', env_body e)]"

definition toUnsignedValue :: "'z UnsignedEnvelope_scheme \<Rightarrow> CborValue" where
  "toUnsignedValue e = JObject (unsigned_fields e)"

definition toSignedValue :: "SignedEnvelope \<Rightarrow> CborValue" where
  "toSignedValue e = JObject (unsigned_fields e @ [(ascii ''sig'', JBytes (env_sig e))])"

definition copyWithoutSignature :: "(ustr \<times> jsval) list \<Rightarrow> (ustr \<times> jsval) list" where
  "copyWithoutSignature ps = map (\<lambda>k. (ascii k, get_prop ps k)) UNSIGNED_KEYS"

definition parseUnsignedEnvelope :: "prims \<Rightarrow> CborValue \<Rightarrow> protocol_error + UnsignedEnvelope" where
  "parseUnsignedEnvelope pr v =
     rbind (requireExactMap v UNSIGNED_KEYS) (\<lambda>ps.
     rbind (requireUnsignedInteger (get_prop ps ''v'') ''v'') (\<lambda>version.
     if version \<noteq> ENVELOPE_VERSION
     then Inl (EnvelopeValidationError UNSUPPORTED_VERSION ''Unsupported envelope version'')
     else
     rbind (parseGameId (get_prop ps ''game'')) (\<lambda>game.
     rbind (parseIdentityPublicKey (get_prop ps ''from'')) (\<lambda>from.
     rbind (requireUnsignedInteger (get_prop ps ''seq'') ''seq'') (\<lambda>seq.
     rbind (parseHash256 (get_prop ps ''prev'')) (\<lambda>prev.
     rbind (requireUnsignedInteger (get_prop ps ''round'') ''round'') (\<lambda>round.
     rbind (requireNonEmptyText (get_prop ps ''phase'') ''phase'') (\<lambda>phase.
     rbind (requireMessageType (get_prop ps ''type'')) (\<lambda>type.
     rbind (snapshotCborValue pr (get_prop ps ''body'')) (\<lambda>body.
     Inr \<lparr>env_v = ENVELOPE_VERSION, env_game = game, env_from = from, env_seq = seq, env_prev = prev,
          env_round = round, env_phase = phase, env_type = type, env_body = body\<rparr>))))))))))"

definition withSignature :: "UnsignedEnvelope \<Rightarrow> bytes \<Rightarrow> SignedEnvelope" where
  "withSignature e sig = UnsignedEnvelope.extend e (SignedEnvelope.fields sig)"

definition parseSignedEnvelope :: "prims \<Rightarrow> CborValue \<Rightarrow> protocol_error + SignedEnvelope" where
  "parseSignedEnvelope pr v =
     rbind (requireExactMap v SIGNED_KEYS) (\<lambda>ps.
     rbind (parseUnsignedEnvelope pr (JObject (copyWithoutSignature ps))) (\<lambda>unsigned.
     rbind (parseEd25519Signature (get_prop ps ''sig'')) (\<lambda>sig.
     Inr (withSignature unsigned sig))))"

definition createArtifact :: "prims \<Rightarrow> SignedEnvelope \<Rightarrow> protocol_error + EnvelopeArtifact" where
  "createArtifact pr e =
     rbind (cborTry (encodeCanonical pr (toSignedValue e))) (\<lambda>canonicalBytes.
     rbind (parseHash256 (JBytes (hashEnvelope pr canonicalBytes))) (\<lambda>h.
     Inr \<lparr>art_envelope = e, art_canonicalBytes = canonicalBytes, art_hash = h\<rparr>))"

definition encodeUnsignedEnvelope :: "prims \<Rightarrow> UnsignedEnvelope \<Rightarrow> protocol_error + bytes" where
  "encodeUnsignedEnvelope pr v =
     rbind (parseUnsignedEnvelope pr (toUnsignedValue v)) (\<lambda>e. cborTry (encodeCanonical pr (toUnsignedValue e)))"

definition signEnvelope :: "prims \<Rightarrow> UnsignedEnvelope \<Rightarrow> bytes \<Rightarrow> protocol_error + EnvelopeArtifact" where
  "signEnvelope pr v secretKey =
     rbind (parseUnsignedEnvelope pr (toUnsignedValue v)) (\<lambda>e.
     rbind (jsTry (deriveEd25519PublicKey pr secretKey)) (\<lambda>signerPublicKey.
     if \<not> bytesEqual (env_from e) signerPublicKey
     then Inl (EnvelopeValidationError SENDER_KEY_MISMATCH ''Envelope sender does not match the signing key'')
     else
     rbind (cborTry (encodeCanonical pr (toUnsignedValue e))) (\<lambda>unsignedBytes.
     rbind (jsTry (signEd25519 pr (envelopeSignatureInput unsignedBytes) secretKey)) (\<lambda>raw.
     rbind (parseEd25519Signature (JBytes raw)) (\<lambda>signature.
     createArtifact pr (withSignature e signature))))))"

definition decodeAndVerifyEnvelope :: "prims \<Rightarrow> bytes \<Rightarrow> protocol_error + EnvelopeArtifact" where
  "decodeAndVerifyEnvelope pr b =
     rbind (catch_as (rbind (cborTry (decodeCanonical pr b)) (parseSignedEnvelope pr))
              (\<lambda>cause. case cause of EnvelopeValidationError c m \<Rightarrow> cause
                 | _ \<Rightarrow> EnvelopeValidationError MALFORMED_ENVELOPE ''Envelope decoding failed'')) (\<lambda>e.
     rbind (cborTry (encodeCanonical pr (toUnsignedValue e))) (\<lambda>unsignedBytes.
     if \<not> verifyEd25519 pr (env_sig e) (envelopeSignatureInput unsignedBytes) (env_from e)
     then Inl (EnvelopeValidationError INVALID_SIGNATURE ''Envelope signature is invalid'')
     else createArtifact pr e))"

end
