(* ===== verification/Protocol_Envelope_Props.thy ===== *)
theory Protocol_Envelope_Props
  imports Protocol_Envelope
begin

text \<open>
  Envelopes: domain separation of what is hashed and signed, that a verified envelope is
  the canonical, correctly signed form of its content, and that a signed envelope verifies.
\<close>

section \<open>Domain separation\<close>

lemma domainSeparator_ok:
  "asciiToBytes (ascii (DOMAIN_SEPARATORS purpose)) = Inr (domainSeparator purpose)"
  by (cases purpose) (simp_all add: domainSeparator_def asciiToBytes_def ascii_def)

text \<open>The separators share twelve bytes; the next two tell them apart.\<close>

definition purpose_of :: "bytes \<Rightarrow> DomainPurpose" where
  "purpose_of b =
     (if b ! 12 = 0x72 then RoomD else if b ! 12 = 0x6d then MessageD else if b ! 12 = 0x70 then ProofOfPossessionD
      else if b ! 12 = 0x64 then DecryptionShareD else if b ! 12 = 0x73 then ShuffleD
      else if b ! 12 = 0x62 then BeaconD else if b ! 13 = 0x68 then ChannelD else CardD)"

lemma purpose_of_separator: "purpose_of (domainSeparator p @ x) = p"
  by (cases p) (simp_all add: purpose_of_def domainSeparator_def asciiToBytes_def ascii_def)

text \<open>Inputs built for different purposes never coincide, whatever follows the separator.\<close>

theorem domain_separation:
  "domainSeparator p @ x = domainSeparator q @ y \<longleftrightarrow> p = q \<and> x = y"
  using purpose_of_separator by (metis same_append_eq)

section \<open>Reading fields\<close>

lemma parseFixedBytes_Inr [simp]: "parseFixedBytes v n name = Inr b \<longleftrightarrow> v = JBytes b \<and> length b = n"
  by (auto simp: parseFixedBytes_def split: jsval.splits if_splits)

lemmas field_defs = parseGameId_def parseIdentityPublicKey_def parseHash256_def parseDtlsFingerprint_def
  parseRandomSecret_def parseEd25519Signature_def

definition safe_nat :: "nat \<Rightarrow> bool" where
  "safe_nat n \<longleftrightarrow> int n \<le> MAX_SAFE_INTEGER"

lemma requireUnsignedInteger_Inr:
  "requireUnsignedInteger v name = Inr n \<longleftrightarrow> safe_nat n \<and> (v = jnat n \<or> v = JNumber JNegZero \<and> n = 0)"
proof -
  have *: "requireUnsignedInteger (JNumber m) name = Inr n \<longleftrightarrow> safe_nat n \<and> (m = JInt (int n) \<or> m = JNegZero \<and> n = 0)" for m
    by (cases m) (auto simp: requireUnsignedInteger_def safe_nat_def MAX_SAFE_INTEGER_def)
  show ?thesis by (cases v) (auto simp: *, auto simp: requireUnsignedInteger_def)
qed

lemma requireNonEmptyText_Inr: "requireNonEmptyText v name = Inr s \<longleftrightarrow> v = JString s \<and> s \<noteq> []"
  by (auto simp: requireNonEmptyText_def split: jsval.splits if_splits)

lemma requireMessageType_text: "requireMessageType (JString (ascii (typeText t))) = Inr t"
  by (cases t) (simp_all add: requireMessageType_def typeText_def ENVELOPE_MESSAGE_TYPES_def)

lemma typeText_inject [simp]: "typeText a = typeText b \<longleftrightarrow> a = b"
  using requireMessageType_text by (metis sum.inject(2))

lemma typeText_of_entry: "(t, s) \<in> set ENVELOPE_MESSAGE_TYPES \<Longrightarrow> typeText t = s"
proof -
  have "distinct (map fst ENVELOPE_MESSAGE_TYPES)" by (simp add: ENVELOPE_MESSAGE_TYPES_def)
  then show "(t, s) \<in> set ENVELOPE_MESSAGE_TYPES \<Longrightarrow> typeText t = s" by (simp add: typeText_def)
qed

lemma requireMessageType_Inr: "requireMessageType v = Inr t \<longleftrightarrow> v = JString (ascii (typeText t))"
proof
  assume "requireMessageType v = Inr t"
  then obtain s u where v: "v = JString s" and u: "find (\<lambda>t. ascii (snd t) = s) ENVELOPE_MESSAGE_TYPES = Some u" "fst u = t"
    by (auto simp: requireMessageType_def split: jsval.splits option.splits)
  then have "u \<in> set ENVELOPE_MESSAGE_TYPES" "ascii (snd u) = s" by (auto simp: find_Some_iff)
  then show "v = JString (ascii (typeText t))" using typeText_of_entry [of t "snd u"] u(2) v by auto
qed (simp add: requireMessageType_text)

definition envelope_ok :: "'z UnsignedEnvelope_scheme \<Rightarrow> bool" where
  "envelope_ok e \<longleftrightarrow> env_v e = ENVELOPE_VERSION \<and> length (env_game e) = 16 \<and> length (env_from e) = 32 \<and>
     safe_nat (env_seq e) \<and> length (env_prev e) = 32 \<and> safe_nat (env_round e) \<and> env_phase e \<noteq> []"

text \<open>A property that reads as a natural number: the number itself or negative zero.\<close>

definition reads_nat :: "jsval \<Rightarrow> nat \<Rightarrow> bool" where
  "reads_nat v n \<longleftrightarrow> v = jnat n \<or> v = JNumber JNegZero \<and> n = 0"

lemma parseUnsignedEnvelope_Inr:
  "parseUnsignedEnvelope pr (JObject ps) = Inr e \<longleftrightarrow>
     has_exactly ps UNSIGNED_KEYS \<and> envelope_ok e \<and>
     reads_nat (get_prop ps ''v'') (env_v e) \<and> get_prop ps ''game'' = JBytes (env_game e) \<and>
     get_prop ps ''from'' = JBytes (env_from e) \<and> reads_nat (get_prop ps ''seq'') (env_seq e) \<and>
     get_prop ps ''prev'' = JBytes (env_prev e) \<and> reads_nat (get_prop ps ''round'') (env_round e) \<and>
     get_prop ps ''phase'' = JString (env_phase e) \<and> get_prop ps ''type'' = JString (ascii (typeText (env_type e))) \<and>
     snapshotCborValue pr (get_prop ps ''body'') = Inr (env_body e)"
proof -
  have "parseUnsignedEnvelope pr (JObject ps) = Inr e \<longleftrightarrow> has_exactly ps UNSIGNED_KEYS \<and>
     requireUnsignedInteger (get_prop ps ''v'') ''v'' = Inr ENVELOPE_VERSION \<and> env_v e = ENVELOPE_VERSION \<and>
     parseGameId (get_prop ps ''game'') = Inr (env_game e) \<and> parseIdentityPublicKey (get_prop ps ''from'') = Inr (env_from e) \<and>
     requireUnsignedInteger (get_prop ps ''seq'') ''seq'' = Inr (env_seq e) \<and> parseHash256 (get_prop ps ''prev'') = Inr (env_prev e) \<and>
     requireUnsignedInteger (get_prop ps ''round'') ''round'' = Inr (env_round e) \<and>
     requireNonEmptyText (get_prop ps ''phase'') ''phase'' = Inr (env_phase e) \<and>
     requireMessageType (get_prop ps ''type'') = Inr (env_type e) \<and>
     snapshotCborValue pr (get_prop ps ''body'') = Inr (env_body e)"
    unfolding parseUnsignedEnvelope_def requireExactMap_def isCborMap_def
    by (cases e) (auto simp: result_simps)
  then show ?thesis
    by (auto simp: requireUnsignedInteger_Inr requireNonEmptyText_Inr requireMessageType_Inr field_defs
        envelope_ok_def reads_nat_def safe_nat_def ENVELOPE_VERSION_def MAX_SAFE_INTEGER_def)
qed


section \<open>Envelope values\<close>

lemma withSignature_sel [simp]:
  "env_v (withSignature e s) = env_v e" "env_game (withSignature e s) = env_game e" "env_from (withSignature e s) = env_from e"
  "env_seq (withSignature e s) = env_seq e" "env_prev (withSignature e s) = env_prev e" "env_round (withSignature e s) = env_round e"
  "env_phase (withSignature e s) = env_phase e" "env_type (withSignature e s) = env_type e"
  "env_body (withSignature e s) = env_body e" "env_sig (withSignature e s) = s"
  by (simp_all add: withSignature_def UnsignedEnvelope.defs SignedEnvelope.defs)

lemma unsigned_fields_withSignature [simp]: "unsigned_fields (withSignature e s) = unsigned_fields e"
  by (simp add: unsigned_fields_def)

lemma toUnsigned_withSignature [simp]: "toUnsignedValue (withSignature e s) = toUnsignedValue e"
  by (simp add: toUnsignedValue_def)

lemma envelope_ok_withSignature [simp]: "envelope_ok (withSignature e s) = envelope_ok e"
  by (simp add: envelope_ok_def)

lemma get_prop_eq: "get_prop ps k = v \<Longrightarrow> v \<noteq> JUndefined \<Longrightarrow> map_of ps (ascii k) = Some v"
  by (auto simp: get_prop_def split: option.splits)

lemma get_prop_copy: "k \<in> set UNSIGNED_KEYS \<Longrightarrow> get_prop (copyWithoutSignature ps) k = get_prop ps k"
  by (auto simp: get_prop_def copyWithoutSignature_def map_of_map_restrict UNSIGNED_KEYS_def split: option.splits)

lemma has_exactly_copy [simp]: "has_exactly (copyWithoutSignature ps) UNSIGNED_KEYS"
  by (simp add: has_exactly_def copyWithoutSignature_def UNSIGNED_KEYS_def)

lemma parseSignedEnvelope_Inr:
  "parseSignedEnvelope pr v = Inr e \<longleftrightarrow> (\<exists>ps u sig. v = JObject ps \<and> has_exactly ps SIGNED_KEYS \<and>
     parseUnsignedEnvelope pr (JObject (copyWithoutSignature ps)) = Inr u \<and>
     get_prop ps ''sig'' = JBytes sig \<and> length sig = 64 \<and> e = withSignature u sig)"
  by (auto simp: parseSignedEnvelope_def requireExactMap_def isCborMap_def result_simps field_defs split: jsval.splits if_splits)

text \<open>An exact map has exactly the expected keys.\<close>

lemma has_exactly_keys:
  assumes "has_exactly ps ks" "distinct ks" "distinct (map fst ps)"
  shows "set (map fst ps) = ascii ` set ks"
proof -
  have sub: "ascii ` set ks \<subseteq> set (map fst ps)"
    using assms(1) by (auto simp: has_exactly_def list_ex_iff map_of_eq_None_iff)
  have "card (ascii ` set ks) = length ks" using assms(2) by (simp add: card_image inj_on_def distinct_card)
  moreover have "card (set (map fst ps)) = length ks" using assms(1,3) distinct_card [OF assms(3)] by (simp add: has_exactly_def)
  ultimately show ?thesis using sub by (metis card_subset_eq finite_set)
qed

lemma SIGNED_KEYS_distinct: "distinct SIGNED_KEYS"
  by (simp add: SIGNED_KEYS_def UNSIGNED_KEYS_def)

lemma signed_keys: "map fst (unsigned_fields e @ [(ascii ''sig'', JBytes s)]) = map ascii SIGNED_KEYS"
  by (simp add: unsigned_fields_def SIGNED_KEYS_def UNSIGNED_KEYS_def)

lemma encodable_number: "encodable (JObject ps) \<Longrightarrow> get_prop ps k \<noteq> JNumber JNegZero"
  by (auto simp: get_prop_def list_all_iff dest!: map_of_SomeD split: option.splits)

lemma snapshot_same:
  assumes "codec_laws pr" "snapshotCborValue pr v = Inr w"
  shows "same_value v w" "\<exists>b. encodeCanonical pr v = Inr b \<and> decodeCanonical pr b = Inr w"
proof -
  show *: "\<exists>b. encodeCanonical pr v = Inr b \<and> decodeCanonical pr b = Inr w"
    using assms(2) by (auto simp: snapshotCborValue_def result_simps)
  then obtain b where b: "encodeCanonical pr v = Inr b" "decodeCanonical pr b = Inr w" by blast
  obtain w' where "decodeCanonical pr b = Inr w'" "same_value v w'" using codec_roundtrip [OF assms(1) b(1)] .
  then show "same_value v w" using b(2) by simp
qed

lemma parsed_same_value:
  assumes laws: "codec_laws pr" and p: "parseSignedEnvelope pr (JObject ps) = Inr e"
    and ps: "encodable (JObject ps)" "distinct (map fst ps)"
  shows "same_value (JObject ps) (toSignedValue e)"
  unfolding toSignedValue_def
proof (rule same_value_objectI)
  obtain u sig where u: "has_exactly ps SIGNED_KEYS" "parseUnsignedEnvelope pr (JObject (copyWithoutSignature ps)) = Inr u"
    "get_prop ps ''sig'' = JBytes sig" "e = withSignature u sig"
    using p by (auto simp: parseSignedEnvelope_Inr)
  show "distinct (map fst ps)" by (rule ps(2))
  show "distinct (map fst (unsigned_fields e @ [(ascii ''sig'', JBytes (env_sig e))]))"
    unfolding signed_keys using SIGNED_KEYS_distinct by (simp add: distinct_map inj_on_def)
  show "set (map fst ps) = set (map fst (unsigned_fields e @ [(ascii ''sig'', JBytes (env_sig e))]))"
    unfolding signed_keys has_exactly_keys [OF u(1) SIGNED_KEYS_distinct ps(2)] by simp
  note f = u(2) [unfolded parseUnsignedEnvelope_Inr]
  have num: "get_prop ps k \<noteq> JNumber JNegZero" for k using ps(1) by (rule encodable_number)
  have body: "same_value (get_prop ps ''body'') (env_body u)"
    using snapshot_same(1) [OF laws] f by (simp add: get_prop_copy UNSIGNED_KEYS_def)
  fix k x y assume "(k, x) \<in> set ps" "(k, y) \<in> set (unsigned_fields e @ [(ascii ''sig'', JBytes (env_sig e))])"
  then have "map_of ps k = Some x" using ps(2) by simp
  then have "\<And>s. k = ascii s \<Longrightarrow> get_prop ps s = x" by (simp add: get_prop_def)
  with \<open>(k, y) \<in> _\<close> show "same_value x y"
    using f num body u(3,4)
    by (auto simp: unsigned_fields_def get_prop_copy UNSIGNED_KEYS_def reads_nat_def)
qed


section \<open>Verified envelopes\<close>

lemma createArtifact_Inr:
  "createArtifact pr e = Inr a \<longleftrightarrow> (\<exists>b. encodeCanonical pr (toSignedValue e) = Inr b \<and> length (sha256 pr [b]) = 32 \<and>
     a = \<lparr>art_envelope = e, art_canonicalBytes = b, art_hash = sha256 pr [b]\<rparr>)"
  by (auto simp: createArtifact_def result_simps hashEnvelope_def field_defs)

definition signature_valid :: "prims \<Rightarrow> SignedEnvelope \<Rightarrow> bool" where
  "signature_valid pr e \<longleftrightarrow> (\<exists>ub. encodeCanonical pr (toUnsignedValue e) = Inr ub \<and>
     verifyEd25519 pr (env_sig e) (envelopeSignatureInput ub) (env_from e))"

lemma decodeAndVerifyEnvelope_Inr:
  "decodeAndVerifyEnvelope pr b = Inr a \<longleftrightarrow> (\<exists>v e. decodeCanonical pr b = Inr v \<and> parseSignedEnvelope pr v = Inr e \<and>
     signature_valid pr e \<and> createArtifact pr e = Inr a)"
  by (auto simp: decodeAndVerifyEnvelope_def result_simps signature_valid_def split: if_splits)

definition artifact_ok :: "prims \<Rightarrow> EnvelopeArtifact \<Rightarrow> bool" where
  "artifact_ok pr a \<longleftrightarrow> envelope_ok (art_envelope a) \<and> length (env_sig (art_envelope a)) = 64 \<and>
     length (art_hash a) = 32 \<and> art_hash a = sha256 pr [art_canonicalBytes a] \<and>
     encodeCanonical pr (toSignedValue (art_envelope a)) = Inr (art_canonicalBytes a) \<and> signature_valid pr (art_envelope a)"

lemma verified_artifact:
  assumes laws: "codec_laws pr" and d: "decodeAndVerifyEnvelope pr b = Inr a"
  shows "art_canonicalBytes a = b" "artifact_ok pr a"
proof -
  obtain v e where v: "decodeCanonical pr b = Inr v" "parseSignedEnvelope pr v = Inr e"
    and s: "signature_valid pr e" "createArtifact pr e = Inr a"
    using d by (auto simp: decodeAndVerifyEnvelope_Inr)
  obtain ps where ps: "v = JObject ps" using v(2) by (auto simp: parseSignedEnvelope_Inr)
  have "encodeCanonical pr v = Inr b" using v(1) by (simp add: decodeCanonical_Inr)
  then have "encodable v" by (auto simp: encodeCanonical_def result_simps assertCborValue_iff)
  then have same: "same_value v (toSignedValue e)"
    using parsed_same_value [OF laws v(2) [unfolded ps]] decodeCanonical_keys_distinct [OF v(1) [unfolded ps]] ps by simp
  obtain b' where b': "encodeCanonical pr (toSignedValue e) = Inr b'" "length (sha256 pr [b']) = 32"
    "a = \<lparr>art_envelope = e, art_canonicalBytes = b', art_hash = sha256 pr [b']\<rparr>"
    using s(2) by (auto simp: createArtifact_Inr)
  have "assertCborValue (toSignedValue e) = Inr ()" using b'(1) by (auto simp: encodeCanonical_def result_simps)
  then have "encodeCanonical pr (toSignedValue e) = Inr b"
    using encodeCanonical_same [OF laws same] \<open>encodeCanonical pr v = Inr b\<close> by simp
  then show bb: "art_canonicalBytes a = b" using b' by simp
  have "envelope_ok e" "length (env_sig e) = 64"
    using v(2) by (auto simp: parseSignedEnvelope_Inr parseUnsignedEnvelope_Inr)
  then show "artifact_ok pr a" using b' s(1) by (simp add: artifact_ok_def)
qed

text \<open>C31: verification of an envelope is sound. An accepted byte string is the canonical encoding of
  the envelope it returns, the hash is the hash of those bytes, every field has its required form,
  and the signature verifies for the sender over the domain-separated unsigned encoding.\<close>

theorem decodeAndVerifyEnvelope_sound:
  assumes "codec_laws pr" "decodeAndVerifyEnvelope pr b = Inr a"
  shows "art_canonicalBytes a = b \<and> encodeCanonical pr (toSignedValue (art_envelope a)) = Inr b \<and>
    art_hash a = sha256 pr [b] \<and> envelope_ok (art_envelope a) \<and>
    (\<exists>ub. encodeCanonical pr (toUnsignedValue (art_envelope a)) = Inr ub \<and>
       verifyEd25519 pr (env_sig (art_envelope a)) (domainSeparator MessageD @ ub) (env_from (art_envelope a)))"
  using verified_artifact [OF assms]
  by (auto simp: artifact_ok_def signature_valid_def envelopeSignatureInput_def concatBytes_def)

section \<open>Signed envelopes\<close>

text \<open>What the program relies on of Ed25519 for one secret key: its public key is a 32-byte point of the
  prime-order subgroup, and signatures of 64 bytes made with it verify.\<close>

definition keypair_ok :: "prims \<Rightarrow> bytes \<Rightarrow> bool" where
  "keypair_ok pr sk \<longleftrightarrow> length (noble_getPublicKey pr sk) = 32 \<and> noble_point pr (noble_getPublicKey pr sk) = Some (True, False) \<and>
     (\<forall>m. length (noble_sign pr m sk) = 64 \<and>
        noble_verify pr (noble_sign pr m sk) m (noble_getPublicKey pr sk) = Some True)"

lemma nesting_prop: "encodable (JObject ps) \<Longrightarrow> map_of ps k = Some v \<Longrightarrow> encodable v \<and> nesting v < nesting (JObject ps)"
proof -
  assume e: "encodable (JObject ps)" and m: "map_of ps k = Some v"
  have mem: "(k, v) \<in> set ps" using m by (rule map_of_SomeD)
  have "Suc (nesting v) \<le> nesting (JObject ps)"
    using fold_max_le [of "map (\<lambda>p. Suc (nesting (snd p))) ps" 0 "nesting (JObject ps)"] mem by fastforce
  then show ?thesis using e mem by (auto simp: list_all_iff)
qed

lemma snapshot_stable:
  assumes laws: "codec_laws pr" and w: "snapshotCborValue pr v = Inr w" and s: "same_value w x"
    and x: "assertCborValue x = Inr ()"
  shows "snapshotCborValue pr x = Inr w"
proof -
  obtain b where b: "decodeCanonical pr b = Inr w" using snapshot_same(2) [OF laws w] by blast
  then have "encodeCanonical pr w = Inr b" by (simp add: decodeCanonical_Inr)
  then have "encodeCanonical pr x = Inr b" using encodeCanonical_same [OF laws s x] by simp
  then show ?thesis using b by (simp add: snapshotCborValue_def)
qed

lemma same_value_prim: "same_value (JBytes b) v \<longleftrightarrow> v = JBytes b" "same_value (JNumber n) v \<longleftrightarrow> v = JNumber n"
  "same_value (JString s) v \<longleftrightarrow> v = JString s"
  by (cases v; auto)+

lemma reparse_signed:
  assumes laws: "codec_laws pr" and u: "parseUnsignedEnvelope pr x = Inr u" and sig: "length sig = 64"
    and s: "same_value (toSignedValue (withSignature u sig)) w" and w: "assertCborValue w = Inr ()"
  shows "parseSignedEnvelope pr w = Inr (withSignature u sig)"
proof -
  obtain xs where "x = JObject xs" using u by (auto simp: parseUnsignedEnvelope_def requireExactMap_def isCborMap_def split: jsval.splits)
  note u = u [unfolded this parseUnsignedEnvelope_Inr]
  obtain qs where q: "w = JObject qs" using s by (auto simp: toSignedValue_def split: jsval.splits)
  let ?ps = "unsigned_fields u @ [(ascii ''sig'', JBytes sig)]"
  have s': "same_value (JObject ?ps) (JObject qs)" using s q by (simp add: toSignedValue_def)
  note d = same_value_objectD [OF s']
  have get: "same_value y (get_prop qs k)" if "map_of ?ps (ascii k) = Some y" for k y
    using d(4) [OF that] by (auto simp: get_prop_def)
  have keys: "set (map fst qs) = ascii ` set SIGNED_KEYS" using d(3) signed_keys [of u sig] by (metis list.set_map)
  have "length qs = length SIGNED_KEYS"
  proof -
    have "length qs = length ?ps" using s' unfolding same_value.simps jsval.case by metis
    then show ?thesis using arg_cong [OF signed_keys [of u sig], of length] by simp
  qed
  then have ex: "has_exactly qs SIGNED_KEYS"
    using keys by (auto simp: has_exactly_def list_ex_iff map_of_eq_None_iff)
  have body: "snapshotCborValue pr (get_prop qs ''body'') = Inr (env_body u)"
  proof (rule snapshot_stable [OF laws])
    show "snapshotCborValue pr (get_prop xs ''body'') = Inr (env_body u)" using u by simp
    show "same_value (env_body u) (get_prop qs ''body'')" by (rule get) (simp add: unsigned_fields_def)
    have "ascii ''body'' \<in> set (map fst qs)" using keys by (simp add: SIGNED_KEYS_def UNSIGNED_KEYS_def)
    then obtain y where "map_of qs (ascii ''body'') = Some y" by (metis map_of_eq_None_iff not_None_eq set_map)
    then show "assertCborValue (get_prop qs ''body'') = Inr ()"
      using w nesting_prop [of qs "ascii ''body''" y] by (auto simp: q assertCborValue_iff get_prop_def)
  qed
  have "parseUnsignedEnvelope pr (JObject (copyWithoutSignature qs)) = Inr u"
    unfolding parseUnsignedEnvelope_Inr
    using u body has_exactly_copy [of qs] get [of "''v''"] get [of "''game''"] get [of "''from''"] get [of "''seq''"] get [of "''prev''"]
      get [of "''round''"] get [of "''phase''"] get [of "''type''"]
    by (simp add: get_prop_copy UNSIGNED_KEYS_def unsigned_fields_def same_value_prim reads_nat_def)
  moreover have "get_prop qs ''sig'' = JBytes sig"
    using get [of "''sig''" "JBytes sig"] by (simp add: unsigned_fields_def same_value_prim)
  ultimately show ?thesis using ex sig q by (auto simp: parseSignedEnvelope_Inr)
qed


lemma signed_verifies:
  assumes laws: "codec_laws pr" and key: "keypair_ok pr sk" and sign: "signEnvelope pr e sk = Inr a"
  shows "decodeAndVerifyEnvelope pr (art_canonicalBytes a) = Inr a"
proof -
  obtain u ub where u: "parseUnsignedEnvelope pr (toUnsignedValue e) = Inr u" "env_from u = noble_getPublicKey pr sk"
    "encodeCanonical pr (toUnsignedValue u) = Inr ub"
    and a: "createArtifact pr (withSignature u (noble_sign pr (envelopeSignatureInput ub) sk)) = Inr a"
    using sign by (auto simp: signEnvelope_def result_simps deriveEd25519PublicKey_def signEd25519_def field_defs split: if_splits)
  define sig where "sig = noble_sign pr (envelopeSignatureInput ub) sk"
  have sig: "length sig = 64" using key by (simp add: sig_def keypair_ok_def)
  obtain b where b: "encodeCanonical pr (toSignedValue (withSignature u sig)) = Inr b" "art_canonicalBytes a = b"
    using a by (auto simp: createArtifact_Inr sig_def)
  obtain w where w: "decodeCanonical pr b = Inr w" "same_value (toSignedValue (withSignature u sig)) w"
    using codec_roundtrip [OF laws b(1)] .
  have "encodeCanonical pr w = Inr b" using w(1) by (simp add: decodeCanonical_Inr)
  then have "assertCborValue w = Inr ()" by (auto simp: encodeCanonical_def result_simps)
  from reparse_signed [OF laws u(1) sig w(2) this]
  have "parseSignedEnvelope pr w = Inr (withSignature u sig)" .
  moreover have "signature_valid pr (withSignature u sig)"
    using u(2,3) key by (simp add: signature_valid_def sig_def verifyEd25519_def isAcceptablePublicKey_def keypair_ok_def
        ED25519_SIGNATURE_LENGTH_def ED25519_PUBLIC_KEY_LENGTH_def)
  ultimately show ?thesis using w(1) a b(2) by (auto simp: decodeAndVerifyEnvelope_Inr sig_def)
qed

text \<open>A signed envelope verifies. When signing succeeds, decoding and verifying the canonical
  bytes returns exactly the artifact that was signed.\<close>

theorem sign_verify_roundtrip:
  assumes "codec_laws pr" "keypair_ok pr sk" "signEnvelope pr e sk = Inr a"
  shows "decodeAndVerifyEnvelope pr (art_canonicalBytes a) = Inr a"
  by (rule signed_verifies [OF assms])

section \<open>A concrete envelope\<close>

text \<open>Toy primitives: the table codec for the values of one envelope, a constant key and signature.\<close>

definition example_envelope :: UnsignedEnvelope where
  "example_envelope = \<lparr>env_v = 1, env_game = replicate 16 7, env_from = replicate 32 9, env_seq = 0,
     env_prev = replicate 32 0, env_round = 0, env_phase = ascii ''lobby'', env_type = JOIN, env_body = JNull\<rparr>"

definition example_signed :: SignedEnvelope where
  "example_signed = withSignature example_envelope (replicate 64 5)"

text \<open>A second envelope for the same position, with another round.\<close>

definition second_envelope :: UnsignedEnvelope where
  "second_envelope = \<lparr>env_v = 1, env_game = replicate 16 7, env_from = replicate 32 9, env_seq = 0,
     env_prev = replicate 32 0, env_round = 1, env_phase = ascii ''lobby'', env_type = JOIN, env_body = JNull\<rparr>"

definition second_signed :: SignedEnvelope where
  "second_signed = withSignature second_envelope (replicate 64 5)"

definition example_values :: "jsval list" where
  "example_values = [JNull, toUnsignedValue example_envelope, toSignedValue example_signed,
     toUnsignedValue second_envelope, toSignedValue second_signed]"

definition example_prims :: prims where
  "example_prims = \<lparr>cbor2_encode = table_encode example_values, cbor2_decode = table_decode example_values,
     noble_sha256 = (\<lambda>b. replicate 32 (word_of_nat (length b))), noble_sha512 = (\<lambda>b. replicate 64 0),
     noble_getPublicKey = (\<lambda>sk. replicate 32 9), noble_sign = (\<lambda>m sk. replicate 64 5),
     noble_verify = (\<lambda>sig m pk. Some (sig = replicate 64 5)), noble_point = (\<lambda>p. Some (True, False))\<rparr>"

lemma example_typeText: "typeText JOIN = ''JOIN''"
  by (simp add: typeText_def ENVELOPE_MESSAGE_TYPES_def)

lemma example_texts: "wellFormedString (ascii ''lobby'')" "wellFormedString (ascii ''JOIN'')"
  "wellFormedString (ascii ''v'')" "wellFormedString (ascii ''game'')" "wellFormedString (ascii ''from'')"
  "wellFormedString (ascii ''seq'')" "wellFormedString (ascii ''prev'')" "wellFormedString (ascii ''round'')"
  "wellFormedString (ascii ''phase'')" "wellFormedString (ascii ''type'')" "wellFormedString (ascii ''body'')"
  "wellFormedString (ascii ''sig'')"
  by (simp_all add: ascii_def)

lemma example_laws: "codec_laws example_prims"
proof (rule table_codec_laws)
  show "\<forall>v \<in> set example_values. normalizeDecodedValue (raw v) = Inr v"
    by (simp add: example_values_def toUnsignedValue_def toSignedValue_def unsigned_fields_def example_signed_def
        example_envelope_def second_signed_def second_envelope_def example_typeText normalizeDecodedValue_def normalizeValue.simps assertDepth_def
        assertWellFormedString_def example_texts supportedNumber_def MAX_SAFE_INTEGER_def MAX_CBOR_NESTING_DEPTH_def)
qed (simp_all add: example_prims_def)


lemma example_encode:
  "table_encode example_values JNull = Some [0]"
  "table_encode example_values (toUnsignedValue example_envelope) = Some [0, 0]"
  "table_encode example_values (toSignedValue example_signed) = Some [0, 0, 0]"
  "table_encode example_values (toUnsignedValue second_envelope) = Some [0, 0, 0, 0]"
  "table_encode example_values (toSignedValue second_signed) = Some [0, 0, 0, 0, 0]"
  by (simp_all add: table_encode_def example_values_def upt_rec toUnsignedValue_def toSignedValue_def unsigned_fields_def
      example_signed_def example_envelope_def second_signed_def second_envelope_def same_value_prim)

lemma example_valid:
  "assertCborValue JNull = Inr ()" "assertCborValue (toUnsignedValue example_envelope) = Inr ()"
  "assertCborValue (toSignedValue example_signed) = Inr ()"
  "assertCborValue (toUnsignedValue second_envelope) = Inr ()" "assertCborValue (toSignedValue second_signed) = Inr ()"
  by (simp_all add: assertCborValue_iff toUnsignedValue_def toSignedValue_def unsigned_fields_def example_signed_def
      example_envelope_def second_signed_def second_envelope_def example_typeText example_texts MAX_SAFE_INTEGER_def MAX_CBOR_NESTING_DEPTH_def)

definition example_artifact :: EnvelopeArtifact where
  "example_artifact = \<lparr>art_envelope = example_signed, art_canonicalBytes = [0, 0, 0], art_hash = replicate 32 3\<rparr>"

lemma example_snapshot: "snapshotCborValue example_prims JNull = Inr JNull"
  using example_encode(1) example_valid(1)
  by (simp add: snapshotCborValue_def encodeCanonical_def decodeCanonical_def example_prims_def table_decode_def
      example_values_def normalizeDecodedValue_def normalizeValue.simps assertDepth_def)

lemma example_parse: "parseUnsignedEnvelope example_prims (toUnsignedValue example_envelope) = Inr example_envelope"
  unfolding toUnsignedValue_def parseUnsignedEnvelope_Inr
  by (simp add: unsigned_fields_def example_envelope_def has_exactly_def UNSIGNED_KEYS_def envelope_ok_def safe_nat_def
      MAX_SAFE_INTEGER_def reads_nat_def get_prop_def ENVELOPE_VERSION_def example_snapshot)

lemma example_sign: "signEnvelope example_prims example_envelope (replicate 32 1) = Inr example_artifact"
proof -
  have "createArtifact example_prims example_signed = Inr example_artifact"
    using example_encode(3) example_valid(3)
    by (simp add: createArtifact_Inr encodeCanonical_def example_prims_def sha256_def example_artifact_def)
  moreover have "encodeCanonical example_prims (toUnsignedValue example_envelope) = Inr [0, 0]"
    using example_encode(2) example_valid(2) by (simp add: encodeCanonical_def example_prims_def)
  ultimately show ?thesis
    unfolding signEnvelope_def example_parse rbind_Inr
    by (simp add: deriveEd25519PublicKey_def signEd25519_def assertLength_def ED25519_SECRET_KEY_LENGTH_def field_defs
        example_signed_def) (simp add: example_prims_def example_envelope_def parseFixedBytes_def)
qed

lemma example_keypair: "keypair_ok example_prims (replicate 32 1)"
  by (simp add: keypair_ok_def example_prims_def)

theorem sign_verify_roundtrip_example:
  "decodeAndVerifyEnvelope example_prims (art_canonicalBytes example_artifact) = Inr example_artifact"
  by (rule sign_verify_roundtrip [OF example_laws example_keypair example_sign])


lemma example_verified: "decodeAndVerifyEnvelope example_prims [0, 0, 0] = Inr example_artifact"
  using signed_verifies [OF example_laws example_keypair example_sign] by (simp add: example_artifact_def)

theorem decodeAndVerifyEnvelope_sound_witness:
  "art_canonicalBytes example_artifact = [0, 0, 0] \<and>
    encodeCanonical example_prims (toSignedValue (art_envelope example_artifact)) = Inr [0, 0, 0] \<and>
    art_hash example_artifact = sha256 example_prims [[0, 0, 0]] \<and> envelope_ok (art_envelope example_artifact) \<and>
    (\<exists>ub. encodeCanonical example_prims (toUnsignedValue (art_envelope example_artifact)) = Inr ub \<and>
       verifyEd25519 example_prims (env_sig (art_envelope example_artifact)) (domainSeparator MessageD @ ub)
         (env_from (art_envelope example_artifact)))"
  by (rule decodeAndVerifyEnvelope_sound [OF example_laws example_verified])

definition second_artifact :: EnvelopeArtifact where
  "second_artifact = \<lparr>art_envelope = second_signed, art_canonicalBytes = [0, 0, 0, 0, 0], art_hash = replicate 32 5\<rparr>"

lemma second_sign: "signEnvelope example_prims second_envelope (replicate 32 1) = Inr second_artifact"
proof -
  have p: "parseUnsignedEnvelope example_prims (toUnsignedValue second_envelope) = Inr second_envelope"
    unfolding toUnsignedValue_def parseUnsignedEnvelope_Inr
    by (simp add: unsigned_fields_def second_envelope_def has_exactly_def UNSIGNED_KEYS_def envelope_ok_def safe_nat_def
        MAX_SAFE_INTEGER_def reads_nat_def get_prop_def ENVELOPE_VERSION_def example_snapshot)
  have "createArtifact example_prims second_signed = Inr second_artifact"
    using example_encode(5) example_valid(5)
    by (simp add: createArtifact_Inr encodeCanonical_def example_prims_def sha256_def second_artifact_def)
  moreover have "encodeCanonical example_prims (toUnsignedValue second_envelope) = Inr [0, 0, 0, 0]"
    using example_encode(4) example_valid(4) by (simp add: encodeCanonical_def example_prims_def)
  ultimately show ?thesis
    unfolding signEnvelope_def p rbind_Inr
    by (simp add: deriveEd25519PublicKey_def signEd25519_def assertLength_def ED25519_SECRET_KEY_LENGTH_def field_defs
        second_signed_def) (simp add: example_prims_def second_envelope_def parseFixedBytes_def)
qed

lemma second_verified: "decodeAndVerifyEnvelope example_prims (art_canonicalBytes second_artifact) = Inr second_artifact"
  by (rule signed_verifies [OF example_laws example_keypair second_sign])

end
