(* ===== verification/Sender_Chain.thy ===== *)
theory Sender_Chain
  imports Protocol_Envelope_Props Error_Machine "HOL-Library.Sublist"
begin

text \<open>
  \<^verbatim>\<open>packages/session/src/sender-chain.ts\<close>: the hash chain of one sender's envelopes. A chain
  holds the accepted artifacts by sequence number and its head; \<open>classify\<close> says what would
  happen to a received artifact, \<open>ingest\<close> also stores an accepted one.
\<close>

section \<open>Append-only logs\<close>

text \<open>
  The contract of a component that takes entries one at a time: an accepted entry is appended
  to the log, anything else leaves the log as it was. Chains and the registry of
  chains both provide it.
\<close>

locale append_log =
  fixes good :: "'c \<Rightarrow> bool" and put :: "'c \<Rightarrow> 'e \<Rightarrow> 'c" and takes :: "'c \<Rightarrow> 'e \<Rightarrow> bool" and log :: "'c \<Rightarrow> 'e list"
  assumes put_good: "good c \<Longrightarrow> good (put c e)"
    and put_taken: "good c \<Longrightarrow> takes c e \<Longrightarrow> log (put c e) = log c @ [e]"
    and put_refused: "good c \<Longrightarrow> \<not> takes c e \<Longrightarrow> log (put c e) = log c"
begin

lemma put_prefix: "good c \<Longrightarrow> prefix (log c) (log (put c e))"
  by (cases "takes c e") (simp_all add: put_taken put_refused)

lemma fold_put_good: "good c \<Longrightarrow> good (foldl put c es)"
  by (induction es arbitrary: c) (simp_all add: put_good)

lemma fold_put_prefix: "good c \<Longrightarrow> prefix (log c) (log (foldl put c es))"
proof (induction es arbitrary: c)
  case (Cons e es)
  then show ?case using put_prefix put_good by (metis foldl_Cons prefix_order.trans)
qed simp

lemma fold_put_log: "good c \<Longrightarrow> set (log (foldl put c es)) \<subseteq> set (log c) \<union> set es"
proof (induction es arbitrary: c)
  case (Cons e es)
  have "set (log (put c e)) \<subseteq> insert e (set (log c))"
    using Cons.prems by (cases "takes c e") (auto simp: put_taken put_refused)
  then show ?case using Cons.IH [OF put_good [OF Cons.prems]] by fastforce
qed simp

end

section \<open>The chain\<close>

record ChainHead =
  head_from :: bytes
  head_seq :: nat
  head_hash :: bytes

datatype ChainIngestResult =
    Accepted ChainHead EnvelopeArtifact
  | Duplicate EnvelopeArtifact EnvelopeArtifact
  | WrongSender bytes bytes EnvelopeArtifact
  | Gap nat nat EnvelopeArtifact
  | BrokenPrev bytes bytes EnvelopeArtifact
  | Equivocation EnvelopeArtifact EnvelopeArtifact

definition ZERO_HASH :: bytes where
  "ZERO_HASH = replicate 32 0"

record SenderChain =
  ch_sender :: bytes
  ch_accepted :: "(nat \<times> EnvelopeArtifact \<times> bytes) list"
  ch_head :: "ChainHead option"

definition newSenderChain :: "jsval \<Rightarrow> protocol_error + SenderChain" where
  "newSenderChain sender =
     rbind (parseIdentityPublicKey sender) (\<lambda>s. Inr \<lparr>ch_sender = s, ch_accepted = [], ch_head = None\<rparr>)"

definition chain_size :: "SenderChain \<Rightarrow> nat" where
  "chain_size ch = length (ch_accepted ch)"

definition chain_get :: "SenderChain \<Rightarrow> nat \<Rightarrow> EnvelopeArtifact option" where
  "chain_get ch seq = map_option fst (map_of (ch_accepted ch) seq)"

definition chain_classify :: "SenderChain \<Rightarrow> EnvelopeArtifact \<Rightarrow> ChainIngestResult" where
  "chain_classify ch received =
     (let envelope = art_envelope received in
      if \<not> bytesEqual (env_from envelope) (ch_sender ch)
      then WrongSender (ch_sender ch) (env_from envelope) received
      else case map_of (ch_accepted ch) (env_seq envelope) of
        Some (artifact, h) \<Rightarrow>
          if bytesEqual h (art_hash received) then Duplicate artifact received else Equivocation artifact received
      | None \<Rightarrow>
          let expectedSeq = (case ch_head ch of None \<Rightarrow> 0 | Some head \<Rightarrow> head_seq head + 1) in
          if env_seq envelope \<noteq> expectedSeq then Gap expectedSeq (env_seq envelope) received
          else let expectedPrev = (case ch_head ch of None \<Rightarrow> ZERO_HASH | Some head \<Rightarrow> head_hash head) in
            if \<not> bytesEqual (env_prev envelope) expectedPrev
            then BrokenPrev expectedPrev (env_prev envelope) received
            else Accepted \<lparr>head_from = ch_sender ch, head_seq = env_seq envelope, head_hash = art_hash received\<rparr> received)"

definition chain_ingest :: "SenderChain \<Rightarrow> EnvelopeArtifact \<Rightarrow> SenderChain \<times> ChainIngestResult" where
  "chain_ingest ch received =
     (case chain_classify ch received of
        Accepted head r \<Rightarrow>
          (ch\<lparr>ch_accepted := AList.update (env_seq (art_envelope received)) (received, art_hash received) (ch_accepted ch),
              ch_head := Some head\<rparr>, Accepted head received)
      | result \<Rightarrow> (ch, result))"

fun is_accepted :: "ChainIngestResult \<Rightarrow> bool" where
  "is_accepted (Accepted _ _) = True"
| "is_accepted _ = False"

section \<open>The chain as a list\<close>

text \<open>The abstract chain: a sender and the list of its artifacts, linked by hashes.\<close>

definition prev_hash :: "EnvelopeArtifact list \<Rightarrow> bytes" where
  "prev_hash as = (if as = [] then ZERO_HASH else art_hash (last as))"

definition linked :: "bytes \<Rightarrow> EnvelopeArtifact list \<Rightarrow> bool" where
  "linked s as \<longleftrightarrow> (\<forall>i < length as. env_from (art_envelope (as ! i)) = s \<and> env_seq (art_envelope (as ! i)) = i \<and>
     env_prev (art_envelope (as ! i)) = prev_hash (take i as))"

definition chain_of :: "bytes \<Rightarrow> EnvelopeArtifact list \<Rightarrow> SenderChain" where
  "chain_of s as = \<lparr>ch_sender = s, ch_accepted = map (\<lambda>i. (i, as ! i, art_hash (as ! i))) [0..<length as],
     ch_head = (if as = [] then None
       else Some \<lparr>head_from = s, head_seq = length as - 1, head_hash = art_hash (last as)\<rparr>)\<rparr>"

definition chain_log :: "SenderChain \<Rightarrow> EnvelopeArtifact list" where
  "chain_log ch = map (\<lambda>p. fst (snd p)) (ch_accepted ch)"

definition chain_inv :: "SenderChain \<Rightarrow> bool" where
  "chain_inv ch \<longleftrightarrow> linked (ch_sender ch) (chain_log ch) \<and> ch = chain_of (ch_sender ch) (chain_log ch)"

lemma chain_of_sel [simp]: "ch_sender (chain_of s as) = s" "chain_log (chain_of s as) = as"
  "chain_size (chain_of s as) = length as"
  by (simp_all add: chain_of_def chain_log_def chain_size_def comp_def map_nth)

lemma chain_inv_iff: "chain_inv ch \<longleftrightarrow> (\<exists>s as. linked s as \<and> ch = chain_of s as)"
  by (auto simp: chain_inv_def)

lemma map_of_upt: "map_of (map (\<lambda>i. (i, f i)) [0..<n]) k = (if k < n then Some (f k) else None)"
proof -
  have "map_of (map (\<lambda>i. (i, f i)) [0..<n]) k = map_option (\<lambda>_. f k) (if k \<in> set [0..<n] then Some k else None)"
    by (simp add: map_of_map_restrict restrict_map_def)
  then show ?thesis by simp
qed

lemma chain_get_of: "chain_get (chain_of s as) i = (if i < length as then Some (as ! i) else None)"
  by (simp add: chain_get_def chain_of_def map_of_upt)

lemma linked_snoc:
  "linked s (as @ [a]) \<longleftrightarrow> linked s as \<and> env_from (art_envelope a) = s \<and>
     env_seq (art_envelope a) = length as \<and> env_prev (art_envelope a) = prev_hash as"
  by (auto simp: linked_def nth_append less_Suc_eq)

lemma chain_classify_of:
  "chain_classify (chain_of s as) a =
     (if env_from (art_envelope a) \<noteq> s then WrongSender s (env_from (art_envelope a)) a
      else if env_seq (art_envelope a) < length as then
        (if art_hash (as ! env_seq (art_envelope a)) = art_hash a then Duplicate (as ! env_seq (art_envelope a)) a
         else Equivocation (as ! env_seq (art_envelope a)) a)
      else if env_seq (art_envelope a) \<noteq> length as then Gap (length as) (env_seq (art_envelope a)) a
      else if env_prev (art_envelope a) \<noteq> prev_hash as then BrokenPrev (prev_hash as) (env_prev (art_envelope a)) a
      else Accepted \<lparr>head_from = s, head_seq = length as, head_hash = art_hash a\<rparr> a)"
  by (simp add: chain_classify_def Let_def chain_of_def map_of_upt prev_hash_def)

lemma chain_ingest_of:
  "chain_ingest (chain_of s as) a =
     (if is_accepted (chain_classify (chain_of s as) a) then chain_of s (as @ [a]) else chain_of s as,
      chain_classify (chain_of s as) a)"
proof (cases "chain_classify (chain_of s as) a")
  case (Accepted h r)
  then have *: "env_seq (art_envelope a) = length as" "h = \<lparr>head_from = s, head_seq = length as, head_hash = art_hash a\<rparr>" "r = a"
    by (auto simp: chain_classify_of split: if_splits)
  have upd: "AList.update (length as) (a, art_hash a) (map (\<lambda>i. (i, as ! i, art_hash (as ! i))) [0..<length as]) =
      map (\<lambda>i. (i, (as @ [a]) ! i, art_hash ((as @ [a]) ! i))) [0..<length (as @ [a])]"
    by (subst update_new) (auto simp: nth_append)
  show ?thesis
    unfolding chain_ingest_def Accepted using * upd by (simp add: chain_of_def)
qed (simp_all add: chain_ingest_def)

lemma chain_ingest_inv:
  assumes "chain_inv ch"
  shows "chain_inv (fst (chain_ingest ch a))"
    and "is_accepted (snd (chain_ingest ch a)) \<Longrightarrow> chain_log (fst (chain_ingest ch a)) = chain_log ch @ [a]"
    and "ch_sender (fst (chain_ingest ch a)) = ch_sender ch"
proof -
  obtain s as where c: "linked s as" "ch = chain_of s as" using assms by (auto simp: chain_inv_iff)
  have "linked s (as @ [a])" if "is_accepted (chain_classify ch a)"
    using that c by (auto simp: chain_classify_of linked_snoc split: if_splits)
  then show "chain_inv (fst (chain_ingest ch a))"
    using c by (auto simp: chain_ingest_of chain_inv_iff)
  show "is_accepted (snd (chain_ingest ch a)) \<Longrightarrow> chain_log (fst (chain_ingest ch a)) = chain_log ch @ [a]"
    using c by (simp add: chain_ingest_of)
  show "ch_sender (fst (chain_ingest ch a)) = ch_sender ch" using c by (simp add: chain_ingest_of)
qed

lemma chain_ingest_snd: "snd (chain_ingest ch a) = chain_classify ch a"
proof (cases "chain_classify ch a")
  case (Accepted h r)
  then have "r = a" by (auto simp: chain_classify_def Let_def split: if_splits option.splits prod.splits)
  then show ?thesis using Accepted by (simp add: chain_ingest_def)
qed (simp_all add: chain_ingest_def)

lemma chain_ingest_refused: "\<not> is_accepted (chain_classify ch a) \<Longrightarrow> fst (chain_ingest ch a) = ch"
  by (cases "chain_classify ch a") (simp_all add: chain_ingest_def)

interpretation sender_log: append_log chain_inv "\<lambda>ch a. fst (chain_ingest ch a)"
  "\<lambda>ch a. is_accepted (chain_classify ch a)" chain_log
  by unfold_locales (auto simp: chain_ingest_inv chain_ingest_snd chain_ingest_refused)


section \<open>Properties\<close>

lemma newSenderChain_Inr: "newSenderChain (JBytes s) = Inr ch \<longleftrightarrow> length s = 32 \<and> ch = chain_of s []"
  by (auto simp: newSenderChain_def result_simps field_defs chain_of_def)

lemma new_chain_inv: "newSenderChain v = Inr ch \<Longrightarrow> chain_inv ch"
  by (auto simp: newSenderChain_def result_simps chain_inv_def chain_log_def chain_of_def linked_def)

definition ingest_all :: "SenderChain \<Rightarrow> EnvelopeArtifact list \<Rightarrow> SenderChain" where
  "ingest_all ch as = foldl (\<lambda>ch a. fst (chain_ingest ch a)) ch as"

text \<open>C6: a chain is contiguous and linked, whatever is offered to it in whatever order. The accepted
  artifacts are numbered from zero without gaps, all come from the chain's sender, each names the
  hash of its predecessor (the first the zero hash), lookup by sequence number finds them, and the
  head describes the last one. Nothing is ever removed: more input only extends the log.\<close>

theorem chain_integrity:
  assumes "newSenderChain sender = Inr ch0"
  shows "\<exists>as. chain_log (ingest_all ch0 xs) = as \<and> set as \<subseteq> set xs \<and>
    (\<forall>i < length as. chain_get (ingest_all ch0 xs) i = Some (as ! i) \<and>
       JBytes (env_from (art_envelope (as ! i))) = sender \<and> env_seq (art_envelope (as ! i)) = i \<and>
       env_prev (art_envelope (as ! i)) = (if i = 0 then ZERO_HASH else art_hash (as ! (i - 1)))) \<and>
    ch_head (ingest_all ch0 xs) = (if as = [] then None
      else Some \<lparr>head_from = ch_sender ch0, head_seq = length as - 1, head_hash = art_hash (last as)\<rparr>) \<and>
    prefix as (chain_log (ingest_all ch0 (xs @ ys)))"
proof -
  have s: "sender = JBytes (ch_sender ch0)" "chain_log ch0 = []"
    using assms by (auto simp: newSenderChain_def result_simps field_defs chain_log_def)
  have inv0: "chain_inv ch0" using assms by (rule new_chain_inv)
  have inv: "chain_inv (ingest_all ch0 xs)" unfolding ingest_all_def by (rule sender_log.fold_put_good [OF inv0])
  have snd0: "ch_sender (ingest_all ch0 xs) = ch_sender ch0"
    unfolding ingest_all_def using inv0
  proof (induction xs arbitrary: ch0)
    case (Cons x xs)
    then show ?case using chain_ingest_inv(1,3) [OF Cons.prems, of x] by simp
  qed simp
  define as where "as = chain_log (ingest_all ch0 xs)"
  have c: "linked (ch_sender ch0) as" "ingest_all ch0 xs = chain_of (ch_sender ch0) as"
    using inv snd0 by (auto simp: chain_inv_def as_def)
  have "env_prev (art_envelope (as ! i)) = (if i = 0 then ZERO_HASH else art_hash (as ! (i - 1)))" if "i < length as" for i
    using c(1) that by (auto simp: linked_def prev_hash_def last_conv_nth min_def)
  moreover have "set as \<subseteq> set xs"
    using sender_log.fold_put_log [OF inv0, of xs] s(2) by (simp add: as_def ingest_all_def)
  moreover have "prefix as (chain_log (ingest_all ch0 (xs @ ys)))"
    using sender_log.fold_put_prefix [OF inv, of ys] by (simp add: as_def ingest_all_def)
  ultimately show ?thesis
    using c s(1) by (intro exI [of _ as]) (auto simp: chain_get_of linked_def, auto simp: chain_of_def)
qed

lemma linked_same_last:
  assumes "linked s as" "linked t bs" "length as = length bs" "prev_hash as = prev_hash bs"
    and eq: "\<And>a b. a \<in> set as \<Longrightarrow> b \<in> set bs \<Longrightarrow> art_hash a = art_hash b \<Longrightarrow> a = b"
  shows "as = bs"
  using assms
proof (induction as arbitrary: bs rule: rev_induct)
  case Nil
  then show ?case by simp
next
  case (snoc a as)
  then obtain b bs' where bs: "bs = bs' @ [b]" by (metis length_append_singleton nat.distinct(1) list.size(3) rev_exhaust)
  have "art_hash a = art_hash b" using snoc.prems(4) bs by (simp add: prev_hash_def)
  then have ab: "a = b" using snoc.prems(5) [of a b] bs by simp
  then have "prev_hash as = prev_hash bs'" using snoc.prems(1,2) bs by (simp add: linked_snoc)
  then have "as = bs'" using snoc.IH [of bs'] snoc.prems bs by (simp add: linked_snoc)
  then show ?case using ab bs by simp
qed

definition verified :: "prims \<Rightarrow> EnvelopeArtifact \<Rightarrow> bool" where
  "verified pr a \<longleftrightarrow> decodeAndVerifyEnvelope pr (art_canonicalBytes a) = Inr a"

text \<open>The head of a chain pins its whole history. If no two of the involved encodings have the
  same hash, two chains of verified artifacts with the same head hold the same artifacts.\<close>

theorem head_pins_history:
  assumes "codec_laws pr" "chain_inv c" "chain_inv d" "ch_head c = ch_head d"
    and "\<forall>a \<in> set (chain_log c) \<union> set (chain_log d). verified pr a"
    and "inj_on (noble_sha256 pr) (art_canonicalBytes ` (set (chain_log c) \<union> set (chain_log d)))"
  shows "chain_log c = chain_log d"
proof -
  obtain s as t bs where c: "linked s as" "c = chain_of s as" and d: "linked t bs" "d = chain_of t bs"
    using assms(2,3) by (auto simp: chain_inv_iff)
  have len: "length as = length bs" "prev_hash as = prev_hash bs"
    using assms(4) c(2) d(2) by (auto simp: chain_of_def prev_hash_def split: if_splits)
      (metis Suc_pred length_greater_0_conv)
  have "as = bs"
  proof (rule linked_same_last [OF c(1) d(1) len])
    fix a b assume ab: "a \<in> set as" "b \<in> set bs" "art_hash a = art_hash b"
    then have v: "verified pr a" "verified pr b" using assms(5) c(2) d(2) by auto
    have "art_hash a = noble_sha256 pr (art_canonicalBytes a)" "art_hash b = noble_sha256 pr (art_canonicalBytes b)"
      using v verified_artifact(2) [OF assms(1)] by (auto simp: verified_def artifact_ok_def sha256_def)
    then have "art_canonicalBytes a = art_canonicalBytes b"
      using ab assms(6) c(2) d(2) by (auto dest: inj_onD)
    then show "a = b" using v by (simp add: verified_def)
  qed
  then show ?thesis using c d by simp
qed

section \<open>Examples\<close>

lemma example_artifact_linked: "linked (replicate 32 9) [example_artifact]"
  by (simp add: linked_def example_artifact_def example_signed_def example_envelope_def prev_hash_def ZERO_HASH_def)

theorem chain_integrity_witness:
  "\<exists>as. chain_log (ingest_all (chain_of (replicate 32 9) []) [example_artifact]) = as \<and> set as \<subseteq> {example_artifact} \<and>
    prefix as (chain_log (ingest_all (chain_of (replicate 32 9) []) [example_artifact, example_artifact]))"
  using chain_integrity [of "JBytes (replicate 32 9)" "chain_of (replicate 32 9) []" "[example_artifact]" "[example_artifact]"]
  by (auto simp: newSenderChain_Inr)

lemma example_verified_artifact: "verified example_prims example_artifact"
  using example_verified by (simp add: verified_def example_artifact_def)

lemma example_ingest:
  "ingest_all (chain_of (replicate 32 9) []) [example_artifact, example_artifact] = chain_of (replicate 32 9) [example_artifact]"
  using example_artifact_linked
  by (simp add: ingest_all_def chain_ingest_of chain_classify_of linked_def)

theorem head_pins_history_example:
  "chain_log (ingest_all (chain_of (replicate 32 9) []) [example_artifact, example_artifact]) =
   chain_log (chain_of (replicate 32 9) [example_artifact])"
  unfolding example_ingest
  by (rule head_pins_history [OF example_laws])
    (use example_artifact_linked example_verified_artifact in \<open>auto simp: chain_inv_iff\<close>)

end
