(* ===== verification/Chain_Registry.thy ===== *)
theory Chain_Registry
  imports Sender_Chain
begin

text \<open>
  \<^verbatim>\<open>packages/session/src/chain-registry.ts\<close>: the chains of a finalized roster. The code keeps
  the roster entries in an array and in a map from the hexadecimal key of a sender to the same
  entry objects; here the map holds the position of the entry in the array, so that an update
  of a chain is seen through both.
\<close>

definition MIN_SESSION_SEATS :: nat where
  "MIN_SESSION_SEATS = 3"
definition MAX_SESSION_SEATS :: nat where
  "MAX_SESSION_SEATS = 8"

datatype SessionIngestResult =
    ChainResult ChainIngestResult
  | WrongGame bytes bytes EnvelopeArtifact
  | UnknownSender bytes EnvelopeArtifact

datatype SyncRangeResult =
    RangeComplete "EnvelopeArtifact list"
  | RangeMissing nat
  | RangeUnknownSender

record RosterEntry =
  entry_seat :: nat
  entry_sender :: bytes
  entry_chain :: SenderChain

datatype session_error =
    SessionRosterError string
  | SessionProtocolError protocol_error
  | SessionRangeError string
  | SessionFault string

record SessionChainRegistry =
  reg_gameId :: bytes
  reg_entries :: "RosterEntry list"
  reg_bySender :: "(string \<times> nat) list"

abbreviation protoTry :: "protocol_error + 'a \<Rightarrow> session_error + 'a" where
  "protoTry r \<equiv> catch_as r SessionProtocolError"

text \<open>The loop over the roster: \<open>entries\<close> and \<open>bySender\<close> grow together.\<close>

fun roster_entries ::
    "prims \<Rightarrow> RosterEntry list \<Rightarrow> (string \<times> nat) list \<Rightarrow> jsval list \<Rightarrow>
     session_error + (RosterEntry list \<times> (string \<times> nat) list)" where
  "roster_entries pr entries bySender [] = Inr (entries, bySender)"
| "roster_entries pr entries bySender (candidate # roster) =
     rbind (protoTry (parseIdentityPublicKey candidate)) (\<lambda>sender.
     rbind (catch_as (importEd25519PublicKey pr sender)
              (\<lambda>_. SessionRosterError ''Seat has an invalid Ed25519 public key'')) (\<lambda>_.
     let key = bytesToHex sender in
     if map_of bySender key \<noteq> None
     then Inl (SessionRosterError ''Roster contains duplicate identity'')
     else rbind (protoTry (newSenderChain (JBytes sender))) (\<lambda>chain.
       roster_entries pr (entries @ [\<lparr>entry_seat = length entries, entry_sender = sender, entry_chain = chain\<rparr>])
         (AList.update key (length entries) bySender) roster)))"

definition newSessionChainRegistry :: "prims \<Rightarrow> jsval \<Rightarrow> jsval list \<Rightarrow> session_error + SessionChainRegistry" where
  "newSessionChainRegistry pr gameId roster =
     rbind (protoTry (parseGameId gameId)) (\<lambda>g.
     if length roster < MIN_SESSION_SEATS \<or> length roster > MAX_SESSION_SEATS
     then Inl (SessionRosterError ''Roster must contain 3 to 8 seats'')
     else rbind (roster_entries pr [] [] roster) (\<lambda>(entries, bySender).
       Inr \<lparr>reg_gameId = g, reg_entries = entries, reg_bySender = bySender\<rparr>))"

definition reg_roster :: "SessionChainRegistry \<Rightarrow> bytes list" where
  "reg_roster reg = map entry_sender (reg_entries reg)"

definition entry_of :: "SessionChainRegistry \<Rightarrow> bytes \<Rightarrow> nat option" where
  "entry_of reg sender = map_of (reg_bySender reg) (bytesToHex sender)"

definition reg_seatOf :: "SessionChainRegistry \<Rightarrow> bytes \<Rightarrow> nat option" where
  "reg_seatOf reg sender = map_option (\<lambda>i. entry_seat (reg_entries reg ! i)) (entry_of reg sender)"

definition reg_classify :: "SessionChainRegistry \<Rightarrow> EnvelopeArtifact \<Rightarrow> SessionIngestResult" where
  "reg_classify reg received =
     (if \<not> bytesEqual (env_game (art_envelope received)) (reg_gameId reg)
      then WrongGame (reg_gameId reg) (env_game (art_envelope received)) received
      else case entry_of reg (env_from (art_envelope received)) of
        None \<Rightarrow> UnknownSender (env_from (art_envelope received)) received
      | Some i \<Rightarrow> ChainResult (chain_classify (entry_chain (reg_entries reg ! i)) received))"

definition set_chain :: "nat \<Rightarrow> SenderChain \<Rightarrow> SessionChainRegistry \<Rightarrow> SessionChainRegistry" where
  "set_chain i ch reg = reg\<lparr>reg_entries := (reg_entries reg)[i := (reg_entries reg ! i)\<lparr>entry_chain := ch\<rparr>]\<rparr>"

fun result_accepted :: "SessionIngestResult \<Rightarrow> bool" where
  "result_accepted (ChainResult r) = is_accepted r"
| "result_accepted _ = False"

definition reg_ingest ::
    "SessionChainRegistry \<Rightarrow> EnvelopeArtifact \<Rightarrow> SessionChainRegistry \<times> (session_error + SessionIngestResult)" where
  "reg_ingest reg received =
     (let result = reg_classify reg received in
      if \<not> result_accepted result then (reg, Inr result)
      else case entry_of reg (env_from (art_envelope received)) of
        None \<Rightarrow> (reg, Inl (SessionFault ''Session sender disappeared between classification and ingestion''))
      | Some i \<Rightarrow>
          let (chain, r) = chain_ingest (entry_chain (reg_entries reg ! i)) received in
          (set_chain i chain reg, Inr (ChainResult r)))"

definition reg_heads :: "SessionChainRegistry \<Rightarrow> ChainHead list" where
  "reg_heads reg = List.map_filter (\<lambda>e. ch_head (entry_chain e)) (reg_entries reg)"

definition assertSequence :: "nat \<Rightarrow> string \<Rightarrow> session_error + unit" where
  "assertSequence n label =
     (if \<not> safe_nat n then Inl (SessionRangeError (label @ '' must be an unsigned safe integer'')) else Inr ())"

text \<open>The loop from \<open>seq\<close> over the remaining count of envelopes.\<close>

fun collect_range :: "SenderChain \<Rightarrow> nat \<Rightarrow> nat \<Rightarrow> EnvelopeArtifact list \<Rightarrow> SyncRangeResult" where
  "collect_range ch seq 0 acc = RangeComplete acc"
| "collect_range ch seq (Suc n) acc =
     (case chain_get ch seq of
        None \<Rightarrow> RangeMissing seq
      | Some artifact \<Rightarrow> collect_range ch (Suc seq) n (acc @ [artifact]))"

definition reg_readRange :: "SessionChainRegistry \<Rightarrow> bytes \<Rightarrow> nat \<Rightarrow> nat \<Rightarrow> session_error + SyncRangeResult" where
  "reg_readRange reg sender fromSeq toSeq =
     rbind (assertSequence fromSeq ''fromSeq'') (\<lambda>_.
     rbind (assertSequence toSeq ''toSeq'') (\<lambda>_.
     if fromSeq > toSeq then Inl (SessionRangeError ''fromSeq must not exceed toSeq'')
     else case entry_of reg sender of
       None \<Rightarrow> Inr RangeUnknownSender
     | Some i \<Rightarrow>
         let chain = entry_chain (reg_entries reg ! i) in
         (case ch_head chain of
            None \<Rightarrow> Inr (RangeMissing fromSeq)
          | Some head \<Rightarrow>
              if fromSeq > head_seq head then Inr (RangeMissing fromSeq)
              else if toSeq > head_seq head then Inr (RangeMissing (head_seq head + 1))
              else Inr (collect_range chain fromSeq (Suc toSeq - fromSeq) []))))"

section \<open>Invariant\<close>

definition reg_inv :: "SessionChainRegistry \<Rightarrow> bool" where
  "reg_inv reg \<longleftrightarrow> distinct (reg_roster reg) \<and>
     reg_bySender reg = map (\<lambda>i. (bytesToHex (entry_sender (reg_entries reg ! i)), i)) [0..<length (reg_entries reg)] \<and>
     (\<forall>i < length (reg_entries reg). entry_seat (reg_entries reg ! i) = i \<and>
        ch_sender (entry_chain (reg_entries reg ! i)) = entry_sender (reg_entries reg ! i) \<and>
        chain_inv (entry_chain (reg_entries reg ! i)))"

text \<open>The log of one sender, empty for a stranger.\<close>

definition log_of :: "SessionChainRegistry \<Rightarrow> bytes \<Rightarrow> EnvelopeArtifact list" where
  "log_of reg sender = (case index_of (reg_roster reg) sender of None \<Rightarrow> []
     | Some i \<Rightarrow> chain_log (entry_chain (reg_entries reg ! i)))"

lemma map_of_hex_upt:
  assumes "distinct (map f [0..<n])"
  shows "map_of (map (\<lambda>i. (bytesToHex (f i), i)) [0..<n]) (bytesToHex s) = index_of (map f [0..<n]) s"
proof (cases "s \<in> set (map f [0..<n])")
  case True
  then obtain i where i: "i < n" "s = f i" by auto
  have "inj_on (\<lambda>i. bytesToHex (f i)) (set [0..<n])" using assms by (auto simp: distinct_map inj_on_def)
  then have "map_of (map (\<lambda>i. (bytesToHex (f i), i)) [0..<n]) (bytesToHex (f i)) = Some i"
    using i(1) by (intro map_of_is_SomeI) (auto simp: comp_def distinct_map)
  moreover have "index_of (map f [0..<n]) (map f [0..<n] ! i) = Some i" using assms i(1) by (intro index_of_nth) auto
  ultimately show ?thesis using i by simp
next
  case False
  then have "map_of (map (\<lambda>i. (bytesToHex (f i), i)) [0..<n]) (bytesToHex s) = None"
    by (auto simp: map_of_eq_None_iff)
  moreover have "index_of (map f [0..<n]) s = None" using False by (simp only: index_of_None) simp
  ultimately show ?thesis by simp
qed

lemma entry_of_index:
  assumes "reg_inv reg"
  shows "entry_of reg s = index_of (reg_roster reg) s"
proof -
  have r: "reg_roster reg = map (\<lambda>i. entry_sender (reg_entries reg ! i)) [0..<length (reg_entries reg)]"
    by (rule nth_equalityI) (simp_all add: reg_roster_def)
  have b: "reg_bySender reg = map (\<lambda>i. (bytesToHex (entry_sender (reg_entries reg ! i)), i)) [0..<length (reg_entries reg)]"
    and d: "distinct (reg_roster reg)"
    using assms by (simp_all add: reg_inv_def)
  show ?thesis unfolding entry_of_def b r by (rule map_of_hex_upt) (rule d [unfolded r])
qed

lemma entry_of_Some:
  assumes "reg_inv reg" "entry_of reg s = Some i"
  shows "i < length (reg_entries reg)" "entry_sender (reg_entries reg ! i) = s"
    "ch_sender (entry_chain (reg_entries reg ! i)) = s" "chain_inv (entry_chain (reg_entries reg ! i))"
    "log_of reg s = chain_log (entry_chain (reg_entries reg ! i))"
proof -
  have ix: "index_of (reg_roster reg) s = Some i" using assms entry_of_index by simp
  then show i: "i < length (reg_entries reg)" and s: "entry_sender (reg_entries reg ! i) = s"
    using index_of_Some [OF ix] by (auto simp: reg_roster_def)
  show "ch_sender (entry_chain (reg_entries reg ! i)) = s" "chain_inv (entry_chain (reg_entries reg ! i))"
    using assms(1) i s by (auto simp: reg_inv_def)
  show "log_of reg s = chain_log (entry_chain (reg_entries reg ! i))" using ix by (simp add: log_of_def)
qed

lemma update_chain_sel [simp]:
  "j < length xs \<Longrightarrow> entry_sender (xs[i := (xs ! i)\<lparr>entry_chain := ch\<rparr>] ! j) = entry_sender (xs ! j)"
  "j < length xs \<Longrightarrow> entry_seat (xs[i := (xs ! i)\<lparr>entry_chain := ch\<rparr>] ! j) = entry_seat (xs ! j)"
  by (cases "i = j"; simp)+

lemma roster_set_chain [simp]: "reg_roster (set_chain i ch reg) = reg_roster reg"
proof (rule nth_equalityI)
  show "length (reg_roster (set_chain i ch reg)) = length (reg_roster reg)" by (simp add: reg_roster_def set_chain_def)
  fix j assume "j < length (reg_roster (set_chain i ch reg))"
  then show "reg_roster (set_chain i ch reg) ! j = reg_roster reg ! j"
    by (simp add: reg_roster_def set_chain_def)
qed

lemma set_chain_inv:
  assumes "reg_inv reg" "i < length (reg_entries reg)" "chain_inv ch" "ch_sender ch = entry_sender (reg_entries reg ! i)"
  shows "reg_inv (set_chain i ch reg)"
  unfolding reg_inv_def
proof (intro conjI)
  show "distinct (reg_roster (set_chain i ch reg))" using assms(1) by (simp add: reg_inv_def)
  show "reg_bySender (set_chain i ch reg) = map (\<lambda>j. (bytesToHex (entry_sender (reg_entries (set_chain i ch reg) ! j)), j))
      [0..<length (reg_entries (set_chain i ch reg))]"
    using assms(1) by (simp add: set_chain_def reg_inv_def)
  have "\<forall>j < length (reg_entries reg). entry_seat (reg_entries reg ! j) = j \<and>
        ch_sender (entry_chain (reg_entries reg ! j)) = entry_sender (reg_entries reg ! j) \<and>
        chain_inv (entry_chain (reg_entries reg ! j))"
    using assms(1) unfolding reg_inv_def by blast
  then show "\<forall>j < length (reg_entries (set_chain i ch reg)). entry_seat (reg_entries (set_chain i ch reg) ! j) = j \<and>
        ch_sender (entry_chain (reg_entries (set_chain i ch reg) ! j)) = entry_sender (reg_entries (set_chain i ch reg) ! j) \<and>
        chain_inv (entry_chain (reg_entries (set_chain i ch reg) ! j))"
    using assms(2-4) by (simp add: set_chain_def nth_list_update)
qed

lemma log_of_set_chain:
  assumes "reg_inv reg" "i < length (reg_entries reg)"
  shows "log_of (set_chain i ch reg) s = (if s = entry_sender (reg_entries reg ! i) then chain_log ch else log_of reg s)"
proof (cases "index_of (reg_roster reg) s")
  case None
  then have "s \<notin> set (reg_roster reg)" by (simp add: index_of_None)
  moreover have "entry_sender (reg_entries reg ! i) \<in> set (reg_roster reg)" using assms(2) by (simp add: reg_roster_def)
  ultimately show ?thesis using None by (auto simp: log_of_def)
next
  case (Some j)
  then have j: "j < length (reg_entries reg)" "entry_sender (reg_entries reg ! j) = s"
    using index_of_Some [OF Some] by (auto simp: reg_roster_def)
  have "entry_sender (reg_entries reg ! i) = s \<longleftrightarrow> i = j"
    using assms j nth_eq_iff_index_eq [of "reg_roster reg" i j] by (auto simp: reg_inv_def reg_roster_def)
  then show ?thesis using Some assms(2) by (auto simp: log_of_def) (simp_all add: set_chain_def)
qed


section \<open>Operations keep the invariant\<close>

definition partial_reg :: "RosterEntry list \<Rightarrow> (string \<times> nat) list \<Rightarrow> SessionChainRegistry" where
  "partial_reg es bs = \<lparr>reg_gameId = [], reg_entries = es, reg_bySender = bs\<rparr>"

lemma partial_reg_snoc:
  assumes "reg_inv (partial_reg es bs)" "map_of bs (bytesToHex s) = None"
  shows "reg_inv (partial_reg (es @ [\<lparr>entry_seat = length es, entry_sender = s, entry_chain = chain_of s []\<rparr>])
    (AList.update (bytesToHex s) (length es) bs))"
proof -
  have b: "bs = map (\<lambda>i. (bytesToHex (entry_sender (es ! i)), i)) [0..<length es]"
    and d: "distinct (map entry_sender es)"
    and es: "\<forall>i < length es. entry_seat (es ! i) = i \<and> ch_sender (entry_chain (es ! i)) = entry_sender (es ! i) \<and>
        chain_inv (entry_chain (es ! i))"
    using assms(1) unfolding reg_inv_def by (simp_all add: partial_reg_def reg_roster_def)
  have new: "s \<notin> set (map entry_sender es)"
    using assms(2) unfolding b map_of_eq_None_iff by (fastforce simp: in_set_conv_nth image_iff)
  have "AList.update (bytesToHex s) (length es) bs = bs @ [(bytesToHex s, length es)]"
    using assms(2) by (intro update_new) (simp add: map_of_eq_None_iff)
  moreover have "chain_inv (chain_of s [])" by (simp add: chain_inv_def linked_def)
  ultimately show ?thesis
    unfolding reg_inv_def using d es new b
    by (simp add: partial_reg_def reg_roster_def nth_append less_Suc_eq)
qed

lemma roster_entries_inv:
  assumes "roster_entries pr es bs roster = Inr (es', bs')" "reg_inv (partial_reg es bs)"
  shows "reg_inv (partial_reg es' bs') \<and> map JBytes (map entry_sender es') = map JBytes (map entry_sender es) @ roster \<and>
    (\<forall>e \<in> set es'. e \<in> set es \<or> chain_log (entry_chain e) = []) \<and>
    (\<forall>e \<in> set es'. e \<in> set es \<or> length (entry_sender e) = 32)"
  using assms
proof (induction pr es bs roster rule: roster_entries.induct)
  case (1 pr es bs)
  then show ?case by simp
next
  case (2 pr es bs v roster)
  obtain s k where s: "v = JBytes s" "length s = 32" "importEd25519PublicKey pr s = Inr k" "map_of bs (bytesToHex s) = None"
    and r: "roster_entries pr (es @ [\<lparr>entry_seat = length es, entry_sender = s, entry_chain = chain_of s []\<rparr>])
       (AList.update (bytesToHex s) (length es) bs) roster = Inr (es', bs')"
    using 2(2) by (auto simp: result_simps field_defs newSenderChain_Inr Let_def split: if_splits)
  have "parseIdentityPublicKey v = Inr s" "newSenderChain (JBytes s) = Inr (chain_of s [])"
    using s(1,2) by (simp_all add: field_defs newSenderChain_Inr)
  then have "reg_inv (partial_reg es' bs') \<and>
      map JBytes (map entry_sender es') =
        map JBytes (map entry_sender (es @ [\<lparr>entry_seat = length es, entry_sender = s, entry_chain = chain_of s []\<rparr>])) @ roster \<and>
      (\<forall>e \<in> set es'. e \<in> set (es @ [\<lparr>entry_seat = length es, entry_sender = s, entry_chain = chain_of s []\<rparr>]) \<or> chain_log (entry_chain e) = []) \<and>
      (\<forall>e \<in> set es'. e \<in> set (es @ [\<lparr>entry_seat = length es, entry_sender = s, entry_chain = chain_of s []\<rparr>]) \<or> length (entry_sender e) = 32)"
    using s(3,4) r partial_reg_snoc [OF 2(3) s(4)] by (intro 2(1)) simp_all
  then show ?case using s(1,2) by auto
qed

lemma newSessionChainRegistry_inv:
  assumes "newSessionChainRegistry pr g roster = Inr reg"
  shows "reg_inv reg" "map JBytes (reg_roster reg) = roster" "g = JBytes (reg_gameId reg)" "log_of reg s = []"
    "MIN_SESSION_SEATS \<le> length (reg_entries reg)" "length (reg_entries reg) \<le> MAX_SESSION_SEATS"
proof -
  obtain es bs gid where reg: "reg = \<lparr>reg_gameId = gid, reg_entries = es, reg_bySender = bs\<rparr>" "g = JBytes gid"
    and r: "roster_entries pr [] [] roster = Inr (es, bs)"
    and len: "MIN_SESSION_SEATS \<le> length roster" "length roster \<le> MAX_SESSION_SEATS"
    using assms by (auto simp: newSessionChainRegistry_def result_simps field_defs not_less split: if_splits)
  have "reg_inv (partial_reg [] [])" by (simp add: reg_inv_def partial_reg_def reg_roster_def)
  from roster_entries_inv [OF r this] have *: "reg_inv (partial_reg es bs)" "map JBytes (map entry_sender es) = roster"
    "\<forall>e \<in> set es. chain_log (entry_chain e) = []" by auto
  then show "reg_inv reg" unfolding reg_inv_def by (simp add: partial_reg_def reg_roster_def reg(1))
  show "map JBytes (reg_roster reg) = roster" using *(2) reg(1) by (simp add: reg_roster_def)
  have "length es = length roster" using arg_cong [OF *(2), of length] by simp
  then show "MIN_SESSION_SEATS \<le> length (reg_entries reg)" "length (reg_entries reg) \<le> MAX_SESSION_SEATS"
    using len reg(1) by simp_all
  show "g = JBytes (reg_gameId reg)" using reg by simp
  show "log_of reg s = []"
    using *(3) index_of_Some [of "reg_roster reg" s] reg(1)
    by (auto simp: log_of_def reg_roster_def split: option.splits)
qed

lemma reg_ingest_accepted:
  assumes "reg_inv reg" "result_accepted (reg_classify reg a)"
  obtains i where "entry_of reg (env_from (art_envelope a)) = Some i"
    "is_accepted (chain_classify (entry_chain (reg_entries reg ! i)) a)"
    "reg_ingest reg a = (set_chain i (fst (chain_ingest (entry_chain (reg_entries reg ! i)) a)) reg, Inr (reg_classify reg a))"
proof -
  obtain i where i: "entry_of reg (env_from (art_envelope a)) = Some i"
    "reg_classify reg a = ChainResult (chain_classify (entry_chain (reg_entries reg ! i)) a)"
    using assms(2) by (auto simp: reg_classify_def split: if_splits option.splits)
  then have "reg_ingest reg a = (set_chain i (fst (chain_ingest (entry_chain (reg_entries reg ! i)) a)) reg, Inr (reg_classify reg a))"
    using assms(2) by (simp add: reg_ingest_def Let_def chain_ingest_snd split: prod.splits) (metis chain_ingest_snd snd_conv)
  then show ?thesis using i assms(2) by (intro that [of i]) simp_all
qed

lemma reg_ingest_refused: "\<not> result_accepted (reg_classify reg a) \<Longrightarrow> reg_ingest reg a = (reg, Inr (reg_classify reg a))"
  by (simp add: reg_ingest_def Let_def)

lemma reg_ingest_result: "reg_inv reg \<Longrightarrow> snd (reg_ingest reg a) = Inr (reg_classify reg a)"
  by (cases "result_accepted (reg_classify reg a)") (auto simp: reg_ingest_refused elim: reg_ingest_accepted)

lemma reg_ingest_step:
  assumes "reg_inv reg"
  shows "reg_inv (fst (reg_ingest reg a))" "reg_roster (fst (reg_ingest reg a)) = reg_roster reg"
    "reg_gameId (fst (reg_ingest reg a)) = reg_gameId reg"
    "log_of (fst (reg_ingest reg a)) s =
       (if result_accepted (reg_classify reg a) \<and> env_from (art_envelope a) = s then log_of reg s @ [a] else log_of reg s)"
proof -
  have "reg_inv (fst (reg_ingest reg a)) \<and> reg_roster (fst (reg_ingest reg a)) = reg_roster reg \<and>
    reg_gameId (fst (reg_ingest reg a)) = reg_gameId reg \<and> log_of (fst (reg_ingest reg a)) s =
       (if result_accepted (reg_classify reg a) \<and> env_from (art_envelope a) = s then log_of reg s @ [a] else log_of reg s)"
  proof (cases "result_accepted (reg_classify reg a)")
    case True
    obtain i where i: "entry_of reg (env_from (art_envelope a)) = Some i"
      "is_accepted (chain_classify (entry_chain (reg_entries reg ! i)) a)"
      "fst (reg_ingest reg a) = set_chain i (fst (chain_ingest (entry_chain (reg_entries reg ! i)) a)) reg"
      using reg_ingest_accepted [OF assms True] by (metis fst_conv)
    note e = entry_of_Some [OF assms i(1)]
    note c = chain_ingest_inv [OF e(4), of a]
    have "reg_inv (fst (reg_ingest reg a))" unfolding i(3) using c e by (intro set_chain_inv [OF assms]) auto
    moreover have "chain_log (fst (chain_ingest (entry_chain (reg_entries reg ! i)) a)) = chain_log (entry_chain (reg_entries reg ! i)) @ [a]"
      using c(2) i(2) by (simp add: chain_ingest_snd)
    moreover have "reg_gameId (fst (reg_ingest reg a)) = reg_gameId reg" unfolding i(3) by (simp add: set_chain_def)
    ultimately show ?thesis
      using True e(2,5) unfolding i(3) log_of_set_chain [OF assms e(1)] by auto
  next
    case False
    then show ?thesis using assms by (simp add: reg_ingest_refused)
  qed
  then show "reg_inv (fst (reg_ingest reg a))" "reg_roster (fst (reg_ingest reg a)) = reg_roster reg"
    "reg_gameId (fst (reg_ingest reg a)) = reg_gameId reg"
    "log_of (fst (reg_ingest reg a)) s =
       (if result_accepted (reg_classify reg a) \<and> env_from (art_envelope a) = s then log_of reg s @ [a] else log_of reg s)"
    by simp_all
qed

interpretation registry_log: append_log reg_inv "\<lambda>reg a. fst (reg_ingest reg a)"
  "\<lambda>reg a. result_accepted (reg_classify reg a) \<and> env_from (art_envelope a) = s" "\<lambda>reg. log_of reg s" for s
  by unfold_locales (auto simp: reg_ingest_step)


section \<open>Reading\<close>

lemma log_of_linked: "reg_inv reg \<Longrightarrow> linked s (log_of reg s)"
proof (cases "index_of (reg_roster reg) s")
  case None
  then show ?thesis by (simp add: log_of_def linked_def)
next
  case (Some i)
  assume inv: "reg_inv reg"
  then have e: "entry_of reg s = Some i" using Some entry_of_index by simp
  show ?thesis using entry_of_Some [OF inv e] by (simp add: chain_inv_def)
qed

lemma collect_range_of:
  "collect_range (chain_of s as) i n acc =
     (if n = 0 then RangeComplete acc else if i + n \<le> length as then RangeComplete (acc @ take n (drop i as))
      else RangeMissing (max i (length as)))"
proof (induction n arbitrary: i acc)
  case (Suc n)
  show ?case
  proof (cases "i < length as")
    case True
    have "as ! i # take n (drop (Suc i) as) = take (Suc n) (drop i as)"
      using True by (simp add: Cons_nth_drop_Suc [symmetric])
    then show ?thesis using Suc True by (auto simp: chain_get_of max_def)
  next
    case False
    then show ?thesis by (simp add: chain_get_of max_def)
  qed
qed simp

lemma chain_of_head: "ch_head (chain_of s as) = (if as = [] then None
    else Some \<lparr>head_from = s, head_seq = length as - 1, head_hash = art_hash (last as)\<rparr>)"
  by (simp add: chain_of_def)

lemma reg_readRange_eq:
  assumes "reg_inv reg" "safe_nat i" "safe_nat j" "i \<le> j"
  shows "reg_readRange reg s i j = Inr
    (if s \<notin> set (reg_roster reg) then RangeUnknownSender
     else if j < length (log_of reg s) then RangeComplete (take (Suc j - i) (drop i (log_of reg s)))
     else RangeMissing (max i (length (log_of reg s))))"
proof (cases "entry_of reg s")
  case None
  then show ?thesis
    using assms by (simp add: reg_readRange_def assertSequence_def entry_of_index index_of_None [symmetric])
next
  case (Some k)
  note e = entry_of_Some [OF assms(1) Some]
  have mem: "s \<in> set (reg_roster reg)"
    using Some entry_of_index [OF assms(1)] index_of_None [of "reg_roster reg" s] by (metis option.distinct(1))
  obtain as where as: "entry_chain (reg_entries reg ! k) = chain_of s as" "log_of reg s = as"
    using e by (auto simp: chain_inv_def)
  have "Suc j - i \<noteq> 0" "i + (Suc j - i) = Suc j" using assms(4) by simp_all
  then have range: "collect_range (chain_of s as) i (Suc j - i) [] =
      (if Suc j \<le> length as then RangeComplete (take (Suc j - i) (drop i as)) else RangeMissing (max i (length as)))"
    by (simp add: collect_range_of del: collect_range.simps)
  show ?thesis
    using assms(2-4) Some mem as
    by (auto simp: reg_readRange_def assertSequence_def Let_def chain_of_head range collect_range_of max_def
        split: if_splits simp del: collect_range.simps)
qed

text \<open>The chains of a session are independent append-only logs. An ingested artifact is appended
  to its sender's log exactly when it is classified as accepted, every other log is unchanged, a
  refused artifact changes nothing, and the internal consistency error is never thrown.\<close>

theorem registry_ingest_appends:
  assumes "reg_inv reg"
  shows "snd (reg_ingest reg a) = Inr (reg_classify reg a) \<and> reg_inv (fst (reg_ingest reg a)) \<and>
    (\<forall>s. log_of (fst (reg_ingest reg a)) s =
       (if result_accepted (reg_classify reg a) \<and> s = env_from (art_envelope a) then log_of reg s @ [a] else log_of reg s)) \<and>
    (\<not> result_accepted (reg_classify reg a) \<longrightarrow> fst (reg_ingest reg a) = reg)"
  using assms reg_ingest_step [OF assms, of a] reg_ingest_result [OF assms] by (auto simp: reg_ingest_refused)

text \<open>Reading a range of a sender's chain. In every session built from a valid roster by any
  sequence of ingested artifacts, a range up to the head is returned completely and in order, a
  range beyond it names the first missing sequence number, and a stranger is reported as such;
  the log itself is linked from the zero hash.\<close>

theorem readRange_exact:
  assumes "newSessionChainRegistry pr g roster = Inr reg0" "reg = foldl (\<lambda>r a. fst (reg_ingest r a)) reg0 xs"
    and "safe_nat i" "safe_nat j" "i \<le> j"
  shows "linked s (log_of reg s) \<and> reg_readRange reg s i j = Inr
    (if JBytes s \<notin> set roster then RangeUnknownSender
     else if j < length (log_of reg s) then RangeComplete (take (Suc j - i) (drop i (log_of reg s)))
     else RangeMissing (max i (length (log_of reg s))))"
proof -
  note new = newSessionChainRegistry_inv [OF assms(1)]
  have inv: "reg_inv reg" unfolding assms(2) by (rule registry_log.fold_put_good [OF new(1)])
  have "reg_inv r \<Longrightarrow> reg_roster (foldl (\<lambda>r a. fst (reg_ingest r a)) r xs) = reg_roster r" for r
    by (induction xs arbitrary: r) (simp_all add: reg_ingest_step)
  then have "reg_roster reg = reg_roster reg0" using new(1) assms(2) by simp
  then have "s \<in> set (reg_roster reg) \<longleftrightarrow> JBytes s \<in> set roster" using new(2) by (auto simp flip: new(2))
  then show ?thesis using reg_readRange_eq [OF inv assms(3-5), of s] log_of_linked [OF inv] by simp
qed

section \<open>Examples\<close>

definition example_roster :: "bytes list" where
  "example_roster = [replicate 32 9, replicate 32 1, replicate 32 2]"

definition example_registry :: SessionChainRegistry where
  "example_registry = \<lparr>reg_gameId = replicate 16 7,
     reg_entries = map (\<lambda>i. \<lparr>entry_seat = i, entry_sender = example_roster ! i, entry_chain = chain_of (example_roster ! i) []\<rparr>) [0..<3],
     reg_bySender = map (\<lambda>i. (bytesToHex (example_roster ! i), i)) [0..<3]\<rparr>"

lemma example_registry_new:
  "newSessionChainRegistry example_prims (JBytes (replicate 16 7)) (map JBytes example_roster) = Inr example_registry"
proof -
  have k: "(replicate 32 (9::byte) = replicate 32 1) = False" "(replicate 32 (9::byte) = replicate 32 2) = False"
    "(replicate 32 (1::byte) = replicate 32 2) = False"
    by simp_all
  have i: "importEd25519PublicKey example_prims (replicate 32 b) = Inr (replicate 32 b)" for b
    by (simp add: importEd25519PublicKey_def assertLength_def ED25519_PUBLIC_KEY_LENGTH_def isAcceptablePublicKey_def example_prims_def)
  have n: "newSenderChain (JBytes (replicate 32 b)) = Inr (chain_of (replicate 32 b) [])" for b
    by (simp add: newSenderChain_Inr)
  have p: "parseIdentityPublicKey (JBytes (replicate 32 b)) = Inr (replicate 32 b)" for b
    by (simp add: field_defs)
  show ?thesis
    using k by (simp add: newSessionChainRegistry_def parseGameId_def parseFixedBytes_def example_roster_def i n p
        MIN_SESSION_SEATS_def MAX_SESSION_SEATS_def example_registry_def upt_rec eval_nat_numeral(3) [symmetric])
qed


lemma example_registry_inv: "reg_inv example_registry"
  using newSessionChainRegistry_inv(1) [OF example_registry_new] .

lemma example_entry: "entry_of example_registry (replicate 32 9) = Some 0"
  by (simp add: entry_of_def example_registry_def example_roster_def upt_rec)

lemma example_classify:
  "reg_classify example_registry example_artifact =
     ChainResult (Accepted \<lparr>head_from = replicate 32 9, head_seq = 0, head_hash = replicate 32 3\<rparr> example_artifact)"
proof -
  have "entry_chain (reg_entries example_registry ! 0) = chain_of (replicate 32 9) []"
    by (simp add: example_registry_def example_roster_def)
  moreover have "env_from (art_envelope example_artifact) = replicate 32 9" "env_game (art_envelope example_artifact) = replicate 16 7"
    by (simp_all add: example_artifact_def example_signed_def example_envelope_def)
  ultimately show ?thesis
    using example_artifact_linked
    by (simp add: reg_classify_def example_entry chain_classify_of linked_def)
      (simp add: example_registry_def example_artifact_def)
qed

theorem registry_ingest_appends_example:
  "snd (reg_ingest example_registry example_artifact) = Inr (reg_classify example_registry example_artifact) \<and>
    reg_inv (fst (reg_ingest example_registry example_artifact)) \<and>
    log_of (fst (reg_ingest example_registry example_artifact)) (replicate 32 9) =
      log_of example_registry (replicate 32 9) @ [example_artifact]"
  using registry_ingest_appends [OF example_registry_inv, of example_artifact]
  by (simp add: example_classify) (simp add: example_artifact_def example_signed_def example_envelope_def)

theorem readRange_exact_example:
  "linked (replicate 32 9) (log_of (fst (reg_ingest example_registry example_artifact)) (replicate 32 9)) \<and>
    reg_readRange (fst (reg_ingest example_registry example_artifact)) (replicate 32 9) 0 0 = Inr (RangeComplete [example_artifact])"
proof -
  have "log_of (fst (reg_ingest example_registry example_artifact)) (replicate 32 9) = [example_artifact]"
    using reg_ingest_step(4) [OF example_registry_inv, of example_artifact "replicate 32 9"]
      newSessionChainRegistry_inv(4) [OF example_registry_new, of "replicate 32 9"]
    by (simp add: example_classify) (simp add: example_artifact_def example_signed_def example_envelope_def)
  moreover have "JBytes (replicate 32 9) \<in> set (map JBytes example_roster)" by (simp add: example_roster_def)
  ultimately show ?thesis
    using readRange_exact [OF example_registry_new, of "fst (reg_ingest example_registry example_artifact)" "[example_artifact]" 0 0 "replicate 32 9"]
    by (simp add: safe_nat_def MAX_SAFE_INTEGER_def)
qed

end
