(* ===== verification/Protocol_Bodies.thy ===== *)
theory Protocol_Bodies
  imports Protocol_Envelope_Props
begin

text \<open>
  Message bodies of \<^verbatim>\<open>packages/protocol\<close>: heads of a witness (\<open>witness.ts\<close>), requests and responses of
  the synchronisation (\<open>sync.ts\<close>), and the evidence of an equivocation (\<open>violation.ts\<close>), each
  with its encoder, its decoder and their round trip.
\<close>

abbreviation schemaError :: "string \<Rightarrow> string \<Rightarrow> protocol_error + 'a" where
  "schemaError path msg \<equiv> Inl (ProtocolSchemaError path msg)"

section \<open>Identities and hashes in bodies\<close>

definition as_schema_error :: "string \<Rightarrow> string \<Rightarrow> protocol_error \<Rightarrow> protocol_error" where
  "as_schema_error path msg cause =
     (case cause of ProtocolSchemaError _ _ \<Rightarrow> cause | _ \<Rightarrow> ProtocolSchemaError path msg)"

definition decodeIdentity :: "CborValue \<Rightarrow> string \<Rightarrow> protocol_error + bytes" where
  "decodeIdentity v path =
     catch_as (rbind (expectByteString v path) (\<lambda>b. parseIdentityPublicKey (JBytes b)))
       (as_schema_error path ''must be a 32-byte identity key'')"

definition decodeHash :: "CborValue \<Rightarrow> string \<Rightarrow> protocol_error + bytes" where
  "decodeHash v path =
     catch_as (rbind (expectByteString v path) (\<lambda>b. parseHash256 (JBytes b)))
       (as_schema_error path ''must be a 32-byte hash'')"

section \<open>Witness bodies\<close>

record WitnessHead =
  wh_from :: bytes
  wh_seq :: nat
  wh_hash :: bytes

record WitnessBody =
  wb_heads :: "WitnessHead list"
  wb_stateHash :: "bytes option"

definition MAX_WITNESS_HEADS :: nat where
  "MAX_WITNESS_HEADS = 8"

fun rejectDuplicateSenders :: "string list \<Rightarrow> WitnessHead list \<Rightarrow> protocol_error + unit" where
  "rejectDuplicateSenders senders [] = Inr ()"
| "rejectDuplicateSenders senders (head # heads) =
     (let sender = bytesToHex (wh_from head) in
      if sender \<in> set senders then schemaError ''WITNESS.body.heads'' ''contains duplicate sender''
      else rejectDuplicateSenders (sender # senders) heads)"

definition normalizeHead :: "CborValue \<Rightarrow> CborValue \<Rightarrow> CborValue \<Rightarrow> protocol_error + WitnessHead" where
  "normalizeHead f s h =
     rbind (decodeIdentity f ''WITNESS.body.heads.from'') (\<lambda>from.
     rbind (expectUnsignedInteger s ''WITNESS.body.heads.seq'' MAX_SAFE_INTEGER) (\<lambda>seq.
     rbind (decodeHash h ''WITNESS.body.heads.hash'') (\<lambda>hash.
     Inr \<lparr>wh_from = from, wh_seq = seq, wh_hash = hash\<rparr>)))"

definition normalizeHeads :: "WitnessHead list \<Rightarrow> protocol_error + WitnessHead list" where
  "normalizeHeads heads =
     (if length heads > MAX_WITNESS_HEADS then schemaError ''WITNESS.body.heads'' ''must contain at most 8 entries''
      else rbind (mapM_res (\<lambda>head. normalizeHead (JBytes (wh_from head)) (jnat (wh_seq head)) (JBytes (wh_hash head))) heads) (\<lambda>normalized.
           rbind (rejectDuplicateSenders [] normalized) (\<lambda>_. Inr normalized)))"

definition encodedHead :: "WitnessHead \<Rightarrow> jsval" where
  "encodedHead head = JObject [(ascii ''from'', JBytes (wh_from head)), (ascii ''seq'', jnat (wh_seq head)),
     (ascii ''hash'', JBytes (wh_hash head))]"

definition encodeWitnessBody :: "WitnessBody \<Rightarrow> protocol_error + CborValue" where
  "encodeWitnessBody body =
     rbind (normalizeHeads (wb_heads body)) (\<lambda>heads.
     case wb_stateHash body of
       Some stateHash \<Rightarrow> rbind (decodeHash (JBytes stateHash) ''WITNESS.body.state_hash'') (\<lambda>h.
         Inr (JObject [(ascii ''heads'', JArray (map encodedHead heads)), (ascii ''state_hash'', JBytes h)]))
     | None \<Rightarrow> Inr (JObject [(ascii ''heads'', JArray (map encodedHead heads))]))"

definition hasMapKey :: "CborValue \<Rightarrow> string \<Rightarrow> bool" where
  "hasMapKey v key = (case v of JObject ps \<Rightarrow> map_of ps (ascii key) \<noteq> None | _ \<Rightarrow> False)"

definition decodeWitnessHead :: "CborValue \<Rightarrow> protocol_error + WitnessHead" where
  "decodeWitnessHead candidate =
     rbind (expectExactMap candidate [''from'', ''seq'', ''hash''] ''WITNESS.body.heads'') (\<lambda>head.
     normalizeHead (get_prop head ''from'') (get_prop head ''seq'') (get_prop head ''hash''))"

definition decodeWitnessBody :: "CborValue \<Rightarrow> protocol_error + WitnessBody" where
  "decodeWitnessBody v =
     rbind (expectExactMap v (if hasMapKey v ''state_hash'' then [''heads'', ''state_hash''] else [''heads'']) ''WITNESS.body'') (\<lambda>body.
     rbind (expectArray (get_prop body ''heads'') ''WITNESS.body.heads'') (\<lambda>encodedHeads.
     if length encodedHeads > MAX_WITNESS_HEADS
     then schemaError ''WITNESS.body.heads'' ''must contain at most 8 entries''
     else rbind (mapM_res decodeWitnessHead encodedHeads) (\<lambda>heads.
       rbind (rejectDuplicateSenders [] heads) (\<lambda>_.
       if map_of body (ascii ''state_hash'') \<noteq> None
       then rbind (decodeHash (get_prop body ''state_hash'') ''WITNESS.body.state_hash'') (\<lambda>h.
              Inr \<lparr>wb_heads = heads, wb_stateHash = Some h\<rparr>)
       else Inr \<lparr>wb_heads = heads, wb_stateHash = None\<rparr>))))"

section \<open>Synchronisation bodies\<close>

record SyncRequestBody =
  sr_from :: bytes
  sr_fromSeq :: nat
  sr_toSeq :: nat

type_synonym SyncResponseBody = "EnvelopeArtifact list"

definition normalizeSyncRequest :: "CborValue \<Rightarrow> CborValue \<Rightarrow> CborValue \<Rightarrow> protocol_error + SyncRequestBody" where
  "normalizeSyncRequest f fs ts =
     rbind (decodeIdentity f ''SYNC_REQ.body.from'') (\<lambda>from.
     rbind (expectUnsignedInteger fs ''SYNC_REQ.body.from_seq'' MAX_SAFE_INTEGER) (\<lambda>fromSeq.
     rbind (expectUnsignedInteger ts ''SYNC_REQ.body.to_seq'' MAX_SAFE_INTEGER) (\<lambda>toSeq.
     if fromSeq > toSeq then schemaError ''SYNC_REQ.body'' ''from_seq must be less than or equal to to_seq''
     else Inr \<lparr>sr_from = from, sr_fromSeq = fromSeq, sr_toSeq = toSeq\<rparr>)))"

definition encodeSyncRequestBody :: "SyncRequestBody \<Rightarrow> protocol_error + CborValue" where
  "encodeSyncRequestBody body =
     rbind (normalizeSyncRequest (JBytes (sr_from body)) (jnat (sr_fromSeq body)) (jnat (sr_toSeq body))) (\<lambda>normalized.
     Inr (JObject [(ascii ''from'', JBytes (sr_from normalized)), (ascii ''from_seq'', jnat (sr_fromSeq normalized)),
       (ascii ''to_seq'', jnat (sr_toSeq normalized))]))"

definition decodeSyncRequestBody :: "CborValue \<Rightarrow> protocol_error + SyncRequestBody" where
  "decodeSyncRequestBody v =
     rbind (expectExactMap v [''from'', ''from_seq'', ''to_seq''] ''SYNC_REQ.body'') (\<lambda>body.
     rbind (decodeIdentity (get_prop body ''from'') ''SYNC_REQ.body.from'') (\<lambda>from.
     rbind (expectUnsignedInteger (get_prop body ''from_seq'') ''SYNC_REQ.body.from_seq'' MAX_SAFE_INTEGER) (\<lambda>fromSeq.
     rbind (expectUnsignedInteger (get_prop body ''to_seq'') ''SYNC_REQ.body.to_seq'' MAX_SAFE_INTEGER) (\<lambda>toSeq.
     normalizeSyncRequest (JBytes from) (jnat fromSeq) (jnat toSeq)))))"

definition encodeSyncResponseBody :: "prims \<Rightarrow> SyncResponseBody \<Rightarrow> protocol_error + CborValue" where
  "encodeSyncResponseBody pr envelopes =
     (if length envelopes = 0 then schemaError ''SYNC_RESP.body.envelopes'' ''must be a non-empty array''
      else rbind (mapM_res (\<lambda>candidate.
             catch_as (rbind (decodeAndVerifyEnvelope pr (art_canonicalBytes candidate)) (\<lambda>artifact.
                         cborTry (decodeCanonical pr (art_canonicalBytes artifact))))
               (\<lambda>_. ProtocolSchemaError ''SYNC_RESP.body.envelopes'' ''must be a valid signed envelope artifact'')) envelopes)
        (\<lambda>encoded. Inr (JObject [(ascii ''envelopes'', JArray encoded)])))"

definition decodeSyncResponseBody :: "prims \<Rightarrow> CborValue \<Rightarrow> protocol_error + SyncResponseBody" where
  "decodeSyncResponseBody pr v =
     rbind (expectExactMap v [''envelopes''] ''SYNC_RESP.body'') (\<lambda>body.
     rbind (expectArray (get_prop body ''envelopes'') ''SYNC_RESP.body.envelopes'') (\<lambda>encoded.
     if length encoded = 0 then schemaError ''SYNC_RESP.body.envelopes'' ''must be a non-empty array''
     else mapM_res (\<lambda>candidate.
            catch_as (rbind (cborTry (encodeCanonical pr candidate)) (decodeAndVerifyEnvelope pr))
              (\<lambda>_. ProtocolSchemaError ''SYNC_RESP.body.envelopes'' ''must be a canonical signed envelope'')) encoded))"

section \<open>Evidence of an equivocation\<close>

record EquivocationViolationBody =
  ev_seat :: nat
  ev_left :: EnvelopeArtifact
  ev_right :: EnvelopeArtifact

text \<open>Hashes have equal length, so the missing-byte case of the code does not arise.\<close>

fun compareBytes :: "bytes \<Rightarrow> bytes \<Rightarrow> int" where
  "compareBytes (x # xs) (y # ys) = (let difference = uint x - uint y in if difference \<noteq> 0 then difference else compareBytes xs ys)"
| "compareBytes _ _ = 0"

definition normalizeEvidence ::
    "prims \<Rightarrow> EnvelopeArtifact list \<Rightarrow> bool \<Rightarrow> protocol_error + EnvelopeArtifact \<times> EnvelopeArtifact" where
  "normalizeEvidence pr candidates requireCanonicalOrder =
     (if length candidates \<noteq> 2 then schemaError ''VIOLATION.body.evidence'' ''must contain exactly two envelopes''
      else rbind (mapM_res (\<lambda>candidate. catch_as (decodeAndVerifyEnvelope pr (art_canonicalBytes candidate))
                 (\<lambda>_. ProtocolSchemaError ''VIOLATION.body.evidence'' ''must be a valid signed envelope artifact'')) candidates) (\<lambda>evidence.
        let left = evidence ! 0; right = evidence ! 1 in
        if \<not> bytesEqual (env_game (art_envelope left)) (env_game (art_envelope right)) \<or>
           \<not> bytesEqual (env_from (art_envelope left)) (env_from (art_envelope right)) \<or>
           env_seq (art_envelope left) \<noteq> env_seq (art_envelope right)
        then schemaError ''VIOLATION.body.evidence'' ''envelopes must have the same game, sender, and sequence''
        else if bytesEqual (art_hash left) (art_hash right)
        then schemaError ''VIOLATION.body.evidence'' ''envelopes must have different hashes''
        else let order = compareBytes (art_hash left) (art_hash right) in
          if requireCanonicalOrder \<and> order > 0
          then schemaError ''VIOLATION.body.evidence'' ''envelopes must be ordered by ascending hash''
          else Inr (if order < 0 then (left, right) else (right, left))))"

definition encodeEquivocationViolationBody :: "prims \<Rightarrow> EquivocationViolationBody \<Rightarrow> protocol_error + CborValue" where
  "encodeEquivocationViolationBody pr body =
     rbind (expectUnsignedInteger (jnat (ev_seat body)) ''VIOLATION.body.seat'' 7) (\<lambda>seat.
     rbind (normalizeEvidence pr [ev_left body, ev_right body] False) (\<lambda>(left, right).
     rbind (mapM_res (\<lambda>artifact. cborTry (decodeCanonical pr (art_canonicalBytes artifact))) [left, right]) (\<lambda>evidence.
     Inr (JObject [(ascii ''seat'', jnat seat), (ascii ''reason'', JString (ascii ''equivocation'')),
       (ascii ''evidence'', JArray evidence)]))))"

definition decodeEquivocationViolationBody :: "prims \<Rightarrow> CborValue \<Rightarrow> protocol_error + EquivocationViolationBody" where
  "decodeEquivocationViolationBody pr v =
     rbind (expectExactMap v [''seat'', ''reason'', ''evidence''] ''VIOLATION.body'') (\<lambda>body.
     rbind (expectUnsignedInteger (get_prop body ''seat'') ''VIOLATION.body.seat'' 7) (\<lambda>seat.
     rbind (expectNonEmptyText (get_prop body ''reason'') ''VIOLATION.body.reason'') (\<lambda>reason.
     if reason \<noteq> ascii ''equivocation'' then schemaError ''VIOLATION.body.reason'' ''must be exactly equivocation''
     else rbind (expectArray (get_prop body ''evidence'') ''VIOLATION.body.evidence'') (\<lambda>encodedEvidence.
       if length encodedEvidence \<noteq> 2 then schemaError ''VIOLATION.body.evidence'' ''must contain exactly two envelopes''
       else rbind (mapM_res (\<lambda>candidate. catch_as (rbind (cborTry (encodeCanonical pr candidate)) (decodeAndVerifyEnvelope pr))
                     (\<lambda>_. ProtocolSchemaError ''VIOLATION.body.evidence'' ''must be a valid signed envelope'')) encodedEvidence) (\<lambda>evidence.
         rbind (normalizeEvidence pr evidence True) (\<lambda>(left, right).
         Inr \<lparr>ev_seat = seat, ev_left = left, ev_right = right\<rparr>))))))"

section \<open>Reading bodies\<close>

lemma decodeIdentity_Inr [simp]: "decodeIdentity v path = Inr b \<longleftrightarrow> v = JBytes b \<and> length b = 32"
  by (auto simp: decodeIdentity_def result_simps expectByteString_def field_defs split: jsval.splits)

lemma decodeHash_Inr [simp]: "decodeHash v path = Inr b \<longleftrightarrow> v = JBytes b \<and> length b = 32"
  by (auto simp: decodeHash_def result_simps expectByteString_def field_defs split: jsval.splits)

lemma decode_ok: "length b = 32 \<Longrightarrow> decodeIdentity (JBytes b) path = Inr b" "length b = 32 \<Longrightarrow> decodeHash (JBytes b) path = Inr b"
  by simp_all

lemma expectUnsignedInteger_Inr:
  "expectUnsignedInteger v path m = Inr n \<longleftrightarrow> reads_nat v n \<and> safe_nat n \<and> int n \<le> m"
proof -
  have *: "expectUnsignedInteger (JNumber k) path m = Inr n \<longleftrightarrow> (k = JInt (int n) \<or> k = JNegZero \<and> n = 0) \<and> safe_nat n \<and> int n \<le> m" for k
    by (cases k) (auto simp: expectUnsignedInteger_def safe_nat_def MAX_SAFE_INTEGER_def)
  show ?thesis by (cases v) (auto simp: *, auto simp: expectUnsignedInteger_def reads_nat_def)
qed

lemma expectUnsignedInteger_jnat [simp]:
  "expectUnsignedInteger (jnat k) path m = Inr n \<longleftrightarrow> k = n \<and> safe_nat n \<and> int n \<le> m"
  by (auto simp: expectUnsignedInteger_Inr reads_nat_def)

lemma expectExactMap_Inr [simp]: "expectExactMap v ks path = Inr ps \<longleftrightarrow> v = JObject ps \<and> has_exactly ps ks"
  by (auto simp: expectExactMap_def isCborMap_def split: jsval.splits)

lemma expectArray_Inr [simp]: "expectArray v path = Inr vs \<longleftrightarrow> v = JArray vs"
  by (auto simp: expectArray_def split: jsval.splits)

lemma expectNonEmptyText_Inr [simp]: "expectNonEmptyText v path = Inr s \<longleftrightarrow> v = JString s \<and> s \<noteq> []"
  by (auto simp: expectNonEmptyText_def split: jsval.splits)

lemma rejectDuplicateSenders_Inr:
  "rejectDuplicateSenders seen hs = Inr u \<longleftrightarrow> distinct (map wh_from hs) \<and> (\<forall>h \<in> set hs. bytesToHex (wh_from h) \<notin> set seen)"
  by (induction hs arbitrary: seen) (auto simp: Let_def image_iff)

definition head_ok :: "WitnessHead \<Rightarrow> bool" where
  "head_ok h \<longleftrightarrow> length (wh_from h) = 32 \<and> safe_nat (wh_seq h) \<and> length (wh_hash h) = 32"

lemma normalizeHead_Inr:
  "normalizeHead (JBytes f) (jnat s) (JBytes h) = Inr w \<longleftrightarrow> w = \<lparr>wh_from = f, wh_seq = s, wh_hash = h\<rparr> \<and> head_ok w"
  by (auto simp: normalizeHead_def result_simps head_ok_def safe_nat_def)

lemma normalizeHead_self:
  "normalizeHead (JBytes (wh_from h)) (jnat (wh_seq h)) (JBytes (wh_hash h)) = Inr w \<longleftrightarrow> w = h \<and> head_ok h"
  by (cases h) (auto simp: normalizeHead_Inr)

lemma mapM_normalizeHead:
  "mapM_res (\<lambda>head. normalizeHead (JBytes (wh_from head)) (jnat (wh_seq head)) (JBytes (wh_hash head))) hs = Inr ws \<longleftrightarrow>
     ws = hs \<and> list_all head_ok hs"
  by (induction hs arbitrary: ws) (auto simp: result_simps normalizeHead_self)

definition witness_ok :: "WitnessBody \<Rightarrow> bool" where
  "witness_ok b \<longleftrightarrow> length (wb_heads b) \<le> MAX_WITNESS_HEADS \<and> list_all head_ok (wb_heads b) \<and>
     distinct (map wh_from (wb_heads b)) \<and> (case wb_stateHash b of None \<Rightarrow> True | Some h \<Rightarrow> length h = 32)"

lemma normalizeHeads_Inr:
  "normalizeHeads hs = Inr ws \<longleftrightarrow> ws = hs \<and> length hs \<le> MAX_WITNESS_HEADS \<and> list_all head_ok hs \<and> distinct (map wh_from hs)"
  by (auto simp: normalizeHeads_def result_simps mapM_normalizeHead rejectDuplicateSenders_Inr)

lemma decodeWitnessHead_encoded: "head_ok h \<Longrightarrow> decodeWitnessHead (encodedHead h) = Inr h"
  by (simp add: decodeWitnessHead_def encodedHead_def expectExactMap_def isCborMap_def has_exactly_def get_prop_def normalizeHead_Inr)

lemma encodeWitnessBody_Inr:
  "encodeWitnessBody b = Inr v \<longleftrightarrow> witness_ok b \<and> v = JObject ((ascii ''heads'', JArray (map encodedHead (wb_heads b))) #
     (case wb_stateHash b of None \<Rightarrow> [] | Some h \<Rightarrow> [(ascii ''state_hash'', JBytes h)]))"
  by (auto simp: encodeWitnessBody_def result_simps normalizeHeads_Inr witness_ok_def split: option.splits)

lemma decode_encodedHeads: "list_all head_ok hs \<Longrightarrow> mapM_res decodeWitnessHead (map encodedHead hs) = Inr hs"
  by (induction hs) (simp_all add: decodeWitnessHead_encoded)

lemma has_exactly_simps:
  "has_exactly [(ascii a, x)] [a']  \<longleftrightarrow> a = a'"
  "has_exactly [(ascii a, x), (ascii b, y)] [a', b'] \<longleftrightarrow> (a' = a \<or> a' = b) \<and> (b' = a \<or> b' = b)"
  by (auto simp: has_exactly_def)

lemma decode_encoded_witness:
  assumes "encodeWitnessBody b = Inr v"
  shows "decodeWitnessBody v = Inr b"
proof -
  have ok: "witness_ok b" using assms by (simp add: encodeWitnessBody_Inr)
  then have heads: "mapM_res decodeWitnessHead (map encodedHead (wb_heads b)) = Inr (wb_heads b)"
    "rejectDuplicateSenders [] (wb_heads b) = Inr ()" "length (wb_heads b) \<le> MAX_WITNESS_HEADS"
    by (auto simp: witness_ok_def decode_encodedHeads rejectDuplicateSenders_Inr)
  show ?thesis
  proof (cases "wb_stateHash b")
    case None
    then have "v = JObject [(ascii ''heads'', JArray (map encodedHead (wb_heads b)))]"
      using assms by (simp add: encodeWitnessBody_Inr)
    then show ?thesis
      using heads None by (simp add: decodeWitnessBody_def hasMapKey_def expectExactMap_def isCborMap_def has_exactly_simps
          get_prop_def expectArray_def)
  next
    case (Some h)
    then have v: "v = JObject [(ascii ''heads'', JArray (map encodedHead (wb_heads b))), (ascii ''state_hash'', JBytes h)]"
      using assms by (simp add: encodeWitnessBody_Inr)
    have "length h = 32" using ok Some by (simp add: witness_ok_def)
    then show ?thesis
      using heads Some v by (simp add: decode_ok decodeWitnessBody_def hasMapKey_def expectExactMap_def isCborMap_def has_exactly_simps
          get_prop_def expectArray_def)
  qed
qed

text \<open>Witness bodies. A body can be encoded exactly when it has at most eight well-formed heads of
  different senders, and then it decodes to itself.\<close>

theorem witness_body_roundtrip:
  "((\<exists>v. encodeWitnessBody b = Inr v) \<longleftrightarrow> witness_ok b) \<and> (\<forall>v. encodeWitnessBody b = Inr v \<longrightarrow> decodeWitnessBody v = Inr b)"
  using decode_encoded_witness by (auto simp: encodeWitnessBody_Inr)

definition example_witness :: WitnessBody where
  "example_witness = \<lparr>wb_heads = [\<lparr>wh_from = replicate 32 9, wh_seq = 0, wh_hash = replicate 32 3\<rparr>], wb_stateHash = None\<rparr>"

theorem witness_body_roundtrip_example:
  "\<exists>v. encodeWitnessBody example_witness = Inr v \<and> decodeWitnessBody v = Inr example_witness"
proof -
  have "witness_ok example_witness"
    by (simp add: witness_ok_def example_witness_def head_ok_def safe_nat_def MAX_SAFE_INTEGER_def MAX_WITNESS_HEADS_def)
  then show ?thesis using witness_body_roundtrip [of example_witness] by auto
qed

section \<open>Synchronisation and evidence\<close>

lemma verified_reencode:
  assumes "codec_laws pr" "decodeAndVerifyEnvelope pr b = Inr a"
  shows "art_canonicalBytes a = b" "\<exists>v. decodeCanonical pr b = Inr v \<and> encodeCanonical pr v = Inr b"
  using verified_artifact(1) [OF assms] assms(2) by (auto simp: decodeAndVerifyEnvelope_Inr decodeCanonical_Inr)

definition envelopeValue :: "prims \<Rightarrow> EnvelopeArtifact \<Rightarrow> protocol_error + CborValue" where
  "envelopeValue pr a = cborTry (decodeCanonical pr (art_canonicalBytes a))"

lemma response_roundtrip_list:
  assumes laws: "codec_laws pr"
    and e: "mapM_res (\<lambda>c. catch_as (rbind (decodeAndVerifyEnvelope pr (art_canonicalBytes c)) (\<lambda>a. cborTry (decodeCanonical pr (art_canonicalBytes a)))) f) cs = Inr vs"
  shows "mapM_res (\<lambda>c. catch_as (rbind (cborTry (encodeCanonical pr c)) (decodeAndVerifyEnvelope pr)) g) vs =
    mapM_res (\<lambda>c. catch_as (decodeAndVerifyEnvelope pr (art_canonicalBytes c)) g) cs"
  using e
proof (induction cs arbitrary: vs)
  case (Cons c cs)
  obtain a v vs' where a: "decodeAndVerifyEnvelope pr (art_canonicalBytes c) = Inr a"
    "decodeCanonical pr (art_canonicalBytes a) = Inr v" "vs = v # vs'"
    "mapM_res (\<lambda>c. catch_as (rbind (decodeAndVerifyEnvelope pr (art_canonicalBytes c)) (\<lambda>a. cborTry (decodeCanonical pr (art_canonicalBytes a)))) f) cs = Inr vs'"
    using Cons.prems by (auto simp: result_simps)
  have "art_canonicalBytes a = art_canonicalBytes c" using verified_artifact(1) [OF laws a(1)] .
  then have "encodeCanonical pr v = Inr (art_canonicalBytes c)" using a(2) by (simp add: decodeCanonical_Inr)
  then show ?case using Cons.IH [OF a(4)] a(3) by simp
qed simp

text \<open>Synchronisation responses. A response that can be encoded decodes to the verified artifacts of
  its envelopes, in order; for artifacts that were verified before, to the very same list.\<close>

theorem sync_response_roundtrip:
  assumes "codec_laws pr" "encodeSyncResponseBody pr as = Inr v" "\<forall>a \<in> set as. decodeAndVerifyEnvelope pr (art_canonicalBytes a) = Inr a"
  shows "decodeSyncResponseBody pr v = Inr as"
proof -
  obtain vs where v: "v = JObject [(ascii ''envelopes'', JArray vs)]" "as \<noteq> []"
    and e: "mapM_res (\<lambda>c. catch_as (rbind (decodeAndVerifyEnvelope pr (art_canonicalBytes c)) (\<lambda>a. cborTry (decodeCanonical pr (art_canonicalBytes a))))
        (\<lambda>_. ProtocolSchemaError ''SYNC_RESP.body.envelopes'' ''must be a valid signed envelope artifact'')) as = Inr vs"
    using assms(2) by (auto simp: encodeSyncResponseBody_def result_simps split: if_splits)
  have "vs \<noteq> []" using mapM_res_length [OF e] v(2) by auto
  moreover have "mapM_res (\<lambda>c. catch_as (decodeAndVerifyEnvelope pr (art_canonicalBytes c)) g) as = Inr as"
    for g :: "protocol_error \<Rightarrow> protocol_error"
    using assms(3) by (induction as) simp_all
  then have "mapM_res (\<lambda>c. catch_as (rbind (cborTry (encodeCanonical pr c)) (decodeAndVerifyEnvelope pr)) g) vs = Inr as"
    for g :: "protocol_error \<Rightarrow> protocol_error"
    using response_roundtrip_list [OF assms(1) e, of g] by simp
  ultimately show ?thesis
    using v(1) by (simp add: decodeSyncResponseBody_def expectExactMap_def isCborMap_def has_exactly_simps get_prop_def expectArray_def)
qed

theorem sync_response_example:
  "\<exists>v. encodeSyncResponseBody example_prims [example_artifact] = Inr v \<and> decodeSyncResponseBody example_prims v = Inr [example_artifact]"
proof -
  have d: "decodeAndVerifyEnvelope example_prims (art_canonicalBytes example_artifact) = Inr example_artifact"
    using example_verified by (simp add: example_artifact_def)
  then obtain w where "decodeCanonical example_prims (art_canonicalBytes example_artifact) = Inr w"
    by (auto simp: decodeAndVerifyEnvelope_Inr)
  then have "encodeSyncResponseBody example_prims [example_artifact] = Inr (JObject [(ascii ''envelopes'', JArray [w])])"
    using d by (simp add: encodeSyncResponseBody_def)
  then show ?thesis using sync_response_roundtrip [OF example_laws, of "[example_artifact]"] d by auto
qed


text \<open>What two artifacts must show to prove an equivocation.\<close>

definition proves_equivocation :: "prims \<Rightarrow> EnvelopeArtifact \<Rightarrow> EnvelopeArtifact \<Rightarrow> bool" where
  "proves_equivocation pr a b \<longleftrightarrow> decodeAndVerifyEnvelope pr (art_canonicalBytes a) = Inr a \<and>
     decodeAndVerifyEnvelope pr (art_canonicalBytes b) = Inr b \<and>
     env_game (art_envelope a) = env_game (art_envelope b) \<and> env_from (art_envelope a) = env_from (art_envelope b) \<and>
     env_seq (art_envelope a) = env_seq (art_envelope b) \<and> art_hash a \<noteq> art_hash b"

lemma compareBytes_swap: "compareBytes ys xs = - compareBytes xs ys"
  by (induction xs ys rule: compareBytes.induct) (auto simp: Let_def)

lemma compareBytes_zero: "length xs = length ys \<Longrightarrow> compareBytes xs ys = 0 \<longleftrightarrow> xs = ys"
  by (induction xs ys rule: compareBytes.induct) (auto simp: Let_def word_uint_eq_iff)

lemma verified_self:
  assumes "codec_laws pr" "decodeAndVerifyEnvelope pr b = Inr a"
  shows "decodeAndVerifyEnvelope pr (art_canonicalBytes a) = Inr a" "length (art_hash a) = 32"
  using verified_artifact [OF assms] assms(2) by (auto simp: artifact_ok_def)

lemma normalizeEvidence_Inr:
  assumes "codec_laws pr" "normalizeEvidence pr [a, b] strict = Inr (l, r)"
  shows "proves_equivocation pr l r" "compareBytes (art_hash l) (art_hash r) < 0"
    "\<exists>x y. decodeAndVerifyEnvelope pr (art_canonicalBytes a) = Inr x \<and> decodeAndVerifyEnvelope pr (art_canonicalBytes b) = Inr y \<and>
       (l = x \<and> r = y \<or> \<not> strict \<and> l = y \<and> r = x)"
proof -
  obtain x y where v: "decodeAndVerifyEnvelope pr (art_canonicalBytes a) = Inr x" "decodeAndVerifyEnvelope pr (art_canonicalBytes b) = Inr y"
    and e: "env_game (art_envelope x) = env_game (art_envelope y)" "env_from (art_envelope x) = env_from (art_envelope y)"
      "env_seq (art_envelope x) = env_seq (art_envelope y)" "art_hash x \<noteq> art_hash y"
    and o: "\<not> (strict \<and> compareBytes (art_hash x) (art_hash y) > 0)"
      "(l, r) = (if compareBytes (art_hash x) (art_hash y) < 0 then (x, y) else (y, x))"
    using assms(2) by (auto simp: normalizeEvidence_def result_simps Let_def split: if_splits)
  note vx = verified_self [OF assms(1) v(1)] and vy = verified_self [OF assms(1) v(2)]
  have nz: "compareBytes (art_hash x) (art_hash y) \<noteq> 0" using compareBytes_zero [of "art_hash x" "art_hash y"] vx vy e(4) by simp
  show "proves_equivocation pr l r" using vx vy e o(2) by (auto simp: proves_equivocation_def split: if_splits)
  show "compareBytes (art_hash l) (art_hash r) < 0"
    using nz o(2) compareBytes_swap [of "art_hash y" "art_hash x"] by (auto split: if_splits)
  show "\<exists>x y. decodeAndVerifyEnvelope pr (art_canonicalBytes a) = Inr x \<and> decodeAndVerifyEnvelope pr (art_canonicalBytes b) = Inr y \<and>
       (l = x \<and> r = y \<or> \<not> strict \<and> l = y \<and> r = x)"
    using v o nz by (auto split: if_splits)
qed

lemma normalizeEvidence_proof:
  assumes "codec_laws pr" "proves_equivocation pr a b"
  shows "normalizeEvidence pr [a, b] False = Inr (if compareBytes (art_hash a) (art_hash b) < 0 then (a, b) else (b, a))"
    "compareBytes (art_hash a) (art_hash b) < 0 \<Longrightarrow> normalizeEvidence pr [a, b] True = Inr (a, b)"
  using assms(2) by (auto simp: normalizeEvidence_def proves_equivocation_def Let_def)

lemma encodeEquivocation_Inr:
  assumes laws: "codec_laws pr" and e: "encodeEquivocationViolationBody pr body = Inr v"
  obtains l r where "normalizeEvidence pr [ev_left body, ev_right body] False = Inr (l, r)" "ev_seat body \<le> 7"
    "decodeEquivocationViolationBody pr v = Inr \<lparr>ev_seat = ev_seat body, ev_left = l, ev_right = r\<rparr>"
proof -
  obtain l r lv rv where n: "normalizeEvidence pr [ev_left body, ev_right body] False = Inr (l, r)" "ev_seat body \<le> 7" "safe_nat (ev_seat body)"
    and lv: "decodeCanonical pr (art_canonicalBytes l) = Inr lv" "decodeCanonical pr (art_canonicalBytes r) = Inr rv"
    and v: "v = JObject [(ascii ''seat'', jnat (ev_seat body)), (ascii ''reason'', JString (ascii ''equivocation'')),
       (ascii ''evidence'', JArray [lv, rv])]"
    using e by (auto simp: encodeEquivocationViolationBody_def result_simps)
  note ne = normalizeEvidence_Inr [OF laws n(1)]
  have enc: "encodeCanonical pr lv = Inr (art_canonicalBytes l)" "encodeCanonical pr rv = Inr (art_canonicalBytes r)"
    using lv by (simp_all add: decodeCanonical_Inr)
  have ver: "decodeAndVerifyEnvelope pr (art_canonicalBytes l) = Inr l" "decodeAndVerifyEnvelope pr (art_canonicalBytes r) = Inr r"
    using ne(1) by (simp_all add: proves_equivocation_def)
  have seat: "expectUnsignedInteger (jnat (ev_seat body)) ''VIOLATION.body.seat'' 7 = Inr (ev_seat body)"
    using n by simp
  have "decodeEquivocationViolationBody pr v = Inr \<lparr>ev_seat = ev_seat body, ev_left = l, ev_right = r\<rparr>"
    unfolding decodeEquivocationViolationBody_def v
    using seat enc ver normalizeEvidence_proof(2) [OF laws ne(1,2)]
    by (simp add: expectExactMap_def isCborMap_def has_exactly_def get_prop_def expectArray_def expectNonEmptyText_def
        del: expectUnsignedInteger_jnat)
  then show ?thesis using n by (intro that [of l r]) simp_all
qed

end
