(* ===== verification/Session_Witness.thy ===== *)
theory Session_Witness
  imports Chain_Registry Protocol_Bodies
begin

text \<open>
  \<^verbatim>\<open>packages/session/src/witness.ts\<close> and \<open>sync-plan.ts\<close>: a witness lists the heads a peer has
  accepted; assessing it against the local chains says for each head whether it matches, is
  older, is ahead, or conflicts, and the plan turns what is ahead or in conflict into requests.
\<close>

section \<open>Sessions\<close>

text \<open>The registries a session can hold: built from a valid roster, fed with verified artifacts.\<close>

inductive session_state :: "prims \<Rightarrow> SessionChainRegistry \<Rightarrow> bool" for pr :: prims where
  session_new: "newSessionChainRegistry pr g roster = Inr reg \<Longrightarrow> session_state pr reg"
| session_ingest: "session_state pr reg \<Longrightarrow> verified pr a \<Longrightarrow> session_state pr (fst (reg_ingest reg a))"

inductive_cases session_stateE: "session_state pr reg"

lemma session_inv: "session_state pr reg \<Longrightarrow> reg_inv reg"
  by (induction rule: session_state.induct) (simp_all add: newSessionChainRegistry_inv(1) reg_ingest_step(1))

lemma session_seats: "session_state pr reg \<Longrightarrow> length (reg_roster reg) \<le> MAX_SESSION_SEATS \<and> (\<forall>s \<in> set (reg_roster reg). length s = 32)"
proof (induction rule: session_state.induct)
  case (session_new g roster reg)
  have r: "map JBytes (reg_roster reg) = roster" by (rule newSessionChainRegistry_inv(2) [OF session_new])
  have "\<forall>e \<in> set (reg_entries reg). length (entry_sender e) = 32"
  proof -
    obtain es bs where *: "roster_entries pr [] [] roster = Inr (es, bs)" "reg_entries reg = es"
      using session_new by (auto simp: newSessionChainRegistry_def result_simps split: if_splits)
    have "reg_inv (partial_reg [] [])" by (simp add: reg_inv_def partial_reg_def reg_roster_def)
    from roster_entries_inv [OF *(1) this] *(2) show ?thesis by simp
  qed
  then show ?case using newSessionChainRegistry_inv(6) [OF session_new] by (simp add: reg_roster_def)
next
  case (session_ingest reg a)
  then show ?case using reg_ingest_step(2) [OF session_inv] by simp
qed

lemma session_log_verified:
  "session_state pr reg \<Longrightarrow> a \<in> set (log_of reg s) \<Longrightarrow> verified pr a \<and> env_game (art_envelope a) = reg_gameId reg \<and> env_from (art_envelope a) = s"
proof (induction arbitrary: a rule: session_state.induct)
  case (session_new g roster reg)
  then show ?case using newSessionChainRegistry_inv(4) [OF session_new(1)] by simp
next
  case (session_ingest reg b)
  note st = reg_ingest_step [OF session_inv [OF session_ingest(1)], of b]
  have "env_game (art_envelope b) = reg_gameId reg" if "result_accepted (reg_classify reg b)"
    using that by (auto simp: reg_classify_def split: if_splits)
  then show ?case using session_ingest st(3,4) by (auto split: if_splits)
qed

section \<open>Assessing a witness\<close>

datatype WitnessHeadOutcome =
    Matching nat WitnessHead ChainHead
  | Stale nat WitnessHead ChainHead
  | NeedSync nat WitnessHead nat nat
  | Conflict nat WitnessHead EnvelopeArtifact nat nat

datatype WitnessRejectionReason = DuplicateSenderReason | NonRosterOrderReason | UnknownSenderReason

datatype WitnessAssessment =
    Assessed "WitnessHeadOutcome list"
  | WitnessRejected WitnessRejectionReason nat

definition HOUSEKEEPING_ENVELOPE_TYPES :: "EnvelopeMessageType list" where
  "HOUSEKEEPING_ENVELOPE_TYPES = [WITNESS, SYNC_REQ, SYNC_RESP, TIMEOUT_VOTE, VIOLATION]"

definition shouldEmitImmediateWitness :: "EnvelopeMessageType \<Rightarrow> bool" where
  "shouldEmitImmediateWitness t = (t \<notin> set HOUSEKEEPING_ENVELOPE_TYPES)"

definition currentWitnessBody :: "SessionChainRegistry \<Rightarrow> bytes option \<Rightarrow> WitnessBody" where
  "currentWitnessBody reg stateHash =
     \<lparr>wb_heads = map (\<lambda>head. \<lparr>wh_from = head_from head, wh_seq = head_seq head, wh_hash = head_hash head\<rparr>) (reg_heads reg),
      wb_stateHash = stateHash\<rparr>"

definition copyWitnessHead :: "WitnessHead \<Rightarrow> session_error + WitnessHead" where
  "copyWitnessHead head =
     (if \<not> safe_nat (wh_seq head) then Inl (SessionRangeError ''Witness sequence must be an unsigned safe integer'')
      else rbind (protoTry (parseIdentityPublicKey (JBytes (wh_from head)))) (\<lambda>from.
           rbind (protoTry (parseHash256 (JBytes (wh_hash head)))) (\<lambda>hash.
           Inr \<lparr>wh_from = from, wh_seq = wh_seq head, wh_hash = hash\<rparr>)))"

definition add_local_head ::
    "SessionChainRegistry \<Rightarrow> (nat \<times> ChainHead) list \<Rightarrow> ChainHead \<Rightarrow> session_error + (nat \<times> ChainHead) list" where
  "add_local_head reg localHeads head =
     (case reg_seatOf reg (head_from head) of
        None \<Rightarrow> Inl (SessionFault ''Session registry returned a head outside its own roster'')
      | Some seat \<Rightarrow> Inr (AList.update seat head localHeads))"

definition assess_head ::
    "SessionChainRegistry \<Rightarrow> (nat \<times> ChainHead) list \<Rightarrow> nat \<Rightarrow> WitnessHead \<Rightarrow> session_error + WitnessHeadOutcome" where
  "assess_head reg localHeads seat claimed =
     (case map_of localHeads seat of
        None \<Rightarrow> Inr (NeedSync seat claimed 0 (wh_seq claimed))
      | Some localHead \<Rightarrow>
          if wh_seq claimed > head_seq localHead
          then Inr (NeedSync seat claimed (head_seq localHead + 1) (wh_seq claimed))
          else rbind (reg_readRange reg (wh_from claimed) (wh_seq claimed) (wh_seq claimed)) (\<lambda>range.
            case range of
              RangeComplete (local # _) \<Rightarrow>
                if \<not> bytesEqual (art_hash local) (wh_hash claimed)
                then Inr (Conflict seat claimed local (wh_seq claimed) (wh_seq claimed))
                else Inr (if wh_seq claimed = head_seq localHead then Matching seat claimed localHead
                          else Stale seat claimed localHead)
            | _ \<Rightarrow> Inl (SessionFault ''Session registry could not read a sequence at or below its head'')))"

fun assess_heads ::
    "SessionChainRegistry \<Rightarrow> (nat \<times> ChainHead) list \<Rightarrow> nat \<Rightarrow> nat list \<Rightarrow> int \<Rightarrow> WitnessHeadOutcome list \<Rightarrow> WitnessHead list \<Rightarrow>
     session_error + WitnessAssessment" where
  "assess_heads reg localHeads index seenSeats previousSeat outcomes [] = Inr (Assessed outcomes)"
| "assess_heads reg localHeads index seenSeats previousSeat outcomes (candidate # heads) =
     rbind (copyWitnessHead candidate) (\<lambda>claimed.
     case reg_seatOf reg (wh_from claimed) of
       None \<Rightarrow> Inr (WitnessRejected UnknownSenderReason index)
     | Some seat \<Rightarrow>
         if seat \<in> set seenSeats then Inr (WitnessRejected DuplicateSenderReason index)
         else if int seat < previousSeat then Inr (WitnessRejected NonRosterOrderReason index)
         else rbind (assess_head reg localHeads seat claimed) (\<lambda>outcome.
           assess_heads reg localHeads (Suc index) (seat # seenSeats) (int seat) (outcomes @ [outcome]) heads))"

definition assessWitness :: "SessionChainRegistry \<Rightarrow> WitnessBody \<Rightarrow> session_error + WitnessAssessment" where
  "assessWitness reg body =
     rbind (foldM_res (add_local_head reg) [] (reg_heads reg)) (\<lambda>localHeads.
     assess_heads reg localHeads 0 [] (- 1) [] (wb_heads body))"

section \<open>Planning requests\<close>

definition DEFAULT_MAX_SYNC_RANGE_ENVELOPES :: nat where
  "DEFAULT_MAX_SYNC_RANGE_ENVELOPES = 128"
definition DEFAULT_MAX_SYNC_RESPONSE_BYTES :: nat where
  "DEFAULT_MAX_SYNC_RESPONSE_BYTES = 4 * 1024 * 1024"

datatype WitnessSyncPlanResult =
    Planned "SyncRequestBody list"
  | PlanAssessment WitnessRejectionReason nat
  | PlanInvalidArtifact | PlanLimitExceeded | PlanWrongType | PlanWitnessNotAccepted | PlanInvalidWitness

definition bounded_request :: "nat \<Rightarrow> WitnessHead \<Rightarrow> nat \<Rightarrow> nat \<Rightarrow> SyncRequestBody" where
  "bounded_request maxEnvelopes claimed fromSeq toSeq =
     \<lparr>sr_from = wh_from claimed, sr_fromSeq = fromSeq, sr_toSeq = fromSeq + min (toSeq - fromSeq) (maxEnvelopes - 1)\<rparr>"

fun plan_request :: "nat \<Rightarrow> WitnessHeadOutcome \<Rightarrow> SyncRequestBody option" where
  "plan_request maxEnvelopes (NeedSync seat claimed fromSeq toSeq) = Some (bounded_request maxEnvelopes claimed fromSeq toSeq)"
| "plan_request maxEnvelopes (Conflict seat claimed local fromSeq toSeq) = Some (bounded_request maxEnvelopes claimed fromSeq toSeq)"
| "plan_request maxEnvelopes _ = None"

fun is_duplicate :: "SessionIngestResult \<Rightarrow> bool" where
  "is_duplicate (ChainResult (Duplicate _ _)) = True"
| "is_duplicate _ = False"

definition planWitnessSyncRequests ::
    "prims \<Rightarrow> SessionChainRegistry \<Rightarrow> EnvelopeArtifact \<Rightarrow> nat \<Rightarrow> session_error + WitnessSyncPlanResult" where
  "planWitnessSyncRequests pr reg witness maxEnvelopesPerRequest =
     (if \<not> safe_nat maxEnvelopesPerRequest \<or> maxEnvelopesPerRequest < 1
      then Inl (SessionRangeError ''maxEnvelopesPerRequest must be a positive safe integer'')
      else if length (art_canonicalBytes witness) > DEFAULT_MAX_SYNC_RESPONSE_BYTES then Inr PlanLimitExceeded
      else case decodeAndVerifyEnvelope pr (art_canonicalBytes witness) of
        Inl _ \<Rightarrow> Inr PlanInvalidArtifact
      | Inr artifact \<Rightarrow>
          if env_type (art_envelope artifact) \<noteq> WITNESS then Inr PlanWrongType
          else if \<not> is_duplicate (reg_classify reg artifact) then Inr PlanWitnessNotAccepted
          else case decodeWitnessBody (env_body (art_envelope artifact)) of
            Inl _ \<Rightarrow> Inr PlanInvalidWitness
          | Inr body \<Rightarrow>
              rbind (assessWitness reg body) (\<lambda>assessment.
              case assessment of
                WitnessRejected reason index \<Rightarrow> Inr (PlanAssessment reason index)
              | Assessed outcomes \<Rightarrow> Inr (Planned (List.map_filter (plan_request maxEnvelopesPerRequest) outcomes))))"

section \<open>Local heads\<close>

lemma seatOf_index:
  assumes "reg_inv reg"
  shows "reg_seatOf reg s = index_of (reg_roster reg) s"
proof (cases "entry_of reg s")
  case None
  then show ?thesis using entry_of_index [OF assms, of s] by (simp add: reg_seatOf_def)
next
  case (Some i)
  then have "entry_seat (reg_entries reg ! i) = i" using assms entry_of_Some(1) [OF assms Some] by (simp add: reg_inv_def)
  then show ?thesis using Some entry_of_index [OF assms, of s] by (simp add: reg_seatOf_def)
qed

lemma roster_length [simp]: "length (reg_roster reg) = length (reg_entries reg)"
  by (simp add: reg_roster_def)

definition head_of_log :: "bytes \<Rightarrow> EnvelopeArtifact list \<Rightarrow> ChainHead option" where
  "head_of_log s as = (if as = [] then None
     else Some \<lparr>head_from = s, head_seq = length as - 1, head_hash = art_hash (last as)\<rparr>)"

lemma log_at:
  assumes "reg_inv reg" "i < length (reg_entries reg)"
  shows "log_of reg (reg_roster reg ! i) = chain_log (entry_chain (reg_entries reg ! i))"
    "ch_head (entry_chain (reg_entries reg ! i)) = head_of_log (reg_roster reg ! i) (log_of reg (reg_roster reg ! i))"
    "index_of (reg_roster reg) (reg_roster reg ! i) = Some i"
proof -
  show ix: "index_of (reg_roster reg) (reg_roster reg ! i) = Some i"
    using assms by (intro index_of_nth) (auto simp: reg_inv_def)
  then show l: "log_of reg (reg_roster reg ! i) = chain_log (entry_chain (reg_entries reg ! i))" by (simp add: log_of_def)
  have "entry_chain (reg_entries reg ! i) = chain_of (reg_roster reg ! i) (chain_log (entry_chain (reg_entries reg ! i)))"
    using assms by (auto simp: reg_inv_def reg_roster_def chain_inv_def)
  then have "ch_head (entry_chain (reg_entries reg ! i)) =
      ch_head (chain_of (reg_roster reg ! i) (chain_log (entry_chain (reg_entries reg ! i))))" by simp
  then show "ch_head (entry_chain (reg_entries reg ! i)) = head_of_log (reg_roster reg ! i) (log_of reg (reg_roster reg ! i))"
    by (simp add: chain_of_head head_of_log_def l)
qed

lemma local_heads_prefix:
  assumes inv: "reg_inv reg" and k: "k \<le> length (reg_entries reg)"
  shows "\<exists>m. foldM_res (add_local_head reg) [] (List.map_filter (\<lambda>e. ch_head (entry_chain e)) (take k (reg_entries reg))) = Inr m \<and>
    (\<forall>seat. map_of m seat = (if seat < k then head_of_log (reg_roster reg ! seat) (log_of reg (reg_roster reg ! seat)) else None))"
  using k
proof (induction k)
  case 0
  then show ?case by (simp add: map_filter_def)
next
  case (Suc k)
  then obtain m where m: "foldM_res (add_local_head reg) [] (List.map_filter (\<lambda>e. ch_head (entry_chain e)) (take k (reg_entries reg))) = Inr m"
    "\<And>seat. map_of m seat = (if seat < k then head_of_log (reg_roster reg ! seat) (log_of reg (reg_roster reg ! seat)) else None)"
    by auto
  have k: "k < length (reg_entries reg)" using Suc.prems by simp
  note l = log_at [OF inv k]
  show ?case
  proof (cases "ch_head (entry_chain (reg_entries reg ! k))")
    case None
    then show ?thesis using m k l(2) by (auto simp: take_Suc_conv_app_nth map_filter_append less_Suc_eq)
  next
    case (Some h)
    then have "head_from h = reg_roster reg ! k" using l(2) by (auto simp: head_of_log_def split: if_splits)
    then have "add_local_head reg m h = Inr (AList.update k h m)"
      using l(3) seatOf_index [OF inv] by (simp add: add_local_head_def)
    then have "foldM_res (add_local_head reg) [] (List.map_filter (\<lambda>e. ch_head (entry_chain e)) (take (Suc k) (reg_entries reg))) =
        Inr (AList.update k h m)"
      using m(1) k Some by (simp add: take_Suc_conv_app_nth foldM_res_append map_filter_def)
    moreover have "head_of_log (reg_roster reg ! k) (log_of reg (reg_roster reg ! k)) = Some h" using l(2) Some by simp
    ultimately show ?thesis using m(2) by (intro exI [of _ "AList.update k h m"]) auto
  qed
qed

lemma local_heads:
  assumes "reg_inv reg"
  obtains m where "foldM_res (add_local_head reg) [] (reg_heads reg) = Inr m"
    "\<And>seat. seat < length (reg_roster reg) \<Longrightarrow> map_of m seat = head_of_log (reg_roster reg ! seat) (log_of reg (reg_roster reg ! seat))"
  using local_heads_prefix [OF assms, of "length (reg_entries reg)"] by (auto simp: reg_heads_def)


section \<open>What an assessment says\<close>

text \<open>The outcome for one head, read off the log of its sender.\<close>

definition outcome_of :: "SessionChainRegistry \<Rightarrow> nat \<Rightarrow> WitnessHead \<Rightarrow> WitnessHeadOutcome" where
  "outcome_of reg seat h =
     (let log = log_of reg (wh_from h) in
      if length log \<le> wh_seq h then NeedSync seat h (length log) (wh_seq h)
      else if art_hash (log ! wh_seq h) \<noteq> wh_hash h then Conflict seat h (log ! wh_seq h) (wh_seq h) (wh_seq h)
      else (let head = \<lparr>head_from = wh_from h, head_seq = length log - 1, head_hash = art_hash (last log)\<rparr> in
        if Suc (wh_seq h) = length log then Matching seat h head else Stale seat h head))"

lemma assess_head_outcome:
  assumes inv: "reg_inv reg" and seat: "index_of (reg_roster reg) (wh_from h) = Some seat" and ok: "head_ok h"
    and m: "\<And>i. i < length (reg_roster reg) \<Longrightarrow> map_of m i = head_of_log (reg_roster reg ! i) (log_of reg (reg_roster reg ! i))"
  shows "assess_head reg m seat h = Inr (outcome_of reg seat h)"
proof -
  have i: "seat < length (reg_roster reg)" "reg_roster reg ! seat = wh_from h" using index_of_Some [OF seat] by simp_all
  let ?log = "log_of reg (wh_from h)"
  have lookup: "map_of m seat = head_of_log (wh_from h) ?log" using m [OF i(1)] i(2) by simp
  have mem: "wh_from h \<in> set (reg_roster reg)" using nth_mem [OF i(1)] unfolding i(2) .
  have range: "reg_readRange reg (wh_from h) (wh_seq h) (wh_seq h) = Inr (RangeComplete [?log ! wh_seq h])" if "wh_seq h < length ?log"
    using reg_readRange_eq [OF inv, of "wh_seq h" "wh_seq h" "wh_from h"] that mem ok
    by (simp add: head_ok_def take_Suc hd_drop_conv_nth)
  show ?thesis
  proof (cases "wh_seq h < length ?log")
    case True
    then have ne: "?log \<noteq> []" and le: "\<not> length ?log - 1 < wh_seq h" by auto
    have eq: "(wh_seq h = length ?log - 1) = (Suc (wh_seq h) = length ?log)" using True by linarith
    have hd: "map_of m seat = Some \<lparr>head_from = wh_from h, head_seq = length ?log - 1, head_hash = art_hash (last ?log)\<rparr>"
      using lookup ne by (simp add: head_of_log_def)
    show ?thesis
      unfolding assess_head_def hd outcome_of_def Let_def option.case ChainHead.select_convs if_not_P [OF le] range [OF True] rbind_Inr
        SyncRangeResult.case list.case bytesEqual_iff eq
      using True by simp
  next
    case False
    show ?thesis
    proof (cases "?log = []")
      case True
      then show ?thesis by (simp add: assess_head_def lookup head_of_log_def outcome_of_def)
    next
      case ne: False
      then have "length ?log - 1 < wh_seq h" "length ?log - 1 + 1 = length ?log" "length ?log \<le> wh_seq h"
        using False by (cases ?log; simp)+
      then show ?thesis using ne by (simp add: assess_head_def lookup head_of_log_def outcome_of_def)
    qed
  qed
qed

lemma copyWitnessHead_ok: "head_ok h \<Longrightarrow> copyWitnessHead h = Inr h"
  by (simp add: copyWitnessHead_def head_ok_def parseIdentityPublicKey_def parseHash256_def parseFixedBytes_def)

text \<open>The first head, if any, that breaks the roster order.\<close>

fun first_defect :: "SessionChainRegistry \<Rightarrow> nat \<Rightarrow> nat list \<Rightarrow> int \<Rightarrow> WitnessHead list \<Rightarrow> (WitnessRejectionReason \<times> nat) option" where
  "first_defect reg index seen prev [] = None"
| "first_defect reg index seen prev (h # hs) =
     (case index_of (reg_roster reg) (wh_from h) of
        None \<Rightarrow> Some (UnknownSenderReason, index)
      | Some seat \<Rightarrow> if seat \<in> set seen then Some (DuplicateSenderReason, index)
          else if int seat < prev then Some (NonRosterOrderReason, index)
          else first_defect reg (Suc index) (seat # seen) (int seat) hs)"

definition outcomes_of :: "SessionChainRegistry \<Rightarrow> WitnessHead list \<Rightarrow> WitnessHeadOutcome list" where
  "outcomes_of reg hs = map (\<lambda>h. outcome_of reg (the (index_of (reg_roster reg) (wh_from h))) h) hs"

lemma assess_heads_eq:
  assumes inv: "reg_inv reg"
    and m: "\<And>i. i < length (reg_roster reg) \<Longrightarrow> map_of m i = head_of_log (reg_roster reg ! i) (log_of reg (reg_roster reg ! i))"
  shows "list_all head_ok hs \<Longrightarrow> assess_heads reg m index seen prev outs hs = Inr
    (case first_defect reg index seen prev hs of None \<Rightarrow> Assessed (outs @ outcomes_of reg hs) | Some (r, i) \<Rightarrow> WitnessRejected r i)"
proof (induction hs arbitrary: index seen prev outs)
  case (Cons h hs)
  then have ok: "head_ok h" "list_all head_ok hs" by simp_all
  show ?case
  proof (cases "index_of (reg_roster reg) (wh_from h)")
    case None
    then show ?thesis using ok by (simp add: copyWitnessHead_ok seatOf_index [OF inv])
  next
    case (Some seat)
    have "assess_head reg m seat h = Inr (outcome_of reg seat h)" using assess_head_outcome [OF inv Some ok(1) m] by simp
    then show ?thesis
      using Some ok Cons.IH [OF ok(2)] by (simp add: copyWitnessHead_ok seatOf_index [OF inv] outcomes_of_def split: option.splits)
  qed
qed (simp add: outcomes_of_def)

lemma assessWitness_eq:
  assumes "reg_inv reg" "list_all head_ok (wb_heads body)"
  shows "assessWitness reg body = Inr (case first_defect reg 0 [] (- 1) (wb_heads body) of
    None \<Rightarrow> Assessed (outcomes_of reg (wb_heads body)) | Some (r, i) \<Rightarrow> WitnessRejected r i)"
proof -
  obtain m where m: "foldM_res (add_local_head reg) [] (reg_heads reg) = Inr m"
    "\<And>seat. seat < length (reg_roster reg) \<Longrightarrow> map_of m seat = head_of_log (reg_roster reg ! seat) (log_of reg (reg_roster reg ! seat))"
    using local_heads [OF assms(1)] by metis
  show ?thesis using assess_heads_eq [OF assms(1) m(2) assms(2), of 0 "[]" "- 1" "[]"] m(1) by (simp add: assessWitness_def split: option.splits)
qed

section \<open>Two sessions compared through a witness\<close>

lemma linked_take: "linked s as \<Longrightarrow> linked s (take n as)"
  by (auto simp: linked_def min_def)

lemma collision_free:
  assumes "codec_laws pr" "verified pr a" "verified pr b" "art_hash a = art_hash b"
    and "inj_on (noble_sha256 pr) X" "art_canonicalBytes a \<in> X" "art_canonicalBytes b \<in> X"
  shows "a = b"
proof -
  have "art_hash a = noble_sha256 pr (art_canonicalBytes a)" "art_hash b = noble_sha256 pr (art_canonicalBytes b)"
    using assms(2,3) verified_artifact(2) [OF assms(1)] by (auto simp: verified_def artifact_ok_def sha256_def)
  then have "art_canonicalBytes a = art_canonicalBytes b" using assms by (auto dest: inj_onD)
  then show ?thesis using assms(2,3) by (simp add: verified_def)
qed

definition own_head :: "SessionChainRegistry \<Rightarrow> bytes \<Rightarrow> WitnessHead" where
  "own_head reg s = \<lparr>wh_from = s, wh_seq = length (log_of reg s) - 1, wh_hash = art_hash (last (log_of reg s))\<rparr>"

definition active :: "SessionChainRegistry \<Rightarrow> nat list" where
  "active reg = filter (\<lambda>i. log_of reg (reg_roster reg ! i) \<noteq> []) [0..<length (reg_roster reg)]"

lemma current_heads:
  assumes "reg_inv reg"
  shows "wb_heads (currentWitnessBody reg st) = map (\<lambda>i. own_head reg (reg_roster reg ! i)) (active reg)"
proof -
  have "List.map_filter (\<lambda>e. ch_head (entry_chain e)) (map (\<lambda>i. reg_entries reg ! i) [0..<n]) =
      map (\<lambda>i. the (head_of_log (reg_roster reg ! i) (log_of reg (reg_roster reg ! i)))) (filter (\<lambda>i. log_of reg (reg_roster reg ! i) \<noteq> []) [0..<n])"
    if "n \<le> length (reg_entries reg)" for n
    using that
  proof (induction n)
    case (Suc n)
    have "ch_head (entry_chain (reg_entries reg ! n)) = head_of_log (reg_roster reg ! n) (log_of reg (reg_roster reg ! n))"
      using log_at(2) [OF assms, of n] Suc.prems by simp
    then show ?case using Suc by (simp add: map_filter_def head_of_log_def)
  qed (simp add: map_filter_def)
  from this [of "length (reg_entries reg)"] have "reg_heads reg =
      map (\<lambda>i. the (head_of_log (reg_roster reg ! i) (log_of reg (reg_roster reg ! i)))) (active reg)"
    by (simp add: reg_heads_def active_def map_nth)
  then show ?thesis by (auto simp: currentWitnessBody_def own_head_def head_of_log_def active_def)
qed

lemma first_defect_ordered:
  assumes "\<forall>i \<in> set is. index_of (reg_roster reg) (wh_from (f i)) = Some i"
    "sorted_wrt (<) is" "\<forall>i \<in> set is. prev < int i \<and> i \<notin> set seen"
  shows "first_defect reg index seen prev (map f is) = None"
  using assms
proof (induction "is" arbitrary: index seen prev)
  case (Cons i "is")
  have "\<not> int i < prev" using Cons.prems(3) by force
  moreover have "first_defect reg (Suc index) (i # seen) (int i) (map f is) = None"
    using Cons.prems by (intro Cons.IH) auto
  ultimately show ?case using Cons.prems by simp
qed simp

lemma active_index:
  assumes "reg_inv reg" "i \<in> set (active reg)"
  shows "index_of (reg_roster reg) (reg_roster reg ! i) = Some i" "log_of reg (reg_roster reg ! i) \<noteq> []" "i < length (reg_roster reg)"
  using assms log_at(3) [OF assms(1), of i] by (auto simp: active_def)

lemma session_log_seq:
  assumes "codec_laws pr" "session_state pr reg" "i < length (log_of reg s)"
  shows "safe_nat i" "length (art_hash (log_of reg s ! i)) = 32" "length s = 32"
proof -
  have mem: "log_of reg s ! i \<in> set (log_of reg s)" using assms(3) by simp
  then have v: "decodeAndVerifyEnvelope pr (art_canonicalBytes (log_of reg s ! i)) = Inr (log_of reg s ! i)"
    using session_log_verified [OF assms(2)] by (simp add: verified_def)
  have ok: "artifact_ok pr (log_of reg s ! i)" using verified_artifact(2) [OF assms(1) v] .
  have e: "env_seq (art_envelope (log_of reg s ! i)) = i" "env_from (art_envelope (log_of reg s ! i)) = s"
    using log_of_linked [OF session_inv [OF assms(2)], of s] assms(3) by (simp_all add: linked_def)
  show "safe_nat i" "length s = 32" using ok e by (auto simp: artifact_ok_def envelope_ok_def)
  show "length (art_hash (log_of reg s ! i)) = 32" using verified_self(2) [OF assms(1) v] .
qed

lemma own_head_ok:
  assumes "codec_laws pr" "session_state pr reg" "log_of reg s \<noteq> []"
  shows "head_ok (own_head reg s)"
proof -
  have "length (log_of reg s) - 1 < length (log_of reg s)" using assms(3) by simp
  from session_log_seq [OF assms(1,2) this] show ?thesis
    using assms(3) by (simp add: head_ok_def own_head_def last_conv_nth)
qed

text \<open>What an outcome claims about the local log \<open>la\<close> and the peer's log \<open>lb\<close> of the same sender.\<close>

fun claims :: "WitnessHeadOutcome \<Rightarrow> EnvelopeArtifact list \<Rightarrow> EnvelopeArtifact list \<Rightarrow> bool" where
  "claims (Matching seat h head) la lb \<longleftrightarrow> la = lb"
| "claims (Stale seat h head) la lb \<longleftrightarrow> strict_prefix lb la"
| "claims (NeedSync seat h from to) la lb \<longleftrightarrow> from = length la \<and> Suc to = length lb \<and> length la < length lb"
| "claims (Conflict seat h local from to) la lb \<longleftrightarrow> \<not> prefix lb la \<and> \<not> prefix la lb \<and> from = to \<and> Suc to = length lb \<and>
     length lb \<le> length la \<and> local = la ! to \<and> local \<noteq> lb ! to"

lemma outcome_claims:
  assumes "lb \<noteq> []" "la = log_of reg s" "linked s la" "linked s lb"
    and h: "h = \<lparr>wh_from = s, wh_seq = length lb - 1, wh_hash = art_hash (last lb)\<rparr>"
    and eq: "\<And>a b. a \<in> set la \<Longrightarrow> b \<in> set lb \<Longrightarrow> art_hash a = art_hash b \<Longrightarrow> a = b"
  shows "claims (outcome_of reg seat h) la lb"
proof (cases "length la < length lb")
  case True
  then have "length la \<le> length lb - 1" "Suc (length lb - 1) = length lb" using assms(1) by auto
  then show ?thesis using True assms(2) h by (simp add: outcome_of_def)
next
  case False
  obtain k where k: "length lb = Suc k" using assms(1) by (cases lb) auto
  then have kl: "k < length la" "last lb = lb ! k" "lb ! k \<in> set lb" using False assms(1) by (simp_all add: last_conv_nth)
  show ?thesis
  proof (cases "art_hash (la ! k) = art_hash (lb ! k)")
    case True
    have "prev_hash (take (Suc k) la) = prev_hash lb"
      using kl k True assms(1) by (auto simp: prev_hash_def take_Suc_conv_app_nth)
    then have "take (Suc k) la = lb"
      using k kl eq by (intro linked_same_last [OF linked_take [OF assms(3)] assms(4)]) (auto dest: in_set_takeD)
    then have "prefix lb la" using take_is_prefix by metis
    then show ?thesis
      using True k kl assms(2) h by (auto simp: outcome_of_def Let_def strict_prefix_def prefix_def)
  next
    case d: False
    then have "la ! k \<noteq> lb ! k" by auto
    then have "\<not> prefix lb la" "\<not> prefix la lb" using k kl False by (auto simp: prefix_def nth_append)
    then show ?thesis using d k kl False assms(2) h by (auto simp: outcome_of_def)
  qed
qed

text \<open>C8: a witness compares two sessions correctly. When a peer assesses the current witness of another
  session over the same roster, the assessment succeeds with one outcome for each sender the
  witness lists. If no two of the artifacts held by the two sessions have the same hash,
  \<open>matching\<close> says that the two logs of the sender are equal, \<open>stale\<close> that the witness's log is a
  proper prefix of the local one, \<open>need sync\<close> names exactly the positions after the local log up
  to the witness's head, and \<open>conflict\<close> names a position where the two logs hold different
  artifacts and neither log continues the other.\<close>

theorem witness_compares_sessions:
  assumes "codec_laws pr" "session_state pr A" "session_state pr B" "reg_roster A = reg_roster B"
    and "inj_on (noble_sha256 pr) (art_canonicalBytes ` (\<Union>s. set (log_of A s) \<union> set (log_of B s)))"
  shows "\<exists>outs. assessWitness A (currentWitnessBody B stateHash) = Inr (Assessed outs) \<and>
    list_all2 (\<lambda>s out. claims out (log_of A s) (log_of B s)) (filter (\<lambda>s. log_of B s \<noteq> []) (reg_roster B)) outs"
proof -
  note invA = session_inv [OF assms(2)] and invB = session_inv [OF assms(3)]
  let ?hs = "wb_heads (currentWitnessBody B stateHash)"
  let ?f = "\<lambda>i. own_head B (reg_roster B ! i)"
  have hs: "?hs = map ?f (active B)" by (rule current_heads [OF invB])
  have ok: "list_all head_ok ?hs"
    unfolding hs using own_head_ok [OF assms(1,3)] active_index(2) [OF invB] by (auto simp: list_all_iff)
  have nd: "first_defect A 0 [] (- 1) ?hs = None"
    unfolding hs using active_index(1) [OF invB] assms(4)
    by (intro first_defect_ordered) (auto simp: own_head_def active_def sorted_wrt_filter)
  have r: "assessWitness A (currentWitnessBody B stateHash) = Inr (Assessed (outcomes_of A ?hs))"
    using assessWitness_eq [OF invA ok] nd by simp
  have same: "a = b" if "a \<in> set (log_of A s)" "b \<in> set (log_of B s)" "art_hash a = art_hash b" for a b s
    using collision_free [OF assms(1) _ _ that(3) assms(5)] session_log_verified [OF assms(2) that(1)]
      session_log_verified [OF assms(3) that(2)] that by blast
  have c: "claims (outcome_of A i (?f i)) (log_of A (reg_roster B ! i)) (log_of B (reg_roster B ! i))" if "i \<in> set (active B)" for i
    by (rule outcome_claims [OF active_index(2) [OF invB that] refl log_of_linked [OF invA] log_of_linked [OF invB]])
      (use same in \<open>auto simp: own_head_def\<close>)
  have names: "filter (\<lambda>s. log_of B s \<noteq> []) (reg_roster B) = map (\<lambda>i. reg_roster B ! i) (active B)"
    by (subst (1) map_nth [symmetric]) (simp add: active_def filter_map comp_def del: roster_length)
  have "outcomes_of A ?hs = map (\<lambda>i. outcome_of A i (?f i)) (active B)"
    unfolding hs outcomes_of_def using active_index(1) [OF invB] assms(4) by (auto simp: own_head_def)
  then have "list_all2 (\<lambda>s out. claims out (log_of A s) (log_of B s)) (filter (\<lambda>s. log_of B s \<noteq> []) (reg_roster B)) (outcomes_of A ?hs)"
    unfolding names by (auto simp: list_all2_map1 list_all2_map2 list_all2_same c)
  then show ?thesis using r by blast
qed

section \<open>Plans\<close>

lemma decodeWitnessHead_ok: "decodeWitnessHead v = Inr h \<Longrightarrow> head_ok h"
  by (auto simp: decodeWitnessHead_def result_simps normalizeHead_def head_ok_def expectUnsignedInteger_Inr)

lemma decodeWitnessBody_ok:
  assumes "decodeWitnessBody v = Inr b"
  shows "list_all head_ok (wb_heads b)" "length (wb_heads b) \<le> MAX_WITNESS_HEADS" "distinct (map wh_from (wb_heads b))"
proof -
  obtain vs where "mapM_res decodeWitnessHead vs = Inr (wb_heads b)" "length vs \<le> MAX_WITNESS_HEADS"
      "rejectDuplicateSenders [] (wb_heads b) = Inr ()"
    using assms by (auto simp: decodeWitnessBody_def result_simps split: if_splits)
  then show "list_all head_ok (wb_heads b)" "length (wb_heads b) \<le> MAX_WITNESS_HEADS" "distinct (map wh_from (wb_heads b))"
    using decodeWitnessHead_ok
    by (auto simp: list_all_iff rejectDuplicateSenders_Inr dest: mapM_res_mem mapM_res_length)
qed

lemma first_defect_known:
  "first_defect reg index seen prev hs = None \<Longrightarrow> h \<in> set hs \<Longrightarrow> wh_from h \<in> set (reg_roster reg)"
proof (induction hs arbitrary: index seen prev)
  case (Cons x hs)
  then obtain seat where s: "index_of (reg_roster reg) (wh_from x) = Some seat"
    by (cases "index_of (reg_roster reg) (wh_from x)") auto
  have "wh_from x \<in> set (reg_roster reg)" using index_of_Some [OF s] nth_mem by metis
  then show ?case using Cons s by (auto split: if_splits)
qed simp

lemma plan_request_of:
  assumes "1 \<le> m" "plan_request m (outcome_of reg seat h) = Some r"
  shows "sr_from r = wh_from h" "sr_fromSeq r \<le> sr_toSeq r" "sr_toSeq r - sr_fromSeq r < m" "sr_toSeq r \<le> wh_seq h"
    "sr_fromSeq r \<le> length (log_of reg (wh_from h))"
    "sr_fromSeq r = length (log_of reg (wh_from h)) \<or>
     sr_toSeq r = sr_fromSeq r \<and> art_hash (log_of reg (wh_from h) ! sr_fromSeq r) \<noteq> wh_hash h"
  using assms by (auto simp: outcome_of_def Let_def bounded_request_def split: if_splits)

lemma map_filter_of:
  "List.map_filter p (map g hs) = map (\<lambda>h. the (p (g h))) (filter (\<lambda>h. p (g h) \<noteq> None) hs)"
  by (induction hs) (auto simp: map_filter_def)

text \<open>A plan asks each known sender at most once, for a range of at most \<open>m\<close> envelopes that starts no
  later than the local log ends; with a legal \<open>m\<close> planning never throws.\<close>

lemma plan_requests_bounded:
  assumes "reg_inv reg" "safe_nat m" "1 \<le> m"
  shows "\<exists>r. planWitnessSyncRequests pr reg w m = Inr r \<and>
    (\<forall>reqs. r = Planned reqs \<longrightarrow> length reqs \<le> MAX_WITNESS_HEADS \<and> distinct (map sr_from reqs) \<and>
      (\<forall>q \<in> set reqs. sr_from q \<in> set (reg_roster reg) \<and> sr_fromSeq q \<le> sr_toSeq q \<and> safe_nat (sr_toSeq q) \<and>
         sr_toSeq q - sr_fromSeq q < m \<and> sr_fromSeq q \<le> length (log_of reg (sr_from q))))"
proof (cases "\<exists>b v. decodeWitnessBody v = Inr b \<and> planWitnessSyncRequests pr reg w m = rbind (assessWitness reg b)
    (\<lambda>a. case a of WitnessRejected r i \<Rightarrow> Inr (PlanAssessment r i) | Assessed os \<Rightarrow> Inr (Planned (List.map_filter (plan_request m) os)))")
  case False
  have "\<exists>r. planWitnessSyncRequests pr reg w m = Inr r \<and> (\<forall>reqs. r \<noteq> Planned reqs)"
  proof (rule ccontr)
    assume n: "\<not> ?thesis"
    have "\<exists>b v. decodeWitnessBody v = Inr b \<and> planWitnessSyncRequests pr reg w m = rbind (assessWitness reg b)
        (\<lambda>a. case a of WitnessRejected r i \<Rightarrow> Inr (PlanAssessment r i) | Assessed os \<Rightarrow> Inr (Planned (List.map_filter (plan_request m) os)))"
      using n assms(2,3)
      by (auto simp: planWitnessSyncRequests_def split: if_splits sum.splits)
    with False show False by blast
  qed
  then show ?thesis by blast
next
  case True
  then obtain b v where b: "decodeWitnessBody v = Inr b" and p: "planWitnessSyncRequests pr reg w m = rbind (assessWitness reg b)
    (\<lambda>a. case a of WitnessRejected r i \<Rightarrow> Inr (PlanAssessment r i) | Assessed os \<Rightarrow> Inr (Planned (List.map_filter (plan_request m) os)))"
    by blast
  note ok = decodeWitnessBody_ok [OF b]
  show ?thesis
  proof (cases "first_defect reg 0 [] (- 1) (wb_heads b)")
    case (Some d)
    then show ?thesis using p assessWitness_eq [OF assms(1) ok(1)] by (cases d) simp
  next
    case None
    let ?g = "\<lambda>h. outcome_of reg (the (index_of (reg_roster reg) (wh_from h))) h"
    let ?ks = "filter (\<lambda>h. plan_request m (?g h) \<noteq> None) (wb_heads b)"
    let ?q = "\<lambda>h. the (plan_request m (?g h))"
    have r: "planWitnessSyncRequests pr reg w m = Inr (Planned (map ?q ?ks))"
      using p assessWitness_eq [OF assms(1) ok(1)] None by (simp add: outcomes_of_def map_filter_of)
    have q: "plan_request m (?g h) = Some (?q h)" if "h \<in> set ?ks" for h using that by auto
    note of = plan_request_of [OF assms(3) q]
    have "map sr_from (map ?q ?ks) = map wh_from ?ks" using of(1) by (simp del: set_filter)
    then have "distinct (map sr_from (map ?q ?ks))" by (rule ssubst) (rule distinct_map_filter [OF ok(3)])
    moreover have "length ?ks \<le> MAX_WITNESS_HEADS" using ok(2) length_filter_le le_trans by blast
    moreover have "sr_from (?q h) \<in> set (reg_roster reg) \<and> sr_fromSeq (?q h) \<le> sr_toSeq (?q h) \<and> safe_nat (sr_toSeq (?q h)) \<and>
         sr_toSeq (?q h) - sr_fromSeq (?q h) < m \<and> sr_fromSeq (?q h) \<le> length (log_of reg (sr_from (?q h)))" if "h \<in> set ?ks" for h
    proof -
      have "h \<in> set (wb_heads b)" using that by simp
      then have "wh_from h \<in> set (reg_roster reg)" "safe_nat (wh_seq h)"
        using first_defect_known [OF None] ok(1) by (auto simp: list_all_iff head_ok_def)
      moreover have "safe_nat (sr_toSeq (?q h))" using of(4) [OF that] \<open>safe_nat (wh_seq h)\<close> by (simp add: safe_nat_def)
      ultimately show ?thesis using of [OF that] by simp
    qed
    ultimately show ?thesis unfolding r by (intro exI [of _ "Planned (map ?q ?ks)"]) (auto simp del: set_filter map_map)
  qed
qed

section \<open>Examples\<close>

lemma example_session: "session_state example_prims example_registry"
  "session_state example_prims (fst (reg_ingest example_registry example_artifact))"
  using session_new [OF example_registry_new] session_ingest [OF session_new [OF example_registry_new] example_verified_artifact]
  by simp_all

lemma example_logs: "log_of example_registry s = []"
  "log_of (fst (reg_ingest example_registry example_artifact)) s = (if s = replicate 32 9 then [example_artifact] else [])"
  "reg_roster (fst (reg_ingest example_registry example_artifact)) = example_roster" "reg_roster example_registry = example_roster"
proof -
  show l: "log_of example_registry s = []" for s using newSessionChainRegistry_inv(4) [OF example_registry_new] .
  have "env_from (art_envelope example_artifact) = replicate 32 9" by (simp add: example_artifact_def example_signed_def example_envelope_def)
  then show "log_of (fst (reg_ingest example_registry example_artifact)) s = (if s = replicate 32 9 then [example_artifact] else [])"
    using reg_ingest_step(4) [OF example_registry_inv, of example_artifact s] by (simp add: l example_classify)
  show r: "reg_roster example_registry = example_roster"
    by (simp add: reg_roster_def example_registry_def example_roster_def upt_rec)
  show "reg_roster (fst (reg_ingest example_registry example_artifact)) = example_roster"
    using reg_ingest_step(2) [OF example_registry_inv, of example_artifact] r by simp
qed

theorem witness_compares_sessions_witness:
  "\<exists>outs. assessWitness example_registry (currentWitnessBody (fst (reg_ingest example_registry example_artifact)) None) = Inr (Assessed outs) \<and>
    list_all2 (\<lambda>s out. claims out [] [example_artifact]) [replicate 32 9] outs"
proof -
  have f: "filter (\<lambda>s. log_of (fst (reg_ingest example_registry example_artifact)) s \<noteq> []) (reg_roster (fst (reg_ingest example_registry example_artifact))) =
      [replicate 32 9]"
    by (simp add: example_logs, simp add: example_roster_def)
  have "inj_on (noble_sha256 example_prims) (art_canonicalBytes ` (\<Union>s. set (log_of example_registry s) \<union>
      set (log_of (fst (reg_ingest example_registry example_artifact)) s)))"
    by (auto simp: example_logs inj_on_def split: if_splits)
  from witness_compares_sessions [OF example_laws example_session _ this, of None] f show ?thesis
    by (auto simp: example_logs list_all2_Cons1)
qed

end
