(* ===== verification/Session_Sync.thy ===== *)
theory Session_Sync
  imports Session_Witness
begin

text \<open>
  \<^verbatim>\<open>packages/session/src/sync.ts\<close>: serving a range of a sender's chain, the validation of a whole
  response before any of it is used, and its application to the local chains. The main theorems:
  a response that passes is exactly the requested linked segment, applying one never harms the
  session, and a lagging session that asks a peer catches up with the peer's log.
  A response is typed here, so the checks that its envelopes form an array of artifacts with
  byte strings have no case of their own.
\<close>

section \<open>Results\<close>

datatype SyncServeResult =
    ServeComplete SyncResponseBody
  | ServeMissing nat
  | ServeUnknownSender

datatype SyncResponseRejection =
    SyncUnknownSender
  | SyncWrongCount nat nat
  | SyncWrongGame nat
  | SyncWrongSender nat
  | SyncWrongSequence nat
  | SyncInvalidArtifact nat
  | SyncBrokenPrev nat
  | SyncLimitExceeded

datatype SyncResponsePreflightResult =
    PreflightValid SyncRequestBody SyncResponseBody
  | PreflightRejected SyncResponseRejection

datatype SyncApplyResult =
    Applied "SessionIngestResult list"
  | ApplyRejected SyncResponseRejection

section \<open>Validation\<close>

definition normalizeRequest :: "SyncRequestBody \<Rightarrow> session_error + SyncRequestBody" where
  "normalizeRequest request =
     (if \<not> safe_nat (sr_fromSeq request) then Inl (SessionRangeError ''SYNC_REQ fromSeq must be an unsigned safe integer'')
      else if \<not> safe_nat (sr_toSeq request) \<or> sr_toSeq request < sr_fromSeq request
      then Inl (SessionRangeError ''SYNC_REQ toSeq must be an unsigned safe integer at or above fromSeq'')
      else rbind (protoTry (parseIdentityPublicKey (JBytes (sr_from request)))) (\<lambda>from.
           Inr \<lparr>sr_from = from, sr_fromSeq = sr_fromSeq request, sr_toSeq = sr_toSeq request\<rparr>))"

text \<open>The first loop: the byte references of the batch, bounded as a whole.\<close>

fun capture_bytes :: "nat \<Rightarrow> nat \<Rightarrow> EnvelopeArtifact list \<Rightarrow> bytes list option" where
  "capture_bytes maxBytes totalBytes [] = Some []"
| "capture_bytes maxBytes totalBytes (candidate # candidates) =
     (let bytes = art_canonicalBytes candidate in
      if int (length bytes) > int maxBytes - int totalBytes then None
      else map_option ((#) bytes) (capture_bytes maxBytes (totalBytes + length bytes) candidates))"

text \<open>The second loop: every envelope verified and linked to its predecessor in the batch.\<close>

fun verify_batch ::
    "prims \<Rightarrow> bytes \<Rightarrow> SyncRequestBody \<Rightarrow> nat \<Rightarrow> EnvelopeArtifact list \<Rightarrow> bytes list \<Rightarrow> SyncResponseRejection + EnvelopeArtifact list" where
  "verify_batch pr gameId normalized index envelopes [] = Inr envelopes"
| "verify_batch pr gameId normalized index envelopes (bytes # encoded) =
     (case decodeAndVerifyEnvelope pr bytes of
        Inl _ \<Rightarrow> Inl (SyncInvalidArtifact index)
      | Inr artifact \<Rightarrow>
          if \<not> bytesEqual (env_game (art_envelope artifact)) gameId then Inl (SyncWrongGame index)
          else if \<not> bytesEqual (env_from (art_envelope artifact)) (sr_from normalized) then Inl (SyncWrongSender index)
          else if env_seq (art_envelope artifact) \<noteq> sr_fromSeq normalized + index then Inl (SyncWrongSequence index)
          else if index > 0 \<and> \<not> bytesEqual (env_prev (art_envelope artifact)) (art_hash (envelopes ! (index - 1)))
          then Inl (SyncBrokenPrev index)
          else verify_batch pr gameId normalized (Suc index) (envelopes @ [artifact]) encoded)"

definition preflightSyncResponse ::
    "prims \<Rightarrow> SessionChainRegistry \<Rightarrow> SyncRequestBody \<Rightarrow> SyncResponseBody \<Rightarrow> nat \<Rightarrow> nat \<Rightarrow> session_error + SyncResponsePreflightResult" where
  "preflightSyncResponse pr reg request candidates maxEnvelopes maxBytes =
     (if \<not> safe_nat maxEnvelopes \<or> maxEnvelopes < 1 then Inl (SessionRangeError ''maxEnvelopes must be a positive safe integer'')
      else if \<not> safe_nat maxBytes \<or> maxBytes < 1 then Inl (SessionRangeError ''maxBytes must be a positive safe integer'')
      else rbind (normalizeRequest request) (\<lambda>normalized.
        if reg_seatOf reg (sr_from normalized) = None then Inr (PreflightRejected SyncUnknownSender)
        else if sr_toSeq normalized - sr_fromSeq normalized \<ge> maxEnvelopes then Inr (PreflightRejected SyncLimitExceeded)
        else if length candidates > maxEnvelopes then Inr (PreflightRejected SyncLimitExceeded)
        else let expectedCount = sr_toSeq normalized - sr_fromSeq normalized + 1 in
          if length candidates \<noteq> expectedCount then Inr (PreflightRejected (SyncWrongCount expectedCount (length candidates)))
          else case capture_bytes maxBytes 0 candidates of
            None \<Rightarrow> Inr (PreflightRejected SyncLimitExceeded)
          | Some encoded \<Rightarrow>
              (case verify_batch pr (reg_gameId reg) normalized 0 [] encoded of
                 Inl rejection \<Rightarrow> Inr (PreflightRejected rejection)
               | Inr envelopes \<Rightarrow> Inr (PreflightValid normalized envelopes))))"

section \<open>Serving and applying\<close>

definition serveSyncRequest :: "prims \<Rightarrow> SessionChainRegistry \<Rightarrow> SyncRequestBody \<Rightarrow> session_error + SyncServeResult" where
  "serveSyncRequest pr reg request =
     rbind (normalizeRequest request) (\<lambda>normalized.
     if sr_toSeq normalized - sr_fromSeq normalized \<ge> DEFAULT_MAX_SYNC_RANGE_ENVELOPES
     then Inl (SessionRangeError ''SYNC_REQ range must contain at most 128 envelopes'')
     else rbind (reg_readRange reg (sr_from normalized) (sr_fromSeq normalized) (sr_toSeq normalized)) (\<lambda>range.
       case range of
         RangeComplete envelopes \<Rightarrow>
           rbind (preflightSyncResponse pr reg normalized envelopes DEFAULT_MAX_SYNC_RANGE_ENVELOPES DEFAULT_MAX_SYNC_RESPONSE_BYTES)
             (\<lambda>preflight. case preflight of
                PreflightRejected SyncLimitExceeded \<Rightarrow> Inl (SessionRangeError ''SYNC_RESP source range exceeds the byte limit'')
              | PreflightRejected _ \<Rightarrow> Inl (SessionFault ''SYNC_RESP source range is invalid'')
              | PreflightValid _ response \<Rightarrow> Inr (ServeComplete response))
       | RangeMissing seq \<Rightarrow> Inr (ServeMissing seq)
       | RangeUnknownSender \<Rightarrow> Inr ServeUnknownSender))"

fun ingest_each ::
    "SessionChainRegistry \<Rightarrow> EnvelopeArtifact list \<Rightarrow> SessionChainRegistry \<times> (session_error + SessionIngestResult list)" where
  "ingest_each reg [] = (reg, Inr [])"
| "ingest_each reg (artifact # artifacts) =
     (case reg_ingest reg artifact of
        (reg', Inl e) \<Rightarrow> (reg', Inl e)
      | (reg', Inr r) \<Rightarrow> (case ingest_each reg' artifacts of (reg'', rs) \<Rightarrow> (reg'', rbind rs (\<lambda>rs. Inr (r # rs)))))"

definition applySyncResponse ::
    "prims \<Rightarrow> SessionChainRegistry \<Rightarrow> SyncRequestBody \<Rightarrow> SyncResponseBody \<Rightarrow> SessionChainRegistry \<times> (session_error + SyncApplyResult)" where
  "applySyncResponse pr reg request response =
     (case preflightSyncResponse pr reg request response DEFAULT_MAX_SYNC_RANGE_ENVELOPES DEFAULT_MAX_SYNC_RESPONSE_BYTES of
        Inl e \<Rightarrow> (reg, Inl e)
      | Inr (PreflightRejected rejection) \<Rightarrow> (reg, Inr (ApplyRejected rejection))
      | Inr (PreflightValid normalized envelopes) \<Rightarrow>
          (case ingest_each reg envelopes of (reg', rs) \<Rightarrow> (reg', rbind rs (\<lambda>results. Inr (Applied results)))))"

section \<open>What passes the validation\<close>

text \<open>A linked segment: verified envelopes of one game and sender, numbered from \<open>k\<close> without gaps, each
  naming the hash of the one before it.\<close>

definition segment :: "prims \<Rightarrow> bytes \<Rightarrow> bytes \<Rightarrow> nat \<Rightarrow> EnvelopeArtifact list \<Rightarrow> bool" where
  "segment pr g s k as \<longleftrightarrow> (\<forall>i < length as. verified pr (as ! i) \<and> env_game (art_envelope (as ! i)) = g \<and>
     env_from (art_envelope (as ! i)) = s \<and> env_seq (art_envelope (as ! i)) = k + i \<and>
     (0 < i \<longrightarrow> env_prev (art_envelope (as ! i)) = art_hash (as ! (i - 1))))"

lemma segment_Nil [simp]: "segment pr g s k []"
  by (simp add: segment_def)

lemma segment_snoc:
  "segment pr g s k (as @ [a]) \<longleftrightarrow> segment pr g s k as \<and> verified pr a \<and> env_game (art_envelope a) = g \<and>
     env_from (art_envelope a) = s \<and> env_seq (art_envelope a) = k + length as \<and>
     (as \<noteq> [] \<longrightarrow> env_prev (art_envelope a) = art_hash (as ! (length as - 1)))"
  by (auto simp: segment_def nth_append less_Suc_eq)

lemma segment_prefix:
  assumes "segment pr g s k (as @ bs)"
  shows "segment pr g s k as"
  unfolding segment_def
proof (intro allI impI)
  fix i assume i: "i < length as"
  then have *: "(as @ bs) ! i = as ! i" "(as @ bs) ! (i - 1) = as ! (i - 1)" by (auto simp: nth_append)
  have "i < length (as @ bs)" using i by simp
  then show "verified pr (as ! i) \<and> env_game (art_envelope (as ! i)) = g \<and> env_from (art_envelope (as ! i)) = s \<and>
      env_seq (art_envelope (as ! i)) = k + i \<and> (0 < i \<longrightarrow> env_prev (art_envelope (as ! i)) = art_hash (as ! (i - 1)))"
    using assms unfolding segment_def by (metis *)
qed

lemma capture_bytes_eq:
  "capture_bytes m t as = (if t \<le> m \<and> t + sum_list (map (\<lambda>a. length (art_canonicalBytes a)) as) \<le> m \<or> as = []
     then Some (map art_canonicalBytes as) else None)"
proof (induction as arbitrary: t)
  case (Cons a as)
  then show ?case by (cases "as = []") (auto simp: Let_def)
qed simp

lemma verify_batch_Inr:
  assumes "codec_laws pr" "index = length acc" "segment pr g (sr_from q) (sr_fromSeq q) acc"
  shows "verify_batch pr g q index acc bs = Inr as \<longleftrightarrow>
    (\<exists>bs'. as = acc @ bs' \<and> map art_canonicalBytes bs' = bs \<and> segment pr g (sr_from q) (sr_fromSeq q) as)"
  using assms(2,3)
proof (induction bs arbitrary: index acc)
  case (Cons b bs)
  have split: "(\<exists>bs'. as = acc @ bs' \<and> map art_canonicalBytes bs' = b # bs \<and> P) \<longleftrightarrow>
      (\<exists>a cs. as = (acc @ [a]) @ cs \<and> art_canonicalBytes a = b \<and> map art_canonicalBytes cs = bs \<and> P)" for P
    by (auto simp: map_eq_Cons_conv)
  note pre = segment_prefix [of pr g _ _ "acc @ [_]"]
  show ?case
  proof (cases "decodeAndVerifyEnvelope pr b")
    case (Inl e)
    have "\<not> segment pr g s k ((acc @ [a]) @ cs)" if "art_canonicalBytes a = b" for a cs s k
      using pre [of s k a cs] that Inl by (auto simp: segment_snoc verified_def)
    then show ?thesis using Inl by (simp only: split) auto
  next
    case (Inr a)
    have ab: "art_canonicalBytes a = b" using verified_artifact(1) [OF assms(1) Inr] .
    have ver: "verified pr a" using Inr ab by (simp add: verified_def)
    have uniq: "x = a" if "art_canonicalBytes x = b" "segment pr g s k ((acc @ [x]) @ cs)" for x cs s k
      using pre [OF that(2)] that(1) Inr by (auto simp: segment_snoc verified_def)
    show ?thesis
    proof (cases "segment pr g (sr_from q) (sr_fromSeq q) (acc @ [a])")
      case True
      then have "verify_batch pr g q index acc (b # bs) = verify_batch pr g q (Suc index) (acc @ [a]) bs"
        using Inr Cons.prems by (auto simp: segment_snoc)
      moreover have "verify_batch pr g q (Suc index) (acc @ [a]) bs = Inr as \<longleftrightarrow>
          (\<exists>cs. as = (acc @ [a]) @ cs \<and> map art_canonicalBytes cs = bs \<and> segment pr g (sr_from q) (sr_fromSeq q) as)"
        using Cons.prems(1) True by (intro Cons.IH) simp_all
      ultimately show ?thesis unfolding split using ab uniq by metis
    next
      case False
      then have "\<exists>e. verify_batch pr g q index acc (b # bs) = Inl e"
        using Inr Cons.prems ver by (auto simp: segment_snoc)
      moreover have "\<not> segment pr g (sr_from q) (sr_fromSeq q) ((acc @ [x]) @ cs)" if "art_canonicalBytes x = b" for x cs
        using False uniq [OF that] pre by metis
      ultimately show ?thesis by (simp only: split) auto
    qed
  qed
qed auto

lemma normalizeRequest_Inr:
  "normalizeRequest q = Inr q' \<longleftrightarrow> q' = q \<and> safe_nat (sr_toSeq q) \<and> sr_fromSeq q \<le> sr_toSeq q \<and> length (sr_from q) = 32"
  by (cases q) (auto simp: normalizeRequest_def result_simps field_defs safe_nat_def split: if_splits)

definition payload :: "EnvelopeArtifact list \<Rightarrow> nat" where
  "payload as = sum_list (map length (map art_canonicalBytes as))"

lemma payload_bytes: "map art_canonicalBytes as = map art_canonicalBytes bs \<Longrightarrow> payload as = payload bs"
  by (simp only: payload_def)

lemma preflight_valid_iff:
  assumes "codec_laws pr" "reg_inv reg" "safe_nat me" "1 \<le> me" "safe_nat mb" "1 \<le> mb"
  shows "preflightSyncResponse pr reg q cs me mb = Inr (PreflightValid q' as) \<longleftrightarrow>
    q' = q \<and> safe_nat (sr_toSeq q) \<and> sr_fromSeq q \<le> sr_toSeq q \<and> length (sr_from q) = 32 \<and> sr_from q \<in> set (reg_roster reg) \<and>
    length as = sr_toSeq q - sr_fromSeq q + 1 \<and> length as \<le> me \<and> payload as \<le> mb \<and>
    map art_canonicalBytes as = map art_canonicalBytes cs \<and> segment pr (reg_gameId reg) (sr_from q) (sr_fromSeq q) as" (is "_ \<longleftrightarrow> ?R")
proof
  assume p: "preflightSyncResponse pr reg q cs me mb = Inr (PreflightValid q' as)"
  then have *: "normalizeRequest q = Inr q'" "reg_seatOf reg (sr_from q') \<noteq> None" "sr_toSeq q' - sr_fromSeq q' < me"
    "length cs = sr_toSeq q' - sr_fromSeq q' + 1"
    and "\<exists>e. capture_bytes mb 0 cs = Some e \<and> verify_batch pr (reg_gameId reg) q' 0 [] e = Inr as"
    by (auto simp: preflightSyncResponse_def result_simps Let_def split: if_splits option.splits sum.splits)
  then obtain e where e: "capture_bytes mb 0 cs = Some e" "verify_batch pr (reg_gameId reg) q' 0 [] e = Inr as" by blast
  have v: "map art_canonicalBytes as = e" "segment pr (reg_gameId reg) (sr_from q') (sr_fromSeq q') as"
    using e(2) by (simp_all add: verify_batch_Inr [OF assms(1)])
  have c: "e = map art_canonicalBytes cs" "payload cs \<le> mb" using e(1) *(4) by (auto simp: capture_bytes_eq payload_def comp_def split: if_splits)
  have "length as = length cs" using v(1) c(1) by (metis length_map)
  moreover have "payload as = payload cs" using v(1) c(1) by (intro payload_bytes) simp
  moreover have "sr_from q' \<in> set (reg_roster reg)" using *(2) seatOf_index [OF assms(2)] index_of_None by metis
  ultimately show ?R using * v c by (auto simp: normalizeRequest_Inr)
next
  assume r: ?R
  have len: "length cs = length as" using r by (metis length_map)
  have pay: "payload cs = payload as" using r by (metis payload_bytes)
  have "payload cs \<le> mb" using r pay by simp
  then have "capture_bytes mb 0 cs = Some (map art_canonicalBytes as)" using r by (auto simp: capture_bytes_eq payload_def comp_def)
  moreover have "verify_batch pr (reg_gameId reg) q 0 [] (map art_canonicalBytes as) = Inr as"
    using r by (simp add: verify_batch_Inr [OF assms(1)])
  moreover have "reg_seatOf reg (sr_from q) \<noteq> None" using r seatOf_index [OF assms(2)] index_of_None by metis
  moreover have "normalizeRequest q = Inr q" using r by (simp add: normalizeRequest_Inr)
  ultimately show "preflightSyncResponse pr reg q cs me mb = Inr (PreflightValid q' as)"
    using r assms(3-6) len by (simp add: preflightSyncResponse_def)
qed

section \<open>Ranges of a log\<close>

lemma log_segment:
  assumes "session_state pr reg"
  shows "segment pr (reg_gameId reg) s k (take n (drop k (log_of reg s)))"
  unfolding segment_def
proof (intro allI impI)
  fix i assume "i < length (take n (drop k (log_of reg s)))"
  then have i: "k + i < length (log_of reg s)" "i < n" by auto
  then have at: "take n (drop k (log_of reg s)) ! i = log_of reg s ! (k + i)"
    "0 < i \<Longrightarrow> take n (drop k (log_of reg s)) ! (i - 1) = log_of reg s ! (k + i - 1)" by auto
  have v: "verified pr (log_of reg s ! (k + i))" "env_game (art_envelope (log_of reg s ! (k + i))) = reg_gameId reg"
    using session_log_verified [OF assms] nth_mem [OF i(1)] by blast+
  have l: "linked s (log_of reg s)" by (rule log_of_linked [OF session_inv [OF assms]])
  have "env_prev (art_envelope (log_of reg s ! (k + i))) = art_hash (log_of reg s ! (k + i - 1))" if "0 < i"
    using l i that by (auto simp: linked_def prev_hash_def last_conv_nth min_def)
  then show "verified pr (take n (drop k (log_of reg s)) ! i) \<and> env_game (art_envelope (take n (drop k (log_of reg s)) ! i)) = reg_gameId reg \<and>
      env_from (art_envelope (take n (drop k (log_of reg s)) ! i)) = s \<and> env_seq (art_envelope (take n (drop k (log_of reg s)) ! i)) = k + i \<and>
      (0 < i \<longrightarrow> env_prev (art_envelope (take n (drop k (log_of reg s)) ! i)) = art_hash (take n (drop k (log_of reg s)) ! (i - 1)))"
    using v l i at by (auto simp: linked_def)
qed

lemma classify_log:
  assumes "reg_inv reg" "s \<in> set (reg_roster reg)" "env_from (art_envelope a) = s" "env_game (art_envelope a) = reg_gameId reg"
  shows "reg_classify reg a = ChainResult (chain_classify (chain_of s (log_of reg s)) a)"
proof -
  obtain i where i: "entry_of reg s = Some i"
    using assms(2) entry_of_index [OF assms(1), of s] index_of_None [of "reg_roster reg" s] by (cases "entry_of reg s") auto
  note e = entry_of_Some [OF assms(1) i]
  have "entry_chain (reg_entries reg ! i) = chain_of s (log_of reg s)" using e by (simp add: chain_inv_def)
  then show ?thesis using i assms(3,4) by (simp add: reg_classify_def)
qed

lemma ingest_each_Inr:
  assumes "reg_inv reg"
  shows "\<exists>rs. ingest_each reg as = (foldl (\<lambda>r a. fst (reg_ingest r a)) reg as, Inr rs) \<and> length rs = length as"
  using assms
proof (induction as arbitrary: reg)
  case (Cons a as)
  obtain reg' where r: "reg_ingest reg a = (reg', Inr (reg_classify reg a))"
    using reg_ingest_result [OF Cons.prems, of a] by (metis prod.collapse)
  then have "reg_inv reg'" using reg_ingest_step(1) [OF Cons.prems, of a] by simp
  from Cons.IH [OF this] obtain rs where "ingest_each reg' as = (foldl (\<lambda>r a. fst (reg_ingest r a)) reg' as, Inr rs)" "length rs = length as" by blast
  then show ?case using r by auto
qed simp

lemma ingest_each_linked:
  assumes "reg_inv reg" "s \<in> set (reg_roster reg)" "linked s (log_of reg s @ as)" "\<forall>a \<in> set as. env_game (art_envelope a) = reg_gameId reg"
  shows "\<exists>rs. snd (ingest_each reg as) = Inr rs \<and> length rs = length as \<and> list_all result_accepted rs \<and>
    log_of (fst (ingest_each reg as)) t = (if t = s then log_of reg s @ as else log_of reg t)"
  using assms
proof (induction as arbitrary: reg)
  case (Cons a as)
  have l: "linked s (log_of reg s @ [a])"
    using linked_take [OF Cons.prems(3), of "Suc (length (log_of reg s))"] by simp
  then have sender: "env_from (art_envelope a) = s" by (simp add: linked_snoc)
  have acc: "result_accepted (reg_classify reg a)"
    using l Cons.prems by (simp add: classify_log [OF Cons.prems(1,2) sender] chain_classify_of linked_snoc)
  obtain reg' where r: "reg_ingest reg a = (reg', Inr (reg_classify reg a))"
    using reg_ingest_result [OF Cons.prems(1), of a] by (metis prod.collapse)
  note st = reg_ingest_step [OF Cons.prems(1), of a, unfolded r fst_conv]
  have log: "log_of reg' t = (if t = s then log_of reg s @ [a] else log_of reg t)" for t using st(4) [of t] acc sender by auto
  have "\<exists>rs. snd (ingest_each reg' as) = Inr rs \<and> length rs = length as \<and> list_all result_accepted rs \<and>
      log_of (fst (ingest_each reg' as)) t = (if t = s then log_of reg' s @ as else log_of reg' t)"
    using Cons.prems st(1-3) log by (intro Cons.IH) auto
  then show ?case using r acc log by (auto split: prod.splits)
qed simp

section \<open>Properties\<close>

lemma default_limits:
  "safe_nat DEFAULT_MAX_SYNC_RANGE_ENVELOPES" "1 \<le> DEFAULT_MAX_SYNC_RANGE_ENVELOPES"
  "safe_nat DEFAULT_MAX_SYNC_RESPONSE_BYTES" "1 \<le> DEFAULT_MAX_SYNC_RESPONSE_BYTES"
  by (simp_all add: DEFAULT_MAX_SYNC_RANGE_ENVELOPES_def DEFAULT_MAX_SYNC_RESPONSE_BYTES_def safe_nat_def MAX_SAFE_INTEGER_def)

text \<open>What the validation of a response lets through. For legal limits and a well-formed request, a
  response is valid exactly when its envelopes are byte for byte a list of verified envelopes of
  this game and the requested sender, numbered without gaps over the whole requested range, each
  naming the hash of its predecessor, within both limits; and then that list is the result.\<close>

theorem preflight_exact:
  assumes "codec_laws pr" "session_state pr reg" "safe_nat me" "1 \<le> me" "safe_nat mb" "1 \<le> mb"
    "safe_nat (sr_toSeq q)" "sr_fromSeq q \<le> sr_toSeq q" "length (sr_from q) = 32"
  shows "preflightSyncResponse pr reg q cs me mb = Inr (PreflightValid q as) \<longleftrightarrow>
    sr_from q \<in> set (reg_roster reg) \<and> length as = sr_toSeq q - sr_fromSeq q + 1 \<and> length as \<le> me \<and> payload as \<le> mb \<and>
    map art_canonicalBytes as = map art_canonicalBytes cs \<and> segment pr (reg_gameId reg) (sr_from q) (sr_fromSeq q) as"
  using preflight_valid_iff [OF assms(1) session_inv [OF assms(2)] assms(3-6), of q cs q as] assms(7-9) by simp

lemma session_fold:
  assumes "session_state pr reg" "\<forall>a \<in> set as. verified pr a"
  shows "session_state pr (foldl (\<lambda>r a. fst (reg_ingest r a)) reg as)"
  using assms by (induction as arbitrary: reg) (auto intro: session_ingest)

lemma fold_other_sender:
  assumes "reg_inv reg" "\<forall>a \<in> set as. env_from (art_envelope a) = s" "t \<noteq> s"
  shows "log_of (foldl (\<lambda>r a. fst (reg_ingest r a)) reg as) t = log_of reg t"
  using assms by (induction as arbitrary: reg) (auto simp: reg_ingest_step)

lemma apply_cases:
  assumes "codec_laws pr" "reg_inv reg"
  obtains (refused) e where "applySyncResponse pr reg q resp = (reg, e)"
    | (applied) as rs where "applySyncResponse pr reg q resp = (foldl (\<lambda>r a. fst (reg_ingest r a)) reg as, Inr (Applied rs))"
      "length rs = length as" "segment pr (reg_gameId reg) (sr_from q) (sr_fromSeq q) as"
      "map art_canonicalBytes as = map art_canonicalBytes resp"
proof (cases "preflightSyncResponse pr reg q resp DEFAULT_MAX_SYNC_RANGE_ENVELOPES DEFAULT_MAX_SYNC_RESPONSE_BYTES")
  case (Inl e)
  then show ?thesis using refused by (simp add: applySyncResponse_def)
next
  case (Inr r)
  show ?thesis
  proof (cases r)
    case (PreflightRejected x)
    then show ?thesis using Inr refused by (simp add: applySyncResponse_def)
  next
    case (PreflightValid q' as)
    then have v: "segment pr (reg_gameId reg) (sr_from q) (sr_fromSeq q) as" "map art_canonicalBytes as = map art_canonicalBytes resp"
      using Inr preflight_valid_iff [OF assms default_limits] by simp_all
    obtain rs where "ingest_each reg as = (foldl (\<lambda>r a. fst (reg_ingest r a)) reg as, Inr rs)" "length rs = length as"
      using ingest_each_Inr [OF assms(2)] by blast
    then show ?thesis using applied v Inr PreflightValid by (simp add: applySyncResponse_def)
  qed
qed

text \<open>Applying a response is safe whatever the peer sent. The session stays a session (every log
  linked and verified), no log loses an entry, only the requested sender's log can grow, and
  every new entry carries the bytes of an envelope of the response.\<close>

theorem apply_sync_safe:
  assumes "codec_laws pr" "session_state pr reg" "applySyncResponse pr reg q resp = (reg', result)"
  shows "session_state pr reg' \<and> reg_roster reg' = reg_roster reg \<and>
    (\<forall>s. prefix (log_of reg s) (log_of reg' s) \<and> (s \<noteq> sr_from q \<longrightarrow> log_of reg' s = log_of reg s) \<and>
      (\<forall>a \<in> set (log_of reg' s) - set (log_of reg s). art_canonicalBytes a \<in> set (map art_canonicalBytes resp)))"
proof (rule apply_cases [OF assms(1) session_inv [OF assms(2)], of q resp])
  fix e assume "applySyncResponse pr reg q resp = (reg, e)"
  then show ?thesis using assms by simp
next
  fix as rs assume a: "applySyncResponse pr reg q resp = (foldl (\<lambda>r a. fst (reg_ingest r a)) reg as, Inr (Applied rs))"
    and seg: "segment pr (reg_gameId reg) (sr_from q) (sr_fromSeq q) as" and bytes: "map art_canonicalBytes as = map art_canonicalBytes resp"
  note inv = session_inv [OF assms(2)]
  have r: "reg' = foldl (\<lambda>r a. fst (reg_ingest r a)) reg as" using a assms(3) by simp
  have el: "\<forall>a \<in> set as. verified pr a \<and> env_from (art_envelope a) = sr_from q" using seg by (auto simp: segment_def in_set_conv_nth)
  have roster: "reg_roster (foldl (\<lambda>r a. fst (reg_ingest r a)) reg as) = reg_roster reg"
    using inv by (induction as arbitrary: reg) (simp_all add: reg_ingest_step)
  have "art_canonicalBytes x \<in> set (map art_canonicalBytes resp)" if "x \<in> set (log_of reg' s) - set (log_of reg s)" for x s
    using that registry_log.fold_put_log [OF inv, of as s] bytes [symmetric] unfolding r by auto
  then show ?thesis
    using roster session_fold [OF assms(2), of as] el registry_log.fold_put_prefix [OF inv, of _ as]
      fold_other_sender [OF inv, of as "sr_from q"] unfolding r by auto
qed

text \<open>C7: a lagging session catches up. When session \<open>A\<close>, whose log of a sender is a prefix of the log
  session \<open>B\<close> holds, asks \<open>B\<close> for the range from its own length up to position \<open>j\<close> (at most 128
  envelopes and 4 MiB), \<open>B\<close> serves the range, the response passes \<open>A\<close>'s validation, every envelope
  is accepted, and \<open>A\<close>'s log of that sender becomes \<open>B\<close>'s log up to and including \<open>j\<close>, while all
  other logs stay as they were.\<close>

theorem sync_catches_up:
  assumes "codec_laws pr" "session_state pr A" "session_state pr B" "reg_roster A = reg_roster B" "reg_gameId A = reg_gameId B"
    and "s \<in> set (reg_roster B)" "prefix (log_of A s) (log_of B s)" "length (log_of A s) \<le> j" "j < length (log_of B s)"
    and "j - length (log_of A s) < DEFAULT_MAX_SYNC_RANGE_ENVELOPES"
    and "payload (take (Suc j) (log_of B s)) - payload (log_of A s) \<le> DEFAULT_MAX_SYNC_RESPONSE_BYTES"
  shows "\<exists>body rs A'. serveSyncRequest pr B \<lparr>sr_from = s, sr_fromSeq = length (log_of A s), sr_toSeq = j\<rparr> = Inr (ServeComplete body) \<and>
    applySyncResponse pr A \<lparr>sr_from = s, sr_fromSeq = length (log_of A s), sr_toSeq = j\<rparr> body = (A', Inr (Applied rs)) \<and>
    list_all result_accepted rs \<and> length rs = Suc j - length (log_of A s) \<and>
    (\<forall>t. log_of A' t = (if t = s then take (Suc j) (log_of B s) else log_of A t))"
proof -
  note invA = session_inv [OF assms(2)] and invB = session_inv [OF assms(3)]
  let ?k = "length (log_of A s)"
  let ?q = "\<lparr>sr_from = s, sr_fromSeq = ?k, sr_toSeq = j\<rparr>"
  define as where "as = take (Suc j - ?k) (drop ?k (log_of B s))"
  have all: "log_of A s @ as = take (Suc j) (log_of B s)"
    using assms(7,8) by (auto simp: as_def prefix_def)
  have len: "length as = j - ?k + 1" using assms(8,9) by (simp add: as_def)
  have j: "safe_nat j" "length s = 32" using session_log_seq [OF assms(1,3,9)] by simp_all
  then have k: "safe_nat ?k" using assms(8) by (simp add: safe_nat_def)
  have pay: "payload as \<le> DEFAULT_MAX_SYNC_RESPONSE_BYTES" using assms(11) by (simp add: all [symmetric] payload_def)
  have seg: "segment pr (reg_gameId B) s ?k as" unfolding as_def by (rule log_segment [OF assms(3)])
  have valid: "preflightSyncResponse pr R ?q as DEFAULT_MAX_SYNC_RANGE_ENVELOPES DEFAULT_MAX_SYNC_RESPONSE_BYTES = Inr (PreflightValid ?q as)"
    if "reg_inv R" "reg_roster R = reg_roster B" "reg_gameId R = reg_gameId B" for R
    unfolding preflight_valid_iff [OF assms(1) that(1) default_limits] using that j assms(6,8,10) len pay seg by simp
  have "reg_readRange B s ?k j = Inr (RangeComplete as)"
    using reg_readRange_eq [OF invB k j(1) assms(8)] assms(6,9) by (simp add: as_def)
  then have serve: "serveSyncRequest pr B ?q = Inr (ServeComplete as)"
    using valid [OF invB refl refl] j k assms(8,10) normalizeRequest_Inr [of ?q ?q] by (simp add: serveSyncRequest_def)
  have l: "linked s (log_of A s @ as)" unfolding all by (rule linked_take [OF log_of_linked [OF invB]])
  have g: "\<forall>a \<in> set as. env_game (art_envelope a) = reg_gameId A" using seg assms(5) by (auto simp: segment_def in_set_conv_nth)
  note ing = ingest_each_linked [OF invA _ l g, unfolded assms(4), OF assms(6)]
  obtain rs where rs: "snd (ingest_each A as) = Inr rs" "length rs = length as" "list_all result_accepted rs" using ing by blast
  obtain A' where i: "ingest_each A as = (A', Inr rs)" using rs(1) by (metis prod.collapse)
  have "log_of A' t = (if t = s then take (Suc j) (log_of B s) else log_of A t)" for t
    using ing [of t] i all by auto
  moreover have "applySyncResponse pr A ?q as = (A', Inr (Applied rs))"
    using valid [OF invA assms(4,5)] i by (simp add: applySyncResponse_def)
  ultimately show ?thesis using serve rs len assms(8) by auto
qed

section \<open>Examples\<close>

lemma example_payload: "payload [example_artifact] = 3"
  by (simp add: payload_def example_artifact_def)

lemma example_segment: "segment example_prims (replicate 16 7) (replicate 32 9) 0 [example_artifact]"
  using example_verified_artifact
  by (simp add: segment_def example_artifact_def example_signed_def example_envelope_def)

theorem preflight_exact_example:
  "preflightSyncResponse example_prims example_registry \<lparr>sr_from = replicate 32 9, sr_fromSeq = 0, sr_toSeq = 0\<rparr> [example_artifact] 1 3 =
     Inr (PreflightValid \<lparr>sr_from = replicate 32 9, sr_fromSeq = 0, sr_toSeq = 0\<rparr> [example_artifact])"
proof -
  have m: "replicate 32 9 \<in> set (reg_roster example_registry)" by (simp add: example_logs, simp add: example_roster_def)
  have g: "reg_gameId example_registry = replicate 16 7" by (simp add: example_registry_def)
  show ?thesis
    by (subst preflight_exact [OF example_laws example_session(1)])
      (use m example_segment in \<open>simp_all add: g safe_nat_def MAX_SAFE_INTEGER_def example_payload\<close>)
qed

theorem apply_sync_safe_example:
  "session_state example_prims (fst (applySyncResponse example_prims example_registry
      \<lparr>sr_from = replicate 32 9, sr_fromSeq = 0, sr_toSeq = 0\<rparr> [example_artifact]))"
  using apply_sync_safe [OF example_laws example_session(1) prod.collapse [symmetric]] by blast

theorem sync_catches_up_witness:
  "\<exists>body rs A'. serveSyncRequest example_prims (fst (reg_ingest example_registry example_artifact))
      \<lparr>sr_from = replicate 32 9, sr_fromSeq = 0, sr_toSeq = 0\<rparr> = Inr (ServeComplete body) \<and>
    applySyncResponse example_prims example_registry \<lparr>sr_from = replicate 32 9, sr_fromSeq = 0, sr_toSeq = 0\<rparr> body = (A', Inr (Applied rs)) \<and>
    log_of A' (replicate 32 9) = [example_artifact]"
proof -
  let ?B = "fst (reg_ingest example_registry example_artifact)"
  have g: "reg_gameId example_registry = reg_gameId ?B" using reg_ingest_step(3) [OF example_registry_inv] by simp
  have m: "replicate 32 9 \<in> set (reg_roster ?B)" by (simp add: example_logs, simp add: example_roster_def)
  have logs: "log_of ?B (replicate 32 9) = [example_artifact]" "log_of example_registry (replicate 32 9) = []" by (simp_all add: example_logs)
  have r: "reg_roster example_registry = reg_roster ?B" by (simp add: example_logs)
  from sync_catches_up [OF example_laws example_session r g m, of 0] show ?thesis
    unfolding logs by (auto simp: payload_def DEFAULT_MAX_SYNC_RANGE_ENVELOPES_def DEFAULT_MAX_SYNC_RESPONSE_BYTES_def example_artifact_def)
qed

end
