(* ===== verification/Session_Equivocation.thy ===== *)
theory Session_Equivocation
  imports Session_Sync
begin

text \<open>
  \<^verbatim>\<open>packages/session/src/equivocation.ts\<close>: evidence that a sender signed two different envelopes for
  the same position. The theorems say that accepted evidence convicts exactly the sender of the
  named seat, and that every equivocation the chains detect yields evidence that is accepted.
\<close>

datatype EvidenceRejection = MalformedEvidence | SeatOutOfRoster | SenderSeatMismatch | EvidenceWrongGame

datatype EquivocationViolationAssessment =
    EvidenceValid nat bytes EquivocationViolationBody
  | EvidenceRejected EvidenceRejection

datatype equivocation_error =
    FirstArtifactInvalid protocol_error
  | SenderOutsideRoster
  | NoEquivocationProof protocol_error
  | InvalidForSession EvidenceRejection
  | EvidenceFieldError protocol_error

definition assessEquivocationViolation ::
    "prims \<Rightarrow> SessionChainRegistry \<Rightarrow> EquivocationViolationBody \<Rightarrow> equivocation_error + EquivocationViolationAssessment" where
  "assessEquivocationViolation pr reg candidate =
     (case rbind (encodeEquivocationViolationBody pr candidate) (decodeEquivocationViolationBody pr) of
        Inl _ \<Rightarrow> Inr (EvidenceRejected MalformedEvidence)
      | Inr body \<Rightarrow>
          let sender = env_from (art_envelope (ev_left body)) in
          if \<not> bytesEqual (env_game (art_envelope (ev_left body))) (reg_gameId reg) then Inr (EvidenceRejected EvidenceWrongGame)
          else if ev_seat body \<ge> length (reg_roster reg) then Inr (EvidenceRejected SeatOutOfRoster)
          else if \<not> bytesEqual sender (reg_roster reg ! ev_seat body) then Inr (EvidenceRejected SenderSeatMismatch)
          else rbind (catch_as (parseIdentityPublicKey (JBytes sender)) EvidenceFieldError) (\<lambda>s.
               Inr (EvidenceValid (ev_seat body) s body)))"

definition createEquivocationViolation ::
    "prims \<Rightarrow> SessionChainRegistry \<Rightarrow> EnvelopeArtifact \<Rightarrow> EnvelopeArtifact \<Rightarrow> equivocation_error + EquivocationViolationBody" where
  "createEquivocationViolation pr reg leftCandidate rightCandidate =
     rbind (catch_as (decodeAndVerifyEnvelope pr (art_canonicalBytes leftCandidate)) FirstArtifactInvalid) (\<lambda>left.
     case reg_seatOf reg (env_from (art_envelope left)) of
       None \<Rightarrow> Inl SenderOutsideRoster
     | Some seat \<Rightarrow>
         rbind (catch_as (rbind (encodeEquivocationViolationBody pr \<lparr>ev_seat = seat, ev_left = left, ev_right = rightCandidate\<rparr>)
                  (decodeEquivocationViolationBody pr)) NoEquivocationProof) (\<lambda>body.
         rbind (assessEquivocationViolation pr reg body) (\<lambda>assessment.
         case assessment of
           EvidenceRejected reason \<Rightarrow> Inl (InvalidForSession reason)
         | EvidenceValid seat sender body \<Rightarrow> Inr body)))"

section \<open>Evidence\<close>

lemma ordered_proof:
  assumes "codec_laws pr" "proves_equivocation pr a b"
  obtains l r where "normalizeEvidence pr [a, b] False = Inr (l, r)" "{l, r} = {a, b}" "proves_equivocation pr l r"
    "compareBytes (art_hash l) (art_hash r) < 0"
proof -
  obtain l r where n: "normalizeEvidence pr [a, b] False = Inr (l, r)" "{l, r} = {a, b}"
    using normalizeEvidence_proof(1) [OF assms] by (cases "compareBytes (art_hash a) (art_hash b) < 0") auto
  then show ?thesis using that normalizeEvidence_Inr(1,2) [OF assms(1) n(1)] by blast
qed

lemma body_roundtrip:
  assumes "codec_laws pr" "seat \<le> 7" "normalizeEvidence pr [a, b] False = Inr (l, r)"
  shows "rbind (encodeEquivocationViolationBody pr \<lparr>ev_seat = seat, ev_left = a, ev_right = b\<rparr>) (decodeEquivocationViolationBody pr) =
    Inr \<lparr>ev_seat = seat, ev_left = l, ev_right = r\<rparr>"
proof -
  have p: "proves_equivocation pr l r" using normalizeEvidence_Inr(1) [OF assms(1,3)] .
  obtain lv rv where "decodeCanonical pr (art_canonicalBytes l) = Inr lv" "decodeCanonical pr (art_canonicalBytes r) = Inr rv"
    using p verified_reencode(2) [OF assms(1)] unfolding proves_equivocation_def by metis
  moreover have "safe_nat seat" "int seat \<le> 7" using assms(2) by (simp_all add: safe_nat_def MAX_SAFE_INTEGER_def)
  then have "expectUnsignedInteger (jnat seat) ''VIOLATION.body.seat'' 7 = Inr seat" by simp
  ultimately obtain v where v: "encodeEquivocationViolationBody pr \<lparr>ev_seat = seat, ev_left = a, ev_right = b\<rparr> = Inr v"
    using assms(3) by (simp add: encodeEquivocationViolationBody_def del: expectUnsignedInteger_jnat)
  then show ?thesis using encodeEquivocation_Inr [OF assms(1) v] assms(3) by force
qed

lemma body_roundtrip_Inr:
  assumes "codec_laws pr" "rbind (encodeEquivocationViolationBody pr c) (decodeEquivocationViolationBody pr) = Inr body"
  shows "normalizeEvidence pr [ev_left c, ev_right c] False = Inr (ev_left body, ev_right body)" "ev_seat body = ev_seat c" "ev_seat c \<le> 7"
    "proves_equivocation pr (ev_left body) (ev_right body)" "compareBytes (art_hash (ev_left body)) (art_hash (ev_right body)) < 0"
proof -
  obtain v where v: "encodeEquivocationViolationBody pr c = Inr v" "decodeEquivocationViolationBody pr v = Inr body"
    using assms(2) by (auto simp: result_simps)
  then show n: "normalizeEvidence pr [ev_left c, ev_right c] False = Inr (ev_left body, ev_right body)" and "ev_seat body = ev_seat c" "ev_seat c \<le> 7"
    using encodeEquivocation_Inr [OF assms(1) v(1)] by (metis Inr_inject EquivocationViolationBody.select_convs)+
  show "proves_equivocation pr (ev_left body) (ev_right body)" "compareBytes (art_hash (ev_left body)) (art_hash (ev_right body)) < 0"
    using normalizeEvidence_Inr(1,2) [OF assms(1) n] .
qed

lemma assess_valid_iff:
  assumes "codec_laws pr"
  shows "assessEquivocationViolation pr reg c = Inr (EvidenceValid seat s body) \<longleftrightarrow>
    rbind (encodeEquivocationViolationBody pr c) (decodeEquivocationViolationBody pr) = Inr body \<and> seat = ev_seat c \<and>
    s = env_from (art_envelope (ev_left body)) \<and> length s = 32 \<and> env_game (art_envelope (ev_left body)) = reg_gameId reg \<and>
    seat < length (reg_roster reg) \<and> reg_roster reg ! seat = s"
proof (cases "rbind (encodeEquivocationViolationBody pr c) (decodeEquivocationViolationBody pr)")
  case (Inl e)
  then show ?thesis by (simp add: assessEquivocationViolation_def)
next
  case (Inr b)
  have "ev_seat b = ev_seat c" using body_roundtrip_Inr(2) [OF assms Inr] .
  then show ?thesis
    by (auto simp: assessEquivocationViolation_def Inr Let_def result_simps field_defs simp del: roster_length)
qed

section \<open>Properties\<close>

lemma log_no_equivocation:
  assumes "session_state pr reg" "a \<in> set (log_of reg s)" "b \<in> set (log_of reg s)"
  shows "\<not> proves_equivocation pr a b"
proof
  assume p: "proves_equivocation pr a b"
  have l: "linked s (log_of reg s)" by (rule log_of_linked [OF session_inv [OF assms(1)]])
  obtain i j where "i < length (log_of reg s)" "a = log_of reg s ! i" "j < length (log_of reg s)" "b = log_of reg s ! j"
    using assms(2,3) by (auto simp: in_set_conv_nth)
  then show False using l p by (auto simp: linked_def proves_equivocation_def)
qed

text \<open>C10: evidence convicts only the guilty. Assessing a violation never throws, and when it is valid the
  named seat exists, its key is the sender, and the two envelopes are verified envelopes of this
  game signed for that key and the same sequence number with different hashes, in ascending order
  of their hashes. No session, of this peer or another, can hold both in one log.\<close>

theorem assess_evidence_sound:
  assumes "codec_laws pr"
  shows "(\<exists>r. assessEquivocationViolation pr reg c = Inr r) \<and>
    (\<forall>seat s body. assessEquivocationViolation pr reg c = Inr (EvidenceValid seat s body) \<longrightarrow>
       seat < length (reg_roster reg) \<and> reg_roster reg ! seat = s \<and> proves_equivocation pr (ev_left body) (ev_right body) \<and>
       env_from (art_envelope (ev_left body)) = s \<and> env_game (art_envelope (ev_left body)) = reg_gameId reg \<and>
       compareBytes (art_hash (ev_left body)) (art_hash (ev_right body)) < 0 \<and>
       (\<forall>reg'. session_state pr reg' \<longrightarrow> \<not> {ev_left body, ev_right body} \<subseteq> set (log_of reg' s)))"
proof (intro conjI)
  show "\<exists>r. assessEquivocationViolation pr reg c = Inr r"
  proof (cases "rbind (encodeEquivocationViolationBody pr c) (decodeEquivocationViolationBody pr)")
    case (Inl e)
    then show ?thesis by (simp add: assessEquivocationViolation_def)
  next
    case (Inr b)
    have "artifact_ok pr (ev_left b)"
      using body_roundtrip_Inr(4) [OF assms Inr] verified_artifact(2) [OF assms] unfolding proves_equivocation_def by blast
    then have "length (env_from (art_envelope (ev_left b))) = 32" by (simp add: artifact_ok_def envelope_ok_def)
    then have p: "parseIdentityPublicKey (JBytes (env_from (art_envelope (ev_left b)))) = Inr (env_from (art_envelope (ev_left b)))"
      by (simp add: field_defs)
    show ?thesis unfolding assessEquivocationViolation_def Inr Let_def sum.case p by simp
  qed
next
  show "\<forall>seat s body. assessEquivocationViolation pr reg c = Inr (EvidenceValid seat s body) \<longrightarrow>
       seat < length (reg_roster reg) \<and> reg_roster reg ! seat = s \<and> proves_equivocation pr (ev_left body) (ev_right body) \<and>
       env_from (art_envelope (ev_left body)) = s \<and> env_game (art_envelope (ev_left body)) = reg_gameId reg \<and>
       compareBytes (art_hash (ev_left body)) (art_hash (ev_right body)) < 0 \<and>
       (\<forall>reg'. session_state pr reg' \<longrightarrow> \<not> {ev_left body, ev_right body} \<subseteq> set (log_of reg' s))"
  proof (intro allI impI)
    fix seat s body assume "assessEquivocationViolation pr reg c = Inr (EvidenceValid seat s body)"
    note v = this [unfolded assess_valid_iff [OF assms]]
    note b = body_roundtrip_Inr [OF assms, of c body]
    show "seat < length (reg_roster reg) \<and> reg_roster reg ! seat = s \<and> proves_equivocation pr (ev_left body) (ev_right body) \<and>
       env_from (art_envelope (ev_left body)) = s \<and> env_game (art_envelope (ev_left body)) = reg_gameId reg \<and>
       compareBytes (art_hash (ev_left body)) (art_hash (ev_right body)) < 0 \<and>
       (\<forall>reg'. session_state pr reg' \<longrightarrow> \<not> {ev_left body, ev_right body} \<subseteq> set (log_of reg' s))"
      using v b log_no_equivocation by (auto simp del: roster_length)
  qed
qed

lemma create_from_proof:
  assumes "codec_laws pr" "reg_inv reg" "proves_equivocation pr a b" "env_game (art_envelope a) = reg_gameId reg"
    "index_of (reg_roster reg) (env_from (art_envelope a)) = Some seat" "seat \<le> 7"
  obtains body where "createEquivocationViolation pr reg a b = Inr body" "{ev_left body, ev_right body} = {a, b}" "ev_seat body = seat"
    "\<And>reg'. reg_roster reg' = reg_roster reg \<Longrightarrow> reg_gameId reg' = reg_gameId reg \<Longrightarrow>
      assessEquivocationViolation pr reg' body = Inr (EvidenceValid seat (env_from (art_envelope a)) body)"
proof -
  obtain l r where lr: "normalizeEvidence pr [a, b] False = Inr (l, r)" "{l, r} = {a, b}" "proves_equivocation pr l r"
    "compareBytes (art_hash l) (art_hash r) < 0"
    using ordered_proof [OF assms(1,3)] by blast
  let ?body = "\<lparr>ev_seat = seat, ev_left = l, ev_right = r\<rparr>"
  have same: "env_from (art_envelope l) = env_from (art_envelope a)" "env_game (art_envelope l) = reg_gameId reg"
    using lr(2) assms(3,4) by (auto simp: doubleton_eq_iff proves_equivocation_def)
  have len: "length (env_from (art_envelope a)) = 32"
    using assms(3) verified_artifact(2) [OF assms(1)] by (auto simp: proves_equivocation_def artifact_ok_def envelope_ok_def)
  have va: "decodeAndVerifyEnvelope pr (art_canonicalBytes a) = Inr a" using assms(3) by (simp add: proves_equivocation_def)
  note ix = index_of_Some [OF assms(5)]
  have n2: "normalizeEvidence pr [l, r] False = Inr (l, r)" using normalizeEvidence_proof(1) [OF assms(1) lr(3)] lr(4) by simp
  have acc: "assessEquivocationViolation pr reg' ?body = Inr (EvidenceValid seat (env_from (art_envelope a)) ?body)"
    if "reg_roster reg' = reg_roster reg" "reg_gameId reg' = reg_gameId reg" for reg'
    unfolding assess_valid_iff [OF assms(1)] using body_roundtrip [OF assms(1,6) n2] same len ix that by simp
  have "createEquivocationViolation pr reg a b = Inr ?body"
    using va body_roundtrip [OF assms(1,6) lr(1)] acc [OF refl refl] assms(5) seatOf_index [OF assms(2)]
    by (simp add: createEquivocationViolation_def)
  then show ?thesis using that lr(2) acc by simp
qed

text \<open>C9: every detected equivocation can be proved to everyone. When a verified envelope is classified
  as an equivocation, the pair of the stored and the received envelope yields a violation body,
  and every session of the same game and roster assesses that body as valid against the seat of
  their common sender.\<close>

theorem equivocation_provable:
  assumes "codec_laws pr" "session_state pr reg" "verified pr a" "reg_classify reg a = ChainResult (Equivocation old a)"
  shows "\<exists>body. createEquivocationViolation pr reg old a = Inr body \<and> {ev_left body, ev_right body} = {old, a} \<and>
    (\<forall>reg'. reg_roster reg' = reg_roster reg \<and> reg_gameId reg' = reg_gameId reg \<longrightarrow>
       assessEquivocationViolation pr reg' body = Inr (EvidenceValid (ev_seat body) (env_from (art_envelope a)) body))"
proof -
  let ?s = "env_from (art_envelope a)"
  note inv = session_inv [OF assms(2)]
  have g: "env_game (art_envelope a) = reg_gameId reg" using assms(4) by (auto simp: reg_classify_def split: if_splits)
  obtain seat where e: "entry_of reg ?s = Some seat" using assms(4) by (auto simp: reg_classify_def split: if_splits option.splits)
  then have ix: "index_of (reg_roster reg) ?s = Some seat" using entry_of_index [OF inv] by simp
  then have mem: "?s \<in> set (reg_roster reg)" using index_of_None by (metis option.distinct(1))
  have seat: "seat \<le> 7"
    using index_of_Some [OF ix] session_seats [OF assms(2)] by (simp add: MAX_SESSION_SEATS_def)
  have c: "chain_classify (chain_of ?s (log_of reg ?s)) a = Equivocation old a"
    using assms(4) classify_log [OF inv mem refl g] by simp
  then have old: "env_seq (art_envelope a) < length (log_of reg ?s)" "old = log_of reg ?s ! env_seq (art_envelope a)" "art_hash old \<noteq> art_hash a"
    by (auto simp: chain_classify_of split: if_splits)
  then have m: "old \<in> set (log_of reg ?s)" by simp
  have "env_seq (art_envelope old) = env_seq (art_envelope a)"
    using log_of_linked [OF inv, of ?s] old by (simp add: linked_def)
  then have p: "proves_equivocation pr old a"
    using session_log_verified [OF assms(2) m] assms(3) g old(3) by (auto simp: proves_equivocation_def verified_def)
  have o: "env_game (art_envelope old) = reg_gameId reg" "env_from (art_envelope old) = ?s" using session_log_verified [OF assms(2) m] by simp_all
  show ?thesis using create_from_proof [OF assms(1) inv p o(1) _ seat] ix o(2) by metis
qed

section \<open>Examples\<close>

abbreviation example_fed :: SessionChainRegistry where
  "example_fed \<equiv> fst (reg_ingest example_registry example_artifact)"

lemma example_equivocation: "reg_classify example_fed second_artifact = ChainResult (Equivocation example_artifact second_artifact)"
proof -
  have f: "env_from (art_envelope second_artifact) = replicate 32 9" "env_game (art_envelope second_artifact) = replicate 16 7"
    "env_seq (art_envelope second_artifact) = 0" "art_hash second_artifact = replicate 32 5" "art_hash example_artifact = replicate 32 3"
    by (simp_all add: second_artifact_def second_signed_def second_envelope_def example_artifact_def)
  have "reg_gameId example_fed = replicate 16 7" using reg_ingest_step(3) [OF example_registry_inv] by (simp add: example_registry_def)
  moreover have "replicate 32 9 \<in> set (reg_roster example_fed)" by (simp add: example_logs, simp add: example_roster_def)
  ultimately show ?thesis
    using classify_log [OF session_inv [OF example_session(2)], of "replicate 32 9" second_artifact] f
    by (simp add: example_logs chain_classify_of)
qed

theorem equivocation_provable_witness:
  "\<exists>body. createEquivocationViolation example_prims example_fed example_artifact second_artifact = Inr body \<and>
    {ev_left body, ev_right body} = {example_artifact, second_artifact}"
  using equivocation_provable [OF example_laws example_session(2) _ example_equivocation] second_verified
  by (auto simp: verified_def)

theorem assess_evidence_sound_witness:
  "\<exists>body. assessEquivocationViolation example_prims example_fed body = Inr (EvidenceValid (ev_seat body) (replicate 32 9) body) \<and>
    proves_equivocation example_prims (ev_left body) (ev_right body)"
proof -
  have ix: "index_of (reg_roster example_fed) (env_from (art_envelope example_artifact)) = Some 0"
    by (simp only: example_logs) (simp add: example_roster_def example_artifact_def example_signed_def example_envelope_def)
  have p: "proves_equivocation example_prims example_artifact second_artifact"
    using example_verified_artifact second_verified
    by (simp add: proves_equivocation_def verified_def, simp add: example_artifact_def second_artifact_def example_signed_def
        second_signed_def example_envelope_def second_envelope_def)
  have g: "env_game (art_envelope example_artifact) = reg_gameId example_fed"
    using reg_ingest_step(3) [OF example_registry_inv] by (simp add: example_registry_def example_artifact_def example_signed_def example_envelope_def)
  obtain body where "assessEquivocationViolation example_prims example_fed body = Inr (EvidenceValid 0 (env_from (art_envelope example_artifact)) body)" "ev_seat body = 0"
    using create_from_proof [OF example_laws session_inv [OF example_session(2)] p g ix] by (metis zero_le)
  moreover have "env_from (art_envelope example_artifact) = replicate 32 9"
    by (simp add: example_artifact_def example_signed_def example_envelope_def)
  ultimately have a: "assessEquivocationViolation example_prims example_fed body = Inr (EvidenceValid (ev_seat body) (replicate 32 9) body)" by simp
  with assess_evidence_sound [OF example_laws, of example_fed body] have "proves_equivocation example_prims (ev_left body) (ev_right body)" by blast
  with a show ?thesis by blast
qed

end
