(* ===== verification/Transcript_Order.thy ===== *)
theory Transcript_Order
  imports Session_Witness "HOL-Library.Char_ord" "HOL-Library.List_Lexorder" "HOL-Library.Product_Lexorder" "HOL-Library.Multiset"
begin

text \<open>
  \<^verbatim>\<open>packages/session/src/transcript-order.ts\<close>: the canonical order of a transcript. Envelopes are
  grouped by sender, the senders taken in the order of their hexadecimal keys, each group sorted
  by sequence number and checked as a chain. The theorems: the routine is a sort by sender and
  sequence number of a transcript whose groups are complete chains, and its result does not depend
  on the order in which the envelopes were collected. The text \<open>sender:seq\<close> that keys an envelope
  is the pair of its parts here.
\<close>

datatype transcript_error =
    TranscriptGameError protocol_error
  | TranscriptEnvelopeInvalid nat
  | TranscriptOtherGame nat
  | TranscriptRepeats string nat
  | TranscriptInvalidChain string nat ChainIngestResult
  | TranscriptSenderError protocol_error

definition sender_of :: "EnvelopeArtifact \<Rightarrow> string" where
  "sender_of a = bytesToHex (env_from (art_envelope a))"

text \<open>The loop over the transcript: the groups by sender and the keys seen.\<close>

fun collect_senders ::
    "prims \<Rightarrow> bytes \<Rightarrow> nat \<Rightarrow> (string \<times> EnvelopeArtifact list) list \<Rightarrow> (string \<times> nat) list \<Rightarrow> EnvelopeArtifact list \<Rightarrow>
     transcript_error + (string \<times> EnvelopeArtifact list) list" where
  "collect_senders pr game index bySender tuples [] = Inr bySender"
| "collect_senders pr game index bySender tuples (candidate # transcript) =
     (case decodeAndVerifyEnvelope pr (art_canonicalBytes candidate) of
        Inl _ \<Rightarrow> Inl (TranscriptEnvelopeInvalid index)
      | Inr artifact \<Rightarrow>
          if \<not> bytesEqual (env_game (art_envelope artifact)) game then Inl (TranscriptOtherGame index)
          else let sender = sender_of artifact; tuple = (sender, env_seq (art_envelope artifact)) in
            if tuple \<in> set tuples then Inl (TranscriptRepeats sender (env_seq (art_envelope artifact)))
            else let artifacts = (case map_of bySender sender of None \<Rightarrow> [] | Some as \<Rightarrow> as) in
              collect_senders pr game (Suc index) (AList.update sender (artifacts @ [artifact]) bySender) (tuple # tuples) transcript)"

text \<open>\<open>compareSequence\<close> orders by the sequence number, so the stable sort is \<open>sort_key\<close>.\<close>

definition compareSequence :: "EnvelopeArtifact \<Rightarrow> EnvelopeArtifact \<Rightarrow> int" where
  "compareSequence left right =
     (if env_seq (art_envelope left) = env_seq (art_envelope right) then 0
      else if env_seq (art_envelope left) < env_seq (art_envelope right) then - 1 else 1)"

fun sort_insert :: "EnvelopeArtifact \<Rightarrow> EnvelopeArtifact list \<Rightarrow> EnvelopeArtifact list" where
  "sort_insert a [] = [a]"
| "sort_insert a (b # bs) = (if compareSequence a b \<le> 0 then a # b # bs else b # sort_insert a bs)"

definition sort_sequence :: "EnvelopeArtifact list \<Rightarrow> EnvelopeArtifact list" where
  "sort_sequence as = foldr sort_insert as []"

fun append_chain ::
    "string \<Rightarrow> SenderChain \<Rightarrow> EnvelopeArtifact list \<Rightarrow> EnvelopeArtifact list \<Rightarrow> transcript_error + EnvelopeArtifact list" where
  "append_chain sender chain ordered [] = Inr ordered"
| "append_chain sender chain ordered (artifact # artifacts) =
     (let (chain', result) = chain_ingest chain artifact in
      if \<not> is_accepted result then Inl (TranscriptInvalidChain sender (env_seq (art_envelope artifact)) result)
      else append_chain sender chain' (ordered @ [artifact]) artifacts)"

fun order_senders ::
    "(string \<times> EnvelopeArtifact list) list \<Rightarrow> EnvelopeArtifact list \<Rightarrow> string list \<Rightarrow> transcript_error + EnvelopeArtifact list" where
  "order_senders bySender ordered [] = Inr ordered"
| "order_senders bySender ordered (sender # senders) =
     (let artifacts = sort_sequence (the (map_of bySender sender)) in
      rbind (catch_as (newSenderChain (JBytes (env_from (art_envelope (hd artifacts))))) TranscriptSenderError) (\<lambda>chain.
      rbind (append_chain sender chain ordered artifacts) (\<lambda>ordered.
      order_senders bySender ordered senders)))"

definition orderEnvelopeTranscript :: "prims \<Rightarrow> jsval \<Rightarrow> EnvelopeArtifact list \<Rightarrow> transcript_error + EnvelopeArtifact list" where
  "orderEnvelopeTranscript pr gameId transcript =
     rbind (catch_as (parseGameId gameId) TranscriptGameError) (\<lambda>game.
     rbind (collect_senders pr game 0 [] [] transcript) (\<lambda>bySender.
     order_senders bySender [] (sort (map fst bySender))))"

section \<open>Sorting a group\<close>

lemma sort_insert_key: "sort_insert a bs = insort_key (\<lambda>x. env_seq (art_envelope x)) a bs"
  by (induction bs) (auto simp: compareSequence_def)

lemma sort_sequence_key: "sort_sequence as = sort_key (\<lambda>x. env_seq (art_envelope x)) as"
  unfolding sort_sequence_def sort_key_def by (simp add: sort_insert_key [abs_def])

section \<open>Grouping\<close>

definition tkey :: "EnvelopeArtifact \<Rightarrow> string \<times> nat" where
  "tkey a = (sender_of a, env_seq (art_envelope a))"

definition decodes :: "prims \<Rightarrow> bytes \<Rightarrow> EnvelopeArtifact \<Rightarrow> EnvelopeArtifact \<Rightarrow> bool" where
  "decodes pr g c a \<longleftrightarrow> decodeAndVerifyEnvelope pr (art_canonicalBytes c) = Inr a \<and> env_game (art_envelope a) = g"

definition add_group :: "(string \<times> EnvelopeArtifact list) list \<Rightarrow> EnvelopeArtifact \<Rightarrow> (string \<times> EnvelopeArtifact list) list" where
  "add_group bs a = AList.update (sender_of a) ((case map_of bs (sender_of a) of None \<Rightarrow> [] | Some as \<Rightarrow> as) @ [a]) bs"

lemma collect_senders_Inr:
  "collect_senders pr g i bs tu ts = Inr bs' \<longleftrightarrow>
    (\<exists>as. list_all2 (decodes pr g) ts as \<and> distinct (map tkey as) \<and> set (map tkey as) \<inter> set tu = {} \<and> bs' = foldl add_group bs as)"
proof (induction ts arbitrary: i bs tu)
  case (Cons c ts)
  show ?case
  proof (cases "decodeAndVerifyEnvelope pr (art_canonicalBytes c)")
    case (Inl e)
    then show ?thesis by (auto simp: list_all2_Cons1 decodes_def)
  next
    case (Inr a)
    have step: "collect_senders pr g i bs tu (c # ts) = Inr bs' \<longleftrightarrow> env_game (art_envelope a) = g \<and> tkey a \<notin> set tu \<and>
        collect_senders pr g (Suc i) (add_group bs a) (tkey a # tu) ts = Inr bs'"
      by (auto simp: Inr Let_def tkey_def add_group_def)
    have "decodes pr g c x \<longleftrightarrow> x = a \<and> env_game (art_envelope a) = g" for x using Inr by (auto simp: decodes_def)
    then have "(\<exists>as. list_all2 (decodes pr g) (c # ts) as \<and> P as) \<longleftrightarrow>
        env_game (art_envelope a) = g \<and> (\<exists>zs. list_all2 (decodes pr g) ts zs \<and> P (a # zs))" for P
      by (auto simp: list_all2_Cons1)
    then show ?thesis unfolding step Cons.IH by auto
  qed
qed auto

lemma groups_lookup:
  "map_of (foldl add_group bs as) k =
    (if filter (\<lambda>a. sender_of a = k) as = [] then map_of bs k
     else Some ((case map_of bs k of None \<Rightarrow> [] | Some xs \<Rightarrow> xs) @ filter (\<lambda>a. sender_of a = k) as))"
  by (induction as arbitrary: bs) (auto simp: add_group_def update_conv' split: option.splits)

lemma groups_keys: "distinct (map fst bs) \<Longrightarrow> distinct (map fst (foldl add_group bs as))"
  "fst ` set (foldl add_group bs as) = fst ` set bs \<union> sender_of ` set as"
  by (induction as arbitrary: bs) (auto simp: add_group_def distinct_update dom_update)

lemma groups_of:
  assumes "bs = foldl add_group [] as"
  shows "map_of bs k = (if k \<in> sender_of ` set as then Some (filter (\<lambda>a. sender_of a = k) as) else None)"
    "distinct (map fst bs)" "set (map fst bs) = sender_of ` set as"
  using groups_lookup [of "[]" as k] groups_keys [of "[]" as] assms by (auto simp: filter_empty_conv)

section \<open>Chains\<close>

lemma append_chain_Inr:
  assumes "linked s log"
  shows "append_chain k (chain_of s log) ord as = Inr out \<longleftrightarrow> linked s (log @ as) \<and> out = ord @ as"
  using assms
proof (induction as arbitrary: log ord)
  case (Cons a as)
  have acc: "is_accepted (chain_classify (chain_of s log) a) \<longleftrightarrow> linked s (log @ [a])"
    using Cons.prems by (simp add: chain_classify_of linked_snoc)
  have pre: "linked s (log @ a # as) \<Longrightarrow> linked s (log @ [a])"
    using linked_take [of s "log @ a # as" "Suc (length log)"] by simp
  show ?case
  proof (cases "linked s (log @ [a])")
    case True
    then show ?thesis using Cons.IH [OF True, of "ord @ [a]"] by (simp add: chain_ingest_of acc)
  next
    case False
    then show ?thesis using pre by (auto simp: chain_ingest_of acc)
  qed
qed auto

abbreviation group :: "EnvelopeArtifact list \<Rightarrow> string \<Rightarrow> EnvelopeArtifact list" where
  "group as k \<equiv> sort_sequence (filter (\<lambda>a. sender_of a = k) as)"

lemma group_set [simp]: "set (group as k) = {a \<in> set as. sender_of a = k}"
  by (auto simp: sort_sequence_key)

lemma sender_of_eq [simp]: "sender_of a = sender_of b \<longleftrightarrow> env_from (art_envelope a) = env_from (art_envelope b)"
  by (simp add: sender_of_def)

lemma order_senders_Inr:
  assumes "set ks \<subseteq> sender_of ` set as" "\<And>k. map_of bs k = (if k \<in> sender_of ` set as then Some (filter (\<lambda>a. sender_of a = k) as) else None)"
    and "\<forall>a \<in> set as. length (env_from (art_envelope a)) = 32"
  shows "order_senders bs ord ks = Inr out \<longleftrightarrow>
    (\<forall>s. bytesToHex s \<in> set ks \<longrightarrow> linked s (group as (bytesToHex s))) \<and> out = ord @ concat (map (group as) ks)"
  using assms(1)
proof (induction ks arbitrary: ord)
  case (Cons k ks)
  obtain a where a: "a \<in> set as" "sender_of a = k" using Cons.prems by auto
  let ?s = "env_from (art_envelope a)"
  have "a \<in> set (group as k)" using a by simp
  then have ne: "group as k \<noteq> []" by force
  then have "hd (group as k) \<in> set (group as k)" by (rule hd_in_set)
  then have "sender_of (hd (group as k)) = sender_of a" unfolding group_set a(2) by blast
  then have s: "env_from (art_envelope (hd (group as k))) = ?s" by (rule sender_of_eq [THEN iffD1])
  have "newSenderChain (JBytes ?s) = Inr (chain_of ?s [])" using a(1) assms(3) by (simp add: newSenderChain_Inr)
  then have step: "order_senders bs ord (k # ks) = Inr out \<longleftrightarrow>
      linked ?s (group as k) \<and> order_senders bs (ord @ group as k) ks = Inr out"
    using Cons.prems s append_chain_Inr [of ?s "[]" k ord "group as k"]
    by (simp add: assms(2) result_simps linked_def [of _ "[]"])
  have k: "bytesToHex ?s = k" "bytesToHex s' = k \<longleftrightarrow> s' = ?s" for s' using a(2) by (auto simp: sender_of_def)
  have sub: "set ks \<subseteq> sender_of ` set as" using Cons.prems by simp
  show ?case unfolding step Cons.IH [OF sub] by (auto simp: k)
qed auto

section \<open>The reference sort\<close>

lemma mset_groups:
  assumes "distinct ks"
  shows "mset (concat (map (group as) ks)) = mset (filter (\<lambda>a. sender_of a \<in> set ks) as)"
  using assms
proof (induction ks)
  case (Cons k ks)
  have "mset (filter (\<lambda>a. sender_of a = k) as) + mset (filter (\<lambda>a. sender_of a \<in> set ks) as) =
      mset (filter (\<lambda>a. sender_of a \<in> set (k # ks)) as)"
    using Cons.prems by (induction as) auto
  then show ?case using Cons by (simp add: sort_sequence_key)
qed simp

lemma sorted_groups: "sorted_wrt (<) ks \<Longrightarrow> sorted (map tkey (concat (map (group as) ks)))"
proof (induction ks)
  case (Cons k ks)
  have "sorted (map tkey (group as k))"
  proof -
    have "map tkey (group as k) = map (Pair k) (map (\<lambda>a. env_seq (art_envelope a)) (group as k))"
      by (simp add: tkey_def sort_sequence_key)
    moreover have "sorted (map (\<lambda>a. env_seq (art_envelope a)) (group as k))" by (simp add: sort_sequence_key)
    moreover have "sorted (map (Pair k) ns)" if "sorted ns" for ns :: "nat list"
      using that by (simp add: sorted_iff_nth_mono)
    ultimately show ?thesis by metis
  qed
  moreover have "tkey a \<le> tkey b" if "a \<in> set (group as k)" "b \<in> set (concat (map (group as) ks))" for a b
    using that Cons.prems by (auto simp: tkey_def)
  ultimately show ?case using Cons by (auto simp: sorted_append)
qed simp

lemma groups_sorted:
  assumes "distinct (map tkey as)" "distinct ks" "set ks = sender_of ` set as"
  shows "concat (map (group as) (sort ks)) = sort_key tkey as"
proof (rule map_sorted_distinct_set_unique [of tkey])
  have m: "mset (concat (map (group as) (sort ks))) = mset as"
    using mset_groups [of "sort ks" as] assms(2,3) by (simp add: filter_True)
  then show s: "set (concat (map (group as) (sort ks))) = set (sort_key tkey as)" by (metis set_mset_mset set_sort)
  have "mset (map tkey (concat (map (group as) (sort ks)))) = mset (map tkey as)" using m by (metis mset_map)
  then show "distinct (map tkey (concat (map (group as) (sort ks))))" using assms(1) mset_eq_imp_distinct_iff by metis
  have "mset (map tkey (sort_key tkey as)) = mset (map tkey as)" by simp
  then show "distinct (map tkey (sort_key tkey as))" using assms(1) mset_eq_imp_distinct_iff by metis
  show "sorted (map tkey (concat (map (group as) (sort ks))))" using assms(2) by (intro sorted_groups) (simp add: strict_sorted_iff)
  have "inj_on tkey (set as)" using assms(1) by (simp add: distinct_map)
  then show "inj_on tkey (set (concat (map (group as) (sort ks))) \<union> set (sort_key tkey as))" unfolding s by simp
qed simp

lemma filter_sort_sender:
  "filter (\<lambda>a. env_from (art_envelope a) = s) (sort_key tkey as) = group as (bytesToHex s)"
proof -
  have f: "filter (\<lambda>a. env_from (art_envelope a) = s) xs = filter (\<lambda>a. sender_of a = bytesToHex s) xs" for xs
    by (simp add: sender_of_def)
  have "filter (\<lambda>a. sender_of a = bytesToHex s) (sort_key tkey as) = sort_key tkey (filter (\<lambda>a. sender_of a = bytesToHex s) as)"
    by (rule filter_sort)
  also have "\<dots> = sort_key (\<lambda>a. env_seq (art_envelope a)) (filter (\<lambda>a. sender_of a = bytesToHex s) as)"
  proof -
    have ins: "\<forall>b \<in> set bs. sender_of b = k \<Longrightarrow> sender_of a = k \<Longrightarrow>
        insort_key tkey a bs = insort_key (\<lambda>a. env_seq (art_envelope a)) a bs" for a bs k
      by (induction bs) (auto simp: tkey_def)
    have "\<forall>b \<in> set bs. sender_of b = k \<Longrightarrow> sort_key tkey bs = sort_key (\<lambda>a. env_seq (art_envelope a)) bs" for bs k
      by (induction bs) (auto simp: ins [where k = k])
    from this [of _ "bytesToHex s"] show ?thesis by simp
  qed
  finally show ?thesis by (simp only: f sort_sequence_key)
qed

lemma decodes_from:
  assumes "codec_laws pr" "list_all2 (decodes pr g) ts as"
  shows "\<forall>a \<in> set as. length (env_from (art_envelope a)) = 32"
proof
  fix a assume "a \<in> set as"
  then obtain i where "i < length as" "a = as ! i" by (auto simp: in_set_conv_nth)
  then have "decodeAndVerifyEnvelope pr (art_canonicalBytes (ts ! i)) = Inr a"
    using assms(2) by (simp add: list_all2_conv_all_nth decodes_def)
  then show "length (env_from (art_envelope a)) = 32"
    using verified_artifact(2) [OF assms(1)] by (auto simp: artifact_ok_def envelope_ok_def)
qed

lemma order_iff:
  assumes "codec_laws pr"
  shows "orderEnvelopeTranscript pr (JBytes g) ts = Inr out \<longleftrightarrow>
    length g = 16 \<and> (\<exists>as. list_all2 (decodes pr g) ts as \<and> distinct (map tkey as) \<and> out = sort_key tkey as \<and>
      (\<forall>s. linked s (filter (\<lambda>a. env_from (art_envelope a) = s) out)))"
proof (cases "length g = 16")
  case False
  then show ?thesis by (auto simp: orderEnvelopeTranscript_def field_defs result_simps)
next
  case True
  have "order_senders (foldl add_group [] as) [] (sort (map fst (foldl add_group [] as))) = Inr out \<longleftrightarrow>
      out = sort_key tkey as \<and> (\<forall>s. linked s (filter (\<lambda>a. env_from (art_envelope a) = s) out))"
    if d: "list_all2 (decodes pr g) ts as" "distinct (map tkey as)" for as
  proof -
    note gr = groups_of [OF refl, of as]
    have empty: "linked s (group as (bytesToHex s))" if "bytesToHex s \<notin> sender_of ` set as" for s
    proof -
      have "filter (\<lambda>a. sender_of a = bytesToHex s) as = []" using that by (force simp: filter_empty_conv)
      then show ?thesis by (simp add: sort_sequence_def linked_def)
    qed
    have "order_senders (foldl add_group [] as) [] (sort (map fst (foldl add_group [] as))) = Inr out \<longleftrightarrow>
        (\<forall>s. bytesToHex s \<in> sender_of ` set as \<longrightarrow> linked s (group as (bytesToHex s))) \<and>
        out = concat (map (group as) (sort (map fst (foldl add_group [] as))))"
      using order_senders_Inr [OF _ gr(1) decodes_from [OF assms d(1)], of "sort (map fst (foldl add_group [] as))" "[]" out] gr(3) by simp
    moreover have "(\<forall>s. bytesToHex s \<in> sender_of ` set as \<longrightarrow> linked s (group as (bytesToHex s))) \<longleftrightarrow>
        (\<forall>s. linked s (filter (\<lambda>a. env_from (art_envelope a) = s) (sort_key tkey as)))"
      unfolding filter_sort_sender using empty by blast
    ultimately show ?thesis unfolding groups_sorted [OF d(2) gr(2,3)] by blast
  qed
  moreover have "parseGameId (JBytes g) = Inr g" using True by (simp add: field_defs)
  ultimately show ?thesis
    using True by (auto simp: orderEnvelopeTranscript_def result_simps collect_senders_Inr)
qed

section \<open>Properties\<close>

text \<open>Ordering a transcript is sorting it. For a valid game id the routine succeeds exactly when all
  envelopes verify and belong to the game, no sender repeats a sequence number, and each sender's
  envelopes in sequence order form a complete linked chain from number zero; the result is then
  the verified envelopes sorted by the sender's hexadecimal key and the sequence number.\<close>

theorem order_is_sort:
  assumes "codec_laws pr" "length g = 16"
  shows "orderEnvelopeTranscript pr (JBytes g) ts = Inr out \<longleftrightarrow>
    (\<exists>as. list_all2 (\<lambda>c a. decodeAndVerifyEnvelope pr (art_canonicalBytes c) = Inr a \<and> env_game (art_envelope a) = g) ts as \<and>
      distinct (map tkey as) \<and> out = sort_key tkey as \<and> (\<forall>s. linked s (filter (\<lambda>a. env_from (art_envelope a) = s) out)))"
  using order_iff [OF assms(1)] assms(2) by (simp add: decodes_def [abs_def])

lemma sort_key_unique:
  assumes "mset as = mset bs" "distinct (map tkey as)"
  shows "sort_key tkey as = sort_key tkey bs" "distinct (map tkey bs)"
proof -
  have m: "mset (map tkey as) = mset (map tkey bs)" using assms(1) by simp
  then show d: "distinct (map tkey bs)" using assms(2) mset_eq_imp_distinct_iff by metis
  have s: "set as = set bs" using assms(1) by (rule mset_eq_setD)
  have k: "distinct (map tkey (sort_key tkey xs))" if "distinct (map tkey xs)" for xs
    using that mset_eq_imp_distinct_iff [of "map tkey (sort_key tkey xs)" "map tkey xs"] by simp
  show "sort_key tkey as = sort_key tkey bs"
    by (rule map_sorted_distinct_set_unique [of tkey]) (use s d assms(2) k in \<open>auto simp: distinct_map\<close>)
qed

text \<open>The canonical order does not depend on how the transcript was collected: two permutations of
  the same envelopes give the same ordered transcript, or are both refused.\<close>

theorem order_permutation:
  assumes "codec_laws pr" "mset ts = mset us"
  shows "orderEnvelopeTranscript pr (JBytes g) ts = Inr out \<longleftrightarrow> orderEnvelopeTranscript pr (JBytes g) us = Inr out"
proof -
  have "orderEnvelopeTranscript pr (JBytes g) us = Inr out"
    if o: "orderEnvelopeTranscript pr (JBytes g) ts = Inr out" and m: "mset ts = mset us" for ts us
  proof -
    obtain as where g: "length g = 16" and as: "list_all2 (decodes pr g) ts as" "distinct (map tkey as)" "out = sort_key tkey as"
      "\<forall>s. linked s (filter (\<lambda>a. env_from (art_envelope a) = s) out)"
      using o by (auto simp: order_iff [OF assms(1)])
    obtain bs where bs: "list_all2 (decodes pr g) us bs" "mset as = mset bs"
      using list_all2_reorder_left_invariance [OF as(1), of us] m by auto
    show ?thesis unfolding order_iff [OF assms(1)] using g bs as sort_key_unique [OF bs(2) as(2)] by auto
  qed
  then show ?thesis using assms(2) by metis
qed

section \<open>Examples\<close>

lemma example_order: "orderEnvelopeTranscript example_prims (JBytes (replicate 16 7)) [example_artifact] = Inr [example_artifact]"
proof -
  have "linked s (filter (\<lambda>a. env_from (art_envelope a) = s) [example_artifact])" for s
    using example_artifact_linked by (auto simp: linked_def [of _ "[]"] example_artifact_def example_signed_def example_envelope_def)
  moreover have "env_game (art_envelope example_artifact) = replicate 16 7"
    by (simp add: example_artifact_def example_signed_def example_envelope_def)
  ultimately show ?thesis
    unfolding order_iff [OF example_laws] using example_verified_artifact
    by (intro conjI exI [of _ "[example_artifact]"]) (simp_all add: decodes_def verified_def)
qed

theorem order_is_sort_example:
  "\<exists>as. list_all2 (\<lambda>c a. decodeAndVerifyEnvelope example_prims (art_canonicalBytes c) = Inr a \<and> env_game (art_envelope a) = replicate 16 7)
     [example_artifact] as \<and> [example_artifact] = sort_key tkey as"
  using order_is_sort [OF example_laws, of "replicate 16 7" "[example_artifact]" "[example_artifact]"] example_order by auto

theorem order_permutation_example:
  "orderEnvelopeTranscript example_prims (JBytes (replicate 16 7)) (rev [example_artifact]) = Inr [example_artifact]"
  using order_permutation [OF example_laws, of "[example_artifact]" "rev [example_artifact]" "replicate 16 7" "[example_artifact]"] example_order by simp

end
