(* ===== verification/Protocol_Lobby.thy ===== *)
theory Protocol_Lobby
  imports Protocol_Bodies
begin

text \<open>
  \<^verbatim>\<open>packages/protocol/src/lobby.ts\<close>: the bodies of the lobby messages JOIN, ROSTER and READY with their
  encoders and decoders, and the hash that names a roster.
\<close>

record JoinBody =
  jb_pkId :: bytes
  jb_rulesHash :: bytes
  jb_clientVersion :: ustr

record RosterBody =
  rb_gameId :: bytes
  rb_rulesHash :: bytes
  rb_iceConfigHash :: bytes
  rb_seats :: "bytes list"

record ReadyBody =
  rdy_rosterHash :: bytes

definition MAX_LOBBY_SEATS :: nat where
  "MAX_LOBBY_SEATS = 8"

definition JOIN_KEYS :: "string list" where
  "JOIN_KEYS = [''pk_id'', ''rules_hash'', ''client_version'']"
definition ROSTER_KEYS :: "string list" where
  "ROSTER_KEYS = [''game_id'', ''rules_hash'', ''ice_config_hash'', ''seats'']"
definition READY_KEYS :: "string list" where
  "READY_KEYS = [''roster_hash'']"

definition decodeFixedBytes ::
    "CborValue \<Rightarrow> string \<Rightarrow> string \<Rightarrow> (jsval \<Rightarrow> protocol_error + bytes) \<Rightarrow> protocol_error + bytes" where
  "decodeFixedBytes v path message parse =
     catch_as (rbind (expectByteString v path) (\<lambda>b. parse (JBytes b))) (as_schema_error path message)"

definition decodeGameId :: "CborValue \<Rightarrow> string \<Rightarrow> protocol_error + bytes" where
  "decodeGameId v path = decodeFixedBytes v path ''must be a 16-byte game identifier'' parseGameId"
definition decodeLobbyIdentity :: "CborValue \<Rightarrow> string \<Rightarrow> protocol_error + bytes" where
  "decodeLobbyIdentity v path = decodeFixedBytes v path ''must be a 32-byte identity key'' parseIdentityPublicKey"
definition decodeLobbyHash :: "CborValue \<Rightarrow> string \<Rightarrow> protocol_error + bytes" where
  "decodeLobbyHash v path = decodeFixedBytes v path ''must be a 32-byte hash'' parseHash256"

definition normalizeJoinBody :: "CborValue \<Rightarrow> CborValue \<Rightarrow> CborValue \<Rightarrow> protocol_error + JoinBody" where
  "normalizeJoinBody pkId rulesHash clientVersion =
     rbind (decodeLobbyIdentity pkId ''JOIN.body.pk_id'') (\<lambda>p.
     rbind (decodeLobbyHash rulesHash ''JOIN.body.rules_hash'') (\<lambda>r.
     rbind (expectNonEmptyText clientVersion ''JOIN.body.client_version'') (\<lambda>c.
     Inr \<lparr>jb_pkId = p, jb_rulesHash = r, jb_clientVersion = c\<rparr>)))"

text \<open>The seats of a roster, with the texts of the identities seen so far.\<close>

fun normalize_seats :: "string list \<Rightarrow> CborValue list \<Rightarrow> protocol_error + bytes list" where
  "normalize_seats seen [] = Inr []"
| "normalize_seats seen (candidate # candidates) =
     rbind (decodeLobbyIdentity candidate ''ROSTER.body.seats'') (\<lambda>seat.
     let key = bytesToHex seat in
     if key \<in> set seen then schemaError ''ROSTER.body.seats'' ''contains duplicate identity''
     else rbind (normalize_seats (key # seen) candidates) (\<lambda>seats. Inr (seat # seats)))"

definition normalizeRosterBody :: "CborValue \<Rightarrow> CborValue \<Rightarrow> CborValue \<Rightarrow> CborValue \<Rightarrow> protocol_error + RosterBody" where
  "normalizeRosterBody gameId rulesHash iceConfigHash seats =
     rbind (expectArray seats ''ROSTER.body.seats'') (\<lambda>candidates.
     if length candidates = 0 \<or> length candidates > MAX_LOBBY_SEATS
     then schemaError ''ROSTER.body.seats'' ''must contain between 1 and 8 identities''
     else rbind (normalize_seats [] candidates) (\<lambda>normalizedSeats.
       rbind (decodeGameId gameId ''ROSTER.body.game_id'') (\<lambda>g.
       rbind (decodeLobbyHash rulesHash ''ROSTER.body.rules_hash'') (\<lambda>r.
       rbind (decodeLobbyHash iceConfigHash ''ROSTER.body.ice_config_hash'') (\<lambda>i.
       Inr \<lparr>rb_gameId = g, rb_rulesHash = r, rb_iceConfigHash = i, rb_seats = normalizedSeats\<rparr>)))))"

definition encodeJoinBody :: "JoinBody \<Rightarrow> protocol_error + CborValue" where
  "encodeJoinBody body =
     rbind (normalizeJoinBody (JBytes (jb_pkId body)) (JBytes (jb_rulesHash body)) (JString (jb_clientVersion body))) (\<lambda>normalized.
     Inr (JObject [(ascii ''pk_id'', JBytes (jb_pkId normalized)), (ascii ''rules_hash'', JBytes (jb_rulesHash normalized)),
       (ascii ''client_version'', JString (jb_clientVersion normalized))]))"

definition decodeJoinBody :: "CborValue \<Rightarrow> protocol_error + JoinBody" where
  "decodeJoinBody v =
     rbind (expectExactMap v JOIN_KEYS ''JOIN.body'') (\<lambda>body.
     rbind (decodeLobbyIdentity (get_prop body ''pk_id'') ''JOIN.body.pk_id'') (\<lambda>p.
     rbind (decodeLobbyHash (get_prop body ''rules_hash'') ''JOIN.body.rules_hash'') (\<lambda>r.
     rbind (expectNonEmptyText (get_prop body ''client_version'') ''JOIN.body.client_version'') (\<lambda>c.
     normalizeJoinBody (JBytes p) (JBytes r) (JString c)))))"

definition encodeRosterBody :: "RosterBody \<Rightarrow> protocol_error + CborValue" where
  "encodeRosterBody body =
     rbind (normalizeRosterBody (JBytes (rb_gameId body)) (JBytes (rb_rulesHash body)) (JBytes (rb_iceConfigHash body))
              (JArray (map JBytes (rb_seats body)))) (\<lambda>normalized.
     Inr (JObject [(ascii ''game_id'', JBytes (rb_gameId normalized)), (ascii ''rules_hash'', JBytes (rb_rulesHash normalized)),
       (ascii ''ice_config_hash'', JBytes (rb_iceConfigHash normalized)), (ascii ''seats'', JArray (map JBytes (rb_seats normalized)))]))"

definition decodeRosterBody :: "CborValue \<Rightarrow> protocol_error + RosterBody" where
  "decodeRosterBody v =
     rbind (expectExactMap v ROSTER_KEYS ''ROSTER.body'') (\<lambda>body.
     rbind (decodeGameId (get_prop body ''game_id'') ''ROSTER.body.game_id'') (\<lambda>g.
     rbind (decodeLobbyHash (get_prop body ''rules_hash'') ''ROSTER.body.rules_hash'') (\<lambda>r.
     rbind (decodeLobbyHash (get_prop body ''ice_config_hash'') ''ROSTER.body.ice_config_hash'') (\<lambda>i.
     rbind (expectArray (get_prop body ''seats'') ''ROSTER.body.seats'') (\<lambda>seats.
     normalizeRosterBody (JBytes g) (JBytes r) (JBytes i) (JArray seats))))))"

definition encodeReadyBody :: "ReadyBody \<Rightarrow> protocol_error + CborValue" where
  "encodeReadyBody body =
     rbind (decodeLobbyHash (JBytes (rdy_rosterHash body)) ''READY.body.roster_hash'') (\<lambda>h.
     Inr (JObject [(ascii ''roster_hash'', JBytes h)]))"

definition decodeReadyBody :: "CborValue \<Rightarrow> protocol_error + ReadyBody" where
  "decodeReadyBody v =
     rbind (expectExactMap v READY_KEYS ''READY.body'') (\<lambda>body.
     rbind (decodeLobbyHash (get_prop body ''roster_hash'') ''READY.body.roster_hash'') (\<lambda>h.
     Inr \<lparr>rdy_rosterHash = h\<rparr>))"

definition hashRosterBody :: "prims \<Rightarrow> RosterBody \<Rightarrow> protocol_error + bytes" where
  "hashRosterBody pr body =
     rbind (encodeRosterBody body) (\<lambda>v.
     rbind (cborTry (encodeCanonical pr v)) (\<lambda>b. parseHash256 (JBytes (sha256 pr [b]))))"

section \<open>Round trips\<close>

lemma decodeFixed_Inr [simp]:
  "decodeGameId v path = Inr b \<longleftrightarrow> v = JBytes b \<and> length b = 16"
  "decodeLobbyIdentity v path = Inr b \<longleftrightarrow> v = JBytes b \<and> length b = 32"
  "decodeLobbyHash v path = Inr b \<longleftrightarrow> v = JBytes b \<and> length b = 32"
  by (auto simp: decodeGameId_def decodeLobbyIdentity_def decodeLobbyHash_def decodeFixedBytes_def result_simps
      expectByteString_def field_defs split: jsval.splits)

definition seats_ok :: "bytes list \<Rightarrow> bool" where
  "seats_ok seats \<longleftrightarrow> seats \<noteq> [] \<and> length seats \<le> MAX_LOBBY_SEATS \<and> distinct seats \<and> (\<forall>s \<in> set seats. length s = 32)"

definition roster_ok :: "RosterBody \<Rightarrow> bool" where
  "roster_ok b \<longleftrightarrow> length (rb_gameId b) = 16 \<and> length (rb_rulesHash b) = 32 \<and> length (rb_iceConfigHash b) = 32 \<and> seats_ok (rb_seats b)"

lemma normalize_seats_Inr:
  "normalize_seats seen vs = Inr seats \<longleftrightarrow> vs = map JBytes seats \<and> distinct seats \<and> (\<forall>s \<in> set seats. length s = 32 \<and> bytesToHex s \<notin> set seen)"
  by (induction vs arbitrary: seen seats) (auto simp: result_simps Let_def)

lemma normalizeRoster_Inr:
  "normalizeRosterBody g r i vs = Inr b \<longleftrightarrow> roster_ok b \<and> g = JBytes (rb_gameId b) \<and> r = JBytes (rb_rulesHash b) \<and>
     i = JBytes (rb_iceConfigHash b) \<and> vs = JArray (map JBytes (rb_seats b))"
  by (cases b) (auto simp: normalizeRosterBody_def result_simps normalize_seats_Inr roster_ok_def seats_ok_def split: if_splits)

definition roster_value :: "RosterBody \<Rightarrow> CborValue" where
  "roster_value b = JObject [(ascii ''game_id'', JBytes (rb_gameId b)), (ascii ''rules_hash'', JBytes (rb_rulesHash b)),
     (ascii ''ice_config_hash'', JBytes (rb_iceConfigHash b)), (ascii ''seats'', JArray (map JBytes (rb_seats b)))]"

lemma map_JBytes_inject [simp]: "map JBytes xs = map JBytes ys \<longleftrightarrow> xs = ys"
  by (auto simp: inj_map_eq_map inj_def)

lemma encodeRoster_Inr: "encodeRosterBody b = Inr v \<longleftrightarrow> roster_ok b \<and> v = roster_value b"
proof -
  have "normalizeRosterBody (JBytes (rb_gameId b)) (JBytes (rb_rulesHash b)) (JBytes (rb_iceConfigHash b)) (JArray (map JBytes (rb_seats b))) = Inr b'
      \<longleftrightarrow> b' = b \<and> roster_ok b" for b'
    by (cases b; cases b') (auto simp: normalizeRoster_Inr)
  then show ?thesis by (auto simp: encodeRosterBody_def result_simps roster_value_def)
qed

lemma decodeRoster_ok: "decodeRosterBody v = Inr b \<Longrightarrow> roster_ok b"
  by (auto simp: decodeRosterBody_def result_simps normalizeRoster_Inr)

lemma decode_roster_value:
  assumes "roster_ok b"
  shows "decodeRosterBody (roster_value b) = Inr b"
proof -
  have e: "expectExactMap (roster_value b) ROSTER_KEYS ''ROSTER.body'' =
      Inr [(ascii ''game_id'', JBytes (rb_gameId b)), (ascii ''rules_hash'', JBytes (rb_rulesHash b)),
        (ascii ''ice_config_hash'', JBytes (rb_iceConfigHash b)), (ascii ''seats'', JArray (map JBytes (rb_seats b)))]"
    by (simp add: roster_value_def has_exactly_def ROSTER_KEYS_def)
  show ?thesis
    unfolding decodeRosterBody_def e rbind_Inr using assms
    by (auto simp: result_simps get_prop_def normalizeRoster_Inr roster_ok_def)
qed

text \<open>A roster is encoded exactly when it is well-formed (one to eight distinct identities of 32 bytes,
  hashes and game id of their lengths), and it decodes to itself; whatever decodes is well-formed.\<close>

theorem roster_body_roundtrip:
  "((\<exists>v. encodeRosterBody b = Inr v) \<longleftrightarrow> roster_ok b) \<and> (\<forall>v. encodeRosterBody b = Inr v \<longrightarrow> decodeRosterBody v = Inr b) \<and>
   (\<forall>v c. decodeRosterBody v = Inr c \<longrightarrow> roster_ok c)"
  using decode_roster_value decodeRoster_ok by (auto simp: encodeRoster_Inr)

definition example_rosterBody :: RosterBody where
  "example_rosterBody = \<lparr>rb_gameId = replicate 16 7, rb_rulesHash = replicate 32 2, rb_iceConfigHash = replicate 32 3,
     rb_seats = [replicate 32 9, replicate 32 1, replicate 32 2]\<rparr>"

lemma example_rosterBody_ok: "roster_ok example_rosterBody"
  by (simp add: roster_ok_def seats_ok_def example_rosterBody_def MAX_LOBBY_SEATS_def)

theorem roster_body_roundtrip_example:
  "\<exists>v. encodeRosterBody example_rosterBody = Inr v \<and> decodeRosterBody v = Inr example_rosterBody"
  using roster_body_roundtrip [of example_rosterBody] example_rosterBody_ok by auto

lemma hashRoster_Inr:
  "hashRosterBody pr b = Inr h \<longleftrightarrow> roster_ok b \<and> (\<exists>c. encodeCanonical pr (roster_value b) = Inr c \<and> h = sha256 pr [c]) \<and> length h = 32"
  by (auto simp: hashRosterBody_def result_simps encodeRoster_Inr field_defs)

end
