(* ===== verification/Lobby_Bootstrap.thy ===== *)
theory Lobby_Bootstrap
  imports Session_Sync Protocol_Lobby
begin

text \<open>
  \<^verbatim>\<open>packages/session/src/lobby-bootstrap.ts\<close>: the lobby before a session. Identities are admitted by
  their JOIN envelopes, the host announces rosters, members confirm the current roster with READY,
  and when every seat has confirmed it the lobby is finalised into a session registry that takes
  over the chains. A chain object lives in the map of chains, so an ingestion replaces its entry;
  copies of validated fields are the fields themselves.
\<close>

section \<open>Context and results\<close>

record LobbyBootstrapContext =
  ctx_gameId :: bytes
  ctx_host :: bytes
  ctx_rulesHash :: bytes
  ctx_iceConfigHash :: bytes

datatype LobbyJoinRejectionReason =
    JoinWrongGame | JoinWrongType | JoinWrongPhase | JoinWrongRound | JoinNotGenesis
  | JoinMalformedBody | JoinSenderMismatch | JoinRulesMismatch

datatype LobbyRosterRejectionReason =
    RosterWrongGame | RosterWrongSender | RosterWrongType | RosterWrongPhase | RosterWrongRound | RosterMalformedBody
  | RosterBodyGameMismatch | RosterRulesMismatch | RosterInvalidIdentity nat | RosterHostMissing

datatype LobbyReadyRejectionReason =
    ReadyLobbyFinalized | ReadyWrongGame | ReadyWrongType | ReadyWrongPhase | ReadyWrongRound | ReadyNoRoster
  | ReadyRosterNotFinalizable | ReadyNotRosterMember | ReadyMalformedBody | ReadyRosterHashMismatch
  | ReadySenderChainMissing | ReadyUnknownRosterHash | ReadyNotInHistory

datatype LobbyState = Forming | CollectingReady | Finalized

datatype LobbyChainIngestResult =
    LobbyChain ChainIngestResult
  | LobbyWrongGame bytes bytes EnvelopeArtifact
  | LobbyUnknownSender bytes EnvelopeArtifact
  | LobbyFinalizedChain EnvelopeArtifact

datatype LobbyJoinBootstrapResult =
    JoinTaken ChainIngestResult JoinBody
  | JoinChainRejected ChainIngestResult
  | JoinInvalid LobbyJoinRejectionReason EnvelopeArtifact
  | JoinNotRosterMember EnvelopeArtifact
  | JoinLobbyFinalized EnvelopeArtifact

datatype LobbyRosterIngestResult =
    RosterTaken ChainIngestResult RosterBody bytes bool
  | RosterChainRejected ChainIngestResult
  | RosterInvalid LobbyRosterRejectionReason EnvelopeArtifact
  | RosterLobbyFinalized EnvelopeArtifact

text \<open>The first field of a taken READY says whether it repeats an earlier one.\<close>

datatype LobbyReadyIngestResult =
    ReadyTaken bool nat LobbyState ReadyBody EnvelopeArtifact ChainIngestResult
  | ReadyChainRejected ChainIngestResult
  | ReadyRejected LobbyReadyRejectionReason EnvelopeArtifact

datatype LobbyReadyRestoreResult =
    ReadyRestored bool nat LobbyState ReadyBody EnvelopeArtifact
  | RestoreRejected LobbyReadyRejectionReason EnvelopeArtifact

record LobbyChainRegistry =
  lob_context :: LobbyBootstrapContext
  lob_chains :: "(string \<times> SenderChain) list"
  lob_readyByRoster :: "(string \<times> (string \<times> EnvelopeArtifact) list) list"
  lob_knownRosters :: "(string \<times> RosterBody) list"
  lob_roster :: "RosterBody option"
  lob_rosterHash :: "bytes option"
  lob_rosterArtifact :: "EnvelopeArtifact option"
  lob_finalizedRegistry :: "SessionChainRegistry option"

section \<open>Validation of envelopes\<close>

definition normalizeContext :: "prims \<Rightarrow> LobbyBootstrapContext \<Rightarrow> session_error + LobbyBootstrapContext" where
  "normalizeContext pr context =
     rbind (protoTry (parseIdentityPublicKey (JBytes (ctx_host context)))) (\<lambda>host.
     rbind (catch_as (importEd25519PublicKey pr host) (\<lambda>_. SessionFault ''invalid host key'')) (\<lambda>_.
     rbind (protoTry (parseGameId (JBytes (ctx_gameId context)))) (\<lambda>g.
     rbind (protoTry (parseHash256 (JBytes (ctx_rulesHash context)))) (\<lambda>r.
     rbind (protoTry (parseHash256 (JBytes (ctx_iceConfigHash context)))) (\<lambda>i.
     Inr \<lparr>ctx_gameId = g, ctx_host = host, ctx_rulesHash = r, ctx_iceConfigHash = i\<rparr>)))))"

definition validateLobbyJoinEnvelope ::
    "prims \<Rightarrow> EnvelopeArtifact \<Rightarrow> LobbyBootstrapContext \<Rightarrow> session_error + (LobbyJoinRejectionReason + JoinBody)" where
  "validateLobbyJoinEnvelope pr received context =
     rbind (normalizeContext pr context) (\<lambda>expected. Inr (
     let envelope = art_envelope received in
     if \<not> bytesEqual (env_game envelope) (ctx_gameId expected) then Inl JoinWrongGame
     else if env_type envelope \<noteq> JOIN then Inl JoinWrongType
     else if env_phase envelope \<noteq> ascii ''lobby'' then Inl JoinWrongPhase
     else if env_round envelope \<noteq> 0 then Inl JoinWrongRound
     else if env_seq envelope \<noteq> 0 \<or> \<not> bytesEqual (env_prev envelope) ZERO_HASH then Inl JoinNotGenesis
     else case decodeJoinBody (env_body envelope) of
       Inl _ \<Rightarrow> Inl JoinMalformedBody
     | Inr body \<Rightarrow>
         if \<not> bytesEqual (jb_pkId body) (env_from envelope) then Inl JoinSenderMismatch
         else if \<not> bytesEqual (jb_rulesHash body) (ctx_rulesHash expected) then Inl JoinRulesMismatch
         else Inr body))"

text \<open>The index of the first seat that is no acceptable identity key.\<close>

fun first_bad_identity :: "prims \<Rightarrow> nat \<Rightarrow> bytes list \<Rightarrow> nat option" where
  "first_bad_identity pr index [] = None"
| "first_bad_identity pr index (identity # seats) =
     (case importEd25519PublicKey pr identity of Inl _ \<Rightarrow> Some index | Inr _ \<Rightarrow> first_bad_identity pr (Suc index) seats)"

definition validateLobbyRosterEnvelope ::
    "prims \<Rightarrow> EnvelopeArtifact \<Rightarrow> LobbyBootstrapContext \<Rightarrow>
     session_error + (LobbyRosterRejectionReason + RosterBody \<times> bytes \<times> bool)" where
  "validateLobbyRosterEnvelope pr received context =
     rbind (normalizeContext pr context) (\<lambda>expected.
     let envelope = art_envelope received in
     if \<not> bytesEqual (env_game envelope) (ctx_gameId expected) then Inr (Inl RosterWrongGame)
     else if \<not> bytesEqual (env_from envelope) (ctx_host expected) then Inr (Inl RosterWrongSender)
     else if env_type envelope \<noteq> ROSTER then Inr (Inl RosterWrongType)
     else if env_phase envelope \<noteq> ascii ''lobby'' then Inr (Inl RosterWrongPhase)
     else if env_round envelope \<noteq> 0 then Inr (Inl RosterWrongRound)
     else case decodeRosterBody (env_body envelope) of
       Inl _ \<Rightarrow> Inr (Inl RosterMalformedBody)
     | Inr body \<Rightarrow>
         if \<not> bytesEqual (rb_gameId body) (ctx_gameId expected) then Inr (Inl RosterBodyGameMismatch)
         else if \<not> bytesEqual (rb_rulesHash body) (ctx_rulesHash expected) then Inr (Inl RosterRulesMismatch)
         else case first_bad_identity pr 0 (rb_seats body) of
           Some index \<Rightarrow> Inr (Inl (RosterInvalidIdentity index))
         | None \<Rightarrow>
             if \<not> list_ex (\<lambda>identity. bytesEqual identity (ctx_host expected)) (rb_seats body) then Inr (Inl RosterHostMissing)
             else rbind (protoTry (hashRosterBody pr body)) (\<lambda>rosterHash.
               Inr (Inr (body, rosterHash, bytesEqual (rb_iceConfigHash body) (ctx_iceConfigHash expected)))))"

section \<open>Construction and queries\<close>

definition newLobbyChainRegistry :: "prims \<Rightarrow> LobbyBootstrapContext \<Rightarrow> session_error + LobbyChainRegistry" where
  "newLobbyChainRegistry pr context =
     rbind (normalizeContext pr context) (\<lambda>ctx.
     rbind (protoTry (newSenderChain (JBytes (ctx_host ctx)))) (\<lambda>chain.
     Inr \<lparr>lob_context = ctx, lob_chains = [(bytesToHex (ctx_host ctx), chain)], lob_readyByRoster = [], lob_knownRosters = [],
       lob_roster = None, lob_rosterHash = None, lob_rosterArtifact = None, lob_finalizedRegistry = None\<rparr>))"

definition lob_state :: "LobbyChainRegistry \<Rightarrow> LobbyState" where
  "lob_state lob =
     (if lob_finalizedRegistry lob \<noteq> None then Finalized
      else case lob_roster lob of
        Some roster \<Rightarrow> if length (rb_seats roster) \<ge> MIN_SESSION_SEATS then CollectingReady else Forming
      | None \<Rightarrow> Forming)"

definition currentReady :: "LobbyChainRegistry \<Rightarrow> (string \<times> EnvelopeArtifact) list option" where
  "currentReady lob =
     (case lob_rosterHash lob of None \<Rightarrow> None | Some h \<Rightarrow> map_of (lob_readyByRoster lob) (bytesToHex h))"

definition readySeats :: "LobbyChainRegistry \<Rightarrow> nat list" where
  "readySeats lob =
     (case lob_roster lob of
        None \<Rightarrow> []
      | Some roster \<Rightarrow> filter (\<lambda>seat. case currentReady lob of None \<Rightarrow> False
          | Some ready \<Rightarrow> map_of ready (bytesToHex (rb_seats roster ! seat)) \<noteq> None) [0..<length (rb_seats roster)])"

definition hasSender :: "LobbyChainRegistry \<Rightarrow> bytes \<Rightarrow> session_error + bool" where
  "hasSender lob sender =
     rbind (protoTry (parseIdentityPublicKey (JBytes sender))) (\<lambda>s. Inr (map_of (lob_chains lob) (bytesToHex s) \<noteq> None))"

definition isRosterMember :: "LobbyChainRegistry \<Rightarrow> bytes \<Rightarrow> session_error + bool" where
  "isRosterMember lob sender =
     rbind (protoTry (parseIdentityPublicKey (JBytes sender))) (\<lambda>s.
     Inr (case lob_roster lob of None \<Rightarrow> False
       | Some roster \<Rightarrow> list_ex (\<lambda>candidate. bytesToHex candidate = bytesToHex s) (rb_seats roster)))"

definition headOf :: "LobbyChainRegistry \<Rightarrow> bytes \<Rightarrow> session_error + ChainHead option" where
  "headOf lob sender =
     rbind (protoTry (parseIdentityPublicKey (JBytes sender))) (\<lambda>s.
     Inr (case map_of (lob_chains lob) (bytesToHex s) of None \<Rightarrow> None | Some chain \<Rightarrow> ch_head chain))"

definition lob_get :: "LobbyChainRegistry \<Rightarrow> bytes \<Rightarrow> nat \<Rightarrow> session_error + EnvelopeArtifact option" where
  "lob_get lob sender seq =
     (if \<not> safe_nat seq then Inl (SessionRangeError ''Lobby sequence must be an unsigned safe integer'')
      else rbind (protoTry (parseIdentityPublicKey (JBytes sender))) (\<lambda>s.
           Inr (case map_of (lob_chains lob) (bytesToHex s) of None \<Rightarrow> None | Some chain \<Rightarrow> chain_get chain seq)))"

abbreviation chain_for :: "LobbyChainRegistry \<Rightarrow> bytes \<Rightarrow> SenderChain option" where
  "chain_for lob sender \<equiv> map_of (lob_chains lob) (bytesToHex sender)"

definition put_chain :: "bytes \<Rightarrow> SenderChain \<Rightarrow> LobbyChainRegistry \<Rightarrow> LobbyChainRegistry" where
  "put_chain sender chain lob = lob\<lparr>lob_chains := AList.update (bytesToHex sender) chain (lob_chains lob)\<rparr>"

section \<open>Other lobby messages\<close>

definition lob_classify :: "LobbyChainRegistry \<Rightarrow> EnvelopeArtifact \<Rightarrow> LobbyChainIngestResult" where
  "lob_classify lob received =
     (if lob_finalizedRegistry lob \<noteq> None then LobbyFinalizedChain received
      else if \<not> bytesEqual (env_game (art_envelope received)) (ctx_gameId (lob_context lob))
      then LobbyWrongGame (ctx_gameId (lob_context lob)) (env_game (art_envelope received)) received
      else case chain_for lob (env_from (art_envelope received)) of
        None \<Rightarrow> LobbyUnknownSender (env_from (art_envelope received)) received
      | Some chain \<Rightarrow> LobbyChain (chain_classify chain received))"

fun lobby_accepted :: "LobbyChainIngestResult \<Rightarrow> bool" where
  "lobby_accepted (LobbyChain r) = is_accepted r"
| "lobby_accepted _ = False"

definition lob_ingest :: "LobbyChainRegistry \<Rightarrow> EnvelopeArtifact \<Rightarrow> LobbyChainRegistry \<times> (session_error + LobbyChainIngestResult)" where
  "lob_ingest lob received =
     (let classification = lob_classify lob received in
      if \<not> lobby_accepted classification then (lob, Inr classification)
      else case chain_for lob (env_from (art_envelope received)) of
        None \<Rightarrow> (lob, Inl (SessionFault ''Lobby sender disappeared between classification and ingestion''))
      | Some chain \<Rightarrow>
          let (chain', result) = chain_ingest chain received in
          (put_chain (env_from (art_envelope received)) chain' lob, Inr (LobbyChain result)))"

section \<open>JOIN\<close>

fun chain_taken :: "ChainIngestResult \<Rightarrow> bool" where
  "chain_taken (Accepted _ _) = True"
| "chain_taken (Duplicate _ _) = True"
| "chain_taken _ = False"

definition join_chain :: "LobbyChainRegistry \<Rightarrow> EnvelopeArtifact \<Rightarrow> session_error + SenderChain" where
  "join_chain lob received =
     (case chain_for lob (env_from (art_envelope received)) of
        Some chain \<Rightarrow> Inr chain
      | None \<Rightarrow> protoTry (newSenderChain (JBytes (env_from (art_envelope received)))))"

definition classifyBootstrapJoin :: "prims \<Rightarrow> LobbyChainRegistry \<Rightarrow> EnvelopeArtifact \<Rightarrow> session_error + LobbyJoinBootstrapResult" where
  "classifyBootstrapJoin pr lob received =
     (if lob_finalizedRegistry lob \<noteq> None then Inr (JoinLobbyFinalized received)
      else rbind (validateLobbyJoinEnvelope pr received (lob_context lob)) (\<lambda>validation.
        case validation of
          Inl reason \<Rightarrow> Inr (JoinInvalid reason received)
        | Inr body \<Rightarrow>
            rbind (join_chain lob received) (\<lambda>chain.
            let result = chain_classify chain received in
            Inr (if chain_taken result then JoinTaken result body else JoinChainRejected result))))"

definition bootstrapJoin ::
    "prims \<Rightarrow> LobbyChainRegistry \<Rightarrow> EnvelopeArtifact \<Rightarrow> LobbyChainRegistry \<times> (session_error + LobbyJoinBootstrapResult)" where
  "bootstrapJoin pr lob received =
     (case classifyBootstrapJoin pr lob received of
        Inl e \<Rightarrow> (lob, Inl e)
      | Inr (JoinTaken (Accepted h r) body) \<Rightarrow>
          (case join_chain lob received of
             Inl e \<Rightarrow> (lob, Inl e)
           | Inr chain \<Rightarrow>
               let (chain', result) = chain_ingest chain received in
               if \<not> is_accepted result
               then (lob, Inl (SessionFault ''Lobby JOIN changed between classification and ingestion''))
               else (put_chain (env_from (art_envelope received)) chain' lob, Inr (JoinTaken result body)))
      | Inr classification \<Rightarrow> (lob, Inr classification))"

definition classifyRosterMemberJoin :: "prims \<Rightarrow> LobbyChainRegistry \<Rightarrow> EnvelopeArtifact \<Rightarrow> session_error + LobbyJoinBootstrapResult" where
  "classifyRosterMemberJoin pr lob received =
     rbind (isRosterMember lob (env_from (art_envelope received))) (\<lambda>m.
     if \<not> m then Inr (JoinNotRosterMember received) else classifyBootstrapJoin pr lob received)"

fun join_rejected :: "LobbyJoinBootstrapResult \<Rightarrow> bool" where
  "join_rejected (JoinTaken _ _) = False"
| "join_rejected _ = True"

definition bootstrapRosterMemberJoin ::
    "prims \<Rightarrow> LobbyChainRegistry \<Rightarrow> EnvelopeArtifact \<Rightarrow> LobbyChainRegistry \<times> (session_error + LobbyJoinBootstrapResult)" where
  "bootstrapRosterMemberJoin pr lob received =
     (case classifyRosterMemberJoin pr lob received of
        Inl e \<Rightarrow> (lob, Inl e)
      | Inr classification \<Rightarrow>
          if join_rejected classification then (lob, Inr classification) else bootstrapJoin pr lob received)"

section \<open>Finalisation\<close>

text \<open>The transfer of one chain: sequence numbers from \<open>seq\<close>, \<open>n\<close> of them.\<close>

fun transfer_chain :: "SenderChain \<Rightarrow> nat \<Rightarrow> nat \<Rightarrow> SessionChainRegistry \<Rightarrow> session_error + SessionChainRegistry" where
  "transfer_chain chain seq 0 registry = Inr registry"
| "transfer_chain chain seq (Suc n) registry =
     (case chain_get chain seq of
        None \<Rightarrow> Inl (SessionFault ''Lobby sender chain is not contiguous'')
      | Some artifact \<Rightarrow>
          (case reg_ingest registry artifact of
             (registry', Inl e) \<Rightarrow> Inl e
           | (registry', Inr result) \<Rightarrow>
               if \<not> result_accepted result then Inl (SessionFault ''Could not transfer lobby sender chain'')
               else transfer_chain chain (Suc seq) n registry'))"

fun transfer_seats :: "LobbyChainRegistry \<Rightarrow> bytes list \<Rightarrow> SessionChainRegistry \<Rightarrow> session_error + SessionChainRegistry" where
  "transfer_seats lob [] registry = Inr registry"
| "transfer_seats lob (sender # seats) registry =
     (case chain_for lob sender of
        None \<Rightarrow> Inl (SessionFault ''Cannot finalize a roster member without a complete sender chain'')
      | Some chain \<Rightarrow>
          (case ch_head chain of
             None \<Rightarrow> Inl (SessionFault ''Cannot finalize a roster member without a complete sender chain'')
           | Some head \<Rightarrow> rbind (transfer_chain chain 0 (head_seq head + 1) registry) (transfer_seats lob seats)))"

definition buildFinalizedRegistry :: "prims \<Rightarrow> LobbyChainRegistry \<Rightarrow> session_error + SessionChainRegistry" where
  "buildFinalizedRegistry pr lob =
     (case lob_roster lob of
        None \<Rightarrow> Inl (SessionFault ''Cannot finalize a lobby without a roster'')
      | Some roster \<Rightarrow>
          rbind (newSessionChainRegistry pr (JBytes (ctx_gameId (lob_context lob))) (map JBytes (rb_seats roster)))
            (transfer_seats lob (rb_seats roster)))"

definition finalizeIfReady :: "prims \<Rightarrow> LobbyChainRegistry \<Rightarrow> LobbyChainRegistry \<times> (session_error + unit)" where
  "finalizeIfReady pr lob =
     (case lob_roster lob of
        None \<Rightarrow> (lob, Inr ())
      | Some roster \<Rightarrow>
          if lob_finalizedRegistry lob \<noteq> None \<or> length (rb_seats roster) < MIN_SESSION_SEATS then (lob, Inr ())
          else case currentReady lob of
            None \<Rightarrow> (lob, Inr ())
          | Some ready \<Rightarrow>
              if length ready = length (rb_seats roster)
              then (case buildFinalizedRegistry pr lob of
                      Inl e \<Rightarrow> (lob, Inl e)
                    | Inr registry \<Rightarrow> (lob\<lparr>lob_finalizedRegistry := Some registry\<rparr>, Inr ()))
              else (lob, Inr ()))"

section \<open>ROSTER\<close>

definition classifyRoster :: "prims \<Rightarrow> LobbyChainRegistry \<Rightarrow> EnvelopeArtifact \<Rightarrow> session_error + LobbyRosterIngestResult" where
  "classifyRoster pr lob received =
     (if lob_finalizedRegistry lob \<noteq> None then Inr (RosterLobbyFinalized received)
      else rbind (validateLobbyRosterEnvelope pr received (lob_context lob)) (\<lambda>validation.
        case validation of
          Inl reason \<Rightarrow> Inr (RosterInvalid reason received)
        | Inr (body, rosterHash, iceConfigMatches) \<Rightarrow>
            (case chain_for lob (ctx_host (lob_context lob)) of
               None \<Rightarrow> Inl (SessionFault ''Lobby registry lost its host chain'')
             | Some hostChain \<Rightarrow>
                 let result = chain_classify hostChain received in
                 Inr (if chain_taken result then RosterTaken result body rosterHash iceConfigMatches
                      else RosterChainRejected result))))"

definition ingestRoster ::
    "prims \<Rightarrow> LobbyChainRegistry \<Rightarrow> EnvelopeArtifact \<Rightarrow> LobbyChainRegistry \<times> (session_error + LobbyRosterIngestResult)" where
  "ingestRoster pr lob received =
     (case classifyRoster pr lob received of
        Inl e \<Rightarrow> (lob, Inl e)
      | Inr (RosterTaken (Accepted h r) body rosterHash iceConfigMatches) \<Rightarrow>
          (case chain_for lob (ctx_host (lob_context lob)) of
             None \<Rightarrow> (lob, Inl (SessionFault ''Lobby registry lost its host chain''))
           | Some hostChain \<Rightarrow>
               let (hostChain', result) = chain_ingest hostChain received in
               if \<not> is_accepted result
               then (lob, Inl (SessionFault ''Lobby roster changed between classification and ingestion''))
               else let lob' = (put_chain (ctx_host (lob_context lob)) hostChain' lob)
                          \<lparr>lob_roster := Some body, lob_rosterHash := Some rosterHash, lob_rosterArtifact := Some received,
                           lob_knownRosters := AList.update (bytesToHex rosterHash) body (lob_knownRosters lob)\<rparr> in
                 (case finalizeIfReady pr lob' of
                    (lob'', Inl e) \<Rightarrow> (lob'', Inl e)
                  | (lob'', Inr _) \<Rightarrow> (lob'', Inr (RosterTaken result body rosterHash iceConfigMatches))))
      | Inr classification \<Rightarrow> (lob, Inr classification))"

section \<open>READY\<close>

definition ready_of :: "LobbyChainRegistry \<Rightarrow> string \<Rightarrow> (string \<times> EnvelopeArtifact) list" where
  "ready_of lob rosterKey = (case map_of (lob_readyByRoster lob) rosterKey of None \<Rightarrow> [] | Some ready \<Rightarrow> ready)"

definition put_ready :: "string \<Rightarrow> string \<Rightarrow> EnvelopeArtifact \<Rightarrow> LobbyChainRegistry \<Rightarrow> LobbyChainRegistry" where
  "put_ready rosterKey senderKey artifact lob =
     lob\<lparr>lob_readyByRoster := AList.update rosterKey (AList.update senderKey artifact (ready_of lob rosterKey)) (lob_readyByRoster lob)\<rparr>"

definition classifyReady :: "LobbyChainRegistry \<Rightarrow> EnvelopeArtifact \<Rightarrow> LobbyReadyIngestResult" where
  "classifyReady lob received =
     (let envelope = art_envelope received in
      if lob_finalizedRegistry lob \<noteq> None then ReadyRejected ReadyLobbyFinalized received
      else if \<not> bytesEqual (env_game envelope) (ctx_gameId (lob_context lob)) then ReadyRejected ReadyWrongGame received
      else if env_type envelope \<noteq> READY then ReadyRejected ReadyWrongType received
      else if env_phase envelope \<noteq> ascii ''lobby'' then ReadyRejected ReadyWrongPhase received
      else if env_round envelope \<noteq> 0 then ReadyRejected ReadyWrongRound received
      else case (lob_roster lob, lob_rosterHash lob) of
        (Some roster, Some rosterHash) \<Rightarrow>
          if length (rb_seats roster) < MIN_SESSION_SEATS then ReadyRejected ReadyRosterNotFinalizable received
          else let senderKey = bytesToHex (env_from envelope) in
            (case index_of (map bytesToHex (rb_seats roster)) senderKey of
               None \<Rightarrow> ReadyRejected ReadyNotRosterMember received
             | Some seat \<Rightarrow>
                 (case decodeReadyBody (env_body envelope) of
                    Inl _ \<Rightarrow> ReadyRejected ReadyMalformedBody received
                  | Inr body \<Rightarrow>
                      if \<not> bytesEqual (rdy_rosterHash body) rosterHash then ReadyRejected ReadyRosterHashMismatch received
                      else (case chain_for lob (env_from envelope) of
                        None \<Rightarrow> ReadyRejected ReadySenderChainMissing received
                      | Some chain \<Rightarrow>
                          let chainResult = chain_classify chain received in
                          if \<not> chain_taken chainResult then ReadyChainRejected chainResult
                          else let ready = ready_of lob (bytesToHex rosterHash);
                                   duplicate = (\<not> is_accepted chainResult \<or> map_of ready senderKey \<noteq> None);
                                   state = (if \<not> duplicate \<and> length ready + 1 = length (rb_seats roster) then Finalized else lob_state lob)
                               in ReadyTaken duplicate seat state body received chainResult)))
      | _ \<Rightarrow> ReadyRejected ReadyNoRoster received)"

definition ingestReady ::
    "prims \<Rightarrow> LobbyChainRegistry \<Rightarrow> EnvelopeArtifact \<Rightarrow> LobbyChainRegistry \<times> (session_error + LobbyReadyIngestResult)" where
  "ingestReady pr lob received =
     (case classifyReady lob received of
        ReadyTaken duplicate seat state body r chainResult \<Rightarrow>
          if \<not> is_accepted chainResult then (lob, Inr (ReadyTaken duplicate seat state body r chainResult))
          else let senderKey = bytesToHex (env_from (art_envelope received)) in
            (case chain_for lob (env_from (art_envelope received)) of
               None \<Rightarrow> (lob, Inl (SessionFault ''Lobby READY sender disappeared between classification and ingestion''))
             | Some chain \<Rightarrow>
                 let (chain', result) = chain_ingest chain received in
                 if \<not> is_accepted result
                 then (lob, Inl (SessionFault ''Lobby READY changed between classification and ingestion''))
                 else let lob' = put_chain (env_from (art_envelope received)) chain' lob in
                   if duplicate then (lob', Inr (ReadyTaken duplicate seat (lob_state lob') body r result))
                   else (case finalizeIfReady pr (put_ready (bytesToHex (rdy_rosterHash body)) senderKey received lob') of
                           (lob'', Inl e) \<Rightarrow> (lob'', Inl e)
                         | (lob'', Inr _) \<Rightarrow> (lob'', Inr (ReadyTaken duplicate seat (lob_state lob'') body r result))))
      | classification \<Rightarrow> (lob, Inr classification))"

definition restoreReadyFromHistory ::
    "prims \<Rightarrow> LobbyChainRegistry \<Rightarrow> EnvelopeArtifact \<Rightarrow> LobbyChainRegistry \<times> (session_error + LobbyReadyRestoreResult)" where
  "restoreReadyFromHistory pr lob received =
     (let envelope = art_envelope received; reject = (\<lambda>reason. (lob, Inr (RestoreRejected reason received))) in
      if lob_finalizedRegistry lob \<noteq> None then reject ReadyLobbyFinalized
      else if \<not> bytesEqual (env_game envelope) (ctx_gameId (lob_context lob)) then reject ReadyWrongGame
      else if env_type envelope \<noteq> READY then reject ReadyWrongType
      else if env_phase envelope \<noteq> ascii ''lobby'' then reject ReadyWrongPhase
      else if env_round envelope \<noteq> 0 then reject ReadyWrongRound
      else case decodeReadyBody (env_body envelope) of
        Inl _ \<Rightarrow> reject ReadyMalformedBody
      | Inr body \<Rightarrow>
          let rosterKey = bytesToHex (rdy_rosterHash body) in
          (case map_of (lob_knownRosters lob) rosterKey of
             None \<Rightarrow> reject ReadyUnknownRosterHash
           | Some roster \<Rightarrow>
               if length (rb_seats roster) < MIN_SESSION_SEATS then reject ReadyRosterNotFinalizable
               else let senderKey = bytesToHex (env_from envelope) in
                 (case index_of (map bytesToHex (rb_seats roster)) senderKey of
                    None \<Rightarrow> reject ReadyNotRosterMember
                  | Some seat \<Rightarrow>
                      (case (case chain_for lob (env_from envelope) of None \<Rightarrow> None | Some chain \<Rightarrow> chain_get chain (env_seq envelope)) of
                         None \<Rightarrow> reject ReadyNotInHistory
                       | Some historical \<Rightarrow>
                           if \<not> bytesEqual (art_canonicalBytes historical) (art_canonicalBytes received) then reject ReadyNotInHistory
                           else let duplicate = map_of (ready_of lob rosterKey) senderKey \<noteq> None in
                             if duplicate then (lob, Inr (ReadyRestored True seat (lob_state lob) body historical))
                             else let lob' = put_ready rosterKey senderKey historical lob in
                               if lob_rosterHash lob' = Some (rdy_rosterHash body)
                               then (case finalizeIfReady pr lob' of
                                       (lob'', Inl e) \<Rightarrow> (lob'', Inl e)
                                     | (lob'', Inr _) \<Rightarrow> (lob'', Inr (ReadyRestored False seat (lob_state lob'') body historical)))
                               else (lob', Inr (ReadyRestored False seat (lob_state lob') body historical))))))"

end
