(* ===== verification/Lobby_Inv.thy ===== *)
theory Lobby_Inv
  imports Lobby_Bootstrap
begin

text \<open>
  The invariant of the lobby: every chain is a linked log of its sender, every known roster has the
  hash it is filed under, every filed confirmation is in its sender's log and names that hash, and
  a finalised registry carries exactly the confirmed roster and the logs of its seats. \<open>V\<close> is what is
  known of the artifacts offered to the lobby, \<open>R\<close> the rosters they can carry.
\<close>

section \<open>The pieces\<close>

definition lob_log :: "LobbyChainRegistry \<Rightarrow> bytes \<Rightarrow> EnvelopeArtifact list" where
  "lob_log lob s = (case chain_for lob s of None \<Rightarrow> [] | Some chain \<Rightarrow> chain_log chain)"

definition good_roster :: "prims \<Rightarrow> RosterBody set \<Rightarrow> RosterBody \<Rightarrow> bytes \<Rightarrow> bool" where
  "good_roster pr R b h \<longleftrightarrow> b \<in> R \<and> hashRosterBody pr b = Inr h \<and> (\<forall>s \<in> set (rb_seats b). importEd25519PublicKey pr s = Inr s)"

definition confirms :: "bytes \<Rightarrow> EnvelopeArtifact \<Rightarrow> bool" where
  "confirms h a \<longleftrightarrow> env_type (art_envelope a) = READY \<and> decodeReadyBody (env_body (art_envelope a)) = Inr \<lparr>rdy_rosterHash = h\<rparr>"

definition chains_inv :: "(EnvelopeArtifact \<Rightarrow> bool) \<Rightarrow> LobbyChainRegistry \<Rightarrow> bool" where
  "chains_inv V lob \<longleftrightarrow> chain_for lob (ctx_host (lob_context lob)) \<noteq> None \<and>
     (\<forall>s chain. chain_for lob s = Some chain \<longrightarrow> chain = chain_of s (chain_log chain) \<and> linked s (chain_log chain) \<and>
        (\<forall>a \<in> set (chain_log chain). V a \<and> env_game (art_envelope a) = ctx_gameId (lob_context lob)))"

definition rosters_inv :: "prims \<Rightarrow> RosterBody set \<Rightarrow> LobbyChainRegistry \<Rightarrow> bool" where
  "rosters_inv pr R lob \<longleftrightarrow> (\<forall>k b. map_of (lob_knownRosters lob) k = Some b \<longrightarrow> (\<exists>h. k = bytesToHex h \<and> good_roster pr R b h)) \<and>
     (lob_roster lob = None \<longleftrightarrow> lob_rosterHash lob = None) \<and>
     (\<forall>b h. lob_roster lob = Some b \<and> lob_rosterHash lob = Some h \<longrightarrow> good_roster pr R b h)"

definition ready_inv :: "prims \<Rightarrow> RosterBody set \<Rightarrow> LobbyChainRegistry \<Rightarrow> bool" where
  "ready_inv pr R lob \<longleftrightarrow> (\<forall>k rd. map_of (lob_readyByRoster lob) k = Some rd \<longrightarrow> distinct (map fst rd) \<and>
     (\<exists>h b. k = bytesToHex h \<and> good_roster pr R b h \<and>
        (\<forall>sk a. map_of rd sk = Some a \<longrightarrow> (\<exists>s \<in> set (rb_seats b). sk = bytesToHex s \<and> a \<in> set (lob_log lob s) \<and> confirms h a))))"

text \<open>A registry built for a game and seats and fed with artifacts that satisfy \<open>V\<close>.\<close>

definition fed_from :: "(EnvelopeArtifact \<Rightarrow> bool) \<Rightarrow> SessionChainRegistry \<Rightarrow> SessionChainRegistry \<Rightarrow> bool" where
  "fed_from V reg0 reg \<longleftrightarrow> (\<exists>as. (\<forall>a \<in> set as. V a) \<and> reg = foldl (\<lambda>r a. fst (reg_ingest r a)) reg0 as)"

definition final_inv :: "prims \<Rightarrow> (EnvelopeArtifact \<Rightarrow> bool) \<Rightarrow> LobbyChainRegistry \<Rightarrow> bool" where
  "final_inv pr V lob \<longleftrightarrow> (\<forall>reg. lob_finalizedRegistry lob = Some reg \<longrightarrow> reg_inv reg \<and> reg_gameId reg = ctx_gameId (lob_context lob) \<and>
     (\<exists>b h reg0. newSessionChainRegistry pr (JBytes (ctx_gameId (lob_context lob))) (map JBytes (rb_seats b)) = Inr reg0 \<and> fed_from V reg0 reg \<and>
        lob_roster lob = Some b \<and> lob_rosterHash lob = Some h \<and> MIN_SESSION_SEATS \<le> length (rb_seats b) \<and> reg_roster reg = rb_seats b \<and>
        (\<forall>s. log_of reg s = (if s \<in> set (rb_seats b) then lob_log lob s else [])) \<and>
        (\<forall>s \<in> set (rb_seats b). \<exists>a \<in> set (lob_log lob s). confirms h a)))"

text \<open>A lobby that is not finalised is missing a confirmation of its roster.\<close>

definition full_ready :: "LobbyChainRegistry \<Rightarrow> bool" where
  "full_ready lob \<longleftrightarrow> (\<exists>b rd. lob_roster lob = Some b \<and> currentReady lob = Some rd \<and> MIN_SESSION_SEATS \<le> length (rb_seats b) \<and>
     length rd = length (rb_seats b))"

definition lob_inv :: "prims \<Rightarrow> (EnvelopeArtifact \<Rightarrow> bool) \<Rightarrow> RosterBody set \<Rightarrow> LobbyChainRegistry \<Rightarrow> bool" where
  "lob_inv pr V R lob \<longleftrightarrow> normalizeContext pr (lob_context lob) = Inr (lob_context lob) \<and> chains_inv V lob \<and> rosters_inv pr R lob \<and>
     ready_inv pr R lob \<and> final_inv pr V lob"

definition complete_inv :: "LobbyChainRegistry \<Rightarrow> bool" where
  "complete_inv lob \<longleftrightarrow> (lob_finalizedRegistry lob \<noteq> None \<longleftrightarrow> full_ready lob)"

definition hash_names_roster :: "prims \<Rightarrow> RosterBody set \<Rightarrow> bool" where
  "hash_names_roster pr R \<longleftrightarrow> (\<forall>b \<in> R. \<forall>c \<in> R. \<forall>h. hashRosterBody pr b = Inr h \<and> hashRosterBody pr c = Inr h \<longrightarrow> b = c)"

section \<open>Chains\<close>

lemma lob_log_put [simp]:
  "lob_log (put_chain s (chain_of s as) lob) t = (if t = s then as else lob_log lob t)"
  by (simp add: lob_log_def put_chain_def update_conv')

lemma put_chain_sel [simp]:
  "lob_context (put_chain s c lob) = lob_context lob" "lob_readyByRoster (put_chain s c lob) = lob_readyByRoster lob"
  "lob_knownRosters (put_chain s c lob) = lob_knownRosters lob" "lob_roster (put_chain s c lob) = lob_roster lob"
  "lob_rosterHash (put_chain s c lob) = lob_rosterHash lob" "lob_finalizedRegistry (put_chain s c lob) = lob_finalizedRegistry lob"
  "chain_for (put_chain s c lob) t = (if t = s then Some c else chain_for lob t)"
  by (simp_all add: put_chain_def update_conv')

lemma chain_for_log:
  "chains_inv V lob \<Longrightarrow> chain_for lob s = Some chain \<Longrightarrow> chain = chain_of s (lob_log lob s)"
  "chains_inv V lob \<Longrightarrow> linked s (lob_log lob s)"
  by (auto simp: chains_inv_def lob_log_def linked_def split: option.splits)

text \<open>Appending a linked envelope of the game to the log of its sender.\<close>

lemma append_inv:
  assumes "lob_inv pr V R lob" "lob_finalizedRegistry lob = None" "linked s (lob_log lob s @ [a])" "V a"
    "env_game (art_envelope a) = ctx_gameId (lob_context lob)"
  shows "lob_inv pr V R (put_chain s (chain_of s (lob_log lob s @ [a])) lob)"
proof -
  let ?l = "put_chain s (chain_of s (lob_log lob s @ [a])) lob"
  have old: "V x \<and> env_game (art_envelope x) = ctx_gameId (lob_context lob)" if "x \<in> set (lob_log lob s)" for x
    using assms(1) that by (cases "chain_for lob s") (auto simp: lob_inv_def chains_inv_def lob_log_def)
  have "chains_inv V ?l" using assms old by (auto simp: lob_inv_def chains_inv_def)
  moreover have "ready_inv pr R ?l"
    unfolding ready_inv_def
  proof (intro allI impI)
    fix k rd assume "map_of (lob_readyByRoster ?l) k = Some rd"
    then obtain h b where *: "distinct (map fst rd)" "k = bytesToHex h" "good_roster pr R b h"
      "\<And>sk x. map_of rd sk = Some x \<Longrightarrow> \<exists>t \<in> set (rb_seats b). sk = bytesToHex t \<and> x \<in> set (lob_log lob t) \<and> confirms h x"
      using assms(1) unfolding lob_inv_def ready_inv_def put_chain_sel by blast
    have "\<exists>t \<in> set (rb_seats b). sk = bytesToHex t \<and> x \<in> set (lob_log ?l t) \<and> confirms h x" if "map_of rd sk = Some x" for sk x
      using *(4) [OF that] by fastforce
    then show "distinct (map fst rd) \<and> (\<exists>h b. k = bytesToHex h \<and> good_roster pr R b h \<and>
        (\<forall>sk a. map_of rd sk = Some a \<longrightarrow> (\<exists>s \<in> set (rb_seats b). sk = bytesToHex s \<and> a \<in> set (lob_log ?l s) \<and> confirms h a)))"
      using * by blast
  qed
  moreover have "rosters_inv pr R ?l" using assms(1) by (simp add: lob_inv_def rosters_inv_def)
  ultimately show ?thesis using assms(1,2) by (simp add: lob_inv_def final_inv_def)
qed

lemma full_ready_put [simp]: "full_ready (put_chain s c lob) \<longleftrightarrow> full_ready lob"
  by (simp add: full_ready_def currentReady_def cong: option.case_cong)

lemma ingest_appends:
  assumes "chains_inv V lob" "chain_for lob s = Some chain" "is_accepted (chain_classify chain a)"
  shows "fst (chain_ingest chain a) = chain_of s (lob_log lob s @ [a])" "linked s (lob_log lob s @ [a])" "snd (chain_ingest chain a) = chain_classify chain a"
    "env_from (art_envelope a) = s" "chain_ingest chain a = (chain_of s (lob_log lob s @ [a]), chain_classify chain a)"
proof -
  have c: "chain = chain_of s (lob_log lob s)" using chain_for_log(1) [OF assms(1,2)] .
  have l: "linked s (lob_log lob s)" using chain_for_log(2) [OF assms(1)] .
  show f: "fst (chain_ingest chain a) = chain_of s (lob_log lob s @ [a])"
    using assms(3) unfolding c chain_ingest_of by simp
  show "linked s (lob_log lob s @ [a])" "env_from (art_envelope a) = s"
    using assms(3) l unfolding c by (auto simp: chain_classify_of linked_snoc split: if_splits)
  show g: "snd (chain_ingest chain a) = chain_classify chain a" by (rule chain_ingest_snd)
  show "chain_ingest chain a = (chain_of s (lob_log lob s @ [a]), chain_classify chain a)" by (rule prod_eqI) (simp_all add: f g)
qed

section \<open>Confirmations\<close>

lemma put_ready_sel [simp]:
  "lob_context (put_ready k sk a lob) = lob_context lob" "lob_chains (put_ready k sk a lob) = lob_chains lob"
  "lob_knownRosters (put_ready k sk a lob) = lob_knownRosters lob" "lob_roster (put_ready k sk a lob) = lob_roster lob"
  "lob_rosterHash (put_ready k sk a lob) = lob_rosterHash lob" "lob_finalizedRegistry (put_ready k sk a lob) = lob_finalizedRegistry lob"
  "lob_log (put_ready k sk a lob) s = lob_log lob s"
  by (simp_all add: put_ready_def lob_log_def)

lemma put_ready_lookup:
  "map_of (lob_readyByRoster (put_ready k sk a lob)) k' =
     (if k' = k then Some (AList.update sk a (ready_of lob k)) else map_of (lob_readyByRoster lob) k')"
  by (simp add: put_ready_def update_conv')

lemma put_ready_inv:
  assumes inv: "lob_inv pr V R lob" and "good_roster pr R b h" "s \<in> set (rb_seats b)" "a \<in> set (lob_log lob s)" "confirms h a"
    and inj: "hash_names_roster pr R"
  shows "lob_inv pr V R (put_ready (bytesToHex h) (bytesToHex s) a lob)"
proof -
  let ?l = "put_ready (bytesToHex h) (bytesToHex s) a lob"
  let ?Q = "\<lambda>rd h b. \<forall>sk x. map_of rd sk = Some x \<longrightarrow> (\<exists>t \<in> set (rb_seats b). sk = bytesToHex t \<and> x \<in> set (lob_log lob t) \<and> confirms h x)"
  have old: "distinct (map fst rd) \<and> (\<exists>h b. k = bytesToHex h \<and> good_roster pr R b h \<and> ?Q rd h b)"
    if "map_of (lob_readyByRoster lob) k = Some rd" for k rd using inv that unfolding lob_inv_def ready_inv_def by blast
  have cur: "distinct (map fst (ready_of lob (bytesToHex h))) \<and> ?Q (ready_of lob (bytesToHex h)) h b"
  proof (cases "map_of (lob_readyByRoster lob) (bytesToHex h)")
    case None
    then show ?thesis by (simp add: ready_of_def)
  next
    case (Some rd)
    then obtain h' b' where *: "distinct (map fst rd)" "bytesToHex h = bytesToHex h'" "good_roster pr R b' h'" "?Q rd h' b'" using old [OF Some] by blast
    then have "h' = h" by simp
    then have "b' = b" using inj assms(2) *(3) unfolding hash_names_roster_def good_roster_def by blast
    then show ?thesis using * \<open>h' = h\<close> Some by (simp add: ready_of_def)
  qed
  have "distinct (map fst (AList.update (bytesToHex s) a (ready_of lob (bytesToHex h))))" using cur by (intro distinct_update) simp
  moreover have "?Q (AList.update (bytesToHex s) a (ready_of lob (bytesToHex h))) h b"
  proof (intro allI impI)
    fix sk x assume "map_of (AList.update (bytesToHex s) a (ready_of lob (bytesToHex h))) sk = Some x"
    then have "sk = bytesToHex s \<and> x = a \<or> map_of (ready_of lob (bytesToHex h)) sk = Some x" by (auto simp: update_conv' split: if_splits)
    then show "\<exists>t \<in> set (rb_seats b). sk = bytesToHex t \<and> x \<in> set (lob_log lob t) \<and> confirms h x" using cur assms(3-5) by blast
  qed
  ultimately have new: "distinct (map fst (AList.update (bytesToHex s) a (ready_of lob (bytesToHex h)))) \<and>
      (\<exists>h' b. bytesToHex h = bytesToHex h' \<and> good_roster pr R b h' \<and> ?Q (AList.update (bytesToHex s) a (ready_of lob (bytesToHex h))) h' b)"
    using assms(2) by blast
  have "ready_inv pr R ?l"
    unfolding ready_inv_def put_ready_lookup put_ready_sel
  proof (intro allI impI)
    fix k rd assume k: "(if k = bytesToHex h then Some (AList.update (bytesToHex s) a (ready_of lob (bytesToHex h)))
        else map_of (lob_readyByRoster lob) k) = Some rd"
    show "distinct (map fst rd) \<and> (\<exists>h b. k = bytesToHex h \<and> good_roster pr R b h \<and> ?Q rd h b)"
    proof (cases "k = bytesToHex h")
      case True
      then have "rd = AList.update (bytesToHex s) a (ready_of lob (bytesToHex h))" using k by simp
      then show ?thesis unfolding True using new by blast
    next
      case False
      then have "map_of (lob_readyByRoster lob) k = Some rd" using k by simp
      then show ?thesis by (rule old)
    qed
  qed
  then show ?thesis using inv unfolding lob_inv_def chains_inv_def rosters_inv_def final_inv_def put_ready_sel by blast
qed

section \<open>Finalisation\<close>

lemma finalized_sel [simp]:
  "lob_log (lob\<lparr>lob_finalizedRegistry := x\<rparr>) s = lob_log lob s" "currentReady (lob\<lparr>lob_finalizedRegistry := x\<rparr>) = currentReady lob"
  "lob_context (lob\<lparr>lob_finalizedRegistry := x\<rparr>) = lob_context lob" "lob_chains (lob\<lparr>lob_finalizedRegistry := x\<rparr>) = lob_chains lob"
  "lob_readyByRoster (lob\<lparr>lob_finalizedRegistry := x\<rparr>) = lob_readyByRoster lob" "lob_knownRosters (lob\<lparr>lob_finalizedRegistry := x\<rparr>) = lob_knownRosters lob"
  "lob_roster (lob\<lparr>lob_finalizedRegistry := x\<rparr>) = lob_roster lob" "lob_rosterHash (lob\<lparr>lob_finalizedRegistry := x\<rparr>) = lob_rosterHash lob"
  by (simp_all add: lob_log_def currentReady_def cong: option.case_cong)

lemma finalized_inv:
  "lob_inv pr V R lob \<Longrightarrow> final_inv pr V (lob\<lparr>lob_finalizedRegistry := x\<rparr>) \<Longrightarrow> lob_inv pr V R (lob\<lparr>lob_finalizedRegistry := x\<rparr>)"
  unfolding lob_inv_def chains_inv_def rosters_inv_def ready_inv_def finalized_sel by blast

lemma roster_entries_total:
  assumes "\<forall>s \<in> set ss. length s = 32 \<and> importEd25519PublicKey pr s = Inr s" "distinct ss" "\<forall>s \<in> set ss. map_of bs (bytesToHex s) = None"
  shows "\<exists>r. roster_entries pr es bs (map JBytes ss) = Inr r"
  using assms
proof (induction ss arbitrary: es bs)
  case (Cons s ss)
  have p: "parseIdentityPublicKey (JBytes s) = Inr s" "newSenderChain (JBytes s) = Inr (chain_of s [])"
    using Cons.prems(1) by (auto simp: field_defs newSenderChain_Inr)
  have "\<exists>r. roster_entries pr es' (AList.update (bytesToHex s) n bs) (map JBytes ss) = Inr r" for es' n
    using Cons.prems by (intro Cons.IH) (auto simp: update_conv')
  then show ?case using Cons.prems p by (simp add: Let_def)
qed simp

lemma newSession_total:
  assumes "length g = 16" "MIN_SESSION_SEATS \<le> length ss" "length ss \<le> MAX_SESSION_SEATS" "distinct ss"
    "\<forall>s \<in> set ss. length s = 32 \<and> importEd25519PublicKey pr s = Inr s"
  obtains reg where "newSessionChainRegistry pr (JBytes g) (map JBytes ss) = Inr reg" "reg_inv reg" "reg_roster reg = ss" "reg_gameId reg = g"
    "\<And>s. log_of reg s = []"
proof -
  obtain r where "roster_entries pr [] [] (map JBytes ss) = Inr r" using roster_entries_total [OF assms(5,4), of "[]" "[]"] by auto
  moreover have "parseGameId (JBytes g) = Inr g" using assms(1) by (simp add: field_defs)
  ultimately obtain reg where reg: "newSessionChainRegistry pr (JBytes g) (map JBytes ss) = Inr reg"
    using assms(2,3) by (cases r) (auto simp: newSessionChainRegistry_def)
  note n = newSessionChainRegistry_inv [OF reg]
  show ?thesis using that [OF reg n(1) _ _ n(4)] n(2,3) by simp
qed

lemma transfer_chain_ok:
  assumes "reg_inv reg" "s \<in> set (reg_roster reg)" "linked s as" "\<forall>a \<in> set as. env_game (art_envelope a) = reg_gameId reg"
    "log_of reg s = take i as" "i + n = length as"
  shows "\<exists>reg'. transfer_chain (chain_of s as) i n reg = Inr reg' \<and> reg_inv reg' \<and> reg_roster reg' = reg_roster reg \<and>
    reg_gameId reg' = reg_gameId reg \<and> (\<forall>t. log_of reg' t = (if t = s then as else log_of reg t)) \<and>
    reg' = foldl (\<lambda>r a. fst (reg_ingest r a)) reg (drop i as)"
  using assms
proof (induction n arbitrary: i reg)
  case 0
  then show ?case by auto
next
  case (Suc n)
  have i: "i < length as" using Suc.prems(6) by simp
  then have snoc: "take i as @ [as ! i] = take (Suc i) as" by (simp add: take_Suc_conv_app_nth)
  have l: "linked s (take i as @ [as ! i])" unfolding snoc by (rule linked_take [OF Suc.prems(3)])
  then have sender: "env_from (art_envelope (as ! i)) = s" by (simp add: linked_snoc)
  have game: "env_game (art_envelope (as ! i)) = reg_gameId reg" using Suc.prems(4) i by simp
  have acc: "result_accepted (reg_classify reg (as ! i))"
    using l unfolding classify_log [OF Suc.prems(1,2) sender game] Suc.prems(5) by (simp add: chain_classify_of linked_snoc)
  obtain reg1 where r: "reg_ingest reg (as ! i) = (reg1, Inr (reg_classify reg (as ! i)))"
    using reg_ingest_result [OF Suc.prems(1), of "as ! i"] by (metis prod.collapse)
  note st = reg_ingest_step [OF Suc.prems(1), of "as ! i", unfolded r fst_conv]
  have logs: "log_of reg1 t = (if t = s then take (Suc i) as else log_of reg t)" for t
    using st(4) [of t] acc sender Suc.prems(5) snoc by auto
  have "\<exists>reg'. transfer_chain (chain_of s as) (Suc i) n reg1 = Inr reg' \<and> reg_inv reg' \<and> reg_roster reg' = reg_roster reg1 \<and>
      reg_gameId reg' = reg_gameId reg1 \<and> (\<forall>t. log_of reg' t = (if t = s then as else log_of reg1 t)) \<and>
      reg' = foldl (\<lambda>r a. fst (reg_ingest r a)) reg1 (drop (Suc i) as)"
    using Suc.prems st(1-3) logs by (intro Suc.IH) simp_all
  moreover have "foldl (\<lambda>r a. fst (reg_ingest r a)) reg (drop i as) = foldl (\<lambda>r a. fst (reg_ingest r a)) reg1 (drop (Suc i) as)"
    using r i by (simp add: Cons_nth_drop_Suc [symmetric])
  ultimately show ?case using r acc i st(2,3) logs by (auto simp: chain_get_of)
qed

lemma transfer_seats_ok:
  assumes "chains_inv V lob" "reg_inv reg" "set ss \<subseteq> set (reg_roster reg)" "distinct ss" "reg_gameId reg = ctx_gameId (lob_context lob)"
    "\<forall>s \<in> set ss. log_of reg s = [] \<and> lob_log lob s \<noteq> []"
  shows "\<exists>reg'. transfer_seats lob ss reg = Inr reg' \<and> reg_inv reg' \<and> reg_roster reg' = reg_roster reg \<and>
    reg_gameId reg' = reg_gameId reg \<and> (\<forall>t. log_of reg' t = (if t \<in> set ss then lob_log lob t else log_of reg t)) \<and> fed_from V reg reg'"
  using assms(2-)
proof (induction ss arbitrary: reg)
  case (Cons s ss)
  let ?as = "lob_log lob s"
  have ne: "?as \<noteq> []" using Cons.prems by simp
  then obtain chain where c: "chain_for lob s = Some chain" by (auto simp: lob_log_def split: option.splits)
  have ch: "chain = chain_of s ?as" using chain_for_log(1) [OF assms(1) c] .
  have head: "ch_head chain = Some \<lparr>head_from = s, head_seq = length ?as - 1, head_hash = art_hash (last ?as)\<rparr>"
    unfolding ch chain_of_head using ne by simp
  have g: "\<forall>a \<in> set ?as. env_game (art_envelope a) = reg_gameId reg" "\<forall>a \<in> set ?as. V a"
    using assms(1) c Cons.prems(4) by (auto simp: chains_inv_def lob_log_def)
  obtain reg1 where r: "transfer_chain chain 0 (length ?as) reg = Inr reg1" "reg_inv reg1" "reg_roster reg1 = reg_roster reg"
    "reg_gameId reg1 = reg_gameId reg" "\<And>t. log_of reg1 t = (if t = s then ?as else log_of reg t)"
    "reg1 = foldl (\<lambda>r a. fst (reg_ingest r a)) reg ?as"
    using transfer_chain_ok [OF Cons.prems(1) _ chain_for_log(2) [OF assms(1)] g(1), of 0 "length ?as"] Cons.prems ch by auto
  have "head_seq (the (ch_head chain)) + 1 = length ?as" unfolding head using ne by simp
  then have step: "transfer_seats lob (s # ss) reg = transfer_seats lob ss reg1" using c head r(1) by simp
  have "\<exists>reg'. transfer_seats lob ss reg1 = Inr reg' \<and> reg_inv reg' \<and> reg_roster reg' = reg_roster reg1 \<and>
      reg_gameId reg' = reg_gameId reg1 \<and> (\<forall>t. log_of reg' t = (if t \<in> set ss then lob_log lob t else log_of reg1 t)) \<and> fed_from V reg1 reg'"
    using Cons.prems r by (intro Cons.IH) auto
  then obtain reg' where r': "transfer_seats lob ss reg1 = Inr reg'" "reg_inv reg'" "reg_roster reg' = reg_roster reg1"
      "reg_gameId reg' = reg_gameId reg1" "\<And>t. log_of reg' t = (if t \<in> set ss then lob_log lob t else log_of reg1 t)"
      "fed_from V reg1 reg'" by blast
  from r'(6) obtain xs where xs: "\<forall>a \<in> set xs. V a" "reg' = foldl (\<lambda>r a. fst (reg_ingest r a)) reg1 xs" by (auto simp: fed_from_def)
  have "fed_from V reg reg'" unfolding fed_from_def using xs r(6) g(2) by (intro exI [of _ "?as @ xs"]) auto
  moreover have "\<forall>t. log_of reg' t = (if t \<in> set (s # ss) then lob_log lob t else log_of reg t)" using r'(5) r(5) by simp
  ultimately show ?case unfolding step using r' r(3,4) by auto
qed (auto simp: fed_from_def intro: exI [of _ "[]"])

end
