(* ===== verification/Lobby_Steps.thy ===== *)
theory Lobby_Steps
  imports Lobby_Inv
begin

text \<open>
  Every operation of the lobby keeps the invariant and never throws: the faults the code guards
  against (a sender that disappears, a chain that is not contiguous, a transfer that is refused)
  cannot occur.
\<close>

section \<open>The finalisation step\<close>

definition lobby_laws :: "prims \<Rightarrow> (EnvelopeArtifact \<Rightarrow> bool) \<Rightarrow> RosterBody set \<Rightarrow> bool" where
  "lobby_laws pr V R \<longleftrightarrow> (\<forall>a. V a \<longrightarrow> length (env_from (art_envelope a)) = 32) \<and>
     (\<forall>a b. V a \<and> V b \<and> art_canonicalBytes a = art_canonicalBytes b \<longrightarrow> a = b) \<and> hash_names_roster pr R \<and>
     (\<forall>b \<in> R. roster_ok b \<longrightarrow> (\<exists>h. hashRosterBody pr b = Inr h))"

lemma good_roster_ok: "good_roster pr R b h \<Longrightarrow> roster_ok b"
  by (auto simp: good_roster_def hashRoster_Inr)

lemma current_ready:
  assumes "lob_inv pr V R lob" "hash_names_roster pr R" "lob_roster lob = Some b" "lob_rosterHash lob = Some h" "currentReady lob = Some rd"
  shows "distinct (map fst rd)" "\<And>sk a. map_of rd sk = Some a \<Longrightarrow> \<exists>s \<in> set (rb_seats b). sk = bytesToHex s \<and> a \<in> set (lob_log lob s) \<and> confirms h a"
proof -
  have "map_of (lob_readyByRoster lob) (bytesToHex h) = Some rd" using assms(4,5) by (simp add: currentReady_def)
  then obtain h' b' where *: "distinct (map fst rd)" "bytesToHex h = bytesToHex h'" "good_roster pr R b' h'"
    "\<forall>sk a. map_of rd sk = Some a \<longrightarrow> (\<exists>s \<in> set (rb_seats b'). sk = bytesToHex s \<and> a \<in> set (lob_log lob s) \<and> confirms h' a)"
    using assms(1) unfolding lob_inv_def ready_inv_def by blast
  have "good_roster pr R b h" using assms(1,3,4) unfolding lob_inv_def rosters_inv_def by blast
  moreover have "h' = h" using *(2) by simp
  ultimately have "b' = b" using *(3) assms(2) unfolding hash_names_roster_def good_roster_def by blast
  then show "distinct (map fst rd)"
    "\<And>sk a. map_of rd sk = Some a \<Longrightarrow> \<exists>s \<in> set (rb_seats b). sk = bytesToHex s \<and> a \<in> set (lob_log lob s) \<and> confirms h a"
    using * \<open>h' = h\<close> by auto
qed

lemma full_ready_all:
  assumes "lob_inv pr V R lob" "hash_names_roster pr R" "lob_roster lob = Some b" "lob_rosterHash lob = Some h" "currentReady lob = Some rd"
  shows "length rd = length (rb_seats b) \<longleftrightarrow> (\<forall>s \<in> set (rb_seats b). map_of rd (bytesToHex s) \<noteq> None)"
proof -
  note c = current_ready [OF assms]
  have ok: "distinct (rb_seats b)"
    using assms(1,3,4) good_roster_ok unfolding lob_inv_def rosters_inv_def roster_ok_def seats_ok_def by blast
  have sub: "fst ` set rd \<subseteq> bytesToHex ` set (rb_seats b)"
  proof
    fix k assume "k \<in> fst ` set rd"
    then obtain a where "map_of rd k = Some a" by (cases "map_of rd k") (auto simp: map_of_eq_None_iff)
    then show "k \<in> bytesToHex ` set (rb_seats b)" using c(2) by blast
  qed
  have n: "length rd = card (fst ` set rd)" using c(1) by (metis distinct_card length_map set_map)
  have m: "length (rb_seats b) = card (bytesToHex ` set (rb_seats b))"
    using ok by (simp add: card_image inj_on_def distinct_card)
  have "length rd = length (rb_seats b) \<longleftrightarrow> fst ` set rd = bytesToHex ` set (rb_seats b)"
    unfolding n m using card_subset_eq [OF _ sub] by auto
  also have "\<dots> \<longleftrightarrow> bytesToHex ` set (rb_seats b) \<subseteq> fst ` set rd" using sub by auto
  also have "\<dots> \<longleftrightarrow> (\<forall>s \<in> set (rb_seats b). map_of rd (bytesToHex s) \<noteq> None)" by (auto simp: map_of_eq_None_iff)
  finally show ?thesis .
qed

lemma build_ok:
  assumes inv: "lob_inv pr V R lob" and inj: "hash_names_roster pr R" and full: "full_ready lob"
  shows "\<exists>reg. buildFinalizedRegistry pr lob = Inr reg \<and> final_inv pr V (lob\<lparr>lob_finalizedRegistry := Some reg\<rparr>)"
proof -
  obtain b rd where b: "lob_roster lob = Some b" "currentReady lob = Some rd" "MIN_SESSION_SEATS \<le> length (rb_seats b)"
    "length rd = length (rb_seats b)"
    using full by (auto simp: full_ready_def)
  then obtain h where h: "lob_rosterHash lob = Some h" by (auto simp: currentReady_def split: option.splits)
  have good: "good_roster pr R b h" using inv b(1) h unfolding lob_inv_def rosters_inv_def by blast
  have ok: "distinct (rb_seats b)" "length (rb_seats b) \<le> MAX_SESSION_SEATS" "\<forall>s \<in> set (rb_seats b). length s = 32 \<and> importEd25519PublicKey pr s = Inr s"
    using good_roster_ok [OF good] good
    by (auto simp: roster_ok_def seats_ok_def MAX_LOBBY_SEATS_def MAX_SESSION_SEATS_def good_roster_def)
  have conf: "\<exists>a \<in> set (lob_log lob s). confirms h a" if s: "s \<in> set (rb_seats b)" for s
  proof -
    obtain a where "map_of rd (bytesToHex s) = Some a" using full_ready_all [OF inv inj b(1) h b(2)] b(4) s by auto
    from current_ready(2) [OF inv inj b(1) h b(2) this] show ?thesis by auto
  qed
  have g: "length (ctx_gameId (lob_context lob)) = 16"
    using inv by (auto simp: lob_inv_def normalizeContext_def result_simps field_defs)
  have chains: "chains_inv V lob" using inv by (simp add: lob_inv_def)
  obtain reg0 where reg0: "newSessionChainRegistry pr (JBytes (ctx_gameId (lob_context lob))) (map JBytes (rb_seats b)) = Inr reg0"
    "reg_inv reg0" "reg_roster reg0 = rb_seats b" "reg_gameId reg0 = ctx_gameId (lob_context lob)" "\<And>s. log_of reg0 s = []"
    using newSession_total [OF g b(3) ok(2,1,3)] by blast
  have "\<forall>s \<in> set (rb_seats b). log_of reg0 s = [] \<and> lob_log lob s \<noteq> []" using conf reg0(5) by fastforce
  then obtain reg where reg: "transfer_seats lob (rb_seats b) reg0 = Inr reg" "reg_inv reg" "reg_roster reg = reg_roster reg0"
    "reg_gameId reg = reg_gameId reg0" "\<And>t. log_of reg t = (if t \<in> set (rb_seats b) then lob_log lob t else log_of reg0 t)" "fed_from V reg0 reg"
    using transfer_seats_ok [OF chains reg0(2) _ ok(1) reg0(4)] reg0(3) by auto
  have "final_inv pr V (lob\<lparr>lob_finalizedRegistry := Some reg\<rparr>)"
    unfolding final_inv_def finalized_sel using reg reg0 b h conf by auto
  moreover have "buildFinalizedRegistry pr lob = Inr reg" using b(1) reg0(1) reg(1) by (simp add: buildFinalizedRegistry_def)
  ultimately show ?thesis by blast
qed

lemma finalize_ok:
  assumes inv: "lob_inv pr V R lob" and inj: "hash_names_roster pr R" and nf: "lob_finalizedRegistry lob = None"
  shows "\<exists>lob'. finalizeIfReady pr lob = (lob', Inr ()) \<and> lob_inv pr V R lob' \<and> complete_inv lob' \<and> (\<forall>s. lob_log lob' s = lob_log lob s)"
proof (cases "full_ready lob")
  case True
  obtain reg where reg: "buildFinalizedRegistry pr lob = Inr reg" "final_inv pr V (lob\<lparr>lob_finalizedRegistry := Some reg\<rparr>)"
    using build_ok [OF inv inj True] by blast
  let ?l = "lob\<lparr>lob_finalizedRegistry := Some reg\<rparr>"
  have "finalizeIfReady pr lob = (?l, Inr ())" using True nf reg(1) by (auto simp: full_ready_def finalizeIfReady_def)
  moreover have "lob_inv pr V R ?l" by (rule finalized_inv [OF inv reg(2)])
  moreover have "complete_inv ?l" using True by (simp add: complete_inv_def full_ready_def)
  ultimately show ?thesis using finalized_sel(1) by blast
next
  case False
  then have "finalizeIfReady pr lob = (lob, Inr ())"
    by (auto simp: full_ready_def finalizeIfReady_def split: option.splits)
  then show ?thesis using inv nf False by (auto simp: complete_inv_def)
qed

section \<open>Operations\<close>

text \<open>What every operation guarantees: a result, the invariants, logs that only grow, and no change of a
  finalised lobby.\<close>

definition step_ok ::
    "prims \<Rightarrow> (EnvelopeArtifact \<Rightarrow> bool) \<Rightarrow> RosterBody set \<Rightarrow> LobbyChainRegistry \<Rightarrow> LobbyChainRegistry \<times> (session_error + 'r) \<Rightarrow> bool" where
  "step_ok pr V R lob res \<longleftrightarrow> (\<exists>r. snd res = Inr r) \<and> lob_inv pr V R (fst res) \<and> complete_inv (fst res) \<and>
     (\<forall>s. prefix (lob_log lob s) (lob_log (fst res) s)) \<and> (lob_finalizedRegistry lob \<noteq> None \<longrightarrow> fst res = lob)"

definition offered :: "(EnvelopeArtifact \<Rightarrow> bool) \<Rightarrow> RosterBody set \<Rightarrow> EnvelopeArtifact \<Rightarrow> bool" where
  "offered V R a \<longleftrightarrow> V a \<and> (\<forall>b. decodeRosterBody (env_body (art_envelope a)) = Inr b \<longrightarrow> b \<in> R)"

lemma step_same [intro]: "lob_inv pr V R lob \<Longrightarrow> complete_inv lob \<Longrightarrow> step_ok pr V R lob (lob, Inr r)"
  by (simp add: step_ok_def)

lemma step_append:
  assumes "lob_inv pr V R lob" "complete_inv lob" "lob_finalizedRegistry lob = None" "linked s (lob_log lob s @ [a])" "V a"
    "env_game (art_envelope a) = ctx_gameId (lob_context lob)"
  shows "step_ok pr V R lob (put_chain s (chain_of s (lob_log lob s @ [a])) lob, Inr r)"
  using append_inv [OF assms(1,3-6)] assms(2,3) by (simp add: step_ok_def complete_inv_def)

lemma lob_ingest_ok:
  assumes "lob_inv pr V R lob" "complete_inv lob" "V a"
  shows "step_ok pr V R lob (lob_ingest lob a)"
proof (cases "lobby_accepted (lob_classify lob a)")
  case False
  then show ?thesis using assms by (auto simp: lob_ingest_def Let_def)
next
  case True
  let ?s = "env_from (art_envelope a)"
  obtain chain where c: "lob_finalizedRegistry lob = None" "env_game (art_envelope a) = ctx_gameId (lob_context lob)"
    "chain_for lob ?s = Some chain" "is_accepted (chain_classify chain a)"
    using True by (auto simp: lob_classify_def split: if_splits option.splits)
  have "chains_inv V lob" using assms(1) by (simp add: lob_inv_def)
  note i = ingest_appends [OF this c(3,4)]
  have "lob_ingest lob a = (put_chain ?s (chain_of ?s (lob_log lob ?s @ [a])) lob, Inr (LobbyChain (chain_classify chain a)))"
    using True c(3) i(5) by (simp add: lob_ingest_def Let_def)
  then show ?thesis using step_append [OF assms(1,2) c(1) i(2) assms(3) c(2)] by simp
qed

lemma validateJoin_Inr:
  "validateLobbyJoinEnvelope pr a ctx = Inr (Inr body) \<Longrightarrow> normalizeContext pr ctx = Inr ctx \<Longrightarrow>
    env_game (art_envelope a) = ctx_gameId ctx \<and> env_seq (art_envelope a) = 0 \<and> env_prev (art_envelope a) = ZERO_HASH"
  by (auto simp: validateLobbyJoinEnvelope_def Let_def split: if_splits sum.splits)

lemma validateJoin_total: "normalizeContext pr ctx = Inr ctx \<Longrightarrow> \<exists>v. validateLobbyJoinEnvelope pr a ctx = Inr v"
  by (simp add: validateLobbyJoinEnvelope_def)

lemma join_chain_ok:
  assumes "chains_inv V lob" "length (env_from (art_envelope a)) = 32"
  shows "join_chain lob a = Inr (chain_of (env_from (art_envelope a)) (lob_log lob (env_from (art_envelope a))))"
  using chain_for_log(1) [OF assms(1), of "env_from (art_envelope a)"] newSenderChain_Inr [of "env_from (art_envelope a)"] assms(2)
  by (cases "chain_for lob (env_from (art_envelope a))") (auto simp: join_chain_def lob_log_def)

lemma bootstrapJoin_ok:
  assumes "lob_inv pr V R lob" "complete_inv lob" "V a" "lobby_laws pr V R"
  shows "step_ok pr V R lob (bootstrapJoin pr lob a)"
proof -
  let ?s = "env_from (art_envelope a)"
  let ?chain = "chain_of ?s (lob_log lob ?s)"
  have inv: "chains_inv V lob" "normalizeContext pr (lob_context lob) = Inr (lob_context lob)" using assms(1) by (simp_all add: lob_inv_def)
  have len: "length ?s = 32" using assms(3,4) by (simp add: lobby_laws_def)
  note jc = join_chain_ok [OF inv(1) len]
  have l: "linked ?s (lob_log lob ?s)" by (rule chain_for_log(2) [OF inv(1)])
  obtain v where v: "validateLobbyJoinEnvelope pr a (lob_context lob) = Inr v" using validateJoin_total [OF inv(2)] by blast
  show ?thesis
  proof (cases "lob_finalizedRegistry lob = None \<and> (\<exists>body. v = Inr body) \<and> is_accepted (chain_classify ?chain a)")
    case False
    then have "\<exists>r. bootstrapJoin pr lob a = (lob, Inr r)"
      using v jc
      by (cases v; cases "chain_classify ?chain a") (auto simp: bootstrapJoin_def classifyBootstrapJoin_def Let_def)
    then show ?thesis using assms(1,2) by auto
  next
    case True
    then obtain body where b: "v = Inr body" and nf: "lob_finalizedRegistry lob = None" and acc: "is_accepted (chain_classify ?chain a)" by blast
    have app: "linked ?s (lob_log lob ?s @ [a])" using acc l by (auto simp: chain_classify_of linked_snoc split: if_splits)
    have "bootstrapJoin pr lob a = (put_chain ?s (chain_of ?s (lob_log lob ?s @ [a])) lob, Inr (JoinTaken (chain_classify ?chain a) body))"
      using nf v b jc acc chain_ingest_of [of ?s "lob_log lob ?s" a]
      by (cases "chain_classify ?chain a") (auto simp: bootstrapJoin_def classifyBootstrapJoin_def Let_def)
    moreover have "env_game (art_envelope a) = ctx_gameId (lob_context lob)" using validateJoin_Inr [OF v [unfolded b] inv(2)] by simp
    ultimately show ?thesis using step_append [OF assms(1,2) nf app assms(3)] by simp
  qed
qed

lemma bootstrapRosterMemberJoin_ok:
  assumes "lob_inv pr V R lob" "complete_inv lob" "V a" "lobby_laws pr V R"
  shows "step_ok pr V R lob (bootstrapRosterMemberJoin pr lob a)"
proof -
  let ?s = "env_from (art_envelope a)"
  have inv: "chains_inv V lob" "normalizeContext pr (lob_context lob) = Inr (lob_context lob)" using assms(1) by (simp_all add: lob_inv_def)
  have len: "length ?s = 32" using assms(3,4) by (simp add: lobby_laws_def)
  obtain v where "validateLobbyJoinEnvelope pr a (lob_context lob) = Inr v" using validateJoin_total [OF inv(2)] by blast
  then have "\<exists>r. classifyBootstrapJoin pr lob a = Inr r"
    using join_chain_ok [OF inv(1) len] by (cases v) (auto simp: classifyBootstrapJoin_def Let_def)
  moreover have "parseIdentityPublicKey (JBytes ?s) = Inr ?s" using len by (simp add: field_defs)
  then have "\<exists>m. isRosterMember lob ?s = Inr m" by (simp add: isRosterMember_def)
  ultimately have "\<exists>c. classifyRosterMemberJoin pr lob a = Inr c" by (auto simp: classifyRosterMemberJoin_def)
  then show ?thesis using assms bootstrapJoin_ok [OF assms] by (auto simp: bootstrapRosterMemberJoin_def)
qed

lemma roster_update_inv:
  assumes "lob_inv pr V R lob" "lob_finalizedRegistry lob = None" "good_roster pr R b h"
  shows "lob_inv pr V R (lob\<lparr>lob_roster := Some b, lob_rosterHash := Some h, lob_rosterArtifact := x,
    lob_knownRosters := AList.update (bytesToHex h) b (lob_knownRosters lob)\<rparr>)" (is "lob_inv _ _ _ ?l")
proof -
  have sel: "lob_log ?l s = lob_log lob s" "lob_chains ?l = lob_chains lob" "lob_context ?l = lob_context lob"
    "lob_readyByRoster ?l = lob_readyByRoster lob" for s by (simp_all add: lob_log_def)
  have "rosters_inv pr R ?l" using assms(1,3) by (auto simp: lob_inv_def rosters_inv_def update_conv')
  moreover have "ready_inv pr R ?l" using assms(1) unfolding lob_inv_def ready_inv_def sel by blast
  moreover have "chains_inv V ?l" using assms(1) unfolding lob_inv_def chains_inv_def sel by blast
  ultimately show ?thesis using assms(1,2) by (simp add: lob_inv_def final_inv_def)
qed

lemma first_bad_None: "first_bad_identity pr i ss = None \<longleftrightarrow> (\<forall>s \<in> set ss. \<exists>k. importEd25519PublicKey pr s = Inr k)"
  by (induction ss arbitrary: i) (auto split: sum.splits)

lemma import_same: "importEd25519PublicKey pr s = Inr k \<Longrightarrow> k = s"
  by (auto simp: importEd25519PublicKey_def result_simps split: if_splits)

lemma validateRoster_Inr:
  assumes "validateLobbyRosterEnvelope pr a ctx = Inr (Inr (b, h, ice))" "normalizeContext pr ctx = Inr ctx" "offered V R a"
  shows "good_roster pr R b h" "env_game (art_envelope a) = ctx_gameId ctx" "env_from (art_envelope a) = ctx_host ctx"
proof -
  have *: "decodeRosterBody (env_body (art_envelope a)) = Inr b" "first_bad_identity pr 0 (rb_seats b) = None" "hashRosterBody pr b = Inr h"
    and g: "env_game (art_envelope a) = ctx_gameId ctx" "env_from (art_envelope a) = ctx_host ctx"
    using assms(1,2) by (auto simp: validateLobbyRosterEnvelope_def Let_def result_simps split: if_splits sum.splits option.splits)
  show "good_roster pr R b h"
    using * assms(3) import_same unfolding good_roster_def first_bad_None offered_def by blast
  show "env_game (art_envelope a) = ctx_gameId ctx" "env_from (art_envelope a) = ctx_host ctx" using g by simp_all
qed

lemma validateRoster_total:
  assumes "normalizeContext pr ctx = Inr ctx" "lobby_laws pr V R" "offered V R a"
  shows "\<exists>v. validateLobbyRosterEnvelope pr a ctx = Inr v"
proof (cases "decodeRosterBody (env_body (art_envelope a))")
  case (Inl e)
  then show ?thesis using assms(1) by (simp add: validateLobbyRosterEnvelope_def Let_def)
next
  case (Inr b)
  then obtain h where "hashRosterBody pr b = Inr h"
    using assms(2,3) decodeRoster_ok [OF Inr] by (auto simp: lobby_laws_def offered_def)
  then show ?thesis using assms(1) Inr by (simp add: validateLobbyRosterEnvelope_def Let_def split: option.splits)
qed

lemma ingestRoster_ok:
  assumes inv: "lob_inv pr V R lob" and "complete_inv lob" and off: "offered V R a" and laws: "lobby_laws pr V R"
  shows "step_ok pr V R lob (ingestRoster pr lob a)"
proof -
  let ?h = "ctx_host (lob_context lob)"
  have chains: "chains_inv V lob" and ctx: "normalizeContext pr (lob_context lob) = Inr (lob_context lob)" using inv by (simp_all add: lob_inv_def)
  obtain chain where c: "chain_for lob ?h = Some chain" using chains by (auto simp: chains_inv_def)
  obtain v where v: "validateLobbyRosterEnvelope pr a (lob_context lob) = Inr v" using validateRoster_total [OF ctx laws off] by blast
  show ?thesis
  proof (cases "lob_finalizedRegistry lob = None \<and> (\<exists>b. v = Inr b) \<and> is_accepted (chain_classify chain a)")
    case False
    then have "\<exists>r. ingestRoster pr lob a = (lob, Inr r)"
      using v c by (cases v; cases "chain_classify chain a") (auto simp: ingestRoster_def classifyRoster_def Let_def)
    then show ?thesis using inv assms(2) by auto
  next
    case True
    then obtain b h ice where b: "v = Inr (b, h, ice)" and nf: "lob_finalizedRegistry lob = None" and acc: "is_accepted (chain_classify chain a)"
      by (metis prod_cases3)
    note val = validateRoster_Inr [OF v [unfolded b] ctx off]
    note i = ingest_appends [OF chains c acc]
    let ?l1 = "put_chain ?h (chain_of ?h (lob_log lob ?h @ [a])) lob"
    let ?l2 = "?l1\<lparr>lob_roster := Some b, lob_rosterHash := Some h, lob_rosterArtifact := Some a,
        lob_knownRosters := AList.update (bytesToHex h) b (lob_knownRosters lob)\<rparr>"
    have "V a" using off by (simp add: offered_def)
    then have inv1: "lob_inv pr V R ?l1" using append_inv [OF inv nf i(2) _ val(2)] by simp
    have inv2: "lob_inv pr V R ?l2" using roster_update_inv [OF inv1 _ val(1)] nf by simp
    obtain l3 where f: "finalizeIfReady pr ?l2 = (l3, Inr ())" "lob_inv pr V R l3" "complete_inv l3" "\<And>s. lob_log l3 s = lob_log ?l2 s"
      using finalize_ok [OF inv2] laws nf by (auto simp: lobby_laws_def)
    have "ingestRoster pr lob a = (l3, Inr (RosterTaken (chain_classify chain a) b h ice))"
      using nf v b c acc i(5) f(1) by (cases "chain_classify chain a") (simp_all add: ingestRoster_def classifyRoster_def Let_def)
    moreover have "lob_log ?l2 s = lob_log ?l1 s" for s by (simp add: lob_log_def)
    ultimately show ?thesis using f nf by (simp add: step_ok_def)
  qed
qed

lemma index_hex: "index_of (map bytesToHex ss) (bytesToHex s) = Some i \<Longrightarrow> s \<in> set ss"
  using index_of_Some [of "map bytesToHex ss" "bytesToHex s" i] by (auto simp: in_set_conv_nth)

lemma classifyReady_Taken:
  assumes "classifyReady lob a = ReadyTaken dup seat st body r cr"
  shows "\<exists>b h chain. lob_finalizedRegistry lob = None \<and> lob_roster lob = Some b \<and> lob_rosterHash lob = Some h \<and> confirms h a \<and>
    env_game (art_envelope a) = ctx_gameId (lob_context lob) \<and> env_from (art_envelope a) \<in> set (rb_seats b) \<and> body = \<lparr>rdy_rosterHash = h\<rparr> \<and>
    chain_for lob (env_from (art_envelope a)) = Some chain \<and> cr = chain_classify chain a \<and> r = a"
proof -
  obtain b h where r: "lob_roster lob = Some b" "lob_rosterHash lob = Some h"
    using assms by (auto simp: classifyReady_def Let_def split: if_splits option.splits)
  then obtain s where s: "index_of (map bytesToHex (rb_seats b)) (bytesToHex (env_from (art_envelope a))) = Some s"
    using assms by (auto simp: classifyReady_def Let_def split: if_splits option.splits)
  have mem: "env_from (art_envelope a) \<in> set (rb_seats b)" using index_hex [OF s] .
  obtain rb where rb: "decodeReadyBody (env_body (art_envelope a)) = Inr rb"
    using assms r s by (auto simp: classifyReady_def Let_def split: if_splits sum.splits)
  then show ?thesis
    using assms r s mem by (cases rb) (auto simp: classifyReady_def Let_def confirms_def split: if_splits option.splits)
qed

lemma ingestReady_ok:
  assumes inv: "lob_inv pr V R lob" and comp: "complete_inv lob" and "V a" and laws: "lobby_laws pr V R"
  shows "step_ok pr V R lob (ingestReady pr lob a)"
proof (cases "\<exists>dup seat st body r cr. classifyReady lob a = ReadyTaken dup seat st body r cr \<and> is_accepted cr")
  case False
  then have "\<exists>r. ingestReady pr lob a = (lob, Inr r)" by (cases "classifyReady lob a") (auto simp: ingestReady_def)
  then show ?thesis using inv comp by auto
next
  case True
  then obtain dup seat st body r cr where t: "classifyReady lob a = ReadyTaken dup seat st body r cr" and acc: "is_accepted cr" by blast
  let ?s = "env_from (art_envelope a)"
  obtain b h chain where c: "lob_finalizedRegistry lob = None" "lob_roster lob = Some b" "lob_rosterHash lob = Some h" "confirms h a"
    "env_game (art_envelope a) = ctx_gameId (lob_context lob)" "?s \<in> set (rb_seats b)" "body = \<lparr>rdy_rosterHash = h\<rparr>"
    "chain_for lob ?s = Some chain" "cr = chain_classify chain a" "r = a"
    using classifyReady_Taken [OF t] by blast
  have chains: "chains_inv V lob" and good: "good_roster pr R b h" using inv c(2,3) unfolding lob_inv_def rosters_inv_def by blast+
  note i = ingest_appends [OF chains c(8) acc [unfolded c(9)]]
  let ?l1 = "put_chain ?s (chain_of ?s (lob_log lob ?s @ [a])) lob"
  let ?l2 = "put_ready (bytesToHex h) (bytesToHex ?s) a ?l1"
  note app = step_append [OF inv comp c(1) i(2) \<open>V a\<close> c(5)]
  show ?thesis
  proof (cases dup)
    case True
    then have "ingestReady pr lob a = (?l1, Inr (ReadyTaken dup seat (lob_state ?l1) body r cr))"
      using t acc c(8,9) i(5) by (simp add: ingestReady_def Let_def)
    then show ?thesis using app by simp
  next
    case False
    have inv1: "lob_inv pr V R ?l1" using app [of undefined] by (simp add: step_ok_def)
    have inv2: "lob_inv pr V R ?l2" using put_ready_inv [OF inv1 good c(6) _ c(4)] laws by (simp add: lobby_laws_def)
    obtain l3 where f: "finalizeIfReady pr ?l2 = (l3, Inr ())" "lob_inv pr V R l3" "complete_inv l3" "\<And>s. lob_log l3 s = lob_log ?l2 s"
      using finalize_ok [OF inv2] laws c(1) by (auto simp: lobby_laws_def)
    have "ingestReady pr lob a = (l3, Inr (ReadyTaken dup seat (lob_state l3) body r cr))"
      using t acc False c(7,8,9) i(5) f(1) by (simp add: ingestReady_def Let_def)
    then show ?thesis using f c(1) by (simp add: step_ok_def)
  qed
qed

lemma restore_cases:
  obtains (same) r where "restoreReadyFromHistory pr lob a = (lob, Inr r)"
  | (put) b h x seat where "lob_finalizedRegistry lob = None" "decodeReadyBody (env_body (art_envelope a)) = Inr \<lparr>rdy_rosterHash = h\<rparr>"
      "env_type (art_envelope a) = READY" "map_of (lob_knownRosters lob) (bytesToHex h) = Some b" "env_from (art_envelope a) \<in> set (rb_seats b)"
      "(case chain_for lob (env_from (art_envelope a)) of None \<Rightarrow> None | Some chain \<Rightarrow> chain_get chain (env_seq (art_envelope a))) = Some x"
      "art_canonicalBytes x = art_canonicalBytes a"
      "restoreReadyFromHistory pr lob a = (let lob' = put_ready (bytesToHex h) (bytesToHex (env_from (art_envelope a))) x lob in
         if lob_rosterHash lob' = Some h
         then (case finalizeIfReady pr lob' of (lob'', Inl e) \<Rightarrow> (lob'', Inl e)
                | (lob'', Inr _) \<Rightarrow> (lob'', Inr (ReadyRestored False seat (lob_state lob'') \<lparr>rdy_rosterHash = h\<rparr> x)))
         else (lob', Inr (ReadyRestored False seat (lob_state lob') \<lparr>rdy_rosterHash = h\<rparr> x)))"
proof (cases "decodeReadyBody (env_body (art_envelope a))")
  case (Inl e)
  then have "\<exists>r. restoreReadyFromHistory pr lob a = (lob, Inr r)" by (auto simp: restoreReadyFromHistory_def Let_def)
  then show ?thesis using same by blast
next
  case (Inr body)
  obtain h where h: "body = \<lparr>rdy_rosterHash = h\<rparr>" by (cases body) simp
  show ?thesis
  proof (cases "\<exists>b seat x. map_of (lob_knownRosters lob) (bytesToHex h) = Some b \<and>
      index_of (map bytesToHex (rb_seats b)) (bytesToHex (env_from (art_envelope a))) = Some seat \<and>
      (case chain_for lob (env_from (art_envelope a)) of None \<Rightarrow> None | Some chain \<Rightarrow> chain_get chain (env_seq (art_envelope a))) = Some x")
    case False
    then have "\<exists>r. restoreReadyFromHistory pr lob a = (lob, Inr r)"
      unfolding restoreReadyFromHistory_def Let_def Inr h sum.case ReadyBody.select_convs
      by (auto split: option.split)
    then show ?thesis using same by blast
  next
    case True
    then obtain b seat x where b: "map_of (lob_knownRosters lob) (bytesToHex h) = Some b"
      "index_of (map bytesToHex (rb_seats b)) (bytesToHex (env_from (art_envelope a))) = Some seat"
      "(case chain_for lob (env_from (art_envelope a)) of None \<Rightarrow> None | Some chain \<Rightarrow> chain_get chain (env_seq (art_envelope a))) = Some x"
      by blast
    have mem: "env_from (art_envelope a) \<in> set (rb_seats b)" using index_hex [OF b(2)] .
    note eq = restoreReadyFromHistory_def [of pr lob a, unfolded Inr h sum.case ReadyBody.select_convs b option.case Let_def]
    show ?thesis
    proof (cases "lob_finalizedRegistry lob = None \<and> env_game (art_envelope a) = ctx_gameId (lob_context lob) \<and> env_type (art_envelope a) = READY \<and>
        env_phase (art_envelope a) = ascii ''lobby'' \<and> env_round (art_envelope a) = 0 \<and> \<not> length (rb_seats b) < MIN_SESSION_SEATS \<and>
        art_canonicalBytes x = art_canonicalBytes a \<and> map_of (ready_of lob (bytesToHex h)) (bytesToHex (env_from (art_envelope a))) = None")
      case False
      then have "\<exists>r. restoreReadyFromHistory pr lob a = (lob, Inr r)" unfolding eq by auto
      then show ?thesis using same by blast
    next
      case True
      then have "restoreReadyFromHistory pr lob a = (let lob' = put_ready (bytesToHex h) (bytesToHex (env_from (art_envelope a))) x lob in
         if lob_rosterHash lob' = Some h
         then (case finalizeIfReady pr lob' of (lob'', Inl e) \<Rightarrow> (lob'', Inl e)
                | (lob'', Inr _) \<Rightarrow> (lob'', Inr (ReadyRestored False seat (lob_state lob'') \<lparr>rdy_rosterHash = h\<rparr> x)))
         else (lob', Inr (ReadyRestored False seat (lob_state lob') \<lparr>rdy_rosterHash = h\<rparr> x)))"
        unfolding eq Let_def by simp
      then show ?thesis using put True Inr h b mem by blast
    qed
  qed
qed

lemma restore_ok:
  assumes inv: "lob_inv pr V R lob" and comp: "complete_inv lob" and va: "V a" and laws: "lobby_laws pr V R"
  shows "step_ok pr V R lob (restoreReadyFromHistory pr lob a)"
proof (cases rule: restore_cases [of pr lob a])
  case (same r)
  then show ?thesis using inv comp by auto
next
  case (put b h x seat)
  let ?s = "env_from (art_envelope a)"
  have chains: "chains_inv V lob" and good: "good_roster pr R b h"
    using inv put(4) unfolding lob_inv_def rosters_inv_def by (blast, metis bytesToHex_inject)
  obtain chain where c: "chain_for lob ?s = Some chain" "chain_get chain (env_seq (art_envelope a)) = Some x"
    using put(6) by (auto split: option.splits)
  have x: "x \<in> set (lob_log lob ?s)"
    using c(2) unfolding chain_for_log(1) [OF chains c(1)] chain_get_of by (auto split: if_splits)
  have "V x" using chains c(1) x by (auto simp: chains_inv_def lob_log_def)
  then have "x = a" using va put(7) laws unfolding lobby_laws_def by blast
  then have conf: "confirms h x" using put(2,3) by (simp add: confirms_def)
  let ?l = "put_ready (bytesToHex h) (bytesToHex ?s) x lob"
  have inv1: "lob_inv pr V R ?l" using put_ready_inv [OF inv good put(5) x conf] laws by (simp add: lobby_laws_def)
  show ?thesis
  proof (cases "lob_rosterHash lob = Some h")
    case True
    obtain l3 where f: "finalizeIfReady pr ?l = (l3, Inr ())" "lob_inv pr V R l3" "complete_inv l3" "\<And>s. lob_log l3 s = lob_log ?l s"
      using finalize_ok [OF inv1] laws put(1) by (auto simp: lobby_laws_def)
    then show ?thesis using put(1,8) True by (simp add: step_ok_def Let_def)
  next
    case False
    then have "currentReady ?l = currentReady lob" by (auto simp: currentReady_def put_ready_lookup split: option.splits)
    then have "complete_inv ?l" using comp by (simp add: complete_inv_def full_ready_def)
    then show ?thesis using put(1,8) False inv1 by (simp add: step_ok_def Let_def)
  qed
qed

section \<open>Runs\<close>

text \<open>The lobbies that can arise: a new lobby, then any operations with any artifacts.\<close>

inductive lobby_run :: "prims \<Rightarrow> (EnvelopeArtifact \<Rightarrow> bool) \<Rightarrow> RosterBody set \<Rightarrow> LobbyChainRegistry \<Rightarrow> bool"
  for pr :: prims and V :: "EnvelopeArtifact \<Rightarrow> bool" and R :: "RosterBody set" where
  run_new: "newLobbyChainRegistry pr context = Inr lob \<Longrightarrow> lobby_run pr V R lob"
| run_ingest: "lobby_run pr V R lob \<Longrightarrow> offered V R a \<Longrightarrow> lobby_run pr V R (fst (lob_ingest lob a))"
| run_join: "lobby_run pr V R lob \<Longrightarrow> offered V R a \<Longrightarrow> lobby_run pr V R (fst (bootstrapJoin pr lob a))"
| run_memberJoin: "lobby_run pr V R lob \<Longrightarrow> offered V R a \<Longrightarrow> lobby_run pr V R (fst (bootstrapRosterMemberJoin pr lob a))"
| run_roster: "lobby_run pr V R lob \<Longrightarrow> offered V R a \<Longrightarrow> lobby_run pr V R (fst (ingestRoster pr lob a))"
| run_ready: "lobby_run pr V R lob \<Longrightarrow> offered V R a \<Longrightarrow> lobby_run pr V R (fst (ingestReady pr lob a))"
| run_restore: "lobby_run pr V R lob \<Longrightarrow> offered V R a \<Longrightarrow> lobby_run pr V R (fst (restoreReadyFromHistory pr lob a))"

lemma new_lobby_inv:
  assumes "newLobbyChainRegistry pr context = Inr lob"
  shows "lob_inv pr V R lob" "complete_inv lob"
proof -
  obtain ctx where ctx: "normalizeContext pr context = Inr ctx" "length (ctx_host ctx) = 32"
    "lob = \<lparr>lob_context = ctx, lob_chains = [(bytesToHex (ctx_host ctx), chain_of (ctx_host ctx) [])], lob_readyByRoster = [], lob_knownRosters = [],
       lob_roster = None, lob_rosterHash = None, lob_rosterArtifact = None, lob_finalizedRegistry = None\<rparr>"
    using assms by (auto simp: newLobbyChainRegistry_def result_simps newSenderChain_Inr)
  have "normalizeContext pr ctx = Inr ctx"
    using ctx(1) by (auto simp: normalizeContext_def result_simps field_defs)
  then show "lob_inv pr V R lob" "complete_inv lob"
    using ctx(3) by (auto simp: lob_inv_def chains_inv_def rosters_inv_def ready_inv_def final_inv_def complete_inv_def full_ready_def
        linked_def split: if_splits)
qed

lemmas operation_ok = lob_ingest_ok bootstrapJoin_ok bootstrapRosterMemberJoin_ok ingestRoster_ok ingestReady_ok restore_ok

lemma run_inv:
  assumes "lobby_run pr V R lob" "lobby_laws pr V R"
  shows "lob_inv pr V R lob \<and> complete_inv lob"
  using assms(1)
proof induction
  case (run_new ctx lob)
  then show ?case using new_lobby_inv by blast
qed (use assms(2) operation_ok in \<open>fastforce simp: step_ok_def offered_def\<close>)+

end
