(* ===== verification/Lobby_Theorems.thy ===== *)
theory Lobby_Theorems
  imports Lobby_Steps
begin

text \<open>
  What the lobby promises: an operation never throws and never loses an envelope, the lobby is
  finalised exactly when every seat of the current roster has confirmed it, and the finalised
  registry is a session over the confirmed roster that nothing changes any more.
\<close>

section \<open>Verified artifacts\<close>

text \<open>With the artifacts of \<open>decodeAndVerifyEnvelope\<close> only the roster hash remains to be assumed about.\<close>

lemma verified_lobby_laws:
  assumes "codec_laws pr" "hash_names_roster pr R" "\<forall>b \<in> R. roster_ok b \<longrightarrow> (\<exists>h. hashRosterBody pr b = Inr h)"
  shows "lobby_laws pr (verified pr) R"
proof -
  have "length (env_from (art_envelope a)) = 32" if "verified pr a" for a
    using that verified_artifact(2) [OF assms(1)] by (auto simp: verified_def artifact_ok_def envelope_ok_def)
  moreover have "a = b" if "verified pr a" "verified pr b" "art_canonicalBytes a = art_canonicalBytes b" for a b
    using that by (simp add: verified_def)
  ultimately show ?thesis using assms(2,3) unfolding lobby_laws_def by blast
qed

section \<open>Properties\<close>

text \<open>C13: no lobby operation ever throws. In every lobby that any sequence of operations with any offered
  envelopes can produce, each of the six operations returns a result, keeps the chains and never
  removes an envelope from a log; the internal faults the code guards against are unreachable.
  Assumed are fixed-length sender keys, envelopes determined by their bytes, and a roster hash that
  is defined and free of collisions on the offered rosters.\<close>

theorem lobby_never_throws:
  assumes "lobby_laws pr V R" "lobby_run pr V R lob" "offered V R a"
  shows "(\<exists>r. snd (lob_ingest lob a) = Inr r) \<and> (\<exists>r. snd (bootstrapJoin pr lob a) = Inr r) \<and>
    (\<exists>r. snd (bootstrapRosterMemberJoin pr lob a) = Inr r) \<and> (\<exists>r. snd (ingestRoster pr lob a) = Inr r) \<and>
    (\<exists>r. snd (ingestReady pr lob a) = Inr r) \<and> (\<exists>r. snd (restoreReadyFromHistory pr lob a) = Inr r) \<and>
    (\<forall>s. linked s (lob_log lob s) \<and> (\<forall>lob' \<in> {fst (lob_ingest lob a), fst (bootstrapJoin pr lob a), fst (bootstrapRosterMemberJoin pr lob a),
       fst (ingestRoster pr lob a), fst (ingestReady pr lob a), fst (restoreReadyFromHistory pr lob a)}. prefix (lob_log lob s) (lob_log lob' s)))"
proof -
  have inv: "lob_inv pr V R lob" "complete_inv lob" "V a" using run_inv [OF assms(2,1)] assms(3) by (simp_all add: offered_def)
  note ok = lob_ingest_ok [OF inv] bootstrapJoin_ok [OF inv assms(1)] bootstrapRosterMemberJoin_ok [OF inv assms(1)]
    ingestRoster_ok [OF inv(1,2) assms(3,1)] ingestReady_ok [OF inv assms(1)] restore_ok [OF inv assms(1)]
  have "linked s (lob_log lob s)" for s using inv(1) chain_for_log(2) by (auto simp: lob_inv_def)
  then show ?thesis using ok unfolding step_ok_def by simp
qed

lemma finalized_facts:
  assumes "lobby_laws pr V R" "lobby_run pr V R lob" "lob_finalizedRegistry lob = Some reg"
  obtains b h reg0 where "lob_roster lob = Some b" "lob_rosterHash lob = Some h" "good_roster pr R b h" "MIN_SESSION_SEATS \<le> length (rb_seats b)"
    "reg_roster reg = rb_seats b" "\<And>s. log_of reg s = (if s \<in> set (rb_seats b) then lob_log lob s else [])"
    "\<And>s. s \<in> set (rb_seats b) \<Longrightarrow> \<exists>a \<in> set (lob_log lob s). confirms h a"
    "newSessionChainRegistry pr (JBytes (ctx_gameId (lob_context lob))) (map JBytes (rb_seats b)) = Inr reg0" "fed_from V reg0 reg"
proof -
  have inv: "lob_inv pr V R lob" using run_inv [OF assms(2,1)] by simp
  then obtain b h reg0 where b: "lob_roster lob = Some b" "lob_rosterHash lob = Some h" "MIN_SESSION_SEATS \<le> length (rb_seats b)"
    "reg_roster reg = rb_seats b" "\<And>s. log_of reg s = (if s \<in> set (rb_seats b) then lob_log lob s else [])"
    "\<And>s. s \<in> set (rb_seats b) \<Longrightarrow> \<exists>a \<in> set (lob_log lob s). confirms h a"
    "newSessionChainRegistry pr (JBytes (ctx_gameId (lob_context lob))) (map JBytes (rb_seats b)) = Inr reg0" "fed_from V reg0 reg"
    using assms(3) unfolding lob_inv_def final_inv_def by blast
  have "good_roster pr R b h" using inv b(1,2) unfolding lob_inv_def rosters_inv_def by blast
  then show ?thesis using that b by blast
qed

text \<open>C11: a finalised lobby is a session that all its seats agreed to. Its registry has the seats of the
  current roster, at least three and all different, holds for each seat the whole log the lobby
  collected, and in each seat's log there is an envelope sent by that seat that confirms the hash of
  exactly this roster. If only verified envelopes are offered the registry is a session state, so
  everything proved about sessions applies to it.\<close>

theorem lobby_finalized_agreed:
  assumes "lobby_laws pr V R" "lobby_run pr V R lob" "lob_finalizedRegistry lob = Some reg"
  shows "((\<forall>a. V a \<longrightarrow> verified pr a) \<longrightarrow> session_state pr reg) \<and>
    (\<exists>b h. lob_roster lob = Some b \<and> lob_rosterHash lob = Some h \<and> hashRosterBody pr b = Inr h \<and>
      reg_roster reg = rb_seats b \<and> MIN_SESSION_SEATS \<le> length (rb_seats b) \<and> distinct (rb_seats b) \<and>
      (\<forall>s \<in> set (rb_seats b). log_of reg s = lob_log lob s \<and>
         (\<exists>a \<in> set (log_of reg s). V a \<and> env_from (art_envelope a) = s \<and> env_type (art_envelope a) = READY \<and>
            decodeReadyBody (env_body (art_envelope a)) = Inr \<lparr>rdy_rosterHash = h\<rparr>)))"
proof -
  obtain b h reg0 where f: "lob_roster lob = Some b" "lob_rosterHash lob = Some h" "good_roster pr R b h" "MIN_SESSION_SEATS \<le> length (rb_seats b)"
    "reg_roster reg = rb_seats b" "\<And>s. log_of reg s = (if s \<in> set (rb_seats b) then lob_log lob s else [])"
    "\<And>s. s \<in> set (rb_seats b) \<Longrightarrow> \<exists>a \<in> set (lob_log lob s). confirms h a"
    "newSessionChainRegistry pr (JBytes (ctx_gameId (lob_context lob))) (map JBytes (rb_seats b)) = Inr reg0" "fed_from V reg0 reg"
    using finalized_facts [OF assms] by blast
  have st: "session_state pr reg" if "\<forall>a. V a \<longrightarrow> verified pr a"
    using f(9) that session_fold [OF session_new [OF f(8)]] by (auto simp: fed_from_def)
  have chains: "chains_inv V lob" using run_inv [OF assms(2,1)] by (simp add: lob_inv_def)
  have "distinct (rb_seats b)" using good_roster_ok [OF f(3)] by (simp add: roster_ok_def seats_ok_def)
  moreover have "\<exists>a \<in> set (log_of reg s). V a \<and> env_from (art_envelope a) = s \<and> env_type (art_envelope a) = READY \<and>
      decodeReadyBody (env_body (art_envelope a)) = Inr \<lparr>rdy_rosterHash = h\<rparr>" if s: "s \<in> set (rb_seats b)" for s
  proof -
    obtain a where a: "a \<in> set (lob_log lob s)" "confirms h a" using f(7) s by auto
    have "V a" using a(1) chains by (cases "chain_for lob s") (auto simp: chains_inv_def lob_log_def)
    moreover have "env_from (art_envelope a) = s" using a(1) chain_for_log(2) [OF chains, of s] by (auto simp: linked_def in_set_conv_nth)
    ultimately show ?thesis using a f(6) s by (auto simp: confirms_def)
  qed
  ultimately show ?thesis using st f by (auto simp: good_roster_def)
qed

lemma ready_seats_all:
  assumes "lob_inv pr V R lob" "hash_names_roster pr R" "lob_roster lob = Some b" "MIN_SESSION_SEATS \<le> length (rb_seats b)"
  shows "readySeats lob = [0..<length (rb_seats b)] \<longleftrightarrow> full_ready lob"
proof -
  obtain h where h: "lob_rosterHash lob = Some h" using assms(1,3) unfolding lob_inv_def rosters_inv_def by fastforce
  have filter_all: "filter P [0..<n] = [0..<n] \<longleftrightarrow> (\<forall>i < n. P i)" for P and n :: nat by (auto simp: filter_id_conv)
  show ?thesis
  proof (cases "currentReady lob")
    case None
    have "0 < length (rb_seats b)" using assms(4) unfolding MIN_SESSION_SEATS_def by linarith
    then have "[] \<noteq> [0..<length (rb_seats b)]" by (simp add: upt_conv_Cons)
    then show ?thesis using None assms(3) by (simp add: readySeats_def full_ready_def)
  next
    case (Some rd)
    have "readySeats lob = [0..<length (rb_seats b)] \<longleftrightarrow> (\<forall>i < length (rb_seats b). map_of rd (bytesToHex (rb_seats b ! i)) \<noteq> None)"
      using Some assms(3) by (simp only: readySeats_def option.case filter_all)
    also have "\<dots> \<longleftrightarrow> (\<forall>s \<in> set (rb_seats b). map_of rd (bytesToHex s) \<noteq> None)" by (auto simp: all_set_conv_all_nth)
    finally show ?thesis using full_ready_all [OF assms(1-3) h Some] assms(3,4) Some by (auto simp: full_ready_def)
  qed
qed

text \<open>C12: the lobby is finalised exactly when everyone is ready. In every reachable lobby whose roster has
  at least three seats, the state is finalised if and only if every seat is listed as ready, and
  from then on no operation with any envelope changes the lobby.\<close>

theorem lobby_finalizes_exactly:
  assumes "lobby_laws pr V R" "lobby_run pr V R lob" "lob_roster lob = Some b" "MIN_SESSION_SEATS \<le> length (rb_seats b)"
  shows "(lob_state lob = Finalized \<longleftrightarrow> readySeats lob = [0..<length (rb_seats b)]) \<and>
    (lob_state lob = Finalized \<longrightarrow> (\<forall>a. offered V R a \<longrightarrow> fst (lob_ingest lob a) = lob \<and> fst (bootstrapJoin pr lob a) = lob \<and>
       fst (bootstrapRosterMemberJoin pr lob a) = lob \<and> fst (ingestRoster pr lob a) = lob \<and> fst (ingestReady pr lob a) = lob \<and>
       fst (restoreReadyFromHistory pr lob a) = lob))"
proof -
  have inv: "lob_inv pr V R lob" "complete_inv lob" using run_inv [OF assms(2,1)] by simp_all
  have st: "lob_state lob = Finalized \<longleftrightarrow> lob_finalizedRegistry lob \<noteq> None" by (simp add: lob_state_def split: option.splits)
  have ex: "lob_state lob = Finalized \<longleftrightarrow> readySeats lob = [0..<length (rb_seats b)]"
    using st inv(2) ready_seats_all [OF inv(1) _ assms(3,4)] assms(1) by (simp add: complete_inv_def lobby_laws_def)
  have "fst (lob_ingest lob a) = lob \<and> fst (bootstrapJoin pr lob a) = lob \<and> fst (bootstrapRosterMemberJoin pr lob a) = lob \<and>
      fst (ingestRoster pr lob a) = lob \<and> fst (ingestReady pr lob a) = lob \<and> fst (restoreReadyFromHistory pr lob a) = lob"
    if fin: "lob_state lob = Finalized" and a: "offered V R a" for a
  proof -
    have va: "V a" using a by (simp add: offered_def)
    show ?thesis
      using fin st lob_ingest_ok [OF inv va] bootstrapJoin_ok [OF inv va assms(1)] bootstrapRosterMemberJoin_ok [OF inv va assms(1)]
        ingestRoster_ok [OF inv a assms(1)] ingestReady_ok [OF inv va assms(1)] restore_ok [OF inv va assms(1)]
      unfolding step_ok_def by simp
  qed
  then show ?thesis using ex by blast
qed

section \<open>Examples\<close>

definition lobby_prims :: prims where
  "lobby_prims = \<lparr>cbor2_encode = (\<lambda>v. Some [0]), cbor2_decode = (\<lambda>b. None),
     noble_sha256 = (\<lambda>b. replicate 32 4), noble_sha512 = (\<lambda>b. replicate 64 0),
     noble_getPublicKey = (\<lambda>sk. replicate 32 9), noble_sign = (\<lambda>m sk. replicate 64 5),
     noble_verify = (\<lambda>sig m pk. Some True), noble_point = (\<lambda>p. Some (True, False))\<rparr>"

definition lobby_context :: LobbyBootstrapContext where
  "lobby_context = \<lparr>ctx_gameId = replicate 16 7, ctx_host = replicate 32 9, ctx_rulesHash = replicate 32 2, ctx_iceConfigHash = replicate 32 3\<rparr>"

definition lobby_artifact :: "byte \<Rightarrow> byte \<Rightarrow> nat \<Rightarrow> bytes \<Rightarrow> EnvelopeMessageType \<Rightarrow> jsval \<Rightarrow> EnvelopeArtifact" where
  "lobby_artifact n sender seq prev t body = \<lparr>art_envelope = withSignature \<lparr>env_v = 1, env_game = replicate 16 7, env_from = replicate 32 sender,
     env_seq = seq, env_prev = prev, env_round = 0, env_phase = ascii ''lobby'', env_type = t, env_body = body\<rparr> (replicate 64 5),
     art_canonicalBytes = [n], art_hash = replicate 32 n\<rparr>"

definition join_body :: "byte \<Rightarrow> jsval" where
  "join_body s = JObject [(ascii ''pk_id'', JBytes (replicate 32 s)), (ascii ''rules_hash'', JBytes (replicate 32 2)),
     (ascii ''client_version'', JString (ascii ''1''))]"

definition ready_body :: jsval where
  "ready_body = JObject [(ascii ''roster_hash'', JBytes (replicate 32 4))]"

abbreviation "join9 \<equiv> lobby_artifact 11 9 0 ZERO_HASH JOIN (join_body 9)"
abbreviation "join1 \<equiv> lobby_artifact 12 1 0 ZERO_HASH JOIN (join_body 1)"
abbreviation "join2 \<equiv> lobby_artifact 13 2 0 ZERO_HASH JOIN (join_body 2)"
abbreviation "roster9 \<equiv> lobby_artifact 14 9 (Suc 0) (replicate 32 11) ROSTER (roster_value example_rosterBody)"
abbreviation "ready9 \<equiv> lobby_artifact 15 9 2 (replicate 32 14) READY ready_body"
abbreviation "ready1 \<equiv> lobby_artifact 16 1 (Suc 0) (replicate 32 12) READY ready_body"
abbreviation "ready2 \<equiv> lobby_artifact 17 2 (Suc 0) (replicate 32 13) READY ready_body"

lemma lobby_artifact_sel [simp]:
  "env_game (art_envelope (lobby_artifact n s q p t b)) = replicate 16 7" "env_from (art_envelope (lobby_artifact n s q p t b)) = replicate 32 s"
  "env_seq (art_envelope (lobby_artifact n s q p t b)) = q" "env_prev (art_envelope (lobby_artifact n s q p t b)) = p"
  "env_round (art_envelope (lobby_artifact n s q p t b)) = 0" "env_phase (art_envelope (lobby_artifact n s q p t b)) = ascii ''lobby''"
  "env_type (art_envelope (lobby_artifact n s q p t b)) = t" "env_body (art_envelope (lobby_artifact n s q p t b)) = b"
  "art_canonicalBytes (lobby_artifact n s q p t b) = [n]" "art_hash (lobby_artifact n s q p t b) = replicate 32 n"
  by (simp_all add: lobby_artifact_def)

lemma lobby_sel [simp]:
  "ctx_gameId lobby_context = replicate 16 7" "ctx_host lobby_context = replicate 32 9" "ctx_rulesHash lobby_context = replicate 32 2"
  "ctx_iceConfigHash lobby_context = replicate 32 3" "rb_gameId example_rosterBody = replicate 16 7" "rb_rulesHash example_rosterBody = replicate 32 2"
  "rb_iceConfigHash example_rosterBody = replicate 32 3" "rb_seats example_rosterBody = [replicate 32 9, replicate 32 1, replicate 32 2]"
  by (simp_all add: lobby_context_def example_rosterBody_def)

lemma lobby_context_ok [simp]: "normalizeContext lobby_prims lobby_context = Inr lobby_context"
  by (simp add: normalizeContext_def result_simps lobby_context_def field_defs importEd25519PublicKey_def isAcceptablePublicKey_def lobby_prims_def
      assertLength_def ED25519_PUBLIC_KEY_LENGTH_def)

lemma lobby_bodies [simp]:
  "decodeJoinBody (join_body s) = Inr \<lparr>jb_pkId = replicate 32 s, jb_rulesHash = replicate 32 2, jb_clientVersion = ascii ''1''\<rparr>"
  "decodeReadyBody ready_body = Inr \<lparr>rdy_rosterHash = replicate 32 4\<rparr>"
  "decodeRosterBody (roster_value example_rosterBody) = Inr example_rosterBody"
  "hashRosterBody lobby_prims example_rosterBody = Inr (replicate 32 4)"
proof -
  show "decodeJoinBody (join_body s) = Inr \<lparr>jb_pkId = replicate 32 s, jb_rulesHash = replicate 32 2, jb_clientVersion = ascii ''1''\<rparr>"
    by (simp add: decodeJoinBody_def join_body_def result_simps normalizeJoinBody_def JOIN_KEYS_def has_exactly_def get_prop_def)
  show "decodeReadyBody ready_body = Inr \<lparr>rdy_rosterHash = replicate 32 4\<rparr>"
    by (simp add: decodeReadyBody_def ready_body_def result_simps READY_KEYS_def has_exactly_def get_prop_def)
  show "decodeRosterBody (roster_value example_rosterBody) = Inr example_rosterBody"
    by (rule decode_roster_value [OF example_rosterBody_ok])
  have "assertCborValue (roster_value example_rosterBody) = Inr ()"
    by (simp add: assertCborValue_iff roster_value_def example_rosterBody_def MAX_CBOR_NESTING_DEPTH_def ascii_def)
  then show "hashRosterBody lobby_prims example_rosterBody = Inr (replicate 32 4)"
    using example_rosterBody_ok by (auto simp: hashRoster_Inr encodeCanonical_def lobby_prims_def sha256_def)
qed

lemma join_step:
  assumes "lob_context lob = lobby_context" "lob_finalizedRegistry lob = None"
    "chain_for lob (replicate 32 s) = None \<or> chain_for lob (replicate 32 s) = Some (chain_of (replicate 32 s) [])"
  shows "fst (bootstrapJoin lobby_prims lob (lobby_artifact n s 0 ZERO_HASH JOIN (join_body s))) =
    put_chain (replicate 32 s) (chain_of (replicate 32 s) [lobby_artifact n s 0 ZERO_HASH JOIN (join_body s)]) lob"
proof -
  let ?a = "lobby_artifact n s 0 ZERO_HASH JOIN (join_body s)"
  have j: "join_chain lob ?a = Inr (chain_of (replicate 32 s) [])"
    using assms(3) newSenderChain_Inr [of "replicate 32 s"] by (auto simp: join_chain_def)
  have v: "validateLobbyJoinEnvelope lobby_prims ?a lobby_context = Inr (Inr \<lparr>jb_pkId = replicate 32 s, jb_rulesHash = replicate 32 2, jb_clientVersion = ascii ''1''\<rparr>)"
    by (simp add: validateLobbyJoinEnvelope_def)
  show ?thesis
    using assms(1,2) j v by (simp add: bootstrapJoin_def classifyBootstrapJoin_def chain_classify_of chain_ingest_of prev_hash_def)
qed

text \<open>The lobby after the three JOINs and the roster, and what each READY does to it.\<close>

definition lobby_joined :: LobbyChainRegistry where
  "lobby_joined = put_chain (replicate 32 2) (chain_of (replicate 32 2) [join2]) (put_chain (replicate 32 1) (chain_of (replicate 32 1) [join1])
     (put_chain (replicate 32 9) (chain_of (replicate 32 9) [join9])
       \<lparr>lob_context = lobby_context, lob_chains = [(bytesToHex (replicate 32 9), chain_of (replicate 32 9) [])], lob_readyByRoster = [],
        lob_knownRosters = [], lob_roster = None, lob_rosterHash = None, lob_rosterArtifact = None, lob_finalizedRegistry = None\<rparr>))"

definition lobby_announced :: LobbyChainRegistry where
  "lobby_announced = (put_chain (replicate 32 9) (chain_of (replicate 32 9) [join9, roster9]) lobby_joined)
     \<lparr>lob_roster := Some example_rosterBody, lob_rosterHash := Some (replicate 32 4), lob_rosterArtifact := Some roster9,
      lob_knownRosters := [(bytesToHex (replicate 32 4), example_rosterBody)]\<rparr>"

abbreviation "lobby_V a \<equiv> a \<in> {join9, join1, join2, roster9, ready9, ready1, ready2}"

lemma lobby_example_laws: "lobby_laws lobby_prims lobby_V {example_rosterBody}"
  by (auto simp: lobby_laws_def hash_names_roster_def)

lemma lobby_offered: "lobby_V a \<Longrightarrow> offered lobby_V {example_rosterBody} a"
proof -
  have j: "decodeRosterBody (join_body s) \<noteq> Inr b" "decodeRosterBody ready_body \<noteq> Inr b" for s b
    by (simp_all add: decodeRosterBody_def result_simps join_body_def ready_body_def has_exactly_def ROSTER_KEYS_def)
  show "lobby_V a \<Longrightarrow> offered lobby_V {example_rosterBody} a" using j by (auto simp: offered_def)
qed

lemma lobby_joined_run: "lobby_run lobby_prims lobby_V {example_rosterBody} lobby_joined"
proof -
  let ?l0 = "\<lparr>lob_context = lobby_context, lob_chains = [(bytesToHex (replicate 32 9), chain_of (replicate 32 9) [])], lob_readyByRoster = [],
        lob_knownRosters = [], lob_roster = None, lob_rosterHash = None, lob_rosterArtifact = None, lob_finalizedRegistry = None\<rparr>"
  let ?l1 = "put_chain (replicate 32 9) (chain_of (replicate 32 9) [join9]) ?l0"
  let ?l2 = "put_chain (replicate 32 1) (chain_of (replicate 32 1) [join1]) ?l1"
  have h: "ctx_host lobby_context = replicate 32 9" by (simp add: lobby_context_def)
  have "newSenderChain (JBytes (replicate 32 9)) = Inr (chain_of (replicate 32 9) [])" by (simp add: newSenderChain_Inr)
  then have "newLobbyChainRegistry lobby_prims lobby_context = Inr ?l0" by (simp add: newLobbyChainRegistry_def h)
  then have r0: "lobby_run lobby_prims lobby_V {example_rosterBody} ?l0" by (rule run_new)
  have "fst (bootstrapJoin lobby_prims ?l0 join9) = ?l1" by (rule join_step) simp_all
  then have r1: "lobby_run lobby_prims lobby_V {example_rosterBody} ?l1" using run_join [OF r0 lobby_offered, of join9] by simp
  have "fst (bootstrapJoin lobby_prims ?l1 join1) = ?l2" by (rule join_step) simp_all
  then have r2: "lobby_run lobby_prims lobby_V {example_rosterBody} ?l2" using run_join [OF r1 lobby_offered, of join1] by simp
  have "fst (bootstrapJoin lobby_prims ?l2 join2) = lobby_joined" unfolding lobby_joined_def by (rule join_step) simp_all
  then show ?thesis using run_join [OF r2 lobby_offered, of join2] by simp
qed

lemma lobby_announced_run: "lobby_run lobby_prims lobby_V {example_rosterBody} lobby_announced"
proof -
  have sel: "lob_context lobby_joined = lobby_context" "lob_finalizedRegistry lobby_joined = None" "lob_knownRosters lobby_joined = []"
    "lob_readyByRoster lobby_joined = []" "chain_for lobby_joined (replicate 32 9) = Some (chain_of (replicate 32 9) [join9])"
    "ctx_host lobby_context = replicate 32 9"
    by (simp_all add: lobby_joined_def lobby_context_def)
  have imp: "importEd25519PublicKey lobby_prims (replicate 32 k) = Inr (replicate 32 k)" for k
    by (simp add: importEd25519PublicKey_def isAcceptablePublicKey_def lobby_prims_def assertLength_def ED25519_PUBLIC_KEY_LENGTH_def)
  have v: "validateLobbyRosterEnvelope lobby_prims roster9 lobby_context = Inr (Inr (example_rosterBody, replicate 32 4, True))"
    by (simp add: validateLobbyRosterEnvelope_def imp)
  have c: "classifyRoster lobby_prims lobby_joined roster9 =
      Inr (RosterTaken (Accepted \<lparr>head_from = replicate 32 9, head_seq = Suc 0, head_hash = replicate 32 14\<rparr> roster9) example_rosterBody (replicate 32 4) True)"
    using v by (simp add: classifyRoster_def sel chain_classify_of prev_hash_def)
  have f: "finalizeIfReady lobby_prims lobby_announced = (lobby_announced, Inr ())"
    by (simp add: finalizeIfReady_def lobby_announced_def currentReady_def sel)
  have "fst (ingestRoster lobby_prims lobby_joined roster9) = fst (finalizeIfReady lobby_prims lobby_announced)"
    using f by (simp add: ingestRoster_def c sel chain_ingest_of chain_classify_of prev_hash_def lobby_announced_def [symmetric] Let_def)
  then show ?thesis using run_roster [OF lobby_joined_run lobby_offered, of roster9] f by simp
qed

lemma finalize_same [simp]:
  "lob_roster (fst (finalizeIfReady pr lob)) = lob_roster lob" "currentReady (fst (finalizeIfReady pr lob)) = currentReady lob"
  by (auto simp: finalizeIfReady_def split: option.splits sum.splits)

lemma ready_step:
  assumes "lob_context lob = lobby_context" "lob_finalizedRegistry lob = None" "lob_roster lob = Some example_rosterBody"
    "lob_rosterHash lob = Some (replicate 32 4)" "chain_for lob (replicate 32 s) = Some (chain_of (replicate 32 s) log)"
    "map_of (ready_of lob (bytesToHex (replicate 32 4))) (bytesToHex (replicate 32 s)) = None" "s \<in> {9, 1, 2}" "q = length log" "p = prev_hash log"
  shows "fst (ingestReady lobby_prims lob (lobby_artifact n s q p READY ready_body)) =
    fst (finalizeIfReady lobby_prims (put_ready (bytesToHex (replicate 32 4)) (bytesToHex (replicate 32 s)) (lobby_artifact n s q p READY ready_body)
      (put_chain (replicate 32 s) (chain_of (replicate 32 s) (log @ [lobby_artifact n s q p READY ready_body])) lob)))"
proof -
  let ?a = "lobby_artifact n s q p READY ready_body"
  obtain seat where seat: "index_of (map bytesToHex (rb_seats example_rosterBody)) (bytesToHex (replicate 32 s)) = Some seat" using assms(7) by auto
  have cl: "chain_classify (chain_of (replicate 32 s) log) ?a = Accepted \<lparr>head_from = replicate 32 s, head_seq = length log, head_hash = replicate 32 n\<rparr> ?a"
    using assms(8,9) by (simp add: chain_classify_of)
  then have "\<exists>st. classifyReady lob ?a = ReadyTaken False seat st \<lparr>rdy_rosterHash = replicate 32 4\<rparr> ?a (chain_classify (chain_of (replicate 32 s) log) ?a)"
    using assms(1-6) seat by (simp add: classifyReady_def MIN_SESSION_SEATS_def Let_def)
  then show ?thesis using assms(5) cl by (auto simp: ingestReady_def chain_ingest_of Let_def split: prod.splits sum.splits)
qed

definition lobby_ready9 :: LobbyChainRegistry where
  "lobby_ready9 = put_ready (bytesToHex (replicate 32 4)) (bytesToHex (replicate 32 9)) ready9
     (put_chain (replicate 32 9) (chain_of (replicate 32 9) [join9, roster9, ready9]) lobby_announced)"

definition lobby_ready1 :: LobbyChainRegistry where
  "lobby_ready1 = put_ready (bytesToHex (replicate 32 4)) (bytesToHex (replicate 32 1)) ready1
     (put_chain (replicate 32 1) (chain_of (replicate 32 1) [join1, ready1]) lobby_ready9)"

definition lobby_done :: LobbyChainRegistry where
  "lobby_done = fst (ingestReady lobby_prims lobby_ready1 ready2)"

lemma announced_sel: "lob_context lobby_announced = lobby_context" "lob_finalizedRegistry lobby_announced = None"
  "lob_roster lobby_announced = Some example_rosterBody" "lob_rosterHash lobby_announced = Some (replicate 32 4)" "lob_readyByRoster lobby_announced = []"
  "chain_for lobby_announced (replicate 32 9) = Some (chain_of (replicate 32 9) [join9, roster9])"
  "chain_for lobby_announced (replicate 32 1) = Some (chain_of (replicate 32 1) [join1])"
  "chain_for lobby_announced (replicate 32 2) = Some (chain_of (replicate 32 2) [join2])"
  by (simp_all add: lobby_announced_def lobby_joined_def)

lemma ready9_sel: "lob_context lobby_ready9 = lobby_context" "lob_finalizedRegistry lobby_ready9 = None"
  "lob_roster lobby_ready9 = Some example_rosterBody" "lob_rosterHash lobby_ready9 = Some (replicate 32 4)"
  "map_of (lob_readyByRoster lobby_ready9) (bytesToHex (replicate 32 4)) = Some [(bytesToHex (replicate 32 9), ready9)]"
  "chain_for lobby_ready9 (replicate 32 1) = Some (chain_of (replicate 32 1) [join1])"
  "chain_for lobby_ready9 (replicate 32 2) = Some (chain_of (replicate 32 2) [join2])"
  by (simp_all add: lobby_ready9_def put_ready_lookup announced_sel ready_of_def)

lemma ready1_sel: "lob_context lobby_ready1 = lobby_context" "lob_finalizedRegistry lobby_ready1 = None"
  "lob_roster lobby_ready1 = Some example_rosterBody" "lob_rosterHash lobby_ready1 = Some (replicate 32 4)"
  "map_of (lob_readyByRoster lobby_ready1) (bytesToHex (replicate 32 4)) =
     Some [(bytesToHex (replicate 32 9), ready9), (bytesToHex (replicate 32 1), ready1)]"
  "chain_for lobby_ready1 (replicate 32 2) = Some (chain_of (replicate 32 2) [join2])"
  by (simp_all add: lobby_ready1_def put_ready_lookup ready9_sel ready_of_def)

lemma lobby_done_run: "lobby_run lobby_prims lobby_V {example_rosterBody} lobby_done"
proof -
  have "fst (ingestReady lobby_prims lobby_announced ready9) = fst (finalizeIfReady lobby_prims lobby_ready9)"
    unfolding lobby_ready9_def by (subst ready_step [where log = "[join9, roster9]"]) (simp_all add: announced_sel ready_of_def prev_hash_def)
  moreover have "finalizeIfReady lobby_prims lobby_ready9 = (lobby_ready9, Inr ())"
    by (simp add: finalizeIfReady_def currentReady_def ready9_sel)
  ultimately have r9: "lobby_run lobby_prims lobby_V {example_rosterBody} lobby_ready9"
    using run_ready [OF lobby_announced_run lobby_offered, of ready9] by simp
  have "fst (ingestReady lobby_prims lobby_ready9 ready1) = fst (finalizeIfReady lobby_prims lobby_ready1)"
    unfolding lobby_ready1_def by (subst ready_step [where log = "[join1]"]) (simp_all add: ready9_sel ready_of_def prev_hash_def)
  moreover have "finalizeIfReady lobby_prims lobby_ready1 = (lobby_ready1, Inr ())"
    by (simp add: finalizeIfReady_def currentReady_def ready1_sel)
  ultimately have r1: "lobby_run lobby_prims lobby_V {example_rosterBody} lobby_ready1"
    using run_ready [OF r9 lobby_offered, of ready1] by simp
  show ?thesis unfolding lobby_done_def using run_ready [OF r1 lobby_offered, of ready2] by simp
qed

lemma lobby_done_final: "lob_roster lobby_done = Some example_rosterBody" "\<exists>reg. lob_finalizedRegistry lobby_done = Some reg"
proof -
  let ?l = "put_ready (bytesToHex (replicate 32 4)) (bytesToHex (replicate 32 2)) ready2
     (put_chain (replicate 32 2) (chain_of (replicate 32 2) ([join2] @ [ready2])) lobby_ready1)"
  have d: "lobby_done = fst (finalizeIfReady lobby_prims ?l)"
    unfolding lobby_done_def by (rule ready_step) (simp_all add: ready1_sel ready_of_def prev_hash_def)
  show roster: "lob_roster lobby_done = Some example_rosterBody" by (simp add: d ready1_sel)
  have "currentReady lobby_done = Some [(bytesToHex (replicate 32 9), ready9), (bytesToHex (replicate 32 1), ready1), (bytesToHex (replicate 32 2), ready2)]"
    unfolding d finalize_same by (simp add: currentReady_def put_ready_lookup ready_of_def ready1_sel)
  then have "full_ready lobby_done" using roster by (simp add: full_ready_def MIN_SESSION_SEATS_def)
  then show "\<exists>reg. lob_finalizedRegistry lobby_done = Some reg"
    using run_inv [OF lobby_done_run lobby_example_laws] by (auto simp: complete_inv_def)
qed

theorem lobby_finalized_agreed_witness:
  "\<exists>reg b h. lob_finalizedRegistry lobby_done = Some reg \<and> lob_roster lobby_done = Some b \<and> lob_rosterHash lobby_done = Some h \<and>
     reg_roster reg = rb_seats b \<and> MIN_SESSION_SEATS \<le> length (rb_seats b)"
  using lobby_done_final(2) lobby_finalized_agreed [OF lobby_example_laws lobby_done_run] by blast

theorem lobby_finalizes_exactly_witness:
  "lob_state lobby_done = Finalized \<and> readySeats lobby_done = [0, 1, 2] \<and> fst (ingestRoster lobby_prims lobby_done roster9) = lobby_done"
proof -
  have "lob_state lobby_done = Finalized" using lobby_done_final(2) by (auto simp: lob_state_def)
  moreover have "offered lobby_V {example_rosterBody} roster9" by (rule lobby_offered) simp
  ultimately show ?thesis
    using lobby_finalizes_exactly [OF lobby_example_laws lobby_done_run lobby_done_final(1)]
    by (simp add: MIN_SESSION_SEATS_def upt_rec)
qed

theorem lobby_never_throws_witness:
  "(\<exists>r. snd (ingestRoster lobby_prims lobby_joined roster9) = Inr r) \<and> (\<exists>r. snd (ingestReady lobby_prims lobby_joined roster9) = Inr r)"
  using lobby_never_throws [OF lobby_example_laws lobby_joined_run lobby_offered, of roster9] by simp

end
