(* ===== verification/Frame_Transport.thy ===== *)
theory Frame_Transport
  imports Protocol_Envelope Error_Machine
begin

text \<open>
  \<^verbatim>\<open>packages/transport/src/frame.ts\<close>: a message that is larger than a data channel carries is split
  into numbered frames, and the receiver collects the frames of several messages at once within
  limits on bytes, groups and age. An object of class \<open>FrameReassembler\<close> is a record; each of its
  methods takes the record and returns the new one. A reading of the clock is \<open>None\<close> when the
  clock returns no finite number, and otherwise a whole number of milliseconds, as \<open>Date.now\<close>
  gives; the timer is the delay it was armed with. Copies of byte arrays and the check that the
  clock is a function have no counterpart.
\<close>

section \<open>Frames\<close>

definition MAX_FRAME_PAYLOAD_BYTES :: nat where
  "MAX_FRAME_PAYLOAD_BYTES = 16 * 1024"
definition MAX_ENCODED_FRAME_BYTES :: nat where
  "MAX_ENCODED_FRAME_BYTES = MAX_FRAME_PAYLOAD_BYTES + 128"
definition MAX_FRAME_COUNT :: nat where
  "MAX_FRAME_COUNT = 0xffff"
definition MAX_FRAME_ID :: nat where
  "MAX_FRAME_ID = 0xffffffff"
definition INCOMPLETE_FRAME_TIMEOUT_MS :: nat where
  "INCOMPLETE_FRAME_TIMEOUT_MS = 30000"
definition DEFAULT_MAX_REASSEMBLED_BYTES :: nat where
  "DEFAULT_MAX_REASSEMBLED_BYTES = 8 * 1024 * 1024"
definition DEFAULT_MAX_PENDING_BYTES :: nat where
  "DEFAULT_MAX_PENDING_BYTES = 16 * 1024 * 1024"
definition DEFAULT_MAX_PENDING_GROUPS :: nat where
  "DEFAULT_MAX_PENDING_GROUPS = 64"

record DataFrame =
  df_id :: nat
  df_index :: nat
  df_count :: nat
  df_bytes :: bytes

datatype frame_error = FrameInvalid protocol_error | FrameFault string

definition FRAME_KEYS :: "string list" where
  "FRAME_KEYS = [''id'', ''index'', ''count'', ''bytes'']"

definition frame_value :: "DataFrame \<Rightarrow> jsval" where
  "frame_value f = JObject [(ascii ''id'', jnat (df_id f)), (ascii ''index'', jnat (df_index f)),
     (ascii ''count'', jnat (df_count f)), (ascii ''bytes'', JBytes (df_bytes f))]"

text \<open>An array or a byte string is an object without the properties of a frame.\<close>

definition frame_object :: "jsval \<Rightarrow> (ustr \<times> jsval) list option" where
  "frame_object v = (case v of JObject ps \<Rightarrow> Some ps | JArray _ \<Rightarrow> Some [] | JBytes _ \<Rightarrow> Some [] | _ \<Rightarrow> None)"

definition normalizeFrame :: "jsval \<Rightarrow> protocol_error + DataFrame" where
  "normalizeFrame frame =
     (case frame_object frame of
        None \<Rightarrow> Inl (ProtocolSchemaError ''Frame'' ''must be a map'')
      | Some ps \<Rightarrow>
          rbind (expectUnsignedInteger (get_prop ps ''id'') ''Frame.id'' (int MAX_FRAME_ID)) (\<lambda>fid.
          rbind (expectUnsignedInteger (get_prop ps ''index'') ''Frame.index'' (int MAX_FRAME_COUNT)) (\<lambda>index.
          rbind (expectUnsignedInteger (get_prop ps ''count'') ''Frame.count'' (int MAX_FRAME_COUNT)) (\<lambda>cnt.
          if cnt = 0 then Inl (ProtocolSchemaError ''Frame.count'' ''must be at least one'')
          else if index \<ge> cnt then Inl (ProtocolSchemaError ''Frame.index'' ''must be less than count'')
          else rbind (expectByteString (get_prop ps ''bytes'') ''Frame.bytes'') (\<lambda>b.
            if length b > MAX_FRAME_PAYLOAD_BYTES
            then Inl (ProtocolSchemaError ''Frame.bytes'' ''must contain at most the maximum bytes'')
            else if cnt > 1 \<and> length b = 0
            then Inl (ProtocolSchemaError ''Frame.bytes'' ''must not be empty in a multi-frame message'')
            else Inr \<lparr>df_id = fid, df_index = index, df_count = cnt, df_bytes = b\<rparr>)))))"

definition encodeDataFrame :: "prims \<Rightarrow> jsval \<Rightarrow> protocol_error + bytes" where
  "encodeDataFrame pr frame =
     rbind (normalizeFrame frame) (\<lambda>normalized. cborTry (encodeCanonical pr (frame_value normalized)))"

definition requireEncodedFrame :: "bytes \<Rightarrow> protocol_error + unit" where
  "requireEncodedFrame b =
     (if length b > MAX_ENCODED_FRAME_BYTES
      then Inl (ProtocolSchemaError ''Frame'' ''must encode to at most the maximum bytes'') else Inr ())"

definition decodeDataFrame :: "prims \<Rightarrow> bytes \<Rightarrow> protocol_error + DataFrame" where
  "decodeDataFrame pr encoded =
     rbind (requireEncodedFrame encoded) (\<lambda>_.
     rbind (cborTry (decodeCanonical pr encoded)) (\<lambda>v.
     rbind (expectExactMap v FRAME_KEYS ''Frame'') (\<lambda>frame.
     rbind (expectUnsignedInteger (get_prop frame ''id'') ''Frame.id'' (int MAX_FRAME_ID)) (\<lambda>fid.
     rbind (expectUnsignedInteger (get_prop frame ''index'') ''Frame.index'' (int MAX_FRAME_COUNT)) (\<lambda>index.
     rbind (expectUnsignedInteger (get_prop frame ''count'') ''Frame.count'' (int MAX_FRAME_COUNT)) (\<lambda>cnt.
     rbind (expectByteString (get_prop frame ''bytes'') ''Frame.bytes'') (\<lambda>b.
     normalizeFrame (frame_value \<lparr>df_id = fid, df_index = index, df_count = cnt, df_bytes = b\<rparr>))))))))"

definition frame_requireBytes :: "jsval \<Rightarrow> string \<Rightarrow> protocol_error + bytes" where
  "frame_requireBytes v label = (case v of JBytes b \<Rightarrow> Inr b | _ \<Rightarrow> Inl (JsError (TypeError (label @ '' must be a Uint8Array''))))"

definition frame_slice :: "bytes \<Rightarrow> nat \<Rightarrow> bytes" where
  "frame_slice payload index =
     (let start = index * MAX_FRAME_PAYLOAD_BYTES; stop = min (length payload) ((index + 1) * MAX_FRAME_PAYLOAD_BYTES)
      in take (stop - start) (drop start payload))"

definition frames_needed :: "nat \<Rightarrow> nat" where
  "frames_needed n = (n + MAX_FRAME_PAYLOAD_BYTES - 1) div MAX_FRAME_PAYLOAD_BYTES"

definition splitDataFrames :: "jsval \<Rightarrow> jsval \<Rightarrow> protocol_error + DataFrame list" where
  "splitDataFrames payload fid =
     rbind (frame_requireBytes payload ''Frame payload'') (\<lambda>payload.
     rbind (expectUnsignedInteger fid ''Frame.id'' (int MAX_FRAME_ID)) (\<lambda>normalizedId.
     let cnt = max 1 (frames_needed (length payload)) in
     if cnt > MAX_FRAME_COUNT then Inl (JsError (RangeError ''Frame payload requires more than the maximum chunks''))
     else Inr (map (\<lambda>index. \<lparr>df_id = normalizedId, df_index = index, df_count = cnt, df_bytes = frame_slice payload index\<rparr>)
       [0..<cnt])))"

section \<open>Reassembly\<close>

type_synonym clock = "int option"

datatype FrameRejection = CapacityExceeded | ChunkConflict | CountMismatch | FrameCountExceeded | MessageTooLarge

datatype FrameReassemblyResult =
    FrIncomplete nat nat nat
  | FrDuplicate nat nat nat
  | FrComplete nat bytes
  | FrRejected nat FrameRejection

record PendingFrameGroup =
  grp_id :: nat
  grp_count :: nat
  grp_createdAt :: int
  grp_chunks :: "(nat \<times> bytes) list"
  grp_byteLength :: nat

record FrameReassembler =
  fr_timeoutMs :: nat
  fr_maxMessageBytes :: nat
  fr_maxPendingBytes :: nat
  fr_maxPendingGroups :: nat
  fr_maxFramesPerMessage :: nat
  fr_scheduleExpiryEnabled :: bool
  fr_groups :: "(nat \<times> PendingFrameGroup) list"
  fr_pendingBytes :: int
  fr_expiryTimer :: "int option"

record FrameReassemblerOptions =
  opt_timeoutMs :: jsval
  opt_maxMessageBytes :: jsval
  opt_maxPendingBytes :: jsval
  opt_maxPendingGroups :: jsval
  opt_maxFramesPerMessage :: jsval
  opt_scheduleExpiry :: jsval

definition or_default :: "jsval \<Rightarrow> jsval \<Rightarrow> jsval" where
  "or_default v d = (if v = JUndefined \<or> v = JNull then d else v)"

definition positiveInteger :: "jsval \<Rightarrow> string \<Rightarrow> js_error + nat" where
  "positiveInteger v label =
     (case v of
        JNumber n \<Rightarrow> if \<not> isSafeInteger n \<or> numval n < 1 then Inl (RangeError (label @ '' must be a positive safe integer''))
                     else Inr (nat (numval n))
      | _ \<Rightarrow> Inl (RangeError (label @ '' must be a positive safe integer'')))"

definition newFrameReassembler :: "FrameReassemblerOptions \<Rightarrow> js_error + FrameReassembler" where
  "newFrameReassembler opts =
     rbind (positiveInteger (or_default (opt_timeoutMs opts) (jnat INCOMPLETE_FRAME_TIMEOUT_MS)) ''Frame timeout'') (\<lambda>timeoutMs.
     rbind (positiveInteger (or_default (opt_maxMessageBytes opts) (jnat DEFAULT_MAX_REASSEMBLED_BYTES))
              ''Maximum reassembled message bytes'') (\<lambda>maxMessageBytes.
     rbind (positiveInteger (or_default (opt_maxPendingBytes opts) (jnat DEFAULT_MAX_PENDING_BYTES))
              ''Maximum pending frame bytes'') (\<lambda>maxPendingBytes.
     rbind (positiveInteger (or_default (opt_maxPendingGroups opts) (jnat DEFAULT_MAX_PENDING_GROUPS))
              ''Maximum pending frame groups'') (\<lambda>maxPendingGroups.
     rbind (positiveInteger (or_default (opt_maxFramesPerMessage opts) (jnat (frames_needed maxMessageBytes)))
              ''Maximum frames per message'') (\<lambda>maxFramesPerMessage.
     case or_default (opt_scheduleExpiry opts) (JBool False) of
       JBool enabled \<Rightarrow> Inr \<lparr>fr_timeoutMs = timeoutMs, fr_maxMessageBytes = maxMessageBytes,
         fr_maxPendingBytes = maxPendingBytes, fr_maxPendingGroups = maxPendingGroups,
         fr_maxFramesPerMessage = maxFramesPerMessage, fr_scheduleExpiryEnabled = enabled,
         fr_groups = [], fr_pendingBytes = 0, fr_expiryTimer = None\<rparr>
     | _ \<Rightarrow> Inl (TypeError ''Scheduled frame expiry must be a boolean''))))))"

definition requireTime :: "clock \<Rightarrow> js_error + int" where
  "requireTime now =
     (case now of
        Some t \<Rightarrow> if t < 0 then Inl (RangeError ''Frame clock must return a finite non-negative time'') else Inr t
      | None \<Rightarrow> Inl (RangeError ''Frame clock must return a finite non-negative time''))"

definition expires_at :: "FrameReassembler \<Rightarrow> PendingFrameGroup \<Rightarrow> int" where
  "expires_at fr grp = grp_createdAt grp + int (fr_timeoutMs fr)"

definition nextExpiryAt :: "FrameReassembler \<Rightarrow> int option" where
  "nextExpiryAt fr =
     fold (\<lambda>(fid, grp) next.
       case next of None \<Rightarrow> Some (expires_at fr grp)
       | Some n \<Rightarrow> if expires_at fr grp < n then Some (expires_at fr grp) else next) (fr_groups fr) None"

definition frame_delete :: "nat \<Rightarrow> FrameReassembler \<Rightarrow> FrameReassembler" where
  "frame_delete fid fr =
     (case map_of (fr_groups fr) fid of
        None \<Rightarrow> fr
      | Some grp \<Rightarrow>
          let fr' = fr\<lparr>fr_pendingBytes := fr_pendingBytes fr - int (grp_byteLength grp),
                       fr_groups := AList.delete fid (fr_groups fr)\<rparr> in
          if fr_groups fr' = [] \<and> fr_expiryTimer fr' \<noteq> None then fr'\<lparr>fr_expiryTimer := None\<rparr> else fr')"

text \<open>The loop over the groups: deleting the current entry of a \<open>Map\<close> does not disturb the others.\<close>

fun expire_scan :: "int \<Rightarrow> (nat \<times> PendingFrameGroup) list \<Rightarrow> nat list \<Rightarrow> FrameReassembler \<Rightarrow> FrameReassembler \<times> nat list" where
  "expire_scan now [] expired fr = (fr, expired)"
| "expire_scan now ((fid, grp) # entries) expired fr =
     (if now - grp_createdAt grp \<ge> int (fr_timeoutMs fr)
      then expire_scan now entries (expired @ [fid]) (frame_delete fid fr)
      else expire_scan now entries expired fr)"

definition frame_expire :: "FrameReassembler \<Rightarrow> clock \<Rightarrow> FrameReassembler \<times> (js_error + nat list)" where
  "frame_expire fr now =
     (case requireTime now of
        Inl e \<Rightarrow> (fr, Inl e)
      | Inr t \<Rightarrow> let (fr', expired) = expire_scan t (fr_groups fr) [] fr in (fr', Inr (sort expired)))"

definition frame_clear :: "FrameReassembler \<Rightarrow> FrameReassembler" where
  "frame_clear fr = fr\<lparr>fr_expiryTimer := None, fr_groups := [], fr_pendingBytes := 0\<rparr>"

definition scheduleExpiry :: "FrameReassembler \<Rightarrow> clock \<Rightarrow> FrameReassembler \<times> (js_error + unit)" where
  "scheduleExpiry fr now =
     (if \<not> fr_scheduleExpiryEnabled fr \<or> fr_expiryTimer fr \<noteq> None \<or> length (fr_groups fr) = 0 then (fr, Inr ())
      else case requireTime now of
        Inl e \<Rightarrow> (fr, Inl e)
      | Inr t \<Rightarrow> (fr\<lparr>fr_expiryTimer := map_option (\<lambda>expiryAt. max 0 (expiryAt - t)) (nextExpiryAt fr)\<rparr>, Inr ()))"

text \<open>The callback of the timer, with the readings of the clock in \<open>expire\<close> and in \<open>#scheduleExpiry\<close>.\<close>

definition timer_fires :: "FrameReassembler \<Rightarrow> clock \<Rightarrow> clock \<Rightarrow> FrameReassembler \<times> (js_error + unit)" where
  "timer_fires fr now later =
     (case frame_expire (fr\<lparr>fr_expiryTimer := None\<rparr>) now of
        (fr', Inl e) \<Rightarrow> (fr', Inl e)
      | (fr', Inr _) \<Rightarrow> scheduleExpiry fr' later)"

definition equalBytes :: "bytes \<Rightarrow> bytes \<Rightarrow> bool" where
  "equalBytes left right = (if length left \<noteq> length right then False else list_all (\<lambda>(x, y). x = y) (zip left right))"

text \<open>\<open>payload.set(part, offset)\<close>\<close>

definition bytes_set :: "bytes \<Rightarrow> bytes \<Rightarrow> nat \<Rightarrow> frame_error + bytes" where
  "bytes_set payload part offset =
     (if offset + length part > length payload then Inl (FrameInvalid (JsError (RangeError ''offset is out of bounds'')))
      else Inr (take offset payload @ part @ drop (offset + length part) payload))"

fun gather_chunks :: "(nat \<times> bytes) list \<Rightarrow> nat list \<Rightarrow> nat \<Rightarrow> bytes \<Rightarrow> frame_error + bytes" where
  "gather_chunks chunks [] offset payload = Inr payload"
| "gather_chunks chunks (index # rest) offset payload =
     (case map_of chunks index of
        None \<Rightarrow> Inl (FrameFault ''Complete frame group is missing a chunk'')
      | Some part \<Rightarrow> rbind (bytes_set payload part offset) (\<lambda>payload'.
          gather_chunks chunks rest (offset + length part) payload'))"

definition accept_chunk ::
    "FrameReassembler \<Rightarrow> PendingFrameGroup \<Rightarrow> DataFrame \<Rightarrow> clock \<Rightarrow> FrameReassembler \<times> (frame_error + FrameReassemblyResult)" where
  "accept_chunk fr grp frame later =
     (case map_of (grp_chunks grp) (df_index frame) of
        Some existing \<Rightarrow>
          if \<not> equalBytes existing (df_bytes frame) then (frame_delete (df_id frame) fr, Inr (FrRejected (df_id frame) ChunkConflict))
          else (fr, Inr (FrDuplicate (df_id frame) (length (grp_chunks grp)) (grp_count grp)))
      | None \<Rightarrow>
          if grp_byteLength grp + length (df_bytes frame) > fr_maxMessageBytes fr
          then (frame_delete (df_id frame) fr, Inr (FrRejected (df_id frame) MessageTooLarge))
          else if fr_pendingBytes fr + int (length (df_bytes frame)) > int (fr_maxPendingBytes fr)
          then (if length (grp_chunks grp) = 0 then frame_delete (df_id frame) fr else fr, Inr (FrRejected (df_id frame) CapacityExceeded))
          else let grp' = grp\<lparr>grp_chunks := AList.update (df_index frame) (df_bytes frame) (grp_chunks grp),
                                  grp_byteLength := grp_byteLength grp + length (df_bytes frame)\<rparr>;
                   fr' = fr\<lparr>fr_groups := AList.update (df_id frame) grp' (fr_groups fr),
                            fr_pendingBytes := fr_pendingBytes fr + int (length (df_bytes frame))\<rparr> in
            if length (grp_chunks grp') \<noteq> grp_count grp'
            then (case scheduleExpiry fr' later of
                    (fr'', Inl e) \<Rightarrow> (fr'', Inl (FrameInvalid (JsError e)))
                  | (fr'', Inr _) \<Rightarrow> (fr'', Inr (FrIncomplete (df_id frame) (length (grp_chunks grp')) (grp_count grp'))))
            else case gather_chunks (grp_chunks grp') [0..<grp_count grp'] 0 (replicate (grp_byteLength grp') 0) of
                   Inl e \<Rightarrow> (fr', Inl e)
                 | Inr payload \<Rightarrow> (frame_delete (df_id frame) fr', Inr (FrComplete (df_id frame) payload)))"

definition accept_frame ::
    "FrameReassembler \<Rightarrow> DataFrame \<Rightarrow> int \<Rightarrow> clock \<Rightarrow> FrameReassembler \<times> (frame_error + FrameReassemblyResult)" where
  "accept_frame fr frame now later =
     (if df_count frame > fr_maxFramesPerMessage fr
      then (frame_delete (df_id frame) fr, Inr (FrRejected (df_id frame) FrameCountExceeded))
      else case map_of (fr_groups fr) (df_id frame) of
        None \<Rightarrow>
          if length (fr_groups fr) \<ge> fr_maxPendingGroups fr then (fr, Inr (FrRejected (df_id frame) CapacityExceeded))
          else let grp = \<lparr>grp_id = df_id frame, grp_count = df_count frame, grp_createdAt = now, grp_chunks = [], grp_byteLength = 0\<rparr>
               in accept_chunk (fr\<lparr>fr_groups := AList.update (df_id frame) grp (fr_groups fr)\<rparr>) grp frame later
      | Some grp \<Rightarrow>
          if grp_count grp \<noteq> df_count frame
          then (frame_delete (df_id frame) fr, Inr (FrRejected (df_id frame) CountMismatch))
          else accept_chunk fr grp frame later)"

definition frame_accept ::
    "FrameReassembler \<Rightarrow> jsval \<Rightarrow> clock \<Rightarrow> clock \<Rightarrow> FrameReassembler \<times> (frame_error + FrameReassemblyResult)" where
  "frame_accept fr candidate now later =
     (case normalizeFrame candidate of
        Inl e \<Rightarrow> (fr, Inl (FrameInvalid e))
      | Inr frame \<Rightarrow>
          (case requireTime now of
             Inl e \<Rightarrow> (fr, Inl (FrameInvalid (JsError e)))
           | Inr t \<Rightarrow> accept_frame (fst (frame_expire fr (Some t))) frame t later))"

definition acceptEncoded ::
    "prims \<Rightarrow> FrameReassembler \<Rightarrow> bytes \<Rightarrow> clock \<Rightarrow> clock \<Rightarrow> FrameReassembler \<times> (frame_error + FrameReassemblyResult)" where
  "acceptEncoded pr fr encoded now later =
     (case decodeDataFrame pr encoded of
        Inl e \<Rightarrow> (fr, Inl (FrameInvalid e))
      | Inr frame \<Rightarrow> frame_accept fr (frame_value frame) now later)"

end
