(* ===== verification/Frame_Inv.thy ===== *)
theory Frame_Inv
  imports Frame_Transport
begin

text \<open>
  The invariant of a reassembler and its preservation by every operation: pending bytes are
  the bytes of the stored chunks, every group is incomplete, non-empty and within the limits, and
  a timer is armed only while groups are pending. A complete group has all its chunks,
  so that collecting them cannot fail.
\<close>

section \<open>Totals over insertion-ordered maps\<close>

definition alist_total :: "('v \<Rightarrow> nat) \<Rightarrow> ('k \<times> 'v) list \<Rightarrow> nat" where
  "alist_total f m = sum_list (map (\<lambda>p. f (snd p)) m)"

lemma alist_total_simps [simp]:
  "alist_total f [] = 0" "alist_total f (p # m) = f (snd p) + alist_total f m"
  by (simp_all add: alist_total_def)

lemma alist_total_update:
  "distinct (map fst m) \<Longrightarrow>
     alist_total f (AList.update k v m) + (case map_of m k of None \<Rightarrow> 0 | Some w \<Rightarrow> f w) = alist_total f m + f v"
  by (induction m) (auto split: option.splits)

lemma alist_delete_absent: "map_of m k = None \<Longrightarrow> AList.delete k m = m"
  by (simp add: delete_idem map_of_eq_None_iff)

lemma alist_total_delete:
  "distinct (map fst m) \<Longrightarrow>
     alist_total f (AList.delete k m) + (case map_of m k of None \<Rightarrow> 0 | Some w \<Rightarrow> f w) = alist_total f m"
proof (induction m)
  case (Cons p m)
  obtain a b where p: "p = (a, b)" by force
  show ?case
  proof (cases "a = k")
    case True
    then have "AList.delete k m = m" using Cons.prems by (auto simp: p map_of_eq_None_iff intro: alist_delete_absent)
    with True show ?thesis by (simp add: p)
  qed (use Cons in \<open>auto simp: p\<close>)
qed simp

lemma length_delete_le: "length (AList.delete k m) \<le> length m"
  by (rule AList.length_delete_le)

lemma set_update_cases: "(k', v') \<in> set (AList.update k v m) \<Longrightarrow> k' = k \<and> v' = v \<or> (k', v') \<in> set m"
  by (induction m) (auto split: if_splits)

lemma set_delete_cases: "(k', v') \<in> set (AList.delete k m) \<Longrightarrow> k' \<noteq> k \<and> (k', v') \<in> set m"
  by (auto simp: AList.delete_eq)

lemma update_distinct_other:
  "distinct (map fst m) \<Longrightarrow> (k', v') \<in> set (AList.update k v m) \<Longrightarrow> k' = k \<and> v' = v \<or> k' \<noteq> k \<and> (k', v') \<in> set m"
  by (induction m) (force split: if_splits)+

section \<open>The invariant\<close>

definition group_ok :: "FrameReassembler \<Rightarrow> nat \<Rightarrow> PendingFrameGroup \<Rightarrow> bool" where
  "group_ok fr fid g \<longleftrightarrow> grp_id g = fid \<and> grp_count g \<le> fr_maxFramesPerMessage fr \<and>
     distinct (map fst (grp_chunks g)) \<and> set (map fst (grp_chunks g)) \<subseteq> {..<grp_count g} \<and>
     length (grp_chunks g) < grp_count g \<and> grp_byteLength g = alist_total length (grp_chunks g) \<and>
     grp_byteLength g \<le> fr_maxMessageBytes fr"

text \<open>The groups of \<open>E\<close> may be empty: \<open>accept\<close> files a new group before its first chunk.\<close>

definition reassembler_ok :: "nat set \<Rightarrow> FrameReassembler \<Rightarrow> bool" where
  "reassembler_ok E fr \<longleftrightarrow> distinct (map fst (fr_groups fr)) \<and>
     (\<forall>(fid, g) \<in> set (fr_groups fr). group_ok fr fid g \<and> (fid \<in> E \<or> grp_chunks g \<noteq> [])) \<and>
     fr_pendingBytes fr = int (alist_total grp_byteLength (fr_groups fr)) \<and>
     fr_pendingBytes fr \<le> int (fr_maxPendingBytes fr) \<and> length (fr_groups fr) \<le> fr_maxPendingGroups fr \<and>
     (fr_expiryTimer fr \<noteq> None \<longrightarrow> fr_scheduleExpiryEnabled fr \<and> fr_groups fr \<noteq> [])"

abbreviation reassembler_inv :: "FrameReassembler \<Rightarrow> bool" where
  "reassembler_inv \<equiv> reassembler_ok {}"

lemma frame_delete_limits [simp]:
  "fr_timeoutMs (frame_delete fid fr) = fr_timeoutMs fr"
  "fr_maxMessageBytes (frame_delete fid fr) = fr_maxMessageBytes fr"
  "fr_maxPendingBytes (frame_delete fid fr) = fr_maxPendingBytes fr"
  "fr_maxPendingGroups (frame_delete fid fr) = fr_maxPendingGroups fr"
  "fr_maxFramesPerMessage (frame_delete fid fr) = fr_maxFramesPerMessage fr"
  "fr_scheduleExpiryEnabled (frame_delete fid fr) = fr_scheduleExpiryEnabled fr"
  by (simp_all add: frame_delete_def Let_def split: option.splits)

lemma frame_delete_groups [simp]: "fr_groups (frame_delete fid fr) = AList.delete fid (fr_groups fr)"
  by (simp add: frame_delete_def Let_def alist_delete_absent split: option.splits)

lemma frame_delete_pending:
  "fr_pendingBytes (frame_delete fid fr) =
     fr_pendingBytes fr - (case map_of (fr_groups fr) fid of None \<Rightarrow> 0 | Some g \<Rightarrow> int (grp_byteLength g))"
  by (simp add: frame_delete_def Let_def split: option.splits)

lemma frame_delete_timer:
  "fr_expiryTimer (frame_delete fid fr) =
     (if map_of (fr_groups fr) fid \<noteq> None \<and> AList.delete fid (fr_groups fr) = [] then None else fr_expiryTimer fr)"
  by (auto simp: frame_delete_def Let_def split: option.splits)

lemma group_ok_cong:
  "fr_maxFramesPerMessage fr' = fr_maxFramesPerMessage fr \<Longrightarrow> fr_maxMessageBytes fr' = fr_maxMessageBytes fr \<Longrightarrow>
     group_ok fr' fid g = group_ok fr fid g"
  by (simp add: group_ok_def)

lemma group_ok_delete [simp]: "group_ok (frame_delete k fr) fid g = group_ok fr fid g"
  by (rule group_ok_cong) simp_all

lemma reassembler_group:
  "reassembler_ok E fr \<Longrightarrow> map_of (fr_groups fr) fid = Some g \<Longrightarrow> group_ok fr fid g \<and> (fid \<in> E \<or> grp_chunks g \<noteq> [])"
  by (auto simp: reassembler_ok_def dest!: map_of_SomeD)

lemma frame_delete_ok:
  assumes "reassembler_ok E fr"
  shows "reassembler_ok (E - {fid}) (frame_delete fid fr)"
proof -
  have total: "alist_total grp_byteLength (AList.delete fid (fr_groups fr)) +
      (case map_of (fr_groups fr) fid of None \<Rightarrow> 0 | Some w \<Rightarrow> grp_byteLength w) = alist_total grp_byteLength (fr_groups fr)"
    using assms by (intro alist_total_delete) (simp add: reassembler_ok_def)
  have pend: "fr_pendingBytes (frame_delete fid fr) = int (alist_total grp_byteLength (AList.delete fid (fr_groups fr)))"
    using assms total unfolding frame_delete_pending
    by (cases "map_of (fr_groups fr) fid") (simp_all add: reassembler_ok_def)
  show ?thesis
    unfolding reassembler_ok_def
  proof (intro conjI)
    show "distinct (map fst (fr_groups (frame_delete fid fr)))"
      using assms by (simp add: reassembler_ok_def distinct_keys_delete)
    show "\<forall>(k, g) \<in> set (fr_groups (frame_delete fid fr)). group_ok (frame_delete fid fr) k g \<and> (k \<in> E - {fid} \<or> grp_chunks g \<noteq> [])"
      using assms by (auto simp: reassembler_ok_def dest: set_delete_cases)
    show "fr_pendingBytes (frame_delete fid fr) \<le> int (fr_maxPendingBytes (frame_delete fid fr))"
      using assms total unfolding pend by (auto simp: reassembler_ok_def)
    show "length (fr_groups (frame_delete fid fr)) \<le> fr_maxPendingGroups (frame_delete fid fr)"
      using assms le_trans [OF length_delete_le] by (auto simp: reassembler_ok_def)
    show "fr_expiryTimer (frame_delete fid fr) \<noteq> None \<longrightarrow>
        fr_scheduleExpiryEnabled (frame_delete fid fr) \<and> fr_groups (frame_delete fid fr) \<noteq> []"
      using assms alist_delete_absent [of "fr_groups fr" fid] unfolding frame_delete_timer
      by (cases "map_of (fr_groups fr) fid") (simp_all add: reassembler_ok_def)
  qed (simp add: pend)
qed

lemma frame_delete_inv: "reassembler_ok E fr \<Longrightarrow> E \<subseteq> {fid} \<Longrightarrow> reassembler_inv (frame_delete fid fr)"
  using frame_delete_ok [of E fr fid] by (simp only: Diff_eq_empty_iff [THEN iffD2])

section \<open>Expiry and the timer\<close>

definition same_limits :: "FrameReassembler \<Rightarrow> FrameReassembler \<Rightarrow> bool" where
  "same_limits fr fr' \<longleftrightarrow> fr_timeoutMs fr' = fr_timeoutMs fr \<and> fr_maxMessageBytes fr' = fr_maxMessageBytes fr \<and>
     fr_maxPendingBytes fr' = fr_maxPendingBytes fr \<and> fr_maxPendingGroups fr' = fr_maxPendingGroups fr \<and>
     fr_maxFramesPerMessage fr' = fr_maxFramesPerMessage fr \<and> fr_scheduleExpiryEnabled fr' = fr_scheduleExpiryEnabled fr"

lemma same_limits_delete [simp]: "same_limits fr (frame_delete fid fr') = same_limits fr fr'"
  by (simp add: same_limits_def)

definition expired_at :: "FrameReassembler \<Rightarrow> int \<Rightarrow> PendingFrameGroup \<Rightarrow> bool" where
  "expired_at fr now g \<longleftrightarrow> now - grp_createdAt g \<ge> int (fr_timeoutMs fr)"

lemma expire_scan_groups:
  assumes "reassembler_inv fr" "same_limits fr0 fr"
  shows "let (fr', ids) = expire_scan now entries acc fr in
     reassembler_inv fr' \<and> same_limits fr0 fr' \<and> fr_pendingBytes fr' \<le> fr_pendingBytes fr \<and>
     fr_groups fr' = fold AList.delete (map fst (filter (\<lambda>e. expired_at fr0 now (snd e)) entries)) (fr_groups fr) \<and>
     ids = acc @ map fst (filter (\<lambda>e. expired_at fr0 now (snd e)) entries)"
  using assms
proof (induction entries arbitrary: acc fr)
  case Nil
  then show ?case by simp
next
  case (Cons e entries)
  obtain fid g where e: "e = (fid, g)" by force
  show ?case
  proof (cases "expired_at fr0 now g")
    case True
    have "fr_pendingBytes (frame_delete fid fr) \<le> fr_pendingBytes fr"
      by (simp add: frame_delete_pending split: option.splits)
    then show ?thesis
      using Cons.IH [of "frame_delete fid fr" "acc @ [fid]"] Cons.prems True frame_delete_inv [OF Cons.prems(1), of fid]
      by (auto simp: e expired_at_def same_limits_def Let_def split: prod.splits)
  next
    case False
    then show ?thesis using Cons.IH [of fr acc] Cons.prems by (auto simp: e expired_at_def same_limits_def)
  qed
qed

lemma fold_alist_delete: "fold AList.delete ks m = filter (\<lambda>p. fst p \<notin> set ks) m"
  by (induction ks arbitrary: m) (auto simp: AList.delete_eq case_prod_beta intro: filter_cong)

lemma filter_expired:
  "distinct (map fst m) \<Longrightarrow> fold AList.delete (map fst (filter (\<lambda>e. P (snd e)) m)) m = filter (\<lambda>e. \<not> P (snd e)) m"
  unfolding fold_alist_delete
  by (rule filter_cong) (auto simp: image_iff, metis eq_key_imp_eq_value prod.collapse)

lemma frame_expire_ok:
  assumes "reassembler_inv fr" "requireTime now = Inr t"
  obtains fr' ids where "frame_expire fr now = (fr', Inr ids)" "reassembler_inv fr'" "same_limits fr fr'"
    "fr_pendingBytes fr' \<le> fr_pendingBytes fr" "fr_groups fr' = filter (\<lambda>e. \<not> expired_at fr t (snd e)) (fr_groups fr)"
    "ids = sort (map fst (filter (\<lambda>e. expired_at fr t (snd e)) (fr_groups fr)))"
proof -
  obtain fr' ids where s: "expire_scan t (fr_groups fr) [] fr = (fr', ids)" by force
  have "distinct (map fst (fr_groups fr))" using assms(1) by (simp add: reassembler_ok_def)
  from filter_expired [OF this, of "expired_at fr t"]
    expire_scan_groups [of fr fr t "fr_groups fr" "[]"] assms(1) s
  show ?thesis
    by (intro that [of fr' "sort ids"]) (auto simp: frame_expire_def assms(2) same_limits_def)
qed

lemma fold_some: "(\<And>x y. \<exists>z. f x (Some y) = Some z) \<Longrightarrow> \<exists>z. fold f xs (Some y) = Some z"
  by (induction xs arbitrary: y) (simp, metis fold_simps(2))

lemma nextExpiryAt_Some: "fr_groups fr \<noteq> [] \<Longrightarrow> \<exists>t. nextExpiryAt fr = Some t"
  by (cases "fr_groups fr") (auto simp: nextExpiryAt_def split: prod.splits intro!: fold_some)

lemma scheduleExpiry_ok:
  assumes "reassembler_ok E fr"
  shows "reassembler_ok E (fst (scheduleExpiry fr now)) \<and> same_limits fr (fst (scheduleExpiry fr now)) \<and>
     fr_groups (fst (scheduleExpiry fr now)) = fr_groups fr \<and> fr_pendingBytes (fst (scheduleExpiry fr now)) = fr_pendingBytes fr"
  using assms group_ok_cong
  by (auto simp: scheduleExpiry_def same_limits_def reassembler_ok_def group_ok_def split: sum.splits)

text \<open>The timer is armed whenever groups are pending, unless the clock failed.\<close>

definition armed :: "FrameReassembler \<Rightarrow> bool" where
  "armed fr \<longleftrightarrow> (fr_scheduleExpiryEnabled fr \<and> fr_groups fr \<noteq> [] \<longrightarrow> fr_expiryTimer fr \<noteq> None)"

lemma scheduleExpiry_arms: "requireTime now = Inr t \<Longrightarrow> armed (fst (scheduleExpiry fr now))"
  using nextExpiryAt_Some [of fr] by (auto simp: scheduleExpiry_def armed_def)

lemma frame_delete_armed: "armed fr \<Longrightarrow> armed (frame_delete fid fr)"
  by (auto simp: armed_def frame_delete_timer)

lemma expire_scan_armed: "armed fr \<Longrightarrow> armed (fst (expire_scan now entries acc fr))"
  by (induction now entries acc fr rule: expire_scan.induct) (simp_all add: frame_delete_armed)

lemma frame_expire_armed: "armed fr \<Longrightarrow> armed (fst (frame_expire fr now))"
  using expire_scan_armed [of fr _ "fr_groups fr" "[]"]
  by (auto simp: frame_expire_def case_prod_beta Let_def split: sum.splits)

end
