(* ===== verification/Frame_Steps.thy ===== *)
theory Frame_Steps
  imports Frame_Inv
begin

text \<open>
  Accepting a frame keeps the invariant of the reassembler, throws only for a bad frame or a bad
  clock, and files the chunk in the group of its message.
\<close>

section \<open>Complete groups\<close>

lemma sum_list_same_mset: "mset xs = mset ys \<Longrightarrow> sum_list (map h xs) = (sum_list (map h ys) :: nat)"
  by (metis mset_map sum_mset_sum_list)

lemma complete_keys:
  assumes "distinct (map fst cs)" "set (map fst cs) \<subseteq> {..<n}" "length cs = n"
  shows "set (map fst cs) = {..<n}"
  using assms by (intro card_subset_eq) (auto simp: distinct_card simp del: set_map)

lemma complete_chunks:
  assumes "distinct (map fst cs)" "set (map fst cs) \<subseteq> {..<n}" "length cs = n"
  shows "i < n \<Longrightarrow> \<exists>c. map_of cs i = Some c"
    and "alist_total f cs = sum_list (map (\<lambda>i. f (the (map_of cs i))) [0..<n])"
proof -
  note keys = complete_keys [OF assms]
  show "i < n \<Longrightarrow> \<exists>c. map_of cs i = Some c"
    using keys by (metis lessThan_iff map_of_eq_None_iff not_None_eq set_map)
  have "mset (map fst cs) = mset [0..<n]"
    using keys assms(1) by (intro set_eq_iff_mset_eq_distinct [THEN iffD1]) (auto simp: lessThan_atLeast0 simp del: set_map)
  then have "sum_list (map (\<lambda>i. f (the (map_of cs i))) (map fst cs)) = sum_list (map (\<lambda>i. f (the (map_of cs i))) [0..<n])"
    by (rule sum_list_same_mset)
  moreover have "map (\<lambda>i. f (the (map_of cs i))) (map fst cs) = map (\<lambda>p. f (snd p)) cs"
    using assms(1) by (auto simp: map_of_eq_Some_iff [THEN iffD2])
  ultimately show "alist_total f cs = sum_list (map (\<lambda>i. f (the (map_of cs i))) [0..<n])"
    by (simp only: alist_total_def)
qed

lemma gather_chunks_concat:
  assumes "\<forall>i \<in> set is. map_of cs i = Some (part i)" "off + sum_list (map (\<lambda>i. length (part i)) is) \<le> length payload"
  shows "gather_chunks cs is off payload =
    Inr (take off payload @ concat (map part is) @ drop (off + sum_list (map (\<lambda>i. length (part i)) is)) payload)"
  using assms
proof (induction "is" arbitrary: off payload)
  case Nil
  then show ?case by simp
next
  case (Cons i "is")
  let ?p = "take off payload @ part i @ drop (off + length (part i)) payload"
  have "off + length (part i) + sum_list (map (\<lambda>i. length (part i)) is) \<le> length ?p"
    using Cons.prems(2) by simp
  from Cons.IH [OF _ this] Cons.prems show ?case
    by (simp add: bytes_set_def add.assoc add.commute)
qed

lemma gather_complete:
  assumes "distinct (map fst cs)" "set (map fst cs) \<subseteq> {..<n}" "length cs = n" "len = alist_total length cs"
  shows "gather_chunks cs [0..<n] 0 (replicate len 0) = Inr (concat (map (\<lambda>i. the (map_of cs i)) [0..<n]))"
proof -
  have "\<forall>i \<in> set [0..<n]. map_of cs i = Some (the (map_of cs i))"
    using complete_chunks(1) [OF assms(1-3)] by force
  then show ?thesis
    using complete_chunks(2) [OF assms(1-3), of length] assms(4) by (subst gather_chunks_concat) auto
qed

section \<open>Filing a chunk\<close>

definition file_chunk :: "PendingFrameGroup \<Rightarrow> DataFrame \<Rightarrow> PendingFrameGroup" where
  "file_chunk g f = g\<lparr>grp_chunks := AList.update (df_index f) (df_bytes f) (grp_chunks g),
     grp_byteLength := grp_byteLength g + length (df_bytes f)\<rparr>"

lemma file_chunk_sel [simp]:
  "grp_id (file_chunk g f) = grp_id g" "grp_count (file_chunk g f) = grp_count g"
  "grp_createdAt (file_chunk g f) = grp_createdAt g"
  "grp_chunks (file_chunk g f) = AList.update (df_index f) (df_bytes f) (grp_chunks g)"
  "grp_byteLength (file_chunk g f) = grp_byteLength g + length (df_bytes f)"
  by (simp_all add: file_chunk_def)

text \<open>The group of the frame after filing it, before it is known whether it is complete.\<close>

lemma filed_chunks:
  assumes "group_ok fr fid g" "map_of (grp_chunks g) (df_index f) = None" "df_index f < grp_count g"
  shows "distinct (map fst (grp_chunks (file_chunk g f)))" "set (map fst (grp_chunks (file_chunk g f))) \<subseteq> {..<grp_count g}"
    and "length (grp_chunks (file_chunk g f)) = Suc (length (grp_chunks g))"
    and "grp_byteLength (file_chunk g f) = alist_total length (grp_chunks (file_chunk g f))"
    and "length (grp_chunks (file_chunk g f)) \<le> grp_count g"
  using assms alist_total_update [of "grp_chunks g" length "df_index f" "df_bytes f"]
  by (simp_all add: group_ok_def distinct_keys_update length_update_new dom_update)

definition filed :: "FrameReassembler \<Rightarrow> PendingFrameGroup \<Rightarrow> DataFrame \<Rightarrow> FrameReassembler" where
  "filed fr g f = fr\<lparr>fr_groups := AList.update (df_id f) (file_chunk g f) (fr_groups fr),
     fr_pendingBytes := fr_pendingBytes fr + int (length (df_bytes f))\<rparr>"

lemma filed_sel [simp]:
  "fr_timeoutMs (filed fr g f) = fr_timeoutMs fr" "fr_maxMessageBytes (filed fr g f) = fr_maxMessageBytes fr"
  "fr_maxPendingBytes (filed fr g f) = fr_maxPendingBytes fr" "fr_maxPendingGroups (filed fr g f) = fr_maxPendingGroups fr"
  "fr_maxFramesPerMessage (filed fr g f) = fr_maxFramesPerMessage fr"
  "fr_scheduleExpiryEnabled (filed fr g f) = fr_scheduleExpiryEnabled fr"
  "fr_groups (filed fr g f) = AList.update (df_id f) (file_chunk g f) (fr_groups fr)"
  "fr_pendingBytes (filed fr g f) = fr_pendingBytes fr + int (length (df_bytes f))"
  "fr_expiryTimer (filed fr g f) = fr_expiryTimer fr"
  by (simp_all add: filed_def)

lemma accept_chunk_alt:
  "accept_chunk fr g f later =
     (case map_of (grp_chunks g) (df_index f) of
        Some existing \<Rightarrow>
          if existing \<noteq> df_bytes f then (frame_delete (df_id f) fr, Inr (FrRejected (df_id f) ChunkConflict))
          else (fr, Inr (FrDuplicate (df_id f) (length (grp_chunks g)) (grp_count g)))
      | None \<Rightarrow>
          if grp_byteLength g + length (df_bytes f) > fr_maxMessageBytes fr
          then (frame_delete (df_id f) fr, Inr (FrRejected (df_id f) MessageTooLarge))
          else if fr_pendingBytes fr + int (length (df_bytes f)) > int (fr_maxPendingBytes fr)
          then (if grp_chunks g = [] then frame_delete (df_id f) fr else fr, Inr (FrRejected (df_id f) CapacityExceeded))
          else if length (grp_chunks (file_chunk g f)) \<noteq> grp_count g
          then (case scheduleExpiry (filed fr g f) later of
                  (fr'', Inl e) \<Rightarrow> (fr'', Inl (FrameInvalid (JsError e)))
                | (fr'', Inr _) \<Rightarrow> (fr'', Inr (FrIncomplete (df_id f) (length (grp_chunks (file_chunk g f))) (grp_count g))))
          else case gather_chunks (grp_chunks (file_chunk g f)) [0..<grp_count g] 0 (replicate (grp_byteLength (file_chunk g f)) 0) of
                 Inl e \<Rightarrow> (filed fr g f, Inl e)
               | Inr payload \<Rightarrow> (frame_delete (df_id f) (filed fr g f), Inr (FrComplete (df_id f) payload)))"
proof -
  have eq: "equalBytes x y \<longleftrightarrow> x = y" for x y
    by (auto simp: equalBytes_def list_all_length list_eq_iff_nth_eq)
  show ?thesis
    unfolding accept_chunk_def Let_def filed_def file_chunk_def eq
    by (simp cong del: option.case_cong_weak sum.case_cong_weak)
qed

lemma delete_update_same: "AList.delete k (AList.update k v m) = AList.delete k m"
  by (induction m) auto

lemma frame_delete_filed:
  "map_of (fr_groups fr) (df_id f) = Some g \<Longrightarrow> frame_delete (df_id f) (filed fr g f) = frame_delete (df_id f) fr"
  by (simp add: frame_delete_def filed_def Let_def delete_update_same)

lemma filed_ok:
  assumes ok: "reassembler_ok {df_id f} fr" and g: "map_of (fr_groups fr) (df_id f) = Some g"
    and new: "map_of (grp_chunks g) (df_index f) = None" and ix: "df_index f < grp_count g"
    and size: "grp_byteLength g + length (df_bytes f) \<le> fr_maxMessageBytes fr"
    and pending: "fr_pendingBytes fr + int (length (df_bytes f)) \<le> int (fr_maxPendingBytes fr)"
  shows "length (grp_chunks (file_chunk g f)) \<noteq> grp_count g \<Longrightarrow> reassembler_inv (filed fr g f)"
    and "reassembler_inv (frame_delete (df_id f) (filed fr g f))"
proof -
  have gok: "group_ok fr (df_id f) g" using reassembler_group [OF ok g] by simp
  note fc = filed_chunks [OF gok new ix]
  have d: "distinct (map fst (fr_groups fr))" using ok by (simp add: reassembler_ok_def)
  have total: "alist_total grp_byteLength (AList.update (df_id f) (file_chunk g f) (fr_groups fr)) =
      alist_total grp_byteLength (fr_groups fr) + length (df_bytes f)"
    using alist_total_update [OF d, of grp_byteLength "df_id f" "file_chunk g f"] g by simp
  have len: "length (AList.update (df_id f) (file_chunk g f) (fr_groups fr)) = length (fr_groups fr)"
    using g by (simp add: length_update_old)
  show "reassembler_inv (filed fr g f)" if "length (grp_chunks (file_chunk g f)) \<noteq> grp_count g"
  proof -
    have "group_ok (filed fr g f) (df_id f) (file_chunk g f)"
      using gok fc that size by (simp add: group_ok_def del: file_chunk_sel(4))
    moreover have "grp_chunks (file_chunk g f) \<noteq> []" using fc(3) by auto
    ultimately have "group_ok (filed fr g f) k h \<and> grp_chunks h \<noteq> []"
      if "(k, h) \<in> set (AList.update (df_id f) (file_chunk g f) (fr_groups fr))" for k h
      using update_distinct_other [OF d that] ok
      by (auto simp: reassembler_ok_def group_ok_cong [of "filed fr g f" fr])
    then show ?thesis
      using ok d total len pending by (auto simp: reassembler_ok_def distinct_keys_update)
  qed
  have "frame_delete (df_id f) (filed fr g f) = frame_delete (df_id f) fr" by (rule frame_delete_filed [OF g])
  then show "reassembler_inv (frame_delete (df_id f) (filed fr g f))"
    using frame_delete_inv [OF ok] by simp
qed

lemma accept_chunk_gather:
  assumes "reassembler_ok {df_id f} fr" "map_of (fr_groups fr) (df_id f) = Some g" "df_index f < grp_count g"
    and "map_of (grp_chunks g) (df_index f) = None" "length (grp_chunks (file_chunk g f)) = grp_count g"
  shows "gather_chunks (grp_chunks (file_chunk g f)) [0..<grp_count g] 0 (replicate (grp_byteLength (file_chunk g f)) 0) =
      Inr (concat (map (\<lambda>i. the (map_of (grp_chunks (file_chunk g f)) i)) [0..<grp_count g]))"
  using reassembler_group [OF assms(1,2)] filed_chunks [of fr "df_id f" g f] assms(3-5) by (intro gather_complete) auto

lemma reassembler_nonempty:
  assumes "reassembler_ok {fid} fr" "map_of (fr_groups fr) fid = Some g" "grp_chunks g \<noteq> []"
  shows "reassembler_inv fr"
proof -
  have "grp_chunks h \<noteq> []" if "(k, h) \<in> set (fr_groups fr)" for k h
  proof (cases "k = fid")
    case True
    then have "map_of (fr_groups fr) fid = Some h" using that assms(1) by (simp add: reassembler_ok_def)
    then show ?thesis using assms(2,3) by simp
  qed (use that assms(1) in \<open>auto simp: reassembler_ok_def\<close>)
  then show ?thesis using assms(1) by (auto simp: reassembler_ok_def)
qed

lemma accept_chunk_inv:
  assumes ok: "reassembler_ok {df_id f} fr" and g: "map_of (fr_groups fr) (df_id f) = Some g" and ix: "df_index f < grp_count g"
  shows "reassembler_inv (fst (accept_chunk fr g f later))"
    and "snd (accept_chunk fr g f later) = Inl e \<Longrightarrow> \<exists>c. requireTime later = Inl c \<and> e = FrameInvalid (JsError c)"
proof -
  have whole: "reassembler_inv fr" if "grp_chunks g \<noteq> []" by (rule reassembler_nonempty [OF ok g that])
  have del: "reassembler_inv (frame_delete (df_id f) fr)" using frame_delete_inv [OF ok] by simp
  note gather = accept_chunk_gather [OF ok g ix]
  note filed = filed_ok [OF ok g _ ix]
  show "reassembler_inv (fst (accept_chunk fr g f later))"
    using del whole filed gather scheduleExpiry_ok [of "{}" "filed fr g f" later]
    unfolding accept_chunk_alt
    by (auto simp del: file_chunk_sel filed_sel split: option.splits prod.splits sum.splits)
  show "\<exists>c. requireTime later = Inl c \<and> e = FrameInvalid (JsError c)" if "snd (accept_chunk fr g f later) = Inl e"
    using that gather unfolding accept_chunk_alt
    by (auto simp del: file_chunk_sel filed_sel simp: scheduleExpiry_def split: option.splits prod.splits sum.splits if_splits)
qed

lemma accept_chunk_armed:
  assumes "reassembler_ok {df_id f} fr" "map_of (fr_groups fr) (df_id f) = Some g" "df_index f < grp_count g"
    and "armed (frame_delete (df_id f) fr)" "grp_chunks g \<noteq> [] \<Longrightarrow> armed fr" "requireTime later = Inr t"
  shows "armed (fst (accept_chunk fr g f later))"
proof -
  have "grp_chunks g \<noteq> []" if "map_of (grp_chunks g) (df_index f) = Some c" for c using that by auto
  then show ?thesis
    using accept_chunk_gather [OF assms(1-3)] assms(4-6) frame_delete_filed [OF assms(2)]
      scheduleExpiry_arms [OF assms(6), of "filed fr g f"]
    unfolding accept_chunk_alt
    by (auto simp del: file_chunk_sel filed_sel split: option.splits prod.splits sum.splits)
qed

section \<open>Accepting a frame\<close>

definition frame_ok :: "DataFrame \<Rightarrow> bool" where
  "frame_ok f \<longleftrightarrow> df_id f \<le> MAX_FRAME_ID \<and> df_count f \<le> MAX_FRAME_COUNT \<and> df_index f < df_count f \<and>
     length (df_bytes f) \<le> MAX_FRAME_PAYLOAD_BYTES \<and> (df_count f > 1 \<longrightarrow> df_bytes f \<noteq> [])"

lemma normalizeFrame_ok: "normalizeFrame v = Inr f \<Longrightarrow> frame_ok f"
  by (auto simp: normalizeFrame_def frame_ok_def result_simps expectUnsignedInteger_def expectByteString_def
      split: option.splits if_splits jsval.splits)

definition open_group :: "FrameReassembler \<Rightarrow> DataFrame \<Rightarrow> int \<Rightarrow> PendingFrameGroup" where
  "open_group fr f now = (case map_of (fr_groups fr) (df_id f) of Some g \<Rightarrow> g
     | None \<Rightarrow> \<lparr>grp_id = df_id f, grp_count = df_count f, grp_createdAt = now, grp_chunks = [], grp_byteLength = 0\<rparr>)"

definition opened :: "FrameReassembler \<Rightarrow> DataFrame \<Rightarrow> int \<Rightarrow> FrameReassembler" where
  "opened fr f now = (case map_of (fr_groups fr) (df_id f) of Some g \<Rightarrow> fr
     | None \<Rightarrow> fr\<lparr>fr_groups := AList.update (df_id f) (open_group fr f now) (fr_groups fr)\<rparr>)"

lemma accept_frame_cases:
  obtains (excess) "df_count f > fr_maxFramesPerMessage fr"
      "accept_frame fr f now later = (frame_delete (df_id f) fr, Inr (FrRejected (df_id f) FrameCountExceeded))"
  | (full) "map_of (fr_groups fr) (df_id f) = None" "length (fr_groups fr) \<ge> fr_maxPendingGroups fr"
      "accept_frame fr f now later = (fr, Inr (FrRejected (df_id f) CapacityExceeded))"
  | (mismatch) "accept_frame fr f now later = (frame_delete (df_id f) fr, Inr (FrRejected (df_id f) CountMismatch))"
  | (chunk) "df_count f \<le> fr_maxFramesPerMessage fr" "grp_count (open_group fr f now) = df_count f"
      "map_of (fr_groups fr) (df_id f) = None \<longrightarrow> length (fr_groups fr) < fr_maxPendingGroups fr"
      "accept_frame fr f now later = accept_chunk (opened fr f now) (open_group fr f now) f later"
proof -
  consider "df_count f > fr_maxFramesPerMessage fr"
    | "df_count f \<le> fr_maxFramesPerMessage fr" "map_of (fr_groups fr) (df_id f) = None"
    | g where "df_count f \<le> fr_maxFramesPerMessage fr" "map_of (fr_groups fr) (df_id f) = Some g"
    by (cases "map_of (fr_groups fr) (df_id f)") fastforce+
  then show thesis
  proof cases
    case 1
    then show thesis by (intro excess) (simp_all add: accept_frame_def)
  next
    case 2
    then show thesis
    proof (cases "length (fr_groups fr) < fr_maxPendingGroups fr")
      case True
      with 2 show thesis by (intro chunk) (simp_all add: accept_frame_def Let_def open_group_def opened_def)
    next
      case False
      with 2 show thesis by (intro full) (simp_all add: accept_frame_def)
    qed
  next
    case 3
    then show thesis
    proof (cases "grp_count g = df_count f")
      case True
      with 3 show thesis by (intro chunk) (simp_all add: accept_frame_def open_group_def opened_def)
    next
      case False
      with 3 show thesis by (intro mismatch) (simp add: accept_frame_def)
    qed
  qed
qed

lemma opened_ok:
  assumes "reassembler_inv fr" "frame_ok f" "df_count f \<le> fr_maxFramesPerMessage fr"
    and "map_of (fr_groups fr) (df_id f) = None \<longrightarrow> length (fr_groups fr) < fr_maxPendingGroups fr"
  shows "reassembler_ok {df_id f} (opened fr f now)" "map_of (fr_groups (opened fr f now)) (df_id f) = Some (open_group fr f now)"
proof -
  let ?g = "open_group fr f now"
  have d: "distinct (map fst (fr_groups fr))" using assms(1) by (simp add: reassembler_ok_def)
  show "map_of (fr_groups (opened fr f now)) (df_id f) = Some ?g"
    by (simp add: opened_def open_group_def split: option.splits)
  show "reassembler_ok {df_id f} (opened fr f now)"
  proof (cases "map_of (fr_groups fr) (df_id f)")
    case None
    have "group_ok (opened fr f now) (df_id f) ?g"
      using None assms(2,3) by (simp add: group_ok_def open_group_def opened_def frame_ok_def)
    then have "group_ok (opened fr f now) k h \<and> (k \<in> {df_id f} \<or> grp_chunks h \<noteq> [])"
      if "(k, h) \<in> set (fr_groups (opened fr f now))" for k h
      using update_distinct_other [OF d, of k h "df_id f" ?g] that None assms(1) group_ok_cong [of "opened fr f now" fr]
      by (auto simp: reassembler_ok_def opened_def)
    moreover have "alist_total grp_byteLength (AList.update (df_id f) ?g (fr_groups fr)) = alist_total grp_byteLength (fr_groups fr)"
      using alist_total_update [OF d, of grp_byteLength "df_id f" ?g] None by (simp add: open_group_def)
    ultimately show ?thesis
      using assms(1,4) None d by (auto simp: reassembler_ok_def opened_def distinct_keys_update length_update_new)
  next
    case (Some g)
    then show ?thesis using assms(1) by (auto simp: opened_def reassembler_ok_def)
  qed
qed

lemma delete_opened: "map_of (fr_groups fr) (df_id f) = None \<Longrightarrow> frame_delete (df_id f) (opened fr f now) = 
    (if fr_groups fr = [] \<and> fr_expiryTimer fr \<noteq> None then fr\<lparr>fr_expiryTimer := None\<rparr> else fr)"
  by (simp add: frame_delete_def opened_def open_group_def Let_def delete_update_same alist_delete_absent)

lemma accept_frame_inv:
  assumes "reassembler_inv fr" "frame_ok f"
  shows "reassembler_inv (fst (accept_frame fr f now later))"
    and "snd (accept_frame fr f now later) = Inl e \<Longrightarrow> \<exists>c. requireTime later = Inl c \<and> e = FrameInvalid (JsError c)"
    and "armed fr \<Longrightarrow> requireTime later = Inr t \<Longrightarrow> armed (fst (accept_frame fr f now later))"
proof -
  have del: "reassembler_inv (frame_delete (df_id f) fr)" using frame_delete_inv [OF assms(1)] by simp
  have "reassembler_inv (fst (accept_frame fr f now later)) \<and>
     (snd (accept_frame fr f now later) = Inl e \<longrightarrow> (\<exists>c. requireTime later = Inl c \<and> e = FrameInvalid (JsError c))) \<and>
     (armed fr \<and> requireTime later = Inr t \<longrightarrow> armed (fst (accept_frame fr f now later)))"
  proof (cases rule: accept_frame_cases [of fr f now later])
    case chunk
    note o = opened_ok [OF assms chunk(1,3), of now]
    have ix: "df_index f < grp_count (open_group fr f now)" using chunk(2) assms(2) by (simp add: frame_ok_def)
    have "armed (frame_delete (df_id f) (opened fr f now))" if "armed fr"
      using that frame_delete_armed [OF that, of "df_id f"] delete_opened [of fr f now]
      by (cases "map_of (fr_groups fr) (df_id f)") (auto simp: opened_def armed_def)
    moreover have "armed (opened fr f now)" if "armed fr" "grp_chunks (open_group fr f now) \<noteq> []"
      using that by (auto simp: opened_def open_group_def split: option.splits)
    ultimately show ?thesis
      using accept_chunk_inv [OF o ix] accept_chunk_armed [OF o ix] unfolding chunk(4) by blast
  qed (use del assms(1) frame_delete_armed in auto)
  then show "reassembler_inv (fst (accept_frame fr f now later))"
    and "snd (accept_frame fr f now later) = Inl e \<Longrightarrow> \<exists>c. requireTime later = Inl c \<and> e = FrameInvalid (JsError c)"
    and "armed fr \<Longrightarrow> requireTime later = Inr t \<Longrightarrow> armed (fst (accept_frame fr f now later))"
    by blast+
qed

lemma requireTime_Some: "requireTime now = Inr t \<Longrightarrow> requireTime (Some t) = Inr t"
  by (auto simp: requireTime_def split: option.splits if_splits)

lemma frame_accept_inv:
  assumes "reassembler_inv fr"
  shows "reassembler_inv (fst (frame_accept fr v now later))"
    and "armed fr \<Longrightarrow> requireTime later = Inr t \<Longrightarrow> armed (fst (frame_accept fr v now later))"
    and "snd (frame_accept fr v now later) = Inl e \<Longrightarrow>
      (\<exists>p. normalizeFrame v = Inl p \<and> e = FrameInvalid p) \<or>
      (\<exists>c. (requireTime now = Inl c \<or> requireTime later = Inl c) \<and> e = FrameInvalid (JsError c))"
proof -
  have *: "reassembler_inv (fst (frame_accept fr v now later)) \<and>
      (armed fr \<and> requireTime later = Inr t \<longrightarrow> armed (fst (frame_accept fr v now later))) \<and>
      (snd (frame_accept fr v now later) = Inl e \<longrightarrow> (\<exists>p. normalizeFrame v = Inl p \<and> e = FrameInvalid p) \<or>
      (\<exists>c. (requireTime now = Inl c \<or> requireTime later = Inl c) \<and> e = FrameInvalid (JsError c)))"
  proof (cases "normalizeFrame v")
    case (Inr f)
    show ?thesis
    proof (cases "requireTime now")
      case (Inr s)
      obtain fr' ids where x: "frame_expire fr (Some s) = (fr', Inr ids)" "reassembler_inv fr'"
        using frame_expire_ok [OF assms requireTime_Some [OF Inr]] by metis
      then have "armed fr \<Longrightarrow> armed fr'" using frame_expire_armed [of fr "Some s"] by simp
      then show ?thesis
        using accept_frame_inv [OF x(2) normalizeFrame_ok [OF \<open>normalizeFrame v = Inr f\<close>], where now = s and later = later]
        by (auto simp: frame_accept_def \<open>normalizeFrame v = Inr f\<close> Inr x(1))
    qed (auto simp: frame_accept_def Inr assms)
  qed (simp add: frame_accept_def assms)
  then show "reassembler_inv (fst (frame_accept fr v now later))"
    and "armed fr \<Longrightarrow> requireTime later = Inr t \<Longrightarrow> armed (fst (frame_accept fr v now later))"
    by blast+
  show "snd (frame_accept fr v now later) = Inl e \<Longrightarrow>
      (\<exists>p. normalizeFrame v = Inl p \<and> e = FrameInvalid p) \<or>
      (\<exists>c. (requireTime now = Inl c \<or> requireTime later = Inl c) \<and> e = FrameInvalid (JsError c))"
    using * by blast
qed

end
