(* ===== verification/Frame_Theorems.thy ===== *)
theory Frame_Theorems
  imports Frame_Steps Protocol_Bodies
begin

text \<open>
  What the wire frames promise: a reassembler stays within its limits and leaks no group, it
  throws only for a bad frame or a bad clock, and the frames of a message, encoded and
  delivered in any order within the timeout, are put together to the message.
\<close>

section \<open>Every history of a reassembler\<close>

datatype frame_op =
    OpAccept jsval clock clock
  | OpAcceptEncoded bytes clock clock
  | OpExpire clock
  | OpTimer clock clock
  | OpClear

fun frame_step :: "prims \<Rightarrow> FrameReassembler \<Rightarrow> frame_op \<Rightarrow> FrameReassembler" where
  "frame_step pr fr (OpAccept v now later) = fst (frame_accept fr v now later)"
| "frame_step pr fr (OpAcceptEncoded b now later) = fst (acceptEncoded pr fr b now later)"
| "frame_step pr fr (OpExpire now) = fst (frame_expire fr now)"
| "frame_step pr fr (OpTimer now later) = fst (timer_fires fr now later)"
| "frame_step pr fr OpClear = frame_clear fr"

definition frame_start :: "FrameReassembler \<Rightarrow> bool" where
  "frame_start fr \<longleftrightarrow> (\<exists>opts. newFrameReassembler opts = Inr fr)"

text \<open>Histories with an arbitrary clock, and those whose clock never fails.\<close>

abbreviation any_step :: "prims \<Rightarrow> FrameReassembler \<Rightarrow> frame_op \<Rightarrow> unit + FrameReassembler" where
  "any_step pr fr op \<equiv> Inr (frame_step pr fr op)"

definition clock_ok :: "clock \<Rightarrow> bool" where
  "clock_ok now \<longleftrightarrow> (\<exists>t. requireTime now = Inr t)"

fun op_clock_ok :: "frame_op \<Rightarrow> bool" where
  "op_clock_ok (OpAccept v now later) = (clock_ok now \<and> clock_ok later)"
| "op_clock_ok (OpAcceptEncoded b now later) = (clock_ok now \<and> clock_ok later)"
| "op_clock_ok (OpExpire now) = clock_ok now"
| "op_clock_ok (OpTimer now later) = (clock_ok now \<and> clock_ok later)"
| "op_clock_ok OpClear = True"

definition timed_step :: "prims \<Rightarrow> FrameReassembler \<Rightarrow> frame_op \<Rightarrow> unit + FrameReassembler" where
  "timed_step pr fr op = (if op_clock_ok op then Inr (frame_step pr fr op) else Inl ())"

lemma new_empty: "newFrameReassembler opts = Inr fr \<Longrightarrow> fr_groups fr = [] \<and> fr_pendingBytes fr = 0 \<and> fr_expiryTimer fr = None"
  by (cases "or_default (opt_scheduleExpiry opts) (JBool False)") (auto simp: newFrameReassembler_def result_simps)

lemma start_inv: "frame_start fr \<Longrightarrow> reassembler_inv fr \<and> armed fr"
  by (auto simp: frame_start_def reassembler_ok_def armed_def dest!: new_empty)

lemma unarmed_ok: "reassembler_inv fr \<Longrightarrow> reassembler_inv (fr\<lparr>fr_expiryTimer := None\<rparr>)"
  by (auto simp: reassembler_ok_def group_ok_def)

lemma expire_inv: "reassembler_inv fr \<Longrightarrow> reassembler_inv (fst (frame_expire fr now))"
  by (cases "requireTime now") (auto simp: frame_expire_def [of fr now] elim: frame_expire_ok)

lemma timer_inv: "reassembler_inv fr \<Longrightarrow> reassembler_inv (fst (timer_fires fr now later))"
  using expire_inv [OF unarmed_ok, of fr now] scheduleExpiry_ok [of "{}" "fst (frame_expire (fr\<lparr>fr_expiryTimer := None\<rparr>) now)" later]
  by (auto simp: timer_fires_def split: prod.splits sum.splits)

lemma clear_inv: "reassembler_inv (frame_clear fr)"
  by (simp add: frame_clear_def reassembler_ok_def)

lemma frame_step_inv: "reassembler_inv fr \<Longrightarrow> reassembler_inv (frame_step pr fr op)"
proof (cases op)
  case (OpAcceptEncoded b now later)
  assume "reassembler_inv fr"
  then show ?thesis using frame_accept_inv(1) by (auto simp: OpAcceptEncoded acceptEncoded_def split: sum.splits)
qed (auto intro: frame_accept_inv expire_inv timer_inv clear_inv)

lemma armed_clear: "armed (frame_clear fr)"
  by (simp add: armed_def frame_clear_def)

lemma frame_step_armed: "reassembler_inv fr \<Longrightarrow> armed fr \<Longrightarrow> op_clock_ok op \<Longrightarrow> armed (frame_step pr fr op)"
proof (cases op)
  case (OpTimer now later)
  assume "op_clock_ok op"
  then obtain s t where "requireTime now = Inr s" "requireTime later = Inr t" by (auto simp: OpTimer clock_ok_def)
  then show ?thesis
    using scheduleExpiry_arms [of later t] by (auto simp: OpTimer timer_fires_def frame_expire_def split: prod.splits)
qed (auto simp: acceptEncoded_def clock_ok_def armed_clear
     intro: frame_accept_inv frame_expire_armed split: sum.splits)

interpretation any_reassembler: error_machine frame_start "any_step pr" reassembler_inv for pr
  by unfold_locales (auto simp: start_inv frame_step_inv)

interpretation timed_reassembler: error_machine frame_start "timed_step pr" "\<lambda>fr. reassembler_inv fr \<and> armed fr" for pr
  by unfold_locales (auto simp: start_inv frame_step_inv frame_step_armed timed_step_def split: if_splits)

section \<open>Frames of a message\<close>

lemma take_slices: "take (k * MAX_FRAME_PAYLOAD_BYTES) payload = concat (map (frame_slice payload) [0..<k])"
proof (induction k)
  case (Suc k)
  have "frame_slice payload k = take MAX_FRAME_PAYLOAD_BYTES (drop (k * MAX_FRAME_PAYLOAD_BYTES) payload)"
    by (auto simp: frame_slice_def Let_def min_def)
  then show ?case using Suc take_add [of "k * MAX_FRAME_PAYLOAD_BYTES" MAX_FRAME_PAYLOAD_BYTES payload]
    by (simp add: add.commute [of MAX_FRAME_PAYLOAD_BYTES] del: take_add)
qed simp

lemma frames_needed_bounds:
  "n \<le> frames_needed n * MAX_FRAME_PAYLOAD_BYTES" "i < frames_needed n \<Longrightarrow> i * MAX_FRAME_PAYLOAD_BYTES < n"
  by (auto simp: frames_needed_def MAX_FRAME_PAYLOAD_BYTES_def)

lemma split_concat: "concat (map (frame_slice payload) [0..<max 1 (frames_needed (length payload))]) = payload"
  using frames_needed_bounds(1) [of "length payload"]
  by (cases "frames_needed (length payload)") (simp_all add: take_slices [symmetric] max_def del: upt_Suc)

lemma frame_slice_size:
  "length (frame_slice payload i) \<le> MAX_FRAME_PAYLOAD_BYTES"
  "i < frames_needed (length payload) \<Longrightarrow> frame_slice payload i \<noteq> []"
  using frames_needed_bounds(2) [of i "length payload"]
  by (auto simp: frame_slice_def Let_def min_def, auto simp: MAX_FRAME_PAYLOAD_BYTES_def)

lemma splitDataFrames_Inr:
  assumes "splitDataFrames (JBytes payload) (jnat fid) = Inr frames"
  shows "frames = map (\<lambda>i. \<lparr>df_id = fid, df_index = i, df_count = length frames, df_bytes = frame_slice payload i\<rparr>) [0..<length frames]"
    and "0 < length frames" "length frames = max 1 (frames_needed (length payload))"
    and "f \<in> set frames \<Longrightarrow> frame_ok f \<and> df_id f = fid \<and> df_count f = length frames"
proof -
  let ?n = "max 1 (frames_needed (length payload))"
  have *: "fid \<le> MAX_FRAME_ID" "?n \<le> MAX_FRAME_COUNT"
    "frames = map (\<lambda>i. \<lparr>df_id = fid, df_index = i, df_count = ?n, df_bytes = frame_slice payload i\<rparr>) [0..<?n]"
    using assms by (auto simp: splitDataFrames_def frame_requireBytes_def result_simps Let_def split: if_splits)
  then show n: "length frames = ?n" by simp
  then show "0 < length frames" by simp
  show "frames = map (\<lambda>i. \<lparr>df_id = fid, df_index = i, df_count = length frames, df_bytes = frame_slice payload i\<rparr>) [0..<length frames]"
    unfolding n by (rule *(3))
  show "frame_ok f \<and> df_id f = fid \<and> df_count f = length frames" if "f \<in> set frames"
    using that * frame_slice_size [where payload = payload] unfolding n by (auto simp: frame_ok_def)
qed

lemma normalize_frame_value: "frame_ok f \<Longrightarrow> normalizeFrame (frame_value f) = Inr f"
  by (auto simp: normalizeFrame_def frame_object_def frame_value_def frame_ok_def result_simps get_prop_def
      expectByteString_def safe_nat_def MAX_SAFE_INTEGER_def MAX_FRAME_ID_def MAX_FRAME_COUNT_def)

lemma decode_encoded_frame:
  assumes "codec_laws pr" "frame_ok f" "encodeDataFrame pr (frame_value f) = Inr b" "length b \<le> MAX_ENCODED_FRAME_BYTES"
  shows "decodeDataFrame pr b = Inr f"
proof -
  have e: "encodeCanonical pr (frame_value f) = Inr b"
    using assms(2,3) by (auto simp: encodeDataFrame_def result_simps normalize_frame_value)
  obtain w where w: "decodeCanonical pr b = Inr w" "same_value (frame_value f) w" by (rule codec_roundtrip [OF assms(1) e])
  then obtain qs where q: "w = JObject qs" by (auto simp: frame_value_def split: jsval.splits)
  note s = w(2) [unfolded q frame_value_def]
  note d = same_value_objectD [OF s]
  have "length qs = 4" using s by (simp only: same_value.simps jsval.case list.size) simp
  then have "has_exactly qs FRAME_KEYS"
    using d(3) by (auto simp: has_exactly_def FRAME_KEYS_def map_of_eq_None_iff simp flip: set_map)
  moreover have "get_prop qs ''id'' = jnat (df_id f)" "get_prop qs ''index'' = jnat (df_index f)"
    "get_prop qs ''count'' = jnat (df_count f)" "get_prop qs ''bytes'' = JBytes (df_bytes f)"
    using d(4) [of "ascii ''id''"] d(4) [of "ascii ''index''"] d(4) [of "ascii ''count''"] d(4) [of "ascii ''bytes''"]
    by (auto simp: get_prop_def same_value_prim)
  ultimately show ?thesis
    using assms(2,4) normalize_frame_value [OF assms(2)]
    by (cases f) (auto simp: decodeDataFrame_def requireEncodedFrame_def w(1) q result_simps expectByteString_def frame_ok_def
        safe_nat_def MAX_SAFE_INTEGER_def MAX_FRAME_ID_def MAX_FRAME_COUNT_def)
qed

section \<open>Collecting the frames of a message\<close>

abbreviation chunks_of :: "DataFrame list \<Rightarrow> (nat \<times> bytes) list" where
  "chunks_of fs \<equiv> map (\<lambda>f. (df_index f, df_bytes f)) fs"

abbreviation bytes_of :: "DataFrame list \<Rightarrow> nat" where
  "bytes_of fs \<equiv> sum_list (map (\<lambda>f. length (df_bytes f)) fs)"

text \<open>The reassembler has received \<open>seen\<close> of the message \<open>fid\<close> since time \<open>t0\<close>.\<close>

definition collecting :: "FrameReassembler \<Rightarrow> nat \<Rightarrow> nat \<Rightarrow> int \<Rightarrow> DataFrame list \<Rightarrow> bool" where
  "collecting fr fid n t0 seen \<longleftrightarrow> reassembler_inv fr \<and>
     (if seen = [] then map_of (fr_groups fr) fid = None \<and> length (fr_groups fr) < fr_maxPendingGroups fr
      else map_of (fr_groups fr) fid = Some \<lparr>grp_id = fid, grp_count = n, grp_createdAt = t0,
        grp_chunks = chunks_of seen, grp_byteLength = bytes_of seen\<rparr>)"

lemma map_of_filter_distinct:
  "distinct (map fst m) \<Longrightarrow> map_of (filter (\<lambda>e. P (snd e)) m) k = (case map_of m k of None \<Rightarrow> None | Some v \<Rightarrow> if P v then Some v else None)"
  by (induction m) (auto split: option.splits dest: map_of_SomeD simp: image_iff)

lemma collecting_expire:
  assumes "collecting fr fid n t0 seen" "requireTime now = Inr t" "seen \<noteq> [] \<longrightarrow> t - t0 < int (fr_timeoutMs fr)"
  shows "collecting (fst (frame_expire fr now)) fid n t0 seen" "same_limits fr (fst (frame_expire fr now))"
    and "fr_pendingBytes (fst (frame_expire fr now)) \<le> fr_pendingBytes fr"
proof -
  have inv: "reassembler_inv fr" and d: "distinct (map fst (fr_groups fr))"
    using assms(1) by (auto simp: collecting_def reassembler_ok_def)
  from frame_expire_ok [OF inv assms(2)] obtain fr' ids where
    x: "frame_expire fr now = (fr', Inr ids)" "reassembler_inv fr'" "same_limits fr fr'" "fr_pendingBytes fr' \<le> fr_pendingBytes fr"
      "fr_groups fr' = filter (\<lambda>e. \<not> expired_at fr t (snd e)) (fr_groups fr)"
    by metis
  have len: "length (fr_groups fr') \<le> length (fr_groups fr)" by (simp add: x(5))
  have look: "map_of (fr_groups fr') fid = (case map_of (fr_groups fr) fid of None \<Rightarrow> None
      | Some g \<Rightarrow> if \<not> expired_at fr t g then Some g else None)"
    unfolding x(5) by (rule map_of_filter_distinct [OF d])
  show "collecting (fst (frame_expire fr now)) fid n t0 seen"
  proof (cases "seen = []")
    case True
    with assms(1) len look x(2,3) show ?thesis by (simp add: collecting_def x(1) same_limits_def)
  next
    case False
    with assms(1,3) look x(2) show ?thesis by (simp add: collecting_def x(1) expired_at_def)
  qed
  show "same_limits fr (fst (frame_expire fr now))" "fr_pendingBytes (fst (frame_expire fr now)) \<le> fr_pendingBytes fr"
    using x by simp_all
qed

lemma collecting_opened:
  assumes "collecting fr fid n t0 seen" "df_id f = fid" "df_count f = n" "frame_ok f" "n \<le> fr_maxFramesPerMessage fr"
  shows "accept_frame fr f t later = accept_chunk (opened fr f t) (open_group fr f t) f later"
    and "open_group fr f t = \<lparr>grp_id = fid, grp_count = n, grp_createdAt = if seen = [] then t else t0,
        grp_chunks = chunks_of seen, grp_byteLength = bytes_of seen\<rparr>"
    and "reassembler_ok {fid} (opened fr f t)" "map_of (fr_groups (opened fr f t)) fid = Some (open_group fr f t)"
    and "same_limits fr (opened fr f t)" "fr_pendingBytes (opened fr f t) = fr_pendingBytes fr"
proof -
  have room: "map_of (fr_groups fr) (df_id f) = None \<longrightarrow> length (fr_groups fr) < fr_maxPendingGroups fr"
    using assms(1,2) by (auto simp: collecting_def split: if_splits)
  show g: "open_group fr f t = \<lparr>grp_id = fid, grp_count = n, grp_createdAt = if seen = [] then t else t0,
        grp_chunks = chunks_of seen, grp_byteLength = bytes_of seen\<rparr>"
    using assms(1-3) by (auto simp: collecting_def open_group_def split: if_splits)
  show "reassembler_ok {fid} (opened fr f t)" "map_of (fr_groups (opened fr f t)) fid = Some (open_group fr f t)"
    using opened_ok [of fr f t] assms room by (auto simp: collecting_def)
  show "same_limits fr (opened fr f t)" "fr_pendingBytes (opened fr f t) = fr_pendingBytes fr"
    by (auto simp: opened_def same_limits_def split: option.splits)
  show "accept_frame fr f t later = accept_chunk (opened fr f t) (open_group fr f t) f later"
    using assms room
    by (cases rule: accept_frame_cases [of fr f t later])
       (auto simp: collecting_def accept_frame_def Let_def opened_def open_group_def split: if_splits)
qed

lemma collecting_step:
  assumes col: "collecting fr fid n t0 seen" and f: "df_id f = fid" "df_count f = n" "frame_ok f"
    and n: "n \<le> fr_maxFramesPerMessage fr" "length seen < n" and new: "df_index f \<notin> df_index ` set seen"
    and time: "requireTime now = Inr t" "seen \<noteq> [] \<longrightarrow> t - t0 < int (fr_timeoutMs fr)" "clock_ok later"
    and size: "bytes_of (seen @ [f]) \<le> fr_maxMessageBytes fr"
      "fr_pendingBytes fr + int (length (df_bytes f)) \<le> int (fr_maxPendingBytes fr)"
  obtains fr' where "same_limits fr fr'" "fr_pendingBytes fr' \<le> fr_pendingBytes fr + int (length (df_bytes f))"
    "Suc (length seen) = n \<Longrightarrow> map_of (fr_groups fr') fid = None \<and> frame_accept fr (frame_value f) now later =
       (fr', Inr (FrComplete fid (concat (map (\<lambda>i. the (map_of (chunks_of (seen @ [f])) i)) [0..<n]))))"
    "Suc (length seen) \<noteq> n \<Longrightarrow> collecting fr' fid n (if seen = [] then t else t0) (seen @ [f]) \<and>
       frame_accept fr (frame_value f) now later = (fr', Inr (FrIncomplete fid (Suc (length seen)) n))"
proof -
  define ex where "ex = fst (frame_expire fr (Some t))"
  note c = collecting_expire [OF col requireTime_Some [OF time(1)] time(2), folded ex_def]
  have n': "n \<le> fr_maxFramesPerMessage ex" using n(1) c(2) by (simp add: same_limits_def)
  define g where "g = open_group ex f t"
  define op where "op = opened ex f t"
  note o = collecting_opened [OF c(1) f n', of t, folded g_def op_def]
  have accept: "frame_accept fr (frame_value f) now later = accept_chunk op g f later"
    using f(3) o(1) by (simp add: frame_accept_def normalize_frame_value time(1) ex_def)
  have lim: "same_limits fr op" using c(2) o(5) by (simp add: same_limits_def)
  have fresh: "map_of (grp_chunks g) (df_index f) = None"
    using new by (simp add: o(2) map_of_eq_None_iff image_image)
  have filed: "grp_chunks (file_chunk g f) = chunks_of (seen @ [f])"
    using new by (simp add: o(2) update_new image_image)
  have count: "grp_count g = n" by (simp add: o(2))
  have len: "length (grp_chunks (file_chunk g f)) = Suc (length seen)" by (simp only: filed) simp
  have ok: "reassembler_ok {df_id f} op" "map_of (fr_groups op) (df_id f) = Some g" "df_index f < grp_count g"
    using o(3,4) f by (simp_all add: count frame_ok_def)
  have small: "\<not> grp_byteLength g + length (df_bytes f) > fr_maxMessageBytes op"
    "\<not> fr_pendingBytes op + int (length (df_bytes f)) > int (fr_maxPendingBytes op)"
    using size lim c(3) o(6) by (simp_all add: o(2) same_limits_def)
  note chunk = accept_chunk_alt [of op g f later, unfolded fresh option.case if_not_P [OF small(1)] if_not_P [OF small(2)]]
  show ?thesis
  proof (cases "Suc (length seen) = n")
    case True
    have "accept_chunk op g f later = (frame_delete fid (filed op g f),
        Inr (FrComplete fid (concat (map (\<lambda>i. the (map_of (chunks_of (seen @ [f])) i)) [0..<n]))))"
      using chunk accept_chunk_gather [OF ok fresh] True f(1) unfolding len count filed by simp
    moreover have "fr_pendingBytes (frame_delete fid (filed op g f)) \<le> fr_pendingBytes fr + int (length (df_bytes f))"
      using c(3) o(6) by (auto simp: frame_delete_pending split: option.splits)
    ultimately show thesis
      using True lim by (intro that [of "frame_delete fid (filed op g f)"]) (auto simp: accept same_limits_def)
  next
    case False
    have "snd (scheduleExpiry (filed op g f) later) = Inr ()" using time(3) by (auto simp: clock_ok_def scheduleExpiry_def)
    then obtain fr'' where s: "scheduleExpiry (filed op g f) later = (fr'', Inr ())" by (metis prod.collapse)
    have inv: "reassembler_inv (filed op g f)"
      using filed_ok(1) [OF ok(1,2) fresh ok(3)] small len count False by simp
    note s' = scheduleExpiry_ok [OF inv, of later, unfolded s fst_conv]
    have "accept_chunk op g f later = (fr'', Inr (FrIncomplete fid (Suc (length seen)) n))"
      using chunk False f(1) by (simp add: len count s del: file_chunk_sel)
    moreover have "collecting fr'' fid n (if seen = [] then t else t0) (seen @ [f])"
      using s' filed f(1) by (auto simp: collecting_def o(2) file_chunk_def)
    ultimately show thesis
      using False lim s' c(3) o(6) by (intro that [of fr'']) (auto simp: accept same_limits_def)
  qed
qed

section \<open>Delivery\<close>

text \<open>The receiver reads encoded frames one after another, each with two readings of the clock.\<close>

fun accept_all :: "prims \<Rightarrow> FrameReassembler \<Rightarrow> (bytes \<times> int \<times> int) list \<Rightarrow>
    FrameReassembler \<times> (frame_error + FrameReassemblyResult) list" where
  "accept_all pr fr [] = (fr, [])"
| "accept_all pr fr ((b, now, later) # rest) =
     (let (fr', r) = acceptEncoded pr fr b (Some now) (Some later); (fr'', rs) = accept_all pr fr' rest in (fr'', r # rs))"

definition progress_of :: "nat \<Rightarrow> nat \<Rightarrow> nat \<Rightarrow> bytes \<Rightarrow> (frame_error + FrameReassemblyResult) list" where
  "progress_of fid from n payload = map (\<lambda>k. Inr (FrIncomplete fid (Suc k) n)) [from..<n - 1] @ [Inr (FrComplete fid payload)]"

lemma collect_rest:
  assumes "collecting fr fid n t0 seen" "rest \<noteq> []" "length seen + length rest = n" "distinct (map df_index (seen @ map fst rest))"
    and "\<forall>(f, now, later) \<in> set rest. df_id f = fid \<and> df_count f = n \<and> frame_ok f \<and> 0 \<le> now \<and> 0 \<le> later \<and>
      now - (if seen = [] then fst (snd (hd rest)) else t0) < int (fr_timeoutMs fr)"
    and "\<forall>(f, now, later) \<in> set rest. decodeDataFrame pr (enc f) = Inr f"
    and "n \<le> fr_maxFramesPerMessage fr" "bytes_of (seen @ map fst rest) \<le> fr_maxMessageBytes fr"
    and "fr_pendingBytes fr + int (bytes_of (map fst rest)) \<le> int (fr_maxPendingBytes fr)"
  shows "snd (accept_all pr fr (map (\<lambda>(f, c). (enc f, c)) rest)) =
      progress_of fid (length seen) n (concat (map (\<lambda>i. the (map_of (chunks_of (seen @ map fst rest)) i)) [0..<n])) \<and>
    map_of (fr_groups (fst (accept_all pr fr (map (\<lambda>(f, c). (enc f, c)) rest)))) fid = None"
  using assms
proof (induction rest arbitrary: fr seen t0)
  case Nil
  then show ?case by simp
next
  case (Cons r rest)
  obtain f now later where r: "r = (f, now, later)" by (cases r) auto
  have time: "requireTime (Some now) = Inr now" "clock_ok (Some later)" "seen \<noteq> [] \<longrightarrow> now - t0 < int (fr_timeoutMs fr)"
    and f: "df_id f = fid" "df_count f = n" "frame_ok f" and dec: "decodeDataFrame pr (enc f) = Inr f"
    using Cons.prems(5,6) by (auto simp: r requireTime_def clock_ok_def)
  have new: "df_index f \<notin> df_index ` set seen" and sz: "length seen < n"
    "bytes_of (seen @ [f]) \<le> fr_maxMessageBytes fr" "fr_pendingBytes fr + int (length (df_bytes f)) \<le> int (fr_maxPendingBytes fr)"
    using Cons.prems(3,4,8,9) by (auto simp: r)
  from collecting_step [OF Cons.prems(1) f Cons.prems(7) sz(1) new time(1,3,2) sz(2,3)] obtain fr' where
    s: "same_limits fr fr'" "fr_pendingBytes fr' \<le> fr_pendingBytes fr + int (length (df_bytes f))"
    and last: "Suc (length seen) = n \<Longrightarrow> map_of (fr_groups fr') fid = None \<and> frame_accept fr (frame_value f) (Some now) (Some later) =
       (fr', Inr (FrComplete fid (concat (map (\<lambda>i. the (map_of (chunks_of (seen @ [f])) i)) [0..<n]))))"
    and more: "Suc (length seen) \<noteq> n \<Longrightarrow> collecting fr' fid n (if seen = [] then now else t0) (seen @ [f]) \<and>
       frame_accept fr (frame_value f) (Some now) (Some later) = (fr', Inr (FrIncomplete fid (Suc (length seen)) n))"
    by blast
  show ?case
  proof (cases "rest = []")
    case True
    then show ?thesis using last Cons.prems(3) dec by (auto simp: r acceptEncoded_def progress_of_def)
  next
    case False
    then have "Suc (length seen) < n" using Cons.prems(3) by (cases rest) auto
    then have up: "[length seen..<n - Suc 0] = length seen # [Suc (length seen)..<n - Suc 0]" by (simp add: upt_rec)
    note m = more [of] \<open>Suc (length seen) < n\<close>
    let ?t = "if seen = [] then now else t0"
    have "snd (accept_all pr fr' (map (\<lambda>(f, c). (enc f, c)) rest)) =
        progress_of fid (length (seen @ [f])) n (concat (map (\<lambda>i. the (map_of (chunks_of ((seen @ [f]) @ map fst rest)) i)) [0..<n])) \<and>
      map_of (fr_groups (fst (accept_all pr fr' (map (\<lambda>(f, c). (enc f, c)) rest)))) fid = None"
    proof (rule Cons.IH)
      show "collecting fr' fid n ?t (seen @ [f])" using m by simp
      show "\<forall>(f', now', later') \<in> set rest. df_id f' = fid \<and> df_count f' = n \<and> frame_ok f' \<and> 0 \<le> now' \<and> 0 \<le> later' \<and>
          now' - (if seen @ [f] = [] then fst (snd (hd rest)) else ?t) < int (fr_timeoutMs fr')"
        using Cons.prems(5) s(1) by (auto simp: r same_limits_def)
    qed (use False Cons.prems s in \<open>auto simp: r same_limits_def\<close>)
    then show ?thesis
      using m dec by (auto simp: r acceptEncoded_def progress_of_def up split: prod.splits)
  qed
qed

lemma same_mset_map: "mset ys = mset (map h xs) \<Longrightarrow> \<exists>zs. mset zs = mset xs \<and> ys = map h zs"
proof (induction ys arbitrary: xs)
  case Nil
  then show ?case by auto
next
  case (Cons y ys)
  then obtain x where x: "x \<in> set xs" "y = h x" by (metis imageE list.set_intros(1) list.set_map mset_eq_setD)
  then have "mset ys = mset (map h (remove1 x xs))" using Cons.prems by (simp add: image_mset_Diff) (metis add_mset_remove_trivial)
  with Cons.IH obtain zs where "mset zs = mset (remove1 x xs)" "ys = map h zs" by blast
  then show ?case using x by (intro exI [of _ "x # zs"]) (simp add: insert_DiffM)
qed

lemma permuted_frames:
  assumes split: "splitDataFrames (JBytes payload) (jnat fid) = Inr frames" and perm: "mset fs = mset frames"
  shows "distinct (map df_index fs)" "bytes_of fs = length payload"
    and "concat (map (\<lambda>i. the (map_of (chunks_of fs) i)) [0..<length frames]) = payload"
proof -
  let ?n = "length frames"
  note sp = splitDataFrames_Inr [OF split]
  have ix: "mset (map df_index fs) = mset [0..<?n]"
    using perm sp(1) by (metis (no_types, lifting) mset_map map_idI map_map comp_apply DataFrame.select_convs(2))
  show d: "distinct (map df_index fs)" using mset_eq_imp_distinct_iff [OF ix] by simp
  have "bytes_of fs = bytes_of frames" using perm by (rule sum_list_same_mset)
  also have "\<dots> = length (concat (map (frame_slice payload) [0..<?n]))"
    by (subst sp(1)) (simp add: length_concat comp_def)
  finally show "bytes_of fs = length payload" using split_concat [of payload] sp(3) by simp
  have "map_of (chunks_of fs) i = Some (frame_slice payload i)" if "i < ?n" for i
  proof (rule map_of_is_SomeI)
    show "distinct (map fst (chunks_of fs))" using d by (simp add: comp_def)
    show "(i, frame_slice payload i) \<in> set (chunks_of fs)"
      using that by (simp add: mset_eq_setD [OF perm]) (subst sp(1), auto simp: image_image)
  qed
  then have "map (\<lambda>i. the (map_of (chunks_of fs) i)) [0..<?n] = map (frame_slice payload) [0..<?n]"
    by (intro map_cong) simp_all
  then show "concat (map (\<lambda>i. the (map_of (chunks_of fs) i)) [0..<?n]) = payload"
    using split_concat [of payload] by (simp only: sp(3))
qed

text \<open>
  C14: a message survives the wire. Split, encoded and delivered in any order within the timeout
  to a reassembler in any reachable state with room for it, every frame but the last is
  answered with the number of frames received, the last frame yields exactly the payload,
  and nothing of the message stays behind.
\<close>

theorem frames_arrive:
  assumes laws: "codec_laws pr" and reach: "reachable frame_start (any_step pr) fr"
    and split: "splitDataFrames (JBytes payload) (jnat fid) = Inr frames"
    and encode: "mapM_res (\<lambda>f. encodeDataFrame pr (frame_value f)) frames = Inr encoded"
    and size: "\<forall>b \<in> set encoded. length b \<le> MAX_ENCODED_FRAME_BYTES"
    and order: "mset arrivals = mset encoded" "length clocks = length arrivals"
    and clocks: "\<forall>(now, later) \<in> set clocks. 0 \<le> now \<and> 0 \<le> later \<and> now - fst (hd clocks) < int (fr_timeoutMs fr)"
    and room: "map_of (fr_groups fr) fid = None" "length (fr_groups fr) < fr_maxPendingGroups fr"
      "fr_pendingBytes fr + int (length payload) \<le> int (fr_maxPendingBytes fr)"
      "length payload \<le> fr_maxMessageBytes fr" "length frames \<le> fr_maxFramesPerMessage fr"
  shows "snd (accept_all pr fr (zip arrivals clocks)) =
      map (\<lambda>k. Inr (FrIncomplete fid (Suc k) (length frames))) [0..<length frames - 1] @ [Inr (FrComplete fid payload)] \<and>
    map_of (fr_groups (fst (accept_all pr fr (zip arrivals clocks)))) fid = None"
proof -
  let ?n = "length frames"
  define enc where "enc f = (case encodeDataFrame pr (frame_value f) of Inr b \<Rightarrow> b | Inl _ \<Rightarrow> [])" for f
  note sp = splitDataFrames_Inr [OF split]
  have all: "\<forall>f \<in> set frames. encodeDataFrame pr (frame_value f) = Inr (enc f)"
    using encode by (auto simp: mapM_res_Inr_iff enc_def list_all2_conv_all_nth in_set_conv_nth)
  then have "mapM_res (\<lambda>f. encodeDataFrame pr (frame_value f)) frames = Inr (map enc frames)" by (intro mapM_res_all_Inr) simp
  then have enc: "encoded = map enc frames" using encode by simp
  obtain fs where fs: "mset fs = mset frames" "arrivals = map enc fs" using same_mset_map order(1) unfolding enc by blast
  have set: "set fs = set frames" using fs(1) by (rule mset_eq_setD)
  have n: "length fs = ?n" using fs(1) by (rule mset_eq_length)
  note pf = permuted_frames [OF split fs(1)]
  have "collecting fr fid ?n 0 []" using room any_reassembler.reachable_good [OF reach] by (simp add: collecting_def)
  then have "snd (accept_all pr fr (map (\<lambda>(f, c). (enc f, c)) (zip fs clocks))) =
      progress_of fid (length ([] :: DataFrame list)) ?n (concat (map (\<lambda>i. the (map_of (chunks_of ([] @ map fst (zip fs clocks))) i)) [0..<?n])) \<and>
    map_of (fr_groups (fst (accept_all pr fr (map (\<lambda>(f, c). (enc f, c)) (zip fs clocks))))) fid = None"
  proof (rule collect_rest)
    show "zip fs clocks \<noteq> []" using sp(2) n order(2) fs(2) by auto
    show "distinct (map df_index ([] @ map fst (zip fs clocks)))"
      using pf(1) order(2) fs(2) by simp
    show "\<forall>(f, now, later) \<in> set (zip fs clocks). decodeDataFrame pr (enc f) = Inr f"
      using all size sp(4) set enc by (auto dest!: set_zip_leftD intro!: decode_encoded_frame [OF laws])
    show "\<forall>(f, now, later) \<in> set (zip fs clocks). df_id f = fid \<and> df_count f = ?n \<and> frame_ok f \<and> 0 \<le> now \<and> 0 \<le> later \<and>
        now - (if [] = [] then fst (snd (hd (zip fs clocks))) else 0) < int (fr_timeoutMs fr)"
    proof (rule ballI, clarify)
      fix f now later assume "(f, now, later) \<in> set (zip fs clocks)"
      then have "f \<in> set frames" "(now, later) \<in> set clocks" using set by (auto dest: set_zip_leftD set_zip_rightD)
      moreover have "hd (zip fs clocks) = (hd fs, hd clocks)" using \<open>zip fs clocks \<noteq> []\<close> by (intro hd_zip) auto
      ultimately show "df_id f = fid \<and> df_count f = ?n \<and> frame_ok f \<and> 0 \<le> now \<and> 0 \<le> later \<and>
          now - (if [] = [] then fst (snd (hd (zip fs clocks))) else 0) < int (fr_timeoutMs fr)"
        using clocks sp(4) by auto
    qed
  qed (use room n pf(2) order(2) fs(2) in auto)
  moreover have "map (\<lambda>(f, c). (enc f, c)) (zip fs clocks) = zip arrivals clocks" by (simp add: fs(2) zip_map1)
  moreover have "concat (map (\<lambda>i. the (map_of (chunks_of ([] @ map fst (zip fs clocks))) i)) [0..<?n]) = payload"
    using pf(3) order(2) fs(2) by simp
  ultimately show ?thesis by (simp add: progress_of_def)
qed

text \<open>
  C15: a reassembler stays within its limits. After any history, with any clock, the pending bytes
  are exactly the bytes of the stored chunks and at most the limit, there are at most as many
  groups as allowed, and every group is incomplete, holds at least one chunk, and respects
  the limits on frames and bytes of a message. If the clock never fails, a pending group of a
  reassembler that schedules expiry always has a timer that will remove it.
\<close>

theorem reassembler_bounded:
  "(reachable frame_start (any_step pr) fr \<longrightarrow>
      fr_pendingBytes fr = int (sum_list (map (\<lambda>e. sum_list (map (\<lambda>c. length (snd c)) (grp_chunks (snd e)))) (fr_groups fr))) \<and>
      fr_pendingBytes fr \<le> int (fr_maxPendingBytes fr) \<and> length (fr_groups fr) \<le> fr_maxPendingGroups fr \<and>
      (\<forall>(fid, g) \<in> set (fr_groups fr). 0 < length (grp_chunks g) \<and> length (grp_chunks g) < grp_count g \<and>
        grp_count g \<le> fr_maxFramesPerMessage fr \<and> grp_byteLength g \<le> fr_maxMessageBytes fr)) \<and>
   (reachable frame_start (timed_step pr) fr \<and> fr_scheduleExpiryEnabled fr \<and> fr_groups fr \<noteq> [] \<longrightarrow> fr_expiryTimer fr \<noteq> None)"
proof (intro conjI impI)
  assume "reachable frame_start (any_step pr) fr"
  then have inv: "reassembler_inv fr" by (rule any_reassembler.reachable_good)
  then show "fr_pendingBytes fr \<le> int (fr_maxPendingBytes fr)" "length (fr_groups fr) \<le> fr_maxPendingGroups fr"
    by (simp_all add: reassembler_ok_def)
  show "\<forall>(fid, g) \<in> set (fr_groups fr). 0 < length (grp_chunks g) \<and> length (grp_chunks g) < grp_count g \<and>
        grp_count g \<le> fr_maxFramesPerMessage fr \<and> grp_byteLength g \<le> fr_maxMessageBytes fr"
    using inv by (auto simp: reassembler_ok_def group_ok_def)
  have "map (\<lambda>p. grp_byteLength (snd p)) (fr_groups fr) =
      map (\<lambda>e. sum_list (map (\<lambda>c. length (snd c)) (grp_chunks (snd e)))) (fr_groups fr)"
    using inv by (intro map_cong) (auto simp: reassembler_ok_def group_ok_def alist_total_def case_prod_beta)
  moreover have "fr_pendingBytes fr = int (sum_list (map (\<lambda>p. grp_byteLength (snd p)) (fr_groups fr)))"
    using inv by (simp add: reassembler_ok_def alist_total_def)
  ultimately show "fr_pendingBytes fr = int (sum_list (map (\<lambda>e. sum_list (map (\<lambda>c. length (snd c)) (grp_chunks (snd e)))) (fr_groups fr)))"
    by (simp only:)
next
  assume "reachable frame_start (timed_step pr) fr \<and> fr_scheduleExpiryEnabled fr \<and> fr_groups fr \<noteq> []"
  then show "fr_expiryTimer fr \<noteq> None" using timed_reassembler.reachable_good by (auto simp: armed_def)
qed

text \<open>
  Accepting a frame throws only for a frame that is not well-formed or for a clock that fails.
  In particular the internal fault of a complete group with a missing chunk never occurs, and the
  copy of a chunk never leaves the bounds of the payload.
\<close>

theorem reassembler_throws_only:
  assumes "reachable frame_start (any_step pr) fr" "snd (frame_accept fr v now later) = Inl e"
  shows "(\<exists>p. normalizeFrame v = Inl p \<and> e = FrameInvalid p) \<or>
    (\<exists>c. (requireTime now = Inl c \<or> requireTime later = Inl c) \<and> e = FrameInvalid (JsError c))"
  using frame_accept_inv(3) [OF any_reassembler.reachable_good [OF assms(1)] assms(2)] .

section \<open>Examples\<close>

definition example_options :: FrameReassemblerOptions where
  "example_options = \<lparr>opt_timeoutMs = JUndefined, opt_maxMessageBytes = JUndefined, opt_maxPendingBytes = JUndefined,
     opt_maxPendingGroups = JUndefined, opt_maxFramesPerMessage = JUndefined, opt_scheduleExpiry = JBool True\<rparr>"

definition example_reassembler :: FrameReassembler where
  "example_reassembler = \<lparr>fr_timeoutMs = 30000, fr_maxMessageBytes = 8388608, fr_maxPendingBytes = 16777216,
     fr_maxPendingGroups = 64, fr_maxFramesPerMessage = 512, fr_scheduleExpiryEnabled = True,
     fr_groups = [], fr_pendingBytes = 0, fr_expiryTimer = None\<rparr>"

lemma example_new: "newFrameReassembler example_options = Inr example_reassembler"
  by (simp add: newFrameReassembler_def example_options_def example_reassembler_def or_default_def positiveInteger_def
      INCOMPLETE_FRAME_TIMEOUT_MS_def DEFAULT_MAX_REASSEMBLED_BYTES_def DEFAULT_MAX_PENDING_BYTES_def
      DEFAULT_MAX_PENDING_GROUPS_def frames_needed_def MAX_FRAME_PAYLOAD_BYTES_def MAX_SAFE_INTEGER_def)

text \<open>One frame of two is pending, the timer runs.\<close>

definition half_frame :: DataFrame where
  "half_frame = \<lparr>df_id = 5, df_index = 1, df_count = 2, df_bytes = [7, 8]\<rparr>"

definition half_reassembler :: FrameReassembler where
  "half_reassembler = example_reassembler\<lparr>fr_groups := [(5, \<lparr>grp_id = 5, grp_count = 2, grp_createdAt = 100,
     grp_chunks = [(1, [7, 8])], grp_byteLength = 2\<rparr>)], fr_pendingBytes := 2, fr_expiryTimer := Some 29999\<rparr>"

lemma half_accept: "frame_accept example_reassembler (frame_value half_frame) (Some 100) (Some 101) =
    (half_reassembler, Inr (FrIncomplete 5 (Suc 0) 2))"
proof -
  have "frame_ok half_frame" by (simp add: frame_ok_def half_frame_def MAX_FRAME_ID_def MAX_FRAME_COUNT_def MAX_FRAME_PAYLOAD_BYTES_def)
  then show ?thesis
    by (simp add: frame_accept_def normalize_frame_value requireTime_def frame_expire_def example_reassembler_def accept_frame_def
        half_frame_def accept_chunk_def Let_def scheduleExpiry_def nextExpiryAt_def expires_at_def half_reassembler_def)
qed

lemma half_reachable:
  "reachable frame_start (any_step pr) half_reassembler" "reachable frame_start (timed_step pr) half_reassembler"
proof -
  have start: "frame_start example_reassembler" using example_new by (auto simp: frame_start_def)
  show "reachable frame_start (any_step pr) half_reassembler"
    by (rule reachable_step [OF reachable_start [where start = frame_start, OF start],
         where a = "OpAccept (frame_value half_frame) (Some 100) (Some 101)"])
       (simp add: half_accept)
  show "reachable frame_start (timed_step pr) half_reassembler"
    by (rule reachable_step [OF reachable_start [where start = frame_start, OF start],
         where a = "OpAccept (frame_value half_frame) (Some 100) (Some 101)"])
       (auto simp: timed_step_def clock_ok_def requireTime_def half_accept)
qed

text \<open>A payload of two frames, the second of one byte; the codec knows their values.\<close>

definition long_payload :: bytes where
  "long_payload = replicate 16385 1"

definition long_frames :: "DataFrame list" where
  "long_frames = [\<lparr>df_id = 9, df_index = 0, df_count = 2, df_bytes = replicate 16384 1\<rparr>,
     \<lparr>df_id = 9, df_index = 1, df_count = 2, df_bytes = [1]\<rparr>]"

definition frame_prims :: prims where
  "frame_prims = example_prims\<lparr>cbor2_encode := table_encode (map frame_value long_frames),
     cbor2_decode := table_decode (map frame_value long_frames)\<rparr>"

lemma long_slices: "frame_slice long_payload 0 = replicate 16384 1" "frame_slice long_payload 1 = [1]"
  by (simp_all add: frame_slice_def long_payload_def MAX_FRAME_PAYLOAD_BYTES_def min_def)

lemma long_split: "splitDataFrames (JBytes long_payload) (jnat 9) = Inr long_frames"
proof -
  have two: "max 1 (frames_needed (length long_payload)) = 2" and upt: "[0..<2] = [0, 1 :: nat]"
    by (simp_all add: frames_needed_def long_payload_def MAX_FRAME_PAYLOAD_BYTES_def upt_rec)
  have "expectUnsignedInteger (jnat 9) ''Frame.id'' (int MAX_FRAME_ID) = Inr 9"
    by (simp add: expectUnsignedInteger_def MAX_SAFE_INTEGER_def MAX_FRAME_ID_def)
  then show ?thesis
    using two upt long_slices
    by (simp add: splitDataFrames_def Let_def frame_requireBytes_def long_frames_def MAX_FRAME_COUNT_def)
qed

lemma frame_texts: "wellFormedString (ascii ''id'')" "wellFormedString (ascii ''index'')"
  "wellFormedString (ascii ''count'')" "wellFormedString (ascii ''bytes'')"
  by (simp_all add: ascii_def)

lemma frame_laws: "codec_laws frame_prims"
proof (rule table_codec_laws)
  show "\<forall>v \<in> set (map frame_value long_frames). normalizeDecodedValue (raw v) = Inr v"
    by (simp add: long_frames_def frame_value_def normalizeDecodedValue_def normalizeValue.simps assertDepth_def
        assertWellFormedString_def frame_texts supportedNumber_def MAX_SAFE_INTEGER_def MAX_CBOR_NESTING_DEPTH_def)
qed (simp_all add: frame_prims_def)

lemma long_encode: "mapM_res (\<lambda>f. encodeDataFrame frame_prims (frame_value f)) long_frames = Inr [[0], [0, 0]]"
proof -
  have ok: "\<forall>f \<in> set long_frames. frame_ok f"
    by (simp add: long_frames_def frame_ok_def MAX_FRAME_ID_def MAX_FRAME_COUNT_def MAX_FRAME_PAYLOAD_BYTES_def)
  have "\<forall>f \<in> set long_frames. assertCborValue (frame_value f) = Inr ()"
    by (simp add: long_frames_def frame_value_def assertCborValue_iff frame_texts MAX_SAFE_INTEGER_def MAX_CBOR_NESTING_DEPTH_def)
  moreover have "cbor2_encode frame_prims (frame_value (long_frames ! 0)) = Some [0]"
    "cbor2_encode frame_prims (frame_value (long_frames ! 1)) = Some [0, 0]"
    by (simp_all add: frame_prims_def table_encode_def long_frames_def frame_value_def upt_rec)
  ultimately show ?thesis
    using ok by (simp add: long_frames_def encodeDataFrame_def normalize_frame_value encodeCanonical_def)
qed

lemma half_room: "map_of (fr_groups half_reassembler) 9 = None" "fr_timeoutMs half_reassembler = 30000"
  "length (fr_groups half_reassembler) < fr_maxPendingGroups half_reassembler"
  "fr_pendingBytes half_reassembler + int (length long_payload) \<le> int (fr_maxPendingBytes half_reassembler)"
  "length long_payload \<le> fr_maxMessageBytes half_reassembler" "length long_frames \<le> fr_maxFramesPerMessage half_reassembler"
  by (simp_all add: half_reassembler_def example_reassembler_def long_payload_def long_frames_def)

theorem frames_arrive_witness:
  "snd (accept_all frame_prims half_reassembler [([0, 0], 200, 200), ([0], 250, 251)]) =
     [Inr (FrIncomplete 9 (Suc 0) 2), Inr (FrComplete 9 long_payload)]"
proof -
  have "snd (accept_all frame_prims half_reassembler (zip [[0, 0], [0]] [(200, 200), (250, 251)])) =
      map (\<lambda>k. Inr (FrIncomplete 9 (Suc k) (length long_frames))) [0..<length long_frames - 1] @ [Inr (FrComplete 9 long_payload)] \<and>
    map_of (fr_groups (fst (accept_all frame_prims half_reassembler (zip [[0, 0], [0]] [(200, 200), (250, 251)])))) 9 = None"
    by (rule frames_arrive [OF frame_laws half_reachable(1) long_split long_encode])
       (simp_all add: half_room MAX_ENCODED_FRAME_BYTES_def)
  then show ?thesis by (simp add: long_frames_def del: accept_all.simps)
qed

theorem reassembler_bounded_witness:
  "fr_pendingBytes half_reassembler \<le> int (fr_maxPendingBytes half_reassembler) \<and>
   fr_pendingBytes half_reassembler = int (sum_list (map (\<lambda>e. sum_list (map (\<lambda>c. length (snd c)) (grp_chunks (snd e)))) (fr_groups half_reassembler))) \<and>
   fr_expiryTimer half_reassembler \<noteq> None"
proof -
  have "fr_scheduleExpiryEnabled half_reassembler" "fr_groups half_reassembler \<noteq> []"
    by (simp_all add: half_reassembler_def example_reassembler_def)
  then show ?thesis using reassembler_bounded [of example_prims half_reassembler] half_reachable [of example_prims] by blast
qed

theorem reassembler_throws_only_example:
  "snd (frame_accept half_reassembler JNull (Some 200) (Some 201)) = Inl (FrameInvalid (ProtocolSchemaError ''Frame'' ''must be a map'')) \<and>
   ((\<exists>p. normalizeFrame JNull = Inl p \<and> FrameInvalid (ProtocolSchemaError ''Frame'' ''must be a map'') = FrameInvalid p) \<or>
    (\<exists>c. (requireTime (Some 200) = Inl c \<or> requireTime (Some 201) = Inl c) \<and>
       FrameInvalid (ProtocolSchemaError ''Frame'' ''must be a map'') = FrameInvalid (JsError c)))"
proof -
  have "snd (frame_accept half_reassembler JNull (Some 200) (Some 201)) = Inl (FrameInvalid (ProtocolSchemaError ''Frame'' ''must be a map''))"
    by (simp add: frame_accept_def normalizeFrame_def frame_object_def)
  with reassembler_throws_only [OF half_reachable(1) this] show ?thesis by blast
qed

end
