(* ===== verification/Ristretto_Group.thy ===== *)
theory Ristretto_Group
  imports Protocol_Envelope
begin

text \<open>
  \<^verbatim>\<open>packages/crypto/src/ristretto.ts\<close>: points and scalars of the ristretto255 group. The group itself is the
  package \<open>@noble/curves\<close>: its operations are the fields of the record \<open>ristretto\<close> over an arbitrary
  type of points, and \<open>ristretto_laws\<close> states what that package documents of them. A scalar is a
  natural number that the code keeps below the group order.
\<close>

section \<open>The library\<close>

record 'p ristretto =
  nr_base :: 'p
  nr_zero :: 'p
  nr_add :: "'p \<Rightarrow> 'p \<Rightarrow> 'p"
  nr_subtract :: "'p \<Rightarrow> 'p \<Rightarrow> 'p"
  nr_negate :: "'p \<Rightarrow> 'p"
  nr_multiply :: "'p \<Rightarrow> nat \<Rightarrow> 'p"
  nr_equals :: "'p \<Rightarrow> 'p \<Rightarrow> bool"
  nr_is0 :: "'p \<Rightarrow> bool"
  nr_toBytes :: "'p \<Rightarrow> bytes"
  nr_fromBytes :: "bytes \<Rightarrow> 'p option"
  nr_deriveToCurve :: "bytes \<Rightarrow> 'p"
  nr_order :: nat
  fn_add :: "nat \<Rightarrow> nat \<Rightarrow> nat"
  fn_sub :: "nat \<Rightarrow> nat \<Rightarrow> nat"
  fn_mul :: "nat \<Rightarrow> nat \<Rightarrow> nat"
  fn_neg :: "nat \<Rightarrow> nat"
  fn_toBytes :: "nat \<Rightarrow> bytes"
  fn_fromBytes :: "bytes \<Rightarrow> nat option"
  bytesToNumberLE :: "bytes \<Rightarrow> nat"

primrec times_point :: "'p ristretto \<Rightarrow> nat \<Rightarrow> 'p \<Rightarrow> 'p" where
  "times_point G 0 P = nr_zero G"
| "times_point G (Suc n) P = nr_add G P (times_point G n P)"

text \<open>An abelian group in which the base point has the given order, with multiplication by scalars and arithmetic modulo the order.\<close>

definition ristretto_laws :: "'p ristretto \<Rightarrow> bool" where
  "ristretto_laws G \<longleftrightarrow>
     (\<forall>P Q R. nr_add G (nr_add G P Q) R = nr_add G P (nr_add G Q R)) \<and>
     (\<forall>P Q. nr_add G P Q = nr_add G Q P) \<and> (\<forall>P. nr_add G (nr_zero G) P = P) \<and>
     (\<forall>P. nr_add G P (nr_negate G P) = nr_zero G) \<and> (\<forall>P Q. nr_subtract G P Q = nr_add G P (nr_negate G Q)) \<and>
     1 < nr_order G \<and> (\<forall>P. times_point G (nr_order G) P = nr_zero G) \<and>
     (\<forall>k. 0 < k \<and> k < nr_order G \<longrightarrow> times_point G k (nr_base G) \<noteq> nr_zero G) \<and>
     (\<forall>k P. 0 < k \<and> k < nr_order G \<longrightarrow> nr_multiply G P k = times_point G k P) \<and>
     (\<forall>P Q. nr_equals G P Q \<longleftrightarrow> P = Q) \<and> (\<forall>P. nr_is0 G P \<longleftrightarrow> P = nr_zero G) \<and>
     (\<forall>P. length (nr_toBytes G P) = 32 \<and> nr_fromBytes G (nr_toBytes G P) = Some P) \<and>
     (\<forall>a b. a < nr_order G \<and> b < nr_order G \<longrightarrow> fn_add G a b = (a + b) mod nr_order G \<and>
        fn_mul G a b = a * b mod nr_order G \<and> fn_sub G a b = (a + nr_order G - b) mod nr_order G) \<and>
     (\<forall>a. a < nr_order G \<longrightarrow> fn_neg G a = (nr_order G - a) mod nr_order G \<and>
        length (fn_toBytes G a) = 32 \<and> fn_fromBytes G (fn_toBytes G a) = Some a)"

section \<open>Points and scalars\<close>

datatype ristretto_error = RistrettoEncodingError string | RistrettoJsError js_error

definition RISTRETTO_POINT_LENGTH :: nat where
  "RISTRETTO_POINT_LENGTH = 32"
definition RISTRETTO_SCALAR_LENGTH :: nat where
  "RISTRETTO_SCALAR_LENGTH = 32"
definition RISTRETTO_UNIFORM_BYTES_LENGTH :: nat where
  "RISTRETTO_UNIFORM_BYTES_LENGTH = 64"

definition scalarFromBigInt :: "'p ristretto \<Rightarrow> int \<Rightarrow> ristretto_error + nat" where
  "scalarFromBigInt G v =
     (if v < 0 \<or> v \<ge> int (nr_order G)
      then Inl (RistrettoJsError (RangeError ''Ristretto scalar must be in the canonical range 0 <= s < q''))
      else Inr (nat v))"

definition assertScalar :: "'p ristretto \<Rightarrow> nat \<Rightarrow> ristretto_error + unit" where
  "assertScalar G v = rbind (scalarFromBigInt G (int v)) (\<lambda>_. Inr ())"

definition point_fromBytes :: "'p ristretto \<Rightarrow> bytes \<Rightarrow> ristretto_error + 'p" where
  "point_fromBytes G b =
     (if length b \<noteq> RISTRETTO_POINT_LENGTH
      then Inl (RistrettoEncodingError ''Ristretto point must contain exactly the required bytes'')
      else case nr_fromBytes G b of
        None \<Rightarrow> Inl (RistrettoEncodingError ''Invalid Ristretto point encoding'')
      | Some P \<Rightarrow> if \<not> bytesEqual (nr_toBytes G P) b
                  then Inl (RistrettoEncodingError ''Ristretto point encoding is not canonical'') else Inr P)"

definition fromUniformBytes :: "'p ristretto \<Rightarrow> bytes \<Rightarrow> ristretto_error + 'p" where
  "fromUniformBytes G b =
     (if length b \<noteq> RISTRETTO_UNIFORM_BYTES_LENGTH
      then Inl (RistrettoEncodingError ''Ristretto uniform input must contain exactly the required bytes'')
      else Inr (nr_deriveToCurve G b))"

definition point_multiply :: "'p ristretto \<Rightarrow> 'p \<Rightarrow> nat \<Rightarrow> ristretto_error + 'p" where
  "point_multiply G P scalar =
     rbind (assertScalar G scalar) (\<lambda>_. if scalar = 0 then Inr (nr_zero G) else Inr (nr_multiply G P scalar))"

definition decodeRistrettoScalar :: "'p ristretto \<Rightarrow> bytes \<Rightarrow> ristretto_error + nat" where
  "decodeRistrettoScalar G b =
     (if length b \<noteq> RISTRETTO_SCALAR_LENGTH
      then Inl (RistrettoEncodingError ''Ristretto scalar must contain exactly the required bytes'')
      else case fn_fromBytes G b of
        None \<Rightarrow> Inl (RistrettoEncodingError ''Invalid Ristretto scalar encoding'')
      | Some s \<Rightarrow> if \<not> bytesEqual (fn_toBytes G s) b
                  then Inl (RistrettoEncodingError ''Ristretto scalar encoding is not canonical'')
                  else catch_as (scalarFromBigInt G (int s)) (\<lambda>_. RistrettoEncodingError ''Invalid Ristretto scalar encoding''))"

definition encodeRistrettoScalar :: "'p ristretto \<Rightarrow> nat \<Rightarrow> ristretto_error + bytes" where
  "encodeRistrettoScalar G s = rbind (assertScalar G s) (\<lambda>_. Inr (fn_toBytes G s))"

definition reduceWideRistrettoScalar :: "'p ristretto \<Rightarrow> bytes \<Rightarrow> ristretto_error + nat" where
  "reduceWideRistrettoScalar G b =
     (if length b \<noteq> RISTRETTO_UNIFORM_BYTES_LENGTH
      then Inl (RistrettoEncodingError ''Ristretto wide scalar input must contain exactly the required bytes'')
      else scalarFromBigInt G (int (bytesToNumberLE G b mod nr_order G)))"

text \<open>The top three bits of the candidate are cleared; the loop may run for ever, which is \<open>None\<close>.\<close>

definition mask_top :: "bytes \<Rightarrow> bytes" where
  "mask_top b = b[RISTRETTO_SCALAR_LENGTH - 1 := and (b ! (RISTRETTO_SCALAR_LENGTH - 1)) 0x1f]"

partial_function (option) randomNonZeroRistrettoScalar :: "'p ristretto \<Rightarrow> 's source \<Rightarrow> 's \<Rightarrow> (nat \<times> 's) option" where
  "randomNonZeroRistrettoScalar G fill s =
     (let (b, s') = randomBytes fill RISTRETTO_SCALAR_LENGTH s; candidate = bytesToNumberLE G (mask_top b) in
      if candidate > 0 \<and> candidate < nr_order G then Some (candidate, s') else randomNonZeroRistrettoScalar G fill s')"

definition addRistrettoScalars :: "'p ristretto \<Rightarrow> nat \<Rightarrow> nat \<Rightarrow> ristretto_error + nat" where
  "addRistrettoScalars G a b = rbind (assertScalar G a) (\<lambda>_. rbind (assertScalar G b) (\<lambda>_. Inr (fn_add G a b)))"
definition subtractRistrettoScalars :: "'p ristretto \<Rightarrow> nat \<Rightarrow> nat \<Rightarrow> ristretto_error + nat" where
  "subtractRistrettoScalars G a b = rbind (assertScalar G a) (\<lambda>_. rbind (assertScalar G b) (\<lambda>_. Inr (fn_sub G a b)))"
definition multiplyRistrettoScalars :: "'p ristretto \<Rightarrow> nat \<Rightarrow> nat \<Rightarrow> ristretto_error + nat" where
  "multiplyRistrettoScalars G a b = rbind (assertScalar G a) (\<lambda>_. rbind (assertScalar G b) (\<lambda>_. Inr (fn_mul G a b)))"
definition negateRistrettoScalar :: "'p ristretto \<Rightarrow> nat \<Rightarrow> ristretto_error + nat" where
  "negateRistrettoScalar G a = rbind (assertScalar G a) (\<lambda>_. Inr (fn_neg G a))"

section \<open>Encoded fields (\<^verbatim>\<open>packages/protocol/src/fields.ts\<close>)\<close>

definition parseRistrettoPointEncoding :: "'p ristretto \<Rightarrow> jsval \<Rightarrow> protocol_error + bytes" where
  "parseRistrettoPointEncoding G v =
     rbind (parseFixedBytes v 32 ''ristretto255_point'') (\<lambda>encoded.
     rbind (catch_as (point_fromBytes G encoded) (\<lambda>_. ProtocolFieldError ''ristretto255_point'' ''is not a valid canonical encoding'')) (\<lambda>_.
     Inr encoded))"

definition parseScalarEncoding :: "'p ristretto \<Rightarrow> jsval \<Rightarrow> protocol_error + bytes" where
  "parseScalarEncoding G v =
     rbind (parseFixedBytes v 32 ''ristretto255_scalar'') (\<lambda>encoded.
     rbind (catch_as (decodeRistrettoScalar G encoded) (\<lambda>_. ProtocolFieldError ''ristretto255_scalar'' ''is not a valid canonical encoding'')) (\<lambda>_.
     Inr encoded))"

section \<open>The group\<close>

lemma ristrettoD:
  assumes "ristretto_laws G"
  shows "nr_add G (nr_add G P Q) R = nr_add G P (nr_add G Q R)" "nr_add G P Q = nr_add G Q P" "nr_add G (nr_zero G) P = P"
    "nr_add G P (nr_negate G P) = nr_zero G" "nr_subtract G P Q = nr_add G P (nr_negate G Q)" "1 < nr_order G"
    "times_point G (nr_order G) P = nr_zero G" "nr_equals G P Q \<longleftrightarrow> P = Q" "nr_is0 G P \<longleftrightarrow> P = nr_zero G"
    "length (nr_toBytes G P) = 32" "nr_fromBytes G (nr_toBytes G P) = Some P"
  using assms unfolding ristretto_laws_def by (elim conjE; iprover)+

lemma ristretto_scalarD:
  assumes "ristretto_laws G"
  shows "0 < k \<Longrightarrow> k < nr_order G \<Longrightarrow> times_point G k (nr_base G) \<noteq> nr_zero G"
    "0 < k \<Longrightarrow> k < nr_order G \<Longrightarrow> nr_multiply G P k = times_point G k P"
    "a < nr_order G \<Longrightarrow> b < nr_order G \<Longrightarrow> fn_add G a b = (a + b) mod nr_order G"
    "a < nr_order G \<Longrightarrow> b < nr_order G \<Longrightarrow> fn_mul G a b = a * b mod nr_order G"
    "a < nr_order G \<Longrightarrow> length (fn_toBytes G a) = 32" "a < nr_order G \<Longrightarrow> fn_fromBytes G (fn_toBytes G a) = Some a"
  using assms unfolding ristretto_laws_def by (elim conjE; iprover)+

lemma point_left_commute: "ristretto_laws G \<Longrightarrow> nr_add G P (nr_add G Q R) = nr_add G Q (nr_add G P R)"
  by (metis ristrettoD(1,2))

lemma point_cancel: "ristretto_laws G \<Longrightarrow> nr_add G P Q = nr_add G P R \<longleftrightarrow> Q = R"
  by (metis ristrettoD(1-4))

lemma point_add_zero: "ristretto_laws G \<Longrightarrow> nr_add G P (nr_zero G) = P"
  by (metis ristrettoD(2,3))

lemma subtract_add: "ristretto_laws G \<Longrightarrow> nr_subtract G (nr_add G P Q) Q = P"
  by (metis ristrettoD(1,4,5) point_add_zero)

lemmas point_ac = ristrettoD(1) ristrettoD(2) point_left_commute

lemma times_point_add: "ristretto_laws G \<Longrightarrow> times_point G (m + n) P = nr_add G (times_point G m P) (times_point G n P)"
  by (induction m) (simp_all add: ristrettoD(1,3))

lemma times_point_zero: "ristretto_laws G \<Longrightarrow> times_point G n (nr_zero G) = nr_zero G"
  by (induction n) (simp_all add: ristrettoD(3))

lemma times_point_sum: "ristretto_laws G \<Longrightarrow> times_point G n (nr_add G P Q) = nr_add G (times_point G n P) (times_point G n Q)"
proof (induction n)
  case (Suc n)
  then show ?case by simp (metis ristrettoD(1,2))
qed (simp add: ristrettoD(3))

lemma times_point_mult: "ristretto_laws G \<Longrightarrow> times_point G (m * n) P = times_point G m (times_point G n P)"
  by (induction m) (simp_all add: times_point_add)

lemma times_point_mod: "ristretto_laws G \<Longrightarrow> times_point G (n mod nr_order G) P = times_point G n P"
proof -
  assume laws: "ristretto_laws G"
  have "times_point G n P = nr_add G (times_point G (n div nr_order G * nr_order G) P) (times_point G (n mod nr_order G) P)"
    using times_point_add [OF laws, of "n div nr_order G * nr_order G" "n mod nr_order G" P] by simp
  then show ?thesis by (simp add: times_point_mult [OF laws] ristrettoD [OF laws] times_point_zero [OF laws])
qed

lemma assertScalar_Inr: "assertScalar G s = Inr u \<longleftrightarrow> s < nr_order G"
  by (auto simp: assertScalar_def scalarFromBigInt_def)

lemma assertScalar_ok: "s < nr_order G \<Longrightarrow> assertScalar G s = Inr ()"
  by (simp add: assertScalar_Inr)

lemma point_multiply_Inr: "ristretto_laws G \<Longrightarrow> point_multiply G P s = Inr Q \<longleftrightarrow> s < nr_order G \<and> Q = times_point G s P"
  by (auto simp: point_multiply_def result_simps assertScalar_Inr ristretto_scalarD)

lemma point_multiply_ok: "ristretto_laws G \<Longrightarrow> s < nr_order G \<Longrightarrow> point_multiply G P s = Inr (times_point G s P)"
  by (simp add: point_multiply_Inr)

lemma add_scalars_ok: "ristretto_laws G \<Longrightarrow> a < nr_order G \<Longrightarrow> b < nr_order G \<Longrightarrow> addRistrettoScalars G a b = Inr ((a + b) mod nr_order G)"
  by (simp add: addRistrettoScalars_def assertScalar_ok ristretto_scalarD)

lemma multiply_scalars_ok: "ristretto_laws G \<Longrightarrow> a < nr_order G \<Longrightarrow> b < nr_order G \<Longrightarrow> multiplyRistrettoScalars G a b = Inr (a * b mod nr_order G)"
  by (simp add: multiplyRistrettoScalars_def assertScalar_ok ristretto_scalarD)

lemma base_multiple_nonzero: "ristretto_laws G \<Longrightarrow> s < nr_order G \<Longrightarrow> times_point G s (nr_base G) = nr_zero G \<longleftrightarrow> s = 0"
  using ristretto_scalarD(1) by fastforce

lemma reduceWide_Inr: "reduceWideRistrettoScalar G b = Inr c \<Longrightarrow> c < nr_order G"
  by (auto simp: reduceWideRistrettoScalar_def scalarFromBigInt_def split: if_splits)

lemma random_scalar_range: "randomNonZeroRistrettoScalar G fill s = Some (n, s') \<Longrightarrow> 0 < n \<and> n < nr_order G"
proof -
  assume "randomNonZeroRistrettoScalar G fill s = Some (n, s')"
  then have "0 < fst (n, s') \<and> fst (n, s') < nr_order G"
    by (rule randomNonZeroRistrettoScalar.raw_induct [where P = "\<lambda>G fill s r. 0 < fst r \<and> fst r < nr_order G", rotated])
       (auto simp: Let_def split: prod.splits if_splits)
  then show ?thesis by simp
qed

section \<open>Encodings\<close>

lemma point_bytes_roundtrip: "ristretto_laws G \<Longrightarrow> point_fromBytes G b = Inr P \<Longrightarrow> b = nr_toBytes G P"
  by (auto simp: point_fromBytes_def bytesEqual_iff split: option.splits if_splits)

lemma point_bytes_back: "ristretto_laws G \<Longrightarrow> point_fromBytes G (nr_toBytes G P) = Inr P"
  by (simp add: point_fromBytes_def RISTRETTO_POINT_LENGTH_def ristrettoD(10,11) bytesEqual_iff)

lemma scalar_bytes_roundtrip: "decodeRistrettoScalar G b = Inr s \<Longrightarrow> s < nr_order G \<and> b = fn_toBytes G s"
  by (auto simp: decodeRistrettoScalar_def bytesEqual_iff scalarFromBigInt_def split: option.splits if_splits)

lemma scalar_bytes_back: "ristretto_laws G \<Longrightarrow> s < nr_order G \<Longrightarrow> decodeRistrettoScalar G (fn_toBytes G s) = Inr s"
  by (simp add: decodeRistrettoScalar_def RISTRETTO_SCALAR_LENGTH_def ristretto_scalarD(5,6) bytesEqual_iff scalarFromBigInt_def)

lemma parsePoint_Inr:
  "ristretto_laws G \<Longrightarrow> parseRistrettoPointEncoding G v = Inr b \<longleftrightarrow> (\<exists>P. v = JBytes b \<and> b = nr_toBytes G P)"
  by (auto simp: parseRistrettoPointEncoding_def parseFixedBytes_def result_simps catch_as_def point_bytes_back ristrettoD(10)
      split: jsval.splits if_splits sum.splits dest: point_bytes_roundtrip)

lemma parseScalar_Inr:
  "ristretto_laws G \<Longrightarrow> parseScalarEncoding G v = Inr b \<longleftrightarrow> (\<exists>s < nr_order G. v = JBytes b \<and> b = fn_toBytes G s)"
  by (auto simp: parseScalarEncoding_def parseFixedBytes_def result_simps catch_as_def scalar_bytes_back ristretto_scalarD(5)
      split: jsval.splits if_splits sum.splits dest: scalar_bytes_roundtrip)

end
