(* ===== verification/Deck_Cards.thy ===== *)
theory Deck_Cards
  imports Ristretto_Group
begin

text \<open>
  \<^verbatim>\<open>packages/deck/src\<close>: masked cards (\<open>elgamal.ts\<close>), the proofs that come with keys and decryption
  shares (\<open>proofs.ts\<close>), and the points that stand for cards (\<open>card-points.ts\<close>), over the group of
  \<open>Ristretto_Group\<close>. Identifiers are strings by their type, so the checks of \<open>typeof\<close> have no case.
\<close>

section \<open>Masked cards\<close>

datatype deck_error =
    DeckTypeError string
  | DeckRangeError string
  | DeckSpecError string
  | DeckRistretto ristretto_error
  | DeckProtocol protocol_error

abbreviation groupTry :: "ristretto_error + 'a \<Rightarrow> deck_error + 'a" where
  "groupTry r \<equiv> catch_as r DeckRistretto"

record 'p MaskedCard =
  mc_A :: 'p
  mc_B :: 'p

definition initialMaskedCard :: "'p ristretto \<Rightarrow> 'p \<Rightarrow> 'p MaskedCard" where
  "initialMaskedCard G message = \<lparr>mc_A = nr_zero G, mc_B = message\<rparr>"

definition requireMaskingInputs :: "'p ristretto \<Rightarrow> nat \<Rightarrow> 'p \<Rightarrow> deck_error + unit" where
  "requireMaskingInputs G randomness aggregateKey =
     (if randomness = 0 then Inl (DeckTypeError ''Fresh masking randomness must be non-zero'')
      else if nr_is0 G aggregateKey then Inl (DeckTypeError ''Aggregate public key must not be the identity point'')
      else Inr ())"

definition maskCard :: "'p ristretto \<Rightarrow> 'p \<Rightarrow> nat \<Rightarrow> 'p \<Rightarrow> deck_error + 'p MaskedCard" where
  "maskCard G message randomness aggregateKey =
     rbind (requireMaskingInputs G randomness aggregateKey) (\<lambda>_.
     rbind (groupTry (point_multiply G (nr_base G) randomness)) (\<lambda>a.
     rbind (groupTry (point_multiply G aggregateKey randomness)) (\<lambda>b.
     Inr \<lparr>mc_A = a, mc_B = nr_add G message b\<rparr>)))"

definition remaskCard :: "'p ristretto \<Rightarrow> 'p MaskedCard \<Rightarrow> nat \<Rightarrow> 'p \<Rightarrow> deck_error + 'p MaskedCard" where
  "remaskCard G c randomness aggregateKey =
     rbind (requireMaskingInputs G randomness aggregateKey) (\<lambda>_.
     rbind (groupTry (point_multiply G (nr_base G) randomness)) (\<lambda>a.
     rbind (groupTry (point_multiply G aggregateKey randomness)) (\<lambda>b.
     Inr \<lparr>mc_A = nr_add G (mc_A c) a, mc_B = nr_add G (mc_B c) b\<rparr>)))"

fun aggregate_keys :: "'p ristretto \<Rightarrow> 'p \<Rightarrow> 'p list \<Rightarrow> deck_error + 'p" where
  "aggregate_keys G aggregate [] = Inr aggregate"
| "aggregate_keys G aggregate (key # keys) =
     (if nr_is0 G key then Inl (DeckTypeError ''Individual public keys must not be the identity point'')
      else aggregate_keys G (nr_add G aggregate key) keys)"

definition aggregatePublicKeys :: "'p ristretto \<Rightarrow> 'p list \<Rightarrow> deck_error + 'p" where
  "aggregatePublicKeys G keys =
     (if length keys = 0 then Inl (DeckRangeError ''At least one public key is required'')
      else rbind (aggregate_keys G (nr_zero G) keys) (\<lambda>aggregate.
        if nr_is0 G aggregate then Inl (DeckTypeError ''Aggregate public key must not be the identity point'')
        else Inr aggregate))"

definition decryptionShare :: "'p ristretto \<Rightarrow> nat \<Rightarrow> 'p \<Rightarrow> deck_error + 'p" where
  "decryptionShare G secretKey cardA =
     (if secretKey = 0 then Inl (DeckTypeError ''Decryption secret must be non-zero'')
      else groupTry (point_multiply G cardA secretKey))"

definition removeDecryptionShares :: "'p ristretto \<Rightarrow> 'p MaskedCard \<Rightarrow> 'p list \<Rightarrow> 'p" where
  "removeDecryptionShares G c shares = foldl (nr_subtract G) (mc_B c) shares"

section \<open>Points of cards\<close>

definition MIN_DECK_SIZE :: nat where
  "MIN_DECK_SIZE = 2"
definition MAX_DECK_SIZE :: nat where
  "MAX_DECK_SIZE = 128"

record DeckSpec =
  spec_id :: ustr
  spec_cards :: "ustr list"

record 'p CardPointTable =
  cpt_deckSpecId :: ustr
  cpt_cardIds :: "ustr list"
  cpt_points :: "'p list"
  cpt_cardByPoint :: "(string \<times> ustr) list"

definition deriveCardPoint :: "prims \<Rightarrow> 'p ristretto \<Rightarrow> ustr \<Rightarrow> ustr \<Rightarrow> deck_error + 'p" where
  "deriveCardPoint pr G deckSpecId cardId =
     rbind (catch_as (cardDerivationHash pr deckSpecId cardId) DeckProtocol) (\<lambda>h. groupTry (fromUniformBytes G h))"

text \<open>The loop over the cards; \<open>seenIds\<close> has the same identifiers as \<open>cardIds\<close>.\<close>

fun build_table ::
    "prims \<Rightarrow> 'p ristretto \<Rightarrow> ustr \<Rightarrow> ustr list \<Rightarrow> 'p list \<Rightarrow> (string \<times> ustr) list \<Rightarrow> ustr list \<Rightarrow> deck_error + 'p CardPointTable" where
  "build_table pr G sid cardIds points pointMap [] =
     Inr \<lparr>cpt_deckSpecId = sid, cpt_cardIds = cardIds, cpt_points = points, cpt_cardByPoint = pointMap\<rparr>"
| "build_table pr G sid cardIds points pointMap (cardId # cards) =
     (if length cardId = 0 then Inl (DeckSpecError ''Every card identifier must be a non-empty string'')
      else if cardId \<in> set cardIds then Inl (DeckSpecError ''Duplicate card identifier'')
      else rbind (catch_as (deriveCardPoint pr G sid cardId) (\<lambda>_. DeckSpecError ''Unable to derive card point'')) (\<lambda>point.
        let encoded = bytesToHex (nr_toBytes G point) in
        if map_of pointMap encoded \<noteq> None then Inl (DeckSpecError ''Card-point collision'')
        else build_table pr G sid (cardIds @ [cardId]) (points @ [point]) (AList.update encoded cardId pointMap) cards))"

definition newCardPointTable :: "prims \<Rightarrow> 'p ristretto \<Rightarrow> DeckSpec \<Rightarrow> deck_error + 'p CardPointTable" where
  "newCardPointTable pr G spec =
     (if length (spec_id spec) = 0 then Inl (DeckSpecError ''Deck specification ID must be a non-empty string'')
      else if length (spec_cards spec) < MIN_DECK_SIZE \<or> length (spec_cards spec) > MAX_DECK_SIZE
      then Inl (DeckSpecError ''Deck must contain 2 to 128 cards'')
      else build_table pr G (spec_id spec) [] [] [] (spec_cards spec))"

definition table_size :: "'p CardPointTable \<Rightarrow> nat" where
  "table_size table = length (cpt_cardIds table)"

definition assertPosition :: "jsnum \<Rightarrow> nat \<Rightarrow> deck_error + nat" where
  "assertPosition position n =
     (if position = JNonInteger \<or> numval position < 0 \<or> numval position \<ge> int n
      then Inl (DeckRangeError ''Card position must be an integer below the deck size'') else Inr (nat (numval position)))"

definition cardIdAt :: "'p CardPointTable \<Rightarrow> jsnum \<Rightarrow> deck_error + ustr" where
  "cardIdAt table position = rbind (assertPosition position (table_size table)) (\<lambda>i. Inr (cpt_cardIds table ! i))"

definition pointAt :: "'p CardPointTable \<Rightarrow> jsnum \<Rightarrow> deck_error + 'p" where
  "pointAt table position = rbind (assertPosition position (table_size table)) (\<lambda>i. Inr (cpt_points table ! i))"

definition identifyCard :: "'p ristretto \<Rightarrow> 'p CardPointTable \<Rightarrow> 'p \<Rightarrow> ustr option" where
  "identifyCard G table point = map_of (cpt_cardByPoint table) (bytesToHex (nr_toBytes G point))"

section \<open>Proofs\<close>

record ProofContext =
  pc_gameId :: bytes
  pc_round :: jsnum
  pc_phase :: ustr

definition proofChallengeScalar :: "prims \<Rightarrow> 'p ristretto \<Rightarrow> DomainPurpose \<Rightarrow> ProofContext \<Rightarrow> CborValue \<Rightarrow> deck_error + nat" where
  "proofChallengeScalar pr G purpose ctx statement =
     rbind (catch_as (proofChallengeInput pr purpose (pc_gameId ctx) (pc_round ctx) (pc_phase ctx) statement) DeckProtocol) (\<lambda>input.
     groupTry (reduceWideRistrettoScalar G (sha512 pr [input])))"

record 'p SchnorrProofOfPossession =
  pop_R :: 'p
  pop_z :: nat

record 'p GameKeyShare =
  ks_H :: 'p
  ks_pop :: "'p SchnorrProofOfPossession"

record 'p ChaumPedersenProof =
  cp_R1 :: 'p
  cp_R2 :: 'p
  cp_z :: nat

record 'p ProvenDecryptionShare =
  ds_S :: 'p
  ds_proof :: "'p ChaumPedersenProof"

definition keyProofChallenge :: "prims \<Rightarrow> 'p ristretto \<Rightarrow> ProofContext \<Rightarrow> 'p \<Rightarrow> 'p \<Rightarrow> deck_error + nat" where
  "keyProofChallenge pr G ctx publicKey commitment =
     proofChallengeScalar pr G ProofOfPossessionD ctx
       (JObject [(ascii ''H'', JBytes (nr_toBytes G publicKey)), (ascii ''R'', JBytes (nr_toBytes G commitment))])"

definition decryptionProofChallenge ::
    "prims \<Rightarrow> 'p ristretto \<Rightarrow> ProofContext \<Rightarrow> jsnum \<Rightarrow> 'p \<Rightarrow> 'p \<Rightarrow> 'p \<Rightarrow> 'p \<Rightarrow> 'p \<Rightarrow> deck_error + nat" where
  "decryptionProofChallenge pr G ctx position publicKey cardA share firstCommitment secondCommitment =
     proofChallengeScalar pr G DecryptionShareD ctx
       (JObject [(ascii ''pos'', JNumber position), (ascii ''H'', JBytes (nr_toBytes G publicKey)),
          (ascii ''A'', JBytes (nr_toBytes G cardA)), (ascii ''S'', JBytes (nr_toBytes G share)),
          (ascii ''R1'', JBytes (nr_toBytes G firstCommitment)), (ascii ''R2'', JBytes (nr_toBytes G secondCommitment))])"

definition requireNonZeroScalar :: "nat \<Rightarrow> string \<Rightarrow> deck_error + unit" where
  "requireNonZeroScalar v label = (if v = 0 then Inl (DeckTypeError (label @ '' must be non-zero'')) else Inr ())"

definition requirePosition :: "jsnum \<Rightarrow> deck_error + unit" where
  "requirePosition n =
     (if n = JNonInteger \<or> numval n < 0 \<or> numval n > 127
      then Inl (DeckRangeError ''Card position must be an integer from 0 through 127'') else Inr ())"

definition createGameKeyShare ::
    "prims \<Rightarrow> 'p ristretto \<Rightarrow> ProofContext \<Rightarrow> nat \<Rightarrow> 's source \<Rightarrow> 's \<Rightarrow> deck_error + ('p GameKeyShare \<times> 's) option" where
  "createGameKeyShare pr G ctx secretKey fill s =
     rbind (requireNonZeroScalar secretKey ''Game secret'') (\<lambda>_.
     rbind (groupTry (point_multiply G (nr_base G) secretKey)) (\<lambda>publicKey.
     case randomNonZeroRistrettoScalar G fill s of
       None \<Rightarrow> Inr None
     | Some (nonce, s') \<Rightarrow>
         rbind (groupTry (point_multiply G (nr_base G) nonce)) (\<lambda>commitment.
         rbind (keyProofChallenge pr G ctx publicKey commitment) (\<lambda>challenge.
         rbind (groupTry (multiplyRistrettoScalars G challenge secretKey)) (\<lambda>product.
         rbind (groupTry (addRistrettoScalars G nonce product)) (\<lambda>z.
         Inr (Some (\<lparr>ks_H = publicKey, ks_pop = \<lparr>pop_R = commitment, pop_z = z\<rparr>\<rparr>, s'))))))))"

definition verified :: "deck_error + bool \<Rightarrow> bool" where
  "verified r = (case r of Inl _ \<Rightarrow> False | Inr b \<Rightarrow> b)"

definition verifyGameKeyShare :: "prims \<Rightarrow> 'p ristretto \<Rightarrow> ProofContext \<Rightarrow> 'p GameKeyShare \<Rightarrow> bool" where
  "verifyGameKeyShare pr G ctx share = verified (
     if nr_is0 G (ks_H share) then Inr False
     else rbind (keyProofChallenge pr G ctx (ks_H share) (pop_R (ks_pop share))) (\<lambda>challenge.
       rbind (groupTry (point_multiply G (nr_base G) (pop_z (ks_pop share)))) (\<lambda>left.
       rbind (groupTry (point_multiply G (ks_H share) challenge)) (\<lambda>scaled.
       Inr (nr_equals G left (nr_add G (pop_R (ks_pop share)) scaled))))))"

definition createProvenDecryptionShare ::
    "prims \<Rightarrow> 'p ristretto \<Rightarrow> ProofContext \<Rightarrow> jsnum \<Rightarrow> nat \<Rightarrow> 'p \<Rightarrow> 's source \<Rightarrow> 's \<Rightarrow> deck_error + ('p ProvenDecryptionShare \<times> 's) option" where
  "createProvenDecryptionShare pr G ctx position secretKey cardA fill s =
     rbind (requirePosition position) (\<lambda>_.
     rbind (requireNonZeroScalar secretKey ''Game secret'') (\<lambda>_.
     rbind (groupTry (point_multiply G (nr_base G) secretKey)) (\<lambda>publicKey.
     rbind (decryptionShare G secretKey cardA) (\<lambda>share.
     case randomNonZeroRistrettoScalar G fill s of
       None \<Rightarrow> Inr None
     | Some (nonce, s') \<Rightarrow>
         rbind (groupTry (point_multiply G (nr_base G) nonce)) (\<lambda>r1.
         rbind (groupTry (point_multiply G cardA nonce)) (\<lambda>r2.
         rbind (decryptionProofChallenge pr G ctx position publicKey cardA share r1 r2) (\<lambda>challenge.
         rbind (groupTry (multiplyRistrettoScalars G challenge secretKey)) (\<lambda>product.
         rbind (groupTry (addRistrettoScalars G nonce product)) (\<lambda>z.
         Inr (Some (\<lparr>ds_S = share, ds_proof = \<lparr>cp_R1 = r1, cp_R2 = r2, cp_z = z\<rparr>\<rparr>, s')))))))))))"

definition decryption_equations :: "'p ristretto \<Rightarrow> 'p \<Rightarrow> 'p \<Rightarrow> 'p ProvenDecryptionShare \<Rightarrow> nat \<Rightarrow> deck_error + bool" where
  "decryption_equations G publicKey cardA share challenge =
     rbind (groupTry (point_multiply G (nr_base G) (cp_z (ds_proof share)))) (\<lambda>left1.
     rbind (groupTry (point_multiply G publicKey challenge)) (\<lambda>scaled1.
     rbind (groupTry (point_multiply G cardA (cp_z (ds_proof share)))) (\<lambda>left2.
     rbind (groupTry (point_multiply G (ds_S share) challenge)) (\<lambda>scaled2.
     Inr (nr_equals G left1 (nr_add G (cp_R1 (ds_proof share)) scaled1) \<and>
          nr_equals G left2 (nr_add G (cp_R2 (ds_proof share)) scaled2))))))"

definition verifyProvenDecryptionShare ::
    "prims \<Rightarrow> 'p ristretto \<Rightarrow> ProofContext \<Rightarrow> jsnum \<Rightarrow> 'p \<Rightarrow> 'p \<Rightarrow> 'p ProvenDecryptionShare \<Rightarrow> bool" where
  "verifyProvenDecryptionShare pr G ctx position publicKey cardA share = verified (
     rbind (requirePosition position) (\<lambda>_.
     if nr_is0 G publicKey then Inr False
     else rbind (decryptionProofChallenge pr G ctx position publicKey cardA (ds_S share)
                   (cp_R1 (ds_proof share)) (cp_R2 (ds_proof share))) (\<lambda>challenge.
       decryption_equations G publicKey cardA share challenge)))"

end
