(* ===== verification/Deck_Theorems.thy ===== *)
theory Deck_Theorems
  imports Deck_Cards Protocol_Envelope_Props
begin

text \<open>
  The deck is correct: a card that any number of players masked opens to itself when every player
  removes a share, proofs of keys and of shares verify, and a share that answers two challenges is
  the share of the key's owner.
\<close>

section \<open>Opening a masked card\<close>

abbreviation public_key :: "'p ristretto \<Rightarrow> nat \<Rightarrow> 'p" where
  "public_key G sk \<equiv> times_point G sk (nr_base G)"

definition usable :: "'p ristretto \<Rightarrow> nat \<Rightarrow> bool" where
  "usable G s \<longleftrightarrow> 0 < s \<and> s < nr_order G"

lemma aggregate_keys_Inr:
  assumes "ristretto_laws G"
  shows "aggregate_keys G acc keys = Inr K \<Longrightarrow> K = foldl (nr_add G) acc keys \<and> (\<forall>k \<in> set keys. k \<noteq> nr_zero G)"
  by (induction keys arbitrary: acc) (auto simp: ristrettoD [OF assms] split: if_splits)

lemma foldl_public_keys:
  assumes "ristretto_laws G"
  shows "foldl (nr_add G) (times_point G n (nr_base G)) (map (public_key G) sks) = times_point G (n + sum_list sks) (nr_base G)"
  by (induction sks arbitrary: n) (simp_all add: times_point_add [OF assms, symmetric] add.assoc)

lemma aggregate_public_keys:
  assumes "ristretto_laws G" "aggregatePublicKeys G (map (public_key G) sks) = Inr K"
  shows "K = times_point G (sum_list sks) (nr_base G)" "K \<noteq> nr_zero G"
  using assms(2) aggregate_keys_Inr [OF assms(1), of "nr_zero G" "map (public_key G) sks"] foldl_public_keys [OF assms(1), of 0 sks]
  by (auto simp: aggregatePublicKeys_def result_simps ristrettoD [OF assms(1)] split: if_splits)

lemma remask_ok:
  assumes "ristretto_laws G" "usable G r" "K \<noteq> nr_zero G"
  shows "remaskCard G c r K = Inr \<lparr>mc_A = nr_add G (mc_A c) (times_point G r (nr_base G)), mc_B = nr_add G (mc_B c) (times_point G r K)\<rparr>"
  using assms by (simp add: remaskCard_def requireMaskingInputs_def usable_def ristrettoD point_multiply_ok)

lemma mask_is_remask: "ristretto_laws G \<Longrightarrow> maskCard G m r K = remaskCard G (initialMaskedCard G m) r K"
  by (auto simp: maskCard_def remaskCard_def initialMaskedCard_def rbind_def ristrettoD(3) split: sum.splits)

lemma remask_chain:
  assumes "ristretto_laws G" "K \<noteq> nr_zero G" "\<forall>r \<in> set rs. usable G r"
  shows "foldM_res (\<lambda>c r. remaskCard G c r K) \<lparr>mc_A = times_point G n (nr_base G), mc_B = nr_add G m (times_point G n K)\<rparr> rs =
    Inr \<lparr>mc_A = times_point G (n + sum_list rs) (nr_base G), mc_B = nr_add G m (times_point G (n + sum_list rs) K)\<rparr>"
  using assms(3)
  by (induction rs arbitrary: n)
     (simp_all add: remask_ok [OF assms(1) _ assms(2)] ristrettoD(1) [OF assms(1)] times_point_add [OF assms(1), symmetric] add.assoc)

lemma remove_shares:
  assumes "ristretto_laws G"
  shows "foldl (nr_subtract G) (nr_add G m (times_point G (sum_list sks) P)) (map (\<lambda>sk. times_point G sk P) sks) = m"
proof (induction sks)
  case (Cons sk sks)
  have "nr_add G m (times_point G (sk + sum_list sks) P) = nr_add G (nr_add G m (times_point G (sum_list sks) P)) (times_point G sk P)"
    by (simp add: times_point_add [OF assms] point_ac [OF assms])
  then show ?case using Cons by (simp add: subtract_add [OF assms])
qed (simp add: point_add_zero [OF assms])

lemma table_entries:
  assumes "build_table pr G sid ids pts m cards = Inr table" "length ids = length pts"
    and "\<forall>j < length ids. map_of m (bytesToHex (nr_toBytes G (pts ! j))) = Some (ids ! j)"
  shows "cpt_cardIds table = ids @ cards \<and> length (cpt_points table) = length (ids @ cards) \<and>
    (\<forall>j < length (ids @ cards). map_of (cpt_cardByPoint table) (bytesToHex (nr_toBytes G (cpt_points table ! j))) = Some ((ids @ cards) ! j))"
  using assms
proof (induction cards arbitrary: ids pts m)
  case (Cons card_id cards)
  then obtain P where P: "map_of m (bytesToHex (nr_toBytes G P)) = None"
    "build_table pr G sid (ids @ [card_id]) (pts @ [P]) (AList.update (bytesToHex (nr_toBytes G P)) card_id m) cards = Inr table"
    by (auto simp: result_simps Let_def split: if_splits)
  have "\<forall>j < length (ids @ [card_id]). map_of (AList.update (bytesToHex (nr_toBytes G P)) card_id m)
      (bytesToHex (nr_toBytes G ((pts @ [P]) ! j))) = Some ((ids @ [card_id]) ! j)"
    using Cons.prems(2,3) P(1) by (auto simp: nth_append less_Suc_eq)
  then show ?case using Cons.IH [OF P(2)] Cons.prems(2) by simp
qed auto

lemma table_identifies:
  assumes "newCardPointTable pr G spec = Inr table" "i < length (spec_cards spec)"
  shows "identifyCard G table (cpt_points table ! i) = Some (spec_cards spec ! i)"
  using assms table_entries [of pr G "spec_id spec" "[]" "[]" "[]" "spec_cards spec" table]
  by (auto simp: newCardPointTable_def identifyCard_def split: if_splits)

text \<open>
  C16: a masked card opens to itself. The card at position \<open>i\<close> of a deck, masked any number of times
  by any players under the aggregate key of all players, is identified as that card once the
  decryption share of every player is removed; masking and the shares never fail for keys and
  random scalars in range.
\<close>

theorem masked_card_opens:
  assumes laws: "ristretto_laws G" and table: "newCardPointTable pr G spec = Inr table" "i < length (spec_cards spec)"
    and keys: "\<forall>sk \<in> set sks. usable G sk" "aggregatePublicKeys G (map (public_key G) sks) = Inr K"
    and rs: "\<forall>r \<in> set rs. usable G r"
  shows "\<exists>c shares. foldM_res (\<lambda>c r. remaskCard G c r K) (initialMaskedCard G (cpt_points table ! i)) rs = Inr c \<and>
    mapM_res (\<lambda>sk. decryptionShare G sk (mc_A c)) sks = Inr shares \<and>
    identifyCard G table (removeDecryptionShares G c shares) = Some (spec_cards spec ! i)"
proof -
  let ?m = "cpt_points table ! i" and ?n = "sum_list rs"
  let ?A = "times_point G ?n (nr_base G)"
  let ?c = "\<lparr>mc_A = ?A, mc_B = nr_add G ?m (times_point G ?n K)\<rparr>"
  note K = aggregate_public_keys [OF laws keys(2)]
  have "initialMaskedCard G ?m = \<lparr>mc_A = times_point G 0 (nr_base G), mc_B = nr_add G ?m (times_point G 0 K)\<rparr>"
    by (simp add: initialMaskedCard_def point_add_zero [OF laws])
  then have fold: "foldM_res (\<lambda>c r. remaskCard G c r K) (initialMaskedCard G ?m) rs = Inr ?c"
    using remask_chain [OF laws K(2) rs, of 0 ?m] by simp
  have shares: "mapM_res (\<lambda>sk. decryptionShare G sk (mc_A ?c)) sks = Inr (map (\<lambda>sk. times_point G sk ?A) sks)"
    using keys(1) by (intro mapM_res_all_Inr) (simp add: decryptionShare_def usable_def point_multiply_ok [OF laws])
  have "times_point G ?n K = times_point G (sum_list sks) ?A"
    unfolding K(1) by (simp add: times_point_mult [OF laws, symmetric] mult.commute)
  then have "removeDecryptionShares G ?c (map (\<lambda>sk. times_point G sk ?A) sks) = ?m"
    by (simp add: removeDecryptionShares_def remove_shares [OF laws])
  then show ?thesis using fold shares table_identifies [OF table] by (intro exI [of _ ?c] exI) (auto simp del: mapM_res.simps)
qed

section \<open>Proofs\<close>

lemma challenge_range: "proofChallengeScalar pr G d ctx st = Inr c \<Longrightarrow> c < nr_order G"
  by (auto simp: proofChallengeScalar_def result_simps dest: reduceWide_Inr)

text \<open>The response answers the challenge: \<open>z * P = nonce * P + challenge * (secret * P)\<close>.\<close>

lemma response_equation:
  assumes "ristretto_laws G"
  shows "times_point G ((k + c * sk mod nr_order G) mod nr_order G) P =
    nr_add G (times_point G k P) (times_point G c (times_point G sk P))"
  by (simp add: times_point_mod [OF assms] times_point_add [OF assms] times_point_mult [OF assms])

text \<open>
  Honest proofs verify. Whenever a random scalar is drawn and the challenge can be hashed, the
  key share of a player is created and verifies, and so does every decryption share that player makes,
  which is the product of the secret key with the card's first component.
\<close>

theorem honest_proofs_verify:
  assumes laws: "ristretto_laws G" and sk: "usable G sk" and draw: "randomNonZeroRistrettoScalar G fill s = Some (nonce, s')"
  shows "(\<forall>c. keyProofChallenge pr G ctx (public_key G sk) (public_key G nonce) = Inr c \<longrightarrow>
      (\<exists>share. createGameKeyShare pr G ctx sk fill s = Inr (Some (share, s')) \<and> ks_H share = public_key G sk \<and>
        verifyGameKeyShare pr G ctx share)) \<and>
    (\<forall>c. requirePosition pos = Inr () \<and>
        decryptionProofChallenge pr G ctx pos (public_key G sk) A (times_point G sk A) (public_key G nonce) (times_point G nonce A) = Inr c \<longrightarrow>
      (\<exists>share. createProvenDecryptionShare pr G ctx pos sk A fill s = Inr (Some (share, s')) \<and> ds_S share = times_point G sk A \<and>
        verifyProvenDecryptionShare pr G ctx pos (public_key G sk) A share))"
proof -
  have n: "usable G nonce" using random_scalar_range [OF draw] by (simp add: usable_def)
  have nz: "public_key G sk \<noteq> nr_zero G" using sk base_multiple_nonzero [OF laws, of sk] by (simp add: usable_def)
  have range: "sk < nr_order G" "nonce < nr_order G" "0 < sk" using sk n by (simp_all add: usable_def)
  have q: "x mod nr_order G < nr_order G" for x using ristrettoD(6) [OF laws] by simp
  note mult = point_multiply_ok [OF laws] and scalars = add_scalars_ok [OF laws] multiply_scalars_ok [OF laws]
  note eqs = ristrettoD(8) [OF laws] ristrettoD(9) [OF laws] response_equation [OF laws]
  show ?thesis
  proof (intro conjI allI impI)
    fix c assume c: "keyProofChallenge pr G ctx (public_key G sk) (public_key G nonce) = Inr c"
    then have "c < nr_order G" unfolding keyProofChallenge_def by (rule challenge_range)
    then show "\<exists>share. createGameKeyShare pr G ctx sk fill s = Inr (Some (share, s')) \<and> ks_H share = public_key G sk \<and>
        verifyGameKeyShare pr G ctx share"
      using c range nz q
      by (simp add: createGameKeyShare_def requireNonZeroScalar_def draw mult scalars verifyGameKeyShare_def verified_def eqs)
  next
    fix c assume c: "requirePosition pos = Inr () \<and>
      decryptionProofChallenge pr G ctx pos (public_key G sk) A (times_point G sk A) (public_key G nonce) (times_point G nonce A) = Inr c"
    then have "c < nr_order G" unfolding decryptionProofChallenge_def using challenge_range by blast
    then show "\<exists>share. createProvenDecryptionShare pr G ctx pos sk A fill s = Inr (Some (share, s')) \<and> ds_S share = times_point G sk A \<and>
        verifyProvenDecryptionShare pr G ctx pos (public_key G sk) A share"
      using c range nz q
      by (simp add: createProvenDecryptionShare_def requireNonZeroScalar_def decryptionShare_def draw mult scalars
          verifyProvenDecryptionShare_def decryption_equations_def verified_def eqs)
  qed
qed

section \<open>Soundness\<close>

text \<open>The group has prime order: every scalar but zero has an inverse.\<close>

definition scalars_invertible :: "'p ristretto \<Rightarrow> bool" where
  "scalars_invertible G \<longleftrightarrow> (\<forall>a. usable G a \<longrightarrow> (\<exists>b. a * b mod nr_order G = 1))"

lemma times_complement:
  assumes "ristretto_laws G" "z \<le> nr_order G"
  shows "nr_add G (times_point G z P) (times_point G (nr_order G - z) P) = nr_zero G"
  using times_point_add [OF assms(1), of z "nr_order G - z" P] assms(2) ristrettoD(7) [OF assms(1)] by simp

lemma transcripts_difference:
  assumes laws: "ristretto_laws G" and le: "z2 \<le> nr_order G" "c2 \<le> nr_order G"
    and e1: "times_point G z1 P = nr_add G R (times_point G c1 Q)" and e2: "times_point G z2 P = nr_add G R (times_point G c2 Q)"
  shows "times_point G (z1 + (nr_order G - z2)) P = times_point G (c1 + (nr_order G - c2)) Q"
proof -
  let ?zP = "times_point G (nr_order G - z2) P" and ?cQ = "times_point G (nr_order G - c2) Q"
  have "nr_add G (nr_add G R (times_point G c2 Q)) ?zP = nr_zero G" using times_complement [OF laws le(1), of P] e2 by simp
  then have "nr_add G (times_point G c2 Q) (nr_add G R ?zP) = nr_add G (times_point G c2 Q) ?cQ"
    using times_complement [OF laws le(2), of Q] by (simp add: point_ac [OF laws])
  then have "nr_add G R ?zP = ?cQ" by (simp add: point_cancel [OF laws])
  then show ?thesis
    unfolding times_point_add [OF laws] e1 using point_ac [OF laws] by metis
qed

lemma extract_secret:
  assumes laws: "ristretto_laws G" and inv: "b * (c1 + (nr_order G - c2)) mod nr_order G = 1"
    and le: "z2 \<le> nr_order G" "c2 \<le> nr_order G"
    and e: "times_point G z1 P = nr_add G R (times_point G c1 Q)" "times_point G z2 P = nr_add G R (times_point G c2 Q)"
  shows "Q = times_point G (b * (z1 + (nr_order G - z2)) mod nr_order G) P"
proof -
  have "times_point G (b * (z1 + (nr_order G - z2))) P = times_point G (b * (c1 + (nr_order G - c2))) Q"
    by (simp only: times_point_mult [OF laws] transcripts_difference [OF laws le e])
  also have "\<dots> = times_point G 1 Q" using times_point_mod [OF laws, of "b * (c1 + (nr_order G - c2))" Q] inv by simp
  finally show ?thesis by (simp add: times_point_mod [OF laws] point_add_zero [OF laws])
qed

lemma base_multiple_inject:
  assumes laws: "ristretto_laws G" and le: "a < nr_order G" "b < nr_order G" and eq: "public_key G a = public_key G b"
  shows "a = b"
proof -
  have *: "a = b" if "a \<le> b" "b < nr_order G" "public_key G a = public_key G b" for a b
  proof -
    have "nr_add G (public_key G a) (public_key G (b - a)) = nr_add G (public_key G a) (nr_zero G)"
      using times_point_add [OF laws, of a "b - a" "nr_base G"] that by (simp add: point_add_zero [OF laws])
    then have "public_key G (b - a) = nr_zero G" by (simp only: point_cancel [OF laws])
    then show ?thesis using base_multiple_nonzero [OF laws, of "b - a"] that by simp
  qed
  show ?thesis using * [of a b] * [of b a] le eq by (cases "a \<le> b") auto
qed

lemma verified_share:
  assumes "ristretto_laws G" "verifyProvenDecryptionShare pr G ctx pos H A share"
    and "decryptionProofChallenge pr G ctx pos H A (ds_S share) (cp_R1 (ds_proof share)) (cp_R2 (ds_proof share)) = Inr c"
  shows "cp_z (ds_proof share) < nr_order G" "c < nr_order G"
    and "times_point G (cp_z (ds_proof share)) (nr_base G) = nr_add G (cp_R1 (ds_proof share)) (times_point G c H)"
    and "times_point G (cp_z (ds_proof share)) A = nr_add G (cp_R2 (ds_proof share)) (times_point G c (ds_S share))"
  using assms
  by (auto simp: verifyProvenDecryptionShare_def verified_def decryption_equations_def rbind_def point_multiply_Inr ristrettoD(8,9)
      split: sum.splits if_splits)

text \<open>
  C17: special soundness of decryption shares. If a public key answers, for the same card, share and
  commitments, two different challenges with shares that verify, then the key has a secret
  \<open>x\<close> and the share is \<open>x\<close> times the card's first component. In particular, a player whose
  public key belongs to a secret cannot pass with any other share.
\<close>

theorem share_special_soundness:
  assumes laws: "ristretto_laws G" and inv: "scalars_invertible G"
    and v1: "verifyProvenDecryptionShare pr1 G ctx1 pos1 H A sh1" and v2: "verifyProvenDecryptionShare pr2 G ctx2 pos2 H A sh2"
    and same: "ds_S sh2 = ds_S sh1" "cp_R1 (ds_proof sh2) = cp_R1 (ds_proof sh1)" "cp_R2 (ds_proof sh2) = cp_R2 (ds_proof sh1)"
    and c1: "decryptionProofChallenge pr1 G ctx1 pos1 H A (ds_S sh1) (cp_R1 (ds_proof sh1)) (cp_R2 (ds_proof sh1)) = Inr c1"
    and c2: "decryptionProofChallenge pr2 G ctx2 pos2 H A (ds_S sh1) (cp_R1 (ds_proof sh1)) (cp_R2 (ds_proof sh1)) = Inr c2"
    and differ: "c1 \<noteq> c2"
  shows "(\<exists>x < nr_order G. H = public_key G x \<and> ds_S sh1 = times_point G x A) \<and>
    (\<forall>sk < nr_order G. H = public_key G sk \<longrightarrow> ds_S sh1 = times_point G sk A)"
proof -
  let ?q = "nr_order G" and ?d = "(c1 + (nr_order G - c2)) mod nr_order G"
  note f1 = verified_share [OF laws v1 c1]
  note f2 = verified_share [OF laws v2, unfolded same, OF c2]
  have "?d \<noteq> 0"
  proof
    assume "?d = 0"
    then have "(c1 + (?q - c2) + c2) mod ?q = c2 mod ?q" by (metis mod_add_left_eq add_0)
    then show False using f1(2) f2(2) differ by simp
  qed
  then have "usable G ?d" using ristrettoD(6) [OF laws] by (simp add: usable_def)
  then obtain b where "?d * b mod ?q = 1" using inv by (auto simp: scalars_invertible_def)
  then have b: "b * (c1 + (?q - c2)) mod ?q = 1" by (metis mod_mult_right_eq mult.commute)
  define x where "x = b * (cp_z (ds_proof sh1) + (?q - cp_z (ds_proof sh2))) mod ?q"
  have x: "x < ?q" using ristrettoD(6) [OF laws] by (simp add: x_def)
  have le: "cp_z (ds_proof sh2) \<le> ?q" "c2 \<le> ?q" using f2 by simp_all
  have H: "H = public_key G x" unfolding x_def by (rule extract_secret [OF laws b le f1(3) f2(3)])
  have S: "ds_S sh1 = times_point G x A" unfolding x_def by (rule extract_secret [OF laws b le f1(4) f2(4)])
  then show ?thesis using x H base_multiple_inject [OF laws _ x] by blast
qed

section \<open>Examples\<close>

text \<open>The group of order two, with its two points as 32 equal bytes.\<close>

definition pair_group :: "1 word ristretto" where
  "pair_group = \<lparr>nr_base = 1, nr_zero = 0, nr_add = (+), nr_subtract = (-), nr_negate = uminus,
     nr_multiply = (\<lambda>P k. of_nat k * P), nr_equals = (=), nr_is0 = (\<lambda>P. P = 0),
     nr_toBytes = (\<lambda>P. replicate 32 (if P = 0 then 0 else 1)),
     nr_fromBytes = (\<lambda>b. if b = replicate 32 0 then Some 0 else if b = replicate 32 1 then Some 1 else None),
     nr_deriveToCurve = (\<lambda>b. if even (unat (hd b)) then 0 else 1), nr_order = 2,
     fn_add = (\<lambda>a b. (a + b) mod 2), fn_sub = (\<lambda>a b. (a + 2 - b) mod 2), fn_mul = (\<lambda>a b. a * b mod 2), fn_neg = (\<lambda>a. (2 - a) mod 2),
     fn_toBytes = (\<lambda>a. replicate 32 (word_of_nat a)), fn_fromBytes = (\<lambda>b. Some (unat (hd b))),
     bytesToNumberLE = (\<lambda>b. unat (hd b))\<rparr>"

lemma word1_cases: "(w :: 1 word) = 0 \<or> w = 1"
proof -
  have w: "w = word_of_nat (unat w)" by simp
  have "unat w < 2" using unsigned_less [of w] by simp
  then consider "unat w = 0" | "unat w = 1" by linarith
  then show ?thesis
  proof cases
    case 1
    then show ?thesis by (simp add: unsigned_eq_0_iff)
  next
    case 2
    with w have "w = word_of_nat 1" by (rule trans [OF _ arg_cong])
    then show ?thesis by simp
  qed
qed

lemma word1_double: "(w :: 1 word) + w = 0"
  using word1_cases [of w] by auto

lemma below_two: "k < (2 :: nat) \<Longrightarrow> k = 0 \<or> k = 1"
  by auto

lemma pair_laws: "ristretto_laws pair_group"
  unfolding ristretto_laws_def
proof (intro conjI allI impI)
  fix P :: "1 word"
  show "times_point pair_group (nr_order pair_group) P = nr_zero pair_group"
    using word1_double [of P] by (simp add: pair_group_def numeral_2_eq_2)
  show "nr_fromBytes pair_group (nr_toBytes pair_group P) = Some P" "length (nr_toBytes pair_group P) = 32"
    using word1_cases [of P] by (auto simp: pair_group_def replicate_eq_replicate)
next
  fix k P assume "0 < k \<and> k < nr_order pair_group"
  then have "k = 1" by (auto simp: pair_group_def)
  then show "times_point pair_group k (nr_base pair_group) \<noteq> nr_zero pair_group"
    "nr_multiply pair_group P k = times_point pair_group k P" by (simp_all add: pair_group_def)
next
  fix a assume "a < nr_order pair_group"
  then have "a = 0 \<or> a = 1" using below_two by (simp add: pair_group_def)
  then show "length (fn_toBytes pair_group a) = 32" "fn_fromBytes pair_group (fn_toBytes pair_group a) = Some a"
    by (auto simp: pair_group_def)
qed (simp_all add: pair_group_def)

lemma pair_invertible: "scalars_invertible pair_group"
  by (auto simp: scalars_invertible_def usable_def pair_group_def intro!: exI [of _ 1])

definition pair_deck :: DeckSpec where
  "pair_deck = \<lparr>spec_id = ascii ''d'', spec_cards = [ascii ''a'', ascii ''b'']\<rparr>"

text \<open>A codec for the deck and for the two statements that are hashed; the hash is its length or a constant.\<close>

definition pair_values :: "jsval list" where
  "pair_values = [JString (ascii ''d''), JString (ascii ''a''), JString (ascii ''b''), jnat 0,
     JObject [(ascii ''H'', JBytes (replicate 32 1)), (ascii ''R'', JBytes (replicate 32 1))],
     JObject [(ascii ''pos'', jnat 0), (ascii ''H'', JBytes (replicate 32 1)), (ascii ''A'', JBytes (replicate 32 1)),
       (ascii ''S'', JBytes (replicate 32 1)), (ascii ''R1'', JBytes (replicate 32 1)), (ascii ''R2'', JBytes (replicate 32 1))]]"

definition pair_prims :: "(bytes \<Rightarrow> bytes) \<Rightarrow> prims" where
  "pair_prims h = example_prims\<lparr>cbor2_encode := table_encode pair_values, cbor2_decode := table_decode pair_values, noble_sha512 := h\<rparr>"

definition length_hash :: "bytes \<Rightarrow> bytes" where
  "length_hash b = replicate 64 (word_of_nat (length b))"

definition pair_table :: "1 word CardPointTable" where
  "pair_table = \<lparr>cpt_deckSpecId = ascii ''d'', cpt_cardIds = [ascii ''a'', ascii ''b''], cpt_points = [1, 0],
     cpt_cardByPoint = [(bytesToHex (replicate 32 1), ascii ''a''), (bytesToHex (replicate 32 0), ascii ''b'')]\<rparr>"

lemma pair_encode:
  "table_encode pair_values (JString (ascii ''d'')) = Some [0]" "table_encode pair_values (JString (ascii ''a'')) = Some [0, 0]"
  "table_encode pair_values (JString (ascii ''b'')) = Some [0, 0, 0]" "table_encode pair_values (jnat 0) = Some [0, 0, 0, 0]"
  "table_encode pair_values (pair_values ! 4) = Some (replicate 5 0)" "table_encode pair_values (pair_values ! 5) = Some (replicate 6 0)"
  by (simp_all add: table_encode_def pair_values_def upt_rec numeral_eq_Suc)

lemma pair_valid:
  "assertCborValue (JString (ascii ''d'')) = Inr ()" "assertCborValue (JString (ascii ''a'')) = Inr ()"
  "assertCborValue (JString (ascii ''b'')) = Inr ()" "assertCborValue (jnat 0) = Inr ()"
  "assertCborValue (pair_values ! 4) = Inr ()" "assertCborValue (pair_values ! 5) = Inr ()"
  by (simp_all add: assertCborValue_iff pair_values_def MAX_CBOR_NESTING_DEPTH_def MAX_SAFE_INTEGER_def, simp_all add: ascii_def)

definition pair_context :: ProofContext where
  "pair_context = \<lparr>pc_gameId = [], pc_round = JInt 0, pc_phase = ascii ''a''\<rparr>"

lemma pair_codec:
  "v \<in> {JString (ascii ''d''), JString (ascii ''a''), JString (ascii ''b''), jnat 0, pair_values ! 4, pair_values ! 5} \<Longrightarrow>
     encodeCanonical (pair_prims h) v = Inr (the (table_encode pair_values v))"
  using pair_valid pair_encode by (auto simp: encodeCanonical_def pair_prims_def)

lemma pair_hash: "noble_sha512 (pair_prims h) = h"
  by (simp add: pair_prims_def)

lemma pair_table_new: "newCardPointTable (pair_prims length_hash) pair_group pair_deck = Inr pair_table"
proof -
  have len: "length (domainSeparator CardD) = 16" by (simp add: domainSeparator_def asciiToBytes_def ascii_def)
  have "cardDerivationHash (pair_prims length_hash) (ascii ''d'') (ascii ''a'') = Inr (replicate 64 19)"
    "cardDerivationHash (pair_prims length_hash) (ascii ''d'') (ascii ''b'') = Inr (replicate 64 20)"
    using len by (simp_all add: cardDerivationHash_def requireText_def pair_codec pair_encode sha512_def length_hash_def pair_hash)
  then have "deriveCardPoint (pair_prims length_hash) pair_group (ascii ''d'') (ascii ''a'') = Inr 1"
    "deriveCardPoint (pair_prims length_hash) pair_group (ascii ''d'') (ascii ''b'') = Inr 0"
    by (simp_all add: deriveCardPoint_def fromUniformBytes_def RISTRETTO_UNIFORM_BYTES_LENGTH_def pair_group_def)
  then show ?thesis
    by (simp add: newCardPointTable_def pair_deck_def pair_table_def MIN_DECK_SIZE_def MAX_DECK_SIZE_def Let_def pair_group_def)
qed

lemma pair_challenges:
  "keyProofChallenge (pair_prims (\<lambda>_. replicate 64 w)) pair_group pair_context 1 1 = Inr (unat w mod 2)"
  "decryptionProofChallenge (pair_prims (\<lambda>_. replicate 64 w)) pair_group pair_context (JInt 0) 1 1 1 1 1 = Inr (unat w mod 2)"
proof -
  let ?pr = "pair_prims (\<lambda>_. replicate 64 w)"
  have bytes: "nr_toBytes pair_group 1 = replicate 32 1" by (simp add: pair_group_def)
  have input: "\<exists>input. proofChallengeInput ?pr d [] (JInt 0) (ascii ''a'') v = Inr input" if "v \<in> {pair_values ! 4, pair_values ! 5}" for d v
    using that pair_codec [of _ "\<lambda>_. replicate 64 w"]
    by (auto simp: proofChallengeInput_def requireUnsignedSafeInteger_def requireText_def MAX_SAFE_INTEGER_def)
  have hash: "sha512 ?pr x = replicate 64 w" for x by (simp add: sha512_def pair_prims_def)
  have "proofChallengeScalar ?pr pair_group d pair_context v = Inr (unat w mod 2)" if v: "v \<in> {pair_values ! 4, pair_values ! 5}" for d v
  proof -
    obtain input where "proofChallengeInput ?pr d [] (JInt 0) (ascii ''a'') v = Inr input" using input [OF v] by blast
    then show ?thesis
      by (simp add: proofChallengeScalar_def pair_context_def reduceWideRistrettoScalar_def scalarFromBigInt_def hash
          RISTRETTO_UNIFORM_BYTES_LENGTH_def) (simp add: pair_group_def)
  qed
  then show "keyProofChallenge ?pr pair_group pair_context 1 1 = Inr (unat w mod 2)"
    "decryptionProofChallenge ?pr pair_group pair_context (JInt 0) 1 1 1 1 1 = Inr (unat w mod 2)"
    unfolding keyProofChallenge_def decryptionProofChallenge_def bytes by (simp_all add: pair_values_def)
qed

lemma pair_points: "times_point pair_group (Suc 0) P = P" "nr_base pair_group = 1" "usable pair_group (Suc 0)" "nr_order pair_group = 2"
  by (simp_all add: pair_group_def usable_def)

lemma pair_aggregate: "aggregatePublicKeys pair_group (map (public_key pair_group) [1, 1, 1]) = Inr 1"
  by (simp add: aggregatePublicKeys_def pair_group_def)

theorem masked_card_opens_witness:
  "\<exists>c shares. foldM_res (\<lambda>c r. remaskCard pair_group c r 1) (initialMaskedCard pair_group (cpt_points pair_table ! 1)) [1, 1] = Inr c \<and>
    mapM_res (\<lambda>sk. decryptionShare pair_group sk (mc_A c)) [1, 1, 1] = Inr shares \<and>
    identifyCard pair_group pair_table (removeDecryptionShares pair_group c shares) = Some (ascii ''b'')"
proof -
  have "1 < length (spec_cards pair_deck)" "spec_cards pair_deck ! 1 = ascii ''b''" by (simp_all add: pair_deck_def)
  then show ?thesis
    using masked_card_opens [OF pair_laws pair_table_new, of 1 "[1, 1, 1]" 1 "[1, 1]"] pair_aggregate pair_points(3) by (simp del: foldM_res.simps mapM_res.simps)
qed

lemma pair_draw: "randomNonZeroRistrettoScalar pair_group (constant_source 1) () = Some (1, ())"
  by (subst randomNonZeroRistrettoScalar.simps)
     (simp add: randomBytes_def constant_source_def mask_top_def RISTRETTO_SCALAR_LENGTH_def pair_group_def hd_conv_nth)

theorem honest_proofs_verify_example:
  "\<exists>ks ds. createGameKeyShare (pair_prims (\<lambda>_. replicate 64 1)) pair_group pair_context 1 (constant_source 1) () = Inr (Some (ks, ())) \<and>
     verifyGameKeyShare (pair_prims (\<lambda>_. replicate 64 1)) pair_group pair_context ks \<and>
     createProvenDecryptionShare (pair_prims (\<lambda>_. replicate 64 1)) pair_group pair_context (JInt 0) 1 1 (constant_source 1) () = Inr (Some (ds, ())) \<and>
     verifyProvenDecryptionShare (pair_prims (\<lambda>_. replicate 64 1)) pair_group pair_context (JInt 0) 1 1 ds"
proof -
  have "requirePosition (JInt 0) = Inr ()" by (simp add: requirePosition_def)
  then show ?thesis
    using honest_proofs_verify [OF pair_laws _ pair_draw, of 1 "pair_prims (\<lambda>_. replicate 64 1)" pair_context "JInt 0" 1]
      pair_challenges [of 1] pair_points by auto
qed

definition pair_share :: "nat \<Rightarrow> 1 word ProvenDecryptionShare" where
  "pair_share z = \<lparr>ds_S = 1, ds_proof = \<lparr>cp_R1 = 1, cp_R2 = 1, cp_z = z\<rparr>\<rparr>"

lemma pair_share_verifies:
  "verifyProvenDecryptionShare (pair_prims (\<lambda>_. replicate 64 0)) pair_group pair_context (JInt 0) 1 1 (pair_share 1)"
  "verifyProvenDecryptionShare (pair_prims (\<lambda>_. replicate 64 1)) pair_group pair_context (JInt 0) 1 1 (pair_share 0)"
  using pair_challenges(2) [of 0] pair_challenges(2) [of 1]
  by (simp_all add: verifyProvenDecryptionShare_def requirePosition_def pair_share_def verified_def decryption_equations_def
      point_multiply_def assertScalar_def scalarFromBigInt_def, simp_all add: pair_group_def)

theorem share_special_soundness_witness:
  "\<exists>x < nr_order pair_group. (1 :: 1 word) = public_key pair_group x \<and> ds_S (pair_share 1) = times_point pair_group x 1"
proof -
  have "ds_S (pair_share 0) = ds_S (pair_share 1)" "cp_R1 (ds_proof (pair_share 0)) = cp_R1 (ds_proof (pair_share 1))"
    "cp_R2 (ds_proof (pair_share 0)) = cp_R2 (ds_proof (pair_share 1))" by (simp_all add: pair_share_def)
  note s = share_special_soundness [OF pair_laws pair_invertible pair_share_verifies this, of 0 1]
  show ?thesis using s pair_challenges(2) [of 0] pair_challenges(2) [of 1] by (simp add: pair_share_def)
qed

end
