(* ===== verification/Deck_Wire.thy ===== *)
theory Deck_Wire
  imports Deck_Theorems Protocol_Bodies
begin

text \<open>
  Bodies that carry keys, decryption shares and actions: \<^verbatim>\<open>packages/deck/src/wire.ts\<close> and
  \<^verbatim>\<open>action-wire.ts\<close>. A position is kept as the JavaScript number that was read, since the
  action bodies tell negative zero from zero. Checks that a typed object has exactly its fields
  have no case.
\<close>

section \<open>Keys and shares\<close>

record 'p PositionShare = "'p ProvenDecryptionShare" +
  ps_pos :: jsnum

record 'p SharesBody =
  sb_to :: jsnum
  sb_items :: "'p PositionShare list"

text \<open>The number that \<open>expectUnsignedInteger\<close> returns, with its sign.\<close>

definition unsignedNumber :: "CborValue \<Rightarrow> string \<Rightarrow> int \<Rightarrow> protocol_error + jsnum" where
  "unsignedNumber v path maximum =
     rbind (expectUnsignedInteger v path maximum) (\<lambda>n. Inr (case v of JNumber k \<Rightarrow> k | _ \<Rightarrow> JInt (int n)))"

definition decodePoint :: "'p ristretto \<Rightarrow> CborValue \<Rightarrow> string \<Rightarrow> protocol_error + 'p" where
  "decodePoint G v path =
     rbind (catch_as (rbind (expectByteString v path) (\<lambda>b. parseRistrettoPointEncoding G (JBytes b)))
              (as_schema_error path ''must be a canonical Ristretto point'')) (\<lambda>b.
     catch_as (point_fromBytes G b) (\<lambda>_. ProtocolSchemaError path ''must be a canonical Ristretto point''))"

definition decodeScalar :: "'p ristretto \<Rightarrow> CborValue \<Rightarrow> string \<Rightarrow> protocol_error + nat" where
  "decodeScalar G v path =
     rbind (catch_as (rbind (expectByteString v path) (\<lambda>b. parseScalarEncoding G (JBytes b)))
              (as_schema_error path ''must be a canonical Ristretto scalar'')) (\<lambda>b.
     catch_as (decodeRistrettoScalar G b) (\<lambda>_. ProtocolSchemaError path ''must be a canonical Ristretto scalar''))"

definition wire_requireSeat :: "jsnum \<Rightarrow> string \<Rightarrow> protocol_error + unit" where
  "wire_requireSeat n path =
     (if n = JNonInteger \<or> numval n < 0 \<or> numval n > 7
      then schemaError path ''must be an integer from 0 through 7'' else Inr ())"

definition wire_requirePosition :: "jsnum \<Rightarrow> string \<Rightarrow> protocol_error + unit" where
  "wire_requirePosition n path =
     (if n = JNonInteger \<or> numval n < 0 \<or> numval n > 127
      then schemaError path ''must be an integer from 0 through 127'' else Inr ())"

text \<open>The set of positions compares numbers by value, so negative zero is zero there.\<close>

fun distinct_positions :: "int list \<Rightarrow> 'p PositionShare list \<Rightarrow> protocol_error + unit" where
  "distinct_positions positions [] = Inr ()"
| "distinct_positions positions (item # items) =
     rbind (wire_requirePosition (ps_pos item) ''SHARES.body.items[].pos'') (\<lambda>_.
     if numval (ps_pos item) \<in> set positions then schemaError ''SHARES.body.items'' ''contains duplicate position''
     else distinct_positions (numval (ps_pos item) # positions) items)"

definition requireItems :: "'p PositionShare list \<Rightarrow> protocol_error + unit" where
  "requireItems items =
     (if length items = 0 \<or> length items > 128 then schemaError ''SHARES.body.items'' ''must contain 1 to 128 entries''
      else distinct_positions [] items)"

definition encodeSchnorrProof :: "'p ristretto \<Rightarrow> 'p SchnorrProofOfPossession \<Rightarrow> deck_error + CborValue" where
  "encodeSchnorrProof G proof =
     rbind (groupTry (encodeRistrettoScalar G (pop_z proof))) (\<lambda>z.
     Inr (JObject [(ascii ''R'', JBytes (nr_toBytes G (pop_R proof))), (ascii ''z'', JBytes z)]))"

definition encodeGameKeyShareBody :: "'p ristretto \<Rightarrow> 'p GameKeyShare \<Rightarrow> deck_error + CborValue" where
  "encodeGameKeyShareBody G share =
     rbind (encodeSchnorrProof G (ks_pop share)) (\<lambda>pop.
     Inr (JObject [(ascii ''H_i'', JBytes (nr_toBytes G (ks_H share))), (ascii ''pop'', pop)]))"

definition decodeGameKeyShareBody :: "'p ristretto \<Rightarrow> CborValue \<Rightarrow> protocol_error + 'p GameKeyShare" where
  "decodeGameKeyShareBody G v =
     rbind (expectExactMap v [''H_i'', ''pop''] ''KEY_SHARE.body'') (\<lambda>body.
     rbind (expectExactMap (get_prop body ''pop'') [''R'', ''z''] ''KEY_SHARE.body.pop'') (\<lambda>pop.
     rbind (decodePoint G (get_prop body ''H_i'') ''KEY_SHARE.body.H_i'') (\<lambda>h.
     rbind (decodePoint G (get_prop pop ''R'') ''KEY_SHARE.body.pop.R'') (\<lambda>r.
     rbind (decodeScalar G (get_prop pop ''z'') ''KEY_SHARE.body.pop.z'') (\<lambda>z.
     Inr \<lparr>ks_H = h, ks_pop = \<lparr>pop_R = r, pop_z = z\<rparr>\<rparr>)))))"

definition encodePositionShare :: "'p ristretto \<Rightarrow> 'p PositionShare \<Rightarrow> deck_error + CborValue" where
  "encodePositionShare G item =
     rbind (catch_as (wire_requirePosition (ps_pos item) ''share.pos'') DeckProtocol) (\<lambda>_.
     rbind (groupTry (encodeRistrettoScalar G (cp_z (ds_proof item)))) (\<lambda>z.
     Inr (JObject [(ascii ''pos'', JNumber (ps_pos item)), (ascii ''S'', JBytes (nr_toBytes G (ds_S item))),
       (ascii ''R1'', JBytes (nr_toBytes G (cp_R1 (ds_proof item)))), (ascii ''R2'', JBytes (nr_toBytes G (cp_R2 (ds_proof item)))),
       (ascii ''z'', JBytes z)])))"

definition decodePositionShare :: "'p ristretto \<Rightarrow> CborValue \<Rightarrow> string \<Rightarrow> protocol_error + 'p PositionShare" where
  "decodePositionShare G v path =
     rbind (expectExactMap v [''pos'', ''S'', ''R1'', ''R2'', ''z''] path) (\<lambda>item.
     rbind (unsignedNumber (get_prop item ''pos'') (path @ ''.pos'') 127) (\<lambda>pos.
     rbind (decodePoint G (get_prop item ''S'') (path @ ''.S'')) (\<lambda>s.
     rbind (decodePoint G (get_prop item ''R1'') (path @ ''.R1'')) (\<lambda>r1.
     rbind (decodePoint G (get_prop item ''R2'') (path @ ''.R2'')) (\<lambda>r2.
     rbind (decodeScalar G (get_prop item ''z'') (path @ ''.z'')) (\<lambda>z.
     Inr \<lparr>ds_S = s, ds_proof = \<lparr>cp_R1 = r1, cp_R2 = r2, cp_z = z\<rparr>, ps_pos = pos\<rparr>))))))"

definition encodeSharesBody :: "'p ristretto \<Rightarrow> 'p SharesBody \<Rightarrow> deck_error + CborValue" where
  "encodeSharesBody G body =
     rbind (catch_as (wire_requireSeat (sb_to body) ''SHARES.body.to'') DeckProtocol) (\<lambda>_.
     rbind (catch_as (requireItems (sb_items body)) DeckProtocol) (\<lambda>_.
     rbind (mapM_res (encodePositionShare G) (sb_items body)) (\<lambda>items.
     Inr (JObject [(ascii ''to'', JNumber (sb_to body)), (ascii ''items'', JArray items)]))))"

definition decodeSharesBody :: "'p ristretto \<Rightarrow> CborValue \<Rightarrow> protocol_error + 'p SharesBody" where
  "decodeSharesBody G v =
     rbind (expectExactMap v [''to'', ''items''] ''SHARES.body'') (\<lambda>body.
     rbind (unsignedNumber (get_prop body ''to'') ''SHARES.body.to'' 7) (\<lambda>to.
     rbind (expectArray (get_prop body ''items'') ''SHARES.body.items'') (\<lambda>encodedItems.
     rbind (mapM_res (\<lambda>item. decodePositionShare G item ''SHARES.body.items'') encodedItems) (\<lambda>items.
     rbind (requireItems items) (\<lambda>_.
     Inr \<lparr>sb_to = to, sb_items = items\<rparr>)))))"

section \<open>Actions\<close>

definition MAX_ACTION_KIND_BYTES :: nat where
  "MAX_ACTION_KIND_BYTES = 64"
definition MAX_ACTION_DATA_BYTES :: nat where
  "MAX_ACTION_DATA_BYTES = 4096"
definition MAX_ACTION_REVEALS :: nat where
  "MAX_ACTION_REVEALS = 128"

record 'p ActionBody =
  ab_kind :: ustr
  ab_data :: CborValue
  ab_reveal :: "jsnum list"
  ab_shares :: "'p PositionShare list"

text \<open>The pattern of a kind: a lower-case letter, then lower-case letters, digits and underscores.\<close>

definition lowercase :: "16 word \<Rightarrow> bool" where
  "lowercase c \<longleftrightarrow> 0x61 \<le> c \<and> c \<le> 0x7a"

definition kind_pattern :: "ustr \<Rightarrow> bool" where
  "kind_pattern s = (case s of [] \<Rightarrow> False
     | c # cs \<Rightarrow> lowercase c \<and> list_all (\<lambda>d. lowercase d \<or> 0x30 \<le> d \<and> d \<le> 0x39 \<or> d = 0x5f) cs)"

fun decode_reveal :: "jsnum list \<Rightarrow> jsval list \<Rightarrow> protocol_error + jsnum list" where
  "decode_reveal seen [] = Inr []"
| "decode_reveal seen (v # vs) =
     rbind (unsignedNumber v ''ACTION.body.reveal'' 127) (\<lambda>pos.
     if pos = JNegZero \<or> pos \<in> set seen
     then schemaError ''ACTION.body.reveal'' ''positions must be unique non-negative integers, not negative zero''
     else rbind (decode_reveal (pos # seen) vs) (\<lambda>rest. Inr (pos # rest)))"

definition decode_matching_share :: "'p ristretto \<Rightarrow> jsval \<times> jsnum \<Rightarrow> protocol_error + 'p PositionShare" where
  "decode_matching_share G = (\<lambda>(v, pos).
     rbind (decodePositionShare G v ''ACTION.body.shares'') (\<lambda>share.
     if ps_pos share = JNegZero \<or> ps_pos share \<noteq> pos
     then schemaError ''ACTION.body.shares'' ''share positions must match reveal positions in the same order''
     else Inr share))"

definition decode_data :: "prims \<Rightarrow> CborValue \<Rightarrow> protocol_error + CborValue" where
  "decode_data pr d =
     catch_as (rbind (cborTry (encodeCanonical pr d)) (\<lambda>b.
       if length b > MAX_ACTION_DATA_BYTES then schemaError ''ACTION.body.data'' ''must encode within the limit''
       else cborTry (decodeCanonical pr b)))
     (as_schema_error ''ACTION.body.data'' ''must be a supported canonical CBOR value'')"

definition decodeActionBody :: "prims \<Rightarrow> 'p ristretto \<Rightarrow> CborValue \<Rightarrow> protocol_error + 'p ActionBody" where
  "decodeActionBody pr G v =
     rbind (expectExactMap v [''kind'', ''data'', ''reveal'', ''shares''] ''ACTION.body'') (\<lambda>body.
     rbind (expectNonEmptyText (get_prop body ''kind'') ''ACTION.body.kind'') (\<lambda>kind.
     if length kind > MAX_ACTION_KIND_BYTES \<or> \<not> kind_pattern kind
     then schemaError ''ACTION.body.kind'' ''must be a lowercase ASCII identifier of 1 to 64 bytes''
     else rbind (expectArray (get_prop body ''reveal'') ''ACTION.body.reveal'') (\<lambda>positions.
       rbind (expectArray (get_prop body ''shares'') ''ACTION.body.shares'') (\<lambda>encodedShares.
       if length positions > MAX_ACTION_REVEALS \<or> length encodedShares \<noteq> length positions
       then schemaError ''ACTION.body'' ''must contain 0 to 128 reveals and exactly one share per reveal''
       else rbind (decode_reveal [] positions) (\<lambda>reveal.
         rbind (mapM_res (decode_matching_share G) (zip encodedShares reveal)) (\<lambda>shares.
         rbind (decode_data pr (get_prop body ''data'')) (\<lambda>data.
         Inr \<lparr>ab_kind = kind, ab_data = data, ab_reveal = reveal, ab_shares = shares\<rparr>)))))))"

definition encodeItems :: "'p ristretto \<Rightarrow> 'p PositionShare list \<Rightarrow> string \<Rightarrow> protocol_error + jsval list" where
  "encodeItems G items path =
     (if length items > MAX_ACTION_REVEALS then schemaError path ''must contain 0 to 128 entries''
      else mapM_res (\<lambda>item. catch_as (encodePositionShare G item) (\<lambda>_. ProtocolSchemaError path ''must be a position share'')) items)"

definition encodeActionBody :: "prims \<Rightarrow> 'p ristretto \<Rightarrow> 'p ActionBody \<Rightarrow> protocol_error + CborValue" where
  "encodeActionBody pr G body =
     rbind (encodeItems G (ab_shares body) ''ACTION.body.shares'') (\<lambda>shares.
     rbind (decodeActionBody pr G (JObject [(ascii ''kind'', JString (ab_kind body)), (ascii ''data'', ab_data body),
              (ascii ''reveal'', JArray (map JNumber (ab_reveal body))), (ascii ''shares'', JArray shares)])) (\<lambda>decoded.
     Inr (JObject [(ascii ''kind'', JString (ab_kind body)), (ascii ''data'', ab_data decoded),
       (ascii ''reveal'', JArray (map JNumber (ab_reveal decoded))), (ascii ''shares'', JArray shares)])))"

type_synonym 'p AuditDiscloseBody = "'p PositionShare list"

fun decode_disclosed :: "'p ristretto \<Rightarrow> jsnum list \<Rightarrow> jsval list \<Rightarrow> protocol_error + 'p PositionShare list" where
  "decode_disclosed G seen [] = Inr []"
| "decode_disclosed G seen (v # vs) =
     rbind (decodePositionShare G v ''AUDIT_DISCLOSE.body.items'') (\<lambda>item.
     if ps_pos item = JNegZero \<or> ps_pos item \<in> set seen
     then schemaError ''AUDIT_DISCLOSE.body.items'' ''positions must be unique non-negative integers, not negative zero''
     else rbind (decode_disclosed G (ps_pos item # seen) vs) (\<lambda>rest. Inr (item # rest)))"

definition decodeAuditDiscloseBody :: "'p ristretto \<Rightarrow> CborValue \<Rightarrow> protocol_error + 'p AuditDiscloseBody" where
  "decodeAuditDiscloseBody G v =
     rbind (expectExactMap v [''items''] ''AUDIT_DISCLOSE.body'') (\<lambda>body.
     rbind (expectArray (get_prop body ''items'') ''AUDIT_DISCLOSE.body.items'') (\<lambda>encodedItems.
     if length encodedItems > MAX_ACTION_REVEALS
     then schemaError ''AUDIT_DISCLOSE.body.items'' ''must contain 0 to 128 entries''
     else decode_disclosed G [] encodedItems))"

definition encodeAuditDiscloseBody :: "'p ristretto \<Rightarrow> 'p AuditDiscloseBody \<Rightarrow> protocol_error + CborValue" where
  "encodeAuditDiscloseBody G body =
     rbind (encodeItems G body ''AUDIT_DISCLOSE.body.items'') (\<lambda>items.
     rbind (decodeAuditDiscloseBody G (JObject [(ascii ''items'', JArray items)])) (\<lambda>_.
     Inr (JObject [(ascii ''items'', JArray items)])))"

section \<open>Round trips\<close>

lemma unsignedNumber_Inr [simp]:
  "unsignedNumber v path m = Inr n \<longleftrightarrow> v = JNumber n \<and> isSafeInteger n \<and> 0 \<le> numval n \<and> numval n \<le> m"
  by (cases v) (auto simp: unsignedNumber_def expectUnsignedInteger_def)

lemma decodePoint_Inr [simp]:
  "ristretto_laws G \<Longrightarrow> decodePoint G v path = Inr P \<longleftrightarrow> v = JBytes (nr_toBytes G P)"
  by (auto simp: decodePoint_def result_simps expectByteString_def parsePoint_Inr point_bytes_back split: jsval.splits)

lemma decodeScalar_Inr [simp]:
  "ristretto_laws G \<Longrightarrow> decodeScalar G v path = Inr s \<longleftrightarrow> s < nr_order G \<and> v = JBytes (fn_toBytes G s)"
  by (auto simp: decodeScalar_def result_simps expectByteString_def parseScalar_Inr scalar_bytes_back split: jsval.splits)

lemma decode_group_ok:
  "ristretto_laws G \<Longrightarrow> decodePoint G (JBytes (nr_toBytes G P)) path = Inr P"
  "ristretto_laws G \<Longrightarrow> s < nr_order G \<Longrightarrow> decodeScalar G (JBytes (fn_toBytes G s)) path = Inr s"
  "isSafeInteger n \<Longrightarrow> 0 \<le> numval n \<Longrightarrow> numval n \<le> m \<Longrightarrow> unsignedNumber (JNumber n) path m = Inr n"
  by simp_all

lemma expect_ok:
  "has_exactly ps ks \<Longrightarrow> expectExactMap (JObject ps) ks path = Inr ps" "expectArray (JArray vs) path = Inr vs"
  "t \<noteq> [] \<Longrightarrow> expectNonEmptyText (JString t) path = Inr t"
  by simp_all

lemma encodeScalar_Inr [simp]: "encodeRistrettoScalar G s = Inr b \<longleftrightarrow> s < nr_order G \<and> b = fn_toBytes G s"
  by (auto simp: encodeRistrettoScalar_def result_simps assertScalar_Inr)

lemma wire_requirePosition_Inr [simp]:
  "wire_requirePosition n path = Inr u \<longleftrightarrow> n \<noteq> JNonInteger \<and> 0 \<le> numval n \<and> numval n \<le> 127"
  by (auto simp: wire_requirePosition_def)

lemma wire_requireSeat_Inr [simp]:
  "wire_requireSeat n path = Inr u \<longleftrightarrow> n \<noteq> JNonInteger \<and> 0 \<le> numval n \<and> numval n \<le> 7"
  by (auto simp: wire_requireSeat_def)

lemma small_safe: "n \<noteq> JNonInteger \<Longrightarrow> 0 \<le> numval n \<Longrightarrow> numval n \<le> 127 \<Longrightarrow> isSafeInteger n"
  by (cases n) (simp_all add: MAX_SAFE_INTEGER_def)

definition position_share_ok :: "'p ristretto \<Rightarrow> 'p PositionShare \<Rightarrow> bool" where
  "position_share_ok G item \<longleftrightarrow> ps_pos item \<noteq> JNonInteger \<and> 0 \<le> numval (ps_pos item) \<and> numval (ps_pos item) \<le> 127 \<and>
     cp_z (ds_proof item) < nr_order G"

definition encoded_share :: "'p ristretto \<Rightarrow> 'p PositionShare \<Rightarrow> jsval" where
  "encoded_share G item = JObject [(ascii ''pos'', JNumber (ps_pos item)), (ascii ''S'', JBytes (nr_toBytes G (ds_S item))),
     (ascii ''R1'', JBytes (nr_toBytes G (cp_R1 (ds_proof item)))), (ascii ''R2'', JBytes (nr_toBytes G (cp_R2 (ds_proof item)))),
     (ascii ''z'', JBytes (fn_toBytes G (cp_z (ds_proof item))))]"

lemma encodePositionShare_Inr: "encodePositionShare G item = Inr v \<longleftrightarrow> position_share_ok G item \<and> v = encoded_share G item"
  by (auto simp: encodePositionShare_def result_simps position_share_ok_def encoded_share_def)

lemma decodePositionShare_ok: "ristretto_laws G \<Longrightarrow> decodePositionShare G v path = Inr item \<Longrightarrow> position_share_ok G item"
  by (auto simp: decodePositionShare_def result_simps position_share_ok_def)

lemma decode_encoded_share:
  "ristretto_laws G \<Longrightarrow> position_share_ok G item \<Longrightarrow> decodePositionShare G (encoded_share G item) path = Inr item"
  by (cases item; cases "ds_proof item")
    (simp add: decodePositionShare_def encoded_share_def expect_ok has_exactly_def get_prop_def decode_group_ok position_share_ok_def small_safe)

lemma decode_encoded_shares:
  "ristretto_laws G \<Longrightarrow> list_all (position_share_ok G) items \<Longrightarrow>
     mapM_res (\<lambda>item. decodePositionShare G item path) (map (encoded_share G) items) = Inr items"
  by (induction items) (simp_all add: decode_encoded_share)

lemma encode_shares_Inr:
  "mapM_res (encodePositionShare G) items = Inr vs \<longleftrightarrow> list_all (position_share_ok G) items \<and> vs = map (encoded_share G) items"
  by (induction items arbitrary: vs) (auto simp: result_simps encodePositionShare_Inr)

lemma decode_shares_ok:
  "ristretto_laws G \<Longrightarrow> mapM_res (\<lambda>item. decodePositionShare G item path) vs = Inr items \<Longrightarrow> list_all (position_share_ok G) items"
  by (induction vs arbitrary: items) (auto simp: result_simps dest: decodePositionShare_ok)

lemma distinct_positions_Inr:
  "distinct_positions seen items = Inr u \<longleftrightarrow> distinct (map (\<lambda>i. numval (ps_pos i)) items) \<and>
     (\<forall>i \<in> set items. ps_pos i \<noteq> JNonInteger \<and> 0 \<le> numval (ps_pos i) \<and> numval (ps_pos i) \<le> 127 \<and> numval (ps_pos i) \<notin> set seen)"
  by (induction items arbitrary: seen) (auto simp: result_simps image_iff)

definition shares_ok :: "'p ristretto \<Rightarrow> 'p SharesBody \<Rightarrow> bool" where
  "shares_ok G body \<longleftrightarrow> sb_to body \<noteq> JNonInteger \<and> 0 \<le> numval (sb_to body) \<and> numval (sb_to body) \<le> 7 \<and>
     sb_items body \<noteq> [] \<and> length (sb_items body) \<le> 128 \<and> distinct (map (\<lambda>i. numval (ps_pos i)) (sb_items body)) \<and>
     list_all (position_share_ok G) (sb_items body)"

lemma requireItems_Inr:
  "list_all (position_share_ok G) items \<Longrightarrow>
     requireItems items = Inr u \<longleftrightarrow> items \<noteq> [] \<and> length items \<le> 128 \<and> distinct (map (\<lambda>i. numval (ps_pos i)) items)"
  by (auto simp: requireItems_def distinct_positions_Inr list_all_iff position_share_ok_def)

lemma encodeSharesBody_Inr:
  "encodeSharesBody G body = Inr v \<longleftrightarrow> shares_ok G body \<and>
     v = JObject [(ascii ''to'', JNumber (sb_to body)), (ascii ''items'', JArray (map (encoded_share G) (sb_items body)))]"
  by (auto simp: encodeSharesBody_def result_simps encode_shares_Inr shares_ok_def requireItems_Inr)

lemma decodeSharesBody_ok: "ristretto_laws G \<Longrightarrow> decodeSharesBody G v = Inr body \<Longrightarrow> shares_ok G body"
  by (auto simp: decodeSharesBody_def result_simps shares_ok_def requireItems_Inr dest: decode_shares_ok)

lemma decode_encoded_body:
  assumes laws: "ristretto_laws G" and ok: "shares_ok G body"
  shows "decodeSharesBody G (JObject [(ascii ''to'', JNumber (sb_to body)), (ascii ''items'', JArray (map (encoded_share G) (sb_items body)))]) = Inr body"
proof -
  have "requireItems (sb_items body) = Inr ()" using ok by (subst requireItems_Inr) (auto simp: shares_ok_def)
  then show ?thesis using laws ok
    by (simp add: decodeSharesBody_def expect_ok has_exactly_def get_prop_def shares_ok_def decode_group_ok decode_encoded_shares small_safe)
qed

lemma decode_encoded_key:
  "ristretto_laws G \<Longrightarrow> encodeGameKeyShareBody G share = Inr v \<Longrightarrow> decodeGameKeyShareBody G v = Inr share"
  by (cases share; cases "ks_pop share")
    (auto simp: encodeGameKeyShareBody_def encodeSchnorrProof_def decodeGameKeyShareBody_def expect_ok has_exactly_def get_prop_def
      decode_group_ok rbind_eq_Inr)

lemma decodeGameKeyShareBody_ok:
  "ristretto_laws G \<Longrightarrow> decodeGameKeyShareBody G v = Inr share \<Longrightarrow> pop_z (ks_pop share) < nr_order G"
  by (auto simp: decodeGameKeyShareBody_def result_simps)

text \<open>
  Keys and decryption shares survive the wire. What is encoded decodes to the same
  key share or batch of shares, and everything that decodes can be encoded again.
\<close>

theorem wire_bodies_roundtrip:
  assumes laws: "ristretto_laws G"
  shows "(encodeGameKeyShareBody G share = Inr v \<longrightarrow> decodeGameKeyShareBody G v = Inr share) \<and>
    (decodeGameKeyShareBody G x = Inr share \<longrightarrow> (\<exists>w. encodeGameKeyShareBody G share = Inr w)) \<and>
    (encodeSharesBody G body = Inr v \<longrightarrow> decodeSharesBody G v = Inr body) \<and>
    (decodeSharesBody G x = Inr body \<longrightarrow> (\<exists>w. encodeSharesBody G body = Inr w))"
  using decode_encoded_key [OF laws, of share v] decodeGameKeyShareBody_ok [OF laws, of x share] decode_encoded_body [OF laws, of body]
    decodeSharesBody_ok [OF laws, of x body]
  by (auto simp: encodeSharesBody_Inr encodeGameKeyShareBody_def encodeSchnorrProof_def result_simps)

lemma decode_reveal_Inr:
  "decode_reveal seen vs = Inr ps \<longleftrightarrow> vs = map JNumber ps \<and> distinct ps \<and> set ps \<inter> set seen = {} \<and>
     (\<forall>p \<in> set ps. \<exists>k \<le> 127. p = JInt (int k))"
proof (induction vs arbitrary: seen ps)
  case Nil
  then show ?case by auto
next
  case (Cons v vs)
  have pos: "isSafeInteger n \<and> 0 \<le> numval n \<and> numval n \<le> 127 \<and> n \<noteq> JNegZero \<longleftrightarrow> (\<exists>k \<le> 127. n = JInt (int k))" for n
    by (cases n) (auto simp: MAX_SAFE_INTEGER_def intro: exI [of _ "nat (numval n)"])
  show ?case
    by (cases ps) (auto simp: result_simps Cons.IH pos [symmetric])
qed

lemma matching_shares:
  assumes "ristretto_laws G" "mapM_res (decode_matching_share G) (zip vs ps) = Inr items" "length vs = length ps"
  shows "map ps_pos items = ps \<and> list_all (position_share_ok G) items"
  using assms(2,3)
proof (induction vs arbitrary: ps items)
  case (Cons v vs)
  then obtain p ps' where "ps = p # ps'" by (cases ps) auto
  with Cons show ?case
    by (auto simp: result_simps decode_matching_share_def dest: decodePositionShare_ok [OF assms(1)] split: if_splits)
qed simp

lemma matching_encoded:
  "ristretto_laws G \<Longrightarrow> list_all (position_share_ok G) items \<Longrightarrow> JNegZero \<notin> ps_pos ` set items \<Longrightarrow>
     mapM_res (decode_matching_share G) (zip (map (encoded_share G) items) (map ps_pos items)) = Inr items"
  by (induction items) (auto simp: decode_matching_share_def decode_encoded_share)

lemma encodeItems_Inr:
  "encodeItems G items path = Inr vs \<longleftrightarrow> length items \<le> MAX_ACTION_REVEALS \<and> list_all (position_share_ok G) items \<and> vs = map (encoded_share G) items"
proof -
  have "mapM_res (\<lambda>item. catch_as (encodePositionShare G item) h) items = Inr vs \<longleftrightarrow> mapM_res (encodePositionShare G) items = Inr vs" for h vs
    by (induction items arbitrary: vs) (auto simp: result_simps)
  then show ?thesis by (auto simp: encodeItems_def encode_shares_Inr)
qed

lemma decode_data_again: "decode_data pr d = Inr d' \<Longrightarrow> decode_data pr d' = Inr d'"
  by (auto simp: decode_data_def result_simps decodeCanonical_Inr split: if_splits)

text \<open>What the decoder of actions guarantees.\<close>

definition action_body_ok :: "'p ristretto \<Rightarrow> 'p ActionBody \<Rightarrow> bool" where
  "action_body_ok G body \<longleftrightarrow> length (ab_kind body) \<le> MAX_ACTION_KIND_BYTES \<and> kind_pattern (ab_kind body) \<and>
     length (ab_reveal body) \<le> MAX_ACTION_REVEALS \<and> distinct (ab_reveal body) \<and> (\<forall>p \<in> set (ab_reveal body). \<exists>k \<le> 127. p = JInt (int k)) \<and>
     map ps_pos (ab_shares body) = ab_reveal body \<and> list_all (position_share_ok G) (ab_shares body)"

lemma decodeActionBody_ok:
  assumes "ristretto_laws G" "decodeActionBody pr G v = Inr body"
  shows "action_body_ok G body \<and> decode_data pr (ab_data body) = Inr (ab_data body)"
  using assms(2) matching_shares [OF assms(1)] decode_data_again
  by (auto simp: decodeActionBody_def result_simps decode_reveal_Inr action_body_ok_def split: if_splits)

definition encoded_action :: "'p ristretto \<Rightarrow> 'p ActionBody \<Rightarrow> jsval" where
  "encoded_action G body = JObject [(ascii ''kind'', JString (ab_kind body)), (ascii ''data'', ab_data body),
     (ascii ''reveal'', JArray (map JNumber (ab_reveal body))), (ascii ''shares'', JArray (map (encoded_share G) (ab_shares body)))]"

lemma decode_encoded_action:
  assumes laws: "ristretto_laws G" and ok: "action_body_ok G body" and data: "decode_data pr (ab_data body) = Inr d"
  shows "decodeActionBody pr G (encoded_action G body) = Inr (body\<lparr>ab_data := d\<rparr>)"
proof -
  have "JNegZero \<notin> ps_pos ` set (ab_shares body)" using ok by (metis action_body_ok_def image_set jsnum.distinct(1))
  then have "mapM_res (decode_matching_share G) (zip (map (encoded_share G) (ab_shares body)) (ab_reveal body)) = Inr (ab_shares body)"
    using matching_encoded [OF laws, of "ab_shares body"] ok by (simp add: action_body_ok_def)
  moreover have "length (ab_shares body) = length (ab_reveal body)" "ab_kind body \<noteq> []"
    using ok by (auto simp: action_body_ok_def kind_pattern_def dest: arg_cong [of _ _ length])
  ultimately show ?thesis
    using ok data decode_reveal_Inr [of "[]" "map JNumber (ab_reveal body)" "ab_reveal body"]
    by (cases body) (simp add: decodeActionBody_def encoded_action_def expect_ok has_exactly_def get_prop_def
        action_body_ok_def)
qed

text \<open>
  An action that decodes has distinct positions from 0 through 127, exactly one share for each
  of them in the same order, and a kind of the required form; it can be encoded again, and the
  encoded body decodes to the same action.
\<close>

theorem action_body_roundtrip:
  assumes laws: "ristretto_laws G" and decoded: "decodeActionBody pr G v = Inr body"
  shows "action_body_ok G body \<and> encodeActionBody pr G body = Inr (encoded_action G body) \<and>
    decodeActionBody pr G (encoded_action G body) = Inr body"
proof -
  note ok = decodeActionBody_ok [OF laws decoded]
  have again: "decodeActionBody pr G (encoded_action G body) = Inr body"
    using decode_encoded_action [OF laws conjunct1 [OF ok] conjunct2 [OF ok]] by simp
  have "length (ab_shares body) = length (ab_reveal body)" using ok by (auto simp: action_body_ok_def dest: arg_cong [of _ _ length])
  then have "encodeItems G (ab_shares body) p = Inr (map (encoded_share G) (ab_shares body))" for p
    using ok by (simp add: encodeItems_Inr action_body_ok_def)
  then show ?thesis using ok again by (simp add: encodeActionBody_def encoded_action_def)
qed

end
