(* ===== verification/Engine_Setup.thy ===== *)
theory Engine_Setup
  imports Deck_Theorems Error_Machine
begin

text \<open>
  \<^verbatim>\<open>packages/engine/src\<close>: the randomness beacon (\<open>randomness-beacon.ts\<close>) and the setup of a round
  (\<open>setup-coordinator.ts\<close>), in which every seat contributes a proven key share and, when the beacon is
  required, commits to a secret and reveals it. Both classes are records; a method that changes
  the object returns the new record with its result or error.
\<close>

section \<open>The beacon\<close>

datatype BeaconState = Committing | Revealing | BeaconComplete

datatype BeaconRejection =
  CommitmentMismatch | ConflictingCommitment | ConflictingReveal | UnexpectedCommit | UnexpectedReveal

datatype BeaconIngestResult =
    BeaconAccepted nat BeaconState
  | BeaconDuplicate nat BeaconState
  | BeaconRejected nat BeaconState BeaconRejection

record RandomnessBeacon =
  bc_gameId :: bytes
  bc_round :: jsnum
  bc_seatCount :: nat
  bc_commitments :: "bytes option list"
  bc_reveals :: "bytes option list"
  bc_state :: BeaconState
  bc_seed :: "bytes option"

text \<open>The two constructors check the round and the number of seats alike.\<close>

definition checked_table :: "string \<Rightarrow> jsval \<Rightarrow> jsnum \<Rightarrow> jsnum \<Rightarrow> protocol_error + bytes \<times> nat" where
  "checked_table label gameId round seatCount =
     (if \<not> isSafeInteger round \<or> numval round < 0
      then Inl (JsError (RangeError (label @ '' round must be an unsigned safe integer'')))
      else if seatCount = JNonInteger \<or> numval seatCount < 3 \<or> numval seatCount > 8
      then Inl (JsError (RangeError (label @ '' seat count must be an integer from 3 through 8'')))
      else rbind (parseGameId gameId) (\<lambda>game. Inr (game, nat (numval seatCount))))"

definition newRandomnessBeacon :: "jsval \<Rightarrow> jsnum \<Rightarrow> jsnum \<Rightarrow> protocol_error + RandomnessBeacon" where
  "newRandomnessBeacon gameId round seatCount =
     rbind (checked_table ''Beacon'' gameId round seatCount) (\<lambda>(game, n).
     Inr \<lparr>bc_gameId = game, bc_round = round, bc_seatCount = n, bc_commitments = replicate n None,
       bc_reveals = replicate n None, bc_state = Committing, bc_seed = None\<rparr>)"

definition missing_seats :: "'a option list \<Rightarrow> nat list" where
  "missing_seats xs = filter (\<lambda>i. xs ! i = None) [0..<length xs]"

definition beacon_pendingSenders :: "RandomnessBeacon \<Rightarrow> nat list" where
  "beacon_pendingSenders bc = missing_seats (if bc_state bc = Committing then bc_commitments bc else bc_reveals bc)"

definition assertSeat :: "string \<Rightarrow> nat \<Rightarrow> jsnum \<Rightarrow> protocol_error + nat" where
  "assertSeat label n seat =
     (if seat = JNonInteger \<or> numval seat < 0 \<or> numval seat \<ge> int n
      then Inl (JsError (RangeError (label @ '' seat must be an integer below the seat count''))) else Inr (nat (numval seat)))"

definition commitmentAt :: "RandomnessBeacon \<Rightarrow> jsnum \<Rightarrow> protocol_error + bytes option" where
  "commitmentAt bc seat = rbind (assertSeat ''Beacon'' (bc_seatCount bc) seat) (\<lambda>i. Inr (bc_commitments bc ! i))"

definition classifyCommitment :: "RandomnessBeacon \<Rightarrow> jsnum \<Rightarrow> jsval \<Rightarrow> protocol_error + BeaconIngestResult" where
  "classifyCommitment bc seat candidate =
     rbind (assertSeat ''Beacon'' (bc_seatCount bc) seat) (\<lambda>i.
     rbind (parseHash256 candidate) (\<lambda>commitment.
     Inr (case bc_commitments bc ! i of
       Some existing \<Rightarrow>
         if bytesEqual existing commitment then BeaconDuplicate i (bc_state bc)
         else BeaconRejected i (bc_state bc) ConflictingCommitment
     | None \<Rightarrow>
         if bc_state bc \<noteq> Committing then BeaconRejected i (bc_state bc) UnexpectedCommit
         else let remaining = length (filter (\<lambda>c. c = None) (bc_commitments bc)) in
           BeaconAccepted i (if remaining = 1 then Revealing else bc_state bc))))"

definition acceptCommitment ::
    "RandomnessBeacon \<Rightarrow> jsnum \<Rightarrow> jsval \<Rightarrow> RandomnessBeacon \<times> (protocol_error + BeaconIngestResult)" where
  "acceptCommitment bc seat candidate =
     (case classifyCommitment bc seat candidate of
        Inr (BeaconAccepted i st) \<Rightarrow>
          (case parseHash256 candidate of
             Inl e \<Rightarrow> (bc, Inl e)
           | Inr commitment \<Rightarrow>
               (bc\<lparr>bc_commitments := (bc_commitments bc)[i := Some commitment], bc_state := st\<rparr>, Inr (BeaconAccepted i st)))
      | r \<Rightarrow> (bc, r))"

definition classifyReveal :: "prims \<Rightarrow> RandomnessBeacon \<Rightarrow> jsnum \<Rightarrow> jsval \<Rightarrow> protocol_error + BeaconIngestResult" where
  "classifyReveal pr bc seat candidate =
     rbind (assertSeat ''Beacon'' (bc_seatCount bc) seat) (\<lambda>i.
     rbind (parseRandomSecret candidate) (\<lambda>secret.
     case bc_reveals bc ! i of
       Some existing \<Rightarrow>
         Inr (if bytesEqual existing secret then BeaconDuplicate i (bc_state bc)
              else BeaconRejected i (bc_state bc) ConflictingReveal)
     | None \<Rightarrow>
         if bc_state bc \<noteq> Revealing then Inr (BeaconRejected i (bc_state bc) UnexpectedReveal)
         else rbind (beaconCommitment pr (bc_gameId bc) (bc_round bc) seat secret) (\<lambda>expected.
           case bc_commitments bc ! i of
             Some commitment \<Rightarrow>
               Inr (if \<not> bytesEqual commitment expected then BeaconRejected i (bc_state bc) CommitmentMismatch
                    else let remaining = length (filter (\<lambda>c. c = None) (bc_reveals bc)) in
                      BeaconAccepted i (if remaining = 1 then BeaconComplete else bc_state bc))
           | None \<Rightarrow> Inl (JsError (TypeError ''Cannot read properties of null'')))))"

definition acceptReveal ::
    "prims \<Rightarrow> RandomnessBeacon \<Rightarrow> jsnum \<Rightarrow> jsval \<Rightarrow> RandomnessBeacon \<times> (protocol_error + BeaconIngestResult)" where
  "acceptReveal pr bc seat candidate =
     (case classifyReveal pr bc seat candidate of
        Inr (BeaconAccepted i st) \<Rightarrow>
          (case parseRandomSecret candidate of
             Inl e \<Rightarrow> (bc, Inl e)
           | Inr secret \<Rightarrow>
               let bc' = bc\<lparr>bc_reveals := (bc_reveals bc)[i := Some secret], bc_state := st\<rparr> in
               if st = BeaconComplete
               then (case parseHash256 (JBytes (sha256 pr (map the (bc_reveals bc')))) of
                       Inl e \<Rightarrow> (bc', Inl e)
                     | Inr seed \<Rightarrow> (bc'\<lparr>bc_seed := Some seed\<rparr>, Inr (BeaconAccepted i st)))
               else (bc', Inr (BeaconAccepted i st)))
      | r \<Rightarrow> (bc, r))"

definition createBeaconContribution ::
    "prims \<Rightarrow> bytes \<Rightarrow> jsnum \<Rightarrow> jsnum \<Rightarrow> 's source \<Rightarrow> 's \<Rightarrow> protocol_error + (bytes \<times> bytes) \<times> 's" where
  "createBeaconContribution pr gameId round seat fill s =
     (let (b, s') = randomBytes fill 32 s in
      rbind (parseRandomSecret (JBytes b)) (\<lambda>secret.
      rbind (beaconCommitment pr gameId round seat secret) (\<lambda>h.
      rbind (parseHash256 (JBytes h)) (\<lambda>commitment. Inr ((secret, commitment), s')))))"

section \<open>Setup\<close>

datatype SetupState = SetupKeys | RandCommit | RandReveal | SetupComplete | SetupFailed

datatype SetupRejectionReason =
    BeaconReason BeaconRejection
  | ConflictingKeyShare
  | InvalidKeyProof
  | SetupHasFailed

datatype SetupIngestResult =
    SetupAccepted nat SetupState
  | SetupDuplicate nat SetupState
  | SetupRejected nat SetupState SetupRejectionReason
  | SetupAggregateIdentity

datatype setup_error = SetupInvalid protocol_error | SetupDeck deck_error | SetupFault string

record 'p SetupCoordinator =
  su_gameId :: bytes
  su_round :: jsnum
  su_seatCount :: nat
  su_beaconRequired :: bool
  su_proofContext :: ProofContext
  su_keyShares :: "'p GameKeyShare option list"
  su_state :: SetupState
  su_aggregateKey :: "'p option"
  su_beacon :: "RandomnessBeacon option"

definition newSetupCoordinator :: "jsval \<Rightarrow> jsnum \<Rightarrow> jsnum \<Rightarrow> bool \<Rightarrow> protocol_error + 'p SetupCoordinator" where
  "newSetupCoordinator gameId round seatCount beaconRequired =
     rbind (checked_table ''Setup'' gameId round seatCount) (\<lambda>(game, n).
     Inr \<lparr>su_gameId = game, su_round = round, su_seatCount = n, su_beaconRequired = beaconRequired,
       su_proofContext = \<lparr>pc_gameId = game, pc_round = round, pc_phase = ascii ''setup.keys''\<rparr>,
       su_keyShares = replicate n None, su_state = SetupKeys, su_aggregateKey = None, su_beacon = None\<rparr>)"

definition setup_pendingSenders :: "'p SetupCoordinator \<Rightarrow> nat list" where
  "setup_pendingSenders su =
     (if su_state su = SetupKeys then missing_seats (su_keyShares su)
      else if su_state su = RandCommit \<or> su_state su = RandReveal
      then (case su_beacon su of Some bc \<Rightarrow> beacon_pendingSenders bc | None \<Rightarrow> [])
      else [])"

definition setup_seed :: "'p SetupCoordinator \<Rightarrow> bytes option" where
  "setup_seed su = (case su_beacon su of None \<Rightarrow> None | Some bc \<Rightarrow> bc_seed bc)"

definition publicKeyAt :: "'p SetupCoordinator \<Rightarrow> jsnum \<Rightarrow> protocol_error + 'p option" where
  "publicKeyAt su seat =
     rbind (assertSeat ''Setup'' (su_seatCount su) seat) (\<lambda>i. Inr (map_option ks_H (su_keyShares su ! i)))"

definition setup_commitmentAt :: "'p SetupCoordinator \<Rightarrow> jsnum \<Rightarrow> protocol_error + bytes option" where
  "setup_commitmentAt su seat =
     rbind (assertSeat ''Setup'' (su_seatCount su) seat) (\<lambda>_.
     case su_beacon su of None \<Rightarrow> Inr None | Some bc \<Rightarrow> commitmentAt bc seat)"

definition equalKeyShares :: "'p ristretto \<Rightarrow> 'p GameKeyShare \<Rightarrow> 'p GameKeyShare \<Rightarrow> bool" where
  "equalKeyShares G left right \<longleftrightarrow> nr_equals G (ks_H left) (ks_H right) \<and>
     nr_equals G (pop_R (ks_pop left)) (pop_R (ks_pop right)) \<and> pop_z (ks_pop left) = pop_z (ks_pop right)"

definition classifyKeyShare ::
    "prims \<Rightarrow> 'p ristretto \<Rightarrow> 'p SetupCoordinator \<Rightarrow> jsnum \<Rightarrow> 'p GameKeyShare \<Rightarrow> setup_error + SetupIngestResult" where
  "classifyKeyShare pr G su seat share =
     rbind (catch_as (assertSeat ''Setup'' (su_seatCount su) seat) SetupInvalid) (\<lambda>i.
     case su_keyShares su ! i of
       Some existing \<Rightarrow>
         Inr (if equalKeyShares G existing share then SetupDuplicate i (su_state su)
              else SetupRejected i (su_state su) ConflictingKeyShare)
     | None \<Rightarrow>
         if su_state su = SetupFailed then Inr (SetupRejected i (su_state su) SetupHasFailed)
         else if su_state su \<noteq> SetupKeys \<or> \<not> verifyGameKeyShare pr G (su_proofContext su) share
         then Inr (SetupRejected i (su_state su) InvalidKeyProof)
         else let prospective = (su_keyShares su)[i := Some share] in
           if list_ex (\<lambda>k. k = None) prospective then Inr (SetupAccepted i (su_state su))
           else case aggregatePublicKeys G (map (\<lambda>k. ks_H (the k)) prospective) of
                  Inl (DeckTypeError _) \<Rightarrow> Inr SetupAggregateIdentity
                | Inl e \<Rightarrow> Inl (SetupDeck e)
                | Inr _ \<Rightarrow> Inr (SetupAccepted i (if su_beaconRequired su then RandCommit else SetupComplete)))"

definition acceptKeyShare ::
    "prims \<Rightarrow> 'p ristretto \<Rightarrow> 'p SetupCoordinator \<Rightarrow> jsnum \<Rightarrow> 'p GameKeyShare \<Rightarrow> 'p SetupCoordinator \<times> (setup_error + SetupIngestResult)" where
  "acceptKeyShare pr G su seat share =
     (case classifyKeyShare pr G su seat share of
        Inr SetupAggregateIdentity \<Rightarrow>
          (su\<lparr>su_keyShares := (su_keyShares su)[nat (numval seat) := Some share], su_state := SetupFailed\<rparr>, Inr SetupAggregateIdentity)
      | Inr (SetupAccepted i st) \<Rightarrow>
          let su' = su\<lparr>su_keyShares := (su_keyShares su)[i := Some share]\<rparr> in
          if st = RandCommit \<or> st = SetupComplete
          then (case aggregatePublicKeys G (map (\<lambda>k. ks_H (the k)) (su_keyShares su')) of
                  Inl e \<Rightarrow> (su', Inl (SetupDeck e))
                | Inr key \<Rightarrow>
                    let su'' = su'\<lparr>su_aggregateKey := Some key\<rparr> in
                    if su_beaconRequired su''
                    then (case newRandomnessBeacon (JBytes (su_gameId su)) (su_round su) (JInt (int (su_seatCount su))) of
                            Inl e \<Rightarrow> (su'', Inl (SetupInvalid e))
                          | Inr bc \<Rightarrow> (su''\<lparr>su_beacon := Some bc, su_state := st\<rparr>, Inr (SetupAccepted i st)))
                    else (su''\<lparr>su_state := st\<rparr>, Inr (SetupAccepted i st)))
          else (su'\<lparr>su_state := st\<rparr>, Inr (SetupAccepted i st))
      | r \<Rightarrow> (su, r))"

fun setupStateForBeacon :: "BeaconState \<Rightarrow> SetupState" where
  "setupStateForBeacon Revealing = RandReveal"
| "setupStateForBeacon BeaconComplete = SetupComplete"
| "setupStateForBeacon Committing = RandCommit"

fun result_state :: "BeaconIngestResult \<Rightarrow> BeaconState" where
  "result_state (BeaconAccepted _ st) = st"
| "result_state (BeaconDuplicate _ st) = st"
| "result_state (BeaconRejected _ st _) = st"

fun mapBeaconResult :: "BeaconIngestResult \<Rightarrow> SetupState \<Rightarrow> SetupIngestResult" where
  "mapBeaconResult (BeaconRejected seat _ reason) st = SetupRejected seat st (BeaconReason reason)"
| "mapBeaconResult (BeaconAccepted seat _) st = SetupAccepted seat st"
| "mapBeaconResult (BeaconDuplicate seat _) st = SetupDuplicate seat st"

definition setup_classifyCommitment :: "'p SetupCoordinator \<Rightarrow> jsnum \<Rightarrow> jsval \<Rightarrow> setup_error + SetupIngestResult" where
  "setup_classifyCommitment su seat commitment =
     rbind (catch_as (assertSeat ''Setup'' (su_seatCount su) seat) SetupInvalid) (\<lambda>i.
     if su_state su = SetupFailed then Inr (SetupRejected i (su_state su) SetupHasFailed)
     else case su_beacon su of
       None \<Rightarrow> Inr (SetupRejected i (su_state su) (BeaconReason UnexpectedCommit))
     | Some bc \<Rightarrow> rbind (catch_as (classifyCommitment bc seat commitment) SetupInvalid) (\<lambda>r.
         Inr (mapBeaconResult r (setupStateForBeacon (result_state r)))))"

definition setup_classifyReveal :: "prims \<Rightarrow> 'p SetupCoordinator \<Rightarrow> jsnum \<Rightarrow> jsval \<Rightarrow> setup_error + SetupIngestResult" where
  "setup_classifyReveal pr su seat secret =
     rbind (catch_as (assertSeat ''Setup'' (su_seatCount su) seat) SetupInvalid) (\<lambda>i.
     if su_state su = SetupFailed then Inr (SetupRejected i (su_state su) SetupHasFailed)
     else case su_beacon su of
       None \<Rightarrow> Inr (SetupRejected i (su_state su) (BeaconReason UnexpectedReveal))
     | Some bc \<Rightarrow> rbind (catch_as (classifyReveal pr bc seat secret) SetupInvalid) (\<lambda>r.
         Inr (mapBeaconResult r (setupStateForBeacon (result_state r)))))"

definition syncBeaconState :: "'p SetupCoordinator \<Rightarrow> 'p SetupCoordinator" where
  "syncBeaconState su =
     (case su_beacon su of
        None \<Rightarrow> su
      | Some bc \<Rightarrow> if bc_state bc = Revealing then su\<lparr>su_state := RandReveal\<rparr>
                   else if bc_state bc = BeaconComplete then su\<lparr>su_state := SetupComplete\<rparr> else su)"

text \<open>The common end of \<open>acceptCommitment\<close> and \<open>acceptReveal\<close>: the beacon ingests, then its state is copied.\<close>

definition accept_into_beacon ::
    "(RandomnessBeacon \<Rightarrow> RandomnessBeacon \<times> (protocol_error + BeaconIngestResult)) \<Rightarrow> setup_error + SetupIngestResult \<Rightarrow>
     'p SetupCoordinator \<Rightarrow> 'p SetupCoordinator \<times> (setup_error + SetupIngestResult)" where
  "accept_into_beacon ingest classification su =
     (case classification of
        Inr (SetupAccepted i st) \<Rightarrow>
          (case su_beacon su of
             None \<Rightarrow> (su, Inl (SetupFault ''Setup beacon disappeared between classification and ingestion''))
           | Some bc \<Rightarrow>
               (case ingest bc of
                  (bc', Inl e) \<Rightarrow> (su\<lparr>su_beacon := Some bc'\<rparr>, Inl (SetupInvalid e))
                | (bc', Inr r) \<Rightarrow>
                    let su' = syncBeaconState (su\<lparr>su_beacon := Some bc'\<rparr>) in (su', Inr (mapBeaconResult r (su_state su')))))
      | r \<Rightarrow> (su, r))"

definition setup_acceptCommitment ::
    "'p SetupCoordinator \<Rightarrow> jsnum \<Rightarrow> jsval \<Rightarrow> 'p SetupCoordinator \<times> (setup_error + SetupIngestResult)" where
  "setup_acceptCommitment su seat commitment =
     accept_into_beacon (\<lambda>bc. acceptCommitment bc seat commitment) (setup_classifyCommitment su seat commitment) su"

definition setup_acceptReveal ::
    "prims \<Rightarrow> 'p SetupCoordinator \<Rightarrow> jsnum \<Rightarrow> jsval \<Rightarrow> 'p SetupCoordinator \<times> (setup_error + SetupIngestResult)" where
  "setup_acceptReveal pr su seat secret =
     accept_into_beacon (\<lambda>bc. acceptReveal pr bc seat secret) (setup_classifyReveal pr su seat secret) su"

end
