(* ===== verification/Engine_Theorems.thy ===== *)
theory Engine_Theorems
  imports Engine_Setup
begin

text \<open>
  What the setup of a round promises: the beacon is complete exactly when every seat has opened its
  commitment, its seed is then fixed by the commitments, and a complete setup has a verified
  key of every seat, their aggregate, and the seed.
\<close>

section \<open>The invariant of the beacon\<close>

definition beacon_inv :: "prims \<Rightarrow> RandomnessBeacon \<Rightarrow> bool" where
  "beacon_inv pr bc \<longleftrightarrow> length (bc_commitments bc) = bc_seatCount bc \<and> length (bc_reveals bc) = bc_seatCount bc \<and>
     0 < bc_seatCount bc \<and> (bc_state bc = Committing \<longleftrightarrow> None \<in> set (bc_commitments bc)) \<and>
     (bc_state bc = BeaconComplete \<longleftrightarrow> None \<notin> set (bc_reveals bc)) \<and>
     (bc_state bc = Committing \<longrightarrow> set (bc_reveals bc) \<subseteq> {None}) \<and>
     (\<forall>i < bc_seatCount bc. \<forall>s. bc_reveals bc ! i = Some s \<longrightarrow> length s = 32 \<and>
        (\<exists>c. bc_commitments bc ! i = Some c \<and> beaconCommitment pr (bc_gameId bc) (bc_round bc) (JInt (int i)) s = Inr c)) \<and>
     bc_seed bc = (if bc_state bc = BeaconComplete then Some (sha256 pr (map the (bc_reveals bc))) else None)"

definition hash_length :: "prims \<Rightarrow> bool" where
  "hash_length pr \<longleftrightarrow> (\<forall>b. length (noble_sha256 pr b) = 32)"

lemma missing_update:
  assumes "i < length xs" "xs ! i = None"
  shows "None \<in> set (xs[i := Some v]) \<longleftrightarrow> length (filter (\<lambda>c. c = None) xs) \<noteq> 1"
proof -
  have "mset (filter (\<lambda>c. c = None) (xs[i := Some v])) = mset (filter (\<lambda>c. c = None) xs) - {#None#}"
    using assms by (simp add: mset_update mset_filter)
  then have "length (filter (\<lambda>c. c = None) (xs[i := Some v])) = length (filter (\<lambda>c. c = None) xs) - 1"
    using assms by (metis (full_types, lifting) mem_Collect_eq nth_mem set_filter set_mset_mset size_Diff_singleton size_mset)
  moreover have "length (filter (\<lambda>c. c = None) xs) \<noteq> 0" using assms by (auto simp: filter_empty_conv) (metis nth_mem)
  moreover have "None \<in> set ys \<longleftrightarrow> length (filter (\<lambda>c. c = None) ys) \<noteq> 0" for ys :: "'a option list"
    by (auto simp: filter_empty_conv)
  ultimately show ?thesis by (metis One_nat_def Suc_pred diff_is_0_eq' le_refl neq0_conv old.nat.inject)
qed

lemma assertSeat_Inr:
  "assertSeat label n seat = Inr i \<longleftrightarrow> i < n \<and> (seat = JInt (int i) \<or> seat = JNegZero \<and> i = 0)"
  by (cases seat) (auto simp: assertSeat_def)

lemma commitment_negative_zero: "beaconCommitment pr game round JNegZero s \<noteq> Inr c" "beaconCommitment pr game JNegZero seat s \<noteq> Inr c"
  by (simp_all add: beaconCommitment_def result_simps encodeCanonical_def assertCborValue_def validateValue.simps supportedNumber_def assertDepth_def)

lemma acceptCommitment_cases:
  obtains (same) r where "acceptCommitment bc seat v = (bc, r)" "classifyCommitment bc seat v = r"
      "\<not> (\<exists>i st. r = Inr (BeaconAccepted i st))"
  | (taken) i c st where "acceptCommitment bc seat v = (bc\<lparr>bc_commitments := (bc_commitments bc)[i := Some c], bc_state := st\<rparr>, Inr (BeaconAccepted i st))"
      "classifyCommitment bc seat v = Inr (BeaconAccepted i st)"
      "i < bc_seatCount bc" "bc_commitments bc ! i = None" "bc_state bc = Committing" "length c = 32"
      "st = (if length (filter (\<lambda>c. c = None) (bc_commitments bc)) = 1 then Revealing else Committing)"
proof (cases "\<exists>i st. classifyCommitment bc seat v = Inr (BeaconAccepted i st)")
  case True
  then obtain i st where a: "classifyCommitment bc seat v = Inr (BeaconAccepted i st)" by blast
  then obtain c where c: "v = JBytes c" "length c = 32" "i < bc_seatCount bc" "bc_commitments bc ! i = None" "bc_state bc = Committing"
      "st = (if length (filter (\<lambda>c. c = None) (bc_commitments bc)) = 1 then Revealing else Committing)"
    by (auto simp: classifyCommitment_def result_simps parseHash256_def assertSeat_Inr Let_def split: option.splits if_splits)
  have "acceptCommitment bc seat v = (bc\<lparr>bc_commitments := (bc_commitments bc)[i := Some c], bc_state := st\<rparr>, Inr (BeaconAccepted i st))"
    using a c(1,2) by (simp add: acceptCommitment_def parseHash256_def parseFixedBytes_def)
  from taken [OF this a c(3-5) c(2) c(6)] show thesis .
next
  case False
  then show thesis
    by (intro same [of "classifyCommitment bc seat v"]) (auto simp: acceptCommitment_def split: sum.splits BeaconIngestResult.splits)
qed

lemma acceptReveal_cases [consumes 2]:
  assumes "beacon_inv pr bc" "hash_length pr"
  obtains (same) r where "acceptReveal pr bc seat v = (bc, r)" "classifyReveal pr bc seat v = r" "\<not> (\<exists>i st. r = Inr (BeaconAccepted i st))"
  | (taken) i s c st where "acceptReveal pr bc seat v = (bc\<lparr>bc_reveals := (bc_reveals bc)[i := Some s], bc_state := st,
        bc_seed := (if st = BeaconComplete then Some (sha256 pr (map the ((bc_reveals bc)[i := Some s]))) else bc_seed bc)\<rparr>, Inr (BeaconAccepted i st))"
      "classifyReveal pr bc seat v = Inr (BeaconAccepted i st)"
      "i < bc_seatCount bc" "bc_reveals bc ! i = None" "bc_state bc = Revealing" "length s = 32"
      "bc_commitments bc ! i = Some c" "beaconCommitment pr (bc_gameId bc) (bc_round bc) (JInt (int i)) s = Inr c"
      "st = (if length (filter (\<lambda>c. c = None) (bc_reveals bc)) = 1 then BeaconComplete else Revealing)"
proof (cases "\<exists>i st. classifyReveal pr bc seat v = Inr (BeaconAccepted i st)")
  case True
  then obtain i st where a: "classifyReveal pr bc seat v = Inr (BeaconAccepted i st)" by blast
  then obtain s where s: "v = JBytes s" "length s = 32" and seat: "i < bc_seatCount bc" "seat = JInt (int i) \<or> seat = JNegZero \<and> i = 0"
    and hidden: "bc_reveals bc ! i = None"
    by (auto simp: classifyReveal_def result_simps parseRandomSecret_def assertSeat_Inr Let_def split: option.splits if_splits)
  then have seat_i: "assertSeat ''Beacon'' (bc_seatCount bc) seat = Inr i" by (simp add: assertSeat_Inr)
  have secret: "parseRandomSecret v = Inr s" using s by (simp add: parseRandomSecret_def parseFixedBytes_def)
  note a' = a [unfolded classifyReveal_def seat_i secret rbind_Inr hidden option.case]
  then have rev: "bc_state bc = Revealing" by (auto split: if_splits)
  then obtain c where c: "beaconCommitment pr (bc_gameId bc) (bc_round bc) seat s = Inr c" "bc_commitments bc ! i = Some c"
      "st = (if length (filter (\<lambda>c. c = None) (bc_reveals bc)) = 1 then BeaconComplete else Revealing)"
    using a' by (auto simp: result_simps bytesEqual_iff Let_def split: option.splits if_splits)
  have "seat = JInt (int i)" using c(1) seat(2) commitment_negative_zero(1) by blast
  then have open_i: "beaconCommitment pr (bc_gameId bc) (bc_round bc) (JInt (int i)) s = Inr c" using c(1) by simp
  have "length (sha256 pr bs) = 32" for bs using assms(2) by (simp add: hash_length_def sha256_def)
  then have "acceptReveal pr bc seat v = (bc\<lparr>bc_reveals := (bc_reveals bc)[i := Some s], bc_state := st,
        bc_seed := (if st = BeaconComplete then Some (sha256 pr (map the ((bc_reveals bc)[i := Some s]))) else bc_seed bc)\<rparr>, Inr (BeaconAccepted i st))"
    using a secret by (simp add: acceptReveal_def parseHash256_def parseFixedBytes_def Let_def)
  from taken [OF this a seat(1) hidden rev s(2) c(2) open_i c(3)] show thesis .
next
  case False
  then show thesis
    by (intro same [of "classifyReveal pr bc seat v"]) (auto simp: acceptReveal_def split: sum.splits BeaconIngestResult.splits)
qed

lemma acceptCommitment_inv:
  assumes "beacon_inv pr bc"
  shows "beacon_inv pr (fst (acceptCommitment bc seat v))"
proof (cases rule: acceptCommitment_cases [of bc seat v])
  case (taken i c st)
  have "None \<in> set ((bc_commitments bc)[i := Some c]) \<longleftrightarrow> st = Committing"
    using taken assms missing_update [of i "bc_commitments bc" c] by (auto simp: beacon_inv_def)
  moreover have "bc_reveals bc ! j = None" if "j < bc_seatCount bc" for j
  proof -
    have "bc_reveals bc ! j \<in> set (bc_reveals bc)" using assms that by (intro nth_mem) (simp add: beacon_inv_def)
    then show ?thesis using assms taken(5) by (auto simp: beacon_inv_def)
  qed
  moreover have "st \<noteq> BeaconComplete" using taken(7) by simp
  ultimately show ?thesis using assms taken(1,5) by (auto simp: beacon_inv_def)
qed (use assms in simp)

lemma acceptReveal_inv:
  assumes "beacon_inv pr bc" "hash_length pr"
  shows "beacon_inv pr (fst (acceptReveal pr bc seat v))"
  using assms
proof (cases rule: acceptReveal_cases [where seat = seat and v = v])
  case (taken i s c st)
  have "None \<in> set ((bc_reveals bc)[i := Some s]) \<longleftrightarrow> st \<noteq> BeaconComplete"
    using taken assms(1) missing_update [of i "bc_reveals bc" s] by (auto simp: beacon_inv_def)
  moreover have "(bc_reveals bc)[i := Some s] ! j = Some t \<longrightarrow> length t = 32 \<and>
      (\<exists>c. bc_commitments bc ! j = Some c \<and> beaconCommitment pr (bc_gameId bc) (bc_round bc) (JInt (int j)) t = Inr c)"
    if "j < bc_seatCount bc" for j t
    using assms(1) taken that by (cases "j = i") (auto simp: beacon_inv_def)
  moreover have "st \<noteq> Committing" using taken(9) by simp
  ultimately show ?thesis using assms(1) taken(1,5) by (auto simp: beacon_inv_def)
qed (use assms in simp)

lemma newBeacon_inv: "newRandomnessBeacon game round n = Inr bc \<Longrightarrow> beacon_inv pr bc"
  by (auto simp: newRandomnessBeacon_def checked_table_def result_simps beacon_inv_def split: if_splits)

section \<open>The invariant of the setup\<close>

definition keys_of :: "'p SetupCoordinator \<Rightarrow> 'p list" where
  "keys_of su = map (\<lambda>k. ks_H (the k)) (su_keyShares su)"

definition setup_inv :: "prims \<Rightarrow> 'p ristretto \<Rightarrow> 'p SetupCoordinator \<Rightarrow> bool" where
  "setup_inv pr G su \<longleftrightarrow> length (su_gameId su) = 16 \<and> isSafeInteger (su_round su) \<and> 0 \<le> numval (su_round su) \<and>
     3 \<le> su_seatCount su \<and> su_seatCount su \<le> 8 \<and> length (su_keyShares su) = su_seatCount su \<and>
     (\<forall>k. Some k \<in> set (su_keyShares su) \<longrightarrow> verifyGameKeyShare pr G (su_proofContext su) k) \<and>
     (if su_state su = SetupKeys then None \<in> set (su_keyShares su) \<and> su_aggregateKey su = None \<and> su_beacon su = None
      else None \<notin> set (su_keyShares su) \<and>
        (if su_state su = SetupFailed
         then su_aggregateKey su = None \<and> su_beacon su = None \<and> (\<exists>m. aggregatePublicKeys G (keys_of su) = Inl (DeckTypeError m))
         else (\<exists>K. su_aggregateKey su = Some K \<and> aggregatePublicKeys G (keys_of su) = Inr K) \<and>
           (if su_beaconRequired su
            then \<exists>bc. su_beacon su = Some bc \<and> beacon_inv pr bc \<and> su_state su = setupStateForBeacon (bc_state bc) \<and>
              bc_gameId bc = su_gameId su \<and> bc_round bc = su_round su \<and> bc_seatCount bc = su_seatCount su
            else su_beacon su = None \<and> su_state su = SetupComplete)))"

lemma newSetup_inv: "newSetupCoordinator game round n req = Inr su \<Longrightarrow> setup_inv pr G su"
  by (auto simp: newSetupCoordinator_def checked_table_def result_simps setup_inv_def parseGameId_def split: if_splits)

lemma beacon_for_setup:
  assumes "setup_inv pr G su"
  shows "\<exists>bc. newRandomnessBeacon (JBytes (su_gameId su)) (su_round su) (JInt (int (su_seatCount su))) = Inr bc \<and> bc_state bc = Committing \<and>
    bc_gameId bc = su_gameId su \<and> bc_round bc = su_round su \<and> bc_seatCount bc = su_seatCount su"
  using assms by (auto simp: setup_inv_def newRandomnessBeacon_def checked_table_def parseGameId_def parseFixedBytes_def)

lemma setupState_inject [simp]: "setupStateForBeacon a \<noteq> SetupKeys" "setupStateForBeacon a \<noteq> SetupFailed"
  "setupStateForBeacon a = RandCommit \<longleftrightarrow> a = Committing" "setupStateForBeacon a = RandReveal \<longleftrightarrow> a = Revealing"
  "setupStateForBeacon a = SetupComplete \<longleftrightarrow> a = BeaconComplete"
  by (cases a; simp)+

lemma sync_state:
  assumes "su_beacon su = Some bc" "su_state su = RandCommit \<or> bc_state bc \<noteq> Committing"
  shows "syncBeaconState su = su\<lparr>su_state := setupStateForBeacon (bc_state bc)\<rparr>"
  using assms by (cases "bc_state bc") (auto simp: syncBeaconState_def)

text \<open>What the beacon does to the setup, once it has kept its own invariant.\<close>

lemma accept_into_beacon_inv:
  assumes inv: "setup_inv pr G su" and step: "\<And>bc. su_beacon su = Some bc \<Longrightarrow> beacon_inv pr bc \<Longrightarrow> beacon_inv pr (fst (ingest bc))"
    and keeps: "\<And>bc. bc_gameId (fst (ingest bc)) = bc_gameId bc \<and> bc_round (fst (ingest bc)) = bc_round bc \<and>
      bc_seatCount (fst (ingest bc)) = bc_seatCount bc"
    and classified: "\<And>bc i st. su_beacon su = Some bc \<Longrightarrow> classification = Inr (SetupAccepted i st) \<Longrightarrow>
      su_state su \<noteq> SetupFailed \<and> (\<exists>b. snd (ingest bc) = Inr (BeaconAccepted i b)) \<and>
      (bc_state bc \<noteq> Committing \<longrightarrow> bc_state (fst (ingest bc)) \<noteq> Committing)"
    and none: "su_beacon su = None \<Longrightarrow> \<not> (\<exists>i st. classification = Inr (SetupAccepted i st))"
  shows "setup_inv pr G (fst (accept_into_beacon ingest classification su)) \<and>
    (\<forall>m. snd (accept_into_beacon ingest classification su) = Inl (SetupFault m) \<longrightarrow> classification = Inl (SetupFault m))"
proof (cases "\<exists>i st. classification = Inr (SetupAccepted i st)")
  case True
  then obtain i st where c: "classification = Inr (SetupAccepted i st)" by blast
  with none obtain bc where bc: "su_beacon su = Some bc" by (cases "su_beacon su") auto
  obtain bc' b where ing: "ingest bc = (bc', Inr (BeaconAccepted i b))" using classified [OF bc c] by (cases "ingest bc") auto
  have old: "beacon_inv pr bc" "su_state su = setupStateForBeacon (bc_state bc)"
    using inv bc classified [OF bc c] by (auto simp: setup_inv_def split: if_splits)
  then have new: "beacon_inv pr bc'" using step [OF bc] ing by simp
  have "syncBeaconState (su\<lparr>su_beacon := Some bc'\<rparr>) = su\<lparr>su_beacon := Some bc', su_state := setupStateForBeacon (bc_state bc')\<rparr>"
    using old(2) classified [OF bc c] ing by (subst sync_state [of _ bc']) auto
  then show ?thesis
    using inv bc c ing new old(2) keeps [of bc]
    by (auto simp: accept_into_beacon_def Let_def setup_inv_def keys_of_def split: if_splits)
next
  case False
  then show ?thesis using inv by (auto simp: accept_into_beacon_def split: sum.splits SetupIngestResult.splits)
qed

lemma classifyKeyShare_cases:
  obtains (accepted) i st where "classifyKeyShare pr G su seat share = Inr (SetupAccepted i st)" "i < su_seatCount su"
      "su_state su = SetupKeys" "verifyGameKeyShare pr G (su_proofContext su) share"
      "if None \<in> set ((su_keyShares su)[i := Some share]) then st = SetupKeys
       else st = (if su_beaconRequired su then RandCommit else SetupComplete) \<and>
         (\<exists>K. aggregatePublicKeys G (map (\<lambda>k. ks_H (the k)) ((su_keyShares su)[i := Some share])) = Inr K)"
  | (identity) i m where "classifyKeyShare pr G su seat share = Inr SetupAggregateIdentity" "i < su_seatCount su" "i = nat (numval seat)"
      "su_state su = SetupKeys" "verifyGameKeyShare pr G (su_proofContext su) share" "None \<notin> set ((su_keyShares su)[i := Some share])"
      "aggregatePublicKeys G (map (\<lambda>k. ks_H (the k)) ((su_keyShares su)[i := Some share])) = Inl (DeckTypeError m)"
  | (other) "acceptKeyShare pr G su seat share = (su, classifyKeyShare pr G su seat share)"
      "\<And>m. classifyKeyShare pr G su seat share \<noteq> Inl (SetupFault m)"
proof (cases "assertSeat ''Setup'' (su_seatCount su) seat")
  case (Inl e)
  then show thesis by (intro other) (simp_all add: acceptKeyShare_def classifyKeyShare_def)
next
  case (Inr i)
  then have seat: "i < su_seatCount su" "nat (numval seat) = i" by (auto simp: assertSeat_Inr)
  let ?all = "(su_keyShares su)[i := Some share]"
  let ?agg = "aggregatePublicKeys G (map (\<lambda>k. ks_H (the k)) ?all)"
  show thesis
  proof (cases "su_keyShares su ! i = None \<and> su_state su = SetupKeys \<and> verifyGameKeyShare pr G (su_proofContext su) share")
    case False
    then show thesis
      by (intro other; auto simp: acceptKeyShare_def classifyKeyShare_def Inr split: option.splits)
  next
    case fresh: True
    have cls: "classifyKeyShare pr G su seat share = (if None \<in> set ?all then Inr (SetupAccepted i (su_state su))
        else case ?agg of Inl (DeckTypeError _) \<Rightarrow> Inr SetupAggregateIdentity | Inl e \<Rightarrow> Inl (SetupDeck e)
          | Inr _ \<Rightarrow> Inr (SetupAccepted i (if su_beaconRequired su then RandCommit else SetupComplete)))"
      using fresh by (simp add: classifyKeyShare_def Inr Let_def list_ex_iff)
    show thesis
    proof (cases "None \<in> set ?all")
      case True
      then show thesis using cls fresh seat by (intro accepted [of i SetupKeys]) simp_all
    next
      case full: False
      show thesis
      proof (cases ?agg)
        case (Inr K)
        then show thesis using cls fresh seat full by (intro accepted) (auto simp del: set_update_distinct)
      next
        case (Inl e)
        show thesis
        proof (cases "\<exists>m. e = DeckTypeError m")
          case True
          then show thesis using cls fresh seat full Inl by (elim exE) (intro identity [of i], auto)
        next
          case False
          then show thesis using cls full Inl by (cases e) (auto intro!: other simp: acceptKeyShare_def)
        qed
      qed
    qed
  qed
qed

lemma acceptKeyShare_inv:
  assumes inv: "setup_inv pr G su"
  shows "setup_inv pr G (fst (acceptKeyShare pr G su seat share)) \<and>
    (\<forall>m. snd (acceptKeyShare pr G su seat share) \<noteq> Inl (SetupFault m))"
proof (cases rule: classifyKeyShare_cases [of pr G su seat share])
  case (accepted i st)
  have keys: "su_aggregateKey su = None" "su_beacon su = None" "length (su_keyShares su) = su_seatCount su"
    using inv accepted(3) by (auto simp: setup_inv_def)
  have ok: "verifyGameKeyShare pr G (su_proofContext su) k" if "Some k \<in> set ((su_keyShares su)[i := Some share])" for k
    using that inv accepted(4) set_update_subset_insert [of "su_keyShares su" i "Some share"] by (auto simp: setup_inv_def)
  let ?su = "su\<lparr>su_keyShares := (su_keyShares su)[i := Some share]\<rparr>"
  show ?thesis
  proof (cases "None \<in> set ((su_keyShares su)[i := Some share])")
    case True
    then have "acceptKeyShare pr G su seat share = (?su\<lparr>su_state := SetupKeys\<rparr>, Inr (SetupAccepted i SetupKeys))"
      using accepted(1,5) by (simp add: acceptKeyShare_def Let_def)
    then show ?thesis using inv ok True keys accepted(3) by (auto simp: setup_inv_def)
  next
    case False
    then obtain K where K: "aggregatePublicKeys G (map (\<lambda>k. ks_H (the k)) ((su_keyShares su)[i := Some share])) = Inr K"
      and st: "st = (if su_beaconRequired su then RandCommit else SetupComplete)" using accepted(5) by auto
    show ?thesis
    proof (cases "su_beaconRequired su")
      case required: True
      obtain bc where bc: "newRandomnessBeacon (JBytes (su_gameId su)) (su_round su) (JInt (int (su_seatCount su))) = Inr bc"
          "bc_state bc = Committing" "bc_gameId bc = su_gameId su" "bc_round bc = su_round su" "bc_seatCount bc = su_seatCount su"
        using beacon_for_setup [OF inv] by blast
      have "acceptKeyShare pr G su seat share =
          (?su\<lparr>su_aggregateKey := Some K, su_beacon := Some bc, su_state := RandCommit\<rparr>, Inr (SetupAccepted i RandCommit))"
        using accepted(1) K st bc(1) required by (simp add: acceptKeyShare_def Let_def)
      then show ?thesis using inv ok False K required bc newBeacon_inv [OF bc(1)] by (simp add: setup_inv_def keys_of_def)
    next
      case optional: False
      have "acceptKeyShare pr G su seat share =
          (?su\<lparr>su_aggregateKey := Some K, su_state := SetupComplete\<rparr>, Inr (SetupAccepted i SetupComplete))"
        using accepted(1) K st optional by (simp add: acceptKeyShare_def Let_def)
      then show ?thesis using inv ok False K optional keys by (simp add: setup_inv_def keys_of_def)
    qed
  qed
next
  case (identity i m)
  have "verifyGameKeyShare pr G (su_proofContext su) k" if "Some k \<in> set ((su_keyShares su)[i := Some share])" for k
    using that inv identity(5) set_update_subset_insert [of "su_keyShares su" i "Some share"] by (auto simp: setup_inv_def)
  moreover have "acceptKeyShare pr G su seat share =
      (su\<lparr>su_keyShares := (su_keyShares su)[i := Some share], su_state := SetupFailed\<rparr>, Inr SetupAggregateIdentity)"
    using identity(1,3) by (simp add: acceptKeyShare_def)
  ultimately show ?thesis using inv identity(4,6,7) by (auto simp: setup_inv_def keys_of_def)
next
  case other
  then show ?thesis using inv by simp
qed

lemma accept_keeps_scope:
  "bc_gameId (fst (acceptCommitment bc seat v)) = bc_gameId bc \<and> bc_round (fst (acceptCommitment bc seat v)) = bc_round bc \<and>
     bc_seatCount (fst (acceptCommitment bc seat v)) = bc_seatCount bc"
  "bc_gameId (fst (acceptReveal pr bc seat v)) = bc_gameId bc \<and> bc_round (fst (acceptReveal pr bc seat v)) = bc_round bc \<and>
     bc_seatCount (fst (acceptReveal pr bc seat v)) = bc_seatCount bc"
  by (auto simp: acceptCommitment_def acceptReveal_def Let_def split: sum.splits BeaconIngestResult.splits)

lemma mapBeacon_accepted: "mapBeaconResult r st = SetupAccepted i st' \<longleftrightarrow> (\<exists>b. r = BeaconAccepted i b) \<and> st' = st"
  by (cases r) auto

lemma setup_acceptCommitment_inv:
  assumes inv: "setup_inv pr G su"
  shows "setup_inv pr G (fst (setup_acceptCommitment su seat v)) \<and> (\<forall>m. snd (setup_acceptCommitment su seat v) \<noteq> Inl (SetupFault m))"
proof -
  have "setup_inv pr G (fst (setup_acceptCommitment su seat v)) \<and>
    (\<forall>m. snd (setup_acceptCommitment su seat v) = Inl (SetupFault m) \<longrightarrow> setup_classifyCommitment su seat v = Inl (SetupFault m))"
    unfolding setup_acceptCommitment_def
  proof (rule accept_into_beacon_inv [OF inv])
    fix bc i st assume a: "su_beacon su = Some bc" "setup_classifyCommitment su seat v = Inr (SetupAccepted i st)"
    then obtain b where "classifyCommitment bc seat v = Inr (BeaconAccepted i b)" "su_state su \<noteq> SetupFailed"
      by (auto simp: setup_classifyCommitment_def result_simps mapBeacon_accepted split: if_splits)
    then show "su_state su \<noteq> SetupFailed \<and> (\<exists>b. snd (acceptCommitment bc seat v) = Inr (BeaconAccepted i b)) \<and>
        (bc_state bc \<noteq> Committing \<longrightarrow> bc_state (fst (acceptCommitment bc seat v)) \<noteq> Committing)"
      by (cases rule: acceptCommitment_cases [of bc seat v]) auto
  qed (use acceptCommitment_inv accept_keeps_scope in \<open>auto simp: setup_classifyCommitment_def result_simps split: if_splits\<close>)
  moreover have "setup_classifyCommitment su seat v \<noteq> Inl (SetupFault m)" for m
    by (auto simp: setup_classifyCommitment_def result_simps catch_as_def split: option.splits sum.splits)
  ultimately show ?thesis by blast
qed

lemma setup_acceptReveal_inv:
  assumes inv: "setup_inv pr G su" and hash: "hash_length pr"
  shows "setup_inv pr G (fst (setup_acceptReveal pr su seat v)) \<and> (\<forall>m. snd (setup_acceptReveal pr su seat v) \<noteq> Inl (SetupFault m))"
proof -
  have "setup_inv pr G (fst (setup_acceptReveal pr su seat v)) \<and>
    (\<forall>m. snd (setup_acceptReveal pr su seat v) = Inl (SetupFault m) \<longrightarrow> setup_classifyReveal pr su seat v = Inl (SetupFault m))"
    unfolding setup_acceptReveal_def
  proof (rule accept_into_beacon_inv [OF inv])
    fix bc i st assume a: "su_beacon su = Some bc" "setup_classifyReveal pr su seat v = Inr (SetupAccepted i st)"
    then obtain b where cl: "classifyReveal pr bc seat v = Inr (BeaconAccepted i b)" "su_state su \<noteq> SetupFailed"
      by (auto simp: setup_classifyReveal_def result_simps mapBeacon_accepted split: if_splits)
    have "beacon_inv pr bc" using inv a(1) cl(2) by (auto simp: setup_inv_def split: if_splits)
    then show "su_state su \<noteq> SetupFailed \<and> (\<exists>b. snd (acceptReveal pr bc seat v) = Inr (BeaconAccepted i b)) \<and>
        (bc_state bc \<noteq> Committing \<longrightarrow> bc_state (fst (acceptReveal pr bc seat v)) \<noteq> Committing)"
      using hash cl by (cases rule: acceptReveal_cases [where seat = seat and v = v]) (auto split: if_splits)
  qed (use acceptReveal_inv hash accept_keeps_scope in \<open>auto simp: setup_classifyReveal_def result_simps split: if_splits\<close>)
  moreover have "setup_classifyReveal pr su seat v \<noteq> Inl (SetupFault m)" for m
    by (auto simp: setup_classifyReveal_def result_simps catch_as_def split: option.splits sum.splits)
  ultimately show ?thesis by blast
qed

section \<open>Histories\<close>

datatype beacon_op = CommitOp jsnum jsval | RevealOp jsnum jsval

fun beacon_step :: "prims \<Rightarrow> RandomnessBeacon \<Rightarrow> beacon_op \<Rightarrow> unit + RandomnessBeacon" where
  "beacon_step pr bc (CommitOp seat v) = Inr (fst (acceptCommitment bc seat v))"
| "beacon_step pr bc (RevealOp seat v) = Inr (fst (acceptReveal pr bc seat v))"

definition beacon_start :: "RandomnessBeacon \<Rightarrow> bool" where
  "beacon_start bc \<longleftrightarrow> (\<exists>game round n. newRandomnessBeacon game round n = Inr bc)"

datatype 'p setup_op = KeyOp jsnum "'p GameKeyShare" | BeaconOp beacon_op

fun setup_step :: "prims \<Rightarrow> 'p ristretto \<Rightarrow> 'p SetupCoordinator \<Rightarrow> 'p setup_op \<Rightarrow> 'p SetupCoordinator \<times> (setup_error + SetupIngestResult)" where
  "setup_step pr G su (KeyOp seat share) = acceptKeyShare pr G su seat share"
| "setup_step pr G su (BeaconOp (CommitOp seat v)) = setup_acceptCommitment su seat v"
| "setup_step pr G su (BeaconOp (RevealOp seat v)) = setup_acceptReveal pr su seat v"

definition setup_start :: "'p SetupCoordinator \<Rightarrow> bool" where
  "setup_start su \<longleftrightarrow> (\<exists>game round n req. newSetupCoordinator game round n req = Inr su)"

abbreviation setup_next :: "prims \<Rightarrow> 'p ristretto \<Rightarrow> 'p SetupCoordinator \<Rightarrow> 'p setup_op \<Rightarrow> unit + 'p SetupCoordinator" where
  "setup_next pr G su op \<equiv> Inr (fst (setup_step pr G su op))"

lemma setup_step_inv:
  assumes "setup_inv pr G su" "hash_length pr"
  shows "setup_inv pr G (fst (setup_step pr G su op)) \<and> (\<forall>m. snd (setup_step pr G su op) \<noteq> Inl (SetupFault m))"
proof (cases op)
  case (BeaconOp b)
  then show ?thesis using setup_acceptCommitment_inv [OF assms(1)] setup_acceptReveal_inv [OF assms] by (cases b) simp_all
qed (simp add: acceptKeyShare_inv [OF assms(1)])

interpretation beacon_machine: error_machine beacon_start "beacon_step pr" "\<lambda>bc. hash_length pr \<longrightarrow> beacon_inv pr bc" for pr
  by unfold_locales
     (auto simp: beacon_start_def newBeacon_inv elim!: beacon_step.elims intro: acceptCommitment_inv acceptReveal_inv)

interpretation setup_machine: error_machine setup_start "setup_next pr G" "\<lambda>su. hash_length pr \<longrightarrow> setup_inv pr G su" for pr and G :: "'p ristretto"
  by unfold_locales (auto simp: setup_start_def newSetup_inv setup_step_inv)

section \<open>Properties\<close>

text \<open>
  The beacon of a reachable state is complete exactly when every seat has revealed, seats reveal
  only after every seat has committed, each secret opens the commitment of its own seat, and the seed
  exists exactly in a complete beacon and is the hash of the secrets in seat order.
\<close>

theorem beacon_opens_commitments:
  assumes "reachable beacon_start (beacon_step pr) bc" "hash_length pr"
  shows "(bc_state bc = BeaconComplete \<longleftrightarrow> (\<forall>i < bc_seatCount bc. bc_reveals bc ! i \<noteq> None)) \<and>
    (bc_state bc = Committing \<longleftrightarrow> (\<exists>i < bc_seatCount bc. bc_commitments bc ! i = None)) \<and>
    (\<forall>i < bc_seatCount bc. \<forall>s. bc_reveals bc ! i = Some s \<longrightarrow> (\<forall>j < bc_seatCount bc. bc_commitments bc ! j \<noteq> None) \<and>
       (\<exists>c. bc_commitments bc ! i = Some c \<and> beaconCommitment pr (bc_gameId bc) (bc_round bc) (JInt (int i)) s = Inr c)) \<and>
    bc_seed bc = (if bc_state bc = BeaconComplete then Some (sha256 pr (map the (bc_reveals bc))) else None)"
proof -
  have inv: "beacon_inv pr bc" using beacon_machine.reachable_good [OF assms(1)] assms(2) by simp
  then have len: "length (bc_commitments bc) = bc_seatCount bc" "length (bc_reveals bc) = bc_seatCount bc"
    by (simp_all add: beacon_inv_def)
  have hidden: "bc_reveals bc ! i = None" if "bc_state bc = Committing" "i < bc_seatCount bc" for i
  proof -
    have "bc_reveals bc ! i \<in> set (bc_reveals bc)" using that(2) len(2) by (intro nth_mem) simp
    then show ?thesis using inv that(1) by (auto simp: beacon_inv_def)
  qed
  have none: "None \<in> set xs \<longleftrightarrow> (\<exists>i < length xs. xs ! i = None)" for xs :: "bytes option list"
    by (simp add: in_set_conv_nth)
  show ?thesis
  proof (intro conjI allI impI)
    fix i s j assume "i < bc_seatCount bc" "bc_reveals bc ! i = Some s" "j < bc_seatCount bc"
    then have "bc_state bc \<noteq> Committing" using hidden by force
    then show "bc_commitments bc ! j \<noteq> None" using inv \<open>j < _\<close> len none [of "bc_commitments bc"] by (auto simp: beacon_inv_def)
  qed (use inv len none in \<open>auto simp: beacon_inv_def\<close>)
qed

text \<open>The strings whose hashes are the commitments of the revealed seats.\<close>

definition preimage :: "prims \<Rightarrow> RandomnessBeacon \<Rightarrow> nat \<Rightarrow> bytes" where
  "preimage pr bc i = concat [domainSeparator BeaconD, bc_gameId bc,
     (case encodeCanonical pr (JNumber (bc_round bc)) of Inr b \<Rightarrow> b | Inl _ \<Rightarrow> []),
     (case encodeCanonical pr (jnat i) of Inr b \<Rightarrow> b | Inl _ \<Rightarrow> []), the (bc_reveals bc ! i)]"

lemma commitment_preimage:
  "beaconCommitment pr (bc_gameId bc) (bc_round bc) (JInt (int i)) s = Inr c \<Longrightarrow> bc_reveals bc ! i = Some s \<Longrightarrow>
     c = noble_sha256 pr (preimage pr bc i)"
  by (auto simp: beaconCommitment_def result_simps preimage_def sha256_def)

text \<open>
  C18: the commitments fix the seed. Two complete beacons of one round that hold the same commitments
  have the same secrets and the same seed, unless the hash collides on the revealed values: nobody can
  change the outcome after the last commitment, whatever the order of the messages.
\<close>

theorem beacon_binding:
  assumes reach: "reachable beacon_start (beacon_step pr) b1" "reachable beacon_start (beacon_step pr) b2" and len: "hash_length pr"
    and scope: "bc_gameId b1 = bc_gameId b2" "bc_round b1 = bc_round b2" "bc_commitments b1 = bc_commitments b2"
    and complete: "bc_state b1 = BeaconComplete" "bc_state b2 = BeaconComplete"
    and collision_free: "inj_on (noble_sha256 pr) (preimage pr b1 ` {..<bc_seatCount b1} \<union> preimage pr b2 ` {..<bc_seatCount b2})"
  shows "bc_reveals b1 = bc_reveals b2 \<and> bc_seed b1 = bc_seed b2"
proof -
  have inv: "beacon_inv pr b1" "beacon_inv pr b2" using beacon_machine.reachable_good len reach by blast+
  then have n: "bc_seatCount b1 = bc_seatCount b2" "length (bc_reveals b1) = bc_seatCount b1" "length (bc_reveals b2) = bc_seatCount b1"
    using scope(3) by (auto simp: beacon_inv_def)
  have opened: "\<exists>s c. bc_reveals bc ! i = Some s \<and> length s = 32 \<and> bc_commitments bc ! i = Some c \<and> c = noble_sha256 pr (preimage pr bc i)"
    if "beacon_inv pr bc" "bc_state bc = BeaconComplete" "i < bc_seatCount bc" for bc i
  proof -
    have "bc_reveals bc ! i \<in> set (bc_reveals bc)" using that by (intro nth_mem) (simp add: beacon_inv_def)
    moreover have "None \<notin> set (bc_reveals bc)" using that(1,2) by (simp add: beacon_inv_def)
    ultimately have "bc_reveals bc ! i \<noteq> None" by metis
    then show ?thesis using that commitment_preimage by (fastforce simp: beacon_inv_def)
  qed
  have "bc_reveals b1 ! i = bc_reveals b2 ! i" if i: "i < bc_seatCount b1" for i
  proof -
    obtain s1 s2 where s: "bc_reveals b1 ! i = Some s1" "bc_reveals b2 ! i = Some s2" "length s1 = length s2"
        "noble_sha256 pr (preimage pr b1 i) = noble_sha256 pr (preimage pr b2 i)"
      using opened [OF inv(1) complete(1) i] opened [OF inv(2) complete(2), of i] i n(1) scope(3) by auto
    then have "preimage pr b1 i = preimage pr b2 i" using inj_onD [OF collision_free s(4)] i n(1) by auto
    then show ?thesis using s scope(1,2) by (simp add: preimage_def)
  qed
  then have "bc_reveals b1 = bc_reveals b2" using n by (simp add: list_eq_iff_nth_eq)
  then show ?thesis using inv complete by (simp add: beacon_inv_def)
qed

text \<open>
  C19: setup delivers what a round needs. A complete setup has a key of every seat whose proof verifies,
  the aggregate of exactly these keys, which is not the identity, and, when the beacon is required,
  a complete beacon of this game and round with its seed; a setup fails exactly because the keys of all
  seats cannot be aggregated. No message makes it throw its internal fault.
\<close>

theorem setup_delivers:
  assumes laws: "ristretto_laws G" and reach: "reachable setup_start (setup_next pr G) su" and hash: "hash_length pr"
  shows "(su_state su \<noteq> SetupKeys \<longrightarrow> (\<forall>i < su_seatCount su. \<exists>k. su_keyShares su ! i = Some k \<and> verifyGameKeyShare pr G (su_proofContext su) k)) \<and>
    (su_state su = SetupComplete \<longrightarrow> (\<exists>K. su_aggregateKey su = Some K \<and> K \<noteq> nr_zero G \<and>
       aggregatePublicKeys G (map (\<lambda>k. ks_H (the k)) (su_keyShares su)) = Inr K) \<and>
       (su_beaconRequired su \<longrightarrow> (\<exists>bc. su_beacon su = Some bc \<and> bc_state bc = BeaconComplete \<and> bc_gameId bc = su_gameId su \<and>
          bc_round bc = su_round su \<and> setup_seed su = Some (sha256 pr (map the (bc_reveals bc)))))) \<and>
    (su_state su = SetupFailed \<longrightarrow> (\<exists>m. aggregatePublicKeys G (map (\<lambda>k. ks_H (the k)) (su_keyShares su)) = Inl (DeckTypeError m))) \<and>
    (\<forall>op m. snd (setup_step pr G su op) \<noteq> Inl (SetupFault m))"
proof -
  have inv: "setup_inv pr G su" using setup_machine.reachable_good [OF reach] hash by simp
  have nonzero: "K \<noteq> nr_zero G" if "aggregatePublicKeys G keys = Inr K" for keys K
    using that by (auto simp: aggregatePublicKeys_def result_simps ristrettoD(9) [OF laws] split: if_splits)
  have keys: "\<exists>k. su_keyShares su ! i = Some k \<and> verifyGameKeyShare pr G (su_proofContext su) k"
    if "su_state su \<noteq> SetupKeys" "i < su_seatCount su" for i
    using inv that nth_mem [of i "su_keyShares su"] by (cases "su_keyShares su ! i") (auto simp: setup_inv_def)
  have complete: "(\<exists>K. su_aggregateKey su = Some K \<and> aggregatePublicKeys G (keys_of su) = Inr K) \<and>
      (su_beaconRequired su \<longrightarrow> (\<exists>bc. su_beacon su = Some bc \<and> beacon_inv pr bc \<and> bc_state bc = BeaconComplete \<and>
         bc_gameId bc = su_gameId su \<and> bc_round bc = su_round su))" if "su_state su = SetupComplete"
    using inv that by (cases "su_beaconRequired su") (auto simp: setup_inv_def eq_commute [of SetupComplete])
  have failed: "\<exists>m. aggregatePublicKeys G (keys_of su) = Inl (DeckTypeError m)" if "su_state su = SetupFailed"
    using inv that by (simp add: setup_inv_def)
  have seed: "setup_seed su = Some (sha256 pr (map the (bc_reveals bc)))"
    if "su_beacon su = Some bc" "beacon_inv pr bc" "bc_state bc = BeaconComplete" for bc
    using that by (simp add: setup_seed_def beacon_inv_def)
  show ?thesis
  proof (intro conjI allI impI)
    assume "su_state su = SetupComplete"
    then show "\<exists>K. su_aggregateKey su = Some K \<and> K \<noteq> nr_zero G \<and>
       aggregatePublicKeys G (map (\<lambda>k. ks_H (the k)) (su_keyShares su)) = Inr K"
      using complete nonzero by (auto simp: keys_of_def)
  next
    assume "su_state su = SetupComplete" "su_beaconRequired su"
    then show "\<exists>bc. su_beacon su = Some bc \<and> bc_state bc = BeaconComplete \<and> bc_gameId bc = su_gameId su \<and>
          bc_round bc = su_round su \<and> setup_seed su = Some (sha256 pr (map the (bc_reveals bc)))"
      using complete seed by blast
  next
    fix op m show "snd (setup_step pr G su op) \<noteq> Inl (SetupFault m)" using setup_step_inv [OF inv hash] by blast
  qed (use keys failed in \<open>auto simp: keys_of_def\<close>)
qed

text \<open>
  The constructors accept the round minus zero, which the canonical encoding refuses: such a
  beacon can never be completed.
\<close>

lemma negative_zero_round_stuck:
  shows "\<exists>bc. newRandomnessBeacon (JBytes (replicate 16 7)) JNegZero (JInt 3) = Inr bc \<and> bc_round bc = JNegZero"
    and "bc_round bc = JNegZero \<Longrightarrow> classifyReveal pr bc seat v \<noteq> Inr (BeaconAccepted i st)"
  using commitment_negative_zero(2)
  by (auto simp: newRandomnessBeacon_def checked_table_def parseGameId_def parseFixedBytes_def MAX_SAFE_INTEGER_def
      classifyReveal_def result_simps split: option.splits if_splits)

end
