(* ===== verification/Engine_Envelopes.thy ===== *)
theory Engine_Envelopes
  imports Deck_Wire Engine_Theorems
begin

text \<open>
  How signed envelopes reach the engine: the bodies of the beacon (\<^verbatim>\<open>packages/protocol/src/beacon-messages.ts\<close>),
  the decoding of an \<open>ACTION\<close> envelope in its scope (\<^verbatim>\<open>packages/engine/src/action-envelope.ts\<close>), and the setup of a
  round over envelopes (\<^verbatim>\<open>setup-envelope-coordinator.ts\<close>).
\<close>

section \<open>Beacon messages\<close>

definition encodeRandCommitBody :: "jsval \<Rightarrow> protocol_error + CborValue" where
  "encodeRandCommitBody cm = rbind (parseHash256 cm) (\<lambda>h. Inr (JObject [(ascii ''cm'', JBytes h)]))"

definition decodeRandCommitBody :: "CborValue \<Rightarrow> protocol_error + bytes" where
  "decodeRandCommitBody v =
     rbind (expectExactMap v [''cm''] ''RAND_COMMIT.body'') (\<lambda>body.
     catch_as (rbind (expectByteString (get_prop body ''cm'') ''RAND_COMMIT.body.cm'') (\<lambda>b. parseHash256 (JBytes b)))
       (as_schema_error ''RAND_COMMIT.body.cm'' ''must be a 32-byte hash''))"

definition encodeRandRevealBody :: "jsval \<Rightarrow> protocol_error + CborValue" where
  "encodeRandRevealBody s = rbind (parseRandomSecret s) (\<lambda>b. Inr (JObject [(ascii ''s'', JBytes b)]))"

definition decodeRandRevealBody :: "CborValue \<Rightarrow> protocol_error + bytes" where
  "decodeRandRevealBody v =
     rbind (expectExactMap v [''s''] ''RAND_REVEAL.body'') (\<lambda>body.
     catch_as (rbind (expectByteString (get_prop body ''s'') ''RAND_REVEAL.body.s'') (\<lambda>b. parseRandomSecret (JBytes b)))
       (as_schema_error ''RAND_REVEAL.body.s'' ''must be a 32-byte secret''))"

section \<open>Action envelopes\<close>

datatype ActionEnvelopeErrorCode =
  Invalid_envelope | Wrong_game | Wrong_round | Wrong_type | Wrong_phase | Unknown_sender | Unexpected_sender | Malformed_body

datatype engine_error =
    ActionEnvelopeError ActionEnvelopeErrorCode
  | EngineProtocol protocol_error
  | EngineDeck deck_error
  | EngineJs js_error

definition MAX_ACTION_ENVELOPE_BYTES :: nat where
  "MAX_ACTION_ENVELOPE_BYTES = 64 * 1024"

record ActionEnvelopeScope =
  aes_gameId :: jsval
  aes_round :: jsnum
  aes_actionIndex :: jsnum
  aes_roster :: "jsval list"
  aes_expectedSeats :: "jsnum list"

record 'p DecodedActionEnvelope =
  dae_received :: EnvelopeArtifact
  dae_seat :: nat
  dae_action :: "'p ActionBody"

definition play_phase :: "nat \<Rightarrow> nat \<Rightarrow> ustr" where
  "play_phase round index = ascii (''round.'' @ natText round @ ''.play.'' @ natText index)"

text \<open>An unsigned safe integer that is not negative zero.\<close>

definition unsigned_safe :: "jsnum \<Rightarrow> bool" where
  "unsigned_safe n \<longleftrightarrow> isSafeInteger n \<and> \<not> numval n < 0 \<and> n \<noteq> JNegZero"

fun action_seats :: "prims \<Rightarrow> (string \<times> nat) list \<Rightarrow> jsval list \<Rightarrow> engine_error + (string \<times> nat) list" where
  "action_seats pr seats [] = Inr seats"
| "action_seats pr seats (candidate # roster) =
     rbind (catch_as (parseIdentityPublicKey candidate) EngineProtocol) (\<lambda>identity.
     rbind (catch_as (importEd25519PublicKey pr identity) EngineJs) (\<lambda>_.
     let key = bytesToHex identity in
     if map_of seats key \<noteq> None then Inl (EngineJs (TypeError ''Action roster contains a duplicate identity''))
     else action_seats pr (AList.update key (length seats) seats) roster))"

fun expected_seats :: "nat \<Rightarrow> jsnum list \<Rightarrow> jsnum list \<Rightarrow> engine_error + jsnum list" where
  "expected_seats n expected [] = Inr expected"
| "expected_seats n expected (seat # seats) =
     (if \<not> unsigned_safe seat \<or> numval seat \<ge> int n \<or> seat \<in> set expected
      then Inl (EngineJs (RangeError ''Action expected seats must be distinct roster indices''))
      else expected_seats n (seat # expected) seats)"

definition decodeActionEnvelope ::
    "prims \<Rightarrow> 'p ristretto \<Rightarrow> bytes \<Rightarrow> ActionEnvelopeScope \<Rightarrow> engine_error + 'p DecodedActionEnvelope" where
  "decodeActionEnvelope pr G b scope =
     (if length b = 0 \<or> length b > MAX_ACTION_ENVELOPE_BYTES then Inl (ActionEnvelopeError Invalid_envelope)
      else rbind (catch_as (parseGameId (aes_gameId scope)) EngineProtocol) (\<lambda>gameId.
      if \<not> unsigned_safe (aes_round scope) \<or> \<not> unsigned_safe (aes_actionIndex scope)
      then Inl (EngineJs (RangeError ''Action round and index must be unsigned safe integers''))
      else if length (aes_roster scope) < 3 \<or> length (aes_roster scope) > 8
      then Inl (EngineJs (RangeError ''Action roster must contain 3 to 8 identities''))
      else rbind (action_seats pr [] (aes_roster scope)) (\<lambda>seats.
      if length (aes_expectedSeats scope) = 0 \<or> length (aes_expectedSeats scope) > length seats
      then Inl (EngineJs (RangeError ''Action expected seats must be a nonempty subset of the roster''))
      else rbind (expected_seats (length seats) [] (aes_expectedSeats scope)) (\<lambda>expected.
      rbind (catch_as (decodeAndVerifyEnvelope pr b) (\<lambda>_. ActionEnvelopeError Invalid_envelope)) (\<lambda>received.
      let envelope = art_envelope received; round = nat (numval (aes_round scope)); index = nat (numval (aes_actionIndex scope)) in
      if \<not> bytesEqual (env_game envelope) gameId then Inl (ActionEnvelopeError Wrong_game)
      else case map_of seats (bytesToHex (env_from envelope)) of
        None \<Rightarrow> Inl (ActionEnvelopeError Unknown_sender)
      | Some seat \<Rightarrow>
          if env_round envelope \<noteq> round then Inl (ActionEnvelopeError Wrong_round)
          else if env_type envelope \<noteq> ACTION then Inl (ActionEnvelopeError Wrong_type)
          else if env_phase envelope \<noteq> play_phase round index then Inl (ActionEnvelopeError Wrong_phase)
          else if JInt (int seat) \<notin> set expected then Inl (ActionEnvelopeError Unexpected_sender)
          else rbind (catch_as (decodeActionBody pr G (env_body envelope)) (\<lambda>_. ActionEnvelopeError Malformed_body)) (\<lambda>action.
            Inr \<lparr>dae_received = received, dae_seat = seat, dae_action = action\<rparr>))))))"

section \<open>Setup over envelopes\<close>

datatype SetupEnvelopeRejectionReason =
    SetupReason SetupRejectionReason
  | SetupMalformedBody
  | SetupUnknownSender
  | SetupWrongGame
  | SetupWrongPhase
  | SetupWrongRound
  | SetupWrongType

datatype SetupEnvelopeResult =
    SetupEnvelopeTaken nat SetupState EnvelopeArtifact SetupIngestResult
  | SetupEnvelopeRejected SetupEnvelopeRejectionReason SetupState EnvelopeArtifact "nat option"
  | SetupEnvelopeFailed nat EnvelopeArtifact

record 'p SetupEnvelopeCoordinator =
  sec_gameId :: bytes
  sec_round :: jsnum
  sec_roster :: "bytes list"
  sec_seats :: "(string \<times> nat) list"
  sec_setup :: "'p SetupCoordinator"
  sec_beaconRequired :: bool

fun setup_seats :: "prims \<Rightarrow> bytes list \<Rightarrow> (string \<times> nat) list \<Rightarrow> jsval list \<Rightarrow> protocol_error + bytes list \<times> (string \<times> nat) list" where
  "setup_seats pr identities seats [] = Inr (identities, seats)"
| "setup_seats pr identities seats (candidate # roster) =
     rbind (parseIdentityPublicKey candidate) (\<lambda>identity.
     rbind (catch_as (importEd25519PublicKey pr identity) (\<lambda>_. JsError (TypeError ''Setup roster seat has an invalid identity''))) (\<lambda>_.
     let key = bytesToHex identity in
     if map_of seats key \<noteq> None then Inl (JsError (TypeError ''Setup roster contains duplicate identity''))
     else setup_seats pr (identities @ [identity]) (AList.update key (length identities) seats) roster))"

definition newSetupEnvelopeCoordinator ::
    "prims \<Rightarrow> jsval \<Rightarrow> jsnum \<Rightarrow> jsval list \<Rightarrow> bool \<Rightarrow> protocol_error + 'p SetupEnvelopeCoordinator" where
  "newSetupEnvelopeCoordinator pr gameId round roster beaconRequired =
     rbind (parseGameId gameId) (\<lambda>game.
     if \<not> isSafeInteger round \<or> numval round < 0
     then Inl (JsError (RangeError ''Setup envelope round must be an unsigned safe integer''))
     else if length roster < 3 \<or> length roster > 8
     then Inl (JsError (RangeError ''Setup envelope roster must contain 3 to 8 seats''))
     else rbind (setup_seats pr [] [] roster) (\<lambda>(identities, seats).
       rbind (newSetupCoordinator (JBytes game) round (JInt (int (length roster))) beaconRequired) (\<lambda>setup_part.
       Inr \<lparr>sec_gameId = game, sec_round = round, sec_roster = identities, sec_seats = seats, sec_setup = setup_part,
         sec_beaconRequired = beaconRequired\<rparr>)))"

datatype 'p SetupMessage = KeyShareMessage "'p GameKeyShare" | RandCommitMessage bytes | RandRevealMessage bytes

text \<open>The three branches over the type of the envelope: phase first, then the body.\<close>

definition setup_message :: "'p ristretto \<Rightarrow> SignedEnvelope \<Rightarrow> SetupEnvelopeRejectionReason + 'p SetupMessage" where
  "setup_message G envelope =
     (case env_type envelope of
        KEY_SHARE \<Rightarrow>
          if env_phase envelope \<noteq> ascii ''setup.keys'' then Inl SetupWrongPhase
          else rbind (catch_as (decodeGameKeyShareBody G (env_body envelope)) (\<lambda>_. SetupMalformedBody)) (\<lambda>body. Inr (KeyShareMessage body))
      | RAND_COMMIT \<Rightarrow>
          if env_phase envelope \<noteq> ascii ''setup.rand'' then Inl SetupWrongPhase
          else rbind (catch_as (decodeRandCommitBody (env_body envelope)) (\<lambda>_. SetupMalformedBody)) (\<lambda>cm. Inr (RandCommitMessage cm))
      | RAND_REVEAL \<Rightarrow>
          if env_phase envelope \<noteq> ascii ''setup.rand'' then Inl SetupWrongPhase
          else rbind (catch_as (decodeRandRevealBody (env_body envelope)) (\<lambda>_. SetupMalformedBody)) (\<lambda>s. Inr (RandRevealMessage s))
      | _ \<Rightarrow> Inl SetupWrongType)"

fun classify_message :: "prims \<Rightarrow> 'p ristretto \<Rightarrow> 'p SetupCoordinator \<Rightarrow> nat \<Rightarrow> 'p SetupMessage \<Rightarrow> setup_error + SetupIngestResult" where
  "classify_message pr G su seat (KeyShareMessage share) = classifyKeyShare pr G su (JInt (int seat)) share"
| "classify_message pr G su seat (RandCommitMessage cm) = setup_classifyCommitment su (JInt (int seat)) (JBytes cm)"
| "classify_message pr G su seat (RandRevealMessage s) = setup_classifyReveal pr su (JInt (int seat)) (JBytes s)"

fun accept_message ::
    "prims \<Rightarrow> 'p ristretto \<Rightarrow> 'p SetupCoordinator \<Rightarrow> nat \<Rightarrow> 'p SetupMessage \<Rightarrow> 'p SetupCoordinator \<times> (setup_error + SetupIngestResult)" where
  "accept_message pr G su seat (KeyShareMessage share) = acceptKeyShare pr G su (JInt (int seat)) share"
| "accept_message pr G su seat (RandCommitMessage cm) = setup_acceptCommitment su (JInt (int seat)) (JBytes cm)"
| "accept_message pr G su seat (RandRevealMessage s) = setup_acceptReveal pr su (JInt (int seat)) (JBytes s)"

fun mapSetupResult :: "SetupIngestResult \<Rightarrow> EnvelopeArtifact \<Rightarrow> nat \<Rightarrow> SetupEnvelopeResult" where
  "mapSetupResult SetupAggregateIdentity received seat = SetupEnvelopeFailed seat received"
| "mapSetupResult (SetupRejected i st reason) received seat = SetupEnvelopeRejected (SetupReason reason) st received (Some seat)"
| "mapSetupResult (SetupAccepted i st) received seat = SetupEnvelopeTaken seat st received (SetupAccepted i st)"
| "mapSetupResult (SetupDuplicate i st) received seat = SetupEnvelopeTaken seat st received (SetupDuplicate i st)"

definition setup_process ::
    "prims \<Rightarrow> 'p ristretto \<Rightarrow> 'p SetupEnvelopeCoordinator \<Rightarrow> bytes \<Rightarrow> bool \<Rightarrow>
     'p SetupEnvelopeCoordinator \<times> (setup_error + SetupEnvelopeResult)" where
  "setup_process pr G sec canonicalBytes commit =
     (case decodeAndVerifyEnvelope pr canonicalBytes of
        Inl e \<Rightarrow> (sec, Inl (SetupInvalid e))
      | Inr received \<Rightarrow>
          let envelope = art_envelope received; st = su_state (sec_setup sec) in
          if \<not> bytesEqual (env_game envelope) (sec_gameId sec) then (sec, Inr (SetupEnvelopeRejected SetupWrongGame st received None))
          else case map_of (sec_seats sec) (bytesToHex (env_from envelope)) of
            None \<Rightarrow> (sec, Inr (SetupEnvelopeRejected SetupUnknownSender st received None))
          | Some seat \<Rightarrow>
              if int (env_round envelope) \<noteq> numval (sec_round sec)
              then (sec, Inr (SetupEnvelopeRejected SetupWrongRound st received (Some seat)))
              else case setup_message G envelope of
                Inl reason \<Rightarrow> (sec, Inr (SetupEnvelopeRejected reason st received (Some seat)))
              | Inr message \<Rightarrow>
                  let (su, r) = (if commit then accept_message pr G (sec_setup sec) seat message
                                 else (sec_setup sec, classify_message pr G (sec_setup sec) seat message)) in
                  (sec\<lparr>sec_setup := su\<rparr>, rbind r (\<lambda>result. Inr (mapSetupResult result received seat))))"

definition setup_envelope_classify ::
    "prims \<Rightarrow> 'p ristretto \<Rightarrow> 'p SetupEnvelopeCoordinator \<Rightarrow> EnvelopeArtifact \<Rightarrow> setup_error + SetupEnvelopeResult" where
  "setup_envelope_classify pr G sec received = snd (setup_process pr G sec (art_canonicalBytes received) False)"

definition setup_envelope_ingest ::
    "prims \<Rightarrow> 'p ristretto \<Rightarrow> 'p SetupEnvelopeCoordinator \<Rightarrow> EnvelopeArtifact \<Rightarrow>
     'p SetupEnvelopeCoordinator \<times> (setup_error + SetupEnvelopeResult)" where
  "setup_envelope_ingest pr G sec received = setup_process pr G sec (art_canonicalBytes received) True"

end
