(* ===== verification/Engine_Example.thy ===== *)
theory Engine_Example
  imports Engine_Theorems
begin

text \<open>
  A round of three seats that runs through setup: the witnesses that the promises of
  \<open>Engine_Theorems\<close> are about states that exist.
\<close>

section \<open>An example round\<close>

definition byte_length_hash :: "bytes \<Rightarrow> bytes" where
  "byte_length_hash b = replicate 32 (word_of_nat (length b))"

definition seat_prims :: prims where
  "seat_prims = example_prims\<lparr>cbor2_encode := table_encode [jnat 0, jnat 1, jnat 2],
     cbor2_decode := table_decode [jnat 0, jnat 1, jnat 2], noble_sha256 := byte_length_hash\<rparr>"

definition example_secret :: bytes where
  "example_secret = replicate 32 9"

definition example_commitment :: "nat \<Rightarrow> bytes" where
  "example_commitment i = byte_length_hash (replicate (length (domainSeparator BeaconD) + 50 + i) 0)"

definition open_beacon :: "bytes option list \<Rightarrow> bytes option list \<Rightarrow> BeaconState \<Rightarrow> bytes option \<Rightarrow> RandomnessBeacon" where
  "open_beacon cs rs st seed = \<lparr>bc_gameId = replicate 16 7, bc_round = JInt 0, bc_seatCount = 3, bc_commitments = cs, bc_reveals = rs,
     bc_state = st, bc_seed = seed\<rparr>"

definition full_beacon :: RandomnessBeacon where
  "full_beacon = open_beacon (map (\<lambda>i. Some (example_commitment i)) [0, 1, 2]) (replicate 3 (Some example_secret)) BeaconComplete
     (Some (sha256 seat_prims (replicate 3 example_secret)))"

lemma seat_hash_length: "hash_length seat_prims"
  by (simp add: hash_length_def seat_prims_def byte_length_hash_def)

lemma seat_encode: "i \<in> {0, 1, 2} \<Longrightarrow> encodeCanonical seat_prims (jnat i) = Inr (replicate (Suc i) 0)"
  by (elim insertE emptyE; simp add: encodeCanonical_def seat_prims_def assertCborValue_def validateValue.simps supportedNumber_def
      assertDepth_def MAX_CBOR_NESTING_DEPTH_def MAX_SAFE_INTEGER_def table_encode_def upt_rec numeral_eq_Suc)

lemma seat_commitment:
  "i \<in> {0, 1, 2} \<Longrightarrow> beaconCommitment seat_prims (replicate 16 7) (JInt 0) (JInt (int i)) example_secret = Inr (example_commitment i)"
  using seat_encode [of i] seat_encode [of 0]
  by (auto simp: beaconCommitment_def requireUnsignedSafeInteger_def requireSeat_def MAX_SAFE_INTEGER_def sha256_def example_commitment_def
      seat_prims_def byte_length_hash_def example_secret_def)

lemma seat_commit_steps:
  assumes "i \<in> {0, 1, 2}" "cs ! i = None"
  shows "beacon_step seat_prims (open_beacon cs rs Committing sd) (CommitOp (JInt (int i)) (JBytes (example_commitment i))) =
    Inr (open_beacon (cs[i := Some (example_commitment i)]) rs (if length (filter (\<lambda>c. c = None) cs) = 1 then Revealing else Committing) sd)"
  using assms by (auto simp: acceptCommitment_def classifyCommitment_def assertSeat_def open_beacon_def parseHash256_def parseFixedBytes_def
      example_commitment_def byte_length_hash_def Let_def)

lemma seat_reveal_steps:
  assumes "i \<in> {0, 1, 2}" "rs ! i = None" "cs ! i = Some (example_commitment i)"
  shows "beacon_step seat_prims (open_beacon cs rs Revealing None) (RevealOp (JInt (int i)) (JBytes example_secret)) =
    Inr (if length (filter (\<lambda>c. c = None) rs) = 1
         then open_beacon cs (rs[i := Some example_secret]) BeaconComplete (Some (sha256 seat_prims (map the (rs[i := Some example_secret]))))
         else open_beacon cs (rs[i := Some example_secret]) Revealing None)"
proof -
  have s: "parseRandomSecret (JBytes example_secret) = Inr example_secret"
    by (simp add: parseRandomSecret_def parseFixedBytes_def example_secret_def)
  have h: "parseHash256 (JBytes (sha256 seat_prims x)) = Inr (sha256 seat_prims x)" for x
    by (simp add: parseHash256_def parseFixedBytes_def sha256_def seat_prims_def byte_length_hash_def)
  show ?thesis
    using assms seat_commitment [OF assms(1)]
    by (auto simp: acceptReveal_def classifyReveal_def assertSeat_def open_beacon_def s h Let_def)
qed

definition beacon_run :: "beacon_op list" where
  "beacon_run = map (\<lambda>i. CommitOp (JInt (int i)) (JBytes (example_commitment i))) [0, 1, 2] @
     map (\<lambda>i. RevealOp (JInt (int i)) (JBytes example_secret)) [0, 1, 2]"

lemma full_beacon_reachable: "reachable beacon_start (beacon_step seat_prims) full_beacon"
proof -
  have "newRandomnessBeacon (JBytes (replicate 16 7)) (JInt 0) (JInt 3) = Inr (open_beacon (replicate 3 None) (replicate 3 None) Committing None)"
    by (simp add: newRandomnessBeacon_def checked_table_def parseGameId_def parseFixedBytes_def MAX_SAFE_INTEGER_def open_beacon_def)
  then have "beacon_start (open_beacon (replicate 3 None) (replicate 3 None) Committing None)"
    unfolding beacon_start_def by blast
  moreover have "foldM_res (beacon_step seat_prims) (open_beacon (replicate 3 None) (replicate 3 None) Committing None) beacon_run = Inr full_beacon"
  proof -
    let ?c = "\<lambda>i. Some (example_commitment i)" and ?s = "Some example_secret"
    have "beacon_step seat_prims (open_beacon [None, None, None] rs Committing None) (CommitOp (JInt 0) (JBytes (example_commitment 0)))
        = Inr (open_beacon [?c 0, None, None] rs Committing None)"
      "beacon_step seat_prims (open_beacon [?c 0, None, None] rs Committing None) (CommitOp (JInt 1) (JBytes (example_commitment 1)))
        = Inr (open_beacon [?c 0, ?c 1, None] rs Committing None)"
      "beacon_step seat_prims (open_beacon [?c 0, ?c 1, None] rs Committing None) (CommitOp (JInt 2) (JBytes (example_commitment 2)))
        = Inr (open_beacon [?c 0, ?c 1, ?c 2] rs Revealing None)" for rs
      using seat_commit_steps [of 0 "[None, None, None]" rs None] seat_commit_steps [of 1 "[?c 0, None, None]" rs None]
        seat_commit_steps [of 2 "[?c 0, ?c 1, None]" rs None] by (simp_all del: beacon_step.simps)
    moreover have "beacon_step seat_prims (open_beacon [?c 0, ?c 1, ?c 2] [None, None, None] Revealing None) (RevealOp (JInt 0) (JBytes example_secret))
        = Inr (open_beacon [?c 0, ?c 1, ?c 2] [?s, None, None] Revealing None)"
      "beacon_step seat_prims (open_beacon [?c 0, ?c 1, ?c 2] [?s, None, None] Revealing None) (RevealOp (JInt 1) (JBytes example_secret))
        = Inr (open_beacon [?c 0, ?c 1, ?c 2] [?s, ?s, None] Revealing None)"
      "beacon_step seat_prims (open_beacon [?c 0, ?c 1, ?c 2] [?s, ?s, None] Revealing None) (RevealOp (JInt 2) (JBytes example_secret))
        = Inr full_beacon"
      using seat_reveal_steps [of 0 "[None, None, None]" "[?c 0, ?c 1, ?c 2]"] seat_reveal_steps [of 1 "[?s, None, None]" "[?c 0, ?c 1, ?c 2]"]
        seat_reveal_steps [of 2 "[?s, ?s, None]" "[?c 0, ?c 1, ?c 2]"]
      by (simp_all add: full_beacon_def numeral_3_eq_3 del: beacon_step.simps)
    ultimately have "foldM_res (beacon_step seat_prims) (open_beacon [None, None, None] [None, None, None] Committing None)
        [CommitOp (JInt 0) (JBytes (example_commitment 0)), CommitOp (JInt 1) (JBytes (example_commitment 1)),
         CommitOp (JInt 2) (JBytes (example_commitment 2)), RevealOp (JInt 0) (JBytes example_secret),
         RevealOp (JInt 1) (JBytes example_secret), RevealOp (JInt 2) (JBytes example_secret)] = Inr full_beacon"
      by (simp only: foldM_res.simps rbind_Inr)
    then show ?thesis by (simp add: beacon_run_def numeral_3_eq_3 del: beacon_step.simps foldM_res.simps)
  qed
  ultimately show ?thesis by (rule reachable_fold [OF reachable_start])
qed

theorem beacon_opens_commitments_example:
  "(\<exists>c. bc_commitments full_beacon ! 1 = Some c \<and> beaconCommitment seat_prims (bc_gameId full_beacon) (bc_round full_beacon) (JInt 1) example_secret = Inr c) \<and>
   bc_seed full_beacon = Some (sha256 seat_prims (replicate 3 example_secret))"
proof -
  have "1 < bc_seatCount full_beacon" "bc_reveals full_beacon ! 1 = Some example_secret" "bc_state full_beacon = BeaconComplete"
    "map the (bc_reveals full_beacon) = replicate 3 example_secret"
    by (simp_all add: full_beacon_def open_beacon_def numeral_3_eq_3)
  then show ?thesis using beacon_opens_commitments [OF full_beacon_reachable seat_hash_length] by fastforce
qed

lemma preimages_differ: "inj_on (noble_sha256 seat_prims) (preimage seat_prims full_beacon ` {..<3})"
proof (rule inj_onI, elim imageE)
  fix x y i j assume *: "noble_sha256 seat_prims x = noble_sha256 seat_prims y" "x = preimage seat_prims full_beacon i" "i \<in> {..<3}"
    "y = preimage seat_prims full_beacon j" "j \<in> {..<3}"
  have len: "length (preimage seat_prims full_beacon k) = length (domainSeparator BeaconD) + 50 + k" if "k < 3" for k
  proof -
    have "k \<in> {0, 1, 2}" "full_beacon = full_beacon" using that by auto
    then show ?thesis using seat_encode [of k] seat_encode [of 0]
      by (auto simp: preimage_def full_beacon_def open_beacon_def example_secret_def numeral_3_eq_3)
  qed
  have "word_of_nat (length x) = (word_of_nat (length y) :: byte)"
    using *(1) by (simp add: seat_prims_def byte_length_hash_def replicate_eq_replicate)
  moreover have "length x < 256" "length y < 256"
    using * len by (auto simp: domainSeparator_def asciiToBytes_def ascii_def)
  ultimately have "length x = length y"
    by (simp add: word_of_nat_eq_iff take_bit_eq_mod)
  then have "i = j" using * len by simp
  then show "x = y" using * by simp
qed

theorem beacon_binding_witness:
  "bc_reveals full_beacon = bc_reveals full_beacon \<and> bc_seed full_beacon = bc_seed full_beacon \<and> bc_state full_beacon = BeaconComplete"
proof -
  have c: "bc_state full_beacon = BeaconComplete" "bc_seatCount full_beacon = 3" by (simp_all add: full_beacon_def open_beacon_def)
  show ?thesis
    using beacon_binding [OF full_beacon_reachable full_beacon_reachable seat_hash_length refl refl refl c(1) c(1)] preimages_differ c by simp
qed

text \<open>The same round over the group of two elements: three seats with the same key, and no beacon.\<close>

definition seat_share :: "1 word GameKeyShare" where
  "seat_share = \<lparr>ks_H = 1, ks_pop = \<lparr>pop_R = 1, pop_z = 1\<rparr>\<rparr>"

definition key_values :: "jsval list" where
  "key_values = [jnat 0, JString (ascii ''setup.keys''),
     JObject [(ascii ''H'', JBytes (replicate 32 1)), (ascii ''R'', JBytes (replicate 32 1))]]"

definition key_prims :: prims where
  "key_prims = example_prims\<lparr>cbor2_encode := table_encode key_values, cbor2_decode := table_decode key_values,
     noble_sha256 := byte_length_hash, noble_sha512 := \<lambda>_. replicate 64 0\<rparr>"

definition keyed_setup :: "1 word GameKeyShare option list \<Rightarrow> SetupState \<Rightarrow> 1 word option \<Rightarrow> 1 word SetupCoordinator" where
  "keyed_setup ks st key = \<lparr>su_gameId = replicate 16 7, su_round = JInt 0, su_seatCount = 3, su_beaconRequired = False,
     su_proofContext = \<lparr>pc_gameId = replicate 16 7, pc_round = JInt 0, pc_phase = ascii ''setup.keys''\<rparr>,
     su_keyShares = ks, su_state = st, su_aggregateKey = key, su_beacon = None\<rparr>"

lemma key_hash_length: "hash_length key_prims"
  by (simp add: hash_length_def key_prims_def byte_length_hash_def)

lemma key_codec: "i < 3 \<Longrightarrow> encodeCanonical key_prims (key_values ! i) = Inr (replicate (Suc i) 0)"
proof -
  assume "i < 3"
  then consider "i = 0" | "i = 1" | "i = 2" by linarith
  moreover have valid: "assertCborValue (key_values ! 0) = Inr ()" "assertCborValue (key_values ! 1) = Inr ()" "assertCborValue (key_values ! 2) = Inr ()"
    by (simp_all add: assertCborValue_iff key_values_def MAX_CBOR_NESTING_DEPTH_def MAX_SAFE_INTEGER_def, simp_all add: ascii_def)
  moreover have "table_encode key_values (key_values ! 0) = Some [0]" "table_encode key_values (key_values ! 1) = Some [0, 0]"
    "table_encode key_values (key_values ! 2) = Some [0, 0, 0]"
    by (simp_all add: table_encode_def key_values_def upt_rec numeral_eq_Suc)
  ultimately show ?thesis by cases (simp_all add: encodeCanonical_def key_prims_def numeral_eq_Suc)
qed

lemma seat_share_accepted:
  assumes enc: "encodeCanonical pr (jnat 0) = Inr b0" "encodeCanonical pr (JString (ascii ''setup.keys'')) = Inr b1"
      "encodeCanonical pr (key_values ! 2) = Inr b2"
    and h: "\<And>x. sha512 pr [domainSeparator ProofOfPossessionD @ x] = replicate 64 0"
    and ctx: "pc_round ctx = JInt 0" "pc_phase ctx = ascii ''setup.keys''"
  shows "verifyGameKeyShare pr pair_group ctx seat_share"
proof -
  have bytes: "nr_toBytes pair_group 1 = replicate 32 1" by (simp add: pair_group_def)
  have "length (ascii ''setup.keys'') \<noteq> 0" by (simp add: ascii_def)
  with enc have i: "proofChallengeInput pr ProofOfPossessionD (pc_gameId ctx) (JInt 0) (ascii ''setup.keys'') (key_values ! 2) =
      Inr (domainSeparator ProofOfPossessionD @ pc_gameId ctx @ b0 @ b1 @ b2)"
    by (simp add: proofChallengeInput_def requireUnsignedSafeInteger_def requireText_def MAX_SAFE_INTEGER_def concatBytes_def)
  have "proofChallengeScalar pr pair_group ProofOfPossessionD ctx (key_values ! 2) = Inr 0"
    using i by (simp add: proofChallengeScalar_def ctx h reduceWideRistrettoScalar_def scalarFromBigInt_def RISTRETTO_UNIFORM_BYTES_LENGTH_def)
      (simp add: pair_group_def)
  then have "keyProofChallenge pr pair_group ctx 1 1 = Inr 0"
    unfolding keyProofChallenge_def bytes by (simp add: key_values_def)
  then show ?thesis
    by (simp add: verifyGameKeyShare_def seat_share_def verified_def point_multiply_def assertScalar_def scalarFromBigInt_def,
        simp add: pair_group_def)
qed

lemma seat_share_verifies: "verifyGameKeyShare key_prims pair_group (su_proofContext (keyed_setup ks st key)) seat_share"
proof (rule seat_share_accepted)
  show "encodeCanonical key_prims (jnat 0) = Inr [0]" "encodeCanonical key_prims (JString (ascii ''setup.keys'')) = Inr [0, 0]"
    "encodeCanonical key_prims (key_values ! 2) = Inr [0, 0, 0]"
    using key_codec [of 0] key_codec [of 1] key_codec [of 2] by (simp_all add: key_values_def numeral_eq_Suc)
  show "sha512 key_prims [domainSeparator ProofOfPossessionD @ x] = replicate 64 0" for x by (simp add: sha512_def key_prims_def)
qed (simp_all add: keyed_setup_def)

lemma keyed_step:
  assumes verifies: "\<And>ks st key. verifyGameKeyShare pr pair_group (su_proofContext (keyed_setup ks st key)) seat_share"
  shows
  "acceptKeyShare pr pair_group (keyed_setup [None, None, None] SetupKeys None) (JInt 0) seat_share =
     (keyed_setup [Some seat_share, None, None] SetupKeys None, Inr (SetupAccepted 0 SetupKeys))"
  "acceptKeyShare pr pair_group (keyed_setup [Some seat_share, None, None] SetupKeys None) (JInt 1) seat_share =
     (keyed_setup [Some seat_share, Some seat_share, None] SetupKeys None, Inr (SetupAccepted 1 SetupKeys))"
  "acceptKeyShare pr pair_group (keyed_setup [Some seat_share, Some seat_share, None] SetupKeys None) (JInt 2) seat_share =
     (keyed_setup (replicate 3 (Some seat_share)) SetupComplete (Some 1), Inr (SetupAccepted 2 SetupComplete))"
proof -
  have agg: "aggregatePublicKeys pair_group [1, 1, 1] = Inr 1" by (simp add: aggregatePublicKeys_def pair_group_def)
  note v = verifies [unfolded keyed_setup_def, simplified]
  show "acceptKeyShare pr pair_group (keyed_setup [None, None, None] SetupKeys None) (JInt 0) seat_share =
     (keyed_setup [Some seat_share, None, None] SetupKeys None, Inr (SetupAccepted 0 SetupKeys))"
    "acceptKeyShare pr pair_group (keyed_setup [Some seat_share, None, None] SetupKeys None) (JInt 1) seat_share =
     (keyed_setup [Some seat_share, Some seat_share, None] SetupKeys None, Inr (SetupAccepted 1 SetupKeys))"
    by (simp_all add: acceptKeyShare_def classifyKeyShare_def assertSeat_def keyed_setup_def v)
  show "acceptKeyShare pr pair_group (keyed_setup [Some seat_share, Some seat_share, None] SetupKeys None) (JInt 2) seat_share =
     (keyed_setup (replicate 3 (Some seat_share)) SetupComplete (Some 1), Inr (SetupAccepted 2 SetupComplete))"
    using agg by (simp add: acceptKeyShare_def classifyKeyShare_def assertSeat_def keyed_setup_def v numeral_3_eq_3 seat_share_def [THEN arg_cong [of _ _ ks_H], simplified])
qed

lemma keyed_reachable:
  "reachable setup_start (setup_next key_prims pair_group) (keyed_setup (replicate 3 (Some seat_share)) SetupComplete (Some 1))"
proof -
  have "newSetupCoordinator (JBytes (replicate 16 7)) (JInt 0) (JInt 3) False = Inr (keyed_setup [None, None, None] SetupKeys None)"
    by (simp add: newSetupCoordinator_def checked_table_def parseGameId_def parseFixedBytes_def MAX_SAFE_INTEGER_def keyed_setup_def numeral_3_eq_3)
  then have "reachable setup_start (setup_next key_prims pair_group) (keyed_setup [None, None, None] SetupKeys None)"
    by (intro reachable_start) (auto simp: setup_start_def)
  from reachable_step [where a = "KeyOp (JInt 2) seat_share", OF reachable_step [where a = "KeyOp (JInt 1) seat_share",
      OF reachable_step [where a = "KeyOp (JInt 0) seat_share", OF this refl] refl] refl]
  show ?thesis by (simp add: keyed_step [OF seat_share_verifies])
qed

theorem setup_delivers_witness:
  "(\<exists>K. Some (1 :: 1 word) = Some K \<and> K \<noteq> nr_zero pair_group \<and> aggregatePublicKeys pair_group [1, 1, 1] = Inr K) \<and>
   verifyGameKeyShare key_prims pair_group (su_proofContext (keyed_setup [] SetupKeys None)) seat_share"
proof -
  let ?su = "keyed_setup (replicate 3 (Some seat_share)) SetupComplete (Some 1)"
  have su: "su_state ?su = SetupComplete" "su_seatCount ?su = 3" "su_keyShares ?su = replicate 3 (Some seat_share)" "su_aggregateKey ?su = Some 1"
    "su_proofContext ?su = su_proofContext (keyed_setup [] SetupKeys None)"
    by (simp_all add: keyed_setup_def)
  have keys: "map (\<lambda>k. ks_H (the k)) (replicate 3 (Some seat_share)) = [1, 1, 1]" by (simp add: numeral_3_eq_3 seat_share_def)
  note promise = setup_delivers [OF pair_laws keyed_reachable key_hash_length]
  have all: "\<forall>i < 3. \<exists>k. replicate 3 (Some seat_share) ! i = Some k \<and> verifyGameKeyShare key_prims pair_group (su_proofContext (keyed_setup [] SetupKeys None)) k"
    and key: "\<exists>K. Some (1 :: 1 word) = Some K \<and> K \<noteq> nr_zero pair_group \<and> aggregatePublicKeys pair_group [1, 1, 1] = Inr K"
    using mp [OF conjunct1 [OF promise]] conjunct1 [OF mp [OF conjunct1 [OF conjunct2 [OF promise]] su(1)]] su(1)
    unfolding su(2-) keys by simp_all
  have "verifyGameKeyShare key_prims pair_group (su_proofContext (keyed_setup [] SetupKeys None)) seat_share"
    using all [THEN spec, of 0] by simp
  with key show ?thesis by blast
qed

end
