(* ===== verification/Engine_Envelope_Props.thy ===== *)
theory Engine_Envelope_Props
  imports Engine_Envelopes Engine_Example
begin

text \<open>
  What the envelope layer of the engine promises: an accepted action comes from a seat of the roster
  in the scope that was asked for, and classifying a setup envelope foretells what ingesting it does.
\<close>

section \<open>Rosters\<close>

text \<open>A table of seats lists the identities of a roster in order.\<close>

definition seat_table :: "bytes list \<Rightarrow> (string \<times> nat) list \<Rightarrow> bool" where
  "seat_table ids seats \<longleftrightarrow> seats = zip (map bytesToHex ids) [0..<length ids] \<and> distinct ids"

lemma seat_table_lookup: "seat_table ids seats \<Longrightarrow> map_of seats (bytesToHex b) = Some i \<longleftrightarrow> i < length ids \<and> ids ! i = b"
proof -
  assume "seat_table ids seats"
  then have seats: "seats = zip (map bytesToHex ids) [0..<length ids]" and "distinct ids" by (simp_all add: seat_table_def)
  then have d: "distinct (map fst seats)" by (simp add: distinct_map inj_on_def)
  show ?thesis
    using map_of_eq_Some_iff [OF d, of "bytesToHex b" i] by (auto simp: seats in_set_zip intro!: exI [of _ i])
qed

lemma seat_table_extend:
  assumes "seat_table ids seats" "map_of seats (bytesToHex b) = None"
  shows "seat_table (ids @ [b]) (AList.update (bytesToHex b) (length ids) seats)"
proof -
  have new: "b \<notin> set ids"
    using assms seat_table_lookup [OF assms(1), of b] by (auto simp: in_set_conv_nth)
  have "bytesToHex b \<notin> fst ` set seats" using assms(2) by (simp add: map_of_eq_None_iff)
  then have "AList.update (bytesToHex b) (length ids) seats = seats @ [(bytesToHex b, length ids)]"
    using update_new by metis
  then show ?thesis using assms(1) new by (simp add: seat_table_def)
qed

lemma action_seats_Inr:
  "action_seats pr seats roster = Inr seats' \<Longrightarrow> seat_table ids seats \<Longrightarrow>
     \<exists>new. roster = map JBytes new \<and> seat_table (ids @ new) seats'"
proof (induction roster arbitrary: ids seats)
  case (Cons candidate roster)
  from Cons.prems(1) obtain b u where b: "candidate = JBytes b" "map_of seats (bytesToHex b) = None"
      "action_seats pr (AList.update (bytesToHex b) (length seats) seats) roster = Inr seats'"
    by (auto simp: result_simps parseIdentityPublicKey_def parseFixedBytes_def Let_def split: jsval.splits if_splits)
  have "length seats = length ids" using Cons.prems(2) by (simp add: seat_table_def)
  then obtain new where "roster = map JBytes new" "seat_table ((ids @ [b]) @ new) seats'"
    using Cons.IH [OF b(3), of "ids @ [b]"] seat_table_extend [OF Cons.prems(2) b(2)] by auto
  then show ?case using b(1) by (intro exI [of _ "b # new"]) simp
qed simp

lemma setup_seats_Inr:
  "setup_seats pr ids seats roster = Inr (ids', seats') \<Longrightarrow> seat_table ids seats \<Longrightarrow>
     \<exists>new. roster = map JBytes new \<and> ids' = ids @ new \<and> seat_table ids' seats'"
proof (induction roster arbitrary: ids seats)
  case (Cons candidate roster)
  from Cons.prems(1) obtain b where b: "candidate = JBytes b" "map_of seats (bytesToHex b) = None"
      "setup_seats pr (ids @ [b]) (AList.update (bytesToHex b) (length ids) seats) roster = Inr (ids', seats')"
    by (auto simp: result_simps parseIdentityPublicKey_def parseFixedBytes_def Let_def split: jsval.splits if_splits)
  then obtain new where "roster = map JBytes new" "ids' = (ids @ [b]) @ new" "seat_table ids' seats'"
    using Cons.IH [OF b(3)] seat_table_extend [OF Cons.prems(2) b(2)] by auto
  then show ?case using b(1) by (intro exI [of _ "b # new"]) simp
qed simp

section \<open>Actions\<close>

lemma expected_seats_Inr:
  "expected_seats n seen seats = Inr e \<Longrightarrow> set e = set seen \<union> set seats \<and> (\<forall>s \<in> set seats. \<exists>k < n. s = JInt (int k))"
proof (induction n seen seats rule: expected_seats.induct)
  case (2 n seen seat seats)
  then have "unsigned_safe seat" "numval seat < int n" and rest: "expected_seats n (seat # seen) seats = Inr e"
    by (auto split: if_splits)
  then have "\<exists>k < n. seat = JInt (int k)"
    by (cases seat) (auto simp: unsigned_safe_def intro: exI [of _ "nat (numval seat)"])
  with 2 rest show ?case by (auto split: if_splits)
qed simp

lemma decodeActionEnvelope_InrE:
  assumes "decodeActionEnvelope pr G b scope = Inr d"
  obtains gameId seats expected received where
      "aes_gameId scope = JBytes gameId" "0 < length b" "length b \<le> MAX_ACTION_ENVELOPE_BYTES"
      "unsigned_safe (aes_round scope)" "unsigned_safe (aes_actionIndex scope)"
      "action_seats pr [] (aes_roster scope) = Inr seats" "expected_seats (length seats) [] (aes_expectedSeats scope) = Inr expected"
      "decodeAndVerifyEnvelope pr b = Inr received" "env_game (art_envelope received) = gameId"
      "map_of seats (bytesToHex (env_from (art_envelope received))) = Some (dae_seat d)"
      "env_round (art_envelope received) = nat (numval (aes_round scope))" "env_type (art_envelope received) = ACTION"
      "env_phase (art_envelope received) = play_phase (nat (numval (aes_round scope))) (nat (numval (aes_actionIndex scope)))"
      "JInt (int (dae_seat d)) \<in> set expected" "decodeActionBody pr G (env_body (art_envelope received)) = Inr (dae_action d)"
      "dae_received d = received"
  using assms
  by (auto simp: decodeActionEnvelope_def result_simps Let_def parseGameId_def parseFixedBytes_def split: if_splits option.splits jsval.splits)

lemma action_envelope_sound_body:
  assumes "ristretto_laws G" "decodeActionEnvelope pr G b scope = Inr d"
  shows "action_body_ok G (dae_action d)"
  by (rule decodeActionEnvelope_InrE [OF assms(2)]) (rule conjunct1 [OF decodeActionBody_ok [OF assms(1)]])

text \<open>
  C20: an action envelope is accepted only for its scope. The bytes are a verified envelope of the game
  and round, signed by the identity of the reported seat of the roster, which is one of the seats
  expected to act, in the phase of exactly this action, and its body is a well-formed action.
\<close>

theorem action_envelope_sound:
  assumes laws: "ristretto_laws G" and decoded: "decodeActionEnvelope pr G b scope = Inr d"
  shows "decodeAndVerifyEnvelope pr b = Inr (dae_received d) \<and> 0 < length b \<and> length b \<le> MAX_ACTION_ENVELOPE_BYTES \<and>
    aes_gameId scope = JBytes (env_game (art_envelope (dae_received d))) \<and>
    aes_round scope = JInt (int (env_round (art_envelope (dae_received d)))) \<and>
    dae_seat d < length (aes_roster scope) \<and> aes_roster scope ! dae_seat d = JBytes (env_from (art_envelope (dae_received d))) \<and>
    JInt (int (dae_seat d)) \<in> set (aes_expectedSeats scope) \<and> env_type (art_envelope (dae_received d)) = ACTION \<and>
    (\<exists>i. aes_actionIndex scope = JInt (int i) \<and> env_phase (art_envelope (dae_received d)) = play_phase (env_round (art_envelope (dae_received d))) i) \<and>
    action_body_ok G (dae_action d)"
proof -
  have number: "\<exists>k. n = JInt (int k) \<and> nat (numval n) = k" if "unsigned_safe n" for n
    using that by (cases n) (auto simp: unsigned_safe_def intro: exI [of _ "nat (numval n)"])
  from decoded obtain gameId seats expected received where d:
      "aes_gameId scope = JBytes gameId" "0 < length b" "length b \<le> MAX_ACTION_ENVELOPE_BYTES"
      "unsigned_safe (aes_round scope)" "unsigned_safe (aes_actionIndex scope)"
      "action_seats pr [] (aes_roster scope) = Inr seats" "expected_seats (length seats) [] (aes_expectedSeats scope) = Inr expected"
      "decodeAndVerifyEnvelope pr b = Inr received" "env_game (art_envelope received) = gameId"
      "map_of seats (bytesToHex (env_from (art_envelope received))) = Some (dae_seat d)"
      "env_round (art_envelope received) = nat (numval (aes_round scope))" "env_type (art_envelope received) = ACTION"
      "env_phase (art_envelope received) = play_phase (nat (numval (aes_round scope))) (nat (numval (aes_actionIndex scope)))"
      "JInt (int (dae_seat d)) \<in> set expected" "decodeActionBody pr G (env_body (art_envelope received)) = Inr (dae_action d)"
      "dae_received d = received"
    by (rule decodeActionEnvelope_InrE)
  have "seat_table [] []" by (simp add: seat_table_def)
  from action_seats_Inr [OF d(6) this] obtain ids where ids: "aes_roster scope = map JBytes ids" "seat_table ids seats" by auto
  from number [OF d(4)] number [OF d(5)] obtain r i where
    n: "aes_round scope = JInt (int r)" "aes_actionIndex scope = JInt (int i)" by blast
  have "dae_seat d < length ids \<and> ids ! dae_seat d = env_from (art_envelope received)"
    using d(10) seat_table_lookup [OF ids(2)] by simp
  moreover have "JInt (int (dae_seat d)) \<in> set (aes_expectedSeats scope)" using expected_seats_Inr [OF d(7)] d(14) by simp
  moreover have "action_body_ok G (dae_action d)" using decodeActionBody_ok [OF laws d(15)] by simp
  ultimately show ?thesis using d n ids(1) by simp
qed

section \<open>Setup\<close>

lemma accept_into_beacon_result:
  assumes "su_beacon su = Some bc" "ingest bc = (bc', Inr (BeaconAccepted i b))" "bc_state bc' = b"
    and "su_state su = RandCommit \<or> b \<noteq> Committing"
  shows "snd (accept_into_beacon ingest (Inr (SetupAccepted i (setupStateForBeacon b))) su) = Inr (SetupAccepted i (setupStateForBeacon b))"
proof -
  have "syncBeaconState (su\<lparr>su_beacon := Some bc'\<rparr>) = su\<lparr>su_beacon := Some bc', su_state := setupStateForBeacon b\<rparr>"
    using assms(3,4) by (subst sync_state [of _ bc']) auto
  then show ?thesis using assms(1,2) by (simp add: accept_into_beacon_def Let_def)
qed

lemma accept_into_beacon_other:
  "\<not> (\<exists>i st. c = Inr (SetupAccepted i st)) \<Longrightarrow> accept_into_beacon ingest c su = (su, c)"
  by (auto simp: accept_into_beacon_def split: sum.splits SetupIngestResult.splits)

lemma beacon_of_setup:
  "setup_inv pr G su \<Longrightarrow> su_beacon su = Some bc \<Longrightarrow> su_state su \<noteq> SetupFailed \<Longrightarrow>
     beacon_inv pr bc \<and> su_state su = setupStateForBeacon (bc_state bc)"
  by (auto simp: setup_inv_def split: if_splits)

text \<open>A message is taken if it is accepted or makes the setup fail; any other verdict leaves the setup as it was.\<close>

definition takes :: "setup_error + SetupIngestResult \<Rightarrow> bool" where
  "takes r \<longleftrightarrow> (\<exists>i st. r = Inr (SetupAccepted i st)) \<or> r = Inr SetupAggregateIdentity"

lemma accept_is_classify:
  assumes inv: "setup_inv pr G su" and hash: "hash_length pr"
  shows "snd (accept_message pr G su seat m) = classify_message pr G su seat m \<and>
    (\<not> takes (classify_message pr G su seat m) \<longrightarrow> fst (accept_message pr G su seat m) = su)"
proof (cases m)
  case (KeyShareMessage share)
  show ?thesis
  proof (cases rule: classifyKeyShare_cases [of pr G su "JInt (int seat)" share])
    case (accepted i st)
    then show ?thesis
      using beacon_for_setup [OF inv] KeyShareMessage
      by (auto simp: acceptKeyShare_def takes_def Let_def split: if_splits)
  qed (use KeyShareMessage in \<open>simp_all add: acceptKeyShare_def takes_def\<close>)
next
  case (RandCommitMessage v)
  let ?c = "setup_classifyCommitment su (JInt (int seat)) (JBytes v)"
  show ?thesis
  proof (cases "\<exists>i st. ?c = Inr (SetupAccepted i st)")
    case True
    then obtain i bc b where c: "su_beacon su = Some bc" "su_state su \<noteq> SetupFailed"
        "classifyCommitment bc (JInt (int seat)) (JBytes v) = Inr (BeaconAccepted i b)" "?c = Inr (SetupAccepted i (setupStateForBeacon b))"
      by (auto simp: setup_classifyCommitment_def result_simps mapBeacon_accepted split: if_splits option.splits)
    have "snd (accept_into_beacon (\<lambda>bc. acceptCommitment bc (JInt (int seat)) (JBytes v)) ?c su) = ?c"
      using beacon_of_setup [OF inv c(1,2)] c
      by (cases rule: acceptCommitment_cases [of bc "JInt (int seat)" "JBytes v"]) (auto intro: accept_into_beacon_result)
    with True show ?thesis using RandCommitMessage by (auto simp: setup_acceptCommitment_def takes_def)
  qed (simp add: RandCommitMessage setup_acceptCommitment_def accept_into_beacon_other)
next
  case (RandRevealMessage v)
  let ?c = "setup_classifyReveal pr su (JInt (int seat)) (JBytes v)"
  show ?thesis
  proof (cases "\<exists>i st. ?c = Inr (SetupAccepted i st)")
    case True
    then obtain i bc b where c: "su_beacon su = Some bc" "su_state su \<noteq> SetupFailed"
        "classifyReveal pr bc (JInt (int seat)) (JBytes v) = Inr (BeaconAccepted i b)" "?c = Inr (SetupAccepted i (setupStateForBeacon b))"
      by (auto simp: setup_classifyReveal_def result_simps mapBeacon_accepted split: if_splits option.splits)
    have "beacon_inv pr bc" using beacon_of_setup [OF inv c(1,2)] by simp
    then have "\<exists>bc'. acceptReveal pr bc (JInt (int seat)) (JBytes v) = (bc', Inr (BeaconAccepted i b)) \<and> bc_state bc' = b \<and> b \<noteq> Committing"
      using hash c(3) by (cases rule: acceptReveal_cases [where seat = "JInt (int seat)" and v = "JBytes v"]) (auto split: if_splits)
    then have "snd (accept_into_beacon (\<lambda>bc. acceptReveal pr bc (JInt (int seat)) (JBytes v)) ?c su) = ?c"
      using c(1) unfolding c(4) by (auto intro: accept_into_beacon_result)
    with True show ?thesis using RandRevealMessage by (auto simp: setup_acceptReveal_def takes_def)
  qed (simp add: RandRevealMessage setup_acceptReveal_def accept_into_beacon_other)
qed

lemma accept_message_inv:
  "setup_inv pr G su \<Longrightarrow> hash_length pr \<Longrightarrow> setup_inv pr G (fst (accept_message pr G su seat m))"
  using setup_step_inv [of pr G su] by (cases m) (metis accept_message.simps setup_step.simps)+

definition sec_inv :: "prims \<Rightarrow> 'p ristretto \<Rightarrow> 'p SetupEnvelopeCoordinator \<Rightarrow> bool" where
  "sec_inv pr G sec \<longleftrightarrow> setup_inv pr G (sec_setup sec) \<and> seat_table (sec_roster sec) (sec_seats sec) \<and>
     su_gameId (sec_setup sec) = sec_gameId sec \<and> su_round (sec_setup sec) = sec_round sec \<and>
     su_seatCount (sec_setup sec) = length (sec_roster sec) \<and> su_beaconRequired (sec_setup sec) = sec_beaconRequired sec"

lemma accept_message_scope:
  "su_gameId (fst (accept_message pr G su seat m)) = su_gameId su \<and> su_round (fst (accept_message pr G su seat m)) = su_round su \<and>
   su_seatCount (fst (accept_message pr G su seat m)) = su_seatCount su \<and> su_beaconRequired (fst (accept_message pr G su seat m)) = su_beaconRequired su \<and>
   su_proofContext (fst (accept_message pr G su seat m)) = su_proofContext su"
  by (cases m) (auto simp: acceptKeyShare_def setup_acceptCommitment_def setup_acceptReveal_def accept_into_beacon_def syncBeaconState_def Let_def
      split: sum.splits SetupIngestResult.splits option.splits prod.splits if_splits)

lemma newSetupEnvelope_inv:
  assumes "newSetupEnvelopeCoordinator pr gameId round roster req = Inr sec"
  shows "sec_inv pr G sec"
proof -
  from assms obtain game ids seats su where new: "setup_seats pr [] [] roster = Inr (ids, seats)"
      "newSetupCoordinator (JBytes game) round (JInt (int (length roster))) req = Inr su"
      "sec = \<lparr>sec_gameId = game, sec_round = round, sec_roster = ids, sec_seats = seats, sec_setup = su, sec_beaconRequired = req\<rparr>"
      "length roster \<le> 8" "3 \<le> length roster"
    by (auto simp: newSetupEnvelopeCoordinator_def result_simps split: if_splits)
  have "seat_table [] []" by (simp add: seat_table_def)
  then have "roster = map JBytes ids" "seat_table ids seats" using setup_seats_Inr [OF new(1)] by auto
  moreover have "su_gameId su = game" "su_round su = round" "su_seatCount su = length roster" "su_beaconRequired su = req"
    using new(2) by (auto simp: newSetupCoordinator_def checked_table_def result_simps parseGameId_def parseFixedBytes_def split: if_splits)
  ultimately show ?thesis using newSetup_inv [OF new(2)] new(3) by (simp add: sec_inv_def)
qed

lemma setup_process_state:
  obtains "fst (setup_process pr G sec b commit) = sec"
  | seat m where "fst (setup_process pr G sec b commit) = sec\<lparr>sec_setup := fst (accept_message pr G (sec_setup sec) seat m)\<rparr>"
proof -
  have "fst (setup_process pr G sec b commit) = sec \<or>
      (\<exists>seat m. fst (setup_process pr G sec b commit) = sec\<lparr>sec_setup := fst (accept_message pr G (sec_setup sec) seat m)\<rparr>)"
  proof (cases "decodeAndVerifyEnvelope pr b")
    case (Inr art)
    then show ?thesis
      by (cases "map_of (sec_seats sec) (bytesToHex (env_from (art_envelope art)))"; cases "setup_message G (art_envelope art)"; cases commit)
        (auto simp: setup_process_def Let_def case_prod_beta)
  qed (simp add: setup_process_def)
  then show thesis using that by blast
qed

lemma setup_process_inv: "sec_inv pr G sec \<Longrightarrow> hash_length pr \<Longrightarrow> sec_inv pr G (fst (setup_process pr G sec b commit))"
  by (cases rule: setup_process_state [of pr G sec b commit])
     (simp_all add: sec_inv_def accept_message_scope accept_message_inv)

definition sec_start :: "prims \<Rightarrow> 'p SetupEnvelopeCoordinator \<Rightarrow> bool" where
  "sec_start pr sec \<longleftrightarrow> (\<exists>gameId round roster req. newSetupEnvelopeCoordinator pr gameId round roster req = Inr sec)"

abbreviation sec_next :: "prims \<Rightarrow> 'p ristretto \<Rightarrow> 'p SetupEnvelopeCoordinator \<Rightarrow> EnvelopeArtifact \<Rightarrow> unit + 'p SetupEnvelopeCoordinator" where
  "sec_next pr G sec received \<equiv> Inr (fst (setup_envelope_ingest pr G sec received))"

interpretation envelope_machine: error_machine "sec_start pr" "sec_next pr G" "\<lambda>sec. hash_length pr \<longrightarrow> sec_inv pr G sec"
  for pr and G :: "'p ristretto"
  by unfold_locales (auto simp: sec_start_def newSetupEnvelope_inv setup_envelope_ingest_def setup_process_inv)

text \<open>
  Setup over envelopes can be previewed. In every reachable coordinator, classifying an envelope
  gives the very result that ingesting it gives, a rejected or repeated envelope changes nothing, and a
  result that names a seat comes from a verified envelope of this game that the identity of that seat signed.
\<close>

theorem setup_preview:
  assumes reach: "reachable (sec_start pr) (sec_next pr G) sec" and hash: "hash_length pr"
  shows "snd (setup_envelope_ingest pr G sec received) = setup_envelope_classify pr G sec received \<and>
    (case setup_envelope_classify pr G sec received of
       Inr (SetupEnvelopeTaken seat st art (SetupAccepted i st')) \<Rightarrow> True
     | Inr (SetupEnvelopeFailed seat art) \<Rightarrow> True
     | _ \<Rightarrow> fst (setup_envelope_ingest pr G sec received) = sec) \<and>
    (\<forall>seat st art r. setup_envelope_classify pr G sec received = Inr (SetupEnvelopeTaken seat st art r) \<longrightarrow>
       decodeAndVerifyEnvelope pr (art_canonicalBytes received) = Inr art \<and> env_game (art_envelope art) = sec_gameId sec \<and>
       seat < length (sec_roster sec) \<and> sec_roster sec ! seat = env_from (art_envelope art))"
proof -
  have inv: "sec_inv pr G sec" using envelope_machine.reachable_good [OF reach] hash by simp
  then have su: "setup_inv pr G (sec_setup sec)" and table: "seat_table (sec_roster sec) (sec_seats sec)" by (simp_all add: sec_inv_def)
  note same = accept_is_classify [OF su hash]
  show ?thesis
  proof (cases "decodeAndVerifyEnvelope pr (art_canonicalBytes received)")
    case (Inl e)
    then show ?thesis by (simp add: setup_envelope_ingest_def setup_envelope_classify_def setup_process_def)
  next
    case (Inr art)
    show ?thesis
    proof (cases "env_game (art_envelope art) = sec_gameId sec \<and> map_of (sec_seats sec) (bytesToHex (env_from (art_envelope art))) \<noteq> None \<and>
        int (env_round (art_envelope art)) = numval (sec_round sec) \<and> (\<exists>m. setup_message G (art_envelope art) = Inr m)")
      case False
      then show ?thesis using Inr
        by (auto simp: setup_envelope_ingest_def setup_envelope_classify_def setup_process_def Let_def split: option.splits sum.splits)
    next
      case True
      then obtain seat m where m: "map_of (sec_seats sec) (bytesToHex (env_from (art_envelope art))) = Some seat"
          "setup_message G (art_envelope art) = Inr m" by blast
      obtain su' r where acc: "accept_message pr G (sec_setup sec) seat m = (su', r)" by fastforce
      have r: "classify_message pr G (sec_setup sec) seat m = r" "\<not> takes r \<longrightarrow> su' = sec_setup sec" using same [of seat m] acc by auto
      have ing: "setup_envelope_ingest pr G sec received = (sec\<lparr>sec_setup := su'\<rparr>, rbind r (\<lambda>result. Inr (mapSetupResult result art seat)))"
        and cls: "setup_envelope_classify pr G sec received = rbind r (\<lambda>result. Inr (mapSetupResult result art seat))"
        using Inr True m acc r by (simp_all add: setup_envelope_ingest_def setup_envelope_classify_def setup_process_def Let_def)
      have seat: "seat < length (sec_roster sec) \<and> sec_roster sec ! seat = env_from (art_envelope art)"
        using seat_table_lookup [OF table] m(1) by simp
      show ?thesis
      proof (cases r)
        case (Inl e)
        then show ?thesis using ing cls r(2) by (auto simp: takes_def)
      next
        case (Inr result)
        then show ?thesis using ing cls r(2) seat True \<open>decodeAndVerifyEnvelope _ _ = Inr art\<close> by (cases result) (auto simp: takes_def)
      qed
    qed
  qed
qed

end
