(* ===== verification/Reveal_Ledger.thy ===== *)
theory Reveal_Ledger
  imports Engine_Envelope_Props
begin

text \<open>
  \<^verbatim>\<open>packages/engine/src/round-reveal-ledger.ts\<close>: who has contributed which decryption share to which card of
  a supplied deck, and which cards are revealed. The source of random bytes is a pure function
  here, so the checks that it did not call back into the ledger have no case. A revealed record
  lists positions with their cards.
\<close>

section \<open>State\<close>

definition MAX_ROUND_REVEAL_ENVELOPE_BYTES :: nat where
  "MAX_ROUND_REVEAL_ENVELOPE_BYTES = MAX_ACTION_ENVELOPE_BYTES"

record PrivateDealStep =
  pds_to :: jsnum
  pds_count :: jsnum

record 'p RoundRevealOptions =
  rro_setup :: "'p SetupEnvelopeCoordinator"
  rro_round :: jsnum
  rro_deckSpec :: DeckSpec
  rro_deck :: "'p MaskedCard list"
  rro_schedule :: "PrivateDealStep list"
  rro_maxActions :: jsnum
  rro_batchDeal :: bool

datatype RoundRevealErrorCode =
    ActionCode ActionEnvelopeErrorCode
  | Deal_incomplete | Wrong_recipient | Wrong_positions | Conflicting_contribution
  | Unscheduled_position | Wrong_owner | Already_revealed | Invalid_share_proof
  | Action_limit | Inconsistent_deck | Invalid_local_key

datatype reveal_error =
    RoundRevealError RoundRevealErrorCode
  | RevealEngine engine_error
  | RevealDeck deck_error
  | RevealProtocol protocol_error
  | RevealJs js_error

abbreviation revealError :: "RoundRevealErrorCode \<Rightarrow> reveal_error + 'a" where
  "revealError code \<equiv> Inl (RoundRevealError code)"

record ScheduledDeal =
  sd_to :: nat
  sd_positions :: "nat list"

type_synonym revealed_cards = "(nat \<times> ustr) list"

datatype TransitionStatus = TransitionAccepted | TransitionDuplicate

datatype 'p RoundRevealTransition =
    SharesTransition TransitionStatus EnvelopeArtifact nat "'p SharesBody"
  | ActionTransition TransitionStatus EnvelopeArtifact nat "'p ActionBody" revealed_cards

record 'p RoundRevealLedger =
  rl_gameId :: bytes
  rl_round :: nat
  rl_roster :: "bytes list"
  rl_seats :: "(string \<times> nat) list"
  rl_publicKeys :: "'p list"
  rl_table :: "'p CardPointTable"
  rl_deck :: "'p MaskedCard list"
  rl_schedule :: "ScheduledDeal list"
  rl_owners :: "nat option list"
  rl_maxActions :: nat
  rl_batchDeal :: bool
  rl_shares :: "(nat \<times> 'p) list list"
  rl_contributors :: "nat list"
  rl_revealed :: revealed_cards
  rl_accepted :: "(string \<times> revealed_cards) list"
  rl_dealIndex :: nat
  rl_actionIndex :: nat

section \<open>Construction\<close>

definition copied_key :: "'p ristretto \<Rightarrow> 'p SetupEnvelopeCoordinator \<Rightarrow> nat \<Rightarrow> reveal_error + 'p" where
  "copied_key G sec seat =
     rbind (catch_as (publicKeyAt (sec_setup sec) (JInt (int seat))) RevealProtocol) (\<lambda>key.
     case key of
       None \<Rightarrow> Inl (RevealJs (TypeError ''Completed setup is missing a public game key''))
     | Some k \<Rightarrow> catch_as (point_fromBytes G (nr_toBytes G k)) (\<lambda>e. RevealDeck (DeckRistretto e)))"

definition copied_card :: "'p ristretto \<Rightarrow> 'p MaskedCard \<Rightarrow> reveal_error + 'p MaskedCard" where
  "copied_card G c =
     catch_as (rbind (point_fromBytes G (nr_toBytes G (mc_A c))) (\<lambda>a.
               rbind (point_fromBytes G (nr_toBytes G (mc_B c))) (\<lambda>b. Inr \<lparr>mc_A = a, mc_B = b\<rparr>))) (\<lambda>e. RevealDeck (DeckRistretto e))"

text \<open>The loop over the schedule; \<open>cursor\<close> is the next position that has no owner yet.\<close>

fun schedule_deals ::
    "nat \<Rightarrow> nat \<Rightarrow> nat \<Rightarrow> nat option list \<Rightarrow> PrivateDealStep list \<Rightarrow> reveal_error + ScheduledDeal list \<times> nat option list" where
  "schedule_deals seats limit cursor owners [] = Inr ([], owners)"
| "schedule_deals seats limit cursor owners (step # steps) =
     (if \<not> unsigned_safe (pds_to step) \<or> numval (pds_to step) \<ge> int seats \<or>
         \<not> isSafeInteger (pds_count step) \<or> numval (pds_count step) < 1 \<or> numval (pds_count step) > int limit - int cursor
      then Inl (RevealJs (RangeError ''Each private-deal step must name a roster seat and an available positive card count''))
      else
        let to = nat (numval (pds_to step)); next_cursor = cursor + nat (numval (pds_count step)); positions = [cursor..<next_cursor] in
        rbind (schedule_deals seats limit next_cursor (fold (\<lambda>p os. os[p := Some to]) positions owners) steps) (\<lambda>(deals, owners').
        Inr (\<lparr>sd_to = to, sd_positions = positions\<rparr> # deals, owners')))"

definition newRoundRevealLedger :: "prims \<Rightarrow> 'p ristretto \<Rightarrow> 'p RoundRevealOptions \<Rightarrow> reveal_error + 'p RoundRevealLedger" where
  "newRoundRevealLedger pr G options =
     (let sec = rro_setup options; roster = sec_roster sec in
      if su_state (sec_setup sec) \<noteq> SetupComplete then Inl (RevealJs (TypeError ''Round reveals require completed key setup''))
      else if \<not> isSafeInteger (rro_round options) \<or> numval (rro_round options) < numval (sec_round sec) \<or> rro_round options = JNegZero
      then Inl (RevealJs (RangeError ''Round must be a safe integer no earlier than setup''))
      else if \<not> isSafeInteger (rro_maxActions options) \<or> numval (rro_maxActions options) < 1
      then Inl (RevealJs (RangeError ''Round action budget must be a positive safe integer''))
      else if rro_batchDeal options \<and> length roster \<noteq> 4
      then Inl (RevealJs (TypeError ''All-recipient deal batches require four seats''))
      else rbind (mapM_res (copied_key G sec) [0..<length roster]) (\<lambda>publicKeys.
      rbind (catch_as (newCardPointTable pr G (rro_deckSpec options)) RevealDeck) (\<lambda>table.
      if length (rro_deck options) \<noteq> table_size table
      then Inl (RevealJs (RangeError ''Ciphertext deck must match the deck specification size''))
      else rbind (mapM_res (copied_card G) (rro_deck options)) (\<lambda>deck.
      if length (rro_schedule options) > length deck
      then Inl (RevealJs (RangeError ''Private-deal schedule cannot exceed the deck size''))
      else rbind (schedule_deals (length roster) (length deck) 0 (replicate (length deck) None) (rro_schedule options)) (\<lambda>(deals, owners).
      if rro_batchDeal options \<and> None \<in> set owners
      then Inl (RevealJs (RangeError ''All-recipient deal batches must assign every deck position''))
      else Inr \<lparr>rl_gameId = sec_gameId sec, rl_round = nat (numval (rro_round options)), rl_roster = roster,
        rl_seats = map (\<lambda>seat. (bytesToHex (roster ! seat), seat)) [0..<length roster], rl_publicKeys = publicKeys, rl_table = table,
        rl_deck = deck, rl_schedule = deals, rl_owners = owners, rl_maxActions = nat (numval (rro_maxActions options)),
        rl_batchDeal = rro_batchDeal options, rl_shares = replicate (length deck) [], rl_contributors = [], rl_revealed = [],
        rl_accepted = [], rl_dealIndex = 0, rl_actionIndex = 0\<rparr>)))))"

section \<open>Reading\<close>

definition deal_phase :: "nat \<Rightarrow> nat \<Rightarrow> ustr" where
  "deal_phase round index = ascii (''round.'' @ natText round @ ''.deal.'' @ natText index)"

definition current_deal :: "'p RoundRevealLedger \<Rightarrow> ScheduledDeal option" where
  "current_deal rl = (if rl_dealIndex rl < length (rl_schedule rl) then Some (rl_schedule rl ! rl_dealIndex rl) else None)"

definition ledger_phase :: "'p RoundRevealLedger \<Rightarrow> ustr" where
  "ledger_phase rl = (if current_deal rl = None then play_phase (rl_round rl) (rl_actionIndex rl)
     else deal_phase (rl_round rl) (rl_dealIndex rl))"

definition dealCount :: "'p RoundRevealLedger \<Rightarrow> nat" where
  "dealCount rl = length (rl_schedule rl)"

record RoundDeal =
  rd_to :: nat
  rd_positions :: "nat list"
  rd_pendingSenders :: "nat list"

record RoundRevealSnapshot =
  rrs_phase :: ustr
  rrs_dealIndex :: nat
  rrs_actionIndex :: nat
  rrs_deal :: "RoundDeal option"
  rrs_revealed :: revealed_cards

definition ledger_snapshot :: "'p RoundRevealLedger \<Rightarrow> RoundRevealSnapshot" where
  "ledger_snapshot rl = \<lparr>rrs_phase = ledger_phase rl, rrs_dealIndex = rl_dealIndex rl, rrs_actionIndex = rl_actionIndex rl,
     rrs_deal = (case current_deal rl of None \<Rightarrow> None
       | Some deal \<Rightarrow> Some \<lparr>rd_to = (if rl_batchDeal rl then 4 else sd_to deal),
           rd_positions = (if rl_batchDeal rl then [0..<length (rl_owners rl)] else sd_positions deal),
           rd_pendingSenders = filter (\<lambda>seat. (rl_batchDeal rl \<or> seat \<noteq> sd_to deal) \<and> seat \<notin> set (rl_contributors rl)) [0..<length (rl_roster rl)]\<rparr>),
     rrs_revealed = rl_revealed rl\<rparr>"

definition ownerAt :: "'p RoundRevealLedger \<Rightarrow> jsnum \<Rightarrow> reveal_error + nat option" where
  "ownerAt rl position =
     (if \<not> unsigned_safe position \<or> numval position \<ge> int (length (rl_deck rl))
      then Inl (RevealJs (RangeError ''Position is outside the round deck'')) else Inr (rl_owners rl ! nat (numval position)))"

definition requireLocalKey :: "'p ristretto \<Rightarrow> 'p RoundRevealLedger \<Rightarrow> jsnum \<Rightarrow> nat \<Rightarrow> reveal_error + nat" where
  "requireLocalKey G rl seat secretKey =
     (if \<not> unsigned_safe seat \<or> numval seat \<ge> int (length (rl_roster rl))
      then Inl (RevealJs (RangeError ''Local seat must belong to the round roster''))
      else case point_multiply G (nr_base G) secretKey of
        Inl _ \<Rightarrow> revealError Invalid_local_key
      | Inr key \<Rightarrow> if nr_equals G key (rl_publicKeys rl ! nat (numval seat)) then Inr (nat (numval seat))
                   else revealError Invalid_local_key)"

text \<open>The shares of all seats for one card: that of \<open>seat\<close> is given, the others must be recorded.\<close>

definition shares_for :: "'p RoundRevealLedger \<Rightarrow> nat \<Rightarrow> nat \<Rightarrow> reveal_error + 'p \<Rightarrow> reveal_error + 'p list" where
  "shares_for rl pos seat own =
     mapM_res (\<lambda>donor. if donor = seat then own
        else case map_of (rl_shares rl ! pos) donor of None \<Rightarrow> revealError Deal_incomplete | Some share \<Rightarrow> Inr share) [0..<length (rl_roster rl)]"

text \<open>The loop of \<open>readPrivateHand\<close>; \<open>cardPositions\<close> maps the cards that are known to their positions.\<close>

fun private_cards ::
    "'p ristretto \<Rightarrow> 'p RoundRevealLedger \<Rightarrow> nat \<Rightarrow> nat \<Rightarrow> (ustr \<times> nat) list \<Rightarrow> revealed_cards \<Rightarrow> revealed_cards \<Rightarrow> nat list \<Rightarrow>
     reveal_error + revealed_cards \<times> revealed_cards" where
  "private_cards G rl seat secretKey cardPositions dealt remaining [] = Inr (dealt, remaining)"
| "private_cards G rl seat secretKey cardPositions dealt remaining (pos # positions) =
     (if rl_owners rl ! pos \<noteq> Some seat then private_cards G rl seat secretKey cardPositions dealt remaining positions
      else
        let ciphertext = rl_deck rl ! pos in
        rbind (shares_for rl pos seat (catch_as (decryptionShare G secretKey (mc_A ciphertext)) RevealDeck)) (\<lambda>shares.
        let known = map_of (rl_revealed rl) pos in
        case identifyCard G (rl_table rl) (removeDecryptionShares G ciphertext shares) of
          None \<Rightarrow> revealError Inconsistent_deck
        | Some card_id \<Rightarrow>
            if (map_of cardPositions card_id \<noteq> None \<and> map_of cardPositions card_id \<noteq> Some pos) \<or> (known \<noteq> None \<and> known \<noteq> Some card_id)
            then revealError Inconsistent_deck
            else private_cards G rl seat secretKey (AList.update card_id pos cardPositions) (dealt @ [(pos, card_id)])
              (if known = None then remaining @ [(pos, card_id)] else remaining) positions))"

definition readPrivateHand ::
    "'p ristretto \<Rightarrow> 'p RoundRevealLedger \<Rightarrow> jsnum \<Rightarrow> nat \<Rightarrow> reveal_error + (revealed_cards \<times> revealed_cards) option" where
  "readPrivateHand G rl seat secretKey =
     rbind (requireLocalKey G rl seat secretKey) (\<lambda>i.
     if rl_dealIndex rl < length (rl_schedule rl) then Inr None
     else rbind (private_cards G rl i secretKey (fold (\<lambda>(pos, card_id) m. AList.update card_id pos m) (rl_revealed rl) []) [] []
            [0..<length (rl_deck rl)]) (\<lambda>hand. Inr (Some hand)))"

section \<open>Contributions\<close>

definition round_context :: "'p RoundRevealLedger \<Rightarrow> ustr \<Rightarrow> ProofContext" where
  "round_context rl phase = \<lparr>pc_gameId = rl_gameId rl, pc_round = JInt (int (rl_round rl)), pc_phase = phase\<rparr>"

definition deal_positions :: "'p RoundRevealLedger \<Rightarrow> nat \<Rightarrow> ScheduledDeal \<Rightarrow> nat list" where
  "deal_positions rl seat step =
     (if rl_batchDeal rl then filter (\<lambda>pos. rl_owners rl ! pos \<noteq> Some seat) [0..<length (rl_owners rl)] else sd_positions step)"

definition deal_recipient :: "'p RoundRevealLedger \<Rightarrow> ScheduledDeal \<Rightarrow> nat" where
  "deal_recipient rl step = (if rl_batchDeal rl then 4 else sd_to step)"

definition with_position :: "nat \<Rightarrow> 'p ProvenDecryptionShare \<Rightarrow> 'p PositionShare" where
  "with_position pos share = ProvenDecryptionShare.extend share (PositionShare.fields (JInt (int pos)))"

text \<open>The value \<open>None\<close> says that the sampling of a nonce does not end.\<close>

fun prove_positions ::
    "prims \<Rightarrow> 'p ristretto \<Rightarrow> 'p RoundRevealLedger \<Rightarrow> nat \<Rightarrow> 's source \<Rightarrow> 's \<Rightarrow> nat list \<Rightarrow> reveal_error + ('p PositionShare list \<times> 's) option" where
  "prove_positions pr G rl secretKey fill s [] = Inr (Some ([], s))"
| "prove_positions pr G rl secretKey fill s (pos # positions) =
     rbind (catch_as (createProvenDecryptionShare pr G (round_context rl (ledger_phase rl)) (JInt (int pos)) secretKey (mc_A (rl_deck rl ! pos)) fill s)
              RevealDeck) (\<lambda>made.
     case made of
       None \<Rightarrow> Inr None
     | Some (share, s') \<Rightarrow>
         rbind (prove_positions pr G rl secretKey fill s' positions) (\<lambda>rest.
         case rest of None \<Rightarrow> Inr None | Some (items, s'') \<Rightarrow> Inr (Some (with_position pos share # items, s''))))"

definition createDealShares ::
    "prims \<Rightarrow> 'p ristretto \<Rightarrow> 'p RoundRevealLedger \<Rightarrow> jsnum \<Rightarrow> nat \<Rightarrow> 's source \<Rightarrow> 's \<Rightarrow> reveal_error + ('p SharesBody \<times> 's) option" where
  "createDealShares pr G rl seat secretKey fill s =
     rbind (requireLocalKey G rl seat secretKey) (\<lambda>i.
     case current_deal rl of
       None \<Rightarrow> revealError (ActionCode Wrong_phase)
     | Some step \<Rightarrow>
         if \<not> rl_batchDeal rl \<and> i = sd_to step then revealError (ActionCode Unexpected_sender)
         else if i \<in> set (rl_contributors rl) then revealError Conflicting_contribution
         else rbind (prove_positions pr G rl secretKey fill s (deal_positions rl i step)) (\<lambda>made.
           case made of None \<Rightarrow> Inr None
           | Some (items, s') \<Rightarrow> Inr (Some (\<lparr>sb_to = JInt (int (deal_recipient rl step)), sb_items = items\<rparr>, s'))))"

definition createActionShare ::
    "prims \<Rightarrow> 'p ristretto \<Rightarrow> 'p RoundRevealLedger \<Rightarrow> jsnum \<Rightarrow> nat \<Rightarrow> jsnum \<Rightarrow> 's source \<Rightarrow> 's \<Rightarrow> reveal_error + ('p PositionShare \<times> 's) option" where
  "createActionShare pr G rl seat secretKey position fill s =
     rbind (readPrivateHand G rl seat secretKey) (\<lambda>hand.
     case hand of
       None \<Rightarrow> revealError Deal_incomplete
     | Some (dealt, remaining) \<Rightarrow>
         rbind (ownerAt rl position) (\<lambda>owner.
         case owner of
           None \<Rightarrow> revealError Unscheduled_position
         | Some i \<Rightarrow>
             let pos = nat (numval position) in
             if int i \<noteq> numval seat then revealError Wrong_owner
             else if map_of remaining pos = None then revealError Already_revealed
             else if rl_actionIndex rl \<ge> rl_maxActions rl then revealError Action_limit
             else rbind (catch_as (createProvenDecryptionShare pr G (round_context rl (ledger_phase rl)) position secretKey
                           (mc_A (rl_deck rl ! pos)) fill s) RevealDeck) (\<lambda>made.
               Inr (map_option (\<lambda>(share, s'). (with_position pos share, s')) made))))"

section \<open>Envelopes\<close>

definition item_pos :: "'p PositionShare \<Rightarrow> nat" where
  "item_pos item = nat (numval (ps_pos item))"

definition share_verifies :: "prims \<Rightarrow> 'p ristretto \<Rightarrow> 'p RoundRevealLedger \<Rightarrow> nat \<Rightarrow> ustr \<Rightarrow> 'p PositionShare \<Rightarrow> bool" where
  "share_verifies pr G rl seat phase item =
     verifyProvenDecryptionShare pr G (round_context rl phase) (ps_pos item) (rl_publicKeys rl ! seat)
       (mc_A (rl_deck rl ! item_pos item)) (ProvenDecryptionShare.truncate item)"

definition check_shares :: "prims \<Rightarrow> 'p ristretto \<Rightarrow> 'p RoundRevealLedger \<Rightarrow> nat \<Rightarrow> ustr \<Rightarrow> 'p SharesBody \<Rightarrow> reveal_error + unit" where
  "check_shares pr G rl seat phase body =
     (case current_deal rl of
        None \<Rightarrow> revealError (ActionCode Wrong_phase)
      | Some step \<Rightarrow>
          if phase \<noteq> ledger_phase rl then revealError (ActionCode Wrong_phase)
          else if \<not> rl_batchDeal rl \<and> seat = sd_to step then revealError (ActionCode Unexpected_sender)
          else if seat \<in> set (rl_contributors rl) then revealError Conflicting_contribution
          else if numval (sb_to body) \<noteq> int (deal_recipient rl step) then revealError Wrong_recipient
          else
            let positions = deal_positions rl seat step in
            if length (sb_items body) \<noteq> length positions \<or>
               (if rl_batchDeal rl then map item_pos (sb_items body) \<noteq> positions else \<not> list_all (\<lambda>item. item_pos item \<in> set positions) (sb_items body))
            then revealError Wrong_positions
            else if \<not> list_all (share_verifies pr G rl seat phase) (sb_items body) then revealError Invalid_share_proof
            else Inr ())"

definition record_shares :: "nat \<Rightarrow> 'p PositionShare list \<Rightarrow> (nat \<times> 'p) list list \<Rightarrow> (nat \<times> 'p) list list" where
  "record_shares seat items shares =
     fold (\<lambda>item xs. xs[item_pos item := AList.update seat (ds_S item) (xs ! item_pos item)]) items shares"

definition commit_shares :: "'p RoundRevealLedger \<Rightarrow> nat \<Rightarrow> string \<Rightarrow> 'p PositionShare list \<Rightarrow> 'p RoundRevealLedger" where
  "commit_shares rl seat h items =
     (let rl' = rl\<lparr>rl_shares := record_shares seat items (rl_shares rl), rl_contributors := rl_contributors rl @ [seat],
                   rl_accepted := AList.update h [] (rl_accepted rl)\<rparr> in
      if length (rl_contributors rl') = (if rl_batchDeal rl then length (rl_roster rl) else length (rl_roster rl) - 1)
      then rl'\<lparr>rl_dealIndex := rl_dealIndex rl + (if rl_batchDeal rl then length (rl_schedule rl) else 1), rl_contributors := []\<rparr>
      else rl')"

definition process_shares ::
    "prims \<Rightarrow> 'p ristretto \<Rightarrow> 'p RoundRevealLedger \<Rightarrow> EnvelopeArtifact \<Rightarrow> nat \<Rightarrow> bool \<Rightarrow> 'p RoundRevealLedger \<times> (reveal_error + 'p RoundRevealTransition)" where
  "process_shares pr G rl received seat commit =
     (let envelope = art_envelope received; h = bytesToHex (art_hash received) in
      case catch_as (decodeSharesBody G (env_body envelope)) (\<lambda>_. RoundRevealError (ActionCode Malformed_body)) of
        Inl e \<Rightarrow> (rl, Inl e)
      | Inr body \<Rightarrow>
          if map_of (rl_accepted rl) h \<noteq> None then (rl, Inr (SharesTransition TransitionDuplicate received seat body))
          else case check_shares pr G rl seat (env_phase envelope) body of
            Inl e \<Rightarrow> (rl, Inl e)
          | Inr _ \<Rightarrow> (if commit then commit_shares rl seat h (sb_items body) else rl, Inr (SharesTransition TransitionAccepted received seat body)))"

fun check_ownership :: "'p RoundRevealLedger \<Rightarrow> nat \<Rightarrow> jsnum list \<Rightarrow> reveal_error + unit" where
  "check_ownership rl seat [] = Inr ()"
| "check_ownership rl seat (position # positions) =
     (let pos = nat (numval position) in
      case (if pos < length (rl_owners rl) then rl_owners rl ! pos else None) of
        None \<Rightarrow> revealError Unscheduled_position
      | Some owner \<Rightarrow>
          if owner \<noteq> seat then revealError Wrong_owner
          else if map_of (rl_revealed rl) pos \<noteq> None then revealError Already_revealed
          else check_ownership rl seat positions)"

text \<open>The loop that opens the cards; \<open>cardIds\<close> are the cards that are already known.\<close>

fun open_cards ::
    "prims \<Rightarrow> 'p ristretto \<Rightarrow> 'p RoundRevealLedger \<Rightarrow> nat \<Rightarrow> ustr \<Rightarrow> ustr list \<Rightarrow> 'p PositionShare list \<Rightarrow> reveal_error + revealed_cards" where
  "open_cards pr G rl seat phase cardIds [] = Inr []"
| "open_cards pr G rl seat phase cardIds (item # items) =
     (if \<not> share_verifies pr G rl seat phase item then revealError Invalid_share_proof
      else rbind (shares_for rl (item_pos item) seat (Inr (ds_S item))) (\<lambda>shares.
        case identifyCard G (rl_table rl) (removeDecryptionShares G (rl_deck rl ! item_pos item) shares) of
          None \<Rightarrow> revealError Inconsistent_deck
        | Some card_id \<Rightarrow>
            if card_id \<in> set cardIds then revealError Inconsistent_deck
            else rbind (open_cards pr G rl seat phase (card_id # cardIds) items) (\<lambda>rest. Inr ((item_pos item, card_id) # rest))))"

definition commit_action :: "'p RoundRevealLedger \<Rightarrow> string \<Rightarrow> revealed_cards \<Rightarrow> 'p RoundRevealLedger" where
  "commit_action rl h cards =
     rl\<lparr>rl_revealed := fold (\<lambda>(pos, card_id) m. AList.update pos card_id m) cards (rl_revealed rl),
        rl_accepted := AList.update h cards (rl_accepted rl), rl_actionIndex := rl_actionIndex rl + 1\<rparr>"

definition ledger_scope :: "'p RoundRevealLedger \<Rightarrow> jsnum option \<Rightarrow> ActionEnvelopeScope" where
  "ledger_scope rl expectedSeat = \<lparr>aes_gameId = JBytes (rl_gameId rl), aes_round = JInt (int (rl_round rl)),
     aes_actionIndex = JInt (int (rl_actionIndex rl)), aes_roster = map JBytes (rl_roster rl),
     aes_expectedSeats = (case expectedSeat of None \<Rightarrow> [] | Some seat \<Rightarrow> [seat])\<rparr>"

fun action_error :: "engine_error \<Rightarrow> reveal_error" where
  "action_error (ActionEnvelopeError code) = RoundRevealError (ActionCode code)"
| "action_error e = RevealEngine e"

definition process_action ::
    "prims \<Rightarrow> 'p ristretto \<Rightarrow> 'p RoundRevealLedger \<Rightarrow> EnvelopeArtifact \<Rightarrow> nat \<Rightarrow> jsnum option \<Rightarrow> bool \<Rightarrow>
     'p RoundRevealLedger \<times> (reveal_error + 'p RoundRevealTransition)" where
  "process_action pr G rl received seat expectedSeat commit =
     (let envelope = art_envelope received; h = bytesToHex (art_hash received) in
      case map_of (rl_accepted rl) h of
        Some cards \<Rightarrow> (rl, rbind (catch_as (decodeActionBody pr G (env_body envelope)) RevealProtocol) (\<lambda>body.
          Inr (ActionTransition TransitionDuplicate received seat body cards)))
      | None \<Rightarrow>
          if current_deal rl \<noteq> None then (rl, revealError Deal_incomplete)
          else if rl_actionIndex rl \<ge> rl_maxActions rl then (rl, revealError Action_limit)
          else case catch_as (decodeActionEnvelope pr G (art_canonicalBytes received) (ledger_scope rl expectedSeat)) action_error of
            Inl e \<Rightarrow> (rl, Inl e)
          | Inr decoded \<Rightarrow>
              let body = dae_action decoded in
              case rbind (check_ownership rl seat (ab_reveal body)) (\<lambda>_.
                     open_cards pr G rl seat (env_phase envelope) (map snd (rl_revealed rl)) (ab_shares body)) of
                Inl e \<Rightarrow> (rl, Inl e)
              | Inr cards \<Rightarrow> (if commit then commit_action rl h cards else rl, Inr (ActionTransition TransitionAccepted received seat body cards)))"

definition ledger_process ::
    "prims \<Rightarrow> 'p ristretto \<Rightarrow> 'p RoundRevealLedger \<Rightarrow> bytes \<Rightarrow> jsnum option \<Rightarrow> bool \<Rightarrow>
     'p RoundRevealLedger \<times> (reveal_error + 'p RoundRevealTransition)" where
  "ledger_process pr G rl canonicalBytes expectedSeat commit =
     (case (if length canonicalBytes > MAX_ROUND_REVEAL_ENVELOPE_BYTES then revealError (ActionCode Invalid_envelope)
            else catch_as (decodeAndVerifyEnvelope pr canonicalBytes) (\<lambda>_. RoundRevealError (ActionCode Invalid_envelope))) of
        Inl e \<Rightarrow> (rl, Inl e)
      | Inr received \<Rightarrow>
          let envelope = art_envelope received in
          if \<not> bytesEqual (env_game envelope) (rl_gameId rl) then (rl, revealError (ActionCode Wrong_game))
          else case map_of (rl_seats rl) (bytesToHex (env_from envelope)) of
            None \<Rightarrow> (rl, revealError (ActionCode Unknown_sender))
          | Some seat \<Rightarrow>
              if env_round envelope \<noteq> rl_round rl then (rl, revealError (ActionCode Wrong_round))
              else if env_type envelope = SHARES then process_shares pr G rl received seat commit
              else if env_type envelope \<noteq> ACTION then (rl, revealError (ActionCode Wrong_type))
              else process_action pr G rl received seat expectedSeat commit)"

definition ledger_classify ::
    "prims \<Rightarrow> 'p ristretto \<Rightarrow> 'p RoundRevealLedger \<Rightarrow> EnvelopeArtifact \<Rightarrow> jsnum option \<Rightarrow> reveal_error + 'p RoundRevealTransition" where
  "ledger_classify pr G rl candidate expectedSeat = snd (ledger_process pr G rl (art_canonicalBytes candidate) expectedSeat False)"

definition ledger_commit ::
    "prims \<Rightarrow> 'p ristretto \<Rightarrow> 'p RoundRevealLedger \<Rightarrow> EnvelopeArtifact \<Rightarrow> jsnum option \<Rightarrow>
     'p RoundRevealLedger \<times> (reveal_error + 'p RoundRevealTransition)" where
  "ledger_commit pr G rl candidate expectedSeat = ledger_process pr G rl (art_canonicalBytes candidate) expectedSeat True"

end
