(* ===== verification/Reveal_Inv.thy ===== *)
theory Reveal_Inv
  imports Reveal_Ledger
begin

text \<open>
  The invariant of the reveal ledger and that committing envelopes keeps it: the schedule divides the
  deck, every recorded share verified and came from a seat that does not own the card, every seat of
  a finished deal has contributed, and revealed positions and cards are distinct.
\<close>

section \<open>The schedule\<close>

lemma fold_owners:
  "length (fold (\<lambda>p os. os[p := Some t]) ps owners) = length owners"
  "p < length owners \<Longrightarrow> fold (\<lambda>p os. os[p := Some t]) ps owners ! p = (if p \<in> set ps then Some t else owners ! p)"
  by (induction ps arbitrary: owners) (auto simp: nth_list_update)

lemma schedule_deals_Inr:
  assumes "schedule_deals n m cursor owners steps = Inr (deals, owners')" "length owners = m" "cursor \<le> m"
    "\<forall>p < m. cursor \<le> p \<longrightarrow> owners ! p = None"
  shows "\<exists>k. cursor \<le> k \<and> k \<le> m \<and> concat (map sd_positions deals) = [cursor..<k] \<and> length owners' = m \<and>
    (\<forall>deal \<in> set deals. sd_to deal < n \<and> sd_positions deal \<noteq> [] \<and> (\<forall>p \<in> set (sd_positions deal). owners' ! p = Some (sd_to deal))) \<and>
    (\<forall>p < m. (p < cursor \<longrightarrow> owners' ! p = owners ! p) \<and> (k \<le> p \<longrightarrow> owners' ! p = None))"
  using assms
proof (induction steps arbitrary: cursor owners deals owners')
  case Nil
  then show ?case by auto
next
  case (Cons step steps)
  let ?to = "nat (numval (pds_to step))" and ?next = "cursor + nat (numval (pds_count step))"
  let ?owners = "fold (\<lambda>p os. os[p := Some ?to]) [cursor..<?next] owners"
  from Cons.prems(1) obtain rest where r: "schedule_deals n m ?next ?owners steps = Inr (rest, owners')"
      "deals = \<lparr>sd_to = ?to, sd_positions = [cursor..<?next]\<rparr> # rest"
      and ok: "unsigned_safe (pds_to step)" "numval (pds_to step) < int n" "1 \<le> numval (pds_count step)" "numval (pds_count step) \<le> int m - int cursor"
    by (auto simp: result_simps Let_def split: if_splits)
  have to: "?to < n" "?next \<le> m" "cursor < ?next" using ok Cons.prems(3) by (auto simp: unsigned_safe_def)
  obtain k where k: "?next \<le> k" "k \<le> m" "concat (map sd_positions rest) = [?next..<k]" "length owners' = m"
      "\<forall>deal \<in> set rest. sd_to deal < n \<and> sd_positions deal \<noteq> [] \<and> (\<forall>p \<in> set (sd_positions deal). owners' ! p = Some (sd_to deal))"
      "\<forall>p < m. (p < ?next \<longrightarrow> owners' ! p = ?owners ! p) \<and> (k \<le> p \<longrightarrow> owners' ! p = None)"
    using Cons.IH [OF r(1)] Cons.prems(2,4) to by (auto simp: fold_owners)
  show ?case
    using k r(2) to Cons.prems(2) upt_add_eq_append [of cursor ?next "k - ?next"] by (intro exI [of _ k]) (auto simp: fold_owners)
qed

definition schedule_ok :: "nat \<Rightarrow> nat \<Rightarrow> nat option list \<Rightarrow> ScheduledDeal list \<Rightarrow> bool" where
  "schedule_ok n m owners deals \<longleftrightarrow> length owners = m \<and> (\<exists>k \<le> m. concat (map sd_positions deals) = [0..<k] \<and> (\<forall>p < m. k \<le> p \<longrightarrow> owners ! p = None)) \<and>
     (\<forall>deal \<in> set deals. sd_to deal < n \<and> sd_positions deal \<noteq> [] \<and> (\<forall>p \<in> set (sd_positions deal). owners ! p = Some (sd_to deal)))"

lemma schedule_positions:
  assumes "schedule_ok n m owners deals" "deal \<in> set deals"
  shows "distinct (sd_positions deal)" "set (sd_positions deal) \<subseteq> {..<m}"
proof -
  obtain k where k: "k \<le> m" "concat (map sd_positions deals) = [0..<k]" using assms(1) by (auto simp: schedule_ok_def)
  have "distinct (concat (map sd_positions deals))" using k(2) by simp
  then show "distinct (sd_positions deal)" using assms(2) by (simp add: distinct_concat_iff)
  have "set (sd_positions deal) \<subseteq> set (concat (map sd_positions deals))" using assms(2) by auto
  then show "set (sd_positions deal) \<subseteq> {..<m}" using k by auto
qed

lemma owned_scheduled:
  assumes "schedule_ok n m owners deals" "p < m" "owners ! p = Some t"
  shows "\<exists>deal \<in> set deals. p \<in> set (sd_positions deal) \<and> sd_to deal = t"
proof -
  obtain k where k: "concat (map sd_positions deals) = [0..<k]" "\<forall>p < m. k \<le> p \<longrightarrow> owners ! p = None"
    using assms(1) by (auto simp: schedule_ok_def)
  then have "p < k" using assms(2,3) by (metis not_le option.distinct(1))
  then have "p \<in> set (concat (map sd_positions deals))" using k(1) by simp
  then show ?thesis using assms by (auto simp: schedule_ok_def)
qed

section \<open>Recorded shares\<close>

lemma record_shares_length [simp]: "length (record_shares seat items shares) = length shares"
  unfolding record_shares_def by (induction items arbitrary: shares) simp_all

lemma record_shares_lookup:
  assumes "p < length shares" "distinct (map item_pos items)"
  shows "map_of (record_shares seat items shares ! p) d =
    (if d = seat \<and> p \<in> item_pos ` set items then map_option ds_S (find (\<lambda>i. item_pos i = p) items) else map_of (shares ! p) d)"
  using assms unfolding record_shares_def
proof (induction items arbitrary: shares)
  case (Cons item items)
  have "p \<notin> item_pos ` set items" if "item_pos item = p" using Cons.prems(2) that by auto
  then show ?case using Cons by (auto simp: nth_list_update)
qed simp

lemma record_shares_recorded:
  assumes "p < length shares" "distinct (map item_pos items)"
  shows "map_of (record_shares seat items shares ! p) d \<noteq> None \<longleftrightarrow> d = seat \<and> p \<in> item_pos ` set items \<or> map_of (shares ! p) d \<noteq> None"
proof -
  have "find (\<lambda>i. item_pos i = p) items \<noteq> None" if "p \<in> item_pos ` set items"
    using that unfolding find_None_iff by auto
  then show ?thesis using record_shares_lookup [OF assms, of seat d] by auto
qed

definition shares_verified :: "prims \<Rightarrow> 'p ristretto \<Rightarrow> 'p RoundRevealLedger \<Rightarrow> bool" where
  "shares_verified pr G rl \<longleftrightarrow> (\<forall>p < length (rl_deck rl). \<forall>d S. map_of (rl_shares rl ! p) d = Some S \<longrightarrow>
     d < length (rl_roster rl) \<and> rl_owners rl ! p \<noteq> Some d \<and>
     (\<exists>phase prf. verifyProvenDecryptionShare pr G (round_context rl phase) (JInt (int p)) (rl_publicKeys rl ! d) (mc_A (rl_deck rl ! p))
        \<lparr>ds_S = S, ds_proof = prf\<rparr>))"

definition deal_done :: "'p RoundRevealLedger \<Rightarrow> nat \<Rightarrow> nat \<Rightarrow> bool" where
  "deal_done rl k d \<longleftrightarrow> (if rl_batchDeal rl then current_deal rl = None \<or> d \<in> set (rl_contributors rl)
     else k < rl_dealIndex rl \<or> k = rl_dealIndex rl \<and> d \<in> set (rl_contributors rl))"

definition shares_complete :: "'p RoundRevealLedger \<Rightarrow> bool" where
  "shares_complete rl \<longleftrightarrow> (\<forall>k < length (rl_schedule rl). \<forall>p \<in> set (sd_positions (rl_schedule rl ! k)). \<forall>d < length (rl_roster rl).
     d \<noteq> sd_to (rl_schedule rl ! k) \<and> deal_done rl k d \<longrightarrow> map_of (rl_shares rl ! p) d \<noteq> None)"

definition contributors_ok :: "'p RoundRevealLedger \<Rightarrow> bool" where
  "contributors_ok rl \<longleftrightarrow> distinct (rl_contributors rl) \<and> set (rl_contributors rl) \<subseteq> {..<length (rl_roster rl)} \<and>
     (case current_deal rl of None \<Rightarrow> rl_contributors rl = []
      | Some step \<Rightarrow> if rl_batchDeal rl then length (rl_contributors rl) < length (rl_roster rl) \<and> rl_dealIndex rl = 0
                     else sd_to step \<notin> set (rl_contributors rl))"

definition revealed_ok :: "'p RoundRevealLedger \<Rightarrow> bool" where
  "revealed_ok rl \<longleftrightarrow> distinct (map fst (rl_revealed rl)) \<and> distinct (map snd (rl_revealed rl)) \<and>
     (\<forall>(p, c) \<in> set (rl_revealed rl). p < length (rl_deck rl) \<and> rl_owners rl ! p \<noteq> None \<and> c \<in> snd ` set (cpt_cardByPoint (rl_table rl))) \<and>
     (rl_revealed rl \<noteq> [] \<or> 0 < rl_actionIndex rl \<longrightarrow> current_deal rl = None) \<and> rl_actionIndex rl \<le> rl_maxActions rl"

definition ledger_shape :: "'p RoundRevealLedger \<Rightarrow> bool" where
  "ledger_shape rl \<longleftrightarrow> seat_table (rl_roster rl) (rl_seats rl) \<and> 3 \<le> length (rl_roster rl) \<and> length (rl_roster rl) \<le> 8 \<and> length (rl_publicKeys rl) = length (rl_roster rl) \<and>
     schedule_ok (length (rl_roster rl)) (length (rl_deck rl)) (rl_owners rl) (rl_schedule rl) \<and>
     length (rl_shares rl) = length (rl_deck rl) \<and> rl_dealIndex rl \<le> length (rl_schedule rl)"

definition table_ok :: "prims \<Rightarrow> 'p ristretto \<Rightarrow> 'p RoundRevealLedger \<Rightarrow> bool" where
  "table_ok pr G rl \<longleftrightarrow> (\<exists>spec. newCardPointTable pr G spec = Inr (rl_table rl)) \<and> length (rl_deck rl) = table_size (rl_table rl)"

definition ledger_inv :: "prims \<Rightarrow> 'p ristretto \<Rightarrow> 'p RoundRevealLedger \<Rightarrow> bool" where
  "ledger_inv pr G rl \<longleftrightarrow> ledger_shape rl \<and> table_ok pr G rl \<and> contributors_ok rl \<and> shares_verified pr G rl \<and> shares_complete rl \<and> revealed_ok rl"

lemma current_deal_Some: "current_deal rl = Some step \<longleftrightarrow> rl_dealIndex rl < length (rl_schedule rl) \<and> step = rl_schedule rl ! rl_dealIndex rl"
  by (auto simp: current_deal_def)

lemma current_deal_None: "current_deal rl = None \<longleftrightarrow> length (rl_schedule rl) \<le> rl_dealIndex rl"
  by (auto simp: current_deal_def)

section \<open>Checked contributions\<close>

lemma deal_positions_ok:
  assumes "ledger_shape rl" "current_deal rl = Some step" "rl_batchDeal rl \<or> seat \<noteq> sd_to step"
  shows "distinct (deal_positions rl seat step)" "set (deal_positions rl seat step) \<subseteq> {..<length (rl_deck rl)}"
    "p \<in> set (deal_positions rl seat step) \<Longrightarrow> rl_owners rl ! p \<noteq> Some seat"
proof -
  have step: "step \<in> set (rl_schedule rl)" using assms(2) by (auto simp: current_deal_Some)
  have sch: "schedule_ok (length (rl_roster rl)) (length (rl_deck rl)) (rl_owners rl) (rl_schedule rl)"
    using assms(1) by (simp add: ledger_shape_def)
  note pos = schedule_positions [OF sch step]
  have own: "length (rl_owners rl) = length (rl_deck rl)" "\<forall>p \<in> set (sd_positions step). rl_owners rl ! p = Some (sd_to step)"
    using sch step by (auto simp: schedule_ok_def)
  show "distinct (deal_positions rl seat step)" "set (deal_positions rl seat step) \<subseteq> {..<length (rl_deck rl)}"
    "p \<in> set (deal_positions rl seat step) \<Longrightarrow> rl_owners rl ! p \<noteq> Some seat"
    using pos own assms(3) by (auto simp: deal_positions_def split: if_splits)
qed

lemma checked_shares:
  assumes "check_shares pr G rl seat phase body = Inr ()" "ledger_shape rl" "shares_ok G body"
  obtains step where "current_deal rl = Some step" "phase = ledger_phase rl" "rl_batchDeal rl \<or> seat \<noteq> sd_to step"
    "seat \<notin> set (rl_contributors rl)" "item_pos ` set (sb_items body) = set (deal_positions rl seat step)"
    "distinct (map item_pos (sb_items body))" "\<forall>item \<in> set (sb_items body). share_verifies pr G rl seat phase item"
proof -
  from assms(1) obtain step where s: "current_deal rl = Some step" "phase = ledger_phase rl" "rl_batchDeal rl \<or> seat \<noteq> sd_to step"
      "seat \<notin> set (rl_contributors rl)" "length (sb_items body) = length (deal_positions rl seat step)"
      "if rl_batchDeal rl then map item_pos (sb_items body) = deal_positions rl seat step
       else list_all (\<lambda>item. item_pos item \<in> set (deal_positions rl seat step)) (sb_items body)"
      "list_all (share_verifies pr G rl seat phase) (sb_items body)"
    by (auto simp: check_shares_def Let_def split: option.splits if_splits)
  have "numval (ps_pos item) = int (item_pos item)" if "item \<in> set (sb_items body)" for item
    using assms(3) that by (auto simp: shares_ok_def item_pos_def list_all_iff position_share_ok_def)
  then have "map (\<lambda>i. numval (ps_pos i)) (sb_items body) = map int (map item_pos (sb_items body))" by simp
  moreover have "distinct (map (\<lambda>i. numval (ps_pos i)) (sb_items body))" using assms(3) by (simp add: shares_ok_def)
  ultimately have d: "distinct (map item_pos (sb_items body))" by (metis distinct_map)
  have "card (item_pos ` set (sb_items body)) = card (set (deal_positions rl seat step))"
    using d deal_positions_ok(1) [OF assms(2) s(1,3)] s(5) by (metis distinct_card length_map set_map)
  moreover have "item_pos ` set (sb_items body) \<subseteq> set (deal_positions rl seat step)"
    using s(6) by (auto simp: list_all_iff split: if_splits) (metis image_eqI set_map)
  ultimately have "item_pos ` set (sb_items body) = set (deal_positions rl seat step)" by (simp add: card_subset_eq)
  with s d show thesis using that by (simp add: list_all_iff)
qed

text \<open>A proof for the position minus zero never verifies: its statement has no canonical encoding.\<close>

lemma verified_number:
  assumes "verifyProvenDecryptionShare pr G ctx pos H A sh"
  shows "pos = JInt (int (nat (numval pos)))"
proof -
  have "\<not> assertCborValue (JObject ((ascii ''pos'', JNumber JNegZero) # ps)) = Inr ()" for ps
    by (simp add: assertCborValue_iff)
  then have "pos \<noteq> JNegZero" using assms
    by (auto simp: verifyProvenDecryptionShare_def verified_def decryptionProofChallenge_def proofChallengeScalar_def proofChallengeInput_def
        encodeCanonical_def rbind_def requirePosition_def split: sum.splits if_splits)
  moreover have "pos \<noteq> JNonInteger" "0 \<le> numval pos"
    using assms by (auto simp: verifyProvenDecryptionShare_def verified_def requirePosition_def split: if_splits)
  ultimately show ?thesis by (cases pos) auto
qed

lemma verified_position:
  assumes "share_verifies pr G rl seat phase item"
  shows "verifyProvenDecryptionShare pr G (round_context rl phase) (JInt (int (item_pos item))) (rl_publicKeys rl ! seat)
    (mc_A (rl_deck rl ! item_pos item)) \<lparr>ds_S = ds_S item, ds_proof = ds_proof item\<rparr>"
proof -
  have "ProvenDecryptionShare.truncate item = \<lparr>ds_S = ds_S item, ds_proof = ds_proof item\<rparr>"
    by (cases item) (simp add: ProvenDecryptionShare.defs)
  then have "verifyProvenDecryptionShare pr G (round_context rl phase) (ps_pos item) (rl_publicKeys rl ! seat)
      (mc_A (rl_deck rl ! item_pos item)) \<lparr>ds_S = ds_S item, ds_proof = ds_proof item\<rparr>"
    using assms by (simp add: share_verifies_def)
  then show ?thesis using verified_number by (metis item_pos_def)
qed

section \<open>Preservation\<close>

lemma commit_shares_fields [simp]:
  "rl_roster (commit_shares rl seat h items) = rl_roster rl" "rl_seats (commit_shares rl seat h items) = rl_seats rl"
  "rl_publicKeys (commit_shares rl seat h items) = rl_publicKeys rl" "rl_schedule (commit_shares rl seat h items) = rl_schedule rl"
  "rl_deck (commit_shares rl seat h items) = rl_deck rl" "rl_owners (commit_shares rl seat h items) = rl_owners rl"
  "rl_table (commit_shares rl seat h items) = rl_table rl" "rl_revealed (commit_shares rl seat h items) = rl_revealed rl"
  "rl_actionIndex (commit_shares rl seat h items) = rl_actionIndex rl" "rl_maxActions (commit_shares rl seat h items) = rl_maxActions rl"
  "rl_batchDeal (commit_shares rl seat h items) = rl_batchDeal rl" "rl_gameId (commit_shares rl seat h items) = rl_gameId rl"
  "rl_round (commit_shares rl seat h items) = rl_round rl"
  "rl_shares (commit_shares rl seat h items) = record_shares seat items (rl_shares rl)"
  by (simp_all add: commit_shares_def Let_def)

definition deal_finished :: "'p RoundRevealLedger \<Rightarrow> bool" where
  "deal_finished rl \<longleftrightarrow> length (rl_contributors rl) + 1 = (if rl_batchDeal rl then length (rl_roster rl) else length (rl_roster rl) - 1)"

lemma commit_shares_progress:
  "rl_contributors (commit_shares rl seat h items) = (if deal_finished rl then [] else rl_contributors rl @ [seat])"
  "rl_dealIndex (commit_shares rl seat h items) =
     (if deal_finished rl then rl_dealIndex rl + (if rl_batchDeal rl then length (rl_schedule rl) else 1) else rl_dealIndex rl)"
  by (simp_all add: commit_shares_def Let_def deal_finished_def)

lemma full_set: "distinct xs \<Longrightarrow> set xs \<subseteq> A \<Longrightarrow> finite A \<Longrightarrow> length xs = card A \<Longrightarrow> set xs = A"
  by (metis card_subset_eq distinct_card)

lemma finished_contributors:
  assumes "contributors_ok rl" "current_deal rl = Some step" "seat \<notin> set (rl_contributors rl)" "seat < length (rl_roster rl)"
    "rl_batchDeal rl \<or> seat \<noteq> sd_to step" "deal_finished rl" "d < length (rl_roster rl)" "rl_batchDeal rl \<or> d \<noteq> sd_to step"
    "sd_to step < length (rl_roster rl)"
  shows "d \<in> set (rl_contributors rl @ [seat])"
proof -
  let ?all = "if rl_batchDeal rl then {..<length (rl_roster rl)} else {..<length (rl_roster rl)} - {sd_to step}"
  have "set (rl_contributors rl @ [seat]) = ?all"
    using assms by (intro full_set) (auto simp: contributors_ok_def deal_finished_def card_Diff_singleton_if split: if_splits)
  then show ?thesis using assms(7,8) by auto
qed

lemma commit_shares_inv:
  assumes inv: "ledger_inv pr G rl" and seat: "seat < length (rl_roster rl)" and ok: "shares_ok G body"
    and checked: "check_shares pr G rl seat phase body = Inr ()"
  shows "ledger_inv pr G (commit_shares rl seat h (sb_items body))"
proof -
  have shape: "ledger_shape rl" and con: "contributors_ok rl" and ver: "shares_verified pr G rl" and comp: "shares_complete rl"
    and rev: "revealed_ok rl" using inv by (simp_all add: ledger_inv_def)
  obtain step where step: "current_deal rl = Some step" "phase = ledger_phase rl" "rl_batchDeal rl \<or> seat \<noteq> sd_to step"
      "seat \<notin> set (rl_contributors rl)" "item_pos ` set (sb_items body) = set (deal_positions rl seat step)"
      "distinct (map item_pos (sb_items body))" "\<forall>item \<in> set (sb_items body). share_verifies pr G rl seat phase item"
    using checked_shares [OF checked shape ok] by blast
  let ?rl = "commit_shares rl seat h (sb_items body)"
  have index: "rl_dealIndex rl < length (rl_schedule rl)" "step = rl_schedule rl ! rl_dealIndex rl" "step \<in> set (rl_schedule rl)"
    using step(1) by (auto simp: current_deal_Some)
  have sch: "schedule_ok (length (rl_roster rl)) (length (rl_deck rl)) (rl_owners rl) (rl_schedule rl)" and m: "length (rl_shares rl) = length (rl_deck rl)"
    using shape by (simp_all add: ledger_shape_def)
  have to: "sd_to step < length (rl_roster rl)" using sch index(3) by (auto simp: schedule_ok_def)
  note look = record_shares_lookup [where shares = "rl_shares rl" and seat = seat, unfolded m, OF _ step(6)]
  note recorded = record_shares_recorded [where shares = "rl_shares rl" and seat = seat, unfolded m, OF _ step(6)]
  have batch0: "rl_dealIndex rl = 0" if "rl_batchDeal rl" using con step(1) that by (simp add: contributors_ok_def)
  have shape': "ledger_shape ?rl"
    using shape index(1) batch0 by (auto simp: ledger_shape_def commit_shares_progress)
  have con': "contributors_ok ?rl"
  proof (cases "deal_finished rl")
    case True
    then show ?thesis using batch0
      by (auto simp: contributors_ok_def commit_shares_progress current_deal_def split: option.split)
  next
    case False
    then show ?thesis using con step(1,3,4) seat
      by (auto simp: contributors_ok_def commit_shares_progress current_deal_def deal_finished_def split: if_splits)
  qed
  have ver': "shares_verified pr G ?rl"
    unfolding shares_verified_def
  proof (intro allI impI)
    fix p d S assume p: "p < length (rl_deck ?rl)" and S: "map_of (rl_shares ?rl ! p) d = Some S"
    have ctx: "round_context ?rl = round_context rl" by (rule ext) (simp add: round_context_def)
    show "d < length (rl_roster ?rl) \<and> rl_owners ?rl ! p \<noteq> Some d \<and> (\<exists>phase prf. verifyProvenDecryptionShare pr G (round_context ?rl phase) (JInt (int p))
        (rl_publicKeys ?rl ! d) (mc_A (rl_deck ?rl ! p)) \<lparr>ds_S = S, ds_proof = prf\<rparr>)"
    proof (cases "d = seat \<and> p \<in> item_pos ` set (sb_items body)")
      case True
      with p S look obtain item where item: "find (\<lambda>i. item_pos i = p) (sb_items body) = Some item" "S = ds_S item" by auto
      then have "item \<in> set (sb_items body)" "item_pos item = p" by (auto simp: find_Some_iff)
      then have "verifyProvenDecryptionShare pr G (round_context rl phase) (JInt (int p)) (rl_publicKeys rl ! seat) (mc_A (rl_deck rl ! p))
          \<lparr>ds_S = S, ds_proof = ds_proof item\<rparr>"
        using verified_position step(7) item(2) by blast
      moreover have "rl_owners rl ! p \<noteq> Some seat" using deal_positions_ok(3) [OF shape step(1,3)] True step(5) by auto
      ultimately show ?thesis using True seat ctx by auto
    next
      case False
      then show ?thesis using ver p S look ctx by (auto simp: shares_verified_def)
    qed
  qed
  have comp': "shares_complete ?rl"
    unfolding shares_complete_def
  proof (intro allI ballI impI)
    fix k p d assume k: "k < length (rl_schedule ?rl)" "p \<in> set (sd_positions (rl_schedule ?rl ! k))" and d: "d < length (rl_roster ?rl)"
      and due: "d \<noteq> sd_to (rl_schedule ?rl ! k) \<and> deal_done ?rl k d"
    let ?deal = "rl_schedule rl ! k"
    have deal: "?deal \<in> set (rl_schedule rl)" using k by simp
    have p: "p < length (rl_deck rl)" using schedule_positions(2) [OF sch deal] k by auto
    have owner: "rl_owners rl ! p = Some (sd_to ?deal)" using sch deal k by (auto simp: schedule_ok_def)
    show "map_of (rl_shares ?rl ! p) d \<noteq> None"
    proof (cases "deal_done rl k d")
      case True
      then have "map_of (rl_shares rl ! p) d \<noteq> None" using comp k d due by (auto simp: shares_complete_def)
      then show ?thesis using recorded [OF p] by simp
    next
      case False
      have "d \<in> set (rl_contributors rl @ [seat]) \<and> (rl_batchDeal rl \<or> k = rl_dealIndex rl)"
      proof (cases "deal_finished rl")
        case True
        have "rl_batchDeal rl \<or> k = rl_dealIndex rl" using False due True by (auto simp: deal_done_def commit_shares_progress split: if_splits)
        moreover have "rl_batchDeal rl \<or> d \<noteq> sd_to step" using calculation due index by auto
        ultimately show ?thesis using finished_contributors [OF con step(1,4) seat step(3) True] d to by simp
      next
        case False
        then show ?thesis using \<open>\<not> deal_done rl k d\<close> due step(1)
          by (auto simp: deal_done_def commit_shares_progress current_deal_def split: if_splits)
      qed
      moreover have "d \<notin> set (rl_contributors rl)" using False calculation by (auto simp: deal_done_def split: if_splits)
      ultimately have "d = seat" "rl_batchDeal rl \<or> k = rl_dealIndex rl" by auto
      then have "p \<in> set (deal_positions rl seat step)"
        using k(2) p owner due index sch by (auto simp: deal_positions_def schedule_ok_def)
      then show ?thesis using recorded [OF p] \<open>d = seat\<close> step(5) by simp
    qed
  qed
  have rev': "revealed_ok ?rl"
    using rev step(1) by (auto simp: revealed_ok_def)
  have "table_ok pr G ?rl" using inv by (simp add: ledger_inv_def table_ok_def)
  then show ?thesis using shape' con' ver' comp' rev' by (simp add: ledger_inv_def)
qed

lemma open_cards_facts:
  assumes "open_cards pr G rl seat phase seen items = Inr cards"
  shows "map fst cards = map item_pos items \<and> distinct (map snd cards) \<and> set (map snd cards) \<inter> set seen = {} \<and>
    set (map snd cards) \<subseteq> snd ` set (cpt_cardByPoint (rl_table rl))"
  using assms
proof (induction items arbitrary: seen cards)
  case (Cons item items)
  then obtain card_id rest shares where c: "identifyCard G (rl_table rl) (removeDecryptionShares G (rl_deck rl ! item_pos item) shares) = Some card_id"
      "card_id \<notin> set seen" "open_cards pr G rl seat phase (card_id # seen) items = Inr rest" "cards = (item_pos item, card_id) # rest"
    by (auto simp: result_simps split: if_splits option.splits)
  have "card_id \<in> snd ` set (cpt_cardByPoint (rl_table rl))"
    using c(1) by (auto simp: identifyCard_def dest!: map_of_SomeD intro: rev_image_eqI)
  then show ?case using Cons.IH [OF c(3)] c by auto
qed simp

lemma check_ownership_Inr:
  "check_ownership rl seat positions = Inr u \<longleftrightarrow> (\<forall>position \<in> set positions. nat (numval position) < length (rl_owners rl) \<and>
     rl_owners rl ! nat (numval position) = Some seat \<and> map_of (rl_revealed rl) (nat (numval position)) = None)"
  by (induction positions) (auto simp: Let_def split: option.splits if_splits)

lemma fold_update_new:
  "distinct (map fst (m @ cards)) \<Longrightarrow> fold (\<lambda>(pos, c) m. AList.update pos c m) cards m = m @ cards"
proof (induction cards arbitrary: m)
  case (Cons x cards)
  obtain pos c where x: "x = (pos, c)" by (cases x)
  have "pos \<notin> fst ` set m" using Cons.prems x by auto
  then show ?case using Cons x by (simp add: update_new)
qed simp

lemma commit_action_fields [simp]:
  "rl_roster (commit_action rl h cards) = rl_roster rl"
  "rl_seats (commit_action rl h cards) = rl_seats rl"
  "rl_publicKeys (commit_action rl h cards) = rl_publicKeys rl"
  "rl_schedule (commit_action rl h cards) = rl_schedule rl"
  "rl_deck (commit_action rl h cards) = rl_deck rl"
  "rl_owners (commit_action rl h cards) = rl_owners rl"
  "rl_table (commit_action rl h cards) = rl_table rl"
  "rl_maxActions (commit_action rl h cards) = rl_maxActions rl"
  "rl_batchDeal (commit_action rl h cards) = rl_batchDeal rl"
  "rl_gameId (commit_action rl h cards) = rl_gameId rl"
  "rl_round (commit_action rl h cards) = rl_round rl"
  "rl_shares (commit_action rl h cards) = rl_shares rl"
  "rl_contributors (commit_action rl h cards) = rl_contributors rl"
  "rl_dealIndex (commit_action rl h cards) = rl_dealIndex rl"
  "rl_actionIndex (commit_action rl h cards) = rl_actionIndex rl + 1" "current_deal (commit_action rl h cards) = current_deal rl"
  by (simp_all add: commit_action_def current_deal_def)

lemma commit_action_keeps:
  "ledger_shape (commit_action rl h cards) = ledger_shape rl" "contributors_ok (commit_action rl h cards) = contributors_ok rl"
  "shares_verified pr G (commit_action rl h cards) = shares_verified pr G rl" "shares_complete (commit_action rl h cards) = shares_complete rl"
  "table_ok pr G (commit_action rl h cards) = table_ok pr G rl"
  by (simp_all add: ledger_shape_def contributors_ok_def shares_verified_def shares_complete_def deal_done_def round_context_def table_ok_def cong: option.case_cong)

lemma commit_action_inv:
  assumes inv: "ledger_inv pr G rl" and body: "action_body_ok G body" and owner: "check_ownership rl seat (ab_reveal body) = Inr ()"
    and opened: "open_cards pr G rl seat phase (map snd (rl_revealed rl)) (ab_shares body) = Inr cards"
    and phase: "current_deal rl = None" "rl_actionIndex rl < rl_maxActions rl"
  shows "ledger_inv pr G (commit_action rl h cards) \<and> rl_revealed (commit_action rl h cards) = rl_revealed rl @ cards"
proof -
  note o = open_cards_facts [OF opened]
  have len: "length (rl_owners rl) = length (rl_deck rl)" using inv by (simp add: ledger_inv_def ledger_shape_def schedule_ok_def)
  have ps: "ab_reveal body = map ps_pos (ab_shares body)" using body by (simp add: action_body_ok_def)
  have pos: "map fst cards = map (\<lambda>p. nat (numval p)) (ab_reveal body)" using conjunct1 [OF o] unfolding ps by (simp add: item_pos_def)
  have num: "\<exists>k. p = JInt (int k)" if "p \<in> set (ab_reveal body)" for p using body that by (auto simp: action_body_ok_def)
  have "inj_on (\<lambda>p. nat (numval p)) (set (ab_reveal body))"
  proof (rule inj_onI)
    fix x y assume "x \<in> set (ab_reveal body)" "y \<in> set (ab_reveal body)" and eq: "nat (numval x) = nat (numval y)"
    then obtain j k where "x = JInt (int j)" "y = JInt (int k)" using num by blast
    then show "x = y" using eq by simp
  qed
  then have "distinct (map (\<lambda>p. nat (numval p)) (ab_reveal body))" using body by (simp add: action_body_ok_def distinct_map)
  then have new: "distinct (map fst cards)" using pos by simp
  have fresh: "p < length (rl_deck rl) \<and> rl_owners rl ! p = Some seat \<and> p \<notin> fst ` set (rl_revealed rl)" if "p \<in> fst ` set cards" for p
  proof -
    have "p \<in> (\<lambda>p. nat (numval p)) ` set (ab_reveal body)" using that pos by (metis image_set)
    then show ?thesis using owner len by (auto simp: check_ownership_Inr map_of_eq_None_iff)
  qed
  have all: "distinct (map fst (rl_revealed rl @ cards))" using inv new fresh by (auto simp: ledger_inv_def revealed_ok_def)
  then have rev: "rl_revealed (commit_action rl h cards) = rl_revealed rl @ cards" by (simp add: commit_action_def fold_update_new)
  have old: "revealed_ok rl" using inv by (simp add: ledger_inv_def)
  have snds: "distinct (map snd (rl_revealed rl @ cards))" using old o by (auto simp: revealed_ok_def)
  have each: "p < length (rl_deck rl) \<and> rl_owners rl ! p \<noteq> None \<and> c \<in> snd ` set (cpt_cardByPoint (rl_table rl))"
    if "(p, c) \<in> set (rl_revealed rl @ cards)" for p c
  proof (cases "(p, c) \<in> set (rl_revealed rl)")
    case True
    then show ?thesis using old by (auto simp: revealed_ok_def)
  next
    case False
    then have c: "(p, c) \<in> set cards" using that by simp
    then have "p \<in> fst ` set cards" "c \<in> set (map snd cards)" by force+
    then show ?thesis using fresh o by auto
  qed
  then have all_new: "\<forall>(p, c) \<in> set (rl_revealed rl @ cards). p < length (rl_deck rl) \<and> rl_owners rl ! p \<noteq> None \<and> c \<in> snd ` set (cpt_cardByPoint (rl_table rl))"
    by (intro ballI) (simp only: split_paired_all prod.case simp_thms)
  then have "revealed_ok (commit_action rl h cards)"
    unfolding revealed_ok_def rev using all snds phase by simp
  then show ?thesis using inv rev by (simp add: ledger_inv_def commit_action_keeps)
qed

fun transition_status :: "'p RoundRevealTransition \<Rightarrow> TransitionStatus" where
  "transition_status (SharesTransition st _ _ _) = st"
| "transition_status (ActionTransition st _ _ _ _) = st"

definition unchanged :: "'p RoundRevealLedger \<Rightarrow> 'p RoundRevealLedger \<times> (reveal_error + 'p RoundRevealTransition) \<Rightarrow> bool" where
  "unchanged rl result \<longleftrightarrow> fst result = rl \<and> (\<forall>t. snd result = Inr t \<longrightarrow> transition_status t = TransitionDuplicate)"

lemma process_shares_cases:
  "unchanged rl (process_shares pr G rl received seat commit) \<or>
   (\<exists>body. decodeSharesBody G (env_body (art_envelope received)) = Inr body \<and>
      check_shares pr G rl seat (env_phase (art_envelope received)) body = Inr () \<and>
      process_shares pr G rl received seat commit = (if commit then commit_shares rl seat (bytesToHex (art_hash received)) (sb_items body) else rl,
        Inr (SharesTransition TransitionAccepted received seat body)))"
  by (simp add: process_shares_def unchanged_def Let_def split: sum.split)

lemma process_action_cases:
  "unchanged rl (process_action pr G rl received seat expected commit) \<or>
   (\<exists>d cards. decodeActionEnvelope pr G (art_canonicalBytes received) (ledger_scope rl expected) = Inr d \<and>
      check_ownership rl seat (ab_reveal (dae_action d)) = Inr () \<and>
      open_cards pr G rl seat (env_phase (art_envelope received)) (map snd (rl_revealed rl)) (ab_shares (dae_action d)) = Inr cards \<and>
      current_deal rl = None \<and> rl_actionIndex rl < rl_maxActions rl \<and>
      process_action pr G rl received seat expected commit = (if commit then commit_action rl (bytesToHex (art_hash received)) cards else rl,
        Inr (ActionTransition TransitionAccepted received seat (dae_action d) cards)))"
  by (auto simp: process_action_def unchanged_def Let_def rbind_def split: sum.split option.split sum.splits)

lemma ledger_process_cases:
  "unchanged rl (ledger_process pr G rl b expected commit) \<or>
   (\<exists>received seat. decodeAndVerifyEnvelope pr b = Inr received \<and>
      map_of (rl_seats rl) (bytesToHex (env_from (art_envelope received))) = Some seat \<and>
      (ledger_process pr G rl b expected commit = process_shares pr G rl received seat commit \<or>
       ledger_process pr G rl b expected commit = process_action pr G rl received seat expected commit))"
  by (simp add: ledger_process_def unchanged_def Let_def split: sum.split option.split)

lemma ledger_process_inv:
  assumes laws: "ristretto_laws G" and inv: "ledger_inv pr G rl"
  shows "ledger_inv pr G (fst (ledger_process pr G rl b expected commit))"
proof (cases "unchanged rl (ledger_process pr G rl b expected commit)")
  case True
  then show ?thesis using inv by (simp add: unchanged_def)
next
  case False
  then obtain received seat where r: "decodeAndVerifyEnvelope pr b = Inr received"
      "map_of (rl_seats rl) (bytesToHex (env_from (art_envelope received))) = Some seat"
      "ledger_process pr G rl b expected commit = process_shares pr G rl received seat commit \<or>
       ledger_process pr G rl b expected commit = process_action pr G rl received seat expected commit"
    using ledger_process_cases by blast
  have table: "seat_table (rl_roster rl) (rl_seats rl)" using inv by (simp add: ledger_inv_def ledger_shape_def)
  have seat: "seat < length (rl_roster rl)" using seat_table_lookup [OF table] r(2) by simp
  from r(3) show ?thesis
  proof
    assume p: "ledger_process pr G rl b expected commit = process_shares pr G rl received seat commit"
    with False process_shares_cases [of rl pr G received seat commit] obtain body where
      "decodeSharesBody G (env_body (art_envelope received)) = Inr body"
      "check_shares pr G rl seat (env_phase (art_envelope received)) body = Inr ()"
      "process_shares pr G rl received seat commit = (if commit then commit_shares rl seat (bytesToHex (art_hash received)) (sb_items body) else rl,
         Inr (SharesTransition TransitionAccepted received seat body))"
      by auto
    then show ?thesis using commit_shares_inv [OF inv seat decodeSharesBody_ok [OF laws]] inv p by simp
  next
    assume p: "ledger_process pr G rl b expected commit = process_action pr G rl received seat expected commit"
    with False process_action_cases [of rl pr G received seat expected commit] obtain d cards where d:
      "decodeActionEnvelope pr G (art_canonicalBytes received) (ledger_scope rl expected) = Inr d"
      "check_ownership rl seat (ab_reveal (dae_action d)) = Inr ()"
      "open_cards pr G rl seat (env_phase (art_envelope received)) (map snd (rl_revealed rl)) (ab_shares (dae_action d)) = Inr cards"
      "current_deal rl = None" "rl_actionIndex rl < rl_maxActions rl"
      "process_action pr G rl received seat expected commit = (if commit then commit_action rl (bytesToHex (art_hash received)) cards else rl,
         Inr (ActionTransition TransitionAccepted received seat (dae_action d) cards))"
      by auto
    then show ?thesis using commit_action_inv [OF inv action_envelope_sound_body [OF laws d(1)] d(2,3,4,5)] inv p by simp
  qed
qed

end
