(* ===== verification/Reveal_Theorems.thy ===== *)
theory Reveal_Theorems
  imports Reveal_Inv
begin

text \<open>
  What the reveal ledger promises. Every reachable ledger satisfies the invariant; contributions that
  a player makes with the own key are accepted by the others; and with an honestly masked deck
  each owner reads, and each action opens, the true card.
\<close>

section \<open>Reachable ledgers\<close>

lemma roster_table: "distinct ids \<Longrightarrow> seat_table ids (map (\<lambda>seat. (bytesToHex (ids ! seat), seat)) [0..<length ids])"
  unfolding seat_table_def by (intro conjI nth_equalityI) simp_all

lemma new_ledger_inv:
  assumes sec: "sec_inv pr G (rro_setup options)" and new: "newRoundRevealLedger pr G options = Inr rl"
  shows "ledger_inv pr G rl"
proof -
  let ?roster = "sec_roster (rro_setup options)"
  from new obtain keys table deck deals owners where r:
      "mapM_res (copied_key G (rro_setup options)) [0..<length ?roster] = Inr keys"
      "newCardPointTable pr G (rro_deckSpec options) = Inr table" "length (rro_deck options) = table_size table"
      "mapM_res (copied_card G) (rro_deck options) = Inr deck"
      "schedule_deals (length ?roster) (length deck) 0 (replicate (length deck) None) (rro_schedule options) = Inr (deals, owners)"
      "rl_roster rl = ?roster" "rl_publicKeys rl = keys" "rl_table rl = table" "rl_deck rl = deck" "rl_schedule rl = deals"
      "rl_owners rl = owners" "rl_shares rl = replicate (length deck) []" "rl_contributors rl = []" "rl_revealed rl = []"
      "rl_dealIndex rl = 0" "rl_actionIndex rl = 0"
      "rl_seats rl = map (\<lambda>seat. (bytesToHex (?roster ! seat), seat)) [0..<length ?roster]"
    by (auto simp: newRoundRevealLedger_def Let_def result_simps split: if_splits)
  have roster: "distinct ?roster" "3 \<le> length ?roster" "length ?roster \<le> 8" using sec by (auto simp: sec_inv_def setup_inv_def seat_table_def)
  have lens: "length keys = length ?roster" "length deck = length (rro_deck options)" using mapM_res_length [OF r(1)] mapM_res_length [OF r(4)] by simp_all
  have sch: "schedule_ok (length ?roster) (length deck) owners deals"
    using schedule_deals_Inr [OF r(5)] by (auto simp: schedule_ok_def)
  have "ledger_shape rl"
    using roster_table [OF roster(1)] roster lens sch by (simp add: ledger_shape_def r)
  moreover have "table_ok pr G rl" using r(2,3,8,9) lens by (metis table_ok_def)
  moreover have "contributors_ok rl" using roster by (auto simp: contributors_ok_def r split: option.split)
  moreover have "shares_verified pr G rl" by (simp add: shares_verified_def r)
  moreover have "shares_complete rl" by (auto simp: shares_complete_def deal_done_def current_deal_def r)
  moreover have "revealed_ok rl" by (simp add: revealed_ok_def r)
  ultimately show ?thesis by (simp add: ledger_inv_def)
qed

definition ledger_start :: "prims \<Rightarrow> 'p ristretto \<Rightarrow> 'p RoundRevealLedger \<Rightarrow> bool" where
  "ledger_start pr G rl \<longleftrightarrow> (\<exists>options. reachable (sec_start pr) (sec_next pr G) (rro_setup options) \<and> newRoundRevealLedger pr G options = Inr rl)"

abbreviation ledger_next :: "prims \<Rightarrow> 'p ristretto \<Rightarrow> 'p RoundRevealLedger \<Rightarrow> EnvelopeArtifact \<times> jsnum option \<Rightarrow> unit + 'p RoundRevealLedger" where
  "ledger_next pr G rl candidate \<equiv> Inr (fst (ledger_commit pr G rl (fst candidate) (snd candidate)))"

lemma ledger_start_inv: "hash_length pr \<Longrightarrow> ledger_start pr G rl \<Longrightarrow> ledger_inv pr G rl"
  using envelope_machine.reachable_good new_ledger_inv by (fastforce simp: ledger_start_def)

interpretation ledger_machine: error_machine "ledger_start pr G" "ledger_next pr G"
    "\<lambda>rl. ristretto_laws G \<and> hash_length pr \<longrightarrow> ledger_inv pr G rl"
  for pr and G :: "'p ristretto"
  by unfold_locales (auto simp: ledger_start_inv ledger_commit_def ledger_process_inv)

lemma build_table_ids:
  "build_table pr G sid ids pts m cards = Inr table \<Longrightarrow> snd ` set m \<subseteq> set ids \<Longrightarrow>
     snd ` set (cpt_cardByPoint table) \<subseteq> set (cpt_cardIds table) \<and> (distinct ids \<longrightarrow> distinct (cpt_cardIds table))"
proof (induction cards arbitrary: ids pts m)
  case (Cons card_id cards)
  then obtain P where P: "map_of m (bytesToHex (nr_toBytes G P)) = None" "card_id \<notin> set ids"
    "build_table pr G sid (ids @ [card_id]) (pts @ [P]) (AList.update (bytesToHex (nr_toBytes G P)) card_id m) cards = Inr table"
    by (auto simp: result_simps Let_def split: if_splits)
  have "bytesToHex (nr_toBytes G P) \<notin> fst ` set m" using P(1) by (simp add: map_of_eq_None_iff)
  then have "snd ` set (AList.update (bytesToHex (nr_toBytes G P)) card_id m) \<subseteq> set (ids @ [card_id])"
    using Cons.prems(2) by (auto simp: update_new)
  then show ?case using Cons.IH [OF P(3)] P(2) by simp
next
  case Nil
  then have "cpt_cardIds table = ids" "cpt_cardByPoint table = m" by auto
  then show ?case using Nil.prems(2) by simp
qed

lemma table_card_ids:
  assumes "newCardPointTable pr G spec = Inr table"
  shows "snd ` set (cpt_cardByPoint table) \<subseteq> set (cpt_cardIds table)" "distinct (cpt_cardIds table)"
  using assms build_table_ids [of pr G "spec_id spec" "[]" "[]" "[]" "spec_cards spec" table]
  by (auto simp: newCardPointTable_def split: if_splits)

lemma dealt_shares:
  assumes inv: "ledger_inv pr G rl" and "current_deal rl = None" "p < length (rl_deck rl)" "rl_owners rl ! p = Some owner"
    "d < length (rl_roster rl)" "d \<noteq> owner"
  shows "\<exists>S. map_of (rl_shares rl ! p) d = Some S"
proof -
  have sch: "schedule_ok (length (rl_roster rl)) (length (rl_deck rl)) (rl_owners rl) (rl_schedule rl)" and comp: "shares_complete rl"
    using inv by (simp_all add: ledger_inv_def ledger_shape_def)
  obtain deal where deal: "deal \<in> set (rl_schedule rl)" "p \<in> set (sd_positions deal)" "sd_to deal = owner"
    using owned_scheduled [OF sch assms(3,4)] by blast
  then obtain k where "k < length (rl_schedule rl)" "rl_schedule rl ! k = deal" by (auto simp: in_set_conv_nth)
  then have "map_of (rl_shares rl ! p) d \<noteq> None"
    using comp deal assms(2,5,6) by (auto simp: shares_complete_def deal_done_def current_deal_None)
  then show ?thesis by auto
qed

text \<open>
  C21: the reveal ledger is sound. In every reachable ledger the revealed positions were dealt and are
  distinct, so are the revealed cards, which are cards of the deck, and nothing is revealed before
  all deals are complete. Every recorded decryption share verified against the key of its seat, which
  is not the owner of the card; and once the deals are complete the share of every other seat
  is recorded for every dealt position.
\<close>

theorem reveals_sound:
  assumes laws: "ristretto_laws G" and hash: "hash_length pr" and reach: "reachable (ledger_start pr G) (ledger_next pr G) rl"
  shows "distinct (map fst (rl_revealed rl)) \<and> distinct (map snd (rl_revealed rl)) \<and>
    (\<forall>p c. (p, c) \<in> set (rl_revealed rl) \<longrightarrow> p < length (rl_deck rl) \<and> rl_owners rl ! p \<noteq> None \<and> c \<in> set (cpt_cardIds (rl_table rl))) \<and>
    (rl_revealed rl \<noteq> [] \<longrightarrow> current_deal rl = None) \<and> rl_actionIndex rl \<le> rl_maxActions rl \<and>
    (\<forall>p < length (rl_deck rl). \<forall>d S. map_of (rl_shares rl ! p) d = Some S \<longrightarrow> d < length (rl_roster rl) \<and> rl_owners rl ! p \<noteq> Some d \<and>
       (\<exists>phase prf. verifyProvenDecryptionShare pr G (round_context rl phase) (JInt (int p)) (rl_publicKeys rl ! d) (mc_A (rl_deck rl ! p))
          \<lparr>ds_S = S, ds_proof = prf\<rparr>)) \<and>
    (current_deal rl = None \<longrightarrow> (\<forall>p < length (rl_deck rl). \<forall>owner. rl_owners rl ! p = Some owner \<longrightarrow>
       (\<forall>d < length (rl_roster rl). d \<noteq> owner \<longrightarrow> map_of (rl_shares rl ! p) d \<noteq> None)))"
proof -
  have inv: "ledger_inv pr G rl" using ledger_machine.reachable_good [OF reach] laws hash by simp
  then have rev: "revealed_ok rl" and ver: "shares_verified pr G rl" and tab: "table_ok pr G rl" by (simp_all add: ledger_inv_def)
  from tab obtain spec where "newCardPointTable pr G spec = Inr (rl_table rl)" by (auto simp: table_ok_def)
  note cards = table_card_ids(1) [OF this]
  have each: "p < length (rl_deck rl) \<and> rl_owners rl ! p \<noteq> None \<and> c \<in> snd ` set (cpt_cardByPoint (rl_table rl))"
    if "(p, c) \<in> set (rl_revealed rl)" for p c using rev that unfolding revealed_ok_def by blast
  show ?thesis
  proof (intro conjI allI impI)
    fix p c assume "(p, c) \<in> set (rl_revealed rl)"
    then show "p < length (rl_deck rl)" "rl_owners rl ! p \<noteq> None" "c \<in> set (cpt_cardIds (rl_table rl))"
      using each cards by blast+
  next
    fix p owner d assume "current_deal rl = None" "p < length (rl_deck rl)" "rl_owners rl ! p = Some owner" "d < length (rl_roster rl)" "d \<noteq> owner"
    then show "map_of (rl_shares rl ! p) d \<noteq> None" using dealt_shares [OF inv] by simp
  next
    fix p d S assume "p < length (rl_deck rl)" "map_of (rl_shares rl ! p) d = Some S"
    then show "d < length (rl_roster rl)" "rl_owners rl ! p \<noteq> Some d"
      "\<exists>phase prf. verifyProvenDecryptionShare pr G (round_context rl phase) (JInt (int p)) (rl_publicKeys rl ! d) (mc_A (rl_deck rl ! p))
          \<lparr>ds_S = S, ds_proof = prf\<rparr>"
      using ver unfolding shares_verified_def by blast+
  qed (use rev in \<open>simp_all add: revealed_ok_def\<close>)
qed

section \<open>Previews and repetitions\<close>

fun as_duplicate :: "'p RoundRevealTransition \<Rightarrow> 'p RoundRevealTransition" where
  "as_duplicate (SharesTransition _ received seat body) = SharesTransition TransitionDuplicate received seat body"
| "as_duplicate (ActionTransition _ received seat body cards) = ActionTransition TransitionDuplicate received seat body cards"

lemma process_shares_preview:
  "process_shares pr G rl received seat False = (rl, snd (process_shares pr G rl received seat True))"
  by (simp add: process_shares_def Let_def split: sum.split)

lemma process_action_preview:
  "process_action pr G rl received seat expected False = (rl, snd (process_action pr G rl received seat expected True))"
proof (cases "map_of (rl_accepted rl) (bytesToHex (art_hash received)) = None \<and> current_deal rl = None \<and> rl_actionIndex rl < rl_maxActions rl")
  case True
  then show ?thesis
    by (cases "catch_as (decodeActionEnvelope pr G (art_canonicalBytes received) (ledger_scope rl expected)) action_error")
      (simp_all add: process_action_def Let_def split: sum.split)
next
  case False
  then show ?thesis by (auto simp: process_action_def Let_def split: option.split)
qed

lemma process_preview: "ledger_process pr G rl b expected False = (rl, snd (ledger_process pr G rl b expected True))"
  by (simp add: ledger_process_def Let_def process_shares_preview process_action_preview split: sum.split option.split)

lemma commit_shares_accepted: "map_of (rl_accepted (commit_shares rl seat h items)) h = Some []"
  by (simp add: commit_shares_def Let_def)

lemma process_shares_again:
  assumes "process_shares pr G rl received seat True = (rl', Inr r)"
  shows "rl' = rl \<and> transition_status r = TransitionDuplicate \<or>
    transition_status r = TransitionAccepted \<and> process_shares pr G rl' received seat True = (rl', Inr (as_duplicate r)) \<and>
    (\<exists>items. rl' = commit_shares rl seat (bytesToHex (art_hash received)) items)"
proof (cases "catch_as (decodeSharesBody G (env_body (art_envelope received))) (\<lambda>_. RoundRevealError (ActionCode Malformed_body))")
  case (Inl e)
  with assms show ?thesis by (simp add: process_shares_def Let_def)
next
  case (Inr body)
  with assms show ?thesis
    by (cases "map_of (rl_accepted rl) (bytesToHex (art_hash received)) = None")
      (auto simp: process_shares_def Let_def commit_shares_accepted split: sum.splits)
qed

lemma process_action_again:
  assumes laws: "codec_laws pr" and received: "decodeAndVerifyEnvelope pr b = Inr received"
    and p: "process_action pr G rl received seat expected True = (rl', Inr r)"
  shows "rl' = rl \<and> transition_status r = TransitionDuplicate \<or>
    transition_status r = TransitionAccepted \<and> process_action pr G rl' received seat expected' True = (rl', Inr (as_duplicate r)) \<and>
    (\<exists>cards. rl' = commit_action rl (bytesToHex (art_hash received)) cards)"
proof (cases "map_of (rl_accepted rl) (bytesToHex (art_hash received))")
  case (Some cards)
  with p show ?thesis by (auto simp: process_action_def Let_def result_simps)
next
  case None
  with p obtain d cards where d: "decodeActionEnvelope pr G (art_canonicalBytes received) (ledger_scope rl expected) = Inr d"
      "rl' = commit_action rl (bytesToHex (art_hash received)) cards" "r = ActionTransition TransitionAccepted received seat (dae_action d) cards"
    by (auto simp: process_action_def Let_def split: sum.splits if_splits)
  have "art_canonicalBytes received = b" using verified_artifact(1) [OF laws received] .
  then have "decodeActionBody pr G (env_body (art_envelope received)) = Inr (dae_action d)"
    using d(1) received by (auto elim: decodeActionEnvelope_InrE)
  moreover have "map_of (rl_accepted rl') (bytesToHex (art_hash received)) = Some cards" by (simp add: d(2) commit_action_def)
  ultimately show ?thesis using d(2,3) by (auto simp: process_action_def Let_def)
qed

lemma process_again:
  assumes laws: "codec_laws pr" and p: "ledger_process pr G rl b expected True = (rl', Inr r)"
  shows "rl' = rl \<and> transition_status r = TransitionDuplicate \<or>
    transition_status r = TransitionAccepted \<and> ledger_process pr G rl' b expected' True = (rl', Inr (as_duplicate r))"
proof -
  have len: "length b \<le> MAX_ROUND_REVEAL_ENVELOPE_BYTES" using p by (rule contrapos_pp) (simp add: ledger_process_def)
  obtain received where dec: "decodeAndVerifyEnvelope pr b = Inr received"
    using p len by (cases "decodeAndVerifyEnvelope pr b") (simp_all add: ledger_process_def)
  note p' = p [unfolded ledger_process_def, simplified dec if_not_P [OF leD [OF len]], simplified, unfolded Let_def]
  have game: "env_game (art_envelope received) = rl_gameId rl" using p' by (rule contrapos_pp) simp
  obtain seat where seat: "map_of (rl_seats rl) (bytesToHex (env_from (art_envelope received))) = Some seat"
    using p' game by (cases "map_of (rl_seats rl) (bytesToHex (env_from (art_envelope received)))") simp_all
  have round: "env_round (art_envelope received) = rl_round rl" using p' game seat by (simp split: if_splits)
  have "if env_type (art_envelope received) = SHARES then process_shares pr G rl received seat True = (rl', Inr r)
       else env_type (art_envelope received) = ACTION \<and> process_action pr G rl received seat expected True = (rl', Inr r)"
    using p' game seat round by (simp split: if_splits)
  note r = len dec game seat round this
  have again: "ledger_process pr G rl1 b ex True =
      (if env_type (art_envelope received) = SHARES then process_shares pr G rl1 received seat True
       else if env_type (art_envelope received) \<noteq> ACTION then (rl1, revealError (ActionCode Wrong_type))
       else process_action pr G rl1 received seat ex True)"
    if "rl_gameId rl1 = rl_gameId rl" "rl_seats rl1 = rl_seats rl" "rl_round rl1 = rl_round rl" for rl1 ex
    using r(1-5) that by (simp add: ledger_process_def Let_def)
  show ?thesis
  proof (cases "env_type (art_envelope received) = SHARES")
    case True
    with r have "process_shares pr G rl received seat True = (rl', Inr r)" by simp
    note cases = process_shares_again [OF this]
    then have "rl_gameId rl' = rl_gameId rl" "rl_seats rl' = rl_seats rl" "rl_round rl' = rl_round rl" by auto
    from again [OF this, of expected'] True cases show ?thesis by auto
  next
    case False
    with r have "process_action pr G rl received seat expected True = (rl', Inr r)" by simp
    note cases = process_action_again [OF laws r(2) this, of expected']
    then have "rl_gameId rl' = rl_gameId rl" "rl_seats rl' = rl_seats rl" "rl_round rl' = rl_round rl" by auto
    from again [OF this, of expected'] False r(6) cases show ?thesis by auto
  qed
qed

lemma process_refused:
  assumes "snd (ledger_process pr G rl b expected commit) = Inl e"
  shows "fst (ledger_process pr G rl b expected commit) = rl"
proof -
  have shares: "fst (process_shares pr G rl received seat commit) = rl" if "snd (process_shares pr G rl received seat commit) = Inl e" for received seat
    using process_shares_cases [of rl pr G received seat commit] that by (auto simp: unchanged_def)
  have action: "fst (process_action pr G rl received seat expected commit) = rl"
    if "snd (process_action pr G rl received seat expected commit) = Inl e" for received seat
    using process_action_cases [of rl pr G received seat expected commit] that by (auto simp: unchanged_def)
  show ?thesis
    using ledger_process_cases [of rl pr G b expected commit] assms shares action by (auto simp: unchanged_def)
qed

text \<open>
  C25: contributions can be previewed and repeated. Classifying a candidate gives the very result that
  committing it gives; a refused candidate or a repetition leaves the ledger as it was; and once a
  candidate is accepted, committing it again, whatever seat is expected then, reports the same contribution
  as a duplicate, with the same revealed cards, and changes nothing.
\<close>

theorem ledger_preview:
  assumes "codec_laws pr" and commit: "ledger_commit pr G rl candidate expected = (rl', r)"
  shows "ledger_classify pr G rl candidate expected = r \<and>
    (case r of Inl e \<Rightarrow> rl' = rl
     | Inr transition \<Rightarrow> if transition_status transition = TransitionDuplicate then rl' = rl
         else ledger_commit pr G rl' candidate expected' = (rl', Inr (as_duplicate transition)))"
proof -
  have "ledger_classify pr G rl candidate expected = r" using commit by (simp add: ledger_classify_def ledger_commit_def process_preview)
  moreover have "rl' = rl" if "r = Inl e" for e
    using process_refused [of pr G rl "art_canonicalBytes candidate" expected True e] commit that by (simp add: ledger_commit_def)
  moreover have "rl' = rl \<and> transition_status t = TransitionDuplicate \<or>
      transition_status t = TransitionAccepted \<and> ledger_commit pr G rl' candidate expected' = (rl', Inr (as_duplicate t))" if "r = Inr t" for t
    using process_again [OF assms(1)] commit that by (simp add: ledger_commit_def)
  ultimately show ?thesis by (auto split: sum.split)
qed

section \<open>Contributions of a player\<close>

lemma made_share_verifies:
  assumes laws: "ristretto_laws G" and made: "createProvenDecryptionShare pr G ctx pos sk A fill s = Inr (Some (share, s'))"
  shows "usable G sk \<and> ds_S share = times_point G sk A \<and> verifyProvenDecryptionShare pr G ctx pos (public_key G sk) A share"
proof -
  from made obtain nonce c where m: "requirePosition pos = Inr ()" "usable G sk" "randomNonZeroRistrettoScalar G fill s = Some (nonce, s')"
      "decryptionProofChallenge pr G ctx pos (public_key G sk) A (times_point G sk A) (public_key G nonce) (times_point G nonce A) = Inr c"
      "share = \<lparr>ds_S = times_point G sk A, ds_proof = \<lparr>cp_R1 = public_key G nonce, cp_R2 = times_point G nonce A,
         cp_z = (nonce + c * sk mod nr_order G) mod nr_order G\<rparr>\<rparr>"
    by (auto simp: createProvenDecryptionShare_def requireNonZeroScalar_def decryptionShare_def result_simps point_multiply_Inr [OF laws]
        usable_def multiplyRistrettoScalars_def addRistrettoScalars_def ristretto_scalarD [OF laws] assertScalar_Inr split: if_splits option.splits)
  have c: "c < nr_order G" using m(4) unfolding decryptionProofChallenge_def by (rule challenge_range)
  have nz: "public_key G sk \<noteq> nr_zero G" using m(2) base_multiple_nonzero [OF laws, of sk] by (simp add: usable_def)
  have q: "x mod nr_order G < nr_order G" for x using ristrettoD(6) [OF laws] by simp
  have "verifyProvenDecryptionShare pr G ctx pos (public_key G sk) A share"
    using m c nz q by (simp add: verifyProvenDecryptionShare_def decryption_equations_def verified_def point_multiply_ok [OF laws]
        ristrettoD(8,9) [OF laws] response_equation [OF laws])
  then show ?thesis using m by simp
qed

lemma local_key:
  assumes laws: "ristretto_laws G" and key: "requireLocalKey G rl seat sk = Inr i"
  shows "numval seat = int i \<and> i < length (rl_roster rl) \<and> rl_publicKeys rl ! i = public_key G sk"
  using key by (auto simp: requireLocalKey_def unsigned_safe_def ristrettoD(8) [OF laws] point_multiply_Inr [OF laws] split: if_splits sum.splits)

lemma truncate_with_position [simp]: "ProvenDecryptionShare.truncate (with_position pos share) = share"
  by (cases share) (simp add: with_position_def ProvenDecryptionShare.defs PositionShare.defs)

lemma with_position_fields [simp]:
  "ps_pos (with_position pos share) = JInt (int pos)" "ds_S (with_position pos share) = ds_S share" "item_pos (with_position pos share) = pos"
  by (simp_all add: with_position_def ProvenDecryptionShare.defs PositionShare.defs item_pos_def)

lemma prove_positions_ok:
  assumes laws: "ristretto_laws G" and key: "rl_publicKeys rl ! i = public_key G sk"
  shows "prove_positions pr G rl sk fill s positions = Inr (Some (items, s')) \<Longrightarrow>
    map item_pos items = positions \<and>
    (\<forall>item \<in> set items. share_verifies pr G rl i (ledger_phase rl) item \<and> ds_S item = times_point G sk (mc_A (rl_deck rl ! item_pos item)))"
proof (induction positions arbitrary: s items)
  case (Cons pos positions)
  then obtain share s1 rest where r: "createProvenDecryptionShare pr G (round_context rl (ledger_phase rl)) (JInt (int pos)) sk (mc_A (rl_deck rl ! pos)) fill s
        = Inr (Some (share, s1))" "prove_positions pr G rl sk fill s1 positions = Inr (Some (rest, s'))" "items = with_position pos share # rest"
    by (auto simp: result_simps split: option.splits)
  show ?case using Cons.IH [OF r(2)] made_share_verifies [OF laws r(1)] r(3) by (simp add: share_verifies_def key)
qed simp

text \<open>
  A player's deal shares are accepted. Whatever \<open>createDealShares\<close> returns passes the check of the ledger it
  was made for: it names the current recipient, has an item for every required position, and every
  proof verifies under the player's public key. Each item is the secret key times the first component
  of the card at its position.
\<close>

theorem deal_shares_accepted:
  assumes laws: "ristretto_laws G" and made: "createDealShares pr G rl seat sk fill s = Inr (Some (body, s'))"
  shows "\<exists>i. numval seat = int i \<and> i < length (rl_roster rl) \<and> check_shares pr G rl i (ledger_phase rl) body = Inr () \<and>
    (\<forall>item \<in> set (sb_items body). ds_S item = times_point G sk (mc_A (rl_deck rl ! item_pos item)))"
proof -
  from made obtain i step items where m: "requireLocalKey G rl seat sk = Inr i" "current_deal rl = Some step" "rl_batchDeal rl \<or> i \<noteq> sd_to step"
      "i \<notin> set (rl_contributors rl)" "prove_positions pr G rl sk fill s (deal_positions rl i step) = Inr (Some (items, s'))"
      "body = \<lparr>sb_to = JInt (int (deal_recipient rl step)), sb_items = items\<rparr>"
    by (auto simp: createDealShares_def result_simps split: option.splits if_splits)
  note key = local_key [OF laws m(1)]
  have items: "map item_pos items = deal_positions rl i step"
      "\<forall>item \<in> set items. share_verifies pr G rl i (ledger_phase rl) item \<and> ds_S item = times_point G sk (mc_A (rl_deck rl ! item_pos item))"
    using prove_positions_ok [OF laws _ m(5)] key by blast+
  have "length items = length (deal_positions rl i step)" "item_pos ` set items = set (deal_positions rl i step)"
    using arg_cong [OF items(1), of length] arg_cong [OF items(1), of set] by simp_all
  then have "check_shares pr G rl i (ledger_phase rl) body = Inr ()"
    using m(2,3,4,6) items by (auto simp: check_shares_def Let_def list_all_iff)
  then show ?thesis using key items(2) m(6) by auto
qed

text \<open>The card that \<open>seat\<close> sees at a position, with the own share in place of the recorded one.\<close>

definition opened_card :: "'p ristretto \<Rightarrow> 'p RoundRevealLedger \<Rightarrow> nat \<Rightarrow> nat \<Rightarrow> nat \<Rightarrow> ustr \<Rightarrow> bool" where
  "opened_card G rl seat sk pos c \<longleftrightarrow> (\<exists>share shares. decryptionShare G sk (mc_A (rl_deck rl ! pos)) = Inr share \<and>
     shares_for rl pos seat (Inr share) = Inr shares \<and>
     identifyCard G (rl_table rl) (removeDecryptionShares G (rl_deck rl ! pos) shares) = Some c)"

lemma shares_for_own:
  assumes "shares_for rl pos seat own = Inr shares" "seat < length (rl_roster rl)"
  shows "\<exists>share. own = Inr share \<and> shares_for rl pos seat (Inr share) = Inr shares"
proof (cases own)
  case (Inl e)
  with assms show ?thesis
    by (auto simp: shares_for_def mapM_res_Inr_iff list_all2_conv_all_nth dest!: spec [of _ seat])
qed (use assms in simp)

lemma private_cards_remaining:
  assumes "private_cards G rl seat sk M dealt remaining positions = Inr (dealt', remaining')" "seat < length (rl_roster rl)"
    and "\<And>p c. (p, c) \<in> set (rl_revealed rl) \<Longrightarrow> map_of M c = Some p"
    and "(pos, c) \<in> set remaining'" "(pos, c) \<notin> set remaining"
  shows "pos \<in> set positions \<and> rl_owners rl ! pos = Some seat \<and> map_of (rl_revealed rl) pos = None \<and>
    c \<notin> snd ` set (rl_revealed rl) \<and> opened_card G rl seat sk pos c"
  using assms(1,3,5)
proof (induction positions arbitrary: M dealt remaining)
  case Nil
  then show ?case using assms(4) by simp
next
  case (Cons p positions)
  show ?case
  proof (cases "rl_owners rl ! p = Some seat")
    case False
    then show ?thesis using Cons by simp
  next
    case True
    with Cons.prems(1) obtain shares card_id where s:
        "shares_for rl p seat (catch_as (decryptionShare G sk (mc_A (rl_deck rl ! p))) RevealDeck) = Inr shares"
        "identifyCard G (rl_table rl) (removeDecryptionShares G (rl_deck rl ! p) shares) = Some card_id"
        "map_of M card_id = None \<or> map_of M card_id = Some p"
        "private_cards G rl seat sk (AList.update card_id p M) (dealt @ [(p, card_id)])
          (if map_of (rl_revealed rl) p = None then remaining @ [(p, card_id)] else remaining) positions = Inr (dealt', remaining')"
      by (auto simp: result_simps Let_def split: option.splits if_splits)
    obtain share where share: "decryptionShare G sk (mc_A (rl_deck rl ! p)) = Inr share" "shares_for rl p seat (Inr share) = Inr shares"
      using shares_for_own [OF s(1) assms(2)] by auto
    have M: "map_of (AList.update card_id p M) c' = Some p'" if "(p', c') \<in> set (rl_revealed rl)" for p' c'
      using Cons.prems(2) [OF that] s(3) by (auto simp: update_conv')
    show ?thesis
    proof (cases "(pos, c) = (p, card_id) \<and> map_of (rl_revealed rl) p = None")
      case here: True
      have "card_id \<notin> snd ` set (rl_revealed rl)"
      proof
        assume "card_id \<in> snd ` set (rl_revealed rl)"
        then obtain p' where p': "(p', card_id) \<in> set (rl_revealed rl)" by force
        then have "p' = p" using Cons.prems(2) s(3) by auto
        then show False using p' here by (force simp: map_of_eq_None_iff)
      qed
      then show ?thesis using here True s(2) share by (auto simp: opened_card_def)
    next
      case False
      then have "(pos, c) \<notin> set (if map_of (rl_revealed rl) p = None then remaining @ [(p, card_id)] else remaining)"
        using Cons.prems(3) by auto
      then show ?thesis using Cons.IH [OF s(4) M] by auto
    qed
  qed
qed

lemma known_cards:
  assumes "distinct (map snd cards)"
  shows "map_of (fold (\<lambda>(pos, c) m. AList.update c pos m) cards m) c =
    (if c \<in> snd ` set cards then map_of (map (\<lambda>(p, c). (c, p)) cards) c else map_of m c)"
  using assms
proof (induction cards arbitrary: m)
  case (Cons x cards)
  obtain p c' where "x = (p, c')" by (cases x)
  with Cons show ?case by (auto simp: update_conv')
qed simp

lemma known_card:
  assumes "distinct (map snd cards)" "(p, c) \<in> set cards"
  shows "map_of (fold (\<lambda>(pos, c) m. AList.update c pos m) cards []) c = Some p"
proof -
  have "distinct (map fst (map (\<lambda>(p, c). (c, p)) cards))" using assms(1) by (simp add: case_prod_unfold comp_def)
  then have "map_of (map (\<lambda>(p, c). (c, p)) cards) c = Some p" using assms(2) by (intro map_of_is_SomeI) force+
  then show ?thesis using known_cards [OF assms(1), of "[]" c] assms(2) by force
qed

text \<open>
  C24: a player's action shares open the player's cards. Whatever \<open>createActionShare\<close> returns in a reachable
  ledger is for a card left in the private hand of that player, at a position that no action has
  revealed, within the budget of actions; the ledger accepts the share for it, and opens exactly that card.
\<close>

theorem action_share_opens_hand:
  assumes laws: "ristretto_laws G" and hash: "hash_length pr" and reach: "reachable (ledger_start pr G) (ledger_next pr G) rl"
    and made: "createActionShare pr G rl seat sk position fill s = Inr (Some (item, s'))"
  shows "\<exists>i dealt remaining c. numval seat = int i \<and> readPrivateHand G rl seat sk = Inr (Some (dealt, remaining)) \<and>
    position = JInt (int (item_pos item)) \<and> ps_pos item = position \<and> map_of remaining (item_pos item) = Some c \<and>
    check_ownership rl i [ps_pos item] = Inr () \<and> current_deal rl = None \<and> rl_actionIndex rl < rl_maxActions rl \<and>
    open_cards pr G rl i (ledger_phase rl) (map snd (rl_revealed rl)) [item] = Inr [(item_pos item, c)]"
proof -
  have inv: "ledger_inv pr G rl" using ledger_machine.reachable_good [OF reach] laws hash by simp
  then have rev: "distinct (map snd (rl_revealed rl))" and len: "length (rl_owners rl) = length (rl_deck rl)"
    by (simp_all add: ledger_inv_def revealed_ok_def ledger_shape_def schedule_ok_def)
  let ?pos = "nat (numval position)"
  from made obtain dealt remaining i c share where m: "readPrivateHand G rl seat sk = Inr (Some (dealt, remaining))"
      "ownerAt rl position = Inr (Some i)" "int i = numval seat" "map_of remaining ?pos = Some c" "rl_actionIndex rl < rl_maxActions rl"
      "createProvenDecryptionShare pr G (round_context rl (ledger_phase rl)) position sk (mc_A (rl_deck rl ! ?pos)) fill s = Inr (Some (share, s'))"
      "item = with_position ?pos share"
    by (auto simp: createActionShare_def result_simps Let_def split: option.splits if_splits)
  from m(1) have h: "requireLocalKey G rl seat sk = Inr i" "current_deal rl = None"
      "private_cards G rl i sk (fold (\<lambda>(pos, c) m. AList.update c pos m) (rl_revealed rl) []) [] [] [0..<length (rl_deck rl)] = Inr (dealt, remaining)"
    using local_key [OF laws] m(3) by (auto simp: readPrivateHand_def result_simps current_deal_None split: if_splits)
  note key = local_key [OF laws h(1)]
  have known: "map_of (fold (\<lambda>(pos, c) m. AList.update c pos m) (rl_revealed rl) []) c = Some p" if "(p, c) \<in> set (rl_revealed rl)" for p c
    using known_card [OF rev that] .
  have card: "?pos < length (rl_deck rl)" "rl_owners rl ! ?pos = Some i" "map_of (rl_revealed rl) ?pos = None" "c \<notin> snd ` set (rl_revealed rl)"
      "opened_card G rl i sk ?pos c"
    using private_cards_remaining [OF h(3) _ known, of ?pos c] key map_of_SomeD [OF m(4)] by auto
  note made = made_share_verifies [OF laws m(6)]
  have num: "position = JInt (int ?pos)" using made by (intro verified_number) blast
  have own: "decryptionShare G sk (mc_A (rl_deck rl ! ?pos)) = Inr (ds_S share)"
    using made by (simp add: decryptionShare_def usable_def point_multiply_ok [OF laws])
  have verifies: "share_verifies pr G rl i (ledger_phase rl) item"
    using made key num by (simp add: m(7) share_verifies_def)
  have opens: "open_cards pr G rl i (ledger_phase rl) (map snd (rl_revealed rl)) [item] = Inr [(item_pos item, c)]"
    using card(4,5) own verifies by (auto simp: opened_card_def m(7))
  have "0 \<le> numval position" using num by (cases position) (auto split: if_splits)
  then have owner: "check_ownership rl i [ps_pos item] = Inr ()" using card len by (simp add: m(7))
  show ?thesis
    using key m(1,4,5) num h(2) opens owner by (intro exI [of _ i] exI [of _ dealt] exI [of _ remaining] exI [of _ c]) (simp add: m(7))
qed

end
