(* ===== verification/Reveal_Honest.thy ===== *)
theory Reveal_Honest
  imports Reveal_Theorems
begin

text \<open>
  The ledger over an honestly masked deck. \<open>masked_deck\<close> is what the players' masking leaves: each
  card is the point of a card of the table under the aggregate key, in an order \<open>perm\<close> nobody need
  know. While every contribution is the true share of its sender, every owner reads the own
  cards of that order, and every action opens the card of that order.
\<close>

definition true_card :: "'p RoundRevealLedger \<Rightarrow> (nat \<Rightarrow> nat) \<Rightarrow> nat \<Rightarrow> ustr" where
  "true_card rl perm p = cpt_cardIds (rl_table rl) ! perm p"

definition masked_deck :: "'p ristretto \<Rightarrow> 'p RoundRevealLedger \<Rightarrow> nat list \<Rightarrow> (nat \<Rightarrow> nat) \<Rightarrow> bool" where
  "masked_deck G rl sks perm \<longleftrightarrow> rl_publicKeys rl = map (public_key G) sks \<and> (\<forall>sk \<in> set sks. usable G sk) \<and>
     inj_on perm {..<length (rl_deck rl)} \<and> (\<forall>p < length (rl_deck rl). perm p < length (rl_deck rl) \<and>
       (\<exists>r. rl_deck rl ! p = \<lparr>mc_A = times_point G r (nr_base G),
          mc_B = nr_add G (cpt_points (rl_table rl) ! perm p) (times_point G r (public_key G (sum_list sks)))\<rparr>))"

definition true_share :: "'p ristretto \<Rightarrow> 'p RoundRevealLedger \<Rightarrow> nat list \<Rightarrow> nat \<Rightarrow> nat \<Rightarrow> 'p" where
  "true_share G rl sks d p = times_point G (sks ! d) (mc_A (rl_deck rl ! p))"

definition true_shares :: "'p ristretto \<Rightarrow> 'p RoundRevealLedger \<Rightarrow> nat list \<Rightarrow> bool" where
  "true_shares G rl sks \<longleftrightarrow> (\<forall>p < length (rl_deck rl). \<forall>d S. map_of (rl_shares rl ! p) d = Some S \<longrightarrow> S = true_share G rl sks d p)"

definition true_reveals :: "'p RoundRevealLedger \<Rightarrow> (nat \<Rightarrow> nat) \<Rightarrow> bool" where
  "true_reveals rl perm \<longleftrightarrow> (\<forall>(p, c) \<in> set (rl_revealed rl). c = true_card rl perm p)"

section \<open>True cards\<close>

lemma opens_true_card:
  assumes laws: "ristretto_laws G" and tab: "table_ok pr G rl" and deck: "masked_deck G rl sks perm" and p: "p < length (rl_deck rl)"
  shows "identifyCard G (rl_table rl) (removeDecryptionShares G (rl_deck rl ! p) (map (\<lambda>d. true_share G rl sks d p) [0..<length sks])) =
    Some (true_card rl perm p)"
proof -
  let ?A = "mc_A (rl_deck rl ! p)"
  obtain spec where spec: "newCardPointTable pr G spec = Inr (rl_table rl)" using tab by (auto simp: table_ok_def)
  have ids: "cpt_cardIds (rl_table rl) = spec_cards spec"
    using spec table_entries [of pr G "spec_id spec" "[]" "[]" "[]" "spec_cards spec" "rl_table rl"] by (auto simp: newCardPointTable_def split: if_splits)
  obtain r where r: "rl_deck rl ! p = \<lparr>mc_A = times_point G r (nr_base G),
      mc_B = nr_add G (cpt_points (rl_table rl) ! perm p) (times_point G r (public_key G (sum_list sks)))\<rparr>" and perm: "perm p < length (rl_deck rl)"
    using deck p unfolding masked_deck_def by blast
  have i: "perm p < length (spec_cards spec)" using perm tab by (simp add: table_ok_def table_size_def ids)
  have "times_point G r (public_key G (sum_list sks)) = times_point G (sum_list sks) (times_point G r (nr_base G))"
    by (simp add: times_point_mult [OF laws, symmetric] mult.commute)
  then have B: "mc_B (rl_deck rl ! p) = nr_add G (cpt_points (rl_table rl) ! perm p) (times_point G (sum_list sks) ?A)" using r by simp
  have "map (\<lambda>d. true_share G rl sks d p) [0..<length sks] = map (\<lambda>sk. times_point G sk ?A) sks"
    unfolding true_share_def by (rule nth_equalityI) simp_all
  then have "removeDecryptionShares G (rl_deck rl ! p) (map (\<lambda>d. true_share G rl sks d p) [0..<length sks]) = cpt_points (rl_table rl) ! perm p"
    unfolding removeDecryptionShares_def B by (simp only: remove_shares [OF laws])
  then show ?thesis using table_identifies [OF spec i] ids by (simp add: true_card_def)
qed

lemma true_card_inject:
  assumes tab: "table_ok pr G rl" and deck: "masked_deck G rl sks perm" and "p < length (rl_deck rl)" "q < length (rl_deck rl)"
    "true_card rl perm p = true_card rl perm q"
  shows "p = q"
proof -
  obtain spec where "newCardPointTable pr G spec = Inr (rl_table rl)" using tab by (auto simp: table_ok_def)
  note distinct = table_card_ids(2) [OF this]
  have "perm p < length (cpt_cardIds (rl_table rl))" "perm q < length (cpt_cardIds (rl_table rl))"
    using deck tab assms(3,4) by (auto simp: masked_deck_def table_ok_def table_size_def)
  then have "perm p = perm q" using assms(5) nth_eq_iff_index_eq [OF distinct] by (simp add: true_card_def)
  then show ?thesis using deck assms(3,4) by (auto simp: masked_deck_def dest: inj_onD)
qed

lemma shares_for_true:
  assumes shares: "true_shares G rl sks" and p: "p < length (rl_deck rl)" and n: "length (rl_roster rl) = length sks"
    and s: "shares_for rl p seat (Inr (true_share G rl sks seat p)) = Inr xs"
  shows "xs = map (\<lambda>d. true_share G rl sks d p) [0..<length sks]"
proof -
  have len: "length xs = length sks" using mapM_res_length [OF s [unfolded shares_for_def]] n by simp
  have recorded: "S = true_share G rl sks d p" if "map_of (rl_shares rl ! p) d = Some S" for d S
    using shares p that by (simp add: true_shares_def)
  have "xs ! d = true_share G rl sks d p" if "d < length sks" for d
  proof -
    have "(if d = seat then Inr (true_share G rl sks seat p)
        else case map_of (rl_shares rl ! p) d of None \<Rightarrow> revealError Deal_incomplete | Some share \<Rightarrow> Inr share) = Inr (xs ! d)"
      using list_all2_nthD [OF s [unfolded shares_for_def mapM_res_Inr_iff], of d] that n by (cases "d = seat") simp_all
    then show ?thesis using recorded by (simp split: if_splits option.splits)
  qed
  then show ?thesis using len by (intro nth_equalityI) simp_all
qed

lemma open_cards_true:
  assumes laws: "ristretto_laws G" and tab: "table_ok pr G rl" and deck: "masked_deck G rl sks perm" and shares: "true_shares G rl sks"
    and n: "length (rl_roster rl) = length sks"
  shows "open_cards pr G rl seat phase seen items = Inr cards \<Longrightarrow>
    \<forall>item \<in> set items. item_pos item < length (rl_deck rl) \<and> ds_S item = true_share G rl sks seat (item_pos item) \<Longrightarrow>
    cards = map (\<lambda>item. (item_pos item, true_card rl perm (item_pos item))) items"
proof (induction items arbitrary: seen cards)
  case (Cons item items)
  then obtain c rest xs where r: "shares_for rl (item_pos item) seat (Inr (ds_S item)) = Inr xs"
      "identifyCard G (rl_table rl) (removeDecryptionShares G (rl_deck rl ! item_pos item) xs) = Some c"
      "open_cards pr G rl seat phase (c # seen) items = Inr rest" "cards = (item_pos item, c) # rest"
    by (auto simp: result_simps split: if_splits option.splits)
  have item: "item_pos item < length (rl_deck rl)" "ds_S item = true_share G rl sks seat (item_pos item)" using Cons.prems(2) by simp_all
  have "c = true_card rl perm (item_pos item)"
    using r(1,2) opens_true_card [OF laws tab deck item(1)] shares_for_true [OF shares item(1) n] item(2) by auto
  then show ?case using Cons.IH [OF r(3)] Cons.prems(2) r(4) by simp
qed simp

section \<open>Reading the private hand\<close>

lemma private_cards_true:
  assumes laws: "ristretto_laws G" and inv: "ledger_inv pr G rl" and deck: "masked_deck G rl sks perm" and shares: "true_shares G rl sks"
    and reveals: "true_reveals rl perm" and phase: "current_deal rl = None" and i: "i < length (rl_roster rl)"
  shows "set positions \<subseteq> {..<length (rl_deck rl)} \<Longrightarrow> \<forall>p < length (rl_deck rl). \<forall>q. map_of M (true_card rl perm p) = Some q \<longrightarrow> q = p \<Longrightarrow>
    private_cards G rl i (sks ! i) M dealt remaining positions = Inr
      (dealt @ map (\<lambda>p. (p, true_card rl perm p)) (filter (\<lambda>p. rl_owners rl ! p = Some i) positions),
       remaining @ map (\<lambda>p. (p, true_card rl perm p)) (filter (\<lambda>p. rl_owners rl ! p = Some i \<and> map_of (rl_revealed rl) p = None) positions))"
proof (induction positions arbitrary: M dealt remaining)
  case (Cons p positions)
  have n: "length (rl_roster rl) = length sks"
    using inv deck by (metis (no_types) ledger_inv_def ledger_shape_def length_map masked_deck_def)
  have tab: "table_ok pr G rl" using inv by (simp add: ledger_inv_def)
  have p: "p < length (rl_deck rl)" using Cons.prems(1) by simp
  show ?case
  proof (cases "rl_owners rl ! p = Some i")
    case False
    then show ?thesis using Cons by simp
  next
    case True
    have "usable G (sks ! i)" using deck i n by (simp add: masked_deck_def)
    then have own: "decryptionShare G (sks ! i) (mc_A (rl_deck rl ! p)) = Inr (true_share G rl sks i p)"
      by (simp add: decryptionShare_def true_share_def usable_def point_multiply_ok [OF laws])
    have "map_of (rl_shares rl ! p) d = Some (true_share G rl sks d p)" if "d < length sks" "d \<noteq> i" for d
      using dealt_shares [OF inv phase p True] that n shares p by (auto simp: true_shares_def)
    then have all: "shares_for rl p i (Inr (true_share G rl sks i p)) = Inr (map (\<lambda>d. true_share G rl sks d p) [0..<length sks])"
      unfolding shares_for_def n by (intro mapM_res_all_Inr) auto
    note card = opens_true_card [OF laws tab deck p]
    have known: "map_of (rl_revealed rl) p = None \<or> map_of (rl_revealed rl) p = Some (true_card rl perm p)"
      using reveals by (cases "map_of (rl_revealed rl) p") (auto simp: true_reveals_def dest!: map_of_SomeD)
    have M: "\<forall>q < length (rl_deck rl). \<forall>x. map_of (AList.update (true_card rl perm p) p M) (true_card rl perm q) = Some x \<longrightarrow> x = q"
      using Cons.prems(2) true_card_inject [OF tab deck p] by (auto simp: update_conv')
    have now: "map_of M (true_card rl perm p) = None \<or> map_of M (true_card rl perm p) = Some p"
      using Cons.prems(2) p by (cases "map_of M (true_card rl perm p)") auto
    have rest: "private_cards G rl i (sks ! i) (AList.update (true_card rl perm p) p M) dealt' remaining' positions = Inr
      (dealt' @ map (\<lambda>p. (p, true_card rl perm p)) (filter (\<lambda>p. rl_owners rl ! p = Some i) positions),
       remaining' @ map (\<lambda>p. (p, true_card rl perm p)) (filter (\<lambda>p. rl_owners rl ! p = Some i \<and> map_of (rl_revealed rl) p = None) positions))"
      for dealt' remaining' using Cons.IH [OF _ M] Cons.prems(1) by simp
    show ?thesis using True known now by (auto simp: Let_def own all card rest)
  qed
qed simp

text \<open>
  C22: the owner reads the true cards. With an honestly masked deck whose recorded shares and
  revealed cards are true, once all deals are complete every player reads with the own secret key exactly the
  cards of the masked order at the positions that were dealt to that seat, and what remains are those that
  no action has revealed; in particular no share is missing and nothing looks inconsistent.
\<close>

theorem private_hand_true:
  assumes laws: "ristretto_laws G" and hash: "hash_length pr" and reach: "reachable (ledger_start pr G) (ledger_next pr G) rl"
    and deck: "masked_deck G rl sks perm" and shares: "true_shares G rl sks" and reveals: "true_reveals rl perm"
    and phase: "current_deal rl = None" and i: "i < length (rl_roster rl)"
  shows "readPrivateHand G rl (JInt (int i)) (sks ! i) = Inr (Some
    (map (\<lambda>p. (p, true_card rl perm p)) (filter (\<lambda>p. rl_owners rl ! p = Some i) [0..<length (rl_deck rl)]),
     map (\<lambda>p. (p, true_card rl perm p)) (filter (\<lambda>p. rl_owners rl ! p = Some i \<and> p \<notin> fst ` set (rl_revealed rl)) [0..<length (rl_deck rl)])))"
proof -
  have inv: "ledger_inv pr G rl" using ledger_machine.reachable_good [OF reach] laws hash by simp
  have n: "length (rl_roster rl) = length sks" "length (rl_roster rl) \<le> 8"
    using inv deck by (auto simp: ledger_inv_def ledger_shape_def masked_deck_def)
  have tab: "table_ok pr G rl" and rev: "revealed_ok rl" using inv by (simp_all add: ledger_inv_def)
  have sk: "usable G (sks ! i)" "rl_publicKeys rl ! i = public_key G (sks ! i)" using deck i n(1) by (simp_all add: masked_deck_def)
  have key: "requireLocalKey G rl (JInt (int i)) (sks ! i) = Inr i"
    using sk i n(2) by (simp add: requireLocalKey_def unsigned_safe_def MAX_SAFE_INTEGER_def point_multiply_ok [OF laws] usable_def ristrettoD(8) [OF laws])
  let ?M = "fold (\<lambda>(pos, c) m. AList.update c pos m) (rl_revealed rl) []"
  have "q = p" if p: "p < length (rl_deck rl)" and m: "map_of ?M (true_card rl perm p) = Some q" for p q
  proof -
    have d: "distinct (map snd (rl_revealed rl))" using rev by (simp add: revealed_ok_def)
    from m have "true_card rl perm p \<in> snd ` set (rl_revealed rl)" using known_cards [OF d, of "[]"] by (auto split: if_splits)
    then obtain p' where p': "(p', true_card rl perm p) \<in> set (rl_revealed rl)" by force
    then have "true_card rl perm p = true_card rl perm p'" "p' < length (rl_deck rl)" "map_of ?M (true_card rl perm p) = Some p'"
      using reveals rev known_card [OF d p'] by (auto simp: true_reveals_def revealed_ok_def)
    then show ?thesis using true_card_inject [OF tab deck p] m by auto
  qed
  then have "private_cards G rl i (sks ! i) ?M [] [] [0..<length (rl_deck rl)] = Inr
    (map (\<lambda>p. (p, true_card rl perm p)) (filter (\<lambda>p. rl_owners rl ! p = Some i) [0..<length (rl_deck rl)]),
     map (\<lambda>p. (p, true_card rl perm p)) (filter (\<lambda>p. rl_owners rl ! p = Some i \<and> map_of (rl_revealed rl) p = None) [0..<length (rl_deck rl)]))"
    using private_cards_true [OF laws inv deck shares reveals phase i, of "[0..<length (rl_deck rl)]" ?M "[]" "[]"]
    by (simp add: atLeast0LessThan)
  then show ?thesis using key phase by (simp add: readPrivateHand_def current_deal_None map_of_eq_None_iff)
qed

section \<open>Honest play stays true\<close>

fun contribution :: "'p RoundRevealTransition \<Rightarrow> nat \<times> 'p PositionShare list" where
  "contribution (SharesTransition _ _ seat body) = (seat, sb_items body)"
| "contribution (ActionTransition _ _ seat body _) = (seat, ab_shares body)"

lemma accepted_contribution:
  assumes laws: "ristretto_laws G" and inv: "ledger_inv pr G rl"
    and p: "ledger_process pr G rl b expected True = (rl', Inr t)" and "transition_status t = TransitionAccepted"
  obtains (shares) received seat body h where "t = SharesTransition TransitionAccepted received seat body"
      "rl' = commit_shares rl seat h (sb_items body)" "distinct (map item_pos (sb_items body))"
      "\<forall>item \<in> set (sb_items body). item_pos item < length (rl_deck rl)"
  | (action) received seat body h cards phase where "t = ActionTransition TransitionAccepted received seat body cards"
      "rl' = commit_action rl h cards" "ledger_inv pr G rl'" "rl_revealed rl' = rl_revealed rl @ cards"
      "\<forall>item \<in> set (ab_shares body). item_pos item < length (rl_deck rl)"
      "open_cards pr G rl seat phase (map snd (rl_revealed rl)) (ab_shares body) = Inr cards"
proof -
  have shape: "ledger_shape rl" using inv by (simp add: ledger_inv_def)
  have state: "\<not> unchanged rl (ledger_process pr G rl b expected True)" using assms(3,4) by (simp add: unchanged_def)
  then obtain received seat where r:
      "ledger_process pr G rl b expected True = process_shares pr G rl received seat True \<or>
       ledger_process pr G rl b expected True = process_action pr G rl received seat expected True"
    using ledger_process_cases by blast
  from r show thesis
  proof
    assume q: "ledger_process pr G rl b expected True = process_shares pr G rl received seat True"
    with state process_shares_cases [of rl pr G received seat True] obtain body where
      b: "decodeSharesBody G (env_body (art_envelope received)) = Inr body"
      "check_shares pr G rl seat (env_phase (art_envelope received)) body = Inr ()"
      "process_shares pr G rl received seat True = (commit_shares rl seat (bytesToHex (art_hash received)) (sb_items body),
         Inr (SharesTransition TransitionAccepted received seat body))" by auto
    obtain step where "current_deal rl = Some step" "rl_batchDeal rl \<or> seat \<noteq> sd_to step"
        "item_pos ` set (sb_items body) = set (deal_positions rl seat step)" "distinct (map item_pos (sb_items body))"
      using checked_shares [OF b(2) shape decodeSharesBody_ok [OF laws b(1)]] by metis
    moreover then have "\<forall>item \<in> set (sb_items body). item_pos item < length (rl_deck rl)"
      using deal_positions_ok(2) [OF shape] by blast
    ultimately show thesis using shares [of received seat body] b(3) q p by simp
  next
    assume q: "ledger_process pr G rl b expected True = process_action pr G rl received seat expected True"
    with state process_action_cases [of rl pr G received seat expected True] obtain d cards where d:
      "decodeActionEnvelope pr G (art_canonicalBytes received) (ledger_scope rl expected) = Inr d"
      "check_ownership rl seat (ab_reveal (dae_action d)) = Inr ()"
      "open_cards pr G rl seat (env_phase (art_envelope received)) (map snd (rl_revealed rl)) (ab_shares (dae_action d)) = Inr cards"
      "current_deal rl = None" "rl_actionIndex rl < rl_maxActions rl"
      "process_action pr G rl received seat expected True = (commit_action rl (bytesToHex (art_hash received)) cards,
         Inr (ActionTransition TransitionAccepted received seat (dae_action d) cards))"
      by auto
    note body = action_envelope_sound_body [OF laws d(1)]
    have "ab_reveal (dae_action d) = map ps_pos (ab_shares (dae_action d))" using body by (simp add: action_body_ok_def)
    moreover have "length (rl_owners rl) = length (rl_deck rl)" using shape by (simp add: ledger_shape_def schedule_ok_def)
    ultimately have "\<forall>item \<in> set (ab_shares (dae_action d)). item_pos item < length (rl_deck rl)"
      using d(2) by (auto simp: check_ownership_Inr item_pos_def)
    then show thesis using action [of received seat "dae_action d" cards] commit_action_inv [OF inv body d(2,3,4,5)] d(3,6) q p by simp
  qed
qed

text \<open>
  C23: honest contributions keep the ledger true, and an action opens the true cards. Over an honestly masked
  deck whose records are true, when the ledger accepts a contribution whose shares are its sender's true
  shares, its records stay true, and the cards an action reveals are the cards of the masked order at the
  positions it names.
\<close>

theorem honest_contributions:
  assumes laws: "ristretto_laws G" and hash: "hash_length pr" and reach: "reachable (ledger_start pr G) (ledger_next pr G) rl"
    and deck: "masked_deck G rl sks perm" and shares: "true_shares G rl sks" and reveals: "true_reveals rl perm"
    and commit: "ledger_commit pr G rl candidate expected = (rl', Inr t)" "transition_status t = TransitionAccepted"
    and honest: "contribution t = (seat, items)" "\<forall>item \<in> set items. ds_S item = true_share G rl sks seat (item_pos item)"
  shows "masked_deck G rl' sks perm \<and> true_shares G rl' sks \<and> true_reveals rl' perm \<and>
    (\<forall>st received seat body cards. t = ActionTransition st received seat body cards \<longrightarrow>
       cards = map (\<lambda>item. (item_pos item, true_card rl perm (item_pos item))) items)"
proof -
  have inv: "ledger_inv pr G rl" using ledger_machine.reachable_good [OF reach] laws hash by simp
  then have shape: "ledger_shape rl" and tab: "table_ok pr G rl" by (simp_all add: ledger_inv_def)
  have n: "length (rl_roster rl) = length sks" using inv deck by (auto simp: ledger_inv_def ledger_shape_def masked_deck_def)
  show ?thesis
  proof -
    from commit(1) have "ledger_process pr G rl (art_canonicalBytes candidate) expected True = (rl', Inr t)" by (simp add: ledger_commit_def)
    from accepted_contribution [OF laws inv this commit(2)] show ?thesis
    proof cases
      case (1 received d body h)
      note accepted = 1
      have items: "seat = d" "items = sb_items body" using accepted(1) honest(1) by simp_all
      have len: "length (rl_shares rl) = length (rl_deck rl)" using shape by (simp add: ledger_shape_def)
      have "S = true_share G rl sks e p" if p: "p < length (rl_deck rl)" and S: "map_of (record_shares d (sb_items body) (rl_shares rl) ! p) e = Some S" for p e S
      proof (cases "e = d \<and> p \<in> item_pos ` set (sb_items body)")
        case True
        with S record_shares_lookup [OF p [folded len] accepted(3), of d e]
        have "map_option ds_S (find (\<lambda>i. item_pos i = p) (sb_items body)) = Some S" by simp
        then obtain item where "find (\<lambda>i. item_pos i = p) (sb_items body) = Some item" "S = ds_S item" by blast
        then show ?thesis using honest(2) items True by (auto simp: find_Some_iff)
      next
        case False
        then have "map_of (rl_shares rl ! p) e = Some S"
          using S record_shares_lookup [OF p [folded len] accepted(3), of d e] by (auto split: if_splits)
        then show ?thesis using \<open>true_shares G rl sks\<close> p by (simp add: true_shares_def)
      qed
      then have "true_shares G rl' sks" by (simp add: accepted(2) true_shares_def true_share_def)
      then show ?thesis using deck reveals accepted(1,2) by (simp add: masked_deck_def true_reveals_def true_card_def)
    next
      case (2 received d body h cards phase)
      note accepted = 2
      have items: "seat = d" "items = ab_shares body" using accepted(1) honest(1) by simp_all
      have cards: "cards = map (\<lambda>item. (item_pos item, true_card rl perm (item_pos item))) items"
        using open_cards_true [OF laws tab deck shares n accepted(6)] accepted(5) honest(2) items by simp
      then have "true_reveals rl' perm" using reveals accepted(2,4) by (auto simp: true_reveals_def true_card_def)
      then show ?thesis using cards deck shares accepted(1,2) by (simp add: masked_deck_def true_shares_def true_share_def)
    qed
  qed
qed

end
