(* ===== verification/Example_Envelopes.thy ===== *)
theory Example_Envelopes
  imports Protocol_Envelope_Props
begin

text \<open>
  Concrete primitives for examples: a table codec over any list of distinct well-formed values, keys
  that are one repeated byte, a constant signature, and a wide hash that is the length of its input
  for the points of cards and zero for challenges. They satisfy the laws of the libraries and
  let any envelope whose values are in the table be signed and verified by evaluation.
\<close>

definition toy_prims :: "jsval list \<Rightarrow> prims" where
  "toy_prims vs = \<lparr>cbor2_encode = table_encode vs, cbor2_decode = table_decode vs,
     noble_sha256 = (\<lambda>b. replicate 32 (word_of_nat (length b))), noble_sha512 = (\<lambda>b. replicate 64 (if purpose_of b = CardD then word_of_nat (length b) else 0)),
     noble_getPublicKey = (\<lambda>sk. replicate 32 (hd sk)), noble_sign = (\<lambda>m sk. replicate 64 5),
     noble_verify = (\<lambda>sig m pk. Some (sig = replicate 64 5)), noble_point = (\<lambda>p. Some (True, False))\<rparr>"

lemma toy_sha512:
  "sha512 (toy_prims vs) [domainSeparator p @ x] = replicate 64 (if p = CardD then word_of_nat (length (domainSeparator p @ x)) else 0)"
  by (simp add: sha512_def concatBytes_def toy_prims_def purpose_of_separator)

fun toy_ok :: "jsval list \<Rightarrow> bool" where
  "toy_ok [] = True"
| "toy_ok (v # vs) = (assertCborValue v = Inr () \<and> normalizeDecodedValue (raw v) = Inr v \<and> same_value v v \<and>
     list_all (\<lambda>w. \<not> same_value v w) vs \<and> toy_ok vs)"

lemma toy_ok_nth:
  "toy_ok vs \<Longrightarrow> i < length vs \<Longrightarrow> assertCborValue (vs ! i) = Inr () \<and> normalizeDecodedValue (raw (vs ! i)) = Inr (vs ! i) \<and>
     same_value (vs ! i) (vs ! i) \<and> (\<forall>j < i. \<not> same_value (vs ! j) (vs ! i))"
proof (induction vs arbitrary: i)
  case (Cons v vs)
  show ?case
  proof (cases i)
    case 0
    then show ?thesis using Cons.prems by simp
  next
    case (Suc k)
    then show ?thesis using Cons.prems Cons.IH [of k] by (auto simp: list_all_length less_Suc_eq_0_disj nth_Cons')
  qed
qed simp

lemma toy_laws: "toy_ok vs \<Longrightarrow> codec_laws (toy_prims vs)"
  by (rule table_codec_laws [of vs]) (auto simp: toy_prims_def in_set_conv_nth dest: toy_ok_nth)

lemma toy_encode:
  assumes "toy_ok vs" "i < length vs"
  shows "encodeCanonical (toy_prims vs) (vs ! i) = Inr (replicate (Suc i) 0)"
proof -
  have "find (\<lambda>j. same_value (vs ! j) (vs ! i)) [0..<length vs] = Some i"
    using toy_ok_nth [OF assms] assms(2) by (auto simp: find_Some_iff intro!: exI [of _ i])
  then show ?thesis using toy_ok_nth [OF assms] by (simp add: encodeCanonical_def toy_prims_def table_encode_def)
qed

lemma toy_decode:
  assumes "toy_ok vs" "i < length vs"
  shows "decodeCanonical (toy_prims vs) (replicate (Suc i) 0) = Inr (vs ! i)"
  using toy_encode [OF assms] toy_ok_nth [OF assms] assms(2)
  by (auto simp: decodeCanonical_Inr toy_prims_def table_decode_def simp del: replicate_Suc)

definition toy_envelope :: "byte \<Rightarrow> nat \<Rightarrow> ustr \<Rightarrow> EnvelopeMessageType \<Rightarrow> CborValue \<Rightarrow> UnsignedEnvelope" where
  "toy_envelope b round phase type body = \<lparr>env_v = 1, env_game = replicate 16 7, env_from = replicate 32 b, env_seq = 0,
     env_prev = replicate 32 0, env_round = round, env_phase = phase, env_type = type, env_body = body\<rparr>"

definition toy_signed :: "UnsignedEnvelope \<Rightarrow> SignedEnvelope" where
  "toy_signed e = withSignature e (replicate 64 5)"

definition toy_artifact :: "UnsignedEnvelope \<Rightarrow> nat \<Rightarrow> EnvelopeArtifact" where
  "toy_artifact e k = \<lparr>art_envelope = toy_signed e, art_canonicalBytes = replicate (Suc k) 0, art_hash = replicate 32 (word_of_nat (Suc k))\<rparr>"

lemma toy_verified:
  assumes ok: "toy_ok vs" and e: "e = toy_envelope b round phase type body" "safe_nat round" "phase \<noteq> []"
    and i: "i < length vs" "vs ! i = body" and j: "j < length vs" "vs ! j = toUnsignedValue e" and k: "k < length vs" "vs ! k = toSignedValue (toy_signed e)"
  shows "decodeAndVerifyEnvelope (toy_prims vs) (replicate (Suc k) 0) = Inr (toy_artifact e k)"
proof -
  let ?pr = "toy_prims vs"
  have snap: "snapshotCborValue ?pr body = Inr body"
    using toy_encode [OF ok i(1)] toy_decode [OF ok i(1)] i(2) by (simp add: snapshotCborValue_def)
  have parse: "parseUnsignedEnvelope ?pr (toUnsignedValue e) = Inr e"
    unfolding toUnsignedValue_def parseUnsignedEnvelope_Inr using snap e(2,3)
    by (simp add: unsigned_fields_def e(1) toy_envelope_def has_exactly_def UNSIGNED_KEYS_def envelope_ok_def safe_nat_def
        MAX_SAFE_INTEGER_def reads_nat_def get_prop_def ENVELOPE_VERSION_def)
  have ub: "encodeCanonical ?pr (toUnsignedValue e) = Inr (replicate (Suc j) 0)" using toy_encode [OF ok j(1)] j(2) by simp
  have art: "createArtifact ?pr (toy_signed e) = Inr (toy_artifact e k)"
    using toy_encode [OF ok k(1)] k(2) by (simp add: createArtifact_Inr sha256_def toy_prims_def toy_artifact_def)
  have sign: "signEnvelope ?pr e (replicate 32 b) = Inr (toy_artifact e k)"
    unfolding signEnvelope_def parse rbind_Inr ub
    using art by (simp add: deriveEd25519PublicKey_def signEd25519_def assertLength_def ED25519_SECRET_KEY_LENGTH_def field_defs toy_signed_def)
      (simp add: toy_prims_def e(1) toy_envelope_def parseFixedBytes_def)
  have key: "keypair_ok ?pr (replicate 32 b)" by (simp add: keypair_ok_def toy_prims_def)
  show ?thesis using signed_verifies [OF toy_laws [OF ok] key sign] by (simp add: toy_artifact_def)
qed

lemma wellFormed_ascii [simp]: "wellFormedString (ascii s)"
proof (induction s)
  case (Cons c s)
  have small: "(of_char c :: nat) < 256" using nat_of_char_less_256 [of c] by simp
  then have "(of_char c :: nat) < 65536" by linarith
  then have "unat (word_of_nat (of_char c) :: 16 word) = of_char c"
    by (simp add: unat_of_nat take_bit_eq_mod del: of_nat_of_char)
  with small have "unat (word_of_nat (of_char c) :: 16 word) < 256" by simp
  then have "(word_of_nat (of_char c) :: 16 word) < 0x100" by (simp add: word_less_nat_alt)
  then have "\<not> 0xd800 \<le> (word_of_nat (of_char c) :: 16 word)" "\<not> 0xdc00 \<le> (word_of_nat (of_char c) :: 16 word)" 
    by (auto simp: word_less_nat_alt word_le_nat_alt)
  with Cons show ?case by (simp add: ascii_def)
qed (simp add: ascii_def)

lemmas toy_eval = assertCborValue_def validateValue.simps normalizeDecodedValue_def normalizeValue.simps assertDepth_def
  supportedNumber_def assertWellFormedString_def MAX_SAFE_INTEGER_def MAX_CBOR_NESTING_DEPTH_def

end
