(* ===== verification/Engine_Envelope_Example.thy ===== *)
theory Engine_Envelope_Example
  imports Engine_Envelope_Props Example_Envelopes
begin

text \<open>
  A key share and an action over envelopes of three seats: the hypotheses of the theorems about
  wire bodies, action envelopes and setup envelopes hold of concrete runs.
\<close>

definition key_body :: jsval where
  "key_body = JObject [(ascii ''H_i'', JBytes (replicate 32 1)),
     (ascii ''pop'', JObject [(ascii ''R'', JBytes (replicate 32 1)), (ascii ''z'', JBytes (replicate 32 1))])]"

definition key_envelope :: UnsignedEnvelope where
  "key_envelope = toy_envelope 9 0 (ascii ''setup.keys'') KEY_SHARE key_body"

definition pass_share :: "1 word PositionShare" where
  "pass_share = \<lparr>ds_S = 1, ds_proof = \<lparr>cp_R1 = 1, cp_R2 = 1, cp_z = 1\<rparr>, ps_pos = JInt 0\<rparr>"

definition pass_action :: "1 word ActionBody" where
  "pass_action = \<lparr>ab_kind = ascii ''pass'', ab_data = jnat 0, ab_reveal = [JInt 0], ab_shares = [pass_share]\<rparr>"

definition action_envelope :: UnsignedEnvelope where
  "action_envelope = toy_envelope 9 0 (play_phase 0 0) ACTION (encoded_action pair_group pass_action)"

definition wire_values :: "jsval list" where
  "wire_values = [jnat 0, JString (ascii ''setup.keys''),
     JObject [(ascii ''H'', JBytes (replicate 32 1)), (ascii ''R'', JBytes (replicate 32 1))],
     key_body, toUnsignedValue key_envelope, toSignedValue (toy_signed key_envelope),
     encoded_action pair_group pass_action, toUnsignedValue action_envelope, toSignedValue (toy_signed action_envelope)]"

lemma texts: "typeText KEY_SHARE = ''KEY_SHARE''" "typeText ACTION = ''ACTION''" "natText 0 = ''0''"
  by (simp_all add: typeText_def ENVELOPE_MESSAGE_TYPES_def, code_simp)

lemmas wire_defs = wire_values_def key_body_def key_envelope_def toy_envelope_def toy_signed_def withSignature_def
  UnsignedEnvelope.defs SignedEnvelope.defs toUnsignedValue_def toSignedValue_def unsigned_fields_def texts
  action_envelope_def pass_action_def pass_share_def encoded_action_def encoded_share_def play_phase_def

lemma group_bytes: "nr_toBytes pair_group 1 = replicate 32 1" "fn_toBytes pair_group 1 = replicate 32 1" "nr_order pair_group = 2"
  by (simp_all add: pair_group_def)

lemma wire_values_ok: "toy_ok wire_values"
  by (simp add: wire_defs group_bytes toy_eval)

lemma wire_verified:
  "decodeAndVerifyEnvelope (toy_prims wire_values) (replicate 6 0) = Inr (toy_artifact key_envelope 5)"
  "decodeAndVerifyEnvelope (toy_prims wire_values) (replicate 9 0) = Inr (toy_artifact action_envelope 8)"
  using toy_verified [OF wire_values_ok key_envelope_def, of 3 4 5] toy_verified [OF wire_values_ok action_envelope_def, of 6 7 8]
  by (simp_all add: wire_values_def safe_nat_def MAX_SAFE_INTEGER_def play_phase_def numeral_eq_Suc)

theorem wire_bodies_roundtrip_example:
  "decodeGameKeyShareBody pair_group key_body = Inr seat_share \<and>
   decodeSharesBody pair_group (JObject [(ascii ''to'', jnat 2), (ascii ''items'', JArray [encoded_share pair_group pass_share])]) =
     Inr \<lparr>sb_to = JInt 2, sb_items = [pass_share]\<rparr>"
proof -
  have "encodeGameKeyShareBody pair_group seat_share = Inr key_body"
    by (simp add: encodeGameKeyShareBody_def encodeSchnorrProof_def encodeRistrettoScalar_def assertScalar_def scalarFromBigInt_def seat_share_def
        key_body_def, simp add: pair_group_def)
  moreover have "encodeSharesBody pair_group \<lparr>sb_to = JInt 2, sb_items = [pass_share]\<rparr> =
      Inr (JObject [(ascii ''to'', jnat 2), (ascii ''items'', JArray [encoded_share pair_group pass_share])])"
    by (simp add: encodeSharesBody_Inr shares_ok_def position_share_ok_def pass_share_def) (simp add: pair_group_def)
  ultimately show ?thesis
    using wire_bodies_roundtrip [OF pair_laws, of seat_share key_body _ "\<lparr>sb_to = JInt 2, sb_items = [pass_share]\<rparr>"]
      wire_bodies_roundtrip [OF pair_laws, of seat_share "JObject [(ascii ''to'', jnat 2), (ascii ''items'', JArray [encoded_share pair_group pass_share])]" _
        "\<lparr>sb_to = JInt 2, sb_items = [pass_share]\<rparr>"]
    by blast
qed

lemma pass_action_ok: "action_body_ok pair_group pass_action"
  by (simp add: action_body_ok_def pass_action_def pass_share_def position_share_ok_def MAX_ACTION_KIND_BYTES_def MAX_ACTION_REVEALS_def
      kind_pattern_def ascii_def lowercase_def group_bytes)

lemma pass_action_decodes: "decodeActionBody (toy_prims wire_values) pair_group (encoded_action pair_group pass_action) = Inr pass_action"
proof -
  have "decode_data (toy_prims wire_values) (jnat 0) = Inr (jnat 0)"
    using toy_encode [OF wire_values_ok, of 0] toy_decode [OF wire_values_ok, of 0]
    by (simp add: decode_data_def MAX_ACTION_DATA_BYTES_def) (simp add: wire_values_def)
  then show ?thesis using decode_encoded_action [OF pair_laws pass_action_ok] by (simp add: pass_action_def)
qed

theorem action_body_roundtrip_example:
  "action_body_ok pair_group pass_action \<and>
   encodeActionBody (toy_prims wire_values) pair_group pass_action = Inr (encoded_action pair_group pass_action) \<and>
   decodeActionBody (toy_prims wire_values) pair_group (encoded_action pair_group pass_action) = Inr pass_action"
  by (rule action_body_roundtrip [OF pair_laws pass_action_decodes])

definition three_roster :: "jsval list" where
  "three_roster = map JBytes [replicate 32 9, replicate 32 8, replicate 32 7]"

lemma toy_import: "length b = 32 \<Longrightarrow> importEd25519PublicKey (toy_prims vs) b = Inr b"
  by (simp add: importEd25519PublicKey_def assertLength_def ED25519_PUBLIC_KEY_LENGTH_def isAcceptablePublicKey_def toy_prims_def)

definition action_scope :: ActionEnvelopeScope where
  "action_scope = \<lparr>aes_gameId = JBytes (replicate 16 7), aes_round = JInt 0, aes_actionIndex = JInt 0, aes_roster = three_roster,
     aes_expectedSeats = [JInt 1, JInt 0]\<rparr>"

lemma action_decoded:
  "decodeActionEnvelope (toy_prims wire_values) pair_group (replicate 9 0) action_scope =
     Inr \<lparr>dae_received = toy_artifact action_envelope 8, dae_seat = 0, dae_action = pass_action\<rparr>"
proof -
  have seats: "action_seats (toy_prims wire_values) [] three_roster =
      Inr [(bytesToHex (replicate 32 9), 0), (bytesToHex (replicate 32 8), 1), (bytesToHex (replicate 32 7), 2)]"
    by (simp add: three_roster_def parseIdentityPublicKey_def parseFixedBytes_def toy_import Let_def replicate_eq_replicate)
  have env: "env_game (art_envelope (toy_artifact action_envelope 8)) = replicate 16 7" "env_from (art_envelope (toy_artifact action_envelope 8)) = replicate 32 9"
    "env_round (art_envelope (toy_artifact action_envelope 8)) = 0" "env_type (art_envelope (toy_artifact action_envelope 8)) = ACTION"
    "env_phase (art_envelope (toy_artifact action_envelope 8)) = play_phase 0 0"
    "env_body (art_envelope (toy_artifact action_envelope 8)) = encoded_action pair_group pass_action"
    by (simp_all add: toy_artifact_def toy_signed_def withSignature_def UnsignedEnvelope.defs SignedEnvelope.defs action_envelope_def toy_envelope_def)
  show ?thesis
    by (simp add: decodeActionEnvelope_def action_scope_def MAX_ACTION_ENVELOPE_BYTES_def parseGameId_def parseFixedBytes_def unsigned_safe_def
        MAX_SAFE_INTEGER_def seats wire_verified env Let_def pass_action_decodes) (simp add: three_roster_def)
qed

theorem action_envelope_sound_witness:
  "dae_seat \<lparr>dae_received = toy_artifact action_envelope 8, dae_seat = 0, dae_action = pass_action\<rparr> < length (aes_roster action_scope) \<and>
   JInt 0 \<in> set (aes_expectedSeats action_scope) \<and> action_body_ok pair_group pass_action"
  using action_envelope_sound [OF pair_laws action_decoded] by simp

definition three_coordinator :: "1 word SetupEnvelopeCoordinator" where
  "three_coordinator = \<lparr>sec_gameId = replicate 16 7, sec_round = JInt 0, sec_roster = [replicate 32 9, replicate 32 8, replicate 32 7],
     sec_seats = [(bytesToHex (replicate 32 9), 0), (bytesToHex (replicate 32 8), 1), (bytesToHex (replicate 32 7), 2)],
     sec_setup = keyed_setup [None, None, None] SetupKeys None, sec_beaconRequired = False\<rparr>"

lemma three_coordinator_new:
  "newSetupEnvelopeCoordinator (toy_prims vs) (JBytes (replicate 16 7)) (JInt 0) three_roster False = Inr three_coordinator"
proof -
  have seats: "setup_seats (toy_prims vs) [] [] three_roster = Inr ([replicate 32 9, replicate 32 8, replicate 32 7],
      [(bytesToHex (replicate 32 9), 0), (bytesToHex (replicate 32 8), 1), (bytesToHex (replicate 32 7), 2)])"
    by (simp add: three_roster_def parseIdentityPublicKey_def parseFixedBytes_def toy_import Let_def replicate_eq_replicate)
  have "newSetupCoordinator (JBytes (replicate 16 7)) (JInt 0) (JInt 3) False = Inr (keyed_setup [None, None, None] SetupKeys None)"
    by (simp add: newSetupCoordinator_def checked_table_def parseGameId_def parseFixedBytes_def MAX_SAFE_INTEGER_def keyed_setup_def numeral_3_eq_3)
  then show ?thesis using seats
    by (simp add: newSetupEnvelopeCoordinator_def parseGameId_def parseFixedBytes_def MAX_SAFE_INTEGER_def three_coordinator_def three_roster_def)
qed

lemma key_message: "setup_message pair_group (toy_signed key_envelope) = Inr (KeyShareMessage seat_share)"
proof -
  have "decodeGameKeyShareBody pair_group key_body = Inr seat_share" using wire_bodies_roundtrip_example by simp
  then show ?thesis
    by (simp add: setup_message_def toy_signed_def withSignature_def UnsignedEnvelope.defs SignedEnvelope.defs key_envelope_def toy_envelope_def)
qed

lemma key_classified:
  "setup_envelope_classify (toy_prims wire_values) pair_group three_coordinator (toy_artifact key_envelope 5) =
     Inr (SetupEnvelopeTaken 0 SetupKeys (toy_artifact key_envelope 5) (SetupAccepted 0 SetupKeys))"
proof -
  let ?pr = "toy_prims wire_values"
  have enc: "encodeCanonical ?pr (jnat 0) = Inr [0]" "encodeCanonical ?pr (JString (ascii ''setup.keys'')) = Inr [0, 0]"
      "encodeCanonical ?pr (key_values ! 2) = Inr [0, 0, 0]"
    using toy_encode [OF wire_values_ok, of 0] toy_encode [OF wire_values_ok, of 1] toy_encode [OF wire_values_ok, of 2]
    by (simp_all add: wire_values_def key_values_def numeral_eq_Suc)
  have "verifyGameKeyShare ?pr pair_group (su_proofContext (keyed_setup ks st key)) seat_share" for ks st key
    by (rule seat_share_accepted [OF enc]) (simp_all add: toy_sha512 keyed_setup_def)
  then have "classifyKeyShare ?pr pair_group (keyed_setup [None, None, None] SetupKeys None) (JInt 0) seat_share = Inr (SetupAccepted 0 SetupKeys)"
    by (simp add: classifyKeyShare_def assertSeat_def) (simp add: keyed_setup_def)
  moreover have "env_game (art_envelope (toy_artifact key_envelope 5)) = replicate 16 7" "env_from (art_envelope (toy_artifact key_envelope 5)) = replicate 32 9"
    "env_round (art_envelope (toy_artifact key_envelope 5)) = 0" "art_envelope (toy_artifact key_envelope 5) = toy_signed key_envelope"
    by (simp_all add: toy_artifact_def toy_signed_def withSignature_def UnsignedEnvelope.defs SignedEnvelope.defs key_envelope_def toy_envelope_def)
  moreover have "decodeAndVerifyEnvelope ?pr (art_canonicalBytes (toy_artifact key_envelope 5)) = Inr (toy_artifact key_envelope 5)"
    using wire_verified(1) by (simp add: toy_artifact_def numeral_eq_Suc)
  ultimately show ?thesis
    by (simp add: setup_envelope_classify_def setup_process_def three_coordinator_def Let_def key_message)
qed

theorem setup_preview_example:
  "snd (setup_envelope_ingest (toy_prims wire_values) pair_group three_coordinator (toy_artifact key_envelope 5)) =
     Inr (SetupEnvelopeTaken 0 SetupKeys (toy_artifact key_envelope 5) (SetupAccepted 0 SetupKeys)) \<and>
   sec_roster three_coordinator ! 0 = env_from (art_envelope (toy_artifact key_envelope 5))"
proof -
  have "sec_start (toy_prims wire_values) three_coordinator" using three_coordinator_new unfolding sec_start_def by blast
  then have reach: "reachable (sec_start (toy_prims wire_values)) (sec_next (toy_prims wire_values) pair_group) three_coordinator"
    by (rule reachable_start)
  have hash: "hash_length (toy_prims wire_values)" by (simp add: hash_length_def toy_prims_def)
  note p = setup_preview [OF reach hash, of "toy_artifact key_envelope 5"]
  show ?thesis using conjunct1 [OF p] conjunct2 [OF conjunct2 [OF p]] key_classified by simp
qed

end
