(* ===== verification/Reveal_Example.thy ===== *)
theory Reveal_Example
  imports Reveal_Honest Engine_Envelope_Example
begin

text \<open>
  A game of three seats over signed envelopes, from the key shares through the deal of one card to
  the hand of its owner: the hypotheses of the theorems about the reveal ledger hold of its states.
\<close>

section \<open>Envelopes\<close>

definition game_key :: "byte \<Rightarrow> UnsignedEnvelope" where
  "game_key b = toy_envelope b 0 (ascii ''setup.keys'') KEY_SHARE key_body"

definition deal_body :: jsval where
  "deal_body = JObject [(ascii ''to'', jnat 0), (ascii ''items'', JArray [encoded_share pair_group pass_share])]"

definition game_shares :: "byte \<Rightarrow> UnsignedEnvelope" where
  "game_shares b = toy_envelope b 0 (deal_phase 0 0) SHARES deal_body"

definition share_statement :: jsval where
  "share_statement = JObject [(ascii ''pos'', jnat 0), (ascii ''H'', JBytes (replicate 32 1)), (ascii ''A'', JBytes (replicate 32 1)),
     (ascii ''S'', JBytes (replicate 32 1)), (ascii ''R1'', JBytes (replicate 32 1)), (ascii ''R2'', JBytes (replicate 32 1))]"

definition game_values :: "jsval list" where
  "game_values = [jnat 0, JString (ascii ''setup.keys''),
     JObject [(ascii ''H'', JBytes (replicate 32 1)), (ascii ''R'', JBytes (replicate 32 1))], key_body,
     toUnsignedValue (game_key 9), toSignedValue (toy_signed (game_key 9)),
     toUnsignedValue (game_key 8), toSignedValue (toy_signed (game_key 8)),
     toUnsignedValue (game_key 7), toSignedValue (toy_signed (game_key 7)),
     JString (deal_phase 0 0), share_statement, deal_body,
     toUnsignedValue (game_shares 8), toSignedValue (toy_signed (game_shares 8)),
     toUnsignedValue (game_shares 7), toSignedValue (toy_signed (game_shares 7)),
     JString (ascii ''d''), JString (ascii ''a''), JString (ascii ''b''), JString (play_phase 0 0)]"

abbreviation game_prims :: prims where
  "game_prims \<equiv> toy_prims game_values"

lemma shares_text: "typeText SHARES = ''SHARES''"
  by (simp add: typeText_def ENVELOPE_MESSAGE_TYPES_def)

lemmas game_defs = game_values_def game_key_def game_shares_def deal_body_def share_statement_def deal_phase_def shares_text wire_defs

lemma game_values_ok: "toy_ok game_values"
  by (simp add: game_defs group_bytes toy_eval)

lemma game_length: "length game_values = 21"
  by (simp add: game_values_def)

lemma game_encode: "i < 21 \<Longrightarrow> encodeCanonical game_prims (game_values ! i) = Inr (replicate (Suc i) 0)"
  using toy_encode [OF game_values_ok] game_length by simp

lemma game_hash: "hash_length game_prims"
  by (simp add: hash_length_def toy_prims_def)

lemma game_nth:
  "game_values ! 0 = jnat 0" "game_values ! 1 = JString (ascii ''setup.keys'')" "game_values ! 2 = key_values ! 2" "game_values ! 3 = key_body"
  "game_values ! 4 = toUnsignedValue (game_key 9)" "game_values ! 5 = toSignedValue (toy_signed (game_key 9))"
  "game_values ! 6 = toUnsignedValue (game_key 8)" "game_values ! 7 = toSignedValue (toy_signed (game_key 8))"
  "game_values ! 8 = toUnsignedValue (game_key 7)" "game_values ! 9 = toSignedValue (toy_signed (game_key 7))"
  "game_values ! 10 = JString (deal_phase 0 0)" "game_values ! 11 = share_statement" "game_values ! 12 = deal_body"
  "game_values ! 13 = toUnsignedValue (game_shares 8)" "game_values ! 14 = toSignedValue (toy_signed (game_shares 8))"
  "game_values ! 15 = toUnsignedValue (game_shares 7)" "game_values ! 16 = toSignedValue (toy_signed (game_shares 7))"
  "game_values ! 17 = JString (ascii ''d'')" "game_values ! 18 = JString (ascii ''a'')" "game_values ! 19 = JString (ascii ''b'')"
  "game_values ! 20 = JString (play_phase 0 0)"
  by (simp_all add: game_values_def key_values_def)

lemma game_encoded: "game_values ! i = v \<Longrightarrow> i < 21 \<Longrightarrow> encodeCanonical game_prims v = Inr (replicate (Suc i) 0)"
  using game_encode by blast

lemma game_verified:
  assumes e: "e = toy_envelope b 0 phase type body" "phase \<noteq> []"
    and i: "i < 21" "game_values ! i = body" and j: "j < 21" "game_values ! j = toUnsignedValue e" and k: "k < 21" "game_values ! k = toSignedValue (toy_signed e)"
  shows "decodeAndVerifyEnvelope game_prims (replicate (Suc k) 0) = Inr (toy_artifact e k)"
  by (rule toy_verified [OF game_values_ok e(1) _ e(2) _ i(2) _ j(2) _ k(2)])
    (use i(1) j(1) k(1) game_length in \<open>simp_all add: safe_nat_def MAX_SAFE_INTEGER_def\<close>)

lemma key_verified:
  "decodeAndVerifyEnvelope game_prims (replicate (Suc 5) 0) = Inr (toy_artifact (game_key 9) 5)"
  "decodeAndVerifyEnvelope game_prims (replicate (Suc 7) 0) = Inr (toy_artifact (game_key 8) 7)"
  "decodeAndVerifyEnvelope game_prims (replicate (Suc 9) 0) = Inr (toy_artifact (game_key 7) 9)"
proof -
  have phase: "ascii ''setup.keys'' \<noteq> []" by (simp add: ascii_def)
  note v = game_verified [OF game_key_def phase, of 3]
  show "decodeAndVerifyEnvelope game_prims (replicate (Suc 5) 0) = Inr (toy_artifact (game_key 9) 5)"
    by (rule v [of 4]) (simp_all add: game_nth)
  show "decodeAndVerifyEnvelope game_prims (replicate (Suc 7) 0) = Inr (toy_artifact (game_key 8) 7)"
    by (rule v [of 6]) (simp_all add: game_nth)
  show "decodeAndVerifyEnvelope game_prims (replicate (Suc 9) 0) = Inr (toy_artifact (game_key 7) 9)"
    by (rule v [of 8]) (simp_all add: game_nth)
qed

lemma shares_envelope_verified:
  "decodeAndVerifyEnvelope game_prims (replicate (Suc 14) 0) = Inr (toy_artifact (game_shares 8) 14)"
  "decodeAndVerifyEnvelope game_prims (replicate (Suc 16) 0) = Inr (toy_artifact (game_shares 7) 16)"
proof -
  have phase: "deal_phase 0 0 \<noteq> []" by (simp add: deal_phase_def ascii_def)
  note v = game_verified [OF game_shares_def phase, of 12]
  show "decodeAndVerifyEnvelope game_prims (replicate (Suc 14) 0) = Inr (toy_artifact (game_shares 8) 14)"
    by (rule v [of 13]) (simp_all add: game_nth)
  show "decodeAndVerifyEnvelope game_prims (replicate (Suc 16) 0) = Inr (toy_artifact (game_shares 7) 16)"
    by (rule v [of 15]) (simp_all add: game_nth)
qed

section \<open>Setup\<close>

definition game_setup :: "1 word GameKeyShare option list \<Rightarrow> SetupState \<Rightarrow> 1 word option \<Rightarrow> 1 word SetupEnvelopeCoordinator" where
  "game_setup ks st key = three_coordinator\<lparr>sec_setup := keyed_setup ks st key\<rparr>"

lemma toy_envelope_fields:
  "env_game (art_envelope (toy_artifact (toy_envelope b r ph ty body) k)) = replicate 16 7"
  "env_from (art_envelope (toy_artifact (toy_envelope b r ph ty body) k)) = replicate 32 b"
  "env_round (art_envelope (toy_artifact (toy_envelope b r ph ty body) k)) = r"
  "env_phase (art_envelope (toy_artifact (toy_envelope b r ph ty body) k)) = ph"
  "env_type (art_envelope (toy_artifact (toy_envelope b r ph ty body) k)) = ty"
  "env_body (art_envelope (toy_artifact (toy_envelope b r ph ty body) k)) = body"
  "art_canonicalBytes (toy_artifact e k) = replicate (Suc k) 0" "art_hash (toy_artifact e k) = replicate 32 (word_of_nat (Suc k))"
  by (simp_all add: toy_artifact_def toy_signed_def withSignature_def UnsignedEnvelope.defs SignedEnvelope.defs toy_envelope_def)

lemma game_share_verifies: "verifyGameKeyShare game_prims pair_group (su_proofContext (keyed_setup ks st key)) seat_share"
  by (rule seat_share_accepted [OF game_encoded [OF game_nth(1)] game_encoded [OF game_nth(2)] game_encoded [OF game_nth(3)]])
    (simp_all add: toy_sha512 keyed_setup_def)

lemma game_key_message: "setup_message pair_group (art_envelope (toy_artifact (game_key b) k)) = Inr (KeyShareMessage seat_share)"
proof -
  have "decodeGameKeyShareBody pair_group key_body = Inr seat_share" using wire_bodies_roundtrip_example by simp
  then show ?thesis by (simp add: setup_message_def game_key_def toy_envelope_fields)
qed

lemma game_key_ingested:
  assumes "decodeAndVerifyEnvelope game_prims (replicate (Suc k) 0) = Inr (toy_artifact (game_key b) k)"
    and "map_of (sec_seats three_coordinator) (bytesToHex (replicate 32 b)) = Some i"
    and "acceptKeyShare game_prims pair_group (keyed_setup ks SetupKeys None) (JInt (int i)) seat_share = (keyed_setup ks' st' key', r)"
  shows "sec_next game_prims pair_group (game_setup ks SetupKeys None) (toy_artifact (game_key b) k) = Inr (game_setup ks' st' key')"
  using assms game_key_message [of b k]
  by (simp add: setup_envelope_ingest_def setup_process_def game_setup_def Let_def toy_envelope_fields game_key_def)
    (simp add: three_coordinator_def keyed_setup_def)

lemma game_setup_complete:
  "reachable (sec_start game_prims) (sec_next game_prims pair_group) (game_setup (replicate 3 (Some seat_share)) SetupComplete (Some 1))"
proof -
  have seats: "map_of (sec_seats three_coordinator) (bytesToHex (replicate 32 9)) = Some 0"
    "map_of (sec_seats three_coordinator) (bytesToHex (replicate 32 8)) = Some 1"
    "map_of (sec_seats three_coordinator) (bytesToHex (replicate 32 7)) = Some 2"
    by (simp_all add: three_coordinator_def replicate_eq_replicate)
  note step = keyed_step [OF game_share_verifies]
  have "sec_start game_prims (game_setup [None, None, None] SetupKeys None)"
    using three_coordinator_new [of game_values] unfolding sec_start_def game_setup_def by (auto simp: three_coordinator_def intro!: exI)
  then have start: "reachable (sec_start game_prims) (sec_next game_prims pair_group) (game_setup [None, None, None] SetupKeys None)"
    by (rule reachable_start)
  have "sec_next game_prims pair_group (game_setup [None, None, None] SetupKeys None) (toy_artifact (game_key 9) 5) =
      Inr (game_setup [Some seat_share, None, None] SetupKeys None)"
    by (rule game_key_ingested [OF key_verified(1) seats(1)]) (simp add: step)
  from reachable_step [OF start this]
  have one: "reachable (sec_start game_prims) (sec_next game_prims pair_group) (game_setup [Some seat_share, None, None] SetupKeys None)" .
  have "sec_next game_prims pair_group (game_setup [Some seat_share, None, None] SetupKeys None) (toy_artifact (game_key 8) 7) =
      Inr (game_setup [Some seat_share, Some seat_share, None] SetupKeys None)"
    by (rule game_key_ingested [OF key_verified(2) seats(2)]) (simp add: step)
  from reachable_step [OF one this]
  have two: "reachable (sec_start game_prims) (sec_next game_prims pair_group) (game_setup [Some seat_share, Some seat_share, None] SetupKeys None)" .
  have "sec_next game_prims pair_group (game_setup [Some seat_share, Some seat_share, None] SetupKeys None) (toy_artifact (game_key 7) 9) =
      Inr (game_setup (replicate 3 (Some seat_share)) SetupComplete (Some 1))"
    by (rule game_key_ingested [OF key_verified(3) seats(3)]) (simp add: step)
  from reachable_step [OF two this] show ?thesis .
qed

section \<open>The ledger\<close>

definition game_options :: "1 word RoundRevealOptions" where
  "game_options = \<lparr>rro_setup = game_setup (replicate 3 (Some seat_share)) SetupComplete (Some 1), rro_round = JInt 0, rro_deckSpec = pair_deck,
     rro_deck = [\<lparr>mc_A = 1, mc_B = 0\<rparr>, \<lparr>mc_A = 1, mc_B = 1\<rparr>], rro_schedule = [\<lparr>pds_to = JInt 0, pds_count = JInt 1\<rparr>],
     rro_maxActions = JInt 2, rro_batchDeal = False\<rparr>"

definition game_ledger :: "(nat \<times> 1 word) list \<Rightarrow> nat list \<Rightarrow> (string \<times> revealed_cards) list \<Rightarrow> nat \<Rightarrow> 1 word RoundRevealLedger" where
  "game_ledger shares contributors accepted dealt = \<lparr>rl_gameId = replicate 16 7, rl_round = 0,
     rl_roster = [replicate 32 9, replicate 32 8, replicate 32 7],
     rl_seats = [(bytesToHex (replicate 32 9), 0), (bytesToHex (replicate 32 8), 1), (bytesToHex (replicate 32 7), 2)],
     rl_publicKeys = [1, 1, 1], rl_table = pair_table, rl_deck = [\<lparr>mc_A = 1, mc_B = 0\<rparr>, \<lparr>mc_A = 1, mc_B = 1\<rparr>],
     rl_schedule = [\<lparr>sd_to = 0, sd_positions = [0]\<rparr>], rl_owners = [Some 0, None], rl_maxActions = 2, rl_batchDeal = False,
     rl_shares = [shares, []], rl_contributors = contributors, rl_revealed = [], rl_accepted = accepted, rl_dealIndex = dealt, rl_actionIndex = 0\<rparr>"

lemma game_table: "newCardPointTable game_prims pair_group pair_deck = Inr pair_table"
proof -
  have len: "length (domainSeparator CardD) = 16" by (simp add: domainSeparator_def asciiToBytes_def ascii_def)
  have enc: "encodeCanonical game_prims (JString (ascii ''d'')) = Inr (replicate (Suc 17) 0)"
    "encodeCanonical game_prims (JString (ascii ''a'')) = Inr (replicate (Suc 18) 0)"
    "encodeCanonical game_prims (JString (ascii ''b'')) = Inr (replicate (Suc 19) 0)"
    by (rule game_encoded, rule game_nth, simp)+
  have hash: "sha512 game_prims [domainSeparator CardD, x, y] = replicate 64 (word_of_nat (16 + length x + length y))" for x y
    using toy_sha512 [of game_values CardD "x @ y"] len by (simp add: sha512_def concatBytes_def add.assoc)
  have "cardDerivationHash game_prims (ascii ''d'') (ascii ''a'') = Inr (replicate 64 53)"
    "cardDerivationHash game_prims (ascii ''d'') (ascii ''b'') = Inr (replicate 64 54)"
    by (simp_all add: cardDerivationHash_def requireText_def enc hash del: replicate_Suc)
  then have "deriveCardPoint game_prims pair_group (ascii ''d'') (ascii ''a'') = Inr 1"
    "deriveCardPoint game_prims pair_group (ascii ''d'') (ascii ''b'') = Inr 0"
    by (simp_all add: deriveCardPoint_def fromUniformBytes_def RISTRETTO_UNIFORM_BYTES_LENGTH_def pair_group_def)
  then show ?thesis
    by (simp add: newCardPointTable_def pair_deck_def pair_table_def MIN_DECK_SIZE_def MAX_DECK_SIZE_def Let_def pair_group_def)
qed

lemma game_ledger_new: "newRoundRevealLedger game_prims pair_group game_options = Inr (game_ledger [] [] [] 0)"
proof -
  have key: "copied_key pair_group (rro_setup game_options) seat = Inr 1" if "seat \<in> {0, 1, 2}" for seat
  proof -
    have "publicKeyAt (sec_setup (rro_setup game_options)) (JInt (int seat)) = Inr (Some 1)"
      using that by (auto simp: game_options_def game_setup_def three_coordinator_def keyed_setup_def publicKeyAt_def assertSeat_def seat_share_def
          numeral_3_eq_3)
    then show ?thesis using point_bytes_back [OF pair_laws] by (simp add: copied_key_def)
  qed
  have card: "copied_card pair_group c = Inr c" for c
    using point_bytes_back [OF pair_laws] by (cases c) (simp add: copied_card_def)
  have roster: "sec_roster (rro_setup game_options) = [replicate 32 9, replicate 32 8, replicate 32 7]"
    by (simp add: game_options_def game_setup_def three_coordinator_def)
  have size: "table_size pair_table = 2" by (simp add: table_size_def pair_table_def)
  show ?thesis
    unfolding newRoundRevealLedger_def Let_def roster
    using key card game_table size
    by (simp add: upt_rec numeral_eq_Suc MAX_SAFE_INTEGER_def unsigned_safe_def)
      (simp add: game_options_def game_setup_def three_coordinator_def keyed_setup_def game_ledger_def unsigned_safe_def MAX_SAFE_INTEGER_def)
qed

section \<open>The deal\<close>

definition game_deal :: "1 word SharesBody" where
  "game_deal = \<lparr>sb_to = JInt 0, sb_items = [pass_share]\<rparr>"

lemma game_challenge:
  assumes "pc_round ctx = JInt 0" "encodeCanonical game_prims (JString (pc_phase ctx)) = Inr ph" "pc_phase ctx \<noteq> []"
  shows "decryptionProofChallenge game_prims pair_group ctx (JInt 0) 1 1 1 1 1 = Inr 0"
proof -
  have bytes: "nr_toBytes pair_group 1 = replicate 32 1" by (simp add: pair_group_def)
  have "proofChallengeInput game_prims DecryptionShareD (pc_gameId ctx) (JInt 0) (pc_phase ctx) share_statement =
      Inr (domainSeparator DecryptionShareD @ pc_gameId ctx @ replicate (Suc 0) 0 @ ph @ replicate (Suc 11) 0)"
    using assms game_encoded [OF game_nth(1)] game_encoded [OF game_nth(12)]
    by (simp add: proofChallengeInput_def requireUnsignedSafeInteger_def requireText_def MAX_SAFE_INTEGER_def concatBytes_def del: replicate_Suc)
  then have "proofChallengeScalar game_prims pair_group DecryptionShareD ctx share_statement = Inr 0"
    using assms(1) by (simp add: proofChallengeScalar_def toy_sha512 reduceWideRistrettoScalar_def scalarFromBigInt_def RISTRETTO_UNIFORM_BYTES_LENGTH_def
        del: replicate_Suc) (simp add: pair_group_def)
  then show ?thesis unfolding decryptionProofChallenge_def bytes by (simp add: share_statement_def)
qed

lemma pass_share_verifies:
  assumes "pc_round ctx = JInt 0" "encodeCanonical game_prims (JString (pc_phase ctx)) = Inr ph" "pc_phase ctx \<noteq> []"
  shows "verifyProvenDecryptionShare game_prims pair_group ctx (JInt 0) 1 1 (ProvenDecryptionShare.truncate pass_share)"
proof -
  have "ProvenDecryptionShare.truncate pass_share = \<lparr>ds_S = 1, ds_proof = \<lparr>cp_R1 = 1, cp_R2 = 1, cp_z = 1\<rparr>\<rparr>"
    by (simp add: pass_share_def ProvenDecryptionShare.defs)
  then show ?thesis using game_challenge [OF assms]
    by (simp add: verifyProvenDecryptionShare_def requirePosition_def verified_def decryption_equations_def point_multiply_def assertScalar_def
        scalarFromBigInt_def) (simp add: pair_group_def)
qed

lemma game_phases:
  "deal_phase 0 0 \<noteq> []" "play_phase 0 0 \<noteq> []"
  "encodeCanonical game_prims (JString (deal_phase 0 0)) = Inr (replicate (Suc 10) 0)"
  "encodeCanonical game_prims (JString (play_phase 0 0)) = Inr (replicate (Suc 20) 0)"
proof -
  show "deal_phase 0 0 \<noteq> []" "play_phase 0 0 \<noteq> []" by (simp_all add: deal_phase_def play_phase_def ascii_def)
  show "encodeCanonical game_prims (JString (deal_phase 0 0)) = Inr (replicate (Suc 10) 0)" by (rule game_encoded [OF game_nth(11)]) simp
  show "encodeCanonical game_prims (JString (play_phase 0 0)) = Inr (replicate (Suc 20) 0)" by (rule game_encoded [OF game_nth(21)]) simp
qed

lemma game_share_verified:
  assumes "seat < 3" "phase \<in> {deal_phase 0 0, play_phase 0 0}"
  shows "share_verifies game_prims pair_group (game_ledger shares contributors accepted dealt) seat phase pass_share"
proof -
  let ?ctx = "round_context (game_ledger shares contributors accepted dealt) phase"
  have ctx: "pc_round ?ctx = JInt 0" "pc_phase ?ctx = phase" by (simp_all add: round_context_def game_ledger_def)
  have "phase \<noteq> []" "\<exists>ph. encodeCanonical game_prims (JString phase) = Inr ph" using assms(2) game_phases by auto
  then have "verifyProvenDecryptionShare game_prims pair_group ?ctx (JInt 0) 1 1 (ProvenDecryptionShare.truncate pass_share)"
    using pass_share_verifies [OF ctx(1)] ctx(2) by auto
  moreover have "item_pos pass_share = 0" "ps_pos pass_share = JInt 0" by (simp_all add: item_pos_def pass_share_def)
  moreover have "rl_publicKeys (game_ledger shares contributors accepted dealt) ! seat = 1"
    using assms(1) by (auto simp: game_ledger_def less_Suc_eq numeral_3_eq_3)
  moreover have "mc_A (rl_deck (game_ledger shares contributors accepted dealt) ! 0) = 1" by (simp add: game_ledger_def)
  ultimately show ?thesis by (simp add: share_verifies_def)
qed

lemma game_deal_decodes: "decodeSharesBody pair_group deal_body = Inr game_deal"
proof -
  have "shares_ok pair_group game_deal"
    by (simp add: shares_ok_def game_deal_def position_share_ok_def pass_share_def group_bytes)
  from decode_encoded_body [OF pair_laws this] show ?thesis by (simp add: game_deal_def deal_body_def)
qed

lemma game_phase: "ledger_phase (game_ledger shares contributors accepted 0) = deal_phase 0 0" "ledger_phase (game_ledger shares contributors accepted (Suc 0)) = play_phase 0 0"
  "current_deal (game_ledger shares contributors accepted 0) = Some \<lparr>sd_to = 0, sd_positions = [0]\<rparr>" "current_deal (game_ledger shares contributors accepted (Suc 0)) = None"
  by (simp_all add: ledger_phase_def current_deal_def game_ledger_def)

lemma game_checked:
  assumes "seat \<in> {1, 2}" "seat \<notin> set contributors"
  shows "check_shares game_prims pair_group (game_ledger shares contributors accepted 0) seat (deal_phase 0 0) game_deal = Inr ()"
  using assms game_share_verified [of seat "deal_phase 0 0" shares contributors accepted 0]
  by (auto simp: check_shares_def game_phase game_deal_def Let_def deal_recipient_def deal_positions_def item_pos_def)
    (simp_all add: game_ledger_def pass_share_def)

definition game_h :: "nat \<Rightarrow> string" where
  "game_h k = bytesToHex (replicate 32 (word_of_nat (Suc k)))"

lemma game_committed:
  assumes "decodeAndVerifyEnvelope game_prims (replicate (Suc k) 0) = Inr (toy_artifact (game_shares b) k)" "k < 100"
    and "map_of (rl_seats (game_ledger [] [] [] 0)) (bytesToHex (replicate 32 b)) = Some seat"
    and "seat \<in> {1, 2}" "seat \<notin> set contributors" "map_of accepted (game_h k) = None"
  shows "ledger_commit game_prims pair_group (game_ledger shares contributors accepted 0) (toy_artifact (game_shares b) k) expected =
    (commit_shares (game_ledger shares contributors accepted 0) seat (game_h k) [pass_share],
     Inr (SharesTransition TransitionAccepted (toy_artifact (game_shares b) k) seat game_deal))"
proof -
  have "length (replicate (Suc k) (0 :: byte)) \<le> MAX_ROUND_REVEAL_ENVELOPE_BYTES"
    using assms(2) by (simp add: MAX_ROUND_REVEAL_ENVELOPE_BYTES_def MAX_ACTION_ENVELOPE_BYTES_def)
  moreover have "rl_gameId (game_ledger shares contributors accepted 0) = replicate 16 7" "rl_round (game_ledger shares contributors accepted 0) = 0"
    "rl_seats (game_ledger shares contributors accepted 0) = rl_seats (game_ledger [] [] [] 0)"
    "rl_accepted (game_ledger shares contributors accepted 0) = accepted" by (simp_all add: game_ledger_def)
  moreover have "process_shares game_prims pair_group (game_ledger shares contributors accepted 0) (toy_artifact (game_shares b) k) seat True =
      (commit_shares (game_ledger shares contributors accepted 0) seat (game_h k) [pass_share],
       Inr (SharesTransition TransitionAccepted (toy_artifact (game_shares b) k) seat game_deal))"
    using calculation game_checked [OF assms(4,5), of shares accepted] assms(6)
    by (simp add: process_shares_def Let_def game_shares_def toy_envelope_fields game_deal_decodes game_h_def) (simp add: game_deal_def)
  ultimately show ?thesis
    using assms(1,3) by (simp add: ledger_commit_def ledger_process_def Let_def game_shares_def toy_envelope_fields del: replicate_Suc)
qed

definition fresh_ledger :: "1 word RoundRevealLedger" where
  "fresh_ledger = game_ledger [] [] [] 0"

definition half_ledger :: "1 word RoundRevealLedger" where
  "half_ledger = game_ledger [(1, 1)] [1] [(game_h 14, [])] 0"

definition dealt_ledger :: "1 word RoundRevealLedger" where
  "dealt_ledger = game_ledger [(1, 1), (2, 1)] [] [(game_h 14, []), (game_h 16, [])] 1"

abbreviation game_reachable :: "1 word RoundRevealLedger \<Rightarrow> bool" where
  "game_reachable \<equiv> reachable (ledger_start game_prims pair_group) (ledger_next game_prims pair_group)"

lemma fresh_reachable: "game_reachable fresh_ledger"
proof (rule reachable_start)
  have "rro_setup game_options = game_setup (replicate 3 (Some seat_share)) SetupComplete (Some 1)" by (simp add: game_options_def)
  then show "ledger_start game_prims pair_group fresh_ledger"
    unfolding ledger_start_def fresh_ledger_def using game_ledger_new game_setup_complete by metis
qed

lemma pass_share_item: "item_pos pass_share = 0" "ds_S pass_share = 1"
  by (simp_all add: item_pos_def pass_share_def)

lemma game_h_differ: "game_h 14 \<noteq> game_h 16"
  by (simp add: game_h_def replicate_eq_replicate)

lemma first_commit:
  "ledger_commit game_prims pair_group fresh_ledger (toy_artifact (game_shares 8) 14) expected =
     (half_ledger, Inr (SharesTransition TransitionAccepted (toy_artifact (game_shares 8) 14) 1 game_deal))"
proof -
  have "commit_shares fresh_ledger 1 (game_h 14) [pass_share] = half_ledger"
    by (simp add: commit_shares_def record_shares_def pass_share_item Let_def fresh_ledger_def half_ledger_def game_ledger_def)
  then show ?thesis
    using game_committed [OF shares_envelope_verified(1), of 1 "[]" "[]" "[]" expected]
    by (simp add: fresh_ledger_def game_ledger_def replicate_eq_replicate)
qed

lemma second_commit:
  "ledger_commit game_prims pair_group half_ledger (toy_artifact (game_shares 7) 16) expected =
     (dealt_ledger, Inr (SharesTransition TransitionAccepted (toy_artifact (game_shares 7) 16) 2 game_deal))"
proof -
  have "commit_shares half_ledger 2 (game_h 16) [pass_share] = dealt_ledger"
    using game_h_differ by (simp add: commit_shares_def record_shares_def pass_share_item Let_def half_ledger_def dealt_ledger_def game_ledger_def)
  then show ?thesis
    using game_committed [OF shares_envelope_verified(2), of 2 "[1]" "[(game_h 14, [])]" "[(1, 1)]" expected] game_h_differ
    by (simp add: half_ledger_def game_ledger_def replicate_eq_replicate)
qed

lemma dealt_reachable: "game_reachable half_ledger" "game_reachable dealt_ledger"
proof -
  show half: "game_reachable half_ledger"
    using reachable_step [OF fresh_reachable, of "(toy_artifact (game_shares 8) 14, None)"] first_commit by simp
  show "game_reachable dealt_ledger"
    using reachable_step [OF half, of "(toy_artifact (game_shares 7) 16, None)"] second_commit by simp
qed

section \<open>Witnesses\<close>

theorem reveals_sound_witness:
  "map_of (rl_shares dealt_ledger ! 0) 2 \<noteq> None \<and> rl_owners dealt_ledger ! 0 = Some 0 \<and> distinct (map fst (rl_revealed dealt_ledger))"
proof -
  have l: "current_deal dealt_ledger = None" "0 < length (rl_deck dealt_ledger)" "rl_owners dealt_ledger ! 0 = Some 0" "2 < length (rl_roster dealt_ledger)"
    by (simp_all add: dealt_ledger_def game_ledger_def current_deal_def)
  note sound = reveals_sound [OF pair_laws game_hash dealt_reachable(2)]
  show ?thesis using sound l by auto
qed

theorem ledger_preview_witness:
  "ledger_classify game_prims pair_group fresh_ledger (toy_artifact (game_shares 8) 14) None =
     Inr (SharesTransition TransitionAccepted (toy_artifact (game_shares 8) 14) 1 game_deal) \<and>
   ledger_commit game_prims pair_group half_ledger (toy_artifact (game_shares 8) 14) (Some (JInt 0)) =
     (half_ledger, Inr (SharesTransition TransitionDuplicate (toy_artifact (game_shares 8) 14) 1 game_deal))"
  using ledger_preview [OF toy_laws [OF game_values_ok] first_commit [of None], of "Some (JInt 0)"] by simp

lemma game_draw_share:
  assumes "pc_round ctx = JInt 0" "encodeCanonical game_prims (JString (pc_phase ctx)) = Inr ph" "pc_phase ctx \<noteq> []"
  shows "createProvenDecryptionShare game_prims pair_group ctx (JInt 0) 1 1 (constant_source 1) () =
    Inr (Some (ProvenDecryptionShare.truncate pass_share, ()))"
proof -
  have "ProvenDecryptionShare.truncate pass_share = \<lparr>ds_S = 1, ds_proof = \<lparr>cp_R1 = 1, cp_R2 = 1, cp_z = 1\<rparr>\<rparr>"
    by (simp add: pass_share_def ProvenDecryptionShare.defs)
  moreover have "point_multiply pair_group 1 1 = Inr 1" "nr_base pair_group = 1" "multiplyRistrettoScalars pair_group 0 1 = Inr 0"
    "addRistrettoScalars pair_group 1 0 = Inr 1"
    using point_multiply_ok [OF pair_laws, of 1 1] multiply_scalars_ok [OF pair_laws, of 0 1] add_scalars_ok [OF pair_laws, of 1 0]
    by (simp_all add: pair_group_def)
  ultimately show ?thesis using game_challenge [OF assms] pair_draw
    by (simp add: createProvenDecryptionShare_def requirePosition_def requireNonZeroScalar_def decryptionShare_def)
qed

lemma with_position_pass: "with_position 0 (ProvenDecryptionShare.truncate pass_share) = pass_share"
  by (simp add: with_position_def pass_share_def ProvenDecryptionShare.defs PositionShare.defs)

lemma game_key: "seat < 3 \<Longrightarrow> requireLocalKey pair_group (game_ledger shares contributors accepted dealt) (JInt (int seat)) 1 = Inr seat"
  using point_multiply_ok [OF pair_laws, of 1 1]
  by (auto simp: requireLocalKey_def unsigned_safe_def MAX_SAFE_INTEGER_def game_ledger_def less_Suc_eq numeral_3_eq_3 pair_group_def)

lemma game_context:
  "pc_round (round_context (game_ledger shares contributors accepted dealt) ph) = JInt 0"
  "pc_phase (round_context (game_ledger shares contributors accepted dealt) ph) = ph"
  by (simp_all add: round_context_def game_ledger_def)

lemma game_deal_created:
  "createDealShares game_prims pair_group fresh_ledger (JInt 1) 1 (constant_source 1) () = Inr (Some (game_deal, ()))"
proof -
  have "createProvenDecryptionShare game_prims pair_group (round_context fresh_ledger (deal_phase 0 0)) (JInt 0) 1 1 (constant_source 1) () =
      Inr (Some (ProvenDecryptionShare.truncate pass_share, ()))"
    using game_draw_share [of "round_context fresh_ledger (deal_phase 0 0)"] game_phases by (simp add: fresh_ledger_def game_context)
  then have "prove_positions game_prims pair_group fresh_ledger 1 (constant_source 1) () [0] = Inr (Some ([pass_share], ()))"
    by (simp add: fresh_ledger_def game_phase) (simp add: game_ledger_def with_position_pass)
  then show ?thesis
    using game_key [of 1 "[]" "[]" "[]" 0]
    by (simp add: createDealShares_def fresh_ledger_def game_phase deal_positions_def deal_recipient_def game_deal_def)
      (simp add: game_ledger_def)
qed

theorem deal_shares_accepted_example:
  "check_shares game_prims pair_group fresh_ledger 1 (deal_phase 0 0) game_deal = Inr ()"
  using deal_shares_accepted [OF pair_laws game_deal_created] by (auto simp: fresh_ledger_def game_phase)

lemma game_masked: "masked_deck pair_group (game_ledger shares contributors accepted dealt) [1, 1, 1] (\<lambda>p. p)"
proof -
  have key: "public_key pair_group (sum_list [1, 1, 1]) = 1" "public_key pair_group 1 = 1" by (simp_all add: pair_group_def)
  have cards: "[\<lparr>mc_A = 1, mc_B = 0\<rparr>, \<lparr>mc_A = 1, mc_B = 1\<rparr>] ! p = \<lparr>mc_A = times_point pair_group 1 (nr_base pair_group),
      mc_B = nr_add pair_group (cpt_points pair_table ! p) (times_point pair_group 1 (1 :: 1 word))\<rparr>" if "p < 2" for p
    using below_two [OF that] by (auto simp: pair_table_def pair_group_def)
  show ?thesis
    unfolding masked_deck_def key using key(2) pair_points(3) cards by (auto simp: game_ledger_def simp del: times_point.simps)
qed

lemma dealt_hand:
  "readPrivateHand pair_group dealt_ledger (JInt 0) 1 = Inr (Some ([(0, ascii ''a'')], [(0, ascii ''a'')]))"
proof -
  have owned: "filter (\<lambda>p. rl_owners dealt_ledger ! p = Some 0) [0..<length (rl_deck dealt_ledger)] = [0]"
    by (simp add: dealt_ledger_def game_ledger_def)
  have id: "identifyCard pair_group pair_table 1 = Some (ascii ''a'')"
    by (simp add: identifyCard_def pair_table_def pair_group_def)
  have own: "decryptionShare pair_group 1 1 = Inr 1" using point_multiply_ok [OF pair_laws, of 1 1] by (simp add: decryptionShare_def pair_group_def)
  have "shares_for dealt_ledger 0 0 (Inr 1) = Inr [1, 1, 1]" by (simp add: shares_for_def dealt_ledger_def game_ledger_def upt_rec)
  moreover have "removeDecryptionShares pair_group \<lparr>mc_A = 1, mc_B = 0\<rparr> [1, 1, 1] = 1"
    by (simp add: removeDecryptionShares_def pair_group_def)
  ultimately have "private_cards pair_group dealt_ledger 0 1 [] [] [] [0, 1] = Inr ([(0, ascii ''a'')], [(0, ascii ''a'')])"
    using own id by (simp add: dealt_ledger_def game_ledger_def Let_def)
  moreover have "requireLocalKey pair_group dealt_ledger (JInt 0) 1 = Inr 0"
    using game_key [of 0 "[(1, 1), (2, 1)]" "[]" "[(game_h 14, []), (game_h 16, [])]" 1] by (simp add: dealt_ledger_def)
  moreover have "\<not> rl_dealIndex dealt_ledger < length (rl_schedule dealt_ledger)" "rl_revealed dealt_ledger = []"
    "[0..<length (rl_deck dealt_ledger)] = [0, 1]"
    by (simp_all add: dealt_ledger_def game_ledger_def upt_rec)
  ultimately show ?thesis by (simp add: readPrivateHand_def del: private_cards.simps)
qed

lemma dealt_action_share:
  "createActionShare game_prims pair_group dealt_ledger (JInt 0) 1 (JInt 0) (constant_source 1) () = Inr (Some (pass_share, ()))"
proof -
  have "createProvenDecryptionShare game_prims pair_group (round_context dealt_ledger (play_phase 0 0)) (JInt 0) 1 1 (constant_source 1) () =
      Inr (Some (ProvenDecryptionShare.truncate pass_share, ()))"
    using game_draw_share [of "round_context dealt_ledger (play_phase 0 0)"] game_phases by (simp add: dealt_ledger_def game_context)
  moreover have "ownerAt dealt_ledger (JInt 0) = Inr (Some 0)" "mc_A (rl_deck dealt_ledger ! 0) = 1" "rl_actionIndex dealt_ledger < rl_maxActions dealt_ledger"
    "ledger_phase dealt_ledger = play_phase 0 0"
    by (simp_all add: ownerAt_def unsigned_safe_def MAX_SAFE_INTEGER_def dealt_ledger_def game_phase) (simp_all add: game_ledger_def)
  ultimately show ?thesis
    using dealt_hand with_position_pass by (simp add: createActionShare_def Let_def)
qed

theorem action_share_opens_hand_witness:
  "check_ownership dealt_ledger 0 [JInt 0] = Inr () \<and>
   open_cards game_prims pair_group dealt_ledger 0 (ledger_phase dealt_ledger) (map snd (rl_revealed dealt_ledger)) [pass_share] = Inr [(0, ascii ''a'')]"
  using action_share_opens_hand [OF pair_laws game_hash dealt_reachable(2) dealt_action_share] dealt_hand
  by (auto simp: pass_share_item simp del: open_cards.simps check_ownership.simps)

lemma game_true:
  "true_shares pair_group fresh_ledger [1, 1, 1]" "true_reveals fresh_ledger (\<lambda>p. p)"
  "true_shares pair_group dealt_ledger [1, 1, 1]" "true_reveals dealt_ledger (\<lambda>p. p)"
proof -
  have share: "true_share pair_group (game_ledger shares contributors accepted dealt) [1, 1, 1] d 0 = 1" if "d \<in> {0, 1, 2}" for shares contributors accepted dealt d
    using that by (auto simp: true_share_def game_ledger_def pair_group_def)
  show "true_shares pair_group fresh_ledger [1, 1, 1]" "true_reveals fresh_ledger (\<lambda>p. p)" "true_reveals dealt_ledger (\<lambda>p. p)"
    by (auto simp: true_shares_def true_reveals_def fresh_ledger_def dealt_ledger_def game_ledger_def less_Suc_eq numeral_2_eq_2)
  show "true_shares pair_group dealt_ledger [1, 1, 1]"
    unfolding true_shares_def
  proof (intro allI impI)
    fix p d S assume "p < length (rl_deck dealt_ledger)" "map_of (rl_shares dealt_ledger ! p) d = Some S"
    then have "p = 0 \<and> d \<in> {1, 2} \<and> S = 1"
      by (auto simp: dealt_ledger_def game_ledger_def less_Suc_eq numeral_2_eq_2 split: if_splits)
    then show "S = true_share pair_group dealt_ledger [1, 1, 1] d p" using share [of d] by (auto simp: dealt_ledger_def)
  qed
qed

theorem private_hand_true_witness:
  "readPrivateHand pair_group dealt_ledger (JInt (int 0)) ([1, 1, 1] ! 0) = Inr (Some
     (map (\<lambda>p. (p, true_card dealt_ledger (\<lambda>p. p) p)) (filter (\<lambda>p. rl_owners dealt_ledger ! p = Some 0) [0..<length (rl_deck dealt_ledger)]),
      map (\<lambda>p. (p, true_card dealt_ledger (\<lambda>p. p) p)) (filter (\<lambda>p. rl_owners dealt_ledger ! p = Some 0 \<and> p \<notin> fst ` set (rl_revealed dealt_ledger))
        [0..<length (rl_deck dealt_ledger)])))"
proof -
  have "masked_deck pair_group dealt_ledger [1, 1, 1] (\<lambda>p. p)" "current_deal dealt_ledger = None" "0 < length (rl_roster dealt_ledger)"
    using game_masked by (simp_all add: dealt_ledger_def game_phase) (simp add: game_ledger_def)
  then show ?thesis by (rule private_hand_true [OF pair_laws game_hash dealt_reachable(2) _ game_true(3,4)])
qed

theorem honest_contributions_witness:
  "true_shares pair_group half_ledger [1, 1, 1] \<and> true_reveals half_ledger (\<lambda>p. p)"
proof -
  have deck: "masked_deck pair_group fresh_ledger [1, 1, 1] (\<lambda>p. p)" using game_masked by (simp add: fresh_ledger_def)
  have items: "contribution (SharesTransition TransitionAccepted (toy_artifact (game_shares 8) 14) 1 game_deal) = (1, [pass_share])"
    by (simp add: game_deal_def)
  have honest: "\<forall>item \<in> set [pass_share]. ds_S item = true_share pair_group fresh_ledger [1, 1, 1] 1 (item_pos item)"
    by (simp add: pass_share_item true_share_def fresh_ledger_def game_ledger_def pair_group_def)
  show ?thesis
    using honest_contributions [OF pair_laws game_hash fresh_reachable deck game_true(1,2) first_commit _ items honest] by simp
qed

end
