(* ===== verification/Deck_Shuffle.thy ===== *)
theory Deck_Shuffle
  imports Deck_Theorems
begin

text \<open>
  \<^verbatim>\<open>packages/deck/src\<close>: preparing a shuffle (\<open>shuffle.ts\<close>), the bytes of a shuffle statement
  (\<open>shuffle-statement.ts\<close>) and of a proof (\<open>shuffle-proof-codec.ts\<close>), and the generators of the proof system
  (\<open>shuffle-crs.ts\<close>). The proof system itself is the Rust crate under
  \<^verbatim>\<open>experiments/shuffle-backend\<close>, built to WebAssembly: it is not modelled here. The
  codecs parse their bytes by hand; the position in the input is the list of bytes that are left.
\<close>

section \<open>Preparing a shuffle\<close>

record DeckShuffleWitness =
  sw_permutation :: "nat list"
  sw_randomizers :: "nat list"

record 'p UnprovenDeckShuffle =
  us_aggregateKey :: 'p
  us_inputDeck :: "'p MaskedCard list"
  us_outputDeck :: "'p MaskedCard list"
  us_witness :: DeckShuffleWitness

definition copyPoint :: "'p ristretto \<Rightarrow> 'p \<Rightarrow> deck_error + 'p" where
  "copyPoint G P = groupTry (point_fromBytes G (nr_toBytes G P))"

text \<open>The value \<open>None\<close> says that the sampling of a scalar does not end.\<close>

fun draw_scalars :: "'p ristretto \<Rightarrow> 's source \<Rightarrow> nat \<Rightarrow> 's \<Rightarrow> (nat list \<times> 's) option" where
  "draw_scalars G fill 0 s = Some ([], s)"
| "draw_scalars G fill (Suc n) s =
     (case randomNonZeroRistrettoScalar G fill s of
        None \<Rightarrow> None
      | Some (x, s') \<Rightarrow> (case draw_scalars G fill n s' of None \<Rightarrow> None | Some (xs, s'') \<Rightarrow> Some (x # xs, s'')))"

definition copy_card :: "'p ristretto \<Rightarrow> 'p MaskedCard \<Rightarrow> deck_error + 'p MaskedCard" where
  "copy_card G c = rbind (copyPoint G (mc_A c)) (\<lambda>a. rbind (copyPoint G (mc_B c)) (\<lambda>b. Inr \<lparr>mc_A = a, mc_B = b\<rparr>))"

definition remask_all :: "'p ristretto \<Rightarrow> 'p MaskedCard list \<Rightarrow> 'p \<Rightarrow> nat list \<Rightarrow> nat list \<Rightarrow> deck_error + 'p MaskedCard list" where
  "remask_all G deck key permutation randomizers =
     mapM_res (\<lambda>(inputPosition, outputPosition). remaskCard G (deck ! inputPosition) (randomizers ! outputPosition) key)
       (zip permutation [0..<length permutation])"

definition createUnprovenDeckShuffle ::
    "'p ristretto \<Rightarrow> 'p MaskedCard list \<Rightarrow> 'p \<Rightarrow> 's source \<Rightarrow> 's \<Rightarrow> deck_error + ('p UnprovenDeckShuffle \<times> 's) option" where
  "createUnprovenDeckShuffle G deck aggregateKey fill s =
     (if length deck < MIN_DECK_SIZE \<or> length deck > MAX_DECK_SIZE
      then Inl (DeckRangeError ''Shuffle input deck must contain 2 to 128 cards'')
      else rbind (copyPoint G aggregateKey) (\<lambda>key.
      if nr_is0 G key then Inl (DeckTypeError ''Shuffle aggregate key must not be the identity point'')
      else rbind (mapM_res (copy_card G) deck) (\<lambda>inputDeck.
      rbind (catch_as (randomPermutation fill (length deck) s) (\<lambda>e. DeckProtocol (JsError e))) (\<lambda>drawn.
      case drawn of
        None \<Rightarrow> Inr None
      | Some (permutation, s') \<Rightarrow>
          (case draw_scalars G fill (length deck) s' of
             None \<Rightarrow> Inr None
           | Some (randomizers, s'') \<Rightarrow>
               rbind (remask_all G inputDeck key permutation randomizers) (\<lambda>outputDeck.
               Inr (Some (\<lparr>us_aggregateKey = key, us_inputDeck = inputDeck, us_outputDeck = outputDeck,
                 us_witness = \<lparr>sw_permutation = permutation, sw_randomizers = randomizers\<rparr>\<rparr>, s''))))))))"

section \<open>Statements\<close>

datatype shuffle_error =
    ShuffleError string
  | ShuffleProtocol protocol_error
  | ShuffleRistretto ristretto_error

abbreviation shuffleError :: "string \<Rightarrow> shuffle_error + 'a" where
  "shuffleError msg \<equiv> Inl (ShuffleError msg)"

definition CANDIDATE_SHUFFLE_STATEMENT_PROFILE :: ustr where
  "CANDIDATE_SHUFFLE_STATEMENT_PROFILE = ascii ''bg-ristretto255-36-4x9-statement-candidate-v1''"

text \<open>The constant is computed when the module is loaded; its encoding does not fail.\<close>

definition profile_header :: "prims \<Rightarrow> byte \<Rightarrow> ustr \<Rightarrow> bytes \<Rightarrow> bytes" where
  "profile_header pr tag profile rest = tag # (case encodeCanonical pr (JString profile) of Inl _ \<Rightarrow> [] | Inr b \<Rightarrow> b) @ rest"

definition statement_header :: "prims \<Rightarrow> bytes" where
  "statement_header pr = profile_header pr 0x88 CANDIDATE_SHUFFLE_STATEMENT_PROFILE []"

definition MIN_CANDIDATE_SHUFFLE_STATEMENT_BYTES :: "prims \<Rightarrow> nat" where
  "MIN_CANDIDATE_SHUFFLE_STATEMENT_BYTES pr = length (statement_header pr) + 17 + 1 + 1 + 34 + 34 + 2 * 2307"

definition MAX_CANDIDATE_SHUFFLE_STATEMENT_BYTES :: "prims \<Rightarrow> nat" where
  "MAX_CANDIDATE_SHUFFLE_STATEMENT_BYTES pr = MIN_CANDIDATE_SHUFFLE_STATEMENT_BYTES pr + 8"

record 'p CandidateShuffleStatement36 =
  css_gameId :: bytes
  css_round :: jsnum
  css_seat :: jsnum
  css_rosterHash :: bytes
  css_aggregateKey :: 'p
  css_inputDeck :: "'p MaskedCard list"
  css_outputDeck :: "'p MaskedCard list"

definition pointBytes :: "'p ristretto \<Rightarrow> 'p \<Rightarrow> shuffle_error + bytes" where
  "pointBytes G point =
     (let b = nr_toBytes G point in rbind (catch_as (point_fromBytes G b) ShuffleRistretto) (\<lambda>_. Inr b))"

definition packDeck :: "'p ristretto \<Rightarrow> 'p MaskedCard list \<Rightarrow> shuffle_error + bytes" where
  "packDeck G deck =
     (if length deck \<noteq> 36 then shuffleError ''Expected 36 ciphertexts''
      else rbind (mapM_res (\<lambda>c. rbind (pointBytes G (mc_A c)) (\<lambda>a. rbind (pointBytes G (mc_B c)) (\<lambda>b. Inr (concatBytes [a, b])))) deck)
        (\<lambda>cards. Inr (concatBytes cards)))"

definition unpackDeck :: "'p ristretto \<Rightarrow> bytes \<Rightarrow> shuffle_error + 'p MaskedCard list" where
  "unpackDeck G b =
     mapM_res (\<lambda>i.
       rbind (catch_as (point_fromBytes G (take 32 (drop (i * 64) b))) ShuffleRistretto) (\<lambda>A.
       rbind (catch_as (point_fromBytes G (take 32 (drop (i * 64 + 32) b))) ShuffleRistretto) (\<lambda>B.
       Inr \<lparr>mc_A = A, mc_B = B\<rparr>))) [0..<36]"

definition encodeCandidateShuffleStatement36 :: "prims \<Rightarrow> 'p ristretto \<Rightarrow> 'p CandidateShuffleStatement36 \<Rightarrow> shuffle_error + bytes" where
  "encodeCandidateShuffleStatement36 pr G value =
     rbind (catch_as (parseGameId (JBytes (css_gameId value))) ShuffleProtocol) (\<lambda>game.
     rbind (catch_as (parseHash256 (JBytes (css_rosterHash value))) ShuffleProtocol) (\<lambda>roster.
     if \<not> isSafeInteger (css_round value) \<or> numval (css_round value) < 0 \<or> css_round value = JNegZero \<or>
        css_seat value = JNonInteger \<or> numval (css_seat value) < 0 \<or> numval (css_seat value) > 3 \<or> css_seat value = JNegZero
     then shuffleError ''Invalid shuffle round or seat''
     else rbind (pointBytes G (css_aggregateKey value)) (\<lambda>key.
     rbind (catch_as (point_fromBytes G key) ShuffleRistretto) (\<lambda>point.
     if nr_is0 G point then shuffleError ''Identity shuffle key''
     else rbind (packDeck G (css_inputDeck value)) (\<lambda>input.
     rbind (packDeck G (css_outputDeck value)) (\<lambda>output.
     catch_as (encodeCanonical pr (JArray [JString CANDIDATE_SHUFFLE_STATEMENT_PROFILE, JBytes game, JNumber (css_round value),
       JNumber (css_seat value), JBytes roster, JBytes key, JBytes input, JBytes output])) (\<lambda>e. ShuffleProtocol (CborError e))))))))"

text \<open>The local functions of the decoder: \<open>exact\<close> consumes given bytes, \<open>fixed\<close> a byte string of a given length.\<close>

definition exact :: "bytes \<Rightarrow> bytes \<Rightarrow> shuffle_error + bytes" where
  "exact expected b =
     (if take (length expected) b = expected then Inr (drop (length expected) b) else shuffleError ''Invalid shuffle statement header'')"

definition fixed_head :: "nat \<Rightarrow> bytes" where
  "fixed_head n = (if n < 24 then [0x40 + word_of_nat n] else if n < 256 then [0x58, word_of_nat n] else [0x59, word_of_nat (n div 256), word_of_nat (n mod 256)])"

definition fixed :: "nat \<Rightarrow> bytes \<Rightarrow> shuffle_error + bytes \<times> bytes" where
  "fixed n b =
     rbind (exact (fixed_head n) b) (\<lambda>rest.
     if length (take n rest) \<noteq> n then shuffleError ''Truncated shuffle statement'' else Inr (take n rest, drop n rest))"

definition wide_value :: "bytes \<Rightarrow> nat" where
  "wide_value b = foldl (\<lambda>wide x. wide * 256 + unat x) 0 b"

definition wide_count :: "byte \<Rightarrow> nat" where
  "wide_count tag = (if tag = 24 then 1 else if tag = 25 then 2 else if tag = 26 then 4 else if tag = 27 then 8 else 0)"

definition wide_min :: "nat \<Rightarrow> nat" where
  "wide_min n = (if n = 1 then 24 else if n = 2 then 256 else if n = 4 then 65536 else 4294967296)"

definition decode_round :: "bytes \<Rightarrow> shuffle_error + nat \<times> bytes" where
  "decode_round b =
     (case b of
        [] \<Rightarrow> shuffleError ''Invalid shuffle round encoding''
      | tag # rest \<Rightarrow>
          if tag < 24 then Inr (unat tag, rest)
          else let n = wide_count tag in
            if n = 0 then shuffleError ''Invalid shuffle round encoding''
            else if length rest < n then Inl (ShuffleProtocol (JsError (TypeError ''Cannot convert undefined to a BigInt'')))
            else let wide = wide_value (take n rest) in
              if wide < wide_min n \<or> int wide > MAX_SAFE_INTEGER then shuffleError ''Noncanonical shuffle round''
              else Inr (wide, drop n rest))"

definition decode_seat :: "bytes \<Rightarrow> shuffle_error + nat \<times> bytes" where
  "decode_seat b =
     (case b of
        [] \<Rightarrow> shuffleError ''Invalid shuffle statement header''
      | seat # rest \<Rightarrow> if seat > 3 then shuffleError ''Invalid shuffle seat'' else Inr (unat seat, rest))"

definition decodeCandidateShuffleStatement36 :: "prims \<Rightarrow> 'p ristretto \<Rightarrow> bytes \<Rightarrow> shuffle_error + 'p CandidateShuffleStatement36" where
  "decodeCandidateShuffleStatement36 pr G b =
     (if length b < MIN_CANDIDATE_SHUFFLE_STATEMENT_BYTES pr \<or> length b > MAX_CANDIDATE_SHUFFLE_STATEMENT_BYTES pr
      then shuffleError ''Invalid shuffle statement byte length''
      else rbind (exact (statement_header pr) b) (\<lambda>b1.
      rbind (fixed 16 b1) (\<lambda>(game, b2).
      rbind (catch_as (parseGameId (JBytes game)) ShuffleProtocol) (\<lambda>gameId.
      rbind (decode_round b2) (\<lambda>(round, b3).
      rbind (decode_seat b3) (\<lambda>(seat, b4).
      rbind (fixed 32 b4) (\<lambda>(roster, b5).
      rbind (catch_as (parseHash256 (JBytes roster)) ShuffleProtocol) (\<lambda>rosterHash.
      rbind (fixed 32 b5) (\<lambda>(key, b6).
      rbind (catch_as (point_fromBytes G key) ShuffleRistretto) (\<lambda>aggregateKey.
      if nr_is0 G aggregateKey then shuffleError ''Identity shuffle key''
      else rbind (fixed 2304 b6) (\<lambda>(input, b7).
      rbind (unpackDeck G input) (\<lambda>inputDeck.
      rbind (fixed 2304 b7) (\<lambda>(output, b8).
      rbind (unpackDeck G output) (\<lambda>outputDeck.
      if b8 \<noteq> [] then shuffleError ''Trailing shuffle statement bytes''
      else Inr \<lparr>css_gameId = gameId, css_round = JInt (int round), css_seat = JInt (int seat), css_rosterHash = rosterHash,
        css_aggregateKey = aggregateKey, css_inputDeck = inputDeck, css_outputDeck = outputDeck\<rparr>))))))))))))))"

fun witness_entries :: "'p ristretto \<Rightarrow> nat list \<Rightarrow> (jsnum \<times> nat) list \<Rightarrow> shuffle_error + (bytes \<times> bytes list)" where
  "witness_entries G seen [] = Inr ([], [])"
| "witness_entries G seen ((p, scalar) # entries) =
     (if p = JNonInteger \<or> numval p < 0 \<or> numval p \<ge> 36 \<or> p = JNegZero \<or> nat (numval p) \<in> set seen then shuffleError ''Invalid permutation''
      else if scalar = 0 then shuffleError ''Zero shuffle randomizer''
      else rbind (catch_as (encodeRistrettoScalar G scalar) ShuffleRistretto) (\<lambda>b.
        rbind (witness_entries G (nat (numval p) # seen) entries) (\<lambda>(ps, scalars). Inr (word_of_nat (nat (numval p)) # ps, b # scalars))))"

definition encodeCandidateShuffleWitness36 :: "'p ristretto \<Rightarrow> jsnum list \<Rightarrow> nat list \<Rightarrow> shuffle_error + bytes \<times> bytes" where
  "encodeCandidateShuffleWitness36 G permutation randomizers =
     (if length permutation \<noteq> 36 \<or> length randomizers \<noteq> 36 then shuffleError ''Invalid witness lengths''
      else rbind (witness_entries G [] (zip permutation randomizers)) (\<lambda>(ps, scalars). Inr (ps, concatBytes scalars)))"

section \<open>Proof bytes\<close>

datatype ElementKind = PointElement | ScalarElement

definition SECTIONS :: "(ElementKind \<times> nat) list" where
  "SECTIONS = [(PointElement, 4), (PointElement, 4), (PointElement, 1), (PointElement, 4),
     (PointElement, 2), (PointElement, 9), (ScalarElement, 9), (ScalarElement, 9), (ScalarElement, 3),
     (PointElement, 3), (ScalarElement, 9), (ScalarElement, 9), (ScalarElement, 2),
     (PointElement, 1), (PointElement, 8), (PointElement, 16), (ScalarElement, 4), (ScalarElement, 9)]"

definition KINDS :: "ElementKind list" where
  "KINDS = concat (map (\<lambda>(kind, n). replicate n kind) SECTIONS)"

definition CANDIDATE_SHUFFLE_PROOF_36_PROFILE :: ustr where
  "CANDIDATE_SHUFFLE_PROOF_36_PROFILE = ascii ''bg-ristretto255-36-4x9-proof-candidate-v1''"

definition proof_header :: "prims \<Rightarrow> bytes" where
  "proof_header pr = profile_header pr 0x82 CANDIDATE_SHUFFLE_PROOF_36_PROFILE [0x98, 106]"

definition CANDIDATE_SHUFFLE_PROOF_36_BYTES :: "prims \<Rightarrow> nat" where
  "CANDIDATE_SHUFFLE_PROOF_36_BYTES pr = length (proof_header pr) + 106 * 34"

definition validateElement :: "'p ristretto \<Rightarrow> bytes \<Rightarrow> nat \<Rightarrow> shuffle_error + unit" where
  "validateElement G b index =
     (if KINDS ! index = PointElement then rbind (catch_as (point_fromBytes G b) ShuffleRistretto) (\<lambda>_. Inr ())
      else rbind (catch_as (decodeRistrettoScalar G b) ShuffleRistretto) (\<lambda>_. Inr ()))"

definition proof_element :: "'p ristretto \<Rightarrow> bytes \<Rightarrow> nat \<Rightarrow> shuffle_error + bytes" where
  "proof_element G body i =
     (let chunk = take 34 (drop (i * 34) body) in
      if take 2 chunk \<noteq> [0x58, 32] then shuffleError ''Candidate shuffle proof elements must be canonical 32-byte strings''
      else rbind (validateElement G (drop 2 chunk) i) (\<lambda>_. Inr (drop 2 chunk)))"

definition decodeCandidateShuffleProof36 :: "prims \<Rightarrow> 'p ristretto \<Rightarrow> bytes \<Rightarrow> shuffle_error + bytes list" where
  "decodeCandidateShuffleProof36 pr G b =
     (if length b \<noteq> CANDIDATE_SHUFFLE_PROOF_36_BYTES pr then shuffleError ''Candidate shuffle proof has an incorrect byte length''
      else if take (length (proof_header pr)) b \<noteq> proof_header pr then shuffleError ''Incorrect candidate shuffle proof header''
      else mapM_res (proof_element G (drop (length (proof_header pr)) b)) [0..<106])"

definition encodeCandidateShuffleProof36 :: "prims \<Rightarrow> 'p ristretto \<Rightarrow> bytes list \<Rightarrow> shuffle_error + bytes" where
  "encodeCandidateShuffleProof36 pr G elements =
     (if length elements \<noteq> 106 then shuffleError ''Candidate shuffle proof must contain exactly 106 elements''
      else rbind (mapM_res (\<lambda>(element, i). rbind (validateElement G element i) (\<lambda>_. Inr ([0x58, 32] @ element))) (zip elements [0..<106]))
        (\<lambda>chunks. Inr (proof_header pr @ concat chunks)))"

section \<open>Generators\<close>

definition SHUFFLE_CRS_36_PROFILE :: ustr where
  "SHUFFLE_CRS_36_PROFILE = ascii ''bg-ristretto255-36-4x9-crs-candidate-v1''"

record 'p ShuffleCrs36 =
  crs_encryptionGenerator :: 'p
  crs_proofGenerator :: 'p
  crs_blindingGenerator :: 'p
  crs_messageGenerators :: "'p list"

definition derive_generator :: "prims \<Rightarrow> 'p ristretto \<Rightarrow> string \<Rightarrow> nat \<Rightarrow> 'p list \<Rightarrow> shuffle_error + 'p" where
  "derive_generator pr G role index previous =
     rbind (catch_as (encodeCanonical pr (JArray [JString (ascii ''crs''), JString SHUFFLE_CRS_36_PROFILE, JNumber (JInt 4), JNumber (JInt 9),
       JString (ascii role), JNumber (JInt (int index))])) (\<lambda>e. ShuffleProtocol (CborError e))) (\<lambda>b.
     rbind (catch_as (fromUniformBytes G (sha512 pr [domainSeparator ShuffleD, b])) ShuffleRistretto) (\<lambda>point.
     if nr_is0 G point \<or> list_ex (\<lambda>other. nr_equals G point other \<or> nr_equals G point (nr_negate G other)) previous
     then shuffleError ''Degenerate shuffle CRS; profile revision required'' else Inr point))"

fun message_generators :: "prims \<Rightarrow> 'p ristretto \<Rightarrow> 'p list \<Rightarrow> nat list \<Rightarrow> shuffle_error + 'p list" where
  "message_generators pr G previous [] = Inr []"
| "message_generators pr G previous (i # is) =
     rbind (derive_generator pr G ''message'' i previous) (\<lambda>point.
     rbind (message_generators pr G (previous @ [point]) is) (\<lambda>points. Inr (point # points)))"

definition deriveShuffleCrs36 :: "prims \<Rightarrow> 'p ristretto \<Rightarrow> shuffle_error + 'p ShuffleCrs36" where
  "deriveShuffleCrs36 pr G =
     (let encryptionGenerator = nr_base G in
      rbind (derive_generator pr G ''proof'' 0 [encryptionGenerator]) (\<lambda>proofGenerator.
      rbind (derive_generator pr G ''blinding'' 0 [encryptionGenerator, proofGenerator]) (\<lambda>blindingGenerator.
      rbind (message_generators pr G [encryptionGenerator, proofGenerator, blindingGenerator] [0..<9]) (\<lambda>messageGenerators.
      Inr \<lparr>crs_encryptionGenerator = encryptionGenerator, crs_proofGenerator = proofGenerator,
        crs_blindingGenerator = blindingGenerator, crs_messageGenerators = messageGenerators\<rparr>))))"

end
