(* ===== verification/Shuffle_Codec.thy ===== *)
theory Shuffle_Codec
  imports Deck_Shuffle Example_Envelopes
begin

text \<open>
  The byte formats of a shuffle: for statements and for proofs the decoder that parses by hand
  accepts exactly the bytes that the encoder writes. The encoder of statements goes through the package
  \<open>cbor2\<close>; \<open>cbor_grammar\<close> states the heads that RFC 8949 prescribes for the deterministic encoding of
  numbers, byte strings and arrays.
\<close>

section \<open>Two functions that are inverse to each other\<close>

locale strict_codec =
  fixes laws :: bool and enc :: "'a \<Rightarrow> 'e + bytes" and dec :: "bytes \<Rightarrow> 'f + 'a"
  assumes inverse: "laws \<Longrightarrow> dec b = Inr x \<longleftrightarrow> enc x = Inr b"
begin

lemma one_encoding: "laws \<Longrightarrow> dec a = Inr x \<Longrightarrow> dec b = Inr x \<Longrightarrow> a = b"
  by (simp add: inverse)

lemma encoding_injective: "laws \<Longrightarrow> enc x = Inr b \<Longrightarrow> enc y = Inr b \<Longrightarrow> x = y"
  by (metis inverse sum.inject(2))

lemma accepted_reencodes: "laws \<Longrightarrow> dec b = Inr x \<Longrightarrow> enc x = Inr b"
  by (simp add: inverse)

end

section \<open>Pieces of equal length\<close>

definition pieces :: "nat \<Rightarrow> nat \<Rightarrow> 'a list \<Rightarrow> 'a list list" where
  "pieces w n b = map (\<lambda>i. take w (drop (i * w) b)) [0..<n]"

lemma length_pieces [simp]: "length (pieces w n b) = n"
  by (simp add: pieces_def)

lemma nth_pieces: "i < n \<Longrightarrow> pieces w n b ! i = take w (drop (i * w) b)"
  by (simp add: pieces_def)

lemma pieces_Suc: "pieces w (Suc n) b = take w b # pieces w n (drop w b)"
  by (rule nth_equalityI) (auto simp: nth_Cons nth_pieces drop_drop add.commute split: nat.splits)

lemma concat_pieces: "length b = n * w \<Longrightarrow> concat (pieces w n b) = b"
proof (induction n arbitrary: b)
  case (Suc n)
  then show ?case by (simp add: pieces_Suc)
qed (simp add: pieces_def)

lemma pieces_length: "length b = n * w \<Longrightarrow> c \<in> set (pieces w n b) \<Longrightarrow> length c = w"
proof (induction n arbitrary: b)
  case (Suc n)
  then show ?case using Suc.IH [of "drop w b"] by (auto simp: pieces_Suc)
qed (simp add: pieces_def)

lemma pieces_concat: "(\<And>c. c \<in> set cs \<Longrightarrow> length c = w) \<Longrightarrow> pieces w (length cs) (concat cs) = cs"
  by (induction cs) (simp_all add: pieces_Suc, simp add: pieces_def)

lemma concat_length: "(\<And>c. c \<in> set cs \<Longrightarrow> length c = w) \<Longrightarrow> length (concat cs) = length cs * w"
  by (induction cs) simp_all

lemma mapM_res_map: "mapM_res f (map g xs) = mapM_res (\<lambda>x. f (g x)) xs"
  by (induction xs) simp_all

lemma list_all2_map_eq: "list_all2 (\<lambda>c m. c = g m) cs ms \<longleftrightarrow> cs = map g ms"
  by (induction cs arbitrary: ms) (auto simp: list_all2_Cons1)

section \<open>Heads of deterministic CBOR\<close>

fun be_bytes :: "nat \<Rightarrow> nat \<Rightarrow> bytes" where
  "be_bytes 0 n = []"
| "be_bytes (Suc k) n = be_bytes k (n div 256) @ [word_of_nat (n mod 256)]"

lemma length_be_bytes [simp]: "length (be_bytes k n) = k"
  by (induction k arbitrary: n) simp_all

lemma unat_byte: "n < 256 \<Longrightarrow> unat (word_of_nat n :: byte) = n"
  by (simp add: unat_of_nat take_bit_eq_mod)

lemma wide_value_be: "wide_value (be_bytes k n) = n mod 256 ^ k"
proof (induction k arbitrary: n)
  case (Suc k)
  have "n mod (256 * 256 ^ k) = 256 * (n div 256 mod 256 ^ k) + n mod 256" by (rule mod_mult2_eq)
  then show ?case using Suc by (simp add: wide_value_def unat_byte)
qed (simp add: wide_value_def)

lemma be_wide_value: "be_bytes (length b) (wide_value b) = b"
proof (induction b rule: rev_induct)
  case (snoc x b)
  have x: "unat x < 256" using unsigned_less [of x] by simp
  have v: "wide_value (b @ [x]) = wide_value b * 256 + unat x" by (simp add: wide_value_def)
  have "(wide_value b * 256 + unat x) div 256 = wide_value b" "(wide_value b * 256 + unat x) mod 256 = unat x" using x by simp_all
  then show ?case using snoc by (simp add: v)
qed simp

lemma wide_value_less: "wide_value b < 256 ^ length b"
  by (metis be_wide_value wide_value_be mod_less_divisor zero_less_power zero_less_numeral)

text \<open>The head of a data item of major type \<open>m\<close>: the argument in the shortest of the five forms.\<close>

definition head_width :: "nat \<Rightarrow> nat" where
  "head_width n = (if n < 256 then 1 else if n < 65536 then 2 else if n < 4294967296 then 4 else 8)"

definition head_info :: "nat \<Rightarrow> nat" where
  "head_info k = (if k = 1 then 24 else if k = 2 then 25 else if k = 4 then 26 else 27)"

definition cbor_head :: "nat \<Rightarrow> nat \<Rightarrow> bytes" where
  "cbor_head m n =
     (if n < 24 then [word_of_nat (32 * m + n)]
      else word_of_nat (32 * m + head_info (head_width n)) # be_bytes (head_width n) n)"

lemma head_width_le: "head_width n \<le> 8" "0 < head_width n"
  by (simp_all add: head_width_def)

lemma length_cbor_head: "1 \<le> length (cbor_head m n)" "length (cbor_head m n) \<le> 9"
  using head_width_le(1) [of n] by (simp_all add: cbor_head_def)

lemma be_bytes_short: "be_bytes 1 n = [word_of_nat (n mod 256)]" "be_bytes 2 n = [word_of_nat (n div 256 mod 256), word_of_nat (n mod 256)]"
  by (simp_all add: numeral_2_eq_2)

lemma fixed_head_cbor:
  assumes "n < 65536"
  shows "fixed_head n = cbor_head 2 n"
proof -
  have "n div 256 mod 256 = n div 256" using assms by simp
  moreover have "n < 256 \<Longrightarrow> n mod 256 = n" by simp
  moreover have "(word_of_nat (n mod 256) :: byte) = word_of_nat n" for n
    by (simp add: word_of_nat_eq_iff take_bit_eq_mod)
  ultimately show ?thesis using assms
    by (simp only: fixed_head_def cbor_head_def head_width_def head_info_def be_bytes_short if_True if_False split: if_split) simp
qed

section \<open>The steps of the decoder\<close>

lemma exact_Inr: "exact e b = Inr r \<longleftrightarrow> b = e @ r"
  by (auto simp: exact_def split: if_splits) (metis append_take_drop_id)

lemma fixed_Inr:
  assumes "n < 65536"
  shows "fixed n b = Inr (x, r) \<longleftrightarrow> length x = n \<and> b = cbor_head 2 n @ x @ r"
proof -
  have "fixed n b = Inr (x, r) \<longleftrightarrow> (\<exists>s. b = cbor_head 2 n @ s \<and> length (take n s) = n \<and> x = take n s \<and> r = drop n s)"
    unfolding fixed_def rbind_eq_Inr exact_Inr fixed_head_cbor [OF assms] by (simp split: if_split) blast
  also have "\<dots> \<longleftrightarrow> length x = n \<and> b = cbor_head 2 n @ x @ r"
    by (metis append_take_drop_id append_eq_conv_conj)
  finally show ?thesis .
qed

lemma wide_cases:
  assumes "k = 1 \<or> k = 2 \<or> k = 4 \<or> k = 8"
  shows "wide_min k \<le> n \<and> n < 256 ^ k \<longleftrightarrow> 24 \<le> n \<and> n < 18446744073709551616 \<and> head_width n = k"
  using assms by (elim disjE) (auto simp: wide_min_def head_width_def)

lemma head_tag: "head_width n = k \<Longrightarrow> word_of_nat (head_info k) = (t :: byte) \<longleftrightarrow> k = wide_count t"
  by (auto simp: head_width_def head_info_def wide_count_def split: if_splits)

lemma wide_count_cases: "wide_count t \<noteq> 0 \<Longrightarrow> wide_count t = 1 \<or> wide_count t = 2 \<or> wide_count t = 4 \<or> wide_count t = 8"
  by (simp add: wide_count_def split: if_splits)

lemma decode_round_Inr: "decode_round b = Inr (n, r) \<longleftrightarrow> int n \<le> MAX_SAFE_INTEGER \<and> b = cbor_head 0 n @ r"
proof (cases b)
  case Nil
  then show ?thesis by (auto simp: decode_round_def cbor_head_def)
next
  case (Cons t s)
  have less: "t < 24 \<longleftrightarrow> unat t < 24" by (simp add: word_less_nat_alt)
  show ?thesis
  proof (cases "t < 24")
    case True
    have "cbor_head 0 n @ r = t # s \<longleftrightarrow> n = unat t \<and> r = s"
    proof (cases "n < 24")
      case True
      then show ?thesis using \<open>t < 24\<close> unat_byte [of n] less by (auto simp: cbor_head_def)
    next
      case False
      then have "cbor_head 0 n @ r = t # s \<Longrightarrow> unat t \<ge> 24" by (auto simp: cbor_head_def head_info_def)
      then show ?thesis using False less \<open>t < 24\<close> by auto
    qed
    then show ?thesis using True less Cons by (auto simp: decode_round_def MAX_SAFE_INTEGER_def)
  next
    case False
    let ?k = "wide_count t"
    have "decode_round b = Inr (n, r) \<longleftrightarrow> ?k \<noteq> 0 \<and> ?k \<le> length s \<and> wide_min ?k \<le> n \<and> int n \<le> MAX_SAFE_INTEGER \<and>
        n = wide_value (take ?k s) \<and> r = drop ?k s"
      using False Cons by (auto simp: decode_round_def Let_def split: if_splits)
    also have "\<dots> \<longleftrightarrow> int n \<le> MAX_SAFE_INTEGER \<and> \<not> n < 24 \<and> head_width n = ?k \<and> s = be_bytes ?k n @ r" (is "?l \<longleftrightarrow> ?r")
    proof
      assume l: ?l
      then have "length (take ?k s) = ?k" by simp
      then have "n < 256 ^ ?k" "be_bytes ?k n = take ?k s" using l wide_value_less [of "take ?k s"] be_wide_value [of "take ?k s"] by simp_all
      then show ?r using l wide_cases [OF wide_count_cases, of t n] by auto
    next
      assume r: ?r
      then have "?k \<noteq> 0" using head_width_le(2) [of n] by simp
      moreover have "n < 18446744073709551616" using r by (simp add: MAX_SAFE_INTEGER_def)
      ultimately show ?l using r wide_cases [OF wide_count_cases, of t n] by (auto simp: wide_value_be)
    qed
    also have "\<dots> \<longleftrightarrow> int n \<le> MAX_SAFE_INTEGER \<and> b = cbor_head 0 n @ r"
    proof (cases "n < 24")
      case True
      then show ?thesis using False less unat_byte [of n] Cons by (auto simp: cbor_head_def)
    next
      case n: False
      then show ?thesis using Cons head_tag [of n "head_width n" t] by (auto simp: cbor_head_def)
    qed
    finally show ?thesis .
  qed
qed

lemma decode_seat_Inr: "decode_seat b = Inr (n, r) \<longleftrightarrow> n \<le> 3 \<and> b = cbor_head 0 n @ r"
proof (cases b)
  case (Cons s rest)
  have "s > 3 \<longleftrightarrow> unat s > 3" by (simp add: word_less_nat_alt)
  then show ?thesis using Cons unat_byte [of n] by (auto simp: decode_seat_def cbor_head_def)
qed (auto simp: decode_seat_def cbor_head_def)

section \<open>Decks\<close>

definition card_bytes :: "'p ristretto \<Rightarrow> 'p MaskedCard \<Rightarrow> bytes" where
  "card_bytes G c = nr_toBytes G (mc_A c) @ nr_toBytes G (mc_B c)"

definition deck_bytes :: "'p ristretto \<Rightarrow> 'p MaskedCard list \<Rightarrow> bytes" where
  "deck_bytes G deck = concat (map (card_bytes G) deck)"

lemma length_deck_bytes: "ristretto_laws G \<Longrightarrow> length (deck_bytes G deck) = length deck * 64"
  unfolding deck_bytes_def by (subst concat_length [where w = 64]) (auto simp: card_bytes_def ristrettoD(10))

lemma point_Inr: "ristretto_laws G \<Longrightarrow> point_fromBytes G b = Inr P \<longleftrightarrow> b = nr_toBytes G P"
  using point_bytes_roundtrip point_bytes_back by metis

lemma pointBytes_ok: "ristretto_laws G \<Longrightarrow> pointBytes G P = Inr (nr_toBytes G P)"
  by (simp add: pointBytes_def point_bytes_back)

lemma packDeck_Inr: "ristretto_laws G \<Longrightarrow> packDeck G deck = Inr b \<longleftrightarrow> length deck = 36 \<and> b = deck_bytes G deck"
proof -
  assume laws: "ristretto_laws G"
  have "mapM_res (\<lambda>c. rbind (pointBytes G (mc_A c)) (\<lambda>a. rbind (pointBytes G (mc_B c)) (\<lambda>b. Inr (concatBytes [a, b])))) deck =
    (Inr (map (card_bytes G) deck) :: shuffle_error + _)"
    by (rule mapM_res_all_Inr) (simp add: pointBytes_ok [OF laws] concatBytes_def card_bytes_def)
  then show ?thesis by (auto simp: packDeck_def concatBytes_def deck_bytes_def)
qed

lemma unpackDeck_Inr:
  assumes laws: "ristretto_laws G" and len: "length b = 2304"
  shows "unpackDeck G b = Inr deck \<longleftrightarrow> length deck = 36 \<and> b = deck_bytes G deck"
proof -
  let ?f = "\<lambda>c. rbind (catch_as (point_fromBytes G (take 32 c)) ShuffleRistretto) (\<lambda>A.
    rbind (catch_as (point_fromBytes G (take 32 (drop 32 c))) ShuffleRistretto) (\<lambda>B. Inr \<lparr>mc_A = A, mc_B = B\<rparr>))"
  have "unpackDeck G b = mapM_res ?f (pieces 64 36 b)"
    by (simp add: unpackDeck_def pieces_def mapM_res_map drop_take add.commute)
  also have "\<dots> = Inr deck \<longleftrightarrow> list_all2 (\<lambda>c m. c = card_bytes G m) (pieces 64 36 b) deck"
    unfolding mapM_res_Inr_iff
  proof (rule list.rel_cong_simp [OF refl refl], unfold simp_implies_def)
    fix c m assume "c \<in> set (pieces 64 36 b)"
    then have "length c = 64" using pieces_length [of b 36 64] len by simp
    then have "c = take 32 c @ take 32 (drop 32 c)" "length (take 32 c) = 32" "length (take 32 (drop 32 c)) = 32" by simp_all
    then have "c = card_bytes G m \<longleftrightarrow> take 32 c = nr_toBytes G (mc_A m) \<and> take 32 (drop 32 c) = nr_toBytes G (mc_B m)"
      unfolding card_bytes_def by (metis append_eq_append_conv ristrettoD(10) [OF laws])
    then show "?f c = Inr m \<longleftrightarrow> c = card_bytes G m"
      by (cases m) (auto simp: result_simps point_Inr [OF laws])
  qed
  also have "\<dots> \<longleftrightarrow> pieces 64 36 b = map (card_bytes G) deck" by (rule list_all2_map_eq)
  also have "\<dots> \<longleftrightarrow> length deck = 36 \<and> b = deck_bytes G deck"
  proof
    assume p: "pieces 64 36 b = map (card_bytes G) deck"
    then have "length deck = 36" by (metis length_map length_pieces)
    then show "length deck = 36 \<and> b = deck_bytes G deck" using p concat_pieces [of b 36 64] len by (simp add: deck_bytes_def)
  next
    assume d: "length deck = 36 \<and> b = deck_bytes G deck"
    have "length c = 64" if "c \<in> set (map (card_bytes G) deck)" for c
      using that by (auto simp: card_bytes_def ristrettoD(10) [OF laws])
    then show "pieces 64 36 b = map (card_bytes G) deck"
      using d pieces_concat [of "map (card_bytes G) deck" 64] by (simp add: deck_bytes_def)
  qed
  finally show ?thesis .
qed

section \<open>Statements\<close>

definition statement_ok :: "'p ristretto \<Rightarrow> 'p CandidateShuffleStatement36 \<Rightarrow> bool" where
  "statement_ok G st \<longleftrightarrow> length (css_gameId st) = 16 \<and> length (css_rosterHash st) = 32 \<and>
     (\<exists>r. css_round st = JInt r \<and> 0 \<le> r \<and> r \<le> MAX_SAFE_INTEGER) \<and> (\<exists>s. css_seat st = JInt s \<and> 0 \<le> s \<and> s \<le> 3) \<and>
     css_aggregateKey st \<noteq> nr_zero G \<and> length (css_inputDeck st) = 36 \<and> length (css_outputDeck st) = 36"

definition statement_bytes :: "prims \<Rightarrow> 'p ristretto \<Rightarrow> 'p CandidateShuffleStatement36 \<Rightarrow> bytes" where
  "statement_bytes pr G st = statement_header pr @ cbor_head 2 16 @ css_gameId st @ cbor_head 0 (nat (numval (css_round st))) @
     cbor_head 0 (nat (numval (css_seat st))) @ cbor_head 2 32 @ css_rosterHash st @ cbor_head 2 32 @ nr_toBytes G (css_aggregateKey st) @
     cbor_head 2 2304 @ deck_bytes G (css_inputDeck st) @ cbor_head 2 2304 @ deck_bytes G (css_outputDeck st)"

lemma statement_length:
  assumes "ristretto_laws G" "statement_ok G st"
  shows "MIN_CANDIDATE_SHUFFLE_STATEMENT_BYTES pr \<le> length (statement_bytes pr G st) \<and>
    length (statement_bytes pr G st) \<le> MAX_CANDIDATE_SHUFFLE_STATEMENT_BYTES pr"
proof -
  obtain s where s: "css_seat st = JInt s" "0 \<le> s" "s \<le> 3" using assms(2) by (auto simp: statement_ok_def)
  have heads: "length (cbor_head 2 16) = 1" "length (cbor_head 2 32) = 2" "length (cbor_head 2 2304) = 3" "length (cbor_head 0 (nat s)) = 1"
    using s by (simp_all add: cbor_head_def head_width_def)
  show ?thesis using assms length_cbor_head [of 0 "nat (numval (css_round st))"] s heads
    by (simp add: statement_bytes_def statement_ok_def length_deck_bytes ristrettoD(10) MIN_CANDIDATE_SHUFFLE_STATEMENT_BYTES_def
        MAX_CANDIDATE_SHUFFLE_STATEMENT_BYTES_def)
qed

lemma parse_field_bytes: "parseGameId (JBytes b) = Inr g \<longleftrightarrow> length b = 16 \<and> g = b" "parseHash256 (JBytes b) = Inr h \<longleftrightarrow> length b = 32 \<and> h = b"
  by (auto simp: field_defs split: if_splits)

text \<open>The decoder accepts exactly the bytes of the statements that are well formed.\<close>

lemma decodeStatement_Inr:
  assumes laws: "ristretto_laws G"
  shows "decodeCandidateShuffleStatement36 pr G b = Inr st \<longleftrightarrow> statement_ok G st \<and> b = statement_bytes pr G st"
proof
  assume d: "decodeCandidateShuffleStatement36 pr G b = Inr st"
  show "statement_ok G st \<and> b = statement_bytes pr G st"
    using d unfolding decodeCandidateShuffleStatement36_def
    by (auto simp: result_simps exact_Inr fixed_Inr decode_round_Inr decode_seat_Inr parse_field_bytes point_Inr [OF laws]
        unpackDeck_Inr [OF laws] ristrettoD(9) [OF laws] statement_ok_def statement_bytes_def split: if_splits)
next
  assume "statement_ok G st \<and> b = statement_bytes pr G st"
  then have ok: "statement_ok G st" and b: "b = statement_bytes pr G st" by simp_all
  obtain r s where rs: "css_round st = JInt r" "0 \<le> r" "r \<le> MAX_SAFE_INTEGER" "css_seat st = JInt s" "0 \<le> s" "s \<le> 3"
    using ok by (auto simp: statement_ok_def)
  have accepts: "exact e (e @ rest) = Inr rest" "n < 65536 \<Longrightarrow> length x = n \<Longrightarrow> fixed n (cbor_head 2 n @ x @ rest) = Inr (x, rest)"
    "n < 65536 \<Longrightarrow> length x = n \<Longrightarrow> fixed n (cbor_head 2 n @ x) = Inr (x, [])"
    "int k \<le> MAX_SAFE_INTEGER \<Longrightarrow> decode_round (cbor_head 0 k @ rest) = Inr (k, rest)"
    "k \<le> 3 \<Longrightarrow> decode_seat (cbor_head 0 k @ rest) = Inr (k, rest)" for e rest x n k
    by (simp_all add: exact_Inr fixed_Inr decode_round_Inr decode_seat_Inr)
  have decks: "unpackDeck G (deck_bytes G (css_inputDeck st)) = Inr (css_inputDeck st)"
    "unpackDeck G (deck_bytes G (css_outputDeck st)) = Inr (css_outputDeck st)"
    using ok by (simp_all add: unpackDeck_Inr [OF laws] length_deck_bytes [OF laws] statement_ok_def)
  have parses: "parseGameId (JBytes (css_gameId st)) = Inr (css_gameId st)" "parseHash256 (JBytes (css_rosterHash st)) = Inr (css_rosterHash st)"
    using ok by (simp_all add: parse_field_bytes statement_ok_def)
  show "decodeCandidateShuffleStatement36 pr G b = Inr st"
    using ok rs decks parses statement_length [OF laws ok, of pr] unfolding decodeCandidateShuffleStatement36_def b
    by (simp add: statement_bytes_def accepts point_bytes_back [OF laws] ristrettoD(9,10) [OF laws] length_deck_bytes [OF laws] statement_ok_def)
qed

text \<open>
  What \<open>cbor2\<close> documents of its deterministic encoding, for the values a statement is made of: a
  number is the head of type 0, a byte string follows its head of type 2, the items of an array follow
  its head of type 4, and a text has an encoding.
\<close>

definition cbor_grammar :: "prims \<Rightarrow> bool" where
  "cbor_grammar pr \<longleftrightarrow>
     (\<forall>n. int n \<le> MAX_SAFE_INTEGER \<longrightarrow> cbor2_encode pr (JNumber (JInt (int n))) = Some (cbor_head 0 n)) \<and>
     (\<forall>b. length b < 4294967296 \<longrightarrow> cbor2_encode pr (JBytes b) = Some (cbor_head 2 (length b) @ b)) \<and>
     (\<forall>s. \<exists>b. cbor2_encode pr (JString (ascii s)) = Some b) \<and>
     (\<forall>vs bs. length vs < 4294967296 \<and> list_all2 (\<lambda>v b. cbor2_encode pr v = Some b) vs bs \<longrightarrow>
        cbor2_encode pr (JArray vs) = Some (cbor_head 4 (length vs) @ concat bs))"

lemma encodeStatement_Inr:
  assumes laws: "ristretto_laws G" and grammar: "cbor_grammar pr"
  shows "encodeCandidateShuffleStatement36 pr G st = Inr b \<longleftrightarrow> statement_ok G st \<and> b = statement_bytes pr G st"
proof -
  have safe: "\<not> (\<not> isSafeInteger (css_round st) \<or> numval (css_round st) < 0 \<or> css_round st = JNegZero \<or>
        css_seat st = JNonInteger \<or> numval (css_seat st) < 0 \<or> numval (css_seat st) > 3 \<or> css_seat st = JNegZero) \<longleftrightarrow>
      (\<exists>r. css_round st = JInt r \<and> 0 \<le> r \<and> r \<le> MAX_SAFE_INTEGER) \<and> (\<exists>s. css_seat st = JInt s \<and> 0 \<le> s \<and> s \<le> 3)"
    by (cases "css_round st"; cases "css_seat st") (auto simp: MAX_SAFE_INTEGER_def)
  let ?vs = "[JString CANDIDATE_SHUFFLE_STATEMENT_PROFILE, JBytes (css_gameId st), JNumber (css_round st),
    JNumber (css_seat st), JBytes (css_rosterHash st), JBytes (nr_toBytes G (css_aggregateKey st)),
    JBytes (deck_bytes G (css_inputDeck st)), JBytes (deck_bytes G (css_outputDeck st))]"
  have encoded: "encodeCanonical pr (JArray ?vs) = Inr (statement_bytes pr G st)" if ok: "statement_ok G st"
  proof -
    obtain r s where rs: "css_round st = JInt r" "0 \<le> r" "r \<le> MAX_SAFE_INTEGER" "css_seat st = JInt s" "0 \<le> s" "s \<le> 3"
      using ok by (auto simp: statement_ok_def)
    obtain p where p: "cbor2_encode pr (JString CANDIDATE_SHUFFLE_STATEMENT_PROFILE) = Some p"
      using grammar unfolding cbor_grammar_def CANDIDATE_SHUFFLE_STATEMENT_PROFILE_def by blast
    have "assertCborValue (JString CANDIDATE_SHUFFLE_STATEMENT_PROFILE) = Inr ()"
      by (simp add: assertCborValue_iff CANDIDATE_SHUFFLE_STATEMENT_PROFILE_def)
    then have header: "statement_header pr = 0x88 # p"
      using p by (simp add: statement_header_def profile_header_def encodeCanonical_def)
    have num: "cbor2_encode pr (JNumber (JInt i)) = Some (cbor_head 0 (nat i))" if "0 \<le> i" "i \<le> MAX_SAFE_INTEGER" for i
    proof -
      have "cbor2_encode pr (JNumber (JInt (int (nat i)))) = Some (cbor_head 0 (nat i))"
        using grammar that unfolding cbor_grammar_def by (metis int_nat_eq)
      then show ?thesis using that by simp
    qed
    have bytes: "cbor2_encode pr (JBytes b) = Some (cbor_head 2 (length b) @ b)" if "length b < 4294967296" for b
      using grammar that by (simp add: cbor_grammar_def)
    let ?bs = "[p, cbor_head 2 16 @ css_gameId st, cbor_head 0 (nat r), cbor_head 0 (nat s), cbor_head 2 32 @ css_rosterHash st,
      cbor_head 2 32 @ nr_toBytes G (css_aggregateKey st), cbor_head 2 2304 @ deck_bytes G (css_inputDeck st),
      cbor_head 2 2304 @ deck_bytes G (css_outputDeck st)]"
    have all: "list_all2 (\<lambda>v b. cbor2_encode pr v = Some b) ?vs ?bs"
      using ok rs p by (simp add: num bytes statement_ok_def length_deck_bytes [OF laws] ristrettoD(10) [OF laws] MAX_SAFE_INTEGER_def)
    have "cbor2_encode pr (JArray vs) = Some (cbor_head 4 (length vs) @ concat bs)"
      if "list_all2 (\<lambda>v b. cbor2_encode pr v = Some b) vs bs" "length vs < 4294967296" for vs bs
      using grammar that by (simp add: cbor_grammar_def)
    moreover have "length ?vs = 8" "(8 :: nat) < 4294967296" by simp_all
    ultimately have "cbor2_encode pr (JArray ?vs) = Some (cbor_head 4 8 @ concat ?bs)" using all by metis
    moreover have "assertCborValue (JArray ?vs) = Inr ()"
      using rs by (simp add: assertCborValue_iff CANDIDATE_SHUFFLE_STATEMENT_PROFILE_def MAX_CBOR_NESTING_DEPTH_def MAX_SAFE_INTEGER_def)
    moreover have "cbor_head 4 8 @ concat ?bs = statement_bytes pr G st"
      using rs by (simp add: statement_bytes_def header) (simp add: cbor_head_def)
    ultimately show ?thesis by (simp add: encodeCanonical_def)
  qed
  show ?thesis
    unfolding encodeCandidateShuffleStatement36_def
    using encoded safe by (auto simp: result_simps parse_field_bytes pointBytes_ok [OF laws] point_bytes_back [OF laws] packDeck_Inr [OF laws]
        ristrettoD(9) [OF laws] statement_ok_def split: if_split)
qed

interpretation statement: strict_codec "ristretto_laws G \<and> cbor_grammar pr" "encodeCandidateShuffleStatement36 pr G" "decodeCandidateShuffleStatement36 pr G"
  for pr G
  by unfold_locales (simp add: encodeStatement_Inr decodeStatement_Inr)

text \<open>
  C30: the bytes of a statement are its only encoding. The decoder, which reads the bytes by hand, accepts
  a byte string as a statement exactly when the encoder, which goes through the canonical encoding of
  an array of eight items, writes these bytes for this statement; so nothing else is accepted, no two
  byte strings stand for the same statement, and every statement that can be encoded is read back.
\<close>

theorem statement_codec:
  assumes "ristretto_laws G" and "cbor_grammar pr"
  shows "decodeCandidateShuffleStatement36 pr G b = Inr st \<longleftrightarrow> encodeCandidateShuffleStatement36 pr G st = Inr b"
  using assms by (simp add: statement.inverse)

section \<open>Proofs\<close>

lemma validateElement_length: "validateElement G b i = Inr u \<Longrightarrow> length b = 32"
  by (auto simp: validateElement_def result_simps point_fromBytes_def decodeRistrettoScalar_def RISTRETTO_POINT_LENGTH_def
      RISTRETTO_SCALAR_LENGTH_def split: if_splits)

lemma length_KINDS: "length KINDS = 106"
  by (simp add: KINDS_def SECTIONS_def)

lemma mapM_res_zip: "mapM_res (\<lambda>i. f (xs ! i, i)) [0..<length xs] = mapM_res f (zip xs [0..<length xs])"
proof -
  have "zip xs [0..<length xs] = map (\<lambda>i. (xs ! i, i)) [0..<length xs]" by (rule nth_equalityI) simp_all
  then show ?thesis by (simp add: mapM_res_map)
qed

definition element_bytes :: "bytes \<Rightarrow> bytes" where
  "element_bytes e = [0x58, 32] @ e"

lemma decodeProof_Inr:
  "decodeCandidateShuffleProof36 pr G b = Inr es \<longleftrightarrow> length es = 106 \<and> (\<forall>i < 106. validateElement G (es ! i) i = Inr ()) \<and>
     b = proof_header pr @ concat (map element_bytes es)"
proof
  let ?n = "length (proof_header pr)"
  let ?cs = "pieces 34 106 (drop ?n b)"
  assume d: "decodeCandidateShuffleProof36 pr G b = Inr es"
  then have len: "length (drop ?n b) = 106 * 34" and head: "take ?n b = proof_header pr"
    and es: "mapM_res (proof_element G (drop ?n b)) [0..<106] = Inr es"
    by (auto simp: decodeCandidateShuffleProof36_def CANDIDATE_SHUFFLE_PROOF_36_BYTES_def split: if_splits)
  have n: "length es = 106" using mapM_res_length [OF es] by simp
  have el: "?cs ! i = element_bytes (es ! i) \<and> validateElement G (es ! i) i = Inr ()" if i: "i < 106" for i
  proof -
    have "proof_element G (drop ?n b) i = Inr (es ! i)"
      using es i by (auto simp: mapM_res_Inr_iff list_all2_conv_all_nth)
    then have "take 2 (?cs ! i) = [0x58, 32]" "validateElement G (drop 2 (?cs ! i)) i = Inr ()" "es ! i = drop 2 (?cs ! i)"
      using i by (auto simp: proof_element_def Let_def result_simps nth_pieces split: if_splits)
    then show ?thesis unfolding element_bytes_def by (metis append_take_drop_id)
  qed
  have "?cs = map element_bytes es" using el n by (intro nth_equalityI) simp_all
  then have "b = proof_header pr @ concat (map element_bytes es)" using concat_pieces [OF len] head by (metis append_take_drop_id)
  then show "length es = 106 \<and> (\<forall>i < 106. validateElement G (es ! i) i = Inr ()) \<and> b = proof_header pr @ concat (map element_bytes es)"
    using n el by simp
next
  assume r: "length es = 106 \<and> (\<forall>i < 106. validateElement G (es ! i) i = Inr ()) \<and> b = proof_header pr @ concat (map element_bytes es)"
  have c: "length x = 34" if "x \<in> set (map element_bytes es)" for x
  proof -
    obtain i where i: "i < length es" "x = element_bytes (es ! i)" using \<open>x \<in> set (map element_bytes es)\<close> by (auto simp: in_set_conv_nth)
    then have "validateElement G (es ! i) i = Inr ()" using r by simp
    then show ?thesis using i validateElement_length by (simp add: element_bytes_def)
  qed
  have m: "length (map element_bytes es) = 106" using r by simp
  have len: "length (concat (map element_bytes es)) = 106 * 34" using concat_length [of "map element_bytes es" 34, OF c] unfolding m by simp
  have cs: "pieces 34 106 (concat (map element_bytes es)) = map element_bytes es" using pieces_concat [of "map element_bytes es" 34, OF c] unfolding m by simp
  have "proof_element G (concat (map element_bytes es)) i = Inr (es ! i)" if i: "i < 106" for i
  proof -
    have "take 34 (drop (i * 34) (concat (map element_bytes es))) = element_bytes (es ! i)"
      using nth_pieces [OF i, of 34 "concat (map element_bytes es)"] cs r i by simp
    then show ?thesis using r i by (simp add: proof_element_def Let_def element_bytes_def)
  qed
  then have "mapM_res (proof_element G (concat (map element_bytes es))) [0..<106] = Inr (map (\<lambda>i. es ! i) [0..<106])"
    by (intro mapM_res_all_Inr) simp
  then show "decodeCandidateShuffleProof36 pr G b = Inr es"
    using r len map_nth [of es] by (simp add: decodeCandidateShuffleProof36_def CANDIDATE_SHUFFLE_PROOF_36_BYTES_def)
qed

lemma encodeProof_Inr:
  "encodeCandidateShuffleProof36 pr G es = Inr b \<longleftrightarrow> length es = 106 \<and> (\<forall>i < 106. validateElement G (es ! i) i = Inr ()) \<and>
     b = proof_header pr @ concat (map element_bytes es)"
proof (cases "length es = 106")
  case True
  let ?f = "\<lambda>(element, i). rbind (validateElement G element i) (\<lambda>_. Inr (element_bytes element))"
  have f: "encodeCandidateShuffleProof36 pr G es = rbind (mapM_res ?f (zip es [0..<106])) (\<lambda>chunks. Inr (proof_header pr @ concat chunks))"
    using True by (simp add: encodeCandidateShuffleProof36_def element_bytes_def)
  have "mapM_res ?f (zip es [0..<106]) = Inr cs \<longleftrightarrow> (\<forall>i < 106. validateElement G (es ! i) i = Inr ()) \<and> cs = map element_bytes es" for cs
    using True by (auto simp: mapM_res_Inr_iff list_all2_conv_all_nth result_simps intro!: nth_equalityI)
  then show ?thesis using True by (auto simp: f result_simps)
qed (simp add: encodeCandidateShuffleProof36_def)

interpretation shuffle_proof: strict_codec True "encodeCandidateShuffleProof36 pr G" "decodeCandidateShuffleProof36 pr G"
  for pr G
  by unfold_locales (simp add: encodeProof_Inr decodeProof_Inr)

text \<open>
  The bytes of a proof are its only encoding. A byte string decodes to a list of elements exactly when
  the encoder writes it for that list: 106 elements of 32 bytes, each a canonical point or a canonical
  scalar as its section prescribes, between the header and nothing else.
\<close>

theorem proof_codec:
  "decodeCandidateShuffleProof36 pr G b = Inr es \<longleftrightarrow> encodeCandidateShuffleProof36 pr G es = Inr b"
  by (simp add: shuffle_proof.inverse)

end
