(* ===== verification/Shuffle_Relation.thy ===== *)
theory Shuffle_Relation
  imports Shuffle_Codec
begin

text \<open>
  The relation between the two decks of a shuffle: the output is a permutation of the input in which every
  card is masked once more. What \<open>createUnprovenDeckShuffle\<close> prepares satisfies it, shuffles
  compose, and a chain of them that starts at the public points leaves every card masked
  under the aggregate key. The end of the theory is about the generators of the proof system.
\<close>

section \<open>The relation\<close>

definition remasked :: "'p ristretto \<Rightarrow> 'p \<Rightarrow> 'p MaskedCard \<Rightarrow> nat \<Rightarrow> 'p MaskedCard" where
  "remasked G key c r = \<lparr>mc_A = nr_add G (mc_A c) (times_point G r (nr_base G)), mc_B = nr_add G (mc_B c) (times_point G r key)\<rparr>"

definition shuffles :: "'p ristretto \<Rightarrow> 'p \<Rightarrow> 'p MaskedCard list \<Rightarrow> 'p MaskedCard list \<Rightarrow> nat list \<Rightarrow> nat list \<Rightarrow> bool" where
  "shuffles G key inputs outputs perm rs \<longleftrightarrow>
     mset perm = mset [0..<length inputs] \<and> length rs = length inputs \<and> length outputs = length inputs \<and>
     (\<forall>j < length inputs. outputs ! j = remasked G key (inputs ! (perm ! j)) (rs ! j))"

definition shuffled :: "'p ristretto \<Rightarrow> 'p \<Rightarrow> 'p MaskedCard list \<Rightarrow> 'p MaskedCard list \<Rightarrow> bool" where
  "shuffled G key inputs outputs \<longleftrightarrow> (\<exists>perm rs. shuffles G key inputs outputs perm rs)"

lemma permutation_facts:
  assumes "mset perm = mset [0..<n]"
  shows "length perm = n" "distinct perm" "set perm = {..<n}" "j < n \<Longrightarrow> perm ! j < n"
proof -
  show len: "length perm = n" using assms by (metis length_upt minus_nat.diff_0 size_mset)
  show "distinct perm" using assms by (metis distinct_upt mset_eq_imp_distinct_iff)
  show set_perm: "set perm = {..<n}" using assms by (metis atLeast0LessThan mset_eq_setD set_upt)
  show "j < n \<Longrightarrow> perm ! j < n" using set_perm len nth_mem by blast
qed

lemma remasked_twice:
  assumes "ristretto_laws G"
  shows "remasked G key (remasked G key c r) t = remasked G key c (r + t)"
  by (simp add: remasked_def times_point_add [OF assms] ristrettoD(1) [OF assms])

lemma remasked_zero: "ristretto_laws G \<Longrightarrow> remasked G key c 0 = c"
  by (simp add: remasked_def point_add_zero)

lemma shuffled_refl: "ristretto_laws G \<Longrightarrow> shuffled G key deck deck"
  unfolding shuffled_def shuffles_def
  by (intro exI [of _ "[0..<length deck]"] exI [of _ "replicate (length deck) 0"]) (simp add: remasked_zero)

lemma shuffled_trans:
  assumes laws: "ristretto_laws G" and "shuffled G key a b" "shuffled G key b c"
  shows "shuffled G key a c"
proof -
  obtain p r where f: "shuffles G key a b p r" using assms(2) by (auto simp: shuffled_def)
  obtain q t where g: "shuffles G key b c q t" using assms(3) by (auto simp: shuffled_def)
  note p = permutation_facts [of p "length a"] and q = permutation_facts [of q "length a"]
  have mp: "mset p = mset [0..<length a]" and mq: "mset q = mset [0..<length a]" using f g by (simp_all add: shuffles_def)
  have "mset (map ((!) p) q) = image_mset ((!) p) (mset [0..<length a])" by (simp only: mset_map mq)
  also have "\<dots> = mset p" using p(1) [OF mp] map_nth [of p] by (metis mset_map)
  finally have m: "mset (map ((!) p) q) = mset [0..<length a]" using mp by simp
  have "c ! j = remasked G key (a ! (map ((!) p) q ! j)) (map2 (\<lambda>i t. r ! i + t) q t ! j)" if j: "j < length a" for j
    using f g j q(1) [OF mq] q(4) [OF mq j] by (simp add: shuffles_def remasked_twice [OF laws])
  then have "shuffles G key a c (map ((!) p) q) (map2 (\<lambda>i t. r ! i + t) q t)"
    using f g m q(1) [OF mq] by (simp add: shuffles_def)
  then show ?thesis by (auto simp: shuffled_def)
qed

lemma shuffled_length: "shuffled G key a b \<Longrightarrow> length b = length a"
  by (auto simp: shuffled_def shuffles_def)

text \<open>After any chain of shuffles of the public points, every card is masked under the key.\<close>

lemma shuffled_masks:
  assumes laws: "ristretto_laws G" and s: "shuffled G key (map (initialMaskedCard G) points) deck"
  shows "\<exists>perm. inj_on perm {..<length points} \<and> (\<forall>p < length points. perm p < length points \<and>
    (\<exists>r. deck ! p = \<lparr>mc_A = times_point G r (nr_base G), mc_B = nr_add G (points ! perm p) (times_point G r key)\<rparr>))"
proof -
  obtain q r where f: "shuffles G key (map (initialMaskedCard G) points) deck q r" using s by (auto simp: shuffled_def)
  then have m: "mset q = mset [0..<length points]" by (simp add: shuffles_def)
  note q = permutation_facts [OF m]
  have "inj_on ((!) q) {..<length points}" using q(1,2) by (simp add: inj_on_def nth_eq_iff_index_eq)
  moreover have "deck ! p = \<lparr>mc_A = times_point G (r ! p) (nr_base G), mc_B = nr_add G (points ! (q ! p)) (times_point G (r ! p) key)\<rparr>"
    if "p < length points" for p
    using f that q(4) by (simp add: shuffles_def remasked_def initialMaskedCard_def ristrettoD(3) [OF laws])
  ultimately show ?thesis using q(4) by blast
qed

section \<open>Preparing a shuffle\<close>

lemma copyPoint_ok: "ristretto_laws G \<Longrightarrow> copyPoint G P = Inr P"
  by (simp add: copyPoint_def point_bytes_back)

lemma copy_cards: "ristretto_laws G \<Longrightarrow> mapM_res (copy_card G) deck = Inr deck"
proof -
  assume "ristretto_laws G"
  then have "mapM_res (copy_card G) deck = Inr (map (\<lambda>c. c) deck)" by (intro mapM_res_all_Inr) (simp add: copy_card_def copyPoint_ok)
  then show ?thesis by simp
qed

lemma draw_scalars_usable: "draw_scalars G fill n s = Some (xs, s') \<Longrightarrow> length xs = n \<and> (\<forall>x \<in> set xs. usable G x)"
proof (induction n arbitrary: s xs)
  case (Suc n)
  then obtain x s1 ys where d: "randomNonZeroRistrettoScalar G fill s = Some (x, s1)" "draw_scalars G fill n s1 = Some (ys, s')" "xs = x # ys"
    by (auto split: option.splits)
  then show ?case using Suc.IH [OF d(2)] random_scalar_range [OF d(1)] by (simp add: usable_def)
qed simp

lemma remask_all_ok:
  assumes laws: "ristretto_laws G" and key: "key \<noteq> nr_zero G" and rs: "length rs = length perm" "\<forall>r \<in> set rs. usable G r"
  shows "remask_all G deck key perm rs = Inr (map (\<lambda>(i, j). remasked G key (deck ! i) (rs ! j)) (zip perm [0..<length perm]))"
  unfolding remask_all_def
proof (rule mapM_res_all_Inr)
  fix x assume "x \<in> set (zip perm [0..<length perm])"
  then obtain i j where x: "x = (i, j)" "j < length perm" by (auto simp: set_zip)
  then have "usable G (rs ! j)" using rs by simp
  then show "(case x of (i, j) \<Rightarrow> remaskCard G (deck ! i) (rs ! j) key) = Inr (case x of (i, j) \<Rightarrow> remasked G key (deck ! i) (rs ! j))"
    using x remask_ok [OF laws _ key] by (simp add: remasked_def)
qed

lemma permute_from_ok: "index < UINT32_RANGE \<Longrightarrow> \<exists>r. permute_from fill index xs s = Inr r"
proof (induction index arbitrary: xs s)
  case (Suc index)
  have "randomUint32Below fill (Suc index + 1) s = Inr (drawBelow fill (Suc index + 1) s)" using Suc.prems by (simp add: randomUint32Below_def)
  then show ?case using Suc by (auto split: option.splits)
qed simp

text \<open>
  C29: a prepared shuffle is a shuffle. For a deck of 2 to 128 cards and a key that is not the identity,
  \<open>createUnprovenDeckShuffle\<close> never throws; when the sampling of its randomness ends, it returns the
  given key and deck, and its output is the input permuted by the witness's permutation with card
  \<open>j\<close> masked once more by the witness's scalar \<open>j\<close>, all of which are fresh non-zero scalars.
\<close>

theorem shuffle_prepared:
  assumes laws: "ristretto_laws G" and n: "2 \<le> length deck" "length deck \<le> 128" and key: "key \<noteq> nr_zero G"
  shows "\<exists>made. createUnprovenDeckShuffle G deck key fill s = Inr made \<and>
    (\<forall>us s'. made = Some (us, s') \<longrightarrow> us_aggregateKey us = key \<and> us_inputDeck us = deck \<and>
       shuffles G key deck (us_outputDeck us) (sw_permutation (us_witness us)) (sw_randomizers (us_witness us)) \<and>
       (\<forall>r \<in> set (sw_randomizers (us_witness us)). usable G r))"
proof -
  let ?n = "length deck"
  have "?n - 1 < UINT32_RANGE" using n(2) by (simp add: UINT32_RANGE_def)
  from permute_from_ok [OF this, of fill "[0..<?n]" s] obtain drawn where "permute_from fill (?n - 1) [0..<?n] s = Inr drawn" by blast
  then have drawn: "randomPermutation fill ?n s = Inr drawn" using n(2) by (simp add: randomPermutation_def)
  have start: "createUnprovenDeckShuffle G deck key fill s =
    (case drawn of None \<Rightarrow> Inr None
     | Some (permutation, s') \<Rightarrow> (case draw_scalars G fill ?n s' of None \<Rightarrow> Inr None
        | Some (randomizers, s'') \<Rightarrow> rbind (remask_all G deck key permutation randomizers) (\<lambda>outputDeck.
            Inr (Some (\<lparr>us_aggregateKey = key, us_inputDeck = deck, us_outputDeck = outputDeck,
              us_witness = \<lparr>sw_permutation = permutation, sw_randomizers = randomizers\<rparr>\<rparr>, s'')))))"
    using n key by (simp add: createUnprovenDeckShuffle_def MIN_DECK_SIZE_def MAX_DECK_SIZE_def copyPoint_ok [OF laws]
        copy_cards [OF laws] ristrettoD(9) [OF laws] drawn)
  show ?thesis
  proof (cases "\<exists>perm s1 rs s2. drawn = Some (perm, s1) \<and> draw_scalars G fill ?n s1 = Some (rs, s2)")
    case False
    then have "createUnprovenDeckShuffle G deck key fill s = Inr None" unfolding start by (auto split: option.splits)
    then show ?thesis by simp
  next
    case True
    then obtain perm s1 rs s2 where d: "drawn = Some (perm, s1)" "draw_scalars G fill ?n s1 = Some (rs, s2)" by blast
    have m: "mset perm = mset [0..<?n]" using randomPermutation_permutes [OF drawn [unfolded d(1)]] by simp
    have rs: "length rs = length perm" "\<forall>r \<in> set rs. usable G r" using draw_scalars_usable [OF d(2)] permutation_facts(1) [OF m] by simp_all
    have "shuffles G key deck (map (\<lambda>(i, j). remasked G key (deck ! i) (rs ! j)) (zip perm [0..<length perm])) perm rs"
      using m rs(1) permutation_facts(1) [OF m] by (simp add: shuffles_def)
    then show ?thesis unfolding start d option.case prod.case remask_all_ok [OF laws key rs] rbind_Inr using rs(2) by simp
  qed
qed

section \<open>The worker's input\<close>

lemma witness_entries_ok:
  assumes "distinct (map fst es)" "\<forall>(p, x) \<in> set es. p < 36 \<and> p \<notin> set seen \<and> usable G x"
  shows "witness_entries G seen (map (\<lambda>(p, x). (JInt (int p), x)) es) = Inr (map (\<lambda>(p, x). word_of_nat p) es, map (\<lambda>(p, x). fn_toBytes G x) es)"
  using assms
proof (induction es arbitrary: seen)
  case (Cons e es)
  obtain p x where e: "e = (p, x)" by fastforce
  have "\<forall>(q, y) \<in> set es. q < 36 \<and> q \<notin> set (p # seen) \<and> usable G y" using Cons.prems e by force
  then have "witness_entries G (p # seen) (map (\<lambda>(p, x). (JInt (int p), x)) es) =
    Inr (map (\<lambda>(p, x). word_of_nat p) es, map (\<lambda>(p, x). fn_toBytes G x) es)" using Cons by simp
  then show ?case using Cons.prems(2) e by (simp add: usable_def encodeRistrettoScalar_def assertScalar_ok)
qed simp

text \<open>The witness of a prepared shuffle of 36 cards is an input the prover's encoder accepts.\<close>

lemma prepared_witness_encodes:
  assumes "shuffles G key deck outputs perm rs" "length deck = 36" "\<forall>r \<in> set rs. usable G r"
  shows "encodeCandidateShuffleWitness36 G (map (\<lambda>p. JInt (int p)) perm) rs = Inr (map word_of_nat perm, concat (map (fn_toBytes G) rs))"
proof -
  have m: "mset perm = mset [0..<36]" and rs: "length rs = 36" using assms(1,2) by (simp_all add: shuffles_def)
  note p = permutation_facts [OF m]
  have z: "map fst (zip perm rs) = perm" "map snd (zip perm rs) = rs" using p(1) rs by simp_all
  have "\<forall>(q, x) \<in> set (zip perm rs). q < 36 \<and> q \<notin> set [] \<and> usable G x"
    using p(3) assms(3) by (auto dest: set_zip_leftD set_zip_rightD)
  then have "witness_entries G [] (map (\<lambda>(p, x). (JInt (int p), x)) (zip perm rs)) =
      Inr (map (\<lambda>(p, x). word_of_nat p) (zip perm rs), map (\<lambda>(p, x). fn_toBytes G x) (zip perm rs))"
    by (intro witness_entries_ok) (simp_all add: z p(2))
  moreover have "map (\<lambda>(p, x). (JInt (int p), x)) (zip perm rs) = zip (map (\<lambda>p. JInt (int p)) perm) rs" by (simp add: zip_map1)
  moreover have "map (\<lambda>(p, x). word_of_nat p :: byte) (zip perm rs) = map word_of_nat (map fst (zip perm rs))"
    "map (\<lambda>(p, x). fn_toBytes G x) (zip perm rs) = map (fn_toBytes G) (map snd (zip perm rs))" by (simp_all only: map_map) auto
  ultimately show ?thesis using p(1) rs by (simp add: encodeCandidateShuffleWitness36_def z concatBytes_def)
qed

section \<open>Generators\<close>

definition independent :: "'p ristretto \<Rightarrow> 'p list \<Rightarrow> bool" where
  "independent G ps \<longleftrightarrow> distinct ps \<and> nr_zero G \<notin> set ps \<and> (\<forall>i < length ps. \<forall>j < i. ps ! i \<noteq> nr_negate G (ps ! j))"

lemma derive_generator_fresh:
  "ristretto_laws G \<Longrightarrow> derive_generator pr G role i previous = Inr P \<Longrightarrow> P \<noteq> nr_zero G \<and> (\<forall>Q \<in> set previous. P \<noteq> Q \<and> P \<noteq> nr_negate G Q)"
  by (auto simp: derive_generator_def result_simps ristrettoD(8,9) list_ex_iff split: if_splits)

lemma independent_extend:
  "independent G ps \<Longrightarrow> P \<noteq> nr_zero G \<and> (\<forall>Q \<in> set ps. P \<noteq> Q \<and> P \<noteq> nr_negate G Q) \<Longrightarrow> independent G (ps @ [P])"
  by (auto simp: independent_def nth_append less_Suc_eq)

lemma message_generators_independent:
  assumes laws: "ristretto_laws G"
  shows "message_generators pr G previous ks = Inr ps \<Longrightarrow> independent G previous \<Longrightarrow> independent G (previous @ ps) \<and> length ps = length ks"
proof (induction ks arbitrary: previous ps)
  case (Cons i ks)
  then obtain P qs where d: "derive_generator pr G ''message'' i previous = Inr P" "message_generators pr G (previous @ [P]) ks = Inr qs" "ps = P # qs"
    by (auto simp: result_simps)
  show ?case using Cons.IH [OF d(2) independent_extend [OF Cons.prems(2) derive_generator_fresh [OF laws d(1)]]] d(3) by simp
qed simp

text \<open>
  The generators of the proof system are usable. When the derivation does not throw, it yields nine message
  generators, and these with the base point, the proof generator and the blinding generator are twelve
  distinct points, none of them the identity and none the negative of another.
\<close>

theorem crs_independent:
  assumes laws: "ristretto_laws G" and crs: "deriveShuffleCrs36 pr G = Inr crs"
  shows "crs_encryptionGenerator crs = nr_base G \<and> length (crs_messageGenerators crs) = 9 \<and>
    independent G ([crs_encryptionGenerator crs, crs_proofGenerator crs, crs_blindingGenerator crs] @ crs_messageGenerators crs)"
proof -
  obtain P B ms where d: "derive_generator pr G ''proof'' 0 [nr_base G] = Inr P" "derive_generator pr G ''blinding'' 0 [nr_base G, P] = Inr B"
      "message_generators pr G [nr_base G, P, B] [0..<9] = Inr ms"
      "crs = \<lparr>crs_encryptionGenerator = nr_base G, crs_proofGenerator = P, crs_blindingGenerator = B, crs_messageGenerators = ms\<rparr>"
    using crs unfolding deriveShuffleCrs36_def Let_def by (auto simp: result_simps)
  have "nr_base G \<noteq> nr_zero G" using base_multiple_nonzero [OF laws, of 1] ristrettoD(6) [OF laws] point_add_zero [OF laws] by simp
  then have "independent G [nr_base G]" by (simp add: independent_def)
  note i1 = independent_extend [OF this derive_generator_fresh [OF laws d(1)], simplified]
  note i2 = independent_extend [OF i1 derive_generator_fresh [OF laws d(2)], simplified]
  show ?thesis using message_generators_independent [OF laws d(3) i2] d(4) by simp
qed

end
