(* ===== verification/Shuffle_Ledger.thy ===== *)
theory Shuffle_Ledger
  imports Shuffle_Relation Reveal_Honest Protocol_Lobby
begin

text \<open>
  \<^verbatim>\<open>packages/engine/src/candidate-shuffle-ledger.ts\<close>: the order and the verification of the four shuffles of a
  deck. \<open>accept\<close> is asynchronous: it suspends while the verifier works and while the owner's
  barrier runs, and other calls may come in between. A suspended call is kept in \<open>csl_pending\<close>;
  \<open>accept_start\<close>, \<open>verifier_answers\<close> and \<open>barrier_done\<close> are its three pieces. The verifier is a
  parameter: \<open>Some True\<close> and \<open>Some False\<close> are its answers, \<open>None\<close> a promise that is rejected.
\<close>

section \<open>State\<close>

record 'p CandidateShuffleLedgerOptions =
  cso_setup :: "'p SetupEnvelopeCoordinator"
  cso_roster :: RosterBody
  cso_round :: jsnum
  cso_deckSpec :: DeckSpec

datatype shuffle_ledger_error =
    LedgerError string
  | LedgerShuffle shuffle_error
  | LedgerProtocol protocol_error
  | LedgerDeck deck_error
  | CallbackRejected

abbreviation ledgerError :: "string \<Rightarrow> shuffle_ledger_error + 'a" where
  "ledgerError msg \<equiv> Inl (LedgerError msg)"

datatype 'p pending_accept =
    PendingVerification bytes "'p CandidateShuffleStatement36" bytes bytes
  | PendingCommit bytes "'p CandidateShuffleStatement36"
  | PendingDuplicate

record 'p CandidateShuffleLedger =
  csl_setup :: "'p SetupEnvelopeCoordinator"
  csl_round :: nat
  csl_roster :: RosterBody
  csl_deck :: "'p MaskedCard list"
  csl_seat :: nat
  csl_busy :: bool
  csl_closed :: bool
  csl_accepted :: "bytes list"
  csl_pending :: "'p pending_accept option"

datatype accept_outcome = Suspended | ShuffleAccepted | ShuffleDuplicate

definition newCandidateShuffleLedger ::
    "prims \<Rightarrow> 'p ristretto \<Rightarrow> 'p CandidateShuffleLedgerOptions \<Rightarrow> shuffle_ledger_error + 'p CandidateShuffleLedger" where
  "newCandidateShuffleLedger pr G options =
     (let sec = cso_setup options in
      if su_state (sec_setup sec) \<noteq> SetupComplete \<or> su_aggregateKey (sec_setup sec) = None
      then ledgerError ''Shuffle requires completed setup''
      else rbind (catch_as (rbind (encodeRosterBody (cso_roster options)) decodeRosterBody) LedgerProtocol) (\<lambda>roster.
      if length (rb_seats roster) \<noteq> 4 \<or> length (sec_roster sec) \<noteq> 4 \<or> \<not> bytesEqual (rb_gameId roster) (sec_gameId sec) \<or>
         list_ex (\<lambda>(identity, i). \<not> bytesEqual identity (sec_roster sec ! i)) (zip (rb_seats roster) [0..<length (rb_seats roster)])
      then ledgerError ''Shuffle roster differs from setup''
      else if \<not> isSafeInteger (cso_round options) \<or> numval (cso_round options) < numval (sec_round sec) \<or> cso_round options = JNegZero
      then ledgerError ''Invalid shuffle round''
      else rbind (catch_as (newCardPointTable pr G (cso_deckSpec options)) LedgerDeck) (\<lambda>table.
      if table_size table \<noteq> 36 then ledgerError ''Candidate shuffle requires 36 cards''
      else rbind (mapM_res (\<lambda>i. rbind (catch_as (pointAt table (JInt (int i))) LedgerDeck) (\<lambda>point. Inr (initialMaskedCard G point))) [0..<36]) (\<lambda>deck.
      Inr \<lparr>csl_setup = sec, csl_round = nat (numval (cso_round options)), csl_roster = roster, csl_deck = deck, csl_seat = 0,
        csl_busy = False, csl_closed = False, csl_accepted = [], csl_pending = None\<rparr>))))"

section \<open>Reading\<close>

definition csl_nextSeat :: "'p CandidateShuffleLedger \<Rightarrow> nat option" where
  "csl_nextSeat l = (if csl_seat l = 4 then None else Some (csl_seat l))"

definition csl_complete :: "'p CandidateShuffleLedger \<Rightarrow> bool" where
  "csl_complete l \<longleftrightarrow> \<not> csl_closed l \<and> csl_seat l = 4"

definition nextStatement :: "prims \<Rightarrow> 'p ristretto \<Rightarrow> 'p CandidateShuffleLedger \<Rightarrow> shuffle_ledger_error + bytes" where
  "nextStatement pr G l =
     (if csl_closed l \<or> csl_seat l = 4 then ledgerError ''Shuffle ledger is closed or complete''
      else rbind (catch_as (hashRosterBody pr (csl_roster l)) LedgerProtocol) (\<lambda>rosterHash.
      catch_as (encodeCandidateShuffleStatement36 pr G
        \<lparr>css_gameId = rb_gameId (csl_roster l), css_round = JInt (int (csl_round l)), css_seat = JInt (int (csl_seat l)),
         css_rosterHash = rosterHash, css_aggregateKey = the (su_aggregateKey (sec_setup (csl_setup l))),
         css_inputDeck = csl_deck l, css_outputDeck = csl_deck l\<rparr>) LedgerShuffle))"

definition finalDeck :: "'p CandidateShuffleLedger \<Rightarrow> shuffle_ledger_error + 'p MaskedCard list" where
  "finalDeck l = (if \<not> csl_complete l then ledgerError ''Shuffle chain is incomplete'' else Inr (csl_deck l))"

section \<open>Accepting\<close>

definition shuffle_phase :: "nat \<Rightarrow> nat \<Rightarrow> ustr" where
  "shuffle_phase round seat = ascii (''round.'' @ natText round @ ''.shuffle.'' @ natText seat)"

text \<open>
  The test compares the sorted keys joined by commas, so an object whose only key is
  \<open>proof,statement\<close> passes it too; reading its properties then fails.
\<close>

definition shuffle_body :: "CborValue \<Rightarrow> shuffle_ledger_error + bytes \<times> bytes" where
  "shuffle_body body =
     (case body of
        JObject obj \<Rightarrow>
          if \<not> (keys_are obj [''proof'', ''statement''] \<or> map fst obj = [ascii ''proof,statement''])
          then ledgerError ''Invalid candidate shuffle body''
          else (case (get_prop obj ''statement'', get_prop obj ''proof'') of
                  (JBytes statement, JBytes proof_part) \<Rightarrow> Inr (statement, proof_part)
                | _ \<Rightarrow> ledgerError ''Invalid candidate shuffle body bytes'')
      | _ \<Rightarrow> ledgerError ''Invalid candidate shuffle body'')"

definition extends_deck :: "prims \<Rightarrow> 'p ristretto \<Rightarrow> 'p CandidateShuffleStatement36 \<Rightarrow> 'p CandidateShuffleStatement36 \<Rightarrow> shuffle_ledger_error + unit" where
  "extends_deck pr G statement expected =
     rbind (catch_as (encodeCandidateShuffleStatement36 pr G (statement\<lparr>css_outputDeck := css_outputDeck expected\<rparr>)) LedgerShuffle) (\<lambda>left.
     rbind (catch_as (encodeCandidateShuffleStatement36 pr G expected) LedgerShuffle) (\<lambda>right.
     if \<not> bytesEqual left right then ledgerError ''Shuffle statement does not extend admitted state'' else Inr ()))"

definition read_shuffle ::
    "prims \<Rightarrow> 'p ristretto \<Rightarrow> 'p CandidateShuffleLedger \<Rightarrow> SignedEnvelope \<Rightarrow> shuffle_ledger_error + 'p CandidateShuffleStatement36 \<times> bytes \<times> bytes" where
  "read_shuffle pr G l envelope =
     (if csl_seat l = 4 then ledgerError ''Shuffle chain is complete''
      else if env_type envelope \<noteq> SHUFFLE \<or> \<not> bytesEqual (env_game envelope) (rb_gameId (csl_roster l)) \<or>
         env_round envelope \<noteq> csl_round l \<or> env_phase envelope \<noteq> shuffle_phase (csl_round l) (csl_seat l) \<or>
         \<not> bytesEqual (env_from envelope) (rb_seats (csl_roster l) ! csl_seat l)
      then ledgerError ''Wrong shuffle envelope scope or sender''
      else rbind (shuffle_body (env_body envelope)) (\<lambda>(statementBytes, proofBytes).
      rbind (catch_as (decodeCandidateShuffleStatement36 pr G statementBytes) LedgerShuffle) (\<lambda>statement.
      rbind (catch_as (decodeCandidateShuffleProof36 pr G proofBytes) LedgerShuffle) (\<lambda>_.
      rbind (nextStatement pr G l) (\<lambda>expectedBytes.
      rbind (catch_as (decodeCandidateShuffleStatement36 pr G expectedBytes) LedgerShuffle) (\<lambda>expected.
      rbind (extends_deck pr G statement expected) (\<lambda>_. Inr (statement, statementBytes, proofBytes))))))))"

definition accept_start ::
    "prims \<Rightarrow> 'p ristretto \<Rightarrow> 'p CandidateShuffleLedger \<Rightarrow> bytes \<Rightarrow> 'p CandidateShuffleLedger \<times> (shuffle_ledger_error + accept_outcome)" where
  "accept_start pr G l b =
     (if csl_closed l then (l, ledgerError ''Shuffle ledger is closed'')
      else if csl_busy l then (l, ledgerError ''Shuffle verification is busy'')
      else if length b > 16 * 1024 then (l, ledgerError ''Invalid shuffle envelope size'')
      else case decodeAndVerifyEnvelope pr b of
        Inl e \<Rightarrow> (l, Inl (LedgerProtocol e))
      | Inr received \<Rightarrow>
          if list_ex (\<lambda>previous. bytesEqual previous b) (csl_accepted l)
          then (l\<lparr>csl_busy := True, csl_pending := Some PendingDuplicate\<rparr>, Inr Suspended)
          else case read_shuffle pr G l (art_envelope received) of
            Inl e \<Rightarrow> (l, Inl e)
          | Inr (statement, statementBytes, proofBytes) \<Rightarrow>
              (l\<lparr>csl_busy := True, csl_pending := Some (PendingVerification b statement statementBytes proofBytes)\<rparr>, Inr Suspended))"

text \<open>The end of a call, by \<open>finally\<close>.\<close>

definition settle ::
    "'p CandidateShuffleLedger \<Rightarrow> shuffle_ledger_error + accept_outcome \<Rightarrow> 'p CandidateShuffleLedger \<times> (shuffle_ledger_error + accept_outcome)" where
  "settle l r = (l\<lparr>csl_busy := False, csl_pending := None\<rparr>, r)"

definition verifier_answers ::
    "'p CandidateShuffleLedger \<Rightarrow> (bytes \<Rightarrow> bytes \<Rightarrow> bool option) \<Rightarrow> 'p CandidateShuffleLedger \<times> (shuffle_ledger_error + accept_outcome)" where
  "verifier_answers l verify =
     (case csl_pending l of
        Some (PendingVerification captured statement statementBytes proofBytes) \<Rightarrow>
          (case verify statementBytes proofBytes of
             None \<Rightarrow> settle l (Inl CallbackRejected)
           | Some answer \<Rightarrow>
               if \<not> answer then settle l (ledgerError ''Invalid shuffle proof'')
               else if csl_closed l then settle l (ledgerError ''Shuffle ledger closed during verification'')
               else (l\<lparr>csl_pending := Some (PendingCommit captured statement)\<rparr>, Inr Suspended))
      | _ \<Rightarrow> (l, Inr Suspended))"

definition barrier_done ::
    "'p CandidateShuffleLedger \<Rightarrow> bool \<Rightarrow> 'p CandidateShuffleLedger \<times> (shuffle_ledger_error + accept_outcome)" where
  "barrier_done l resolved =
     (case csl_pending l of
        Some (PendingCommit captured statement) \<Rightarrow>
          if \<not> resolved then settle l (Inl CallbackRejected)
          else if csl_closed l then settle l (ledgerError ''Shuffle ledger closed during receipt'')
          else settle (l\<lparr>csl_deck := css_outputDeck statement, csl_accepted := csl_accepted l @ [captured], csl_seat := csl_seat l + 1\<rparr>)
                 (Inr ShuffleAccepted)
      | Some PendingDuplicate \<Rightarrow>
          if \<not> resolved then settle l (Inl CallbackRejected)
          else if csl_closed l then settle l (ledgerError ''Shuffle ledger closed during receipt'')
          else settle l (Inr ShuffleDuplicate)
      | _ \<Rightarrow> (l, Inr Suspended))"

definition csl_close :: "'p CandidateShuffleLedger \<Rightarrow> 'p CandidateShuffleLedger" where
  "csl_close l = l\<lparr>csl_closed := True\<rparr>"

section \<open>Interleavings\<close>

datatype shuffle_event = AcceptCalled bytes | VerifierAnswers | BarrierDone bool | CloseCalled

fun shuffle_step ::
    "prims \<Rightarrow> 'p ristretto \<Rightarrow> (bytes \<Rightarrow> bytes \<Rightarrow> bool option) \<Rightarrow> 'p CandidateShuffleLedger \<Rightarrow> shuffle_event \<Rightarrow>
     'p CandidateShuffleLedger \<times> (shuffle_ledger_error + accept_outcome)" where
  "shuffle_step pr G verify l (AcceptCalled b) = accept_start pr G l b"
| "shuffle_step pr G verify l VerifierAnswers = verifier_answers l verify"
| "shuffle_step pr G verify l (BarrierDone resolved) = barrier_done l resolved"
| "shuffle_step pr G verify l CloseCalled = (csl_close l, Inr Suspended)"

abbreviation shuffle_next ::
    "prims \<Rightarrow> 'p ristretto \<Rightarrow> (bytes \<Rightarrow> bytes \<Rightarrow> bool option) \<Rightarrow> 'p CandidateShuffleLedger \<Rightarrow> shuffle_event \<Rightarrow> unit + 'p CandidateShuffleLedger" where
  "shuffle_next pr G verify l event \<equiv> Inr (fst (shuffle_step pr G verify l event))"

end
