(* ===== verification/Shuffle_Theorems.thy ===== *)
theory Shuffle_Theorems
  imports Shuffle_Ledger
begin

text \<open>
  The ledger of shuffles is correct. Whatever calls interleave, the accepted envelopes are a chain of
  signed, verified statements of the four seats in order, each taking the deck the previous one
  left; with a sound verifier the final deck is a shuffle of the public points, and the round that
  is played on it has an honestly masked deck.
\<close>

section \<open>What an accepted envelope says\<close>

definition offers ::
    "prims \<Rightarrow> 'p ristretto \<Rightarrow> 'p CandidateShuffleLedger \<Rightarrow> nat \<Rightarrow> bytes \<Rightarrow> 'p CandidateShuffleStatement36 \<Rightarrow> bytes \<Rightarrow> bytes \<Rightarrow> bool" where
  "offers pr G l k captured st statementBytes proofBytes \<longleftrightarrow>
     (\<exists>a h es. decodeAndVerifyEnvelope pr captured = Inr a \<and> env_type (art_envelope a) = SHUFFLE \<and>
        env_game (art_envelope a) = rb_gameId (csl_roster l) \<and> env_round (art_envelope a) = csl_round l \<and>
        env_phase (art_envelope a) = shuffle_phase (csl_round l) k \<and> env_from (art_envelope a) = rb_seats (csl_roster l) ! k \<and>
        shuffle_body (env_body (art_envelope a)) = Inr (statementBytes, proofBytes) \<and>
        decodeCandidateShuffleStatement36 pr G statementBytes = Inr st \<and> decodeCandidateShuffleProof36 pr G proofBytes = Inr es \<and>
        hashRosterBody pr (csl_roster l) = Inr h \<and> css_gameId st = rb_gameId (csl_roster l) \<and>
        css_round st = JInt (int (csl_round l)) \<and> css_seat st = JInt (int k) \<and> css_rosterHash st = h \<and>
        css_aggregateKey st = the (su_aggregateKey (sec_setup (csl_setup l))))"

definition link ::
    "prims \<Rightarrow> 'p ristretto \<Rightarrow> (bytes \<Rightarrow> bytes \<Rightarrow> bool option) \<Rightarrow> 'p CandidateShuffleLedger \<Rightarrow> nat \<Rightarrow> bytes \<Rightarrow>
     'p MaskedCard list \<Rightarrow> 'p MaskedCard list \<Rightarrow> bool" where
  "link pr G verify l k captured inputs outputs \<longleftrightarrow>
     (\<exists>st sb pb. offers pr G l k captured st sb pb \<and> verify sb pb = Some True \<and> css_inputDeck st = inputs \<and> css_outputDeck st = outputs)"

lemma shuffle_body_length: "shuffle_body body = Inr (sb, pb) \<Longrightarrow> \<exists>obj. body = JObject obj"
  by (auto simp: shuffle_body_def split: jsval.splits)

lemma read_shuffle_Inr:
  assumes laws: "ristretto_laws G" "cbor_grammar pr" and r: "read_shuffle pr G l (art_envelope a) = Inr (st, sb, pb)"
    and a: "decodeAndVerifyEnvelope pr captured = Inr a"
  shows "csl_seat l \<noteq> 4" "offers pr G l (csl_seat l) captured st sb pb" "css_inputDeck st = csl_deck l"
proof -
  obtain es expected_bytes expected where d: "csl_seat l \<noteq> 4" "env_type (art_envelope a) = SHUFFLE"
      "env_game (art_envelope a) = rb_gameId (csl_roster l)" "env_round (art_envelope a) = csl_round l"
      "env_phase (art_envelope a) = shuffle_phase (csl_round l) (csl_seat l)" "env_from (art_envelope a) = rb_seats (csl_roster l) ! csl_seat l"
      "shuffle_body (env_body (art_envelope a)) = Inr (sb, pb)" "decodeCandidateShuffleStatement36 pr G sb = Inr st"
      "decodeCandidateShuffleProof36 pr G pb = Inr es" "nextStatement pr G l = Inr expected_bytes"
      "decodeCandidateShuffleStatement36 pr G expected_bytes = Inr expected" "extends_deck pr G st expected = Inr ()"
    using r by (auto simp: read_shuffle_def result_simps split: if_splits)
  obtain h where h: "hashRosterBody pr (csl_roster l) = Inr h" and e: "encodeCandidateShuffleStatement36 pr G
        \<lparr>css_gameId = rb_gameId (csl_roster l), css_round = JInt (int (csl_round l)), css_seat = JInt (int (csl_seat l)),
         css_rosterHash = h, css_aggregateKey = the (su_aggregateKey (sec_setup (csl_setup l))),
         css_inputDeck = csl_deck l, css_outputDeck = csl_deck l\<rparr> = Inr expected_bytes"
    using d(10) by (auto simp: nextStatement_def result_simps split: if_splits)
  have l: "ristretto_laws G \<and> cbor_grammar pr" using laws by simp
  note expected = statement.encoding_injective [OF l e statement.accepted_reencodes [OF l d(11)]]
  obtain b where "encodeCandidateShuffleStatement36 pr G (st\<lparr>css_outputDeck := css_outputDeck expected\<rparr>) = Inr b"
      "encodeCandidateShuffleStatement36 pr G expected = Inr b"
    using d(12) by (auto simp: extends_deck_def result_simps split: if_splits)
  then have eq: "st\<lparr>css_outputDeck := css_outputDeck expected\<rparr> = expected" by (rule statement.encoding_injective [OF l])
  have st: "css_gameId st = css_gameId expected" "css_round st = css_round expected" "css_seat st = css_seat expected"
      "css_rosterHash st = css_rosterHash expected" "css_aggregateKey st = css_aggregateKey expected" "css_inputDeck st = css_inputDeck expected"
    using arg_cong [OF eq, of css_gameId] arg_cong [OF eq, of css_round] arg_cong [OF eq, of css_seat] arg_cong [OF eq, of css_rosterHash]
      arg_cong [OF eq, of css_aggregateKey] arg_cong [OF eq, of css_inputDeck] by simp_all
  show "csl_seat l \<noteq> 4" using d(1) .
  show "offers pr G l (csl_seat l) captured st sb pb"
    using a d(2-9) h st by (simp add: offers_def expected [symmetric])
  show "css_inputDeck st = csl_deck l" using st by (simp add: expected [symmetric])
qed

section \<open>The invariant\<close>

definition deck_chain :: "prims \<Rightarrow> 'p ristretto \<Rightarrow> (bytes \<Rightarrow> bytes \<Rightarrow> bool option) \<Rightarrow> 'p MaskedCard list \<Rightarrow> 'p CandidateShuffleLedger \<Rightarrow> bool" where
  "deck_chain pr G verify initial l \<longleftrightarrow>
     (\<exists>decks. length decks = Suc (csl_seat l) \<and> decks ! 0 = initial \<and> decks ! csl_seat l = csl_deck l \<and>
        (\<forall>k < csl_seat l. link pr G verify l k (csl_accepted l ! k) (decks ! k) (decks ! Suc k)))"

fun pending_ok :: "prims \<Rightarrow> 'p ristretto \<Rightarrow> (bytes \<Rightarrow> bytes \<Rightarrow> bool option) \<Rightarrow> 'p CandidateShuffleLedger \<Rightarrow> 'p pending_accept \<Rightarrow> bool" where
  "pending_ok pr G verify l (PendingVerification captured st sb pb) \<longleftrightarrow>
     csl_seat l < 4 \<and> offers pr G l (csl_seat l) captured st sb pb \<and> css_inputDeck st = csl_deck l"
| "pending_ok pr G verify l (PendingCommit captured st) \<longleftrightarrow>
     csl_seat l < 4 \<and> link pr G verify l (csl_seat l) captured (csl_deck l) (css_outputDeck st)"
| "pending_ok pr G verify l PendingDuplicate \<longleftrightarrow> True"

definition shuffle_inv ::
    "prims \<Rightarrow> 'p ristretto \<Rightarrow> (bytes \<Rightarrow> bytes \<Rightarrow> bool option) \<Rightarrow> 'p CandidateShuffleLedgerOptions \<Rightarrow> 'p CandidateShuffleLedger \<Rightarrow> bool" where
  "shuffle_inv pr G verify options l \<longleftrightarrow>
     csl_setup l = cso_setup options \<and> csl_roster l = cso_roster options \<and> int (csl_round l) = max 0 (numval (cso_round options)) \<and>
     csl_seat l \<le> 4 \<and> length (csl_accepted l) = csl_seat l \<and> (csl_busy l \<longleftrightarrow> csl_pending l \<noteq> None) \<and>
     (\<exists>table. newCardPointTable pr G (cso_deckSpec options) = Inr table \<and> table_size table = 36 \<and>
        deck_chain pr G verify (map (initialMaskedCard G) (cpt_points table)) l) \<and>
     (\<forall>p. csl_pending l = Some p \<longrightarrow> pending_ok pr G verify l p)"

lemma scope_only:
  "csl_setup l' = csl_setup l \<Longrightarrow> csl_roster l' = csl_roster l \<Longrightarrow> csl_round l' = csl_round l \<Longrightarrow>
     offers pr G l' k = offers pr G l k \<and> link pr G verify l' k = link pr G verify l k"
  by (simp add: offers_def link_def fun_eq_iff)

text \<open>A step that changes neither the scope nor the chain.\<close>

lemma shuffle_inv_control:
  assumes inv: "shuffle_inv pr G verify options l" and same: "csl_setup l' = csl_setup l" "csl_roster l' = csl_roster l"
    "csl_round l' = csl_round l" "csl_deck l' = csl_deck l" "csl_seat l' = csl_seat l" "csl_accepted l' = csl_accepted l"
    and control: "csl_busy l' \<longleftrightarrow> csl_pending l' \<noteq> None" "\<And>p. csl_pending l' = Some p \<Longrightarrow> pending_ok pr G verify l p"
  shows "shuffle_inv pr G verify options l'"
proof -
  have "offers pr G l' k = offers pr G l k" "link pr G verify l' k = link pr G verify l k" for k using scope_only [OF same(1,2,3)] by auto
  moreover then have "pending_ok pr G verify l' p = pending_ok pr G verify l p" for p using same by (cases p) simp_all
  ultimately show ?thesis using inv same control unfolding shuffle_inv_def deck_chain_def by metis
qed

lemma deck_chain_extend:
  assumes chain: "deck_chain pr G verify initial l" and n: "length (csl_accepted l) = csl_seat l"
    and new: "link pr G verify l (csl_seat l) captured (csl_deck l) outputs"
    and same: "csl_setup l' = csl_setup l" "csl_roster l' = csl_roster l" "csl_round l' = csl_round l"
    and l': "csl_deck l' = outputs" "csl_seat l' = Suc (csl_seat l)" "csl_accepted l' = csl_accepted l @ [captured]"
  shows "deck_chain pr G verify initial l'"
proof -
  obtain decks where d: "length decks = Suc (csl_seat l)" "decks ! 0 = initial" "decks ! csl_seat l = csl_deck l"
      "\<forall>k < csl_seat l. link pr G verify l k (csl_accepted l ! k) (decks ! k) (decks ! Suc k)"
    using chain by (auto simp: deck_chain_def)
  have k: "link pr G verify l' k = link pr G verify l k" for k using scope_only [OF same] by simp
  have "link pr G verify l' k (csl_accepted l' ! k) ((decks @ [outputs]) ! k) ((decks @ [outputs]) ! Suc k)" if "k < Suc (csl_seat l)" for k
  proof (cases "k = csl_seat l")
    case True
    then show ?thesis using d(1,3) new n by (simp add: k l' nth_append)
  next
    case False
    then show ?thesis using d(1,4) that n by (simp add: k l' nth_append)
  qed
  then show ?thesis unfolding deck_chain_def using d l' by (intro exI [of _ "decks @ [outputs]"]) (simp add: nth_append)
qed

lemma table_points: "newCardPointTable pr G spec = Inr table \<Longrightarrow> length (cpt_points table) = table_size table"
  using table_entries [of pr G "spec_id spec" "[]" "[]" "[]" "spec_cards spec" table]
  by (auto simp: newCardPointTable_def table_size_def split: if_splits)

lemma new_shuffle_ledgerD:
  assumes "newCandidateShuffleLedger pr G options = Inr l"
  obtains table where "newCardPointTable pr G (cso_deckSpec options) = Inr table" "table_size table = 36"
    "l = \<lparr>csl_setup = cso_setup options, csl_round = nat (numval (cso_round options)), csl_roster = cso_roster options,
       csl_deck = map (initialMaskedCard G) (cpt_points table), csl_seat = 0, csl_busy = False, csl_closed = False,
       csl_accepted = [], csl_pending = None\<rparr>"
    "su_state (sec_setup (cso_setup options)) = SetupComplete" "su_aggregateKey (sec_setup (cso_setup options)) \<noteq> None"
    "roster_ok (cso_roster options)" "rb_seats (cso_roster options) = sec_roster (cso_setup options)" "length (sec_roster (cso_setup options)) = 4"
    "rb_gameId (cso_roster options) = sec_gameId (cso_setup options)"
proof -
  let ?sec = "cso_setup options"
  obtain roster table deck where d: "su_state (sec_setup ?sec) = SetupComplete" "su_aggregateKey (sec_setup ?sec) \<noteq> None"
      "rbind (encodeRosterBody (cso_roster options)) decodeRosterBody = Inr roster"
      "length (rb_seats roster) = 4" "length (sec_roster ?sec) = 4" "rb_gameId roster = sec_gameId ?sec"
      "\<not> list_ex (\<lambda>(identity, i). \<not> bytesEqual identity (sec_roster ?sec ! i)) (zip (rb_seats roster) [0..<length (rb_seats roster)])"
      "newCardPointTable pr G (cso_deckSpec options) = Inr table" "table_size table = 36"
      "mapM_res (\<lambda>i. rbind (catch_as (pointAt table (JInt (int i))) LedgerDeck) (\<lambda>point. Inr (initialMaskedCard G point))) [0..<36] = Inr deck"
      "l = \<lparr>csl_setup = ?sec, csl_round = nat (numval (cso_round options)), csl_roster = roster, csl_deck = deck, csl_seat = 0,
        csl_busy = False, csl_closed = False, csl_accepted = [], csl_pending = None\<rparr>"
    using assms by (auto simp: newCandidateShuffleLedger_def Let_def result_simps split: if_splits)
  have roster: "roster = cso_roster options \<and> roster_ok roster"
    using d(3) by (auto simp: result_simps encodeRoster_Inr decode_roster_value)
  have seats: "rb_seats roster = sec_roster ?sec"
  proof (rule nth_equalityI)
    fix i assume "i < length (rb_seats roster)"
    then have "(rb_seats roster ! i, i) \<in> set (zip (rb_seats roster) [0..<length (rb_seats roster)])" by (force simp: set_zip)
    then show "rb_seats roster ! i = sec_roster ?sec ! i" using d(7) by (auto simp: list_ex_iff)
  qed (simp add: d(4,5))
  have n: "length (cpt_points table) = 36" using table_points [OF d(8)] d(9) by simp
  have "mapM_res (\<lambda>i. rbind (catch_as (pointAt table (JInt (int i))) LedgerDeck) (\<lambda>point. Inr (initialMaskedCard G point))) [0..<36] =
      (Inr (map (\<lambda>i. initialMaskedCard G (cpt_points table ! i)) [0..<36]) :: shuffle_ledger_error + _)"
    by (rule mapM_res_all_Inr) (simp add: pointAt_def assertPosition_def d(9))
  also have "map (\<lambda>i. initialMaskedCard G (cpt_points table ! i)) [0..<36] = map (initialMaskedCard G) (cpt_points table)"
    using n by (intro nth_equalityI) simp_all
  finally have deck: "deck = map (initialMaskedCard G) (cpt_points table)" using d(10) by simp
  have "roster_ok (cso_roster options)" "rb_seats (cso_roster options) = sec_roster ?sec" "rb_gameId (cso_roster options) = sec_gameId ?sec"
    using roster seats d(6) by metis+
  then show thesis using that [OF d(8,9) _ d(1,2)] d(5,11) deck roster by blast
qed

lemma new_shuffle_inv:
  assumes "newCandidateShuffleLedger pr G options = Inr l"
  shows "shuffle_inv pr G verify options l"
  using assms
proof (rule new_shuffle_ledgerD)
  fix table
  assume t: "newCardPointTable pr G (cso_deckSpec options) = Inr table" "table_size table = 36"
    and l: "l = \<lparr>csl_setup = cso_setup options, csl_round = nat (numval (cso_round options)), csl_roster = cso_roster options,
       csl_deck = map (initialMaskedCard G) (cpt_points table), csl_seat = 0, csl_busy = False, csl_closed = False,
       csl_accepted = [], csl_pending = None\<rparr>"
  have "deck_chain pr G verify (map (initialMaskedCard G) (cpt_points table)) l"
    unfolding deck_chain_def by (intro exI [of _ "[csl_deck l]"]) (simp add: l)
  then show ?thesis using t by (auto simp: shuffle_inv_def l)
qed

lemma accept_start_cases:
  assumes laws: "ristretto_laws G" "cbor_grammar pr" and inv: "shuffle_inv pr G verify options l"
  obtains (refused) e where "accept_start pr G l b = (l, Inl e)"
  | (duplicate) "b \<in> set (csl_accepted l)" "accept_start pr G l b = (l\<lparr>csl_busy := True, csl_pending := Some PendingDuplicate\<rparr>, Inr Suspended)"
      "\<not> csl_busy l" "\<not> csl_closed l"
  | (verification) st sb pb where "accept_start pr G l b =
        (l\<lparr>csl_busy := True, csl_pending := Some (PendingVerification b st sb pb)\<rparr>, Inr Suspended)" "\<not> csl_busy l" "\<not> csl_closed l"
      "pending_ok pr G verify l (PendingVerification b st sb pb)"
proof (cases "csl_closed l \<or> csl_busy l \<or> length b > 16 * 1024")
  case True
  then have "\<exists>e. accept_start pr G l b = (l, Inl e)"
    by (cases "csl_closed l"; cases "csl_busy l"; cases "length b > 16 * 1024") (simp_all add: accept_start_def)
  then show thesis using refused by blast
next
  case False
  then have idle: "\<not> csl_busy l" "\<not> csl_closed l" by simp_all
  have start: "accept_start pr G l b = (case decodeAndVerifyEnvelope pr b of Inl e \<Rightarrow> (l, Inl (LedgerProtocol e)) | Inr received \<Rightarrow>
      if b \<in> set (csl_accepted l) then (l\<lparr>csl_busy := True, csl_pending := Some PendingDuplicate\<rparr>, Inr Suspended)
      else case read_shuffle pr G l (art_envelope received) of Inl e \<Rightarrow> (l, Inl e)
        | Inr (st, sb, pb) \<Rightarrow> (l\<lparr>csl_busy := True, csl_pending := Some (PendingVerification b st sb pb)\<rparr>, Inr Suspended))"
    using False by (simp add: accept_start_def list_ex_iff cong: sum.case_cong)
  show thesis
  proof (cases "decodeAndVerifyEnvelope pr b")
    case (Inl e)
    show thesis by (rule refused) (simp add: start Inl)
  next
    case (Inr a)
    show thesis
    proof (cases "b \<in> set (csl_accepted l)")
      case True
      show thesis by (rule duplicate [OF True _ idle]) (simp add: start Inr True)
    next
      case new: False
      show thesis
      proof (cases "read_shuffle pr G l (art_envelope a)")
        case (Inl e)
        show thesis by (rule refused) (simp add: start Inr new Inl)
      next
        case read: (Inr r)
        obtain st sb pb where r: "r = (st, sb, pb)" by (cases r) auto
        note offer = read_shuffle_Inr [OF laws read [unfolded r] Inr]
        have "csl_seat l \<le> 4" using inv by (simp add: shuffle_inv_def)
        then have "pending_ok pr G verify l (PendingVerification b st sb pb)" using offer by simp
        then show thesis using verification [OF _ idle] by (simp add: start Inr new read r)
      qed
    qed
  qed
qed

lemma settle_inv: "shuffle_inv pr G verify options l \<Longrightarrow> shuffle_inv pr G verify options (fst (settle l r))"
  by (rule shuffle_inv_control [of _ _ _ _ l]) (simp_all add: settle_def)

lemma verifier_answers_inv:
  assumes inv: "shuffle_inv pr G verify options l"
  shows "shuffle_inv pr G verify options (fst (verifier_answers l verify))"
proof (cases "\<exists>captured st sb pb. csl_pending l = Some (PendingVerification captured st sb pb) \<and> verify sb pb = Some True \<and> \<not> csl_closed l")
  case True
  then obtain captured st sb pb where p: "csl_pending l = Some (PendingVerification captured st sb pb)" "verify sb pb = Some True" "\<not> csl_closed l" by blast
  then have ok: "csl_seat l < 4" "offers pr G l (csl_seat l) captured st sb pb" "css_inputDeck st = csl_deck l" and busy: "csl_busy l"
    using inv by (auto simp: shuffle_inv_def)
  then have "pending_ok pr G verify l (PendingCommit captured st)" using p(2) by (auto simp: link_def)
  then have "shuffle_inv pr G verify options (l\<lparr>csl_pending := Some (PendingCommit captured st)\<rparr>)"
    using busy by (intro shuffle_inv_control [OF inv]) auto
  then show ?thesis using p by (simp add: verifier_answers_def)
next
  case False
  then have "fst (verifier_answers l verify) = l \<or> (\<exists>r. verifier_answers l verify = settle l r)"
    by (auto simp: verifier_answers_def split: option.splits pending_accept.splits if_splits)
  then show ?thesis using inv settle_inv by metis
qed

lemma barrier_done_cases:
  obtains (idle) "fst (barrier_done l resolved) = l" | (ended) r where "barrier_done l resolved = settle l r" "r \<noteq> Inr ShuffleAccepted"
  | (commit) captured st where "csl_pending l = Some (PendingCommit captured st)" "\<not> csl_closed l" "resolved"
      "barrier_done l resolved = settle (l\<lparr>csl_deck := css_outputDeck st, csl_accepted := csl_accepted l @ [captured], csl_seat := csl_seat l + 1\<rparr>)
         (Inr ShuffleAccepted)"
proof (cases "csl_pending l")
  case None
  then show thesis using idle by (simp add: barrier_done_def)
next
  case (Some p)
  show thesis
  proof (cases p)
    case (PendingVerification captured st sb pb)
    then show thesis using idle Some by (simp add: barrier_done_def)
  next
    case (PendingCommit captured st)
    then show thesis using ended commit [of captured st] Some by (cases resolved; cases "csl_closed l") (auto simp: barrier_done_def)
  next
    case PendingDuplicate
    then show thesis using ended Some by (cases resolved; cases "csl_closed l") (auto simp: barrier_done_def)
  qed
qed

lemma barrier_done_inv:
  assumes inv: "shuffle_inv pr G verify options l"
  shows "shuffle_inv pr G verify options (fst (barrier_done l resolved))"
proof (cases rule: barrier_done_cases [of l resolved])
  case idle
  then show ?thesis using inv by simp
next
  case (ended r)
  then show ?thesis using inv settle_inv by simp
next
  case (commit captured st)
  let ?l = "fst (barrier_done l resolved)"
  have ok: "csl_seat l < 4" "link pr G verify l (csl_seat l) captured (csl_deck l) (css_outputDeck st)"
    using inv commit(1) by (auto simp: shuffle_inv_def)
  have n: "length (csl_accepted l) = csl_seat l" using inv by (simp add: shuffle_inv_def)
  have "deck_chain pr G verify initial ?l" if "deck_chain pr G verify initial l" for initial
    by (rule deck_chain_extend [OF that n ok(2)]) (simp_all add: commit(4) settle_def)
  then show ?thesis using inv ok(1) commit(4) by (auto simp: shuffle_inv_def settle_def)
qed

lemma shuffle_step_inv:
  assumes "ristretto_laws G" "cbor_grammar pr" and inv: "shuffle_inv pr G verify options l"
  shows "shuffle_inv pr G verify options (fst (shuffle_step pr G verify l event))"
proof (cases event)
  case (AcceptCalled b)
  from assms show ?thesis
  proof (cases rule: accept_start_cases [of G pr verify options l b])
    case duplicate
    then show ?thesis using AcceptCalled by (auto intro: shuffle_inv_control [OF inv])
  next
    case (verification st sb pb)
    then have "shuffle_inv pr G verify options (l\<lparr>csl_busy := True, csl_pending := Some (PendingVerification b st sb pb)\<rparr>)"
      by (intro shuffle_inv_control [OF inv]) auto
    then show ?thesis using AcceptCalled verification(1) by simp
  qed (use AcceptCalled inv in simp)
next
  case CloseCalled
  have "csl_busy l \<longleftrightarrow> csl_pending l \<noteq> None" "\<And>p. csl_pending l = Some p \<Longrightarrow> pending_ok pr G verify l p" using inv by (auto simp: shuffle_inv_def)
  then show ?thesis using CloseCalled by (auto simp: csl_close_def intro!: shuffle_inv_control [OF inv])
qed (simp_all add: verifier_answers_inv [OF inv] barrier_done_inv [OF inv])

definition shuffle_start :: "prims \<Rightarrow> 'p ristretto \<Rightarrow> 'p CandidateShuffleLedgerOptions \<Rightarrow> 'p CandidateShuffleLedger \<Rightarrow> bool" where
  "shuffle_start pr G options l \<longleftrightarrow> newCandidateShuffleLedger pr G options = Inr l"

interpretation shuffle_machine: error_machine "shuffle_start pr G options" "shuffle_next pr G verify"
    "\<lambda>l. ristretto_laws G \<and> cbor_grammar pr \<longrightarrow> shuffle_inv pr G verify options l"
  for pr and G :: "'p ristretto" and options and verify
  by unfold_locales (auto simp: shuffle_start_def new_shuffle_inv shuffle_step_inv)

section \<open>The chain\<close>

text \<open>
  C27: shuffles form a chain in seat order. For every interleaving of calls, answers of the verifier, ends of
  the barrier and closings, at most one call is suspended, the accepted envelopes number at most four, and
  envelope \<open>k\<close> is signed by the identity of seat \<open>k\<close> for this game, this round and the
  phase of seat \<open>k\<close>; its statement, whose proof the verifier has accepted, takes the deck that the
  previous seat left, starting from the public points of the cards, and the ledger's deck is the output of the last.
\<close>

theorem shuffle_chain:
  assumes laws: "ristretto_laws G" and grammar: "cbor_grammar pr"
    and reach: "reachable (shuffle_start pr G options) (shuffle_next pr G verify) l"
  shows "(csl_busy l \<longleftrightarrow> csl_pending l \<noteq> None) \<and> csl_seat l \<le> 4 \<and> length (csl_accepted l) = csl_seat l \<and>
    csl_setup l = cso_setup options \<and> csl_roster l = cso_roster options \<and>
    (\<exists>table decks. newCardPointTable pr G (cso_deckSpec options) = Inr table \<and> length decks = Suc (csl_seat l) \<and>
       decks ! 0 = map (initialMaskedCard G) (cpt_points table) \<and> decks ! csl_seat l = csl_deck l \<and>
       (\<forall>k < csl_seat l. link pr G verify l k (csl_accepted l ! k) (decks ! k) (decks ! Suc k)))"
proof -
  have "shuffle_inv pr G verify options l" using shuffle_machine.reachable_good [OF reach] laws grammar by simp
  then show ?thesis by (auto simp: shuffle_inv_def deck_chain_def)
qed

text \<open>A verifier is sound when it only accepts statements whose output deck is a shuffle of their input deck.\<close>

definition verifier_sound :: "prims \<Rightarrow> 'p ristretto \<Rightarrow> (bytes \<Rightarrow> bytes \<Rightarrow> bool option) \<Rightarrow> bool" where
  "verifier_sound pr G verify \<longleftrightarrow> (\<forall>sb pb st. verify sb pb = Some True \<and> decodeCandidateShuffleStatement36 pr G sb = Inr st \<longrightarrow>
     shuffled G (css_aggregateKey st) (css_inputDeck st) (css_outputDeck st))"

lemma link_shuffled:
  "verifier_sound pr G verify \<Longrightarrow> link pr G verify l k captured a b \<Longrightarrow> shuffled G (the (su_aggregateKey (sec_setup (csl_setup l)))) a b"
  unfolding link_def offers_def verifier_sound_def by metis

lemma chain_shuffled:
  assumes laws: "ristretto_laws G" and sound: "verifier_sound pr G verify" and chain: "deck_chain pr G verify initial l"
  shows "shuffled G (the (su_aggregateKey (sec_setup (csl_setup l)))) initial (csl_deck l)"
proof -
  let ?K = "the (su_aggregateKey (sec_setup (csl_setup l)))"
  obtain decks where d: "decks ! 0 = initial" "decks ! csl_seat l = csl_deck l"
      "\<forall>k < csl_seat l. link pr G verify l k (csl_accepted l ! k) (decks ! k) (decks ! Suc k)"
    using chain by (auto simp: deck_chain_def)
  have "k \<le> csl_seat l \<Longrightarrow> shuffled G ?K initial (decks ! k)" for k
  proof (induction k)
    case 0
    then show ?case using d(1) shuffled_refl [OF laws] by simp
  next
    case (Suc k)
    then have "link pr G verify l k (csl_accepted l ! k) (decks ! k) (decks ! Suc k)" using d(3) by simp
    note step = link_shuffled [OF sound this]
    have "shuffled G ?K initial (decks ! k)" using Suc by simp
    then show ?case by (rule shuffled_trans [OF laws _ step])
  qed
  then show ?thesis using d(2) by (metis order_refl)
qed

section \<open>The round on a shuffled deck\<close>

lemma copied_card_ok: "ristretto_laws G \<Longrightarrow> copied_card G c = Inr c"
  by (simp add: copied_card_def point_bytes_back)

lemma new_round_on_deck:
  assumes laws: "ristretto_laws G" and new: "newRoundRevealLedger pr G options = Inr rl"
    and n: "length (sec_roster (rro_setup options)) = length (su_keyShares (sec_setup (rro_setup options)))"
  obtains table where "newCardPointTable pr G (rro_deckSpec options) = Inr table" "rl_table rl = table" "rl_deck rl = rro_deck options"
    "length (rro_deck options) = table_size table" "rl_publicKeys rl = keys_of (sec_setup (rro_setup options))"
    "rl_shares rl = replicate (length (rro_deck options)) []" "rl_revealed rl = []"
proof -
  let ?sec = "rro_setup options"
  obtain keys table deck where r: "mapM_res (copied_key G ?sec) [0..<length (sec_roster ?sec)] = Inr keys"
      "newCardPointTable pr G (rro_deckSpec options) = Inr table" "length (rro_deck options) = table_size table"
      "mapM_res (copied_card G) (rro_deck options) = Inr deck"
      "rl_publicKeys rl = keys" "rl_table rl = table" "rl_deck rl = deck" "rl_shares rl = replicate (length deck) []" "rl_revealed rl = []"
    using new by (auto simp: newRoundRevealLedger_def Let_def result_simps split: if_splits)
  have "mapM_res (copied_card G) (rro_deck options) = (Inr (map (\<lambda>c. c) (rro_deck options)) :: reveal_error + _)"
    by (rule mapM_res_all_Inr) (simp add: copied_card_ok [OF laws])
  then have deck: "deck = rro_deck options" using r(4) by simp
  have "keys = keys_of (sec_setup ?sec)"
  proof (rule nth_equalityI)
    show len: "length keys = length (keys_of (sec_setup ?sec))" using mapM_res_length [OF r(1)] n by (simp add: keys_of_def)
    fix i assume i: "i < length keys"
    then have j: "i < length (su_keyShares (sec_setup ?sec))" using len by (simp add: keys_of_def)
    have "copied_key G ?sec i = Inr (keys ! i)" using r(1) i by (auto simp: mapM_res_Inr_iff list_all2_conv_all_nth)
    then obtain k where "publicKeyAt (sec_setup ?sec) (JInt (int i)) = Inr (Some k)" "keys ! i = k"
      by (auto simp: copied_key_def result_simps point_bytes_back [OF laws] split: option.splits)
    then have "map_option ks_H (su_keyShares (sec_setup ?sec) ! i) = Some (keys ! i)"
      by (auto simp: publicKeyAt_def assertSeat_def result_simps split: if_splits)
    then show "keys ! i = keys_of (sec_setup ?sec) ! i" using j by (auto simp: keys_of_def)
  qed
  then show thesis using that [OF r(2,6) _ r(3)] r deck by simp
qed

text \<open>
  C26: the shuffled deck is an honestly masked deck. When the four seats have shuffled, a sound
  verifier accepted every proof, and the keys of the completed setup belong to the secrets \<open>sks\<close>, a round that is
  opened on the ledger's final deck with the same setup and cards has every card of the specification
  exactly once, each masked under all players' keys, and its records are true.
\<close>

theorem shuffled_round_masked:
  assumes laws: "ristretto_laws G" and grammar: "cbor_grammar pr" and sound: "verifier_sound pr G verify"
    and reach: "reachable (shuffle_start pr G options) (shuffle_next pr G verify) l" and final: "finalDeck l = Inr deck"
    and keys: "su_keyShares (sec_setup (cso_setup options)) = map Some shares" "map ks_H shares = map (public_key G) sks"
      "\<forall>sk \<in> set sks. usable G sk" "length sks = 4"
      "aggregatePublicKeys G (map (public_key G) sks) = Inr (the (su_aggregateKey (sec_setup (cso_setup options))))"
    and opened: "newRoundRevealLedger pr G \<lparr>rro_setup = cso_setup options, rro_round = round, rro_deckSpec = cso_deckSpec options,
      rro_deck = deck, rro_schedule = deals, rro_maxActions = limit, rro_batchDeal = batch\<rparr> = Inr rl"
  shows "\<exists>perm. masked_deck G rl sks perm \<and> true_shares G rl sks \<and> true_reveals rl perm \<and> length (rl_deck rl) = 36"
proof -
  let ?K = "the (su_aggregateKey (sec_setup (cso_setup options)))"
  have inv: "shuffle_inv pr G verify options l" using shuffle_machine.reachable_good [OF reach] laws grammar by simp
  obtain l0 where "newCandidateShuffleLedger pr G options = Inr l0"
    using reach by (induction rule: reachable.induct) (auto simp: shuffle_start_def)
  then have seats: "length (sec_roster (cso_setup options)) = 4" by (rule new_shuffle_ledgerD)
  from inv obtain table where table: "newCardPointTable pr G (cso_deckSpec options) = Inr table" "table_size table = 36"
      "deck_chain pr G verify (map (initialMaskedCard G) (cpt_points table)) l" "csl_setup l = cso_setup options"
    by (auto simp: shuffle_inv_def)
  have deck: "csl_deck l = deck" using final by (auto simp: finalDeck_def split: if_splits)
  have chain: "shuffled G ?K (map (initialMaskedCard G) (cpt_points table)) deck"
    using chain_shuffled [OF laws sound table(3)] by (simp add: table(4) deck)
  have n: "length (cpt_points table) = 36" using table_points [OF table(1)] table(2) by simp
  have K: "?K = public_key G (sum_list sks)" using aggregate_public_keys(1) [OF laws keys(5)] .
  have "length (sec_roster (cso_setup options)) = length (su_keyShares (sec_setup (cso_setup options)))"
    using keys(1,4) seats arg_cong [OF keys(2), of length] by simp
  from new_round_on_deck [OF laws opened, simplified, OF this] obtain t where t: "newCardPointTable pr G (cso_deckSpec options) = Inr t"
      "rl_table rl = t" and rl': "rl_deck rl = deck" "rl_publicKeys rl = keys_of (sec_setup (cso_setup options))"
      "rl_shares rl = replicate (table_size t) []" "rl_revealed rl = []" by blast
  have "t = table" using t(1) table(1) by simp
  note rl = t(2) [unfolded this] rl' [unfolded this]
  obtain perm where perm: "inj_on perm {..<length (cpt_points table)}" "\<forall>p < length (cpt_points table). perm p < length (cpt_points table) \<and>
      (\<exists>r. deck ! p = \<lparr>mc_A = times_point G r (nr_base G), mc_B = nr_add G (cpt_points table ! perm p) (times_point G r ?K)\<rparr>)"
    using shuffled_masks [OF laws chain] by blast
  have len: "length deck = 36" using shuffled_length [OF chain] n by simp
  have "rl_publicKeys rl = map (public_key G) sks" using keys(1,2) by (simp add: rl(3) keys_of_def comp_def)
  then have "masked_deck G rl sks perm" using perm keys(3) len n by (simp add: masked_deck_def rl K)
  moreover have "true_shares G rl sks" "true_reveals rl perm" by (simp_all add: true_shares_def true_reveals_def rl len table(2))
  ultimately show ?thesis using len rl(2) by auto
qed

section \<open>Progress and refusal\<close>

lemma proper_shuffle_accepted:
  assumes idle: "\<not> csl_closed l" "csl_pending l = None" "\<not> csl_busy l"
    and b: "length b \<le> 16384" "decodeAndVerifyEnvelope pr b = Inr a" "b \<notin> set (csl_accepted l)"
    and read: "read_shuffle pr G l (art_envelope a) = Inr (st, sb, pb)" "verify sb pb = Some True"
  shows "foldM_res (shuffle_next pr G verify) l [AcceptCalled b, VerifierAnswers, BarrierDone True] =
    Inr (l\<lparr>csl_deck := css_outputDeck st, csl_accepted := csl_accepted l @ [b], csl_seat := csl_seat l + 1\<rparr>)"
proof -
  have "accept_start pr G l b = (l\<lparr>csl_busy := True, csl_pending := Some (PendingVerification b st sb pb)\<rparr>, Inr Suspended)"
    using b read(1) idle by (auto simp: accept_start_def list_ex_iff)
  then show ?thesis using idle read(2) by (simp add: verifier_answers_def barrier_done_def settle_def)
qed

text \<open>
  C28: a proper shuffle is accepted and nothing else moves the chain. If the ledger is open and idle before
  its fourth shuffle, and an envelope within the size limit passes \<open>read_shuffle\<close> with a proof the verifier
  accepts, then the call, the verifier's answer and the barrier's end, without a closing in between, append
  it and make its output deck current; a step that changes the deck, the seat or the
  accepted envelopes is the end of a barrier of an open ledger; and once closed, none does.
\<close>

theorem shuffle_progress:
  assumes inv: "reachable (shuffle_start pr G options) (shuffle_next pr G verify) l"
    and idle: "\<not> csl_closed l" "csl_pending l = None" and laws: "ristretto_laws G" "cbor_grammar pr"
  shows "(\<forall>b a st sb pb. length b \<le> 16384 \<and> decodeAndVerifyEnvelope pr b = Inr a \<and> b \<notin> set (csl_accepted l) \<and>
       read_shuffle pr G l (art_envelope a) = Inr (st, sb, pb) \<and> verify sb pb = Some True \<longrightarrow>
       foldM_res (shuffle_next pr G verify) l [AcceptCalled b, VerifierAnswers, BarrierDone True] =
         Inr (l\<lparr>csl_deck := css_outputDeck st, csl_accepted := csl_accepted l @ [b], csl_seat := csl_seat l + 1\<rparr>)) \<and>
    (\<forall>m event. let m' = fst (shuffle_step pr G verify m event) in
       (csl_deck m', csl_seat m', csl_accepted m') \<noteq> (csl_deck m, csl_seat m, csl_accepted m) \<longrightarrow>
       event = BarrierDone True \<and> \<not> csl_closed m \<and> snd (shuffle_step pr G verify m event) = Inr ShuffleAccepted)"
proof (intro conjI allI impI)
  fix b a st sb pb
  assume h: "length b \<le> 16384 \<and> decodeAndVerifyEnvelope pr b = Inr a \<and> b \<notin> set (csl_accepted l) \<and>
       read_shuffle pr G l (art_envelope a) = Inr (st, sb, pb) \<and> verify sb pb = Some True"
  have "\<not> csl_busy l" using shuffle_machine.reachable_good [OF inv] laws idle(2) by (simp add: shuffle_inv_def)
  with h show "foldM_res (shuffle_next pr G verify) l [AcceptCalled b, VerifierAnswers, BarrierDone True] =
         Inr (l\<lparr>csl_deck := css_outputDeck st, csl_accepted := csl_accepted l @ [b], csl_seat := csl_seat l + 1\<rparr>)"
    using proper_shuffle_accepted [OF idle, of b pr a G st sb pb verify] by simp
next
  fix m event
  show "let m' = fst (shuffle_step pr G verify m event) in
       (csl_deck m', csl_seat m', csl_accepted m') \<noteq> (csl_deck m, csl_seat m, csl_accepted m) \<longrightarrow>
       event = BarrierDone True \<and> \<not> csl_closed m \<and> snd (shuffle_step pr G verify m event) = Inr ShuffleAccepted"
  proof (cases event)
    case (AcceptCalled b)
    have "csl_deck (fst (accept_start pr G m b)) = csl_deck m \<and> csl_seat (fst (accept_start pr G m b)) = csl_seat m \<and>
        csl_accepted (fst (accept_start pr G m b)) = csl_accepted m"
      by (simp add: accept_start_def split: sum.split prod.split)
    then show ?thesis using AcceptCalled by simp
  next
    case VerifierAnswers
    have "csl_deck (fst (verifier_answers m verify)) = csl_deck m \<and> csl_seat (fst (verifier_answers m verify)) = csl_seat m \<and>
        csl_accepted (fst (verifier_answers m verify)) = csl_accepted m"
      by (simp add: verifier_answers_def settle_def split: option.split pending_accept.split)
    then show ?thesis using VerifierAnswers by simp
  next
    case (BarrierDone resolved)
    then show ?thesis by (cases rule: barrier_done_cases [of m resolved]) (simp_all add: settle_def)
  qed (simp add: csl_close_def)
qed

end
