(* ===== verification/Shuffle_Example.thy ===== *)
theory Shuffle_Example
  imports Shuffle_Theorems
begin

text \<open>
  Four seats that shuffle a deck of 36 cards over the integers modulo 64: the hypotheses of the theorems on
  statements and on the ledger hold of a concrete run. Numbers, byte strings, texts and arrays
  are encoded as RFC 8949 prescribes, the signed envelopes by a table.
\<close>

section \<open>A group\<close>

definition long_bytes :: "nat \<Rightarrow> bytes" where
  "long_bytes n = word_of_nat n # replicate 31 0"

definition ring_group :: "6 word ristretto" where
  "ring_group = \<lparr>nr_base = 1, nr_zero = 0, nr_add = (+), nr_subtract = (-), nr_negate = uminus,
     nr_multiply = (\<lambda>P k. of_nat k * P), nr_equals = (=), nr_is0 = (\<lambda>P. P = 0),
     nr_toBytes = (\<lambda>P. long_bytes (unat P)),
     nr_fromBytes = (\<lambda>b. if b = long_bytes (unat (hd b) mod 64) then Some (word_of_nat (unat (hd b))) else None),
     nr_deriveToCurve = (\<lambda>b. word_of_nat (unat (hd b))), nr_order = 64,
     fn_add = (\<lambda>a b. (a + b) mod 64), fn_sub = (\<lambda>a b. (a + 64 - b) mod 64), fn_mul = (\<lambda>a b. a * b mod 64), fn_neg = (\<lambda>a. (64 - a) mod 64),
     fn_toBytes = long_bytes, fn_fromBytes = (\<lambda>b. Some (unat (hd b))),
     bytesToNumberLE = (\<lambda>b. unat (hd b))\<rparr>"

lemma long_bytes_facts [simp]: "length (long_bytes n) = 32" "n < 256 \<Longrightarrow> unat (hd (long_bytes n)) = n"
  by (simp_all add: long_bytes_def unat_byte)

lemma ring_point: "unat (P :: 6 word) < 64"
  using unsigned_less [of P] by simp

lemma ring_simps: "nr_order ring_group = 64" "nr_zero ring_group = 0" "nr_base ring_group = 1"
  by (simp_all add: ring_group_def)

lemma ring_times: "times_point ring_group k P = of_nat k * P"
  by (induction k) (simp_all add: ring_group_def algebra_simps)

lemma ring_order: "(of_nat 64 :: 6 word) = 0"
  by simp

lemma ring_small: "0 < k \<Longrightarrow> k < 64 \<Longrightarrow> (of_nat k :: 6 word) \<noteq> 0"
proof
  assume k: "0 < k" "k < 64" and z: "(of_nat k :: 6 word) = 0"
  have "unat (of_nat k :: 6 word) = k" using k(2) by (simp add: unat_of_nat take_bit_eq_mod)
  then show False using k(1) unfolding z by simp
qed

lemma ring_laws: "ristretto_laws ring_group"
  unfolding ristretto_laws_def
proof (intro conjI allI impI)
  fix P :: "6 word"
  show "times_point ring_group (nr_order ring_group) P = nr_zero ring_group"
    unfolding ring_times ring_simps by (simp only: ring_order mult_zero_left)
  show "nr_fromBytes ring_group (nr_toBytes ring_group P) = Some P" "length (nr_toBytes ring_group P) = 32"
    using ring_point [of P] by (simp_all add: ring_group_def)
next
  fix k P assume "0 < k \<and> k < nr_order ring_group"
  then show "times_point ring_group k (nr_base ring_group) \<noteq> nr_zero ring_group"
    "nr_multiply ring_group P k = times_point ring_group k P" unfolding ring_times using ring_small [of k] by (simp_all add: ring_group_def)
next
  fix a assume "a < nr_order ring_group"
  then show "length (fn_toBytes ring_group a) = 32" "fn_fromBytes ring_group (fn_toBytes ring_group a) = Some a"
    by (simp_all add: ring_group_def)
qed (simp_all add: ring_group_def)

section \<open>Primitives\<close>

fun mixed_encode :: "jsval list \<Rightarrow> jsval \<Rightarrow> bytes" where
  "mixed_encode vs (JNumber n) = cbor_head 0 (nat (numval n))"
| "mixed_encode vs (JBytes b) = cbor_head 2 (length b) @ b"
| "mixed_encode vs (JString s) = cbor_head 3 (length s) @ map (\<lambda>u. word_of_nat (unat u)) s"
| "mixed_encode vs (JArray us) = cbor_head 4 (length us) @ concat (map (mixed_encode vs) us)"
| "mixed_encode vs (JObject ps) = (case table_encode vs (JObject ps) of Some b \<Rightarrow> b
     | None \<Rightarrow> cbor_head 5 (length ps) @ concat (map (\<lambda>p. mixed_encode vs (JString (fst p)) @ mixed_encode vs (snd p)) ps))"
| "mixed_encode vs v = [0xf6]"

definition mixed_prims :: "jsval list \<Rightarrow> prims" where
  "mixed_prims vs = (toy_prims vs)\<lparr>cbor2_encode := \<lambda>v. Some (mixed_encode vs v)\<rparr>"

lemma mixed_prims_simps [simp]:
  "cbor2_encode (mixed_prims vs) v = Some (mixed_encode vs v)" "cbor2_decode (mixed_prims vs) = table_decode vs"
  "noble_sha256 (mixed_prims vs) = noble_sha256 (toy_prims vs)" "noble_sha512 (mixed_prims vs) = noble_sha512 (toy_prims vs)"
  "noble_verify (mixed_prims vs) = noble_verify (toy_prims vs)" "noble_point (mixed_prims vs) = noble_point (toy_prims vs)"
  by (simp_all add: mixed_prims_def) (simp add: toy_prims_def)

lemma mixed_grammar: "cbor_grammar (mixed_prims vs)"
  unfolding cbor_grammar_def
proof (intro conjI allI impI)
  fix us bs assume h: "length us < 4294967296 \<and> list_all2 (\<lambda>v b. cbor2_encode (mixed_prims vs) v = Some b) us bs"
  then have "bs = map (mixed_encode vs) us" by (auto simp: list_all2_conv_all_nth intro!: nth_equalityI)
  then show "cbor2_encode (mixed_prims vs) (JArray us) = Some (cbor_head 4 (length us) @ concat bs)" by simp
qed simp_all

text \<open>What the table decodes and verifies, the mixed primitives do too.\<close>

lemma table_encode_object: "list_all (\<lambda>u. \<exists>ps. u = JObject ps) vs \<Longrightarrow> table_encode vs v = Some b \<Longrightarrow> \<exists>ps. v = JObject ps"
proof -
  assume all: "list_all (\<lambda>u. \<exists>ps. u = JObject ps) vs" and "table_encode vs v = Some b"
  then obtain i where i: "i < length vs" "same_value (vs ! i) v" by (auto simp: table_encode_def find_Some_iff)
  then obtain ps where "vs ! i = JObject ps" using all by (auto simp: list_all_length)
  then show ?thesis using i(2) by (cases v) auto
qed

lemma mixed_encodes:
  assumes "list_all (\<lambda>u. \<exists>ps. u = JObject ps) vs" "encodeCanonical (toy_prims vs) v = Inr b"
  shows "encodeCanonical (mixed_prims vs) v = Inr b"
proof -
  have "table_encode vs v = Some b" and v: "assertCborValue v = Inr ()"
    using assms(2) by (auto simp: encodeCanonical_def result_simps toy_prims_def split: option.splits)
  moreover then obtain ps where "v = JObject ps" using table_encode_object [OF assms(1)] by blast
  ultimately show ?thesis by (simp add: encodeCanonical_def)
qed

lemma mixed_decodes:
  assumes "list_all (\<lambda>u. \<exists>ps. u = JObject ps) vs" "decodeCanonical (toy_prims vs) b = Inr v"
  shows "decodeCanonical (mixed_prims vs) b = Inr v"
  using assms(2) mixed_encodes [OF assms(1)] by (auto simp: decodeCanonical_Inr) (simp_all add: toy_prims_def)

lemma mixed_verifies: "verifyEd25519 (mixed_prims vs) = verifyEd25519 (toy_prims vs)"
  by (simp add: verifyEd25519_def isAcceptablePublicKey_def fun_eq_iff)

lemma mixed_verified:
  assumes vs: "list_all (\<lambda>u. \<exists>ps. u = JObject ps) vs" and a: "decodeAndVerifyEnvelope (toy_prims vs) b = Inr a"
  shows "decodeAndVerifyEnvelope (mixed_prims vs) b = Inr a"
proof -
  obtain v e where d: "decodeCanonical (toy_prims vs) b = Inr v" "parseSignedEnvelope (toy_prims vs) v = Inr e"
      "signature_valid (toy_prims vs) e" "createArtifact (toy_prims vs) e = Inr a"
    using a by (auto simp: decodeAndVerifyEnvelope_Inr)
  have snap: "snapshotCborValue (mixed_prims vs) x = Inr y" if "snapshotCborValue (toy_prims vs) x = Inr y" for x y
    using that mixed_encodes [OF vs] mixed_decodes [OF vs] by (fastforce simp: snapshotCborValue_def result_simps)
  have "parseSignedEnvelope (mixed_prims vs) v = Inr e"
    using d(2) snap by (auto simp: parseSignedEnvelope_Inr parseUnsignedEnvelope_Inr)
  moreover have "signature_valid (mixed_prims vs) e"
    using d(3) mixed_encodes [OF vs] by (auto simp: signature_valid_def mixed_verifies)
  moreover have "createArtifact (mixed_prims vs) e = Inr a"
    using d(4) mixed_encodes [OF vs] by (auto simp: createArtifact_Inr sha256_def)
  ultimately show ?thesis using mixed_decodes [OF vs d(1)] by (auto simp: decodeAndVerifyEnvelope_Inr)
qed

section \<open>The table of cards\<close>

lemma build_table_points:
  assumes "\<forall>c \<in> set cards. c \<noteq> [] \<and> deriveCardPoint pr G sid c = Inr (f c)" "distinct (ids @ cards)"
    "inj_on (\<lambda>c. nr_toBytes G (f c)) (set (ids @ cards))"
    "\<forall>k. map_of m k \<noteq> None \<longrightarrow> (\<exists>c \<in> set ids. k = bytesToHex (nr_toBytes G (f c)))"
  shows "\<exists>m'. build_table pr G sid ids pts m cards = Inr \<lparr>cpt_deckSpecId = sid, cpt_cardIds = ids @ cards, cpt_points = pts @ map f cards, cpt_cardByPoint = m'\<rparr>"
  using assms
proof (induction cards arbitrary: ids pts m)
  case (Cons c cards)
  let ?k = "bytesToHex (nr_toBytes G (f c))"
  have new: "map_of m ?k = None"
  proof (rule ccontr)
    assume "map_of m ?k \<noteq> None"
    then obtain d where d: "d \<in> set ids" "?k = bytesToHex (nr_toBytes G (f d))" using Cons.prems(4) by blast
    then have "nr_toBytes G (f c) = nr_toBytes G (f d)" by simp
    then have "c = d" using inj_onD [OF Cons.prems(3)] d(1) by simp
    then show False using d(1) Cons.prems(2) by simp
  qed
  have "\<exists>m'. build_table pr G sid (ids @ [c]) (pts @ [f c]) (AList.update ?k c m) cards =
      Inr \<lparr>cpt_deckSpecId = sid, cpt_cardIds = (ids @ [c]) @ cards, cpt_points = (pts @ [f c]) @ map f cards, cpt_cardByPoint = m'\<rparr>"
    using Cons.prems by (intro Cons.IH) auto
  then show ?case using Cons.prems(1,2) new by (simp add: Let_def)
qed simp

definition long_deck :: DeckSpec where
  "long_deck = \<lparr>spec_id = ascii ''d'', spec_cards = map (\<lambda>i. ascii (replicate (Suc i) CHR ''a'')) [0..<36]\<rparr>"

definition text_length :: "nat \<Rightarrow> nat" where
  "text_length n = (if n < 24 then n + 1 else n + 2)"

definition long_point :: "nat \<Rightarrow> 6 word" where
  "long_point n = word_of_nat (18 + text_length n)"

lemma mixed_text_length: "n < 256 \<Longrightarrow> length (mixed_encode vs (JString (ascii (replicate n c)))) = text_length n"
  by (simp add: cbor_head_def head_width_def text_length_def)

lemma mixed_sha512_card: "sha512 (mixed_prims vs) [domainSeparator CardD, x, y] = replicate 64 (word_of_nat (16 + length x + length y))"
proof -
  have len: "length (domainSeparator CardD) = 16" by (simp add: domainSeparator_def asciiToBytes_def ascii_def)
  show ?thesis using toy_sha512 [of vs CardD "x @ y"] len by (simp add: sha512_def concatBytes_def add.assoc)
qed

lemma derive_small: "m < 64 \<Longrightarrow> nr_deriveToCurve ring_group (replicate 64 (word_of_nat m)) = word_of_nat m"
  by (simp add: ring_group_def unat_byte del: of_nat_unat)

lemma long_card_point:
  assumes "0 < n" "n < 37"
  shows "deriveCardPoint (mixed_prims vs) ring_group (ascii ''d'') (ascii (replicate n CHR ''a'')) = Inr (long_point n)"
proof -
  let ?pr = "mixed_prims vs" and ?c = "ascii (replicate n CHR ''a'')"
  have enc: "encodeCanonical ?pr (JString (ascii s)) = Inr (mixed_encode vs (JString (ascii s)))" for s
    by (simp add: encodeCanonical_def toy_eval)
  have "length (mixed_encode vs (JString (ascii ''d''))) = 2" using mixed_text_length [of 1 vs "CHR ''d''"] by (simp add: text_length_def)
  moreover have "length (mixed_encode vs (JString ?c)) = text_length n" using assms by (intro mixed_text_length) simp
  ultimately have "cardDerivationHash ?pr (ascii ''d'') ?c = Inr (replicate 64 (word_of_nat (18 + text_length n)))"
    using assms by (simp add: cardDerivationHash_def requireText_def enc mixed_sha512_card del: mixed_encode.simps)
  moreover have "18 + text_length n < 64" using assms by (simp add: text_length_def)
  ultimately show ?thesis using derive_small [of "18 + text_length n"]
    by (simp add: deriveCardPoint_def fromUniformBytes_def RISTRETTO_UNIFORM_BYTES_LENGTH_def long_point_def)
qed

lemma long_point_inject: "m < 37 \<Longrightarrow> n < 37 \<Longrightarrow> nr_toBytes ring_group (long_point m) = nr_toBytes ring_group (long_point n) \<longleftrightarrow> m = n"
proof -
  assume mn: "m < 37" "n < 37"
  have v: "unat (long_point k) = 18 + text_length k" if "k < 37" for k
  proof -
    have "18 + text_length k < 64" using that by (simp add: text_length_def)
    then show ?thesis by (simp add: long_point_def unat_of_nat take_bit_eq_mod del: of_nat_add)
  qed
  have "nr_toBytes ring_group (long_point k) = long_bytes (18 + text_length k)" "18 + text_length k < 256" if "k < 37" for k
    using v [OF that] that by (simp_all add: ring_group_def text_length_def)
  then have "nr_toBytes ring_group (long_point m) = nr_toBytes ring_group (long_point n) \<longleftrightarrow> text_length m = text_length n"
    using mn by (metis add_left_cancel long_bytes_facts(2))
  then show ?thesis by (auto simp: text_length_def split: if_splits)
qed

definition long_points :: "6 word list" where
  "long_points = map (\<lambda>c. long_point (length c)) (spec_cards long_deck)"

lemma long_table: "\<exists>table. newCardPointTable (mixed_prims vs) ring_group long_deck = Inr table \<and> cpt_points table = long_points \<and> table_size table = 36"
proof -
  have cards: "c \<in> set (spec_cards long_deck) \<Longrightarrow> \<exists>i < 36. c = ascii (replicate (Suc i) CHR ''a'')" for c
    unfolding long_deck_def by (auto simp del: replicate_Suc)
  have len: "length (spec_cards long_deck) = 36" by (simp add: long_deck_def)
  have "distinct (spec_cards long_deck)"
    by (simp add: long_deck_def distinct_map inj_on_def replicate_eq_replicate del: replicate_Suc)
  moreover have "inj_on (\<lambda>c. nr_toBytes ring_group (long_point (length c))) (set (spec_cards long_deck))"
    using long_point_inject by (auto simp: inj_on_def dest!: cards simp del: replicate_Suc)
  moreover have "\<forall>c \<in> set (spec_cards long_deck). c \<noteq> [] \<and> deriveCardPoint (mixed_prims vs) ring_group (ascii ''d'') c = Inr (long_point (length c))"
    using long_card_point by (auto dest!: cards simp del: replicate_Suc)
  ultimately have "\<exists>m'. build_table (mixed_prims vs) ring_group (ascii ''d'') [] [] [] (spec_cards long_deck) =
      Inr \<lparr>cpt_deckSpecId = ascii ''d'', cpt_cardIds = [] @ spec_cards long_deck, cpt_points = [] @ map (\<lambda>c. long_point (length c)) (spec_cards long_deck), cpt_cardByPoint = m'\<rparr>"
    by (intro build_table_points) simp_all
  then show ?thesis using len
    by (auto simp: newCardPointTable_def MIN_DECK_SIZE_def MAX_DECK_SIZE_def long_points_def table_size_def) (simp_all add: long_deck_def)
qed

definition long_cards :: "6 word MaskedCard list" where
  "long_cards = map (initialMaskedCard ring_group) long_points"

lemma length_long_cards [simp]: "length long_cards = 36"
  by (simp add: long_cards_def long_points_def long_deck_def)

section \<open>The messages\<close>

definition four_roster :: RosterBody where
  "four_roster = \<lparr>rb_gameId = replicate 16 7, rb_rulesHash = replicate 32 1, rb_iceConfigHash = replicate 32 2,
     rb_seats = map (\<lambda>k. replicate 32 (word_of_nat k)) [0, 1, 2, 3]\<rparr>"

definition four_statement :: "nat \<Rightarrow> 6 word CandidateShuffleStatement36" where
  "four_statement k = \<lparr>css_gameId = replicate 16 7, css_round = JInt 0, css_seat = JInt (int k),
     css_rosterHash = sha256 (mixed_prims []) [mixed_encode [] (roster_value four_roster)], css_aggregateKey = 4,
     css_inputDeck = long_cards, css_outputDeck = long_cards\<rparr>"

definition four_bytes :: "nat \<Rightarrow> bytes" where
  "four_bytes k = statement_bytes (mixed_prims []) ring_group (four_statement k)"

definition four_proof :: bytes where
  "four_proof = proof_header (mixed_prims []) @ concat (map element_bytes (replicate 106 (replicate 32 0)))"

definition four_body :: "nat \<Rightarrow> CborValue" where
  "four_body k = JObject [(ascii ''proof'', JBytes four_proof), (ascii ''statement'', JBytes (four_bytes k))]"

definition four_envelope :: "nat \<Rightarrow> UnsignedEnvelope" where
  "four_envelope k = toy_envelope (word_of_nat k) 0 (shuffle_phase 0 k) SHUFFLE (four_body k)"

definition four_values :: "jsval list" where
  "four_values = concat (map (\<lambda>k. [four_body k, toUnsignedValue (four_envelope k), toSignedValue (toy_signed (four_envelope k))]) [0, 1, 2, 3])"

abbreviation four_prims :: prims where
  "four_prims \<equiv> mixed_prims four_values"

lemma string_encoding: "encodeCanonical (mixed_prims vs) (JString s) = encodeCanonical (mixed_prims us) (JString s)"
  by (simp add: encodeCanonical_def)

lemma mixed_headers:
  "statement_header (mixed_prims vs) = statement_header (mixed_prims [])" "proof_header (mixed_prims vs) = proof_header (mixed_prims [])"
  by (simp_all add: statement_header_def proof_header_def profile_header_def string_encoding [of vs _ "[]"])

lemma four_statement_ok: "k < 4 \<Longrightarrow> statement_ok ring_group (four_statement k)"
  by (simp add: statement_ok_def four_statement_def ring_simps MAX_SAFE_INTEGER_def sha256_def) (simp add: toy_prims_def)

lemma four_bytes_encode: "k < 4 \<Longrightarrow> encodeCandidateShuffleStatement36 (mixed_prims vs) ring_group (four_statement k) = Inr (four_bytes k)"
  unfolding encodeStatement_Inr [OF ring_laws mixed_grammar]
  by (simp add: four_statement_ok four_bytes_def statement_bytes_def mixed_headers [of vs])

lemma four_bytes_decode: "k < 4 \<Longrightarrow> decodeCandidateShuffleStatement36 (mixed_prims vs) ring_group (four_bytes k) = Inr (four_statement k)"
  using four_bytes_encode ring_laws mixed_grammar by (simp add: statement.inverse)

lemma four_bytes_inject: "j < 4 \<Longrightarrow> k < 4 \<Longrightarrow> four_bytes j = four_bytes k \<longleftrightarrow> j = k"
proof -
  assume "j < 4" "k < 4"
  then have "four_bytes j = four_bytes k \<Longrightarrow> four_statement j = four_statement k"
    using four_bytes_decode [of j "[]"] four_bytes_decode [of k "[]"] by simp
  then show ?thesis by (auto simp: four_statement_def)
qed

lemma four_proof_decode: "\<exists>es. decodeCandidateShuffleProof36 (mixed_prims vs) ring_group four_proof = Inr es"
proof -
  have z: "replicate 32 0 = long_bytes 0" by (simp add: long_bytes_def numeral_eq_Suc)
  have "point_fromBytes ring_group (long_bytes 0) = Inr 0"
    using point_bytes_back [OF ring_laws, of 0] by (simp add: ring_group_def)
  moreover have "decodeRistrettoScalar ring_group (long_bytes 0) = Inr 0"
    using scalar_bytes_back [OF ring_laws, of 0] by (simp add: ring_group_def)
  ultimately have "validateElement ring_group (replicate 32 0) i = Inr ()" for i by (simp add: validateElement_def z)
  then have "decodeCandidateShuffleProof36 (mixed_prims vs) ring_group four_proof = Inr (replicate 106 (replicate 32 0))"
    unfolding decodeProof_Inr four_proof_def mixed_headers [of vs] by simp
  then show ?thesis by blast
qed

section \<open>The run\<close>

lemmas four_defs = four_values_def four_envelope_def four_body_def toy_envelope_def toy_signed_def withSignature_def
  UnsignedEnvelope.defs SignedEnvelope.defs toUnsignedValue_def toSignedValue_def unsigned_fields_def

lemma shuffle_text: "typeText SHUFFLE = ''SHUFFLE''"
  by (simp add: typeText_def ENVELOPE_MESSAGE_TYPES_def)

lemma four_values_ok: "toy_ok four_values"
  by (simp add: four_defs shuffle_text shuffle_phase_def toy_eval four_bytes_inject)

lemma four_verified:
  assumes "k < 4"
  shows "decodeAndVerifyEnvelope four_prims (replicate (3 * k + 3) 0) = Inr (toy_artifact (four_envelope k) (3 * k + 2))"
proof -
  have objects: "list_all (\<lambda>u. \<exists>ps. u = JObject ps) four_values" by (simp add: four_defs)
  have len: "length four_values = 12" by (simp add: four_values_def)
  have nth: "four_values ! (3 * k) = four_body k" "four_values ! (3 * k + 1) = toUnsignedValue (four_envelope k)"
    "four_values ! (3 * k + 2) = toSignedValue (toy_signed (four_envelope k))"
    using assms by (auto simp: four_values_def less_Suc_eq numeral_eq_Suc)
  have "decodeAndVerifyEnvelope (toy_prims four_values) (replicate (Suc (3 * k + 2)) 0) = Inr (toy_artifact (four_envelope k) (3 * k + 2))"
    using assms len nth by (intro toy_verified [OF four_values_ok four_envelope_def [of k], of "3 * k" "3 * k + 1"])
      (simp_all add: safe_nat_def MAX_SAFE_INTEGER_def shuffle_phase_def)
  from mixed_verified [OF objects this] show ?thesis by (simp only: add_Suc_right [symmetric] numeral_3_eq_3 numeral_2_eq_2)
qed

definition four_share :: "6 word GameKeyShare" where
  "four_share = \<lparr>ks_H = 1, ks_pop = \<lparr>pop_R = 1, pop_z = 1\<rparr>\<rparr>"

definition four_setup :: "6 word SetupEnvelopeCoordinator" where
  "four_setup = \<lparr>sec_gameId = replicate 16 7, sec_round = JInt 0, sec_roster = rb_seats four_roster, sec_seats = [],
     sec_setup = \<lparr>su_gameId = replicate 16 7, su_round = JInt 0, su_seatCount = 4, su_beaconRequired = False,
       su_proofContext = \<lparr>pc_gameId = replicate 16 7, pc_round = JInt 0, pc_phase = ascii ''setup.keys''\<rparr>,
       su_keyShares = map Some (replicate 4 four_share), su_state = SetupComplete, su_aggregateKey = Some 4, su_beacon = None\<rparr>,
     sec_beaconRequired = False\<rparr>"

definition four_options :: "6 word CandidateShuffleLedgerOptions" where
  "four_options = \<lparr>cso_setup = four_setup, cso_roster = four_roster, cso_round = JInt 0, cso_deckSpec = long_deck\<rparr>"

definition four_verify :: "bytes \<Rightarrow> bytes \<Rightarrow> bool option" where
  "four_verify sb pb = (case decodeCandidateShuffleStatement36 four_prims ring_group sb of
     Inl _ \<Rightarrow> Some False | Inr st \<Rightarrow> Some (css_outputDeck st = css_inputDeck st))"

lemma four_verify_sound: "verifier_sound four_prims ring_group four_verify"
  using shuffled_refl [OF ring_laws] by (auto simp: verifier_sound_def four_verify_def)

definition four_ledger :: "nat \<Rightarrow> 6 word CandidateShuffleLedger" where
  "four_ledger k = \<lparr>csl_setup = four_setup, csl_round = 0, csl_roster = four_roster, csl_deck = long_cards, csl_seat = k,
     csl_busy = False, csl_closed = False, csl_accepted = map (\<lambda>j. replicate (3 * j + 3) 0) [0..<k], csl_pending = None\<rparr>"

lemma four_roster_ok: "roster_ok four_roster"
  by (simp add: roster_ok_def four_roster_def seats_ok_def MAX_LOBBY_SEATS_def replicate_eq_replicate)

lemma four_roster_code: "rbind (encodeRosterBody four_roster) decodeRosterBody = Inr four_roster"
  by (simp add: result_simps encodeRoster_Inr four_roster_ok decode_roster_value)

lemma four_roster_hash: "hashRosterBody four_prims four_roster = Inr (css_rosterHash (four_statement k))"
proof -
  have "same_value (four_values ! i) (roster_value four_roster) = False" if "i < 12" for i
  proof -
    have "list_all (\<lambda>v. \<not> same_value v (roster_value four_roster)) four_values" by (simp add: four_defs roster_value_def)
    moreover have "length four_values = 12" by (simp add: four_values_def)
    ultimately show ?thesis using that by (simp add: list_all_length)
  qed
  then have "table_encode four_values (roster_value four_roster) = None"
    by (auto simp: table_encode_def find_None_iff four_values_def [THEN arg_cong, of length])
  then have "mixed_encode four_values (roster_value four_roster) = mixed_encode [] (roster_value four_roster)"
    by (simp add: roster_value_def comp_def) (simp add: table_encode_def comp_def)
  moreover have "assertCborValue (roster_value four_roster) = Inr ()" by (simp add: roster_value_def four_roster_def toy_eval)
  ultimately have "encodeCanonical four_prims (roster_value four_roster) = Inr (mixed_encode [] (roster_value four_roster))"
    by (simp add: encodeCanonical_def)
  then show ?thesis using four_roster_ok
    by (simp add: hashRoster_Inr four_statement_def sha256_def) (simp add: toy_prims_def)
qed

lemma four_ledger_new: "newCandidateShuffleLedger four_prims ring_group four_options = Inr (four_ledger 0)"
proof -
  obtain table where t: "newCardPointTable four_prims ring_group long_deck = Inr table" "cpt_points table = long_points" "table_size table = 36"
    using long_table [of four_values] by blast
  have pts: "length long_points = 36" by (simp add: long_points_def long_deck_def)
  have "mapM_res (\<lambda>i. rbind (catch_as (pointAt table (JInt (int i))) LedgerDeck) (\<lambda>point. Inr (initialMaskedCard ring_group point))) [0..<36] =
      (Inr (map (\<lambda>i. initialMaskedCard ring_group (long_points ! i)) [0..<36]) :: shuffle_ledger_error + _)"
    by (rule mapM_res_all_Inr) (simp add: pointAt_def assertPosition_def t)
  also have "map (\<lambda>i. initialMaskedCard ring_group (long_points ! i)) [0..<36] = long_cards"
    using pts by (intro nth_equalityI) (simp_all add: long_cards_def)
  finally have deck: "mapM_res (\<lambda>i. rbind (catch_as (pointAt table (JInt (int i))) LedgerDeck) (\<lambda>point. Inr (initialMaskedCard ring_group point))) [0..<36] =
      (Inr long_cards :: shuffle_ledger_error + _)" .
  have seats: "\<not> list_ex (\<lambda>(identity, i). \<not> bytesEqual identity (rb_seats four_roster ! i)) (zip (rb_seats four_roster) [0..<length (rb_seats four_roster)])"
    by (auto simp: list_ex_iff set_zip)
  have fields: "length (rb_seats four_roster) = 4" "rb_gameId four_roster = replicate 16 7" by (simp_all add: four_roster_def)
  show ?thesis
    using seats fields t(1,3) deck
    by (simp add: newCandidateShuffleLedger_def four_options_def four_setup_def four_roster_code MAX_SAFE_INTEGER_def four_ledger_def)
qed

lemma four_next: "k < 4 \<Longrightarrow> nextStatement four_prims ring_group (four_ledger k) = Inr (four_bytes k)"
proof -
  assume k: "k < 4"
  have "\<lparr>css_gameId = replicate 16 7, css_round = JInt 0, css_seat = JInt (int k), css_rosterHash = css_rosterHash (four_statement k),
      css_aggregateKey = 4, css_inputDeck = long_cards, css_outputDeck = long_cards\<rparr> = four_statement k"
    by (simp add: four_statement_def)
  then show ?thesis using k four_bytes_encode [OF k, of four_values] four_roster_hash [of k]
    by (simp add: nextStatement_def four_ledger_def four_setup_def) (simp add: four_roster_def)
qed

lemma four_read:
  assumes k: "k < 4"
  shows "read_shuffle four_prims ring_group (four_ledger k) (art_envelope (toy_artifact (four_envelope k) (3 * k + 2))) =
    Inr (four_statement k, four_bytes k, four_proof)"
proof -
  let ?e = "toy_signed (four_envelope k)"
  have a: "art_envelope (toy_artifact (four_envelope k) n) = ?e" for n by (simp add: toy_artifact_def)
  have e: "env_type ?e = SHUFFLE" "env_game ?e = replicate 16 7" "env_round ?e = 0" "env_phase ?e = shuffle_phase 0 k"
    "env_from ?e = replicate 32 (word_of_nat k)" "env_body ?e = four_body k"
    by (simp_all add: toy_signed_def withSignature_def UnsignedEnvelope.defs SignedEnvelope.defs four_envelope_def toy_envelope_def)
  have l: "csl_seat (four_ledger k) = k" "csl_round (four_ledger k) = 0" "csl_roster (four_ledger k) = four_roster" by (simp_all add: four_ledger_def)
  have r: "rb_gameId four_roster = replicate 16 7" "rb_seats four_roster ! k = replicate 32 (word_of_nat k)"
    using k by (auto simp: four_roster_def less_Suc_eq numeral_eq_Suc)
  have body: "shuffle_body (four_body k) = Inr (four_bytes k, four_proof)"
    by (auto simp: shuffle_body_def four_body_def keys_are_def get_prop_def)
  obtain es where es: "decodeCandidateShuffleProof36 four_prims ring_group four_proof = Inr es" using four_proof_decode by blast
  have same: "four_statement k\<lparr>css_outputDeck := css_outputDeck (four_statement k)\<rparr> = four_statement k" by simp
  have ext: "extends_deck four_prims ring_group (four_statement k) (four_statement k) = Inr ()"
    unfolding extends_deck_def same using four_bytes_encode [OF k, of four_values] by simp
  show ?thesis
    using k by (simp add: read_shuffle_def a e l r body es four_bytes_decode [OF k] four_next [OF k] ext)
qed

lemma four_accept:
  assumes k: "k < 4"
  shows "foldM_res (shuffle_next four_prims ring_group four_verify) (four_ledger k) [AcceptCalled (replicate (3 * k + 3) 0), VerifierAnswers, BarrierDone True] =
    Inr (four_ledger (Suc k))"
proof -
  have idle: "\<not> csl_closed (four_ledger k)" "csl_pending (four_ledger k) = None" "\<not> csl_busy (four_ledger k)" by (simp_all add: four_ledger_def)
  have new: "replicate (3 * k + 3) 0 \<notin> set (csl_accepted (four_ledger k))" by (auto simp: four_ledger_def replicate_eq_replicate)
  have "four_verify (four_bytes k) four_proof = Some True"
    using four_bytes_decode [OF k] by (simp add: four_verify_def) (simp add: four_statement_def)
  moreover have "length (replicate (3 * k + 3) (0 :: byte)) \<le> 16384" using k by simp
  ultimately have "foldM_res (shuffle_next four_prims ring_group four_verify) (four_ledger k) [AcceptCalled (replicate (3 * k + 3) 0), VerifierAnswers, BarrierDone True] =
      Inr ((four_ledger k)\<lparr>csl_deck := css_outputDeck (four_statement k), csl_accepted := csl_accepted (four_ledger k) @ [replicate (3 * k + 3) 0],
        csl_seat := csl_seat (four_ledger k) + 1\<rparr>)"
    using proper_shuffle_accepted [OF idle _ four_verified [OF k] new four_read [OF k]] by blast
  also have "(four_ledger k)\<lparr>csl_deck := css_outputDeck (four_statement k), csl_accepted := csl_accepted (four_ledger k) @ [replicate (3 * k + 3) 0],
        csl_seat := csl_seat (four_ledger k) + 1\<rparr> = four_ledger (Suc k)"
    by (simp add: four_ledger_def four_statement_def)
  finally show ?thesis .
qed

lemma four_reachable: "k \<le> 4 \<Longrightarrow> reachable (shuffle_start four_prims ring_group four_options) (shuffle_next four_prims ring_group four_verify) (four_ledger k)"
proof (induction k)
  case 0
  show ?case by (rule reachable_start) (simp add: shuffle_start_def four_ledger_new)
next
  case (Suc k)
  then show ?case using reachable_fold [OF _ four_accept [of k]] by simp
qed

section \<open>Witnesses\<close>

theorem statement_codec_witness:
  "decodeCandidateShuffleStatement36 four_prims ring_group (four_bytes 3) = Inr (four_statement 3) \<and>
   encodeCandidateShuffleStatement36 four_prims ring_group (four_statement 3) = Inr (four_bytes 3)"
  using statement_codec [OF ring_laws mixed_grammar, of four_values "four_bytes 3" "four_statement 3"]
    four_bytes_encode [of 3 four_values] by simp

text \<open>A source whose index draws swap the two cards and whose scalar draws give one.\<close>

definition swap_source :: "unit source" where
  "swap_source s n = (replicate n (if n = 4 then 6 else 1), ())"

definition two_cards :: "1 word MaskedCard list" where
  "two_cards = [\<lparr>mc_A = 0, mc_B = 0\<rparr>, \<lparr>mc_A = 0, mc_B = 1\<rparr>]"

lemma swap_drawn: "randomPermutation swap_source 2 () = Inr (Some ([1, 0], ()))" "draw_scalars pair_group swap_source 2 () = Some ([1, 1], ())"
proof -
  have "drawBelow swap_source 2 () = Some (0, ())"
    by (subst drawBelow.simps)
      (simp add: randomBytes_def swap_source_def candidate32_def acceptanceLimit_def UINT32_RANGE_def)
  then show "randomPermutation swap_source 2 () = Inr (Some ([1, 0], ()))"
    by (simp add: randomPermutation_def randomUint32Below_def UINT32_RANGE_def swap_at_def upt_rec numeral_2_eq_2 [symmetric])
  have "randomNonZeroRistrettoScalar pair_group swap_source () = Some (1, ())"
    by (subst randomNonZeroRistrettoScalar.simps)
      (simp add: randomBytes_def swap_source_def mask_top_def RISTRETTO_SCALAR_LENGTH_def pair_group_def hd_conv_nth)
  then show "draw_scalars pair_group swap_source 2 () = Some ([1, 1], ())" by (simp add: numeral_2_eq_2)
qed

theorem shuffle_prepared_witness:
  "\<exists>us. createUnprovenDeckShuffle pair_group two_cards 1 swap_source () = Inr (Some (us, ())) \<and>
     shuffles pair_group 1 two_cards (us_outputDeck us) [1, 0] [1, 1]"
proof -
  have "(1 :: 1 word) \<noteq> nr_zero pair_group" by (simp add: pair_group_def)
  moreover have "2 \<le> length two_cards" "length two_cards \<le> 128" by (simp_all add: two_cards_def)
  ultimately obtain made where m: "createUnprovenDeckShuffle pair_group two_cards 1 swap_source () = Inr made"
    "\<forall>us s'. made = Some (us, s') \<longrightarrow> us_aggregateKey us = 1 \<and> us_inputDeck us = two_cards \<and>
       shuffles pair_group 1 two_cards (us_outputDeck us) (sw_permutation (us_witness us)) (sw_randomizers (us_witness us)) \<and>
       (\<forall>r \<in> set (sw_randomizers (us_witness us)). usable pair_group r)"
    using shuffle_prepared [OF pair_laws, of two_cards 1 swap_source "()"] by blast
  have "length two_cards = 2" by (simp add: two_cards_def)
  then obtain us where "made = Some (us, ())" "us_witness us = \<lparr>sw_permutation = [1, 0], sw_randomizers = [1, 1]\<rparr>"
    using m(1) unfolding createUnprovenDeckShuffle_def by (auto simp: swap_drawn result_simps split: if_splits)
  then show ?thesis using m by simp
qed

theorem shuffle_chain_witness:
  "csl_seat (four_ledger 4) = 4 \<and> (\<exists>table decks. newCardPointTable four_prims ring_group long_deck = Inr table \<and> length decks = 5 \<and>
     (\<forall>k < 4. link four_prims ring_group four_verify (four_ledger 4) k (replicate (3 * k + 3) 0) (decks ! k) (decks ! Suc k)))"
proof -
  have l: "csl_seat (four_ledger 4) = 4" "\<And>k. k < 4 \<Longrightarrow> csl_accepted (four_ledger 4) ! k = replicate (3 * k + 3) 0" "cso_deckSpec four_options = long_deck"
    by (simp_all add: four_ledger_def four_options_def)
  obtain table decks where "newCardPointTable four_prims ring_group long_deck = Inr table" "length decks = Suc 4"
      "\<forall>k < 4. link four_prims ring_group four_verify (four_ledger 4) k (csl_accepted (four_ledger 4) ! k) (decks ! k) (decks ! Suc k)"
    using shuffle_chain [OF ring_laws mixed_grammar four_reachable, of 4] unfolding l(1,3) by auto
  then show ?thesis using l(1,2) by auto
qed

theorem shuffle_progress_witness:
  "foldM_res (shuffle_next four_prims ring_group four_verify) (four_ledger 3) [AcceptCalled (replicate 12 0), VerifierAnswers, BarrierDone True] =
   Inr (four_ledger 4)"
proof -
  have l: "\<not> csl_closed (four_ledger 3)" "csl_pending (four_ledger 3) = None" "replicate 12 0 \<notin> set (csl_accepted (four_ledger 3))"
    by (auto simp: four_ledger_def replicate_eq_replicate)
  have v: "four_verify (four_bytes 3) four_proof = Some True"
    using four_bytes_decode [of 3] by (simp add: four_verify_def) (simp add: four_statement_def)
  have next_ledger: "(four_ledger 3)\<lparr>csl_deck := css_outputDeck (four_statement 3), csl_accepted := csl_accepted (four_ledger 3) @ [replicate 12 0],
      csl_seat := csl_seat (four_ledger 3) + 1\<rparr> = four_ledger 4" by (simp add: four_ledger_def four_statement_def upt_rec)
  have d: "decodeAndVerifyEnvelope four_prims (replicate 12 0) = Inr (toy_artifact (four_envelope 3) 11)"
    "read_shuffle four_prims ring_group (four_ledger 3) (art_envelope (toy_artifact (four_envelope 3) 11)) = Inr (four_statement 3, four_bytes 3, four_proof)"
    using four_verified [of 3] four_read [of 3] by simp_all
  have r: "reachable (shuffle_start four_prims ring_group four_options) (shuffle_next four_prims ring_group four_verify) (four_ledger 3)"
    by (rule four_reachable) simp
  have "length (replicate 12 (0 :: byte)) \<le> 16384 \<and> decodeAndVerifyEnvelope four_prims (replicate 12 0) = Inr (toy_artifact (four_envelope 3) 11) \<and>
      replicate 12 0 \<notin> set (csl_accepted (four_ledger 3)) \<and>
      read_shuffle four_prims ring_group (four_ledger 3) (art_envelope (toy_artifact (four_envelope 3) 11)) = Inr (four_statement 3, four_bytes 3, four_proof) \<and>
      four_verify (four_bytes 3) four_proof = Some True"
    using d l(3) v by auto
  from shuffle_progress [OF r l(1,2) ring_laws mixed_grammar, THEN conjunct1, rule_format, OF this] show ?thesis
    unfolding next_ledger .
qed

theorem shuffled_round_masked_witness:
  "\<exists>rl perm. newRoundRevealLedger four_prims ring_group \<lparr>rro_setup = four_setup, rro_round = JInt 0, rro_deckSpec = long_deck, rro_deck = long_cards,
     rro_schedule = [\<lparr>pds_to = JInt 0, pds_count = JInt 36\<rparr>], rro_maxActions = JInt 9, rro_batchDeal = False\<rparr> = Inr rl \<and>
     masked_deck ring_group rl [1, 1, 1, 1] perm"
proof -
  let ?o = "\<lparr>rro_setup = four_setup, rro_round = JInt 0, rro_deckSpec = long_deck, rro_deck = long_cards,
     rro_schedule = [\<lparr>pds_to = JInt 0, pds_count = JInt 36\<rparr>], rro_maxActions = JInt 9, rro_batchDeal = False\<rparr>"
  obtain table where t: "newCardPointTable four_prims ring_group long_deck = Inr table" "table_size table = 36" using long_table by blast
  have keys: "mapM_res (copied_key ring_group four_setup) [0..<4] = (Inr [1, 1, 1, 1] :: reveal_error + _)"
    using point_bytes_back [OF ring_laws, of 1]
    by (simp add: copied_key_def publicKeyAt_def assertSeat_def four_setup_def four_share_def upt_rec numeral_eq_Suc)
  have deck: "mapM_res (copied_card ring_group) long_cards = (Inr (map (\<lambda>c. c) long_cards) :: reveal_error + _)"
    by (rule mapM_res_all_Inr) (simp add: copied_card_ok [OF ring_laws])
  have setup_fields: "su_state (sec_setup four_setup) = SetupComplete" "sec_roster four_setup = rb_seats four_roster" "sec_round four_setup = JInt 0"
    "length (rb_seats four_roster) = 4" by (simp_all add: four_setup_def) (simp add: four_roster_def)
  have "\<exists>deals owners. schedule_deals 4 36 0 (replicate 36 None) [\<lparr>pds_to = JInt 0, pds_count = JInt 36\<rparr>] = Inr (deals, owners)"
    by (simp add: unsigned_safe_def MAX_SAFE_INTEGER_def Let_def)
  moreover have "long_cards \<noteq> []" using length_long_cards by fastforce
  ultimately obtain rl where rl: "newRoundRevealLedger four_prims ring_group ?o = Inr rl"
    using t keys deck setup_fields by (auto simp: newRoundRevealLedger_def Let_def MAX_SAFE_INTEGER_def simp del: schedule_deals.simps)
  have f: "finalDeck (four_ledger 4) = Inr long_cards" by (simp add: finalDeck_def csl_complete_def four_ledger_def)
  have s: "su_keyShares (sec_setup (cso_setup four_options)) = map Some (replicate 4 four_share)"
    "map ks_H (replicate 4 four_share) = map (public_key ring_group) [1, 1, 1, 1]" "\<forall>sk \<in> set [1, 1, 1, 1]. usable ring_group sk"
    "aggregatePublicKeys ring_group (map (public_key ring_group) [1, 1, 1, 1]) = Inr (the (su_aggregateKey (sec_setup (cso_setup four_options))))"
    by (simp_all add: four_options_def four_setup_def four_share_def usable_def ring_simps aggregatePublicKeys_def ring_times numeral_eq_Suc) (simp_all add: ring_group_def)
  have o: "four_setup = cso_setup four_options" "long_deck = cso_deckSpec four_options" by (simp_all add: four_options_def)
  show ?thesis
    using shuffled_round_masked [OF ring_laws mixed_grammar four_verify_sound four_reachable f s(1,2,3) _ s(4) rl [unfolded o]] rl by auto
qed

end
