(* ===== verification/Session_Storage.thy ===== *)
theory Session_Storage
  imports Chain_Registry Protocol_Lobby Transcript_Order
begin

text \<open>
  The durable session tables: \<^verbatim>\<open>packages/storage/src/database.ts\<close>,
  \<^verbatim>\<open>indexeddb-envelope-store.ts\<close> (what this participant authored) and
  \<^verbatim>\<open>indexeddb-session-store.ts\<close> (what it accepted). Both write the same \<open>transcripts\<close> table.

  The object stores of IndexedDB are lists of records. An index is searched by its key columns, a
  cursor on the index of senders and sequence numbers visits the rows in the order of their
  sequence numbers, adding a row whose index key is present fails, and the keys of the
  \<open>transcripts\<close> table are counted from one. A transaction runs alone and leaves the tables as they
  were unless it commits; \<open>fault\<close> is the platform's own reason to abort it at the end (a full
  disk, a closed tab). The rows are typed, so the tests of the JavaScript types of a row's columns
  have no counterpart; everything the code compares about a row is compared.
\<close>

datatype storage_error =
    SessionStoreError string
  | AuthoredEnvelopeStoreError string
  | StorageProtocolError protocol_error
  | StorageTranscriptError transcript_error
  | StorageJsError js_error
  | DatabaseError string
  | GuardError string

abbreviation storeProto :: "protocol_error + 'a \<Rightarrow> storage_error + 'a" where
  "storeProto r \<equiv> catch_as r StorageProtocolError"

section \<open>Tables\<close>

record StoredTranscriptEnvelope =
  st_arrival :: nat
  st_game :: string
  st_sender :: string
  st_seq :: nat
  st_bytes :: bytes
  st_authored :: bool

record StoredAuthoredHead =
  sah_game :: string
  sah_sender :: string
  sah_bytes :: bytes

record StoredLobbyRoster =
  slr_host :: string
  slr_seq :: nat
  slr_bytes :: bytes

text \<open>A row of \<open>games\<close>: the field this store owns and whatever other fields the row has.\<close>

record GameRecord =
  gr_game :: string
  gr_lobbyRoster :: "StoredLobbyRoster option"
  gr_fields :: "(ustr \<times> jsval) list"

record P2pCardsDatabase =
  db_transcripts :: "StoredTranscriptEnvelope list"
  db_nextArrival :: nat
  db_authoredHeads :: "StoredAuthoredHead list"
  db_games :: "GameRecord list"

definition newDatabase :: P2pCardsDatabase where
  "newDatabase = \<lparr>db_transcripts = [], db_nextArrival = 1, db_authoredHeads = [], db_games = []\<rparr>"

definition in_scope :: "string \<Rightarrow> string \<Rightarrow> StoredTranscriptEnvelope \<Rightarrow> bool" where
  "in_scope g s r \<longleftrightarrow> st_game r = g \<and> st_sender r = s"

definition get_transcript :: "P2pCardsDatabase \<Rightarrow> string \<Rightarrow> string \<Rightarrow> nat \<Rightarrow> StoredTranscriptEnvelope option" where
  "get_transcript db g s n = find (\<lambda>r. in_scope g s r \<and> st_seq r = n) (db_transcripts db)"

definition sender_rows :: "P2pCardsDatabase \<Rightarrow> string \<Rightarrow> string \<Rightarrow> StoredTranscriptEnvelope list" where
  "sender_rows db g s = sort_key st_seq (filter (in_scope g s) (db_transcripts db))"

definition LAST_GENERATED_KEY :: nat where
  "LAST_GENERATED_KEY = 2 ^ 53"

definition add_transcript ::
    "P2pCardsDatabase \<Rightarrow> string \<Rightarrow> string \<Rightarrow> nat \<Rightarrow> bytes \<Rightarrow> bool \<Rightarrow> storage_error + (P2pCardsDatabase \<times> nat)" where
  "add_transcript db g s n b authored =
     (if get_transcript db g s n \<noteq> None \<or> db_nextArrival db > LAST_GENERATED_KEY then Inl (DatabaseError ''ConstraintError'')
      else Inr (db\<lparr>db_transcripts := db_transcripts db @
             [\<lparr>st_arrival = db_nextArrival db, st_game = g, st_sender = s, st_seq = n, st_bytes = b, st_authored = authored\<rparr>],
           db_nextArrival := Suc (db_nextArrival db)\<rparr>, db_nextArrival db))"

definition get_head :: "P2pCardsDatabase \<Rightarrow> string \<Rightarrow> string \<Rightarrow> StoredAuthoredHead option" where
  "get_head db g s = find (\<lambda>h. sah_game h = g \<and> sah_sender h = s) (db_authoredHeads db)"

definition put_head :: "P2pCardsDatabase \<Rightarrow> StoredAuthoredHead \<Rightarrow> P2pCardsDatabase" where
  "put_head db h = db\<lparr>db_authoredHeads :=
     h # filter (\<lambda>x. \<not> (sah_game x = sah_game h \<and> sah_sender x = sah_sender h)) (db_authoredHeads db)\<rparr>"

definition get_game :: "P2pCardsDatabase \<Rightarrow> string \<Rightarrow> GameRecord option" where
  "get_game db g = find (\<lambda>r. gr_game r = g) (db_games db)"

definition put_game :: "P2pCardsDatabase \<Rightarrow> GameRecord \<Rightarrow> P2pCardsDatabase" where
  "put_game db r = db\<lparr>db_games := r # filter (\<lambda>x. gr_game x \<noteq> gr_game r) (db_games db)\<rparr>"

definition transact ::
    "storage_error option \<Rightarrow> P2pCardsDatabase \<Rightarrow> storage_error + (P2pCardsDatabase \<times> 'a) \<Rightarrow>
     P2pCardsDatabase \<times> (storage_error + 'a)" where
  "transact fault db r =
     (case r of
        Inl e \<Rightarrow> (db, Inl e)
      | Inr (db', v) \<Rightarrow> (case fault of None \<Rightarrow> (db', Inr v) | Some e \<Rightarrow> (db, Inl e)))"

section \<open>Accepted envelopes\<close>

record PersistedTranscriptEnvelope =
  pte_arrival :: nat
  pte_artifact :: EnvelopeArtifact
  pte_authored :: bool

record PersistedLobbyRoster =
  plr_artifact :: EnvelopeArtifact
  plr_body :: RosterBody
  plr_rosterHash :: bytes

datatype AcceptedEnvelopePersistenceResult =
    PersistStored PersistedTranscriptEnvelope
  | PersistDuplicate PersistedTranscriptEnvelope
  | PersistConflict PersistedTranscriptEnvelope EnvelopeArtifact

datatype row_status = RowStored | RowDuplicate

datatype LobbyRosterPersistenceResult =
    RosterStored row_status PersistedLobbyRoster
  | RosterDuplicate row_status PersistedLobbyRoster
  | RosterStale row_status PersistedLobbyRoster
  | RosterConflict PersistedTranscriptEnvelope EnvelopeArtifact

definition snapshotArtifact :: "prims \<Rightarrow> bytes \<Rightarrow> string \<Rightarrow> storage_error + EnvelopeArtifact" where
  "snapshotArtifact pr b message = catch_as (decodeAndVerifyEnvelope pr b) (\<lambda>_. SessionStoreError message)"

definition sameArtifact :: "EnvelopeArtifact \<Rightarrow> EnvelopeArtifact \<Rightarrow> bool" where
  "sameArtifact left right = bytesEqual (art_canonicalBytes left) (art_canonicalBytes right)"

definition transcriptRecord :: "nat \<Rightarrow> EnvelopeArtifact \<Rightarrow> bool \<Rightarrow> PersistedTranscriptEnvelope" where
  "transcriptRecord arrival artifact authored =
     \<lparr>pte_arrival = arrival, pte_artifact = artifact, pte_authored = authored\<rparr>"

definition parseArrivalKey :: "nat \<Rightarrow> storage_error + nat" where
  "parseArrivalKey v =
     (if \<not> safe_nat v \<or> v < 1 then Inl (SessionStoreError ''IndexedDB transcript arrival key is malformed'') else Inr v)"

definition decodeStoredTranscript :: "prims \<Rightarrow> StoredTranscriptEnvelope \<Rightarrow> storage_error + PersistedTranscriptEnvelope" where
  "decodeStoredTranscript pr r =
     (if \<not> safe_nat (st_seq r) then Inl (SessionStoreError ''IndexedDB transcript record fields are malformed'')
      else rbind (snapshotArtifact pr (st_bytes r) ''IndexedDB transcript contains an invalid envelope'') (\<lambda>artifact.
      if bytesToHex (env_game (art_envelope artifact)) \<noteq> st_game r \<or>
         bytesToHex (env_from (art_envelope artifact)) \<noteq> st_sender r \<or> env_seq (art_envelope artifact) \<noteq> st_seq r
      then Inl (SessionStoreError ''IndexedDB transcript metadata does not match its envelope'')
      else rbind (parseArrivalKey (st_arrival r)) (\<lambda>arrival.
      Inr (transcriptRecord arrival artifact (st_authored r)))))"

definition persist_row ::
    "prims \<Rightarrow> P2pCardsDatabase \<Rightarrow> EnvelopeArtifact \<Rightarrow> storage_error + (P2pCardsDatabase \<times> AcceptedEnvelopePersistenceResult)" where
  "persist_row pr db received =
     (let game = bytesToHex (env_game (art_envelope received)); sender = bytesToHex (env_from (art_envelope received)) in
      case get_transcript db game sender (env_seq (art_envelope received)) of
        Some r \<Rightarrow>
          rbind (decodeStoredTranscript pr r) (\<lambda>existing.
          Inr (db, if sameArtifact (pte_artifact existing) received then PersistDuplicate existing
                   else PersistConflict existing received))
      | None \<Rightarrow>
          rbind (add_transcript db game sender (env_seq (art_envelope received)) (art_canonicalBytes received) False) (\<lambda>(db', key).
          rbind (parseArrivalKey key) (\<lambda>arrival.
          Inr (db', PersistStored (transcriptRecord arrival received False)))))"

definition persistAcceptedEnvelope ::
    "prims \<Rightarrow> storage_error option \<Rightarrow> bytes \<Rightarrow> P2pCardsDatabase \<Rightarrow>
     P2pCardsDatabase \<times> (storage_error + AcceptedEnvelopePersistenceResult)" where
  "persistAcceptedEnvelope pr fault candidate db =
     (case snapshotArtifact pr candidate ''Accepted envelope is invalid'' of
        Inl e \<Rightarrow> (db, Inl e)
      | Inr received \<Rightarrow> transact fault db (persist_row pr db received))"

definition loadTranscript ::
    "prims \<Rightarrow> jsval \<Rightarrow> P2pCardsDatabase \<Rightarrow> storage_error + PersistedTranscriptEnvelope list" where
  "loadTranscript pr gameId db =
     rbind (storeProto (parseGameId gameId)) (\<lambda>game.
     mapM_res (\<lambda>r. rbind (decodeStoredTranscript pr r) (\<lambda>p.
         if \<not> bytesEqual (env_game (art_envelope (pte_artifact p))) game
         then Inl (SessionStoreError ''Transcript index returned an envelope for another game'') else Inr p))
       (filter (\<lambda>r. st_game r = bytesToHex game) (db_transcripts db)))"

definition transcriptTuple :: "EnvelopeArtifact \<Rightarrow> string \<times> nat" where
  "transcriptTuple artifact = (bytesToHex (env_from (art_envelope artifact)), env_seq (art_envelope artifact))"

definition loadCanonicalEnvelopeTranscript ::
    "prims \<Rightarrow> jsval \<Rightarrow> P2pCardsDatabase \<Rightarrow> storage_error + PersistedTranscriptEnvelope list" where
  "loadCanonicalEnvelopeTranscript pr gameId db =
     rbind (loadTranscript pr gameId db) (\<lambda>records.
     rbind (catch_as (orderEnvelopeTranscript pr gameId (map pte_artifact records))
              (\<lambda>_. SessionStoreError ''Stored transcript cannot be canonically ordered'')) (\<lambda>artifacts.
     let byTuple = foldl (\<lambda>m p. AList.update (transcriptTuple (pte_artifact p)) p m) [] records in
     mapM_res (\<lambda>artifact. case map_of byTuple (transcriptTuple artifact) of
         None \<Rightarrow> Inl (SessionStoreError ''Canonical transcript lost a persisted envelope'')
       | Some r \<Rightarrow> Inr (transcriptRecord (pte_arrival r) artifact (pte_authored r))) artifacts))"

section \<open>The accepted lobby roster\<close>

definition decodeRosterArtifact :: "prims \<Rightarrow> EnvelopeArtifact \<Rightarrow> bytes \<Rightarrow> storage_error + PersistedLobbyRoster" where
  "decodeRosterArtifact pr artifact expectedHost =
     (let envelope = art_envelope artifact in
      if \<not> bytesEqual (env_from envelope) expectedHost
      then Inl (SessionStoreError ''Roster envelope was not signed by the expected host'')
      else if env_type envelope \<noteq> ROSTER \<or> env_phase envelope \<noteq> ascii ''lobby'' \<or> env_round envelope \<noteq> 0
      then Inl (SessionStoreError ''Roster envelope has invalid lobby metadata'')
      else rbind (catch_as (decodeRosterBody (env_body envelope)) (\<lambda>_. SessionStoreError ''Roster envelope body is malformed'')) (\<lambda>body.
      if \<not> bytesEqual (rb_gameId body) (env_game envelope)
      then Inl (SessionStoreError ''Roster body has the wrong game identifier'')
      else rbind (mapM_res (\<lambda>identity. catch_as (importEd25519PublicKey pr identity)
                   (\<lambda>_. SessionStoreError ''Roster contains an invalid identity public key'')) (rb_seats body)) (\<lambda>_.
      if \<not> list_ex (\<lambda>identity. bytesEqual identity expectedHost) (rb_seats body)
      then Inl (SessionStoreError ''Roster does not contain the expected host'')
      else rbind (storeProto (hashRosterBody pr body)) (\<lambda>rosterHash.
      Inr \<lparr>plr_artifact = artifact, plr_body = body, plr_rosterHash = rosterHash\<rparr>))))"

definition decodeStoredRoster :: "prims \<Rightarrow> StoredLobbyRoster \<Rightarrow> bytes \<Rightarrow> bytes \<Rightarrow> storage_error + PersistedLobbyRoster" where
  "decodeStoredRoster pr r expectedGame expectedHost =
     (if slr_host r \<noteq> bytesToHex expectedHost \<or> \<not> safe_nat (slr_seq r)
      then Inl (SessionStoreError ''IndexedDB lobby roster snapshot fields are malformed'')
      else rbind (snapshotArtifact pr (slr_bytes r) ''IndexedDB lobby roster snapshot contains an invalid envelope'') (\<lambda>artifact.
      if \<not> bytesEqual (env_game (art_envelope artifact)) expectedGame \<or> env_seq (art_envelope artifact) \<noteq> slr_seq r
      then Inl (SessionStoreError ''IndexedDB lobby roster metadata does not match its envelope'')
      else decodeRosterArtifact pr artifact expectedHost))"

text \<open>A row of \<open>games\<close> was found by its key, so its \<open>game\<close> is the expected one.\<close>

definition readGameRecord :: "GameRecord option \<Rightarrow> string \<Rightarrow> storage_error + GameRecord" where
  "readGameRecord v expectedGame =
     (case v of
        None \<Rightarrow> Inr \<lparr>gr_game = expectedGame, gr_lobbyRoster = None, gr_fields = []\<rparr>
      | Some r \<Rightarrow> if gr_game r \<noteq> expectedGame then Inl (SessionStoreError ''IndexedDB game record has the wrong key'') else Inr r)"

text \<open>The part of the roster's transaction after the transcript row was looked up and stored.\<close>

definition select_roster ::
    "prims \<Rightarrow> P2pCardsDatabase \<Rightarrow> bytes \<Rightarrow> EnvelopeArtifact \<Rightarrow> PersistedLobbyRoster \<Rightarrow> row_status \<Rightarrow>
     storage_error + (P2pCardsDatabase \<times> LobbyRosterPersistenceResult)" where
  "select_roster pr db host received incomingSnapshot transcriptStatus =
     (let game = bytesToHex (env_game (art_envelope received)) in
      rbind (readGameRecord (get_game db game) game) (\<lambda>gameRecord.
      rbind (case gr_lobbyRoster gameRecord of
               None \<Rightarrow> Inr None
             | Some r \<Rightarrow> rbind (decodeStoredRoster pr r (env_game (art_envelope received)) host) (\<lambda>s. Inr (Some s))) (\<lambda>existingSnapshot.
      let selected = \<lambda>s. env_seq (art_envelope (plr_artifact s)); received_seq = env_seq (art_envelope received);
          store = put_game db (gameRecord\<lparr>gr_game := game, gr_lobbyRoster := Some \<lparr>slr_host = bytesToHex host,
                    slr_seq = env_seq (art_envelope received), slr_bytes = art_canonicalBytes received\<rparr>\<rparr>) in
      case existingSnapshot of
        None \<Rightarrow> Inr (store, RosterStored transcriptStatus incomingSnapshot)
      | Some existing \<Rightarrow>
          if received_seq > selected existing then Inr (store, RosterStored transcriptStatus incomingSnapshot)
          else if received_seq < selected existing then Inr (db, RosterStale transcriptStatus existing)
          else if sameArtifact (plr_artifact existing) received then Inr (db, RosterDuplicate transcriptStatus existing)
          else Inl (SessionStoreError ''Roster snapshot conflicts with its transcript row''))))"

definition roster_row ::
    "prims \<Rightarrow> P2pCardsDatabase \<Rightarrow> bytes \<Rightarrow> EnvelopeArtifact \<Rightarrow> PersistedLobbyRoster \<Rightarrow>
     storage_error + (P2pCardsDatabase \<times> LobbyRosterPersistenceResult)" where
  "roster_row pr db host received incomingSnapshot =
     (let game = bytesToHex (env_game (art_envelope received)); sender = bytesToHex host in
      case get_transcript db game sender (env_seq (art_envelope received)) of
        None \<Rightarrow>
          rbind (add_transcript db game sender (env_seq (art_envelope received)) (art_canonicalBytes received) False) (\<lambda>(db', _).
          select_roster pr db' host received incomingSnapshot RowStored)
      | Some r \<Rightarrow>
          rbind (decodeStoredTranscript pr r) (\<lambda>storedTranscript.
          if \<not> sameArtifact (pte_artifact storedTranscript) received then Inr (db, RosterConflict storedTranscript received)
          else select_roster pr db host received incomingSnapshot RowDuplicate))"

definition persistAcceptedRoster ::
    "prims \<Rightarrow> storage_error option \<Rightarrow> jsval \<Rightarrow> bytes \<Rightarrow> P2pCardsDatabase \<Rightarrow>
     P2pCardsDatabase \<times> (storage_error + LobbyRosterPersistenceResult)" where
  "persistAcceptedRoster pr fault expectedHost candidate db =
     (case rbind (storeProto (parseIdentityPublicKey expectedHost)) (\<lambda>host.
           rbind (catch_as (importEd25519PublicKey pr host) StorageJsError) (\<lambda>_.
           rbind (snapshotArtifact pr candidate ''Accepted roster envelope is invalid'') (\<lambda>received.
           rbind (decodeRosterArtifact pr received host) (\<lambda>incomingSnapshot.
           Inr (host, received, incomingSnapshot))))) of
        Inl e \<Rightarrow> (db, Inl e)
      | Inr (host, received, incomingSnapshot) \<Rightarrow> transact fault db (roster_row pr db host received incomingSnapshot))"

definition loadLobbyRoster ::
    "prims \<Rightarrow> jsval \<Rightarrow> jsval \<Rightarrow> P2pCardsDatabase \<Rightarrow> storage_error + PersistedLobbyRoster option" where
  "loadLobbyRoster pr gameId expectedHost db =
     rbind (storeProto (parseGameId gameId)) (\<lambda>gameValue.
     rbind (storeProto (parseIdentityPublicKey expectedHost)) (\<lambda>host.
     rbind (catch_as (importEd25519PublicKey pr host) StorageJsError) (\<lambda>_.
     let game = bytesToHex gameValue in
     case get_game db game of
       None \<Rightarrow> Inr None
     | Some v \<Rightarrow> rbind (readGameRecord (Some v) game) (\<lambda>r.
         case gr_lobbyRoster r of
           None \<Rightarrow> Inr None
         | Some s \<Rightarrow> rbind (decodeStoredRoster pr s gameValue host) (\<lambda>p. Inr (Some p))))))"

section \<open>Authored envelopes\<close>

definition MAX_AUTHORED_HISTORY_PAGE_ENVELOPES :: nat where
  "MAX_AUTHORED_HISTORY_PAGE_ENVELOPES = 128"
definition MAX_AUTHORED_HISTORY_PAGE_BYTES :: nat where
  "MAX_AUTHORED_HISTORY_PAGE_BYTES = 8 * 1024 * 1024"

definition decodeStoredHead ::
    "prims \<Rightarrow> StoredAuthoredHead option \<Rightarrow> bytes \<Rightarrow> bytes \<Rightarrow> storage_error + EnvelopeArtifact option" where
  "decodeStoredHead pr v gameId sender =
     (case v of
        None \<Rightarrow> Inr None
      | Some h \<Rightarrow>
          if length (sah_bytes h) > MAX_AUTHORED_HISTORY_PAGE_BYTES
          then Inl (AuthoredEnvelopeStoreError ''IndexedDB authored head exceeds the byte limit'')
          else rbind (catch_as (decodeAndVerifyEnvelope pr (sah_bytes h))
                       (\<lambda>_. AuthoredEnvelopeStoreError ''IndexedDB contains an invalid authored head'')) (\<lambda>artifact.
          if \<not> bytesEqual (env_game (art_envelope artifact)) gameId
          then Inl (AuthoredEnvelopeStoreError ''IndexedDB authored head belongs to another game'')
          else if \<not> bytesEqual (env_from (art_envelope artifact)) sender
          then Inl (AuthoredEnvelopeStoreError ''IndexedDB authored head belongs to another sender'')
          else Inr (Some artifact)))"

definition decodeRecordMetadata ::
    "StoredTranscriptEnvelope option \<Rightarrow> bytes \<Rightarrow> bytes \<Rightarrow> storage_error + StoredTranscriptEnvelope" where
  "decodeRecordMetadata v game sender =
     (case v of
        None \<Rightarrow> Inl (AuthoredEnvelopeStoreError ''IndexedDB is missing an authored transcript record'')
      | Some r \<Rightarrow>
          if st_game r \<noteq> bytesToHex game \<or> st_sender r \<noteq> bytesToHex sender \<or> \<not> safe_nat (st_seq r) \<or> st_authored r \<noteq> True
          then Inl (AuthoredEnvelopeStoreError ''IndexedDB authored transcript metadata is invalid; recovery is required'')
          else Inr r)"

definition validateCheckpoint ::
    "EnvelopeArtifact option \<Rightarrow> StoredTranscriptEnvelope option \<Rightarrow> nat \<Rightarrow> bytes \<Rightarrow> bytes \<Rightarrow> storage_error + unit" where
  "validateCheckpoint head last_row row_count game sender =
     (case head of
        None \<Rightarrow>
          if last_row \<noteq> None \<or> row_count \<noteq> 0
          then Inl (AuthoredEnvelopeStoreError ''Authored checkpoint is missing but history exists; recovery is required'') else Inr ()
      | Some artifact \<Rightarrow>
          rbind (decodeRecordMetadata last_row game sender) (\<lambda>r.
          if \<not> safe_nat row_count \<or> int (env_seq (art_envelope artifact)) \<ge> MAX_SAFE_INTEGER \<or>
             row_count \<noteq> env_seq (art_envelope artifact) + 1 \<or> st_seq r \<noteq> env_seq (art_envelope artifact) \<or>
             \<not> bytesEqual (st_bytes r) (art_canonicalBytes artifact) \<or>
             (env_seq (art_envelope artifact) = 0 \<and> \<not> bytesEqual (env_prev (art_envelope artifact)) ZERO_HASH)
          then Inl (AuthoredEnvelopeStoreError ''Authored checkpoint and transcript disagree; recovery is required'')
          else Inr ()))"

definition validateNextArtifact ::
    "prims \<Rightarrow> bytes \<Rightarrow> bytes \<Rightarrow> bytes \<Rightarrow> EnvelopeArtifact option \<Rightarrow> storage_error + EnvelopeArtifact" where
  "validateNextArtifact pr candidate gameId sender head =
     rbind (if length candidate > MAX_AUTHORED_HISTORY_PAGE_BYTES
            then Inl (AuthoredEnvelopeStoreError ''Author callback returned an invalid envelope'')
            else catch_as (decodeAndVerifyEnvelope pr candidate)
                   (\<lambda>_. AuthoredEnvelopeStoreError ''Author callback returned an invalid envelope'')) (\<lambda>artifact.
     if head \<noteq> None \<and> int (env_seq (art_envelope (the head))) \<ge> MAX_SAFE_INTEGER
     then Inl (AuthoredEnvelopeStoreError ''Authored sequence cannot be advanced safely'')
     else
     let expectedSeq = (case head of None \<Rightarrow> 0 | Some h \<Rightarrow> env_seq (art_envelope h) + 1);
         expectedPrev = (case head of None \<Rightarrow> ZERO_HASH | Some h \<Rightarrow> art_hash h) in
     if \<not> bytesEqual (env_game (art_envelope artifact)) gameId
     then Inl (AuthoredEnvelopeStoreError ''Authored envelope has the wrong game'')
     else if \<not> bytesEqual (env_from (art_envelope artifact)) sender
     then Inl (AuthoredEnvelopeStoreError ''Authored envelope has the wrong sender'')
     else if env_seq (art_envelope artifact) \<noteq> expectedSeq
     then Inl (AuthoredEnvelopeStoreError ''Authored envelope sequence is not the expected one'')
     else if \<not> bytesEqual (env_prev (art_envelope artifact)) expectedPrev
     then Inl (AuthoredEnvelopeStoreError ''Authored envelope has the wrong predecessor hash'')
     else Inr artifact)"

text \<open>The head of the authored chain, checked against the rows of its sender.\<close>

definition withCheckpoint :: "prims \<Rightarrow> P2pCardsDatabase \<Rightarrow> bytes \<Rightarrow> bytes \<Rightarrow> storage_error + EnvelopeArtifact option" where
  "withCheckpoint pr db game author =
     (let rows = sender_rows db (bytesToHex game) (bytesToHex author) in
      rbind (decodeStoredHead pr (get_head db (bytesToHex game) (bytesToHex author)) game author) (\<lambda>head.
      rbind (validateCheckpoint head (if rows = [] then None else Some (last rows)) (length rows) game author) (\<lambda>_.
      Inr head)))"

text \<open>
  The author's callback has a state of its own, which an aborted transaction does not reset. It is
  called at most once, with the checked head.
\<close>

definition store_next :: "P2pCardsDatabase \<Rightarrow> bytes \<Rightarrow> bytes \<Rightarrow> EnvelopeArtifact \<Rightarrow> storage_error + (P2pCardsDatabase \<times> unit)" where
  "store_next db game author artifact =
     rbind (add_transcript db (bytesToHex game) (bytesToHex author) (env_seq (art_envelope artifact)) (art_canonicalBytes artifact) True)
       (\<lambda>(db', _). Inr (put_head db' \<lparr>sah_game = bytesToHex game, sah_sender = bytesToHex author,
          sah_bytes = art_canonicalBytes artifact\<rparr>, ()))"

definition open_checkpoint ::
    "prims \<Rightarrow> jsval \<Rightarrow> jsval \<Rightarrow> P2pCardsDatabase \<Rightarrow>
     storage_error + (bytes \<times> bytes \<times> EnvelopeArtifact option \<times> EnvelopeArtifact option)" where
  "open_checkpoint pr gameId sender db =
     rbind (storeProto (parseGameId gameId)) (\<lambda>game.
     rbind (storeProto (parseIdentityPublicKey sender)) (\<lambda>author.
     rbind (withCheckpoint pr db game author) (\<lambda>head.
     rbind (case head of None \<Rightarrow> Inr None | Some h \<Rightarrow>
         rbind (storeProto (decodeAndVerifyEnvelope pr (art_canonicalBytes h))) (\<lambda>copy. Inr (Some copy))) (\<lambda>argument.
     Inr (game, author, head, argument)))))"

definition appendNext ::
    "prims \<Rightarrow> storage_error option \<Rightarrow> jsval \<Rightarrow> jsval \<Rightarrow>
     ('c \<Rightarrow> EnvelopeArtifact option \<Rightarrow> 'c \<times> (storage_error + EnvelopeArtifact)) \<Rightarrow> 'c \<Rightarrow> P2pCardsDatabase \<Rightarrow>
     'c \<times> P2pCardsDatabase \<times> (storage_error + unit)" where
  "appendNext pr fault gameId sender create c db =
     (case open_checkpoint pr gameId sender db of
        Inl e \<Rightarrow> (c, db, Inl e)
      | Inr (game, author, head, argument) \<Rightarrow>
          let (c', made) = create c argument in
          (c', transact fault db
             (rbind made (\<lambda>candidate.
              rbind (validateNextArtifact pr (art_canonicalBytes candidate) game author head) (\<lambda>artifact.
              store_next db game author artifact)))))"

definition readAuthoredHead :: "prims \<Rightarrow> jsval \<Rightarrow> jsval \<Rightarrow> P2pCardsDatabase \<Rightarrow> storage_error + EnvelopeArtifact option" where
  "readAuthoredHead pr gameId sender db =
     rbind (storeProto (parseGameId gameId)) (\<lambda>game.
     rbind (storeProto (parseIdentityPublicKey sender)) (\<lambda>author.
     withCheckpoint pr db game author))"

text \<open>The cursor over the rows from \<open>fromSeq\<close> to \<open>toSeq\<close>.\<close>

fun authored_page ::
    "prims \<Rightarrow> bytes \<Rightarrow> bytes \<Rightarrow> nat \<Rightarrow> nat \<Rightarrow> StoredTranscriptEnvelope list \<Rightarrow> EnvelopeArtifact list \<Rightarrow> nat \<Rightarrow>
     storage_error + EnvelopeArtifact list" where
  "authored_page pr game author fromSeq toSeq [] artifacts n =
     Inl (AuthoredEnvelopeStoreError ''Authored history page is missing an envelope'')"
| "authored_page pr game author fromSeq toSeq (row # rows) artifacts n =
     rbind (decodeRecordMetadata (Some row) game author) (\<lambda>r.
     if st_seq r \<noteq> fromSeq + length artifacts
     then Inl (AuthoredEnvelopeStoreError ''Authored history page contains a sequence gap'')
     else if length (st_bytes r) > MAX_AUTHORED_HISTORY_PAGE_BYTES - n
     then (if artifacts = [] then Inl (AuthoredEnvelopeStoreError ''Authored envelope exceeds the page byte limit'') else Inr artifacts)
     else rbind (storeProto (decodeAndVerifyEnvelope pr (st_bytes r))) (\<lambda>artifact.
     if \<not> bytesEqual (env_game (art_envelope artifact)) game \<or> \<not> bytesEqual (env_from (art_envelope artifact)) author \<or>
        env_seq (art_envelope artifact) \<noteq> st_seq r
     then Inl (AuthoredEnvelopeStoreError ''Authored history record has mismatched signed metadata'')
     else if (artifacts \<noteq> [] \<and> \<not> bytesEqual (env_prev (art_envelope artifact)) (art_hash (last artifacts))) \<or>
        (st_seq r = 0 \<and> \<not> bytesEqual (env_prev (art_envelope artifact)) ZERO_HASH)
     then Inl (AuthoredEnvelopeStoreError ''Authored history page has a broken predecessor'')
     else if st_seq r = toSeq then Inr (artifacts @ [artifact])
     else authored_page pr game author fromSeq toSeq rows (artifacts @ [artifact]) (n + length (art_canonicalBytes artifact))))"

definition readAuthoredPage ::
    "prims \<Rightarrow> jsval \<Rightarrow> jsval \<Rightarrow> nat \<Rightarrow> nat \<Rightarrow> P2pCardsDatabase \<Rightarrow> storage_error + EnvelopeArtifact list" where
  "readAuthoredPage pr gameId sender fromSeq toSeq db =
     (if \<not> safe_nat fromSeq \<or> \<not> safe_nat toSeq \<or> toSeq < fromSeq \<or> toSeq - fromSeq \<ge> MAX_AUTHORED_HISTORY_PAGE_ENVELOPES
      then Inl (StorageJsError (RangeError ''Authored page must be an inclusive range of at most 128 safe sequences''))
      else
      rbind (storeProto (parseGameId gameId)) (\<lambda>game.
      rbind (storeProto (parseIdentityPublicKey sender)) (\<lambda>author.
      rbind (withCheckpoint pr db game author) (\<lambda>head.
      if head = None \<or> toSeq > env_seq (art_envelope (the head))
      then Inl (AuthoredEnvelopeStoreError ''Requested history exceeds the durable authored checkpoint'')
      else authored_page pr game author fromSeq toSeq
             (filter (\<lambda>r. fromSeq \<le> st_seq r \<and> st_seq r \<le> toSeq) (sender_rows db (bytesToHex game) (bytesToHex author))) [] 0))))"

end
