(* ===== verification/Storage_Inv.thy ===== *)
theory Storage_Inv
  imports Session_Storage
begin

text \<open>
  What the durable tables keep: every row is the verified envelope its columns name, no sender has
  two rows with one sequence number, and the rows a participant authored are a linked chain whose
  last envelope is the stored head. Every transaction of both stores keeps it, whatever it is given
  and whether or not it commits, and rows are only ever added.
\<close>

lemma guard_Inr: "(if c then Inl e else r) = Inr a \<longleftrightarrow> \<not> c \<and> r = Inr a"
  by simp

section \<open>Rows\<close>

definition decoded :: "prims \<Rightarrow> StoredTranscriptEnvelope \<Rightarrow> EnvelopeArtifact" where
  "decoded pr r = (case decodeAndVerifyEnvelope pr (st_bytes r) of Inl _ \<Rightarrow> undefined | Inr a \<Rightarrow> a)"

definition row_ok :: "prims \<Rightarrow> StoredTranscriptEnvelope \<Rightarrow> bool" where
  "row_ok pr r \<longleftrightarrow> decodeAndVerifyEnvelope pr (st_bytes r) = Inr (decoded pr r) \<and>
     st_game r = bytesToHex (env_game (art_envelope (decoded pr r))) \<and>
     st_sender r = bytesToHex (env_from (art_envelope (decoded pr r))) \<and>
     st_seq r = env_seq (art_envelope (decoded pr r))"

definition row_key :: "StoredTranscriptEnvelope \<Rightarrow> string \<times> string \<times> nat" where
  "row_key r = (st_game r, st_sender r, st_seq r)"

text \<open>The envelopes of a sender in the order of their sequence numbers, and those authored here.\<close>

definition stored_log :: "prims \<Rightarrow> P2pCardsDatabase \<Rightarrow> bytes \<Rightarrow> bytes \<Rightarrow> EnvelopeArtifact list" where
  "stored_log pr db g s = map (decoded pr) (sender_rows db (bytesToHex g) (bytesToHex s))"

definition authored_rows :: "P2pCardsDatabase \<Rightarrow> string \<Rightarrow> string \<Rightarrow> StoredTranscriptEnvelope list" where
  "authored_rows db g s = filter st_authored (sender_rows db g s)"

definition authored_log :: "prims \<Rightarrow> P2pCardsDatabase \<Rightarrow> bytes \<Rightarrow> bytes \<Rightarrow> EnvelopeArtifact list" where
  "authored_log pr db g s = map (decoded pr) (authored_rows db (bytesToHex g) (bytesToHex s))"

definition head_row :: "bytes \<Rightarrow> bytes \<Rightarrow> EnvelopeArtifact list \<Rightarrow> StoredAuthoredHead option" where
  "head_row g s as = (if as = [] then None
     else Some \<lparr>sah_game = bytesToHex g, sah_sender = bytesToHex s, sah_bytes = art_canonicalBytes (last as)\<rparr>)"

definition db_inv :: "prims \<Rightarrow> P2pCardsDatabase \<Rightarrow> bool" where
  "db_inv pr db \<longleftrightarrow> (\<forall>r \<in> set (db_transcripts db). row_ok pr r) \<and> distinct (map row_key (db_transcripts db)) \<and>
     map st_arrival (db_transcripts db) = [1..<Suc (length (db_transcripts db))] \<and>
     db_nextArrival db = Suc (length (db_transcripts db)) \<and>
     (\<forall>g s. linked s (authored_log pr db g s) \<and>
        get_head db (bytesToHex g) (bytesToHex s) = head_row g s (authored_log pr db g s) \<and>
        (\<forall>a \<in> set (authored_log pr db g s). length (art_canonicalBytes a) \<le> MAX_AUTHORED_HISTORY_PAGE_BYTES))"

lemma new_db_inv: "db_inv pr newDatabase"
  by (simp add: db_inv_def newDatabase_def authored_log_def authored_rows_def sender_rows_def linked_def get_head_def head_row_def)

lemma row_ok_of:
  assumes "decodeAndVerifyEnvelope pr b = Inr a"
  shows "row_ok pr \<lparr>st_arrival = k, st_game = bytesToHex (env_game (art_envelope a)), st_sender = bytesToHex (env_from (art_envelope a)),
    st_seq = env_seq (art_envelope a), st_bytes = b, st_authored = f\<rparr>"
    "decoded pr \<lparr>st_arrival = k, st_game = g, st_sender = s, st_seq = n, st_bytes = b, st_authored = f\<rparr> = a"
  using assms by (simp_all add: row_ok_def decoded_def)

lemma sender_rows_set: "set (sender_rows db g s) = {r \<in> set (db_transcripts db). in_scope g s r}"
  by (auto simp: sender_rows_def)

lemma authored_rows_alt: "authored_rows db g s = sort_key st_seq (filter (\<lambda>r. in_scope g s r \<and> st_authored r) (db_transcripts db))"
  by (simp add: authored_rows_def sender_rows_def filter_sort conj_commute)

lemma stored_log_verified:
  assumes "codec_laws pr" "\<forall>r \<in> set (db_transcripts db). row_ok pr r" "a \<in> set (stored_log pr db g s)"
  shows "verified pr a" "env_game (art_envelope a) = g" "env_from (art_envelope a) = s"
proof -
  obtain r where r: "r \<in> set (db_transcripts db)" "in_scope (bytesToHex g) (bytesToHex s) r" "a = decoded pr r"
    using assms(3) by (auto simp: stored_log_def sender_rows_set)
  have ok: "row_ok pr r" using assms(2) r(1) by blast
  then have d: "decodeAndVerifyEnvelope pr (st_bytes r) = Inr a" by (simp add: row_ok_def r(3))
  then show "verified pr a" using verified_artifact(1) [OF assms(1) d] by (simp add: verified_def)
  show "env_game (art_envelope a) = g" "env_from (art_envelope a) = s"
    using ok r(2,3) by (simp_all add: row_ok_def in_scope_def)
qed

lemma authored_log_subset: "set (authored_log pr db g s) \<subseteq> set (stored_log pr db g s)"
  by (auto simp: authored_log_def stored_log_def authored_rows_def)

lemma stored_seqs:
  assumes "\<forall>r \<in> set (db_transcripts db). row_ok pr r"
  shows "map (\<lambda>a. env_seq (art_envelope a)) (stored_log pr db g s) = map st_seq (sender_rows db (bytesToHex g) (bytesToHex s))"
proof -
  have "\<forall>r \<in> set (sender_rows db (bytesToHex g) (bytesToHex s)). row_ok pr r" using assms by (simp add: sender_rows_set)
  then show ?thesis by (simp add: stored_log_def row_ok_def)
qed

lemma rows_distinct_seq: "distinct (map row_key rows) \<Longrightarrow> distinct (map st_seq (filter (in_scope g s) rows))"
proof (induction rows)
  case (Cons r rows)
  have "st_seq r \<notin> st_seq ` set (filter (in_scope g s) rows)" if "in_scope g s r"
  proof
    assume "st_seq r \<in> st_seq ` set (filter (in_scope g s) rows)"
    then obtain x where "x \<in> set rows" "in_scope g s x" "st_seq x = st_seq r" by auto
    then have "row_key r \<in> row_key ` set rows" using that by (auto simp: in_scope_def row_key_def image_iff intro!: bexI [of _ x])
    then show False using Cons.prems by simp
  qed
  then show ?case using Cons by simp
qed simp

lemma strict_sender_seqs:
  assumes "distinct (map row_key (db_transcripts db))"
  shows "sorted_wrt (<) (map st_seq (sender_rows db g s))"
proof -
  have "distinct (map st_seq (sender_rows db g s))"
    using rows_distinct_seq [OF assms, of g s] unfolding sender_rows_def
    by (metis mset_map mset_eq_imp_distinct_iff mset_sort)
  moreover have "sorted (map st_seq (sender_rows db g s))" by (simp add: sender_rows_def)
  ultimately show ?thesis by (simp add: strict_sorted_iff)
qed

section \<open>Adding a row\<close>

definition with_row :: "P2pCardsDatabase \<Rightarrow> StoredTranscriptEnvelope \<Rightarrow> P2pCardsDatabase" where
  "with_row db r = db\<lparr>db_transcripts := db_transcripts db @ [r], db_nextArrival := Suc (db_nextArrival db)\<rparr>"

lemma with_row_sel [simp]:
  "db_transcripts (with_row db r) = db_transcripts db @ [r]" "db_authoredHeads (with_row db r) = db_authoredHeads db"
  "db_nextArrival (with_row db r) = Suc (db_nextArrival db)" "get_head (with_row db r) g s = get_head db g s"
  by (simp_all add: with_row_def get_head_def fun_eq_iff)

lemma add_transcript_Inr:
  "add_transcript db g s n b f = Inr (db', k) \<longleftrightarrow> get_transcript db g s n = None \<and> k = db_nextArrival db \<and>
     db_nextArrival db \<le> LAST_GENERATED_KEY \<and>
     db' = with_row db \<lparr>st_arrival = k, st_game = g, st_sender = s, st_seq = n, st_bytes = b, st_authored = f\<rparr>"
  by (auto simp: add_transcript_def with_row_def)

lemma get_transcript_None: "get_transcript db g s n = None \<longleftrightarrow> (g, s, n) \<notin> row_key ` set (db_transcripts db)"
  by (auto simp: get_transcript_def find_None_iff in_scope_def row_key_def)

lemma get_transcript_Some:
  "get_transcript db g s n = Some r \<Longrightarrow> r \<in> set (db_transcripts db) \<and> row_key r = (g, s, n)"
  by (auto simp: get_transcript_def find_Some_iff in_scope_def row_key_def)

lemma insort_above: "\<forall>x \<in> set xs. f x < f r \<Longrightarrow> insort_key f r xs = xs @ [r]"
  by (induction xs) auto

lemma sort_key_snoc: "\<forall>x \<in> set xs. f x < f r \<Longrightarrow> sort_key f (xs @ [r]) = sort_key f xs @ [r]"
proof (induction xs)
  case (Cons x xs)
  have ins: "insort_key f x (zs @ [r]) = insort_key f x zs @ [r]" for zs
    using Cons.prems by (induction zs) auto
  show ?case using Cons ins by simp
qed simp

lemma sender_rows_with_row_other [simp]: "\<not> in_scope g s r \<Longrightarrow> sender_rows (with_row db r) g s = sender_rows db g s"
  by (simp add: sender_rows_def)

lemma sender_rows_with_row_last:
  assumes "in_scope g s r" "\<forall>x \<in> set (sender_rows db g s). st_seq x < st_seq r"
  shows "sender_rows (with_row db r) g s = sender_rows db g s @ [r]"
  using assms sort_key_snoc [of "filter (in_scope g s) (db_transcripts db)" st_seq r]
  by (simp add: sender_rows_def)

lemma authored_rows_foreign [simp]: "\<not> st_authored r \<Longrightarrow> authored_rows (with_row db r) g s = authored_rows db g s"
  by (simp add: authored_rows_alt)

lemma with_row_facts:
  assumes "db_inv pr db" "row_ok pr r" "row_key r \<notin> row_key ` set (db_transcripts db)" "st_arrival r = db_nextArrival db"
  shows "\<forall>x \<in> set (db_transcripts (with_row db r)). row_ok pr x" "distinct (map row_key (db_transcripts (with_row db r)))"
    "map st_arrival (db_transcripts (with_row db r)) = [1..<Suc (length (db_transcripts (with_row db r)))]"
    "db_nextArrival (with_row db r) = Suc (length (db_transcripts (with_row db r)))"
  using assms by (auto simp: db_inv_def)

lemma foreign_row_inv:
  assumes "db_inv pr db" "row_ok pr r" "row_key r \<notin> row_key ` set (db_transcripts db)" "st_arrival r = db_nextArrival db" "\<not> st_authored r"
  shows "db_inv pr (with_row db r)"
  unfolding db_inv_def using with_row_facts [OF assms(1-4)] assms(1,5)
  by (simp add: db_inv_def authored_log_def del: upt_Suc)


section \<open>Authoring\<close>

lemma get_head_put [simp]:
  "get_head (put_head db h) g s = (if g = sah_game h \<and> s = sah_sender h then Some h else get_head db g s)"
proof -
  have "find (\<lambda>x. sah_game x = g \<and> sah_sender x = s) (filter (\<lambda>x. \<not> (sah_game x = sah_game h \<and> sah_sender x = sah_sender h)) hs) =
      find (\<lambda>x. sah_game x = g \<and> sah_sender x = s) hs" if "\<not> (g = sah_game h \<and> s = sah_sender h)" for hs
    using that by (induction hs) auto
  then show ?thesis by (auto simp: get_head_def put_head_def)
qed

lemma put_head_sel [simp]:
  "db_transcripts (put_head db h) = db_transcripts db" "db_nextArrival (put_head db h) = db_nextArrival db"
  "sender_rows (put_head db h) g s = sender_rows db g s" "authored_rows (put_head db h) g s = authored_rows db g s"
  "authored_log pr (put_head db h) g' s' = authored_log pr db g' s'" "stored_log pr (put_head db h) g' s' = stored_log pr db g' s'"
  by (simp_all add: put_head_def sender_rows_def authored_rows_def authored_log_def stored_log_def)

lemma decodeStoredHead_Inr:
  "decodeStoredHead pr v g s = Inr head \<longleftrightarrow> (case v of None \<Rightarrow> head = None
     | Some h \<Rightarrow> \<exists>a. head = Some a \<and> decodeAndVerifyEnvelope pr (sah_bytes h) = Inr a \<and>
         length (sah_bytes h) \<le> MAX_AUTHORED_HISTORY_PAGE_BYTES \<and> env_game (art_envelope a) = g \<and> env_from (art_envelope a) = s)"
  by (auto simp: decodeStoredHead_def result_simps split: option.splits)

lemma checkpoint_head:
  assumes "codec_laws pr" "db_inv pr db" "withCheckpoint pr db g s = Inr head"
  shows "stored_log pr db g s = authored_log pr db g s" "authored_rows db (bytesToHex g) (bytesToHex s) = sender_rows db (bytesToHex g) (bytesToHex s)"
    "head = (if authored_log pr db g s = [] then None else Some (last (authored_log pr db g s)))"
proof -
  let ?as = "authored_log pr db g s" and ?rows = "sender_rows db (bytesToHex g) (bytesToHex s)"
  have lk: "linked s ?as" and hd: "get_head db (bytesToHex g) (bytesToHex s) = head_row g s ?as"
    and ok: "\<forall>r \<in> set (db_transcripts db). row_ok pr r"
    using assms(2) by (simp_all add: db_inv_def)
  have d: "decodeStoredHead pr (head_row g s ?as) g s = Inr head"
    and v: "validateCheckpoint head (if ?rows = [] then None else Some (last ?rows)) (length ?rows) g s = Inr ()"
    using assms(3) hd by (auto simp: withCheckpoint_def Let_def result_simps)
  have main: "authored_rows db (bytesToHex g) (bytesToHex s) = ?rows \<and> head = (if ?as = [] then None else Some (last ?as))"
  proof (cases "?as = []")
    case True
    then have h: "head = None" using d by (simp add: head_row_def decodeStoredHead_Inr)
    then have "?rows = []" using v by (simp add: validateCheckpoint_def split: if_splits)
    then show ?thesis using True h by (simp add: authored_rows_def)
  next
    case False
    have "verified pr (last ?as)" using False authored_log_subset stored_log_verified(1) [OF assms(1) ok] last_in_set [OF False] by blast
    then have h: "head = Some (last ?as)" using d False by (auto simp: head_row_def decodeStoredHead_Inr verified_def)
    have "env_seq (art_envelope (?as ! (length ?as - 1))) = length ?as - 1" using lk False by (simp add: linked_def)
    then have "env_seq (art_envelope (last ?as)) = length ?as - 1" using False by (simp add: last_conv_nth)
    then have "length ?rows = length ?as" using v h False by (auto simp: validateCheckpoint_def result_simps split: if_splits)
    then have "length (filter st_authored ?rows) = length ?rows" by (simp add: authored_log_def authored_rows_def)
    then have "filter st_authored ?rows = ?rows" by (metis filter_True length_filter_less nat_neq_iff)
    then show ?thesis using h False by (simp add: authored_rows_def)
  qed
  then show "authored_rows db (bytesToHex g) (bytesToHex s) = ?rows" "head = (if ?as = [] then None else Some (last ?as))" by simp_all
  then show "stored_log pr db g s = ?as" by (simp add: stored_log_def authored_log_def)
qed

lemma validateNextArtifact_Inr:
  "validateNextArtifact pr b g s head = Inr a \<longleftrightarrow> decodeAndVerifyEnvelope pr b = Inr a \<and> length b \<le> MAX_AUTHORED_HISTORY_PAGE_BYTES \<and>
     (head \<noteq> None \<longrightarrow> int (env_seq (art_envelope (the head))) < MAX_SAFE_INTEGER) \<and> env_game (art_envelope a) = g \<and> env_from (art_envelope a) = s \<and>
     env_seq (art_envelope a) = (case head of None \<Rightarrow> 0 | Some h \<Rightarrow> env_seq (art_envelope h) + 1) \<and>
     env_prev (art_envelope a) = (case head of None \<Rightarrow> ZERO_HASH | Some h \<Rightarrow> art_hash h)"
  by (cases "decodeAndVerifyEnvelope pr b"; cases head)
    (simp_all add: validateNextArtifact_def Let_def not_le not_less guard_Inr, auto)

lemma linked_last: "linked s as \<Longrightarrow> as \<noteq> [] \<Longrightarrow> env_seq (art_envelope (last as)) = length as - 1"
  by (simp add: linked_def last_conv_nth)

lemma next_linked:
  assumes "linked s as" "validateNextArtifact pr b g s (if as = [] then None else Some (last as)) = Inr a"
  shows "linked s (as @ [a])"
  using assms linked_last [OF assms(1)] by (auto simp: validateNextArtifact_Inr linked_snoc prev_hash_def split: if_splits)

lemma store_next_inv:
  assumes laws: "codec_laws pr" and inv: "db_inv pr db" and cp: "withCheckpoint pr db g s = Inr head"
    and a: "validateNextArtifact pr b g s head = Inr a" and st: "store_next db g s a = Inr (db', u)"
  shows "db_inv pr db'" "authored_log pr db' g s = authored_log pr db g s @ [a]" "stored_log pr db' g s = stored_log pr db g s @ [a]"
    "\<And>g' s'. (g', s') \<noteq> (g, s) \<Longrightarrow> authored_log pr db' g' s' = authored_log pr db g' s' \<and> stored_log pr db' g' s' = stored_log pr db g' s'"
    "\<exists>r. db_transcripts db' = db_transcripts db @ [r]" "verified pr a"
proof -
  note h = checkpoint_head [OF laws inv cp]
  define k where "k = db_nextArrival db"
  define r where "r = \<lparr>st_arrival = k, st_game = bytesToHex g, st_sender = bytesToHex s,
    st_seq = env_seq (art_envelope a), st_bytes = art_canonicalBytes a, st_authored = True\<rparr>"
  have db': "db' = put_head (with_row db r) \<lparr>sah_game = bytesToHex g, sah_sender = bytesToHex s, sah_bytes = art_canonicalBytes a\<rparr>"
    and new: "get_transcript db (bytesToHex g) (bytesToHex s) (env_seq (art_envelope a)) = None"
    using st by (auto simp: store_next_def result_simps add_transcript_Inr r_def k_def)
  have ad: "decodeAndVerifyEnvelope pr b = Inr a" "env_game (art_envelope a) = g" "env_from (art_envelope a) = s"
    using a by (simp_all add: validateNextArtifact_Inr)
  then have ab: "decodeAndVerifyEnvelope pr (art_canonicalBytes a) = Inr a" using verified_artifact(1) [OF laws ad(1)] by simp
  then show "verified pr a" by (simp add: verified_def)
  have ok: "row_ok pr r" "decoded pr r = a" using row_ok_of [OF ab] ad by (simp_all add: r_def)
  have fresh: "row_key r \<notin> row_key ` set (db_transcripts db)"
    using new unfolding get_transcript_None by (simp add: row_key_def r_def)
  have lk: "linked s (authored_log pr db g s)" using inv by (simp add: db_inv_def)
  have lk': "linked s (authored_log pr db g s @ [a])" using next_linked [OF lk] a h(3) by simp
  have seqs: "map st_seq (sender_rows db (bytesToHex g) (bytesToHex s)) = map (\<lambda>a. env_seq (art_envelope a)) (authored_log pr db g s)"
    using stored_seqs [of db pr g s] inv h(1) by (simp add: db_inv_def)
  have rseq: "st_seq r = length (authored_log pr db g s)" using lk' by (simp add: r_def linked_snoc)
  have below: "\<forall>x \<in> set (sender_rows db (bytesToHex g) (bytesToHex s)). st_seq x < st_seq r"
  proof
    fix x assume "x \<in> set (sender_rows db (bytesToHex g) (bytesToHex s))"
    then have "st_seq x \<in> set (map st_seq (sender_rows db (bytesToHex g) (bytesToHex s)))" by simp
    then show "st_seq x < st_seq r" unfolding seqs rseq using lk by (auto simp: linked_def in_set_conv_nth)
  qed
  have sc: "in_scope (bytesToHex g) (bytesToHex s) r" by (simp add: in_scope_def r_def)
  have rows: "sender_rows (with_row db r) (bytesToHex g) (bytesToHex s) = sender_rows db (bytesToHex g) (bytesToHex s) @ [r]"
    by (rule sender_rows_with_row_last [OF sc below])
  show al: "authored_log pr db' g s = authored_log pr db g s @ [a]"
    unfolding db' using rows ok(2) by (simp add: authored_log_def authored_rows_def) (simp add: r_def)
  show "stored_log pr db' g s = stored_log pr db g s @ [a]"
    unfolding db' using rows ok(2) by (simp add: stored_log_def)
  show other: "authored_log pr db' g' s' = authored_log pr db g' s' \<and> stored_log pr db' g' s' = stored_log pr db g' s'"
    if "(g', s') \<noteq> (g, s)" for g' s'
  proof -
    have "\<not> in_scope (bytesToHex g') (bytesToHex s') r" using that by (auto simp: in_scope_def r_def)
    then show ?thesis unfolding db' by (simp add: authored_log_def authored_rows_def stored_log_def)
  qed
  have small: "length (art_canonicalBytes a) \<le> MAX_AUTHORED_HISTORY_PAGE_BYTES"
    using a verified_artifact(1) [OF laws ad(1)] by (simp add: validateNextArtifact_Inr)
  have heads: "linked s' (authored_log pr db' g' s') \<and>
      get_head db' (bytesToHex g') (bytesToHex s') = head_row g' s' (authored_log pr db' g' s') \<and>
      (\<forall>a \<in> set (authored_log pr db' g' s'). length (art_canonicalBytes a) \<le> MAX_AUTHORED_HISTORY_PAGE_BYTES)" for g' s'
  proof (cases "(g', s') = (g, s)")
    case True
    then show ?thesis using al lk' small inv by (simp add: head_row_def db_inv_def) (simp add: db')
  next
    case False
    then have "get_head db' (bytesToHex g') (bytesToHex s') = get_head db (bytesToHex g') (bytesToHex s')" by (auto simp: db')
    then show ?thesis using other [OF False] inv by (simp add: db_inv_def)
  qed
  have "st_arrival r = db_nextArrival db" by (simp add: r_def k_def)
  from with_row_facts [OF inv ok(1) fresh this] heads show "db_inv pr db'"
    unfolding db_inv_def by (simp add: db' del: upt_Suc)
  show "\<exists>r. db_transcripts db' = db_transcripts db @ [r]" by (simp add: db')
qed

section \<open>Transactions\<close>

definition grows :: "prims \<Rightarrow> P2pCardsDatabase \<Rightarrow> P2pCardsDatabase \<Rightarrow> bool" where
  "grows pr db db' \<longleftrightarrow> db_inv pr db' \<and> prefix (db_transcripts db) (db_transcripts db') \<and>
     (\<forall>g s. prefix (authored_log pr db g s) (authored_log pr db' g s))"

lemma grows_refl: "db_inv pr db \<Longrightarrow> grows pr db db"
  by (simp add: grows_def)

lemma grows_trans: "grows pr db db' \<Longrightarrow> grows pr db' db'' \<Longrightarrow> grows pr db db''"
  unfolding grows_def by (meson prefix_order.trans)

lemma grows_games [simp]: "grows pr db (put_game db' r) = grows pr db db'" "db_inv pr (put_game db' r) = db_inv pr db'"
  "stored_log pr (put_game db r) g s = stored_log pr db g s"
proof -
  have "get_head (put_game db' r) = get_head db'" "sender_rows (put_game db r) = sender_rows db" for db
    by (simp_all add: fun_eq_iff put_game_def get_head_def sender_rows_def)
  then show "grows pr db (put_game db' r) = grows pr db db'" "db_inv pr (put_game db' r) = db_inv pr db'"
    "stored_log pr (put_game db r) g s = stored_log pr db g s"
    unfolding grows_def db_inv_def authored_log_def authored_rows_def stored_log_def by (simp_all add: put_game_def)
qed

lemma transact_cases:
  "fst (transact fault db r) = db \<or> (\<exists>v. r = Inr (fst (transact fault db r), v))"
  by (cases r; cases fault) (auto simp: transact_def)

lemma transact_Inr: "transact fault db r = (db', Inr v) \<longleftrightarrow> r = Inr (db', v) \<and> fault = None"
  by (cases r; cases fault) (auto simp: transact_def)

lemma transact_Inl: "transact fault db r = (db', Inl e) \<Longrightarrow> db' = db"
  by (cases r; cases fault) (auto simp: transact_def)

definition foreign_row :: "P2pCardsDatabase \<Rightarrow> EnvelopeArtifact \<Rightarrow> StoredTranscriptEnvelope" where
  "foreign_row db a = \<lparr>st_arrival = db_nextArrival db, st_game = bytesToHex (env_game (art_envelope a)),
     st_sender = bytesToHex (env_from (art_envelope a)), st_seq = env_seq (art_envelope a), st_bytes = art_canonicalBytes a, st_authored = False\<rparr>"

lemma add_foreign:
  assumes "db_inv pr db" "verified pr a" "st_authored r = False"
    "add_transcript db (bytesToHex (env_game (art_envelope a))) (bytesToHex (env_from (art_envelope a))) (env_seq (art_envelope a))
       (art_canonicalBytes a) False = Inr (db', k)"
  shows "db' = with_row db (foreign_row db a)" "db_inv pr db'" "grows pr db db'" "decoded pr (foreign_row db a) = a"
proof -
  show db': "db' = with_row db (foreign_row db a)" using assms(4) by (auto simp: add_transcript_Inr foreign_row_def)
  have ok: "row_ok pr (foreign_row db a)" and d: "decoded pr (foreign_row db a) = a"
    using row_ok_of assms(2) by (simp_all add: foreign_row_def verified_def)
  show "decoded pr (foreign_row db a) = a" by (rule d)
  have fresh: "row_key (foreign_row db a) \<notin> row_key ` set (db_transcripts db)"
    using assms(4) unfolding add_transcript_Inr get_transcript_None by (simp add: row_key_def foreign_row_def)
  show inv: "db_inv pr db'" unfolding db' by (rule foreign_row_inv [OF assms(1) ok fresh]) (simp_all add: foreign_row_def)
  have "\<not> st_authored (foreign_row db a)" by (simp add: foreign_row_def)
  then show "grows pr db db'" using inv unfolding grows_def db' by (simp add: authored_log_def)
qed

lemma persist_row_grows:
  assumes "db_inv pr db" "verified pr a" "persist_row pr db a = Inr (db', v)"
  shows "grows pr db db'"
proof (cases "get_transcript db (bytesToHex (env_game (art_envelope a))) (bytesToHex (env_from (art_envelope a))) (env_seq (art_envelope a))")
  case None
  then show ?thesis
    using assms(3) add_foreign(3) [OF assms(1,2), of "foreign_row db a"] by (auto simp: persist_row_def Let_def result_simps foreign_row_def)
next
  case (Some r)
  then have "db' = db" using assms(3) by (auto simp: persist_row_def Let_def result_simps)
  then show ?thesis using grows_refl [OF assms(1)] by simp
qed

lemma select_roster_grows:
  assumes "grows pr db0 db" "select_roster pr db host a inc st = Inr (db', v)"
  shows "grows pr db0 db'"
proof -
  have *: "(case ex of None \<Rightarrow> Inr (put_game db r, v1) | Some x \<Rightarrow> if c1 x then Inr (put_game db r, v2 x)
      else if c2 x then Inr (db, v3 x) else if c3 x then Inr (db, v4 x) else Inl e) = Inr (db', v) \<Longrightarrow> grows pr db0 db'"
    for ex r v1 c1 v2 c2 v3 c3 v4 and e :: storage_error
    using assms(1) by (cases ex) (auto split: if_splits)
  obtain rec ex where "readGameRecord (get_game db (bytesToHex (env_game (art_envelope a)))) (bytesToHex (env_game (art_envelope a))) = Inr rec"
    using assms(2) by (auto simp: select_roster_def Let_def result_simps)
  then show ?thesis using assms(2) unfolding select_roster_def Let_def
    by (simp only: rbind_Inr) (erule rbind_eq_Inr [THEN iffD1, THEN exE], elim conjE, erule *)
qed

lemma roster_row_grows:
  assumes "db_inv pr db" "verified pr a" "roster_row pr db (env_from (art_envelope a)) a inc = Inr (db', v)"
  shows "grows pr db db'"
proof (cases "get_transcript db (bytesToHex (env_game (art_envelope a))) (bytesToHex (env_from (art_envelope a))) (env_seq (art_envelope a))")
  case None
  then obtain db1 k where "add_transcript db (bytesToHex (env_game (art_envelope a))) (bytesToHex (env_from (art_envelope a)))
      (env_seq (art_envelope a)) (art_canonicalBytes a) False = Inr (db1, k)"
    "select_roster pr db1 (env_from (art_envelope a)) a inc RowStored = Inr (db', v)"
    using assms(3) by (auto simp: roster_row_def Let_def result_simps)
  then show ?thesis using select_roster_grows add_foreign(3) [OF assms(1,2), of "foreign_row db a"] by (simp add: foreign_row_def)
next
  case (Some r)
  then show ?thesis
    using assms(3) grows_refl [OF assms(1)] select_roster_grows [OF grows_refl [OF assms(1)]]
    by (auto simp: roster_row_def Let_def result_simps split: if_splits)
qed

lemma snapshot_verified: "codec_laws pr \<Longrightarrow> snapshotArtifact pr b m = Inr a \<Longrightarrow> verified pr a \<and> art_canonicalBytes a = b"
  using verified_artifact(1) by (auto simp: snapshotArtifact_def verified_def)

lemma persistAcceptedEnvelope_grows:
  assumes "codec_laws pr" "db_inv pr db"
  shows "grows pr db (fst (persistAcceptedEnvelope pr fault b db))"
proof (cases "snapshotArtifact pr b ''Accepted envelope is invalid''")
  case (Inr a)
  then show ?thesis
    using transact_cases [of fault db "persist_row pr db a"] persist_row_grows [OF assms(2)] snapshot_verified [OF assms(1) Inr] grows_refl [OF assms(2)]
    by (auto simp: persistAcceptedEnvelope_def)
qed (simp add: persistAcceptedEnvelope_def grows_refl [OF assms(2)])

lemma decodeRosterArtifact_from: "decodeRosterArtifact pr a host = Inr p \<Longrightarrow> env_from (art_envelope a) = host"
  by (simp add: decodeRosterArtifact_def Let_def guard_Inr)

lemma persistAcceptedRoster_grows:
  assumes "codec_laws pr" "db_inv pr db"
  shows "grows pr db (fst (persistAcceptedRoster pr fault h b db))"
proof -
  have "grows pr db (fst (transact fault db (roster_row pr db host a inc)))"
    if "snapshotArtifact pr b m = Inr a" "decodeRosterArtifact pr a host = Inr inc" for host a inc m
    using transact_cases [of fault db "roster_row pr db host a inc"] roster_row_grows [OF assms(2)] snapshot_verified [OF assms(1) that(1)]
      grows_refl [OF assms(2)] decodeRosterArtifact_from [OF that(2)] by metis
  then show ?thesis
    using grows_refl [OF assms(2)] unfolding persistAcceptedRoster_def
    by (auto split: sum.splits simp: result_simps)
qed

lemma store_next_grows:
  assumes "codec_laws pr" "db_inv pr db" "withCheckpoint pr db g s = Inr head" "validateNextArtifact pr b g s head = Inr a"
    "store_next db g s a = Inr (db', u)"
  shows "grows pr db db'"
proof -
  note n = store_next_inv [OF assms]
  have "prefix (authored_log pr db g' s') (authored_log pr db' g' s')" for g' s'
    using n(2,4) by (cases "(g', s') = (g, s)") auto
  then show ?thesis using n(1,5) unfolding grows_def by auto
qed

lemma open_checkpoint_Inr:
  assumes "codec_laws pr" "open_checkpoint pr gv sv db = Inr (g, s, head, arg)"
  shows "gv = JBytes g" "sv = JBytes s" "length g = 16" "length s = 32" "withCheckpoint pr db g s = Inr head" "arg = head"
    "head = Some h \<Longrightarrow> verified pr h"
proof -
  have *: "gv = JBytes g" "sv = JBytes s" "length g = 16" "length s = 32" "withCheckpoint pr db g s = Inr head"
    "(case head of None \<Rightarrow> Inr None | Some h \<Rightarrow>
       rbind (storeProto (decodeAndVerifyEnvelope pr (art_canonicalBytes h))) (\<lambda>copy. Inr (Some copy))) = Inr arg"
    using assms(2) by (simp_all add: open_checkpoint_def result_simps field_defs)
  then show "gv = JBytes g" "sv = JBytes s" "length g = 16" "length s = 32" "withCheckpoint pr db g s = Inr head" by simp_all
  have v: "verified pr h" if h: "head = Some h" for h
  proof -
    have "\<exists>b. decodeAndVerifyEnvelope pr b = Inr h"
      using *(5) h by (auto simp: withCheckpoint_def Let_def result_simps decodeStoredHead_Inr split: option.splits)
    then show ?thesis using verified_artifact(1) [OF assms(1)] by (auto simp: verified_def)
  qed
  then show "head = Some h \<Longrightarrow> verified pr h" .
  show "arg = head" using *(6) v by (cases head) (auto simp: verified_def)
qed

lemma appendNext_cases:
  assumes "codec_laws pr"
  obtains (closed) e where "open_checkpoint pr gv sv db = Inl e" "appendNext pr fault gv sv create c db = (c, db, Inl e)"
  | (called) g s head where "gv = JBytes g" "sv = JBytes s" "length g = 16" "length s = 32" "withCheckpoint pr db g s = Inr head"
      "appendNext pr fault gv sv create c db = (fst (create c head), transact fault db
         (rbind (snd (create c head)) (\<lambda>x. rbind (validateNextArtifact pr (art_canonicalBytes x) g s head) (store_next db g s))))"
      "\<forall>h. head = Some h \<longrightarrow> verified pr h"
proof (cases "open_checkpoint pr gv sv db")
  case (Inl e)
  then show ?thesis by (intro closed) (simp_all add: appendNext_def)
next
  case (Inr x)
  then obtain g s head arg where o: "open_checkpoint pr gv sv db = Inr (g, s, head, arg)" by (cases x) auto
  note i = open_checkpoint_Inr [OF assms o]
  have "appendNext pr fault gv sv create c db = (fst (create c head), transact fault db
         (rbind (snd (create c head)) (\<lambda>x. rbind (validateNextArtifact pr (art_canonicalBytes x) g s head) (store_next db g s))))"
    using o i(6) by (simp add: appendNext_def split: prod.splits)
  then show ?thesis using called i(1-5,7) by blast
qed

lemma appendNext_grows:
  assumes laws: "codec_laws pr" and inv: "db_inv pr db"
  shows "grows pr db (fst (snd (appendNext pr fault gv sv create c db)))"
proof (rule appendNext_cases [OF laws, of gv sv db fault create c], goal_cases)
  case (2 g s head)
  let ?r = "rbind (snd (create c head)) (\<lambda>x. rbind (validateNextArtifact pr (art_canonicalBytes x) g s head) (store_next db g s))"
  have "grows pr db db'" if "?r = Inr (db', u)" for db' u
    using that store_next_grows [OF laws inv 2(5)] by (auto simp: result_simps)
  then show ?thesis using transact_cases [of fault db ?r] grows_refl [OF inv] 2(6) by auto
qed (use grows_refl [OF inv] in auto)

section \<open>Histories\<close>

text \<open>The transactions of every tab that shares the tables, in the order in which they run. The
  authoring callback is arbitrary here: what it returns is checked by the store.\<close>

inductive db_step :: "prims \<Rightarrow> P2pCardsDatabase \<Rightarrow> P2pCardsDatabase \<Rightarrow> bool" for pr where
  persist_envelope: "db_step pr db (fst (persistAcceptedEnvelope pr fault b db))"
| persist_roster: "db_step pr db (fst (persistAcceptedRoster pr fault host b db))"
| append_next: "db_step pr db (fst (snd (appendNext pr fault game sender (\<lambda>_ head. ((), create head)) () db)))"

inductive_cases db_step_cases: "db_step pr db db'"

lemma db_step_grows: "codec_laws pr \<Longrightarrow> db_inv pr db \<Longrightarrow> db_step pr db db' \<Longrightarrow> grows pr db db'"
  by (erule db_step_cases) (simp_all add: persistAcceptedEnvelope_grows persistAcceptedRoster_grows appendNext_grows)

lemma db_steps_grow:
  assumes "(db_step pr)\<^sup>*\<^sup>* db db'" "codec_laws pr" "db_inv pr db"
  shows "grows pr db db'"
  using assms
proof (induction rule: rtranclp_induct)
  case base
  then show ?case by (simp add: grows_refl)
next
  case (step y z)
  then have "grows pr y z" using db_step_grows by (auto simp: grows_def)
  then show ?case using grows_trans step by blast
qed

text \<open>C36: whatever transactions the tabs of a browser run on the shared tables, in whatever order and
  with whatever aborts, the tables only grow, no sender ever has two rows with one sequence number, every
  row is a verified envelope of the game, sender and sequence number it is filed under, and what was
  authored under a key is a chain linked from the zero hash, which later transactions only extend and
  whose last envelope is the stored head.\<close>

theorem durable_history:
  assumes "codec_laws pr" "(db_step pr)\<^sup>*\<^sup>* newDatabase db" "(db_step pr)\<^sup>*\<^sup>* db db'"
  shows "prefix (db_transcripts db) (db_transcripts db') \<and> distinct (map row_key (db_transcripts db)) \<and>
    (\<forall>r \<in> set (db_transcripts db). \<exists>a. decodeAndVerifyEnvelope pr (st_bytes r) = Inr a \<and> st_game r = bytesToHex (env_game (art_envelope a)) \<and>
       st_sender r = bytesToHex (env_from (art_envelope a)) \<and> st_seq r = env_seq (art_envelope a)) \<and>
    linked s (authored_log pr db g s) \<and> prefix (authored_log pr db g s) (authored_log pr db' g s) \<and>
    get_head db (bytesToHex g) (bytesToHex s) = (if authored_log pr db g s = [] then None
      else Some \<lparr>sah_game = bytesToHex g, sah_sender = bytesToHex s, sah_bytes = art_canonicalBytes (last (authored_log pr db g s))\<rparr>)"
proof -
  have inv: "db_inv pr db" using db_steps_grow [OF assms(2,1) new_db_inv] by (simp add: grows_def)
  then have "grows pr db db'" by (rule db_steps_grow [OF assms(3,1)])
  then show ?thesis using inv unfolding grows_def db_inv_def row_ok_def head_row_def by blast
qed

end
