(* ===== verification/Envelope_Author.thy ===== *)
theory Envelope_Author
  imports Storage_Inv
begin

text \<open>
  \<^verbatim>\<open>packages/session/src/envelope-author.ts\<close>: signing the next envelope of one's own chain. An author
  hands the store a callback; inside one transaction the store reads the durable head, the callback
  signs its successor, and the store appends it. Only after the commit is the envelope returned to
  be published. The author queues its calls, so that each is one step here; several authors with
  one identity (two tabs) share the tables.

  The callback keeps its variables in \<open>author_call\<close>; a store is a function that may run it.
  \<open>authored_store\<close> is the contract the author needs of a store, and \<open>appendNext\<close> of the durable
  tables provides it.
\<close>

record EnvelopeContent =
  ec_round :: nat
  ec_phase :: ustr
  ec_type :: EnvelopeMessageType
  ec_body :: CborValue

record PersistentEnvelopeAuthor =
  pea_gameId :: bytes
  pea_secretKey :: bytes
  pea_sender :: bytes

record author_call =
  call_created :: "EnvelopeArtifact option"
  call_attempted :: bool
  call_open :: bool
  call_error :: "storage_error option"

datatype guard_result = GuardPasses | GuardReturns | GuardThrows storage_error

type_synonym guard = "(EnvelopeArtifact option \<Rightarrow> guard_result) option"
type_synonym create_callback = "author_call \<Rightarrow> EnvelopeArtifact option \<Rightarrow> author_call \<times> (storage_error + EnvelopeArtifact)"

definition newPersistentEnvelopeAuthor :: "prims \<Rightarrow> jsval \<Rightarrow> bytes \<Rightarrow> storage_error + PersistentEnvelopeAuthor" where
  "newPersistentEnvelopeAuthor pr gameId secretKey =
     rbind (storeProto (parseGameId gameId)) (\<lambda>game.
     rbind (catch_as (importEd25519SecretKey secretKey) StorageJsError) (\<lambda>sk.
     rbind (catch_as (deriveEd25519PublicKey pr sk) StorageJsError) (\<lambda>pk.
     rbind (storeProto (parseIdentityPublicKey (JBytes pk))) (\<lambda>sender.
     Inr \<lparr>pea_gameId = game, pea_secretKey = sk, pea_sender = sender\<rparr>))))"

definition validateStoredHead ::
    "prims \<Rightarrow> PersistentEnvelopeAuthor \<Rightarrow> EnvelopeArtifact option \<Rightarrow> storage_error + EnvelopeArtifact option" where
  "validateStoredHead pr self candidate =
     (case candidate of
        None \<Rightarrow> Inr None
      | Some c \<Rightarrow>
          let source = art_canonicalBytes c in
          rbind (if length source < 1 \<or> length source > MAX_AUTHORED_HISTORY_PAGE_BYTES
                 then Inl (AuthoredEnvelopeStoreError ''Envelope store returned an invalid chain head'')
                 else catch_as (decodeAndVerifyEnvelope pr source)
                        (\<lambda>_. AuthoredEnvelopeStoreError ''Envelope store returned an invalid chain head'')) (\<lambda>v.
          if \<not> bytesEqual (env_game (art_envelope v)) (pea_gameId self)
          then Inl (AuthoredEnvelopeStoreError ''Envelope store returned a head for another game'')
          else if \<not> bytesEqual (env_from (art_envelope v)) (pea_sender self)
          then Inl (AuthoredEnvelopeStoreError ''Envelope store returned a head for another sender'')
          else Inr (Some v)))"

definition readHead ::
    "prims \<Rightarrow> PersistentEnvelopeAuthor \<Rightarrow> (jsval \<Rightarrow> jsval \<Rightarrow> 'w \<Rightarrow> storage_error + EnvelopeArtifact option) \<Rightarrow> 'w \<Rightarrow>
     storage_error + EnvelopeArtifact option" where
  "readHead pr self read w =
     rbind (read (JBytes (pea_gameId self)) (JBytes (pea_sender self)) w) (validateStoredHead pr self)"

definition snapshotContent :: "prims \<Rightarrow> EnvelopeContent \<Rightarrow> storage_error + EnvelopeContent" where
  "snapshotContent pr content =
     rbind (storeProto (snapshotCborValue pr (ec_body content))) (\<lambda>body. Inr (content\<lparr>ec_body := body\<rparr>))"

definition nextSequence :: "nat \<Rightarrow> storage_error + nat" where
  "nextSequence current =
     (if \<not> safe_nat current \<or> int current = MAX_SAFE_INTEGER
      then Inl (AuthoredEnvelopeStoreError ''Stored envelope sequence cannot be advanced safely'') else Inr (current + 1))"

definition next_unsigned ::
    "PersistentEnvelopeAuthor \<Rightarrow> EnvelopeContent \<Rightarrow> EnvelopeArtifact option \<Rightarrow> storage_error + UnsignedEnvelope" where
  "next_unsigned self content head =
     rbind (case head of None \<Rightarrow> Inr 0 | Some h \<Rightarrow> nextSequence (env_seq (art_envelope h))) (\<lambda>seq.
     Inr \<lparr>env_v = 1, env_game = pea_gameId self, env_from = pea_sender self, env_seq = seq,
          env_prev = (case head of None \<Rightarrow> ZERO_HASH | Some h \<Rightarrow> art_hash h),
          env_round = ec_round content, env_phase = ec_phase content, env_type = ec_type content, env_body = ec_body content\<rparr>)"

definition run_guard :: "prims \<Rightarrow> guard \<Rightarrow> EnvelopeArtifact option \<Rightarrow> storage_error + unit" where
  "run_guard pr beforeSign head =
     (case beforeSign of
        None \<Rightarrow> Inr ()
      | Some f \<Rightarrow>
          rbind (case head of None \<Rightarrow> Inr None
                 | Some h \<Rightarrow> rbind (storeProto (decodeAndVerifyEnvelope pr (art_canonicalBytes h))) (\<lambda>copy. Inr (Some copy))) (\<lambda>h.
          case f h of
            GuardPasses \<Rightarrow> Inr ()
          | GuardReturns \<Rightarrow> Inl (StorageJsError (TypeError ''Envelope beforeSign guard must return undefined synchronously''))
          | GuardThrows e \<Rightarrow> Inl e))"

text \<open>The body of the callback: the artifact to store and the verified copy to publish.\<close>

definition sign_next ::
    "prims \<Rightarrow> PersistentEnvelopeAuthor \<Rightarrow> EnvelopeContent \<Rightarrow> guard \<Rightarrow> EnvelopeArtifact option \<Rightarrow>
     storage_error + (EnvelopeArtifact \<times> EnvelopeArtifact)" where
  "sign_next pr self content beforeSign storedHead =
     rbind (validateStoredHead pr self storedHead) (\<lambda>head.
     rbind (next_unsigned self content head) (\<lambda>unsigned.
     rbind (run_guard pr beforeSign head) (\<lambda>_.
     rbind (storeProto (signEnvelope pr unsigned (pea_secretKey self))) (\<lambda>artifact.
     rbind (storeProto (decodeAndVerifyEnvelope pr (art_canonicalBytes artifact))) (\<lambda>created.
     Inr (artifact, created))))))"

definition author_callback :: "prims \<Rightarrow> PersistentEnvelopeAuthor \<Rightarrow> EnvelopeContent \<Rightarrow> guard \<Rightarrow> create_callback" where
  "author_callback pr self content beforeSign call storedHead =
     (if \<not> call_open call \<or> call_attempted call
      then let e = AuthoredEnvelopeStoreError ''Envelope author callback is closed or was invoked more than once'' in
        (call\<lparr>call_error := Some e\<rparr>, Inl e)
      else let call = call\<lparr>call_attempted := True\<rparr> in
        (case sign_next pr self content beforeSign storedHead of
           Inl cause \<Rightarrow> (call\<lparr>call_error := Some cause\<rparr>, Inl cause)
         | Inr (artifact, created) \<Rightarrow> (call\<lparr>call_created := Some created\<rparr>, Inr artifact)))"

definition newCall :: author_call where
  "newCall = \<lparr>call_created = None, call_attempted = False, call_open = True, call_error = None\<rparr>"

definition call_result :: "author_call \<Rightarrow> storage_error + unit \<Rightarrow> storage_error + EnvelopeArtifact" where
  "call_result call r =
     (case r of
        Inl cause \<Rightarrow> Inl (case call_error call of Some e \<Rightarrow> e | None \<Rightarrow> cause)
      | Inr _ \<Rightarrow> (case call_error call of
          Some e \<Rightarrow> Inl e
        | None \<Rightarrow> (case call_created call of
            None \<Rightarrow> Inl (AuthoredEnvelopeStoreError ''Envelope store committed without creating an artifact'')
          | Some created \<Rightarrow> Inr created)))"

definition authorAndPersist ::
    "prims \<Rightarrow> PersistentEnvelopeAuthor \<Rightarrow> EnvelopeContent \<Rightarrow> guard \<Rightarrow>
     (create_callback \<Rightarrow> author_call \<Rightarrow> 'w \<Rightarrow> author_call \<times> 'w \<times> (storage_error + unit)) \<Rightarrow> 'w \<Rightarrow>
     'w \<times> (storage_error + EnvelopeArtifact)" where
  "authorAndPersist pr self content beforeSign store w =
     (let (call, w', r) = store (author_callback pr self content beforeSign) newCall w in (w', call_result call r))"

definition author ::
    "prims \<Rightarrow> PersistentEnvelopeAuthor \<Rightarrow> EnvelopeContent \<Rightarrow> guard \<Rightarrow>
     (create_callback \<Rightarrow> author_call \<Rightarrow> 'w \<Rightarrow> author_call \<times> 'w \<times> (storage_error + unit)) \<Rightarrow> 'w \<Rightarrow>
     'w \<times> (storage_error + EnvelopeArtifact)" where
  "author pr self content beforeSign store w =
     (case snapshotContent pr content of
        Inl e \<Rightarrow> (w, Inl e)
      | Inr snapshot \<Rightarrow> authorAndPersist pr self snapshot beforeSign store w)"

text \<open>An author over the durable tables.\<close>

definition author_db ::
    "prims \<Rightarrow> storage_error option \<Rightarrow> PersistentEnvelopeAuthor \<Rightarrow> EnvelopeContent \<Rightarrow> guard \<Rightarrow> P2pCardsDatabase \<Rightarrow>
     P2pCardsDatabase \<times> (storage_error + EnvelopeArtifact)" where
  "author_db pr fault self content beforeSign db =
     author pr self content beforeSign (appendNext pr fault (JBytes (pea_gameId self)) (JBytes (pea_sender self))) db"

section \<open>The contract of a store\<close>

definition head_of :: "EnvelopeArtifact list \<Rightarrow> EnvelopeArtifact option" where
  "head_of as = (if as = [] then None else Some (last as))"

locale authored_store =
  fixes pr :: prims and good :: "'w \<Rightarrow> bool" and log :: "'w \<Rightarrow> EnvelopeArtifact list"
    and store :: "create_callback \<Rightarrow> author_call \<Rightarrow> 'w \<Rightarrow> author_call \<times> 'w \<times> (storage_error + unit)"
  assumes refused: "good w \<Longrightarrow> store create c w = (c', w', Inl e) \<Longrightarrow> w' = w"
    and appended: "good w \<Longrightarrow> store create c w = (c', w', Inr u) \<Longrightarrow>
      \<exists>x a. create c (head_of (log w)) = (c', Inr x) \<and> decodeAndVerifyEnvelope pr (art_canonicalBytes x) = Inr a \<and>
        log w' = log w @ [a] \<and> good w'"
begin

lemma persist_result:
  assumes "good w" "authorAndPersist pr self content beforeSign store w = (w', res)"
  shows "case res of Inl _ \<Rightarrow> w' = w | Inr a \<Rightarrow> log w' = log w @ [a] \<and> good w' \<and>
    (\<exists>x. sign_next pr self content beforeSign (head_of (log w)) = Inr (x, a))"
proof -
  obtain c' r where ap: "store (author_callback pr self content beforeSign) newCall w = (c', w', r)" and res: "res = call_result c' r"
    using assms(2) by (auto simp: authorAndPersist_def split: prod.splits)
  show ?thesis
  proof (cases r)
    case (Inl e)
    then show ?thesis using refused [OF assms(1)] ap res by (simp add: call_result_def)
  next
    case (Inr u)
    obtain x a where x: "author_callback pr self content beforeSign newCall (head_of (log w)) = (c', Inr x)"
      "decodeAndVerifyEnvelope pr (art_canonicalBytes x) = Inr a" "log w' = log w @ [a]" "good w'"
      using appended [OF assms(1) ap [unfolded Inr]] by blast
    obtain y where y: "sign_next pr self content beforeSign (head_of (log w)) = Inr (x, y)"
      "c' = newCall\<lparr>call_attempted := True, call_created := Some y\<rparr>"
      using x(1) by (auto simp: author_callback_def newCall_def Let_def split: sum.splits prod.splits)
    have "y = a" using y(1) x(2) by (auto simp: sign_next_def result_simps)
    then have "res = Inr a" using y(2) res Inr by (simp add: call_result_def newCall_def)
    then show ?thesis using x(3,4) y(1) \<open>y = a\<close> by auto
  qed
qed

lemma author_result:
  assumes "good w" "author pr self content beforeSign store w = (w', res)"
  shows "case res of Inl _ \<Rightarrow> w' = w | Inr a \<Rightarrow> log w' = log w @ [a] \<and> good w' \<and>
    (\<exists>x b. snapshotCborValue pr (ec_body content) = Inr b \<and>
      sign_next pr self (content\<lparr>ec_body := b\<rparr>) beforeSign (head_of (log w)) = Inr (x, a))"
proof (cases "snapshotCborValue pr (ec_body content)")
  case (Inl e)
  then have "res = Inl (StorageProtocolError e)" "w' = w" using assms(2) by (simp_all add: author_def snapshotContent_def)
  then show ?thesis by simp
next
  case (Inr b)
  then have "authorAndPersist pr self (content\<lparr>ec_body := b\<rparr>) beforeSign store w = (w', res)"
    using assms(2) by (simp add: author_def snapshotContent_def)
  from persist_result [OF assms(1) this] show ?thesis using Inr by (simp split: sum.splits)
qed

end

section \<open>The durable tables\<close>

lemma appendNext_Inr:
  assumes "codec_laws pr" "db_inv pr db" "appendNext pr fault (JBytes g) (JBytes s) create c db = (c', db', Inr u)"
  shows "\<exists>x a. create c (head_of (authored_log pr db g s)) = (c', Inr x) \<and> decodeAndVerifyEnvelope pr (art_canonicalBytes x) = Inr a \<and>
    authored_log pr db' g s = authored_log pr db g s @ [a] \<and> db_inv pr db'"
proof (rule appendNext_cases [OF assms(1), of "JBytes g" "JBytes s" db fault create c], goal_cases)
  case (1 e)
  then show ?case using assms(3) by simp
next
  case (2 g' s' head)
  have gs: "g' = g" "s' = s" using 2 by simp_all
  note cp = 2(5) [unfolded gs]
  obtain x a where x: "create c head = (c', Inr x)" "validateNextArtifact pr (art_canonicalBytes x) g s head = Inr a" "store_next db g s a = Inr (db', u)"
  proof -
    obtain ck made where m: "create c head = (ck, made)" by (cases "create c head") blast
    then have "ck = c'" "transact fault db (rbind made (\<lambda>x. rbind (validateNextArtifact pr (art_canonicalBytes x) g s head) (store_next db g s))) = (db', Inr u)"
      using 2(6) assms(3) gs by simp_all
    then show ?thesis using m that by (auto simp: transact_Inr result_simps)
  qed
  have "head = head_of (authored_log pr db g s)" using checkpoint_head(3) [OF assms(1,2) cp] by (simp add: head_of_def)
  then show ?case using x store_next_inv(1,2) [OF assms(1,2) cp x(2,3)] by (auto simp: validateNextArtifact_Inr)
qed

lemma appendNext_Inl: "appendNext pr fault gv sv create c db = (c', db', Inl e) \<Longrightarrow> db' = db"
  by (auto simp: appendNext_def dest: transact_Inl split: sum.splits prod.splits)

interpretation durable: authored_store pr "\<lambda>db. codec_laws pr \<and> db_inv pr db" "\<lambda>db. authored_log pr db g s"
    "appendNext pr fault (JBytes g) (JBytes s)" for pr fault g s
proof unfold_locales
  fix db create c c' db' e
  show "appendNext pr fault (JBytes g) (JBytes s) create c db = (c', db', Inl e) \<Longrightarrow> db' = db" by (rule appendNext_Inl)
  fix u
  assume "codec_laws pr \<and> db_inv pr db" "appendNext pr fault (JBytes g) (JBytes s) create c db = (c', db', Inr u)"
  then show "\<exists>x a. create c (head_of (authored_log pr db g s)) = (c', Inr x) \<and> decodeAndVerifyEnvelope pr (art_canonicalBytes x) = Inr a \<and>
      authored_log pr db' g s = authored_log pr db g s @ [a] \<and> codec_laws pr \<and> db_inv pr db'"
    using appendNext_Inr [of pr db fault g s create c c' db' u] by blast
qed

end
