(* ===== verification/Author_Theorems.thy ===== *)
theory Author_Theorems
  imports Envelope_Author
begin

text \<open>
  What authoring over the durable tables guarantees: an envelope that is returned is the signed
  content as the successor of the durable head and is durable, a failed call changes nothing, no
  two published envelopes of an identity share a sequence number however its tabs interleave, and a
  call with signable content, an agreeing guard and a committing transaction succeeds.
\<close>

section \<open>The signed envelope\<close>

lemma get_unsigned [simp]:
  "get_prop (unsigned_fields e) ''v'' = jnat (env_v e)" "get_prop (unsigned_fields e) ''game'' = JBytes (env_game e)"
  "get_prop (unsigned_fields e) ''from'' = JBytes (env_from e)" "get_prop (unsigned_fields e) ''seq'' = jnat (env_seq e)"
  "get_prop (unsigned_fields e) ''prev'' = JBytes (env_prev e)" "get_prop (unsigned_fields e) ''round'' = jnat (env_round e)"
  "get_prop (unsigned_fields e) ''phase'' = JString (env_phase e)" "get_prop (unsigned_fields e) ''type'' = JString (ascii (typeText (env_type e)))"
  "get_prop (unsigned_fields e) ''body'' = env_body e"
  by (simp_all add: get_prop_def unsigned_fields_def)

lemma reads_jnat [simp]: "reads_nat (jnat m) n \<longleftrightarrow> m = n"
  by (auto simp: reads_nat_def)

lemma parse_fields:
  assumes "parseUnsignedEnvelope pr (toUnsignedValue e) = Inr u"
  shows "env_game u = env_game e" "env_from u = env_from e" "env_seq u = env_seq e" "env_prev u = env_prev e"
    "env_round u = env_round e" "env_phase u = env_phase e" "env_type u = env_type e" "snapshotCborValue pr (env_body e) = Inr (env_body u)"
  using assms unfolding toUnsignedValue_def parseUnsignedEnvelope_Inr by auto

lemma sign_fields:
  assumes "signEnvelope pr e sk = Inr a"
  shows "env_game (art_envelope a) = env_game e" "env_from (art_envelope a) = env_from e" "env_seq (art_envelope a) = env_seq e"
    "env_prev (art_envelope a) = env_prev e" "env_round (art_envelope a) = env_round e" "env_phase (art_envelope a) = env_phase e"
    "env_type (art_envelope a) = env_type e" "snapshotCborValue pr (env_body e) = Inr (env_body (art_envelope a))"
proof -
  obtain u sig where u: "parseUnsignedEnvelope pr (toUnsignedValue e) = Inr u" "art_envelope a = withSignature u sig"
    using assms by (auto simp: signEnvelope_def result_simps createArtifact_Inr split: if_splits)
  show "env_game (art_envelope a) = env_game e" "env_from (art_envelope a) = env_from e" "env_seq (art_envelope a) = env_seq e"
    "env_prev (art_envelope a) = env_prev e" "env_round (art_envelope a) = env_round e" "env_phase (art_envelope a) = env_phase e"
    "env_type (art_envelope a) = env_type e" "snapshotCborValue pr (env_body e) = Inr (env_body (art_envelope a))"
    using parse_fields [OF u(1)] u(2) by simp_all
qed

lemma sign_next_Inr:
  assumes "codec_laws pr" "\<forall>h. head = Some h \<longrightarrow> verified pr h"
  shows "sign_next pr self content guard head = Inr (x, a) \<longleftrightarrow>
    validateStoredHead pr self head = Inr head \<and> run_guard pr guard head = Inr () \<and>
    (\<exists>e. next_unsigned self content head = Inr e \<and> signEnvelope pr e (pea_secretKey self) = Inr x \<and>
       decodeAndVerifyEnvelope pr (art_canonicalBytes x) = Inr a)"
proof -
  have "validateStoredHead pr self head = Inr h \<Longrightarrow> h = head" for h
    using assms(2) by (cases head) (auto simp: validateStoredHead_def Let_def result_simps guard_Inr verified_def)
  then show ?thesis by (auto simp: sign_next_def result_simps)
qed

section \<open>One call\<close>

text \<open>The envelope that continues a chain with the given content.\<close>

definition continues :: "prims \<Rightarrow> PersistentEnvelopeAuthor \<Rightarrow> EnvelopeContent \<Rightarrow> EnvelopeArtifact list \<Rightarrow> EnvelopeArtifact \<Rightarrow> bool" where
  "continues pr self content as a \<longleftrightarrow> verified pr a \<and> env_game (art_envelope a) = pea_gameId self \<and> env_from (art_envelope a) = pea_sender self \<and>
     env_seq (art_envelope a) = length as \<and> env_prev (art_envelope a) = prev_hash as \<and> env_round (art_envelope a) = ec_round content \<and>
     env_phase (art_envelope a) = ec_phase content \<and> env_type (art_envelope a) = ec_type content"

definition authored_here :: "prims \<Rightarrow> PersistentEnvelopeAuthor \<Rightarrow> P2pCardsDatabase \<Rightarrow> EnvelopeArtifact list" where
  "authored_here pr self db = authored_log pr db (pea_gameId self) (pea_sender self)"

lemma authored_here_linked: "db_inv pr db \<Longrightarrow> linked (pea_sender self) (authored_here pr self db)"
  by (simp add: db_inv_def authored_here_def)

lemma authored_head_verified:
  assumes "codec_laws pr" "db_inv pr db" "head_of (authored_here pr self db) = Some h"
  shows "verified pr h"
proof -
  have "h \<in> set (authored_here pr self db)" using assms(3) by (auto simp: head_of_def split: if_splits)
  then show ?thesis
    using assms authored_log_subset stored_log_verified(1) unfolding authored_here_def db_inv_def by blast
qed

lemma next_unsigned_Inr:
  assumes "linked s as" "next_unsigned self content (head_of as) = Inr e"
  shows "e = \<lparr>env_v = 1, env_game = pea_gameId self, env_from = pea_sender self, env_seq = length as, env_prev = prev_hash as,
    env_round = ec_round content, env_phase = ec_phase content, env_type = ec_type content, env_body = ec_body content\<rparr>"
proof (cases "as = []")
  case True
  then show ?thesis using assms(2) by (simp add: next_unsigned_def head_of_def prev_hash_def)
next
  case False
  then show ?thesis using assms(2) linked_last [OF assms(1) False]
    by (auto simp: next_unsigned_def head_of_def prev_hash_def nextSequence_def result_simps guard_Inr)
qed

lemma author_db_result:
  assumes "codec_laws pr" "db_inv pr db" "author_db pr fault self content guard db = (db', res)"
  shows "case res of Inl _ \<Rightarrow> db' = db | Inr a \<Rightarrow> authored_here pr self db' = authored_here pr self db @ [a] \<and> db_inv pr db' \<and>
    (\<exists>x b. snapshotCborValue pr (ec_body content) = Inr b \<and>
      sign_next pr self (content\<lparr>ec_body := b\<rparr>) guard (head_of (authored_here pr self db)) = Inr (x, a))"
  using durable.author_result [of pr db self content guard fault "pea_gameId self" "pea_sender self" db' res] assms
  by (auto simp: author_db_def authored_here_def split: sum.splits)

lemma author_db_continues:
  assumes laws: "codec_laws pr" and key: "keypair_ok pr (pea_secretKey self)" and inv: "db_inv pr db"
    and a: "author_db pr fault self content guard db = (db', Inr a)"
  shows "continues pr self content (authored_here pr self db) a" "run_guard pr guard (head_of (authored_here pr self db)) = Inr ()"
    "\<exists>b. snapshotCborValue pr (ec_body content) = Inr b \<and> snapshotCborValue pr b = Inr (env_body (art_envelope a))"
proof -
  obtain x b where b: "snapshotCborValue pr (ec_body content) = Inr b"
    "sign_next pr self (content\<lparr>ec_body := b\<rparr>) guard (head_of (authored_here pr self db)) = Inr (x, a)"
    using author_db_result [OF laws inv a] by auto
  have vh: "\<forall>h. head_of (authored_here pr self db) = Some h \<longrightarrow> verified pr h"
    using authored_head_verified [OF laws inv] by blast
  obtain e where e: "next_unsigned self (content\<lparr>ec_body := b\<rparr>) (head_of (authored_here pr self db)) = Inr e"
      "signEnvelope pr e (pea_secretKey self) = Inr x" "decodeAndVerifyEnvelope pr (art_canonicalBytes x) = Inr a"
    and g: "run_guard pr guard (head_of (authored_here pr self db)) = Inr ()"
    using b(2) unfolding sign_next_Inr [OF laws vh] by blast
  show "run_guard pr guard (head_of (authored_here pr self db)) = Inr ()" by (rule g)
  have "a = x" using signed_verifies [OF laws key e(2)] e(3) by simp
  moreover note f = sign_fields [OF e(2)] and n = next_unsigned_Inr [OF authored_here_linked [OF inv] e(1)]
  ultimately show "continues pr self content (authored_here pr self db) a"
    using e(3) by (simp add: continues_def verified_def)
  show "\<exists>b. snapshotCborValue pr (ec_body content) = Inr b \<and> snapshotCborValue pr b = Inr (env_body (art_envelope a))"
    using f(8) n b(1) \<open>a = x\<close> by simp
qed

text \<open>C38: one authoring call on tables that any history of transactions may have left. A call that fails
  leaves the tables as they were. A call that returns an envelope has appended it to the durable chain of
  its author; it is the verified envelope that continues that chain with the given content, and the
  caller's guard agreed to the head it follows.\<close>

theorem authoring_is_atomic:
  assumes "codec_laws pr" "keypair_ok pr (pea_secretKey self)" "(db_step pr)\<^sup>*\<^sup>* newDatabase db"
    and "author_db pr fault self content guard db = (db', res)"
  shows "case res of Inl _ \<Rightarrow> db' = db
    | Inr a \<Rightarrow> authored_here pr self db' = authored_here pr self db @ [a] \<and> continues pr self content (authored_here pr self db) a \<and>
        get_head db' (bytesToHex (pea_gameId self)) (bytesToHex (pea_sender self)) =
          Some \<lparr>sah_game = bytesToHex (pea_gameId self), sah_sender = bytesToHex (pea_sender self), sah_bytes = art_canonicalBytes a\<rparr> \<and>
        run_guard pr guard (head_of (authored_here pr self db)) = Inr ()"
proof -
  have inv: "db_inv pr db" using db_steps_grow [OF assms(3,1) new_db_inv] by (simp add: grows_def)
  show ?thesis
  proof (cases res)
    case (Inl e)
    then show ?thesis using author_db_result [OF assms(1) inv assms(4)] by simp
  next
    case (Inr a)
    then have r: "authored_here pr self db' = authored_here pr self db @ [a]" "db_inv pr db'"
      using author_db_result [OF assms(1) inv assms(4)] by simp_all
    then have "get_head db' (bytesToHex (pea_gameId self)) (bytesToHex (pea_sender self)) =
        head_row (pea_gameId self) (pea_sender self) (authored_here pr self db @ [a])"
      by (simp add: db_inv_def authored_here_def)
    then show ?thesis
      using r author_db_continues(1,2) [OF assms(1,2) inv assms(4) [unfolded Inr]] Inr by (simp add: head_row_def)
  qed
qed

section \<open>Tabs\<close>

text \<open>
  The tables and the envelopes that an identity has published from its tabs. A call whose result is
  lost (the tab is closed after the commit) is the second rule, whatever it authored.
\<close>

inductive tab_step :: "prims \<Rightarrow> PersistentEnvelopeAuthor \<Rightarrow> P2pCardsDatabase \<times> EnvelopeArtifact list \<Rightarrow>
    P2pCardsDatabase \<times> EnvelopeArtifact list \<Rightarrow> bool" for pr self where
  publish: "author_db pr fault self content guard db = (db', Inr a) \<Longrightarrow> tab_step pr self (db, published) (db', published @ [a])"
| lost: "tab_step pr self (db, published) (fst (author_db pr fault self content guard db), published)"
| elsewhere: "db_step pr db db' \<Longrightarrow> tab_step pr self (db, published) (db', published)"

inductive_cases tab_step_cases: "tab_step pr self t t'"

definition tabs_inv :: "prims \<Rightarrow> PersistentEnvelopeAuthor \<Rightarrow> P2pCardsDatabase \<times> EnvelopeArtifact list \<Rightarrow> bool" where
  "tabs_inv pr self t \<longleftrightarrow> db_inv pr (fst t) \<and> subseq (snd t) (authored_here pr self (fst t))"

lemma tab_step_inv:
  assumes laws: "codec_laws pr" and inv: "tabs_inv pr self t" and st: "tab_step pr self t t'"
  shows "tabs_inv pr self t'"
  using st
proof cases
  case (publish fault content guard db db' a published)
  then show ?thesis using inv author_db_result [OF laws _ publish(3)] by (simp add: tabs_inv_def)
next
  case (lost db published fault content guard)
  obtain db' res where r: "author_db pr fault self content guard db = (db', res)" by fastforce
  have db: "db_inv pr db" "subseq published (authored_here pr self db)" using inv lost by (simp_all add: tabs_inv_def)
  from author_db_result [OF laws db(1) r] show ?thesis using db lost r
    by (cases res) (auto simp: tabs_inv_def intro: subseq_order.trans)
next
  case (elsewhere db db' published)
  then have g: "grows pr db db'" using inv db_step_grows [OF laws] by (simp add: tabs_inv_def)
  then have "subseq (authored_here pr self db) (authored_here pr self db')"
    unfolding grows_def authored_here_def by (blast intro: prefix_imp_subseq)
  then have "subseq published (authored_here pr self db')"
    using inv elsewhere(1) by (auto simp: tabs_inv_def intro: subseq_order.trans)
  then show ?thesis using g elsewhere(2) by (simp add: tabs_inv_def grows_def)
qed

lemma tab_steps_inv: "(tab_step pr self)\<^sup>*\<^sup>* t t' \<Longrightarrow> codec_laws pr \<Longrightarrow> tabs_inv pr self t \<Longrightarrow> tabs_inv pr self t'"
  by (induction rule: rtranclp_induct) (auto intro: tab_step_inv)

lemma linked_subseq_seqs:
  assumes "linked s as" "subseq xs as"
  shows "sorted_wrt (\<lambda>a b. env_seq (art_envelope a) < env_seq (art_envelope b)) xs"
proof -
  have "sorted_wrt (\<lambda>a b. env_seq (art_envelope a) < env_seq (art_envelope b)) as"
    using assms(1) by (simp add: sorted_wrt_iff_nth_less linked_def)
  moreover have "sorted_wrt R xs" if "subseq xs ys" "sorted_wrt R ys" for R and xs ys :: "EnvelopeArtifact list"
    using that by (induction rule: list_emb.induct) (auto dest: list_emb_set)
  ultimately show ?thesis using assms(2) by blast
qed

lemma linked_ingest_all:
  assumes "linked s (as @ bs)"
  shows "ingest_all (chain_of s as) bs = chain_of s (as @ bs)"
  using assms
proof (induction bs arbitrary: as)
  case (Cons b bs)
  have "linked s (as @ [b])" using linked_take [OF Cons.prems, of "Suc (length as)"] by simp
  then have "is_accepted (chain_classify (chain_of s as) b)" by (simp add: chain_classify_of linked_snoc)
  then show ?case using Cons.IH [of "as @ [b]"] Cons.prems by (simp add: ingest_all_def chain_ingest_of)
qed (simp add: ingest_all_def)

text \<open>C35: an honest identity never equivocates. However the tabs of a browser interleave their authoring
  calls with each other, with envelopes accepted from peers, with aborted transactions and with calls whose
  result is lost, the envelopes that were published carry increasing sequence numbers, all of them are in
  the durable chain, and a peer that is given that chain accepts every envelope of it.\<close>

theorem author_never_equivocates:
  assumes "codec_laws pr" "(tab_step pr self)\<^sup>*\<^sup>* (newDatabase, []) (db, published)"
  shows "sorted_wrt (\<lambda>a b. env_seq (art_envelope a) < env_seq (art_envelope b)) published \<and>
    subseq published (authored_here pr self db) \<and>
    ingest_all (chain_of (pea_sender self) []) (authored_here pr self db) = chain_of (pea_sender self) (authored_here pr self db)"
proof -
  have "tabs_inv pr self (newDatabase, [])" by (simp add: tabs_inv_def new_db_inv)
  from tab_steps_inv [OF assms(2,1) this] have inv: "db_inv pr db" "subseq published (authored_here pr self db)"
    by (simp_all add: tabs_inv_def)
  then show ?thesis
    using linked_subseq_seqs [OF authored_here_linked [OF inv(1)] inv(2)] authored_here_linked [OF inv(1)]
      linked_ingest_all [of "pea_sender self" "[]"] by simp
qed

section \<open>Progress\<close>

lemma checkpoint_opens:
  assumes laws: "codec_laws pr" and inv: "db_inv pr db" and g: "length g = 16" "length s = 32"
    and own: "\<forall>r \<in> set (db_transcripts db). in_scope (bytesToHex g) (bytesToHex s) r \<longrightarrow> st_authored r"
    and len: "int (length (authored_log pr db g s)) \<le> MAX_SAFE_INTEGER"
  shows "withCheckpoint pr db g s = Inr (head_of (authored_log pr db g s))"
    "sender_rows db (bytesToHex g) (bytesToHex s) = authored_rows db (bytesToHex g) (bytesToHex s)"
proof -
  let ?as = "authored_log pr db g s" and ?rows = "sender_rows db (bytesToHex g) (bytesToHex s)"
  have ok: "\<forall>r \<in> set (db_transcripts db). row_ok pr r" and lk: "linked s ?as"
    and hd: "get_head db (bytesToHex g) (bytesToHex s) = head_row g s ?as" and size: "\<forall>a \<in> set ?as. length (art_canonicalBytes a) \<le> MAX_AUTHORED_HISTORY_PAGE_BYTES"
    using inv by (simp_all add: db_inv_def)
  have "\<forall>r \<in> set ?rows. st_authored r" using own by (simp add: sender_rows_set)
  then show rows: "?rows = authored_rows db (bytesToHex g) (bytesToHex s)" by (simp add: authored_rows_def filter_True)
  show "withCheckpoint pr db g s = Inr (head_of ?as)"
  proof (cases "?as = []")
    case True
    then have "?rows = []" using rows by (simp add: authored_log_def)
    then show ?thesis using True hd by (simp add: withCheckpoint_def Let_def head_row_def decodeStoredHead_def validateCheckpoint_def head_of_def)
  next
    case False
    have v: "verified pr (last ?as)" "env_game (art_envelope (last ?as)) = g" "env_from (art_envelope (last ?as)) = s"
      using False authored_log_subset [of pr db g s] last_in_set [OF False] stored_log_verified [OF laws ok, of "last ?as" g s] by blast+
    have d: "decodeStoredHead pr (head_row g s ?as) g s = Inr (Some (last ?as))"
      using v False size by (simp add: decodeStoredHead_Inr head_row_def verified_def)
    have ne: "?rows \<noteq> []" using False rows by (auto simp: authored_log_def)
    have "last ?as = decoded pr (last ?rows)" using ne rows by (simp add: authored_log_def last_map)
    moreover have "row_ok pr (last ?rows)" "in_scope (bytesToHex g) (bytesToHex s) (last ?rows)" "st_authored (last ?rows)"
      using last_in_set [OF ne] ok own by (auto simp: sender_rows_set)
    ultimately have r: "st_bytes (last ?rows) = art_canonicalBytes (last ?as)" "st_seq (last ?rows) = env_seq (art_envelope (last ?as))"
      "st_game (last ?rows) = bytesToHex g" "st_sender (last ?rows) = bytesToHex s" "st_authored (last ?rows)"
      using verified_artifact(1) [OF laws] by (auto simp: row_ok_def in_scope_def)
    have n: "length ?rows = length ?as" using rows by (simp add: authored_log_def)
    have sq: "env_seq (art_envelope (last ?as)) = length ?as - 1" by (rule linked_last [OF lk False])
    have z: "length ?as - 1 = 0 \<Longrightarrow> env_prev (art_envelope (last ?as)) = ZERO_HASH"
      using lk False by (simp add: linked_def prev_hash_def last_conv_nth)
    have "validateCheckpoint (Some (last ?as)) (Some (last ?rows)) (length ?rows) g s = Inr ()"
      using r sq z n len False by (auto simp: validateCheckpoint_def decodeRecordMetadata_def safe_nat_def Suc_le_eq of_nat_diff)
    then show ?thesis using d hd ne False by (simp add: withCheckpoint_def Let_def head_of_def)
  qed
qed

lemma stored_head_valid:
  assumes "codec_laws pr" "\<forall>a. decodeAndVerifyEnvelope pr [] \<noteq> Inr a" and inv: "db_inv pr db"
  shows "validateStoredHead pr self (head_of (authored_here pr self db)) = Inr (head_of (authored_here pr self db))"
proof (cases "authored_here pr self db = []")
  case False
  let ?g = "pea_gameId self" and ?s = "pea_sender self" and ?as = "authored_here pr self db"
  have "verified pr (last ?as)" using authored_head_verified [OF assms(1) inv, of self "last ?as"] False by (simp add: head_of_def)
  moreover have "art_canonicalBytes (last ?as) \<noteq> []" using calculation assms(2) by (auto simp: verified_def)
  moreover have "length (art_canonicalBytes (last ?as)) \<le> MAX_AUTHORED_HISTORY_PAGE_BYTES"
    "env_game (art_envelope (last ?as)) = ?g" "env_from (art_envelope (last ?as)) = ?s"
    using inv last_in_set [OF False] authored_log_subset [of pr db ?g ?s] stored_log_verified [OF assms(1), of db "last ?as" ?g ?s]
    by (auto simp: db_inv_def authored_here_def)
  ultimately show ?thesis using False by (simp add: head_of_def validateStoredHead_def Let_def verified_def Suc_le_eq)
qed (simp add: head_of_def validateStoredHead_def)

text \<open>Where every row of the chain is the author's own, the next sequence number is free.\<close>

lemma next_slot_free:
  assumes inv: "db_inv pr db" and own: "authored_here pr self db = stored_log pr db (pea_gameId self) (pea_sender self)"
  shows "get_transcript db (bytesToHex (pea_gameId self)) (bytesToHex (pea_sender self)) (length (authored_here pr self db)) = None"
proof (rule ccontr)
  let ?g = "pea_gameId self" and ?s = "pea_sender self" and ?as = "authored_here pr self db"
  assume "get_transcript db (bytesToHex ?g) (bytesToHex ?s) (length ?as) \<noteq> None"
  then obtain r where r: "r \<in> set (sender_rows db (bytesToHex ?g) (bytesToHex ?s))" "st_seq r = length ?as"
    using get_transcript_Some by (fastforce simp: sender_rows_set in_scope_def row_key_def)
  have "map st_seq (sender_rows db (bytesToHex ?g) (bytesToHex ?s)) = map (\<lambda>a. env_seq (art_envelope a)) ?as"
    using stored_seqs [of db pr ?g ?s] inv own by (simp add: db_inv_def stored_log_def)
  from arg_cong [OF this, of set] r have "length ?as \<in> set (map (\<lambda>a. env_seq (art_envelope a)) ?as)" by force
  then obtain i where i: "i < length ?as" "env_seq (art_envelope (?as ! i)) = length ?as" by (auto simp: in_set_conv_nth)
  moreover have "env_seq (art_envelope (?as ! i)) = i" using authored_here_linked [OF inv] i(1) by (simp add: linked_def)
  ultimately show False by simp
qed

text \<open>C39: authoring is possible. On tables that any history of transactions may have left, if no row of the
  author's chain came from elsewhere, the chain and the table have room, the body is encodable, the guard agrees
  to the durable head and the content can be signed within the byte limit, then a call whose transaction is
  not aborted returns the signed envelope.\<close>

theorem authoring_succeeds:
  assumes "codec_laws pr" "keypair_ok pr (pea_secretKey self)" "\<forall>a. decodeAndVerifyEnvelope pr [] \<noteq> Inr a"
    and "(db_step pr)\<^sup>*\<^sup>* newDatabase db" "length (pea_gameId self) = 16" "length (pea_sender self) = 32"
    and "\<forall>r \<in> set (db_transcripts db). in_scope (bytesToHex (pea_gameId self)) (bytesToHex (pea_sender self)) r \<longrightarrow> st_authored r"
    and "int (length (authored_here pr self db)) \<le> MAX_SAFE_INTEGER" "length (db_transcripts db) < LAST_GENERATED_KEY"
    and "snapshotCborValue pr (ec_body content) = Inr b" "run_guard pr guard (head_of (authored_here pr self db)) = Inr ()"
    and "signEnvelope pr \<lparr>env_v = 1, env_game = pea_gameId self, env_from = pea_sender self, env_seq = length (authored_here pr self db),
      env_prev = prev_hash (authored_here pr self db), env_round = ec_round content, env_phase = ec_phase content,
      env_type = ec_type content, env_body = b\<rparr> (pea_secretKey self) = Inr a"
    and "length (art_canonicalBytes a) \<le> MAX_AUTHORED_HISTORY_PAGE_BYTES"
  shows "snd (author_db pr None self content guard db) = Inr a"
proof -
  let ?g = "pea_gameId self" and ?s = "pea_sender self" and ?as = "authored_here pr self db"
  have inv: "db_inv pr db" using db_steps_grow [OF assms(4,1) new_db_inv] by (simp add: grows_def)
  note cp = checkpoint_opens [OF assms(1) inv assms(5-7), folded authored_here_def, OF assms(8)]
  have lk: "linked ?s ?as" by (rule authored_here_linked [OF inv])
  have va: "decodeAndVerifyEnvelope pr (art_canonicalBytes a) = Inr a" by (rule signed_verifies [OF assms(1,2,12)])
  have vh: "verified pr h" if "head_of ?as = Some h" for h by (rule authored_head_verified [OF assms(1) inv that])
  have head: "?as \<noteq> [] \<Longrightarrow> env_seq (art_envelope (last ?as)) = length ?as - 1" using lk by (rule linked_last)
  note vs = stored_head_valid [OF assms(1,3) inv, of self]
  have nu: "next_unsigned self (content\<lparr>ec_body := b\<rparr>) (head_of ?as) = Inr \<lparr>env_v = 1, env_game = ?g, env_from = ?s, env_seq = length ?as,
      env_prev = prev_hash ?as, env_round = ec_round content, env_phase = ec_phase content, env_type = ec_type content, env_body = b\<rparr>"
    using head assms(8) by (cases "?as = []") (auto simp: next_unsigned_def head_of_def prev_hash_def nextSequence_def safe_nat_def of_nat_diff Suc_le_eq)
  have sn: "sign_next pr self (content\<lparr>ec_body := b\<rparr>) guard (head_of ?as) = Inr (a, a)"
    unfolding sign_next_def vs rbind_Inr nu assms(11,12) using va by simp
  have f: "env_game (art_envelope a) = ?g" "env_from (art_envelope a) = ?s" "env_seq (art_envelope a) = length ?as" "env_prev (art_envelope a) = prev_hash ?as"
    using sign_fields [OF assms(12)] by simp_all
  have next_ok: "validateNextArtifact pr (art_canonicalBytes a) ?g ?s (head_of ?as) = Inr a"
    unfolding validateNextArtifact_Inr using va f head assms(8,13)
    by (auto simp: head_of_def prev_hash_def of_nat_diff Suc_le_eq)
  have "get_transcript db (bytesToHex ?g) (bytesToHex ?s) (length ?as) = None"
    using cp(2) by (intro next_slot_free [OF inv]) (simp add: stored_log_def authored_here_def authored_log_def)
  moreover have "db_nextArrival db \<le> LAST_GENERATED_KEY" using inv assms(9) by (simp add: db_inv_def)
  ultimately have "\<exists>db'. store_next db ?g ?s a = Inr (db', ())" using f(3) by (simp add: store_next_def add_transcript_def)
  then obtain db' where st: "store_next db ?g ?s a = Inr (db', ())" ..
  have "open_checkpoint pr (JBytes ?g) (JBytes ?s) db = Inr (?g, ?s, head_of ?as, head_of ?as)"
    using cp(1) assms(5,6) vh by (cases "head_of ?as") (simp_all add: open_checkpoint_def field_defs parseFixedBytes_def verified_def)
  then show ?thesis
    using sn next_ok st assms(10)
    by (simp add: author_db_def author_def snapshotContent_def authorAndPersist_def appendNext_def author_callback_def newCall_def
        Let_def transact_def call_result_def)
qed

end
