(* ===== verification/Session_Recovery.thy ===== *)
theory Session_Recovery
  imports Transcript_Order
begin

text \<open>
  \<^verbatim>\<open>packages/session/src/session-recovery.ts\<close>: rebuilding the chains of a session from its stored
  transcript. The theorems: recovery succeeds exactly on transcripts whose envelopes verify, belong to
  the game and to roster members, repeat no sequence number and form complete chains; the registry it
  returns holds exactly these chains, whatever order the transcript has. The text \<open>sender:seq\<close> that keys
  an envelope is the pair of its parts here.
\<close>

datatype recovery_error =
    RecoveryGameError protocol_error
  | RecoveryRegistryError session_error
  | RecoveryEnvelopeInvalid nat
  | RecoveryOtherGame nat
  | RecoveryNonRoster nat
  | RecoveryRepeats string nat
  | RecoveryRefused string nat SessionIngestResult

text \<open>The loop over the transcript: the groups by sender and the keys seen.\<close>

fun recover_collect ::
    "prims \<Rightarrow> bytes \<Rightarrow> string list \<Rightarrow> nat \<Rightarrow> (string \<times> EnvelopeArtifact list) list \<Rightarrow> (string \<times> nat) list \<Rightarrow> EnvelopeArtifact list \<Rightarrow>
     recovery_error + (string \<times> EnvelopeArtifact list) list" where
  "recover_collect pr game rosterKeys index bySender tuples [] = Inr bySender"
| "recover_collect pr game rosterKeys index bySender tuples (candidate # transcript) =
     (case decodeAndVerifyEnvelope pr (art_canonicalBytes candidate) of
        Inl _ \<Rightarrow> Inl (RecoveryEnvelopeInvalid index)
      | Inr artifact \<Rightarrow>
          if \<not> bytesEqual (env_game (art_envelope artifact)) game then Inl (RecoveryOtherGame index)
          else let senderKey = bytesToHex (env_from (art_envelope artifact)) in
          if senderKey \<notin> set rosterKeys then Inl (RecoveryNonRoster index)
          else let tuple = (senderKey, env_seq (art_envelope artifact)) in
          if tuple \<in> set tuples then Inl (RecoveryRepeats senderKey (env_seq (art_envelope artifact)))
          else let senderArtifacts = (case map_of bySender senderKey of None \<Rightarrow> [] | Some as \<Rightarrow> as) in
            recover_collect pr game rosterKeys (Suc index) (AList.update senderKey (senderArtifacts @ [artifact]) bySender)
              (tuple # tuples) transcript)"

fun recover_ingest ::
    "SessionChainRegistry \<Rightarrow> string \<Rightarrow> EnvelopeArtifact list \<Rightarrow> recovery_error + SessionChainRegistry" where
  "recover_ingest reg senderKey [] = Inr reg"
| "recover_ingest reg senderKey (artifact # artifacts) =
     (let (reg', r) = reg_ingest reg artifact in
      case r of
        Inl e \<Rightarrow> Inl (RecoveryRegistryError e)
      | Inr result \<Rightarrow>
          if \<not> result_accepted result then Inl (RecoveryRefused senderKey (env_seq (art_envelope artifact)) result)
          else recover_ingest reg' senderKey artifacts)"

fun recover_senders ::
    "(string \<times> EnvelopeArtifact list) list \<Rightarrow> SessionChainRegistry \<Rightarrow> bytes list \<Rightarrow> recovery_error + SessionChainRegistry" where
  "recover_senders bySender reg [] = Inr reg"
| "recover_senders bySender reg (sender # senders) =
     (let senderKey = bytesToHex sender;
          artifacts = (case map_of bySender senderKey of None \<Rightarrow> [] | Some as \<Rightarrow> as) in
      rbind (recover_ingest reg senderKey (sort_sequence artifacts)) (\<lambda>reg'. recover_senders bySender reg' senders))"

definition recoverSessionChains ::
    "prims \<Rightarrow> jsval \<Rightarrow> jsval list \<Rightarrow> EnvelopeArtifact list \<Rightarrow> recovery_error + (SessionChainRegistry \<times> nat)" where
  "recoverSessionChains pr gameId roster transcript =
     rbind (catch_as (parseGameId gameId) RecoveryGameError) (\<lambda>game.
     rbind (catch_as (newSessionChainRegistry pr (JBytes game) roster) RecoveryRegistryError) (\<lambda>registry.
     let rosterKeys = map bytesToHex (reg_roster registry) in
     rbind (recover_collect pr game rosterKeys 0 [] [] transcript) (\<lambda>bySender.
     rbind (recover_senders bySender registry (reg_roster registry)) (\<lambda>recovered.
     Inr (recovered, length transcript)))))"

section \<open>Grouping\<close>

lemma recover_collect_Inr:
  "recover_collect pr g keys i bs tu ts = Inr bs' \<longleftrightarrow>
    (\<exists>as. list_all2 (decodes pr g) ts as \<and> distinct (map tkey as) \<and> set (map tkey as) \<inter> set tu = {} \<and>
       (\<forall>a \<in> set as. sender_of a \<in> set keys) \<and> bs' = foldl add_group bs as)"
proof (induction ts arbitrary: i bs tu)
  case (Cons c ts)
  show ?case
  proof (cases "decodeAndVerifyEnvelope pr (art_canonicalBytes c)")
    case (Inl e)
    then show ?thesis by (auto simp: list_all2_Cons1 decodes_def)
  next
    case (Inr a)
    have step: "recover_collect pr g keys i bs tu (c # ts) = Inr bs' \<longleftrightarrow> env_game (art_envelope a) = g \<and> sender_of a \<in> set keys \<and>
        tkey a \<notin> set tu \<and> recover_collect pr g keys (Suc i) (add_group bs a) (tkey a # tu) ts = Inr bs'"
      by (auto simp: Inr Let_def tkey_def add_group_def sender_of_def)
    have "decodes pr g c x \<longleftrightarrow> x = a \<and> env_game (art_envelope a) = g" for x using Inr by (auto simp: decodes_def)
    then have "(\<exists>as. list_all2 (decodes pr g) (c # ts) as \<and> P as) \<longleftrightarrow>
        env_game (art_envelope a) = g \<and> (\<exists>zs. list_all2 (decodes pr g) ts zs \<and> P (a # zs))" for P
      by (auto simp: list_all2_Cons1)
    then show ?thesis unfolding step Cons.IH by auto
  qed
qed auto

section \<open>Ingesting\<close>

text \<open>A registry is its game, its roster and its logs.\<close>

lemma registry_ext:
  assumes "reg_inv r" "reg_inv r'" "reg_gameId r = reg_gameId r'" "reg_roster r = reg_roster r'" "\<And>s. log_of r s = log_of r' s"
  shows "r = r'"
proof -
  have len: "length (reg_entries r) = length (reg_entries r')" using arg_cong [OF assms(4), of length] by (simp add: reg_roster_def)
  have entry: "reg_entries r ! i = reg_entries r' ! i" if i: "i < length (reg_entries r)" for i
  proof -
    have s: "entry_sender (reg_entries r ! i) = entry_sender (reg_entries r' ! i)"
      using arg_cong [OF assms(4), of "\<lambda>xs. xs ! i"] i len by (simp add: reg_roster_def)
    have e: "entry_of q (entry_sender (reg_entries q ! i)) = Some i" if "reg_inv q" "i < length (reg_entries q)" for q
      using that entry_of_index [OF that(1)] index_of_nth [of "reg_roster q" i] by (simp add: reg_inv_def reg_roster_def)
    have "chain_log (entry_chain (reg_entries r ! i)) = chain_log (entry_chain (reg_entries r' ! i))"
      using entry_of_Some(5) [OF assms(1) e [OF assms(1) i]] entry_of_Some(5) [OF assms(2) e [OF assms(2)]] i len assms(5) s by simp
    moreover have "entry_chain (reg_entries q ! i) = chain_of (entry_sender (reg_entries q ! i)) (chain_log (entry_chain (reg_entries q ! i)))"
      "entry_seat (reg_entries q ! i) = i" if "reg_inv q" "i < length (reg_entries q)" for q
      using that unfolding reg_inv_def chain_inv_def by metis+
    ultimately show ?thesis using assms(1,2) i len s by (metis RosterEntry.equality old.unit.exhaust)
  qed
  have "reg_entries r = reg_entries r'" using len entry by (rule nth_equalityI)
  moreover have "reg_bySender r = reg_bySender r'" using assms(1,2) calculation unfolding reg_inv_def by metis
  ultimately show ?thesis using assms(3) by simp
qed

lemma reg_accepts:
  assumes "reg_inv reg" "env_game (art_envelope a) = reg_gameId reg"
  shows "result_accepted (reg_classify reg a) \<longleftrightarrow>
    env_from (art_envelope a) \<in> set (reg_roster reg) \<and> linked (env_from (art_envelope a)) (log_of reg (env_from (art_envelope a)) @ [a])"
proof (cases "entry_of reg (env_from (art_envelope a))")
  case None
  then have "index_of (reg_roster reg) (env_from (art_envelope a)) = None" using entry_of_index [OF assms(1)] by simp
  then have "env_from (art_envelope a) \<notin> set (reg_roster reg)" by (simp add: index_of_None)
  then show ?thesis using assms(2) None by (simp add: reg_classify_def)
next
  case (Some i)
  note e = entry_of_Some [OF assms(1) Some]
  have "env_from (art_envelope a) \<in> set (reg_roster reg)" using e(1,2) by (metis length_map nth_map nth_mem reg_roster_def)
  moreover have "entry_chain (reg_entries reg ! i) = chain_of (env_from (art_envelope a)) (log_of reg (env_from (art_envelope a)))"
    using e(3-5) by (simp add: chain_inv_def)
  ultimately show ?thesis
    using Some assms(2) log_of_linked [OF assms(1)] by (auto simp: reg_classify_def chain_classify_of linked_snoc)
qed

lemma linked_from: "linked s as \<Longrightarrow> a \<in> set as \<Longrightarrow> env_from (art_envelope a) = s"
  by (auto simp: linked_def in_set_conv_nth)

lemma recover_ingest_cases:
  assumes "reg_inv reg" "s \<in> set (reg_roster reg)" "\<forall>a \<in> set as. env_game (art_envelope a) = reg_gameId reg \<and> env_from (art_envelope a) = s"
  shows "case recover_ingest reg k as of Inl _ \<Rightarrow> \<not> linked s (log_of reg s @ as)
    | Inr reg' \<Rightarrow> linked s (log_of reg s @ as) \<and> reg_inv reg' \<and> reg_gameId reg' = reg_gameId reg \<and>
        reg_roster reg' = reg_roster reg \<and> (\<forall>t. log_of reg' t = (if t = s then log_of reg s @ as else log_of reg t))"
  using assms
proof (induction as arbitrary: reg)
  case Nil
  then show ?case using log_of_linked [OF Nil(1)] by simp
next
  case (Cons a as)
  have a: "env_game (art_envelope a) = reg_gameId reg" "env_from (art_envelope a) = s" using Cons.prems(3) by simp_all
  have acc: "result_accepted (reg_classify reg a) \<longleftrightarrow> linked s (log_of reg s @ [a])"
    using reg_accepts [OF Cons.prems(1) a(1)] a(2) Cons.prems(2) by simp
  have pre: "linked s (log_of reg s @ a # as) \<Longrightarrow> linked s (log_of reg s @ [a])"
    using linked_take [of s "log_of reg s @ a # as" "Suc (length (log_of reg s))"] by simp
  obtain reg1 where r1: "reg_ingest reg a = (reg1, Inr (reg_classify reg a))"
    using reg_ingest_result [OF Cons.prems(1), of a] by (metis prod.collapse)
  show ?case
  proof (cases "linked s (log_of reg s @ [a])")
    case True
    note st = reg_ingest_step [OF Cons.prems(1), of a, unfolded r1 fst_conv]
    have lg: "log_of reg1 t = (if t = s then log_of reg s @ [a] else log_of reg t)" for t
      using st(4) [of t] acc True a(2) by auto
    have "recover_ingest reg k (a # as) = recover_ingest reg1 k as" using True acc r1 by simp
    then show ?thesis using Cons.IH [OF st(1)] st(2,3) Cons.prems(2,3) lg by (auto split: sum.splits)
  next
    case False
    then show ?thesis using acc r1 pre by auto
  qed
qed

lemma recover_senders_cases:
  assumes "reg_inv reg" "set ss \<subseteq> set (reg_roster reg)" "distinct ss" "\<forall>s \<in> set ss. log_of reg s = []"
    and "\<forall>a \<in> set as. env_game (art_envelope a) = reg_gameId reg"
    and "\<And>k. map_of bs k = (if k \<in> sender_of ` set as then Some (filter (\<lambda>a. sender_of a = k) as) else None)"
  shows "case recover_senders bs reg ss of Inl _ \<Rightarrow> \<not> (\<forall>s \<in> set ss. linked s (group as (bytesToHex s)))
    | Inr reg' \<Rightarrow> (\<forall>s \<in> set ss. linked s (group as (bytesToHex s))) \<and> reg_inv reg' \<and> reg_gameId reg' = reg_gameId reg \<and>
        reg_roster reg' = reg_roster reg \<and> (\<forall>t. log_of reg' t = (if t \<in> set ss then group as (bytesToHex t) else log_of reg t))"
  using assms(1-5)
proof (induction ss arbitrary: reg)
  case Nil
  then show ?case by simp
next
  case (Cons s ss)
  have lookup: "sort_sequence (case map_of bs (bytesToHex s) of None \<Rightarrow> [] | Some xs \<Rightarrow> xs) = group as (bytesToHex s)"
  proof -
    have "bytesToHex s \<notin> sender_of ` set as \<Longrightarrow> filter (\<lambda>a. sender_of a = bytesToHex s) as = []" by (force simp: filter_empty_conv)
    then show ?thesis using assms(6) by simp
  qed
  have own: "env_game (art_envelope a) = reg_gameId reg \<and> env_from (art_envelope a) = s" if "a \<in> set (group as (bytesToHex s))" for a
  proof -
    have "a \<in> set as" "sender_of a = bytesToHex s" using that unfolding group_set by simp_all
    then show ?thesis using Cons.prems(5) by (simp add: sender_of_def)
  qed
  have s: "s \<in> set (reg_roster reg)" "log_of reg s = []" using Cons.prems by simp_all
  show ?case
  proof (cases "recover_ingest reg (bytesToHex s) (group as (bytesToHex s))")
    case (Inl e)
    then have "recover_senders bs reg (s # ss) = Inl e" by (simp only: recover_senders.simps Let_def lookup rbind_Inl)
    then show ?thesis using recover_ingest_cases [OF Cons.prems(1) s(1), of "group as (bytesToHex s)" "bytesToHex s"] own s(2) Inl by simp
  next
    case (Inr r)
    have step: "recover_senders bs reg (s # ss) = recover_senders bs r ss"
      using Inr by (simp only: recover_senders.simps Let_def lookup rbind_Inr)
    have r: "linked s (group as (bytesToHex s))" "reg_inv r" "reg_gameId r = reg_gameId reg" "reg_roster r = reg_roster reg"
      "\<forall>t. log_of r t = (if t = s then group as (bytesToHex s) else log_of reg t)"
      using recover_ingest_cases [OF Cons.prems(1) s(1), of "group as (bytesToHex s)" "bytesToHex s"] own s(2) Inr by simp_all
    have "case recover_senders bs r ss of Inl _ \<Rightarrow> \<not> (\<forall>s \<in> set ss. linked s (group as (bytesToHex s)))
      | Inr reg' \<Rightarrow> (\<forall>s \<in> set ss. linked s (group as (bytesToHex s))) \<and> reg_inv reg' \<and> reg_gameId reg' = reg_gameId r \<and>
        reg_roster reg' = reg_roster r \<and> (\<forall>t. log_of reg' t = (if t \<in> set ss then group as (bytesToHex t) else log_of r t))"
      using r Cons.prems by (intro Cons.IH) auto
    then show ?thesis using r Cons.prems(3) unfolding step by (simp split: sum.splits)
  qed
qed

text \<open>The chain of one sender in a set of envelopes, in the order of the sequence numbers.\<close>

definition sender_chain :: "EnvelopeArtifact list \<Rightarrow> bytes \<Rightarrow> EnvelopeArtifact list" where
  "sender_chain as s = sort_key (\<lambda>a. env_seq (art_envelope a)) (filter (\<lambda>a. env_from (art_envelope a) = s) as)"

lemma group_sender_chain: "group as (bytesToHex s) = sender_chain as s"
  by (simp add: sender_chain_def sort_sequence_key) (simp add: sender_of_def)

lemma recover_cases:
  assumes laws: "codec_laws pr" and new: "newSessionChainRegistry pr (JBytes g) roster = Inr reg0"
    and as: "list_all2 (decodes pr g) ts as" "distinct (map tkey as)" "\<forall>a \<in> set as. env_from (art_envelope a) \<in> set (reg_roster reg0)"
  shows "case recoverSessionChains pr (JBytes g) roster ts of Inl _ \<Rightarrow> \<not> (\<forall>s. linked s (sender_chain as s))
    | Inr (reg, n) \<Rightarrow> (\<forall>s. linked s (sender_chain as s)) \<and> n = length ts \<and> reg_inv reg \<and> reg_gameId reg = g \<and>
        reg_roster reg = reg_roster reg0 \<and> (\<forall>s. log_of reg s = sender_chain as s)"
proof -
  note i = newSessionChainRegistry_inv [OF new]
  have g: "parseGameId (JBytes g) = Inr g" using new by (auto simp: newSessionChainRegistry_def result_simps field_defs)
  have gid: "reg_gameId reg0 = g" using i(3) by simp
  have bs: "recover_collect pr g (map bytesToHex (reg_roster reg0)) 0 [] [] ts = Inr (foldl add_group [] as)"
    unfolding recover_collect_Inr using as by (intro exI [of _ as]) (auto simp: sender_of_def)
  have games: "\<forall>a \<in> set as. env_game (art_envelope a) = reg_gameId reg0"
    using as(1) gid by (auto simp: list_all2_conv_all_nth decodes_def in_set_conv_nth)
  have "distinct (reg_roster reg0)" using i(1) by (simp add: reg_inv_def)
  from recover_senders_cases [OF i(1) _ this _ games groups_of(1) [OF refl]] i(4)
  have c: "case recover_senders (foldl add_group [] as) reg0 (reg_roster reg0) of
      Inl _ \<Rightarrow> \<not> (\<forall>s \<in> set (reg_roster reg0). linked s (sender_chain as s))
    | Inr reg' \<Rightarrow> (\<forall>s \<in> set (reg_roster reg0). linked s (sender_chain as s)) \<and> reg_inv reg' \<and> reg_gameId reg' = reg_gameId reg0 \<and>
        reg_roster reg' = reg_roster reg0 \<and> (\<forall>t. log_of reg' t = (if t \<in> set (reg_roster reg0) then sender_chain as t else log_of reg0 t))"
    by (simp only: group_sender_chain order_refl) simp
  have e: "sender_chain as s = []" if "s \<notin> set (reg_roster reg0)" for s
  proof -
    have "filter (\<lambda>a. env_from (art_envelope a) = s) as = []" using that as(3) by (auto simp: filter_empty_conv)
    then show ?thesis by (simp add: sender_chain_def)
  qed
  have all: "(\<forall>s \<in> set (reg_roster reg0). linked s (sender_chain as s)) \<longleftrightarrow> (\<forall>s. linked s (sender_chain as s))"
  proof (intro iffI allI ballI)
    fix s assume "\<forall>s \<in> set (reg_roster reg0). linked s (sender_chain as s)"
    then show "linked s (sender_chain as s)" using e by (cases "s \<in> set (reg_roster reg0)") (auto simp: linked_def)
  qed blast
  have rc: "recoverSessionChains pr (JBytes g) roster ts =
      rbind (recover_senders (foldl add_group [] as) reg0 (reg_roster reg0)) (\<lambda>r. Inr (r, length ts))"
    by (simp add: recoverSessionChains_def g new Let_def bs)
  show ?thesis
  proof (cases "recover_senders (foldl add_group [] as) reg0 (reg_roster reg0)")
    case (Inl x)
    then show ?thesis using c unfolding all rc by simp
  next
    case (Inr r)
    then show ?thesis using c e i(4) gid unfolding all rc by auto
  qed
qed

section \<open>Properties\<close>

lemma recover_Inr_collected:
  assumes "newSessionChainRegistry pr (JBytes g) roster = Inr reg0" "recoverSessionChains pr (JBytes g) roster ts = Inr x"
  shows "\<exists>as. list_all2 (decodes pr g) ts as \<and> distinct (map tkey as) \<and> (\<forall>a \<in> set as. env_from (art_envelope a) \<in> set (reg_roster reg0))"
proof -
  have g: "parseGameId (JBytes g) = Inr g" using assms(1) by (auto simp: newSessionChainRegistry_def result_simps field_defs)
  obtain bs where "recover_collect pr g (map bytesToHex (reg_roster reg0)) 0 [] [] ts = Inr bs"
    using assms(2) by (auto simp: recoverSessionChains_def g assms(1) Let_def result_simps)
  then obtain as where "list_all2 (decodes pr g) ts as" "distinct (map tkey as)" "\<forall>a \<in> set as. sender_of a \<in> set (map bytesToHex (reg_roster reg0))"
    unfolding recover_collect_Inr by blast
  then show ?thesis by (intro exI [of _ as]) (auto simp: sender_of_def)
qed

lemma tkey_pairs: "distinct (map tkey as) \<longleftrightarrow> distinct (map (\<lambda>a. (env_from (art_envelope a), env_seq (art_envelope a))) as)"
  by (simp add: distinct_map inj_on_def tkey_def)

text \<open>C40: recovery. For a valid roster, recovering a transcript succeeds exactly when every envelope verifies,
  belongs to the game and to a roster member, no sender repeats a sequence number, and each sender's envelopes,
  sorted by sequence number, are a complete chain linked from the zero hash. The recovered registry is the one
  registry of this game and roster whose logs are these chains.\<close>

theorem recovery_iff:
  assumes "codec_laws pr" "newSessionChainRegistry pr (JBytes g) roster = Inr reg0"
  shows "recoverSessionChains pr (JBytes g) roster ts = Inr (reg, n) \<longleftrightarrow> n = length ts \<and>
    (\<exists>as. list_all2 (\<lambda>c a. decodeAndVerifyEnvelope pr (art_canonicalBytes c) = Inr a \<and> env_game (art_envelope a) = g) ts as \<and>
      distinct (map (\<lambda>a. (env_from (art_envelope a), env_seq (art_envelope a))) as) \<and>
      (\<forall>a \<in> set as. env_from (art_envelope a) \<in> set (reg_roster reg0)) \<and>
      (\<forall>s. linked s (sender_chain as s) \<and> log_of reg s = sender_chain as s)) \<and>
    reg_inv reg \<and> reg_gameId reg = g \<and> reg_roster reg = reg_roster reg0"
  (is "?L \<longleftrightarrow> ?R")
proof
  assume l: ?L
  then obtain as where as: "list_all2 (decodes pr g) ts as" "distinct (map tkey as)" "\<forall>a \<in> set as. env_from (art_envelope a) \<in> set (reg_roster reg0)"
    using recover_Inr_collected [OF assms(2)] by blast
  from recover_cases [OF assms as] l show ?R
    using as by (auto simp: tkey_pairs decodes_def [abs_def])
next
  assume r: ?R
  then obtain as where as: "list_all2 (decodes pr g) ts as" "distinct (map tkey as)" "\<forall>a \<in> set as. env_from (art_envelope a) \<in> set (reg_roster reg0)"
    and lg: "\<forall>s. linked s (sender_chain as s) \<and> log_of reg s = sender_chain as s"
    by (auto simp: tkey_pairs decodes_def [abs_def])
  show ?L
  proof (cases "recoverSessionChains pr (JBytes g) roster ts")
    case (Inl e)
    then show ?thesis using recover_cases [OF assms as] lg by simp
  next
    case (Inr x)
    obtain reg' m where x: "x = (reg', m)" by (cases x)
    have "m = length ts" "reg_inv reg'" "reg_gameId reg' = g" "reg_roster reg' = reg_roster reg0" "\<forall>s. log_of reg' s = sender_chain as s"
      using recover_cases [OF assms as] Inr x by simp_all
    moreover have "reg' = reg" by (rule registry_ext) (use calculation r lg in simp_all)
    ultimately show ?thesis using Inr x r by simp
  qed
qed

text \<open>The order in which the transcript was stored does not matter.\<close>

lemma recovery_order_free:
  assumes "codec_laws pr" "newSessionChainRegistry pr (JBytes g) roster = Inr reg0" "mset ts = mset us"
    and "recoverSessionChains pr (JBytes g) roster ts = Inr (reg, n)"
  shows "recoverSessionChains pr (JBytes g) roster us = Inr (reg, n)"
proof -
  obtain as where as: "list_all2 (decodes pr g) ts as" "distinct (map tkey as)" "\<forall>a \<in> set as. env_from (art_envelope a) \<in> set (reg_roster reg0)"
    using recover_Inr_collected [OF assms(2,4)] by blast
  obtain bs where bs: "list_all2 (decodes pr g) us bs" "mset as = mset bs"
    using list_all2_reorder_left_invariance [OF as(1), of us] assms(3) by auto
  have s: "set as = set bs" and d: "distinct (map tkey bs)" using mset_eq_setD [OF bs(2)] sort_key_unique [OF bs(2) as(2)] by simp_all
  have ch: "sender_chain bs = sender_chain as"
  proof
    fix s
    have "group bs (bytesToHex s) = group as (bytesToHex s)" using sort_key_unique(1) [OF bs(2) as(2)] filter_sort_sender by metis
    then show "sender_chain bs s = sender_chain as s" by (simp only: group_sender_chain)
  qed
  have a: "(\<forall>s. linked s (sender_chain as s))" "n = length ts" "reg_inv reg" "reg_gameId reg = g" "reg_roster reg = reg_roster reg0"
    "\<forall>s. log_of reg s = sender_chain as s"
    using recover_cases [OF assms(1,2) as] assms(4) by simp_all
  have bm: "\<forall>a \<in> set bs. env_from (art_envelope a) \<in> set (reg_roster reg0)" using as(3) s by simp
  show ?thesis
  proof (cases "recoverSessionChains pr (JBytes g) roster us")
    case (Inl e)
    then show ?thesis using recover_cases [OF assms(1,2) bs(1) d bm] a(1) ch by simp
  next
    case (Inr x)
    obtain reg' m where x: "x = (reg', m)" by (cases x)
    have *: "m = length us" "reg_inv reg'" "reg_gameId reg' = g" "reg_roster reg' = reg_roster reg0" "\<forall>s. log_of reg' s = sender_chain as s"
      using recover_cases [OF assms(1,2) bs(1) d bm] Inr x ch by simp_all
    have "reg' = reg" by (rule registry_ext) (use * a in simp_all)
    moreover have "length us = length ts" using assms(3) by (metis size_mset)
    ultimately show ?thesis using Inr x *(1) a(2) by simp
  qed
qed

end
