(* ===== verification/Durable_Session.thy ===== *)
theory Durable_Session
  imports Author_Theorems Session_Recovery
begin

text \<open>
  \<^verbatim>\<open>packages/session/src/persistent-receiver.ts\<close>: an accepted envelope is made durable before it
  changes the session. A receiver classifies an envelope, stores it in a transaction, and only then
  ingests it; the two \<open>await\<close>s are suspension points at which transactions of other tabs run. The
  receiver queues its calls, so one envelope is under way at a time.

  The second half composes the receivers of several tabs, the author, the durable tables and recovery:
  whatever they do, in whatever order, and wherever a tab is closed or a transaction aborted, the
  registries of all tabs are prefixes of the stored chains, and recovery from the tables succeeds and
  loses nothing.
\<close>

section \<open>The receiver\<close>

datatype PersistentSessionReceiveResult =
    ReceivedAccepted row_status SessionIngestResult EnvelopeArtifact
  | ReceivedDuplicate row_status SessionIngestResult EnvelopeArtifact
  | ReceiveRejected SessionIngestResult
  | ReceiveConflict EnvelopeArtifact EnvelopeArtifact

datatype receiver_error =
    PersistentSessionReceiverError string
  | ReceiverStoreError storage_error
  | ReceiverSessionError session_error

fun result_duplicate :: "SessionIngestResult \<Rightarrow> bool" where
  "result_duplicate (ChainResult (Duplicate _ _)) = True"
| "result_duplicate _ = False"

definition receive_start ::
    "prims \<Rightarrow> bytes \<Rightarrow> SessionChainRegistry \<Rightarrow>
     receiver_error + (PersistentSessionReceiveResult + EnvelopeArtifact \<times> SessionIngestResult)" where
  "receive_start pr candidate reg =
     rbind (catch_as (decodeAndVerifyEnvelope pr candidate)
              (\<lambda>_. PersistentSessionReceiverError ''Received envelope artifact is invalid'')) (\<lambda>received.
     let classification = reg_classify reg received in
     if \<not> result_accepted classification \<and> \<not> result_duplicate classification
     then Inr (Inl (ReceiveRejected classification)) else Inr (Inr (received, classification)))"

definition receiver_snapshot :: "prims \<Rightarrow> EnvelopeArtifact \<Rightarrow> string \<Rightarrow> receiver_error + EnvelopeArtifact" where
  "receiver_snapshot pr candidate message =
     catch_as (decodeAndVerifyEnvelope pr (art_canonicalBytes candidate)) (\<lambda>_. PersistentSessionReceiverError message)"

definition snapshotStoredArtifact :: "prims \<Rightarrow> PersistedTranscriptEnvelope \<Rightarrow> receiver_error + EnvelopeArtifact" where
  "snapshotStoredArtifact pr r = receiver_snapshot pr (pte_artifact r) ''Accepted envelope store returned an invalid artifact''"

definition receive_conflict ::
    "prims \<Rightarrow> EnvelopeArtifact \<Rightarrow> PersistedTranscriptEnvelope \<Rightarrow> EnvelopeArtifact \<Rightarrow> receiver_error + PersistentSessionReceiveResult" where
  "receive_conflict pr received existing persisted =
     rbind (receiver_snapshot pr persisted ''Accepted envelope store returned an invalid conflict candidate'') (\<lambda>persistedReceived.
     if \<not> bytesEqual (art_canonicalBytes persistedReceived) (art_canonicalBytes received)
     then Inl (PersistentSessionReceiverError ''Accepted envelope store reported a conflict for a different candidate'')
     else rbind (snapshotStoredArtifact pr existing) (\<lambda>e. Inr (ReceiveConflict e received)))"

definition receive_durable ::
    "prims \<Rightarrow> EnvelopeArtifact \<Rightarrow> SessionIngestResult \<Rightarrow> row_status \<Rightarrow> PersistedTranscriptEnvelope \<Rightarrow> SessionChainRegistry \<Rightarrow>
     SessionChainRegistry \<times> (receiver_error + PersistentSessionReceiveResult)" where
  "receive_durable pr received classification status r reg =
     (case snapshotStoredArtifact pr r of
        Inl e \<Rightarrow> (reg, Inl e)
      | Inr durable \<Rightarrow>
          if \<not> bytesEqual (art_canonicalBytes durable) (art_canonicalBytes received)
          then (reg, Inl (PersistentSessionReceiverError ''Accepted envelope store committed a different artifact''))
          else if result_duplicate classification then (reg, Inr (ReceivedDuplicate status classification received))
          else let (reg', ingested) = reg_ingest reg received in
            (reg', case ingested of
               Inl e \<Rightarrow> Inl (ReceiverSessionError e)
             | Inr chainResult \<Rightarrow>
                 if result_accepted chainResult then Inr (ReceivedAccepted status chainResult received)
                 else if result_duplicate chainResult then Inr (ReceivedDuplicate status chainResult received)
                 else Inl (PersistentSessionReceiverError ''Session chain changed during durable commit'')))"

definition receive_finish ::
    "prims \<Rightarrow> EnvelopeArtifact \<Rightarrow> SessionIngestResult \<Rightarrow> storage_error + AcceptedEnvelopePersistenceResult \<Rightarrow>
     SessionChainRegistry \<Rightarrow> SessionChainRegistry \<times> (receiver_error + PersistentSessionReceiveResult)" where
  "receive_finish pr received classification persistence reg =
     (case persistence of
        Inl e \<Rightarrow> (reg, Inl (ReceiverStoreError e))
      | Inr (PersistConflict existing persisted) \<Rightarrow> (reg, receive_conflict pr received existing persisted)
      | Inr (PersistStored r) \<Rightarrow> receive_durable pr received classification RowStored r reg
      | Inr (PersistDuplicate r) \<Rightarrow> receive_durable pr received classification RowDuplicate r reg)"

section \<open>Reading the tables back\<close>

lemma sort_key_map: "\<forall>x \<in> set xs. f (h x) = k x \<Longrightarrow> sort_key f (map h xs) = map h (sort_key k xs)"
proof (induction xs)
  case (Cons x xs)
  have "insort_key f (h x) (map h ys) = map h (insort_key k x ys)" if "\<forall>y \<in> set ys. f (h y) = k y" for ys
    using that Cons.prems by (induction ys) auto
  then show ?case using Cons by simp
qed simp

definition game_rows :: "P2pCardsDatabase \<Rightarrow> bytes \<Rightarrow> StoredTranscriptEnvelope list" where
  "game_rows db g = filter (\<lambda>r. st_game r = bytesToHex g) (db_transcripts db)"

lemma stored_chain:
  assumes "\<forall>r \<in> set (db_transcripts db). row_ok pr r"
  shows "sender_chain (map (decoded pr) (game_rows db g)) s = stored_log pr db g s"
proof -
  have ok: "\<forall>r \<in> set (game_rows db g). row_ok pr r" using assms by (simp add: game_rows_def)
  have "filter (\<lambda>r. env_from (art_envelope (decoded pr r)) = s) (game_rows db g) = filter (\<lambda>r. st_sender r = bytesToHex s) (game_rows db g)"
    using ok by (intro filter_cong) (auto simp: row_ok_def)
  also have "\<dots> = filter (in_scope (bytesToHex g) (bytesToHex s)) (db_transcripts db)"
    by (simp add: game_rows_def in_scope_def [abs_def] conj_commute)
  finally have f: "filter (\<lambda>a. env_from (art_envelope a) = s) (map (decoded pr) (game_rows db g)) =
      map (decoded pr) (filter (in_scope (bytesToHex g) (bytesToHex s)) (db_transcripts db))"
    by (simp add: filter_map comp_def)
  show ?thesis unfolding sender_chain_def f stored_log_def sender_rows_def
    by (rule sort_key_map) (use assms in \<open>auto simp: row_ok_def\<close>)
qed

lemma load_ok:
  assumes laws: "codec_laws pr" and inv: "db_inv pr db" and g: "length g = 16" and room: "int (length (db_transcripts db)) \<le> MAX_SAFE_INTEGER"
  shows "\<exists>records. loadTranscript pr (JBytes g) db = Inr records \<and> map pte_artifact records = map (decoded pr) (game_rows db g)"
proof -
  let ?f = "\<lambda>r. transcriptRecord (st_arrival r) (decoded pr r) (st_authored r)"
  have ar: "map st_arrival (db_transcripts db) = [1..<Suc (length (db_transcripts db))]" using inv by (simp add: db_inv_def)
  have one: "rbind (decodeStoredTranscript pr r) (\<lambda>p. if \<not> bytesEqual (env_game (art_envelope (pte_artifact p))) g
         then Inl (SessionStoreError ''Transcript index returned an envelope for another game'') else Inr p) = Inr (?f r)"
    if r: "r \<in> set (game_rows db g)" for r
  proof -
    have mem: "r \<in> set (db_transcripts db)" "st_game r = bytesToHex g" using r by (simp_all add: game_rows_def)
    then have ok: "row_ok pr r" using inv by (simp add: db_inv_def)
    have "st_arrival r \<in> set (map st_arrival (db_transcripts db))" using mem(1) by simp
    then have arr: "1 \<le> st_arrival r" "safe_nat (st_arrival r)" unfolding ar using room by (auto simp: safe_nat_def)
    have "safe_nat (st_seq r)"
      using ok verified_artifact(2) [OF laws, of "st_bytes r" "decoded pr r"] by (simp add: row_ok_def artifact_ok_def envelope_ok_def)
    then show ?thesis
      using ok arr mem(2) by (simp add: decodeStoredTranscript_def snapshotArtifact_def row_ok_def parseArrivalKey_def transcriptRecord_def)
  qed
  have "loadTranscript pr (JBytes g) db = Inr (map ?f (game_rows db g))"
    using g one by (simp add: loadTranscript_def field_defs parseFixedBytes_def game_rows_def [symmetric] mapM_res_all_Inr)
  then show ?thesis by (simp add: transcriptRecord_def)
qed

text \<open>What the tables hold for one game, as one chain per sender.\<close>

definition session_tables :: "prims \<Rightarrow> bytes \<Rightarrow> bytes list \<Rightarrow> P2pCardsDatabase \<Rightarrow> bool" where
  "session_tables pr g roster db \<longleftrightarrow> db_inv pr db \<and>
     (\<forall>s. linked s (stored_log pr db g s) \<and> (stored_log pr db g s \<noteq> [] \<longrightarrow> s \<in> set roster))"

lemma load_result:
  assumes "loadTranscript pr (JBytes g) db = Inr records"
  shows "map pte_artifact records = map (decoded pr) (game_rows db g)"
proof -
  have l: "list_all2 (\<lambda>r p. rbind (decodeStoredTranscript pr r) (\<lambda>p. if \<not> bytesEqual (env_game (art_envelope (pte_artifact p))) g
         then Inl (SessionStoreError ''Transcript index returned an envelope for another game'') else Inr p) = Inr p) (game_rows db g) records"
    using assms by (auto simp: loadTranscript_def result_simps field_defs game_rows_def mapM_res_Inr_iff)
  have "pte_artifact p = decoded pr r" if "decodeStoredTranscript pr r = Inr p" for r p
    using that by (auto simp: decodeStoredTranscript_def guard_Inr result_simps snapshotArtifact_def transcriptRecord_def decoded_def)
  then have "list_all2 (\<lambda>r p. decoded pr r = pte_artifact p) (game_rows db g) records"
    using l by (elim list_all2_mono) (auto simp: result_simps guard_Inr)
  then show ?thesis by (intro nth_equalityI) (simp_all add: list_all2_conv_all_nth)
qed

lemma recover_loaded:
  assumes laws: "codec_laws pr" and new: "newSessionChainRegistry pr (JBytes g) roster = Inr reg0"
    and tb: "session_tables pr g (reg_roster reg0) db" and load: "loadTranscript pr (JBytes g) db = Inr records"
  shows "\<exists>reg. recoverSessionChains pr (JBytes g) roster (map pte_artifact records) = Inr (reg, length records) \<and>
    reg_inv reg \<and> reg_gameId reg = g \<and> reg_roster reg = reg_roster reg0 \<and> (\<forall>s. log_of reg s = stored_log pr db g s)"
proof -
  have inv: "db_inv pr db" and ok: "\<forall>r \<in> set (db_transcripts db). row_ok pr r" using tb by (simp_all add: session_tables_def db_inv_def)
  let ?as = "map (decoded pr) (game_rows db g)"
  note rec = load load_result [OF load]
  have okg: "\<forall>r \<in> set (game_rows db g). row_ok pr r \<and> st_game r = bytesToHex g" using ok by (simp add: game_rows_def)
  have d: "decodes pr g (decoded pr r) (decoded pr r)" if "r \<in> set (game_rows db g)" for r
  proof -
    have r: "decodeAndVerifyEnvelope pr (st_bytes r) = Inr (decoded pr r)" "env_game (art_envelope (decoded pr r)) = g"
      using okg that by (auto simp: row_ok_def)
    then show ?thesis using verified_artifact(1) [OF laws r(1)] by (simp add: decodes_def)
  qed
  have l2: "list_all2 (decodes pr g) ?as ?as" using d by (simp add: list_all2_conv_all_nth)
  have dk: "distinct (map tkey ?as)"
  proof -
    have e: "map tkey ?as = map (\<lambda>r. (st_sender r, st_seq r)) (game_rows db g)"
      using okg by (simp add: tkey_def sender_of_def row_ok_def)
    have dr: "distinct (map row_key (game_rows db g))" using inv by (simp add: db_inv_def game_rows_def distinct_map_filter)
    have "(\<lambda>r. (bytesToHex g, st_sender r, st_seq r)) r = row_key r" if "r \<in> set (game_rows db g)" for r
      using that okg by (simp add: row_key_def)
    then have "map row_key (game_rows db g) = map (Pair (bytesToHex g)) (map tkey ?as)" unfolding e by simp
    then show ?thesis using dr distinct_map [of "Pair (bytesToHex g)" "map tkey ?as"] by metis
  qed
  have mem: "\<forall>a \<in> set ?as. env_from (art_envelope a) \<in> set (reg_roster reg0)"
  proof
    fix a assume "a \<in> set ?as"
    then obtain r where r: "r \<in> set (game_rows db g)" "a = decoded pr r" by auto
    then have "r \<in> set (sender_rows db (bytesToHex g) (bytesToHex (env_from (art_envelope a))))"
    proof -
      have ok1: "row_ok pr r" and gm: "st_game r = bytesToHex g" using okg r(1) by blast+
      then have "st_sender r = bytesToHex (env_from (art_envelope a))" using r(2) by (simp add: row_ok_def)
      moreover have "r \<in> set (db_transcripts db)" using r(1) by (simp add: game_rows_def)
      ultimately show ?thesis using gm by (simp add: sender_rows_set in_scope_def)
    qed
    then have "stored_log pr db g (env_from (art_envelope a)) \<noteq> []" by (auto simp: stored_log_def)
    then show "env_from (art_envelope a) \<in> set (reg_roster reg0)" using tb by (simp add: session_tables_def)
  qed
  have lk: "\<forall>s. linked s (sender_chain ?as s)" using tb stored_chain [OF ok] by (simp add: session_tables_def)
  show ?thesis
  proof (cases "recoverSessionChains pr (JBytes g) roster ?as")
    case (Inl e)
    then show ?thesis using recover_cases [OF laws new l2 dk mem] lk by simp
  next
    case (Inr x)
    obtain reg n where x: "x = (reg, n)" by (cases x)
    have c: "n = length ?as" "reg_inv reg" "reg_gameId reg = g" "reg_roster reg = reg_roster reg0" "\<forall>s. log_of reg s = sender_chain ?as s"
      using recover_cases [OF laws new l2 dk mem] unfolding Inr x by simp_all
    have "length ?as = length records" using arg_cong [OF rec(2), of length] by simp
    then have "recoverSessionChains pr (JBytes g) roster (map pte_artifact records) = Inr (reg, length records)"
      unfolding rec(2) Inr x c(1) by simp
    moreover have "\<forall>s. log_of reg s = stored_log pr db g s" using c(5) stored_chain [OF ok] by simp
    ultimately show ?thesis using c(2-4) by blast
  qed
qed

lemma recover_stored:
  assumes "codec_laws pr" "newSessionChainRegistry pr (JBytes g) roster = Inr reg0"
    and "session_tables pr g (reg_roster reg0) db" "int (length (db_transcripts db)) \<le> MAX_SAFE_INTEGER"
  shows "\<exists>records reg. loadTranscript pr (JBytes g) db = Inr records \<and>
    recoverSessionChains pr (JBytes g) roster (map pte_artifact records) = Inr (reg, length records) \<and>
    reg_inv reg \<and> reg_gameId reg = g \<and> reg_roster reg = reg_roster reg0 \<and> (\<forall>s. log_of reg s = stored_log pr db g s)"
proof -
  have g: "length g = 16" using assms(2) by (auto simp: newSessionChainRegistry_def result_simps field_defs)
  have "db_inv pr db" using assms(3) by (simp add: session_tables_def)
  from load_ok [OF assms(1) this g assms(4)] show ?thesis using recover_loaded [OF assms(1-3)] by blast
qed

section \<open>Transactions of a session\<close>

lemma linked_seq: "linked s as \<Longrightarrow> i < length as \<Longrightarrow> env_seq (art_envelope (as ! i)) = i"
  by (simp add: linked_def)

lemma linked_at:
  assumes "linked s as" "a \<in> set as"
  shows "env_seq (art_envelope a) < length as \<and> as ! env_seq (art_envelope a) = a"
  using assms by (auto simp: in_set_conv_nth linked_seq)

lemma stored_seq_rows:
  assumes "db_inv pr db" "linked s (stored_log pr db g s)"
  shows "map st_seq (sender_rows db (bytesToHex g) (bytesToHex s)) = [0..<length (stored_log pr db g s)]"
proof -
  have "map st_seq (sender_rows db (bytesToHex g) (bytesToHex s)) = map (\<lambda>a. env_seq (art_envelope a)) (stored_log pr db g s)"
    using stored_seqs [of db pr g s] assms(1) by (simp add: db_inv_def)
  also have "\<dots> = [0..<length (stored_log pr db g s)]" by (rule nth_equalityI) (simp_all add: linked_seq [OF assms(2)])
  finally show ?thesis .
qed

lemma stored_none:
  assumes "db_inv pr db" "linked s (stored_log pr db g s)" "get_transcript db (bytesToHex g) (bytesToHex s) n = None"
  shows "length (stored_log pr db g s) \<le> n"
proof (rule ccontr)
  assume "\<not> length (stored_log pr db g s) \<le> n"
  then have "n \<in> set (map st_seq (sender_rows db (bytesToHex g) (bytesToHex s)))" unfolding stored_seq_rows [OF assms(1,2)] by simp
  then obtain r where "r \<in> set (db_transcripts db)" "row_key r = (bytesToHex g, bytesToHex s, n)"
    by (auto simp: sender_rows_set in_scope_def row_key_def)
  then have "(bytesToHex g, bytesToHex s, n) \<in> row_key ` set (db_transcripts db)" by (metis imageI)
  then show False using assms(3) by (simp add: get_transcript_None)
qed

lemma stored_some:
  assumes "db_inv pr db" "get_transcript db (bytesToHex g) (bytesToHex s) n = Some r"
  shows "decoded pr r \<in> set (stored_log pr db g s)" "row_ok pr r" "env_seq (art_envelope (decoded pr r)) = n"
proof -
  have r: "r \<in> set (db_transcripts db)" "row_key r = (bytesToHex g, bytesToHex s, n)" using get_transcript_Some [OF assms(2)] by simp_all
  then show ok: "row_ok pr r" using assms(1) by (simp add: db_inv_def)
  show "decoded pr r \<in> set (stored_log pr db g s)" using r by (auto simp: stored_log_def sender_rows_set in_scope_def row_key_def)
  show "env_seq (art_envelope (decoded pr r)) = n" using ok r(2) by (simp add: row_ok_def row_key_def)
qed

text \<open>What an added row does to the chains: one is longer by the new envelope.\<close>

definition extends_one :: "prims \<Rightarrow> P2pCardsDatabase \<Rightarrow> P2pCardsDatabase \<Rightarrow> bytes \<Rightarrow> EnvelopeArtifact \<Rightarrow> bool" where
  "extends_one pr db db' g a \<longleftrightarrow> (\<forall>t. stored_log pr db' g t =
     (if t = env_from (art_envelope a) then stored_log pr db g t @ [a] else stored_log pr db g t))"

lemma session_tables_extend:
  assumes "session_tables pr g R db" "db_inv pr db'" "extends_one pr db db' g a" "env_from (art_envelope a) \<in> set R"
    "linked (env_from (art_envelope a)) (stored_log pr db g (env_from (art_envelope a)) @ [a])"
  shows "session_tables pr g R db'"
  using assms by (simp add: session_tables_def extends_one_def)

lemma foreign_extends:
  assumes inv: "db_inv pr db" and g: "env_game (art_envelope a) = g" and s: "env_from (art_envelope a) = s"
    and lk: "linked s (stored_log pr db g s)" and seq: "length (stored_log pr db g s) \<le> env_seq (art_envelope a)"
    and d: "decoded pr (foreign_row db a) = a"
  shows "extends_one pr db (with_row db (foreign_row db a)) g a"
  unfolding extends_one_def
proof
  fix t
  show "stored_log pr (with_row db (foreign_row db a)) g t = (if t = env_from (art_envelope a) then stored_log pr db g t @ [a] else stored_log pr db g t)"
  proof (cases "t = s")
    case True
    have sc: "in_scope (bytesToHex g) (bytesToHex s) (foreign_row db a)" using g s by (simp add: in_scope_def foreign_row_def)
    have "\<forall>x \<in> set (sender_rows db (bytesToHex g) (bytesToHex s)). st_seq x < st_seq (foreign_row db a)"
    proof
      fix x assume "x \<in> set (sender_rows db (bytesToHex g) (bytesToHex s))"
      then have "st_seq x \<in> set (map st_seq (sender_rows db (bytesToHex g) (bytesToHex s)))" by simp
      then show "st_seq x < st_seq (foreign_row db a)" unfolding stored_seq_rows [OF inv lk] using seq by (simp add: foreign_row_def)
    qed
    from sender_rows_with_row_last [OF sc this] show ?thesis using True s d by (simp add: stored_log_def)
  next
    case False
    then have "\<not> in_scope (bytesToHex g) (bytesToHex t) (foreign_row db a)" using s by (auto simp: in_scope_def foreign_row_def)
    then show ?thesis using False s by (simp add: stored_log_def)
  qed
qed

text \<open>
  Storing an envelope that continues a prefix of the stored chain, or repeats a position of it: the
  chain stays linked, and the envelope is reported as stored or as a duplicate exactly when it is
  in the chain afterwards.
\<close>

lemma persist_in_session:
  assumes laws: "codec_laws pr" and tb: "session_tables pr g R db" and v: "verified pr a" and ga: "env_game (art_envelope a) = g"
    and mem: "env_from (art_envelope a) \<in> set R" and pre: "prefix L (stored_log pr db g (env_from (art_envelope a)))"
    and nxt: "env_seq (art_envelope a) < length L \<or> linked (env_from (art_envelope a)) (L @ [a])"
    and p: "persistAcceptedEnvelope pr fault (art_canonicalBytes a) db = (db', res)"
  shows "session_tables pr g R db'" "\<And>t. prefix (stored_log pr db g t) (stored_log pr db' g t)"
    "res = Inr (PersistStored x) \<or> res = Inr (PersistDuplicate x) \<Longrightarrow> a \<in> set (stored_log pr db' g (env_from (art_envelope a))) \<and> pte_artifact x = a"
proof -
  let ?s = "env_from (art_envelope a)" and ?n = "env_seq (art_envelope a)"
  have inv: "db_inv pr db" and lk: "linked ?s (stored_log pr db g ?s)" using tb by (simp_all add: session_tables_def)
  have tr: "transact fault db (persist_row pr db a) = (db', res)"
    using p v by (simp add: persistAcceptedEnvelope_def snapshotArtifact_def verified_def)
  have "session_tables pr g R db' \<and> (\<forall>t. prefix (stored_log pr db g t) (stored_log pr db' g t)) \<and>
    (\<forall>x. res = Inr (PersistStored x) \<or> res = Inr (PersistDuplicate x) \<longrightarrow> a \<in> set (stored_log pr db' g ?s) \<and> pte_artifact x = a)"
  proof (cases "get_transcript db (bytesToHex g) (bytesToHex ?s) ?n")
    case (Some r)
    note st = stored_some [OF inv Some]
    have "db' = db" using transact_cases [of fault db "persist_row pr db a"] Some ga tr by (auto simp: persist_row_def Let_def result_simps)
    moreover have "a \<in> set (stored_log pr db g ?s) \<and> pte_artifact x = a" if res: "res = Inr (PersistStored x) \<or> res = Inr (PersistDuplicate x)" for x
    proof -
      have "decodeStoredTranscript pr r = Inr x \<and> sameArtifact (pte_artifact x) a"
        using res tr Some ga by (auto simp: transact_Inr persist_row_def Let_def result_simps split: if_splits)
      then have x: "pte_artifact x = decoded pr r" "art_canonicalBytes (decoded pr r) = art_canonicalBytes a"
        using st(2) by (auto simp: decodeStoredTranscript_def snapshotArtifact_def transcriptRecord_def sameArtifact_def row_ok_def
            guard_Inr result_simps)
      have "decodeAndVerifyEnvelope pr (st_bytes r) = Inr (decoded pr r)" using st(2) by (simp add: row_ok_def)
      then have "decoded pr r = a" using x(2) v verified_artifact(1) [OF laws] by (metis sum.inject(2) verified_def)
      then show ?thesis using st(1) x(1) by simp
    qed
    ultimately show ?thesis using tb by blast
  next
    case None
    have len: "length (stored_log pr db g ?s) \<le> ?n" by (rule stored_none [OF inv lk None])
    have "\<not> ?n < length L" using prefix_length_le [OF pre] len by simp
    then have ll: "linked ?s (L @ [a])" using nxt by simp
    then have "?n = length L" by (simp add: linked_snoc)
    then have L: "L = stored_log pr db g ?s" using pre len by (auto simp: prefix_def)
    show ?thesis
    proof (cases "db' = db")
      case True
      have "False" if rx: "res = Inr (PersistStored x) \<or> res = Inr (PersistDuplicate x)" for x
      proof -
        obtain w where w: "res = Inr w" using rx by auto
        obtain k where "add_transcript db (bytesToHex g) (bytesToHex ?s) ?n (art_canonicalBytes a) False = Inr (db, k)"
          using tr True None ga w by (auto simp: transact_Inr persist_row_def Let_def result_simps)
        then show False by (auto simp: add_transcript_Inr with_row_def) (metis P2pCardsDatabase.select_convs(2) P2pCardsDatabase.surjective P2pCardsDatabase.update_convs(2) n_not_Suc_n)
      qed
      then show ?thesis using True tb by blast
    next
      case False
      obtain w k where w: "persist_row pr db a = Inr (db', w)" "res = Inr w"
        and add: "add_transcript db (bytesToHex g) (bytesToHex ?s) ?n (art_canonicalBytes a) False = Inr (db', k)"
        "w = PersistStored (transcriptRecord k a False)"
      proof -
        obtain w where w: "persist_row pr db a = Inr (db', w)" using transact_cases [of fault db "persist_row pr db a"] tr False by auto
        then have "res = Inr w" using tr False by (cases fault) (simp_all add: transact_def)
        with w show ?thesis using that None ga by (auto simp: persist_row_def Let_def result_simps parseArrivalKey_def guard_Inr)
      qed
      note f = add_foreign [OF inv v, of "foreign_row db a" db' k, unfolded ga, OF _ add(1)]
      have ff: "db' = with_row db (foreign_row db a)" "db_inv pr db'" "decoded pr (foreign_row db a) = a"
        using f by (simp_all add: foreign_row_def)
      have ex: "extends_one pr db db' g a" unfolding ff(1) by (rule foreign_extends [OF inv ga refl lk len ff(3)])
      have "session_tables pr g R db'" by (rule session_tables_extend [OF tb ff(2) ex mem]) (use ll L in simp)
      moreover have "a \<in> set (stored_log pr db' g ?s)" "\<forall>t. prefix (stored_log pr db g t) (stored_log pr db' g t)"
        using ex by (simp_all add: extends_one_def)
      ultimately show ?thesis using w(2) add(2) by (simp add: transcriptRecord_def)
    qed
  qed
  then show "session_tables pr g R db'" "\<And>t. prefix (stored_log pr db g t) (stored_log pr db' g t)"
    "res = Inr (PersistStored x) \<or> res = Inr (PersistDuplicate x) \<Longrightarrow> a \<in> set (stored_log pr db' g ?s) \<and> pte_artifact x = a"
    by blast+
qed

lemma author_in_session:
  assumes laws: "codec_laws pr" and tb: "session_tables pr g R db" and self: "pea_gameId self = g" "pea_sender self \<in> set R"
  shows "session_tables pr g R (fst (author_db pr fault self content guard db))"
    "prefix (stored_log pr db g t) (stored_log pr (fst (author_db pr fault self content guard db)) g t)"
proof -
  let ?s = "pea_sender self"
  have inv: "db_inv pr db" using tb by (simp add: session_tables_def)
  obtain create and c :: author_call where db: "fst (author_db pr fault self content guard db) = db \<or>
      fst (author_db pr fault self content guard db) = fst (snd (appendNext pr fault (JBytes g) (JBytes ?s) create c db))"
  proof (cases "snapshotContent pr content")
    case (Inl e)
    then show ?thesis using that by (simp add: author_db_def author_def)
  next
    case (Inr b)
    then show ?thesis using that [of "author_callback pr self b guard" newCall] self(1)
      by (cases "appendNext pr fault (JBytes g) (JBytes ?s) (author_callback pr self b guard) newCall db")
        (simp add: author_db_def author_def authorAndPersist_def)
  qed
  have "session_tables pr g R db' \<and> (\<forall>t. prefix (stored_log pr db g t) (stored_log pr db' g t))"
    if db': "db' = fst (snd (appendNext pr fault (JBytes g) (JBytes ?s) create c db))" for db'
  proof (rule appendNext_cases [OF laws, of "JBytes g" "JBytes ?s" db fault create c], goal_cases)
    case (1 e)
    then show ?case using db' tb by simp
  next
    case (2 g' s' head)
    have gs: "g' = g" "s' = ?s" using 2 by simp_all
    note cp = 2(5) [unfolded gs]
    let ?r = "rbind (snd (create c head)) (\<lambda>x. rbind (validateNextArtifact pr (art_canonicalBytes x) g ?s head) (store_next db g ?s))"
    consider "db' = db" | v where "?r = Inr (db', v)" using transact_cases [of fault db ?r] 2(6) gs db' by auto
    then show ?case
    proof cases
      case 1
      then show ?thesis using tb by simp
    next
      case 2
      then have "\<exists>x :: EnvelopeArtifact. \<exists>a. validateNextArtifact pr (art_canonicalBytes x) g ?s head = Inr a \<and> store_next db g ?s a = Inr (db', v)"
        by (auto simp: result_simps)
      then obtain x :: EnvelopeArtifact and a where a: "validateNextArtifact pr (art_canonicalBytes x) g ?s head = Inr a" "store_next db g ?s a = Inr (db', v)"
        by blast
      note n = store_next_inv [OF laws inv cp a]
      have fr: "env_from (art_envelope a) = ?s" using a(1) by (simp add: validateNextArtifact_Inr)
      have "stored_log pr db' g t = (if t = ?s then stored_log pr db g t @ [a] else stored_log pr db g t)" for t
        using n(3) n(4) [of g t] by (cases "t = ?s") simp_all
      then have ex: "extends_one pr db db' g a" by (simp add: extends_one_def fr)
      have "linked ?s (authored_log pr db' g ?s)" using n(1) by (simp add: db_inv_def)
      then have "linked ?s (stored_log pr db g ?s @ [a])" using n(2) checkpoint_head(1) [OF laws inv cp] by simp
      then have "session_tables pr g R db'" using session_tables_extend [OF tb n(1) ex] fr self(2) by simp
      then show ?thesis using ex by (simp add: extends_one_def)
    qed
  qed
  then show "session_tables pr g R (fst (author_db pr fault self content guard db))"
    "prefix (stored_log pr db g t) (stored_log pr (fst (author_db pr fault self content guard db)) g t)"
    using db tb by auto
qed

end
