(* ===== verification/Durable_Theorems.thy ===== *)
theory Durable_Theorems
  imports Durable_Session
begin

text \<open>
  The tabs of a browser over their shared tables: receivers with their suspension points, authors,
  and tabs that are closed and opened again. The theorems: every registry stays a prefix of the
  stored chains, a receiver whose envelope became durable always ingests it, and recovery from the
  tables always succeeds with every stored envelope.
\<close>

text \<open>Where a receiver of a tab stands: idle, before its transaction, or after it.\<close>

datatype receiver_phase =
    Idle
  | Classified EnvelopeArtifact SessionIngestResult
  | Persisted EnvelopeArtifact SessionIngestResult "storage_error + AcceptedEnvelopePersistenceResult"

record tab =
  tab_registry :: SessionChainRegistry
  tab_phase :: receiver_phase

type_synonym browser = "P2pCardsDatabase \<times> (nat \<Rightarrow> tab)"

inductive browser_step :: "prims \<Rightarrow> bytes \<Rightarrow> jsval list \<Rightarrow> browser \<Rightarrow> browser \<Rightarrow> bool" for pr g roster where
  receive_begins: "tabs i = \<lparr>tab_registry = reg, tab_phase = Idle\<rparr> \<Longrightarrow> receive_start pr b reg = Inr (Inr (a, c)) \<Longrightarrow>
    browser_step pr g roster (db, tabs) (db, tabs(i := \<lparr>tab_registry = reg, tab_phase = Classified a c\<rparr>))"
| receive_persists: "tabs i = \<lparr>tab_registry = reg, tab_phase = Classified a c\<rparr> \<Longrightarrow>
    persistAcceptedEnvelope pr fault (art_canonicalBytes a) db = (db', r) \<Longrightarrow>
    browser_step pr g roster (db, tabs) (db', tabs(i := \<lparr>tab_registry = reg, tab_phase = Persisted a c r\<rparr>))"
| receive_finishes: "tabs i = \<lparr>tab_registry = reg, tab_phase = Persisted a c r\<rparr> \<Longrightarrow>
    receive_finish pr a c r reg = (reg', out) \<Longrightarrow>
    browser_step pr g roster (db, tabs) (db, tabs(i := \<lparr>tab_registry = reg', tab_phase = Idle\<rparr>))"
| authors: "pea_gameId self = g \<Longrightarrow> JBytes (pea_sender self) \<in> set roster \<Longrightarrow>
    browser_step pr g roster (db, tabs) (fst (author_db pr fault self content guard db), tabs)"
| reopens: "loadTranscript pr (JBytes g) db = Inr records \<Longrightarrow>
    recoverSessionChains pr (JBytes g) roster (map pte_artifact records) = Inr (reg, n) \<Longrightarrow>
    browser_step pr g roster (db, tabs) (db, tabs(i := \<lparr>tab_registry = reg, tab_phase = Idle\<rparr>))"

text \<open>What holds of a tab: its chains are prefixes of the stored ones, and an envelope under way was
  accepted or a duplicate, and is in the stored chain once the tables reported it so.\<close>

definition registry_of :: "prims \<Rightarrow> bytes \<Rightarrow> bytes list \<Rightarrow> P2pCardsDatabase \<Rightarrow> SessionChainRegistry \<Rightarrow> bool" where
  "registry_of pr g R db reg \<longleftrightarrow> reg_inv reg \<and> reg_gameId reg = g \<and> reg_roster reg = R \<and>
     (\<forall>s. prefix (log_of reg s) (stored_log pr db g s))"

definition under_way :: "prims \<Rightarrow> SessionChainRegistry \<Rightarrow> EnvelopeArtifact \<Rightarrow> SessionIngestResult \<Rightarrow> bool" where
  "under_way pr reg a c \<longleftrightarrow> verified pr a \<and> c = reg_classify reg a \<and> (result_accepted c \<or> result_duplicate c)"

fun stored_as :: "storage_error + AcceptedEnvelopePersistenceResult \<Rightarrow> EnvelopeArtifact option" where
  "stored_as (Inr (PersistStored x)) = Some (pte_artifact x)"
| "stored_as (Inr (PersistDuplicate x)) = Some (pte_artifact x)"
| "stored_as _ = None"

definition phase_ok :: "prims \<Rightarrow> bytes \<Rightarrow> P2pCardsDatabase \<Rightarrow> tab \<Rightarrow> bool" where
  "phase_ok pr g db t \<longleftrightarrow> (case tab_phase t of
       Idle \<Rightarrow> True
     | Classified a c \<Rightarrow> under_way pr (tab_registry t) a c
     | Persisted a c r \<Rightarrow> under_way pr (tab_registry t) a c \<and>
         (\<forall>x. stored_as r = Some x \<longrightarrow> x = a \<and> a \<in> set (stored_log pr db g (env_from (art_envelope a)))))"

definition browser_inv :: "prims \<Rightarrow> bytes \<Rightarrow> bytes list \<Rightarrow> browser \<Rightarrow> bool" where
  "browser_inv pr g R b \<longleftrightarrow> session_tables pr g R (fst b) \<and>
     (\<forall>i. registry_of pr g R (fst b) (tab_registry (snd b i)) \<and> phase_ok pr g (fst b) (snd b i))"

section \<open>Preservation\<close>

lemma classified_cases:
  assumes "reg_inv reg" "reg_gameId reg = g" "result_accepted (reg_classify reg a) \<or> result_duplicate (reg_classify reg a)"
  shows "env_game (art_envelope a) = g" "env_from (art_envelope a) \<in> set (reg_roster reg)"
    "env_seq (art_envelope a) < length (log_of reg (env_from (art_envelope a))) \<or>
       linked (env_from (art_envelope a)) (log_of reg (env_from (art_envelope a)) @ [a])"
proof -
  let ?s = "env_from (art_envelope a)"
  show ga: "env_game (art_envelope a) = g" using assms by (auto simp: reg_classify_def split: if_splits)
  obtain i where i: "entry_of reg ?s = Some i" using assms by (auto simp: reg_classify_def split: if_splits option.splits)
  note e = entry_of_Some [OF assms(1) i]
  show mem: "?s \<in> set (reg_roster reg)" using e(1,2) by (metis length_map nth_map nth_mem reg_roster_def)
  show "env_seq (art_envelope a) < length (log_of reg ?s) \<or> linked ?s (log_of reg ?s @ [a])"
  proof (cases "result_accepted (reg_classify reg a)")
    case True
    then show ?thesis using reg_accepts [OF assms(1)] ga assms(2) by simp
  next
    case False
    then have d: "result_duplicate (reg_classify reg a)" using assms(3) by simp
    have "entry_chain (reg_entries reg ! i) = chain_of ?s (log_of reg ?s)" using e(3-5) by (simp add: chain_inv_def)
    then have "reg_classify reg a = ChainResult (chain_classify (chain_of ?s (log_of reg ?s)) a)"
      using i ga assms(2) by (simp add: reg_classify_def)
    then show ?thesis using d by (auto simp: chain_classify_of split: if_splits)
  qed
qed

lemma tables_grow:
  assumes inv: "browser_inv pr g R (db, tabs)" and tb: "session_tables pr g R db'"
    and pre: "\<And>t. prefix (stored_log pr db g t) (stored_log pr db' g t)"
  shows "browser_inv pr g R (db', tabs)"
proof -
  have r: "registry_of pr g R db' (tab_registry (tabs i))" for i
    using inv pre unfolding browser_inv_def registry_of_def by (auto intro: prefix_order.trans)
  have "phase_ok pr g db' (tabs i)" for i
  proof -
    have "set (stored_log pr db g t) \<subseteq> set (stored_log pr db' g t)" for t using pre set_mono_prefix by blast
    moreover have "phase_ok pr g db (tabs i)" using inv by (simp add: browser_inv_def)
    ultimately show ?thesis by (auto simp: phase_ok_def split: receiver_phase.splits)
  qed
  then show ?thesis using r tb by (simp add: browser_inv_def)
qed

lemma tab_changes:
  assumes "browser_inv pr g R (db, tabs)" "registry_of pr g R db (tab_registry t)" "phase_ok pr g db t"
  shows "browser_inv pr g R (db, tabs(i := t))"
  using assms by (auto simp: browser_inv_def)

text \<open>A receiver whose envelope is durable ingests it, or finds it in its chain; nothing is thrown.\<close>

lemma finish_durable:
  assumes reg: "registry_of pr g R db reg" and uw: "under_way pr reg a c" and st: "pte_artifact x = a"
    and mem: "a \<in> set (stored_log pr db g (env_from (art_envelope a)))" and lk: "linked (env_from (art_envelope a)) (stored_log pr db g (env_from (art_envelope a)))"
    and f: "receive_durable pr a c status x reg = (reg', out)"
  shows "registry_of pr g R db reg'"
    "out = Inr (if result_duplicate c then ReceivedDuplicate status c a else ReceivedAccepted status c a)"
    "result_accepted c \<Longrightarrow> log_of reg' (env_from (art_envelope a)) = log_of reg (env_from (art_envelope a)) @ [a]"
proof -
  let ?s = "env_from (art_envelope a)"
  have ri: "reg_inv reg" "reg_gameId reg = g" "reg_roster reg = R" and pre: "\<forall>s. prefix (log_of reg s) (stored_log pr db g s)"
    using reg by (simp_all add: registry_of_def)
  have u: "verified pr a" "c = reg_classify reg a" "result_accepted c \<or> result_duplicate c" using uw unfolding under_way_def by blast+
  have snap: "snapshotStoredArtifact pr x = Inr a" using u(1) st by (simp add: snapshotStoredArtifact_def receiver_snapshot_def verified_def)
  have excl: "\<not> (result_accepted c \<and> result_duplicate c)" by (cases c rule: result_duplicate.cases) auto
  have "registry_of pr g R db reg' \<and> out = Inr (if result_duplicate c then ReceivedDuplicate status c a else ReceivedAccepted status c a) \<and>
    (result_accepted c \<longrightarrow> log_of reg' ?s = log_of reg ?s @ [a])"
  proof (cases "result_duplicate c")
    case True
    then show ?thesis using f snap reg excl by (simp add: receive_durable_def)
  next
    case False
    then have acc: "result_accepted (reg_classify reg a)" using u by simp
    note s = reg_ingest_step [OF ri(1), of a]
    have "snd (reg_ingest reg a) = Inr c" using reg_ingest_result [OF ri(1)] u(2) by simp
    then have r: "reg' = fst (reg_ingest reg a)" "out = Inr (ReceivedAccepted status c a)"
      using f snap False acc u(2) by (simp_all add: receive_durable_def split: prod.splits)
    have "linked ?s (log_of reg ?s @ [a])"
    proof -
      have "env_game (art_envelope a) = reg_gameId reg" using classified_cases(1) [OF ri(1,2), of a] acc ri(2) by simp
      then show ?thesis using reg_accepts [OF ri(1)] acc by simp
    qed
    then have seq: "env_seq (art_envelope a) = length (log_of reg ?s)" by (simp add: linked_snoc)
    have "prefix (log_of reg ?s @ [a]) (stored_log pr db g ?s)"
    proof -
      obtain zs where zs: "stored_log pr db g ?s = log_of reg ?s @ zs" using pre by (auto simp: prefix_def)
      have "length (log_of reg ?s) < length (stored_log pr db g ?s) \<and> stored_log pr db g ?s ! length (log_of reg ?s) = a"
        using linked_at [OF lk mem] seq by simp
      then show ?thesis using zs by (cases zs) (auto simp: nth_append prefix_def)
    qed
    then have "registry_of pr g R db reg'"
      using s(1-3) s(4) pre ri acc unfolding registry_of_def r(1) by auto
    then show ?thesis using r False acc s(4) [of ?s] by simp
  qed
  then show "registry_of pr g R db reg'" "out = Inr (if result_duplicate c then ReceivedDuplicate status c a else ReceivedAccepted status c a)"
    "result_accepted c \<Longrightarrow> log_of reg' ?s = log_of reg ?s @ [a]" by simp_all
qed

lemma finish_other:
  assumes "stored_as r = None" "receive_finish pr a c r reg = (reg', out)"
  shows "reg' = reg"
  using assms by (cases r rule: stored_as.cases) (auto simp: receive_finish_def)

lemma browser_step_inv:
  assumes laws: "codec_laws pr" and new: "newSessionChainRegistry pr (JBytes g) roster = Inr reg0"
    and inv: "browser_inv pr g (reg_roster reg0) b" and st: "browser_step pr g roster b b'"
  shows "browser_inv pr g (reg_roster reg0) b'"
  using st
proof cases
  case (receive_begins tabs i reg cand a c db)
  have r: "registry_of pr g (reg_roster reg0) db reg" and b: "browser_inv pr g (reg_roster reg0) (db, tabs)"
    using inv receive_begins(1,3) unfolding browser_inv_def by (metis fst_conv snd_conv tab.select_convs(1))+
  have "decodeAndVerifyEnvelope pr cand = Inr a" "c = reg_classify reg a" "result_accepted c \<or> result_duplicate c"
    using receive_begins(4) by (auto simp: receive_start_def result_simps Let_def split: if_splits)
  then have "under_way pr reg a c" using verified_artifact(1) [OF laws] by (simp add: under_way_def verified_def)
  then show ?thesis unfolding receive_begins(2) using tab_changes [OF b] r by (simp add: phase_ok_def)
next
  case (receive_persists tabs i reg a c fault db db' r)
  have b: "browser_inv pr g (reg_roster reg0) (db, tabs)" using inv receive_persists(1) by simp
  then have tb: "session_tables pr g (reg_roster reg0) db" and rg: "registry_of pr g (reg_roster reg0) db reg" and ph: "phase_ok pr g db (tabs i)"
    using receive_persists(3) unfolding browser_inv_def by (metis fst_conv snd_conv tab.select_convs(1))+
  have u: "under_way pr reg a c" using ph receive_persists(3) by (simp add: phase_ok_def)
  have ri: "reg_inv reg" "reg_gameId reg = g" "reg_roster reg = reg_roster reg0" "prefix (log_of reg (env_from (art_envelope a))) (stored_log pr db g (env_from (art_envelope a)))"
    using rg by (simp_all add: registry_of_def)
  have cl: "verified pr a" "result_accepted (reg_classify reg a) \<or> result_duplicate (reg_classify reg a)" using u by (auto simp: under_way_def)
  note k = classified_cases [OF ri(1,2) cl(2)]
  note p = persist_in_session [OF laws tb cl(1) k(1) k(2) [unfolded ri(3)] ri(4) k(3) receive_persists(4)]
  note b' = tables_grow [OF b p(1,2)]
  have "registry_of pr g (reg_roster reg0) db' reg" using b' receive_persists(3) unfolding browser_inv_def by (metis fst_conv snd_conv tab.select_convs(1))
  moreover have "x = a \<and> a \<in> set (stored_log pr db' g (env_from (art_envelope a)))" if "stored_as r = Some x" for x
    using that p(3) by (cases r rule: stored_as.cases) auto
  then have "phase_ok pr g db' \<lparr>tab_registry = reg, tab_phase = Persisted a c r\<rparr>" using u unfolding phase_ok_def by auto
  ultimately show ?thesis unfolding receive_persists(2) by (intro tab_changes [OF b']) simp_all
next
  case (receive_finishes tabs i reg a c r reg' out db)
  have b: "browser_inv pr g (reg_roster reg0) (db, tabs)" using inv receive_finishes(1) by simp
  then have tb: "session_tables pr g (reg_roster reg0) db" and rg: "registry_of pr g (reg_roster reg0) db reg" and ph: "phase_ok pr g db (tabs i)"
    using receive_finishes(3) unfolding browser_inv_def by (metis fst_conv snd_conv tab.select_convs(1))+
  have u: "under_way pr reg a c" and s: "\<And>x. stored_as r = Some x \<Longrightarrow> x = a \<and> a \<in> set (stored_log pr db g (env_from (art_envelope a)))"
    using ph receive_finishes(3) by (simp_all add: phase_ok_def)
  have lk: "linked (env_from (art_envelope a)) (stored_log pr db g (env_from (art_envelope a)))" using tb by (simp add: session_tables_def)
  have "registry_of pr g (reg_roster reg0) db reg'"
  proof (cases r rule: stored_as.cases)
    case (1 x)
    then show ?thesis using finish_durable(1) [OF rg u _ _ lk] s receive_finishes(4) by (auto simp: receive_finish_def)
  next
    case (2 x)
    then show ?thesis using finish_durable(1) [OF rg u _ _ lk] s receive_finishes(4) by (auto simp: receive_finish_def)
  qed (use finish_other [OF _ receive_finishes(4)] rg in auto)
  then show ?thesis unfolding receive_finishes(2) using tab_changes [OF b] by (simp add: phase_ok_def)
next
  case (authors self db tabs fault content guard)
  have b: "browser_inv pr g (reg_roster reg0) (db, tabs)" using inv authors(1) by simp
  have "pea_sender self \<in> set (reg_roster reg0)" using authors(4) newSessionChainRegistry_inv(2) [OF new] by auto
  with b show ?thesis unfolding authors(2)
    by (intro tables_grow [OF b] author_in_session [OF laws _ authors(3)]) (auto simp: browser_inv_def)
next
  case (reopens db records reg n tabs i)
  have b: "browser_inv pr g (reg_roster reg0) (db, tabs)" using inv reopens(1) by simp
  then have "session_tables pr g (reg_roster reg0) db" by (simp add: browser_inv_def)
  from recover_loaded [OF laws new this reopens(3)] reopens(4)
  have "registry_of pr g (reg_roster reg0) db reg" by (auto simp: registry_of_def)
  then show ?thesis unfolding reopens(2) using tab_changes [OF b] by (simp add: phase_ok_def)
qed

lemma browser_steps_inv:
  assumes "(browser_step pr g roster)\<^sup>*\<^sup>* b b'" "codec_laws pr" "newSessionChainRegistry pr (JBytes g) roster = Inr reg0"
    "browser_inv pr g (reg_roster reg0) b"
  shows "browser_inv pr g (reg_roster reg0) b'"
  using assms by (induction rule: rtranclp_induct) (auto intro: browser_step_inv)

lemma browser_start_inv:
  assumes "newSessionChainRegistry pr (JBytes g) roster = Inr reg0"
  shows "browser_inv pr g (reg_roster reg0) (newDatabase, \<lambda>_. \<lparr>tab_registry = reg0, tab_phase = Idle\<rparr>)"
proof -
  note i = newSessionChainRegistry_inv [OF assms]
  have "reg_gameId reg0 = g" using i(3) by simp
  moreover have "stored_log pr newDatabase g s = []" for s by (simp add: stored_log_def sender_rows_def newDatabase_def)
  ultimately show ?thesis
    using i(1,4) by (simp add: browser_inv_def registry_of_def session_tables_def new_db_inv phase_ok_def linked_def)
qed

section \<open>Properties\<close>

text \<open>C34: nothing that a session accepted is lost, and its tabs agree. From empty tables, whatever the tabs of a
  browser receive and author in whatever order, and wherever transactions are aborted and tabs closed and
  opened again: every chain of every open registry is a prefix of the stored chain of its sender, the stored
  chains are complete and linked, and loading the tables and recovering the session succeeds with a registry
  that holds every stored envelope.\<close>

theorem recovery_loses_nothing:
  assumes "codec_laws pr" "newSessionChainRegistry pr (JBytes g) roster = Inr reg0"
    and "(browser_step pr g roster)\<^sup>*\<^sup>* (newDatabase, \<lambda>_. \<lparr>tab_registry = reg0, tab_phase = Idle\<rparr>) (db, tabs)"
    and "int (length (db_transcripts db)) \<le> MAX_SAFE_INTEGER"
  shows "(\<forall>i s. prefix (log_of (tab_registry (tabs i)) s) (stored_log pr db g s)) \<and> (\<forall>s. linked s (stored_log pr db g s)) \<and>
    (\<exists>records reg. loadTranscript pr (JBytes g) db = Inr records \<and>
       recoverSessionChains pr (JBytes g) roster (map pte_artifact records) = Inr (reg, length records) \<and>
       reg_inv reg \<and> (\<forall>s. log_of reg s = stored_log pr db g s))"
proof -
  have inv: "browser_inv pr g (reg_roster reg0) (db, tabs)" by (rule browser_steps_inv [OF assms(3,1,2) browser_start_inv [OF assms(2)]])
  then have tb: "session_tables pr g (reg_roster reg0) db" and pre: "\<forall>i s. prefix (log_of (tab_registry (tabs i)) s) (stored_log pr db g s)"
    by (simp_all add: browser_inv_def registry_of_def)
  obtain records reg where "loadTranscript pr (JBytes g) db = Inr records"
      "recoverSessionChains pr (JBytes g) roster (map pte_artifact records) = Inr (reg, length records)"
      "reg_inv reg" "\<forall>s. log_of reg s = stored_log pr db g s"
    using recover_stored [OF assms(1,2) tb assms(4)] by blast
  then show ?thesis using pre tb unfolding session_tables_def by blast
qed

text \<open>C37: a durable envelope enters the session. Whenever a receiver resumes after a transaction that stored its
  envelope or found it stored, whatever other tabs did meanwhile, it throws no error: an envelope that was classified
  as accepted is appended to its sender's chain and reported as accepted, a repeated one is reported as a duplicate.
  When the transaction failed or the tables hold another envelope at the position, the registry is unchanged.\<close>

theorem durable_then_ingested:
  assumes "codec_laws pr" "newSessionChainRegistry pr (JBytes g) roster = Inr reg0"
    and "(browser_step pr g roster)\<^sup>*\<^sup>* (newDatabase, \<lambda>_. \<lparr>tab_registry = reg0, tab_phase = Idle\<rparr>) (db, tabs)"
    and "tabs i = \<lparr>tab_registry = reg, tab_phase = Persisted a c r\<rparr>" "receive_finish pr a c r reg = (reg', out)"
  shows "case r of
      Inr (PersistStored x) \<Rightarrow> out = Inr (if result_duplicate c then ReceivedDuplicate RowStored c a else ReceivedAccepted RowStored c a) \<and>
        (result_accepted c \<longrightarrow> log_of reg' (env_from (art_envelope a)) = log_of reg (env_from (art_envelope a)) @ [a])
    | Inr (PersistDuplicate x) \<Rightarrow> out = Inr (if result_duplicate c then ReceivedDuplicate RowDuplicate c a else ReceivedAccepted RowDuplicate c a) \<and>
        (result_accepted c \<longrightarrow> log_of reg' (env_from (art_envelope a)) = log_of reg (env_from (art_envelope a)) @ [a])
    | _ \<Rightarrow> reg' = reg"
proof -
  have inv: "browser_inv pr g (reg_roster reg0) (db, tabs)" by (rule browser_steps_inv [OF assms(3,1,2) browser_start_inv [OF assms(2)]])
  then have tb: "session_tables pr g (reg_roster reg0) db" and rg: "registry_of pr g (reg_roster reg0) db reg" and ph: "phase_ok pr g db (tabs i)"
    using assms(4) unfolding browser_inv_def by (metis fst_conv snd_conv tab.select_convs(1))+
  have u: "under_way pr reg a c" and s: "\<And>x. stored_as r = Some x \<Longrightarrow> x = a \<and> a \<in> set (stored_log pr db g (env_from (art_envelope a)))"
    using ph assms(4) by (simp_all add: phase_ok_def)
  have lk: "linked (env_from (art_envelope a)) (stored_log pr db g (env_from (art_envelope a)))" using tb by (simp add: session_tables_def)
  show ?thesis
  proof (cases r rule: stored_as.cases)
    case (1 x)
    then have x: "pte_artifact x = a" "a \<in> set (stored_log pr db g (env_from (art_envelope a)))"
      and rd: "receive_durable pr a c RowStored x reg = (reg', out)" using s assms(5) by (simp_all add: receive_finish_def)
    show ?thesis using finish_durable(2,3) [OF rg u x lk rd] 1 by simp
  next
    case (2 x)
    then have x: "pte_artifact x = a" "a \<in> set (stored_log pr db g (env_from (art_envelope a)))"
      and rd: "receive_durable pr a c RowDuplicate x reg = (reg', out)" using s assms(5) by (simp_all add: receive_finish_def)
    show ?thesis using finish_durable(2,3) [OF rg u x lk rd] 2 by simp
  qed (use finish_other [OF _ assms(5)] in auto)
qed

end
