(* ===== verification/Durable_Example.thy ===== *)
theory Durable_Example
  imports Durable_Theorems
begin

text \<open>
  A concrete session: on the toy primitives of the envelope examples, an identity authors its first
  envelope, a tab receives it and recovers it.
\<close>

definition example_self :: PersistentEnvelopeAuthor where
  "example_self = \<lparr>pea_gameId = replicate 16 7, pea_secretKey = replicate 32 1, pea_sender = replicate 32 9\<rparr>"

definition example_content :: EnvelopeContent where
  "example_content = \<lparr>ec_round = 0, ec_phase = ascii ''lobby'', ec_type = JOIN, ec_body = JNull\<rparr>"

definition example_row :: StoredTranscriptEnvelope where
  "example_row = \<lparr>st_arrival = 1, st_game = bytesToHex (replicate 16 7), st_sender = bytesToHex (replicate 32 9), st_seq = 0,
     st_bytes = [0, 0, 0], st_authored = True\<rparr>"

definition example_db :: P2pCardsDatabase where
  "example_db = \<lparr>db_transcripts = [example_row], db_nextArrival = 2,
     db_authoredHeads = [\<lparr>sah_game = bytesToHex (replicate 16 7), sah_sender = bytesToHex (replicate 32 9), sah_bytes = [0, 0, 0]\<rparr>],
     db_games = []\<rparr>"

lemma example_self_new: "newPersistentEnvelopeAuthor example_prims (JBytes (replicate 16 7)) (replicate 32 1) = Inr example_self"
proof -
  have "importEd25519SecretKey (replicate 32 1) = Inr (replicate 32 1)" "deriveEd25519PublicKey example_prims (replicate 32 1) = Inr (replicate 32 9)"
    by (simp_all add: importEd25519SecretKey_def deriveEd25519PublicKey_def assertLength_def ED25519_SECRET_KEY_LENGTH_def example_prims_def)
  then show ?thesis by (simp add: newPersistentEnvelopeAuthor_def field_defs parseFixedBytes_def example_self_def)
qed

lemma example_artifact_sel [simp]:
  "env_game (art_envelope example_artifact) = replicate 16 7" "env_from (art_envelope example_artifact) = replicate 32 9"
  "env_seq (art_envelope example_artifact) = 0" "env_prev (art_envelope example_artifact) = replicate 32 0"
  "art_canonicalBytes example_artifact = [0, 0, 0]"
  by (simp_all add: example_artifact_def example_signed_def example_envelope_def)

lemma example_sign_next: "sign_next example_prims example_self example_content None None = Inr (example_artifact, example_artifact)"
proof -
  have "next_unsigned example_self example_content None = Inr example_envelope"
    by (simp add: next_unsigned_def example_self_def example_content_def example_envelope_def ZERO_HASH_def)
  then show ?thesis
    using example_sign example_verified
    by (simp add: sign_next_def validateStoredHead_def run_guard_def example_self_def)
qed

lemma example_open: "open_checkpoint example_prims (JBytes (replicate 16 7)) (JBytes (replicate 32 9)) newDatabase =
    Inr (replicate 16 7, replicate 32 9, None, None)"
proof -
  have "withCheckpoint example_prims newDatabase (replicate 16 7) (replicate 32 9) = Inr None"
    by (simp add: withCheckpoint_def Let_def newDatabase_def get_head_def sender_rows_def decodeStoredHead_def validateCheckpoint_def)
  then show ?thesis by (simp add: open_checkpoint_def field_defs parseFixedBytes_def)
qed

lemma example_authored: "author_db example_prims None example_self example_content None newDatabase = (example_db, Inr example_artifact)"
proof -
  have c: "snapshotContent example_prims example_content = Inr example_content"
    using example_snapshot by (simp add: snapshotContent_def example_content_def)
  have v: "validateNextArtifact example_prims [0, 0, 0] (replicate 16 7) (replicate 32 9) None = Inr example_artifact"
    using example_verified by (simp add: validateNextArtifact_Inr MAX_AUTHORED_HISTORY_PAGE_BYTES_def ZERO_HASH_def)
  have s: "store_next newDatabase (replicate 16 7) (replicate 32 9) example_artifact = Inr (example_db, ())"
    by (simp add: store_next_def add_transcript_def get_transcript_def newDatabase_def put_head_def example_db_def example_row_def LAST_GENERATED_KEY_def)
  show ?thesis
    using example_sign_next example_open v s
    by (simp add: author_db_def author_def c authorAndPersist_def appendNext_def author_callback_def newCall_def Let_def transact_def
        call_result_def example_self_def)
qed

lemma example_row_decoded: "decoded example_prims example_row = example_artifact"
  using example_verified by (simp add: decoded_def example_row_def)

lemma example_authored_log: "authored_here example_prims example_self example_db = [example_artifact]"
  "stored_log example_prims example_db (replicate 16 7) (replicate 32 9) = [example_artifact]"
  using example_row_decoded
  by (simp_all add: authored_here_def authored_log_def authored_rows_def stored_log_def sender_rows_def example_self_def example_db_def)
    (simp_all add: example_row_def in_scope_def)

lemma example_db_step: "(db_step example_prims)\<^sup>*\<^sup>* newDatabase example_db"
proof -
  have "fst (snd (appendNext example_prims None (JBytes (replicate 16 7)) (JBytes (replicate 32 9)) (\<lambda>_ head. ((), Inr example_artifact)) () newDatabase)) = example_db"
    using example_open example_verified
    by (simp add: appendNext_def transact_def validateNextArtifact_Inr validateNextArtifact_def MAX_AUTHORED_HISTORY_PAGE_BYTES_def ZERO_HASH_def store_next_def
        add_transcript_def get_transcript_def newDatabase_def put_head_def example_db_def example_row_def LAST_GENERATED_KEY_def)
  then show ?thesis using db_step.append_next [of example_prims newDatabase None _ _ "\<lambda>_. Inr example_artifact"] by (metis r_into_rtranclp)
qed

theorem durable_history_witness:
  "distinct (map row_key (db_transcripts example_db)) \<and> linked (replicate 32 9) (authored_log example_prims example_db (replicate 16 7) (replicate 32 9))"
  using durable_history [OF example_laws example_db_step rtranclp.rtrancl_refl] by blast

theorem authoring_is_atomic_witness:
  "authored_here example_prims example_self example_db = authored_here example_prims example_self newDatabase @ [example_artifact] \<and>
   continues example_prims example_self example_content (authored_here example_prims example_self newDatabase) example_artifact"
proof -
  have "keypair_ok example_prims (pea_secretKey example_self)" using example_keypair by (simp add: example_self_def)
  from authoring_is_atomic [OF example_laws this rtranclp.rtrancl_refl example_authored] show ?thesis by simp
qed

theorem author_never_equivocates_witness:
  "subseq [example_artifact] (authored_here example_prims example_self example_db)"
proof -
  have "tab_step example_prims example_self (newDatabase, []) (example_db, [] @ [example_artifact])"
    by (rule tab_step.publish) (rule example_authored)
  then have "(tab_step example_prims example_self)\<^sup>*\<^sup>* (newDatabase, []) (example_db, [] @ [example_artifact])" by (rule r_into_rtranclp)
  from author_never_equivocates [OF example_laws this] show ?thesis by simp
qed

theorem authoring_succeeds_witness: "snd (author_db example_prims None example_self example_content None newDatabase) = Inr example_artifact"
proof (rule authoring_succeeds [where b = JNull])
  show "\<forall>a. decodeAndVerifyEnvelope example_prims [] \<noteq> Inr a"
    by (simp add: decodeAndVerifyEnvelope_Inr decodeCanonical_def example_prims_def table_decode_def result_simps)
  show "keypair_ok example_prims (pea_secretKey example_self)" using example_keypair by (simp add: example_self_def)
  have "authored_here example_prims example_self newDatabase = []"
    by (simp add: authored_here_def authored_log_def authored_rows_def sender_rows_def newDatabase_def)
  then show "signEnvelope example_prims \<lparr>env_v = 1, env_game = pea_gameId example_self, env_from = pea_sender example_self,
      env_seq = length (authored_here example_prims example_self newDatabase), env_prev = prev_hash (authored_here example_prims example_self newDatabase),
      env_round = ec_round example_content, env_phase = ec_phase example_content, env_type = ec_type example_content, env_body = JNull\<rparr>
      (pea_secretKey example_self) = Inr example_artifact"
    and "int (length (authored_here example_prims example_self newDatabase)) \<le> MAX_SAFE_INTEGER"
    using example_sign by (simp_all add: example_self_def example_content_def example_envelope_def prev_hash_def ZERO_HASH_def MAX_SAFE_INTEGER_def)
  show "run_guard example_prims None (head_of (authored_here example_prims example_self newDatabase)) = Inr ()" by (simp add: run_guard_def)
  show "snapshotCborValue example_prims (ec_body example_content) = Inr JNull" using example_snapshot by (simp add: example_content_def)
qed (simp_all add: example_laws example_self_def newDatabase_def MAX_AUTHORED_HISTORY_PAGE_BYTES_def LAST_GENERATED_KEY_def)

section \<open>Recovery\<close>

definition example_recovered :: SessionChainRegistry where
  "example_recovered = fst (reg_ingest example_registry example_artifact)"

lemma example_recovered_facts:
  "reg_inv example_recovered" "reg_gameId example_recovered = replicate 16 7" "reg_roster example_recovered = reg_roster example_registry"
  "log_of example_recovered s = (if s = replicate 32 9 then [example_artifact] else [])"
proof -
  note st = reg_ingest_step [OF example_registry_inv, of example_artifact]
  show "reg_inv example_recovered" "reg_roster example_recovered = reg_roster example_registry" using st by (simp_all add: example_recovered_def)
  show "reg_gameId example_recovered = replicate 16 7" using st(3) by (simp add: example_recovered_def example_registry_def)
  show "log_of example_recovered s = (if s = replicate 32 9 then [example_artifact] else [])"
    using st(4) [of s] newSessionChainRegistry_inv(4) [OF example_registry_new, of s] by (auto simp: example_recovered_def example_classify)
qed

theorem recovery_iff_witness:
  "recoverSessionChains example_prims (JBytes (replicate 16 7)) (map JBytes example_roster) [example_artifact] = Inr (example_recovered, 1)"
proof (rule recovery_iff [OF example_laws example_registry_new, THEN iffD2], intro conjI exI [of _ "[example_artifact]"])
  show "list_all2 (\<lambda>c a. decodeAndVerifyEnvelope example_prims (art_canonicalBytes c) = Inr a \<and> env_game (art_envelope a) = replicate 16 7)
      [example_artifact] [example_artifact]"
    using example_verified by simp
  show "\<forall>a \<in> set [example_artifact]. env_from (art_envelope a) \<in> set (reg_roster example_registry)"
    by (simp add: reg_roster_def example_registry_def example_roster_def upt_rec)
  show "\<forall>s. linked s (sender_chain [example_artifact] s) \<and> log_of example_recovered s = sender_chain [example_artifact] s"
    using example_artifact_linked by (auto simp: sender_chain_def example_recovered_facts linked_def [of _ "[]"])
qed (simp_all add: example_recovered_facts)

lemma example_browser:
  "browser_step example_prims (replicate 16 7) (map JBytes example_roster) (newDatabase, tabs) (example_db, tabs)"
proof -
  have "browser_step example_prims (replicate 16 7) (map JBytes example_roster) (newDatabase, tabs)
      (fst (author_db example_prims None example_self example_content None newDatabase), tabs)"
    by (rule browser_step.authors) (simp_all add: example_self_def example_roster_def)
  then show ?thesis by (simp add: example_authored)
qed

theorem recovery_loses_nothing_witness:
  "\<exists>records reg. loadTranscript example_prims (JBytes (replicate 16 7)) example_db = Inr records \<and>
     recoverSessionChains example_prims (JBytes (replicate 16 7)) (map JBytes example_roster) (map pte_artifact records) = Inr (reg, length records) \<and>
     log_of reg (replicate 32 9) = [example_artifact]"
proof -
  have "int (length (db_transcripts example_db)) \<le> MAX_SAFE_INTEGER" by (simp add: example_db_def MAX_SAFE_INTEGER_def)
  moreover have "(browser_step example_prims (replicate 16 7) (map JBytes example_roster))\<^sup>*\<^sup>*
      (newDatabase, \<lambda>_. \<lparr>tab_registry = example_registry, tab_phase = Idle\<rparr>) (example_db, \<lambda>_. \<lparr>tab_registry = example_registry, tab_phase = Idle\<rparr>)"
    by (rule r_into_rtranclp) (rule example_browser)
  ultimately show ?thesis using recovery_loses_nothing [OF example_laws example_registry_new] example_authored_log(2) by fastforce
qed

definition example_persisted :: "storage_error + AcceptedEnvelopePersistenceResult" where
  "example_persisted = Inr (PersistDuplicate \<lparr>pte_arrival = 1, pte_artifact = example_artifact, pte_authored = True\<rparr>)"

lemma example_persists: "persistAcceptedEnvelope example_prims None [0, 0, 0] example_db = (example_db, example_persisted)"
proof -
  have d: "decodeStoredTranscript example_prims example_row = Inr \<lparr>pte_arrival = 1, pte_artifact = example_artifact, pte_authored = True\<rparr>"
    using example_verified by (simp add: decodeStoredTranscript_def example_row_def snapshotArtifact_def parseArrivalKey_def safe_nat_def
        MAX_SAFE_INTEGER_def transcriptRecord_def)
  have g: "get_transcript example_db (bytesToHex (replicate 16 7)) (bytesToHex (replicate 32 9)) 0 = Some example_row"
    by (simp add: get_transcript_def example_db_def) (simp add: in_scope_def example_row_def)
  show ?thesis
    using d g example_verified
    by (simp add: persistAcceptedEnvelope_def snapshotArtifact_def persist_row_def Let_def transact_def sameArtifact_def example_persisted_def)
qed

theorem durable_then_ingested_witness:
  "receive_finish example_prims example_artifact (reg_classify example_registry example_artifact) example_persisted example_registry =
     (example_recovered, Inr (ReceivedAccepted RowDuplicate (reg_classify example_registry example_artifact) example_artifact))"
proof -
  let ?c = "reg_classify example_registry example_artifact" and ?g = "replicate 16 7" and ?R = "map JBytes example_roster"
  let ?tabs = "\<lambda>_ :: nat. \<lparr>tab_registry = example_registry, tab_phase = Idle\<rparr>"
  let ?t1 = "?tabs(0 := \<lparr>tab_registry = example_registry, tab_phase = Classified example_artifact ?c\<rparr>)"
  let ?t2 = "?t1(0 := \<lparr>tab_registry = example_registry, tab_phase = Persisted example_artifact ?c example_persisted\<rparr>)"
  have s1: "browser_step example_prims ?g ?R (newDatabase, ?tabs) (example_db, ?tabs)" by (rule example_browser)
  have "receive_start example_prims [0, 0, 0] example_registry = Inr (Inr (example_artifact, ?c))"
    using example_verified by (simp add: receive_start_def Let_def example_classify)
  then have s2: "browser_step example_prims ?g ?R (example_db, ?tabs) (example_db, ?t1)" by (intro browser_step.receive_begins) simp
  have s3: "browser_step example_prims ?g ?R (example_db, ?t1) (example_db, ?t2)"
    by (rule browser_step.receive_persists) (use example_persists in simp_all)
  obtain reg' out where f: "receive_finish example_prims example_artifact ?c example_persisted example_registry = (reg', out)" by fastforce
  have steps: "(browser_step example_prims ?g ?R)\<^sup>*\<^sup>* (newDatabase, ?tabs) (example_db, ?t2)"
    using s1 s2 s3 by (meson rtranclp.rtrancl_into_rtrancl r_into_rtranclp)
  have "out = Inr (ReceivedAccepted RowDuplicate ?c example_artifact)"
    using durable_then_ingested [OF example_laws example_registry_new steps _ f] by (simp add: example_persisted_def example_classify)
  moreover have "reg' = example_recovered"
    using f example_verified
    by (simp add: receive_finish_def receive_durable_def example_persisted_def snapshotStoredArtifact_def receiver_snapshot_def
        example_classify example_recovered_def split: prod.splits)
  ultimately show ?thesis using f by simp
qed

end
