(* ===== verification/Spec2Isabelle.thy ===== *)
theory Spec2Isabelle
  imports Sasku_Hand_Theorems Sasku_Action Session_Equivocation Transcript_Order Lobby_Theorems Frame_Theorems Reveal_Example Shuffle_Example
    Durable_Example
begin

text \<open>
  Tablefolk: a browser platform for card games between peers, without a server. The peers of a
  table agree on a roster in a lobby, exchange signed envelopes, each of which names the hash of the
  sender's previous one, compare the heads of their logs, fetch what they miss, and play Sasku, an
  Estonian trick game for two partnerships, over the envelopes. This development models the parts
  of the TypeScript sources that carry that logic and proves them correct. File names below are
  relative to \<^verbatim>\<open>src/packages\<close>.

  Conventions (\<open>Tablefolk_Prelude\<close>, \<open>Error_Machine\<close>). An operation that may throw returns a sum,
  \<open>Inl\<close> the error and \<open>Inr\<close> the result; an object with private fields is a record, a method takes
  the record and returns the new one with its result. A JavaScript \<open>Map\<close> or \<open>Set\<close> is an association
  list or a list in insertion order. Bytes are \<open>8 word\<close>, strings are lists of 16-bit code
  units, and a parameter whose TypeScript type the code checks at run time is a value of the
  datatype \<open>jsval\<close>. Safe integers that the code has already checked are \<open>nat\<close>. \<open>Error_Machine\<close>
  has the locales for a machine whose steps may throw: an invariant (\<open>error_machine\<close>) and a
  refinement between two machines (\<open>machine_refinement\<close>).

  Sasku. \<open>Sasku_Scoring\<close> models \<^verbatim>\<open>rules-sasku/src/scoring.ts\<close>: card points, the table of point totals
  that some set of scoring cards has, game points. \<open>Sasku_Cards\<close> and \<open>Sasku_Trick\<close> model
  \<^verbatim>\<open>rules-sasku/src/cards.ts\<close>: the deck, effective suits, legal cards and the winner of a trick, with
  the facts that the winner beats the other three cards and that following suit is required
  exactly when it is possible. \<open>Sasku_Hand\<close> models \<^verbatim>\<open>rules-sasku/src/hand.ts\<close>: auction, choice of
  trumps and nine tricks as a state machine over \<open>HandState\<close>, once with the hands (a full
  controller) and once without them (a public one), and the audit that replays a public history
  on a disclosed deal. \<open>Sasku_Hand_Inv\<close>, \<open>Sasku_Hand_Steps\<close>, \<open>Sasku_Hand_Props\<close> and
  \<open>Sasku_Hand_Theorems\<close> hold its invariant, that every accepted action keeps it, and what follows:
  cards are conserved, a player on turn can act and exactly the legal cards are accepted, a hand
  ends within 53 actions (the code allows 64), the public controller simulates the full one,
  and an audit always gives a verdict. \<open>Sasku_Action\<close> models \<^verbatim>\<open>rules-sasku/src/action.ts\<close>, the
  reading of an action from an envelope body.

  Encoding and cryptography. \<open>Encoding_Value\<close> models \<^verbatim>\<open>encoding/src\<close>: which values may be encoded,
  normalisation, and the rule that only the canonical bytes of a value decode. \<open>Crypto_Bytes\<close> models
  \<^verbatim>\<open>crypto/src\<close>: byte helpers, lengths of keys and hashes, acceptance of keys, rejection sampling and
  the shuffle of indices over an arbitrary source of bytes. The byte codec of cbor2, SHA-2 and the
  curve operations are libraries: fields of the record \<open>prims\<close>, which every definition that needs
  them takes, with their documented laws as named hypotheses of the theorems that use them
  (\<open>codec_laws\<close> for cbor2, \<open>keypair_ok\<close> for a key pair, \<open>collision_free\<close> for the hash, \<open>lobby_laws\<close> for
  what a lobby sees); a concrete instance satisfies the laws and is used by the examples.

  Messages. \<open>Protocol_Envelope\<close> models \<^verbatim>\<open>protocol/src\<close>: \<open>schema.ts\<close>, \<open>fields.ts\<close>, \<open>domains.ts\<close>,
  \<open>hash-inputs.ts\<close> and \<open>envelope.ts\<close>; \<open>Protocol_Envelope_Props\<close> shows that what decodes as an envelope is
  its canonical form with a valid signature of its sender, that a signed envelope decodes, and
  that inputs of different purposes differ. \<open>Protocol_Bodies\<close> models \<open>witness.ts\<close>, \<open>sync.ts\<close> and
  \<open>violation.ts\<close>, \<open>Protocol_Lobby\<close> models \<open>lobby.ts\<close>, each with the round trip of its bodies.

  Sessions. \<open>Sender_Chain\<close> models \<^verbatim>\<open>session/src/sender-chain.ts\<close> and \<open>Chain_Registry\<close>
  \<^verbatim>\<open>session/src/chain-registry.ts\<close>: the log of a sender is contiguous and linked from the zero hash,
  never changes but at its end, and is pinned by its head if hashes do not collide. On top of
  them are \<open>Session_Witness\<close> (\<open>witness.ts\<close>, \<open>sync-plan.ts\<close>: comparing two logs by their heads),
  \<open>Session_Sync\<close> (\<open>sync.ts\<close>: serving, validating and applying a missing range; a session that lags
  catches up), \<open>Session_Equivocation\<close> (\<open>equivocation.ts\<close>: two envelopes for one number always
  give evidence that every session of the game accepts, and accepted evidence is sound) and
  \<open>Transcript_Order\<close> (\<open>transcript-order.ts\<close>: the canonical order is a sort and independent of the
  order of collection).

  Lobby. \<open>Lobby_Bootstrap\<close> models every operation of \<^verbatim>\<open>session/src/lobby-bootstrap.ts\<close>: admission by
  JOIN, rosters of the creator, confirmations, and the transfer of the chains into a session
  once every seat has confirmed. \<open>Lobby_Inv\<close> has the invariant, \<open>Lobby_Steps\<close> that every operation
  keeps it and throws nowhere, \<open>Lobby_Theorems\<close> that a lobby is finalised exactly when every seat
  confirmed the same roster and is frozen from then on.

  Wire frames. \<open>Frame_Transport\<close> models \<^verbatim>\<open>transport/src/frame.ts\<close>: splitting a message into frames, their encoding,
  and the reassembler with its limits, expiry and timer. \<open>Frame_Inv\<close> and \<open>Frame_Steps\<close> hold the
  invariant and that every operation keeps it; \<open>Frame_Theorems\<close> shows that a message delivered in any
  order within the timeout is put together, that the limits are never exceeded, that no pending group
  is without a timer, and that the internal faults of the code cannot occur.

  Cards and setup. \<open>Ristretto_Group\<close> models \<^verbatim>\<open>crypto/src/ristretto.ts\<close> over the group of the noble
  library, which is a parameter with the laws \<open>ristretto_laws\<close>. \<open>Deck_Cards\<close> models \<^verbatim>\<open>deck/src\<close>
  (\<open>elgamal.ts\<close>, \<open>card-points.ts\<close>, \<open>proofs.ts\<close>); \<open>Deck_Theorems\<close> shows that a masked card opens to the card it was,
  that honest proofs verify, and that two accepted proofs with one commitment reveal the key.
  \<open>Engine_Setup\<close> models \<^verbatim>\<open>engine/src/randomness-beacon.ts\<close> and \<open>setup-coordinator.ts\<close>; \<open>Engine_Theorems\<close>
  has their invariants, that the commitments fix the seed, and that a complete setup has verified
  keys, their aggregate and the seed; \<open>Engine_Example\<close> runs a beacon and a setup of three seats.

  Rounds over envelopes. \<open>Deck_Wire\<close> models \<^verbatim>\<open>deck/src/wire.ts\<close> and \<open>action-wire.ts\<close>, the bodies of key shares, decryption
  shares, actions and audits, with their round trips. \<open>Engine_Envelopes\<close> models \<^verbatim>\<open>protocol/src/beacon-messages.ts\<close>,
  \<^verbatim>\<open>engine/src/action-envelope.ts\<close> and \<^verbatim>\<open>engine/src/setup-envelope-coordinator.ts\<close>; \<open>Engine_Envelope_Props\<close> shows that an
  action is accepted only from the expected seat in its scope and that classifying a setup
  envelope foretells what ingesting it does. \<open>Reveal_Ledger\<close> models \<^verbatim>\<open>engine/src/round-reveal-ledger.ts\<close>: the schedule of
  deals, the shares every seat owes, private hands and revealed cards. \<open>Reveal_Inv\<close> has its invariant and
  that committing an envelope keeps it; \<open>Reveal_Theorems\<close> that reveals are of dealt cards, once, and rest on
  verified shares, that a player's own contributions are accepted, and that commits are idempotent;
  \<open>Reveal_Honest\<close> that over an honestly masked deck the owner reads, and an action opens, the true cards.
  \<open>Example_Envelopes\<close>, \<open>Engine_Envelope_Example\<close> and \<open>Reveal_Example\<close> run a game of three seats over signed envelopes.

  Shuffles. \<open>Deck_Shuffle\<close> models \<^verbatim>\<open>deck/src/shuffle.ts\<close>, \<open>shuffle-statement.ts\<close>, \<open>shuffle-proof-codec.ts\<close> and
  \<open>shuffle-crs.ts\<close>; \<open>Shuffle_Codec\<close> shows that the decoders, which parse by hand, accept exactly what the encoders
  write (for statements under \<open>cbor_grammar\<close>, the heads that RFC 8949 prescribes), \<open>Shuffle_Relation\<close> that a prepared
  shuffle permutes and masks the deck and that shuffles compose. \<open>Shuffle_Ledger\<close> models
  \<^verbatim>\<open>engine/src/candidate-shuffle-ledger.ts\<close>, whose \<open>accept\<close> suspends while the verifier and the owner's barrier run, as
  separate steps that may interleave with other calls. \<open>Shuffle_Theorems\<close> shows that the accepted envelopes are
  a chain of verified statements in seat order and that, when the verifier is sound, a round on the
  final deck starts from the honestly masked deck that \<open>Reveal_Honest\<close> asks for; \<open>Shuffle_Example\<close> runs
  four shuffles of 36 cards.

  Durable sessions. \<open>Session_Storage\<close> models \<^verbatim>\<open>storage/src/database.ts\<close>, \<open>indexeddb-session-store.ts\<close> and
  \<open>indexeddb-envelope-store.ts\<close>: the tables of accepted and authored envelopes and every transaction on them, which the
  platform may abort. \<open>Storage_Inv\<close> has the invariant of the tables and that every transaction keeps it.
  \<open>Envelope_Author\<close> models \<^verbatim>\<open>session/src/envelope-author.ts\<close> and states, as the locale \<open>authored_store\<close>, what an author
  needs of a store; \<open>Author_Theorems\<close> shows that authoring is atomic, possible, and never equivocates across tabs.
  \<open>Session_Recovery\<close> models \<^verbatim>\<open>session/src/session-recovery.ts\<close> (which transcripts recover, and to what) and \<open>Durable_Session\<close>
  \<^verbatim>\<open>session/src/persistent-receiver.ts\<close>, in steps between its suspension points. \<open>Durable_Theorems\<close> composes
  receivers, authors, tables and recovery of several tabs: registries stay prefixes of the stored chains, what became
  durable is ingested, and reopening a tab loses nothing; \<open>Durable_Example\<close> runs a small session.

  Bounds and termination. All definitions are total. The loops of the modelled code that may
  not end are rejection sampling of an index and of a scalar: partial functions whose value \<open>None\<close> says that no draw of the
  source is ever accepted, and that return as soon as one is. Limits of the code
  (3 to 8 seats of a session, 128 envelopes and 4 MiB of a response, 64 actions, sizes of keys and hashes) are constants
  of the model with the code's values.

  Not modelled. The shuffle argument is the Rust code under \<^verbatim>\<open>experiments/shuffle-backend\<close>, built to
  WebAssembly: its verifier is a parameter of the ledger. IndexedDB is
  modelled by what the stores use of it: tables, keys, a unique index, a cursor, and transactions that run alone and
  leave no trace unless they commit; that a key range is available and that reads succeed is taken for granted. The
  persistent receivers of the lobby and of synchronisation, the stores of secrets and keys and the engine's
  authoring coordinate the modelled parts through promises. WebRTC, relay sockets and
  the web application are callbacks of browser objects. The order of properties of an object and
  the freezing of results have no counterpart in values of HOL.
\<close>

end
